(* ===== verification/Prelude.thy ===== *)
theory Prelude
  imports Complex_Main "HOL-Library.AList" "HOL-Library.Char_ord" "HOL-Library.List_Lexorder"
    "HOL-Library.Code_Target_Nat"
begin

text \<open>
  Shared vocabulary of the development: JavaScript numbers and untyped values, insertion-ordered
  \<open>Map\<close> and \<open>Set\<close> objects, the string operations of the standard library the code calls,
  and the generic lemmas and lemma collections the component theories rely on.

  Strings are lists of characters; a character stands for one UTF-16 code unit below 256, which
  covers every character the modelled code treats specially.
\<close>

subsection \<open>Lemma collections\<close>

named_theorems step_defs \<open>definitions of the operations of a component\<close>
named_theorems keeps \<open>an operation keeps the invariant of its component\<close>
named_theorems frame \<open>what an operation leaves unchanged\<close>

subsection \<open>Numbers and untyped values\<close>

text \<open>
  A JavaScript number is an IEEE double. Every finite double is a rational, and the operations the
  code applies to untyped numbers (comparison, \<open>Math.floor\<close>, \<open>Math.min\<close>,
  \<open>Number.isSafeInteger\<close>) are exact on them.
\<close>

datatype js_num = NaN | PosInf | NegInf | Fin rat

datatype js_value =
    JUndefined
  | JNull
  | JBool bool
  | JNum js_num
  | JString string
  | JArray "js_value list"
  | JObject "(string \<times> js_value) list"

definition MAX_SAFE_INTEGER :: nat where
  "MAX_SAFE_INTEGER = 9007199254740991"

lemma MAX_SAFE_INTEGER_pos [simp]: "0 < MAX_SAFE_INTEGER"
  by (simp add: MAX_SAFE_INTEGER_def)

fun finite_num :: "js_num \<Rightarrow> bool" where
  "finite_num (Fin q) = True"
| "finite_num _ = False"

text \<open>\<open>Number.isSafeInteger\<close>, giving the integer the number is.\<close>

fun safe_integer :: "js_num \<Rightarrow> int option" where
  "safe_integer (Fin q) =
     (if of_int (floor q) = q \<and> \<bar>floor q\<bar> \<le> int MAX_SAFE_INTEGER then Some (floor q) else None)"
| "safe_integer _ = None"

text \<open>Reading a member of an object: an absent one reads as \<open>undefined\<close>.\<close>

definition member_of :: "(string \<times> js_value) list \<Rightarrow> string \<Rightarrow> js_value" where
  "member_of ms k = (case map_of ms k of Some v \<Rightarrow> v | None \<Rightarrow> JUndefined)"

subsection \<open>Insertion-ordered maps and sets\<close>

text \<open>
  A \<open>Map\<close> iterates in insertion order, and storing under a key it already holds keeps the
  key's place: an association list with \<^const>\<open>AList.update\<close> and \<^const>\<open>AList.delete\<close>.
  A \<open>Set\<close> is a list without repetitions.
\<close>

type_synonym ('k, 'v) jsmap = "('k \<times> 'v) list"

abbreviation js_get :: "('k, 'v) jsmap \<Rightarrow> 'k \<Rightarrow> 'v option" where
  "js_get m k \<equiv> map_of m k"

abbreviation js_set :: "'k \<Rightarrow> 'v \<Rightarrow> ('k, 'v) jsmap \<Rightarrow> ('k, 'v) jsmap" where
  "js_set \<equiv> AList.update"

abbreviation js_delete :: "'k \<Rightarrow> ('k, 'v) jsmap \<Rightarrow> ('k, 'v) jsmap" where
  "js_delete \<equiv> AList.delete"

abbreviation js_keys :: "('k, 'v) jsmap \<Rightarrow> 'k list" where
  "js_keys m \<equiv> map fst m"

abbreviation js_values :: "('k, 'v) jsmap \<Rightarrow> 'v list" where
  "js_values m \<equiv> map snd m"

abbreviation js_has :: "('k, 'v) jsmap \<Rightarrow> 'k \<Rightarrow> bool" where
  "js_has m k \<equiv> map_of m k \<noteq> None"

text \<open>What a map with this representation always satisfies.\<close>

abbreviation js_map_ok :: "('k, 'v) jsmap \<Rightarrow> bool" where
  "js_map_ok m \<equiv> distinct (map fst m)"

definition set_add :: "'a \<Rightarrow> 'a list \<Rightarrow> 'a list" where
  "set_add x xs = (if x \<in> set xs then xs else xs @ [x])"

lemma set_set_add [simp]: "set (set_add x xs) = insert x (set xs)"
  by (auto simp: set_add_def)

lemma distinct_set_add [simp]: "distinct (set_add x xs) \<longleftrightarrow> distinct xs"
  by (auto simp: set_add_def)

text \<open>\<open>[...new Set(xs)]\<close>.\<close>

definition js_unique :: "'a list \<Rightarrow> 'a list" where
  "js_unique xs = foldl (\<lambda>m x. set_add x m) [] xs"

lemma js_unique_set: "set (js_unique xs) = set xs"
proof -
  have "set (foldl (\<lambda>m x. set_add x m) ys xs) = set ys \<union> set xs" for ys :: "'a list"
    by (induction xs arbitrary: ys) auto
  then show ?thesis by (simp add: js_unique_def)
qed

lemma js_get_set [simp]: "js_get (js_set k v m) k' = (if k' = k then Some v else js_get m k')"
  by (simp add: update_conv')

lemma js_get_delete [simp]: "js_get (js_delete k m) k' = (if k' = k then None else js_get m k')"
  by (simp add: delete_conv')

lemma js_keys_set [simp]: "fst ` set (js_set k v m) = insert k (fst ` set m)"
  by (simp add: dom_update)

lemma js_keys_delete [simp]: "fst ` set (js_delete k m) = fst ` set m - {k}"
  by (auto simp: delete_keys [symmetric] AList.delete_eq)

lemma js_map_ok_set [simp]: "js_map_ok m \<Longrightarrow> js_map_ok (js_set k v m)"
  by (rule distinct_update)

lemma js_map_ok_delete [simp]: "js_map_ok m \<Longrightarrow> js_map_ok (js_delete k m)"
  by (rule distinct_delete)

lemma js_has_iff: "js_has m k \<longleftrightarrow> k \<in> fst ` set m"
  by (simp add: map_of_eq_None_iff)

lemma js_get_in: "js_get m k = Some v \<Longrightarrow> (k, v) \<in> set m"
  by (rule map_of_SomeD)

lemma js_in_get: "js_map_ok m \<Longrightarrow> (k, v) \<in> set m \<longleftrightarrow> js_get m k = Some v"
  by (simp add: map_of_eq_Some_iff)

lemma js_set_same: "js_get ms k = Some v \<Longrightarrow> js_set k v ms = ms"
  by (induction ms) (auto split: if_splits)

lemma js_set_new: "k \<notin> fst ` set m \<Longrightarrow> js_set k v m = m @ [(k, v)]"
  by (induction m) auto

lemma length_js_set: "length (js_set k v m) = (if js_has m k then length m else length m + 1)"
  by (induction m) auto

lemma length_js_set_le: "length (js_set k v m) \<le> Suc (length m)"
  by (simp add: length_js_set)

lemma js_set_in:
  "js_map_ok m \<Longrightarrow> (k', v') \<in> set (js_set k v m) \<longleftrightarrow> (if k' = k then v' = v else (k', v') \<in> set m)"
  using js_in_get [of "js_set k v m" k' v'] js_in_get [of m k' v'] js_map_ok_set [of m k v]
  by (simp del: js_map_ok_set) blast

lemma js_delete_in:
  "js_map_ok m \<Longrightarrow> (k', v') \<in> set (js_delete k m) \<longleftrightarrow> k' \<noteq> k \<and> (k', v') \<in> set m"
  using js_in_get [of "js_delete k m" k' v'] js_in_get [of m k' v'] js_map_ok_delete [of m k]
  by (simp del: js_map_ok_delete)

lemma js_values_set: "set (js_values (js_set k v m)) \<subseteq> insert v (set (js_values m))"
  by (induction m) auto

lemma js_values_delete: "set (js_values (js_delete k m)) \<subseteq> set (js_values m)"
  by (induction m) (auto simp: AList.delete_eq)

text \<open>
  Sums over the values of a map: what storing and deleting an entry does to a total. The totals are
  read off before the change, so no truncated subtraction is involved.
\<close>

lemma js_delete_notin: "k \<notin> fst ` set m \<Longrightarrow> js_delete k m = m"
  by (rule delete_id)

lemma js_sum_set:
  "js_map_ok m \<Longrightarrow> sum_list (map f (js_values (js_set k v m))) + (case js_get m k of None \<Rightarrow> 0 | Some w \<Rightarrow> f w)
     = sum_list (map f (js_values m)) + (f v :: 'n :: comm_monoid_add)"
proof (induction m)
  case (Cons p m)
  then show ?case by (cases p) (auto simp: algebra_simps)
qed simp

lemma js_sum_delete:
  "js_map_ok m \<Longrightarrow> sum_list (map f (js_values (js_delete k m))) + (case js_get m k of None \<Rightarrow> 0 | Some w \<Rightarrow> f w)
     = (sum_list (map f (js_values m)) :: 'n :: comm_monoid_add)"
proof (induction m)
  case (Cons p m)
  show ?case
  proof (cases "fst p = k")
    case True
    with Cons.prems have "k \<notin> fst ` set m" by auto
    with True show ?thesis by (cases p) (simp add: delete_id algebra_simps)
  next
    case False
    with Cons show ?thesis by (cases p) (simp add: algebra_simps)
  qed
qed simp

lemma js_value_le_sum:
  fixes m :: "('k, nat) jsmap"
  shows "js_get m k = Some v \<Longrightarrow> v \<le> sum_list (js_values m)"
  by (induction m) (auto split: if_splits)

subsection \<open>Strings\<close>

definition is_digit :: "char \<Rightarrow> bool" where
  "is_digit c \<longleftrightarrow> CHR ''0'' \<le> c \<and> c \<le> CHR ''9''"

definition is_upper :: "char \<Rightarrow> bool" where
  "is_upper c \<longleftrightarrow> CHR ''A'' \<le> c \<and> c \<le> CHR ''Z''"

definition is_lower :: "char \<Rightarrow> bool" where
  "is_lower c \<longleftrightarrow> CHR ''a'' \<le> c \<and> c \<le> CHR ''z''"

text \<open>\<open>String.prototype.trim\<close>: tab to carriage return, space and the no-break space.\<close>

definition is_space :: "char \<Rightarrow> bool" where
  "is_space c \<longleftrightarrow> (let n = of_char c :: nat in (9 \<le> n \<and> n \<le> 13) \<or> n = 32 \<or> n = 160)"

definition js_trim :: "string \<Rightarrow> string" where
  "js_trim s = rev (dropWhile is_space (rev (dropWhile is_space s)))"

text \<open>\<open>String.prototype.toLowerCase\<close> below code unit 256.\<close>

definition lower_char :: "char \<Rightarrow> char" where
  "lower_char c = (let n = of_char c :: nat in
     if (65 \<le> n \<and> n \<le> 90) \<or> (192 \<le> n \<and> n \<le> 214) \<or> (216 \<le> n \<and> n \<le> 222)
     then char_of (n + 32) else c)"

definition js_lower :: "string \<Rightarrow> string" where
  "js_lower = map lower_char"

definition starts_with :: "string \<Rightarrow> string \<Rightarrow> bool" where
  "starts_with s p \<longleftrightarrow> take (length p) s = p"

definition ends_with :: "string \<Rightarrow> string \<Rightarrow> bool" where
  "ends_with s p \<longleftrightarrow> starts_with (rev s) (rev p)"

text \<open>\<open>split\<close> by one character: the pieces between its occurrences, never none.\<close>

fun split_on :: "char \<Rightarrow> string \<Rightarrow> string list" where
  "split_on d [] = [[]]"
| "split_on d (c # s) =
     (if c = d then [] # split_on d s
      else (case split_on d s of [] \<Rightarrow> [[c]] | p # ps \<Rightarrow> (c # p) # ps))"

text \<open>\<open>String.prototype.indexOf\<close>: the first place the text occurs at.\<close>

fun index_of :: "string \<Rightarrow> string \<Rightarrow> nat option" where
  "index_of s p =
     (if starts_with s p then Some 0
      else case s of [] \<Rightarrow> None | c # s' \<Rightarrow> map_option Suc (index_of s' p))"

definition pad_start :: "nat \<Rightarrow> char \<Rightarrow> string \<Rightarrow> string" where
  "pad_start n c s = replicate (n - length s) c @ s"

definition pad_end :: "nat \<Rightarrow> char \<Rightarrow> string \<Rightarrow> string" where
  "pad_end n c s = s @ replicate (n - length s) c"

text \<open>\<open>Buffer.byteLength\<close> in UTF-8, of code units below 256.\<close>

definition utf8_length :: "string \<Rightarrow> nat" where
  "utf8_length s = sum_list (map (\<lambda>c. if (of_char c :: nat) < 128 then 1 else 2) s)"

text \<open>A text between double quotes.\<close>

definition quoted :: "string \<Rightarrow> string" where
  "quoted s = CHR 0x22 # s @ [CHR 0x22]"

text \<open>\<open>join\<close>.\<close>

fun join_with :: "string \<Rightarrow> string list \<Rightarrow> string" where
  "join_with sep [] = []"
| "join_with sep [x] = x"
| "join_with sep (x # xs) = x @ sep @ join_with sep xs"

lemma split_on_not_Nil [simp]: "split_on d s \<noteq> []"
  by (induction s) (auto split: list.splits)

lemma split_on_none: "d \<notin> set s \<Longrightarrow> split_on d s = [s]"
  by (induction s) auto

lemma split_on_append: "d \<notin> set s \<Longrightarrow> split_on d (s @ d # t) = s # split_on d t"
proof (induction s)
  case (Cons c s)
  then show ?case by (cases "split_on d t") auto
qed simp

lemma join_with_Cons: "join_with sep (x # xs) = x @ (if xs = [] then [] else sep @ join_with sep xs)"
  by (cases xs) simp_all

lemma split_join_concat: "ss \<noteq> [] \<Longrightarrow> split_on d (join_with [d] ss) = concat (map (split_on d) ss)"
proof (induction ss)
  case (Cons s ss)
  have app: "split_on d (p @ d # q) = split_on d p @ split_on d q" for p q
  proof (induction p)
    case (Cons c p)
    then show ?case by (cases "split_on d p") auto
  qed simp
  from Cons app show ?case by (cases "ss = []") (simp_all add: join_with_Cons)
qed simp

lemma split_join_lines:
  "ss \<noteq> [] \<Longrightarrow> \<forall>s \<in> set ss. d \<notin> set s \<Longrightarrow> split_on d (join_with [d] ss) = ss"
proof -
  assume "ss \<noteq> []" and pieces: "\<forall>s \<in> set ss. d \<notin> set s"
  have "concat (map (split_on d) ss) = ss" using pieces by (induction ss) (simp_all add: split_on_none)
  with split_join_concat [OF \<open>ss \<noteq> []\<close>] show ?thesis by simp
qed

lemma length_pad_end [simp]: "length (pad_end n c s) = max n (length s)"
  by (simp add: pad_end_def)

lemma starts_with_append [simp]: "starts_with (p @ s) p"
  by (simp add: starts_with_def)

lemma starts_with_iff: "starts_with s p \<longleftrightarrow> (\<exists>t. s = p @ t)"
  by (metis append_take_drop_id starts_with_def starts_with_append)

subsection \<open>Trimming\<close>

lemma js_trim_parts: "\<exists>a z. s = a @ js_trim s @ z \<and> list_all is_space a \<and> list_all is_space z"
proof (intro exI conjI)
  let ?t = "dropWhile is_space s"
  show "s = takeWhile is_space s @ js_trim s @ rev (takeWhile is_space (rev ?t))"
    unfolding js_trim_def rev_append [symmetric] takeWhile_dropWhile_id rev_rev_ident ..
  have ok: "list_all is_space (takeWhile is_space x)" for x by (induction x) simp_all
  show "list_all is_space (takeWhile is_space s)" by (rule ok)
  show "list_all is_space (rev (takeWhile is_space (rev ?t)))" unfolding list_all_rev by (rule ok)
qed

lemma js_trim_ends: "js_trim s \<noteq> [] \<Longrightarrow> \<not> is_space (hd (js_trim s)) \<and> \<not> is_space (last (js_trim s))"
proof -
  let ?t = "dropWhile is_space s"
  assume ne: "js_trim s \<noteq> []"
  then have t2: "dropWhile is_space (rev ?t) \<noteq> []" unfolding js_trim_def rev_is_Nil_conv .
  then have t: "?t \<noteq> []" by (metis dropWhile.simps(1) rev.simps(1))
  have "last (js_trim s) = hd (dropWhile is_space (rev ?t))" by (simp add: js_trim_def last_rev)
  moreover have "hd (js_trim s) = hd ?t"
  proof -
    obtain z where "?t = js_trim s @ z" unfolding js_trim_def
      by (metis rev_append rev_rev_ident takeWhile_dropWhile_id)
    with ne show ?thesis by (metis hd_append2)
  qed
  ultimately show ?thesis using hd_dropWhile t t2 by metis
qed

lemma js_trim_id: "s = [] \<or> \<not> is_space (hd s) \<and> \<not> is_space (last s) \<Longrightarrow> js_trim s = s"
proof -
  assume a: "s = [] \<or> \<not> is_space (hd s) \<and> \<not> is_space (last s)"
  then have "dropWhile is_space s = s" by (auto simp: dropWhile_eq_self_iff)
  moreover have "dropWhile is_space (rev s) = rev s" using a by (auto simp: dropWhile_eq_self_iff hd_rev)
  ultimately show ?thesis by (simp add: js_trim_def)
qed

lemma js_trim_idem [simp]: "js_trim (js_trim s) = js_trim s"
  using js_trim_ends [of s] by (intro js_trim_id) blast

lemma js_trim_set: "set (js_trim s) \<subseteq> set s"
  using js_trim_parts [of s] by (metis Un_upper1 Un_upper2 order_trans set_append)

subsection \<open>Decimal text\<close>

definition digit_value :: "char \<Rightarrow> int" where
  "digit_value c = int (of_char c) - 48"

definition digit_char :: "int \<Rightarrow> char" where
  "digit_char d = char_of (48 + d)"

text \<open>\<open>BigInt\<close> of a text of decimal digits, and the decimal text of an integer.\<close>

definition big_of_digits :: "string \<Rightarrow> int" where
  "big_of_digits = foldl (\<lambda>n c. 10 * n + digit_value c) 0"

function show_pos :: "int \<Rightarrow> string" where
  "show_pos n = (if n < 10 then [digit_char n] else show_pos (n div 10) @ [digit_char (n mod 10)])"
  by pat_completeness auto
termination
  by (relation "measure nat") auto

declare show_pos.simps [simp del]

definition show_big :: "int \<Rightarrow> string" where
  "show_big i = (if i < 0 then ''-'' @ show_pos (- i) else show_pos i)"

text \<open>The operator \<open>??\<close>.\<close>

definition or_else :: "'a option \<Rightarrow> 'a option \<Rightarrow> 'a option" where
  "or_else x y = (case x of Some a \<Rightarrow> Some a | None \<Rightarrow> y)"

text \<open>The first element that has an answer.\<close>

fun first_some :: "('a \<Rightarrow> 'b option) \<Rightarrow> 'a list \<Rightarrow> 'b option" where
  "first_some f [] = None"
| "first_some f (x # xs) = or_else (f x) (first_some f xs)"

subsection \<open>Results that may be an error\<close>

text \<open>A result is a sum: \<open>Inl\<close> the error that was thrown, \<open>Inr\<close> the value.\<close>

definition bind_sum :: "'e + 'a \<Rightarrow> ('a \<Rightarrow> 'e + 'b) \<Rightarrow> 'e + 'b" where
  "bind_sum r f = (case r of Inl e \<Rightarrow> Inl e | Inr x \<Rightarrow> f x)"

lemma bind_sum_simps [simp]: "bind_sum (Inl e) f = Inl e" "bind_sum (Inr x) f = f x"
  by (simp_all add: bind_sum_def)

lemma bind_sum_Inr_iff: "bind_sum r f = Inr y \<longleftrightarrow> (\<exists>x. r = Inr x \<and> f x = Inr y)"
  by (cases r) simp_all

subsection \<open>Consumers of a stream in chunks\<close>

text \<open>
  A reader that is fed a byte stream in chunks of any size promises that the cuts do not matter:
  writing two chunks one after the other is writing their concatenation. Everything a client can
  conclude from that promise is proved here once.
\<close>

locale chunked_reader =
  fixes consume :: "'s \<Rightarrow> 'b list \<Rightarrow> 's"
  assumes consume_Nil: "consume s [] = s"
    and consume_append: "consume s (xs @ ys) = consume (consume s xs) ys"
begin

lemma feed_concat: "foldl consume s chunks = consume s (concat chunks)"
  by (induction chunks arbitrary: s) (simp_all add: consume_Nil consume_append)

lemma feed_same_stream: "concat cs = concat ds \<Longrightarrow> foldl consume s cs = foldl consume s ds"
  by (simp add: feed_concat)

lemma feed_bytewise: "foldl consume s chunks = foldl (\<lambda>s b. consume s [b]) s (concat chunks)"
proof -
  have bytes: "consume s xs = foldl (\<lambda>s b. consume s [b]) s xs" for s xs
  proof (induction xs arbitrary: s)
    case Nil
    show ?case by (simp add: consume_Nil)
  next
    case (Cons x xs)
    have "consume s (x # xs) = consume (consume s [x]) xs"
      using consume_append [of s "[x]" xs] by simp
    also have "\<dots> = foldl (\<lambda>s b. consume s [b]) (consume s [x]) xs" by (rule Cons.IH)
    finally show ?case by simp
  qed
  show ?thesis unfolding feed_concat by (rule bytes)
qed

end

subsection \<open>Systems that pay for what they do\<close>

text \<open>Running operations one after the other, collecting their effects.\<close>

fun run_trace :: "('s \<Rightarrow> 'o \<Rightarrow> 's \<times> 'f list) \<Rightarrow> 's \<Rightarrow> 'o list \<Rightarrow> 's \<times> 'f list" where
  "run_trace step s [] = (s, [])"
| "run_trace step s (op # ops) =
     (let r = step s op; rest = run_trace step (fst r) ops in (fst rest, snd r @ snd rest))"

text \<open>
  A system with a potential: each operation keeps the invariant, and what its effects cost is taken from the
  potential. However long it runs, its effects cost no more than the potential it started with.
\<close>

locale metered_system =
  fixes step :: "'s \<Rightarrow> 'o \<Rightarrow> 's \<times> 'f list"
    and good :: "'s \<Rightarrow> bool"
    and fuel :: "'s \<Rightarrow> nat"
    and cost :: "'f list \<Rightarrow> nat"
  assumes good_step: "good s \<Longrightarrow> good (fst (step s op))"
    and step_paid: "good s \<Longrightarrow> cost (snd (step s op)) + fuel (fst (step s op)) \<le> fuel s"
    and cost_Nil: "cost [] = 0"
    and cost_append: "cost (xs @ ys) = cost xs + cost ys"
begin

lemma trace_paid:
  "good s \<Longrightarrow> good (fst (run_trace step s ops))
     \<and> cost (snd (run_trace step s ops)) + fuel (fst (run_trace step s ops)) \<le> fuel s"
proof (induction ops arbitrary: s)
  case (Cons op ops)
  from Cons.IH [OF good_step [OF Cons.prems], of op] step_paid [OF Cons.prems, of op]
  show ?case by (simp add: Let_def cost_append)
qed (simp add: cost_Nil)

lemma trace_cost: "good s \<Longrightarrow> cost (snd (run_trace step s ops)) \<le> fuel s"
  using trace_paid [of s ops] by simp

end

end
