(* ===== verification/Money.thy ===== *)
theory Money
  imports Prelude "HOL-Library.Signed_Division"
begin

text \<open>
  Spend money arithmetic (\<open>src/models/spend/Money.ts\<close>). Amounts are \<open>bigint\<close> nano-dollars,
  modelled as \<^typ>\<open>int\<close>; \<open>bigint\<close> division truncates towards zero, which is
  \<open>sdiv\<close>. The texts the regular expressions accept are decided by recursive matchers.
  \<open>String(value)\<close> of a number is the runtime's shortest decimal text of a double; it is the
  parameter \<open>num_text\<close> of the functions that use it.
\<close>

subsection \<open>Parsing\<close>

definition NANO_PER_USD :: int where
  "NANO_PER_USD = 1000000000"

definition TOKENS_PER_MILLION :: int where
  "TOKENS_PER_MILLION = 1000000"

definition MIN_TARGET_NANO_USD :: int where
  "MIN_TARGET_NANO_USD = 1000"

definition MAX_TARGET_NANO_USD :: int where
  "MAX_TARGET_NANO_USD = 1000000 * NANO_PER_USD"

text \<open>\<open>0|[1-9]\d{0,n}\<close>: an integer text with no leading zero and at most \<open>n + 1\<close> digits.\<close>

definition canonical_whole :: "nat \<Rightarrow> string \<Rightarrow> bool" where
  "canonical_whole n w \<longleftrightarrow> w = ''0'' \<or>
     (w \<noteq> [] \<and> list_all is_digit w \<and> hd w \<noteq> CHR ''0'' \<and> length w \<le> Suc n)"

text \<open>\<open>CANONICAL_USD\<close>, with its two groups.\<close>

definition canonical_usd :: "string \<Rightarrow> (string \<times> string option) option" where
  "canonical_usd s =
     (let w = takeWhile is_digit s; r = dropWhile is_digit s in
      if \<not> canonical_whole 6 w then None
      else case r of
          [] \<Rightarrow> Some (w, None)
        | c # f \<Rightarrow>
            if c = CHR ''.'' \<and> 1 \<le> length f \<and> length f \<le> 6 \<and> list_all is_digit f
            then Some (w, Some f) else None)"

definition parseTargetUsd :: "js_value \<Rightarrow> int option" where
  "parseTargetUsd v = (case v of
       JString s \<Rightarrow>
         (case canonical_usd s of
            None \<Rightarrow> None
          | Some (w, f) \<Rightarrow>
              let whole = big_of_digits w;
                  fraction = big_of_digits (pad_end 9 (CHR ''0'') (case f of None \<Rightarrow> [] | Some f \<Rightarrow> f));
                  nano = whole * NANO_PER_USD + fraction
              in if MIN_TARGET_NANO_USD \<le> nano \<and> nano \<le> MAX_TARGET_NANO_USD then Some nano else None)
     | _ \<Rightarrow> None)"

definition parseNanoUsd :: "js_value \<Rightarrow> int option" where
  "parseNanoUsd v = (case v of
       JString s \<Rightarrow> if canonical_whole 29 s then Some (big_of_digits s) else None
     | _ \<Rightarrow> None)"

definition nanoToString :: "int \<Rightarrow> string" where
  "nanoToString value = show_big (if value < 0 then 0 else value)"

subsection \<open>Exact decimals\<close>

record decimal =
  digits :: int
  scale :: nat

text \<open>\<open>(\d+)(?:\.(\d+))?(?:[eE]([+-]?\d+))?\<close>: whole digits, fraction digits, exponent.\<close>

definition match_exponent :: "string \<Rightarrow> int option" where
  "match_exponent r = (case r of
       [] \<Rightarrow> Some 0
     | e # x \<Rightarrow>
         let (sign, d) = (case x of
               [] \<Rightarrow> (1, x)
             | c # y \<Rightarrow> if c = CHR ''-'' then (- 1, y) else if c = CHR ''+'' then (1, y) else (1, x))
         in if (e = CHR ''e'' \<or> e = CHR ''E'') \<and> d \<noteq> [] \<and> list_all is_digit d
            then Some (sign * big_of_digits d) else None)"

definition match_decimal :: "string \<Rightarrow> (string \<times> string \<times> int) option" where
  "match_decimal s =
     (let w = takeWhile is_digit s; r = dropWhile is_digit s in
      if w = [] then None
      else
        let (f, r') = (case r of
              c # y \<Rightarrow> if c = CHR ''.'' then (Some (takeWhile is_digit y), dropWhile is_digit y) else (None, r)
            | [] \<Rightarrow> (None, r))
        in if f = Some [] then None
           else map_option (\<lambda>e. (w, (case f of None \<Rightarrow> [] | Some f \<Rightarrow> f), e)) (match_exponent r'))"

definition exactDecimal :: "(rat \<Rightarrow> string) \<Rightarrow> js_value \<Rightarrow> decimal option" where
  "exactDecimal num_text v =
     (let text = (case v of
            JNum (Fin q) \<Rightarrow> if q < 0 then None else Some (num_text q)
          | JString s \<Rightarrow> Some (js_trim s)
          | _ \<Rightarrow> None)
      in case text of
           None \<Rightarrow> None
         | Some t \<Rightarrow>
             (case match_decimal t of
                None \<Rightarrow> None
              | Some (w, f, e) \<Rightarrow>
                  let digits = big_of_digits (w @ f);
                      scale = int (length f) - e
                  in if \<bar>scale\<bar> > 400 then None
                     else if scale < 0 then Some \<lparr>digits = digits * 10 ^ nat (- scale), scale = 0\<rparr>
                     else Some \<lparr>digits = digits, scale = nat scale\<rparr>))"

definition billedUsdToNano :: "(rat \<Rightarrow> string) \<Rightarrow> js_value \<Rightarrow> int option" where
  "billedUsdToNano num_text v = (case exactDecimal num_text v of
       None \<Rightarrow> None
     | Some d \<Rightarrow> Some ((digits d * NANO_PER_USD) sdiv 10 ^ scale d))"

definition scaleNano :: "(rat \<Rightarrow> string) \<Rightarrow> int \<Rightarrow> js_value \<Rightarrow> int option" where
  "scaleNano num_text rate ratio = (case exactDecimal num_text ratio of
       None \<Rightarrow> None
     | Some d \<Rightarrow> Some ((rate * digits d) sdiv 10 ^ scale d))"

subsection \<open>Costs\<close>

record nano_rates =
  r_input :: int
  r_output :: int
  r_cachedInput :: "int option"

record token_counts =
  tc_input :: js_num
  tc_cachedInput :: "js_num option"
  tc_output :: js_num

text \<open>\<open>BigInt(Math.max(0, Math.floor(x)))\<close>; \<open>None\<close> where \<open>BigInt\<close> throws.\<close>

fun big_count :: "js_num \<Rightarrow> int option" where
  "big_count (Fin q) = Some (max 0 (floor q))"
| "big_count NegInf = Some 0"
| "big_count _ = None"

definition costNano :: "token_counts \<Rightarrow> nano_rates \<Rightarrow> int option" where
  "costNano tokens rates =
     (case big_count (tc_input tokens) of None \<Rightarrow> None | Some input \<Rightarrow>
      case big_count (case tc_cachedInput tokens of None \<Rightarrow> Fin 0 | Some c \<Rightarrow> c) of None \<Rightarrow> None | Some cachedRaw \<Rightarrow>
      let cached = (if cachedRaw > input then input else cachedRaw);
          fresh = input - cached
      in case big_count (tc_output tokens) of None \<Rightarrow> None | Some output \<Rightarrow>
         Some ((fresh * r_input rates) sdiv TOKENS_PER_MILLION
           + (cached * (case r_cachedInput rates of None \<Rightarrow> r_input rates | Some r \<Rightarrow> r)) sdiv TOKENS_PER_MILLION
           + (output * r_output rates) sdiv TOKENS_PER_MILLION))"

subsection \<open>Display\<close>

text \<open>The thousands separators: a comma wherever a positive multiple of three digits follows.\<close>

fun group_digits :: "string \<Rightarrow> string" where
  "group_digits (a # b # c # d # r) = a # b # c # CHR '','' # group_digits (d # r)"
| "group_digits r = r"

definition commas :: "string \<Rightarrow> string" where
  "commas s = rev (group_digits (rev s))"

definition formatUsd :: "int \<Rightarrow> string" where
  "formatUsd nano =
     (let value = (if nano < 0 then 0 else nano);
          dg = (if value \<ge> NANO_PER_USD sdiv 100 then 2 else if value \<ge> NANO_PER_USD sdiv 10000 then 4 else 6);
          unit = 10 ^ (9 - dg);
          rounded = (value + unit sdiv 2) sdiv unit;
          whole = rounded sdiv 10 ^ dg;
          fraction = pad_start dg (CHR ''0'') (show_big (rounded smod 10 ^ dg))
      in ''$'' @ commas (show_big whole) @ ''.'' @ fraction)"

definition strip_zeros :: "string \<Rightarrow> string" where
  "strip_zeros s = rev (dropWhile (\<lambda>c. c = CHR ''0'') (rev s))"

definition formatTargetUsd :: "int \<Rightarrow> string" where
  "formatTargetUsd nano =
     (let whole = nano sdiv NANO_PER_USD;
          fraction = strip_zeros (take 6 (pad_start 9 (CHR ''0'') (show_big (nano smod NANO_PER_USD))))
      in if fraction \<noteq> [] then show_big whole @ ''.'' @ fraction else show_big whole)"

subsection \<open>Digits\<close>

lemma digit_chars:
  "digit_char 0 = CHR ''0''" "digit_char 1 = CHR ''1''" "digit_char 2 = CHR ''2''"
  "digit_char 3 = CHR ''3''" "digit_char 4 = CHR ''4''" "digit_char 5 = CHR ''5''"
  "digit_char 6 = CHR ''6''" "digit_char 7 = CHR ''7''" "digit_char 8 = CHR ''8''"
  "digit_char 9 = CHR ''9''"
  by (code_simp)+

lemma digit_cases:
  assumes "0 \<le> d" "d < (10::int)"
  obtains "d = 0" | "d = 1" | "d = 2" | "d = 3" | "d = 4" | "d = 5" | "d = 6" | "d = 7" | "d = 8" | "d = 9"
proof -
  have "d = 0 \<or> d = 1 \<or> d = 2 \<or> d = 3 \<or> d = 4 \<or> d = 5 \<or> d = 6 \<or> d = 7 \<or> d = 8 \<or> d = 9"
    using assms by presburger
  then show ?thesis using that by blast
qed

lemma digit_value_digit_char [simp]: "0 \<le> d \<Longrightarrow> d < 10 \<Longrightarrow> digit_value (digit_char d) = d"
  by (erule (1) digit_cases) (simp_all add: digit_chars digit_value_def)

lemma is_digit_digit_char [simp]: "0 \<le> d \<Longrightarrow> d < 10 \<Longrightarrow> is_digit (digit_char d)"
  by (erule (1) digit_cases) (simp_all add: digit_chars is_digit_def less_eq_char_def)

lemma digit_char_eq_0 [simp]: "0 \<le> d \<Longrightarrow> d < 10 \<Longrightarrow> digit_char d = CHR ''0'' \<longleftrightarrow> d = 0"
  by (erule (1) digit_cases) (simp_all add: digit_chars)

lemma digit_value_bounds: "is_digit c \<Longrightarrow> 0 \<le> digit_value c \<and> digit_value c < 10"
  by (simp add: is_digit_def digit_value_def less_eq_char_def)

lemma is_digit_dot [simp]: "\<not> is_digit (CHR ''.'')"
  by (simp add: is_digit_def less_eq_char_def)

lemma big_of_digits_Nil [simp]: "big_of_digits [] = 0"
  by (simp add: big_of_digits_def)

lemma big_of_digits_snoc [simp]: "big_of_digits (s @ [c]) = 10 * big_of_digits s + digit_value c"
  by (simp add: big_of_digits_def)

lemma big_of_digits_append:
  "big_of_digits (s @ t) = big_of_digits s * 10 ^ length t + big_of_digits t"
proof (induction t rule: rev_induct)
  case (snoc c t)
  have "big_of_digits (s @ t @ [c]) = 10 * big_of_digits (s @ t) + digit_value c"
    using big_of_digits_snoc [of "s @ t" c] by simp
  with snoc show ?case by (simp add: algebra_simps)
qed simp

lemma big_of_zeros [simp]: "big_of_digits (replicate n (CHR ''0'')) = 0"
proof (induction n)
  case (Suc n)
  then show ?case
    using big_of_digits_snoc [of "replicate n (CHR ''0'')" "CHR ''0''"]
    by (simp add: replicate_append_same digit_value_def)
qed simp

lemma big_of_digits_bounds: "list_all is_digit s \<Longrightarrow> 0 \<le> big_of_digits s \<and> big_of_digits s < 10 ^ length s"
proof (induction s rule: rev_induct)
  case (snoc c s)
  then have "0 \<le> digit_value c" "digit_value c < 10"
    using digit_value_bounds [of c] by auto
  with snoc show ?case by simp
qed simp

lemma show_pos_digits: "0 \<le> n \<Longrightarrow> list_all is_digit (show_pos n)"
proof (induction n rule: show_pos.induct)
  case (1 n)
  then show ?case by (subst show_pos.simps) (simp add: pos_imp_zdiv_nonneg_iff)
qed

lemma show_pos_not_Nil [simp]: "show_pos n \<noteq> []"
  by (subst show_pos.simps) simp

lemma big_of_show_pos [simp]: "0 \<le> n \<Longrightarrow> big_of_digits (show_pos n) = n"
proof (induction n rule: show_pos.induct)
  case (1 n)
  show ?case
  proof (cases "n < 10")
    case True
    with 1 show ?thesis using big_of_digits_snoc [of "[]"] by (subst show_pos.simps) simp
  next
    case False
    with 1 show ?thesis by (subst show_pos.simps) (simp add: pos_imp_zdiv_nonneg_iff)
  qed
qed

lemma length_show_pos: "0 \<le> n \<Longrightarrow> n < 10 ^ k \<Longrightarrow> 0 < k \<Longrightarrow> length (show_pos n) \<le> k"
proof (induction n arbitrary: k rule: show_pos.induct)
  case (1 n k)
  show ?case
  proof (cases "n < 10")
    case True
    with 1 show ?thesis by (subst show_pos.simps) simp
  next
    case False
    with 1 obtain j where k: "k = Suc j" "0 < j" by (cases k) (auto, cases "k - 1", auto)
    with 1 have "n div 10 < 10 ^ j" by (simp add: div_less_iff_less_mult mult.commute)
    with 1 False k have "length (show_pos (n div 10)) \<le> j" by (simp add: pos_imp_zdiv_nonneg_iff)
    with False k show ?thesis by (subst show_pos.simps) simp
  qed
qed

lemma hd_show_pos: "0 < n \<Longrightarrow> hd (show_pos n) \<noteq> CHR ''0''"
proof (induction n rule: show_pos.induct)
  case (1 n)
  show ?case
  proof (cases "n < 10")
    case True
    with 1 show ?thesis by (subst show_pos.simps) simp
  next
    case False
    with 1 show ?thesis by (subst show_pos.simps) (simp add: pos_imp_zdiv_pos_iff)
  qed
qed

lemma show_pos_0: "show_pos 0 = ''0''"
  by (subst show_pos.simps) (simp add: digit_chars)

lemma canonical_whole_show:
  assumes "0 \<le> n" and "n < 10 ^ Suc k"
  shows "canonical_whole k (show_pos n)"
proof (cases "n = 0")
  case True
  then show ?thesis by (simp add: canonical_whole_def show_pos_0)
next
  case False
  with assms show ?thesis
    using length_show_pos [of n "Suc k"] by (simp add: canonical_whole_def show_pos_digits hd_show_pos)
qed

lemma takeWhile_digits [simp]: "list_all is_digit w \<Longrightarrow> \<not> is_digit c \<Longrightarrow> takeWhile is_digit (w @ c # f) = w"
  by (induction w) auto

lemma dropWhile_digits [simp]: "list_all is_digit w \<Longrightarrow> \<not> is_digit c \<Longrightarrow> dropWhile is_digit (w @ c # f) = c # f"
  by (induction w) auto

lemma takeWhile_all_digits [simp]: "list_all is_digit w \<Longrightarrow> takeWhile is_digit w = w"
  by (induction w) auto

lemma dropWhile_all_digits [simp]: "list_all is_digit w \<Longrightarrow> dropWhile is_digit w = []"
  by (induction w) auto

lemma is_digit_zero [simp]: "is_digit (CHR ''0'')"
  by (simp add: is_digit_def)

lemma strip_zeros_pad:
  assumes "length s = n"
  shows "pad_end n (CHR ''0'') (strip_zeros s) = s"
proof -
  let ?z = "takeWhile (\<lambda>c. c = CHR ''0'') (rev s)"
  have "?z = replicate (length ?z) (CHR ''0'')"
    by (metis (full_types) replicate_eqI set_takeWhileD)
  then have z: "rev ?z = replicate (length ?z) (CHR ''0'')"
    by (metis rev_replicate)
  have "rev s = ?z @ dropWhile (\<lambda>c. c = CHR ''0'') (rev s)" by simp
  then have s: "s = strip_zeros s @ rev ?z"
    unfolding strip_zeros_def by (metis rev_append rev_rev_ident)
  then have "length ?z = n - length (strip_zeros s)"
    using assms by (metis add_diff_cancel_left' length_append length_rev)
  with s z show ?thesis by (simp add: pad_end_def)
qed

lemma list_all_strip_zeros: "list_all P s \<Longrightarrow> list_all P (strip_zeros s)"
  unfolding strip_zeros_def list_all_iff by (metis set_dropWhileD set_rev)

lemma length_strip_zeros: "length (strip_zeros s) \<le> length s"
  unfolding strip_zeros_def by (metis length_dropWhile_le length_rev)

text \<open>The fraction \<open>formatTargetUsd\<close> prints, read back.\<close>

lemma target_fraction:
  assumes "0 \<le> m" and "m < 1000000"
  defines "f \<equiv> strip_zeros (take 6 (pad_start 9 (CHR ''0'') (show_big (1000 * m))))"
  shows "list_all is_digit f" and "length f \<le> 6"
    and "big_of_digits (pad_end 9 (CHR ''0'') f) = 1000 * m"
proof -
  let ?p = "pad_start 9 (CHR ''0'') (show_pos (1000 * m))"
  have len: "length (show_pos (1000 * m)) \<le> 9"
    using assms by (intro length_show_pos) auto
  then have p9: "length ?p = 9" by (simp add: pad_start_def)
  have dig: "list_all is_digit ?p"
    using show_pos_digits [of "1000 * m"] assms(1) by (auto simp: pad_start_def list_all_iff)
  then have dig6: "list_all is_digit (take 6 ?p)" and dig3: "list_all is_digit (drop 6 ?p)"
    by (auto simp: list_all_iff dest: in_set_takeD in_set_dropD)
  have val: "big_of_digits ?p = 1000 * m"
    using assms by (simp add: pad_start_def big_of_digits_append)
  have split: "big_of_digits ?p = big_of_digits (take 6 ?p) * 1000 + big_of_digits (drop 6 ?p)"
    using big_of_digits_append [of "take 6 ?p" "drop 6 ?p"] p9 by simp
  have "0 \<le> big_of_digits (drop 6 ?p)" "big_of_digits (drop 6 ?p) < 1000"
    using big_of_digits_bounds [OF dig3] p9 by auto
  then have six: "big_of_digits (take 6 ?p) = m"
    using val split by linarith
  have f: "f = strip_zeros (take 6 ?p)"
    using assms by (simp add: f_def show_big_def)
  show "list_all is_digit f" unfolding f by (rule list_all_strip_zeros [OF dig6])
  show "length f \<le> 6" using length_strip_zeros [of "take 6 ?p"] p9 by (simp add: f)
  have "pad_end 6 (CHR ''0'') f = take 6 ?p"
    unfolding f by (rule strip_zeros_pad) (simp add: p9)
  moreover have "pad_end 9 (CHR ''0'') f = pad_end 6 (CHR ''0'') f @ replicate 3 (CHR ''0'')"
    using \<open>length f \<le> 6\<close>
    by (simp add: pad_end_def replicate_add [symmetric] del: replicate_Suc)
  ultimately show "big_of_digits (pad_end 9 (CHR ''0'') f) = 1000 * m"
    using six by (simp add: big_of_digits_append)
qed

lemma sdiv_nonneg: "0 \<le> a \<Longrightarrow> 0 < b \<Longrightarrow> (a::int) sdiv b = a div b"
  by (cases "a = 0") (auto simp: signed_divide_int_def sgn_if)

lemma smod_nonneg: "0 \<le> a \<Longrightarrow> 0 < b \<Longrightarrow> (a::int) smod b = a mod b"
  by (cases "a = 0") (auto simp: signed_modulo_int_def sgn_if)

subsection \<open>Targets\<close>

lemma parse_target_text:
  assumes "0 \<le> w" and "w < 10000000" and f: "list_all is_digit f" "length f \<le> 6"
    and n: "n = w * NANO_PER_USD + big_of_digits (pad_end 9 (CHR ''0'') f)"
    and "MIN_TARGET_NANO_USD \<le> n" and "n \<le> MAX_TARGET_NANO_USD"
  shows "parseTargetUsd (JString (if f \<noteq> [] then show_pos w @ ''.'' @ f else show_pos w)) = Some n"
proof -
  have "canonical_whole 6 (show_pos w)" using assms by (intro canonical_whole_show) auto
  then have "canonical_usd (if f \<noteq> [] then show_pos w @ ''.'' @ f else show_pos w)
      = Some (show_pos w, if f \<noteq> [] then Some f else None)"
    using assms by (auto simp: canonical_usd_def Let_def show_pos_digits Suc_le_eq)
  with assms show ?thesis by (auto simp: parseTargetUsd_def Let_def)
qed

lemma format_parse_target:
  assumes "1000 dvd n" and "MIN_TARGET_NANO_USD \<le> n" and "n \<le> MAX_TARGET_NANO_USD"
  shows "parseTargetUsd (JString (formatTargetUsd n)) = Some n"
proof -
  define w where "w = n div NANO_PER_USD"
  have "1000 dvd n mod NANO_PER_USD"
    using assms(1) by (simp add: NANO_PER_USD_def dvd_mod)
  then obtain m where m: "n mod NANO_PER_USD = 1000 * m" by (rule dvdE)
  have pos: "0 \<le> n" using assms(2) by (simp add: MIN_TARGET_NANO_USD_def)
  have m_bounds: "0 \<le> m" "m < 1000000"
    using m pos_mod_bound [of NANO_PER_USD n] pos_mod_sign [of NANO_PER_USD n] by (simp_all add: NANO_PER_USD_def)
  note f = target_fraction [OF m_bounds]
  have "w < 10000000" "0 \<le> w"
    using assms(3) pos by (simp_all add: w_def MAX_TARGET_NANO_USD_def NANO_PER_USD_def div_less_iff_less_mult pos_imp_zdiv_nonneg_iff)
  moreover have "n = w * NANO_PER_USD + 1000 * m" using m div_mult_mod_eq [of n NANO_PER_USD] by (simp add: w_def)
  ultimately have "parseTargetUsd (JString (let f = strip_zeros (take 6 (pad_start 9 (CHR ''0'') (show_big (1000 * m))))
      in if f \<noteq> [] then show_pos w @ ''.'' @ f else show_pos w)) = Some n"
    unfolding Let_def using f assms by (intro parse_target_text) auto
  moreover have "formatTargetUsd n = (let f = strip_zeros (take 6 (pad_start 9 (CHR ''0'') (show_big (1000 * m))))
      in if f \<noteq> [] then show_pos w @ ''.'' @ f else show_pos w)"
    using pos m \<open>0 \<le> w\<close>
    by (simp add: formatTargetUsd_def sdiv_nonneg smod_nonneg NANO_PER_USD_def w_def show_big_def Let_def)
  ultimately show ?thesis by simp
qed

lemma parseTargetUsd_grid:
  assumes "parseTargetUsd v = Some n"
  shows "1000 dvd n \<and> MIN_TARGET_NANO_USD \<le> n \<and> n \<le> MAX_TARGET_NANO_USD"
proof -
  have grid: "1000 dvd big_of_digits (pad_end 9 (CHR ''0'') f)" if "length f \<le> 6" for f
  proof -
    have "9 - length f = (6 - length f) + 3" using that by simp
    then have "pad_end 9 (CHR ''0'') f = pad_end 6 (CHR ''0'') f @ replicate 3 (CHR ''0'')"
      by (simp only: pad_end_def replicate_add append_assoc)
    then show ?thesis by (simp add: big_of_digits_append)
  qed
  from assms show ?thesis
    by (auto simp: parseTargetUsd_def canonical_usd_def Let_def NANO_PER_USD_def
        split: js_value.splits option.splits list.splits if_splits intro!: dvd_add grid)
qed

subsection \<open>Rounding\<close>

lemma cost_bounds:
  assumes "big_count (tc_input t) = Some i"
    and "big_count (case tc_cachedInput t of None \<Rightarrow> Fin 0 | Some c \<Rightarrow> c) = Some k"
    and "big_count (tc_output t) = Some out"
    and "0 \<le> r_input r" and "0 \<le> r_output r" and "\<forall>c \<in> set_option (r_cachedInput r). 0 \<le> c"
  defines "rc \<equiv> (case r_cachedInput r of None \<Rightarrow> r_input r | Some c \<Rightarrow> c)"
  defines "exact \<equiv> (i - min k i) * r_input r + min k i * rc + out * r_output r"
  shows "\<exists>c. costNano t r = Some c \<and> 0 \<le> c \<and> c * TOKENS_PER_MILLION \<le> exact
           \<and> exact < (c + 3) * TOKENS_PER_MILLION"
proof -
  have nn: "0 \<le> x" if "big_count n = Some x" for n x using that by (cases n) auto
  have pos: "0 \<le> i" "0 \<le> k" "0 \<le> out" using assms(1-3) nn by blast+
  have rc: "0 \<le> rc" using assms by (auto simp: rc_def split: option.splits)
  let ?a = "(i - min k i) * r_input r" and ?b = "min k i * rc" and ?c = "out * r_output r"
  have abc: "0 \<le> ?a" "0 \<le> ?b" "0 \<le> ?c" using pos rc assms(4,5) by (auto intro!: mult_nonneg_nonneg)
  have "costNano t r = Some (?a div 1000000 + ?b div 1000000 + ?c div 1000000)"
    using assms(1-3) abc
    by (cases "k \<le> i")
       (simp_all add: costNano_def Let_def rc_def [symmetric] TOKENS_PER_MILLION_def sdiv_nonneg min_def)
  moreover have "x div 1000000 * 1000000 \<le> x \<and> x < x div 1000000 * 1000000 + 1000000" for x :: int
    by presburger
  ultimately show ?thesis
    using abc unfolding exact_def TOKENS_PER_MILLION_def
    by (intro exI [of _ "?a div 1000000 + ?b div 1000000 + ?c div 1000000"]) (simp add: distrib_right, smt (verit))
qed

lemma exactDecimal_nonneg: "exactDecimal nt v = Some d \<Longrightarrow> 0 \<le> digits d"
proof -
  have dig: "0 \<le> big_of_digits (w @ f)" if "match_decimal t = Some (w, f, e)" for t w f e
  proof -
    have "list_all is_digit (takeWhile is_digit x)" for x
      by (simp add: list_all_iff) (metis set_takeWhileD)
    with that have "list_all is_digit (w @ f)"
      by (auto simp: match_decimal_def Let_def split: list.splits if_splits)
    then show ?thesis using big_of_digits_bounds by blast
  qed
  assume "exactDecimal nt v = Some d"
  then show ?thesis
    by (auto simp: exactDecimal_def Let_def split: js_value.splits js_num.splits option.splits if_splits
        dest!: dig intro: mult_nonneg_nonneg)
qed

lemma floor_div_bounds:
  assumes "0 < (b::int)"
  shows "a div b * b \<le> a \<and> a < (a div b + 1) * b"
  using div_mult_mod_eq [of a b] pos_mod_sign [OF assms, of a] pos_mod_bound [OF assms, of a]
  unfolding distrib_right mult_1 by (intro conjI) linarith+

lemma billed_bounds:
  assumes "billedUsdToNano nt v = Some n"
  shows "\<exists>d. exactDecimal nt v = Some d \<and> 0 \<le> n \<and> n * 10 ^ scale d \<le> digits d * NANO_PER_USD
           \<and> digits d * NANO_PER_USD < (n + 1) * 10 ^ scale d"
proof -
  from assms obtain d where d: "exactDecimal nt v = Some d"
    and n: "n = (digits d * NANO_PER_USD) sdiv 10 ^ scale d"
    by (auto simp: billedUsdToNano_def split: option.splits)
  have "0 \<le> digits d * NANO_PER_USD"
    using exactDecimal_nonneg [OF d] by (simp add: NANO_PER_USD_def)
  then have n': "n = digits d * NANO_PER_USD div 10 ^ scale d" "0 \<le> n"
    by (simp_all add: n sdiv_nonneg pos_imp_zdiv_nonneg_iff)
  with d show ?thesis
    using floor_div_bounds [of "10 ^ scale d" "digits d * NANO_PER_USD"] by auto
qed

subsection \<open>Displayed amounts\<close>

lemma length_fraction:
  assumes "0 \<le> x" and "0 < dg"
  shows "length (pad_start dg (CHR ''0'') (show_big (x mod 10 ^ dg))) = dg"
proof -
  have "0 \<le> x mod 10 ^ dg" "x mod 10 ^ dg < 10 ^ dg" by simp_all
  then have "\<not> x mod 10 ^ dg < 0" "length (show_pos (x mod 10 ^ dg)) \<le> dg"
    using length_show_pos assms(2) by (simp_all only: not_less)
  then show ?thesis
    by (simp only: pad_start_def show_big_def if_False length_append length_replicate)
qed

lemma format_small_text:
  assumes "0 \<le> n" and "n < 100000"
  shows "formatUsd n = ''$0.'' @ pad_start 6 (CHR ''0'') (show_pos ((n + 500) div 1000))"
proof -
  have "(n + 500) div 1000 < 1000000" "0 \<le> (n + 500) div 1000"
    using assms by (simp_all add: div_less_iff_less_mult)
  with assms show ?thesis
    by (simp add: formatUsd_def Let_def NANO_PER_USD_def sdiv_nonneg smod_nonneg show_big_def
        div_pos_pos_trivial mod_pos_pos_trivial show_pos_0 commas_def)
qed

lemma format_zero_iff:
  assumes "0 < n"
  shows "formatUsd n = ''$0.000000'' \<longleftrightarrow> n < 500"
proof (cases "n < 100000")
  case True
  let ?r = "(n + 500) div 1000"
  have r: "0 \<le> ?r" using assms by simp
  have "pad_start 6 (CHR ''0'') (show_pos ?r) = ''000000'' \<longleftrightarrow> ?r = 0"
  proof
    assume "pad_start 6 (CHR ''0'') (show_pos ?r) = ''000000''"
    from arg_cong [OF this, of big_of_digits] show "?r = 0"
      using r by (simp add: pad_start_def big_of_digits_append) (simp add: big_of_digits_def digit_value_def)
  next
    assume "?r = 0"
    then show "pad_start 6 (CHR ''0'') (show_pos ?r) = ''000000''"
      by (simp add: show_pos_0 pad_start_def numeral_eq_Suc)
  qed
  moreover have "?r = 0 \<longleftrightarrow> n < 500" using assms by (auto simp: zdiv_eq_0_iff)
  ultimately show ?thesis using assms True by (simp add: format_small_text)
next
  case False
  define dg :: nat where
    "dg = (if n \<ge> NANO_PER_USD sdiv 100 then 2 else if n \<ge> NANO_PER_USD sdiv 10000 then 4 else 6)"
  have dg: "dg = 2 \<or> dg = 4"
    using False by (simp add: dg_def NANO_PER_USD_def sdiv_nonneg)
  define r where "r = (n + 10 ^ (9 - dg) sdiv 2) sdiv 10 ^ (9 - dg)"
  define f where "f = pad_start dg (CHR ''0'') (show_big (r smod 10 ^ dg))"
  have "\<not> n < 0" using assms by simp
  then have fmt: "formatUsd n = (''$'' @ commas (show_big (r sdiv 10 ^ dg))) @ ''.'' @ f"
    unfolding formatUsd_def Let_def r_def f_def dg_def by (simp only: if_False append_assoc)
  have "0 \<le> r" using assms by (simp add: r_def sdiv_nonneg pos_imp_zdiv_nonneg_iff)
  then have len: "length f = dg"
    using length_fraction [of r dg] dg unfolding f_def
    by (subst smod_nonneg) (auto simp only: zero_less_power zero_less_numeral)
  have "formatUsd n \<noteq> ''$0.000000''"
  proof
    assume "formatUsd n = ''$0.000000''"
    then have "rev (formatUsd n) ! dg = rev ''$0.000000'' ! dg" by simp
    moreover have "rev (formatUsd n) ! dg = CHR ''.''"
      unfolding fmt using len by (simp add: nth_append)
    ultimately show False using dg by auto
  qed
  with False show ?thesis by simp
qed

subsection \<open>Properties\<close>

text \<open>
   a target amount survives its text. Whatever \<open>parseTargetUsd\<close> accepts is a whole number
  of micro-dollars inside the allowed range, and \<open>formatTargetUsd\<close> prints it as a text that
  parses back to exactly the same amount, so writing a setting and reading it again changes no target.
\<close>

theorem target_text_roundtrip:
  assumes "parseTargetUsd v = Some n"
  shows "1000 dvd n \<and> MIN_TARGET_NANO_USD \<le> n \<and> n \<le> MAX_TARGET_NANO_USD
    \<and> parseTargetUsd (JString (formatTargetUsd n)) = Some n"
  using parseTargetUsd_grid [OF assms] format_parse_target by blast

theorem target_text_roundtrip_witness:
  "parseTargetUsd (JString ''12.50'') = Some 12500000000
    \<and> parseTargetUsd (JString (formatTargetUsd 12500000000)) = Some 12500000000"
proof -
  have p: "parseTargetUsd (JString ''12.50'') = Some 12500000000" by code_simp
  show ?thesis using p target_text_roundtrip [OF p] by blast
qed

text \<open>
   pricing one usage figure never rounds up. With cached input clamped to the input and rates that
  are not negative, \<open>costNano\<close> returns an amount that is at most the exact rational cost and
  less than three nano-dollars below it, one for each component that was rounded down.
\<close>

theorem costNano_rounds_down:
  assumes "big_count (tc_input t) = Some i"
    and "big_count (case tc_cachedInput t of None \<Rightarrow> Fin 0 | Some c \<Rightarrow> c) = Some k"
    and "big_count (tc_output t) = Some out"
    and "0 \<le> r_input r" and "0 \<le> r_output r" and "\<forall>c \<in> set_option (r_cachedInput r). 0 \<le> c"
  shows "\<exists>c exact. costNano t r = Some c \<and> 0 \<le> c
    \<and> exact = (i - min k i) * r_input r
        + min k i * (case r_cachedInput r of None \<Rightarrow> r_input r | Some x \<Rightarrow> x) + out * r_output r
    \<and> c * TOKENS_PER_MILLION \<le> exact \<and> exact < (c + 3) * TOKENS_PER_MILLION"
  using cost_bounds [OF assms] by blast

theorem costNano_rounds_down_witness:
  "\<exists>c. costNano \<lparr>tc_input = Fin 7, tc_cachedInput = Some (Fin 9), tc_output = Fin (5 / 2)\<rparr>
      \<lparr>r_input = 300, r_output = 400001, r_cachedInput = Some 150000\<rparr> = Some c
    \<and> c * TOKENS_PER_MILLION \<le> 1850002 \<and> 1850002 < (c + 3) * TOKENS_PER_MILLION"
proof -
  have "big_count (Fin (5 / 2)) = Some 2" by code_simp
  then show ?thesis
    using costNano_rounds_down [of "\<lparr>tc_input = Fin 7, tc_cachedInput = Some (Fin 9), tc_output = Fin (5 / 2)\<rparr>"
        7 9 2 "\<lparr>r_input = 300, r_output = 400001, r_cachedInput = Some 150000\<rparr>"]
    by simp blast
qed

text \<open>
   a provider's billed amount is read exactly and rounded down. Whenever
  \<open>billedUsdToNano\<close> accepts a value, the value is a decimal \<open>digits / 10 ^ scale\<close>
  dollars, and the result is the greatest whole number of nano-dollars not above it.
\<close>

theorem billed_amount_rounds_down:
  assumes "billedUsdToNano num_text v = Some n"
  shows "\<exists>d. exactDecimal num_text v = Some d \<and> 0 \<le> n
    \<and> n * 10 ^ scale d \<le> digits d * NANO_PER_USD \<and> digits d * NANO_PER_USD < (n + 1) * 10 ^ scale d"
  using billed_bounds [OF assms] .

theorem billed_amount_rounds_down_witness:
  "\<exists>d. exactDecimal (\<lambda>_. ''0.1'') (JNum (Fin (1 / 10))) = Some d
    \<and> 100000000 * 10 ^ scale d \<le> digits d * NANO_PER_USD"
proof -
  have b: "billedUsdToNano (\<lambda>_. ''0.1'') (JNum (Fin (1 / 10))) = Some 100000000" by code_simp
  show ?thesis using billed_amount_rounds_down [OF b] by blast
qed

text \<open>
  When a positive amount is shown as nothing. The comment on \<open>formatUsd\<close> says that amounts
  under a cent keep enough digits to stay non-zero; a positive amount is shown as \<open>$0.000000\<close>
  exactly when it is below 500 nano-dollars.
\<close>

theorem formatUsd_zero_iff:
  assumes "0 < n"
  shows "formatUsd n = ''$0.000000'' \<longleftrightarrow> n < 500"
  by (rule format_zero_iff [OF assms])

theorem formatUsd_zero_iff_witness: "formatUsd 499 = ''$0.000000'' \<and> formatUsd 500 \<noteq> ''$0.000000''"
  using formatUsd_zero_iff [of 499] formatUsd_zero_iff [of 500] by simp

end
