(* ===== verification/RequestCeiling.thy ===== *)
theory RequestCeiling
  imports Money
begin

text \<open>
  The request ceiling (\<open>src/host/RequestCeiling.ts\<close>): the gate that holds a request at its
  configured limits until the person decides. The gate's maps are its state; every public method and
  every asynchronous continuation (the person's answer, the prompt's failure, the timer, a caller's
  abort) is one operation that returns the next state and the effects it had on the outside.

  The objects the code compares by identity (a held boundary, an open decision) carry numbers drawn
  from one counter. The callbacks of the host (\<open>decide\<close>, \<open>stopRequest\<close>, an abort
  listener) do not call the gate back before they return; what they trigger is a later operation.
\<close>

subsection \<open>Limits and totals\<close>

record request_limits =
  providerTurns :: "nat option"
  tokens :: "nat option"

datatype limit_kind = ProviderTurns | Tokens

datatype boundary_kind = ProviderRequest | Effect | TurnStart

datatype boundary_outcome = Proceed | Stopped

datatype ceiling_decision = Continue | Stop

datatype count_kind = CountRequest | CountTurn

datatype decision_end = Expired | Withdrawn | Failed | Disposed

definition DEFAULT_REQUEST_DECISION_TIMEOUT_MS :: rat where
  "DEFAULT_REQUEST_DECISION_TIMEOUT_MS = 15 * 60000"

definition MAX_TRACKED_REQUESTS :: nat where
  "MAX_TRACKED_REQUESTS = 2000"

definition MAX_REQUEST_COUNT :: nat where
  "MAX_REQUEST_COUNT = 100000"

definition positiveInteger :: "js_value \<Rightarrow> nat option" where
  "positiveInteger v = (case v of
       JNum x \<Rightarrow> (case safe_integer x of Some i \<Rightarrow> if 0 < i then Some (nat i) else None | None \<Rightarrow> None)
     | _ \<Rightarrow> None)"

definition normalizeRequestLimits :: "js_value \<Rightarrow> request_limits" where
  "normalizeRequestLimits raw =
     (let value = (case raw of JObject ms \<Rightarrow> ms | _ \<Rightarrow> [])
      in \<lparr>providerTurns = positiveInteger (member_of value ''providerTurns''),
          tokens = positiveInteger (member_of value ''tokens'')\<rparr>)"

fun wholeCount :: "js_num \<Rightarrow> nat" where
  "wholeCount (Fin q) = (if q \<le> 0 then 0 else min (nat (floor q)) MAX_SAFE_INTEGER)"
| "wholeCount _ = 0"

definition rawTokenTotal :: "token_counts \<Rightarrow> nat" where
  "rawTokenTotal counts = min (wholeCount (tc_input counts) + wholeCount (tc_output counts)) MAX_SAFE_INTEGER"

definition bounded :: "nat \<Rightarrow> nat" where
  "bounded n = min n MAX_SAFE_INTEGER"

subsection \<open>State\<close>

record held_boundary =
  hb_id :: nat
  hb_kind :: boundary_kind
  reserveFor :: "string option"

record open_decision =
  dec_id :: nat
  held :: "held_boundary list"
  timer :: bool

datatype request_state = Open | AwaitingDecision | StoppedAtLimit

record tracked_request =
  configured :: request_limits
  state :: request_state
  providerRequests :: nat
  hostCountedTurns :: nat
  reserved :: "(string, nat) jsmap"
  settledTokens :: nat
  tokensByUnit :: "(string, nat) jsmap"
  usageIncomplete :: bool
  observedOnly :: bool
  crossings :: nat
  allowances :: nat
  crossedAtAllowances :: "nat option"
  heldBoundary :: "boundary_kind option"
  decision :: "open_decision option"

record gate =
  requests :: "(string, tracked_request) jsmap"
  disposed :: bool
  decisionTimeoutMs :: rat
  next_id :: nat

definition new_gate :: "js_num option \<Rightarrow> gate" where
  "new_gate timeout = \<lparr>requests = [], disposed = False,
     decisionTimeoutMs = (case timeout of Some (Fin q) \<Rightarrow> if 0 < q then q else DEFAULT_REQUEST_DECISION_TIMEOUT_MS
                          | _ \<Rightarrow> DEFAULT_REQUEST_DECISION_TIMEOUT_MS),
     next_id = 0\<rparr>"

definition new_tracked :: "request_limits \<Rightarrow> bool \<Rightarrow> tracked_request" where
  "new_tracked limits is_disposed = \<lparr>configured = limits,
     state = (if is_disposed then StoppedAtLimit else Open),
     providerRequests = 0, hostCountedTurns = 0, reserved = [], settledTokens = 0, tokensByUnit = [],
     usageIncomplete = False, observedOnly = False, crossings = 0, allowances = 0,
     crossedAtAllowances = None, heldBoundary = None, decision = None\<rparr>"

subsection \<open>Allowances and observations\<close>

definition configured_of :: "tracked_request \<Rightarrow> limit_kind \<Rightarrow> nat option" where
  "configured_of t k = (case k of ProviderTurns \<Rightarrow> providerTurns (configured t) | Tokens \<Rightarrow> tokens (configured t))"

definition allowance :: "tracked_request \<Rightarrow> limit_kind \<Rightarrow> nat option" where
  "allowance t k = map_option (\<lambda>c. min (c * (allowances t + 1)) MAX_SAFE_INTEGER) (configured_of t k)"

definition observed :: "tracked_request \<Rightarrow> limit_kind \<Rightarrow> nat" where
  "observed t k = (case k of
       ProviderTurns \<Rightarrow> bounded (sum_list (js_values (reserved t)) + providerRequests t + hostCountedTurns t)
     | Tokens \<Rightarrow> bounded (sum_list (js_values (tokensByUnit t)) + settledTokens t))"

record reached_limit =
  rl_limit :: limit_kind
  rl_configured :: nat
  rl_allowance :: nat
  rl_observed :: nat

definition reached_at :: "tracked_request \<Rightarrow> limit_kind \<Rightarrow> reached_limit list" where
  "reached_at t k = (case (configured_of t k, allowance t k) of
       (Some c, Some a) \<Rightarrow>
         if observed t k \<ge> a
         then [\<lparr>rl_limit = k, rl_configured = c, rl_allowance = a, rl_observed = observed t k\<rparr>] else []
     | _ \<Rightarrow> [])"

definition reached :: "tracked_request \<Rightarrow> reached_limit list" where
  "reached t = concat (map (reached_at t) [ProviderTurns, Tokens])"

definition reserve :: "tracked_request \<Rightarrow> string option \<Rightarrow> tracked_request" where
  "reserve t agent = (case agent of
       None \<Rightarrow> t
     | Some a \<Rightarrow> t\<lparr>reserved := js_set a ((case js_get (reserved t) a of None \<Rightarrow> 0 | Some n \<Rightarrow> n) + 1) (reserved t)\<rparr>)"

datatype coverage = Complete | Partial

datatype recorded_decision = NoDecision | Awaiting | Continued | WasStopped

record limits_observation =
  lo_coverage :: coverage
  lo_providerTurns :: "(nat \<times> nat \<times> nat option) option"
  lo_tokens :: "(nat \<times> nat) option"
  lo_crossings :: nat
  lo_allowances :: nat
  lo_decision :: recorded_decision
  lo_heldBoundary :: "boundary_kind option"

definition observation :: "tracked_request \<Rightarrow> limits_observation" where
  "observation t =
     (let partial = observedOnly t \<or> (tokens (configured t) \<noteq> None \<and> usageIncomplete t)
      in \<lparr>lo_coverage = (if partial then Partial else Complete),
          lo_providerTurns = map_option (\<lambda>c. (c, observed t ProviderTurns,
              if hostCountedTurns t > 0 then Some (hostCountedTurns t) else None)) (providerTurns (configured t)),
          lo_tokens = map_option (\<lambda>c. (c, observed t Tokens)) (tokens (configured t)),
          lo_crossings = min (crossings t) MAX_REQUEST_COUNT,
          lo_allowances = min (allowances t) MAX_REQUEST_COUNT,
          lo_decision = (if state t = AwaitingDecision then Awaiting
             else if state t = StoppedAtLimit \<and> crossings t > 0 then WasStopped
             else if allowances t > 0 then Continued else NoDecision),
          lo_heldBoundary = heldBoundary t\<rparr>)"

subsection \<open>Holding, asking, closing\<close>

datatype effect =
    Resolve nat boundary_outcome
  | SetTimer nat rat
  | ClearTimer nat
  | Decide nat string "reached_limit list" limits_observation
  | AbortPrompt nat decision_end
  | StopRequest string

definition openDecision :: "nat \<Rightarrow> boundary_kind \<Rightarrow> tracked_request \<Rightarrow> tracked_request" where
  "openDecision did kind t =
     (let t1 = t\<lparr>state := AwaitingDecision, heldBoundary := Some kind\<rparr>;
          t2 = (if crossedAtAllowances t1 \<noteq> Some (allowances t1)
                then t1\<lparr>crossings := crossings t1 + 1, crossedAtAllowances := Some (allowances t1)\<rparr> else t1)
      in t2\<lparr>decision := Some \<lparr>dec_id = did, held = [], timer = False\<rparr>\<rparr>)"

definition add_held :: "held_boundary list \<Rightarrow> open_decision \<Rightarrow> open_decision" where
  "add_held bs d = d\<lparr>held := held d @ bs\<rparr>"

text \<open>Arm the timer, then ask the person with the facts of the moment.\<close>

definition ask :: "rat \<Rightarrow> string \<Rightarrow> tracked_request \<Rightarrow> tracked_request \<times> effect list" where
  "ask ms rid t = (case decision t of
       None \<Rightarrow> (t, [])
     | Some d \<Rightarrow>
         let t' = t\<lparr>decision := Some (d\<lparr>timer := True\<rparr>)\<rparr>
         in (t', [SetTimer (dec_id d) ms, Decide (dec_id d) rid (reached t') (observation t')]))"

text \<open>
  \<open>hold\<close>: put boundaries behind the request's open decision, opening one under the next
  number when there is none. The third component is the counter after it.
\<close>

definition hold :: "rat \<Rightarrow> string \<Rightarrow> nat \<Rightarrow> held_boundary list \<Rightarrow> tracked_request
    \<Rightarrow> tracked_request \<times> nat \<times> effect list" where
  "hold ms rid n bs t = (case decision t of
       Some d \<Rightarrow> (t\<lparr>decision := Some (add_held bs d)\<rparr>, n, [])
     | None \<Rightarrow>
         (case bs of [] \<Rightarrow> (t, n, [])
          | b # _ \<Rightarrow>
              let t1 = openDecision n (hb_kind b) t;
                  t2 = t1\<lparr>decision := map_option (add_held bs) (decision t1)\<rparr>;
                  (t3, es) = ask ms rid t2
              in (t3, Suc n, es)))"

text \<open>\<open>close\<close>: end a decision; the prompt hears about it when the gate stopped waiting by itself.\<close>

definition close :: "tracked_request \<Rightarrow> open_decision \<Rightarrow> decision_end option \<Rightarrow> tracked_request \<times> effect list" where
  "close t d ended = (t\<lparr>decision := None\<rparr>,
     (if timer d then [ClearTimer (dec_id d)] else [])
     @ (case ended of None \<Rightarrow> [] | Some e \<Rightarrow> [AbortPrompt (dec_id d) e]))"

definition withdraw :: "tracked_request \<Rightarrow> open_decision \<Rightarrow> tracked_request \<times> effect list" where
  "withdraw t d =
     (let (t', es) = close t d (Some Withdrawn) in (t'\<lparr>state := Open, heldBoundary := None\<rparr>, es))"

text \<open>
  The loop of \<open>admit\<close>, from index \<open>i\<close>: the boundaries that cross, with what they reserve,
  and those held again.
\<close>

fun admit_loop :: "nat \<Rightarrow> held_boundary list \<Rightarrow> tracked_request
    \<Rightarrow> tracked_request \<times> held_boundary list \<times> effect list" where
  "admit_loop i [] t = (t, [], [])"
| "admit_loop i (b # bs) t =
     (if 0 < i \<and> reached t \<noteq> []
      then (let (t', again, es) = admit_loop (Suc i) bs t in (t', b # again, es))
      else (let (t', again, es) = admit_loop (Suc i) bs (reserve t (reserveFor b))
            in (t', again, Resolve (hb_id b) Proceed # es)))"

definition admit :: "rat \<Rightarrow> string \<Rightarrow> nat \<Rightarrow> held_boundary list \<Rightarrow> tracked_request
    \<Rightarrow> tracked_request \<times> nat \<times> effect list" where
  "admit ms rid n waiting t =
     (let (t1, again, es) = admit_loop 0 waiting t
      in if again \<noteq> [] then (let (t2, n2, es2) = hold ms rid n again t1 in (t2, n2, es @ es2))
         else (t1, n, es))"

definition refuse :: "held_boundary list \<Rightarrow> effect list" where
  "refuse bs = map (\<lambda>b. Resolve (hb_id b) Stopped) bs"

subsection \<open>Operations\<close>

definition put :: "string \<Rightarrow> tracked_request \<Rightarrow> gate \<Rightarrow> gate" where
  "put rid t g = g\<lparr>requests := js_set rid t (requests g)\<rparr>"

definition forgetUnreachable :: "string list option \<Rightarrow> gate \<Rightarrow> gate" where
  "forgetUnreachable reachable g =
     (if length (requests g) < MAX_TRACKED_REQUESTS then g
      else case reachable of
          None \<Rightarrow> g
        | Some rs \<Rightarrow> g\<lparr>requests := filter (\<lambda>(rid, t). decision t \<noteq> None \<or> rid \<in> set rs) (requests g)\<rparr>)"

definition begin_request :: "string \<Rightarrow> js_value \<Rightarrow> string list option \<Rightarrow> gate \<Rightarrow> gate" where
  "begin_request rid raw reachable g =
     (if js_has (requests g) rid then g
      else let limits = normalizeRequestLimits raw
           in if providerTurns limits = None \<and> tokens limits = None then g
              else let g1 = forgetUnreachable reachable g
                   in put rid (new_tracked limits (disposed g1)) g1)"

definition governs :: "gate \<Rightarrow> string \<Rightarrow> bool" where
  "governs g rid \<longleftrightarrow> js_has (requests g) rid"

definition wouldHold :: "gate \<Rightarrow> string \<Rightarrow> bool" where
  "wouldHold g rid = (case js_get (requests g) rid of
       None \<Rightarrow> False
     | Some t \<Rightarrow> state t \<noteq> StoppedAtLimit \<and> (state t = AwaitingDecision \<or> reached t \<noteq> []))"

definition update_tracked :: "string \<Rightarrow> (tracked_request \<Rightarrow> tracked_request) \<Rightarrow> gate \<Rightarrow> gate" where
  "update_tracked rid f g = (case js_get (requests g) rid of None \<Rightarrow> g | Some t \<Rightarrow> put rid (f t) g)"

definition note_provider_request :: "string \<Rightarrow> count_kind \<Rightarrow> tracked_request \<Rightarrow> tracked_request" where
  "note_provider_request agent counted t =
     (let n = (case js_get (reserved t) agent of None \<Rightarrow> 0 | Some n \<Rightarrow> n);
          t1 = t\<lparr>reserved := (if 1 < n then js_set agent (n - 1) (reserved t) else js_delete agent (reserved t))\<rparr>
      in case counted of
           CountTurn \<Rightarrow> t1\<lparr>hostCountedTurns := bounded (hostCountedTurns t1 + 1)\<rparr>
         | CountRequest \<Rightarrow> t1\<lparr>providerRequests := bounded (providerRequests t1 + 1)\<rparr>)"

definition noteProviderRequest :: "string \<Rightarrow> string \<Rightarrow> count_kind \<Rightarrow> gate \<Rightarrow> gate" where
  "noteProviderRequest rid agent counted = update_tracked rid (note_provider_request agent counted)"

definition release :: "string \<Rightarrow> string \<Rightarrow> gate \<Rightarrow> gate" where
  "release rid agent = update_tracked rid (\<lambda>t. t\<lparr>reserved := js_delete agent (reserved t)\<rparr>)"

definition noteUsage :: "string \<Rightarrow> string \<Rightarrow> token_counts \<Rightarrow> gate \<Rightarrow> gate" where
  "noteUsage rid unit counts =
     update_tracked rid (\<lambda>t. t\<lparr>tokensByUnit := js_set unit (rawTokenTotal counts) (tokensByUnit t)\<rparr>)"

definition settle_usage :: "string \<Rightarrow> token_counts option \<Rightarrow> tracked_request \<Rightarrow> tracked_request" where
  "settle_usage unit counts t =
     (let last_total = (case js_get (tokensByUnit t) unit of None \<Rightarrow> 0 | Some n \<Rightarrow> n)
      in t\<lparr>tokensByUnit := js_delete unit (tokensByUnit t),
           settledTokens := bounded (settledTokens t + (case counts of Some c \<Rightarrow> rawTokenTotal c | None \<Rightarrow> last_total))\<rparr>)"

definition settleUsage :: "string \<Rightarrow> string \<Rightarrow> token_counts option \<Rightarrow> gate \<Rightarrow> gate" where
  "settleUsage rid unit counts = update_tracked rid (settle_usage unit counts)"

definition markUsageIncomplete :: "string \<Rightarrow> gate \<Rightarrow> gate" where
  "markUsageIncomplete rid = update_tracked rid (\<lambda>t. t\<lparr>usageIncomplete := True\<rparr>)"

definition markObservedOnly :: "string \<Rightarrow> gate \<Rightarrow> gate" where
  "markObservedOnly rid = update_tracked rid (\<lambda>t. t\<lparr>observedOnly := True\<rparr>)"

text \<open>
  One call of \<open>boundary\<close>. Its promise is numbered by the counter; \<^const>\<open>Resolve\<close> is the
  promise being resolved. \<open>aborted\<close> says whether the caller's signal is already aborted.
\<close>

definition boundary :: "string \<Rightarrow> boundary_kind \<Rightarrow> bool \<Rightarrow> string option \<Rightarrow> gate \<Rightarrow> gate \<times> effect list" where
  "boundary rid kind aborted reserve_for g =
     (let b = next_id g; g1 = g\<lparr>next_id := Suc b\<rparr>
      in case js_get (requests g) rid of
           None \<Rightarrow> (g1, [Resolve b Proceed])
         | Some t \<Rightarrow>
             if state t = StoppedAtLimit then (g1, [Resolve b Stopped])
             else if state t = Open \<and> reached t = [] then (put rid (reserve t reserve_for) g1, [Resolve b Proceed])
             else if aborted then (g1, [Resolve b Stopped])
             else let (t', n, es) = hold (decisionTimeoutMs g) rid (next_id g1)
                        [\<lparr>hb_id = b, hb_kind = kind, reserveFor = reserve_for\<rparr>] t
                  in (put rid t' (g1\<lparr>next_id := n\<rparr>), es))"

text \<open>The abort listener of the held boundary \<open>b\<close>.\<close>

definition caller_aborted :: "string \<Rightarrow> nat \<Rightarrow> gate \<Rightarrow> gate \<times> effect list" where
  "caller_aborted rid b g = (case js_get (requests g) rid of
       None \<Rightarrow> (g, [])
     | Some t \<Rightarrow>
         (case decision t of
            None \<Rightarrow> (g, [])
          | Some d \<Rightarrow>
              if b \<notin> hb_id ` set (held d) then (g, [])
              else let d' = d\<lparr>held := filter (\<lambda>h. hb_id h \<noteq> b) (held d)\<rparr>;
                       t1 = t\<lparr>decision := Some d'\<rparr>
                   in if held d' = []
                      then (let (t2, es) = withdraw t1 d' in (put rid t2 g, Resolve b Stopped # es))
                      else (put rid t1 g, [Resolve b Stopped])))"

text \<open>\<open>settle\<close>: apply the one decision of the open prompt \<open>did\<close>; a stale one changes nothing.\<close>

definition settle :: "string \<Rightarrow> nat \<Rightarrow> ceiling_decision \<Rightarrow> decision_end option \<Rightarrow> gate \<Rightarrow> gate \<times> effect list" where
  "settle rid did answered ended g = (case js_get (requests g) rid of
       None \<Rightarrow> (g, [])
     | Some t \<Rightarrow>
         (case decision t of
            None \<Rightarrow> (g, [])
          | Some d \<Rightarrow>
              if dec_id d \<noteq> did then (g, [])
              else let waiting = held d;
                       (t1, es) = close t (d\<lparr>held := []\<rparr>) ended
                   in case answered of
                        Continue \<Rightarrow>
                          let t2 = t1\<lparr>state := Open, allowances := allowances t1 + 1, heldBoundary := None\<rparr>;
                              (t3, n, es2) = admit (decisionTimeoutMs g) rid (next_id g) waiting t2
                          in (put rid t3 (g\<lparr>next_id := n\<rparr>), es @ es2)
                      | Stop \<Rightarrow>
                          (put rid (t1\<lparr>state := StoppedAtLimit\<rparr>) g, es @ refuse waiting @ [StopRequest rid])))"

definition facts :: "gate \<Rightarrow> string \<Rightarrow> limits_observation option" where
  "facts g rid = map_option observation (js_get (requests g) rid)"

definition dispose_tracked :: "tracked_request \<Rightarrow> tracked_request \<times> effect list" where
  "dispose_tracked t =
     (let t1 = t\<lparr>state := StoppedAtLimit\<rparr>
      in case decision t1 of
           None \<Rightarrow> (t1, [])
         | Some d \<Rightarrow>
             let (t2, es) = close t1 (d\<lparr>held := []\<rparr>) (Some Disposed)
             in (t2, es @ refuse (held d)))"

definition dispose :: "gate \<Rightarrow> gate \<times> effect list" where
  "dispose g =
     (let out = map (\<lambda>(rid, t). (rid, dispose_tracked t)) (requests g)
      in (g\<lparr>disposed := True, requests := map (\<lambda>(rid, t, es). (rid, t)) out\<rparr>,
          concat (map (\<lambda>(rid, t, es). es) out)))"

subsection \<open>Runs of the gate\<close>

datatype gate_call =
    Begin string js_value "string list option"
  | NoteProviderRequest string string count_kind
  | Release string string
  | NoteUsage string string token_counts
  | SettleUsage string string "token_counts option"
  | MarkUsageIncomplete string
  | MarkObservedOnly string
  | Boundary string boundary_kind bool "string option"
  | CallerAborted string nat
  | Answered string nat ceiling_decision
  | PromptFailed string nat
  | TimerExpired string nat
  | Dispose

fun gate_step :: "gate_call \<Rightarrow> gate \<Rightarrow> gate \<times> effect list" where
  "gate_step (Begin rid raw reachable) g = (begin_request rid raw reachable g, [])"
| "gate_step (NoteProviderRequest rid agent counted) g = (noteProviderRequest rid agent counted g, [])"
| "gate_step (Release rid agent) g = (release rid agent g, [])"
| "gate_step (NoteUsage rid unit counts) g = (noteUsage rid unit counts g, [])"
| "gate_step (SettleUsage rid unit counts) g = (settleUsage rid unit counts g, [])"
| "gate_step (MarkUsageIncomplete rid) g = (markUsageIncomplete rid g, [])"
| "gate_step (MarkObservedOnly rid) g = (markObservedOnly rid g, [])"
| "gate_step (Boundary rid kind aborted agent) g = boundary rid kind aborted agent g"
| "gate_step (CallerAborted rid b) g = caller_aborted rid b g"
| "gate_step (Answered rid did answer) g = settle rid did answer None g"
| "gate_step (PromptFailed rid did) g = settle rid did Stop (Some Failed) g"
| "gate_step (TimerExpired rid did) g = settle rid did Stop (Some Expired) g"
| "gate_step Dispose g = dispose g"

fun gate_run :: "gate_call list \<Rightarrow> gate \<Rightarrow> gate \<times> effect list" where
  "gate_run [] g = (g, [])"
| "gate_run (c # cs) g =
     (let (g1, es) = gate_step c g; (g2, es2) = gate_run cs g1 in (g2, es @ es2))"

text \<open>The gate and everything it has done so far, after any calls in any order.\<close>

inductive gate_reaches :: "gate \<Rightarrow> effect list \<Rightarrow> bool" where
  fresh: "gate_reaches (new_gate timeout) []"
| call: "gate_reaches g es \<Longrightarrow> gate_step c g = (g', es') \<Longrightarrow> gate_reaches g' (es @ es')"

end
