(* ===== verification/RequestCeilingLaws.thy ===== *)
theory RequestCeilingLaws
  imports RequestCeiling "HOL-Library.Multiset"
begin

text \<open>
  What the request ceiling guarantees. The numbers drawn from the gate's counter name its promises and
  its prompts, so a multiset equation between the numbers handed out and those accounted for by the
  effects and by what is still held (the ledger) says that no boundary is lost or answered twice. Every
  operation keeps the ledger and the invariant of the tracked requests; the limit on provider turns, the
  progress of a continue and the finality of a stop are proved per operation and lifted to whole runs.
\<close>

subsection \<open>The ledger\<close>


definition held_of :: "tracked_request \<Rightarrow> nat multiset" where
  "held_of t = (case decision t of None \<Rightarrow> {#} | Some d \<Rightarrow> mset (map hb_id (held d)))"

definition decision_of :: "tracked_request \<Rightarrow> nat multiset" where
  "decision_of t = (case decision t of None \<Rightarrow> {#} | Some d \<Rightarrow> {#dec_id d#})"

definition held_all :: "gate \<Rightarrow> nat multiset" where
  "held_all g = sum_list (map held_of (js_values (requests g)))"

definition decisions_all :: "gate \<Rightarrow> nat multiset" where
  "decisions_all g = sum_list (map decision_of (js_values (requests g)))"

fun resolved :: "effect list \<Rightarrow> nat multiset" where
  "resolved [] = {#}"
| "resolved (Resolve b out # es) = add_mset b (resolved es)"
| "resolved (_ # es) = resolved es"

fun asked :: "effect list \<Rightarrow> nat multiset" where
  "asked [] = {#}"
| "asked (Decide d rid r l # es) = add_mset d (asked es)"
| "asked (_ # es) = asked es"

fun armed :: "effect list \<Rightarrow> nat multiset" where
  "armed [] = {#}"
| "armed (SetTimer d ms # es) = add_mset d (armed es)"
| "armed (_ # es) = armed es"

fun cleared :: "effect list \<Rightarrow> nat multiset" where
  "cleared [] = {#}"
| "cleared (ClearTimer d # es) = add_mset d (cleared es)"
| "cleared (_ # es) = cleared es"

lemma resolved_append [simp]: "resolved (xs @ ys) = resolved xs + resolved ys"
  by (induction xs rule: resolved.induct) auto
lemma asked_append [simp]: "asked (xs @ ys) = asked xs + asked ys"
  by (induction xs rule: asked.induct) auto
lemma armed_append [simp]: "armed (xs @ ys) = armed xs + armed ys"
  by (induction xs rule: armed.induct) auto
lemma cleared_append [simp]: "cleared (xs @ ys) = cleared xs + cleared ys"
  by (induction xs rule: cleared.induct) auto

lemma refuse_ledger [simp]:
  "resolved (refuse bs) = mset (map hb_id bs)" "asked (refuse bs) = {#}"
  "armed (refuse bs) = {#}" "cleared (refuse bs) = {#}"
  by (induction bs) (auto simp: refuse_def)

definition limits_ok :: "request_limits \<Rightarrow> bool" where
  "limits_ok l \<longleftrightarrow> (providerTurns l \<noteq> None \<or> tokens l \<noteq> None) \<and> providerTurns l \<noteq> Some 0 \<and> tokens l \<noteq> Some 0"

definition crossings_ok :: "nat option \<Rightarrow> nat \<Rightarrow> nat \<Rightarrow> bool" where
  "crossings_ok crossed n al \<longleftrightarrow> (case crossed of None \<Rightarrow> n = 0 | Some a \<Rightarrow> a \<le> al \<and> 1 \<le> n \<and> n \<le> a + 1)"

lemma crossings_ok_simps [simp]:
  "crossings_ok None n al \<longleftrightarrow> n = 0" "crossings_ok (Some a) n al \<longleftrightarrow> a \<le> al \<and> 1 \<le> n \<and> n \<le> a + 1"
  by (simp_all add: crossings_ok_def)

lemma crossings_ok_next: "crossings_ok crossed n al \<Longrightarrow> crossings_ok crossed n (al + 1)"
  by (cases crossed) auto

lemma crossings_ok_cross: "crossings_ok crossed n al \<Longrightarrow> crossed \<noteq> Some al \<Longrightarrow> crossings_ok (Some al) (n + 1) al"
  by (cases crossed) auto

definition tracked_ok :: "tracked_request \<Rightarrow> bool" where
  "tracked_ok t \<longleftrightarrow>
     (state t = AwaitingDecision \<longleftrightarrow> decision t \<noteq> None)
   \<and> (\<forall>d \<in> set_option (decision t). held d \<noteq> [] \<and> timer d \<and> heldBoundary t \<noteq> None
        \<and> crossedAtAllowances t = Some (allowances t))
   \<and> limits_ok (configured t) \<and> js_map_ok (reserved t) \<and> 0 \<notin> set (js_values (reserved t)) \<and> js_map_ok (tokensByUnit t)
   \<and> crossings_ok (crossedAtAllowances t) (crossings t) (allowances t)"

lemma hold_result:
  assumes "hold ms rid n bs t = (t', n', es)" and "bs \<noteq> []"
  shows "n \<le> n' \<and> held_of t' = held_of t + mset (map hb_id bs)
    \<and> decision_of t' = decision_of t + mset [n..<n'] \<and> resolved es = {#} \<and> cleared es = {#}
    \<and> asked es = mset [n..<n'] \<and> armed es = mset [n..<n']"
  using assms
  by (auto simp: hold_def ask_def openDecision_def add_held_def held_of_def decision_of_def Let_def
      split: option.splits list.splits if_splits)

lemma hold_ok:
  assumes "hold ms rid n bs t = (t', n', es)" and "bs \<noteq> []" and "tracked_ok t" 
  shows "tracked_ok t'"
proof (cases "decision t")
  case (Some d)
  with assms show ?thesis by (auto simp: hold_def tracked_ok_def add_held_def)
next
  case None
  with assms obtain b bs' where bs: "bs = b # bs'" by (cases bs) auto
  have "state t' = AwaitingDecision \<and> configured t' = configured t \<and> reserved t' = reserved t \<and> tokensByUnit t' = tokensByUnit t
      \<and> allowances t' = allowances t \<and> decision t' = Some \<lparr>dec_id = n, held = bs, timer = True\<rparr>
      \<and> heldBoundary t' = Some (hb_kind b) \<and> crossedAtAllowances t' = Some (allowances t)
      \<and> crossings t' = (if crossedAtAllowances t = Some (allowances t) then crossings t else crossings t + 1)"
    using assms(1) None bs by (auto simp: hold_def ask_def openDecision_def add_held_def Let_def)
  with assms(3) bs crossings_ok_cross [of "crossedAtAllowances t" "crossings t" "allowances t"]
  show ?thesis by (auto simp: tracked_ok_def)
qed

lemma close_result:
  assumes "close t d ended = (t', es)" and "timer d"
  shows "t' = t\<lparr>decision := None\<rparr> \<and> resolved es = {#} \<and> asked es = {#} \<and> armed es = {#} \<and> cleared es = {#dec_id d#}"
  using assms by (auto simp: close_def split: option.splits)

lemma reserve_frame [simp]:
  "configured (reserve t a) = configured t" "state (reserve t a) = state t"
  "providerRequests (reserve t a) = providerRequests t" "hostCountedTurns (reserve t a) = hostCountedTurns t"
  "settledTokens (reserve t a) = settledTokens t" "tokensByUnit (reserve t a) = tokensByUnit t"
  "usageIncomplete (reserve t a) = usageIncomplete t" "observedOnly (reserve t a) = observedOnly t"
  "crossings (reserve t a) = crossings t" "allowances (reserve t a) = allowances t"
  "crossedAtAllowances (reserve t a) = crossedAtAllowances t" "heldBoundary (reserve t a) = heldBoundary t"
  "decision (reserve t a) = decision t" "held_of (reserve t a) = held_of t" "decision_of (reserve t a) = decision_of t"
  by (auto simp: reserve_def held_of_def decision_of_def split: option.splits)

lemma reserve_ok: "tracked_ok t \<Longrightarrow> tracked_ok (reserve t a)"
  using js_values_set [of _ _ "reserved t"]
  by (fastforce simp: tracked_ok_def reserve_def simp del: set_map split: option.splits)

lemma admit_loop_result:
  assumes "admit_loop i bs t = (t', again, es)"
  shows "resolved es + mset (map hb_id again) = mset (map hb_id bs) \<and> asked es = {#} \<and> armed es = {#} \<and> cleared es = {#}
    \<and> held_of t' = held_of t \<and> decision_of t' = decision_of t"
  using assms
  by (induction i bs t arbitrary: t' again es rule: admit_loop.induct)
     (auto simp: Let_def split: if_splits prod.splits)

lemma admit_loop_ok:
  assumes "admit_loop i bs t = (t', again, es)" and "tracked_ok t"
  shows "tracked_ok t'"
  using assms
  by (induction i bs t arbitrary: t' again es rule: admit_loop.induct)
     (auto simp: Let_def reserve_ok split: if_splits prod.splits)

text \<open>What one operation on a tracked request did with the numbers it was given.\<close>

definition tracked_ledger :: "tracked_request \<Rightarrow> nat \<Rightarrow> tracked_request \<Rightarrow> nat \<Rightarrow> effect list \<Rightarrow> bool" where
  "tracked_ledger t n t' n' es \<longleftrightarrow> n \<le> n'
     \<and> resolved es + asked es + held_of t' = held_of t + mset [n..<n']
     \<and> asked es + decision_of t = cleared es + decision_of t' \<and> armed es = asked es"

definition ledger :: "gate \<Rightarrow> gate \<Rightarrow> effect list \<Rightarrow> bool" where
  "ledger g g' es \<longleftrightarrow> next_id g \<le> next_id g'
     \<and> resolved es + asked es + held_all g' = held_all g + mset [next_id g..<next_id g']
     \<and> asked es + decisions_all g = cleared es + decisions_all g' \<and> armed es = asked es"

lemma held_all_put:
  "js_map_ok (requests g) \<Longrightarrow> js_get (requests g) rid = Some t \<Longrightarrow>
    held_all (put rid t' g) + held_of t = held_all g + held_of t'"
  using js_sum_set [of "requests g" held_of rid t'] by (simp add: held_all_def put_def)

lemma decisions_all_put:
  "js_map_ok (requests g) \<Longrightarrow> js_get (requests g) rid = Some t \<Longrightarrow>
    decisions_all (put rid t' g) + decision_of t = decisions_all g + decision_of t'"
  using js_sum_set [of "requests g" decision_of rid t'] by (simp add: decisions_all_def put_def)

lemma next_id_frame [simp]:
  "held_all (g\<lparr>next_id := n\<rparr>) = held_all g" "decisions_all (g\<lparr>next_id := n\<rparr>) = decisions_all g"
  "next_id (put rid t g) = next_id g" "disposed (put rid t g) = disposed g"
  "decisionTimeoutMs (put rid t g) = decisionTimeoutMs g"
  by (auto simp: held_all_def decisions_all_def put_def)

lemma put_ledger:
  assumes "js_map_ok (requests g)" and "js_get (requests g) rid = Some t"
    and "tracked_ledger t (next_id g) t' n' es"
  shows "ledger g (put rid t' (g\<lparr>next_id := n'\<rparr>)) es"
proof -
  let ?g = "put rid t' (g\<lparr>next_id := n'\<rparr>)"
  have H: "held_all ?g + held_of t = held_all g + held_of t'"
    using held_all_put [of "g\<lparr>next_id := n'\<rparr>" rid t t'] assms(1,2) by simp
  have D: "decisions_all ?g + decision_of t = decisions_all g + decision_of t'"
    using decisions_all_put [of "g\<lparr>next_id := n'\<rparr>" rid t t'] assms(1,2) by simp
  note L = assms(3) [unfolded tracked_ledger_def]
  have "resolved es + asked es + held_all ?g + held_of t = held_all g + (resolved es + asked es + held_of t')"
    using H by (simp add: ac_simps)
  also have "\<dots> = held_all g + mset [next_id g..<n'] + held_of t"
    using L by (simp add: ac_simps)
  finally have "resolved es + asked es + held_all ?g = held_all g + mset [next_id g..<n']"
    by simp
  moreover have "asked es + decisions_all g + decision_of t = cleared es + decisions_all ?g + decision_of t"
  proof -
    have "asked es + decisions_all g + decision_of t = decisions_all g + (asked es + decision_of t)"
      by (simp add: ac_simps)
    also have "\<dots> = cleared es + (decisions_all g + decision_of t')" using L by (simp add: ac_simps)
    finally show ?thesis using D by (simp add: ac_simps)
  qed
  ultimately show ?thesis using L by (simp add: ledger_def)
qed

definition gate_ok :: "gate \<Rightarrow> bool" where
  "gate_ok g \<longleftrightarrow> js_map_ok (requests g)
     \<and> (\<forall>t \<in> set (js_values (requests g)). tracked_ok t \<and> (disposed g \<longrightarrow> state t = StoppedAtLimit))"

lemma gate_okD:
  "gate_ok g \<Longrightarrow> js_get (requests g) rid = Some t \<Longrightarrow> tracked_ok t"
  "gate_ok g \<Longrightarrow> js_get (requests g) rid = Some t \<Longrightarrow> disposed g \<Longrightarrow> state t = StoppedAtLimit"
  by (force simp: gate_ok_def dest: js_get_in)+

lemma gate_ok_put:
  "gate_ok g \<Longrightarrow> tracked_ok t \<Longrightarrow> (disposed g \<Longrightarrow> state t = StoppedAtLimit) \<Longrightarrow> gate_ok (put rid t g)"
  using js_values_set [of rid t "requests g"] by (auto simp: gate_ok_def put_def simp del: set_map)

lemma gate_ok_next [simp]: "gate_ok (g\<lparr>next_id := n\<rparr>) = gate_ok g"
  by (simp add: gate_ok_def)

lemma ledger_refl [simp]: "ledger g g []"
  by (simp add: ledger_def)

lemma stopped_no_decision: "tracked_ok t \<Longrightarrow> state t = StoppedAtLimit \<Longrightarrow> decision t = None"
  by (auto simp: tracked_ok_def)

lemma boundary_untracked:
  "js_get (requests g) rid = None \<Longrightarrow>
    boundary rid kind aborted a g = (g\<lparr>next_id := Suc (next_id g)\<rparr>, [Resolve (next_id g) Proceed])"
  by (simp add: boundary_def Let_def)

lemma boundary_refused:
  "js_get (requests g) rid = Some t \<Longrightarrow>
    state t = StoppedAtLimit \<or> (aborted \<and> \<not> (state t = Open \<and> reached t = [])) \<Longrightarrow>
    boundary rid kind aborted a g = (g\<lparr>next_id := Suc (next_id g)\<rparr>, [Resolve (next_id g) Stopped])"
  by (elim disjE conjE) (simp_all add: boundary_def Let_def)

lemma boundary_crosses:
  "js_get (requests g) rid = Some t \<Longrightarrow> state t = Open \<Longrightarrow> reached t = [] \<Longrightarrow>
    boundary rid kind aborted a g =
      (put rid (reserve t a) (g\<lparr>next_id := Suc (next_id g)\<rparr>), [Resolve (next_id g) Proceed])"
  by (simp add: boundary_def Let_def)

lemma boundary_holds:
  "js_get (requests g) rid = Some t \<Longrightarrow> state t \<noteq> StoppedAtLimit \<Longrightarrow>
    \<not> (state t = Open \<and> reached t = []) \<Longrightarrow> \<not> aborted \<Longrightarrow>
    hold (decisionTimeoutMs g) rid (Suc (next_id g))
      [\<lparr>hb_id = next_id g, hb_kind = kind, reserveFor = a\<rparr>] t = (t', n, es) \<Longrightarrow>
    boundary rid kind aborted a g = (put rid t' (g\<lparr>next_id := n\<rparr>), es)"
  by (simp add: boundary_def Let_def del: de_Morgan_conj)

lemma boundary_step:
  assumes "gate_ok g" and "boundary rid kind aborted a g = (g', es)"
  shows "gate_ok g' \<and> ledger g g' es"
proof (cases "js_get (requests g) rid")
  case None
  with assms show ?thesis by (simp add: boundary_untracked) (auto simp: ledger_def)
next
  case (Some t)
  have ok: "js_map_ok (requests g)" using assms(1) by (simp add: gate_ok_def)
  have tok: "tracked_ok t" by (rule gate_okD(1) [OF assms(1) Some])
  consider (refused) "state t = StoppedAtLimit \<or> (aborted \<and> \<not> (state t = Open \<and> reached t = []))"
    | (crosses) "state t = Open" "reached t = []"
    | (holds) "state t \<noteq> StoppedAtLimit" "\<not> (state t = Open \<and> reached t = [])" "\<not> aborted"
    by blast
  then show ?thesis
  proof cases
    case refused
    have "(g', es) = (g\<lparr>next_id := Suc (next_id g)\<rparr>, [Resolve (next_id g) Stopped])"
      using assms(2) boundary_refused [OF Some refused] by simp
    then show ?thesis using assms(1) by (auto simp: ledger_def)
  next
    case crosses
    have eq: "g' = put rid (reserve t a) (g\<lparr>next_id := Suc (next_id g)\<rparr>)" "es = [Resolve (next_id g) Proceed]"
      using assms(2) boundary_crosses [OF Some crosses] by auto
    have "tracked_ledger t (next_id g) (reserve t a) (Suc (next_id g)) es"
      by (simp add: tracked_ledger_def eq)
    then have "ledger g g' es" unfolding eq(1) by (rule put_ledger [OF ok Some])
    moreover have "gate_ok g'" unfolding eq(1)
      using assms(1) tok crosses(1) gate_okD(2) [OF assms(1) Some] by (intro gate_ok_put) (auto simp: reserve_ok)
    ultimately show ?thesis by simp
  next
    case holds
    obtain t' n es' where h: "hold (decisionTimeoutMs g) rid (Suc (next_id g))
        [\<lparr>hb_id = next_id g, hb_kind = kind, reserveFor = a\<rparr>] t = (t', n, es')"
      by (metis prod_cases3)
    have eq: "g' = put rid t' (g\<lparr>next_id := n\<rparr>)" "es = es'"
      using assms(2) boundary_holds [OF Some holds h] by auto
    note r = hold_result [OF h] hold_ok [OF h _ tok]
    have "tracked_ledger t (next_id g) t' n es"
      using r eq by (auto simp: tracked_ledger_def upt_conv_Cons)
    then have "ledger g g' es" unfolding eq(1) by (rule put_ledger [OF ok Some])
    moreover have "gate_ok g'" unfolding eq(1)
      using assms(1) r(2) holds(1) gate_okD(2) [OF assms(1) Some] by (intro gate_ok_put) auto
    ultimately show ?thesis by simp
  qed
qed

text \<open>The operations that only touch the totals of a tracked request.\<close>

definition quiet :: "(tracked_request \<Rightarrow> tracked_request) \<Rightarrow> bool" where
  "quiet f \<longleftrightarrow> (\<forall>t. decision (f t) = decision t \<and> state (f t) = state t \<and> (tracked_ok t \<longrightarrow> tracked_ok (f t)))"

lemma update_tracked_step:
  assumes "gate_ok g" and "quiet f"
  shows "gate_ok (update_tracked rid f g) \<and> ledger g (update_tracked rid f g) []"
proof (cases "js_get (requests g) rid")
  case None
  with assms(1) show ?thesis by (simp add: update_tracked_def)
next
  case (Some t)
  have ok: "js_map_ok (requests g)" using assms(1) by (simp add: gate_ok_def)
  have tok: "tracked_ok t" by (rule gate_okD(1) [OF assms(1) Some])
  have "tracked_ledger t (next_id g) (f t) (next_id g) []"
    using assms(2) by (simp add: tracked_ledger_def quiet_def held_of_def decision_of_def)
  from put_ledger [OF ok Some this] have "ledger g (update_tracked rid f g) []"
    using Some by (simp add: update_tracked_def)
  moreover have "gate_ok (update_tracked rid f g)"
    using assms tok gate_okD(2) [OF assms(1) Some] Some
    by (auto simp: update_tracked_def quiet_def intro!: gate_ok_put)
  ultimately show ?thesis by simp
qed

lemma tracked_ok_totals:
  assumes "tracked_ok t" and "state t' = state t" and "decision t' = decision t"
    and "heldBoundary t' = heldBoundary t" and "crossedAtAllowances t' = crossedAtAllowances t"
    and "allowances t' = allowances t" and "crossings t' = crossings t" and "configured t' = configured t"
    and "js_map_ok (reserved t')" and "0 \<notin> set (js_values (reserved t'))" and "js_map_ok (tokensByUnit t')"
  shows "tracked_ok t'"
  using assms by (simp only: tracked_ok_def) blast

lemma tracked_okD:
  assumes "tracked_ok t"
  shows "js_map_ok (reserved t)" and "0 \<notin> set (js_values (reserved t))" and "js_map_ok (tokensByUnit t)"
  using assms unfolding tracked_ok_def by blast+

lemma positive_set: "0 \<notin> set (js_values m) \<Longrightarrow> (0 :: nat) < v \<Longrightarrow> 0 \<notin> set (js_values (js_set k v m))"
  using js_values_set [of k v m] by blast

lemma positive_delete: "0 \<notin> set (js_values m) \<Longrightarrow> 0 \<notin> set (js_values (js_delete k m))"
  using js_values_delete [of k m] by blast

lemma note_provider_request_ok: "tracked_ok t \<Longrightarrow> tracked_ok (note_provider_request agent counted t)"
  by (rule tracked_ok_totals [of t])
     (auto simp: note_provider_request_def Let_def tracked_okD positive_set positive_delete simp del: set_map
       split: count_kind.split)

lemma quiet_note_provider_request: "quiet (note_provider_request agent counted)"
  using note_provider_request_ok
  by (auto simp: quiet_def note_provider_request_def Let_def split: count_kind.split)

lemma release_ok: "tracked_ok t \<Longrightarrow> tracked_ok (t\<lparr>reserved := js_delete agent (reserved t)\<rparr>)"
  by (rule tracked_ok_totals [of t]) (simp_all add: tracked_okD positive_delete del: set_map)

lemma quiet_release: "quiet (\<lambda>t. t\<lparr>reserved := js_delete agent (reserved t)\<rparr>)"
  using release_ok by (simp add: quiet_def)

lemma usage_ok:
  "tracked_ok t \<Longrightarrow> tracked_ok (t\<lparr>tokensByUnit := js_set unit x (tokensByUnit t)\<rparr>)"
  "tracked_ok t \<Longrightarrow> tracked_ok (settle_usage unit counts t)"
  "tracked_ok t \<Longrightarrow> tracked_ok (t\<lparr>usageIncomplete := b\<rparr>)"
  "tracked_ok t \<Longrightarrow> tracked_ok (t\<lparr>observedOnly := b\<rparr>)"
  by (rule tracked_ok_totals [of t]; simp add: tracked_okD settle_usage_def Let_def del: set_map)+

lemma quiet_usage:
  "quiet (\<lambda>t. t\<lparr>tokensByUnit := js_set unit x (tokensByUnit t)\<rparr>)"
  "quiet (settle_usage unit counts)"
  "quiet (\<lambda>t. t\<lparr>usageIncomplete := b\<rparr>)"
  "quiet (\<lambda>t. t\<lparr>observedOnly := b\<rparr>)"
  using usage_ok by (simp_all add: quiet_def settle_usage_def Let_def)

lemmas quiet_ops = quiet_note_provider_request quiet_release quiet_usage

lemma begin_again:
  "\<not> (js_get (requests g) rid = None
      \<and> (providerTurns (normalizeRequestLimits raw) \<noteq> None \<or> tokens (normalizeRequestLimits raw) \<noteq> None))
    \<Longrightarrow> begin_request rid raw reach g = g"
  by (auto simp: begin_request_def Let_def)

lemma begin_new:
  "js_get (requests g) rid = None \<Longrightarrow>
    providerTurns (normalizeRequestLimits raw) \<noteq> None \<or> tokens (normalizeRequestLimits raw) \<noteq> None \<Longrightarrow>
    begin_request rid raw reach g = put rid (new_tracked (normalizeRequestLimits raw)
      (disposed (forgetUnreachable reach g))) (forgetUnreachable reach g)"
  by (auto simp: begin_request_def Let_def)

lemma begin_step:
  assumes "gate_ok g"
  shows "gate_ok (begin_request rid raw reach g) \<and> ledger g (begin_request rid raw reach g) []"
proof -
  let ?l = "normalizeRequestLimits raw"
  consider (1) "\<not> (js_get (requests g) rid = None \<and> (providerTurns ?l \<noteq> None \<or> tokens ?l \<noteq> None))"
    | (2) "js_get (requests g) rid = None" "providerTurns ?l \<noteq> None \<or> tokens ?l \<noteq> None"
    by argo
  then show ?thesis
  proof cases
    case 1
    with assms show ?thesis using begin_again [OF 1] by simp
  next
    case 2
    let ?f = "forgetUnreachable reach g"
    have pos: "positiveInteger v \<noteq> Some 0" for v
      by (auto simp: positiveInteger_def split: js_value.splits option.splits if_splits)
    have lim: "limits_ok ?l" using 2(2) pos by (auto simp: limits_ok_def normalizeRequestLimits_def Let_def)
    then have tok: "tracked_ok (new_tracked ?l d)" for d
      by (simp add: tracked_ok_def new_tracked_def)
    have f_ok: "gate_ok ?f" "disposed ?f = disposed g" "next_id ?f = next_id g"
      using assms by (auto simp: gate_ok_def forgetUnreachable_def distinct_map_filter split: option.splits)
    have fresh: "js_get (requests ?f) rid = None"
      using 2(1) by (auto simp: forgetUnreachable_def map_of_eq_None_iff split: option.splits)
    have kept: "held_all ?f = held_all g \<and> decisions_all ?f = decisions_all g"
    proof -
      have "sum_list (map h (js_values (filter (\<lambda>(rid, t). decision t \<noteq> None \<or> P rid) m))) = sum_list (map h (js_values m))"
        if "\<And>t. decision t = None \<Longrightarrow> h t = {#}" for h :: "tracked_request \<Rightarrow> nat multiset" and P and m :: "(string, tracked_request) jsmap"
        by (induction m) (auto, metis not_None_eq that)
      then show ?thesis
        by (auto simp: forgetUnreachable_def held_all_def decisions_all_def held_of_def decision_of_def split: option.splits)
    qed
    have "held_all (put rid (new_tracked ?l d) ?f) = held_all ?f"
      "decisions_all (put rid (new_tracked ?l d) ?f) = decisions_all ?f" for d
      using js_sum_set [of "requests ?f" held_of rid "new_tracked ?l d"]
        js_sum_set [of "requests ?f" decision_of rid "new_tracked ?l d"] f_ok(1) fresh
      by (simp_all add: held_all_def decisions_all_def put_def gate_ok_def new_tracked_def held_of_def decision_of_def)
    with kept f_ok have "ledger g (put rid (new_tracked ?l (disposed ?f)) ?f) []"
      by (simp add: ledger_def)
    moreover have "gate_ok (put rid (new_tracked ?l (disposed ?f)) ?f)"
      using f_ok(1) tok by (intro gate_ok_put) (auto simp: new_tracked_def)
    ultimately show ?thesis using begin_new [OF 2] by simp
  qed
qed

lemma mset_filter_out:
  "distinct (map f xs) \<Longrightarrow> b \<in> f ` set xs \<Longrightarrow>
    add_mset b (mset (map f (filter (\<lambda>x. f x \<noteq> b) xs))) = mset (map f xs)"
proof (induction xs)
  case (Cons a xs)
  show ?case
  proof (cases "f a = b")
    case True
    with Cons.prems have "filter (\<lambda>x. f x \<noteq> b) xs = xs"
      by (intro filter_True) (auto, metis imageI)
    with True show ?thesis by (simp del: mset_filter)
  next
    case False
    with Cons show ?thesis by (auto simp del: mset_filter)
  qed
qed simp

lemma caller_aborted_idle:
  "js_get (requests g) rid = None \<or> (\<exists>t. js_get (requests g) rid = Some t \<and>
      (\<forall>d \<in> set_option (decision t). b \<notin> hb_id ` set (held d)))
    \<Longrightarrow> caller_aborted rid b g = (g, [])"
  by (auto simp: caller_aborted_def split: option.splits)

definition drop_held :: "nat \<Rightarrow> open_decision \<Rightarrow> open_decision" where
  "drop_held b d = d\<lparr>held := filter (\<lambda>h. hb_id h \<noteq> b) (held d)\<rparr>"

lemma caller_aborted_last:
  assumes "js_get (requests g) rid = Some t" and "decision t = Some d" and "b \<in> hb_id ` set (held d)"
    and "held (drop_held b d) = []" and "timer d"
  shows "caller_aborted rid b g =
     (put rid (t\<lparr>decision := None, state := Open, heldBoundary := None\<rparr>) g,
      [Resolve b Stopped, ClearTimer (dec_id d), AbortPrompt (dec_id d) Withdrawn])"
  using assms by (simp add: caller_aborted_def drop_held_def withdraw_def close_def)

lemma caller_aborted_more:
  assumes "js_get (requests g) rid = Some t" and "decision t = Some d" and "b \<in> hb_id ` set (held d)"
    and "held (drop_held b d) \<noteq> []"
  shows "caller_aborted rid b g = (put rid (t\<lparr>decision := Some (drop_held b d)\<rparr>) g, [Resolve b Stopped])"
  using assms by (simp add: caller_aborted_def drop_held_def Let_def)

definition distinct_held :: "gate \<Rightarrow> bool" where
  "distinct_held g \<longleftrightarrow> (\<forall>t \<in> set (js_values (requests g)). \<forall>d \<in> set_option (decision t). distinct (map hb_id (held d)))"

lemma caller_aborted_step:
  assumes "gate_ok g" and "distinct_held g" and "caller_aborted rid b g = (g', es)"
  shows "gate_ok g' \<and> ledger g g' es"
proof (cases "\<exists>t d. js_get (requests g) rid = Some t \<and> decision t = Some d \<and> b \<in> hb_id ` set (held d)")
  case False
  then have "caller_aborted rid b g = (g, [])"
    by (intro caller_aborted_idle) (cases "js_get (requests g) rid"; auto)
  with assms show ?thesis by simp
next
  case True
  then obtain t d where t: "js_get (requests g) rid = Some t" and d: "decision t = Some d"
    and b: "b \<in> hb_id ` set (held d)" by blast
  have ok: "js_map_ok (requests g)" using assms(1) by (simp add: gate_ok_def)
  have tok: "tracked_ok t" by (rule gate_okD(1) [OF assms(1) t])
  have tm: "timer d" and await: "state t = AwaitingDecision"
    using tok d by (auto simp: tracked_ok_def)
  have alive: "\<not> disposed g" using gate_okD(2) [OF assms(1) t] await by auto
  have "t \<in> set (js_values (requests g))" using js_get_in [OF t] by force
  then have "distinct (map hb_id (held d))" using assms(2) d by (auto simp: distinct_held_def)
  then have out: "add_mset b (mset (map hb_id (held (drop_held b d)))) = mset (map hb_id (held d))"
    using mset_filter_out [OF _ b] by (simp add: drop_held_def)
  show ?thesis
  proof (cases "held (drop_held b d) = []")
    case last: True
    let ?t = "t\<lparr>decision := None, state := Open, heldBoundary := None\<rparr>"
    have eq: "g' = put rid ?t g" "es = [Resolve b Stopped, ClearTimer (dec_id d), AbortPrompt (dec_id d) Withdrawn]"
      using assms(3) caller_aborted_last [OF t d b last tm] by auto
    have "tracked_ledger t (next_id g) ?t (next_id g) es"
      using out last by (simp add: tracked_ledger_def held_of_def decision_of_def d eq(2))
    from put_ledger [OF ok t this] have "ledger g g' es" by (simp add: eq(1))
    moreover have "tracked_ok ?t" using tok by (auto simp: tracked_ok_def)
    then have "gate_ok g'" unfolding eq(1) using assms(1) alive by (intro gate_ok_put) auto
    ultimately show ?thesis by simp
  next
    case more: False
    let ?t = "t\<lparr>decision := Some (drop_held b d)\<rparr>"
    have eq: "g' = put rid ?t g" "es = [Resolve b Stopped]"
      using assms(3) caller_aborted_more [OF t d b more] by auto
    have "tracked_ledger t (next_id g) ?t (next_id g) es"
      using out by (simp add: tracked_ledger_def held_of_def decision_of_def d eq(2)) (simp add: drop_held_def)
    from put_ledger [OF ok t this] have "ledger g g' es" by (simp add: eq(1))
    moreover have "tracked_ok ?t" using tok more d by (auto simp: tracked_ok_def drop_held_def)
    then have "gate_ok g'" unfolding eq(1) using assms(1) alive by (intro gate_ok_put) auto
    ultimately show ?thesis by simp
  qed
qed

lemma settle_stale:
  "js_get (requests g) rid = None \<or> (\<exists>t. js_get (requests g) rid = Some t \<and>
      (\<forall>d \<in> set_option (decision t). dec_id d \<noteq> did))
    \<Longrightarrow> settle rid did answered ended g = (g, [])"
  by (auto simp: settle_def split: option.splits)

definition closing :: "nat \<Rightarrow> decision_end option \<Rightarrow> effect list" where
  "closing did ended = ClearTimer did # (case ended of None \<Rightarrow> [] | Some e \<Rightarrow> [AbortPrompt did e])"

lemma closing_ledger [simp]:
  "resolved (closing did ended) = {#}" "asked (closing did ended) = {#}"
  "armed (closing did ended) = {#}" "cleared (closing did ended) = {#did#}"
  by (simp_all add: closing_def split: option.splits)

lemma settle_stop:
  assumes "js_get (requests g) rid = Some t" and "decision t = Some d" and "timer d"
  shows "settle rid (dec_id d) Stop ended g =
    (put rid (t\<lparr>decision := None, state := StoppedAtLimit\<rparr>) g,
     closing (dec_id d) ended @ refuse (held d) @ [StopRequest rid])"
  using assms by (cases ended) (simp_all add: settle_def close_def closing_def)

definition continued :: "tracked_request \<Rightarrow> tracked_request" where
  "continued t = t\<lparr>decision := None, state := Open, allowances := allowances t + 1, heldBoundary := None\<rparr>"

lemma settle_continue:
  assumes "js_get (requests g) rid = Some t" and "decision t = Some d" and "timer d"
    and "admit (decisionTimeoutMs g) rid (next_id g) (held d) (continued t) = (t', n, es)"
  shows "settle rid (dec_id d) Continue ended g =
    (put rid t' (g\<lparr>next_id := n\<rparr>), closing (dec_id d) ended @ es)"
  using assms by (cases ended) (simp_all add: settle_def close_def closing_def continued_def)

lemma admit_result:
  assumes "admit ms rid n waiting t = (t', n', es)"
  shows "n \<le> n' \<and> resolved es + held_of t' = held_of t + mset (map hb_id waiting)
    \<and> decision_of t' = decision_of t + mset [n..<n'] \<and> cleared es = {#}
    \<and> asked es = mset [n..<n'] \<and> armed es = mset [n..<n']"
proof -
  obtain t1 again es1 where l: "admit_loop 0 waiting t = (t1, again, es1)" by (metis prod_cases3)
  note r = admit_loop_result [OF l]
  show ?thesis
  proof (cases "again = []")
    case True
    with assms l r show ?thesis by (simp add: admit_def)
  next
    case False
    obtain t2 n2 es2 where h: "hold ms rid n again t1 = (t2, n2, es2)" by (metis prod_cases3)
    have eq: "t' = t2" "n' = n2" "es = es1 @ es2" using assms l h False by (simp_all add: admit_def)
    show ?thesis using r hold_result [OF h False] unfolding eq by (simp add: ac_simps)
  qed
qed

lemma admit_ok:
  assumes "admit ms rid n waiting t = (t', n', es)" and "tracked_ok t"
  shows "tracked_ok t'"
proof -
  obtain t1 again es1 where l: "admit_loop 0 waiting t = (t1, again, es1)" by (metis prod_cases3)
  have ok: "tracked_ok t1" by (rule admit_loop_ok [OF l assms(2)])
  show ?thesis
  proof (cases "again = []")
    case True
    with assms l ok show ?thesis by (simp add: admit_def)
  next
    case False
    obtain t2 n2 es2 where h: "hold ms rid n again t1 = (t2, n2, es2)" by (metis prod_cases3)
    have "t' = t2" using assms l h False by (simp add: admit_def)
    with hold_ok [OF h False ok] show ?thesis by simp
  qed
qed

lemma continued_ok: "tracked_ok t \<Longrightarrow> tracked_ok (continued t)"
  using crossings_ok_next [of "crossedAtAllowances t" "crossings t" "allowances t"]
  by (auto simp: tracked_ok_def continued_def)

lemma settle_step:
  assumes "gate_ok g" and "settle rid did answered ended g = (g', es)"
  shows "gate_ok g' \<and> ledger g g' es"
proof (cases "\<exists>t d. js_get (requests g) rid = Some t \<and> decision t = Some d \<and> dec_id d = did")
  case False
  then have "settle rid did answered ended g = (g, [])"
    by (intro settle_stale) (cases "js_get (requests g) rid"; auto)
  with assms show ?thesis by simp
next
  case True
  then obtain t d where t: "js_get (requests g) rid = Some t" and d: "decision t = Some d"
    and did: "dec_id d = did" by blast
  have ok: "js_map_ok (requests g)" using assms(1) by (simp add: gate_ok_def)
  have tok: "tracked_ok t" by (rule gate_okD(1) [OF assms(1) t])
  have tm: "timer d" and await: "state t = AwaitingDecision"
    using tok d by (auto simp: tracked_ok_def)
  have alive: "\<not> disposed g" using gate_okD(2) [OF assms(1) t] await by auto
  show ?thesis
  proof (cases answered)
    case Stop
    let ?t = "t\<lparr>decision := None, state := StoppedAtLimit\<rparr>"
    have eq: "g' = put rid ?t g" "es = closing did ended @ refuse (held d) @ [StopRequest rid]"
      using assms(2) settle_stop [OF t d tm] did Stop by auto
    have "tracked_ledger t (next_id g) ?t (next_id g) es"
      by (simp add: tracked_ledger_def held_of_def decision_of_def d did eq(2))
    from put_ledger [OF ok t this] have "ledger g g' es" by (simp add: eq(1))
    moreover have "tracked_ok ?t" using tok by (auto simp: tracked_ok_def)
    then have "gate_ok g'" unfolding eq(1) using assms(1) by (intro gate_ok_put) auto
    ultimately show ?thesis by simp
  next
    case Continue
    obtain t' n es' where a: "admit (decisionTimeoutMs g) rid (next_id g) (held d) (continued t) = (t', n, es')"
      by (metis prod_cases3)
    have eq: "g' = put rid t' (g\<lparr>next_id := n\<rparr>)" "es = closing did ended @ es'"
      using assms(2) settle_continue [OF t d tm a] did Continue by auto
    have "tracked_ledger t (next_id g) t' n es"
      using admit_result [OF a] unfolding tracked_ledger_def eq(2)
      by (simp add: held_of_def decision_of_def d did continued_def ac_simps)
    from put_ledger [OF ok t this] have "ledger g g' es" by (simp add: eq(1))
    moreover have "gate_ok g'" unfolding eq(1)
      using assms(1) alive admit_ok [OF a continued_ok [OF tok]] by (intro gate_ok_put) auto
    ultimately show ?thesis by simp
  qed
qed

lemma dispose_tracked_result:
  assumes "tracked_ok t" and "dispose_tracked t = (t', es)"
  shows "tracked_ok t' \<and> state t' = StoppedAtLimit \<and> held_of t' = {#} \<and> decision_of t' = {#}
    \<and> resolved es = held_of t \<and> cleared es = decision_of t \<and> asked es = {#} \<and> armed es = {#}"
proof (cases "decision t")
  case None
  with assms show ?thesis
    by (auto simp: dispose_tracked_def tracked_ok_def held_of_def decision_of_def)
next
  case (Some d)
  with assms(1) have "timer d" by (auto simp: tracked_ok_def)
  with Some assms show ?thesis
    by (auto simp: dispose_tracked_def close_def tracked_ok_def held_of_def decision_of_def)
qed

lemma dispose_eq:
  "dispose g = (g\<lparr>disposed := True, requests := map (\<lambda>(rid, t). (rid, fst (dispose_tracked t))) (requests g)\<rparr>,
     concat (map (snd \<circ> dispose_tracked) (js_values (requests g))))"
  by (simp add: dispose_def Let_def case_prod_beta comp_def)

lemma dispose_step:
  assumes "gate_ok g" and "dispose g = (g', es)"
  shows "gate_ok g' \<and> ledger g g' es \<and> disposed g'"
proof -
  let ?m = "requests g"
  have keys: "map fst (map (\<lambda>(rid, t). (rid, fst (dispose_tracked t))) m) = map fst m" for m :: "(string, tracked_request) jsmap"
    by (induction m) auto
  have vals: "js_values (map (\<lambda>(rid, t). (rid, fst (dispose_tracked t))) m)
      = map (fst \<circ> dispose_tracked) (js_values m)" for m :: "(string, tracked_request) jsmap"
    by (induction m) auto
  have g': "requests g' = map (\<lambda>(rid, t). (rid, fst (dispose_tracked t))) ?m"
    "disposed g'" "next_id g' = next_id g" "es = concat (map (snd \<circ> dispose_tracked) (js_values ?m))"
    using assms(2) unfolding dispose_eq by auto
  have tok: "\<forall>t \<in> set (js_values ?m). tracked_ok t" using assms(1) by (auto simp: gate_ok_def)
  have one: "tracked_ok (fst (dispose_tracked t)) \<and> state (fst (dispose_tracked t)) = StoppedAtLimit
      \<and> held_of (fst (dispose_tracked t)) = {#} \<and> decision_of (fst (dispose_tracked t)) = {#}
      \<and> resolved (snd (dispose_tracked t)) = held_of t \<and> cleared (snd (dispose_tracked t)) = decision_of t
      \<and> asked (snd (dispose_tracked t)) = {#} \<and> armed (snd (dispose_tracked t)) = {#}"
    if "tracked_ok t" for t using dispose_tracked_result [OF that] by (cases "dispose_tracked t") simp
  have "gate_ok g'"
    unfolding gate_ok_def using assms(1) one tok
    by (simp only: g'(1) keys vals set_map) (auto simp: gate_ok_def)
  moreover have "held_all g' = {#}" "decisions_all g' = {#}"
  proof -
    have "sum_list (map held_of (map (fst \<circ> dispose_tracked) ts)) = {#}
        \<and> sum_list (map decision_of (map (fst \<circ> dispose_tracked) ts)) = {#}"
      if "\<forall>t \<in> set ts. tracked_ok t" for ts
      using that one by (induction ts) auto
    from this [OF tok] show "held_all g' = {#}" "decisions_all g' = {#}"
      unfolding held_all_def decisions_all_def g'(1) vals by blast+
  qed
  moreover have "resolved es = held_all g \<and> cleared es = decisions_all g \<and> asked es = {#} \<and> armed es = {#}"
  proof -
    have "resolved (concat (map (snd \<circ> dispose_tracked) ts)) = sum_list (map held_of ts)
        \<and> cleared (concat (map (snd \<circ> dispose_tracked) ts)) = sum_list (map decision_of ts)
        \<and> asked (concat (map (snd \<circ> dispose_tracked) ts)) = {#} \<and> armed (concat (map (snd \<circ> dispose_tracked) ts)) = {#}"
      if "\<forall>t \<in> set ts. tracked_ok t" for ts
      using that one by (induction ts) auto
    from this [OF tok] show ?thesis unfolding g'(4) held_all_def decisions_all_def by simp
  qed
  ultimately show ?thesis using g' by (simp add: ledger_def)
qed

lemma gate_step_ok:
  assumes "gate_ok g" and "distinct_held g" and "gate_step c g = (g', es)"
  shows "gate_ok g' \<and> ledger g g' es"
  using assms(3)
  by (cases c)
     (auto simp: noteProviderRequest_def release_def noteUsage_def settleUsage_def markUsageIncomplete_def
        markObservedOnly_def begin_step [OF assms(1)] update_tracked_step [OF assms(1)] quiet_ops
      dest: boundary_step [OF assms(1)] caller_aborted_step [OF assms(1,2)] settle_step [OF assms(1)]
        dispose_step [OF assms(1)])

text \<open>The whole history of the gate, accounted for by the numbers it gave out.\<close>

definition balanced :: "gate \<Rightarrow> effect list \<Rightarrow> bool" where
  "balanced g es \<longleftrightarrow> resolved es + asked es + held_all g = mset [0..<next_id g]
     \<and> asked es = cleared es + decisions_all g \<and> armed es = asked es"

lemma held_of_sub:
  assumes "t \<in> set (js_values (requests g))"
  shows "held_of t \<subseteq># held_all g"
proof -
  have "held_of t \<subseteq># sum_list (map held_of ts)" if "t \<in> set ts" for ts
    using that by (induction ts) (auto intro: subset_mset.add_increasing subset_mset.add_increasing2)
  from this [OF assms] show ?thesis by (simp only: held_all_def)
qed

lemma distinct_mset_sub: "mset xs \<subseteq># mset ys \<Longrightarrow> distinct ys \<Longrightarrow> distinct xs"
  unfolding distinct_count_atmost_1
  by (metis bot_nat_0.extremum count_eq_zero_iff count_greater_eq_one_iff le_antisym mset_subset_eq_count set_mset_mset)

lemma balanced_distinct_held:
  assumes "balanced g es"
  shows "distinct_held g"
  unfolding distinct_held_def
proof (intro ballI)
  fix t d assume t: "t \<in> set (js_values (requests g))" and d: "d \<in> set_option (decision t)"
  have "held_all g \<subseteq># mset [0..<next_id g]"
    using assms by (metis balanced_def mset_subset_eq_add_right)
  with held_of_sub [OF t] have "held_of t \<subseteq># mset [0..<next_id g]" by (rule subset_mset.order_trans)
  then have "mset (map hb_id (held d)) \<subseteq># mset [0..<next_id g]" using d by (auto simp: held_of_def)
  then show "distinct (map hb_id (held d))" by (rule distinct_mset_sub) simp
qed

lemma balanced_step:
  assumes "balanced g es" and "ledger g g' es'"
  shows "balanced g' (es @ es')"
proof -
  note B = assms(1) [unfolded balanced_def] and L = assms(2) [unfolded ledger_def]
  have "mset [0..<next_id g'] = mset [0..<next_id g] + mset [next_id g..<next_id g']"
    using L by (metis le0 le_add_diff_inverse mset_append upt_add_eq_append)
  moreover have "resolved es + asked es + (resolved es' + asked es' + held_all g')
      = mset [0..<next_id g] + mset [next_id g..<next_id g']"
  proof -
    have "resolved es' + asked es' + held_all g' = held_all g + mset [next_id g..<next_id g']" using L by blast
    then have "resolved es + asked es + (resolved es' + asked es' + held_all g')
        = (resolved es + asked es + held_all g) + mset [next_id g..<next_id g']" by (simp only: add.assoc)
    also have "resolved es + asked es + held_all g = mset [0..<next_id g]" using B by blast
    finally show ?thesis .
  qed
  moreover have "asked es + asked es' = cleared es + (asked es' + decisions_all g)"
    using B by (simp add: ac_simps)
  then have "asked es + asked es' = cleared es + (cleared es' + decisions_all g')" using L by simp
  ultimately show ?thesis using B L by (simp add: balanced_def ac_simps)
qed

lemma gate_reaches_ok:
  assumes "gate_reaches g es"
  shows "gate_ok g \<and> balanced g es"
  using assms
proof induction
  case (fresh timeout)
  show ?case by (simp add: gate_ok_def balanced_def new_gate_def held_all_def decisions_all_def)
next
  case (call g es c g' es')
  from call have "gate_ok g' \<and> ledger g g' es'"
    using gate_step_ok [of g c g' es'] balanced_distinct_held [of g es] by simp
  with call.IH show ?case by (blast intro: balanced_step)
qed

lemma gate_run_reaches:
  assumes "gate_reaches g es" and "gate_run cs g = (g', es')"
  shows "gate_reaches g' (es @ es')"
  using assms
proof (induction cs arbitrary: g g' es es')
  case Nil
  then show ?case by simp
next
  case (Cons c cs)
  obtain g1 e1 where s: "gate_step c g = (g1, e1)" by force
  obtain g2 e2 where r: "gate_run cs g1 = (g2, e2)" by force
  have "gate_reaches g2 ((es @ e1) @ e2)" using gate_reaches.call [OF Cons.prems(1) s] r by (rule Cons.IH)
  then show ?case using Cons.prems(2) s r by simp
qed




text \<open>The provider turns a request has used, without the cap of the observation.\<close>

definition spent :: "tracked_request \<Rightarrow> nat" where
  "spent t = sum_list (js_values (reserved t)) + providerRequests t + hostCountedTurns t"

definition fits :: "nat \<Rightarrow> tracked_request \<Rightarrow> bool" where
  "fits k t \<longleftrightarrow> (\<forall>c. providerTurns (configured t) = Some c \<longrightarrow> spent t + k \<le> c * (allowances t + 1))"

lemma observed_turns: "observed t ProviderTurns = bounded (spent t)"
  by (simp add: observed_def spent_def)

lemma not_reached_fits: "reached t = [] \<Longrightarrow> fits 1 t"
  by (auto simp: fits_def reached_def reached_at_def configured_of_def allowance_def observed_turns bounded_def
      split: if_splits)

lemma fits_less: "fits k t \<Longrightarrow> j \<le> k \<Longrightarrow> fits j t"
  by (auto simp: fits_def intro: le_trans [rotated])

lemma fits_cong:
  "configured t' = configured t \<Longrightarrow> allowances t' = allowances t \<Longrightarrow> spent t' \<le> spent t \<Longrightarrow> fits k t \<Longrightarrow> fits k t'"
  by (auto simp: fits_def intro: le_trans [rotated])

lemma spent_reserve:
  assumes "tracked_ok t"
  shows "spent (reserve t a) \<le> spent t + 1"
proof (cases a)
  case None
  then show ?thesis by (simp add: reserve_def)
next
  case (Some agent)
  let ?n = "case js_get (reserved t) agent of None \<Rightarrow> 0 | Some n \<Rightarrow> n"
  have "sum_list (js_values (js_set agent (?n + 1) (reserved t))) + ?n = sum_list (js_values (reserved t)) + (?n + 1)"
    using js_sum_set [of "reserved t" "\<lambda>x. x" agent "?n + 1"] tracked_okD(1) [OF assms] by simp
  with Some show ?thesis by (simp add: reserve_def spent_def)
qed

lemma fits_reserve: "tracked_ok t \<Longrightarrow> fits 1 t \<Longrightarrow> fits 0 (reserve t a)"
  using spent_reserve [of t a] by (fastforce simp: fits_def)

lemma admit_loop_fits:
  assumes "admit_loop i bs t = (t', again, es)" and "tracked_ok t" and "fits (if i = 0 then 1 else 0) t"
  shows "fits 0 t'"
  using assms
proof (induction i bs t arbitrary: t' again es rule: admit_loop.induct)
  case (1 i t)
  then show ?case by (auto intro: fits_less)
next
  case (2 i b bs t)
  show ?case
  proof (cases "0 < i \<and> reached t \<noteq> []")
    case True
    obtain t1 again1 es1 where r: "admit_loop (Suc i) bs t = (t1, again1, es1)" by (metis prod_cases3)
    have "t' = t1" using "2.prems"(1) True r by simp
    with "2.IH"(1) [OF True r "2.prems"(2)] "2.prems"(3) True show ?thesis by simp
  next
    case False
    obtain t1 again1 es1 where r: "admit_loop (Suc i) bs (reserve t (reserveFor b)) = (t1, again1, es1)"
      by (metis prod_cases3)
    have "fits 1 t" using "2.prems"(3) False not_reached_fits by (cases "i = 0") auto
    then have "fits 0 (reserve t (reserveFor b))" by (rule fits_reserve [OF "2.prems"(2)])
    moreover have "t' = t1" using "2.prems"(1) False r by (simp del: de_Morgan_conj split: if_splits)
    ultimately show ?thesis using "2.IH"(2) [OF False r reserve_ok [OF "2.prems"(2)]] by simp
  qed
qed

lemma hold_fits: "hold ms rid n bs t = (t', n', es) \<Longrightarrow> fits k t \<Longrightarrow> fits k t'"
  by (rule fits_cong [of t' t k])
     (auto simp: hold_def ask_def openDecision_def add_held_def spent_def Let_def
        split: option.splits list.splits if_splits)

lemma admit_fits:
  assumes "admit ms rid n bs t = (t', n', es)" and "tracked_ok t" and "fits 1 t"
  shows "fits 0 t'"
proof -
  obtain t1 again es1 where l: "admit_loop 0 bs t = (t1, again, es1)" by (metis prod_cases3)
  have w: "fits 0 t1" using admit_loop_fits [OF l assms(2)] assms(3) by simp
  show ?thesis
  proof (cases "again = []")
    case True
    with assms l w show ?thesis by (simp add: admit_def)
  next
    case False
    obtain t2 n2 es2 where h: "hold ms rid n again t1 = (t2, n2, es2)" by (metis prod_cases3)
    have "t' = t2" using assms l h False by (simp add: admit_def)
    with hold_fits [OF h w] show ?thesis by simp
  qed
qed

lemma continued_fits: "tracked_ok t \<Longrightarrow> fits 0 t \<Longrightarrow> fits 1 (continued t)"
proof -
  assume t: "tracked_ok t" "fits 0 t"
  have "spent t + 1 \<le> c * (allowances t + 2)" if c: "providerTurns (configured t) = Some c" for c
  proof -
    have "1 \<le> c" using t(1) c by (auto simp: tracked_ok_def limits_ok_def Suc_le_eq intro: gr0I)
    moreover have "spent t \<le> c * (allowances t + 1)" using t(2) c by (simp add: fits_def)
    ultimately show ?thesis by (simp add: algebra_simps)
  qed
  then show ?thesis by (simp add: fits_def continued_def spent_def add.assoc)
qed

definition gate_fits :: "gate \<Rightarrow> bool" where
  "gate_fits g \<longleftrightarrow> (\<forall>t \<in> set (js_values (requests g)). fits 0 t)"

lemma gate_fitsD: "gate_fits g \<Longrightarrow> js_get (requests g) rid = Some t \<Longrightarrow> fits 0 t"
  by (force simp: gate_fits_def dest: js_get_in)

lemma gate_fits_put: "gate_fits g \<Longrightarrow> fits 0 t \<Longrightarrow> gate_fits (put rid t g)"
  using js_values_set [of rid t "requests g"] by (auto simp: gate_fits_def put_def simp del: set_map)

lemma gate_fits_next [simp]: "gate_fits (g\<lparr>next_id := n\<rparr>) = gate_fits g"
  by (simp add: gate_fits_def)

lemma boundary_fits:
  assumes "gate_ok g" and "gate_fits g" and "boundary rid kind aborted a g = (g', es)"
  shows "gate_fits g'"
proof (cases "js_get (requests g) rid")
  case None
  with assms show ?thesis by (auto simp: boundary_untracked)
next
  case (Some t)
  have tok: "tracked_ok t" by (rule gate_okD(1) [OF assms(1) Some])
  have w: "fits 0 t" by (rule gate_fitsD [OF assms(2) Some])
  consider (refused) "state t = StoppedAtLimit \<or> (aborted \<and> \<not> (state t = Open \<and> reached t = []))"
    | (crosses) "state t = Open" "reached t = []"
    | (holds) "state t \<noteq> StoppedAtLimit" "\<not> (state t = Open \<and> reached t = [])" "\<not> aborted"
    by blast
  then show ?thesis
  proof cases
    case refused
    have "(g', es) = (g\<lparr>next_id := Suc (next_id g)\<rparr>, [Resolve (next_id g) Stopped])"
      using assms(3) boundary_refused [OF Some refused] by simp
    then show ?thesis using assms(2) by simp
  next
    case crosses
    have eq: "g' = put rid (reserve t a) (g\<lparr>next_id := Suc (next_id g)\<rparr>)"
      using assms(3) boundary_crosses [OF Some crosses] by auto
    show ?thesis unfolding eq
      using assms(2) fits_reserve [OF tok not_reached_fits [OF crosses(2)]] by (intro gate_fits_put) simp_all
  next
    case holds
    obtain t' n es' where h: "hold (decisionTimeoutMs g) rid (Suc (next_id g))
        [\<lparr>hb_id = next_id g, hb_kind = kind, reserveFor = a\<rparr>] t = (t', n, es')"
      by (metis prod_cases3)
    have eq: "g' = put rid t' (g\<lparr>next_id := n\<rparr>)"
      using assms(3) boundary_holds [OF Some holds h] by auto
    show ?thesis unfolding eq using assms(2) hold_fits [OF h w] by (intro gate_fits_put) simp_all
  qed
qed

lemma update_tracked_fits:
  "gate_fits g \<Longrightarrow> (\<And>t. js_get (requests g) rid = Some t \<Longrightarrow> fits 0 t \<Longrightarrow> fits 0 (f t))
    \<Longrightarrow> gate_fits (update_tracked rid f g)"
  by (auto simp: update_tracked_def intro: gate_fits_put gate_fitsD split: option.split)

lemma spent_note:
  assumes "tracked_ok t" and "js_get (reserved t) agent = Some n"
  shows "spent (note_provider_request agent counted t) \<le> spent t"
proof -
  have n: "0 < n" using tracked_okD(2) [OF assms(1)] js_get_in [OF assms(2)] by (force intro: gr0I)
  show ?thesis
  proof (cases "1 < n")
    case True
    have "sum_list (js_values (js_set agent (n - 1) (reserved t))) + n = sum_list (js_values (reserved t)) + (n - 1)"
      using js_sum_set [of "reserved t" "\<lambda>x. x" agent "n - 1"] tracked_okD(1) [OF assms(1)] assms(2) by simp
    with True assms(2) show ?thesis
      by (cases counted) (simp_all add: note_provider_request_def spent_def bounded_def Let_def)
  next
    case False
    have "sum_list (js_values (js_delete agent (reserved t))) + n = sum_list (js_values (reserved t))"
      using js_sum_delete [of "reserved t" "\<lambda>x. x" agent] tracked_okD(1) [OF assms(1)] assms(2) by simp
    with False n assms(2) show ?thesis
      by (cases counted) (simp_all add: note_provider_request_def spent_def bounded_def Let_def)
  qed
qed

lemma spent_release:
  assumes "tracked_ok t"
  shows "spent (t\<lparr>reserved := js_delete agent (reserved t)\<rparr>) \<le> spent t"
  using js_sum_delete [of "reserved t" "\<lambda>x. x" agent] tracked_okD(1) [OF assms] by (simp add: spent_def)


lemma begin_fits:
  assumes "gate_fits g"
  shows "gate_fits (begin_request rid raw reach g)"
proof -
  have "fits 0 (new_tracked l d)" for l d by (simp add: fits_def new_tracked_def spent_def)
  moreover have "gate_fits (forgetUnreachable reach g)"
    using assms by (auto simp: gate_fits_def forgetUnreachable_def split: option.split)
  ultimately show ?thesis
    using assms by (auto simp: begin_request_def Let_def intro: gate_fits_put)
qed

lemma caller_aborted_fits:
  assumes "gate_fits g" and "caller_aborted rid b g = (g', es)"
  shows "gate_fits g'"
proof -
  have "fits 0 t" if "js_get (requests g) rid = Some t" for t by (rule gate_fitsD [OF assms(1) that])
  then have "fits 0 (t\<lparr>decision := x\<rparr>)" "fits 0 (t\<lparr>decision := x, state := y, heldBoundary := z\<rparr>)"
    if "js_get (requests g) rid = Some t" for t x y z
    using that by (auto simp: fits_def spent_def)
  then show ?thesis using assms
    by (auto simp: caller_aborted_def withdraw_def close_def Let_def intro!: gate_fits_put split: option.splits if_splits)
qed

lemma settle_fits:
  assumes "gate_ok g" and "gate_fits g" and "settle rid did answered ended g = (g', es)"
  shows "gate_fits g'"
proof (cases "\<exists>t d. js_get (requests g) rid = Some t \<and> decision t = Some d \<and> dec_id d = did")
  case False
  then have "settle rid did answered ended g = (g, [])"
    by (intro settle_stale) (cases "js_get (requests g) rid"; auto)
  with assms show ?thesis by simp
next
  case True
  then obtain t d where t: "js_get (requests g) rid = Some t" and d: "decision t = Some d"
    and did: "dec_id d = did" by blast
  have tok: "tracked_ok t" by (rule gate_okD(1) [OF assms(1) t])
  have tm: "timer d" using tok d by (auto simp: tracked_ok_def)
  have w: "fits 0 t" by (rule gate_fitsD [OF assms(2) t])
  show ?thesis
  proof (cases answered)
    case Stop
    have eq: "g' = put rid (t\<lparr>decision := None, state := StoppedAtLimit\<rparr>) g"
      using assms(3) settle_stop [OF t d tm] did Stop by auto
    show ?thesis unfolding eq using assms(2) w by (intro gate_fits_put) (simp_all add: fits_def spent_def)
  next
    case Continue
    obtain t' n es' where a: "admit (decisionTimeoutMs g) rid (next_id g) (held d) (continued t) = (t', n, es')"
      by (metis prod_cases3)
    have eq: "g' = put rid t' (g\<lparr>next_id := n\<rparr>)"
      using assms(3) settle_continue [OF t d tm a] did Continue by auto
    show ?thesis unfolding eq
      using assms(2) admit_fits [OF a continued_ok [OF tok] continued_fits [OF tok w]]
      by (intro gate_fits_put) simp_all
  qed
qed

lemma dispose_tracked_frame:
  "state (fst (dispose_tracked t)) = StoppedAtLimit" "configured (fst (dispose_tracked t)) = configured t"
  "allowances (fst (dispose_tracked t)) = allowances t" "spent (fst (dispose_tracked t)) = spent t"
  by (simp_all add: dispose_tracked_def close_def spent_def Let_def split: option.split)

lemma dispose_fits: "gate_fits g \<Longrightarrow> dispose g = (g', es) \<Longrightarrow> gate_fits g'"
proof -
  assume g: "gate_fits g" and g': "dispose g = (g', es)"
  have "fits 0 t \<Longrightarrow> fits 0 (fst (dispose_tracked t))" for t
    by (rule fits_cong [of _ t]) (simp_all add: dispose_tracked_frame)
  with g g' show ?thesis unfolding dispose_eq gate_fits_def by fastforce
qed

lemma note_fits:
  assumes "gate_ok g" and "gate_fits g"
    and "\<forall>t. js_get (requests g) rid = Some t \<longrightarrow> js_has (reserved t) agent"
  shows "gate_fits (noteProviderRequest rid agent counted g)"
  unfolding noteProviderRequest_def
proof (rule update_tracked_fits [OF assms(2)])
  fix t assume t: "js_get (requests g) rid = Some t" and w: "fits 0 t"
  obtain n where "js_get (reserved t) agent = Some n" using assms(3) t by blast
  from spent_note [OF gate_okD(1) [OF assms(1) t] this]
  show "fits 0 (note_provider_request agent counted t)"
    using w by (rule fits_cong [rotated 2]) (cases counted; simp add: note_provider_request_def Let_def)+
qed

lemma quiet_fits:
  assumes "gate_ok g" and "gate_fits g"
  shows "gate_fits (release rid agent g)" "gate_fits (noteUsage rid unit cs g)"
    "gate_fits (settleUsage rid unit uc g)" "gate_fits (markUsageIncomplete rid g)" "gate_fits (markObservedOnly rid g)"
  using spent_release [OF gate_okD(1) [OF assms(1)]]
  unfolding release_def noteUsage_def settleUsage_def markUsageIncomplete_def markObservedOnly_def
  by (auto simp: settle_usage_def Let_def spent_def intro!: update_tracked_fits [OF assms(2)] elim!: fits_cong [rotated 3])

text \<open>The host's side of the contract: a model request is counted only after its boundary reserved it.\<close>

fun reserved_call :: "gate_call \<Rightarrow> gate \<Rightarrow> bool" where
  "reserved_call (NoteProviderRequest rid agent counted) g =
     (case js_get (requests g) rid of None \<Rightarrow> True | Some t \<Rightarrow> js_has (reserved t) agent)"
| "reserved_call _ g = True"

fun reserved_run :: "gate_call list \<Rightarrow> gate \<Rightarrow> bool" where
  "reserved_run [] g = True"
| "reserved_run (c # cs) g = (reserved_call c g \<and> reserved_run cs (fst (gate_step c g)))"

lemma gate_step_fits:
  assumes "gate_ok g" and "gate_fits g" and "reserved_call c g" and "gate_step c g = (g', es)"
  shows "gate_fits g'"
  using assms(3,4)
  by (cases c)
     (auto simp: begin_fits [OF assms(2)] quiet_fits [OF assms(1,2)] split: option.splits
       intro!: note_fits [OF assms(1,2)]
       dest: boundary_fits [OF assms(1,2)] caller_aborted_fits [OF assms(2)] settle_fits [OF assms(1,2)]
         dispose_fits [OF assms(2)])

lemma reserved_run_fits:
  "gate_reaches g h \<Longrightarrow> gate_fits g \<Longrightarrow> reserved_run cs g \<Longrightarrow> gate_run cs g = (g', es) \<Longrightarrow> gate_fits g'"
proof (induction cs arbitrary: g h g' es)
  case (Cons c cs)
  obtain g1 e1 where s: "gate_step c g = (g1, e1)" by force
  obtain g2 e2 where r: "gate_run cs g1 = (g2, e2)" by force
  have "gate_ok g" using gate_reaches_ok [OF Cons.prems(1)] by simp
  with Cons.prems(2,3) s have "gate_fits g1" by (auto intro: gate_step_fits)
  from Cons.IH [OF gate_reaches.call [OF Cons.prems(1) s] this _ r] Cons.prems(3,4) s r show ?case by simp
qed simp



subsection \<open>Continuing\<close>

lemma admit_loop_subseq:
  assumes "admit_loop i bs t = (t', again, es)"
  shows "length again \<le> length bs \<and> set again \<subseteq> set bs"
  using assms
  by (induction i bs t arbitrary: t' again es rule: admit_loop.induct)
     (fastforce simp: Let_def split: if_splits prod.splits)+

lemma continue_run:
  assumes "gate_ok g" and "js_get (requests g) rid = Some t" and "decision t = Some d"
    and "gate_step (Answered rid (dec_id d) Continue) g = (g', es)"
  shows "Resolve (hb_id (hd (held d))) Proceed \<in> set es
    \<and> (\<exists>t'. js_get (requests g') rid = Some t' \<and> allowances t' = allowances t + 1
        \<and> size (held_of t') < length (held d)
        \<and> (decision t' = None \<and> state t' = Open \<or> decision t' \<noteq> None \<and> state t' = AwaitingDecision))"
proof -
  have tok: "tracked_ok t" by (rule gate_okD(1) [OF assms(1,2)])
  have tm: "timer d" and ne: "held d \<noteq> []" using tok assms(3) by (auto simp: tracked_ok_def)
  then obtain b bs where bs: "held d = b # bs" by (cases "held d") auto
  obtain t' n es' where a: "admit (decisionTimeoutMs g) rid (next_id g) (held d) (continued t) = (t', n, es')"
    by (metis prod_cases3)
  have eq: "g' = put rid t' (g\<lparr>next_id := n\<rparr>)" "es = closing (dec_id d) None @ es'"
    using assms(4) settle_continue [OF assms(2,3) tm a] by auto
  let ?t1 = "reserve (continued t) (reserveFor b)"
  obtain t1 again es1 where l: "admit_loop (Suc 0) bs ?t1 = (t1, again, es1)" by (metis prod_cases3)
  have l0: "admit_loop 0 (held d) (continued t) = (t1, again, Resolve (hb_id b) Proceed # es1)"
    using bs l by simp
  have frame: "allowances t1 = allowances t + 1 \<and> state t1 = Open \<and> decision t1 = None"
  proof -
    have "allowances x' = allowances x \<and> state x' = state x \<and> decision x' = decision x"
      if "admit_loop i ys x = (x', ag, ee)" for i ys x x' ag ee
      using that by (induction i ys x arbitrary: x' ag ee rule: admit_loop.induct)
        (auto simp: Let_def split: if_splits prod.splits)
    from this [OF l] show ?thesis by (simp add: continued_def)
  qed
  have short: "length again < length (held d)" using admit_loop_subseq [OF l] bs by simp
  show ?thesis
  proof (cases "again = []")
    case True
    have "t' = t1" "es' = Resolve (hb_id b) Proceed # es1" using a l0 True by (auto simp: admit_def)
    with frame bs show ?thesis by (auto simp: eq put_def held_of_def)
  next
    case False
    obtain t2 n2 es2 where h: "hold (decisionTimeoutMs g) rid (next_id g) again t1 = (t2, n2, es2)"
      by (metis prod_cases3)
    have e: "t' = t2" "es' = (Resolve (hb_id b) Proceed # es1) @ es2" using a l0 h False by (auto simp: admit_def)
    have "held_of t2 = mset (map hb_id again)"
      using hold_result [OF h False] frame by (simp add: held_of_def)
    moreover have "allowances t2 = allowances t + 1 \<and> decision t2 \<noteq> None \<and> state t2 = AwaitingDecision"
      using h frame False by (auto simp: hold_def ask_def openDecision_def add_held_def Let_def split: list.splits)
    ultimately show ?thesis using bs short by (auto simp: eq e put_def)
  qed
qed

subsection \<open>Stopping\<close>

fun speaks_for :: "string \<Rightarrow> effect \<Rightarrow> bool" where
  "speaks_for rid (Decide d r l ob) = (r = rid)"
| "speaks_for rid (StopRequest r) = (r = rid)"
| "speaks_for rid _ = False"

definition stopped_in :: "string \<Rightarrow> gate \<Rightarrow> bool" where
  "stopped_in rid g \<longleftrightarrow> (\<exists>t. js_get (requests g) rid = Some t \<and> state t = StoppedAtLimit)"

text \<open>The host keeps a request: no call offers a list of reachable requests that leaves it out.\<close>

definition keeps_reachable :: "string \<Rightarrow> gate_call \<Rightarrow> bool" where
  "keeps_reachable rid c = (case c of Begin r raw (Some rs) \<Rightarrow> rid \<in> set rs | _ \<Rightarrow> True)"

lemma stopped_put: "stopped_in rid g \<Longrightarrow> r \<noteq> rid \<or> state t = StoppedAtLimit \<Longrightarrow> stopped_in rid (put r t (g\<lparr>next_id := n\<rparr>))"
  by (auto simp: stopped_in_def put_def)

lemma stopped_put0: "stopped_in rid g \<Longrightarrow> r \<noteq> rid \<or> state t = StoppedAtLimit \<Longrightarrow> stopped_in rid (put r t g)"
  by (auto simp: stopped_in_def put_def)

lemma stopped_update: "stopped_in rid g \<Longrightarrow> quiet f \<Longrightarrow> stopped_in rid (update_tracked r f g)"
  by (auto simp: stopped_in_def update_tracked_def put_def quiet_def split: option.split)

lemma hold_speaks: "hold ms r n bs t = (t', n', es) \<Longrightarrow> r \<noteq> rid \<Longrightarrow> \<forall>e \<in> set es. \<not> speaks_for rid e"
  by (auto simp: hold_def ask_def openDecision_def add_held_def Let_def split: option.splits list.splits if_splits)

lemma refuse_speaks [simp]: "\<forall>e \<in> set (refuse bs). \<not> speaks_for rid e"
  by (simp add: refuse_def)

lemma admit_loop_speaks: "admit_loop i bs t = (t', ag, es) \<Longrightarrow> \<forall>e \<in> set es. \<not> speaks_for rid e"
  by (induction i bs t arbitrary: t' ag es rule: admit_loop.induct)
     (auto simp: Let_def split: if_splits prod.splits)

lemma admit_speaks: "admit ms r n bs t = (t', n', es) \<Longrightarrow> r \<noteq> rid \<Longrightarrow> \<forall>e \<in> set es. \<not> speaks_for rid e"
  using admit_loop_speaks hold_speaks by (fastforce simp: admit_def split: prod.splits if_splits)

lemma close_speaks: "close t d ended = (t', es) \<Longrightarrow> \<forall>e \<in> set es. \<not> speaks_for rid e"
  by (auto simp: close_def split: option.splits)

definition quiet_about :: "string \<Rightarrow> gate \<times> effect list \<Rightarrow> bool" where
  "quiet_about rid out \<longleftrightarrow> stopped_in rid (fst out) \<and> (\<forall>e \<in> set (snd out). \<not> speaks_for rid e)"

lemma stopped_boundary:
  assumes "stopped_in rid g"
  shows "quiet_about rid (boundary r kind aborted a g)"
proof -
  let ?b = "\<lparr>hb_id = next_id g, hb_kind = kind, reserveFor = a\<rparr>"
  show ?thesis
  proof (cases "js_get (requests g) r")
    case None
    with assms show ?thesis by (simp add: boundary_untracked quiet_about_def stopped_in_def)
  next
    case (Some t)
    consider (refused) "state t = StoppedAtLimit \<or> (aborted \<and> \<not> (state t = Open \<and> reached t = []))"
      | (crosses) "state t = Open" "reached t = []"
      | (holds) "state t \<noteq> StoppedAtLimit" "\<not> (state t = Open \<and> reached t = [])" "\<not> aborted"
      by blast
    then show ?thesis
    proof cases
      case refused
      with assms show ?thesis by (simp add: boundary_refused [OF Some] quiet_about_def stopped_in_def)
    next
      case crosses
      then have "r \<noteq> rid" using assms Some by (auto simp: stopped_in_def)
      with assms show ?thesis
        by (simp add: boundary_crosses [OF Some crosses] quiet_about_def stopped_put)
    next
      case holds
      then have r: "r \<noteq> rid" using assms Some by (auto simp: stopped_in_def)
      obtain t' n es where h: "hold (decisionTimeoutMs g) r (Suc (next_id g)) [?b] t = (t', n, es)"
        by (metis prod_cases3)
      show ?thesis
        unfolding boundary_holds [OF Some holds h]
        using assms r hold_speaks [OF h r] by (simp add: quiet_about_def stopped_put)
    qed
  qed
qed

lemma stopped_caller_aborted:
  assumes "gate_ok g" and "stopped_in rid g"
  shows "quiet_about rid (caller_aborted r b g)"
proof (cases "\<exists>t d. js_get (requests g) r = Some t \<and> decision t = Some d \<and> b \<in> hb_id ` set (held d)")
  case False
  then have "caller_aborted r b g = (g, [])"
    by (intro caller_aborted_idle) (cases "js_get (requests g) r"; auto)
  with assms show ?thesis by (simp add: quiet_about_def)
next
  case True
  then obtain t d where t: "js_get (requests g) r = Some t" and d: "decision t = Some d"
    and b: "b \<in> hb_id ` set (held d)" by blast
  have tok: "tracked_ok t" by (rule gate_okD(1) [OF assms(1) t])
  then have tm: "timer d" and "state t = AwaitingDecision" using d by (auto simp: tracked_ok_def)
  then have r: "r \<noteq> rid" using assms(2) t by (auto simp: stopped_in_def)
  show ?thesis
  proof (cases "held (drop_held b d) = []")
    case last: True
    show ?thesis using assms(2) r by (simp add: caller_aborted_last [OF t d b last tm] quiet_about_def stopped_put0)
  next
    case more: False
    show ?thesis using assms(2) r by (simp add: caller_aborted_more [OF t d b more] quiet_about_def stopped_put0)
  qed
qed

lemma closing_speaks: "\<forall>e \<in> set (closing did ended). \<not> speaks_for rid e"
  by (cases ended) (simp_all add: closing_def)

lemma stopped_settle:
  assumes "gate_ok g" and "stopped_in rid g"
  shows "quiet_about rid (settle r did answered ended g)"
proof (cases "\<exists>t d. js_get (requests g) r = Some t \<and> decision t = Some d \<and> dec_id d = did")
  case False
  then have "settle r did answered ended g = (g, [])"
    by (intro settle_stale) (cases "js_get (requests g) r"; auto)
  with assms show ?thesis by (simp add: quiet_about_def)
next
  case True
  then obtain t d where t: "js_get (requests g) r = Some t" and d: "decision t = Some d"
    and did: "dec_id d = did" by blast
  have tok: "tracked_ok t" by (rule gate_okD(1) [OF assms(1) t])
  then have tm: "timer d" and "state t = AwaitingDecision" using d by (auto simp: tracked_ok_def)
  then have r: "r \<noteq> rid" using assms(2) t by (auto simp: stopped_in_def)
  show ?thesis
  proof (cases answered)
    case Stop
    show ?thesis using assms(2) r closing_speaks
      unfolding Stop did [symmetric] settle_stop [OF t d tm] by (auto simp: quiet_about_def stopped_put0 refuse_def)
  next
    case Continue
    obtain t' n es' where a: "admit (decisionTimeoutMs g) r (next_id g) (held d) (continued t) = (t', n, es')"
      by (metis prod_cases3)
    show ?thesis using assms(2) r closing_speaks admit_speaks [OF a r]
      unfolding Continue did [symmetric] settle_continue [OF t d tm a] by (auto simp: quiet_about_def stopped_put)
  qed
qed

lemma stopped_begin:
  assumes "stopped_in rid g" and "keeps_reachable rid (Begin r raw reach)"
  shows "stopped_in rid (begin_request r raw reach g)"
proof (cases "js_get (requests g) r = None
      \<and> (providerTurns (normalizeRequestLimits raw) \<noteq> None \<or> tokens (normalizeRequestLimits raw) \<noteq> None)")
  case False
  with assms show ?thesis using begin_again by simp
next
  case True
  have "map_of (filter (\<lambda>(k, v). decision v \<noteq> None \<or> k \<in> set rs) m) rid = map_of m rid"
    if "rid \<in> set rs" for rs and m :: "(string, tracked_request) jsmap"
    using that by (induction m) auto
  then have "stopped_in rid (forgetUnreachable reach g)"
    using assms by (auto simp: stopped_in_def forgetUnreachable_def keeps_reachable_def split: option.splits)
  moreover have "r \<noteq> rid" using True assms(1) by (auto simp: stopped_in_def)
  ultimately show ?thesis using True by (simp add: begin_new stopped_put0)
qed

lemma dispose_tracked_speaks: "\<forall>e \<in> set (snd (dispose_tracked t)). \<not> speaks_for rid e"
  by (auto simp: dispose_tracked_def close_def refuse_def Let_def split: option.split)

lemma stopped_dispose:
  assumes "stopped_in rid g"
  shows "quiet_about rid (dispose g)"
proof -
  have "map_of (map (\<lambda>(rid, t). (rid, fst (dispose_tracked t))) m) rid = map_option (fst \<circ> dispose_tracked) (map_of m rid)"
    for m by (induction m) auto
  with assms have "stopped_in rid (fst (dispose g))"
    by (auto simp: stopped_in_def dispose_eq dispose_tracked_frame)
  then show ?thesis using dispose_tracked_speaks by (auto simp: quiet_about_def dispose_eq)
qed

lemma stopped_quiet:
  "stopped_in rid g \<Longrightarrow> quiet_about rid (noteProviderRequest r agent counted g, [])"
  "stopped_in rid g \<Longrightarrow> quiet_about rid (release r agent g, [])"
  "stopped_in rid g \<Longrightarrow> quiet_about rid (noteUsage r unit cs g, [])"
  "stopped_in rid g \<Longrightarrow> quiet_about rid (settleUsage r unit uc g, [])"
  "stopped_in rid g \<Longrightarrow> quiet_about rid (markUsageIncomplete r g, [])"
  "stopped_in rid g \<Longrightarrow> quiet_about rid (markObservedOnly r g, [])"
  by (simp_all add: quiet_about_def noteProviderRequest_def release_def noteUsage_def settleUsage_def
      markUsageIncomplete_def markObservedOnly_def stopped_update quiet_ops)

lemma stopped_step:
  assumes "gate_ok g" and "stopped_in rid g" and "keeps_reachable rid c"
  shows "quiet_about rid (gate_step c g)"
proof (cases c)
  case (Begin r raw reach)
  with assms show ?thesis using stopped_begin [OF assms(2)] by (simp add: quiet_about_def)
qed (simp_all only: gate_step.simps stopped_boundary [OF assms(2)] stopped_caller_aborted [OF assms(1,2)]
      stopped_settle [OF assms(1,2)] stopped_dispose [OF assms(2)] stopped_quiet [OF assms(2)])

lemma stopped_run:
  "gate_reaches g h \<Longrightarrow> stopped_in rid g \<Longrightarrow> \<forall>c \<in> set cs. keeps_reachable rid c \<Longrightarrow> quiet_about rid (gate_run cs g)"
proof (induction cs arbitrary: g h)
  case Nil
  then show ?case by (simp add: quiet_about_def)
next
  case (Cons c cs)
  obtain g1 e1 where s: "gate_step c g = (g1, e1)" by force
  obtain g2 e2 where r: "gate_run cs g1 = (g2, e2)" by force
  have "gate_ok g" using gate_reaches_ok [OF Cons.prems(1)] by simp
  with Cons.prems(2,3) s have q: "quiet_about rid (g1, e1)" using stopped_step [of g rid c] by simp
  then have "quiet_about rid (gate_run cs g1)"
    using Cons.prems(3) by (intro Cons.IH [OF gate_reaches.call [OF Cons.prems(1) s]]) (auto simp: quiet_about_def)
  with q s r show ?case by (auto simp: quiet_about_def)
qed

subsection \<open>The contract of the gate\<close>

text \<open>
  C1: every boundary is answered exactly once, and every open prompt has exactly one running timer.
  In any run of the gate the numbers it handed out are, each exactly once: the promises it has
  resolved, the prompts it has opened and the boundaries it still holds; and the prompts it opened are
  those whose timer it cleared and those still open.
\<close>

theorem boundaries_resolved_once:
  "case gate_run cs (new_gate timeout) of (g, es) \<Rightarrow>
     resolved es + asked es + held_all g = mset [0..<next_id g]
     \<and> asked es = cleared es + decisions_all g \<and> armed es = asked es"
proof -
  obtain g es where r: "gate_run cs (new_gate timeout) = (g, es)" by force
  have "balanced g es" using gate_reaches_ok [OF gate_run_reaches [OF gate_reaches.fresh r]] by simp
  then show ?thesis unfolding r prod.case balanced_def .
qed

text \<open>
  C2: a limit on provider turns holds. When the host counts a model request only after its boundary
  reserved it, the turns reserved and counted for a request never exceed its limit times one plus the
  number of times the person chose to continue, whatever is called in which order.
\<close>

theorem provider_turns_within_limit:
  assumes "reserved_run cs (new_gate timeout)"
    and "js_get (requests (fst (gate_run cs (new_gate timeout)))) rid = Some t"
    and "providerTurns (configured t) = Some c"
  shows "sum_list (js_values (reserved t)) + providerRequests t + hostCountedTurns t \<le> c * (allowances t + 1)"
proof -
  obtain g es where r: "gate_run cs (new_gate timeout) = (g, es)" by force
  have "gate_fits (new_gate timeout)" by (simp add: gate_fits_def new_gate_def)
  from reserved_run_fits [OF gate_reaches.fresh this assms(1) r] have "fits 0 t"
    using assms(2) r by (auto intro: gate_fitsD)
  with assms(3) show ?thesis by (simp add: fits_def spent_def)
qed

text \<open>
  C40: choosing to continue makes progress. The answer lets the boundary that has waited longest cross,
  adds exactly one allowance, leaves strictly fewer boundaries waiting, and the request is open again
  exactly when no new decision was opened for the rest.
\<close>

theorem continue_admits_the_longest_waiting:
  assumes "js_get (requests (fst (gate_run cs (new_gate timeout)))) rid = Some t" and "decision t = Some d"
  shows "case gate_step (Answered rid (dec_id d) Continue) (fst (gate_run cs (new_gate timeout))) of (g', es) \<Rightarrow>
    Resolve (hb_id (hd (held d))) Proceed \<in> set es
    \<and> (\<exists>t'. js_get (requests g') rid = Some t' \<and> allowances t' = allowances t + 1
        \<and> size (held_of t') < length (held d)
        \<and> (decision t' = None \<and> state t' = Open \<or> decision t' \<noteq> None \<and> state t' = AwaitingDecision))"
proof -
  obtain g es where r: "gate_run cs (new_gate timeout) = (g, es)" by force
  obtain g' es' where s: "gate_step (Answered rid (dec_id d) Continue) g = (g', es')" by force
  have "gate_ok g" using gate_reaches_ok [OF gate_run_reaches [OF gate_reaches.fresh r]] by blast
  from continue_run [OF this _ assms(2) s] assms(1) r s show ?thesis by simp
qed

text \<open>
   a stop is final. Once a request is stopped at its limit, and as long as the host lists it as
  reachable, every later boundary of it is refused at once and the gate neither asks about it nor asks
  the host to stop it again.
\<close>

theorem stopped_request_stays_stopped:
  assumes "js_get (requests (fst (gate_run cs (new_gate timeout)))) rid = Some t" and "state t = StoppedAtLimit"
    and "list_all (keeps_reachable rid) cs'"
  shows "case gate_run cs' (fst (gate_run cs (new_gate timeout))) of (g', es') \<Rightarrow>
    boundary rid kind aborted a g' = (g'\<lparr>next_id := Suc (next_id g')\<rparr>, [Resolve (next_id g') Stopped])
    \<and> \<not> list_ex (speaks_for rid) es'"
proof -
  obtain g es where r: "gate_run cs (new_gate timeout) = (g, es)" by force
  obtain g' es' where s: "gate_run cs' g = (g', es')" by force
  have "gate_reaches g es" using gate_run_reaches [OF gate_reaches.fresh r] by simp
  moreover have "stopped_in rid g" using assms(1,2) r by (auto simp: stopped_in_def)
  ultimately have q: "quiet_about rid (g', es')" using stopped_run [of g es rid cs'] assms(3) s by (simp add: list_all_iff)
  then obtain t' where "js_get (requests g') rid = Some t'" "state t' = StoppedAtLimit"
    by (auto simp: quiet_about_def stopped_in_def)
  with q boundary_refused [of g' rid t'] r s show ?thesis by (simp add: quiet_about_def list_ex_iff)
qed

text \<open>
   exactly one decision is open per waiting request. In every reachable gate a request awaits a
  decision iff one is open; the open one holds at least one boundary and none twice, its timer runs, the
  gate is not disposed, and the request has recorded at most one crossing per allowance it was given.
\<close>

theorem one_decision_per_waiting_request:
  assumes "js_get (requests (fst (gate_run cs (new_gate timeout)))) rid = Some t"
  shows "(state t = AwaitingDecision \<longleftrightarrow> decision t \<noteq> None)
    \<and> (case decision t of None \<Rightarrow> True
        | Some d \<Rightarrow> held d \<noteq> [] \<and> distinct (map hb_id (held d)) \<and> timer d
            \<and> crossedAtAllowances t = Some (allowances t) \<and> \<not> disposed (fst (gate_run cs (new_gate timeout))))
    \<and> crossings t \<le> allowances t + 1"
proof -
  obtain g es where r: "gate_run cs (new_gate timeout) = (g, es)" by force
  note t = assms [unfolded r fst_conv]
  have ok: "gate_ok g" and bal: "balanced g es"
    using gate_reaches_ok [OF gate_run_reaches [OF gate_reaches.fresh r]] by auto
  have tok: "tracked_ok t" by (rule gate_okD(1) [OF ok t])
  have "crossings t \<le> allowances t + 1"
    using tok by (cases "crossedAtAllowances t") (auto simp: tracked_ok_def)
  moreover have "t \<in> set (js_values (requests g))" using js_get_in [OF t] by force
  ultimately show ?thesis
    using tok balanced_distinct_held [OF bal] gate_okD(2) [OF ok t] r
    by (auto simp: tracked_ok_def distinct_held_def split: option.split)
qed

text \<open>
   \<open>wouldHold\<close> is exact: a boundary offered now, by a caller that has not aborted, is left
  unanswered iff \<open>wouldHold\<close> says so.
\<close>

theorem wouldHold_predicts_boundary:
  "wouldHold g rid \<longleftrightarrow> resolved (snd (boundary rid kind False a g)) = {#}"
proof (cases "js_get (requests g) rid")
  case None
  then show ?thesis by (simp add: boundary_untracked wouldHold_def)
next
  case (Some t)
  consider (refused) "state t = StoppedAtLimit"
    | (crosses) "state t = Open" "reached t = []"
    | (holds) "state t \<noteq> StoppedAtLimit" "\<not> (state t = Open \<and> reached t = [])"
    by blast
  then show ?thesis
  proof cases
    case refused
    with Some show ?thesis using boundary_refused [OF Some] by (simp add: wouldHold_def)
  next
    case crosses
    with Some show ?thesis by (simp add: boundary_crosses wouldHold_def)
  next
    case holds
    obtain t' n es where h: "hold (decisionTimeoutMs g) rid (Suc (next_id g))
        [\<lparr>hb_id = next_id g, hb_kind = kind, reserveFor = a\<rparr>] t = (t', n, es)"
      by (metis prod_cases3)
    have "wouldHold g rid" using Some holds by (cases "state t") (auto simp: wouldHold_def)
    moreover have "resolved (snd (boundary rid kind False a g)) = {#}"
    proof -
      have "boundary rid kind False a g = (put rid t' (g\<lparr>next_id := n\<rparr>), es)"
        by (rule boundary_holds [OF Some holds _ h]) simp
      with hold_result [OF h] show ?thesis by simp
    qed
    ultimately show ?thesis by simp
  qed
qed

subsection \<open>Concrete runs\<close>

definition one_turn :: js_value where
  "one_turn = JObject [(''providerTurns'', JNum (Fin 1))]"

definition first_crossing :: "gate_call list" where
  "first_crossing = [Begin ''r'' one_turn None, Boundary ''r'' ProviderRequest False (Some ''a''),
     NoteProviderRequest ''r'' ''a'' CountRequest, Boundary ''r'' Effect False None,
     Boundary ''r'' ProviderRequest False (Some ''a'')]"

definition request_after :: "gate_call list \<Rightarrow> tracked_request" where
  "request_after cs = the (js_get (requests (fst (gate_run cs (new_gate None)))) ''r'')"

lemma waiting_run:
  "js_get (requests (fst (gate_run first_crossing (new_gate None)))) ''r'' = Some (request_after first_crossing)"
  by code_simp

lemma waiting_decision: "decision (request_after first_crossing) = Some (the (decision (request_after first_crossing)))"
  by code_simp

lemma waiting_limit: "providerTurns (configured (request_after first_crossing)) = Some 1"
  by code_simp

lemma waiting_reserved: "reserved_run first_crossing (new_gate None)"
  by code_simp

lemmas waiting = waiting_run waiting_decision waiting_limit waiting_reserved

lemma stopped_run_ends:
  "js_get (requests (fst (gate_run (first_crossing @ [TimerExpired ''r'' 2]) (new_gate None)))) ''r''
     = Some (request_after (first_crossing @ [TimerExpired ''r'' 2]))"
  by code_simp

lemma stopped_run_state: "state (request_after (first_crossing @ [TimerExpired ''r'' 2])) = StoppedAtLimit"
  by code_simp

theorem provider_turns_within_limit_witness:
  "sum_list (js_values (reserved (request_after first_crossing))) + providerRequests (request_after first_crossing)
     + hostCountedTurns (request_after first_crossing) \<le> 1 * (allowances (request_after first_crossing) + 1)"
  by (rule provider_turns_within_limit [OF waiting(4,1,3)])

theorem continue_admits_the_longest_waiting_witness:
  "Resolve 1 Proceed \<in> set (snd (gate_step (Answered ''r'' 2 Continue) (fst (gate_run first_crossing (new_gate None)))))"
proof -
  have "dec_id (the (decision (request_after first_crossing))) = 2"
    and "hb_id (hd (held (the (decision (request_after first_crossing))))) = 1" by code_simp+
  with continue_admits_the_longest_waiting [OF waiting(1,2)] show ?thesis
    by (simp add: case_prod_beta)
qed

theorem stopped_request_stays_stopped_witness:
  "\<not> list_ex (speaks_for ''r'') (snd (gate_run [Boundary ''r'' Effect False None]
     (fst (gate_run (first_crossing @ [TimerExpired ''r'' 2]) (new_gate None)))))"
proof -
  have "list_all (keeps_reachable ''r'') [Boundary ''r'' Effect False None]" by code_simp
  from stopped_request_stays_stopped [OF stopped_run_ends stopped_run_state this] show ?thesis
    by (auto simp: case_prod_beta simp del: gate_run.simps)
qed

theorem one_decision_per_waiting_request_witness:
  "crossings (request_after first_crossing) \<le> allowances (request_after first_crossing) + 1"
  using one_decision_per_waiting_request [OF waiting(1)] by blast

end
