(* ===== verification/SpendTypes.thy ===== *)
theory SpendTypes
  imports Money
begin

text \<open>
  Spend events, receipts and the control file (\<open>src/models/spend/SpendTypes.ts\<close>): the closed
  shapes as datatypes and records, the validators over untyped values, and the canonical text of a
  value that digests and event identities are taken over.

  Parameters: \<open>date_parse\<close> is \<open>Date.parse\<close> (\<^const>\<open>None\<close> for \<open>NaN\<close>),
  \<open>num_text\<close> is \<open>String\<close> of a finite number, \<open>sha256\<close> the hexadecimal digest of the
  crypto library. The counts of a validated event are natural numbers below \<open>MAX_TOKENS\<close>.
\<close>

subsection \<open>Shapes\<close>

datatype cost_basis =
    Billed | UserModelOverride | AccountCoefficient | AccountGroup | AuthenticatedAccount
  | GatewayPublished | UnodeReference | RoamReference | ApiEquivalent | UnavailableBasis

definition COST_BASES :: "cost_basis list" where
  "COST_BASES = [Billed, UserModelOverride, AccountCoefficient, AccountGroup, AuthenticatedAccount,
     GatewayPublished, UnodeReference, RoamReference, ApiEquivalent, UnavailableBasis]"

fun cost_basis_text :: "cost_basis \<Rightarrow> string" where
  "cost_basis_text Billed = ''billed''"
| "cost_basis_text UserModelOverride = ''user-model-override''"
| "cost_basis_text AccountCoefficient = ''account-coefficient''"
| "cost_basis_text AccountGroup = ''account-group''"
| "cost_basis_text AuthenticatedAccount = ''authenticated-account''"
| "cost_basis_text GatewayPublished = ''gateway-published''"
| "cost_basis_text UnodeReference = ''unode-reference''"
| "cost_basis_text RoamReference = ''roam-reference''"
| "cost_basis_text ApiEquivalent = ''api-equivalent''"
| "cost_basis_text UnavailableBasis = ''unavailable''"

datatype token_basis = Reported | ReportedPartial | Reconstructed | TokensUnavailable

datatype reminder_basis = ReportedTokens | ByBilled | ByExactRoute | BySelectedReference | NotEligible

record usage_tokens =
  ut_input :: nat
  ut_cachedInput :: "nat option"
  ut_output :: nat
  ut_reasoningOutput :: "nat option"
  ut_basis :: token_basis

datatype display_cost =
    Priced (dc_nanoUsd: string) (dc_basis: cost_basis) (dc_sourceId: string)
      (dc_sourceDate: "string option") (dc_stale: bool)
  | CostUnavailable

definition display_basis :: "display_cost \<Rightarrow> cost_basis" where
  "display_basis c = (case c of Priced _ b _ _ _ \<Rightarrow> b | CostUnavailable \<Rightarrow> UnavailableBasis)"

record reminder_value =
  rv_tokens :: "nat option"
  rv_nanoUsd :: "string option"
  rv_basis :: reminder_basis

definition not_eligible :: reminder_value where
  "not_eligible = \<lparr>rv_tokens = None, rv_nanoUsd = None, rv_basis = NotEligible\<rparr>"

record usage_receipt =
  rc_receiptId :: string
  rc_requestId :: string
  rc_runId :: "string option"
  rc_usageUnitId :: string
  rc_providerAttempts :: nat
  rc_coveredProgressIds :: "string list option"
  rc_agentId :: string
  rc_connectionId :: string
  rc_modelId :: string
  rc_observedAt :: string
  rc_tokens :: usage_tokens
  rc_displayCost :: display_cost
  rc_reminderValue :: reminder_value
  rc_coverageGap :: bool

record unit_start =
  us_usageUnitId :: string
  us_requestId :: string
  us_agentId :: string
  us_connectionId :: string
  us_modelId :: string
  us_providerAttempts :: nat

record usage_progress =
  up_progressId :: string
  up_usageUnitId :: string
  up_requestId :: string
  up_providerAttempt :: nat
  up_tokens :: usage_tokens
  up_displayCost :: display_cost
  up_reminderValue :: reminder_value

record cost_adjustment =
  ca_adjustmentId :: string
  ca_receiptId :: string
  ca_expectedCostBasis :: cost_basis
  ca_displayCost :: display_cost
  ca_reminderValue :: reminder_value

datatype event_payload =
    UsageUnitStart unit_start
  | UsageProgress usage_progress
  | UsageReceipt usage_receipt
  | CostAdjustment cost_adjustment
  | CoverageGap string string

record spend_event =
  ev_eventId :: string
  ev_hostEpoch :: string
  ev_sequence :: nat
  ev_recordedAt :: string
  ev_payload :: event_payload

record stored_event =
  st_segment :: string
  st_event :: spend_event

record totals_snapshot =
  ts_eligibleTokens :: nat
  ts_eligibleNanoUsd :: string
  ts_displayTokens :: nat

datatype reset_scope = ResetRequest | ResetProjectPeriod | ResetAgentPeriod | ResetProjectAll

record counter_reset =
  rs_resetId :: string
  rs_scope :: reset_scope
  rs_requestId :: "string option"
  rs_agentId :: "string option"
  rs_periodId :: "string option"
  rs_resetAt :: string
  rs_watermarks :: "(string, nat) jsmap"
  rs_previousTotals :: totals_snapshot

datatype target_decision = AcceptedDigest string string | IgnoreProject string

record spend_control =
  sc_revision :: nat
  sc_resets :: "counter_reset list"
  sc_noticeClaims :: "(string \<times> string) list"
  sc_repositoryTargetDecision :: "target_decision option"
  sc_repairs :: "(string \<times> string \<times> string) list"

definition emptySpendControl :: spend_control where
  "emptySpendControl = \<lparr>sc_revision = 0, sc_resets = [], sc_noticeClaims = [],
     sc_repositoryTargetDecision = None, sc_repairs = []\<rparr>"

subsection \<open>Validation\<close>

definition is_alnum :: "char \<Rightarrow> bool" where
  "is_alnum c \<longleftrightarrow> is_upper c \<or> is_lower c \<or> is_digit c"

text \<open>The character classes of \<open>ID\<close>, \<open>SHORT_ID\<close> and \<open>DIGEST\<close>.\<close>

definition id_char :: "char \<Rightarrow> bool" where
  "id_char c \<longleftrightarrow> is_alnum c \<or> c \<in> set ''._:@-''"

definition route_char :: "char \<Rightarrow> bool" where
  "route_char c \<longleftrightarrow> is_alnum c \<or> c \<in> set ''._:@/+-''"

definition hex_char :: "char \<Rightarrow> bool" where
  "hex_char c \<longleftrightarrow> is_digit c \<or> c \<in> set ''abcdef''"

text \<open>\<open>/^[class]{lo,hi}$/\<close>\<close>

definition all_of :: "(char \<Rightarrow> bool) \<Rightarrow> nat \<Rightarrow> nat \<Rightarrow> string \<Rightarrow> bool" where
  "all_of P lo hi s \<longleftrightarrow> lo \<le> length s \<and> length s \<le> hi \<and> list_all P s"

definition ID :: "string \<Rightarrow> bool" where
  "ID = all_of id_char 1 200"

definition SHORT_ID :: "string \<Rightarrow> bool" where
  "SHORT_ID = all_of route_char 1 300"

definition DIGEST :: "string \<Rightarrow> bool" where
  "DIGEST = all_of hex_char 64 64"

definition MAX_TOKENS :: nat where
  "MAX_TOKENS = 1000000000000000"

datatype id_kind = IdKind | RouteKind

definition spendEventId :: "(string \<Rightarrow> string) \<Rightarrow> string \<Rightarrow> id_kind \<Rightarrow> string" where
  "spendEventId sha256 value kind =
     (let pattern = (case kind of IdKind \<Rightarrow> ID | RouteKind \<Rightarrow> SHORT_ID)
      in if pattern value then value else ''h-'' @ take 40 (sha256 value))"

fun isObject :: "js_value \<Rightarrow> bool" where
  "isObject (JObject ms) = True"
| "isObject _ = False"

fun members :: "js_value \<Rightarrow> (string \<times> js_value) list" where
  "members (JObject ms) = ms"
| "members _ = []"

text \<open>Reading a property of a value known to be an object.\<close>

abbreviation prop_of :: "js_value \<Rightarrow> string \<Rightarrow> js_value" where
  "prop_of v k \<equiv> member_of (members v) k"

definition onlyKeys :: "js_value \<Rightarrow> string list \<Rightarrow> bool" where
  "onlyKeys v allowed \<longleftrightarrow> list_all (\<lambda>k. k \<in> set allowed) (map fst (members v))"

fun text_such :: "(string \<Rightarrow> bool) \<Rightarrow> js_value \<Rightarrow> bool" where
  "text_such P (JString s) = P s"
| "text_such P _ = False"

definition isId :: "js_value \<Rightarrow> bool" where
  "isId = text_such ID"

definition isRouteId :: "js_value \<Rightarrow> bool" where
  "isRouteId = text_such SHORT_ID"

fun count_of :: "js_value \<Rightarrow> int option" where
  "count_of (JNum x) = safe_integer x"
| "count_of _ = None"

definition isCountFrom :: "int \<Rightarrow> js_value \<Rightarrow> bool" where
  "isCountFrom lo v = (case count_of v of Some i \<Rightarrow> lo \<le> i \<and> i \<le> int MAX_TOKENS | None \<Rightarrow> False)"

abbreviation isCount :: "js_value \<Rightarrow> bool" where
  "isCount \<equiv> isCountFrom 0"

definition isTimestamp :: "(string \<Rightarrow> int option) \<Rightarrow> js_value \<Rightarrow> bool" where
  "isTimestamp date_parse = text_such (\<lambda>s. length s \<le> 40 \<and> date_parse s \<noteq> None)"

definition isCostBasis :: "js_value \<Rightarrow> bool" where
  "isCostBasis = text_such (\<lambda>s. s \<in> set (map cost_basis_text COST_BASES))"

definition validUsageTokens :: "js_value \<Rightarrow> bool" where
  "validUsageTokens v \<longleftrightarrow>
     isObject v \<and> onlyKeys v [''input'', ''cachedInput'', ''output'', ''reasoningOutput'', ''basis'']
   \<and> isCount (prop_of v ''input'') \<and> isCount (prop_of v ''output'')
   \<and> (prop_of v ''cachedInput'' = JUndefined
      \<or> (isCount (prop_of v ''cachedInput'')
         \<and> the (count_of (prop_of v ''cachedInput'')) \<le> the (count_of (prop_of v ''input''))))
   \<and> (prop_of v ''reasoningOutput'' = JUndefined \<or> isCount (prop_of v ''reasoningOutput''))
   \<and> text_such (\<lambda>s. s \<in> {''reported'', ''reported-partial'', ''reconstructed'', ''unavailable''})
       (prop_of v ''basis'')"

definition validDisplayCost :: "(string \<Rightarrow> int option) \<Rightarrow> js_value \<Rightarrow> bool" where
  "validDisplayCost date_parse v \<longleftrightarrow>
     isObject v \<and>
     (if prop_of v ''basis'' = JString ''unavailable'' then onlyKeys v [''basis'']
      else onlyKeys v [''nanoUsd'', ''basis'', ''sourceId'', ''sourceDate'', ''stale'']
       \<and> isCostBasis (prop_of v ''basis'') \<and> prop_of v ''basis'' \<noteq> JString ''unavailable''
       \<and> parseNanoUsd (prop_of v ''nanoUsd'') \<noteq> None
       \<and> isRouteId (prop_of v ''sourceId'')
       \<and> (prop_of v ''sourceDate'' = JUndefined \<or> isTimestamp date_parse (prop_of v ''sourceDate''))
       \<and> (prop_of v ''stale'' = JUndefined \<or> prop_of v ''stale'' = JBool True))"

definition validReminderValue :: "js_value \<Rightarrow> bool" where
  "validReminderValue v \<longleftrightarrow>
     isObject v \<and> onlyKeys v [''tokens'', ''nanoUsd'', ''basis'']
   \<and> (prop_of v ''tokens'' = JUndefined \<or> isCount (prop_of v ''tokens''))
   \<and> (prop_of v ''nanoUsd'' = JUndefined \<or> parseNanoUsd (prop_of v ''nanoUsd'') \<noteq> None)
   \<and> (case prop_of v ''basis'' of
        JString b \<Rightarrow>
          if b = ''not-eligible'' then prop_of v ''tokens'' = JUndefined \<and> prop_of v ''nanoUsd'' = JUndefined
          else if b = ''reported-tokens'' then prop_of v ''tokens'' \<noteq> JUndefined \<and> prop_of v ''nanoUsd'' = JUndefined
          else if b \<in> {''billed'', ''exact-route'', ''selected-reference''} then prop_of v ''nanoUsd'' \<noteq> JUndefined
          else False
      | _ \<Rightarrow> False)"

text \<open>The template texts \<open>a:b\<close> over a text and a count.\<close>

definition nat_text :: "(rat \<Rightarrow> string) \<Rightarrow> js_value \<Rightarrow> string" where
  "nat_text num_text v = (case v of JNum (Fin q) \<Rightarrow> num_text q | _ \<Rightarrow> [])"

fun text_of :: "js_value \<Rightarrow> string" where
  "text_of (JString s) = s"
| "text_of _ = []"

text \<open>The loop over \<open>coveredProgressIds\<close>, with the ids it has seen.\<close>

fun covered_ids_ok :: "string \<Rightarrow> string list \<Rightarrow> js_value list \<Rightarrow> bool" where
  "covered_ids_ok unit seen [] = True"
| "covered_ids_ok unit seen (v # vs) =
     (isId v \<and> text_of v \<notin> set seen \<and> starts_with (text_of v) (''progress:'' @ unit @ '':'')
      \<and> covered_ids_ok unit (text_of v # seen) vs)"

definition RECEIPT_KEYS :: "string list" where
  "RECEIPT_KEYS = [''schemaVersion'', ''receiptId'', ''requestId'', ''runId'', ''usageUnitId'',
     ''providerAttempts'', ''coveredProgressIds'', ''agentId'', ''connectionId'', ''modelId'',
     ''observedAt'', ''tokens'', ''displayCost'', ''reminderValue'', ''coverageGap'']"

definition validUsageReceipt :: "(string \<Rightarrow> int option) \<Rightarrow> js_value \<Rightarrow> bool" where
  "validUsageReceipt date_parse v \<longleftrightarrow>
     isObject v \<and> onlyKeys v RECEIPT_KEYS
   \<and> prop_of v ''schemaVersion'' = JNum (Fin 1) \<and> isId (prop_of v ''receiptId'')
   \<and> isId (prop_of v ''requestId'') \<and> isId (prop_of v ''usageUnitId'')
   \<and> prop_of v ''receiptId'' = JString (''usage:'' @ text_of (prop_of v ''usageUnitId''))
   \<and> (prop_of v ''runId'' = JUndefined \<or> isId (prop_of v ''runId''))
   \<and> isCount (prop_of v ''providerAttempts'')
   \<and> (case prop_of v ''coveredProgressIds'' of
        JUndefined \<Rightarrow> True
      | JArray ids \<Rightarrow> int (length ids) \<le> the (count_of (prop_of v ''providerAttempts''))
          \<and> covered_ids_ok (text_of (prop_of v ''usageUnitId'')) [] ids
      | _ \<Rightarrow> False)
   \<and> isId (prop_of v ''agentId'') \<and> isRouteId (prop_of v ''connectionId'') \<and> isRouteId (prop_of v ''modelId'')
   \<and> isTimestamp date_parse (prop_of v ''observedAt'')
   \<and> validUsageTokens (prop_of v ''tokens'')
   \<and> validDisplayCost date_parse (prop_of v ''displayCost'')
   \<and> validReminderValue (prop_of v ''reminderValue'')
   \<and> (prop_of v ''coverageGap'' = JUndefined
      \<or> prop_of v ''coverageGap'' = JString ''one-or-more-attempts-unattributed'')"

definition ENVELOPE_KEYS :: "string list" where
  "ENVELOPE_KEYS = [''schemaVersion'', ''eventId'', ''hostEpoch'', ''sequence'', ''recordedAt'', ''kind'']"

text \<open>The keys each kind of event may carry beside the envelope.\<close>

definition kind_keys :: "string \<Rightarrow> string list" where
  "kind_keys kind =
     (if kind = ''usage-unit-start''
      then [''usageUnitId'', ''requestId'', ''agentId'', ''connectionId'', ''modelId'', ''providerAttempts'']
      else if kind = ''usage-progress''
      then [''progressId'', ''usageUnitId'', ''requestId'', ''providerAttempt'', ''tokens'', ''displayCost'', ''reminderValue'']
      else if kind = ''usage-receipt'' then [''receipt'']
      else if kind = ''cost-adjustment''
      then [''adjustmentId'', ''receiptId'', ''expectedCostBasis'', ''displayCost'', ''reminderValue'']
      else if kind = ''coverage-gap'' then [''usageUnitId'', ''requestId'', ''reason'']
      else [])"

definition valid_kind :: "(string \<Rightarrow> int option) \<Rightarrow> (rat \<Rightarrow> string) \<Rightarrow> js_value \<Rightarrow> string \<Rightarrow> bool" where
  "valid_kind date_parse num_text v kind \<longleftrightarrow>
     (if kind = ''usage-unit-start'' then
        isId (prop_of v ''usageUnitId'') \<and> isId (prop_of v ''requestId'') \<and> isId (prop_of v ''agentId'')
      \<and> isRouteId (prop_of v ''connectionId'') \<and> isRouteId (prop_of v ''modelId'')
      \<and> isCountFrom 1 (prop_of v ''providerAttempts'')
      \<and> prop_of v ''eventId'' = JString (''start:'' @ text_of (prop_of v ''usageUnitId'') @ '':''
           @ nat_text num_text (prop_of v ''providerAttempts''))
      else if kind = ''usage-progress'' then
        isId (prop_of v ''usageUnitId'') \<and> isId (prop_of v ''requestId'') \<and> isCountFrom 1 (prop_of v ''providerAttempt'')
      \<and> prop_of v ''progressId'' = JString (''progress:'' @ text_of (prop_of v ''usageUnitId'') @ '':''
           @ nat_text num_text (prop_of v ''providerAttempt''))
      \<and> prop_of v ''eventId'' = prop_of v ''progressId''
      \<and> validUsageTokens (prop_of v ''tokens'') \<and> prop_of (prop_of v ''tokens'') ''basis'' = JString ''reported''
      \<and> validDisplayCost date_parse (prop_of v ''displayCost'') \<and> validReminderValue (prop_of v ''reminderValue'')
      else if kind = ''usage-receipt'' then
        validUsageReceipt date_parse (prop_of v ''receipt'')
      \<and> prop_of v ''eventId'' = prop_of (prop_of v ''receipt'') ''receiptId''
      else if kind = ''cost-adjustment'' then
        isId (prop_of v ''adjustmentId'') \<and> prop_of v ''eventId'' = prop_of v ''adjustmentId''
      \<and> isId (prop_of v ''receiptId'') \<and> isCostBasis (prop_of v ''expectedCostBasis'')
      \<and> validDisplayCost date_parse (prop_of v ''displayCost'') \<and> validReminderValue (prop_of v ''reminderValue'')
      else if kind = ''coverage-gap'' then
        isId (prop_of v ''usageUnitId'') \<and> isId (prop_of v ''requestId'')
      \<and> prop_of v ''reason'' = JString ''no-terminal-usage''
      \<and> prop_of v ''eventId'' = JString (''gap:'' @ text_of (prop_of v ''usageUnitId''))
      else False)"

definition validateSpendEvent :: "(string \<Rightarrow> int option) \<Rightarrow> (rat \<Rightarrow> string) \<Rightarrow> js_value \<Rightarrow> js_value option" where
  "validateSpendEvent date_parse num_text v =
     (if \<not> isObject v then None
      else if \<not> (prop_of v ''schemaVersion'' = JNum (Fin 1) \<and> isId (prop_of v ''eventId'')
        \<and> isId (prop_of v ''hostEpoch'') \<and> isCountFrom 1 (prop_of v ''sequence'')
        \<and> isTimestamp date_parse (prop_of v ''recordedAt'')) then None
      else case prop_of v ''kind'' of
          JString kind \<Rightarrow>
            if onlyKeys v (ENVELOPE_KEYS @ kind_keys kind) \<and> valid_kind date_parse num_text v kind then Some v else None
        | _ \<Rightarrow> None)"

definition validTotalsSnapshot :: "js_value \<Rightarrow> bool" where
  "validTotalsSnapshot v \<longleftrightarrow>
     isObject v \<and> onlyKeys v [''eligibleTokens'', ''eligibleNanoUsd'', ''displayTokens'']
   \<and> isCount (prop_of v ''eligibleTokens'') \<and> parseNanoUsd (prop_of v ''eligibleNanoUsd'') \<noteq> None
   \<and> isCount (prop_of v ''displayTokens'')"

text \<open>\<open>/^\d{4}-\d{2}(?:-\d{2})?@[A-Za-z0-9_+\-/]{1,64}$/\<close>, at most 80 characters.\<close>

definition zone_char :: "char \<Rightarrow> bool" where
  "zone_char c \<longleftrightarrow> is_alnum c \<or> c \<in> set ''_+-/''"

definition day_text :: "string \<Rightarrow> bool" where
  "day_text d \<longleftrightarrow> map (\<lambda>c. if is_digit c then CHR ''0'' else c) d \<in> {''0000-00'', ''0000-00-00''}"

definition periodOk :: "js_value \<Rightarrow> bool" where
  "periodOk = text_such (\<lambda>s. length s \<le> 80 \<and>
     (let day = takeWhile (\<lambda>c. c \<noteq> CHR ''@'') s; zone = drop (Suc (length day)) s
      in length day < length s \<and> day_text day \<and> all_of zone_char 1 64 zone))"

definition validReset :: "(string \<Rightarrow> int option) \<Rightarrow> js_value \<Rightarrow> bool" where
  "validReset date_parse v \<longleftrightarrow>
     isObject v \<and> onlyKeys v [''resetId'', ''scope'', ''requestId'', ''agentId'', ''periodId'', ''resetAt'',
       ''actor'', ''watermarks'', ''previousTotals'']
   \<and> isId (prop_of v ''resetId'') \<and> prop_of v ''actor'' = JString ''user''
   \<and> isTimestamp date_parse (prop_of v ''resetAt'')
   \<and> isObject (prop_of v ''watermarks'')
   \<and> list_all (\<lambda>(segment, sequence). SHORT_ID segment \<and> isCount sequence) (members (prop_of v ''watermarks''))
   \<and> validTotalsSnapshot (prop_of v ''previousTotals'')
   \<and> (let none = (\<lambda>k. prop_of v k = JUndefined) in
      case prop_of v ''scope'' of
        JString sc \<Rightarrow>
          if sc = ''request'' then isId (prop_of v ''requestId'') \<and> none ''agentId'' \<and> none ''periodId''
          else if sc = ''project-period'' then periodOk (prop_of v ''periodId'') \<and> none ''requestId'' \<and> none ''agentId''
          else if sc = ''agent-period'' then periodOk (prop_of v ''periodId'') \<and> isId (prop_of v ''agentId'') \<and> none ''requestId''
          else if sc = ''project-all'' then none ''requestId'' \<and> none ''agentId'' \<and> none ''periodId''
          else False
      | _ \<Rightarrow> False)"

definition valid_claim :: "(string \<Rightarrow> int option) \<Rightarrow> js_value \<Rightarrow> bool" where
  "valid_claim date_parse v \<longleftrightarrow> isObject v \<and> onlyKeys v [''key'', ''claimedAt'']
     \<and> text_such (all_of (\<lambda>_. True) 1 600) (prop_of v ''key'') \<and> isTimestamp date_parse (prop_of v ''claimedAt'')"

definition valid_repair :: "(string \<Rightarrow> int option) \<Rightarrow> js_value \<Rightarrow> bool" where
  "valid_repair date_parse v \<longleftrightarrow> isObject v \<and> onlyKeys v [''repairId'', ''repairedAt'', ''reason'']
     \<and> isId (prop_of v ''repairId'') \<and> isTimestamp date_parse (prop_of v ''repairedAt'')
     \<and> text_such (all_of (\<lambda>_. True) 0 300) (prop_of v ''reason'')"

definition valid_decision :: "(string \<Rightarrow> int option) \<Rightarrow> js_value \<Rightarrow> bool" where
  "valid_decision date_parse v \<longleftrightarrow> isObject v \<and>
     (if prop_of v ''mode'' = JString ''accepted-digest''
      then onlyKeys v [''mode'', ''contentDigest'', ''decidedAt''] \<and> text_such DIGEST (prop_of v ''contentDigest'')
         \<and> isTimestamp date_parse (prop_of v ''decidedAt'')
      else prop_of v ''mode'' = JString ''ignore-project''
         \<and> onlyKeys v [''mode'', ''decidedAt''] \<and> isTimestamp date_parse (prop_of v ''decidedAt''))"

fun array_of :: "(js_value \<Rightarrow> bool) \<Rightarrow> js_value \<Rightarrow> bool" where
  "array_of P (JArray vs) = list_all P vs"
| "array_of P _ = False"

definition validateSpendControl :: "(string \<Rightarrow> int option) \<Rightarrow> js_value \<Rightarrow> js_value option" where
  "validateSpendControl date_parse v =
     (if isObject v \<and> onlyKeys v [''schemaVersion'', ''revision'', ''resets'', ''noticeClaims'',
           ''repositoryTargetDecision'', ''repairs'']
       \<and> prop_of v ''schemaVersion'' = JNum (Fin 1) \<and> isCount (prop_of v ''revision'')
       \<and> array_of (validReset date_parse) (prop_of v ''resets'')
       \<and> array_of (valid_claim date_parse) (prop_of v ''noticeClaims'')
       \<and> array_of (valid_repair date_parse) (prop_of v ''repairs'')
       \<and> (prop_of v ''repositoryTargetDecision'' = JUndefined
          \<or> valid_decision date_parse (prop_of v ''repositoryTargetDecision''))
      then Some v else None)"

subsection \<open>Canonical text\<close>

text \<open>\<open>JSON.stringify\<close> of a text: the quote, the backslash and the control characters are escaped.\<close>

definition hex_digit :: "nat \<Rightarrow> char" where
  "hex_digit n = ''0123456789abcdef'' ! n"

definition json_char :: "char \<Rightarrow> string" where
  "json_char c =
     (let n = of_char c :: nat in
      if n = 34 then [CHR 92, CHR 34]
      else if n = 92 then [CHR 92, CHR 92]
      else if n = 8 then [CHR 92, CHR ''b'']
      else if n = 9 then [CHR 92, CHR ''t'']
      else if n = 10 then [CHR 92, CHR ''n'']
      else if n = 12 then [CHR 92, CHR ''f'']
      else if n = 13 then [CHR 92, CHR ''r'']
      else if n < 32 then [CHR 92, CHR ''u'', CHR ''0'', CHR ''0'', hex_digit (n div 16), hex_digit (n mod 16)]
      else [c])"

definition json_text :: "string \<Rightarrow> string" where
  "json_text s = [CHR 34] @ concat (map json_char s) @ [CHR 34]"

fun commas_between :: "string list \<Rightarrow> string" where
  "commas_between [] = []"
| "commas_between [x] = x"
| "commas_between (x # y # xs) = x @ [CHR '',''] @ commas_between (y # xs)"

text \<open>
  The text of a defined value; an undefined item of an array is written as \<open>null\<close>, an undefined
  member of an object is left out, and the members are sorted by their keys.
\<close>

fun canonical :: "(rat \<Rightarrow> string) \<Rightarrow> js_value \<Rightarrow> string"
  and canonical_items :: "(rat \<Rightarrow> string) \<Rightarrow> js_value list \<Rightarrow> string list"
  and canonical_members :: "(rat \<Rightarrow> string) \<Rightarrow> (string \<times> js_value) list \<Rightarrow> (string \<times> string) list" where
  "canonical num_text JUndefined = ''null''"
| "canonical num_text JNull = ''null''"
| "canonical num_text (JBool b) = (if b then ''true'' else ''false'')"
| "canonical num_text (JNum x) = (case x of Fin q \<Rightarrow> num_text q | _ \<Rightarrow> ''null'')"
| "canonical num_text (JString s) = json_text s"
| "canonical num_text (JArray vs) = ''['' @ commas_between (canonical_items num_text vs) @ '']''"
| "canonical num_text (JObject ms) =
     ''{'' @ commas_between (map (\<lambda>(k, t). json_text k @ '':'' @ t) (sort_key fst (canonical_members num_text ms))) @ ''}''"
| "canonical_items num_text [] = []"
| "canonical_items num_text (v # vs) = canonical num_text v # canonical_items num_text vs"
| "canonical_members num_text [] = []"
| "canonical_members num_text ((k, v) # ms) =
     (if v = JUndefined then canonical_members num_text ms
      else (k, canonical num_text v) # canonical_members num_text ms)"

text \<open>\<open>canonicalJson\<close>: of \<open>undefined\<close> itself there is no text.\<close>

definition canonicalJson :: "(rat \<Rightarrow> string) \<Rightarrow> js_value \<Rightarrow> string option" where
  "canonicalJson num_text v = (if v = JUndefined then None else Some (canonical num_text v))"

text \<open>
  \<open>eventIdentityPayload\<close>: an event without its envelope, and a receipt without its
  \<open>observedAt\<close>. The code compares the canonical texts of these values.
\<close>

definition eventIdentityPayload :: "spend_event \<Rightarrow> event_payload" where
  "eventIdentityPayload e = (case ev_payload e of
       UsageReceipt r \<Rightarrow> UsageReceipt (r\<lparr>rc_observedAt := []\<rparr>)
     | p \<Rightarrow> p)"

end
