(* ===== verification/PriceCatalog.thy ===== *)
theory PriceCatalog
  imports SpendTypes
begin

text \<open>
  Dated reference price catalogs (\<open>src/models/spend/PriceCatalog.ts\<close>): validation, lookup, and the
  conversion of a published price list into a catalog. Parameters: \<open>sha256\<close>, \<open>num_text\<close> and
  \<open>date_parse\<close> as in the spend types. An object's own members are looked up; the names every
  JavaScript object inherits are not modelled.
\<close>

subsection \<open>Catalogs\<close>

datatype reference_provider = UnodeProvider | RoamProvider

fun provider_text :: "reference_provider \<Rightarrow> string" where
  "provider_text UnodeProvider = ''unode''"
| "provider_text RoamProvider = ''roam''"

record catalog_model =
  cm_modelId :: string
  cm_input :: string
  cm_output :: string
  cm_cachedInput :: "string option"

record price_catalog =
  pc_catalogId :: string
  pc_provider :: reference_provider
  pc_capturedAt :: string
  pc_publisherEffectiveAt :: "string option"
  pc_sourceUrl :: string
  pc_contentDigest :: string
  pc_aliases :: "(string, string) jsmap"
  pc_models :: "catalog_model list"

definition REFERENCE_STALE_AFTER_MS :: int where
  "REFERENCE_STALE_AFTER_MS = 30 * 24 * 60 * 60 * 1000"

definition MAX_MODELS :: nat where
  "MAX_MODELS = 2000"

definition MODEL_ID :: "string \<Rightarrow> bool" where
  "MODEL_ID = all_of route_char 1 200"

definition CATALOG_ID :: "string \<Rightarrow> bool" where
  "CATALOG_ID = all_of (\<lambda>c. is_alnum c \<or> c \<in> set ''._-'') 1 120"

text \<open>The value a catalog is stored as.\<close>

definition opt_text :: "string \<Rightarrow> string option \<Rightarrow> (string \<times> js_value) list" where
  "opt_text k v = (case v of None \<Rightarrow> [] | Some s \<Rightarrow> [(k, JString s)])"

definition model_json :: "catalog_model \<Rightarrow> js_value" where
  "model_json m = JObject ([(''modelId'', JString (cm_modelId m)),
     (''inputNanoUsdPerMillion'', JString (cm_input m)), (''outputNanoUsdPerMillion'', JString (cm_output m))]
     @ opt_text ''cachedInputNanoUsdPerMillion'' (cm_cachedInput m))"

definition aliases_json :: "(string, string) jsmap \<Rightarrow> js_value" where
  "aliases_json as = JObject (map (\<lambda>(a, t). (a, JString t)) as)"

definition catalog_json :: "price_catalog \<Rightarrow> js_value" where
  "catalog_json c = JObject ([(''schemaVersion'', JNum (Fin 1)), (''catalogId'', JString (pc_catalogId c)),
     (''provider'', JString (provider_text (pc_provider c))), (''capturedAt'', JString (pc_capturedAt c))]
     @ opt_text ''publisherEffectiveAt'' (pc_publisherEffectiveAt c)
     @ [(''sourceUrl'', JString (pc_sourceUrl c)), (''contentDigest'', JString (pc_contentDigest c)),
     (''aliases'', aliases_json (pc_aliases c)), (''models'', JArray (map model_json (pc_models c)))])"

text \<open>The value read at its declared type.\<close>

fun opt_text_of :: "js_value \<Rightarrow> string option" where
  "opt_text_of (JString s) = Some s"
| "opt_text_of _ = None"

fun items :: "js_value \<Rightarrow> js_value list" where
  "items (JArray vs) = vs"
| "items _ = []"

definition model_of :: "js_value \<Rightarrow> catalog_model" where
  "model_of v = \<lparr>cm_modelId = text_of (prop_of v ''modelId''), cm_input = text_of (prop_of v ''inputNanoUsdPerMillion''),
     cm_output = text_of (prop_of v ''outputNanoUsdPerMillion''),
     cm_cachedInput = opt_text_of (prop_of v ''cachedInputNanoUsdPerMillion'')\<rparr>"

definition catalog_of :: "js_value \<Rightarrow> price_catalog" where
  "catalog_of v = \<lparr>pc_catalogId = text_of (prop_of v ''catalogId''),
     pc_provider = (if prop_of v ''provider'' = JString ''unode'' then UnodeProvider else RoamProvider),
     pc_capturedAt = text_of (prop_of v ''capturedAt''),
     pc_publisherEffectiveAt = opt_text_of (prop_of v ''publisherEffectiveAt''),
     pc_sourceUrl = text_of (prop_of v ''sourceUrl''), pc_contentDigest = text_of (prop_of v ''contentDigest''),
     pc_aliases = map (\<lambda>(a, t). (a, text_of t)) (members (prop_of v ''aliases'')),
     pc_models = map model_of (items (prop_of v ''models''))\<rparr>"

definition catalogDigest :: "(string \<Rightarrow> string) \<Rightarrow> (rat \<Rightarrow> string) \<Rightarrow> js_value \<Rightarrow> string" where
  "catalogDigest sha256 num_text v =
     sha256 (canonical num_text (JObject (filter (\<lambda>(k, _). k \<noteq> ''contentDigest'') (members v))))"

text \<open>
  \<open>unusableAliases\<close>: the declared aliases that are no model id themselves, do not name a row,
  or read like a row's id or another alias once case is ignored.
\<close>

definition unusable :: "(string \<times> js_value) list \<Rightarrow> string list \<Rightarrow> string \<times> js_value \<Rightarrow> bool" where
  "unusable aliases ids e =
     (let (alias, target) = e in
      \<not> MODEL_ID alias \<or> \<not> text_such (\<lambda>t. t \<in> set ids) target
      \<or> js_lower alias \<in> set (map js_lower ids)
      \<or> length (filter (\<lambda>a. js_lower a = js_lower alias) (map fst aliases)) \<noteq> 1)"

definition unusableAliases :: "(string \<times> js_value) list \<Rightarrow> string list \<Rightarrow> string list" where
  "unusableAliases aliases ids = map fst (filter (unusable aliases ids) aliases)"

definition https_url :: "string \<Rightarrow> bool" where
  "https_url s \<longleftrightarrow> starts_with s ''https://'' \<and> length s > 8 \<and> list_all (\<lambda>c. \<not> is_space c) (drop 8 s)"

text \<open>The loop over the rows, with the ids it has seen: a refusal or the ids.\<close>

fun check_rows :: "string list \<Rightarrow> js_value list \<Rightarrow> string + string list" where
  "check_rows ids [] = Inr ids"
| "check_rows ids (row # rows) =
     (if \<not> isObject row then Inl ''model row''
      else if \<not> onlyKeys row [''modelId'', ''inputNanoUsdPerMillion'', ''outputNanoUsdPerMillion'',
             ''cachedInputNanoUsdPerMillion''] then Inl ''model row key''
      else if \<not> text_such (\<lambda>m. MODEL_ID m \<and> m \<notin> set ids) (prop_of row ''modelId'') then Inl ''model id''
      else let m = text_of (prop_of row ''modelId'') in
        if parseNanoUsd (prop_of row ''inputNanoUsdPerMillion'') = None
           \<or> parseNanoUsd (prop_of row ''outputNanoUsdPerMillion'') = None then Inl (''rate for '' @ m)
        else if prop_of row ''cachedInputNanoUsdPerMillion'' \<noteq> JUndefined
           \<and> parseNanoUsd (prop_of row ''cachedInputNanoUsdPerMillion'') = None then Inl (''cached rate for '' @ m)
        else check_rows (ids @ [m]) rows)"

definition CATALOG_KEYS :: "string list" where
  "CATALOG_KEYS = [''schemaVersion'', ''catalogId'', ''provider'', ''capturedAt'', ''publisherEffectiveAt'',
     ''sourceUrl'', ''contentDigest'', ''aliases'', ''models'']"

definition validatePriceCatalog :: "(string \<Rightarrow> string) \<Rightarrow> (rat \<Rightarrow> string) \<Rightarrow> (string \<Rightarrow> int option) \<Rightarrow> js_value
    \<Rightarrow> string + price_catalog" where
  "validatePriceCatalog sha256 num_text date_parse v =
     (let date = text_such (\<lambda>s. date_parse s \<noteq> None) in
      if \<not> isObject v then Inl ''not an object''
      else if \<not> onlyKeys v CATALOG_KEYS then Inl ''unknown key''
      else if prop_of v ''schemaVersion'' \<noteq> JNum (Fin 1) then Inl ''unsupported schema version''
      else if \<not> text_such CATALOG_ID (prop_of v ''catalogId'') then Inl ''catalog id''
      else if \<not> text_such (\<lambda>s. s \<in> {''unode'', ''roam''}) (prop_of v ''provider'') then Inl ''provider''
      else if \<not> date (prop_of v ''capturedAt'') then Inl ''capture date''
      else if prop_of v ''publisherEffectiveAt'' \<noteq> JUndefined \<and> \<not> date (prop_of v ''publisherEffectiveAt'')
      then Inl ''publisher date''
      else if \<not> text_such https_url (prop_of v ''sourceUrl'') then Inl ''source url''
      else if \<not> text_such DIGEST (prop_of v ''contentDigest'') then Inl ''digest''
      else if (case prop_of v ''models'' of JArray rows \<Rightarrow> length rows > MAX_MODELS | _ \<Rightarrow> True) then Inl ''models''
      else case check_rows [] (items (prop_of v ''models'')) of
          Inl reason \<Rightarrow> Inl reason
        | Inr ids \<Rightarrow>
            if \<not> isObject (prop_of v ''aliases'') then Inl ''aliases''
            else case unusableAliases (members (prop_of v ''aliases'')) ids of
                a # _ \<Rightarrow> Inl (''alias '' @ a)
              | [] \<Rightarrow>
                  if JString (catalogDigest sha256 num_text v) \<noteq> prop_of v ''contentDigest'' then Inl ''digest mismatch''
                  else Inr (catalog_of v))"

subsection \<open>Lookup\<close>

definition rates_of :: "catalog_model \<Rightarrow> nano_rates" where
  "rates_of m = \<lparr>r_input = big_of_digits (cm_input m), r_output = big_of_digits (cm_output m),
     r_cachedInput = map_option big_of_digits (cm_cachedInput m)\<rparr>"

definition lookupCatalogModel :: "price_catalog \<Rightarrow> string \<Rightarrow> (string \<times> nano_rates) option" where
  "lookupCatalogModel c modelId =
     (let wanted = js_trim modelId; lower = js_lower wanted in
      if wanted = [] then None
      else
        let direct = (case find (\<lambda>m. cm_modelId m = wanted) (pc_models c) of
                Some m \<Rightarrow> Some m
              | None \<Rightarrow> find (\<lambda>m. js_lower (cm_modelId m) = lower) (pc_models c));
            row = (case direct of
                Some m \<Rightarrow> Some m
              | None \<Rightarrow>
                  (case (case js_get (pc_aliases c) wanted of
                           Some t \<Rightarrow> Some t
                         | None \<Rightarrow> map_option snd (find (\<lambda>(a, _). js_lower a = lower) (pc_aliases c))) of
                     Some t \<Rightarrow> if t = [] then None else find (\<lambda>m. cm_modelId m = t) (pc_models c)
                   | None \<Rightarrow> None))
        in map_option (\<lambda>m. (cm_modelId m, rates_of m)) row)"

definition catalogIsStale :: "(string \<Rightarrow> int option) \<Rightarrow> price_catalog \<Rightarrow> int \<Rightarrow> bool" where
  "catalogIsStale date_parse c now = (case date_parse (pc_capturedAt c) of
       Some t \<Rightarrow> now - t \<ge> REFERENCE_STALE_AFTER_MS | None \<Rightarrow> False)"

subsection \<open>Conversion of a published price list\<close>

record ratio =
  num :: int
  den :: int

definition ratio_of :: "(rat \<Rightarrow> string) \<Rightarrow> js_value \<Rightarrow> ratio option" where
  "ratio_of num_text v = map_option (\<lambda>d. \<lparr>num = digits d, den = 10 ^ scale d\<rparr>) (exactDecimal num_text v)"

definition ratio_times :: "ratio \<Rightarrow> ratio \<Rightarrow> ratio" where
  "ratio_times a b = \<lparr>num = num a * num b, den = den a * den b\<rparr>"

definition floorNano :: "ratio \<Rightarrow> int" where
  "floorNano a = (num a * 1000000000) sdiv den a"

definition TWO :: ratio where
  "TWO = \<lparr>num = 2, den = 1\<rparr>"

definition ONE :: ratio where
  "ONE = \<lparr>num = 1, den = 1\<rparr>"

fun is_array :: "js_value \<Rightarrow> bool" where
  "is_array (JArray vs) = True"
| "is_array _ = False"

definition newApiRows :: "js_value \<Rightarrow> js_value list" where
  "newApiRows body =
     (if is_array body then items body
      else case find (\<lambda>k. is_array (prop_of body k)) [''data'', ''rows'', ''list'', ''models'', ''prices''] of
          Some k \<Rightarrow> items (prop_of body k)
        | None \<Rightarrow> [])"

definition discountFactor :: "(rat \<Rightarrow> string) \<Rightarrow> js_value \<Rightarrow> ratio option" where
  "discountFactor num_text percent = (case ratio_of num_text percent of
       None \<Rightarrow> None
     | Some v \<Rightarrow>
         if num v = 0 then None
         else if num v * 100 \<ge> den v * 10000 then None
         else Some \<lparr>num = 100 * den v - num v, den = 100 * den v\<rparr>)"

fun vendor_factors :: "(rat \<Rightarrow> string) \<Rightarrow> js_value list \<Rightarrow> (js_num, ratio) jsmap \<Rightarrow> (js_num, ratio) jsmap" where
  "vendor_factors num_text [] m = m"
| "vendor_factors num_text (v # vs) m = vendor_factors num_text vs
     (case (prop_of v ''id'', discountFactor num_text (prop_of v ''discount'')) of
        (JNum x, Some f) \<Rightarrow> js_set x f m
      | _ \<Rightarrow> m)"

definition positive_or_one :: "ratio option \<Rightarrow> ratio" where
  "positive_or_one r = (case r of Some r \<Rightarrow> if num r > 0 then r else ONE | None \<Rightarrow> ONE)"

definition row_name :: "js_value \<Rightarrow> string option" where
  "row_name row = (case prop_of row ''model_name'' of
       JString n \<Rightarrow> Some n
     | _ \<Rightarrow> opt_text_of (prop_of row ''model''))"

text \<open>One row of the list, priced; \<^const>\<open>None\<close> where it is skipped.\<close>

definition row_rates :: "(rat \<Rightarrow> string) \<Rightarrow> (js_num, ratio) jsmap \<Rightarrow> ratio \<Rightarrow> js_value \<Rightarrow> catalog_model option" where
  "row_rates num_text vendors groupFactor row = (case row_name row of
       None \<Rightarrow> None
     | Some name \<Rightarrow>
         if \<not> isObject row \<or> \<not> MODEL_ID name then None
         else if (case prop_of row ''quota_type'' of JNum x \<Rightarrow> x \<noteq> Fin 0 | _ \<Rightarrow> False) then None
         else case ratio_of num_text (prop_of row ''model_ratio'') of
             None \<Rightarrow> None
           | Some r \<Rightarrow>
               if num r \<le> 0 then None
               else
                 let completionFactor = positive_or_one (ratio_of num_text (prop_of row ''completion_ratio''));
                     discount = (case discountFactor num_text (prop_of row ''effective_discount'') of
                         Some f \<Rightarrow> f
                       | None \<Rightarrow> (case prop_of row ''vendor_id'' of
                            JNum x \<Rightarrow> (case js_get vendors x of Some f \<Rightarrow> f | None \<Rightarrow> ONE)
                          | _ \<Rightarrow> ONE));
                     input = ratio_times (ratio_times (ratio_times r TWO) discount) groupFactor
                 in Some \<lparr>cm_modelId = name, cm_input = show_big (floorNano input),
                      cm_output = show_big (floorNano (ratio_times input completionFactor)),
                      cm_cachedInput = map_option (\<lambda>k. show_big (floorNano (ratio_times input k)))
                        (ratio_of num_text (prop_of row ''cache_ratio''))\<rparr>)"

text \<open>The loop over the rows: the first row of a name is kept.\<close>

fun collect_rows :: "(js_value \<Rightarrow> catalog_model option) \<Rightarrow> js_value list \<Rightarrow> catalog_model list \<Rightarrow> catalog_model list" where
  "collect_rows price [] out = out"
| "collect_rows price (row # rows) out = collect_rows price rows
     (case price row of
        Some m \<Rightarrow> if cm_modelId m \<in> set (map cm_modelId out) then out else out @ [m]
      | None \<Rightarrow> out)"

definition ratesFromNewApiPricing :: "(rat \<Rightarrow> string) \<Rightarrow> js_value \<Rightarrow> bool \<Rightarrow> catalog_model list" where
  "ratesFromNewApiPricing num_text body applyDefaultGroup =
     (let vendors = vendor_factors num_text (items (prop_of body ''vendors'')) [];
          defaultGroup = ratio_of num_text (prop_of (prop_of body ''group_ratio'') ''default'');
          groupFactor = (if applyDefaultGroup then positive_or_one defaultGroup else ONE)
      in sort_key cm_modelId (collect_rows (row_rates num_text vendors groupFactor) (newApiRows body) []))"

definition honouredAliases :: "(string, string) jsmap \<Rightarrow> catalog_model list \<Rightarrow> (string, string) jsmap" where
  "honouredAliases declared models =
     (let refused = unusableAliases (map (\<lambda>(a, t). (a, JString t)) declared) (map cm_modelId models)
      in filter (\<lambda>(a, _). a \<notin> set refused) declared)"

definition with_digest :: "(string \<Rightarrow> string) \<Rightarrow> (rat \<Rightarrow> string) \<Rightarrow> price_catalog \<Rightarrow> price_catalog" where
  "with_digest sha256 num_text c = c\<lparr>pc_contentDigest := catalogDigest sha256 num_text (catalog_json c)\<rparr>"

definition catalogFromNewApiPricing :: "(string \<Rightarrow> string) \<Rightarrow> (rat \<Rightarrow> string) \<Rightarrow> js_value \<Rightarrow> reference_provider
    \<Rightarrow> string \<Rightarrow> string \<Rightarrow> (string, string) jsmap \<Rightarrow> price_catalog" where
  "catalogFromNewApiPricing sha256 num_text body provider capturedAt sourceUrl aliases =
     (let models = ratesFromNewApiPricing num_text body True
      in with_digest sha256 num_text
           \<lparr>pc_catalogId = provider_text provider @ ''-'' @ take 10 capturedAt @ ''-''
              @ take 12 (sha256 (canonical num_text (JArray (map model_json models)))),
            pc_provider = provider, pc_capturedAt = capturedAt, pc_publisherEffectiveAt = None,
            pc_sourceUrl = sourceUrl, pc_contentDigest = [], pc_aliases = honouredAliases aliases models,
            pc_models = models\<rparr>)"

definition catalogWithAliases :: "(string \<Rightarrow> string) \<Rightarrow> (rat \<Rightarrow> string) \<Rightarrow> price_catalog \<Rightarrow> (string, string) jsmap \<Rightarrow> price_catalog" where
  "catalogWithAliases sha256 num_text c declared =
     with_digest sha256 num_text (c\<lparr>pc_aliases := honouredAliases declared (pc_models c)\<rparr>)"

text \<open>The exact decimal text of a ratio; invalid entries and long group names are dropped.\<close>

definition decimal_text :: "decimal \<Rightarrow> string" where
  "decimal_text d =
     (let dg = pad_start (scale d + 1) (CHR ''0'') (show_big (digits d))
      in if scale d > 0 then take (length dg - scale d) dg @ ''.'' @ drop (length dg - scale d) dg else dg)"

definition ratio_entry :: "(rat \<Rightarrow> string) \<Rightarrow> string \<times> js_value \<Rightarrow> (string \<times> string) list" where
  "ratio_entry num_text e = (case exactDecimal num_text (snd e) of
       Some d \<Rightarrow> if length (fst e) > 80 then [] else [(fst e, decimal_text d)]
     | None \<Rightarrow> [])"

definition groupRatiosFromNewApiPricing :: "(rat \<Rightarrow> string) \<Rightarrow> js_value \<Rightarrow> (string, string) jsmap" where
  "groupRatiosFromNewApiPricing num_text body =
     concat (map (ratio_entry num_text) (members (prop_of body ''group_ratio'')))"

definition credentialBoundGroupFromPricing :: "js_value \<Rightarrow> string option" where
  "credentialBoundGroupFromPricing body = (case prop_of body ''applied_group'' of
       JString g \<Rightarrow>
         if prop_of body ''applied_group_scope'' = JString ''credential'' \<and> js_trim g \<noteq> [] \<and> length g \<le> 80
         then Some (js_trim g) else None
     | _ \<Rightarrow> None)"

subsection \<open>What a valid catalog looks like\<close>

lemma text_such_iff: "text_such P v \<longleftrightarrow> (\<exists>s. v = JString s \<and> P s)"
  by (cases v) auto

lemma check_rows_ids:
  "check_rows ids rows = Inr ids' \<Longrightarrow> ids' = ids @ map cm_modelId (map model_of rows)
    \<and> (distinct ids \<longrightarrow> distinct ids') \<and> (list_all MODEL_ID ids \<longrightarrow> list_all MODEL_ID ids')"
proof (induction ids rows rule: check_rows.induct)
  case (2 ids row rows)
  let ?m = "text_of (prop_of row ''modelId'')"
  have ok: "text_such (\<lambda>m. MODEL_ID m \<and> m \<notin> set ids) (prop_of row ''modelId'')"
    and rest: "check_rows (ids @ [?m]) rows = Inr ids'"
    using "2.prems" by (auto simp: Let_def split: if_splits)
  have IH: "ids' = (ids @ [?m]) @ map cm_modelId (map model_of rows)
    \<and> (distinct (ids @ [?m]) \<longrightarrow> distinct ids') \<and> (list_all MODEL_ID (ids @ [?m]) \<longrightarrow> list_all MODEL_ID ids')"
    using "2.prems" by (intro "2.IH" [OF _ _ _ refl]) (auto simp: Let_def split: if_splits)
  have m: "?m \<notin> set ids" "MODEL_ID ?m" using ok by (auto simp: text_such_iff)
  show ?case
  proof (intro conjI impI)
    show "ids' = ids @ map cm_modelId (map model_of (row # rows))" using IH by (simp add: model_of_def)
    show "distinct ids'" if "distinct ids" using IH m(1) that by (metis distinct_append distinct_singleton disjoint_insert(2) inf_bot_right list.simps(15) set_empty2)
    show "list_all MODEL_ID ids'" if "list_all MODEL_ID ids" using IH m(2) that by (metis list_all_append list.pred_inject)
  qed
qed simp

text \<open>What lookup relies on: distinct ids, and aliases that name one row and read like nothing else.\<close>

definition catalog_ok :: "price_catalog \<Rightarrow> bool" where
  "catalog_ok c \<longleftrightarrow> distinct (map cm_modelId (pc_models c)) \<and> list_all MODEL_ID (map cm_modelId (pc_models c))
     \<and> (\<forall>(a, t) \<in> set (pc_aliases c). MODEL_ID a \<and> t \<in> set (map cm_modelId (pc_models c))
          \<and> js_lower a \<notin> set (map js_lower (map cm_modelId (pc_models c)))
          \<and> length (filter (\<lambda>b. js_lower b = js_lower a) (map fst (pc_aliases c))) = 1)"

lemma validate_catalog_ok:
  assumes "validatePriceCatalog sha256 num_text date_parse v = Inr c"
  shows "catalog_ok c"
proof -
  let ?as = "members (prop_of v ''aliases'')"
  obtain ids where c: "c = catalog_of v" and rows: "check_rows [] (items (prop_of v ''models'')) = Inr ids"
    and as: "unusableAliases ?as ids = []"
    using assms by (auto simp: validatePriceCatalog_def Let_def split: if_splits sum.splits list.splits)
  have ids: "ids = map cm_modelId (pc_models c)"
    using check_rows_ids [OF rows] by (simp add: c catalog_of_def)
  have uniq: "distinct ids" "list_all MODEL_ID ids"
    using check_rows_ids [OF rows] distinct.simps(1) list.pred_inject(1) by blast+
  have keys: "map fst (pc_aliases c) = map fst ?as"
    by (simp add: c catalog_of_def case_prod_beta comp_def)
  have "MODEL_ID a \<and> t \<in> set ids \<and> js_lower a \<notin> set (map js_lower ids)
      \<and> length (filter (\<lambda>b. js_lower b = js_lower a) (map fst (pc_aliases c))) = 1"
    if "(a, t) \<in> set (pc_aliases c)" for a t
  proof -
    from that obtain tv where tv: "(a, tv) \<in> set ?as" "t = text_of tv"
      by (auto simp: c catalog_of_def)
    with as have "\<not> unusable ?as ids (a, tv)" by (auto simp: unusableAliases_def filter_empty_conv)
    with tv(2) show ?thesis by (auto simp: unusable_def keys text_such_iff Let_def)
  qed
  then have "\<forall>(a, t) \<in> set (pc_aliases c). MODEL_ID a \<and> t \<in> set ids \<and> js_lower a \<notin> set (map js_lower ids)
      \<and> length (filter (\<lambda>b. js_lower b = js_lower a) (map fst (pc_aliases c))) = 1" by blast
  with uniq show ?thesis unfolding catalog_ok_def ids by blast
qed

subsection \<open>Lookup\<close>

lemma find_unique:
  assumes "x \<in> set xs" and "P x" and "\<And>y. y \<in> set xs \<Longrightarrow> P y \<Longrightarrow> y = x"
  shows "find P xs = Some x"
proof (cases "find P xs")
  case None
  with assms(1,2) show ?thesis by (auto simp: find_None_iff)
next
  case (Some y)
  with assms(3) show ?thesis by (metis find_Some_iff nth_mem)
qed

lemma find_by_id:
  "distinct (map cm_modelId ms) \<Longrightarrow> m \<in> set ms \<Longrightarrow> find (\<lambda>x. cm_modelId x = cm_modelId m) ms = Some m"
  by (rule find_unique) (auto simp: distinct_map inj_on_def)

lemma route_char_not_space: "route_char c \<Longrightarrow> \<not> is_space c"
  by (auto simp: route_char_def is_alnum_def is_space_def is_upper_def is_lower_def is_digit_def
      less_eq_char_def Let_def)

lemma dropWhile_none: "list_all (\<lambda>c. \<not> P c) s \<Longrightarrow> dropWhile P s = s"
  by (cases s) auto

lemma MODEL_ID_trim [simp]: "MODEL_ID s \<Longrightarrow> js_trim s = s"
proof -
  assume "MODEL_ID s"
  then have "list_all (\<lambda>c. \<not> is_space c) s" "list_all (\<lambda>c. \<not> is_space c) (rev s)"
    using route_char_not_space by (auto simp: MODEL_ID_def all_of_def list_all_iff)
  then show ?thesis by (simp add: js_trim_def dropWhile_none)
qed

lemma MODEL_ID_not_Nil: "MODEL_ID s \<Longrightarrow> s \<noteq> []"
  by (auto simp: MODEL_ID_def all_of_def)

lemma lookup_id:
  assumes "catalog_ok c" and "m \<in> set (pc_models c)"
  shows "lookupCatalogModel c (cm_modelId m) = Some (cm_modelId m, rates_of m)"
proof -
  have "MODEL_ID (cm_modelId m)" using assms by (auto simp: catalog_ok_def list_all_iff)
  moreover have "find (\<lambda>x. cm_modelId x = cm_modelId m) (pc_models c) = Some m"
    using assms by (intro find_by_id) (auto simp: catalog_ok_def)
  ultimately show ?thesis
    using MODEL_ID_not_Nil by (auto simp: lookupCatalogModel_def Let_def)
qed

lemma filter_length_1_unique:
  "length (filter P (map f xs)) = 1 \<Longrightarrow> x \<in> set xs \<Longrightarrow> P (f x) \<Longrightarrow> y \<in> set xs \<Longrightarrow> P (f y) \<Longrightarrow> x = y"
proof (induction xs)
  case (Cons z xs)
  show ?case
  proof (cases "P (f z)")
    case True
    with Cons.prems(1) have "\<forall>u \<in> set xs. \<not> P (f u)" by (auto simp: filter_empty_conv)
    with Cons.prems show ?thesis by auto
  next
    case False
    with Cons show ?thesis by auto
  qed
qed simp

lemma lookup_alias:
  assumes "catalog_ok c" and "(a, t) \<in> set (pc_aliases c)" and "js_lower (js_trim w) = js_lower a"
    and "m \<in> set (pc_models c)" and "cm_modelId m = t"
  shows "lookupCatalogModel c w = Some (t, rates_of m)"
proof -
  let ?w = "js_trim w" and ?ids = "map cm_modelId (pc_models c)"
  have a: "MODEL_ID a" "js_lower a \<notin> set (map js_lower ?ids)"
    "length (filter (\<lambda>b. js_lower b = js_lower a) (map fst (pc_aliases c))) = 1"
    using assms(1,2) by (auto simp: catalog_ok_def)
  have uniq: "p = (a, t)" if "p \<in> set (pc_aliases c)" "js_lower (fst p) = js_lower a" for p
    using filter_length_1_unique [OF a(3) that(1) that(2) assms(2)] by simp
  have ne: "?w \<noteq> []" using assms(3) MODEL_ID_not_Nil [OF a(1)] by (auto simp: js_lower_def)
  have none: "find (\<lambda>m. js_lower (cm_modelId m) = js_lower ?w) (pc_models c) = None"
    using a(2) assms(3) by (force simp: find_None_iff)
  then have none': "find (\<lambda>m. cm_modelId m = ?w) (pc_models c) = None"
    by (auto simp: find_None_iff)
  have target: "(case js_get (pc_aliases c) ?w of Some t \<Rightarrow> Some t
      | None \<Rightarrow> map_option snd (find (\<lambda>(a, _). js_lower a = js_lower ?w) (pc_aliases c))) = Some t"
  proof (cases "js_get (pc_aliases c) ?w")
    case None
    have "find (\<lambda>(a, _). js_lower a = js_lower ?w) (pc_aliases c) = Some (a, t)"
    proof (rule find_unique [OF assms(2)])
      show "case (a, t) of (a, uu) \<Rightarrow> js_lower a = js_lower ?w" using assms(3) by simp
      show "p = (a, t)" if "p \<in> set (pc_aliases c)" and "case p of (a, uu) \<Rightarrow> js_lower a = js_lower ?w" for p
        using that assms(3) by (intro uniq) (simp_all add: case_prod_beta)
    qed
    with None show ?thesis by simp
  next
    case (Some t')
    with uniq [of "(?w, t')"] assms(3) show ?thesis by (auto dest: js_get_in)
  qed
  have row: "find (\<lambda>m. cm_modelId m = t) (pc_models c) = Some m"
    using assms find_by_id [of "pc_models c" m] by (auto simp: catalog_ok_def)
  have "t \<noteq> []" using assms(1,4,5) MODEL_ID_not_Nil by (auto simp: catalog_ok_def list_all_iff)
  with ne none none' target row assms(5) show ?thesis
    by (simp add: lookupCatalogModel_def Let_def)
qed

text \<open>
   a name in a valid catalog has one reading. The id of a row is answered with that row, and any
  spelling of an alias, whatever its case and the spaces around it, is answered with the row the
  alias names and never with another one.
\<close>

theorem catalog_names_are_unambiguous:
  assumes "validatePriceCatalog sha256 num_text date_parse v = Inr c" and "m \<in> set (pc_models c)"
  shows "lookupCatalogModel c (cm_modelId m) = Some (cm_modelId m, rates_of m)
    \<and> (\<forall>a w. (a, cm_modelId m) \<in> set (pc_aliases c) \<longrightarrow> js_lower (js_trim w) = js_lower a
        \<longrightarrow> lookupCatalogModel c w = Some (cm_modelId m, rates_of m))"
  using validate_catalog_ok [OF assms(1)] assms(2) lookup_id lookup_alias by blast

subsection \<open>The text of a ratio\<close>

lemma match_plain:
  assumes "w \<noteq> []" "list_all is_digit w"
  shows "match_decimal w = Some (w, [], 0)"
  using assms by (simp add: match_decimal_def match_exponent_def Let_def)

lemma match_fraction:
  assumes "w \<noteq> []" "list_all is_digit w" "f \<noteq> []" "list_all is_digit f"
  shows "match_decimal (w @ CHR ''.'' # f) = Some (w, f, 0)"
  using assms by (simp add: match_decimal_def match_exponent_def Let_def)

lemma digits_not_space: "is_digit c \<Longrightarrow> \<not> is_space c"
  by (auto simp: is_digit_def is_space_def less_eq_char_def Let_def)

lemma js_trim_none: "list_all (\<lambda>c. \<not> is_space c) s \<Longrightarrow> js_trim s = s"
  by (simp add: js_trim_def dropWhile_none)

lemma exactDecimal_scale: "exactDecimal nt v = Some d \<Longrightarrow> scale d \<le> 400"
  by (auto simp: exactDecimal_def Let_def split: option.splits if_splits prod.splits)

lemma decimal_text_exact:
  assumes "0 \<le> digits d" and "scale d \<le> 400"
  shows "exactDecimal nt (JString (decimal_text d)) = Some d"
proof -
  let ?g = "pad_start (scale d + 1) (CHR ''0'') (show_big (digits d))"
  have g: "list_all is_digit ?g" "big_of_digits ?g = digits d"
    using assms(1) show_pos_digits [of "digits d"]
    by (auto simp: pad_start_def show_big_def big_of_digits_append list_all_iff)
  have len: "scale d < length ?g" by (simp add: pad_start_def)
  have sp: "list_all (\<lambda>c. \<not> is_space c) ?g" using g(1) digits_not_space by (auto simp: list_all_iff)
  show ?thesis
  proof (cases "scale d = 0")
    case True
    then have "js_trim (decimal_text d) = ?g" using js_trim_none [OF sp] by (simp add: decimal_text_def Let_def)
    moreover have "match_decimal ?g = Some (?g, [], 0)" using g(1) len by (intro match_plain) auto
    ultimately show ?thesis using True g(2) by (simp add: exactDecimal_def)
  next
    case False
    let ?k = "length ?g - scale d"
    let ?w = "take ?k ?g" and ?f = "drop ?k ?g"
    have written: "decimal_text d = ?w @ CHR ''.'' # ?f" using False by (simp add: decimal_text_def Let_def)
    have parts: "?w \<noteq> []" "list_all is_digit ?w" "?f \<noteq> []" "list_all is_digit ?f" "length ?f = scale d"
      using False len g(1) by (auto simp: list_all_iff dest: in_set_takeD in_set_dropD)
    have "list_all (\<lambda>c. \<not> is_space c) (?w @ CHR ''.'' # ?f)"
      using parts(2,4) digits_not_space by (auto simp: list_all_iff is_space_def)
    then have "js_trim (decimal_text d) = ?w @ CHR ''.'' # ?f" unfolding written by (rule js_trim_none)
    moreover have "big_of_digits (?w @ ?f) = digits d" using g(2) by (simp only: append_take_drop_id)
    ultimately show ?thesis
      using match_fraction [OF parts(1-4)] parts(5) assms(2)
      by (simp add: exactDecimal_def Let_def)
  qed
qed

text \<open>
  A published group ratio keeps its exact value. Every text
  \<open>groupRatiosFromNewApiPricing\<close> returns comes from an entry of the response whose
  value is a decimal, and reads back as exactly the same decimal.
\<close>

theorem published_ratio_text_is_exact:
  assumes "(grp, text) \<in> set (groupRatiosFromNewApiPricing num_text body)"
  shows "\<exists>v d. (grp, v) \<in> set (members (prop_of body ''group_ratio'')) \<and> length grp \<le> 80
    \<and> exactDecimal num_text v = Some d \<and> exactDecimal num_text (JString text) = Some d"
proof -
  obtain x where x: "x \<in> set (members (prop_of body ''group_ratio''))" "(grp, text) \<in> set (ratio_entry num_text x)"
    using assms by (auto simp: groupRatiosFromNewApiPricing_def)
  then obtain d where d: "exactDecimal num_text (snd x) = Some d" and t: "length grp \<le> 80" "text = decimal_text d"
    and g: "grp = fst x"
    by (cases "exactDecimal num_text (snd x)") (auto simp: ratio_entry_def split: if_splits)
  have v: "(grp, snd x) \<in> set (members (prop_of body ''group_ratio''))" using x(1) g by simp
  have "exactDecimal num_text (JString text) = Some d"
    unfolding t(2) by (rule decimal_text_exact [OF exactDecimal_nonneg [OF d] exactDecimal_scale [OF d]])
  with v d t(1) show ?thesis by blast
qed

subsection \<open>A catalog built from a price list\<close>

lemma honoured_usable:
  assumes "distinct (map fst declared)"
  shows "unusableAliases (map (\<lambda>(a, t). (a, JString t)) (honouredAliases declared ms)) (map cm_modelId ms) = []"
proof -
  let ?ids = "map cm_modelId ms" and ?js = "map (\<lambda>(a, t). (a, JString t))"
  let ?h = "honouredAliases declared ms"
  have keys: "map fst (?js xs) = map fst xs" for xs :: "(string \<times> string) list" by (induction xs) auto
  have sub: "filter P (map fst ?h) = filter (\<lambda>a. P a \<and> a \<notin> set (unusableAliases (?js declared) ?ids)) (map fst declared)" for P
  proof -
    have "filter P (map fst (filter (\<lambda>(a, _). a \<notin> S) xs)) = filter (\<lambda>a. P a \<and> a \<notin> S) (map fst xs)"
      for S and xs :: "(string \<times> string) list" by (induction xs) auto
    then show ?thesis by (simp add: honouredAliases_def Let_def)
  qed
  have "\<not> unusable (?js ?h) ?ids (a, JString t)" if "(a, t) \<in> set ?h" for a t
  proof -
    from that have d: "(a, t) \<in> set declared" and "a \<notin> set (unusableAliases (?js declared) ?ids)"
      by (auto simp: honouredAliases_def Let_def)
    then have u: "\<not> unusable (?js declared) ?ids (a, JString t)" by (force simp: unusableAliases_def)
    let ?P = "\<lambda>b. js_lower b = js_lower a"
    have one: "length (filter ?P (map fst declared)) = 1" using u unfolding unusable_def Let_def prod.case keys by blast
    have "length (filter ?P (map fst ?h)) \<le> length (filter ?P (map fst declared))"
    proof -
      have "length (filter (\<lambda>a. P a \<and> a \<notin> S) xs) \<le> length (filter P xs)" for P S and xs :: "string list"
        by (induction xs) auto
      then show ?thesis unfolding sub .
    qed
    moreover have "a \<in> set (filter ?P (map fst ?h))" using that by force
    then have "0 < length (filter ?P (map fst ?h))" by (metis length_pos_if_in_set)
    ultimately have "length (filter ?P (map fst ?h)) = 1" using one by linarith
    with u show ?thesis unfolding unusable_def Let_def prod.case keys by blast
  qed
  then show ?thesis by (auto simp: unusableAliases_def filter_empty_conv)
qed

lemma collect_rows_ok:
  "distinct (map cm_modelId out) \<Longrightarrow> list_all MODEL_ID (map cm_modelId out) \<Longrightarrow>
    (\<And>r m. price r = Some m \<Longrightarrow> MODEL_ID (cm_modelId m)) \<Longrightarrow>
    distinct (map cm_modelId (collect_rows price rows out)) \<and> list_all MODEL_ID (map cm_modelId (collect_rows price rows out))"
proof (induction rows arbitrary: out)
  case (Cons r rows)
  show ?case
    by (cases "price r"; simp; intro conjI impI Cons.IH) (use Cons.prems in auto)
qed simp

lemma row_rates_id: "row_rates nt vs g row = Some m \<Longrightarrow> MODEL_ID (cm_modelId m)"
  by (auto simp: row_rates_def Let_def split: option.splits if_splits)

lemma rates_ids:
  "distinct (map cm_modelId (ratesFromNewApiPricing nt body b)) \<and> list_all MODEL_ID (map cm_modelId (ratesFromNewApiPricing nt body b))"
proof -
  let ?ms = "collect_rows (row_rates nt (vendor_factors nt (items (prop_of body ''vendors'')) [])
      (if b then positive_or_one (ratio_of nt (prop_of (prop_of body ''group_ratio'') ''default'')) else ONE)) (newApiRows body) []"
  have "distinct (map cm_modelId ?ms) \<and> list_all MODEL_ID (map cm_modelId ?ms)"
    by (rule collect_rows_ok) (auto simp: row_rates_id)
  then have "distinct (map cm_modelId (sort_key cm_modelId ?ms)) \<and> list_all MODEL_ID (map cm_modelId (sort_key cm_modelId ?ms))"
    by (auto simp: distinct_map list_all_iff)
  then show ?thesis by (simp only: ratesFromNewApiPricing_def Let_def)
qed

definition rates_fit :: "catalog_model \<Rightarrow> bool" where
  "rates_fit m \<longleftrightarrow> parseNanoUsd (JString (cm_input m)) \<noteq> None \<and> parseNanoUsd (JString (cm_output m)) \<noteq> None
     \<and> (\<forall>k \<in> set_option (cm_cachedInput m). parseNanoUsd (JString k) \<noteq> None)"

lemma model_json_props [simp]:
  "isObject (model_json m)" "prop_of (model_json m) ''modelId'' = JString (cm_modelId m)"
  "prop_of (model_json m) ''inputNanoUsdPerMillion'' = JString (cm_input m)"
  "prop_of (model_json m) ''outputNanoUsdPerMillion'' = JString (cm_output m)"
  "prop_of (model_json m) ''cachedInputNanoUsdPerMillion'' = (case cm_cachedInput m of None \<Rightarrow> JUndefined | Some k \<Rightarrow> JString k)"
  "onlyKeys (model_json m) [''modelId'', ''inputNanoUsdPerMillion'', ''outputNanoUsdPerMillion'', ''cachedInputNanoUsdPerMillion'']"
  by (simp_all add: model_json_def opt_text_def member_of_def onlyKeys_def split: option.split)

lemma model_of_json [simp]: "model_of (model_json m) = m"
  by (cases m) (auto simp: model_of_def split: option.split)

lemma check_rows_json:
  "distinct (ids @ map cm_modelId ms) \<Longrightarrow> list_all MODEL_ID (map cm_modelId ms) \<Longrightarrow> list_all rates_fit ms \<Longrightarrow>
    check_rows ids (map model_json ms) = Inr (ids @ map cm_modelId ms)"
proof (induction ms arbitrary: ids)
  case (Cons m ms)
  have "check_rows (ids @ [cm_modelId m]) (map model_json ms) = Inr ((ids @ [cm_modelId m]) @ map cm_modelId ms)"
    using Cons.prems by (intro Cons.IH) auto
  with Cons.prems show ?case by (cases "cm_cachedInput m") (auto simp: Let_def rates_fit_def)
qed simp

lemma catalog_json_props [simp]:
  "isObject (catalog_json c)" "onlyKeys (catalog_json c) CATALOG_KEYS"
  "prop_of (catalog_json c) ''schemaVersion'' = JNum (Fin 1)"
  "prop_of (catalog_json c) ''catalogId'' = JString (pc_catalogId c)"
  "prop_of (catalog_json c) ''provider'' = JString (provider_text (pc_provider c))"
  "prop_of (catalog_json c) ''capturedAt'' = JString (pc_capturedAt c)"
  "prop_of (catalog_json c) ''publisherEffectiveAt'' = (case pc_publisherEffectiveAt c of None \<Rightarrow> JUndefined | Some s \<Rightarrow> JString s)"
  "prop_of (catalog_json c) ''sourceUrl'' = JString (pc_sourceUrl c)"
  "prop_of (catalog_json c) ''contentDigest'' = JString (pc_contentDigest c)"
  "prop_of (catalog_json c) ''aliases'' = aliases_json (pc_aliases c)"
  "prop_of (catalog_json c) ''models'' = JArray (map model_json (pc_models c))"
  by (simp_all add: catalog_json_def opt_text_def member_of_def onlyKeys_def CATALOG_KEYS_def split: option.split)

lemma catalog_of_json [simp]: "catalog_of (catalog_json c) = c"
proof -
  have "map (\<lambda>(a, t). (a, text_of t)) (map (\<lambda>(a, t). (a, JString t)) as) = as" for as :: "(string \<times> string) list"
    by (induction as) auto
  then show ?thesis
    by (cases c; cases "pc_provider c") (auto simp: catalog_of_def aliases_json_def comp_def split: option.split)
qed

lemma digest_ignores_digest: "catalogDigest h nt (catalog_json (c\<lparr>pc_contentDigest := d\<rparr>)) = catalogDigest h nt (catalog_json c)"
  by (auto simp: catalogDigest_def catalog_json_def opt_text_def split: option.split)

lemma with_digest_own: "pc_contentDigest (with_digest h nt c) = catalogDigest h nt (catalog_json (with_digest h nt c))"
  by (simp add: with_digest_def digest_ignores_digest)

lemma valid_catalog_json:
  assumes "CATALOG_ID (pc_catalogId c)" and "date_parse (pc_capturedAt c) \<noteq> None"
    and "\<forall>d \<in> set_option (pc_publisherEffectiveAt c). date_parse d \<noteq> None" and "https_url (pc_sourceUrl c)"
    and "DIGEST (pc_contentDigest c)" and "length (pc_models c) \<le> MAX_MODELS"
    and "distinct (map cm_modelId (pc_models c))" and "list_all MODEL_ID (map cm_modelId (pc_models c))"
    and "list_all rates_fit (pc_models c)"
    and "unusableAliases (map (\<lambda>(a, t). (a, JString t)) (pc_aliases c)) (map cm_modelId (pc_models c)) = []"
    and "pc_contentDigest c = catalogDigest h nt (catalog_json c)"
  shows "validatePriceCatalog h nt date_parse (catalog_json c) = Inr c"
proof -
  have "check_rows [] (map model_json (pc_models c)) = Inr (map cm_modelId (pc_models c))"
    using check_rows_json [of "[]" "pc_models c"] assms by simp
  moreover have "provider_text (pc_provider c) \<in> {''unode'', ''roam''}"
    by (cases "pc_provider c") auto
  ultimately show ?thesis using assms
    by (cases "pc_publisherEffectiveAt c") (simp_all add: validatePriceCatalog_def aliases_json_def)
qed

lemma show_big_not_Nil [simp]: "show_big i \<noteq> []"
  by (simp add: show_big_def)

text \<open>
   a catalog built from a public price list is always accepted by the validator, unchanged: its
  rows have distinct ids, the aliases it kept can all be honoured, and its digest is the digest of
  its own contents. The capture needs a date and an https source, at most 2000 rows and rates below
  the validator's bound.
\<close>

theorem built_catalog_validates:
  assumes "\<forall>s. DIGEST (sha256 s)" and "date_parse capturedAt \<noteq> None" and "https_url sourceUrl"
    and "CATALOG_ID (take 10 capturedAt)" and "distinct (map fst aliases)"
    and "length (ratesFromNewApiPricing num_text body True) \<le> MAX_MODELS"
    and "list_all rates_fit (ratesFromNewApiPricing num_text body True)"
  shows "let c = catalogFromNewApiPricing sha256 num_text body provider capturedAt sourceUrl aliases
    in validatePriceCatalog sha256 num_text date_parse (catalog_json c) = Inr c"
proof -
  let ?ms = "ratesFromNewApiPricing num_text body True"
  let ?c = "catalogFromNewApiPricing sha256 num_text body provider capturedAt sourceUrl aliases"
  have "list_all hex_char (sha256 s)" "length (sha256 s) = 64" for s
    using assms(1) unfolding DIGEST_def all_of_def by (blast, metis le_antisym)
  then have hex: "list_all hex_char (take 12 (sha256 s))" "length (take 12 (sha256 s)) = 12" for s
    by (auto simp: list_all_iff dest: in_set_takeD)
  have hex_id: "hex_char x \<Longrightarrow> is_alnum x" for x
    by (auto simp: hex_char_def is_alnum_def is_lower_def less_eq_char_def)
  have "list_all (\<lambda>c. is_alnum c \<or> c \<in> set ''._-'') (provider_text provider)"
    by (cases provider) (simp_all add: is_alnum_def is_lower_def less_eq_char_def)
  moreover have "length (provider_text provider) \<le> 5" by (cases provider) simp_all
  ultimately have "CATALOG_ID (pc_catalogId ?c)"
    using assms(4) hex hex_id
    by (auto simp: catalogFromNewApiPricing_def with_digest_def Let_def CATALOG_ID_def all_of_def list_all_iff)
  moreover have "pc_contentDigest ?c = catalogDigest sha256 num_text (catalog_json ?c)"
    unfolding catalogFromNewApiPricing_def Let_def by (rule with_digest_own)
  moreover have "DIGEST (catalogDigest sha256 num_text (catalog_json ?c))"
    using assms(1) by (simp add: catalogDigest_def)
  moreover have "pc_models ?c = ?ms" "pc_aliases ?c = honouredAliases aliases ?ms" "pc_capturedAt ?c = capturedAt"
    "pc_publisherEffectiveAt ?c = None" "pc_sourceUrl ?c = sourceUrl"
    by (simp_all add: catalogFromNewApiPricing_def with_digest_def Let_def)
  ultimately show ?thesis
    unfolding Let_def using assms rates_ids [of num_text body True] honoured_usable [OF assms(5)]
    by (intro valid_catalog_json) simp_all
qed

definition hash_of_zeros :: "string \<Rightarrow> string" where
  "hash_of_zeros s = replicate 64 (CHR ''0'')"

definition price_list :: js_value where
  "price_list = JObject [(''data'', JArray [JObject [(''model_name'', JString ''m1''), (''quota_type'', JNum (Fin 0)),
     (''model_ratio'', JString ''0.25''), (''completion_ratio'', JString ''4'')]])]"

theorem built_catalog_validates_witness:
  "let c = catalogFromNewApiPricing hash_of_zeros (\<lambda>_. ''1'') price_list UnodeProvider ''2026-01-02'' ''https://x'' [(''a'', ''m1'')]
   in validatePriceCatalog hash_of_zeros (\<lambda>_. ''1'') (\<lambda>_. Some 0) (catalog_json c) = Inr c"
proof (rule built_catalog_validates)
  show "\<forall>s. DIGEST (hash_of_zeros s)" by (simp add: hash_of_zeros_def DIGEST_def all_of_def hex_char_def list_all_iff)
  show "https_url ''https://x''" by code_simp
  show "CATALOG_ID (take 10 ''2026-01-02'')" by code_simp
  show "length (ratesFromNewApiPricing (\<lambda>_. ''1'') price_list True) \<le> MAX_MODELS" by code_simp
  show "list_all rates_fit (ratesFromNewApiPricing (\<lambda>_. ''1'') price_list True)" by code_simp
qed simp_all

definition small_catalog :: js_value where
  "small_catalog = catalog_json (catalogFromNewApiPricing hash_of_zeros (\<lambda>_. ''1'') price_list UnodeProvider ''2026-01-02''
     ''https://x'' [(''Short'', ''m1'')])"

theorem catalog_names_are_unambiguous_witness:
  "\<exists>c m. validatePriceCatalog hash_of_zeros (\<lambda>_. ''1'') (\<lambda>_. Some 0) small_catalog = Inr c \<and> m \<in> set (pc_models c)
    \<and> lookupCatalogModel c (cm_modelId m) = Some (cm_modelId m, rates_of m)"
proof -
  have "case validatePriceCatalog hash_of_zeros (\<lambda>_. ''1'') (\<lambda>_. Some 0) small_catalog of
      Inl _ \<Rightarrow> False | Inr c \<Rightarrow> pc_models c \<noteq> []" by code_simp
  then obtain c where c: "validatePriceCatalog hash_of_zeros (\<lambda>_. ''1'') (\<lambda>_. Some 0) small_catalog = Inr c"
    and "pc_models c \<noteq> []" by (auto split: sum.splits)
  then have m: "hd (pc_models c) \<in> set (pc_models c)" by simp
  show ?thesis using c m catalog_names_are_unambiguous [OF c m] by blast
qed

theorem published_ratio_text_is_exact_witness:
  "\<exists>v d. exactDecimal (\<lambda>_. ''1'') v = Some d \<and> exactDecimal (\<lambda>_. ''1'') (JString ''0.50'') = Some d"
proof -
  have "(''vip'', ''0.50'') \<in> set (groupRatiosFromNewApiPricing (\<lambda>_. ''1'')
      (JObject [(''group_ratio'', JObject [(''vip'', JString ''0.50'')])]))" by code_simp
  from published_ratio_text_is_exact [OF this] show ?thesis by blast
qed

end
