(* ===== verification/SpendTargets.thy ===== *)
theory SpendTargets
  imports SpendTypes
begin

text \<open>
  Spend reminder targets (\<open>src/models/spend/SpendTargets.ts\<close>): the user's targets, a repository's
  proposal of lower ones, and the targets in force.

  Parameters: \<open>zone_ok\<close> says which time zones the runtime's \<open>Intl\<close> accepts and
  \<open>format_day\<close> formats an instant as a day in one of them; \<open>visit\<close> is the event stream of the
  third-party JSON scanner and \<open>json_parse\<close> is \<open>JSON.parse\<close>; \<open>sha256\<close> is the digest.
\<close>

subsection \<open>User targets\<close>

definition MAX_TARGET_TOKENS :: int where
  "MAX_TARGET_TOKENS = 1000000000000"

definition MAX_BUDGET_FILE_BYTES :: nat where
  "MAX_BUDGET_FILE_BYTES = 64 * 1024"

definition AGENT_ID :: "string \<Rightarrow> bool" where
  "AGENT_ID = all_of id_char 1 128"

definition MAX_AGENT_ENTRIES :: nat where
  "MAX_AGENT_ENTRIES = 200"

datatype period = Day | Month

record target_amounts =
  ta_tokens :: "int option"
  ta_nanoUsd :: "int option"

record project_target =
  pt_amounts :: target_amounts
  pt_period :: period
  pt_timeZone :: string

record user_targets =
  ut_request :: "target_amounts option"
  ut_project :: "project_target option"
  ut_agents :: "(string, target_amounts) jsmap"
  ut_diagnostics :: "string list"

definition no_amounts :: target_amounts where
  "no_amounts = \<lparr>ta_tokens = None, ta_nanoUsd = None\<rparr>"

text \<open>\<open>validTokens\<close>, giving the count.\<close>

definition validTokens :: "js_value \<Rightarrow> int option" where
  "validTokens v = (case count_of v of
       Some i \<Rightarrow> if 1 \<le> i \<and> i \<le> MAX_TARGET_TOKENS then Some i else None
     | None \<Rightarrow> None)"

definition parse_tokens :: "js_value \<Rightarrow> string \<Rightarrow> int option \<times> string list" where
  "parse_tokens v path =
     (if v = JUndefined then (None, [])
      else case validTokens v of
          Some i \<Rightarrow> (Some i, [])
        | None \<Rightarrow> (None, [path @ ''.tokens: must be a whole number from 1 to 1,000,000,000,000; ignored.'']))"

definition parse_usd :: "js_value \<Rightarrow> string \<Rightarrow> int option \<times> string list" where
  "parse_usd v path =
     (if v = JUndefined then (None, [])
      else case parseTargetUsd v of
          Some n \<Rightarrow> (Some n, [])
        | None \<Rightarrow> (None, [path @ ''.usd: must be a decimal string from \"0.000001\" to \"1000000.000000\"; ignored.'']))"

text \<open>\<open>parseAmounts\<close>, with the diagnostics it adds.\<close>

definition parseAmounts :: "js_value \<Rightarrow> string \<Rightarrow> target_amounts option \<times> string list" where
  "parseAmounts raw path =
     (if \<not> isObject raw then (None, if raw \<noteq> JUndefined then [path @ '': not an object; ignored.''] else [])
      else let (t, d1) = parse_tokens (prop_of raw ''tokens'') path;
               (u, d2) = parse_usd (prop_of raw ''usd'') path
           in (if t \<noteq> None \<or> u \<noteq> None then Some \<lparr>ta_tokens = t, ta_nanoUsd = u\<rparr> else None, d1 @ d2))"

definition isValidTimeZone :: "(string \<Rightarrow> bool) \<Rightarrow> js_value \<Rightarrow> bool" where
  "isValidTimeZone zone_ok = text_such (\<lambda>z. z \<noteq> [] \<and> length z \<le> 64 \<and> zone_ok z)"

fun period_of :: "js_value \<Rightarrow> period option" where
  "period_of (JString s) = (if s = ''day'' then Some Day else if s = ''month'' then Some Month else None)"
| "period_of _ = None"

definition parse_project :: "(string \<Rightarrow> bool) \<Rightarrow> js_value \<Rightarrow> project_target option \<times> string list" where
  "parse_project zone_ok raw =
     (if raw = JUndefined then (None, [])
      else let (amounts, ds) = parseAmounts raw ''project''
           in case amounts of
                None \<Rightarrow> (None, ds)
              | Some a \<Rightarrow>
                  (case period_of (prop_of raw ''period'') of
                     Some p \<Rightarrow>
                       if isValidTimeZone zone_ok (prop_of raw ''timeZone'')
                       then (Some \<lparr>pt_amounts = a, pt_period = p, pt_timeZone = text_of (prop_of raw ''timeZone'')\<rparr>, ds)
                       else (None, ds @ [''project: needs period \"day\" or \"month\" and a valid IANA timeZone; the project target is off.''])
                   | None \<Rightarrow> (None, ds @ [''project: needs period \"day\" or \"month\" and a valid IANA timeZone; the project target is off.''])))"

fun parse_agents :: "(string \<times> js_value) list \<Rightarrow> (string, target_amounts) jsmap \<Rightarrow> (string, target_amounts) jsmap \<times> string list" where
  "parse_agents [] out = (out, [])"
| "parse_agents ((agent, v) # rest) out =
     (if \<not> AGENT_ID agent
      then (let (out', ds) = parse_agents rest out
            in (out', (''agents: \"'' @ take 40 agent @ ''\" is not an agent id; ignored.'') # ds))
      else let (amounts, ds1) = parseAmounts v (''agents.'' @ agent);
               (out', ds) = parse_agents rest (case amounts of None \<Rightarrow> out | Some a \<Rightarrow> js_set agent a out)
           in (out', ds1 @ ds))"

definition parseUserTargets :: "(string \<Rightarrow> bool) \<Rightarrow> js_value \<Rightarrow> user_targets" where
  "parseUserTargets zone_ok raw =
     (let none = \<lparr>ut_request = None, ut_project = None, ut_agents = [], ut_diagnostics = []\<rparr>
      in if raw = JUndefined \<or> raw = JNull then none
         else if \<not> isObject raw
         then none\<lparr>ut_diagnostics := [''unode.spend.targets: not an object; every reminder is off.'']\<rparr>
         else if prop_of raw ''schemaVersion'' \<noteq> JNum (Fin 1)
         then none\<lparr>ut_diagnostics := [''unode.spend.targets: schemaVersion must be 1; every reminder is off.'']\<rparr>
         else let (request, d1) = parseAmounts (prop_of raw ''request'') ''request'';
                  (project, d2) = parse_project zone_ok (prop_of raw ''project'');
                  agents = prop_of raw ''agents'';
                  (shares, d3) =
                    (if agents = JUndefined then ([], [])
                     else if \<not> isObject agents then ([], [''agents: not an object; ignored.''])
                     else if project = None
                     then ([], if members agents \<noteq> [] then [''agents: shares apply only inside a project target; ignored.''] else [])
                     else parse_agents (take MAX_AGENT_ENTRIES (members agents)) [])
              in \<lparr>ut_request = request, ut_project = project, ut_agents = shares, ut_diagnostics = d1 @ d2 @ d3\<rparr>)"

definition opt_member :: "string \<Rightarrow> js_value option \<Rightarrow> (string \<times> js_value) list" where
  "opt_member k v = (case v of None \<Rightarrow> [] | Some v \<Rightarrow> [(k, v)])"

abbreviation jnum :: "int \<Rightarrow> js_value" where
  "jnum i \<equiv> JNum (Fin (of_int i))"

definition amount_members :: "target_amounts \<Rightarrow> (string \<times> js_value) list" where
  "amount_members a = opt_member ''tokens'' (map_option jnum (ta_tokens a))
     @ opt_member ''usd'' (map_option (\<lambda>n. JString (formatTargetUsd n)) (ta_nanoUsd a))"

fun period_text :: "period \<Rightarrow> string" where
  "period_text Day = ''day''"
| "period_text Month = ''month''"

definition userTargetsToSettings :: "user_targets \<Rightarrow> js_value" where
  "userTargetsToSettings t = JObject ([(''schemaVersion'', JNum (Fin 1))]
     @ opt_member ''request'' (map_option (\<lambda>a. JObject (amount_members a)) (ut_request t))
     @ opt_member ''project'' (map_option (\<lambda>p. JObject (amount_members (pt_amounts p)
          @ [(''period'', JString (period_text (pt_period p))), (''timeZone'', JString (pt_timeZone p))])) (ut_project t))
     @ (if ut_agents t \<noteq> [] then [(''agents'', JObject (map (\<lambda>(agent, a). (agent, JObject (amount_members a))) (ut_agents t)))] else []))"

subsection \<open>The repository's proposal\<close>

record repository_budget =
  rb_request :: "target_amounts option"
  rb_project :: "target_amounts option"
  rb_agents :: "(string, target_amounts) jsmap"
  rb_contentDigest :: string
  rb_unknownKeys :: "string list"

text \<open>What the scanner reports: a literal number comes with its source text.\<close>

datatype visit_event =
    ObjectBegin
  | ObjectEnd
  | ObjectProperty string
  | ArrayBegin
  | LiteralNumber js_num string
  | LiteralOther
  | CommentSeen
  | ScanError string

record visit_state =
  vs_errors :: "string list"
  vs_stack :: "string list list"
  vs_failure :: "string option"

definition fail_with :: "bool \<Rightarrow> string \<Rightarrow> visit_state \<Rightarrow> visit_state" where
  "fail_with c reason s = (if c \<and> vs_failure s = None then s\<lparr>vs_failure := Some reason\<rparr> else s)"

text \<open>The innermost open object is the head of the stack.\<close>

fun on_visit :: "visit_event \<Rightarrow> visit_state \<Rightarrow> visit_state" where
  "on_visit ObjectBegin s = s\<lparr>vs_stack := [] # vs_stack s\<rparr>"
| "on_visit ObjectEnd s = s\<lparr>vs_stack := tl (vs_stack s)\<rparr>"
| "on_visit (ObjectProperty p) s =
     (case vs_stack s of
        [] \<Rightarrow> s
      | keys # rest \<Rightarrow>
          (fail_with (p \<in> set keys) (''duplicate key \"'' @ take 40 p @ ''\"'') s)\<lparr>vs_stack := set_add p keys # rest\<rparr>)"
| "on_visit ArrayBegin s = fail_with True ''arrays are not allowed'' s"
| "on_visit (LiteralNumber x raw) s =
     fail_with (\<not> finite_num x) ''non-finite numbers are not allowed''
       (fail_with (starts_with raw ''-'') ''negative numbers are not allowed''
         (fail_with (list_ex (\<lambda>c. c = CHR ''e'' \<or> c = CHR ''E'') raw) ''exponent notation is not allowed'' s))"
| "on_visit LiteralOther s = s"
| "on_visit CommentSeen s = fail_with True ''comments are not allowed'' s"
| "on_visit (ScanError e) s = s\<lparr>vs_errors := vs_errors s @ [e]\<rparr>"

definition unknown_members :: "string \<Rightarrow> string list \<Rightarrow> js_value \<Rightarrow> string list" where
  "unknown_members prefix known v = map (\<lambda>k. prefix @ k) (filter (\<lambda>k. k \<notin> set known) (map fst (members v)))"

text \<open>\<open>strictAmounts\<close>: a refusal, or the amounts, with the unknown keys it adds.\<close>

definition strictAmounts :: "js_value \<Rightarrow> string \<Rightarrow> (string + target_amounts option) \<times> string list" where
  "strictAmounts v path =
     (if v = JUndefined then (Inr None, [])
      else if \<not> isObject v then (Inl (path @ '' must be an object''), [])
      else let unknown = unknown_members (path @ ''.'') [''tokens'', ''usd''] v;
               tokens = prop_of v ''tokens''; usd = prop_of v ''usd''
           in (if tokens \<noteq> JUndefined \<and> validTokens tokens = None
               then Inl (path @ ''.tokens must be a whole number from 1 to 1,000,000,000,000'')
               else if usd \<noteq> JUndefined \<and> parseTargetUsd usd = None
               then Inl (path @ ''.usd must be a decimal string from \"0.000001\" to \"1000000.000000\"'')
               else Inr (Some \<lparr>ta_tokens = validTokens tokens, ta_nanoUsd = parseTargetUsd usd\<rparr>), unknown))"

fun strict_agents :: "(string \<times> js_value) list \<Rightarrow> (string, target_amounts) jsmap
    \<Rightarrow> (string + (string, target_amounts) jsmap) \<times> string list" where
  "strict_agents [] out = (Inr out, [])"
| "strict_agents ((agent, v) # rest) out =
     (if \<not> AGENT_ID agent then (Inl ''an agent id is not valid'', [])
      else case strictAmounts v (''max.agents.'' @ agent) of
          (Inl reason, ks) \<Rightarrow> (Inl reason, ks)
        | (Inr amounts, ks) \<Rightarrow>
            (let (r, ks') = strict_agents rest (case amounts of None \<Rightarrow> out | Some a \<Rightarrow> js_set agent a out)
             in (r, ks @ ks')))"

definition some_amount :: "target_amounts option \<Rightarrow> target_amounts option" where
  "some_amount a = (case a of Some x \<Rightarrow> if ta_tokens x \<noteq> None \<or> ta_nanoUsd x \<noteq> None then a else None | None \<Rightarrow> None)"

definition budget_json :: "target_amounts option \<Rightarrow> target_amounts option \<Rightarrow> (string, target_amounts) jsmap \<Rightarrow> js_value" where
  "budget_json request project agents = JObject [(''schemaVersion'', JNum (Fin 1)), (''max'', JObject
     (opt_member ''request'' (map_option (\<lambda>a. JObject (amount_members a)) request)
    @ opt_member ''project'' (map_option (\<lambda>a. JObject (amount_members a)) project)
    @ (if agents \<noteq> [] then [(''agents'', JObject (map (\<lambda>(agent, a). (agent, JObject (amount_members a))) agents))] else [])))]"

text \<open>The file once it is read as a value.\<close>

definition budget_of :: "(string \<Rightarrow> string) \<Rightarrow> (rat \<Rightarrow> string) \<Rightarrow> js_value \<Rightarrow> string + repository_budget" where
  "budget_of sha256 num_text v =
     (if \<not> isObject v then Inl ''the top level must be an object''
      else if prop_of v ''schemaVersion'' \<noteq> JNum (Fin 1) then Inl ''schemaVersion must be 1''
      else let cap = prop_of v ''max'' in
        if \<not> isObject cap then Inl ''\"max\" must be an object''
        else
          case strictAmounts (prop_of cap ''request'') ''max.request'' of
            (Inl reason, _) \<Rightarrow> Inl reason
          | (Inr request, k1) \<Rightarrow>
          (case strictAmounts (prop_of cap ''project'') ''max.project'' of
            (Inl reason, _) \<Rightarrow> Inl reason
          | (Inr project, k2) \<Rightarrow>
          (let agents = prop_of cap ''agents'' in
           case (if agents = JUndefined then (Inr [], [])
                 else if \<not> isObject agents then (Inl ''max.agents must be an object'', [])
                 else if length (members agents) > MAX_AGENT_ENTRIES then (Inl ''too many agent entries'', [])
                 else strict_agents (members agents) []) of
             (Inl reason, _) \<Rightarrow> Inl reason
           | (Inr shares, k3) \<Rightarrow>
               Inr \<lparr>rb_request = some_amount request, rb_project = some_amount project, rb_agents = shares,
                    rb_contentDigest = sha256 (canonical num_text (budget_json request project shares)),
                    rb_unknownKeys = unknown_members [] [''schemaVersion'', ''max''] v
                      @ unknown_members ''max.'' [''request'', ''project'', ''agents''] cap @ k1 @ k2 @ k3\<rparr>)))"

definition parseRepositoryBudget :: "(string \<Rightarrow> string) \<Rightarrow> (rat \<Rightarrow> string) \<Rightarrow> (string \<Rightarrow> visit_event list)
    \<Rightarrow> (string \<Rightarrow> js_value option) \<Rightarrow> string \<Rightarrow> string + repository_budget" where
  "parseRepositoryBudget sha256 num_text visit json_parse text =
     (if utf8_length text > MAX_BUDGET_FILE_BYTES then Inl ''the file is larger than 64 KiB''
      else let s = fold on_visit (visit text) \<lparr>vs_errors = [], vs_stack = [], vs_failure = None\<rparr>
        in case vs_errors s of
             e # _ \<Rightarrow> Inl (''not valid JSON ('' @ e @ '')'')
           | [] \<Rightarrow>
             (case vs_failure s of
                Some reason \<Rightarrow> Inl reason
              | None \<Rightarrow>
                (case json_parse text of None \<Rightarrow> Inl ''not valid JSON'' | Some v \<Rightarrow> budget_of sha256 num_text v)))"

subsection \<open>Effective targets\<close>

record effective_amount =
  ea_value :: int
  ea_repositoryNarrowed :: bool

record effective_pair =
  ep_tokens :: "effective_amount option"
  ep_nanoUsd :: "effective_amount option"

record effective_targets =
  et_request :: effective_pair
  et_project :: "(effective_pair \<times> period \<times> string) option"
  et_agents :: "(string, effective_pair) jsmap"
  et_appliedRepositoryDigest :: "string option"

definition narrow :: "int option \<Rightarrow> int option \<Rightarrow> effective_amount option" where
  "narrow user repository = (case user of
       None \<Rightarrow> None
     | Some u \<Rightarrow>
         (case repository of
            Some r \<Rightarrow> if r < u then Some \<lparr>ea_value = r, ea_repositoryNarrowed = True\<rparr>
                       else Some \<lparr>ea_value = u, ea_repositoryNarrowed = False\<rparr>
          | None \<Rightarrow> Some \<lparr>ea_value = u, ea_repositoryNarrowed = False\<rparr>))"

definition narrowAmounts :: "target_amounts option \<Rightarrow> target_amounts option \<Rightarrow> effective_pair" where
  "narrowAmounts user repository =
     \<lparr>ep_tokens = narrow (Option.bind user ta_tokens) (Option.bind repository ta_tokens),
      ep_nanoUsd = narrow (Option.bind user ta_nanoUsd) (Option.bind repository ta_nanoUsd)\<rparr>"

definition applied_budget :: "repository_budget option \<Rightarrow> string option \<Rightarrow> repository_budget option" where
  "applied_budget repository accepted = (case (repository, accepted) of
       (Some b, Some d) \<Rightarrow> if d \<noteq> [] \<and> rb_contentDigest b = d then Some b else None
     | _ \<Rightarrow> None)"

definition effectiveTargets :: "user_targets \<Rightarrow> repository_budget option \<Rightarrow> string option \<Rightarrow> effective_targets" where
  "effectiveTargets user repository accepted =
     (let applied = applied_budget repository accepted;
          share = (\<lambda>agent. Option.bind applied (\<lambda>b. js_get (rb_agents b) agent));
          agents = (case ut_project user of
              None \<Rightarrow> []
            | Some _ \<Rightarrow> filter (\<lambda>(agent, p). ep_tokens p \<noteq> None \<or> ep_nanoUsd p \<noteq> None)
                (map (\<lambda>(agent, a). (agent, narrowAmounts (Some a) (share agent))) (ut_agents user)))
      in \<lparr>et_request = narrowAmounts (ut_request user) (Option.bind applied rb_request),
          et_project = map_option (\<lambda>p. (narrowAmounts (Some (pt_amounts p)) (Option.bind applied rb_project),
             pt_period p, pt_timeZone p)) (ut_project user),
          et_agents = agents,
          et_appliedRepositoryDigest = map_option rb_contentDigest applied\<rparr>)"

datatype reference_mode = Unselected | UnodeMode | RoamMode | TokenOnly

fun mode_text :: "reference_mode \<Rightarrow> string" where
  "mode_text Unselected = ''unselected''"
| "mode_text UnodeMode = ''unode''"
| "mode_text RoamMode = ''roam''"
| "mode_text TokenOnly = ''token-only''"

definition amount_json :: "effective_amount option \<Rightarrow> js_value" where
  "amount_json a = (case a of None \<Rightarrow> JUndefined
     | Some a \<Rightarrow> JObject [(''v'', JString (show_big (ea_value a))), (''r'', JBool (ea_repositoryNarrowed a))])"

definition dims :: "effective_pair \<Rightarrow> (string \<times> js_value) list" where
  "dims p = [(''t'', amount_json (ep_tokens p)), (''u'', amount_json (ep_nanoUsd p))]"

definition revision_payload :: "effective_targets \<Rightarrow> reference_mode \<Rightarrow> js_value" where
  "revision_payload t mode = JObject
     [(''request'', JObject (dims (et_request t))),
      (''project'', case et_project t of None \<Rightarrow> JUndefined
         | Some (p, per, zone) \<Rightarrow> JObject (dims p @ [(''p'', JString (period_text per)), (''z'', JString zone)])),
      (''agents'', JObject (map (\<lambda>(agent, p). (agent, JObject (dims p))) (sort_key fst (et_agents t)))),
      (''repository'', case et_appliedRepositoryDigest t of None \<Rightarrow> JUndefined | Some d \<Rightarrow> JString d),
      (''referenceMode'', JString (mode_text mode))]"

definition targetRevision :: "(string \<Rightarrow> string) \<Rightarrow> (rat \<Rightarrow> string) \<Rightarrow> effective_targets \<Rightarrow> reference_mode \<Rightarrow> string" where
  "targetRevision sha256 num_text t mode = take 32 (sha256 (canonical num_text (revision_payload t mode)))"

subsection \<open>Periods\<close>

definition DAY_CACHE_LIMIT :: nat where
  "DAY_CACHE_LIMIT = 100000"

definition day_key :: "string \<Rightarrow> int \<Rightarrow> string" where
  "day_key zone ms = zone @ ''|'' @ show_big (ms div 60000)"

definition format_in :: "(string \<Rightarrow> bool) \<Rightarrow> (string \<Rightarrow> int \<Rightarrow> string option) \<Rightarrow> string \<Rightarrow> int \<Rightarrow> string option" where
  "format_in zone_ok format_day zone ms =
     (if isValidTimeZone zone_ok (JString zone) then format_day zone ms else None)"

text \<open>\<open>dayOf\<close> with its cache, keyed by zone and minute and emptied when full.\<close>

definition dayOf :: "(string \<Rightarrow> bool) \<Rightarrow> (string \<Rightarrow> int \<Rightarrow> string option) \<Rightarrow> (string, string option) jsmap
    \<Rightarrow> int option \<Rightarrow> string \<Rightarrow> string option \<times> (string, string option) jsmap" where
  "dayOf zone_ok format_day cache ms zone = (case ms of
       None \<Rightarrow> (None, cache)
     | Some ms \<Rightarrow>
         (case js_get cache (day_key zone ms) of
            Some cached \<Rightarrow> (cached, cache)
          | None \<Rightarrow>
              let day = format_in zone_ok format_day zone ms
              in (day, js_set (day_key zone ms) day (if length cache \<ge> DAY_CACHE_LIMIT then [] else cache))))"

definition periodIdFor :: "(string \<Rightarrow> bool) \<Rightarrow> (string \<Rightarrow> int \<Rightarrow> string option) \<Rightarrow> (string, string option) jsmap
    \<Rightarrow> int option \<Rightarrow> period \<Rightarrow> string \<Rightarrow> string option \<times> (string, string option) jsmap" where
  "periodIdFor zone_ok format_day cache instant period zone =
     (let (day, cache') = dayOf zone_ok format_day cache instant zone
      in (case day of
            None \<Rightarrow> None
          | Some d \<Rightarrow> if d = [] then None
              else Some ((case period of Day \<Rightarrow> d | Month \<Rightarrow> take 7 d) @ ''@'' @ zone), cache'))"

subsection \<open>A repository only lowers\<close>

text \<open>
  What one dimension must be, of the user's own amount and the one proposed: nothing where the user set
  nothing, otherwise the lower of the two, marked as narrowed exactly when it is below the user's.
\<close>

definition lowered :: "int option \<Rightarrow> int option \<Rightarrow> effective_amount option \<Rightarrow> bool" where
  "lowered own proposed e = (case (own, e) of
       (None, None) \<Rightarrow> True
     | (Some u, Some x) \<Rightarrow> ea_value x = (case proposed of None \<Rightarrow> u | Some r \<Rightarrow> min u r)
         \<and> (ea_repositoryNarrowed x \<longleftrightarrow> ea_value x < u)
     | _ \<Rightarrow> False)"

definition lowered_amounts :: "target_amounts option \<Rightarrow> target_amounts option \<Rightarrow> effective_pair \<Rightarrow> bool" where
  "lowered_amounts own proposed p \<longleftrightarrow>
     lowered (Option.bind own ta_tokens) (Option.bind proposed ta_tokens) (ep_tokens p)
   \<and> lowered (Option.bind own ta_nanoUsd) (Option.bind proposed ta_nanoUsd) (ep_nanoUsd p)"

lemma narrow_lowered: "lowered u r (narrow u r)"
  by (auto simp: lowered_def narrow_def split: option.split)

lemma narrowAmounts_lowered [simp]: "lowered_amounts u r (narrowAmounts u r)"
  by (simp add: lowered_amounts_def narrowAmounts_def narrow_lowered)

lemma narrow_None_iff [simp]: "narrow u r = None \<longleftrightarrow> u = None"
  by (auto simp: narrow_def split: option.split)

lemma narrowAmounts_None [simp]:
  "ep_tokens (narrowAmounts u r) = None \<longleftrightarrow> Option.bind u ta_tokens = None"
  "ep_nanoUsd (narrowAmounts u r) = None \<longleftrightarrow> Option.bind u ta_nanoUsd = None"
  by (simp_all add: narrowAmounts_def)

lemma amounts_given: "a \<noteq> no_amounts \<longleftrightarrow> ta_tokens a \<noteq> None \<or> ta_nanoUsd a \<noteq> None"
  by (cases a) (auto simp: no_amounts_def)

lemma agents_lowered:
  "list_all2 (\<lambda>(agent, a) (shown, p). shown = agent \<and> lowered_amounts (Some a) (f agent) p)
     (filter (\<lambda>(agent, a). a \<noteq> no_amounts) as)
     (filter (\<lambda>(agent, p). ep_tokens p \<noteq> None \<or> ep_nanoUsd p \<noteq> None)
       (map (\<lambda>(agent, a). (agent, narrowAmounts (Some a) (f agent))) as))"
  by (induction as) (simp_all add: amounts_given case_prod_beta del: not_None_eq)

text \<open>
  C39: a repository can only lower what the user enabled. In the targets in force, a dimension of the
  request, the project or an agent is present exactly when the user set an amount for it; its value is the
  user's own amount, or the proposed one where an accepted proposal has a lower one, and it is marked as
  narrowed exactly when it is below the user's. The project's period and zone and the list of agents are
  the user's, and there are agents only with a project. A proposal counts only when the user accepted
  exactly its digest; any other leaves the user's amounts as they are.
\<close>

theorem repository_only_lowers:
  "let e = effectiveTargets user repository accepted;
       proposal = (if accepted \<noteq> Some [] \<and> map_option rb_contentDigest repository = accepted then repository else None)
   in lowered_amounts (ut_request user) (Option.bind proposal rb_request) (et_request e)
    \<and> rel_option (\<lambda>own x. lowered_amounts (Some (pt_amounts own)) (Option.bind proposal rb_project) (fst x)
                    \<and> snd x = (pt_period own, pt_timeZone own)) (ut_project user) (et_project e)
    \<and> list_all2 (\<lambda>(agent, a) (shown, x). shown = agent
                    \<and> lowered_amounts (Some a) (Option.bind proposal (\<lambda>b. js_get (rb_agents b) agent)) x)
        (if ut_project user = None then [] else filter (\<lambda>(agent, a). a \<noteq> no_amounts) (ut_agents user)) (et_agents e)
    \<and> et_appliedRepositoryDigest e = map_option rb_contentDigest proposal"
proof -
  let ?e = "effectiveTargets user repository accepted"
  let ?proposal = "if accepted \<noteq> Some [] \<and> map_option rb_contentDigest repository = accepted then repository else None"
  have applied: "applied_budget repository accepted = ?proposal"
    by (cases repository; cases accepted) (auto simp: applied_budget_def)
  have "lowered_amounts (ut_request user) (Option.bind ?proposal rb_request) (et_request ?e)"
    by (simp only: effectiveTargets_def Let_def applied effective_targets.simps narrowAmounts_lowered)
  moreover have "rel_option (\<lambda>own x. lowered_amounts (Some (pt_amounts own)) (Option.bind ?proposal rb_project) (fst x)
                    \<and> snd x = (pt_period own, pt_timeZone own)) (ut_project user) (et_project ?e)"
    by (cases "ut_project user") (simp_all add: effectiveTargets_def Let_def applied)
  moreover have "list_all2 (\<lambda>(agent, a) (shown, x). shown = agent
                    \<and> lowered_amounts (Some a) (Option.bind ?proposal (\<lambda>b. js_get (rb_agents b) agent)) x)
        (if ut_project user = None then [] else filter (\<lambda>(agent, a). a \<noteq> no_amounts) (ut_agents user)) (et_agents ?e)"
    using agents_lowered [of "\<lambda>agent. Option.bind ?proposal (\<lambda>b. js_get (rb_agents b) agent)" "ut_agents user"]
    by (cases "ut_project user") (simp_all only: effectiveTargets_def Let_def applied effective_targets.simps option.case
          simp_thms if_True if_False option.distinct list_all2_Nil option.simps)
  moreover have "et_appliedRepositoryDigest ?e = map_option rb_contentDigest ?proposal"
    by (simp only: effectiveTargets_def Let_def applied effective_targets.simps)
  ultimately show ?thesis unfolding Let_def by (intro conjI)
qed

subsection \<open>Settings\<close>

definition amounts_ok :: "target_amounts \<Rightarrow> bool" where
  "amounts_ok a \<longleftrightarrow> (ta_tokens a \<noteq> None \<or> ta_nanoUsd a \<noteq> None)
     \<and> (\<forall>t \<in> set_option (ta_tokens a). 1 \<le> t \<and> t \<le> MAX_TARGET_TOKENS)
     \<and> (\<forall>n \<in> set_option (ta_nanoUsd a). 1000 dvd n \<and> MIN_TARGET_NANO_USD \<le> n \<and> n \<le> MAX_TARGET_NANO_USD)"

definition targets_ok :: "(string \<Rightarrow> bool) \<Rightarrow> user_targets \<Rightarrow> bool" where
  "targets_ok zone_ok t \<longleftrightarrow> (\<forall>a \<in> set_option (ut_request t). amounts_ok a)
     \<and> (\<forall>p \<in> set_option (ut_project t). amounts_ok (pt_amounts p) \<and> isValidTimeZone zone_ok (JString (pt_timeZone p)))
     \<and> (ut_project t = None \<longrightarrow> ut_agents t = [])
     \<and> js_map_ok (ut_agents t) \<and> length (ut_agents t) \<le> MAX_AGENT_ENTRIES
     \<and> (\<forall>(agent, a) \<in> set (ut_agents t). AGENT_ID agent \<and> amounts_ok a)"

lemma validTokens_range: "validTokens v = Some t \<Longrightarrow> 1 \<le> t \<and> t \<le> MAX_TARGET_TOKENS"
  by (auto simp: validTokens_def split: option.splits if_splits)

lemma validTokens_jnum [simp]: "1 \<le> t \<Longrightarrow> t \<le> MAX_TARGET_TOKENS \<Longrightarrow> validTokens (jnum t) = Some t"
  by (simp add: validTokens_def MAX_TARGET_TOKENS_def MAX_SAFE_INTEGER_def)

lemma parseAmounts_ok: "parseAmounts raw path = (Some a, ds) \<Longrightarrow> amounts_ok a"
  using parseTargetUsd_grid validTokens_range
  by (fastforce simp: parseAmounts_def parse_tokens_def parse_usd_def amounts_ok_def split: option.splits if_splits)

lemma member_of_simps [simp]:
  "member_of [] k = JUndefined" "member_of ((k', v) # ms) k = (if k' = k then v else member_of ms k)"
  by (auto simp: member_of_def)

lemma member_of_opt [simp]:
  "member_of (opt_member k' v @ ms) k = (if k' = k \<and> v \<noteq> None then the v else member_of ms k)"
  "member_of (opt_member k' v) k = (if k' = k \<and> v \<noteq> None then the v else JUndefined)"
  by (auto simp: opt_member_def split: option.split)

lemma parse_amounts_settings:
  assumes "amounts_ok a" and "member_of ms ''tokens'' = JUndefined" and "member_of ms ''usd'' = JUndefined"
  shows "parseAmounts (JObject (amount_members a @ ms)) path = (Some a, [])"
proof -
  have "parse_tokens (member_of (amount_members a @ ms) ''tokens'') path = (ta_tokens a, [])"
    using assms by (cases "ta_tokens a") (auto simp: amount_members_def parse_tokens_def amounts_ok_def)
  moreover have "parse_usd (member_of (amount_members a @ ms) ''usd'') path = (ta_nanoUsd a, [])"
    using assms format_parse_target
    by (cases "ta_nanoUsd a") (auto simp: amount_members_def parse_usd_def amounts_ok_def)
  ultimately show ?thesis using assms(1) by (auto simp: parseAmounts_def amounts_ok_def)
qed

lemma parse_agents_ok:
  "parse_agents es out = (out', ds) \<Longrightarrow> js_map_ok out \<Longrightarrow> (\<forall>(agent, a) \<in> set out. AGENT_ID agent \<and> amounts_ok a) \<Longrightarrow>
    js_map_ok out' \<and> (\<forall>(agent, a) \<in> set out'. AGENT_ID agent \<and> amounts_ok a) \<and> length out' \<le> length out + length es"
proof (induction es arbitrary: out out' ds)
  case (Cons e es)
  obtain agent v where e: "e = (agent, v)" by force
  show ?case
  proof (cases "AGENT_ID agent")
    case False
    with Cons.prems e show ?thesis using Cons.IH [of out]
      by (fastforce split: prod.splits)
  next
    case True
    obtain am ds1 where p: "parseAmounts v (''agents.'' @ agent) = (am, ds1)" by force
    let ?o = "case am of None \<Rightarrow> out | Some a \<Rightarrow> js_set agent a out"
    obtain o2 ds2 where r: "parse_agents es ?o = (o2, ds2)" by force
    have out': "out' = o2" using Cons.prems(1) e True p r by (simp add: Let_def)
    have ok: "js_map_ok ?o" using Cons.prems(2) by (cases am) simp_all
    have all: "\<forall>(agent, a) \<in> set ?o. AGENT_ID agent \<and> amounts_ok a"
      using Cons.prems(2,3) True p by (cases am) (auto simp: js_set_in dest: parseAmounts_ok split: if_splits)
    have len: "length ?o \<le> Suc (length out)"
      by (cases am) (simp_all add: length_js_set_le)
    show ?thesis using Cons.IH [OF r ok all] len by (auto simp: out')
  qed
qed simp

lemma parse_project_ok:
  "parse_project zone_ok raw = (Some p, ds) \<Longrightarrow> amounts_ok (pt_amounts p) \<and> isValidTimeZone zone_ok (JString (pt_timeZone p))"
  by (auto simp: parse_project_def isValidTimeZone_def dest!: parseAmounts_ok
      elim!: text_such.elims split: prod.splits option.splits if_splits)

lemma parseUserTargets_ok: "targets_ok zone_ok (parseUserTargets zone_ok raw)"
proof -
  let ?t = "parseUserTargets zone_ok raw"
  show ?thesis
  proof (cases "\<not> (raw = JUndefined \<or> raw = JNull) \<and> isObject raw \<and> prop_of raw ''schemaVersion'' = JNum (Fin 1)")
    case False
    then have "ut_request ?t = None \<and> ut_project ?t = None \<and> ut_agents ?t = []"
      by (cases "raw = JUndefined \<or> raw = JNull"; cases "isObject raw"; simp add: parseUserTargets_def Let_def)
    then show ?thesis by (simp add: targets_ok_def)
  next
    case on: True
    obtain r d1 where r: "parseAmounts (prop_of raw ''request'') ''request'' = (r, d1)" by force
    obtain p d2 where p: "parse_project zone_ok (prop_of raw ''project'') = (p, d2)" by force
    let ?a = "prop_of raw ''agents''"
    obtain s d3 where s: "parse_agents (take MAX_AGENT_ENTRIES (members ?a)) [] = (s, d3)" by force
    have t: "ut_request ?t = r" "ut_project ?t = p"
      "ut_agents ?t = (if ?a = JUndefined \<or> \<not> isObject ?a \<or> p = None then [] else s)"
      using on r p s by (auto simp: parseUserTargets_def Let_def)
    have "js_map_ok s \<and> (\<forall>(agent, a) \<in> set s. AGENT_ID agent \<and> amounts_ok a) \<and> length s \<le> MAX_AGENT_ENTRIES"
      using parse_agents_ok [OF s] by auto
    with r p show ?thesis
      by (cases r; cases p) (auto simp: targets_ok_def t dest!: parseAmounts_ok parse_project_ok)
  qed
qed

lemma parse_agents_settings:
  "\<forall>(agent, a) \<in> set as. AGENT_ID agent \<and> amounts_ok a \<Longrightarrow> js_map_ok (out @ as) \<Longrightarrow>
    parse_agents (map (\<lambda>(agent, a). (agent, JObject (amount_members a))) as) out = (out @ as, [])"
proof (induction as arbitrary: out)
  case (Cons x as)
  obtain agent a where x: "x = (agent, a)" by force
  have "parseAmounts (JObject (amount_members a)) (''agents.'' @ agent) = (Some a, [])"
    using parse_amounts_settings [of a "[]"] Cons.prems(1) x by simp
  moreover have "js_set agent a out = out @ [(agent, a)]"
    using Cons.prems(2) x by (induction out) auto
  moreover have "parse_agents (map (\<lambda>(agent, a). (agent, JObject (amount_members a))) as) (out @ [x]) = (out @ [x] @ as, [])"
    using Cons.IH [of "out @ [x]"] Cons.prems by simp
  ultimately show ?case using Cons.prems(1) x by simp
qed simp

lemma parse_project_settings:
  assumes "amounts_ok (pt_amounts p)" and "isValidTimeZone zone_ok (JString (pt_timeZone p))"
  shows "parse_project zone_ok (JObject (amount_members (pt_amounts p)
      @ [(''period'', JString (period_text (pt_period p))), (''timeZone'', JString (pt_timeZone p))])) = (Some p, [])"
proof -
  let ?ms = "[(''period'', JString (period_text (pt_period p))), (''timeZone'', JString (pt_timeZone p))]"
  have a: "parseAmounts (JObject (amount_members (pt_amounts p) @ ?ms)) ''project'' = (Some (pt_amounts p), [])"
    using assms(1) by (intro parse_amounts_settings) auto
  have "period_of (member_of (amount_members (pt_amounts p) @ ?ms) ''period'') = Some (pt_period p)"
    by (cases "pt_period p") (simp_all add: amount_members_def)
  moreover have "member_of (amount_members (pt_amounts p) @ ?ms) ''timeZone'' = JString (pt_timeZone p)"
    by (simp add: amount_members_def)
  ultimately show ?thesis using assms(2) unfolding parse_project_def a by simp
qed

lemma settings_roundtrip:
  assumes "targets_ok zone_ok t"
  shows "parseUserTargets zone_ok (userTargetsToSettings t) = t\<lparr>ut_diagnostics := []\<rparr>"
proof -
  let ?v = "userTargetsToSettings t"
  have "parseAmounts (prop_of ?v ''request'') ''request'' = (ut_request t, [])"
    using parse_amounts_settings [of _ "[]"] assms
    by (cases "ut_request t") (auto simp: userTargetsToSettings_def targets_ok_def parseAmounts_def)
  moreover have "parse_project zone_ok (prop_of ?v ''project'') = (ut_project t, [])"
    using parse_project_settings assms
    by (cases "ut_project t") (auto simp: userTargetsToSettings_def targets_ok_def parse_project_def)
  moreover have "prop_of ?v ''agents'' = (if ut_agents t = [] then JUndefined
      else JObject (map (\<lambda>(agent, a). (agent, JObject (amount_members a))) (ut_agents t)))"
    by (simp add: userTargetsToSettings_def)
  moreover have "parse_agents (take MAX_AGENT_ENTRIES (map (\<lambda>(agent, a). (agent, JObject (amount_members a))) (ut_agents t))) []
      = (ut_agents t, [])"
    using parse_agents_settings [of "ut_agents t" "[]"] assms by (simp add: targets_ok_def)
  moreover have "isObject ?v" "?v \<noteq> JUndefined" "?v \<noteq> JNull" "prop_of ?v ''schemaVersion'' = JNum (Fin 1)"
    by (simp_all add: userTargetsToSettings_def)
  ultimately show ?thesis using assms
    by (auto simp: parseUserTargets_def Let_def targets_ok_def)
qed

text \<open>
   writing the settings keeps every target. Whatever the settings hold, serialising the targets
  read from them and reading the result again gives the same targets, with nothing left to complain about.
\<close>

theorem settings_write_keeps_targets:
  "let t = parseUserTargets zone_ok raw in
     parseUserTargets zone_ok (userTargetsToSettings t) = t\<lparr>ut_diagnostics := []\<rparr>"
  unfolding Let_def by (rule settings_roundtrip [OF parseUserTargets_ok])

subsection \<open>The day cache\<close>

definition same_day_in_minute :: "(string \<Rightarrow> int \<Rightarrow> string option) \<Rightarrow> bool" where
  "same_day_in_minute format_day \<longleftrightarrow>
     (\<forall>zone a b. a div 60000 = b div 60000 \<longrightarrow> format_day zone a = format_day zone b)"

definition cache_ok :: "(string \<Rightarrow> bool) \<Rightarrow> (string \<Rightarrow> int \<Rightarrow> string option) \<Rightarrow> (string, string option) jsmap \<Rightarrow> bool" where
  "cache_ok zone_ok format_day cache \<longleftrightarrow>
     (\<forall>zone ms. \<forall>v \<in> set_option (js_get cache (day_key zone ms)). v = format_in zone_ok format_day zone ms)
   \<and> length cache \<le> DAY_CACHE_LIMIT"

lemma show_big_no_bar: "CHR ''|'' \<notin> set (show_big i)"
proof -
  have "CHR ''|'' \<notin> set (show_pos n)" if "0 \<le> n" for n
  proof
    assume "CHR ''|'' \<in> set (show_pos n)"
    with show_pos_digits [OF that] have "is_digit (CHR ''|'')" by (simp only: list_all_iff)
    then show False by (simp add: is_digit_def less_eq_char_def)
  qed
  from this [of i] this [of "- i"] show ?thesis by (simp add: show_big_def)
qed

lemma show_big_inject: "show_big i = show_big j \<Longrightarrow> i = j"
proof -
  assume eq: "show_big i = show_big j"
  have neg: "CHR ''-'' # s \<noteq> show_pos n" if "0 \<le> n" for n s
  proof
    assume "CHR ''-'' # s = show_pos n"
    with show_pos_digits [OF that] have "is_digit (CHR ''-'')" by (metis list.pred_inject(2))
    then show False by (simp add: is_digit_def less_eq_char_def)
  qed
  consider "i < 0" "j < 0" | "0 \<le> i" "0 \<le> j" | "i < 0" "0 \<le> j" | "0 \<le> i" "j < 0" by linarith
  then show ?thesis
  proof cases
    case 1
    then have "show_pos (- i) = show_pos (- j)" using eq by (simp add: show_big_def)
    then have "big_of_digits (show_pos (- i)) = big_of_digits (show_pos (- j))" by (rule arg_cong)
    with 1 show ?thesis by simp
  next
    case 2
    then have "show_pos i = show_pos j" using eq by (simp add: show_big_def)
    then have "big_of_digits (show_pos i) = big_of_digits (show_pos j)" by (rule arg_cong)
    with 2 show ?thesis by simp
  next
    case 3
    then show ?thesis using eq neg [of j "show_pos (- i)"] by (simp add: show_big_def)
  next
    case 4
    then show ?thesis using eq neg [of i "show_pos (- j)"] by (simp add: show_big_def eq_commute)
  qed
qed

lemma last_bar_unique:
  "a @ x # b = c @ x # d \<Longrightarrow> x \<notin> set b \<Longrightarrow> x \<notin> set d \<Longrightarrow> a = c \<and> b = d"
proof (induction a arbitrary: c)
  case Nil
  then show ?case by (cases c) auto
next
  case (Cons y a)
  then show ?case by (cases c) auto
qed

lemma day_key_inject:
  assumes "day_key z a = day_key z' b"
  shows "z = z' \<and> a div 60000 = b div 60000"
proof -
  have "z @ CHR ''|'' # show_big (a div 60000) = z' @ CHR ''|'' # show_big (b div 60000)"
    using assms by (simp add: day_key_def)
  from last_bar_unique [OF this show_big_no_bar show_big_no_bar] show ?thesis
    using show_big_inject [of "a div 60000" "b div 60000"] by blast
qed

lemma format_in_minute:
  "same_day_in_minute f \<Longrightarrow> a div 60000 = b div 60000 \<Longrightarrow> format_in zone_ok f z a = format_in zone_ok f z b"
  unfolding format_in_def same_day_in_minute_def by metis

lemma dayOf_ok:
  assumes "same_day_in_minute f" and "cache_ok zone_ok f cache" and "dayOf zone_ok f cache ms zone = (d, cache')"
  shows "cache_ok zone_ok f cache' \<and> d = Option.bind ms (format_in zone_ok f zone)"
proof (cases ms)
  case None
  with assms show ?thesis by (auto simp: dayOf_def)
next
  case (Some i)
  show ?thesis
  proof (cases "js_get cache (day_key zone i)")
    case hit: (Some v)
    with assms(2) have "v = format_in zone_ok f zone i" by (auto simp: cache_ok_def)
    with assms Some hit show ?thesis by (simp add: dayOf_def)
  next
    case miss: None
    let ?c = "if length cache \<ge> DAY_CACHE_LIMIT then [] else cache"
    have eq: "d = format_in zone_ok f zone i" "cache' = js_set (day_key zone i) d ?c"
      using assms(3) Some miss by (auto simp: dayOf_def Let_def)
    have "v = format_in zone_ok f z j" if "js_get cache' (day_key z j) = Some v" for z j v
    proof (cases "day_key z j = day_key zone i")
      case True
      then have "z = zone" "j div 60000 = i div 60000" by (auto dest: day_key_inject)
      with that True eq format_in_minute [OF assms(1), of j i] show ?thesis by simp
    next
      case False
      with that eq(2) have "js_get cache (day_key z j) = Some v" by (simp split: if_splits)
      with assms(2) show ?thesis by (auto simp: cache_ok_def)
    qed
    moreover have "length cache' \<le> DAY_CACHE_LIMIT"
      using length_js_set_le [of "day_key zone i" d ?c] unfolding eq(2) by (simp add: DAY_CACHE_LIMIT_def split: if_splits)
    ultimately show ?thesis using eq(1) Some by (auto simp: cache_ok_def)
  qed
qed

text \<open>The periods of a sequence of instants, asked one after the other.\<close>

fun period_run :: "(string \<Rightarrow> bool) \<Rightarrow> (string \<Rightarrow> int \<Rightarrow> string option) \<Rightarrow> (string, string option) jsmap
    \<Rightarrow> (int option \<times> period \<times> string) list \<Rightarrow> string option list" where
  "period_run zone_ok f cache [] = []"
| "period_run zone_ok f cache ((ms, per, zone) # qs) =
     (let (p, cache') = periodIdFor zone_ok f cache ms per zone in p # period_run zone_ok f cache' qs)"

definition period_id :: "(string \<Rightarrow> bool) \<Rightarrow> (string \<Rightarrow> int \<Rightarrow> string option) \<Rightarrow> int option \<Rightarrow> period \<Rightarrow> string \<Rightarrow> string option" where
  "period_id zone_ok f ms per zone = fst (periodIdFor zone_ok f [] ms per zone)"

lemma periodIdFor_ok:
  assumes "same_day_in_minute f" and "cache_ok zone_ok f cache"
  shows "fst (periodIdFor zone_ok f cache ms per zone) = period_id zone_ok f ms per zone
    \<and> cache_ok zone_ok f (snd (periodIdFor zone_ok f cache ms per zone))"
proof -
  have e: "cache_ok zone_ok f []" by (simp add: cache_ok_def)
  obtain d c where d: "dayOf zone_ok f cache ms zone = (d, c)" by force
  obtain d' c' where d': "dayOf zone_ok f [] ms zone = (d', c')" by force
  have "d = d'" using dayOf_ok [OF assms d] dayOf_ok [OF assms(1) e d'] by simp
  with d d' dayOf_ok [OF assms d] show ?thesis by (simp add: periodIdFor_def period_id_def)
qed

lemma period_run_ok:
  "same_day_in_minute f \<Longrightarrow> cache_ok zone_ok f cache \<Longrightarrow>
    period_run zone_ok f cache qs = map (\<lambda>(ms, per, zone). period_id zone_ok f ms per zone) qs"
proof (induction qs arbitrary: cache)
  case (Cons q qs)
  obtain ms per zone where q: "q = (ms, per, zone)" by (cases q)
  obtain p c where p: "periodIdFor zone_ok f cache ms per zone = (p, c)" by force
  show ?case using periodIdFor_ok [OF Cons.prems, of ms per zone] Cons.IH [OF Cons.prems(1), of c] p by (simp add: q)
qed simp

text \<open>
   the day cache cannot be seen. As long as a zone's day does not change within a minute, any
  sequence of period questions gets, through the cache and its evictions, exactly the answers the formatter
  gives without it; two zones or minutes never share an entry.
\<close>

theorem period_cache_is_transparent:
  assumes "same_day_in_minute format_day"
  shows "period_run zone_ok format_day [] qs = map (\<lambda>(ms, per, zone). period_id zone_ok format_day ms per zone) qs"
  by (rule period_run_ok [OF assms]) (simp add: cache_ok_def)

theorem period_cache_is_transparent_witness:
  "period_run (\<lambda>_. True) (\<lambda>zone ms. Some (if ms < 86400000 then ''1970-01-01'' else ''1970-01-02'')) []
     [(Some 5, Day, ''UTC''), (Some 86400001, Month, ''UTC'')]
   = [Some ''1970-01-01@UTC'', Some ''1970-01@UTC'']"
proof -
  have day: "a < (86400000::int) \<longleftrightarrow> a div 60000 < 1440" for a
    using pos_mod_bound [of 60000 a] pos_mod_sign [of 60000 a] div_mult_mod_eq [of a 60000] by linarith
  have "same_day_in_minute (\<lambda>zone ms. Some (if ms < 86400000 then ''1970-01-01'' else ''1970-01-02''))"
    unfolding same_day_in_minute_def by (intro allI impI) (simp only: day)
  note t = period_cache_is_transparent [OF this, of "\<lambda>_. True" "[(Some 5, Day, ''UTC''), (Some 86400001, Month, ''UTC'')]"]
  show ?thesis unfolding t by code_simp
qed

subsection \<open>A hostile budget file\<close>

text \<open>What the scanner may report of a file that is accepted.\<close>

fun harmless :: "visit_event \<Rightarrow> bool" where
  "harmless ArrayBegin = False"
| "harmless CommentSeen = False"
| "harmless (ScanError e) = False"
| "harmless (LiteralNumber x raw) \<longleftrightarrow>
     finite_num x \<and> \<not> starts_with raw ''-'' \<and> \<not> list_ex (\<lambda>c. c = CHR ''e'' \<or> c = CHR ''E'') raw"
| "harmless _ = True"

text \<open>No object of the file names a key twice: the keys of every open object, innermost first.\<close>

fun no_duplicate_keys :: "string list list \<Rightarrow> visit_event list \<Rightarrow> bool" where
  "no_duplicate_keys st [] = True"
| "no_duplicate_keys st (ObjectBegin # es) = no_duplicate_keys ([] # st) es"
| "no_duplicate_keys st (ObjectEnd # es) = no_duplicate_keys (tl st) es"
| "no_duplicate_keys (ks # st) (ObjectProperty p # es) = (p \<notin> set ks \<and> no_duplicate_keys ((p # ks) # st) es)"
| "no_duplicate_keys st (_ # es) = no_duplicate_keys st es"

lemma visit_monotone:
  "vs_failure s \<noteq> None \<or> vs_errors s \<noteq> [] \<Longrightarrow>
    vs_failure (fold on_visit es s) \<noteq> None \<or> vs_errors (fold on_visit es s) \<noteq> []"
proof (induction es arbitrary: s)
  case (Cons e es)
  have "vs_failure (on_visit e s) \<noteq> None \<or> vs_errors (on_visit e s) \<noteq> []"
    using Cons.prems by (cases e) (auto simp: fail_with_def split: list.split)
  from Cons.IH [OF this] show ?case by simp
qed simp

lemma visit_harmless:
  "vs_failure (fold on_visit es s) = None \<Longrightarrow> vs_errors (fold on_visit es s) = [] \<Longrightarrow>
    list_all2 (\<lambda>ks ks'. set ks = set ks') (vs_stack s) st \<Longrightarrow>
    list_all harmless es \<and> no_duplicate_keys st es"
proof (induction es arbitrary: s st)
  case (Cons e es)
  have clean: "vs_failure (on_visit e s) = None" "vs_errors (on_visit e s) = []"
    using visit_monotone [of "on_visit e s" es] Cons.prems(1,2) by (simp_all only: fold.simps comp_apply) blast+
  have rest: "list_all harmless es \<and> no_duplicate_keys st' es"
    if "list_all2 (\<lambda>ks ks'. set ks = set ks') (vs_stack (on_visit e s)) st'" for st'
    using Cons.IH [of "on_visit e s" st'] Cons.prems(1,2) that by simp
  show ?case
  proof (cases e)
    case ObjectBegin
    with rest [of "[] # st"] Cons.prems(3) show ?thesis by simp
  next
    case ObjectEnd
    have "list_all2 (\<lambda>ks ks'. set ks = set ks') (tl (vs_stack s)) (tl st)"
      using Cons.prems(3) by (cases st; cases "vs_stack s") auto
    with rest [of "tl st"] ObjectEnd show ?thesis by simp
  next
    case (ObjectProperty p)
    show ?thesis
    proof (cases "vs_stack s")
      case Nil
      with rest [of "[]"] Cons.prems(3) ObjectProperty show ?thesis by simp
    next
      case (Cons ks ss)
      then obtain ks' st' where st: "st = ks' # st'" "set ks = set ks'"
        "list_all2 (\<lambda>ks ks'. set ks = set ks') ss st'"
        using \<open>list_all2 _ (vs_stack s) st\<close> by (cases st) auto
      have "p \<notin> set ks" using clean(1) ObjectProperty Cons by (auto simp: fail_with_def split: if_splits)
      moreover have "list_all harmless es \<and> no_duplicate_keys ((p # ks') # st') es"
        using st by (intro rest) (simp add: ObjectProperty Cons fail_with_def)
      ultimately show ?thesis using ObjectProperty st by simp
    qed
  next
    case (LiteralNumber x raw)
    with clean(1) have "harmless e" by (auto simp: fail_with_def split: if_splits)
    moreover have "vs_stack (on_visit e s) = vs_stack s" using LiteralNumber by (simp add: fail_with_def)
    ultimately show ?thesis using rest [of st] Cons.prems(3) LiteralNumber by (cases st) auto
  next
    case ArrayBegin
    with clean(1) show ?thesis by (auto simp: fail_with_def split: if_splits)
  next
    case CommentSeen
    with clean(1) show ?thesis by (auto simp: fail_with_def split: if_splits)
  next
    case LiteralOther
    with rest [of st] Cons.prems(3) show ?thesis by (cases st) auto
  next
    case (ScanError x)
    with clean(2) show ?thesis by simp
  qed
qed simp

definition bounded_amounts :: "target_amounts \<Rightarrow> bool" where
  "bounded_amounts a \<longleftrightarrow>
     (\<forall>t \<in> set_option (ta_tokens a). 1 \<le> t \<and> t \<le> MAX_TARGET_TOKENS)
   \<and> (\<forall>n \<in> set_option (ta_nanoUsd a). MIN_TARGET_NANO_USD \<le> n \<and> n \<le> MAX_TARGET_NANO_USD)"

lemma strictAmounts_bounded:
  assumes "strictAmounts v path = (Inr (Some a), ks)"
  shows "bounded_amounts a"
proof -
  have "ta_tokens a = validTokens (prop_of v ''tokens'')" "ta_nanoUsd a = parseTargetUsd (prop_of v ''usd'')"
    using assms by (auto simp: strictAmounts_def Let_def split: if_splits)
  then show ?thesis using validTokens_range parseTargetUsd_grid by (auto simp: bounded_amounts_def)
qed

lemma strict_agents_bounded:
  "strict_agents es out = (Inr out', ks) \<Longrightarrow> js_map_ok out \<Longrightarrow> \<forall>(agent, a) \<in> set out. AGENT_ID agent \<and> bounded_amounts a \<Longrightarrow>
    length out' \<le> length out + length es \<and> (\<forall>(agent, a) \<in> set out'. AGENT_ID agent \<and> bounded_amounts a)"
proof (induction es arbitrary: out ks)
  case (Cons e es)
  obtain agent v where e: "e = (agent, v)" by force
  have valid: "AGENT_ID agent" using Cons.prems(1) e by (auto split: if_splits)
  obtain am ks1 where p: "strictAmounts v (''max.agents.'' @ agent) = (Inr am, ks1)"
    using Cons.prems(1) e valid by (auto split: prod.splits sum.splits)
  let ?o = "case am of None \<Rightarrow> out | Some a \<Rightarrow> js_set agent a out"
  obtain r ks2 where r: "strict_agents es ?o = (r, ks2)" by force
  have "r = Inr out'" using Cons.prems(1) e valid p r by (simp add: Let_def)
  moreover have "js_map_ok ?o" using Cons.prems(2) by (cases am) simp_all
  moreover have "\<forall>(agent, a) \<in> set ?o. AGENT_ID agent \<and> bounded_amounts a"
    using Cons.prems(2,3) valid p by (cases am) (auto simp: js_set_in dest: strictAmounts_bounded split: if_splits)
  moreover have "length ?o \<le> Suc (length out)" by (cases am) (simp_all add: length_js_set_le)
  ultimately show ?case using Cons.IH [of ?o ks2] r by auto
qed simp

lemma budget_of_bounded:
  assumes "budget_of sha256 num_text v = Inr b"
  shows "(\<forall>a \<in> set_option (rb_request b) \<union> set_option (rb_project b) \<union> set (js_values (rb_agents b)). bounded_amounts a)
    \<and> list_all AGENT_ID (js_keys (rb_agents b)) \<and> length (rb_agents b) \<le> MAX_AGENT_ENTRIES"
proof -
  let ?cap = "prop_of v ''max''"
  let ?ag = "prop_of ?cap ''agents''"
  obtain request k1 where r: "strictAmounts (prop_of ?cap ''request'') ''max.request'' = (Inr request, k1)"
    using assms by (auto simp: budget_of_def Let_def split: if_splits prod.splits sum.splits)
  obtain project k2 where p: "strictAmounts (prop_of ?cap ''project'') ''max.project'' = (Inr project, k2)"
    using assms r by (auto simp: budget_of_def Let_def split: if_splits prod.splits sum.splits)
  obtain shares where b: "rb_request b = some_amount request" "rb_project b = some_amount project" "rb_agents b = shares"
    and s: "shares = [] \<or> (length (members ?ag) \<le> MAX_AGENT_ENTRIES \<and> (\<exists>k3. strict_agents (members ?ag) [] = (Inr shares, k3)))"
    using assms r p by (auto simp: budget_of_def Let_def not_less split: if_splits prod.splits sum.splits)
  have "(\<forall>(agent, a) \<in> set shares. AGENT_ID agent \<and> bounded_amounts a) \<and> length shares \<le> MAX_AGENT_ENTRIES"
    using s strict_agents_bounded [of "members ?ag" "[]" shares] by (fastforce simp: MAX_AGENT_ENTRIES_def)
  moreover have "\<forall>a \<in> set_option (some_amount request). bounded_amounts a"
    using r by (auto simp: some_amount_def dest: strictAmounts_bounded split: option.splits if_splits)
  moreover have "\<forall>a \<in> set_option (some_amount project). bounded_amounts a"
    using p by (auto simp: some_amount_def dest: strictAmounts_bounded split: option.splits if_splits)
  ultimately show ?thesis by (auto simp: b list_all_iff)
qed

text \<open>
   a repository's file is refused whole unless it is harmless. An accepted file is at most
  64 KiB, has no array, comment, negative, non-finite or exponent number and no key twice in one object, and
  every amount, agent id and the number of agents it proposes is within bounds.
\<close>

theorem accepted_budget_is_harmless:
  assumes "parseRepositoryBudget sha256 num_text visit json_parse text = Inr b"
  shows "utf8_length text \<le> MAX_BUDGET_FILE_BYTES
    \<and> list_all harmless (visit text) \<and> no_duplicate_keys [] (visit text)
    \<and> (\<forall>a \<in> set_option (rb_request b) \<union> set_option (rb_project b) \<union> set (js_values (rb_agents b)). bounded_amounts a)
    \<and> list_all AGENT_ID (js_keys (rb_agents b)) \<and> length (rb_agents b) \<le> MAX_AGENT_ENTRIES"
proof -
  let ?s = "fold on_visit (visit text) \<lparr>vs_errors = [], vs_stack = [], vs_failure = None\<rparr>"
  have "vs_errors ?s = []" "vs_failure ?s = None" and size: "utf8_length text \<le> MAX_BUDGET_FILE_BYTES"
    using assms by (auto simp: parseRepositoryBudget_def Let_def split: if_splits list.splits option.splits)
  then have "list_all harmless (visit text) \<and> no_duplicate_keys [] (visit text)"
    using visit_harmless [of "visit text" "\<lparr>vs_errors = [], vs_stack = [], vs_failure = None\<rparr>" "[]"] by simp
  moreover obtain v where "budget_of sha256 num_text v = Inr b"
    using assms by (auto simp: parseRepositoryBudget_def Let_def split: if_splits list.splits option.splits)
  ultimately show ?thesis using size budget_of_bounded by blast
qed

definition budget_value :: js_value where
  "budget_value = JObject [(''schemaVersion'', JNum (Fin 1)),
     (''max'', JObject [(''request'', JObject [(''usd'', JString ''2'')])])]"

theorem accepted_budget_is_harmless_witness:
  "list_all harmless [ObjectBegin, ObjectProperty ''schemaVersion'', LiteralNumber (Fin 1) ''1'', ObjectProperty ''max'',
     ObjectBegin, ObjectProperty ''request'', ObjectBegin, ObjectProperty ''usd'', LiteralOther, ObjectEnd, ObjectEnd, ObjectEnd]"
proof -
  let ?visit = "\<lambda>_. [ObjectBegin, ObjectProperty ''schemaVersion'', LiteralNumber (Fin 1) ''1'', ObjectProperty ''max'',
     ObjectBegin, ObjectProperty ''request'', ObjectBegin, ObjectProperty ''usd'', LiteralOther, ObjectEnd, ObjectEnd, ObjectEnd]"
  have "case parseRepositoryBudget (\<lambda>_. ''d'') (\<lambda>_. ''1'') ?visit (\<lambda>_. Some budget_value) ''{}'' of Inl _ \<Rightarrow> False | Inr _ \<Rightarrow> True"
    by code_simp
  then obtain b where "parseRepositoryBudget (\<lambda>_. ''d'') (\<lambda>_. ''1'') ?visit (\<lambda>_. Some budget_value) ''{}'' = Inr b"
    by (auto split: sum.splits)
  from accepted_budget_is_harmless [OF this] show ?thesis by blast
qed

end
