(* ===== verification/PriceResolver.thy ===== *)
theory PriceResolver
  imports PriceCatalog SpendTargets
begin

text \<open>
  Price resolution and reminder eligibility (\<open>src/models/spend/PriceResolver.ts\<close>): which source
  prices a usage unit for display, which one may drive a dollar reminder, and the candidates a user
  table and a gateway snapshot offer.

  A price list or a settings value that is not an object offers nothing. Amounts are
  \<^typ>\<open>int\<close> nano-dollars; \<open>num_text\<close> and \<open>date_parse\<close> as in the spend types.
\<close>

subsection \<open>Modes and candidates\<close>

definition isStoredReferencePriceMode :: "js_value \<Rightarrow> bool" where
  "isStoredReferencePriceMode = text_such (\<lambda>s. s \<in> {''unselected'', ''unode'', ''roam'', ''token-only''})"

definition displayReferenceProvider :: "reference_mode \<Rightarrow> reference_provider" where
  "displayReferenceProvider mode = (if mode = RoamMode then RoamProvider else UnodeProvider)"

fun reminderReferenceProvider :: "reference_mode \<Rightarrow> reference_provider option" where
  "reminderReferenceProvider UnodeMode = Some UnodeProvider"
| "reminderReferenceProvider RoamMode = Some RoamProvider"
| "reminderReferenceProvider _ = None"

record price_candidate =
  cd_basis :: cost_basis
  cd_sourceId :: string
  cd_sourceDate :: "string option"
  cd_rates :: nano_rates
  cd_displayOnly :: bool
  cd_stale :: bool

datatype route = Gateway | Subscription

record pinned_price =
  pin_route :: route
  pin_display :: "price_candidate option"
  pin_reminder :: "price_candidate option"
  pin_apiEquivalent :: "price_candidate option"

definition ACCOUNT_BASES :: "cost_basis list" where
  "ACCOUNT_BASES = [AccountCoefficient, AccountGroup, AuthenticatedAccount]"

definition EXACT_ROUTE_BASES :: "cost_basis list" where
  "EXACT_ROUTE_BASES = UserModelOverride # ACCOUNT_BASES"

definition isAccountBasis :: "cost_basis \<Rightarrow> bool" where
  "isAccountBasis b \<longleftrightarrow> b \<in> set ACCOUNT_BASES"

definition isExactRouteBasis :: "cost_basis \<Rightarrow> bool" where
  "isExactRouteBasis b \<longleftrightarrow> b \<in> set EXACT_ROUTE_BASES"

record reference_catalogs =
  rc_unode :: "price_catalog option"
  rc_roam :: "price_catalog option"

definition referenceCandidate :: "(string \<Rightarrow> int option) \<Rightarrow> reference_catalogs \<Rightarrow> reference_provider \<Rightarrow> string
    \<Rightarrow> int \<Rightarrow> price_candidate option" where
  "referenceCandidate date_parse catalogs provider modelId now =
     (case (case provider of UnodeProvider \<Rightarrow> rc_unode catalogs | RoamProvider \<Rightarrow> rc_roam catalogs) of
        None \<Rightarrow> None
      | Some catalog \<Rightarrow>
          (case lookupCatalogModel catalog modelId of
             None \<Rightarrow> None
           | Some (_, rates) \<Rightarrow> Some
               \<lparr>cd_basis = (case provider of UnodeProvider \<Rightarrow> UnodeReference | RoamProvider \<Rightarrow> RoamReference),
                cd_sourceId = pc_catalogId catalog, cd_sourceDate = Some (pc_capturedAt catalog), cd_rates = rates,
                cd_displayOnly = False, cd_stale = catalogIsStale date_parse catalog now\<rparr>))"

subsection \<open>Pinning\<close>

text \<open>\<open>ROUTE_ORDER\<close>; the three bases no candidate has are placed last.\<close>

fun ROUTE_ORDER :: "cost_basis \<Rightarrow> nat" where
  "ROUTE_ORDER UserModelOverride = 2"
| "ROUTE_ORDER AccountCoefficient = 3"
| "ROUTE_ORDER AccountGroup = 4"
| "ROUTE_ORDER AuthenticatedAccount = 5"
| "ROUTE_ORDER GatewayPublished = 6"
| "ROUTE_ORDER UnodeReference = 7"
| "ROUTE_ORDER RoamReference = 7"
| "ROUTE_ORDER _ = 8"

record pin_inputs =
  pi_route :: route
  pi_modelId :: string
  pi_routeCandidates :: "price_candidate list"
  pi_referenceMode :: reference_mode
  pi_catalogs :: reference_catalogs
  pi_now :: int

definition pinPrice :: "(string \<Rightarrow> int option) \<Rightarrow> pin_inputs \<Rightarrow> pinned_price" where
  "pinPrice date_parse i =
     (let reference = (\<lambda>p. referenceCandidate date_parse (pi_catalogs i) p (pi_modelId i) (pi_now i))
      in case pi_route i of
           Subscription \<Rightarrow> \<lparr>pin_route = Subscription, pin_display = None, pin_reminder = None,
             pin_apiEquivalent = reference (displayReferenceProvider (pi_referenceMode i))\<rparr>
         | Gateway \<Rightarrow>
             let ordered = sort_key (\<lambda>c. ROUTE_ORDER (cd_basis c)) (pi_routeCandidates i);
                 displayReference = reference (displayReferenceProvider (pi_referenceMode i));
                 selectedReference = Option.bind (reminderReferenceProvider (pi_referenceMode i)) reference
             in \<lparr>pin_route = Gateway,
                 pin_display = (case ordered of c # _ \<Rightarrow> Some c | [] \<Rightarrow> displayReference),
                 pin_reminder = or_else (find (\<lambda>c. \<not> cd_displayOnly c \<and> isExactRouteBasis (cd_basis c)) ordered)
                   selectedReference,
                 pin_apiEquivalent = None\<rparr>)"

definition pinHasReminderDollars :: "pinned_price \<Rightarrow> bool" where
  "pinHasReminderDollars pin \<longleftrightarrow> pin_reminder pin \<noteq> None"

subsection \<open>Pricing\<close>

record priced_usage =
  pu_displayCost :: display_cost
  pu_reminderValue :: reminder_value

definition displayFrom :: "price_candidate \<Rightarrow> int \<Rightarrow> cost_basis option \<Rightarrow> display_cost" where
  "displayFrom c nano basisOverride =
     Priced (nanoToString nano) (case basisOverride of Some b \<Rightarrow> b | None \<Rightarrow> cd_basis c) (cd_sourceId c)
       (cd_sourceDate c) (cd_stale c)"

datatype reported_basis = ReportedBilled | ReportedApiEquivalent

text \<open>
  The figure of a usage unit: finite numbers, which \<open>BigInt\<close> needs. \<open>reported\<close> is the
  provider's own cost, \<open>costUsd\<close> with its basis, where it gives one.
\<close>

record usage_figure =
  uf_input :: rat
  uf_cachedInput :: "rat option"
  uf_output :: rat
  uf_basis :: token_basis

definition whole :: "rat \<Rightarrow> nat" where
  "whole q = nat (max 0 (floor q))"

definition token_counts_of :: "usage_figure \<Rightarrow> token_counts" where
  "token_counts_of t = \<lparr>tc_input = Fin (uf_input t), tc_cachedInput = map_option Fin (uf_cachedInput t),
     tc_output = Fin (uf_output t)\<rparr>"

definition cost_of :: "usage_figure \<Rightarrow> nano_rates \<Rightarrow> int" where
  "cost_of t rates = the (costNano (token_counts_of t) rates)"

definition priceUsage :: "(rat \<Rightarrow> string) \<Rightarrow> pinned_price \<Rightarrow> usage_figure \<Rightarrow> (js_num option \<times> reported_basis option) option
    \<Rightarrow> priced_usage" where
  "priceUsage num_text pin tokens reported =
     (let eligibleTokens = (uf_basis tokens = Reported);
          tokenTotal = whole (uf_input tokens) + whole (uf_output tokens);
          cost = (case reported of Some (Some x, _) \<Rightarrow> billedUsdToNano num_text (JNum x) | _ \<Rightarrow> None);
          is_api = (case reported of Some (_, Some ReportedApiEquivalent) \<Rightarrow> True | _ \<Rightarrow> False);
          billedNano = (if is_api then None else cost);
          apiEquivalentNano = (if is_api then cost else None);
          tokens_only = (if eligibleTokens
            then \<lparr>rv_tokens = Some tokenTotal, rv_nanoUsd = None, rv_basis = ReportedTokens\<rparr> else not_eligible)
      in case billedNano of
           Some nano \<Rightarrow>
             \<lparr>pu_displayCost = Priced (nanoToString nano) Billed ''provider-billed'' None False,
              pu_reminderValue = (if eligibleTokens
                then \<lparr>rv_tokens = Some tokenTotal, rv_nanoUsd = Some (nanoToString nano), rv_basis = ByBilled\<rparr>
                else not_eligible)\<rparr>
         | None \<Rightarrow>
             (case pin_route pin of
                Subscription \<Rightarrow>
                  \<lparr>pu_displayCost = (case apiEquivalentNano of
                      Some nano \<Rightarrow> Priced (nanoToString nano) ApiEquivalent ''provider-reported'' None False
                    | None \<Rightarrow> (case pin_apiEquivalent pin of
                        Some c \<Rightarrow> displayFrom c (cost_of tokens (cd_rates c)) (Some ApiEquivalent)
                      | None \<Rightarrow> CostUnavailable)),
                   pu_reminderValue = tokens_only\<rparr>
              | Gateway \<Rightarrow>
                  let displayCost = (case pin_display pin of
                        Some c \<Rightarrow> displayFrom c (cost_of tokens (cd_rates c)) None
                      | None \<Rightarrow> CostUnavailable)
                  in \<lparr>pu_displayCost = displayCost,
                      pu_reminderValue =
                        (if \<not> eligibleTokens then not_eligible
                         else case pin_reminder pin of
                             Some c \<Rightarrow> \<lparr>rv_tokens = Some tokenTotal,
                               rv_nanoUsd = Some (nanoToString (cost_of tokens (cd_rates c))),
                               rv_basis = (if isExactRouteBasis (cd_basis c) then ByExactRoute else BySelectedReference)\<rparr>
                           | None \<Rightarrow> tokens_only)\<rparr>))"

definition costBasisLabel :: "cost_basis \<Rightarrow> string option \<Rightarrow> string" where
  "costBasisLabel basis connectionName =
     (let account = (case connectionName of Some n \<Rightarrow> if n = [] then ''account estimate'' else n @ '' account estimate''
            | None \<Rightarrow> ''account estimate'')
      in case basis of
           Billed \<Rightarrow> ''billed by the provider''
         | UserModelOverride \<Rightarrow> ''user-configured model price''
         | AccountCoefficient \<Rightarrow> account
         | AccountGroup \<Rightarrow> account
         | AuthenticatedAccount \<Rightarrow> account
         | GatewayPublished \<Rightarrow> ''gateway published estimate''
         | UnodeReference \<Rightarrow> ''Unode reference estimate''
         | RoamReference \<Rightarrow> ''Roam reference estimate''
         | ApiEquivalent \<Rightarrow> ''API-equivalent (subscription)''
         | UnavailableBasis \<Rightarrow> ''price unavailable'')"

subsection \<open>The user's price table\<close>

definition usdPerMillionToNano :: "(rat \<Rightarrow> string) \<Rightarrow> js_value \<Rightarrow> int option" where
  "usdPerMillionToNano num_text v = (case v of
       JNum (Fin q) \<Rightarrow> if q \<ge> 0 then billedUsdToNano num_text v else None
     | _ \<Rightarrow> None)"

definition table_rates :: "(rat \<Rightarrow> string) \<Rightarrow> js_value \<Rightarrow> nano_rates option" where
  "table_rates num_text entry =
     (case (usdPerMillionToNano num_text (prop_of entry ''input''), usdPerMillionToNano num_text (prop_of entry ''output'')) of
        (Some i, Some out) \<Rightarrow> Some \<lparr>r_input = i, r_output = out,
          r_cachedInput = usdPerMillionToNano num_text (prop_of entry ''cachedInput'')\<rparr>
      | _ \<Rightarrow> None)"

definition norm_key :: "string \<Rightarrow> string" where
  "norm_key k = js_lower (js_trim k)"

definition fuzzy_match :: "string \<Rightarrow> string \<Rightarrow> bool" where
  "fuzzy_match wanted key =
     (let k = norm_key key in
      case (if k = [] then None else index_of wanted k) of
        None \<Rightarrow> False
      | Some i \<Rightarrow>
          (case drop (i + length k) wanted of
             [] \<Rightarrow> True
           | c # _ \<Rightarrow> \<not> (c = CHR ''.'' \<or> is_digit c)))"

definition userOverrideCandidate :: "(rat \<Rightarrow> string) \<Rightarrow> js_value \<Rightarrow> string \<Rightarrow> price_candidate option" where
  "userOverrideCandidate num_text raw modelId =
     (let table = members raw; wanted = norm_key modelId; keys = map fst table;
          found = (\<lambda>source rates only. \<lparr>cd_basis = UserModelOverride, cd_sourceId = source, cd_sourceDate = None,
             cd_rates = rates, cd_displayOnly = only, cd_stale = False\<rparr>)
      in if wanted = [] then None
         else case find (\<lambda>k. norm_key k = wanted) keys of
             Some k \<Rightarrow> map_option (\<lambda>r. found ''user-model-prices'' r False) (table_rates num_text (member_of table k))
           | None \<Rightarrow>
               (case sort_key (\<lambda>k. - int (length k)) (filter (fuzzy_match wanted) keys) of
                  [] \<Rightarrow> None
                | k # _ \<Rightarrow> map_option (\<lambda>r. found ''user-model-prices-approximate'' r True)
                     (table_rates num_text (member_of table k))))"

subsection \<open>Gateway snapshots\<close>

record gateway_snapshot =
  gs_sourceId :: string
  gs_connectionId :: string
  gs_capturedAt :: string
  gs_baseRows :: "(string \<times> nano_rates) list"
  gs_groupRatios :: "(string, string) jsmap"
  gs_credentialBoundGroup :: "string option"
  gs_fresh :: bool
  gs_authenticated :: bool

definition scaleRates :: "(rat \<Rightarrow> string) \<Rightarrow> nano_rates \<Rightarrow> js_value \<Rightarrow> nano_rates option" where
  "scaleRates num_text rates ratio =
     (case (scaleNano num_text (r_input rates) ratio, scaleNano num_text (r_output rates) ratio) of
        (Some i, Some out) \<Rightarrow> Some \<lparr>r_input = i, r_output = out,
          r_cachedInput = Option.bind (r_cachedInput rates) (\<lambda>c. scaleNano num_text c ratio)\<rparr>
      | _ \<Rightarrow> None)"

text \<open>\<open>/^\d+(?:\.\d+)?$/\<close>\<close>

definition validRatio :: "string option \<Rightarrow> bool" where
  "validRatio v = (case v of
       None \<Rightarrow> False
     | Some s \<Rightarrow> (case match_decimal s of Some (_, _, e) \<Rightarrow> list_all (\<lambda>c. is_digit c \<or> c = CHR ''.'') s | None \<Rightarrow> False))"

text \<open>\<open>coefficient\<close> and \<open>stated_group\<close> are what the user stated for the connection.\<close>

definition snapshot_candidate :: "gateway_snapshot \<Rightarrow> cost_basis \<Rightarrow> string \<Rightarrow> nano_rates option \<Rightarrow> price_candidate list" where
  "snapshot_candidate s basis suffix r = (case r of
       None \<Rightarrow> []
     | Some rates \<Rightarrow> [\<lparr>cd_basis = basis, cd_sourceId = gs_sourceId s @ suffix, cd_sourceDate = Some (gs_capturedAt s),
         cd_rates = rates, cd_displayOnly = \<not> gs_fresh s, cd_stale = \<not> gs_fresh s\<rparr>])"

definition group_rates :: "(rat \<Rightarrow> string) \<Rightarrow> gateway_snapshot \<Rightarrow> nano_rates \<Rightarrow> string \<Rightarrow> nano_rates option" where
  "group_rates num_text s base g =
     (let ratio = js_get (gs_groupRatios s) g
      in if validRatio ratio then scaleRates num_text base (JString (the ratio)) else None)"

text \<open>The one discount that applies: the coefficient, else the stated group, else the bound group.\<close>

definition discount_candidate :: "(rat \<Rightarrow> string) \<Rightarrow> gateway_snapshot \<Rightarrow> nano_rates \<Rightarrow> nano_rates option \<Rightarrow> js_num option
    \<Rightarrow> string option \<Rightarrow> price_candidate list" where
  "discount_candidate num_text s base published coefficient stated_group =
     (let by_bound = (case gs_credentialBoundGroup s of
            Some b \<Rightarrow> if b \<noteq> [] then snapshot_candidate s AuthenticatedAccount '':bound'' (group_rates num_text s base b) else []
          | None \<Rightarrow> []);
          by_group = (case map_option js_trim stated_group of
            Some g \<Rightarrow> if g \<noteq> [] then snapshot_candidate s AccountGroup '':group'' (group_rates num_text s base g) else by_bound
          | None \<Rightarrow> by_bound)
      in case (coefficient, published) of
           (Some (Fin q), Some rates) \<Rightarrow>
             if q \<ge> 0 then snapshot_candidate s AccountCoefficient '':coefficient'' (scaleRates num_text rates (JNum (Fin q)))
             else by_group
         | _ \<Rightarrow> by_group)"

definition gatewayCandidates :: "(rat \<Rightarrow> string) \<Rightarrow> gateway_snapshot \<Rightarrow> string \<Rightarrow> js_num option \<Rightarrow> string option
    \<Rightarrow> price_candidate list" where
  "gatewayCandidates num_text s modelId coefficient stated_group =
     (case or_else (find (\<lambda>(m, _). m = js_trim modelId) (gs_baseRows s))
             (find (\<lambda>(m, _). js_lower m = norm_key modelId) (gs_baseRows s)) of
        None \<Rightarrow> []
      | Some (_, base) \<Rightarrow>
          let r = js_get (gs_groupRatios s) ''default'';
              defaultRatio = (if validRatio r then the r else ''1'');
              published = scaleRates num_text base (JString defaultRatio)
          in snapshot_candidate s GatewayPublished '':published'' published
             @ discount_candidate num_text s base published coefficient stated_group)"

definition gatewaySnapshotFromPricing :: "(rat \<Rightarrow> string) \<Rightarrow> js_value \<Rightarrow> string \<Rightarrow> string \<Rightarrow> string \<Rightarrow> bool \<Rightarrow> bool option
    \<Rightarrow> gateway_snapshot" where
  "gatewaySnapshotFromPricing num_text body sourceId connectionId capturedAt authenticated fresh =
     \<lparr>gs_sourceId = sourceId, gs_connectionId = connectionId, gs_capturedAt = capturedAt,
      gs_baseRows = map (\<lambda>m. (cm_modelId m, rates_of m)) (ratesFromNewApiPricing num_text body False),
      gs_groupRatios = groupRatiosFromNewApiPricing num_text body,
      gs_credentialBoundGroup = (if authenticated then credentialBoundGroupFromPricing body else None),
      gs_fresh = (fresh \<noteq> Some False), gs_authenticated = authenticated\<rparr>"

subsection \<open>Where a reminder's dollars come from\<close>

lemma find_some: "find P xs = Some x \<Longrightarrow> x \<in> set xs \<and> P x"
  by (metis find_Some_iff nth_mem)

lemma pinPrice_reminder:
  assumes "pin_reminder (pinPrice date_parse i) = Some c"
  shows "pi_route i = Gateway
    \<and> (c \<in> set (pi_routeCandidates i) \<and> \<not> cd_displayOnly c \<and> isExactRouteBasis (cd_basis c)
       \<or> (\<exists>p. reminderReferenceProvider (pi_referenceMode i) = Some p
            \<and> referenceCandidate date_parse (pi_catalogs i) p (pi_modelId i) (pi_now i) = Some c))"
  using assms by (auto simp: pinPrice_def or_else_def Let_def bind_eq_Some_conv split: route.splits option.splits dest!: find_some)

text \<open>
   dollars reach a reminder only with authority. When a priced usage carries reminder dollars its
  tokens were reported, and the amount is either the provider's own billed cost, not labelled as an
  API equivalent, or the cost at the pinned source, which is a candidate of the exact route that is
  not display-only or the reference catalog the person selected explicitly; a subscription route
  never has one.
\<close>

theorem reminder_dollars_need_authority:
  assumes "rv_nanoUsd (pu_reminderValue (priceUsage num_text (pinPrice date_parse i) t reported)) = Some n"
  shows "uf_basis t = Reported
    \<and> ((\<exists>x b nano. reported = Some (Some x, b) \<and> b \<noteq> Some ReportedApiEquivalent
          \<and> billedUsdToNano num_text (JNum x) = Some nano \<and> n = nanoToString nano)
       \<or> (\<exists>c. pi_route i = Gateway \<and> n = nanoToString (cost_of t (cd_rates c))
            \<and> (c \<in> set (pi_routeCandidates i) \<and> \<not> cd_displayOnly c \<and> isExactRouteBasis (cd_basis c)
               \<or> (\<exists>p. reminderReferenceProvider (pi_referenceMode i) = Some p
                    \<and> referenceCandidate date_parse (pi_catalogs i) p (pi_modelId i) (pi_now i) = Some c))))"
proof -
  let ?pin = "pinPrice date_parse i"
  let ?billed = "case reported of Some (Some x, b) \<Rightarrow> if b = Some ReportedApiEquivalent then None else billedUsdToNano num_text (JNum x) | _ \<Rightarrow> None"
  have rep: "uf_basis t = Reported"
    using assms by (auto simp: priceUsage_def not_eligible_def Let_def split: option.splits route.splits if_splits)
  show ?thesis
  proof (cases ?billed)
    case (Some nano)
    then obtain x b where "reported = Some (Some x, b)" "b \<noteq> Some ReportedApiEquivalent" "billedUsdToNano num_text (JNum x) = Some nano"
      by (auto split: option.splits if_splits)
    moreover from this have "n = nanoToString nano"
      using assms rep by (auto simp: priceUsage_def Let_def split: option.splits reported_basis.splits)
    ultimately show ?thesis using rep by blast
  next
    case None
    then have "rv_nanoUsd (pu_reminderValue (priceUsage num_text ?pin t reported)) =
        (case pin_route ?pin of Subscription \<Rightarrow> None
         | Gateway \<Rightarrow> map_option (\<lambda>c. nanoToString (cost_of t (cd_rates c))) (pin_reminder ?pin))"
      using rep by (auto simp: priceUsage_def Let_def split: option.splits route.splits reported_basis.splits if_splits)
    with assms obtain c where "pin_reminder ?pin = Some c" "n = nanoToString (cost_of t (cd_rates c))"
      by (auto split: route.splits)
    with pinPrice_reminder [OF this(1)] rep show ?thesis by blast
  qed
qed

text \<open>
  The price shown is the best one there is. A gateway route with candidates shows one of them,
  and no candidate comes earlier in the order of sources.
\<close>

theorem display_takes_the_first_source:
  assumes "pi_route i = Gateway" and "c \<in> set (pi_routeCandidates i)"
  shows "\<exists>d. pin_display (pinPrice date_parse i) = Some d \<and> d \<in> set (pi_routeCandidates i)
    \<and> ROUTE_ORDER (cd_basis d) \<le> ROUTE_ORDER (cd_basis c)"
proof -
  let ?f = "\<lambda>c. ROUTE_ORDER (cd_basis c)" and ?cs = "pi_routeCandidates i"
  obtain d ds where d: "sort_key ?f ?cs = d # ds" using assms(2) by (metis empty_iff list.exhaust set_empty set_sort)
  have "sorted (map ?f (d # ds))" using d sorted_sort_key [of ?f ?cs] by simp
  moreover have "c \<in> set (d # ds)" "d \<in> set ?cs" using assms(2) d by (metis set_sort, metis list.set_intros(1) set_sort)
  ultimately have "?f d \<le> ?f c" "d \<in> set ?cs" by auto
  then show ?thesis using assms(1) d by (simp add: pinPrice_def Let_def)
qed

definition account_candidates :: "price_candidate list \<Rightarrow> price_candidate list" where
  "account_candidates = filter (\<lambda>c. isAccountBasis (cd_basis c))"

definition one_account :: "gateway_snapshot \<Rightarrow> price_candidate list \<Rightarrow> bool" where
  "one_account s cs \<longleftrightarrow> cs = [] \<or> (\<exists>basis suffix r. cs = snapshot_candidate s basis suffix r
     \<and> isAccountBasis basis \<and> (basis = AuthenticatedAccount \<longrightarrow> gs_credentialBoundGroup s \<noteq> None))"

lemma one_account_intros:
  "one_account s []" "one_account s (snapshot_candidate s AccountCoefficient suffix r)"
  "one_account s (snapshot_candidate s AccountGroup suffix r)"
  "gs_credentialBoundGroup s \<noteq> None \<Longrightarrow> one_account s (snapshot_candidate s AuthenticatedAccount suffix r)"
  unfolding one_account_def isAccountBasis_def ACCOUNT_BASES_def by (simp, fastforce+)

lemma discount_candidate_cases: "one_account s (discount_candidate num_text s base published coefficient grp)"
proof -
  let ?bound = "case gs_credentialBoundGroup s of
      Some b \<Rightarrow> if b \<noteq> [] then snapshot_candidate s AuthenticatedAccount '':bound'' (group_rates num_text s base b) else []
    | None \<Rightarrow> []"
  let ?group = "case map_option js_trim grp of
      Some g \<Rightarrow> if g \<noteq> [] then snapshot_candidate s AccountGroup '':group'' (group_rates num_text s base g) else ?bound
    | None \<Rightarrow> ?bound"
  have "one_account s ?bound" by (simp add: one_account_intros split: option.split)
  then have group: "one_account s ?group" by (cases grp) (simp_all add: one_account_intros)
  have "discount_candidate num_text s base published coefficient grp = ?group
    \<or> (\<exists>r. discount_candidate num_text s base published coefficient grp = snapshot_candidate s AccountCoefficient '':coefficient'' r)"
  proof -
    have "(case (coefficient, published) of
           (Some (Fin q), Some rates) \<Rightarrow>
             if q \<ge> 0 then snapshot_candidate s AccountCoefficient '':coefficient'' (scaleRates num_text rates (JNum (Fin q)))
             else G
         | _ \<Rightarrow> G) = G
      \<or> (\<exists>r. (case (coefficient, published) of
           (Some (Fin q), Some rates) \<Rightarrow>
             if q \<ge> 0 then snapshot_candidate s AccountCoefficient '':coefficient'' (scaleRates num_text rates (JNum (Fin q)))
             else G
         | _ \<Rightarrow> G) = snapshot_candidate s AccountCoefficient '':coefficient'' r)" for G
    proof (cases coefficient)
      case (Some x)
      then show ?thesis by (cases x; cases published) auto
    qed simp
    then show ?thesis by (simp only: discount_candidate_def Let_def)
  qed
  then show ?thesis
  proof
    assume "discount_candidate num_text s base published coefficient grp = ?group"
    then show ?thesis using group by (rule ssubst)
  next
    assume "\<exists>r. discount_candidate num_text s base published coefficient grp = snapshot_candidate s AccountCoefficient '':coefficient'' r"
    then show ?thesis using one_account_intros(2) by (elim exE) (erule ssubst)
  qed
qed

text \<open>
  Exactly one discount can apply. A gateway snapshot offers the published price and at most one
  account price; every one of them is display-only exactly when the snapshot is stale, and a
  bound-group price needs a group the response bound to the credential.
\<close>

theorem at_most_one_discount_basis:
  "length (account_candidates (gatewayCandidates num_text s modelId coefficient grp)) \<le> 1
   \<and> list_all (\<lambda>c. (cd_basis c = GatewayPublished \<or> isAccountBasis (cd_basis c))
      \<and> (cd_displayOnly c \<longleftrightarrow> \<not> gs_fresh s)
      \<and> (cd_basis c = AuthenticatedAccount \<longrightarrow> gs_credentialBoundGroup s \<noteq> None))
     (gatewayCandidates num_text s modelId coefficient grp)"
proof -
  have pub: "\<not> isAccountBasis GatewayPublished" by (simp add: isAccountBasis_def ACCOUNT_BASES_def)
  obtain out rest where split: "gatewayCandidates num_text s modelId coefficient grp = out @ rest"
    and out: "out = [] \<or> (\<exists>r. out = snapshot_candidate s GatewayPublished '':published'' r)"
    and rest: "one_account s rest"
  proof (cases "or_else (find (\<lambda>(m, _). m = js_trim modelId) (gs_baseRows s))
             (find (\<lambda>(m, _). js_lower m = norm_key modelId) (gs_baseRows s))")
    case None
    then have "gatewayCandidates num_text s modelId coefficient grp = [] @ []" by (simp add: gatewayCandidates_def)
    then show ?thesis by (rule that) (simp_all add: one_account_intros)
  next
    case (Some row)
    then have "\<exists>published base. gatewayCandidates num_text s modelId coefficient grp =
        snapshot_candidate s GatewayPublished '':published'' published
        @ discount_candidate num_text s base published coefficient grp"
      by (cases row) (auto simp: gatewayCandidates_def Let_def)
    then show ?thesis using that discount_candidate_cases by blast
  qed
  from out have "account_candidates out = [] \<and> list_all (\<lambda>c. cd_basis c = GatewayPublished \<and> (cd_displayOnly c \<longleftrightarrow> \<not> gs_fresh s)) out"
    using pub by (auto simp: snapshot_candidate_def account_candidates_def split: option.split)
  moreover from rest have "length (account_candidates rest) \<le> 1 \<and> list_all (\<lambda>c. isAccountBasis (cd_basis c)
      \<and> (cd_displayOnly c \<longleftrightarrow> \<not> gs_fresh s)
      \<and> (cd_basis c = AuthenticatedAccount \<longrightarrow> gs_credentialBoundGroup s \<noteq> None)) rest"
    by (auto simp: one_account_def snapshot_candidate_def account_candidates_def split: option.split)
  ultimately show ?thesis unfolding split
    by (auto simp: account_candidates_def list_all_iff)
qed

subsection \<open>Concrete prices\<close>

definition cand :: "cost_basis \<Rightarrow> price_candidate" where
  "cand b = \<lparr>cd_basis = b, cd_sourceId = ''s'', cd_sourceDate = None,
     cd_rates = \<lparr>r_input = 2000000, r_output = 3000000, r_cachedInput = None\<rparr>, cd_displayOnly = False, cd_stale = False\<rparr>"

definition sample_inputs :: pin_inputs where
  "sample_inputs = \<lparr>pi_route = Gateway, pi_modelId = ''m'', pi_routeCandidates = [cand GatewayPublished, cand AccountGroup],
     pi_referenceMode = Unselected, pi_catalogs = \<lparr>rc_unode = None, rc_roam = None\<rparr>, pi_now = 0\<rparr>"

theorem reminder_dollars_need_authority_witness:
  "uf_basis \<lparr>uf_input = 10, uf_cachedInput = None, uf_output = 1, uf_basis = Reported\<rparr> = Reported
   \<and> rv_nanoUsd (pu_reminderValue (priceUsage (\<lambda>_. []) (pinPrice (\<lambda>_. None) sample_inputs)
        \<lparr>uf_input = 10, uf_cachedInput = None, uf_output = 1, uf_basis = Reported\<rparr> None)) = Some ''23''"
proof -
  have r: "rv_nanoUsd (pu_reminderValue (priceUsage (\<lambda>_. []) (pinPrice (\<lambda>_. None) sample_inputs)
        \<lparr>uf_input = 10, uf_cachedInput = None, uf_output = 1, uf_basis = Reported\<rparr> None)) = Some ''23''"
    by code_simp
  show ?thesis using r reminder_dollars_need_authority [OF r] by blast
qed

theorem display_takes_the_first_source_witness:
  "\<exists>d. pin_display (pinPrice (\<lambda>_. None) sample_inputs) = Some d \<and> ROUTE_ORDER (cd_basis d) \<le> 4"
proof -
  have i: "pi_route sample_inputs = Gateway" "cand AccountGroup \<in> set (pi_routeCandidates sample_inputs)"
    by (simp_all add: sample_inputs_def)
  show ?thesis using display_takes_the_first_source [OF i] by (auto simp: cand_def)
qed

definition sample_snapshot :: gateway_snapshot where
  "sample_snapshot = \<lparr>gs_sourceId = ''s'', gs_connectionId = ''c'', gs_capturedAt = ''2025-01-01'',
     gs_baseRows = [(''m'', \<lparr>r_input = 2000000, r_output = 3000000, r_cachedInput = None\<rparr>)],
     gs_groupRatios = [(''default'', ''1''), (''vip'', ''0.5'')], gs_credentialBoundGroup = Some ''vip'',
     gs_fresh = True, gs_authenticated = True\<rparr>"

theorem at_most_one_discount_basis_witness:
  "map cd_basis (gatewayCandidates (\<lambda>_. []) sample_snapshot ''M'' None None) = [GatewayPublished, AuthenticatedAccount]
   \<and> length (account_candidates (gatewayCandidates (\<lambda>_. []) sample_snapshot ''M'' None None)) = 1"
proof -
  let ?cs = "gatewayCandidates (\<lambda>_. []) sample_snapshot ''M'' None None"
  have c: "map cd_basis ?cs = [GatewayPublished, AuthenticatedAccount]" by code_simp
  have "account_candidates ?cs \<noteq> []" by code_simp
  moreover have "length (account_candidates ?cs) \<le> 1" using at_most_one_discount_basis by blast
  ultimately have "length (account_candidates ?cs) = 1" by (cases "account_candidates ?cs") auto
  with c show ?thesis by blast
qed

end
