(* ===== verification/SpendAggregate.thy ===== *)
theory SpendAggregate
  imports SpendTargets "HOL-Library.Product_Lexorder"
begin

text \<open>
  Spend aggregation (\<open>src/models/spend/SpendAggregate.ts\<close>): durable events and the control file
  in, totals and threshold facts out. The one function of the code that aggregates is split at its own
  phases: copies of an event, the records of a unit, adjustments, and the contributions of each unit.

  Token counts are natural numbers and amounts of nano-dollars integers; a JavaScript sum of counts is
  exact as long as it stays below \<open>2 ^ 53\<close>. \<open>date_parse\<close>, \<open>zone_ok\<close> and
  \<open>format_day\<close> are the parameters of the spend types and targets.
\<close>

subsection \<open>Classes and contributions\<close>

datatype display_class =
    ClassBilled | ClassExactRoute | ClassSelectedReference | ClassReference | ClassPublished
  | ClassApiEquivalent | ClassReportedPartial | ClassReconstructed | ClassUnavailable

definition DISPLAY_CLASSES :: "display_class list" where
  "DISPLAY_CLASSES = [ClassBilled, ClassExactRoute, ClassSelectedReference, ClassReference, ClassPublished,
     ClassApiEquivalent, ClassReportedPartial, ClassReconstructed, ClassUnavailable]"

record contribution =
  cb_segment :: string
  cb_sequence :: nat
  cb_recordedAt :: string
  cb_requestId :: string
  cb_agentId :: string
  cb_usageUnitId :: string
  cb_displayClass :: display_class
  cb_displayTokens :: nat
  cb_inputTokens :: nat
  cb_cachedInputTokens :: nat
  cb_outputTokens :: nat
  cb_displayNano :: "int option"
  cb_reminderTokens :: nat
  cb_reminderNano :: int
  cb_unattributed :: bool

datatype unit_state = UnitOpen | UnitSettled | UnitGap

record unit_summary =
  us_id :: string
  us_request :: string
  us_agent :: string
  us_connection :: string
  us_model :: string
  us_attempts :: nat
  us_state :: unit_state
  us_firstRecordedAt :: string

record aggregate_result =
  ag_contributions :: "contribution list"
  ag_units :: "(string, unit_summary) jsmap"
  ag_quarantined :: "string list"
  ag_diagnostics :: "string list"
  ag_watermarks :: "(string, nat) jsmap"
  ag_firstRecordedAt :: "string option"

definition classOf :: "token_basis \<Rightarrow> cost_basis \<Rightarrow> reminder_value \<Rightarrow> display_class" where
  "classOf tokens displayBasis reminder =
     (if tokens = ReportedPartial then ClassReportedPartial
      else if tokens = Reconstructed \<or> tokens = TokensUnavailable then ClassReconstructed
      else case displayBasis of
          Billed \<Rightarrow> ClassBilled
        | UserModelOverride \<Rightarrow> ClassExactRoute
        | AccountCoefficient \<Rightarrow> ClassExactRoute
        | AccountGroup \<Rightarrow> ClassExactRoute
        | AuthenticatedAccount \<Rightarrow> ClassExactRoute
        | UnodeReference \<Rightarrow> if rv_basis reminder = BySelectedReference then ClassSelectedReference else ClassReference
        | RoamReference \<Rightarrow> if rv_basis reminder = BySelectedReference then ClassSelectedReference else ClassReference
        | GatewayPublished \<Rightarrow> ClassPublished
        | ApiEquivalent \<Rightarrow> ClassApiEquivalent
        | UnavailableBasis \<Rightarrow> ClassUnavailable)"

definition nano_of :: "string option \<Rightarrow> int option" where
  "nano_of s = (case s of None \<Rightarrow> None | Some t \<Rightarrow> parseNanoUsd (JString t))"

definition displayNanoOf :: "display_cost \<Rightarrow> int option" where
  "displayNanoOf c = (case c of CostUnavailable \<Rightarrow> None | Priced n _ _ _ _ \<Rightarrow> nano_of (Some n))"

text \<open>\<open>orderKey\<close>: by time, then segment, then sequence, as a linear order of its own.\<close>

datatype order_key = OrderKey (ok_time: int) (ok_segment: string) (ok_sequence: nat)

definition key_triple :: "order_key \<Rightarrow> int \<times> string \<times> nat" where
  "key_triple k = (ok_time k, ok_segment k, ok_sequence k)"

lemma key_triple_inject: "key_triple a = key_triple b \<Longrightarrow> a = b"
  by (cases a; cases b) (simp add: key_triple_def)

instantiation order_key :: linorder
begin

definition less_eq_order_key :: "order_key \<Rightarrow> order_key \<Rightarrow> bool" where
  "less_eq_order_key a b \<longleftrightarrow> key_triple a \<le> key_triple b"

definition less_order_key :: "order_key \<Rightarrow> order_key \<Rightarrow> bool" where
  "less_order_key a b \<longleftrightarrow> key_triple a < key_triple b"

instance
  by standard (auto simp: less_eq_order_key_def less_order_key_def intro: key_triple_inject)

end

definition time_of :: "(string \<Rightarrow> int option) \<Rightarrow> string \<Rightarrow> int" where
  "time_of date_parse s = (case date_parse s of Some t \<Rightarrow> t | None \<Rightarrow> 0)"

definition orderKey :: "(string \<Rightarrow> int option) \<Rightarrow> stored_event \<Rightarrow> order_key" where
  "orderKey date_parse s = OrderKey (time_of date_parse (ev_recordedAt (st_event s))) (st_segment s)
     (ev_sequence (st_event s))"

subsection \<open>Copies of one event\<close>

record dedup_state =
  dd_watermarks :: "(string, nat) jsmap"
  dd_firstRecordedAt :: "string option"
  dd_byId :: "(string, stored_event) jsmap"
  dd_quarantined :: "string list"
  dd_diagnostics :: "string list"

definition earlier :: "string option \<Rightarrow> string \<Rightarrow> string option" where
  "earlier first at_text = (case first of
       Some f \<Rightarrow> if f = [] \<or> at_text < f then Some at_text else Some f
     | None \<Rightarrow> Some at_text)"

definition note_copy :: "stored_event \<Rightarrow> dedup_state \<Rightarrow> dedup_state" where
  "note_copy s st =
     (let e = st_event s; seg = st_segment s;
          st1 = st\<lparr>dd_watermarks := js_set seg
                 (max (case js_get (dd_watermarks st) seg of Some n \<Rightarrow> n | None \<Rightarrow> 0) (ev_sequence e)) (dd_watermarks st),
               dd_firstRecordedAt := earlier (dd_firstRecordedAt st) (ev_recordedAt e)\<rparr>
      in case js_get (dd_byId st1) (ev_eventId e) of
           None \<Rightarrow> st1\<lparr>dd_byId := js_set (ev_eventId e) s (dd_byId st1)\<rparr>
         | Some prior \<Rightarrow>
             if eventIdentityPayload (st_event prior) \<noteq> eventIdentityPayload e
             then st1\<lparr>dd_quarantined := set_add (ev_eventId e) (dd_quarantined st1),
                 dd_diagnostics := dd_diagnostics st1 @
                   (if ev_eventId e \<in> set (dd_quarantined st1) then []
                    else [''Conflicting copies of '' @ ev_eventId e @ ''; excluded from reminder totals.''])\<rparr>
             else st1)"

definition dedup :: "stored_event list \<Rightarrow> dedup_state" where
  "dedup events = fold note_copy events
     \<lparr>dd_watermarks = [], dd_firstRecordedAt = None, dd_byId = [], dd_quarantined = [], dd_diagnostics = []\<rparr>"

subsection \<open>The records of a unit\<close>

record unit_build =
  ub_start :: "(stored_event \<times> unit_start) option"
  ub_progress :: "(stored_event \<times> usage_progress) list"
  ub_receipt :: "(stored_event \<times> usage_receipt) option"
  ub_gap :: bool
  ub_firstAt :: "string option"

definition no_unit :: unit_build where
  "no_unit = \<lparr>ub_start = None, ub_progress = [], ub_receipt = None, ub_gap = False, ub_firstAt = None\<rparr>"

record collect_state =
  cs_units :: "(string, unit_build) jsmap"
  cs_adjustments :: "(stored_event \<times> cost_adjustment) list"
  cs_quarantined :: "string list"
  cs_diagnostics :: "string list"

definition the_unit :: "(string, unit_build) jsmap \<Rightarrow> string \<Rightarrow> unit_build" where
  "the_unit units k = (case js_get units k of Some u \<Rightarrow> u | None \<Rightarrow> no_unit)"

text \<open>A start replaces one with fewer attempts; a replacement that changes identity is quarantined.\<close>

definition note_start :: "stored_event \<Rightarrow> unit_start \<Rightarrow> collect_state \<Rightarrow> collect_state" where
  "note_start s e st =
     (let k = us_usageUnitId e; entry = the_unit (cs_units st) k;
          replaces = (case ub_start entry of None \<Rightarrow> True | Some (_, b) \<Rightarrow> us_providerAttempts b < us_providerAttempts e);
          changed = (case ub_start entry of None \<Rightarrow> False
             | Some (_, b) \<Rightarrow> us_requestId b \<noteq> us_requestId e \<or> us_agentId b \<noteq> us_agentId e);
          entry' = entry\<lparr>ub_start := (if replaces then Some (s, e) else ub_start entry), ub_firstAt := earlier (ub_firstAt entry) (ev_recordedAt (st_event s))\<rparr>;
          st1 = (if replaces \<and> changed
            then st\<lparr>cs_diagnostics := cs_diagnostics st @
                   [''Usage unit '' @ k @ '' changed identity between attempts; excluded from reminder totals.''],
                 cs_quarantined := set_add k (cs_quarantined st)\<rparr>
            else st)
      in st1\<lparr>cs_units := js_set k entry' (cs_units st1)\<rparr>)"

definition note_record :: "stored_event \<Rightarrow> collect_state \<Rightarrow> collect_state" where
  "note_record s st =
     (let update = (\<lambda>k f. st\<lparr>cs_units := js_set k (f (the_unit (cs_units st) k)) (cs_units st)\<rparr>)
      in case ev_payload (st_event s) of
           UsageUnitStart e \<Rightarrow> note_start s e st
         | UsageProgress e \<Rightarrow> update (up_usageUnitId e) (\<lambda>u. u\<lparr>ub_progress := ub_progress u @ [(s, e)]\<rparr>)
         | UsageReceipt r \<Rightarrow> update (rc_usageUnitId r) (\<lambda>u. u\<lparr>ub_receipt := Some (s, r)\<rparr>)
         | CoverageGap k _ \<Rightarrow> update k (\<lambda>u. u\<lparr>ub_gap := True\<rparr>)
         | CostAdjustment a \<Rightarrow> st\<lparr>cs_adjustments := cs_adjustments st @ [(s, a)]\<rparr>)"

definition collect :: "dedup_state \<Rightarrow> collect_state" where
  "collect d = fold note_record (js_values (dd_byId d))
     \<lparr>cs_units = [], cs_adjustments = [], cs_quarantined = dd_quarantined d, cs_diagnostics = dd_diagnostics d\<rparr>"

subsection \<open>Adjustments\<close>

type_synonym priced = "display_cost \<times> reminder_value"

definition receipts_by_id :: "(string, unit_build) jsmap \<Rightarrow> (string, usage_receipt) jsmap" where
  "receipts_by_id units = fold (\<lambda>(_, u) m. case ub_receipt u of
       Some (_, r) \<Rightarrow> js_set (rc_receiptId r) r m | None \<Rightarrow> m) units []"

definition current_cost :: "(string, priced) jsmap \<Rightarrow> usage_receipt \<Rightarrow> priced" where
  "current_cost adjusted r = (case js_get adjusted (rc_receiptId r) of
       Some c \<Rightarrow> c | None \<Rightarrow> (rc_displayCost r, rc_reminderValue r))"

text \<open>Each adjustment is a compare-and-set on the basis the receipt has at that point.\<close>

definition adjust :: "(string, usage_receipt) jsmap \<Rightarrow> cost_adjustment \<Rightarrow> (string, priced) jsmap \<times> string list
    \<Rightarrow> (string, priced) jsmap \<times> string list" where
  "adjust receipts a st =
     (let (adjusted, ds) = st in
      case js_get receipts (ca_receiptId a) of
        None \<Rightarrow> (adjusted, ds @ [''Cost adjustment '' @ ca_adjustmentId a @ '' names an unknown receipt; ignored.''])
      | Some r \<Rightarrow>
          let current = (case js_get adjusted (ca_receiptId a) of
                Some c \<Rightarrow> c | None \<Rightarrow> (rc_displayCost r, rc_reminderValue r))
          in if display_basis (fst current) \<noteq> ca_expectedCostBasis a
             then (adjusted, ds @ [''Cost adjustment '' @ ca_adjustmentId a @ '' is stale (receipt basis ''
                     @ cost_basis_text (display_basis (fst current)) @ ''); ignored.''])
             else (js_set (ca_receiptId a) (ca_displayCost a,
                     if ut_basis (rc_tokens r) = Reported then ca_reminderValue a else not_eligible) adjusted, ds))"

definition apply_adjustments :: "(string \<Rightarrow> int option) \<Rightarrow> collect_state \<Rightarrow> (string, priced) jsmap \<times> string list" where
  "apply_adjustments date_parse st =
     fold (\<lambda>(_, a). adjust (receipts_by_id (cs_units st)) a)
       (sort_key (\<lambda>(s, _). orderKey date_parse s) (cs_adjustments st)) ([], cs_diagnostics st)"

subsection \<open>The contributions of a unit\<close>

record progress_sums =
  ps_input :: nat
  ps_cached :: nat
  ps_output :: nat
  ps_reminder :: nat
  ps_displayNano :: int
  ps_reminderNano :: int
  ps_seen :: "nat list"
  ps_rows :: "contribution list"
  ps_diagnostics :: "string list"

definition or_zero :: "int option \<Rightarrow> int" where
  "or_zero x = (case x of Some n \<Rightarrow> n | None \<Rightarrow> 0)"

definition or_none :: "nat option \<Rightarrow> nat" where
  "or_none x = (case x of Some n \<Rightarrow> n | None \<Rightarrow> 0)"

definition progress_row :: "unit_start \<Rightarrow> bool \<Rightarrow> stored_event \<Rightarrow> usage_progress \<Rightarrow> contribution" where
  "progress_row start excluded s e =
     \<lparr>cb_segment = st_segment s, cb_sequence = ev_sequence (st_event s), cb_recordedAt = ev_recordedAt (st_event s),
      cb_requestId = us_requestId start, cb_agentId = us_agentId start, cb_usageUnitId = us_usageUnitId start,
      cb_displayClass = classOf Reported (display_basis (up_displayCost e)) (up_reminderValue e),
      cb_displayTokens = ut_input (up_tokens e) + ut_output (up_tokens e),
      cb_inputTokens = ut_input (up_tokens e), cb_cachedInputTokens = or_none (ut_cachedInput (up_tokens e)),
      cb_outputTokens = ut_output (up_tokens e), cb_displayNano = displayNanoOf (up_displayCost e),
      cb_reminderTokens = (if excluded then 0 else or_none (rv_tokens (up_reminderValue e))),
      cb_reminderNano = (if excluded then 0 else or_zero (nano_of (rv_nanoUsd (up_reminderValue e)))),
      cb_unattributed = False\<rparr>"

text \<open>One step of the loop over the progress records, sorted by their attempt.\<close>

definition note_progress :: "string list \<Rightarrow> unit_start \<Rightarrow> stored_event \<times> usage_progress \<Rightarrow> progress_sums \<Rightarrow> progress_sums" where
  "note_progress quarantined start p st =
     (let (s, e) = p in
      if up_requestId e \<noteq> us_requestId start \<or> up_providerAttempt e > us_providerAttempts start
         \<or> up_providerAttempt e \<in> set (ps_seen st)
      then st\<lparr>ps_diagnostics := ps_diagnostics st @ [''Progress '' @ up_progressId e @ '' does not match its unit; excluded.'']\<rparr>
      else
        let excluded = (us_usageUnitId start \<in> set quarantined \<or> ev_eventId (st_event s) \<in> set quarantined)
        in st\<lparr>ps_input := ps_input st + ut_input (up_tokens e),
             ps_cached := ps_cached st + or_none (ut_cachedInput (up_tokens e)),
             ps_output := ps_output st + ut_output (up_tokens e),
             ps_reminder := ps_reminder st + or_none (rv_tokens (up_reminderValue e)),
             ps_displayNano := ps_displayNano st + or_zero (displayNanoOf (up_displayCost e)),
             ps_reminderNano := ps_reminderNano st + or_zero (nano_of (rv_nanoUsd (up_reminderValue e))),
             ps_seen := up_providerAttempt e # ps_seen st,
             ps_rows := ps_rows st @ [progress_row start excluded s e]\<rparr>)"

definition sorted_progress :: "unit_build \<Rightarrow> (stored_event \<times> usage_progress) list" where
  "sorted_progress u = sort_key (\<lambda>(_, e). up_providerAttempt e) (ub_progress u)"

definition progress_of :: "string list \<Rightarrow> unit_start \<Rightarrow> unit_build \<Rightarrow> progress_sums" where
  "progress_of quarantined start u = fold (note_progress quarantined start) (sorted_progress u)
     \<lparr>ps_input = 0, ps_cached = 0, ps_output = 0, ps_reminder = 0, ps_displayNano = 0, ps_reminderNano = 0,
      ps_seen = [], ps_rows = [], ps_diagnostics = []\<rparr>"

text \<open>
  A complete receipt spreads its price over the unit's progress rows by tokens: the rows take the
  receipt's class, and the amount they were given is returned with them.
\<close>

definition share_of :: "int \<Rightarrow> int \<Rightarrow> contribution \<Rightarrow> int" where
  "share_of total_nano weight c = (if weight > 0 then (total_nano * int (cb_displayTokens c)) sdiv weight else 0)"

definition relabel :: "display_class \<Rightarrow> int option \<Rightarrow> int \<Rightarrow> contribution \<Rightarrow> contribution" where
  "relabel cls total_nano weight c =
     c\<lparr>cb_displayClass := cls, cb_displayNano := map_option (\<lambda>t. share_of t weight c) total_nano\<rparr>"

definition allocated :: "int \<Rightarrow> int \<Rightarrow> contribution list \<Rightarrow> int" where
  "allocated total_nano weight cs = sum_list (map (share_of total_nano weight) cs)"

text \<open>The reminder amounts a receipt adds to those of its progress.\<close>

definition residual_tokens :: "string \<Rightarrow> nat option \<Rightarrow> nat \<Rightarrow> nat \<times> string list" where
  "residual_tokens receiptId totalTokens progress = (case totalTokens of
       None \<Rightarrow> (0, [])
     | Some t \<Rightarrow>
         if t < progress
         then (0, [''Receipt '' @ receiptId @ '' reports fewer tokens than its progress; the difference is display-only.''])
         else (t - progress, []))"

definition residual_nano :: "string \<Rightarrow> int option \<Rightarrow> int \<Rightarrow> int \<times> string list" where
  "residual_nano receiptId totalNano progress = (case totalNano of
       None \<Rightarrow> (0, [])
     | Some t \<Rightarrow>
         if t < progress
         then (0, [''Receipt '' @ receiptId @ '' prices below its progress; the difference is display-only.''])
         else (t - progress, []))"

definition uncovered_count :: "unit_build \<Rightarrow> usage_receipt \<Rightarrow> nat" where
  "uncovered_count u r =
     (let covered = (case rc_coveredProgressIds r of Some ids \<Rightarrow> ids | None \<Rightarrow> [])
      in length (filter (\<lambda>(_, e). up_progressId e \<notin> set covered) (ub_progress u)))"

text \<open>The rows of a settled unit: its progress, relabelled where the receipt is complete, and the residual.\<close>

definition settle_unit :: "string list \<Rightarrow> unit_start \<Rightarrow> priced \<Rightarrow> stored_event \<Rightarrow> usage_receipt \<Rightarrow> progress_sums
    \<Rightarrow> contribution list \<times> string list" where
  "settle_unit quarantined start cost s r p =
     (let tokens = rc_tokens r;
          input = ut_input tokens - ps_input p;
          cached = or_none (ut_cachedInput tokens) - ps_cached p;
          out = ut_output tokens - ps_output p;
          receiptNano = displayNanoOf (fst cost);
          cls = classOf (ut_basis tokens) (display_basis (fst cost)) (snd cost);
          weight = int (input + out) + sum_list (map (\<lambda>c. int (cb_displayTokens c)) (ps_rows p));
          complete = (ut_basis tokens = Reported);
          rows = (if complete then map (relabel cls receiptNano weight) (ps_rows p) else ps_rows p);
          displayNano = (case receiptNano of
              None \<Rightarrow> None
            | Some n \<Rightarrow>
                if complete then Some (n - allocated n weight (ps_rows p))
                else Some (if n > ps_displayNano p then n - ps_displayNano p else 0));
          counts = (us_usageUnitId start \<notin> set quarantined \<and> ev_eventId (st_event s) \<notin> set quarantined
            \<and> rv_basis (snd cost) \<noteq> NotEligible);
          (reminderTokens, d1) = (if counts then residual_tokens (rc_receiptId r) (rv_tokens (snd cost)) (ps_reminder p) else (0, []));
          (reminderNano, d2) = (if counts then residual_nano (rc_receiptId r) (nano_of (rv_nanoUsd (snd cost))) (ps_reminderNano p) else (0, []))
      in (rows @ [\<lparr>cb_segment = st_segment s, cb_sequence = ev_sequence (st_event s),
             cb_recordedAt = ev_recordedAt (st_event s), cb_requestId = us_requestId start, cb_agentId = us_agentId start,
             cb_usageUnitId = us_usageUnitId start, cb_displayClass = cls, cb_displayTokens = input + out,
             cb_inputTokens = input, cb_cachedInputTokens = cached, cb_outputTokens = out, cb_displayNano = displayNano,
             cb_reminderTokens = reminderTokens, cb_reminderNano = reminderNano, cb_unattributed = rc_coverageGap r\<rparr>],
          d1 @ d2))"

definition unit_rows :: "string list \<Rightarrow> (string, priced) jsmap \<Rightarrow> string \<Rightarrow> unit_build
    \<Rightarrow> contribution list \<times> unit_summary option \<times> string list" where
  "unit_rows quarantined adjusted k u = (case ub_start u of
       None \<Rightarrow> ([], None, if ub_progress u \<noteq> [] \<or> ub_receipt u \<noteq> None \<or> ub_gap u
                 then [''Usage unit '' @ k @ '' has no start record; excluded.''] else [])
     | Some (ss, start) \<Rightarrow>
         let p = progress_of quarantined start u;
             summary = \<lparr>us_id = k, us_request = us_requestId start, us_agent = us_agentId start,
               us_connection = us_connectionId start, us_model = us_modelId start, us_attempts = us_providerAttempts start,
               us_state = (if ub_receipt u \<noteq> None then UnitSettled else if ub_gap u then UnitGap else UnitOpen),
               us_firstRecordedAt = (case ub_firstAt u of Some f \<Rightarrow> f | None \<Rightarrow> ev_recordedAt (st_event ss))\<rparr>
         in case ub_receipt u of
              None \<Rightarrow> (ps_rows p, Some summary, ps_diagnostics p)
            | Some (s, r) \<Rightarrow>
                if rc_requestId r \<noteq> us_requestId start \<or> rc_agentId r \<noteq> us_agentId start
                then (ps_rows p, Some summary, ps_diagnostics p
                  @ [''Receipt '' @ rc_receiptId r @ '' does not match its unit; excluded.''])
                else
                  let (rows, ds) = settle_unit quarantined start (current_cost adjusted r) s r p;
                      n = uncovered_count u r
                  in (rows, Some summary, ps_diagnostics p
                      @ (if n > 0 then [''Receipt '' @ rc_receiptId r @ '' does not list '' @ show_big (int n)
                           @ '' progress record(s); they are treated as covered.''] else []) @ ds))"

definition aggregateSpend :: "(string \<Rightarrow> int option) \<Rightarrow> stored_event list \<Rightarrow> aggregate_result" where
  "aggregateSpend date_parse events =
     (let d = dedup events;
          c = collect d;
          (adjusted, ds) = apply_adjustments date_parse c;
          out = map (\<lambda>(k, u). (k, unit_rows (cs_quarantined c) adjusted k u)) (cs_units c)
      in \<lparr>ag_contributions = concat (map (\<lambda>(k, rows, _). rows) out),
          ag_units = concat (map (\<lambda>(k, _, summary, _). case summary of Some x \<Rightarrow> [(k, x)] | None \<Rightarrow> []) out),
          ag_quarantined = cs_quarantined c,
          ag_diagnostics = ds @ concat (map (\<lambda>(k, _, _, ds). ds) out),
          ag_watermarks = dd_watermarks d, ag_firstRecordedAt = dd_firstRecordedAt d\<rparr>)"

subsection \<open>Counters and resets\<close>

datatype counter_scope =
    ScopeRequest string
  | ScopeProjectPeriod string period string
  | ScopeAgentPeriod string string period string

definition reset_applies :: "counter_reset \<Rightarrow> counter_scope \<Rightarrow> bool" where
  "reset_applies r scope \<longleftrightarrow> rs_scope r = ResetProjectAll \<or>
     (case scope of
        ScopeRequest k \<Rightarrow> rs_scope r = ResetRequest \<and> rs_requestId r = Some k
      | ScopeProjectPeriod pid _ _ \<Rightarrow> rs_scope r = ResetProjectPeriod \<and> rs_periodId r = Some pid
      | ScopeAgentPeriod agent pid _ _ \<Rightarrow>
          (rs_scope r = ResetAgentPeriod \<and> rs_agentId r = Some agent \<and> rs_periodId r = Some pid)
        \<or> (rs_scope r = ResetProjectPeriod \<and> rs_periodId r = Some pid))"

definition latestApplicableReset :: "spend_control \<Rightarrow> counter_scope \<Rightarrow> counter_reset option" where
  "latestApplicableReset control scope = find (\<lambda>r. reset_applies r scope) (rev (sc_resets control))"

definition counterEpochOf :: "spend_control \<Rightarrow> counter_scope \<Rightarrow> string" where
  "counterEpochOf control scope = (case latestApplicableReset control scope of
       Some r \<Rightarrow> rs_resetId r | None \<Rightarrow> ''initial'')"

definition afterReset :: "contribution \<Rightarrow> counter_reset option \<Rightarrow> bool" where
  "afterReset c r = (case r of
       None \<Rightarrow> True
     | Some r \<Rightarrow> (case js_get (rs_watermarks r) (cb_segment c) of None \<Rightarrow> True | Some mark \<Rightarrow> cb_sequence c > mark))"

record class_row =
  cr_tokens :: nat
  cr_nanoUsd :: int
  cr_hasCost :: bool
  cr_count :: nat

record counter_totals =
  ct_eligibleTokens :: nat
  ct_eligibleNanoUsd :: int
  ct_displayTokens :: nat
  ct_byClass :: "(display_class, class_row) jsmap"
  ct_unattributedUnits :: nat
  ct_inputTokens :: nat
  ct_cachedInputTokens :: nat
  ct_outputTokens :: nat

definition no_row :: class_row where
  "no_row = \<lparr>cr_tokens = 0, cr_nanoUsd = 0, cr_hasCost = False, cr_count = 0\<rparr>"

definition emptyTotals :: counter_totals where
  "emptyTotals = \<lparr>ct_eligibleTokens = 0, ct_eligibleNanoUsd = 0, ct_displayTokens = 0,
     ct_byClass = map (\<lambda>c. (c, no_row)) DISPLAY_CLASSES, ct_unattributedUnits = 0, ct_inputTokens = 0,
     ct_cachedInputTokens = 0, ct_outputTokens = 0\<rparr>"

definition class_total :: "counter_totals \<Rightarrow> display_class \<Rightarrow> class_row" where
  "class_total t c = (case js_get (ct_byClass t) c of Some r \<Rightarrow> r | None \<Rightarrow> no_row)"

definition addContribution :: "counter_totals \<Rightarrow> contribution \<Rightarrow> counter_totals" where
  "addContribution t c =
     (let row = class_total t (cb_displayClass c);
          row' = row\<lparr>cr_tokens := cr_tokens row + cb_displayTokens c, cr_count := cr_count row + 1,
            cr_nanoUsd := cr_nanoUsd row + or_zero (cb_displayNano c),
            cr_hasCost := (cr_hasCost row \<or> cb_displayNano c \<noteq> None)\<rparr>
      in t\<lparr>ct_eligibleTokens := ct_eligibleTokens t + cb_reminderTokens c,
           ct_eligibleNanoUsd := ct_eligibleNanoUsd t + cb_reminderNano c,
           ct_displayTokens := ct_displayTokens t + cb_displayTokens c,
           ct_byClass := js_set (cb_displayClass c) row' (ct_byClass t),
           ct_unattributedUnits := ct_unattributedUnits t + (if cb_unattributed c then 1 else 0),
           ct_inputTokens := ct_inputTokens t + cb_inputTokens c,
           ct_cachedInputTokens := ct_cachedInputTokens t + cb_cachedInputTokens c,
           ct_outputTokens := ct_outputTokens t + cb_outputTokens c\<rparr>)"

text \<open>
  The period of a contribution is that of the time it was recorded, from the targets' period function;
  its cache is left out here, since it cannot be seen.
\<close>

definition inScope :: "(string \<Rightarrow> int option) \<Rightarrow> (string \<Rightarrow> bool) \<Rightarrow> (string \<Rightarrow> int \<Rightarrow> string option) \<Rightarrow> contribution
    \<Rightarrow> counter_scope \<Rightarrow> bool" where
  "inScope date_parse zone_ok format_day c scope =
     (let period_at = (\<lambda>per zone. period_id zone_ok format_day (date_parse (cb_recordedAt c)) per zone)
      in case scope of
           ScopeRequest k \<Rightarrow> cb_requestId c = k
         | ScopeProjectPeriod pid per zone \<Rightarrow> period_at per zone = Some pid
         | ScopeAgentPeriod agent pid per zone \<Rightarrow> cb_agentId c = agent \<and> period_at per zone = Some pid)"

definition counterTotals :: "(string \<Rightarrow> int option) \<Rightarrow> (string \<Rightarrow> bool) \<Rightarrow> (string \<Rightarrow> int \<Rightarrow> string option)
    \<Rightarrow> aggregate_result \<Rightarrow> spend_control \<Rightarrow> counter_scope \<Rightarrow> counter_totals" where
  "counterTotals date_parse zone_ok format_day aggregate control scope =
     (let reset = latestApplicableReset control scope
      in fold (\<lambda>c t. if inScope date_parse zone_ok format_day c scope \<and> afterReset c reset then addContribution t c else t)
           (ag_contributions aggregate) emptyTotals)"

definition totalsSnapshot :: "counter_totals \<Rightarrow> totals_snapshot" where
  "totalsSnapshot t = \<lparr>ts_eligibleTokens = ct_eligibleTokens t, ts_eligibleNanoUsd = show_big (ct_eligibleNanoUsd t),
     ts_displayTokens = ct_displayTokens t\<rparr>"

subsection \<open>The ladder\<close>

text \<open>A multiple is returned as a number; the code's conversion is exact below \<open>2 ^ 53\<close>.\<close>

definition reachedThresholds :: "int \<Rightarrow> int \<Rightarrow> int list" where
  "reachedThresholds value target =
     (if target \<le> 0 \<or> value \<le> 0 then []
      else filter (\<lambda>pct. value * 100 \<ge> target * pct) [80, 100, 150, 200]
         @ (let multiple = value sdiv target in if multiple \<ge> 3 then [multiple * 100] else []))"

datatype loudness = Quiet | OverTarget

definition thresholdLoudness :: "int \<Rightarrow> loudness" where
  "thresholdLoudness threshold = (if threshold < 100 then Quiet else OverTarget)"

datatype dimension = TokensDimension | UsdDimension

fun dimension_text :: "dimension \<Rightarrow> string" where
  "dimension_text TokensDimension = ''tokens''"
| "dimension_text UsdDimension = ''usd''"

record notice_parts =
  np_scopeKey :: string
  np_dimension :: dimension
  np_targetRevision :: string
  np_counterEpoch :: string
  np_periodId :: "string option"
  np_threshold :: int

definition join_bar :: "string list \<Rightarrow> string" where
  "join_bar parts = concat (map (\<lambda>p. CHR ''|'' # p) parts)"

definition noticeCounterKey :: "notice_parts \<Rightarrow> string" where
  "noticeCounterKey p = np_scopeKey p @ join_bar [dimension_text (np_dimension p), np_targetRevision p,
     np_counterEpoch p, (case np_periodId p of Some k \<Rightarrow> k | None \<Rightarrow> ''-'')]"

definition noticeKey :: "notice_parts \<Rightarrow> string" where
  "noticeKey p = noticeCounterKey p @ CHR ''|'' # show_big (np_threshold p)"

text \<open>
  \<open>parseNoticeKey\<close>: split at the last bar. \<open>number_of\<close> is the runtime's \<open>Number\<close> of a
  text, \<^const>\<open>None\<close> where that is not finite.
\<close>

definition last_bar :: "string \<Rightarrow> (string \<times> string) option" where
  "last_bar s =
     (let after = rev (takeWhile (\<lambda>c. c \<noteq> CHR ''|'') (rev s)); n = length s - length after
      in if n = 0 then None else Some (take (n - 1) s, after))"

definition parseNoticeKey :: "(string \<Rightarrow> rat option) \<Rightarrow> string \<Rightarrow> (string \<times> string \<times> string \<times> rat) option" where
  "parseNoticeKey number_of key = (case last_bar key of
       None \<Rightarrow> None
     | Some (counter, after) \<Rightarrow>
         if counter = [] then None
         else case number_of after of
             None \<Rightarrow> None
           | Some threshold \<Rightarrow>
               (let parts = split_on (CHR ''|'') counter
                in if length parts \<noteq> 5 then None else Some (counter, parts ! 0, parts ! 4, threshold)))"

subsection \<open>The ladder climbs\<close>

lemma reached_ladder:
  assumes "0 < target" and "0 < value"
  shows "reachedThresholds value target = filter (\<lambda>pct. target * pct \<le> value * 100) [80, 100, 150, 200]
     @ (if 3 \<le> value div target then [value div target * 100] else [])"
  using assms by (simp add: reachedThresholds_def sdiv_nonneg Let_def)

definition rung :: "int \<Rightarrow> bool" where
  "rung r \<longleftrightarrow> r \<in> {80, 100, 150, 200} \<or> (\<exists>k \<ge> 3. r = 100 * k)"

text \<open>
  The alert ladder. For a positive value and target the reached thresholds are strictly
  increasing, every one is a rung (80, 100, 150, 200 or a whole multiple from 300) that the value
  has reached, and the last of them is the highest rung reached: a jump over several multiples
  claims only the top one.
\<close>

theorem ladder_reaches_the_highest_rung:
  assumes "0 < target" and "0 < value"
  shows "sorted_wrt (<) (reachedThresholds value target)
    \<and> list_all (\<lambda>r. rung r \<and> r * target \<le> 100 * value) (reachedThresholds value target)
    \<and> (\<forall>r. rung r \<longrightarrow> r * target \<le> 100 * value \<longrightarrow> reachedThresholds value target \<noteq> [] \<and> r \<le> last (reachedThresholds value target))"
proof -
  let ?q = "value div target"
  have q: "?q * target \<le> value" using assms(1) by (simp add: pos_mod_sign minus_mod_eq_div_mult [symmetric])
  have q_ge: "k \<le> ?q" if "k * target \<le> value" for k
    using that assms(1) by (metis zdiv_mono1 nonzero_mult_div_cancel_right less_irrefl)
  have three: "3 \<le> ?q \<longleftrightarrow> 3 * target \<le> value"
    using q_ge [of 3] q assms(1) by (auto intro: order_trans [OF mult_right_mono])
  have mono: "a \<le> b \<Longrightarrow> a * target \<le> b * target" for a b
    using assms(1) by simp
  note m = mono [of 80 100] mono [of 100 150] mono [of 150 200] mono [of 200 300]
  have low: "r * target \<le> 100 * value \<longrightarrow> reachedThresholds value target \<noteq> [] \<and> r \<le> last (reachedThresholds value target)"
    if "r \<in> {80, 100, 150, 200}" for r
    using that m q by (auto simp: reached_ladder [OF assms] algebra_simps)
  have high: "r * target \<le> 100 * value \<longrightarrow> reachedThresholds value target \<noteq> [] \<and> r \<le> last (reachedThresholds value target)"
    if r: "r = 100 * k" "3 \<le> k" for r k
  proof
    assume "r * target \<le> 100 * value"
    then have "k \<le> ?q" using r(1) by (intro q_ge) simp
    with r show "reachedThresholds value target \<noteq> [] \<and> r \<le> last (reachedThresholds value target)"
      by (simp add: reached_ladder [OF assms])
  qed
  have "sorted_wrt (<) (reachedThresholds value target)"
    by (auto simp: reached_ladder [OF assms] sorted_wrt_append)
  moreover have "list_all (\<lambda>r. rung r \<and> r * target \<le> 100 * value) (reachedThresholds value target)"
    using q by (auto simp: reached_ladder [OF assms] rung_def algebra_simps intro: exI [of _ ?q])
  moreover have "\<forall>r. rung r \<longrightarrow> r * target \<le> 100 * value \<longrightarrow> reachedThresholds value target \<noteq> []
      \<and> r \<le> last (reachedThresholds value target)"
    using low high unfolding rung_def by blast
  ultimately show ?thesis by blast
qed

theorem ladder_reaches_the_highest_rung_witness:
  "reachedThresholds 450 100 = [80, 100, 150, 200, 400] \<and> sorted_wrt (<) (reachedThresholds 450 100)"
proof -
  have "reachedThresholds 450 100 = [80, 100, 150, 200, 400]" by code_simp
  then show ?thesis using ladder_reaches_the_highest_rung [of 100 450] by simp
qed

subsection \<open>Notice keys\<close>

lemma takeWhile_rev_bar:
  assumes "CHR ''|'' \<notin> set t"
  shows "last_bar (s @ CHR ''|'' # t) = Some (s, t)"
proof -
  have "takeWhile (\<lambda>c. c \<noteq> CHR ''|'') (rev t @ CHR ''|'' # rev s) = rev t"
    using assms by (subst takeWhile_append2) auto
  then show ?thesis by (simp add: last_bar_def Let_def)
qed

definition no_bars :: "notice_parts \<Rightarrow> bool" where
  "no_bars p \<longleftrightarrow> np_scopeKey p \<noteq> [] \<and> list_all (\<lambda>s. CHR ''|'' \<notin> set s)
     [np_scopeKey p, np_targetRevision p, np_counterEpoch p, case np_periodId p of Some k \<Rightarrow> k | None \<Rightarrow> ''-'']"

text \<open>
  A claim key reads back as what it was built from. If no part contains the separator and the
  runtime reads the threshold's own text as that number, parsing a notice key gives its counter key,
  scope, period and threshold.
\<close>

theorem notice_key_roundtrip:
  assumes "no_bars p" and "number_of (show_big (np_threshold p)) = Some (of_int (np_threshold p))"
  shows "parseNoticeKey number_of (noticeKey p) = Some (noticeCounterKey p, np_scopeKey p,
    (case np_periodId p of Some k \<Rightarrow> k | None \<Rightarrow> ''-''), of_int (np_threshold p))"
proof -
  let ?pid = "case np_periodId p of Some k \<Rightarrow> k | None \<Rightarrow> ''-''"
  have bar: "last_bar (noticeKey p) = Some (noticeCounterKey p, show_big (np_threshold p))"
    unfolding noticeKey_def by (rule takeWhile_rev_bar [OF show_big_no_bar])
  have "CHR ''|'' \<notin> set (dimension_text (np_dimension p))" by (cases "np_dimension p") auto
  then have "split_on (CHR ''|'') (noticeCounterKey p) =
      [np_scopeKey p, dimension_text (np_dimension p), np_targetRevision p, np_counterEpoch p, ?pid]"
    using assms(1) by (simp add: noticeCounterKey_def join_bar_def no_bars_def split_on_append split_on_none)
  moreover have "noticeCounterKey p \<noteq> []" using assms(1) by (simp add: noticeCounterKey_def no_bars_def)
  ultimately show ?thesis using assms(2) by (simp add: parseNoticeKey_def bar)
qed

theorem notice_key_roundtrip_witness:
  "parseNoticeKey (\<lambda>s. if s = ''150'' then Some 150 else None) ''agent:a|usd|rev1|initial|2026-01@UTC|150''
     = Some (''agent:a|usd|rev1|initial|2026-01@UTC'', ''agent:a'', ''2026-01@UTC'', 150)"
proof -
  let ?p = "\<lparr>np_scopeKey = ''agent:a'', np_dimension = UsdDimension, np_targetRevision = ''rev1'',
    np_counterEpoch = ''initial'', np_periodId = Some ''2026-01@UTC'', np_threshold = 150\<rparr>"
  have t: "show_big 150 = ''150''" by code_simp
  have "no_bars ?p" by (simp add: no_bars_def)
  from notice_key_roundtrip [OF this, of "\<lambda>s. if s = ''150'' then Some 150 else None"]
  show ?thesis by (simp add: t noticeKey_def noticeCounterKey_def join_bar_def)
qed

subsection \<open>What the rows of a unit add up to\<close>

definition nano_sum :: "contribution list \<Rightarrow> int" where
  "nano_sum cs = sum_list (map (\<lambda>c. or_zero (cb_displayNano c)) cs)"

definition reminder_sum :: "contribution list \<Rightarrow> int" where
  "reminder_sum cs = sum_list (map cb_reminderNano cs)"

definition reminder_token_sum :: "contribution list \<Rightarrow> nat" where
  "reminder_token_sum cs = sum_list (map cb_reminderTokens cs)"

lemma nano_sum_append [simp]: "nano_sum (xs @ ys) = nano_sum xs + nano_sum ys"
  by (simp add: nano_sum_def)

lemma nano_sum_relabel:
  "nano_sum (map (relabel cls (Some n) w) cs) = allocated n w cs"
  by (induction cs) (simp_all add: nano_sum_def allocated_def relabel_def or_zero_def)

lemma sum_div_le:
  fixes f :: "'a \<Rightarrow> int"
  assumes "0 < w"
  shows "sum_list (map (\<lambda>c. (n * f c) div w) cs) \<le> (n * sum_list (map f cs)) div w"
proof (induction cs)
  case (Cons c cs)
  have "(n * f c) div w + (n * sum_list (map f cs)) div w \<le> (n * f c + n * sum_list (map f cs)) div w"
  proof -
    let ?a = "n * f c" and ?b = "n * sum_list (map f cs)"
    have "0 \<le> (?a mod w + ?b mod w) div w"
      using assms by (intro div_int_pos_iff [THEN iffD2]) simp
    then show ?thesis using div_add1_eq [of ?a ?b w] by linarith
  qed
  with Cons show ?case by (simp add: distrib_left)
qed simp

lemma allocated_bound:
  assumes "0 \<le> n" and "sum_list (map (\<lambda>c. int (cb_displayTokens c)) cs) \<le> w"
  shows "0 \<le> allocated n w cs \<and> allocated n w cs \<le> n"
proof (cases "0 < w")
  case False
  then have "share_of n w = (\<lambda>_. 0)" by (simp add: share_of_def fun_eq_iff)
  then show ?thesis using assms(1) by (simp add: allocated_def)
next
  case True
  let ?f = "\<lambda>c. int (cb_displayTokens c)"
  have sh: "share_of n w c = (n * ?f c) div w" for c
    using True assms(1) by (simp add: share_of_def sdiv_nonneg)
  have "allocated n w cs \<le> (n * sum_list (map ?f cs)) div w"
  proof -
    have "share_of n w = (\<lambda>c. (n * ?f c) div w)" using sh by (rule ext)
    then show ?thesis using sum_div_le [OF True, of n ?f cs] by (simp only: allocated_def)
  qed
  also have "\<dots> \<le> (n * w) div w" using assms True by (intro zdiv_mono1 mult_left_mono)
  finally have "allocated n w cs \<le> n" using True by simp
  moreover have "0 \<le> allocated n w cs"
    unfolding allocated_def using True assms(1) by (auto simp: sh pos_imp_zdiv_nonneg_iff intro!: sum_list_nonneg)
  ultimately show ?thesis by simp
qed

lemma settle_unit_rows:
  "fst (settle_unit q start cost s r p) =
     (let tokens = rc_tokens r;
          input = ut_input tokens - ps_input p;
          out = ut_output tokens - ps_output p;
          n = displayNanoOf (fst cost);
          cls = classOf (ut_basis tokens) (display_basis (fst cost)) (snd cost);
          weight = int (input + out) + sum_list (map (\<lambda>c. int (cb_displayTokens c)) (ps_rows p));
          counts = (us_usageUnitId start \<notin> set q \<and> ev_eventId (st_event s) \<notin> set q \<and> rv_basis (snd cost) \<noteq> NotEligible)
      in (if ut_basis tokens = Reported then map (relabel cls n weight) (ps_rows p) else ps_rows p)
        @ [\<lparr>cb_segment = st_segment s, cb_sequence = ev_sequence (st_event s),
             cb_recordedAt = ev_recordedAt (st_event s), cb_requestId = us_requestId start, cb_agentId = us_agentId start,
             cb_usageUnitId = us_usageUnitId start, cb_displayClass = cls, cb_displayTokens = input + out,
             cb_inputTokens = input, cb_cachedInputTokens = or_none (ut_cachedInput tokens) - ps_cached p, cb_outputTokens = out,
             cb_displayNano = map_option (\<lambda>n. if ut_basis tokens = Reported then n - allocated n weight (ps_rows p)
                 else if n > ps_displayNano p then n - ps_displayNano p else 0) n,
             cb_reminderTokens = (if counts then fst (residual_tokens (rc_receiptId r) (rv_tokens (snd cost)) (ps_reminder p)) else 0),
             cb_reminderNano = (if counts then fst (residual_nano (rc_receiptId r) (nano_of (rv_nanoUsd (snd cost))) (ps_reminderNano p)) else 0),
             cb_unattributed = rc_coverageGap r\<rparr>])"
  by (simp add: settle_unit_def Let_def case_prod_beta split: option.split)

lemma big_of_digits_nonneg: "canonical_whole k w \<Longrightarrow> 0 \<le> big_of_digits w"
  using big_of_digits_bounds [of w] by (auto simp: canonical_whole_def)

lemma nano_of_nonneg: "nano_of x = Some n \<Longrightarrow> 0 \<le> n"
  by (auto simp: nano_of_def parseNanoUsd_def split: option.splits if_splits dest: big_of_digits_nonneg)

lemma displayNanoOf_nonneg: "displayNanoOf c = Some n \<Longrightarrow> 0 \<le> n"
  by (auto simp: displayNanoOf_def split: display_cost.splits dest: nano_of_nonneg)

lemma complete_rows:
  assumes "ut_basis (rc_tokens r) = Reported" and "displayNanoOf (fst cost) = Some n"
  shows "nano_sum (fst (settle_unit q start cost s r p)) = n
    \<and> list_all (\<lambda>c. cb_displayClass c = classOf Reported (display_basis (fst cost)) (snd cost)
        \<and> (\<exists>m \<ge> 0. cb_displayNano c = Some m)) (fst (settle_unit q start cost s r p))"
proof -
  let ?w = "int (ut_input (rc_tokens r) - ps_input p + (ut_output (rc_tokens r) - ps_output p))
    + sum_list (map (\<lambda>c. int (cb_displayTokens c)) (ps_rows p))"
  have n: "0 \<le> n" by (rule displayNanoOf_nonneg [OF assms(2)])
  have bound: "0 \<le> allocated n ?w (ps_rows p) \<and> allocated n ?w (ps_rows p) \<le> n"
    by (rule allocated_bound [OF n]) simp
  have share: "0 \<le> share_of n ?w c" for c
    using n by (simp add: share_of_def sdiv_nonneg pos_imp_zdiv_nonneg_iff)
  show ?thesis
    using assms bound share
    by (auto simp: settle_unit_rows Let_def nano_sum_relabel list_all_iff relabel_def)
       (simp_all add: nano_sum_def or_zero_def)
qed

subsection \<open>The progress of a unit\<close>

definition sums_ok :: "progress_sums \<Rightarrow> bool" where
  "sums_ok p \<longleftrightarrow> reminder_sum (ps_rows p) \<le> ps_reminderNano p \<and> reminder_token_sum (ps_rows p) \<le> ps_reminder p
     \<and> 0 \<le> reminder_sum (ps_rows p)"

lemma or_zero_nano_nonneg: "0 \<le> or_zero (nano_of x)"
  using nano_of_nonneg [of x] by (auto simp: or_zero_def split: option.split)

lemma note_progress_sums:
  "sums_ok p \<Longrightarrow> sums_ok (note_progress q start e p)"
  using or_zero_nano_nonneg
  by (auto simp: sums_ok_def note_progress_def progress_row_def reminder_sum_def reminder_token_sum_def Let_def case_prod_beta
     intro: add_mono order_trans)

lemma progress_sums_ok: "sums_ok (progress_of q start u)"
proof -
  have "sums_ok (fold (note_progress q start) es p)" if "sums_ok p" for es p
    using that by (induction es arbitrary: p) (simp_all add: note_progress_sums)
  then show ?thesis by (simp add: progress_of_def sums_ok_def reminder_sum_def reminder_token_sum_def)
qed

lemma progress_sums_exact:
  assumes "us_usageUnitId start \<notin> set q" and "\<forall>(s, e) \<in> set (ub_progress u). ev_eventId (st_event s) \<notin> set q"
  shows "reminder_sum (ps_rows (progress_of q start u)) = ps_reminderNano (progress_of q start u)
    \<and> reminder_token_sum (ps_rows (progress_of q start u)) = ps_reminder (progress_of q start u)"
proof -
  have "reminder_sum (ps_rows (fold (note_progress q start) es p)) = ps_reminderNano (fold (note_progress q start) es p)
    \<and> reminder_token_sum (ps_rows (fold (note_progress q start) es p)) = ps_reminder (fold (note_progress q start) es p)"
    if "reminder_sum (ps_rows p) = ps_reminderNano p \<and> reminder_token_sum (ps_rows p) = ps_reminder p"
      and "\<forall>(s, e) \<in> set es. ev_eventId (st_event s) \<notin> set q" for es p
    using that assms(1)
    by (induction es arbitrary: p)
       (auto simp: note_progress_def progress_row_def reminder_sum_def reminder_token_sum_def Let_def)
  then show ?thesis using assms(2)
    by (simp add: progress_of_def sorted_progress_def reminder_sum_def reminder_token_sum_def)
qed

lemma unit_rows_settled:
  assumes "ub_start u = Some (ss, start)" and "ub_receipt u = Some (s, r)"
    and "rc_requestId r = us_requestId start" and "rc_agentId r = us_agentId start"
  shows "fst (unit_rows q adjusted k u)
    = fst (settle_unit q start (current_cost adjusted r) s r (progress_of q start u))"
  using assms by (simp add: unit_rows_def Let_def case_prod_beta)

text \<open>
  C8: the rows of a settled unit add up to exactly its receipt. When a complete receipt matches its
  unit, every row of the unit carries the receipt's class and a non-negative amount, and their sum
  is the receipt's (adjusted) price to the last nano-dollar, although it is divided among the rows
  with rounding.
\<close>

theorem settled_rows_add_up_to_the_receipt:
  assumes "ub_start u = Some (ss, start)" and "ub_receipt u = Some (s, r)"
    and "rc_requestId r = us_requestId start" and "rc_agentId r = us_agentId start"
    and "ut_basis (rc_tokens r) = Reported" and "displayNanoOf (fst (current_cost adjusted r)) = Some n"
  shows "nano_sum (fst (unit_rows q adjusted k u)) = n
    \<and> list_all (\<lambda>c. cb_displayClass c = classOf Reported (display_basis (fst (current_cost adjusted r))) (snd (current_cost adjusted r))
        \<and> 0 \<le> or_zero (cb_displayNano c) \<and> cb_displayNano c \<noteq> None) (fst (unit_rows q adjusted k u))"
  using complete_rows [OF assms(5,6), of q start s "progress_of q start u"]
  unfolding unit_rows_settled [OF assms(1-4)] by (auto simp: list_all_iff or_zero_def)

lemma reminder_relabel [simp]:
  "reminder_sum (map (relabel cls n w) cs) = reminder_sum cs"
  "reminder_token_sum (map (relabel cls n w) cs) = reminder_token_sum cs"
  by (simp_all add: reminder_sum_def reminder_token_sum_def relabel_def comp_def)

lemma residual_max:
  "fst (residual_nano k (Some t) p) + p = max t p" "fst (residual_tokens k (Some t') p') + p' = max t' p'"
  by (simp_all add: residual_nano_def residual_tokens_def)

lemma settle_reminders:
  assumes "us_usageUnitId start \<notin> set q" and "ev_eventId (st_event s) \<notin> set q" and "rv_basis (snd cost) \<noteq> NotEligible"
    and "reminder_sum (ps_rows p) = ps_reminderNano p" and "reminder_token_sum (ps_rows p) = ps_reminder p"
  shows "(\<forall>n. nano_of (rv_nanoUsd (snd cost)) = Some n \<longrightarrow>
        reminder_sum (fst (settle_unit q start cost s r p)) = max n (reminder_sum (ps_rows p)))
    \<and> (\<forall>t. rv_tokens (snd cost) = Some t \<longrightarrow>
        reminder_token_sum (fst (settle_unit q start cost s r p)) = max t (reminder_token_sum (ps_rows p)))"
proof -
  have app: "reminder_sum (xs @ [c]) = cb_reminderNano c + reminder_sum xs"
    "reminder_token_sum (xs @ [c]) = cb_reminderTokens c + reminder_token_sum xs" for xs c
    by (simp_all add: reminder_sum_def reminder_token_sum_def)
  have "reminder_sum (fst (settle_unit q start cost s r p))
      = fst (residual_nano (rc_receiptId r) (nano_of (rv_nanoUsd (snd cost))) (ps_reminderNano p)) + ps_reminderNano p"
    "reminder_token_sum (fst (settle_unit q start cost s r p))
      = fst (residual_tokens (rc_receiptId r) (rv_tokens (snd cost)) (ps_reminder p)) + ps_reminder p"
    using assms by (simp_all add: settle_unit_rows Let_def app)
  then show ?thesis using assms(4,5) by (auto simp: residual_max)
qed

text \<open>
   progress and receipt never count an amount twice. In a unit with nothing quarantined the
  reminder dollars of all rows sum to the larger of the receipt's amount and what its progress had
  already counted, and the same holds of the reminder tokens.
\<close>

theorem reminders_count_each_amount_once:
  assumes "ub_start u = Some (ss, start)" and "ub_receipt u = Some (s, r)"
    and "rc_requestId r = us_requestId start" and "rc_agentId r = us_agentId start"
    and "us_usageUnitId start \<notin> set q" and "ev_eventId (st_event s) \<notin> set q"
    and "list_all (\<lambda>(s, e). ev_eventId (st_event s) \<notin> set q) (ub_progress u)"
    and "rv_basis (snd (current_cost adjusted r)) \<noteq> NotEligible"
  shows "(\<forall>n. nano_of (rv_nanoUsd (snd (current_cost adjusted r))) = Some n \<longrightarrow>
        reminder_sum (fst (unit_rows q adjusted k u)) = max n (reminder_sum (ps_rows (progress_of q start u))))
    \<and> (\<forall>t. rv_tokens (snd (current_cost adjusted r)) = Some t \<longrightarrow>
        reminder_token_sum (fst (unit_rows q adjusted k u)) = max t (reminder_token_sum (ps_rows (progress_of q start u))))"
  using settle_reminders [OF assms(5,6,8)] progress_sums_exact [of start q u] assms(5,7)
  unfolding unit_rows_settled [OF assms(1-4)] by (simp add: list_all_iff)

subsection \<open>Reading an event twice\<close>

text \<open>A copy the deduplication has already taken account of.\<close>

definition noted :: "stored_event \<Rightarrow> dedup_state \<Rightarrow> bool" where
  "noted s st \<longleftrightarrow>
     (\<exists>n. js_get (dd_watermarks st) (st_segment s) = Some n \<and> ev_sequence (st_event s) \<le> n)
   \<and> (\<exists>f. dd_firstRecordedAt st = Some f \<and> f \<noteq> [] \<and> f \<le> ev_recordedAt (st_event s))
   \<and> (\<exists>prior. js_get (dd_byId st) (ev_eventId (st_event s)) = Some prior
        \<and> (eventIdentityPayload (st_event prior) = eventIdentityPayload (st_event s)
           \<or> ev_eventId (st_event s) \<in> set (dd_quarantined st)))"

lemma noted_note_copy: "noted s st \<Longrightarrow> note_copy s st = st"
  by (auto simp: noted_def note_copy_def Let_def earlier_def max_absorb1 js_set_same set_add_def)

definition first_ok :: "dedup_state \<Rightarrow> bool" where
  "first_ok st \<longleftrightarrow> dd_firstRecordedAt st \<noteq> Some []"

lemma note_copy_noted:
  assumes "ev_recordedAt (st_event s) \<noteq> []" and "first_ok st"
  shows "noted s (note_copy s st) \<and> first_ok (note_copy s st)"
proof (cases "js_get (dd_byId st) (ev_eventId (st_event s))")
  case None
  with assms show ?thesis
    by (cases "dd_firstRecordedAt st") (auto simp: noted_def note_copy_def earlier_def first_ok_def Let_def not_less)
next
  case (Some prior)
  with assms show ?thesis
    by (cases "dd_firstRecordedAt st") (auto simp: noted_def note_copy_def earlier_def first_ok_def Let_def not_less)
qed

lemma noted_mono:
  assumes "noted s st" and "ev_recordedAt (st_event s') \<noteq> []"
  shows "noted s (note_copy s' st)"
proof -
  obtain f where f: "dd_firstRecordedAt st = Some f" "f \<noteq> []" "f \<le> ev_recordedAt (st_event s)"
    using assms(1) by (auto simp: noted_def)
  have first: "\<exists>g. earlier (Some f) (ev_recordedAt (st_event s')) = Some g \<and> g \<noteq> [] \<and> g \<le> ev_recordedAt (st_event s)"
    using f assms(2) by (auto simp: earlier_def)
  have w: "\<exists>n. js_get (js_set (st_segment s') (max (case js_get (dd_watermarks st) (st_segment s') of Some n \<Rightarrow> n | None \<Rightarrow> 0) k)
      (dd_watermarks st)) (st_segment s) = Some n \<and> ev_sequence (st_event s) \<le> n" for k
    using assms(1) by (auto simp: noted_def)
  show ?thesis
  proof (cases "js_get (dd_byId st) (ev_eventId (st_event s'))")
    case None
    then show ?thesis using assms(1) first f(1) w by (auto simp: noted_def note_copy_def Let_def)
  next
    case (Some prior)
    then show ?thesis using assms(1) first f(1) w by (auto simp: noted_def note_copy_def Let_def)
  qed
qed

lemma fold_noted:
  assumes "\<forall>s \<in> set es. ev_recordedAt (st_event s) \<noteq> []" and "first_ok st"
  shows "(\<forall>s \<in> set es. noted s (fold note_copy es st)) \<and> first_ok (fold note_copy es st)
    \<and> (\<forall>s. noted s st \<longrightarrow> noted s (fold note_copy es st))"
  using assms
proof (induction es arbitrary: st)
  case (Cons e es)
  have e: "noted e (note_copy e st)" "first_ok (note_copy e st)"
    using note_copy_noted [of e st] Cons.prems by auto
  from Cons.IH [OF _ e(2)] Cons.prems(1) have IH: "(\<forall>s \<in> set es. noted s (fold note_copy es (note_copy e st)))
      \<and> first_ok (fold note_copy es (note_copy e st))
      \<and> (\<forall>s. noted s (note_copy e st) \<longrightarrow> noted s (fold note_copy es (note_copy e st)))" by simp
  with e(1) noted_mono [of _ st e] Cons.prems(1) show ?case by simp
qed simp

lemma fold_all_noted: "\<forall>s \<in> set ds. noted s st \<Longrightarrow> fold note_copy ds st = st"
  by (induction ds) (simp_all add: noted_note_copy)

lemma dedup_again:
  assumes "\<forall>s \<in> set es. ev_recordedAt (st_event s) \<noteq> []" and "set ds \<subseteq> set es"
  shows "dedup (es @ ds) = dedup es"
proof -
  let ?st = "\<lparr>dd_watermarks = [], dd_firstRecordedAt = None, dd_byId = [], dd_quarantined = [], dd_diagnostics = []\<rparr>"
  have "\<forall>s \<in> set es. noted s (fold note_copy es ?st)"
    using fold_noted [OF assms(1), of ?st] by (simp add: first_ok_def)
  with assms(2) fold_all_noted [of ds "fold note_copy es ?st"] show ?thesis by (auto simp: dedup_def)
qed

text \<open>
  C9: overlapping windows are harmless. Reading any of the events a second time, in any order and
  any number of times, leaves every part of the aggregate unchanged: contributions, unit summaries,
  quarantine, diagnostics, watermarks and start date.
\<close>

theorem reading_events_again_changes_nothing:
  assumes "list_all (\<lambda>s. ev_recordedAt (st_event s) \<noteq> []) es" and "set ds \<subseteq> set es"
  shows "aggregateSpend date_parse (es @ ds) = aggregateSpend date_parse es"
  using assms dedup_again [of es ds] by (simp add: aggregateSpend_def list_all_iff)

subsection \<open>Where a contribution comes from\<close>

text \<open>The places (segment and sequence) a list of contributions stands at.\<close>

definition place :: "contribution \<Rightarrow> string \<times> nat" where
  "place c = (cb_segment c, cb_sequence c)"

definition place_of :: "stored_event \<Rightarrow> string \<times> nat" where
  "place_of s = (st_segment s, ev_sequence (st_event s))"

definition unit_from :: "stored_event set \<Rightarrow> unit_build \<Rightarrow> bool" where
  "unit_from S u \<longleftrightarrow> fst ` set (ub_progress u) \<subseteq> S \<and> fst ` set_option (ub_receipt u) \<subseteq> S"

lemma unit_from_none [simp]: "unit_from S no_unit"
  by (simp add: unit_from_def no_unit_def)

lemma unit_from_the_unit: "\<forall>u \<in> set (js_values us). unit_from S u \<Longrightarrow> unit_from S (the_unit us k)"
  by (auto simp: the_unit_def dest!: js_get_in split: option.split)

lemma note_record_from:
  assumes "\<forall>u \<in> set (js_values (cs_units st)). unit_from S u" and "s \<in> S"
  shows "\<forall>u \<in> set (js_values (cs_units (note_record s st))). unit_from S u"
proof -
  have upd: "\<forall>u \<in> set (js_values (js_set k v m)). unit_from S u"
    if "\<forall>u \<in> set (js_values m). unit_from S u" and "unit_from S v" for k v m
    using that js_values_set [of k v m] by blast
  note old = unit_from_the_unit [OF assms(1)]
  show ?thesis
  proof (cases "ev_payload (st_event s)")
    case (UsageUnitStart e)
    have "\<exists>v. cs_units (note_record s st) = js_set (us_usageUnitId e) v (cs_units st)
        \<and> ub_progress v = ub_progress (the_unit (cs_units st) (us_usageUnitId e))
        \<and> ub_receipt v = ub_receipt (the_unit (cs_units st) (us_usageUnitId e))"
      unfolding note_record_def note_start_def Let_def UsageUnitStart event_payload.case
      by (rule exI [of _ "(the_unit (cs_units st) (us_usageUnitId e))\<lparr>ub_start :=
          (if (case ub_start (the_unit (cs_units st) (us_usageUnitId e)) of None \<Rightarrow> True
             | Some (_, b) \<Rightarrow> us_providerAttempts b < us_providerAttempts e)
           then Some (s, e) else ub_start (the_unit (cs_units st) (us_usageUnitId e))),
          ub_firstAt := earlier (ub_firstAt (the_unit (cs_units st) (us_usageUnitId e))) (ev_recordedAt (st_event s))\<rparr>"])
        simp
    then obtain v where v: "cs_units (note_record s st) = js_set (us_usageUnitId e) v (cs_units st)"
      "ub_progress v = ub_progress (the_unit (cs_units st) (us_usageUnitId e))"
      "ub_receipt v = ub_receipt (the_unit (cs_units st) (us_usageUnitId e))" by blast
    have "unit_from S v" using old [of "us_usageUnitId e"] v(2,3) by (simp add: unit_from_def)
    with upd [OF assms(1)] show ?thesis by (simp only: v(1))
  next
    case (UsageProgress e)
    have "unit_from S (the_unit (cs_units st) (up_usageUnitId e)\<lparr>ub_progress := ub_progress (the_unit (cs_units st) (up_usageUnitId e)) @ [(s, e)]\<rparr>)"
      using assms(2) old [of "up_usageUnitId e"] by (simp add: unit_from_def)
    from upd [OF assms(1) this] show ?thesis by (simp add: note_record_def Let_def UsageProgress)
  next
    case (UsageReceipt r)
    have "unit_from S (the_unit (cs_units st) (rc_usageUnitId r)\<lparr>ub_receipt := Some (s, r)\<rparr>)"
      using assms(2) old [of "rc_usageUnitId r"] by (simp add: unit_from_def)
    from upd [OF assms(1) this] show ?thesis by (simp add: note_record_def Let_def UsageReceipt)
  next
    case (CostAdjustment a)
    with assms(1) show ?thesis by (simp add: note_record_def Let_def)
  next
    case (CoverageGap k reason)
    have "unit_from S (the_unit (cs_units st) k\<lparr>ub_gap := True\<rparr>)" using old [of k] by (simp add: unit_from_def)
    from upd [OF assms(1) this] show ?thesis by (simp add: note_record_def Let_def CoverageGap)
  qed
qed

lemma collect_from: "\<forall>u \<in> set (js_values (cs_units (collect d))). unit_from (set (js_values (dd_byId d))) u"
proof -
  have "\<forall>u \<in> set (js_values (cs_units (fold note_record es st))). unit_from S u"
    if "\<forall>u \<in> set (js_values (cs_units st)). unit_from S u" and "set es \<subseteq> S" for es st S
    using that
  proof (induction es arbitrary: st)
    case (Cons e es)
    then show ?case using note_record_from [OF Cons.prems(1), of e] by simp
  qed simp
  note all = this
  show ?thesis unfolding collect_def by (rule all) simp_all
qed

lemma progress_places: "place ` set (ps_rows (progress_of q start u)) \<subseteq> place_of ` fst ` set (ub_progress u)"
proof -
  have "place ` set (ps_rows (fold (note_progress q start) es p)) \<subseteq> place ` set (ps_rows p) \<union> place_of ` fst ` set es" for es p
  proof (induction es arbitrary: p)
    case (Cons e es)
    have "place ` set (ps_rows (note_progress q start e p)) \<subseteq> place ` set (ps_rows p) \<union> {place_of (fst e)}"
      by (auto simp: note_progress_def progress_row_def place_def place_of_def Let_def split: prod.splits)
    with Cons.IH [of "note_progress q start e p"]
    have "place ` set (ps_rows (fold (note_progress q start) es (note_progress q start e p)))
        \<subseteq> (place ` set (ps_rows p) \<union> {place_of (fst e)}) \<union> place_of ` fst ` set es" by blast
    then show ?case by (simp add: Un_insert_right)
  qed simp
  from this [of "sorted_progress u"] show ?thesis
    unfolding progress_of_def by (rule order_trans) (simp add: sorted_progress_def)
qed

lemma place_simps [simp]:
  "place (relabel cls n w c) = place c"
  "place \<lparr>cb_segment = a, cb_sequence = b, cb_recordedAt = x1, cb_requestId = x2, cb_agentId = x3, cb_usageUnitId = x4,
     cb_displayClass = x5, cb_displayTokens = x6, cb_inputTokens = x7, cb_cachedInputTokens = x8, cb_outputTokens = x9,
     cb_displayNano = y1, cb_reminderTokens = y2, cb_reminderNano = y3, cb_unattributed = y4\<rparr> = (a, b)"
  by (simp_all add: place_def relabel_def)

lemma settle_places: "place ` set (fst (settle_unit q start cost s r p)) = insert (place_of s) (place ` set (ps_rows p))"
  by (simp add: settle_unit_rows Let_def image_image place_of_def)

lemma unit_rows_places:
  "place ` set (fst (unit_rows q adjusted k u)) \<subseteq> place_of ` (fst ` set (ub_progress u) \<union> fst ` set_option (ub_receipt u))"
proof (cases "ub_start u")
  case None
  then show ?thesis by (simp add: unit_rows_def)
next
  case (Some x)
  obtain ss start where x: "x = (ss, start)" by force
  note P = progress_places [of q start u]
  show ?thesis
  proof (cases "ub_receipt u")
    case None
    with Some x P show ?thesis by (auto simp: unit_rows_def Let_def)
  next
    case (Some y)
    obtain s r where y: "y = (s, r)" by force
    have "fst (unit_rows q adjusted k u) = ps_rows (progress_of q start u)
        \<or> fst (unit_rows q adjusted k u) = fst (settle_unit q start (current_cost adjusted r) s r (progress_of q start u))"
      using Some \<open>ub_start u = Some x\<close> x y by (simp add: unit_rows_def Let_def case_prod_beta)
    with P settle_places [of q start "current_cost adjusted r" s r "progress_of q start u"] Some y show ?thesis
      by (elim disjE) (simp_all, blast+)
  qed
qed

lemma dedup_places:
  "\<forall>s \<in> set (js_values (dd_byId (dedup es))). \<exists>n. js_get (dd_watermarks (dedup es)) (st_segment s) = Some n \<and> ev_sequence (st_event s) \<le> n"
proof -
  let ?ok = "\<lambda>st s. \<exists>n. js_get (dd_watermarks st) (st_segment s) = Some n \<and> ev_sequence (st_event s) \<le> n"
  have "\<forall>s \<in> set (js_values (dd_byId (fold note_copy es st))). ?ok (fold note_copy es st) s"
    if "\<forall>s \<in> set (js_values (dd_byId st)). ?ok st s" for st
    using that
  proof (induction es arbitrary: st)
    case (Cons e es)
    have "\<forall>s \<in> set (js_values (dd_byId (note_copy e st))). ?ok (note_copy e st) s"
    proof
      fix s assume s: "s \<in> set (js_values (dd_byId (note_copy e st)))"
      have w: "dd_watermarks (note_copy e st) = js_set (st_segment e)
          (max (case js_get (dd_watermarks st) (st_segment e) of Some n \<Rightarrow> n | None \<Rightarrow> 0) (ev_sequence (st_event e))) (dd_watermarks st)"
        by (auto simp: note_copy_def Let_def split: option.split)
      from s have "s = e \<or> s \<in> set (js_values (dd_byId st))"
        using js_values_set [of "ev_eventId (st_event e)" e "dd_byId st"]
        by (auto simp: note_copy_def Let_def simp del: set_map split: option.splits if_splits)
      then show "?ok (note_copy e st) s"
      proof
        assume "s = e"
        then show ?thesis by (simp add: w)
      next
        assume "s \<in> set (js_values (dd_byId st))"
        then obtain n where "js_get (dd_watermarks st) (st_segment s) = Some n" "ev_sequence (st_event s) \<le> n"
          using Cons.prems by blast
        then show ?thesis by (auto simp: w)
      qed
    qed
    from Cons.IH [OF this] show ?case by simp
  qed simp
  then show ?thesis by (simp add: dedup_def)
qed

lemma contributions_below_watermarks:
  assumes "c \<in> set (ag_contributions (aggregateSpend date_parse es))"
  shows "\<exists>n. js_get (ag_watermarks (aggregateSpend date_parse es)) (cb_segment c) = Some n \<and> cb_sequence c \<le> n"
proof -
  let ?d = "dedup es"
  obtain adjusted ds where a: "apply_adjustments date_parse (collect ?d) = (adjusted, ds)" by force
  have "ag_contributions (aggregateSpend date_parse es)
      = concat (map (\<lambda>x. fst (unit_rows (cs_quarantined (collect ?d)) adjusted (fst x) (snd x))) (cs_units (collect ?d)))"
    by (simp add: aggregateSpend_def a Let_def case_prod_beta comp_def)
  with assms obtain x where "x \<in> set (cs_units (collect ?d))"
    and "c \<in> set (fst (unit_rows (cs_quarantined (collect ?d)) adjusted (fst x) (snd x)))" by auto
  then obtain k u where u: "(k, u) \<in> set (cs_units (collect ?d))"
    and c: "c \<in> set (fst (unit_rows (cs_quarantined (collect ?d)) adjusted k u))" by (metis prod.collapse)
  from u have "unit_from (set (js_values (dd_byId ?d))) u" using collect_from [of ?d] by force
  then have "fst ` set (ub_progress u) \<union> fst ` set_option (ub_receipt u) \<subseteq> set (js_values (dd_byId ?d))"
    by (simp only: unit_from_def Un_subset_iff)
  moreover have "place c \<in> place_of ` (fst ` set (ub_progress u) \<union> fst ` set_option (ub_receipt u))"
    using unit_rows_places c by (rule subsetD [OF _ imageI])
  ultimately have "place c \<in> place_of ` set (js_values (dd_byId ?d))" by (rule subsetD [OF image_mono])
  then obtain s where "s \<in> set (js_values (dd_byId ?d))" "place c = place_of s" by (rule imageE)
  then have "cb_segment c = st_segment s" "cb_sequence c = ev_sequence (st_event s)" and s: "s \<in> set (js_values (dd_byId ?d))"
    by (simp_all only: place_def place_of_def prod.inject)
  moreover have "ag_watermarks (aggregateSpend date_parse es) = dd_watermarks ?d"
    by (simp add: aggregateSpend_def a Let_def)
  ultimately show ?thesis using bspec [OF dedup_places [of es] s] by (simp only:)
qed

text \<open>
   a reset starts a counter at zero. When a reset that applies to a scope records the watermarks
  of the aggregate, the totals of that counter over the same aggregate are empty: every contribution
  stands at or below the mark of its segment, so what was counted before the reset is never counted
  again.
\<close>

theorem reset_retires_everything_counted:
  assumes "reset_applies r scope" and "rs_watermarks r = ag_watermarks (aggregateSpend date_parse es)"
  shows "counterTotals date_parse zone_ok format_day (aggregateSpend date_parse es)
    (control\<lparr>sc_resets := sc_resets control @ [r]\<rparr>) scope = emptyTotals"
proof -
  have reset: "latestApplicableReset (control\<lparr>sc_resets := sc_resets control @ [r]\<rparr>) scope = Some r"
    using assms(1) by (simp add: latestApplicableReset_def)
  have "\<not> afterReset c (Some r)" if "c \<in> set (ag_contributions (aggregateSpend date_parse es))" for c
    using contributions_below_watermarks [OF that] assms(2) by (auto simp: afterReset_def)
  then have "fold (\<lambda>c t. if P c \<and> afterReset c (Some r) then addContribution t c else t) cs emptyTotals = emptyTotals"
    if "set cs \<subseteq> set (ag_contributions (aggregateSpend date_parse es))" for cs P
    using that by (induction cs) auto
  then show ?thesis by (simp add: counterTotals_def reset)
qed

subsection \<open>A concrete unit\<close>

definition toks :: "nat \<Rightarrow> nat \<Rightarrow> usage_tokens" where
  "toks i out = \<lparr>ut_input = i, ut_cachedInput = None, ut_output = out, ut_reasoningOutput = None, ut_basis = Reported\<rparr>"

definition sample_start :: unit_start where
  "sample_start = \<lparr>us_usageUnitId = ''u'', us_requestId = ''r'', us_agentId = ''a'', us_connectionId = ''c'',
     us_modelId = ''m'', us_providerAttempts = 1\<rparr>"

definition sample_progress :: usage_progress where
  "sample_progress = \<lparr>up_progressId = ''progress:u:1'', up_usageUnitId = ''u'', up_requestId = ''r'', up_providerAttempt = 1,
     up_tokens = toks 10 5, up_displayCost = Priced ''40'' GatewayPublished ''s'' None False,
     up_reminderValue = \<lparr>rv_tokens = Some 15, rv_nanoUsd = Some ''30'', rv_basis = ByExactRoute\<rparr>\<rparr>"

definition sample_receipt :: usage_receipt where
  "sample_receipt = \<lparr>rc_receiptId = ''usage:u'', rc_requestId = ''r'', rc_runId = None, rc_usageUnitId = ''u'',
     rc_providerAttempts = 1, rc_coveredProgressIds = Some [''progress:u:1''], rc_agentId = ''a'', rc_connectionId = ''c'',
     rc_modelId = ''m'', rc_observedAt = ''t'', rc_tokens = toks 20 10, rc_displayCost = Priced ''100'' Billed ''s'' None False,
     rc_reminderValue = \<lparr>rv_tokens = Some 30, rv_nanoUsd = Some ''100'', rv_basis = ByBilled\<rparr>, rc_coverageGap = False\<rparr>"

definition stored :: "string \<Rightarrow> nat \<Rightarrow> event_payload \<Rightarrow> stored_event" where
  "stored k n p = \<lparr>st_segment = ''seg'', st_event = \<lparr>ev_eventId = k, ev_hostEpoch = ''h'', ev_sequence = n,
     ev_recordedAt = ''2026-01-01'', ev_payload = p\<rparr>\<rparr>"

definition sample_events :: "stored_event list" where
  "sample_events = [stored ''start:u:1'' 1 (UsageUnitStart sample_start),
     stored ''progress:u:1'' 2 (UsageProgress sample_progress), stored ''usage:u'' 3 (UsageReceipt sample_receipt)]"

definition sample_unit :: unit_build where
  "sample_unit = \<lparr>ub_start = Some (stored ''start:u:1'' 1 (UsageUnitStart sample_start), sample_start),
     ub_progress = [(stored ''progress:u:1'' 2 (UsageProgress sample_progress), sample_progress)],
     ub_receipt = Some (stored ''usage:u'' 3 (UsageReceipt sample_receipt), sample_receipt), ub_gap = False,
     ub_firstAt = Some ''2026-01-01''\<rparr>"

theorem settled_rows_add_up_to_the_receipt_witness:
  "nano_sum (fst (unit_rows [] [] ''u'' sample_unit)) = 100"
proof -
  have u: "ub_start sample_unit = Some (stored ''start:u:1'' 1 (UsageUnitStart sample_start), sample_start)"
    "ub_receipt sample_unit = Some (stored ''usage:u'' 3 (UsageReceipt sample_receipt), sample_receipt)"
    "rc_requestId sample_receipt = us_requestId sample_start" "rc_agentId sample_receipt = us_agentId sample_start"
    "ut_basis (rc_tokens sample_receipt) = Reported"
    by (simp_all add: sample_unit_def sample_receipt_def sample_start_def toks_def)
  have "displayNanoOf (fst (current_cost [] sample_receipt)) = Some 100" by code_simp
  from settled_rows_add_up_to_the_receipt [OF u this] show ?thesis by blast
qed

theorem reminders_count_each_amount_once_witness:
  "reminder_sum (fst (unit_rows [] [] ''u'' sample_unit)) = max 100 (reminder_sum (ps_rows (progress_of [] sample_start sample_unit)))"
proof -
  have u: "ub_start sample_unit = Some (stored ''start:u:1'' 1 (UsageUnitStart sample_start), sample_start)"
    "ub_receipt sample_unit = Some (stored ''usage:u'' 3 (UsageReceipt sample_receipt), sample_receipt)"
    "rc_requestId sample_receipt = us_requestId sample_start" "rc_agentId sample_receipt = us_agentId sample_start"
    "us_usageUnitId sample_start \<notin> set ([] :: string list)"
    "ev_eventId (st_event (stored ''usage:u'' 3 (UsageReceipt sample_receipt))) \<notin> set ([] :: string list)"
    by (simp_all add: sample_unit_def sample_receipt_def sample_start_def)
  have p: "list_all (\<lambda>(s, e). ev_eventId (st_event s) \<notin> set ([] :: string list)) (ub_progress sample_unit)"
    by (simp add: sample_unit_def)
  have e: "rv_basis (snd (current_cost [] sample_receipt)) \<noteq> NotEligible"
    "nano_of (rv_nanoUsd (snd (current_cost [] sample_receipt))) = Some 100" by code_simp+
  from reminders_count_each_amount_once [OF u p e(1)] e(2) show ?thesis by blast
qed

theorem reading_events_again_changes_nothing_witness:
  "aggregateSpend (\<lambda>_. Some 0) (sample_events @ [stored ''usage:u'' 3 (UsageReceipt sample_receipt)])
     = aggregateSpend (\<lambda>_. Some 0) sample_events"
proof (rule reading_events_again_changes_nothing)
  show "list_all (\<lambda>s. ev_recordedAt (st_event s) \<noteq> []) sample_events"
    by (simp add: sample_events_def stored_def)
qed (simp add: sample_events_def)

definition sample_reset :: counter_reset where
  "sample_reset = \<lparr>rs_resetId = ''reset'', rs_scope = ResetRequest, rs_requestId = Some ''r'', rs_agentId = None,
     rs_periodId = None, rs_resetAt = ''2026-01-02'',
     rs_watermarks = ag_watermarks (aggregateSpend (\<lambda>_. Some 0) sample_events),
     rs_previousTotals = \<lparr>ts_eligibleTokens = 30, ts_eligibleNanoUsd = ''100'', ts_displayTokens = 30\<rparr>\<rparr>"

theorem reset_retires_everything_counted_witness:
  "counterTotals (\<lambda>_. Some 0) (\<lambda>_. True) (\<lambda>_ _. None) (aggregateSpend (\<lambda>_. Some 0) sample_events)
     (emptySpendControl\<lparr>sc_resets := sc_resets emptySpendControl @ [sample_reset]\<rparr>) (ScopeRequest ''r'') = emptyTotals"
  by (rule reset_retires_everything_counted) (simp_all add: reset_applies_def sample_reset_def)

end
