(* ===== verification/TarFormat.thy ===== *)
theory TarFormat
  imports Prelude "HOL-Library.Word"
begin

unbundle bit_operations_syntax

text \<open>
  The pure part of the CLI package reader (\<open>src/src/host/cliDelivery/tarReader.ts\<close>): failures
  and their classes, the rule for package paths, the layout check, CRC-32, the gzip header, tar
  headers and pax records. A byte is an \<open>8 word\<close>; a CRC is a \<open>32 word\<close>, on which every
  operation of the source (\<open>^\<close>, \<open>&\<close>, \<open>>>>\<close>) is exact.
\<close>

type_synonym byte = "8 word"

definition latin1 :: "byte list \<Rightarrow> string" where
  "latin1 = map (\<lambda>b. char_of (unat b))"

definition bytes_of :: "string \<Rightarrow> byte list" where
  "bytes_of = map (\<lambda>c. word_of_nat (of_char c))"

subsection \<open>Limits, failures and their classes\<close>

definition maxDecompressedBytes :: nat where "maxDecompressedBytes = 1073741824"
definition maxEntries :: nat where "maxEntries = 20000"
definition maxPaxBytes :: nat where "maxPaxBytes = 1024"
definition maxEndBlocks :: nat where "maxEndBlocks = 21"
definition maxGzipHeaderBytes :: nat where "maxGzipHeaderBytes = 4096"
definition BLOCK :: nat where "BLOCK = 512"

datatype tar_reason = RLayout | RPayload | RGzip | RTrailingData | RHeader | RType | RPax | RName
  | RUnlisted | RDuplicate | RSize | RDigest | RParentMissing | RExists | RFile | RMissing
  | RAfterEnd | RTruncated | RBounds | RCancelled

datatype tar_failure_class = Integrity | FileFailure | CancelledFailure

definition tarFailureClass :: "tar_reason \<Rightarrow> tar_failure_class" where
  "tarFailureClass r =
     (if r = RCancelled then CancelledFailure
      else if r = RPayload \<or> r = RExists \<or> r = RFile then FileFailure
      else Integrity)"

record tar_failure =
  tf_reason :: tar_reason
  tf_detail :: string
  tf_entry :: "string option"

definition failure :: "tar_reason \<Rightarrow> string \<Rightarrow> tar_failure" where
  "failure r d = \<lparr>tf_reason = r, tf_detail = d, tf_entry = None\<rparr>"

definition failure_at :: "tar_reason \<Rightarrow> string \<Rightarrow> string \<Rightarrow> tar_failure" where
  "failure_at r d entry = \<lparr>tf_reason = r, tf_detail = d, tf_entry = Some entry\<rparr>"

definition hex_digit :: "nat \<Rightarrow> char" where
  "hex_digit n = ''0123456789abcdef'' ! (n mod 16)"

text \<open>\<open>charCodeAt(0).toString(16).padStart(2, '0')\<close> of a code unit below 256.\<close>

definition hex2 :: "nat \<Rightarrow> string" where
  "hex2 n = [hex_digit (n div 16), hex_digit n]"

definition printable_char :: "char \<Rightarrow> bool" where
  "printable_char c \<longleftrightarrow> (let n = of_char c :: nat in 32 \<le> n \<and> n \<le> 126)"

definition printable :: "string \<Rightarrow> string" where
  "printable t =
     (let shown = (if 160 < length t then take 160 t @ ''...'' else t)
      in concat (map (\<lambda>c. if printable_char c then [c] else [CHR 0x5C] @ ''x'' @ hex2 (of_char c)) shown))"

subsection \<open>Package paths\<close>

definition path_char :: "char \<Rightarrow> bool" where
  "path_char c \<longleftrightarrow> is_upper c \<or> is_lower c \<or> is_digit c \<or> c \<in> set ''._-''"

definition RESERVED_DEVICE :: "string \<Rightarrow> bool" where
  "RESERVED_DEVICE s \<longleftrightarrow>
     (let t = js_lower s in
      t \<in> set [''con'', ''prn'', ''aux'', ''nul'']
      \<or> (length t = 4 \<and> (take 3 t = ''com'' \<or> take 3 t = ''lpt'') \<and> t ! 3 \<in> set ''123456789''))"

definition unsafe_segment :: "string \<Rightarrow> string option" where
  "unsafe_segment seg =
     (if seg = [] \<or> \<not> list_all path_char seg then Some ''has an empty segment or a character outside [A-Za-z0-9._-]''
      else if seg = ''.'' \<or> seg = ''..'' then Some ''has a . or .. segment''
      else if ends_with seg ''.'' then Some ''has a segment that ends in a dot''
      else if RESERVED_DEVICE (hd (split_on CHR ''.'' seg)) then Some ''names a reserved device''
      else None)"

fun first_unsafe :: "string list \<Rightarrow> string option" where
  "first_unsafe [] = None"
| "first_unsafe (seg # segs) = (case unsafe_segment seg of Some why \<Rightarrow> Some why | None \<Rightarrow> first_unsafe segs)"

definition unsafePackagePath :: "string \<Rightarrow> string option" where
  "unsafePackagePath rel = first_unsafe (split_on CHR ''/'' rel)"

subsection \<open>The layout\<close>

record file_row =
  fr_path :: string
  fr_size :: js_num
  fr_sha256 :: string

record tar_layout =
  tl_entrypoint :: string
  tl_unpackedBytes :: js_num
  tl_dirs :: "string list"
  tl_ignoredEntries :: "string list"
  tl_files :: "file_row list"

definition layout_paths :: "tar_layout \<Rightarrow> string list" where
  "layout_paths lay = map fr_path (tl_files lay) @ tl_dirs lay @ tl_ignoredEntries lay"

definition safe_nat :: "js_num \<Rightarrow> nat option" where
  "safe_nat x = (case safe_integer x of Some i \<Rightarrow> if i < 0 then None else Some (nat i) | None \<Rightarrow> None)"

definition tarDecompressedLimit :: "tar_layout \<Rightarrow> nat" where
  "tarDecompressedLimit lay =
     (let entries = length (tl_files lay) + length (tl_dirs lay) + length (tl_ignoredEntries lay);
          perEntry = BLOCK + BLOCK + maxPaxBytes + (BLOCK - 1);
          unpacked = (case safe_nat (tl_unpackedBytes lay) of Some n \<Rightarrow> n | None \<Rightarrow> 0)
      in min maxDecompressedBytes (unpacked + entries * perEntry + maxEndBlocks * BLOCK))"

definition hex_char :: "char \<Rightarrow> bool" where
  "hex_char c \<longleftrightarrow> is_digit c \<or> (CHR ''a'' \<le> c \<and> c \<le> CHR ''f'') \<or> (CHR ''A'' \<le> c \<and> c \<le> CHR ''F'')"

definition sha256_text :: "string \<Rightarrow> bool" where
  "sha256_text s \<longleftrightarrow> length s = 64 \<and> list_all hex_char s"

fun check_paths :: "string list \<Rightarrow> string list \<Rightarrow> string option" where
  "check_paths seen [] = None"
| "check_paths seen (rel # rels) =
     (case unsafePackagePath rel of
        Some problem \<Rightarrow> Some (''lists '' @ printable rel @ '', which '' @ problem)
      | None \<Rightarrow>
          if js_lower rel \<in> set seen then Some (''lists '' @ printable rel @ '' twice'')
          else check_paths (js_lower rel # seen) rels)"

text \<open>The loop over the file rows: the first problem, or the total of the sizes.\<close>

fun check_sizes :: "nat \<Rightarrow> file_row list \<Rightarrow> string + nat" where
  "check_sizes acc [] = Inr acc"
| "check_sizes acc (f # fs) =
     (case safe_nat (fr_size f) of
        None \<Rightarrow> Inl (''gives '' @ printable (fr_path f) @ '' no valid size'')
      | Some n \<Rightarrow>
          if \<not> sha256_text (fr_sha256 f) then Inl (''gives '' @ printable (fr_path f) @ '' no valid SHA-256'')
          else check_sizes (acc + n) fs)"

definition parent_of :: "string \<Rightarrow> string" where
  "parent_of rel =
     (if CHR ''/'' \<in> set rel then rev (drop 1 (dropWhile (\<lambda>c. c \<noteq> CHR ''/'') (rev rel))) else [])"

fun check_parents :: "string list \<Rightarrow> string list \<Rightarrow> string option" where
  "check_parents dirs [] = None"
| "check_parents dirs (rel # rels) =
     (let parent = js_lower (parent_of rel) in
      if parent \<noteq> [] \<and> parent \<notin> set dirs then Some (''lists '' @ printable rel @ '' without its folder'')
      else check_parents dirs rels)"

definition layoutProblem :: "tar_layout \<Rightarrow> string option" where
  "layoutProblem lay =
     (let everything = layout_paths lay in
      if length everything > maxEntries then Some ''lists more than 20000 entries''
      else case check_paths [] everything of
        Some problem \<Rightarrow> Some problem
      | None \<Rightarrow>
          (case check_sizes 0 (tl_files lay) of
             Inl problem \<Rightarrow> Some problem
           | Inr sizes \<Rightarrow>
               (case check_parents (map js_lower (tl_dirs lay)) (map fr_path (tl_files lay) @ tl_dirs lay) of
                  Some problem \<Rightarrow> Some problem
                | None \<Rightarrow>
                    if \<not> list_ex (\<lambda>f. js_lower (fr_path f) = js_lower (tl_entrypoint lay)) (tl_files lay)
                    then Some ''has an entrypoint that is not a listed file''
                    else case safe_nat (tl_unpackedBytes lay) of
                      None \<Rightarrow> Some ''has an unpacked size below its files or above the bound''
                    | Some n \<Rightarrow>
                        if n < sizes \<or> n > maxDecompressedBytes
                        then Some ''has an unpacked size below its files or above the bound''
                        else None)))"

subsection \<open>CRC-32\<close>

definition crc_step :: "32 word \<Rightarrow> 32 word" where
  "crc_step c = (if c AND 1 \<noteq> 0 then 0xedb88320 XOR drop_bit 1 c else drop_bit 1 c)"

definition crcTable :: "32 word list" where
  "crcTable = map (\<lambda>n. (crc_step ^^ 8) (word_of_nat n)) [0..<256]"

text \<open>The body of the loop over the data: one table look-up per byte.\<close>

definition crc_byte :: "32 word \<Rightarrow> byte \<Rightarrow> 32 word" where
  "crc_byte crc b = crcTable ! unat ((crc XOR ucast b) AND 0xff) XOR drop_bit 8 crc"

definition crc32Fallback :: "byte list \<Rightarrow> 32 word \<Rightarrow> 32 word" where
  "crc32Fallback bs v = foldl crc_byte (v XOR 0xffffffff) bs XOR 0xffffffff"

subsection \<open>The gzip header\<close>

definition u16le :: "byte list \<Rightarrow> nat \<Rightarrow> nat" where
  "u16le bs i = unat (bs ! i) + 256 * unat (bs ! (i + 1))"

definition u32le :: "byte list \<Rightarrow> nat \<Rightarrow> nat" where
  "u32le bs i = u16le bs i + 65536 * u16le bs (i + 2)"

definition too_long :: tar_failure where
  "too_long = failure RGzip ''the gzip header is longer than UnodeAi reads''"

definition need :: "byte list \<Rightarrow> nat \<Rightarrow> nat \<Rightarrow> tar_failure + nat" where
  "need head i n = (if i + n > length head then Inl too_long else Inr i)"

definition gzip_extra :: "byte list \<Rightarrow> byte \<Rightarrow> nat \<Rightarrow> tar_failure + nat" where
  "gzip_extra head flags i =
     (if flags AND 0x04 = 0 then Inr i
      else bind_sum (need head i 2) (\<lambda>i.
           let extra = u16le head i in
           bind_sum (need head i (2 + extra)) (\<lambda>i. Inr (i + 2 + extra))))"

definition index_from :: "'a \<Rightarrow> 'a list \<Rightarrow> nat \<Rightarrow> nat option" where
  "index_from x xs i =
     (let k = length (takeWhile (\<lambda>y. y \<noteq> x) (drop i xs)) in if i + k < length xs then Some (i + k) else None)"

text \<open>The optional name and comment, each ended by a zero byte.\<close>

definition gzip_text :: "byte list \<Rightarrow> byte \<Rightarrow> byte \<Rightarrow> nat \<Rightarrow> tar_failure + nat" where
  "gzip_text head flags flag i =
     (if flags AND flag = 0 then Inr i
      else case index_from 0 head i of None \<Rightarrow> Inl too_long | Some e \<Rightarrow> Inr (e + 1))"

definition gzip_crc :: "byte list \<Rightarrow> byte \<Rightarrow> nat \<Rightarrow> tar_failure + nat" where
  "gzip_crc head flags i =
     (if flags AND 0x02 = 0 then Inr i
      else bind_sum (need head i 2) (\<lambda>i.
           if u16le head i \<noteq> unat (crc32Fallback (take i head) 0 AND 0xffff)
           then Inl (failure RGzip ''the gzip header checksum does not match'')
           else Inr (i + 2)))"

definition is_byte :: "byte list \<Rightarrow> nat \<Rightarrow> byte \<Rightarrow> bool" where
  "is_byte bs i b \<longleftrightarrow> i < length bs \<and> bs ! i = b"

definition gzipHeaderLength :: "byte list \<Rightarrow> nat \<Rightarrow> tar_failure + nat" where
  "gzipHeaderLength head fileSize =
     (if fileSize < 10 + 1 + 8 \<or> \<not> is_byte head 0 0x1f \<or> \<not> is_byte head 1 0x8b \<or> \<not> is_byte head 2 8
      then Inl (failure RGzip ''the archive is not a gzip file'')
      else let flags = head ! 3 in
        if flags AND 0xe0 \<noteq> 0 then Inl (failure RGzip ''the gzip header sets reserved flags'')
        else bind_sum (gzip_extra head flags 10) (\<lambda>i.
             bind_sum (gzip_text head flags 0x08 i) (\<lambda>i.
             bind_sum (gzip_text head flags 0x10 i) (\<lambda>i.
             bind_sum (gzip_crc head flags i) (\<lambda>i.
             if i + 1 + 8 > fileSize then Inl (failure RGzip ''the gzip file has no data'') else Inr i)))))"

subsection \<open>Tar headers\<close>

definition octal_digit :: "char \<Rightarrow> bool" where
  "octal_digit c \<longleftrightarrow> CHR ''0'' \<le> c \<and> c \<le> CHR ''7''"

definition octal_value :: "string \<Rightarrow> nat" where
  "octal_value s = foldl (\<lambda>n c. 8 * n + (of_char c - 48)) 0 s"

text \<open>The regular expression of \<open>octal\<close>: spaces, at most \<open>digits\<close> octal digits, spaces and NULs.\<close>

definition octal :: "byte list \<Rightarrow> nat \<Rightarrow> nat option" where
  "octal field digits =
     (let body = dropWhile (\<lambda>c. c = CHR '' '') (latin1 field);
          ds = takeWhile octal_digit body;
          rest = dropWhile octal_digit body
      in if ds \<noteq> [] \<and> length ds \<le> digits \<and> list_all (\<lambda>c. c = CHR '' '' \<or> c = CHR 0x00) rest
         then Some (octal_value ds) else None)"

definition REFUSED_TYPES :: "char \<Rightarrow> string option" where
  "REFUSED_TYPES c = map_of
     [(CHR ''1'', ''a hard link''), (CHR ''2'', ''a symbolic link''), (CHR ''3'', ''a character device''),
      (CHR ''4'', ''a block device''), (CHR ''6'', ''a FIFO''), (CHR ''7'', ''a contiguous file''),
      (CHR ''g'', ''a global pax header''), (CHR ''L'', ''a GNU long name''), (CHR ''K'', ''a GNU long link name'')] c"

datatype entry_kind = FileEntry | DirEntry | PaxEntry

definition entryKind :: "byte \<Rightarrow> entry_kind option" where
  "entryKind t =
     (if t = 0x30 \<or> t = 0 then Some FileEntry
      else if t = 0x35 then Some DirEntry
      else if t = 0x78 then Some PaxEntry
      else None)"

record tar_header =
  th_name :: string
  th_kind :: entry_kind
  th_size :: nat

definition field :: "byte list \<Rightarrow> nat \<Rightarrow> nat \<Rightarrow> byte list" where
  "field blk i j = take (j - i) (drop i blk)"

definition checksum :: "byte list \<Rightarrow> nat" where
  "checksum blk = sum_list (map2 (\<lambda>i b. if 148 \<le> i \<and> i < 156 then 0x20 else unat b) [0..<BLOCK] blk)"

definition header_name :: "byte list \<Rightarrow> string" where
  "header_name blk =
     (let nameEnd = index_from 0 blk 0
      in latin1 (field blk 0 (case nameEnd of None \<Rightarrow> 100 | Some e \<Rightarrow> if e > 100 then 100 else e)))"

definition refused_type :: "byte \<Rightarrow> string" where
  "refused_type t = ''the archive holds '' @ (case REFUSED_TYPES (char_of (unat t)) of
       Some what \<Rightarrow> what | None \<Rightarrow> ''an entry of type 0x'' @ hex2 (unat t))"

definition readHeader :: "byte list \<Rightarrow> tar_failure + tar_header" where
  "readHeader blk =
     (if octal (field blk 148 156) 8 \<noteq> Some (checksum blk)
      then Inl (failure RHeader ''a tar header checksum does not match'')
      else if latin1 (field blk 257 263) \<noteq> ''ustar'' @ [CHR 0x00] \<or> latin1 (field blk 263 265) \<noteq> ''00''
      then Inl (failure RHeader ''a tar header is not ustar version 00'')
      else let name = header_name blk in
        case entryKind (blk ! 156) of
          None \<Rightarrow> Inl (failure_at RType (refused_type (blk ! 156)) (printable name))
        | Some kind \<Rightarrow>
            if blk ! 124 AND 0x80 \<noteq> 0 then Inl (failure_at RHeader ''a tar header has a base-256 size'' (printable name))
            else case octal (field blk 124 136) 12 of
              None \<Rightarrow> Inl (failure_at RHeader ''a tar header has a malformed size'' (printable name))
            | Some n \<Rightarrow>
                if \<not> list_all (\<lambda>b. b = 0) (field blk 345 500)
                then Inl (failure_at RHeader ''a tar header uses the prefix field'' (printable name))
                else Inr \<lparr>th_name = name, th_kind = kind, th_size = n\<rparr>)"

subsection \<open>Pax records\<close>

definition decimal_value :: "string \<Rightarrow> nat" where
  "decimal_value s = foldl (\<lambda>n c. 10 * n + (of_char c - 48)) 0 s"

text \<open>\<open>^[1-9]\d{0,4}$\<close>\<close>

definition pax_length :: "string \<Rightarrow> bool" where
  "pax_length s \<longleftrightarrow> s \<noteq> [] \<and> length s \<le> 5 \<and> list_all is_digit s \<and> hd s \<noteq> CHR ''0''"

text \<open>The record that starts at \<open>i\<close>: its key and where the next one starts.\<close>

definition pax_record :: "byte list \<Rightarrow> nat \<Rightarrow> (string \<times> nat) option" where
  "pax_record data i =
     (let lengthText = (case index_from 0x20 data i of None \<Rightarrow> [] | Some sp \<Rightarrow> latin1 (field data i sp));
          sp = i + length lengthText; e = i + decimal_value lengthText
      in if \<not> pax_length lengthText then None
         else if e > length data \<or> e \<le> sp + 1 \<or> data ! (e - 1) \<noteq> 0x0a then None
         else let rec = latin1 (field data (sp + 1) (e - 1)) in
           case index_from CHR ''='' rec 0 of
             None \<Rightarrow> None
           | Some 0 \<Rightarrow> None
           | Some k \<Rightarrow> Some (take k rec, e))"

lemma pax_record_advances: "pax_record data i = Some (key, e) \<Longrightarrow> i < e \<and> e \<le> length data"
  by (auto simp: pax_record_def Let_def split: if_splits option.splits nat.splits)

function check_pax_from :: "byte list \<Rightarrow> string \<Rightarrow> nat \<Rightarrow> tar_failure option" where
  "check_pax_from data entry i =
     (if i < length data then
        (case pax_record data i of
           None \<Rightarrow> Some (failure_at RPax ''a pax record is malformed'' entry)
         | Some (key, e) \<Rightarrow>
             if key \<noteq> ''mtime'' then Some (failure_at RPax (''the archive sets the pax key '' @ printable key) entry)
             else check_pax_from data entry e)
      else None)"
  by pat_completeness auto

termination
  by (relation "measure (\<lambda>(data, entry, i). length data - i)") (auto dest!: pax_record_advances)

declare check_pax_from.simps [simp del]

definition checkPax :: "byte list \<Rightarrow> string \<Rightarrow> tar_failure option" where
  "checkPax data entry = check_pax_from data entry 0"

unbundle bit_operations_syntax

subsection \<open>Reading back what a writer of the format wrote\<close>

lemma of_char_less [simp]: "(of_char c :: nat) < 256"
  by (metis of_char_mod_256 mod_less_divisor zero_less_numeral)

lemma unat_byte [simp]: "unat (word_of_nat (of_char c) :: byte) = of_char c"
  by (simp add: unsigned_of_nat take_bit_nat_eq_self)

lemma latin1_bytes_of [simp]: "latin1 (bytes_of s) = s"
  by (induction s) (simp_all add: latin1_def bytes_of_def)

lemma latin1_append [simp]: "latin1 (a @ b) = latin1 a @ latin1 b" "latin1 [] = []"
  by (simp_all add: latin1_def)

lemma length_bytes_of [simp]: "length (bytes_of s) = length s"
  by (simp add: bytes_of_def)

primrec octal_digits :: "nat \<Rightarrow> nat \<Rightarrow> string" where
  "octal_digits 0 n = []"
| "octal_digits (Suc k) n = octal_digits k (n div 8) @ [char_of (48 + n mod 8)]"

lemma length_octal_digits [simp]: "length (octal_digits k n) = k"
  by (induction k arbitrary: n) simp_all

lemma octal_digit_char: "octal_digit (char_of (48 + n mod 8 :: nat))"
proof -
  have "n mod 8 < 8" by simp
  then show ?thesis by (simp add: octal_digit_def less_eq_char_def of_char_of)
qed

lemma octal_digits_all: "list_all octal_digit (octal_digits k n)"
  by (induction k arbitrary: n) (simp_all add: octal_digit_char)

lemma octal_value_snoc: "octal_value (s @ [c]) = 8 * octal_value s + (of_char c - 48)"
  by (simp add: octal_value_def)

lemma octal_value_digits: "octal_value (octal_digits k n) = n mod 8 ^ k"
proof (induction k arbitrary: n)
  case 0
  show ?case by (simp add: octal_value_def)
next
  case (Suc k)
  have "(of_char (char_of (48 + n mod 8 :: nat)) :: nat) = 48 + n mod 8" by (simp add: of_char_of)
  then show ?case using Suc [of "n div 8"] by (simp add: octal_value_snoc mod_mult2_eq)
qed

lemma octal_digit_not_space: "octal_digit c \<Longrightarrow> c \<noteq> CHR '' '' \<and> c \<noteq> CHR 0x00"
  by (auto simp: octal_digit_def less_eq_char_def)

lemma latin1_ends: "latin1 [] = []" "latin1 [0] = [CHR 0x00]" "latin1 [0, 0x20] = [CHR 0x00, CHR '' '']"
  by code_simp+

lemma octal_roundtrip:
  assumes "0 < k" "k \<le> digits" "n < 8 ^ k" "rest = [] \<or> rest = [0] \<or> rest = [0, 0x20]"
  shows "octal (bytes_of (octal_digits k n) @ rest) digits = Some n"
proof -
  let ?d = "octal_digits k n"
  have all: "\<forall>c\<in>set ?d. octal_digit c" using octal_digits_all by (simp add: list_all_iff)
  have ne: "?d \<noteq> []" using assms(1) by (metis length_0_conv length_octal_digits less_irrefl)
  have hd: "hd ?d \<noteq> CHR '' ''" using all ne octal_digit_not_space by (meson list.set_sel(1))
  have r: "latin1 rest = [] \<or> latin1 rest = [CHR 0x00] \<or> latin1 rest = [CHR 0x00, CHR '' '']"
    using assms(4) latin1_ends by blast
  have nr: "\<not> octal_digit (CHR 0x00)" by (simp add: octal_digit_def less_eq_char_def)
  have b: "dropWhile (\<lambda>c. c = CHR '' '') (?d @ latin1 rest) = ?d @ latin1 rest"
    using ne hd by (cases ?d) simp_all
  have t: "takeWhile octal_digit (?d @ latin1 rest) = ?d" "dropWhile octal_digit (?d @ latin1 rest) = latin1 rest"
    using all r nr by (auto simp: takeWhile_append dropWhile_append)
  show ?thesis using assms(2,3) ne r
    by (auto simp: octal_def Let_def b t octal_value_digits)
qed

text \<open>A header block as a writer of the format fills it in, with every field the reader looks at.\<close>

definition kind_flag :: "entry_kind \<Rightarrow> byte" where
  "kind_flag k = (case k of FileEntry \<Rightarrow> 0x30 | DirEntry \<Rightarrow> 0x35 | PaxEntry \<Rightarrow> 0x78)"

definition header_front :: "string \<Rightarrow> nat \<Rightarrow> byte list" where
  "header_front name n = bytes_of name @ replicate (124 - length name) 0 @ bytes_of (octal_digits 11 n) @ replicate 13 0"

definition header_back :: "entry_kind \<Rightarrow> byte list" where
  "header_back k = [kind_flag k] @ replicate 100 0 @ bytes_of ''ustar'' @ [0] @ bytes_of ''00'' @ replicate 247 0"

definition ustar_header :: "string \<Rightarrow> entry_kind \<Rightarrow> nat \<Rightarrow> byte list" where
  "ustar_header name k n =
     header_front name n
     @ bytes_of (octal_digits 6 (sum_list (map unat (header_front name n)) + 256 + sum_list (map unat (header_back k)))) @ [0, 0x20]
     @ header_back k"

lemma map2_sum_const:
  "(\<And>i. i \<in> set is \<Longrightarrow> f i = (\<lambda>b. unat b)) \<Longrightarrow> length is = length bs \<Longrightarrow>
     sum_list (map2 f is bs) = sum_list (map unat (bs :: byte list))"
  by (induction "is" bs rule: list_induct2') auto

lemma map2_const:
  "(\<And>i. i \<in> set is \<Longrightarrow> f i = (\<lambda>_. k)) \<Longrightarrow> length is = length bs \<Longrightarrow> sum_list (map2 f is bs) = k * (length bs :: nat)"
  by (induction "is" bs rule: list_induct2') auto

lemma checksum_split:
  assumes "length a = 148" "length c = 8" "length b = 356"
  shows "checksum (a @ c @ b) = sum_list (map unat a) + 256 + sum_list (map unat b)"
proof -
  let ?f = "\<lambda>(i::nat) (b::byte). if 148 \<le> i \<and> i < 156 then (0x20::nat) else unat b"
  have u: "[0..<BLOCK] = [0..<148] @ [148..<156] @ [156..<512]"
    by (simp add: BLOCK_def upt_add_eq_append [of 0 148 364, simplified] upt_add_eq_append [of 148 156 356, simplified])
  have 1: "sum_list (map2 ?f [0..<148] a) = sum_list (map unat a)"
    by (rule map2_sum_const) (simp_all only: set_upt atLeastLessThan_iff length_upt assms, auto)
  have 2: "sum_list (map2 ?f [156..<512] b) = sum_list (map unat b)"
    by (rule map2_sum_const) (simp_all only: set_upt atLeastLessThan_iff length_upt assms, auto)
  have 3: "sum_list (map2 ?f [148..<156] c) = 0x20 * length c"
    by (rule map2_const) (simp_all only: set_upt atLeastLessThan_iff length_upt assms, auto)
  have l: "length [0..<148] = length a" "length [148..<156] = length c" by (simp_all only: length_upt assms)
  show ?thesis unfolding checksum_def u zip_append [OF l(1)] zip_append [OF l(2)] map_append sum_list_append 1 2 3
    by (simp add: assms)
qed

lemma sum_bytes_le: "sum_list (map unat (bs :: byte list)) \<le> 255 * length bs"
proof (induction bs)
  case (Cons b bs)
  have "unat b < 256" using unsigned_less [of b] by simp
  with Cons show ?case by simp
qed simp

lemma length_header_front: "length name \<le> 100 \<Longrightarrow> length (header_front name n) = 148"
  by (simp add: header_front_def)

lemma length_header_back: "length (header_back k) = 356"
  by (simp add: header_back_def)

lemma length_ustar_header: "length name \<le> 100 \<Longrightarrow> length (ustar_header name k n) = 512"
  by (simp add: ustar_header_def length_header_front length_header_back)

lemma field_append: "field (a @ b) i j = (if j \<le> length a then field a i j
    else if length a \<le> i then field b (i - length a) (j - length a)
    else drop i a @ take (j - length a) b)"
  by (auto simp: field_def)

lemma field_skip: "field (p @ r) (length p + i) (length p + j) = field r i j"
  by (simp add: field_def)

lemma sum_list_zeros: "sum_list (map unat (replicate n (0 :: byte))) = 0"
  by (induction n) simp_all

lemma bytes_of_no_zero: "CHR 0x00 \<notin> set s \<Longrightarrow> 0 \<notin> set (bytes_of s)"
proof
  assume a: "CHR 0x00 \<notin> set s" "0 \<in> set (bytes_of s)"
  then obtain c where c: "c \<in> set s" "(word_of_nat (of_char c) :: byte) = 0" by (auto simp: bytes_of_def)
  then have "(of_char c :: nat) = 0" using unat_byte [of c] by simp
  then have "of_char c = (of_char (CHR 0x00) :: nat)" by simp
  then have "c = CHR 0x00" by (simp only: of_char_eq_iff)
  then show False using a c by simp
qed

lemma header_name_ustar:
  assumes "length name \<le> 100" "CHR 0x00 \<notin> set name"
  shows "header_name (bytes_of name @ replicate (124 - length name) 0 @ rest) = name"
proof -
  have t: "takeWhile (\<lambda>y. y \<noteq> 0) (bytes_of name @ replicate (124 - length name) 0 @ rest) = bytes_of name"
  proof -
    have "0 < 124 - length name" using assms(1) by simp
    then obtain m where m: "124 - length name = Suc m" by (metis gr0_implies_Suc)
    show ?thesis unfolding m using bytes_of_no_zero [OF assms(2)] by (subst takeWhile_append2) auto
  qed
  show ?thesis using assms(1)
    by (simp add: header_name_def index_from_def Let_def t field_def)
qed

lemma kind_flag: "entryKind (kind_flag k) = Some k"
  by (cases k) (simp_all add: entryKind_def kind_flag_def)

lemma first_size_byte: "bytes_of (octal_digits 11 n) ! 0 AND 0x80 = 0"
proof -
  have "octal_digits 11 n ! 0 \<in> set (octal_digits 11 n)" by simp
  then have d: "octal_digit (octal_digits 11 n ! 0)" using octal_digits_all [of 11 n] by (simp only: list_all_iff)
  obtain c where c: "c = octal_digits 11 n ! 0" by simp
  have "(of_char c :: nat) \<in> {48..55}" using d by (simp add: c octal_digit_def less_eq_char_def)
  then have "(of_char c :: nat) \<in> {48,49,50,51,52,53,54,55}" by auto
  then have "(word_of_nat (of_char c) :: byte) AND 0x80 = 0" by auto
  moreover have "bytes_of (octal_digits 11 n) ! 0 = word_of_nat (of_char c)" by (simp add: bytes_of_def c)
  ultimately show ?thesis by simp
qed

lemma header_back_fields:
  "length a = 156 \<Longrightarrow> latin1 (field (a @ header_back k) 257 263) = ''ustar'' @ [CHR 0x00]"
  "length a = 156 \<Longrightarrow> latin1 (field (a @ header_back k) 263 265) = ''00''"
  "length a = 156 \<Longrightarrow> (a @ header_back k) ! 156 = kind_flag k"
  "length a = 156 \<Longrightarrow> field (a @ header_back k) 345 500 = replicate 155 0"
proof -
  assume a: "length a = 156"
  let ?z = "replicate 100 (0 :: byte)"
  have f: "field (a @ header_back k) i j = field (header_back k) (i - 156) (j - 156)" if "156 \<le> i" "156 < j" for i j
    using a that by (simp add: field_append)
  have b: "field (header_back k) (101 + i) (101 + j) = field (bytes_of ''ustar'' @ [0] @ bytes_of ''00'' @ replicate 247 0) i j" for i j
    using field_skip [of "kind_flag k # replicate 100 0" _ i j] by (simp add: header_back_def)
  show "latin1 (field (a @ header_back k) 257 263) = ''ustar'' @ [CHR 0x00]"
    using f [of 257 263] b [of 0 6] latin1_ends(2) by (simp add: field_def)
  show "latin1 (field (a @ header_back k) 263 265) = ''00''"
    using f [of 263 265] b [of 6 8] by (simp add: field_def)
  show "(a @ header_back k) ! 156 = kind_flag k"
    using a by (simp add: nth_append header_back_def)
  show "field (a @ header_back k) 345 500 = replicate 155 0"
    using f [of 345 500] b [of 88 243] by (simp add: field_def)
qed

lemma readHeader_ustar:
  assumes "length name \<le> 100" "CHR 0x00 \<notin> set name" "n < 8 ^ 11"
  shows "readHeader (ustar_header name k n) = Inr \<lparr>th_name = name, th_kind = k, th_size = n\<rparr>"
proof -
  let ?fr = "header_front name n" and ?bk = "header_back k"
  let ?c = "sum_list (map unat ?fr) + 256 + sum_list (map unat ?bk)"
  let ?ck = "bytes_of (octal_digits 6 ?c) @ [0, 0x20]"
  have h: "ustar_header name k n = ?fr @ ?ck @ ?bk" "ustar_header name k n = (?fr @ ?ck) @ ?bk"
    by (simp_all add: ustar_header_def)
  have lf: "length ?fr = 148" "length ?bk = 356" "length ?ck = 8" "length (?fr @ ?ck) = 156"
    using length_header_front [OF assms(1)] length_header_back by simp_all
  have cs: "checksum (ustar_header name k n) = ?c" unfolding h(1) by (rule checksum_split) (simp_all only: lf)
  have "?c \<le> 255 * 148 + 256 + 255 * 356" using sum_bytes_le [of ?fr] sum_bytes_le [of ?bk] lf by simp
  then have small: "?c < 8 ^ 6" by simp
  have f1: "field (ustar_header name k n) 148 156 = ?ck" unfolding h(1) using lf by (simp add: field_append)
  have o1: "octal ?ck 8 = Some ?c" by (rule octal_roundtrip) (use small in simp_all)
  have f2: "field (ustar_header name k n) 124 136 = bytes_of (octal_digits 11 n) @ [0]"
    using assms(1) unfolding h(1) by (simp add: field_def header_front_def)
  have o2: "octal (bytes_of (octal_digits 11 n) @ [0]) 12 = Some n" by (rule octal_roundtrip) (use assms(3) in simp_all)
  have f3: "ustar_header name k n ! 124 AND 0x80 = 0"
    using assms(1) first_size_byte [of n] unfolding h(1) by (simp add: nth_append header_front_def)
  have nm: "header_name (ustar_header name k n) = name"
    using header_name_ustar [OF assms(1,2)] unfolding h(1) header_front_def by simp
  note b = header_back_fields [OF lf(4), of k, folded h(2)]
  show ?thesis
    by (simp add: readHeader_def f1 o1 cs b nm kind_flag f3 f2 o2 Let_def list_all_iff)
qed

end
