(* ===== verification/TarReader.thy ===== *)
theory TarReader
  imports TarFormat
begin

unbundle bit_operations_syntax

text \<open>
  The streaming part of the CLI package reader (\<open>src/src/host/cliDelivery/tarReader.ts\<close>): the
  file-system calls it makes, the USTAR state machine \<open>TarExtraction\<close> over the decompressed bytes,
  and \<open>extractTarGz\<close> around it.

  The file system is a map from absolute paths (their segments) to nodes, with the two rules the
  reader depends on: nothing is created over an existing node or outside an existing folder. What else
  can go wrong there (a full disk, a denied permission), how many bytes one \<open>write\<close> call takes, when
  the abort signal fires and SHA-256 are parameters, collected in one record.
\<close>

subsection \<open>The file system\<close>

type_synonym path = "string list"

datatype fs_node = Folder | RegularFile "byte list" | SymbolicLink

record file_system =
  nodes :: "(path, fs_node) jsmap"

text \<open>An error thrown by a file-system call; its \<open>code\<close> may be absent.\<close>

datatype os_error = OsError "string option"

record tar_env =
  te_mkdir :: "path \<Rightarrow> os_error option"
  te_open :: "path \<Rightarrow> os_error option"
  te_write :: "path \<Rightarrow> nat \<Rightarrow> os_error option"
  te_burst :: nat
  te_close :: "path \<Rightarrow> os_error option"
  te_aborted :: "nat \<Rightarrow> bool"
  te_sha256 :: "byte list \<Rightarrow> string"

definition node_at :: "file_system \<Rightarrow> path \<Rightarrow> fs_node option" where
  "node_at fs p = (if p = [] then Some Folder else js_get (nodes fs) p)"

definition put_node :: "path \<Rightarrow> fs_node \<Rightarrow> file_system \<Rightarrow> file_system" where
  "put_node p n fs = fs\<lparr>nodes := js_set p n (nodes fs)\<rparr>"

definition create_node :: "path \<Rightarrow> fs_node \<Rightarrow> file_system \<Rightarrow> os_error + file_system" where
  "create_node p n fs =
     (if node_at fs p \<noteq> None then Inl (OsError (Some ''EEXIST''))
      else case node_at fs (butlast p) of
        None \<Rightarrow> Inl (OsError (Some ''ENOENT''))
      | Some Folder \<Rightarrow> Inr (put_node p n fs)
      | Some _ \<Rightarrow> Inl (OsError (Some ''ENOTDIR'')))"

definition fs_mkdir :: "tar_env \<Rightarrow> path \<Rightarrow> file_system \<Rightarrow> os_error + file_system" where
  "fs_mkdir env p fs = (case te_mkdir env p of Some e \<Rightarrow> Inl e | None \<Rightarrow> create_node p Folder fs)"

text \<open>\<open>open(p, 'wx')\<close>\<close>

definition fs_open_new :: "tar_env \<Rightarrow> path \<Rightarrow> file_system \<Rightarrow> os_error + file_system" where
  "fs_open_new env p fs = (case te_open env p of Some e \<Rightarrow> Inl e | None \<Rightarrow> create_node p (RegularFile []) fs)"

definition store_at :: "byte list \<Rightarrow> nat \<Rightarrow> byte list \<Rightarrow> byte list" where
  "store_at bs off data = take off (bs @ replicate (off - length bs) 0) @ data @ drop (off + length data) bs"

definition store :: "path \<Rightarrow> nat \<Rightarrow> byte list \<Rightarrow> file_system \<Rightarrow> file_system" where
  "store p off data fs = (case node_at fs p of
       Some (RegularFile bs) \<Rightarrow> put_node p (RegularFile (store_at bs off data)) fs
     | _ \<Rightarrow> fs)"

text \<open>How many of the next \<open>n\<close> bytes one \<open>write\<close> call takes: at most \<open>te_burst\<close>, and none from
  the first byte the file system cannot store.\<close>

definition good_run :: "tar_env \<Rightarrow> path \<Rightarrow> nat \<Rightarrow> nat \<Rightarrow> nat" where
  "good_run env p off n = length (takeWhile (\<lambda>i. te_write env p i = None) [off..<off + n])"

definition fs_write :: "tar_env \<Rightarrow> path \<Rightarrow> byte list \<Rightarrow> nat \<Rightarrow> file_system \<Rightarrow> os_error + nat \<times> file_system" where
  "fs_write env p piece off fs = (case te_write env p off of
       Some e \<Rightarrow> Inl e
     | None \<Rightarrow> let n = min (te_burst env) (good_run env p off (length piece))
               in Inr (n, store p off (take n piece) fs))"

subsection \<open>Paths below the payload folder\<close>

text \<open>\<open>path.join\<close> on segments: empty and dot segments vanish, a double dot removes one.\<close>

definition join_segment :: "path \<Rightarrow> string \<Rightarrow> path" where
  "join_segment p seg =
     (if seg = [] \<or> seg = ''.'' then p else if seg = ''..'' then butlast p else p @ [seg])"

definition target :: "path \<Rightarrow> string \<Rightarrow> path" where
  "target payloadDir rel = foldl join_segment payloadDir (split_on CHR ''/'' rel)"

subsection \<open>The state of an extraction\<close>

record open_file =
  of_rel :: string
  of_entry :: string
  of_left :: nat
  of_at :: nat
  of_hashed :: "byte list"
  of_sha256 :: string

datatype tar_mode =
    InHeader
  | InFile open_file
  | InPax nat "byte list" string
  | InSkip nat
  | AtEnd

record tar_state =
  written :: "string list"
  entries :: nat
  dirs :: nat
  files :: nat
  ignored :: nat
  mode :: tar_mode
  pad :: nat
  block :: "byte list"
  zeroBlocks :: nat
  paxPending :: "string option"
  seen :: "string list"
  headers :: nat

text \<open>\<open>headers\<close> counts the headers read; it only says at which moment the abort signal is asked.\<close>

definition new_extraction :: tar_state where
  "new_extraction =
     \<lparr>written = [], entries = 0, dirs = 0, files = 0, ignored = 0, mode = InHeader, pad = 0, block = [],
      zeroBlocks = 0, paxPending = None, seen = [], headers = 0\<rparr>"

text \<open>An extraction that goes on, or the failure it threw with the paths it had created.\<close>

datatype tar_outcome =
    Reading tar_state file_system
  | Refused tar_failure "string list" file_system

record tar_request =
  tr_payloadDir :: path
  tr_layout :: tar_layout
  tr_env :: tar_env

definition fileRow :: "tar_layout \<Rightarrow> string \<Rightarrow> file_row option" where
  "fileRow lay key = find (\<lambda>f. js_lower (fr_path f) = key) (rev (tl_files lay))"

definition dirRow :: "tar_layout \<Rightarrow> string \<Rightarrow> string option" where
  "dirRow lay key = find (\<lambda>d. js_lower d = key) (rev (tl_dirs lay))"

definition ignoredRow :: "tar_layout \<Rightarrow> string \<Rightarrow> bool" where
  "ignoredRow lay key \<longleftrightarrow> key \<in> set (map js_lower (tl_ignoredEntries lay))"

definition code_suffix :: "os_error \<Rightarrow> string" where
  "code_suffix e = (case e of
       OsError (Some c) \<Rightarrow> if c = [] then [] else '' ('' @ c @ '')'' | OsError None \<Rightarrow> [])"

definition create_failure :: "string \<Rightarrow> os_error \<Rightarrow> tar_failure" where
  "create_failure entry e =
     (if e = OsError (Some ''ENOENT'') then failure_at RParentMissing ''an entry comes before its folder'' entry
      else if e = OsError (Some ''EEXIST'') then failure_at RExists ''something already exists at an entry path'' entry
      else failure_at RFile (''an entry could not be created'' @ code_suffix e) entry)"

subsection \<open>Writing and closing a file\<close>

lemma good_run_le: "good_run env p off n \<le> n"
proof -
  have "length (takeWhile (\<lambda>i. te_write env p i = None) [off..<off + n]) \<le> length [off..<off + n]"
    by (rule length_takeWhile_le)
  then show ?thesis by (simp add: good_run_def)
qed

lemma fs_write_bound: "fs_write env p piece off fs = Inr (n, fs') \<Longrightarrow> n \<le> length piece"
  using good_run_le [of env p off "length piece"] by (auto simp: fs_write_def Let_def split: option.splits)

text \<open>The loop of \<open>writeFile\<close> over partial writes; \<open>piece\<close> is what is left of the piece.\<close>

function write_all :: "tar_env \<Rightarrow> path \<Rightarrow> byte list \<Rightarrow> nat \<Rightarrow> file_system \<Rightarrow> (os_error \<times> file_system) + file_system" where
  "write_all env p piece off fs =
     (if piece = [] then Inr fs
      else case fs_write env p piece off fs of
        Inl e \<Rightarrow> Inl (e, fs)
      | Inr (n, fs') \<Rightarrow>
          if n = 0 then Inl (OsError None, fs')
          else write_all env p (drop n piece) (off + n) fs')"
  by pat_completeness auto

termination
  by (relation "measure (\<lambda>(env, p, piece, off, fs). length piece)") auto

declare write_all.simps [simp del]

definition writeFile :: "tar_request \<Rightarrow> tar_state \<Rightarrow> open_file \<Rightarrow> byte list \<Rightarrow> file_system \<Rightarrow> tar_outcome" where
  "writeFile q s f piece fs =
     (case write_all (tr_env q) (target (tr_payloadDir q) (of_rel f)) piece (of_at f) fs of
        Inl (e, fs') \<Rightarrow>
          Refused (failure_at RFile (''a file could not be written'' @ code_suffix e) (of_entry f)) (written s) fs'
      | Inr fs' \<Rightarrow>
          Reading (s\<lparr>mode := InFile (f\<lparr>of_hashed := of_hashed f @ piece, of_at := of_at f + length piece\<rparr>)\<rparr>) fs')"

definition end_file :: "tar_request \<Rightarrow> tar_state \<Rightarrow> open_file \<Rightarrow> file_system \<Rightarrow> tar_outcome" where
  "end_file q s f fs =
     (case te_close (tr_env q) (target (tr_payloadDir q) (of_rel f)) of
        Some e \<Rightarrow> Refused (failure_at RFile (''a file could not be closed'' @ code_suffix e) (of_entry f)) (written s) fs
      | None \<Rightarrow>
          if te_sha256 (tr_env q) (of_hashed f) \<noteq> of_sha256 f
          then Refused (failure_at RDigest ''a file has another SHA-256 than the layout lists'' (of_entry f)) (written s) fs
          else Reading (s\<lparr>mode := InHeader, files := files s + 1\<rparr>) fs)"

definition end_pax :: "tar_state \<Rightarrow> byte list \<Rightarrow> string \<Rightarrow> file_system \<Rightarrow> tar_outcome" where
  "end_pax s data entry fs =
     (case checkPax data entry of
        Some e \<Rightarrow> Refused e (written s) fs
      | None \<Rightarrow> Reading (s\<lparr>mode := InHeader\<rparr>) fs)"

subsection \<open>One header block\<close>

definition on_pax :: "tar_state \<Rightarrow> tar_header \<Rightarrow> file_system \<Rightarrow> tar_outcome" where
  "on_pax s h fs =
     (let entry = printable (th_name h) in
      if paxPending s \<noteq> None
      then Refused (failure_at RPax ''two pax headers follow each other'' entry) (written s) fs
      else if th_size h = 0 \<or> th_size h > maxPaxBytes
      then Refused (failure_at RPax ''a pax header is empty or larger than UnodeAi reads'' entry) (written s) fs
      else Reading (s\<lparr>paxPending := Some entry, mode := InPax (th_size h) [] entry\<rparr>) fs)"

definition on_dir :: "tar_request \<Rightarrow> tar_state \<Rightarrow> tar_header \<Rightarrow> string \<Rightarrow> file_system \<Rightarrow> tar_outcome" where
  "on_dir q s h key fs =
     (let entry = printable (th_name h) in
      case dirRow (tr_layout q) key of
        None \<Rightarrow> Refused (failure_at RUnlisted ''the layout does not list this folder'' entry) (written s) fs
      | Some d \<Rightarrow>
          if th_size h \<noteq> 0 then Refused (failure_at RSize ''a folder entry carries data'' entry) (written s) fs
          else case fs_mkdir (tr_env q) (target (tr_payloadDir q) d) fs of
            Inl e \<Rightarrow> Refused (create_failure entry e) (written s) fs
          | Inr fs' \<Rightarrow> Reading (s\<lparr>written := written s @ [d], dirs := dirs s + 1, mode := InHeader\<rparr>) fs')"

definition on_file :: "tar_request \<Rightarrow> tar_state \<Rightarrow> tar_header \<Rightarrow> string \<Rightarrow> file_system \<Rightarrow> tar_outcome" where
  "on_file q s h key fs =
     (let entry = printable (th_name h) in
      case fileRow (tr_layout q) key of
        None \<Rightarrow> Refused (failure_at RUnlisted ''the layout does not list this file'' entry) (written s) fs
      | Some row \<Rightarrow>
          if fr_size row \<noteq> Fin (of_nat (th_size h))
          then Refused (failure_at RSize ''a file has another size than the layout lists'' entry) (written s) fs
          else case fs_open_new (tr_env q) (target (tr_payloadDir q) (fr_path row)) fs of
            Inl e \<Rightarrow> Refused (create_failure entry e) (written s) fs
          | Inr fs' \<Rightarrow>
              let f = \<lparr>of_rel = fr_path row, of_entry = entry, of_left = th_size h, of_at = 0, of_hashed = [],
                       of_sha256 = js_lower (fr_sha256 row)\<rparr>;
                  s' = s\<lparr>written := written s @ [fr_path row], mode := InFile f\<rparr>
              in if th_size h = 0 then end_file q s' f fs' else Reading s' fs')"

definition entry_rel :: "tar_header \<Rightarrow> string" where
  "entry_rel h = (if th_kind h = DirEntry \<and> ends_with (th_name h) ''/'' then butlast (th_name h) else th_name h)"

definition on_entry :: "tar_request \<Rightarrow> tar_state \<Rightarrow> tar_header \<Rightarrow> file_system \<Rightarrow> tar_outcome" where
  "on_entry q s h fs =
     (let entry = printable (th_name h);
          s1 = s\<lparr>paxPending := None, entries := entries s + 1\<rparr>;
          rel = entry_rel h; key = js_lower rel
      in if entries s1 > maxEntries
         then Refused (failure_at RBounds ''the archive has more than 20000 entries'' entry) (written s) fs
         else case unsafePackagePath rel of
           Some problem \<Rightarrow> Refused (failure_at RName (''an entry name '' @ problem) entry) (written s) fs
         | None \<Rightarrow>
             if key \<in> set (seen s1)
             then Refused (failure_at RDuplicate ''two entries have the same name, compared case-insensitively'' entry) (written s) fs
             else let s2 = s1\<lparr>seen := key # seen s1\<rparr> in
               if ignoredRow (tr_layout q) key
               then Reading (s2\<lparr>ignored := ignored s2 + 1, mode := (if th_size h > 0 then InSkip (th_size h) else InHeader)\<rparr>) fs
               else if th_kind h = DirEntry then on_dir q s2 h key fs
               else on_file q s2 h key fs)"

definition onBlock :: "tar_request \<Rightarrow> tar_state \<Rightarrow> byte list \<Rightarrow> file_system \<Rightarrow> tar_outcome" where
  "onBlock q s blk fs =
     (if list_all (\<lambda>b. b = 0) blk
      then (case paxPending s of
          Some entry \<Rightarrow> Refused (failure_at RPax ''a pax header has no entry after it'' entry) (written s) fs
        | None \<Rightarrow> Reading (s\<lparr>zeroBlocks := zeroBlocks s + 1,
              mode := (if zeroBlocks s + 1 = 2 then AtEnd else mode s)\<rparr>) fs)
      else if zeroBlocks s > 0 then Refused (failure RHeader ''the archive has a lone zero block'') (written s) fs
      else if te_aborted (tr_env q) (headers s)
      then Refused (failure RCancelled ''the extraction was cancelled'') (written s) fs
      else case readHeader blk of
        Inl e \<Rightarrow> Refused e (written s) fs
      | Inr h \<Rightarrow>
          let s1 = s\<lparr>pad := (BLOCK - th_size h mod BLOCK) mod BLOCK, headers := headers s + 1\<rparr>
          in if th_kind h = PaxEntry then on_pax s1 h fs else on_entry q s1 h fs)"

subsection \<open>The loop over a chunk\<close>

text \<open>\<open>endEntry\<close>, called when nothing of the current entry's data is left.\<close>

definition endEntry :: "tar_request \<Rightarrow> tar_outcome \<Rightarrow> tar_outcome" where
  "endEntry q out = (case out of
       Refused e w fs \<Rightarrow> out
     | Reading s fs \<Rightarrow>
         (case mode s of
            InFile f \<Rightarrow> if of_left f = 0 then end_file q s f fs else out
          | InPax left data entry \<Rightarrow> if left = 0 then end_pax s data entry fs else out
          | InSkip left \<Rightarrow> if left = 0 then Reading (s\<lparr>mode := InHeader\<rparr>) fs else out
          | _ \<Rightarrow> out))"

definition data_left :: "tar_mode \<Rightarrow> nat" where
  "data_left m = (case m of InFile f \<Rightarrow> of_left f | InPax left _ _ \<Rightarrow> left | InSkip left \<Rightarrow> left | _ \<Rightarrow> 0)"

definition take_data :: "tar_request \<Rightarrow> tar_state \<Rightarrow> byte list \<Rightarrow> file_system \<Rightarrow> tar_outcome" where
  "take_data q s piece fs = (case mode s of
       InFile f \<Rightarrow> writeFile q s (f\<lparr>of_left := of_left f - length piece\<rparr>) piece fs
     | InPax left data entry \<Rightarrow> Reading (s\<lparr>mode := InPax (left - length piece) (data @ piece) entry\<rparr>) fs
     | InSkip left \<Rightarrow> Reading (s\<lparr>mode := InSkip (left - length piece)\<rparr>) fs
     | _ \<Rightarrow> Reading s fs)"

definition after_end :: "tar_state \<Rightarrow> byte list \<Rightarrow> file_system \<Rightarrow> tar_outcome" where
  "after_end s chunk fs =
     (if list_all (\<lambda>b. b = 0) chunk then Reading s fs
      else Refused (failure RAfterEnd ''the archive has data after its end blocks'') (written s) fs)"

text \<open>What keeps the loop going: no entry data is owed and no block is full between two rounds.\<close>

definition owes_data :: "tar_mode \<Rightarrow> bool" where
  "owes_data m = (case m of InFile f \<Rightarrow> True | InPax _ _ _ \<Rightarrow> True | InSkip _ \<Rightarrow> True | _ \<Rightarrow> False)"

definition ready :: "tar_state \<Rightarrow> bool" where
  "ready s \<longleftrightarrow> length (block s) < BLOCK \<and> (owes_data (mode s) \<longrightarrow> 0 < data_left (mode s))"

definition settled :: "tar_outcome \<Rightarrow> bool" where
  "settled out = (case out of Reading s fs \<Rightarrow> ready s | Refused _ _ _ \<Rightarrow> True)"

lemma BLOCK_pos [simp]: "0 < BLOCK" by (simp add: BLOCK_def)

lemma settled_simps [simp]: "settled (Reading s fs) = ready s" "settled (Refused e w fs)"
  by (simp_all add: settled_def)

lemma ready_header: "mode s = InHeader \<or> mode s = AtEnd \<Longrightarrow> length (block s) < BLOCK \<Longrightarrow> ready s"
  by (auto simp: ready_def owes_data_def)

lemma settled_end_file: "length (block s) < BLOCK \<Longrightarrow> settled (end_file q s f fs)"
  by (simp add: end_file_def ready_header split: option.split)

lemma settled_on_pax: "length (block s) < BLOCK \<Longrightarrow> settled (on_pax s h fs)"
  by (simp add: on_pax_def Let_def ready_def owes_data_def data_left_def)

lemma settled_on_dir: "length (block s) < BLOCK \<Longrightarrow> settled (on_dir q s h key fs)"
  by (simp add: on_dir_def Let_def ready_header split: option.split sum.split)

lemma settled_on_file: "length (block s) < BLOCK \<Longrightarrow> settled (on_file q s h key fs)"
  by (simp add: on_file_def Let_def settled_end_file ready_def owes_data_def data_left_def split: option.split sum.split)

lemma settled_on_entry: "length (block s) < BLOCK \<Longrightarrow> settled (on_entry q s h fs)"
  by (simp add: on_entry_def Let_def settled_on_dir settled_on_file ready_def owes_data_def data_left_def split: option.split)

lemma settled_onBlock: "mode s = InHeader \<Longrightarrow> block s = [] \<Longrightarrow> settled (onBlock q s blk fs)"
  by (simp add: onBlock_def Let_def settled_on_pax settled_on_entry ready_header split: option.split sum.split)

definition rank :: "tar_outcome \<Rightarrow> nat" where
  "rank out = (if settled out then 0 else case out of
       Reading s fs \<Rightarrow> if owes_data (mode s) \<and> data_left (mode s) = 0 then 2 else 1 | _ \<Rightarrow> 0)"

lemma endEntry_not_owing: "rank (endEntry q (take_data q s [] fs)) \<le> 1"
  by (auto simp: rank_def endEntry_def take_data_def writeFile_def write_all.simps end_file_def end_pax_def data_left_def owes_data_def
      ready_def split: tar_mode.splits option.splits)

lemma rank_zero: "settled out \<Longrightarrow> rank out = 0" by (simp add: rank_def)

lemma data_step_decreases:
  assumes "chunk \<noteq> []" "owes_data (mode s)" "n = min (data_left (mode s)) (length chunk)"
  shows "length (drop n chunk) < length chunk
    \<or> length (drop n chunk) = length chunk \<and> rank (endEntry q (take_data q s (take n chunk) fs)) < rank (Reading s fs)"
proof (cases "n = 0")
  case True
  with assms have z: "data_left (mode s) = 0" by (auto simp: min_def split: if_splits)
  have "rank (endEntry q (take_data q s [] fs)) \<le> 1" by (rule endEntry_not_owing)
  moreover have "rank (Reading s fs) = 2" using assms z by (simp add: rank_def ready_def)
  ultimately show ?thesis using True by simp
next
  case False
  then show ?thesis using assms by simp
qed

function write_chunk :: "tar_request \<Rightarrow> tar_outcome \<Rightarrow> byte list \<Rightarrow> tar_outcome" where
  "write_chunk q (Refused e w fs) chunk = Refused e w fs"
| "write_chunk q (Reading s fs) chunk =
     (if chunk = [] then Reading s fs
      else case mode s of
        AtEnd \<Rightarrow> after_end s chunk fs
      | InHeader \<Rightarrow>
          if pad s > 0
          then let skip = min (pad s) (length chunk)
               in write_chunk q (Reading (s\<lparr>pad := pad s - skip\<rparr>) fs) (drop skip chunk)
          else let n = min (BLOCK - length (block s)) (length chunk);
                   blk = block s @ take n chunk
               in if length blk \<ge> BLOCK then write_chunk q (onBlock q (s\<lparr>block := []\<rparr>) blk fs) (drop n chunk)
                  else write_chunk q (Reading (s\<lparr>block := blk\<rparr>) fs) (drop n chunk)
      | _ \<Rightarrow>
          let n = min (data_left (mode s)) (length chunk)
          in write_chunk q (endEntry q (take_data q s (take n chunk) fs)) (drop n chunk))"
  by pat_completeness auto

termination
proof (relation "measures [\<lambda>(q, out, chunk). length chunk, \<lambda>(q, out, chunk). rank out]", goal_cases)
  case 1 show ?case by simp
next
  case (2 q s fs chunk skip)
  then show ?case by simp
next
  case (3 q s fs chunk n blk)
  show ?case
  proof (cases "n = 0")
    case True
    with 3 have "BLOCK \<le> length (block s)" by simp
    with 3(1,2) have "rank (Reading s fs) > 0" by (simp add: rank_def ready_def owes_data_def)
    with True 3 settled_onBlock [of "s\<lparr>block := []\<rparr>" q blk fs] show ?thesis by (simp add: rank_zero)
  next
    case False
    with 3(1) have "length (drop n chunk) < length chunk" by simp
    then show ?thesis by simp
  qed
next
  case (4 q s fs chunk n blk)
  then have "0 < n" by (auto simp: min_def not_le)
  with 4(1) have "length (drop n chunk) < length chunk" by simp
  then show ?case by simp
next
  case (5 q s fs chunk f n)
  then show ?case using data_step_decreases [of chunk s n q fs] by (simp add: owes_data_def)
next
  case (6 q s fs chunk left data entry n)
  then show ?case using data_step_decreases [of chunk s n q fs] by (simp add: owes_data_def)
next
  case (7 q s fs chunk left n)
  then show ?case using data_step_decreases [of chunk s n q fs] by (simp add: owes_data_def)
qed

declare write_chunk.simps [simp del]

subsection \<open>The end of the stream\<close>

definition finish :: "tar_layout \<Rightarrow> tar_state \<Rightarrow> tar_failure option" where
  "finish lay s =
     (if mode s \<noteq> AtEnd then Some (failure RTruncated ''the archive ends before its end blocks'')
      else case find (\<lambda>f. js_lower (fr_path f) \<notin> set (seen s)) (tl_files lay) of
        Some f \<Rightarrow> Some (failure_at RMissing ''a listed file is not in the archive'' (printable (fr_path f)))
      | None \<Rightarrow>
          (case find (\<lambda>d. js_lower d \<notin> set (seen s)) (tl_dirs lay) of
             Some d \<Rightarrow> Some (failure_at RMissing ''a listed folder is not in the archive'' (printable d))
           | None \<Rightarrow> None))"

subsection \<open>The whole extraction\<close>

text \<open>
  What the inflater did with the deflate data: the chunks it produced, and how it ended, with the number
  of input bytes it used. Its code is not part of the program; its output is a parameter.
\<close>

datatype inflate_end = Inflated nat | PrematureClose | InflateFailed os_error

record archive_env =
  ae_abortedBefore :: bool
  ae_abortedWhile :: bool
  ae_open :: "os_error option"
  ae_read :: "os_error option"
  ae_inflate :: "byte list \<Rightarrow> byte list list \<times> inflate_end"

definition checkPayloadFolder :: "file_system \<Rightarrow> path \<Rightarrow> tar_failure option" where
  "checkPayloadFolder fs dir = (case node_at fs dir of
       None \<Rightarrow> Some (failure RPayload ''the payload folder does not exist'')
     | Some Folder \<Rightarrow>
         if list_ex (\<lambda>p. p \<noteq> [] \<and> butlast p = dir) (js_keys (nodes fs))
         then Some (failure RPayload ''the payload folder is not empty'') else None
     | Some _ \<Rightarrow> Some (failure RPayload ''the payload folder is not a plain folder''))"

text \<open>The loop over the inflater's chunks: the bytes so far, their CRC and the extraction.\<close>

fun feed_chunks :: "tar_request \<Rightarrow> nat \<Rightarrow> nat \<times> 32 word \<times> tar_outcome \<Rightarrow> byte list list \<Rightarrow> nat \<times> 32 word \<times> tar_outcome" where
  "feed_chunks q limit acc [] = acc"
| "feed_chunks q limit (decompressed, crc, Refused e w fs) cs = (decompressed, crc, Refused e w fs)"
| "feed_chunks q limit (decompressed, crc, Reading s fs) (c # cs) =
     (let d = decompressed + length c in
      if d > limit
      then (d, crc, Refused (failure RBounds
               (''the archive decompresses to more than '' @ show_big (int limit) @ '' bytes'')) (written s) fs)
      else feed_chunks q limit (d, crc32Fallback c crc, write_chunk q (Reading s fs) c) cs)"

record extract_success =
  xs_files :: nat
  xs_dirs :: nat
  xs_ignored :: nat
  xs_entries :: nat
  xs_decompressedBytes :: nat
  xs_written :: "string list"

record extract_failure =
  xf_failure :: tar_failure_class
  xf_reason :: tar_reason
  xf_entry :: "string option"
  xf_detail :: string
  xf_decompressedBytes :: nat
  xf_written :: "string list"

definition failed :: "tar_failure \<Rightarrow> nat \<Rightarrow> string list \<Rightarrow> extract_failure" where
  "failed e decompressed w =
     \<lparr>xf_failure = tarFailureClass (tf_reason e), xf_reason = tf_reason e, xf_entry = tf_entry e,
      xf_detail = tf_detail e, xf_decompressedBytes = decompressed, xf_written = w\<rparr>"

definition stream_failure :: "archive_env \<Rightarrow> inflate_end \<Rightarrow> tar_failure option" where
  "stream_failure ae stop = (case stop of
       Inflated _ \<Rightarrow> None
     | PrematureClose \<Rightarrow> Some (if ae_abortedWhile ae then failure RCancelled ''the extraction was cancelled''
         else failure RTrailingData ''the archive has data after its gzip member'')
     | InflateFailed e \<Rightarrow> Some (if ae_abortedWhile ae then failure RCancelled ''the extraction was cancelled''
         else failure RGzip (''the archive is not valid gzip data'' @ code_suffix e)))"

text \<open>After the pipeline: every check that must hold before the extraction counts as done.\<close>

definition check_member :: "byte list \<Rightarrow> nat \<Rightarrow> inflate_end \<Rightarrow> nat \<Rightarrow> 32 word \<Rightarrow> tar_failure option" where
  "check_member archive bodyBytes stop decompressed crc =
     (let trailer = drop (length archive - 8) archive in
      if stop \<noteq> Inflated bodyBytes then Some (failure RTrailingData ''the archive has data after its gzip member'')
      else if u32le trailer 0 \<noteq> unat crc \<or> u32le trailer 4 \<noteq> decompressed mod 0x100000000
      then Some (failure RGzip ''the gzip trailer does not match the data'')
      else None)"

definition check_archive :: "tar_request \<Rightarrow> archive_env \<Rightarrow> byte list \<Rightarrow> file_system \<Rightarrow> tar_failure + nat" where
  "check_archive q ae archive fs =
     (if ae_abortedBefore ae then Inl (failure RCancelled ''the extraction was cancelled'')
      else case layoutProblem (tr_layout q) of
        Some problem \<Rightarrow> Inl (failure RLayout (''the layout '' @ problem))
      | None \<Rightarrow>
          (case checkPayloadFolder fs (tr_payloadDir q) of
             Some e \<Rightarrow> Inl e
           | None \<Rightarrow>
               (case ae_open ae of
                  Some e \<Rightarrow> Inl (failure RFile (''the archive could not be opened'' @ code_suffix e))
                | None \<Rightarrow>
                    (case ae_read ae of
                       Some e \<Rightarrow> Inl (failure RFile (''the extraction failed'' @ code_suffix e))
                     | None \<Rightarrow> gzipHeaderLength (take maxGzipHeaderBytes archive) (length archive)))))"

definition extractTarGz :: "tar_request \<Rightarrow> archive_env \<Rightarrow> byte list \<Rightarrow> file_system
    \<Rightarrow> (extract_failure + extract_success) \<times> file_system" where
  "extractTarGz q ae archive fs =
     (case check_archive q ae archive fs of
        Inl e \<Rightarrow> (Inl (failed e 0 []), fs)
      | Inr headerBytes \<Rightarrow>
          let bodyBytes = length archive - 8 - headerBytes;
              (chunks, stop) = ae_inflate ae (take bodyBytes (drop headerBytes archive));
              (decompressed, crc, out) =
                feed_chunks q (tarDecompressedLimit (tr_layout q)) (0, 0, Reading new_extraction fs) chunks
          in case out of
               Refused e w fs' \<Rightarrow> (Inl (failed e decompressed w), fs')
             | Reading s fs' \<Rightarrow>
                 (case or_else (stream_failure ae stop)
                     (or_else (check_member archive bodyBytes stop decompressed crc) (finish (tr_layout q) s)) of
                    Some e \<Rightarrow> (Inl (failed e decompressed (written s)), fs')
                  | None \<Rightarrow>
                      (Inr \<lparr>xs_files = files s, xs_dirs = dirs s, xs_ignored = ignored s, xs_entries = entries s,
                         xs_decompressedBytes = decompressed, xs_written = written s\<rparr>, fs')))"

end
