(* ===== verification/TarReaderLaws.thy ===== *)
theory TarReaderLaws
  imports TarReader
begin

unbundle bit_operations_syntax

text \<open>
  What the CLI package reader guarantees: the cuts between the inflater's chunks do not matter, nothing
  outside the payload folder is ever created or changed, an extraction that reports success left exactly
  the listed files and folders with their sizes and digests, and its CRC-32 is the bitwise one.
\<close>

subsection \<open>Partial writes\<close>

lemma length_takeWhile_full: "length (takeWhile P xs) = length xs \<longleftrightarrow> (\<forall>x\<in>set xs. P x)"
  by (induction xs) auto

lemma good_run_split:
  assumes "m \<le> n"
  shows "good_run env p off n =
    (if good_run env p off m = m then m + good_run env p (off + m) (n - m) else good_run env p off m)"
proof -
  let ?P = "\<lambda>i. te_write env p i = None"
  have u: "[off..<off + n] = [off..<off + m] @ [off + m..<off + m + (n - m)]"
    using assms upt_add_eq_append [of off "off + m" "n - m"] by simp
  have full: "length (takeWhile ?P [off..<off + m]) = m \<longleftrightarrow> (\<forall>i\<in>set [off..<off + m]. ?P i)"
    using length_takeWhile_full [of ?P "[off..<off + m]"] by simp
  show ?thesis
  proof (cases "\<forall>i\<in>set [off..<off + m]. ?P i")
    case True
    then have "takeWhile ?P ([off..<off + m] @ [off + m..<off + m + (n - m)])
        = [off..<off + m] @ takeWhile ?P [off + m..<off + m + (n - m)]"
      by (intro takeWhile_append2) blast
    then show ?thesis using full True unfolding good_run_def u by simp
  next
    case False
    then obtain i where "i \<in> set [off..<off + m]" "\<not> ?P i" by blast
    then have "takeWhile ?P ([off..<off + m] @ [off + m..<off + m + (n - m)]) = takeWhile ?P [off..<off + m]"
      by (rule takeWhile_append1)
    moreover have "length (takeWhile ?P [off..<off + m]) \<noteq> m" using full False by blast
    ultimately show ?thesis unfolding good_run_def u by simp
  qed
qed

lemma good_run_zero [simp]: "good_run env p off 0 = 0"
  by (simp add: good_run_def)

lemma good_run_fault: "te_write env p off = Some e \<Longrightarrow> good_run env p off n = 0"
  by (cases n) (simp_all add: good_run_def upt_conv_Cons del: upt_Suc)

lemma good_run_pos: "te_write env p off = None \<Longrightarrow> 0 < n \<Longrightarrow> 0 < good_run env p off n"
  by (cases n) (simp_all add: good_run_def upt_conv_Cons del: upt_Suc)

lemma good_run_stop: "good_run env p off n < n \<Longrightarrow> te_write env p (off + good_run env p off n) \<noteq> None"
  using nth_length_takeWhile [of "\<lambda>i. te_write env p i = None" "[off..<off + n]"] by (simp add: good_run_def)

lemma store_at_append:
  "store_at (store_at bs off a) (off + length a) b = store_at bs off (a @ b)"
proof -
  let ?h = "take off (bs @ replicate (off - length bs) 0)"
  have h: "length ?h = off" by simp
  have "store_at bs off a = ?h @ a @ drop (off + length a) bs" by (simp add: store_at_def)
  then show ?thesis unfolding store_at_def [of _ "off + length a"] store_at_def [of bs off "a @ b"]
    using h by (simp add: add.assoc add.commute [of "length b"])
qed

lemma js_set_set: "js_set k v (js_set k w m) = js_set k v m"
  by (induction m) auto

lemma node_put [simp]: "p \<noteq> [] \<Longrightarrow> node_at (put_node p n fs) p' = (if p' = p then Some n else node_at fs p')"
  by (auto simp: node_at_def put_node_def)

lemma put_put [simp]: "put_node p n (put_node p m fs) = put_node p n fs"
  by (simp add: put_node_def js_set_set)

lemma store_append: "store p (off + length a) b (store p off a fs) = store p off (a @ b) fs"
proof (cases "p = []")
  case True
  then show ?thesis by (simp add: store_def node_at_def)
next
  case False
  then show ?thesis by (auto simp: store_def store_at_append split: option.splits fs_node.splits)
qed

text \<open>What the loop over partial writes comes to: everything up to the first byte that cannot be stored.\<close>

definition first_fault :: "tar_env \<Rightarrow> path \<Rightarrow> nat \<Rightarrow> os_error" where
  "first_fault env p i = (case te_write env p i of Some e \<Rightarrow> e | None \<Rightarrow> OsError None)"

lemma write_all_steady:
  assumes "te_burst env > 0"
  shows "piece \<noteq> [] \<Longrightarrow> write_all env p piece off fs =
    (let k = good_run env p off (length piece); fs' = (if k = 0 then fs else store p off (take k piece) fs)
     in if k = length piece then Inr fs' else Inl (first_fault env p (off + k), fs'))"
  using assms
proof (induction env p piece off fs rule: write_all.induct)
  case (1 env p piece off fs)
  show ?case
  proof (cases "te_write env p off")
    case (Some e)
    then show ?thesis using 1(2)
      by (simp add: write_all.simps [of env p piece] fs_write_def good_run_fault Let_def first_fault_def)
  next
    case None
    define n where "n = min (te_burst env) (good_run env p off (length piece))"
    have np: "0 < n" unfolding n_def using 1(2,3) good_run_pos [OF None, of "length piece"] by simp
    have nle: "n \<le> length piece" "n \<le> good_run env p off (length piece)"
      unfolding n_def using good_run_le [of env p off "length piece"] by auto
    have full: "good_run env p off n = n"
    proof (rule ccontr)
      assume "good_run env p off n \<noteq> n"
      then have "good_run env p off (length piece) = good_run env p off n" using good_run_split [OF nle(1), of env p off] by simp
      then show False using nle(2) \<open>good_run env p off n \<noteq> n\<close> good_run_le [of env p off n] by simp
    qed
    let ?k' = "good_run env p (off + n) (length piece - n)"
    have k: "good_run env p off (length piece) = n + ?k'" using good_run_split [OF nle(1), of env p off] full by simp
    have step: "fs_write env p piece off fs = Inr (n, store p off (take n piece) fs)"
      by (simp add: fs_write_def None n_def Let_def)
    have rec: "write_all env p piece off fs = write_all env p (drop n piece) (off + n) (store p off (take n piece) fs)"
      using 1(2) np by (simp add: write_all.simps [of env p piece] step)
    show ?thesis
    proof (cases "drop n piece = []")
      case True
      then have "length piece = n" using nle by simp
      then show ?thesis using rec True np full by (simp add: write_all.simps Let_def)
    next
      case False
      have ih: "write_all env p (drop n piece) (off + n) (store p off (take n piece) fs) =
        (let k = ?k'; fs' = (if k = 0 then store p off (take n piece) fs else store p (off + n) (take k (drop n piece)) (store p off (take n piece) fs))
         in if k = length piece - n then Inr fs' else Inl (first_fault env p (off + n + k), fs'))"
        using 1(1) [OF 1(2) step refl _ False 1(3)] np by simp
      have st: "store p (off + n) (take ?k' (drop n piece)) (store p off (take n piece) fs) = store p off (take (n + ?k') piece) fs"
        using store_append [of p off "take n piece" "take ?k' (drop n piece)" fs] nle by (simp add: take_add)
      show ?thesis unfolding rec ih k Let_def st using np nle by (auto simp: add.assoc)
    qed
  qed
qed

lemma write_all_append:
  "write_all env p (a @ b) off fs =
     (case write_all env p a off fs of Inl e \<Rightarrow> Inl e | Inr fs' \<Rightarrow> write_all env p b (off + length a) fs')"
proof (cases "a = [] \<or> b = []")
  case True
  then show ?thesis by (auto simp: write_all.simps [of env p "[]"] split: sum.split)
next
  case ne: False
  show ?thesis
  proof (cases "te_burst env = 0")
    case True
    then show ?thesis using ne
      by (auto simp: write_all.simps [of env p "a @ b"] write_all.simps [of env p a] fs_write_def Let_def split: option.splits)
  next
    case False
    then have b: "te_burst env > 0" by simp
    have s: "good_run env p off (length a + length b) = (if good_run env p off (length a) = length a
        then length a + good_run env p (off + length a) (length b) else good_run env p off (length a))"
      using good_run_split [of "length a" "length a + length b" env p off] by simp
    have l: "good_run env p off (length a) \<le> length a" by (rule good_run_le)
    show ?thesis
    proof (cases "good_run env p off (length a) = length a")
      case True
      then show ?thesis using ne s
        by (simp add: write_all_steady [OF b] Let_def store_append add.assoc)
    next
      case False
      then show ?thesis using ne s l by (simp add: write_all_steady [OF b] Let_def)
    qed
  qed
qed

subsection \<open>Cutting a chunk in two\<close>

definition and_then :: "tar_outcome \<Rightarrow> (tar_state \<Rightarrow> file_system \<Rightarrow> tar_outcome) \<Rightarrow> tar_outcome" where
  "and_then out f = (case out of Reading s fs \<Rightarrow> f s fs | Refused e w fs \<Rightarrow> Refused e w fs)"

lemma and_then_simps [simp]: "and_then (Reading s fs) f = f s fs" "and_then (Refused e w fs) f = Refused e w fs"
  by (simp_all add: and_then_def)

lemma writeFile_append:
  "writeFile q s (f\<lparr>of_left := n\<rparr>) (a @ b) fs =
     and_then (writeFile q s (f\<lparr>of_left := n\<rparr>) a fs)
       (\<lambda>s' fs'. writeFile q s' (f\<lparr>of_left := n, of_hashed := of_hashed f @ a, of_at := of_at f + length a\<rparr>) b fs')"
  by (simp add: writeFile_def write_all_append and_then_def add.assoc split: sum.split)

lemma writeFile_left:
  "writeFile q s f piece fs = Reading s' fs' \<Longrightarrow>
     mode s' = InFile (f\<lparr>of_hashed := of_hashed f @ piece, of_at := of_at f + length piece\<rparr>)
     \<and> s' = s\<lparr>mode := mode s'\<rparr>"
  by (auto simp: writeFile_def split: sum.splits)

lemma writeFile_ignores_left:
  "writeFile q s (f\<lparr>of_left := n\<rparr>) piece fs =
     and_then (writeFile q s f piece fs)
       (\<lambda>s' fs'. Reading (s'\<lparr>mode := InFile (f\<lparr>of_left := n, of_hashed := of_hashed f @ piece, of_at := of_at f + length piece\<rparr>)\<rparr>) fs')"
  by (simp add: writeFile_def and_then_def split: sum.split)

lemma writeFile_ignores_mode: "writeFile q (s\<lparr>mode := m\<rparr>) f piece fs = writeFile q s f piece fs"
  by (simp add: writeFile_def split: sum.split)

lemma take_data_append:
  "owes_data (mode s) \<Longrightarrow> take_data q s (a @ b) fs = and_then (take_data q s a fs) (\<lambda>s' fs'. take_data q s' b fs')"
proof (cases "mode s")
  case (InFile f)
  then show ?thesis
    by (simp add: take_data_def writeFile_def write_all_append and_then_def add.assoc split: sum.split)
qed (simp_all add: take_data_def owes_data_def)

lemma take_data_left:
  "owes_data (mode s) \<Longrightarrow> take_data q s a fs = Reading s' fs' \<Longrightarrow>
     owes_data (mode s') \<and> data_left (mode s') = data_left (mode s) - length a"
  by (cases "mode s") (auto simp: take_data_def owes_data_def data_left_def writeFile_def split: sum.splits)

lemma endEntry_owing: "owes_data (mode s) \<Longrightarrow> 0 < data_left (mode s) \<Longrightarrow> endEntry q (Reading s fs) = Reading s fs"
  by (cases "mode s") (auto simp: endEntry_def owes_data_def data_left_def)

lemma endEntry_Refused [simp]: "endEntry q (Refused e w fs) = Refused e w fs"
  by (simp add: endEntry_def)

lemma write_chunk_Nil [simp]: "write_chunk q out [] = out"
  by (cases out) (simp_all add: write_chunk.simps)

lemma write_chunk_Refused [simp]: "write_chunk q (Refused e w fs) chunk = Refused e w fs"
  by (simp add: write_chunk.simps)

lemma write_end: "mode s = AtEnd \<Longrightarrow> write_chunk q (Reading s fs) chunk = after_end s chunk fs"
  by (cases "chunk = []") (simp_all add: write_chunk.simps after_end_def)

text \<open>The unfoldings of the loop, with the counts it takes from the chunk written as \<open>take\<close> and \<open>drop\<close>.\<close>

lemma drop_min_length: "drop (min n (length xs)) xs = drop n xs" "take (min n (length xs)) xs = take n xs"
  by (simp_all add: min_def)

lemma write_pad:
  "mode s = InHeader \<Longrightarrow> 0 < pad s \<Longrightarrow> write_chunk q (Reading s fs) chunk =
     write_chunk q (Reading (s\<lparr>pad := pad s - length chunk\<rparr>) fs) (drop (pad s) chunk)"
  by (cases "chunk = []") (auto simp: write_chunk.simps(2) [of q s] drop_min_length min_def)

definition header_step :: "tar_request \<Rightarrow> tar_state \<Rightarrow> byte list \<Rightarrow> file_system \<Rightarrow> tar_outcome" where
  "header_step q s blk fs =
     (if length blk \<ge> BLOCK then onBlock q (s\<lparr>block := []\<rparr>) blk fs else Reading (s\<lparr>block := blk\<rparr>) fs)"

lemma write_header:
  "mode s = InHeader \<Longrightarrow> pad s = 0 \<Longrightarrow> chunk \<noteq> [] \<Longrightarrow> write_chunk q (Reading s fs) chunk =
     write_chunk q (header_step q s (block s @ take (BLOCK - length (block s)) chunk) fs) (drop (BLOCK - length (block s)) chunk)"
  unfolding write_chunk.simps(2) [of q s fs chunk] Let_def drop_min_length header_step_def
  by (simp only: tar_mode.case if_False if_True simp_thms if_distrib [of "\<lambda>out. write_chunk q out _"]) simp

lemma write_data:
  "owes_data (mode s) \<Longrightarrow> chunk \<noteq> [] \<Longrightarrow> write_chunk q (Reading s fs) chunk =
     write_chunk q (endEntry q (take_data q s (take (data_left (mode s)) chunk) fs)) (drop (data_left (mode s)) chunk)"
  by (cases "mode s") (simp_all add: write_chunk.simps(2) [of q s] drop_min_length owes_data_def Let_def)

lemma write_chunk_append: "write_chunk q out (xs @ ys) = write_chunk q (write_chunk q out xs) ys"
proof (induction q out xs rule: write_chunk.induct)
  case (1 q e w fs chunk)
  show ?case by simp
next
  case (2 q s fs chunk)
  show ?case
  proof (cases "chunk = [] \<or> ys = []")
    case True
    then show ?thesis by auto
  next
    case False
    then have ne: "chunk \<noteq> []" "ys \<noteq> []" by auto
    show ?thesis
    proof (cases "owes_data (mode s)")
      case True
      let ?n = "data_left (mode s)"
      show ?thesis
      proof (cases "?n \<le> length chunk")
        case True
        have "write_chunk q (endEntry q (take_data q s (take ?n chunk) fs)) (drop ?n chunk @ ys) =
          write_chunk q (write_chunk q (endEntry q (take_data q s (take ?n chunk) fs)) (drop ?n chunk)) ys"
          using 2 ne \<open>owes_data (mode s)\<close> by (cases "mode s") (auto simp: owes_data_def drop_min_length)
        then show ?thesis using True ne \<open>owes_data (mode s)\<close> by (simp add: write_data)
      next
        case False
        then have l: "take ?n chunk = chunk" "drop ?n chunk = []" by simp_all
        have lhs: "write_chunk q (Reading s fs) (chunk @ ys) = write_chunk q
          (endEntry q (and_then (take_data q s chunk fs) (\<lambda>s' fs'. take_data q s' (take (?n - length chunk) ys) fs'))) (drop (?n - length chunk) ys)"
          using True ne False l by (simp add: write_data take_data_append)
        have rhs: "write_chunk q (Reading s fs) chunk = endEntry q (take_data q s chunk fs)"
          using True ne l by (simp add: write_data)
        show ?thesis
        proof (cases "take_data q s chunk fs")
          case (Reading s' fs')
          then have "owes_data (mode s')" "data_left (mode s') = ?n - length chunk" using take_data_left True by auto
          then show ?thesis unfolding lhs rhs using Reading False ne by (simp add: endEntry_owing write_data)
        next
          case (Refused e w fs')
          then show ?thesis unfolding lhs rhs by simp
        qed
      qed
    next
      case nodata: False
      show ?thesis
      proof (cases "mode s = AtEnd")
        case True
        then show ?thesis by (auto simp: write_end after_end_def)
      next
        case False
        with nodata have h: "mode s = InHeader" by (cases "mode s") (auto simp: owes_data_def)
        show ?thesis
        proof (cases "0 < pad s")
          case True
          show ?thesis
          proof (cases "pad s \<le> length chunk")
            case le: True
            have "write_chunk q (Reading (s\<lparr>pad := 0\<rparr>) fs) (drop (pad s) chunk @ ys) =
              write_chunk q (write_chunk q (Reading (s\<lparr>pad := 0\<rparr>) fs) (drop (pad s) chunk)) ys"
              using 2(1) [OF ne(1) h True refl] le by simp
            then show ?thesis using le True h by (simp add: write_pad)
          next
            case False
            then show ?thesis using True h by (simp add: write_pad)
          qed
        next
          case nopad: False
          then have p: "pad s = 0" by simp
          let ?n = "BLOCK - length (block s)"
          show ?thesis
          proof (cases "?n \<le> length chunk")
            case True
            have "write_chunk q (header_step q s (block s @ take ?n chunk) fs) (drop ?n chunk @ ys) =
              write_chunk q (write_chunk q (header_step q s (block s @ take ?n chunk) fs) (drop ?n chunk)) ys"
              using 2(2,3) [OF ne(1) h nopad refl refl] by (simp add: drop_min_length header_step_def)
            then show ?thesis using True ne h p by (simp add: write_header)
          next
            case False
            then have "\<not> BLOCK \<le> length (block s @ chunk)" by simp
            then have "header_step q s (block s @ chunk) fs = Reading (s\<lparr>block := block s @ chunk\<rparr>) fs"
              by (simp add: header_step_def)
            then show ?thesis using False ne h p by (simp add: write_header header_step_def)
          qed
        qed
      qed
    qed
  qed
qed

interpretation tar: chunked_reader "write_chunk q" for q
  by unfold_locales (simp_all add: write_chunk_append)

subsection \<open>What the layout check establishes\<close>

lemma check_paths_None:
  "check_paths sn rels = None \<longleftrightarrow>
     (\<forall>r\<in>set rels. unsafePackagePath r = None) \<and> distinct (map js_lower rels) \<and> js_lower ` set rels \<inter> set sn = {}"
  by (induction sn rels rule: check_paths.induct) (auto split: option.splits)

definition listed :: "tar_layout \<Rightarrow> string set" where
  "listed lay = fr_path ` set (tl_files lay) \<union> set (tl_dirs lay)"

definition checked :: "tar_layout \<Rightarrow> bool" where
  "checked lay \<longleftrightarrow> layoutProblem lay = None"

lemma checked_paths:
  assumes "checked lay"
  shows "\<forall>r\<in>set (layout_paths lay). unsafePackagePath r = None" "distinct (map js_lower (layout_paths lay))"
proof -
  have "check_paths [] (layout_paths lay) = None"
    using assms by (auto simp: checked_def layoutProblem_def Let_def split: if_splits option.splits)
  then show "\<forall>r\<in>set (layout_paths lay). unsafePackagePath r = None" "distinct (map js_lower (layout_paths lay))"
    unfolding check_paths_None by blast+
qed

lemma checked_safe: "checked lay \<Longrightarrow> r \<in> listed lay \<Longrightarrow> unsafePackagePath r = None"
  using checked_paths(1) by (auto simp: listed_def layout_paths_def)

lemma checked_lower_inj:
  assumes "checked lay" "r \<in> listed lay" "r' \<in> listed lay" "js_lower r = js_lower r'"
  shows "r = r'"
proof -
  have "inj_on js_lower (set (layout_paths lay))" using checked_paths(2) [OF assms(1)] by (simp add: distinct_map)
  moreover have "r \<in> set (layout_paths lay)" "r' \<in> set (layout_paths lay)"
    using assms(2,3) by (auto simp: listed_def layout_paths_def)
  ultimately show ?thesis using assms(4) by (auto dest: inj_onD)
qed

lemma checked_not_ignored:
  assumes "checked lay" "r \<in> listed lay"
  shows "\<not> ignoredRow lay (js_lower r)"
proof
  assume "ignoredRow lay (js_lower r)"
  then have "js_lower r \<in> set (map js_lower (tl_ignoredEntries lay))" by (simp add: ignoredRow_def)
  moreover have "js_lower r \<in> set (map js_lower (map fr_path (tl_files lay) @ tl_dirs lay))"
    using assms(2) by (auto simp: listed_def)
  ultimately show False using checked_paths(2) [OF assms(1)] by (auto simp: layout_paths_def)
qed

lemma checked_file_inj:
  assumes "checked lay" "f \<in> set (tl_files lay)" "g \<in> set (tl_files lay)" "fr_path f = fr_path g"
  shows "f = g"
proof -
  have "distinct (map js_lower (map fr_path (tl_files lay)))"
    using checked_paths(2) [OF assms(1)] by (simp add: layout_paths_def)
  then have "inj_on fr_path (set (tl_files lay))" by (metis distinct_map)
  then show ?thesis using assms(2-4) by (auto dest: inj_onD)
qed

lemma checked_dir_not_file:
  assumes "checked lay" "f \<in> set (tl_files lay)" "fr_path f \<in> set (tl_dirs lay)"
  shows False
  using checked_paths(2) [OF assms(1)] assms(2,3) by (auto simp: layout_paths_def)

subsection \<open>Where a package path leads\<close>

fun join_on :: "char \<Rightarrow> string list \<Rightarrow> string" where
  "join_on d [] = []"
| "join_on d [p] = p"
| "join_on d (p # ps) = p @ d # join_on d ps"

lemma join_split [simp]: "join_on d (split_on d s) = s"
proof (induction s)
  case (Cons c s)
  then show ?case by (cases "split_on d s"; cases "tl (split_on d s)") auto
qed simp

lemma split_on_inj: "split_on d s = split_on d t \<Longrightarrow> s = t"
  by (metis join_split)

lemma safe_segment: "unsafe_segment seg = None \<Longrightarrow> seg \<noteq> [] \<and> seg \<noteq> ''.'' \<and> seg \<noteq> ''..''"
  by (auto simp: unsafe_segment_def split: if_splits)

lemma join_safe: "first_unsafe segs = None \<Longrightarrow> foldl join_segment p segs = p @ segs"
proof (induction segs arbitrary: p)
  case (Cons seg segs)
  then have "unsafe_segment seg = None" "first_unsafe segs = None" by (auto split: option.splits)
  with Cons.IH [of "p @ [seg]"] safe_segment [of seg] show ?case by (simp add: join_segment_def)
qed simp

lemma target_safe: "unsafePackagePath rel = None \<Longrightarrow> target p rel = p @ split_on CHR ''/'' rel"
  by (simp add: target_def unsafePackagePath_def join_safe)

lemma target_inj:
  "unsafePackagePath r = None \<Longrightarrow> unsafePackagePath r' = None \<Longrightarrow> target p r = target p r' \<longleftrightarrow> r = r'"
  using split_on_inj by (auto simp: target_safe)

lemma target_not_Nil: "unsafePackagePath r = None \<Longrightarrow> target p r \<noteq> []"
  by (simp add: target_safe)

subsection \<open>The invariant of an extraction\<close>

definition confined :: "tar_request \<Rightarrow> file_system \<Rightarrow> string list \<Rightarrow> file_system \<Rightarrow> bool" where
  "confined q fs0 w fs \<longleftrightarrow>
     set w \<subseteq> listed (tr_layout q)
     \<and> (\<forall>p. p \<notin> target (tr_payloadDir q) ` set w \<longrightarrow> node_at fs p = node_at fs0 p)"

definition file_ok :: "tar_request \<Rightarrow> file_row \<Rightarrow> file_system \<Rightarrow> bool" where
  "file_ok q f fs \<longleftrightarrow> (\<exists>bs. node_at fs (target (tr_payloadDir q) (fr_path f)) = Some (RegularFile bs)
     \<and> fr_size f = Fin (of_nat (length bs)) \<and> te_sha256 (tr_env q) bs = js_lower (fr_sha256 f))"

definition opened :: "tar_state \<Rightarrow> string \<Rightarrow> bool" where
  "opened s rel \<longleftrightarrow> (case mode s of InFile f \<Rightarrow> of_rel f = rel | _ \<Rightarrow> False)"

definition open_ok :: "tar_request \<Rightarrow> tar_state \<Rightarrow> file_system \<Rightarrow> bool" where
  "open_ok q s fs \<longleftrightarrow> (case mode s of
       InFile f \<Rightarrow> of_rel f \<in> set (written s)
         \<and> (\<exists>row\<in>set (tl_files (tr_layout q)). fr_path row = of_rel f
             \<and> fr_size row = Fin (of_nat (of_at f + of_left f)) \<and> of_sha256 f = js_lower (fr_sha256 row))
         \<and> of_at f = length (of_hashed f)
         \<and> node_at fs (target (tr_payloadDir q) (of_rel f)) = Some (RegularFile (of_hashed f))
     | _ \<Rightarrow> True)"

definition tar_inv :: "tar_request \<Rightarrow> file_system \<Rightarrow> tar_state \<Rightarrow> file_system \<Rightarrow> bool" where
  "tar_inv q fs0 s fs \<longleftrightarrow>
     confined q fs0 (written s) fs \<and> open_ok q s fs
     \<and> (\<forall>f\<in>set (tl_files (tr_layout q)). fr_path f \<in> set (written s) \<longrightarrow> opened s (fr_path f) \<or> file_ok q f fs)
     \<and> (\<forall>d\<in>set (tl_dirs (tr_layout q)). d \<in> set (written s) \<longrightarrow> node_at fs (target (tr_payloadDir q) d) = Some Folder)
     \<and> (\<forall>rel\<in>set (written s). js_lower rel \<in> set (seen s))
     \<and> (\<forall>key\<in>set (seen s). ignoredRow (tr_layout q) key \<or> (\<exists>rel\<in>set (written s). js_lower rel = key))"

definition outcome_inv :: "tar_request \<Rightarrow> file_system \<Rightarrow> tar_outcome \<Rightarrow> bool" where
  "outcome_inv q fs0 out = (case out of
       Reading s fs \<Rightarrow> tar_inv q fs0 s fs
     | Refused e w fs \<Rightarrow> confined q fs0 w fs)"

lemma outcome_inv_simps [simp]:
  "outcome_inv q fs0 (Reading s fs) = tar_inv q fs0 s fs"
  "outcome_inv q fs0 (Refused e w fs) = confined q fs0 w fs"
  by (simp_all add: outcome_inv_def)

lemma tar_inv_confined: "tar_inv q fs0 s fs \<Longrightarrow> confined q fs0 (written s) fs"
  by (simp add: tar_inv_def)

text \<open>The fields the invariant does not mention may change freely.\<close>

lemma tar_inv_cong:
  "written s' = written s \<Longrightarrow> mode s' = mode s \<Longrightarrow> seen s' = seen s \<Longrightarrow> tar_inv q fs0 s' fs = tar_inv q fs0 s fs"
  by (cases "mode s") (simp_all add: tar_inv_def open_ok_def opened_def)

text \<open>Outside a file's data every written file is complete, and the mode may be any other non-file mode.\<close>

definition at_rest :: "tar_mode \<Rightarrow> bool" where
  "at_rest m = (case m of InFile f \<Rightarrow> False | _ \<Rightarrow> True)"

lemma tar_inv_rest:
  "at_rest (mode s) \<Longrightarrow> at_rest m \<Longrightarrow> tar_inv q fs0 (s\<lparr>mode := m\<rparr>) fs = tar_inv q fs0 s fs"
  by (cases "mode s"; cases m) (simp_all add: tar_inv_def open_ok_def opened_def at_rest_def)

subsection \<open>Creating a node keeps the invariant\<close>

lemma create_node_Inr:
  "create_node p n fs = Inr fs' \<Longrightarrow> p \<noteq> [] \<and> node_at fs p = None \<and> fs' = put_node p n fs"
  by (auto simp: create_node_def node_at_def split: if_splits option.splits fs_node.splits)

lemma fs_mkdir_Inr: "fs_mkdir env p fs = Inr fs' \<Longrightarrow> p \<noteq> [] \<and> fs' = put_node p Folder fs"
  by (auto simp: fs_mkdir_def dest: create_node_Inr split: option.splits)

lemma fs_open_Inr: "fs_open_new env p fs = Inr fs' \<Longrightarrow> p \<noteq> [] \<and> fs' = put_node p (RegularFile []) fs"
  by (auto simp: fs_open_new_def dest: create_node_Inr split: option.splits)

lemma confined_put:
  assumes "confined q fs0 w fs" "rel \<in> listed (tr_layout q)" "target (tr_payloadDir q) rel \<noteq> []"
  shows "confined q fs0 (w @ [rel]) (put_node (target (tr_payloadDir q) rel) n fs)"
  using assms by (auto simp: confined_def)

lemma confined_put_again:
  assumes "confined q fs0 w fs" "rel \<in> set w" "target (tr_payloadDir q) rel \<noteq> []"
  shows "confined q fs0 w (put_node (target (tr_payloadDir q) rel) n fs)"
  using assms by (auto simp: confined_def)

lemma file_ok_put:
  assumes "unsafePackagePath rel = None" "unsafePackagePath (fr_path f) = None" "fr_path f \<noteq> rel"
  shows "file_ok q f (put_node (target (tr_payloadDir q) rel) n fs) = file_ok q f fs"
  using assms target_inj [of "fr_path f" rel] target_not_Nil [of rel] by (simp add: file_ok_def)

text \<open>A new listed path: nothing else moves. \<open>m\<close> is the mode after it.\<close>

lemma tar_inv_create:
  assumes inv: "tar_inv q fs0 s fs" and ck: "checked (tr_layout q)" and rest: "at_rest (mode s)"
    and rel: "rel \<in> listed (tr_layout q)" and new: "js_lower rel \<notin> set (seen s)"
    and s': "written s' = written s @ [rel]" "seen s' = js_lower rel # seen s"
    and open': "open_ok q s' (put_node (target (tr_payloadDir q) rel) n fs)"
    and fil: "\<forall>f\<in>set (tl_files (tr_layout q)). fr_path f = rel \<longrightarrow> opened s' rel"
    and dir: "rel \<in> set (tl_dirs (tr_layout q)) \<longrightarrow> n = Folder"
  shows "tar_inv q fs0 s' (put_node (target (tr_payloadDir q) rel) n fs)"
proof -
  let ?fs = "put_node (target (tr_payloadDir q) rel) n fs"
  have safe: "unsafePackagePath rel = None" by (rule checked_safe [OF ck rel])
  have nn: "target (tr_payloadDir q) rel \<noteq> []" by (rule target_not_Nil [OF safe])
  have nw: "rel \<notin> set (written s)" using inv new by (auto simp: tar_inv_def)
  have nop: "\<not> opened s r" for r using rest by (cases "mode s") (simp_all add: opened_def at_rest_def)
  have 1: "confined q fs0 (written s') ?fs"
    unfolding s' by (rule confined_put [OF tar_inv_confined [OF inv] rel nn])
  have 2: "opened s' (fr_path f) \<or> file_ok q f ?fs"
    if f: "f \<in> set (tl_files (tr_layout q))" "fr_path f \<in> set (written s')" for f
  proof (cases "fr_path f = rel")
    case True
    then show ?thesis using fil f by auto
  next
    case False
    have sf: "unsafePackagePath (fr_path f) = None" by (rule checked_safe [OF ck]) (use f in \<open>simp add: listed_def\<close>)
    have "fr_path f \<in> set (written s)" using f(2) False s' by simp
    then have "file_ok q f fs" using inv f(1) nop by (auto simp: tar_inv_def)
    then show ?thesis using file_ok_put [OF safe sf False] by simp
  qed
  have 3: "node_at ?fs (target (tr_payloadDir q) d) = Some Folder"
    if d: "d \<in> set (tl_dirs (tr_layout q))" "d \<in> set (written s')" for d
  proof (cases "d = rel")
    case True
    then show ?thesis using dir d nn by simp
  next
    case False
    have sd: "unsafePackagePath d = None" by (rule checked_safe [OF ck]) (use d in \<open>simp add: listed_def\<close>)
    have "node_at fs (target (tr_payloadDir q) d) = Some Folder" using inv d False s' by (auto simp: tar_inv_def)
    then show ?thesis using False target_inj [OF sd safe] nn by simp
  qed
  have 4: "js_lower r \<in> set (seen s')" if "r \<in> set (written s')" for r
    using that inv s' by (auto simp: tar_inv_def)
  have 5: "ignoredRow (tr_layout q) key \<or> (\<exists>r\<in>set (written s'). js_lower r = key)" if "key \<in> set (seen s')" for key
    using that inv s' by (auto simp: tar_inv_def)
  show ?thesis unfolding tar_inv_def using 1 2 3 4 5 open' by blast
qed

subsection \<open>Writing to the open file keeps the invariant\<close>

lemma store_at_end: "store_at bs (length bs) data = bs @ data"
  by (simp add: store_at_def)

lemma write_all_Inr:
  assumes "write_all env p piece off fs = Inr fs'"
  shows "if piece = [] then fs' = fs else fs' = store p off piece fs"
proof (cases "piece = []")
  case True
  then show ?thesis using assms by (simp add: write_all.simps)
next
  case ne: False
  show ?thesis
  proof (cases "te_burst env = 0")
    case True
    then show ?thesis using assms ne by (simp add: write_all.simps [of env p piece] fs_write_def split: option.splits)
  next
    case False
    then show ?thesis using assms ne write_all_steady [of env piece p off fs]
      by (simp add: Let_def split: if_splits)
  qed
qed

lemma write_all_Inl:
  assumes "write_all env p piece off fs = Inl (e, fs')"
  shows "fs' = fs \<or> (\<exists>data. fs' = store p off data fs)"
proof (cases "te_burst env = 0")
  case True
  then show ?thesis using assms by (auto simp: write_all.simps [of env p piece] fs_write_def split: if_splits option.splits)
next
  case False
  have ne: "piece \<noteq> []" using assms by (cases "piece = []") (auto simp: write_all.simps)
  show ?thesis using assms write_all_steady [OF _ ne, of env p off fs] False
    by (auto simp: Let_def split: if_splits)
qed

lemma file_grows:
  assumes "node_at fs p = Some (RegularFile bs)" "p \<noteq> []" "write_all env p piece (length bs) fs = Inr fs'"
  shows "node_at fs' = (node_at fs)(p \<mapsto> RegularFile (bs @ piece))"
  using write_all_Inr [OF assms(3)] assms(1,2)
  by (cases "piece = []") (auto simp: store_def store_at_end fun_eq_iff)

lemma confined_store:
  assumes "confined q fs0 w fs" "rel \<in> set w" "checked (tr_layout q)"
  shows "confined q fs0 w (store (target (tr_payloadDir q) rel) off data fs)"
proof -
  have "rel \<in> listed (tr_layout q)" using assms(1,2) by (auto simp: confined_def)
  then have "target (tr_payloadDir q) rel \<noteq> []" by (intro target_not_Nil checked_safe [OF assms(3)])
  then show ?thesis using confined_put_again [OF assms(1,2)] assms(1)
    by (auto simp: store_def split: option.split fs_node.split)
qed

lemma writeFile_inv:
  assumes inv: "tar_inv q fs0 s fs" and ck: "checked (tr_layout q)" and m: "mode s = InFile f"
    and le: "length piece \<le> of_left f"
  shows "outcome_inv q fs0 (writeFile q s (f\<lparr>of_left := of_left f - length piece\<rparr>) piece fs)"
proof -
  let ?p = "target (tr_payloadDir q) (of_rel f)"
  have o: "of_rel f \<in> set (written s)" "of_at f = length (of_hashed f)" "node_at fs ?p = Some (RegularFile (of_hashed f))"
    using inv m by (simp_all add: tar_inv_def open_ok_def)
  obtain row where row: "row \<in> set (tl_files (tr_layout q))" "fr_path row = of_rel f"
      "fr_size row = Fin (of_nat (of_at f + of_left f))" "of_sha256 f = js_lower (fr_sha256 row)"
    using inv m by (auto simp: tar_inv_def open_ok_def)
  have lst: "of_rel f \<in> listed (tr_layout q)" using row by (force simp: listed_def)
  have safe: "unsafePackagePath (of_rel f) = None" by (rule checked_safe [OF ck lst])
  have nn: "?p \<noteq> []" by (rule target_not_Nil [OF safe])
  show ?thesis
  proof (cases "write_all (tr_env q) ?p piece (of_at f) fs")
    case (Inl x)
    obtain e fs' where x: "x = (e, fs')" by (cases x)
    have "fs' = fs \<or> (\<exists>data. fs' = store ?p (of_at f) data fs)" using write_all_Inl Inl x by blast
    then have "confined q fs0 (written s) fs'"
      using tar_inv_confined [OF inv] confined_store [OF tar_inv_confined [OF inv] o(1) ck] by blast
    then show ?thesis by (simp add: writeFile_def Inl x)
  next
    case (Inr fs')
    define f' where "f' = f\<lparr>of_left := of_left f - length piece, of_hashed := of_hashed f @ piece, of_at := of_at f + length piece\<rparr>"
    define s' where "s' = s\<lparr>mode := InFile f'\<rparr>"
    have n: "node_at fs' = (node_at fs)(?p \<mapsto> RegularFile (of_hashed f @ piece))"
      using file_grows [OF o(3) nn] Inr o(2) by simp
    have 1: "confined q fs0 (written s) fs'"
      using tar_inv_confined [OF inv] o(1) by (auto simp: confined_def n)
    have 2: "open_ok q s' fs'"
      unfolding open_ok_def s'_def f'_def using o row le by (auto simp: n intro!: bexI [of _ row])
    have 3: "opened s' (fr_path g) \<or> file_ok q g fs'"
      if g: "g \<in> set (tl_files (tr_layout q))" "fr_path g \<in> set (written s)" for g
    proof (cases "fr_path g = of_rel f")
      case True
      then show ?thesis by (simp add: opened_def s'_def f'_def)
    next
      case False
      have sg: "unsafePackagePath (fr_path g) = None" by (rule checked_safe [OF ck]) (use g in \<open>simp add: listed_def\<close>)
      have "file_ok q g fs" using inv g m False by (auto simp: tar_inv_def opened_def)
      then show ?thesis using False target_inj [OF sg safe] by (simp add: file_ok_def n)
    qed
    have 4: "node_at fs' (target (tr_payloadDir q) d) = Some Folder"
      if d: "d \<in> set (tl_dirs (tr_layout q))" "d \<in> set (written s)" for d
    proof -
      have sd: "unsafePackagePath d = None" by (rule checked_safe [OF ck]) (use d in \<open>simp add: listed_def\<close>)
      have "d \<noteq> of_rel f" using checked_dir_not_file [OF ck row(1)] row(2) d(1) by auto
      then show ?thesis using inv d target_inj [OF sd safe] by (simp add: tar_inv_def n)
    qed
    have "tar_inv q fs0 s' fs'"
      unfolding tar_inv_def using 1 2 3 4 inv by (auto simp: s'_def tar_inv_def)
    then show ?thesis by (simp add: writeFile_def Inr s'_def f'_def)
  qed
qed

lemma end_file_inv:
  assumes inv: "tar_inv q fs0 s fs" and ck: "checked (tr_layout q)" and m: "mode s = InFile f" and z: "of_left f = 0"
  shows "outcome_inv q fs0 (end_file q s f fs)"
proof -
  obtain row where row: "row \<in> set (tl_files (tr_layout q))" "fr_path row = of_rel f"
      "fr_size row = Fin (of_nat (of_at f))" "of_sha256 f = js_lower (fr_sha256 row)"
    using inv m z by (auto simp: tar_inv_def open_ok_def)
  have o: "of_at f = length (of_hashed f)" "node_at fs (target (tr_payloadDir q) (of_rel f)) = Some (RegularFile (of_hashed f))"
    using inv m by (simp_all add: tar_inv_def open_ok_def)
  have "tar_inv q fs0 (s\<lparr>mode := InHeader, files := files s + 1\<rparr>) fs"
    if sha: "te_sha256 (tr_env q) (of_hashed f) = of_sha256 f"
  proof -
    have "file_ok q g fs" if g: "g \<in> set (tl_files (tr_layout q))" "fr_path g \<in> set (written s)" for g
    proof (cases "fr_path g = of_rel f")
      case True
      then have "g = row" using checked_file_inj [OF ck g(1) row(1)] row(2) by simp
      then show ?thesis using row o sha by (simp add: file_ok_def)
    next
      case False
      then show ?thesis using inv g m by (auto simp: tar_inv_def opened_def)
    qed
    then show ?thesis using inv by (simp add: tar_inv_def open_ok_def)
  qed
  then show ?thesis using tar_inv_confined [OF inv] by (simp add: end_file_def split: option.split)
qed

lemma endEntry_inv:
  assumes "outcome_inv q fs0 out" "checked (tr_layout q)"
  shows "outcome_inv q fs0 (endEntry q out)"
proof (cases out)
  case (Reading s fs)
  show ?thesis
  proof (cases "mode s")
    case (InFile f)
    then show ?thesis using assms Reading end_file_inv [of q fs0 s fs f] by (simp add: endEntry_def)
  next
    case (InPax left data entry)
    then show ?thesis using assms Reading tar_inv_rest [of s InHeader q fs0 fs]
      by (auto simp: endEntry_def end_pax_def at_rest_def dest: tar_inv_confined split: option.split)
  next
    case (InSkip left)
    then show ?thesis using assms Reading tar_inv_rest [of s InHeader q fs0 fs] by (simp add: endEntry_def at_rest_def)
  qed (use assms Reading in \<open>simp_all add: endEntry_def\<close>)
next
  case (Refused e w fs)
  then show ?thesis using assms by simp
qed

lemma take_data_inv:
  assumes "tar_inv q fs0 s fs" "checked (tr_layout q)" "length piece \<le> data_left (mode s)"
  shows "outcome_inv q fs0 (take_data q s piece fs)"
proof (cases "mode s")
  case (InFile f)
  then show ?thesis using assms writeFile_inv [of q fs0 s fs f piece] by (simp add: take_data_def data_left_def)
next
  case (InPax left data entry)
  then show ?thesis using assms(1) tar_inv_rest [of s "InPax (left - length piece) (data @ piece) entry" q fs0 fs]
    by (simp add: take_data_def at_rest_def)
next
  case (InSkip left)
  then show ?thesis using assms(1) tar_inv_rest [of s "InSkip (left - length piece)" q fs0 fs]
    by (simp add: take_data_def at_rest_def)
qed (use assms in \<open>simp_all add: take_data_def\<close>)

subsection \<open>A header block keeps the invariant\<close>

lemma find_SomeD: "find P xs = Some x \<Longrightarrow> x \<in> set xs \<and> P x"
  by (auto simp: find_Some_iff)

lemma dirRow_SomeD: "dirRow lay key = Some d \<Longrightarrow> d \<in> set (tl_dirs lay) \<and> js_lower d = key"
  unfolding dirRow_def by (drule find_SomeD) simp

lemma fileRow_SomeD: "fileRow lay key = Some f \<Longrightarrow> f \<in> set (tl_files lay) \<and> js_lower (fr_path f) = key"
  unfolding fileRow_def by (drule find_SomeD) simp

text \<open>\<open>s2\<close> is the state after \<open>s\<close> in which the new entry's key counts as seen.\<close>

lemma on_dir_inv:
  assumes inv: "tar_inv q fs0 s fs" and ck: "checked (tr_layout q)" and m: "mode s = InHeader"
    and s2: "written s2 = written s" "seen s2 = key # seen s" and new: "key \<notin> set (seen s)"
  shows "outcome_inv q fs0 (on_dir q s2 h key fs)"
proof -
  have c: "confined q fs0 (written s2) fs" using tar_inv_confined [OF inv] s2 by simp
  have ok: "tar_inv q fs0 (s2\<lparr>written := written s2 @ [d], dirs := dirs s2 + 1, mode := InHeader\<rparr>) fs'"
    if d: "dirRow (tr_layout q) key = Some d" and mk: "fs_mkdir (tr_env q) (target (tr_payloadDir q) d) fs = Inr fs'" for d fs'
  proof -
    have dd: "d \<in> set (tl_dirs (tr_layout q))" "js_lower d = key" using dirRow_SomeD [OF d] by auto
    have "fs' = put_node (target (tr_payloadDir q) d) Folder fs" using fs_mkdir_Inr [OF mk] by simp
    moreover have "tar_inv q fs0 (s2\<lparr>written := written s2 @ [d], dirs := dirs s2 + 1, mode := InHeader\<rparr>)
        (put_node (target (tr_payloadDir q) d) Folder fs)"
      by (rule tar_inv_create [OF inv ck])
        (use m s2 new dd checked_dir_not_file [OF ck] in \<open>auto simp: at_rest_def listed_def open_ok_def\<close>)
    ultimately show ?thesis by simp
  qed
  show ?thesis using c ok by (auto simp: on_dir_def Let_def split: option.split sum.split)
qed

lemma on_file_inv:
  assumes inv: "tar_inv q fs0 s fs" and ck: "checked (tr_layout q)" and m: "mode s = InHeader"
    and s2: "written s2 = written s" "seen s2 = key # seen s" and new: "key \<notin> set (seen s)"
  shows "outcome_inv q fs0 (on_file q s2 h key fs)"
proof -
  have c: "confined q fs0 (written s2) fs" using tar_inv_confined [OF inv] s2 by simp
  have ok: "tar_inv q fs0 (s2\<lparr>written := written s2 @ [fr_path row], mode := InFile f\<rparr>) fs'"
    if r: "fileRow (tr_layout q) key = Some row" and z: "fr_size row = Fin (of_nat (th_size h))"
      and op: "fs_open_new (tr_env q) (target (tr_payloadDir q) (fr_path row)) fs = Inr fs'"
      and f: "f = \<lparr>of_rel = fr_path row, of_entry = entry, of_left = th_size h, of_at = 0, of_hashed = [],
                of_sha256 = js_lower (fr_sha256 row)\<rparr>" for row fs' f entry
  proof -
    have rr: "row \<in> set (tl_files (tr_layout q))" "js_lower (fr_path row) = key" using fileRow_SomeD [OF r] by auto
    have fs': "target (tr_payloadDir q) (fr_path row) \<noteq> []"
        "fs' = put_node (target (tr_payloadDir q) (fr_path row)) (RegularFile []) fs" using fs_open_Inr [OF op] by auto
    have "tar_inv q fs0 (s2\<lparr>written := written s2 @ [fr_path row], mode := InFile f\<rparr>)
        (put_node (target (tr_payloadDir q) (fr_path row)) (RegularFile []) fs)"
      by (rule tar_inv_create [OF inv ck])
        (use m s2 new rr z fs'(1) checked_dir_not_file [OF ck rr(1)] in
          \<open>auto simp: at_rest_def listed_def open_ok_def opened_def f\<close>)
    then show ?thesis using fs' by simp
  qed
  have fin: "outcome_inv q fs0 (end_file q (s2\<lparr>written := written s2 @ [fr_path row], mode := InFile f\<rparr>) f fs')"
    if "fileRow (tr_layout q) key = Some row" "fr_size row = Fin (of_nat (th_size h))"
      "fs_open_new (tr_env q) (target (tr_payloadDir q) (fr_path row)) fs = Inr fs'"
      "f = \<lparr>of_rel = fr_path row, of_entry = entry, of_left = th_size h, of_at = 0, of_hashed = [],
                of_sha256 = js_lower (fr_sha256 row)\<rparr>" "th_size h = 0" for row fs' f entry
    by (rule end_file_inv [OF ok [OF that(1-4)] ck]) (simp_all add: that(4,5))
  show ?thesis using c ok fin by (simp add: on_file_def Let_def split: option.split sum.split)
qed

lemma on_entry_inv:
  assumes inv: "tar_inv q fs0 s fs" and ck: "checked (tr_layout q)" and m: "mode s = InHeader"
  shows "outcome_inv q fs0 (on_entry q s h fs)"
proof -
  define s2 where "s2 = s\<lparr>paxPending := None, entries := entries s + 1, seen := js_lower (entry_rel h) # seen s\<rparr>"
  have s2: "written s2 = written s" "seen s2 = js_lower (entry_rel h) # seen s" by (simp_all add: s2_def)
  have c: "confined q fs0 (written s) fs" by (rule tar_inv_confined [OF inv])
  have skip: "tar_inv q fs0 (s2\<lparr>ignored := ignored s2 + 1, mode := m'\<rparr>) fs"
    if "ignoredRow (tr_layout q) (js_lower (entry_rel h))" "at_rest m'" for m'
    using inv m that by (cases m') (auto simp: tar_inv_def s2_def open_ok_def opened_def at_rest_def)
  have d: "outcome_inv q fs0 (on_dir q s2 h (js_lower (entry_rel h)) fs)" if "js_lower (entry_rel h) \<notin> set (seen s)"
    by (rule on_dir_inv [OF inv ck m s2 that])
  have f: "outcome_inv q fs0 (on_file q s2 h (js_lower (entry_rel h)) fs)" if "js_lower (entry_rel h) \<notin> set (seen s)"
    by (rule on_file_inv [OF inv ck m s2 that])
  show ?thesis using c skip [of "InSkip (th_size h)"] skip [of InHeader] d f unfolding s2_def
    by (simp add: on_entry_def Let_def at_rest_def split: option.split)
qed

lemma on_pax_inv:
  assumes "tar_inv q fs0 s fs" "mode s = InHeader"
  shows "outcome_inv q fs0 (on_pax s h fs)"
proof -
  have "tar_inv q fs0 (s\<lparr>paxPending := p, mode := InPax n [] e\<rparr>) fs" for p n e
    using assms by (simp add: tar_inv_def open_ok_def opened_def)
  then show ?thesis using tar_inv_confined [OF assms(1)] by (simp add: on_pax_def Let_def)
qed

lemma onBlock_inv:
  assumes inv: "tar_inv q fs0 s fs" and ck: "checked (tr_layout q)" and m: "mode s = InHeader"
  shows "outcome_inv q fs0 (onBlock q s blk fs)"
proof -
  have c: "confined q fs0 (written s) fs" by (rule tar_inv_confined [OF inv])
  have z: "tar_inv q fs0 (s\<lparr>zeroBlocks := n, mode := m'\<rparr>) fs" if "at_rest m'" for m' n
    using inv m that by (cases m') (simp_all add: tar_inv_def open_ok_def opened_def at_rest_def)
  have h: "tar_inv q fs0 (s\<lparr>pad := p, headers := n\<rparr>) fs" for p n
    using inv by (subst tar_inv_cong) simp_all
  show ?thesis using c z [of AtEnd] z [of "mode s"] m on_pax_inv [OF h] on_entry_inv [OF h ck]
    by (simp add: onBlock_def Let_def at_rest_def split: option.split sum.split)
qed

lemma header_step_inv:
  assumes "tar_inv q fs0 s fs" "checked (tr_layout q)" "mode s = InHeader"
  shows "outcome_inv q fs0 (header_step q s blk fs)"
proof -
  have "tar_inv q fs0 (s\<lparr>block := b\<rparr>) fs" for b using assms by (subst tar_inv_cong) simp_all
  then show ?thesis using onBlock_inv assms by (simp add: header_step_def)
qed

lemma write_chunk_inv:
  "checked (tr_layout q) \<Longrightarrow> outcome_inv q fs0 out \<Longrightarrow> outcome_inv q fs0 (write_chunk q out chunk)"
proof (induction q out chunk rule: write_chunk.induct)
  case (1 q e w fs chunk)
  then show ?case by simp
next
  case (2 q s fs chunk)
  then have inv: "tar_inv q fs0 s fs" and ck: "checked (tr_layout q)" by simp_all
  show ?case
  proof (cases "chunk = []")
    case True
    then show ?thesis using 2 by simp
  next
    case ne: False
    show ?thesis
    proof (cases "owes_data (mode s)")
      case True
      let ?n = "data_left (mode s)"
      have "outcome_inv q fs0 (endEntry q (take_data q s (take ?n chunk) fs))"
        by (rule endEntry_inv [OF take_data_inv [OF inv ck] ck]) simp
      then have "outcome_inv q fs0 (write_chunk q (endEntry q (take_data q s (take ?n chunk) fs)) (drop ?n chunk))"
        using 2(4,5,6) [OF ne] ck True by (cases "mode s") (auto simp: owes_data_def drop_min_length)
      then show ?thesis using True ne by (simp add: write_data)
    next
      case nodata: False
      show ?thesis
      proof (cases "mode s = AtEnd")
        case True
        then show ?thesis using inv tar_inv_confined [OF inv] by (simp add: write_end after_end_def)
      next
        case False
        with nodata have h: "mode s = InHeader" by (cases "mode s") (auto simp: owes_data_def)
        show ?thesis
        proof (cases "0 < pad s")
          case True
          have "tar_inv q fs0 (s\<lparr>pad := pad s - min (pad s) (length chunk)\<rparr>) fs" using inv by (subst tar_inv_cong) simp_all
          then have "outcome_inv q fs0 (write_chunk q (Reading (s\<lparr>pad := pad s - min (pad s) (length chunk)\<rparr>) fs)
              (drop (min (pad s) (length chunk)) chunk))"
            using 2(1) [OF ne h True refl] ck by simp
          moreover have "pad s - min (pad s) (length chunk) = pad s - length chunk" by simp
          ultimately show ?thesis using True h by (simp add: write_pad drop_min_length)
        next
          case nopad: False
          then have p: "pad s = 0" by simp
          let ?n = "BLOCK - length (block s)"
          have "outcome_inv q fs0 (header_step q s (block s @ take ?n chunk) fs)" by (rule header_step_inv [OF inv ck h])
          then have "outcome_inv q fs0 (write_chunk q (header_step q s (block s @ take ?n chunk) fs) (drop ?n chunk))"
            using 2(2,3) [OF ne h nopad refl refl] ck unfolding header_step_def drop_min_length
            by (cases "BLOCK \<le> length (block s @ take ?n chunk)") (simp_all only: if_True if_False not_False_eq_True)
          then show ?thesis using ne h p by (simp add: write_header)
        qed
      qed
    qed
  qed
qed

lemma tar_inv_new: "tar_inv q fs0 new_extraction fs0"
  by (simp add: tar_inv_def new_extraction_def confined_def open_ok_def)

lemma feed_chunks_inv:
  "checked (tr_layout q) \<Longrightarrow> outcome_inv q fs0 (snd (snd acc)) \<Longrightarrow>
     outcome_inv q fs0 (snd (snd (feed_chunks q limit acc cs)))"
proof (induction q limit acc cs rule: feed_chunks.induct)
  case (3 q limit decompressed crc s fs c cs)
  then show ?case using write_chunk_inv [of q fs0 "Reading s fs" c] tar_inv_confined [of q fs0 s fs]
    by (simp add: Let_def)
qed auto

subsection \<open>What an extraction leaves behind\<close>

definition extraction_written :: "extract_failure + extract_success \<Rightarrow> string list" where
  "extraction_written r = (case r of Inl e \<Rightarrow> xf_written e | Inr ok \<Rightarrow> xs_written ok)"

lemma check_archive_checked: "check_archive q ae archive fs = Inr n \<Longrightarrow> checked (tr_layout q)"
  by (auto simp: check_archive_def checked_def split: if_splits option.splits)

lemma extract_confined:
  assumes "extractTarGz q ae archive fs = (r, fs')"
  shows "confined q fs (extraction_written r) fs'"
proof (cases "check_archive q ae archive fs")
  case (Inl e)
  then show ?thesis using assms
    by (auto simp: extractTarGz_def failed_def extraction_written_def confined_def)
next
  case (Inr n)
  obtain chunks stop where i: "ae_inflate ae (take (length archive - 8 - n) (drop n archive)) = (chunks, stop)" by force
  obtain d c out where o: "feed_chunks q (tarDecompressedLimit (tr_layout q)) (0, 0, Reading new_extraction fs) chunks = (d, c, out)"
    by (cases "feed_chunks q (tarDecompressedLimit (tr_layout q)) (0, 0, Reading new_extraction fs) chunks") auto
  have inv: "outcome_inv q fs out"
    using feed_chunks_inv [OF check_archive_checked [OF Inr], of fs "(0, 0, Reading new_extraction fs)"] o tar_inv_new
    by simp (metis o snd_conv)
  show ?thesis
  proof (cases out)
    case (Reading s f)
    then have "confined q fs (written s) f" using inv tar_inv_confined by simp
    then show ?thesis using assms Inr i o Reading
      by (auto simp: extractTarGz_def failed_def extraction_written_def Let_def split: option.splits)
  next
    case (Refused e w f)
    then show ?thesis using assms Inr i o inv
      by (auto simp: extractTarGz_def failed_def extraction_written_def Let_def)
  qed
qed

unbundle bit_operations_syntax

subsection \<open>The table-driven CRC is the bitwise one\<close>

lemma crc_step_alt: "crc_step c = drop_bit 1 c XOR (if bit c 0 then 0xedb88320 else 0)"
proof -
  have "c AND 1 \<noteq> 0 \<longleftrightarrow> bit c 0" by (simp add: and_one_eq bit_0 mod_2_eq_odd)
  then show ?thesis by (simp add: crc_step_def xor.commute)
qed

lemma crc_step_xor: "crc_step (a XOR b) = crc_step a XOR crc_step b"
  by (rule bit_eqI) (auto simp: crc_step_alt bit_xor_iff)

lemma crc_steps_xor: "(crc_step ^^ n) (a XOR b) = (crc_step ^^ n) a XOR (crc_step ^^ n) b"
  by (induction n) (simp_all add: crc_step_xor)

lemma crc_steps_shift: "\<forall>i<n. \<not> bit c i \<Longrightarrow> (crc_step ^^ n) c = drop_bit n c"
proof (induction n)
  case (Suc n)
  then have "\<not> bit (drop_bit n c) 0" by (simp add: bit_drop_bit_eq)
  then show ?case using Suc by (simp add: crc_step_alt)
qed simp

lemma low_byte: "c AND 0xff = take_bit 8 (c :: 32 word)"
proof -
  have "(mask 8 :: 32 word) = 0xff" by (simp add: mask_eq_exp_minus_1)
  then show ?thesis by (simp add: take_bit_eq_mask)
qed

lemma crc_steps_table: "(crc_step ^^ 8) c = crcTable ! unat (c AND 0xff) XOR drop_bit 8 c"
proof -
  let ?lo = "c AND 0xff" and ?hi = "push_bit 8 (drop_bit 8 c)"
  have split: "c = ?lo XOR ?hi"
    unfolding low_byte by (rule bit_eqI) (auto simp: bit_simps)
  have "(crc_step ^^ 8) ?hi = drop_bit 8 ?hi"
    by (rule crc_steps_shift) (simp add: bit_push_bit_iff)
  also have "drop_bit 8 ?hi = drop_bit 8 c" by (rule bit_eqI) (auto simp: bit_simps dest: bit_imp_le_length)
  finally have hi: "(crc_step ^^ 8) ?hi = drop_bit 8 c" .
  have "unat ?lo < 256" unfolding low_byte using take_bit_nat_less_exp [of 8 "unat c"] by (simp add: unsigned_take_bit_eq)
  then have lo: "crcTable ! unat ?lo = (crc_step ^^ 8) ?lo" by (simp add: crcTable_def)
  have "(crc_step ^^ 8) c = (crc_step ^^ 8) (?lo XOR ?hi)" using split by simp
  then show ?thesis unfolding crc_steps_xor hi lo .
qed

text \<open>The reference: exclusive-or with the byte, then eight steps of the shift register.\<close>

definition crc_reference :: "byte list \<Rightarrow> 32 word \<Rightarrow> 32 word" where
  "crc_reference bs v = foldl (\<lambda>crc b. (crc_step ^^ 8) (crc XOR ucast b)) (v XOR 0xffffffff) bs XOR 0xffffffff"

lemma crc_byte_reference: "crc_byte crc b = (crc_step ^^ 8) (crc XOR ucast b)"
proof -
  have "drop_bit 8 (ucast b :: 32 word) = 0" by (rule bit_eqI) (auto simp: bit_simps dest: bit_imp_le_length)
  then show ?thesis by (simp add: crc_byte_def crc_steps_table)
qed

lemma crc32_append: "crc32Fallback (a @ b) v = crc32Fallback b (crc32Fallback a v)"
  by (simp add: crc32Fallback_def xor.assoc)

unbundle bit_operations_syntax

interpretation crc: chunked_reader "\<lambda>v bs. crc32Fallback bs v"
  by unfold_locales (simp add: crc32Fallback_def xor.assoc, rule crc32_append)

subsection \<open>The loop over the chunks as one write\<close>

lemma feed_chunks_Refused: "feed_chunks q limit (d, v, Refused e w fs) cs = (d, v, Refused e w fs)"
  by (cases cs) simp_all

lemma feed_chunks_out:
  "d + length (concat cs) \<le> limit \<Longrightarrow>
     snd (snd (feed_chunks q limit (d, v, out) cs)) = write_chunk q out (concat cs)"
proof (induction cs arbitrary: d v out)
  case (Cons c cs)
  show ?case
  proof (cases out)
    case (Reading s fs)
    then show ?thesis using Cons.prems Cons.IH [of "d + length c"]
      by (simp add: Let_def write_chunk_append add.assoc)
  next
    case (Refused e w fs)
    then show ?thesis by simp
  qed
qed simp

lemma feed_chunks_Reading:
  "feed_chunks q limit (d, v, out) cs = (d', v', Reading s' fs') \<Longrightarrow> d \<le> limit \<Longrightarrow>
     d' = d + length (concat cs) \<and> v' = crc32Fallback (concat cs) v \<and> d' \<le> limit"
proof (induction cs arbitrary: d v out)
  case Nil
  then show ?case by (simp add: crc.consume_Nil)
next
  case (Cons c cs)
  obtain s fs where out: "out = Reading s fs" using Cons.prems(1) by (cases out) simp_all
  have le: "d + length c \<le> limit" using Cons.prems(1) out by (simp add: Let_def split: if_splits)
  have rest: "feed_chunks q limit (d + length c, crc32Fallback c v, write_chunk q (Reading s fs) c) cs = (d', v', Reading s' fs')"
    using Cons.prems(1) out le by (simp add: Let_def)
  show ?case using Cons.IH [OF rest le] by (simp add: crc32_append add.assoc)
qed

lemma feed_chunks_count:
  "feed_chunks q limit (d, v, out) cs = (d', v', out') \<Longrightarrow> d \<le> limit \<Longrightarrow> \<forall>c\<in>set cs. length c \<le> k \<Longrightarrow> d' \<le> limit + k"
proof (induction cs arbitrary: d v out)
  case (Cons c cs)
  show ?case
  proof (cases out)
    case (Reading s fs)
    show ?thesis
    proof (cases "d + length c > limit")
      case True
      then have "d' = d + length c" using Cons.prems(1) Reading by (simp add: Let_def)
      then show ?thesis using Cons.prems(2,3) by simp
    next
      case False
      then show ?thesis using Cons.prems Cons.IH [of "d + length c" "crc32Fallback c v" "write_chunk q (Reading s fs) c"] Reading
        by (simp add: Let_def)
    qed
  next
    case (Refused e w fs)
    then show ?thesis using Cons.prems by simp
  qed
qed simp

subsection \<open>A successful extraction, step by step\<close>

lemma extract_success_steps:
  assumes "extractTarGz q ae archive fs = (Inr ok, fs')"
  obtains n chunks s v where
    "check_archive q ae archive fs = Inr n"
    "fst (ae_inflate ae (take (length archive - 8 - n) (drop n archive))) = chunks"
    "feed_chunks q (tarDecompressedLimit (tr_layout q)) (0, 0, Reading new_extraction fs) chunks
       = (xs_decompressedBytes ok, v, Reading s fs')"
    "finish (tr_layout q) s = None" "xs_written ok = written s"
    "check_member archive (length archive - 8 - n) (Inflated (length archive - 8 - n)) (xs_decompressedBytes ok) v = None"
proof -
  obtain n where n: "check_archive q ae archive fs = Inr n"
    using assms by (cases "check_archive q ae archive fs") (auto simp: extractTarGz_def)
  obtain chunks stop where i: "ae_inflate ae (take (length archive - 8 - n) (drop n archive)) = (chunks, stop)" by force
  obtain d v out where o: "feed_chunks q (tarDecompressedLimit (tr_layout q)) (0, 0, Reading new_extraction fs) chunks = (d, v, out)"
    by (cases "feed_chunks q (tarDecompressedLimit (tr_layout q)) (0, 0, Reading new_extraction fs) chunks") auto
  obtain s f where r: "out = Reading s f" using assms n i o by (cases out) (auto simp: extractTarGz_def Let_def)
  have e: "or_else (stream_failure ae stop)
      (or_else (check_member archive (length archive - 8 - n) stop d v) (finish (tr_layout q) s)) = None"
    using assms n i o r by (auto simp: extractTarGz_def Let_def split: option.splits)
  then have "finish (tr_layout q) s = None" "check_member archive (length archive - 8 - n) stop d v = None"
    by (auto simp: or_else_def split: option.splits)
  moreover from this(2) have "stop = Inflated (length archive - 8 - n)" by (auto simp: check_member_def Let_def split: if_splits)
  moreover have "f = fs'" "xs_written ok = written s" "xs_decompressedBytes ok = d"
    using assms n i o r e by (auto simp: extractTarGz_def Let_def)
  ultimately show ?thesis using that [of n chunks v s] n i o r by simp
qed

lemma finished_complete:
  assumes inv: "tar_inv q fs s fs'" and ck: "checked (tr_layout q)" and fin: "finish (tr_layout q) s = None"
  shows "set (written s) = listed (tr_layout q)"
    "f \<in> set (tl_files (tr_layout q)) \<Longrightarrow> file_ok q f fs'"
    "d \<in> set (tl_dirs (tr_layout q)) \<Longrightarrow> node_at fs' (target (tr_payloadDir q) d) = Some Folder"
proof -
  have m: "mode s = AtEnd" using fin by (auto simp: finish_def split: if_splits)
  have sf: "js_lower (fr_path f) \<in> set (seen s)" if "f \<in> set (tl_files (tr_layout q))" for f
    using fin that by (auto simp: finish_def find_None_iff split: if_splits option.splits)
  have sd: "js_lower d \<in> set (seen s)" if "d \<in> set (tl_dirs (tr_layout q))" for d
    using fin that by (auto simp: finish_def find_None_iff split: if_splits option.splits)
  have w: "rel \<in> set (written s)" if l: "rel \<in> listed (tr_layout q)" for rel
  proof -
    have "js_lower rel \<in> set (seen s)" using l sf sd by (auto simp: listed_def)
    then obtain rel' where r: "rel' \<in> set (written s)" "js_lower rel' = js_lower rel"
      using inv checked_not_ignored [OF ck l] by (auto simp: tar_inv_def)
    then have "rel' \<in> listed (tr_layout q)" using inv by (auto simp: tar_inv_def confined_def)
    then show ?thesis using checked_lower_inj [OF ck _ l] r by blast
  qed
  then show "set (written s) = listed (tr_layout q)" using inv by (auto simp: tar_inv_def confined_def)
  show "file_ok q f fs'" if "f \<in> set (tl_files (tr_layout q))"
    using inv w [of "fr_path f"] that m by (auto simp: tar_inv_def opened_def listed_def)
  show "node_at fs' (target (tr_payloadDir q) d) = Some Folder" if "d \<in> set (tl_dirs (tr_layout q))"
    using inv w [of d] that by (auto simp: tar_inv_def listed_def)
qed

lemma extract_success_state:
  assumes "extractTarGz q ae archive fs = (Inr ok, fs')"
  obtains s where "checked (tr_layout q)" "tar_inv q fs s fs'" "finish (tr_layout q) s = None" "xs_written ok = written s"
proof -
  obtain n chunks s v where n: "check_archive q ae archive fs = Inr n"
    and f: "feed_chunks q (tarDecompressedLimit (tr_layout q)) (0, 0, Reading new_extraction fs) chunks
       = (xs_decompressedBytes ok, v, Reading s fs')"
    and fin: "finish (tr_layout q) s = None" "xs_written ok = written s"
    by (rule extract_success_steps [OF assms])
  have ck: "checked (tr_layout q)" by (rule check_archive_checked [OF n])
  have "outcome_inv q fs (snd (snd (feed_chunks q (tarDecompressedLimit (tr_layout q)) (0, 0, Reading new_extraction fs) chunks)))"
    by (rule feed_chunks_inv [OF ck]) (simp add: tar_inv_new)
  then have "tar_inv q fs s fs'" by (simp add: f)
  then show ?thesis using that ck fin by blast
qed

lemma first_unsafe_None: "first_unsafe segs = None \<longleftrightarrow> list_all (\<lambda>seg. unsafe_segment seg = None) segs"
  by (induction segs) (auto split: option.splits)

section \<open>Properties\<close>

text \<open>
  C3: a successful extraction leaves exactly the package. Every listed file exists below the payload
  folder with its listed size and a content of its listed SHA-256, every listed folder exists, the
  reported paths are exactly the listed ones, and no other node of the file system changed, whatever
  the archive, the inflater, partial writes and the order of entries were.
\<close>

theorem successful_extraction_is_the_package:
  assumes "extractTarGz q ae archive fs = (Inr ok, fs')"
  shows "set (xs_written ok) = fr_path ` set (tl_files (tr_layout q)) \<union> set (tl_dirs (tr_layout q))
    \<and> (\<forall>f\<in>set (tl_files (tr_layout q)). \<exists>bs.
         node_at fs' (target (tr_payloadDir q) (fr_path f)) = Some (RegularFile bs)
         \<and> fr_size f = Fin (of_nat (length bs)) \<and> te_sha256 (tr_env q) bs = js_lower (fr_sha256 f))
    \<and> (\<forall>d\<in>set (tl_dirs (tr_layout q)). node_at fs' (target (tr_payloadDir q) d) = Some Folder)
    \<and> (\<forall>p. p \<notin> target (tr_payloadDir q) ` set (xs_written ok) \<longrightarrow> node_at fs' p = node_at fs p)"
proof -
  obtain s where s: "checked (tr_layout q)" "tar_inv q fs s fs'" "finish (tr_layout q) s = None" "xs_written ok = written s"
    by (rule extract_success_state [OF assms])
  note c = finished_complete [OF s(2,1,3)]
  show ?thesis
    using c tar_inv_confined [OF s(2)] unfolding s(4) listed_def file_ok_def confined_def by blast
qed

text \<open>
  C4: whether it succeeds or fails, an extraction changes only nodes it reports as written, and each
  of them lies strictly below the payload folder, reached by segments that are never empty, dots, or
  device names.
\<close>

theorem extraction_stays_in_the_payload_folder:
  assumes "extractTarGz q ae archive fs = (r, fs')" and "node_at fs' p \<noteq> node_at fs p"
  shows "p \<in> target (tr_payloadDir q) ` set (extraction_written r)
    \<and> (\<exists>segs. segs \<noteq> [] \<and> p = tr_payloadDir q @ segs \<and> list_all (\<lambda>seg. unsafe_segment seg = None) segs)"
proof -
  have c: "confined q fs (extraction_written r) fs'" by (rule extract_confined [OF assms(1)])
  then obtain rel where rel: "rel \<in> set (extraction_written r)" "p = target (tr_payloadDir q) rel"
    using assms(2) by (auto simp: confined_def)
  have "checked (tr_layout q)" using assms(1) rel(1)
    by (cases "check_archive q ae archive fs")
      (auto simp: extractTarGz_def failed_def extraction_written_def dest: check_archive_checked)
  then have safe: "unsafePackagePath rel = None" using checked_safe c rel(1) by (auto simp: confined_def)
  then have "list_all (\<lambda>seg. unsafe_segment seg = None) (split_on CHR ''/'' rel)"
    by (simp add: unsafePackagePath_def first_unsafe_None)
  moreover have "p = tr_payloadDir q @ split_on CHR ''/'' rel" using rel target_safe [OF safe] by simp
  moreover have "p \<in> target (tr_payloadDir q) ` set (extraction_written r)" using rel by blast
  ultimately show ?thesis by (intro conjI exI [of _ "split_on CHR ''/'' rel"]) simp_all
qed

text \<open>
   how the inflater cuts its output does not matter. Two runs over the same decompressed bytes
  within the limit end in the same state or the same failure, with the same byte count and CRC when
  they go on.
\<close>

theorem inflater_chunks_do_not_matter:
  assumes "concat cs = concat ds" and "length (concat cs) \<le> limit"
  shows "case (feed_chunks q limit (0, 0, out) cs, feed_chunks q limit (0, 0, out) ds) of
    ((d, v, r), (d', v', r')) \<Rightarrow> r = r' \<and> (case r of Reading s fs \<Rightarrow> d = d' \<and> v = v' | Refused e w fs \<Rightarrow> True)"
proof -
  obtain d v r where a: "feed_chunks q limit (0, 0, out) cs = (d, v, r)" by (metis prod_cases3)
  obtain d' v' r' where b: "feed_chunks q limit (0, 0, out) ds = (d', v', r')" by (metis prod_cases3)
  have 1: "r = write_chunk q out (concat cs)" using feed_chunks_out [of 0 cs limit q 0 out] a assms by simp
  have 2: "r' = r" using 1 feed_chunks_out [of 0 ds limit q 0 out] b assms by simp
  have 3: "d = d' \<and> v = v'" if r: "r = Reading s fs" for s fs
    using feed_chunks_Reading [of q limit 0 0 out cs d v s fs] feed_chunks_Reading [of q limit 0 0 out ds d' v' s fs]
      a b r 2 assms(1) by simp
  show ?thesis unfolding a b prod.case 2 using 3 by (cases r) simp_all
qed

text \<open>
   a gzip bomb ends on the byte count. Whatever the inflater produces, the bytes accepted before
  the reader stops it are at most the global bound plus one chunk.
\<close>

theorem decompression_is_bounded:
  assumes "feed_chunks q (tarDecompressedLimit lay) (0, 0, out) cs = (d, v, out')" and "\<forall>c\<in>set cs. length c \<le> k"
  shows "d \<le> maxDecompressedBytes + k"
proof -
  have "d \<le> tarDecompressedLimit lay + k" by (rule feed_chunks_count [OF assms(1) _ assms(2)]) simp
  then show ?thesis by (simp add: tarDecompressedLimit_def Let_def)
qed

text \<open>
   the table-driven CRC-32 computes the bitwise CRC of the polynomial 0xedb88320, continuing from
  any value.
\<close>

theorem crc_table_is_bitwise: "crc32Fallback bs v = crc_reference bs v"
  by (simp add: crc32Fallback_def crc_reference_def crc_byte_reference [abs_def])

unbundle bit_operations_syntax

subsection \<open>A concrete package\<close>

definition le32 :: "32 word \<Rightarrow> byte list" where
  "le32 w = [ucast w, ucast (drop_bit 8 w), ucast (drop_bit 16 w), ucast (drop_bit 24 w)]"

lemma digits256:
  assumes "256 * a + m0 = (n :: nat)"
  shows "m0 + 256 * (a mod 256) + 65536 * (a div 256 mod 256 + 256 * (a div 256 div 256)) = n"
proof -
  have 1: "a div 256 mod 256 + 256 * (a div 256 div 256) = a div 256"
    using mult_div_mod_eq [of 256 "a div 256"] by (simp only: add.commute)
  have 2: "65536 * x = 256 * (256 * x)" for x :: nat by simp
  have "256 * (a mod 256) + 256 * (256 * (a div 256)) = 256 * (a mod 256 + 256 * (a div 256))" by (simp only: distrib_left)
  also have "a mod 256 + 256 * (a div 256) = a" using mult_div_mod_eq [of 256 a] by (simp only: add.commute)
  finally have "256 * (a mod 256) + 256 * (256 * (a div 256)) = 256 * a" .
  then show ?thesis unfolding 1 2 using assms by (simp only: add.commute add.left_commute add.assoc)
qed

lemma u32le_le32: "u32le (le32 w @ rest) 0 = unat w" "u32le (le32 v @ le32 w) 4 = unat w"
proof -
  have b: "unat (ucast (drop_bit k w) :: byte) = unat w div 2 ^ k mod 256" for k
  proof -
    have "unat (drop_bit k w) = unat w div 2 ^ k" by (simp only: unat_drop_bit_eq) (simp only: drop_bit_eq_div)
    then show ?thesis by (simp add: unsigned_ucast_eq take_bit_eq_mod del: drop_bit_eq_div)
  qed
  have less: "unat w < 2 ^ 32" using unsigned_less [of w] by simp
  have n: "n mod 256 + 256 * (n div 256 mod 256) + 65536 * (n div 65536 mod 256 + 256 * (n div 16777216 mod 256)) = n"
    if "n < 4294967296" for n :: nat
  proof -
    have d: "n div 65536 = n div 256 div 256" "n div 16777216 = n div 256 div 256 div 256" by (simp_all add: div_mult2_eq [symmetric])
    have "n div 256 div 256 div 256 < 256" using that by (simp add: div_mult2_eq [symmetric] less_mult_imp_div_less)
    then have "n div 256 div 256 div 256 mod 256 = n div 256 div 256 div 256" by (rule mod_less)
    then show ?thesis unfolding d using digits256 [of "n div 256" "n mod 256" n] by simp
  qed
  have "unat w mod 256 + 256 * (unat w div 256 mod 256) + 65536 * (unat w div 65536 mod 256 + 256 * (unat w div 16777216 mod 256)) = unat w"
    by (rule n) (use less in simp)
  then have sum: "unat (ucast w :: byte) + 256 * unat (ucast (drop_bit 8 w) :: byte)
      + 65536 * (unat (ucast (drop_bit 16 w) :: byte) + 256 * unat (ucast (drop_bit 24 w) :: byte)) = unat w"
    using b [of 0] b [of 8] b [of 16] b [of 24] by simp
  show "u32le (le32 w @ rest) 0 = unat w" using sum by (simp add: u32le_def u16le_def le32_def)
  show "u32le (le32 v @ le32 w) 4 = unat w" using sum by (simp add: u32le_def u16le_def le32_def)
qed

definition sample_env :: tar_env where
  "sample_env = \<lparr>te_mkdir = \<lambda>_. None, te_open = \<lambda>_. None, te_write = \<lambda>_ _. None, te_burst = 1, te_close = \<lambda>_. None,
     te_aborted = \<lambda>_. False, te_sha256 = \<lambda>bs. replicate 64 (if latin1 bs = ''hi'' then CHR ''a'' else CHR ''b'')\<rparr>"

definition sample_layout :: tar_layout where
  "sample_layout = \<lparr>tl_entrypoint = ''bin/x'', tl_unpackedBytes = Fin 2, tl_dirs = [''bin''], tl_ignoredEntries = [''LICENSE''],
     tl_files = [\<lparr>fr_path = ''bin/x'', fr_size = Fin 2, fr_sha256 = replicate 64 CHR ''A''\<rparr>]\<rparr>"

definition sample_request :: tar_request where
  "sample_request = \<lparr>tr_payloadDir = [''p''], tr_layout = sample_layout, tr_env = sample_env\<rparr>"

definition sample_fs :: file_system where
  "sample_fs = \<lparr>nodes = [([''p''], Folder)]\<rparr>"

definition sample_data :: "byte list" where
  "sample_data = ustar_header ''bin/'' DirEntry 0 @ ustar_header ''bin/x'' FileEntry 2 @ bytes_of ''hi'' @ replicate 510 0 @ replicate 512 0 @ replicate 512 0"

definition sample_archive :: "byte list" where
  "sample_archive = [0x1f, 0x8b, 8, 0, 0, 0, 0, 0, 0, 0] @ [0] @ le32 (crc32Fallback sample_data 0) @ le32 2560"

definition sample_parts :: "byte list list" where
  "sample_parts = [take 700 sample_data, drop 700 sample_data]"

definition sample_inflate :: archive_env where
  "sample_inflate = \<lparr>ae_abortedBefore = False, ae_abortedWhile = False, ae_open = None, ae_read = None,
     ae_inflate = \<lambda>_. (sample_parts, Inflated 1)\<rparr>"

definition sample_end :: tar_state where
  "sample_end = \<lparr>written = [''bin'', ''bin/x''], entries = 2, dirs = 1, files = 1, ignored = 0, mode = AtEnd, pad = 0,
     block = [], zeroBlocks = 2, paxPending = None, seen = [''bin/x'', ''bin''], headers = 2\<rparr>"

definition sample_fs_end :: file_system where
  "sample_fs_end = \<lparr>nodes = [([''p''], Folder), ([''p'', ''bin''], Folder), ([''p'', ''bin'', ''x''], RegularFile (bytes_of ''hi''))]\<rparr>"

lemma write_block:
  "mode s = InHeader \<Longrightarrow> pad s = 0 \<Longrightarrow> block s = [] \<Longrightarrow> length blk = 512 \<Longrightarrow>
     write_chunk q (Reading s fs) (blk @ rest) = write_chunk q (onBlock q (s\<lparr>block := []\<rparr>) blk fs) rest"
proof -
  assume s: "mode s = InHeader" "pad s = 0" "block s = []" "length blk = 512"
  then have "blk @ rest \<noteq> []" by auto
  then show ?thesis using s write_header [of s "blk @ rest" q fs] by (simp add: header_step_def BLOCK_def)
qed

lemma onBlock_header:
  assumes "length name \<le> 100" "CHR 0x00 \<notin> set name" "n < 8 ^ 11" "k \<noteq> PaxEntry" "zeroBlocks s = 0" "\<not> te_aborted (tr_env q) (headers s)"
  shows "onBlock q s (ustar_header name k n) fs =
    on_entry q (s\<lparr>pad := (BLOCK - n mod BLOCK) mod BLOCK, headers := headers s + 1\<rparr>) \<lparr>th_name = name, th_kind = k, th_size = n\<rparr> fs"
proof -
  have "kind_flag k \<in> set (ustar_header name k n)" by (simp add: ustar_header_def header_back_def)
  moreover have "kind_flag k \<noteq> 0" by (cases k) (simp_all add: kind_flag_def)
  ultimately have "\<not> list_all (\<lambda>b. b = 0) (ustar_header name k n)" by (auto simp: list_all_iff)
  then show ?thesis using assms readHeader_ustar [OF assms(1-3), of k] by (simp add: onBlock_def Let_def)
qed

definition sample_1 :: tar_state where
  "sample_1 = \<lparr>written = [''bin''], entries = 1, dirs = 1, files = 0, ignored = 0, mode = InHeader, pad = 0,
     block = [], zeroBlocks = 0, paxPending = None, seen = [''bin''], headers = 1\<rparr>"

lemma run_dir: "on_entry sample_request (new_extraction\<lparr>block := [], pad := 0, headers := 1\<rparr>)
     \<lparr>th_name = ''bin/'', th_kind = DirEntry, th_size = 0\<rparr> sample_fs
   = Reading sample_1 \<lparr>nodes = [([''p''], Folder), ([''p'', ''bin''], Folder)]\<rparr>"
  by code_simp

definition sample_open :: open_file where
  "sample_open = \<lparr>of_rel = ''bin/x'', of_entry = ''bin/x'', of_left = 2, of_at = 0, of_hashed = [], of_sha256 = replicate 64 CHR ''a''\<rparr>"

definition sample_2 :: tar_state where
  "sample_2 = \<lparr>written = [''bin'', ''bin/x''], entries = 2, dirs = 1, files = 0, ignored = 0, mode = InFile sample_open, pad = 510,
     block = [], zeroBlocks = 0, paxPending = None, seen = [''bin/x'', ''bin''], headers = 2\<rparr>"

definition sample_fs_open :: file_system where
  "sample_fs_open = \<lparr>nodes = [([''p''], Folder), ([''p'', ''bin''], Folder), ([''p'', ''bin'', ''x''], RegularFile [])]\<rparr>"

lemma run_file: "on_entry sample_request (sample_1\<lparr>block := [], pad := 510, headers := Suc (Suc 0)\<rparr>)
     \<lparr>th_name = ''bin/x'', th_kind = FileEntry, th_size = 2\<rparr> \<lparr>nodes = [([''p''], Folder), ([''p'', ''bin''], Folder)]\<rparr>
   = Reading sample_2 sample_fs_open"
  by code_simp

lemma run_data: "endEntry sample_request (take_data sample_request sample_2 (bytes_of ''hi'') sample_fs_open)
   = Reading (sample_2\<lparr>mode := InHeader, files := 1\<rparr>) sample_fs_end"
  by code_simp

lemma run_zeros: "onBlock q s (replicate 512 0) fs = (case paxPending s of
     Some entry \<Rightarrow> Refused (failure_at RPax ''a pax header has no entry after it'' entry) (written s) fs
   | None \<Rightarrow> Reading (s\<lparr>zeroBlocks := zeroBlocks s + 1, mode := (if zeroBlocks s + 1 = 2 then AtEnd else mode s)\<rparr>) fs)"
  by (simp add: onBlock_def list_all_iff)

lemma sample_run: "write_chunk sample_request (Reading new_extraction sample_fs) sample_data = Reading sample_end sample_fs_end"
proof -
  let ?q = sample_request
  let ?r1 = "ustar_header ''bin/x'' FileEntry 2 @ bytes_of ''hi'' @ replicate 510 0 @ replicate 512 0 @ replicate 512 (0::byte)"
  have ab: "\<not> te_aborted (tr_env ?q) n" for n by (simp add: sample_request_def sample_env_def)
  have 1: "write_chunk ?q (Reading new_extraction sample_fs) sample_data
      = write_chunk ?q (Reading sample_1 \<lparr>nodes = [([''p''], Folder), ([''p'', ''bin''], Folder)]\<rparr>) ?r1"
    unfolding sample_data_def
    by (subst write_block) (simp_all add: new_extraction_def length_ustar_header onBlock_header ab run_dir [unfolded new_extraction_def, simplified])
  have 2: "\<dots> = write_chunk ?q (Reading sample_2 sample_fs_open) (bytes_of ''hi'' @ replicate 510 0 @ replicate 512 0 @ replicate 512 (0::byte))"
    by (subst write_block) (simp_all add: sample_1_def length_ustar_header onBlock_header ab BLOCK_def run_file [unfolded sample_1_def, simplified])
  have 3: "\<dots> = write_chunk ?q (Reading (sample_2\<lparr>mode := InHeader, files := 1\<rparr>) sample_fs_end) (replicate 510 0 @ replicate 512 0 @ replicate 512 (0::byte))"
  proof -
    have m: "owes_data (mode sample_2)" "data_left (mode sample_2) = 2" by code_simp+
    show ?thesis using write_data [of sample_2 "bytes_of ''hi'' @ _"] m run_data by (simp add: bytes_of_def)
  qed
  have 4: "\<dots> = write_chunk ?q (Reading (sample_2\<lparr>mode := InHeader, files := 1, pad := 0\<rparr>) sample_fs_end) (replicate 512 0 @ replicate 512 (0::byte))"
    by (subst write_pad) (simp_all add: sample_2_def)
  have 5: "\<dots> = Reading sample_end sample_fs_end"
    by (subst write_block, simp_all add: sample_2_def run_zeros)
      (subst write_block [of _ _ _ _ "[]", simplified], simp_all add: run_zeros sample_end_def)
  show ?thesis unfolding 1 2 3 4 5 ..
qed

lemma sample_layout_ok: "layoutProblem sample_layout = None"
  by code_simp

lemma sample_gzip: "gzipHeaderLength (take maxGzipHeaderBytes sample_archive) (length sample_archive) = Inr 10"
  by (simp add: gzipHeaderLength_def sample_archive_def le32_def maxGzipHeaderBytes_def is_byte_def gzip_extra_def gzip_text_def gzip_crc_def)

lemma sample_check: "check_archive sample_request sample_inflate sample_archive sample_fs = Inr 10"
proof -
  have "checkPayloadFolder sample_fs [''p''] = None" by code_simp
  then show ?thesis
    by (simp add: check_archive_def sample_gzip sample_inflate_def sample_request_def sample_layout_ok)
qed

definition sample_ok :: extract_success where
  "sample_ok = \<lparr>xs_files = 1, xs_dirs = 1, xs_ignored = 0, xs_entries = 2, xs_decompressedBytes = 2560, xs_written = [''bin'', ''bin/x'']\<rparr>"

lemma sample_parts: "concat sample_parts = sample_data" "length sample_data = 2560"
  by (simp_all add: sample_parts_def sample_data_def length_ustar_header)

lemma sample_limit: "2560 \<le> tarDecompressedLimit sample_layout"
  by code_simp

lemma sample_chunks:
  "feed_chunks sample_request (tarDecompressedLimit sample_layout) (0, 0, Reading new_extraction sample_fs) sample_parts
     = (2560, crc32Fallback sample_data 0, Reading sample_end sample_fs_end)"
proof -
  let ?f = "feed_chunks sample_request (tarDecompressedLimit sample_layout) (0, 0, Reading new_extraction sample_fs) sample_parts"
  obtain d v r where f: "?f = (d, v, r)" by (metis prod_cases3)
  have "snd (snd ?f) = write_chunk sample_request (Reading new_extraction sample_fs) (concat sample_parts)"
    by (rule feed_chunks_out) (use sample_limit in \<open>simp add: sample_parts\<close>)
  then have r: "r = Reading sample_end sample_fs_end" unfolding f by (simp add: sample_parts sample_run)
  have "d = 0 + length (concat sample_parts) \<and> v = crc32Fallback (concat sample_parts) 0 \<and> d \<le> tarDecompressedLimit sample_layout"
    by (rule feed_chunks_Reading [OF f [unfolded r]]) simp
  then show ?thesis using f r by (simp add: sample_parts)
qed

lemma sample_extract: "extractTarGz sample_request sample_inflate sample_archive sample_fs = (Inr sample_ok, sample_fs_end)"
proof -
  have inf: "ae_inflate sample_inflate bs = (sample_parts, Inflated 1)" for bs
    by (simp add: sample_inflate_def)
  have len: "length sample_archive = 19" by (simp add: sample_archive_def le32_def)
  have trailer: "drop 11 sample_archive = le32 (crc32Fallback sample_data 0) @ le32 2560" by (simp add: sample_archive_def)
  have member: "check_member sample_archive (Suc 0) (Inflated (Suc 0)) 2560 (crc32Fallback sample_data 0) = None"
    by (simp add: check_member_def len trailer u32le_le32)
  have fin: "finish sample_layout sample_end = None" by code_simp
  have lay: "tr_layout sample_request = sample_layout" by (simp add: sample_request_def)
  show ?thesis
    by (simp add: extractTarGz_def sample_check inf len lay sample_chunks member fin stream_failure_def or_else_def sample_ok_def)
      (simp add: sample_end_def)
qed

theorem successful_extraction_is_the_package_witness:
  "\<exists>bs. node_at sample_fs_end (target [''p''] ''bin/x'') = Some (RegularFile bs) \<and> length bs = 2"
proof -
  have f: "\<lparr>fr_path = ''bin/x'', fr_size = Fin 2, fr_sha256 = replicate 64 CHR ''A''\<rparr> \<in> set (tl_files (tr_layout sample_request))"
    by (simp add: sample_request_def sample_layout_def)
  have p: "tr_payloadDir sample_request = [''p'']" by (simp add: sample_request_def)
  from successful_extraction_is_the_package [OF sample_extract, THEN conjunct2, THEN conjunct1, THEN bspec, OF f]
  obtain bs where "node_at sample_fs_end (target [''p''] ''bin/x'') = Some (RegularFile bs)" "(2 :: rat) = of_nat (length bs)"
    by (auto simp: p)
  moreover from this(2) have "length bs = 2" by (metis of_nat_eq_iff of_nat_numeral)
  ultimately show ?thesis by blast
qed

theorem extraction_stays_in_the_payload_folder_witness:
  "\<exists>segs. segs \<noteq> [] \<and> [''p'', ''bin'', ''x''] = [''p''] @ segs"
proof -
  have d: "node_at sample_fs_end [''p'', ''bin'', ''x''] \<noteq> node_at sample_fs [''p'', ''bin'', ''x'']" by code_simp
  have p: "tr_payloadDir sample_request = [''p'']" by (simp add: sample_request_def)
  show ?thesis using extraction_stays_in_the_payload_folder [OF sample_extract d] unfolding p by blast
qed

theorem inflater_chunks_do_not_matter_witness:
  "snd (snd (feed_chunks sample_request (tarDecompressedLimit sample_layout) (0, 0, Reading new_extraction sample_fs) [sample_data]))
   = Reading sample_end sample_fs_end"
proof -
  have c: "concat sample_parts = concat [sample_data]" by (simp add: sample_parts)
  have l: "length (concat sample_parts) \<le> tarDecompressedLimit sample_layout" using sample_limit by (simp add: sample_parts)
  show ?thesis
    using inflater_chunks_do_not_matter [OF c l, of sample_request "Reading new_extraction sample_fs"]
    unfolding sample_chunks by (auto split: prod.splits)
qed

theorem decompression_is_bounded_witness:
  "fst (feed_chunks sample_request (tarDecompressedLimit sample_layout) (0, 0, Reading new_extraction sample_fs) sample_parts)
     \<le> maxDecompressedBytes + 2560"
proof -
  have "\<forall>c\<in>set sample_parts. length c \<le> 2560" by (simp add: sample_parts_def sample_parts(2))
  from decompression_is_bounded [OF sample_chunks this] show ?thesis by (simp add: sample_chunks)
qed

text \<open>
   every header a ustar writer produces for a name of at most 100 characters, any accepted kind
  and any size its field can hold is read back as exactly that name, kind and size.
\<close>

theorem headers_read_back:
  assumes "length name \<le> 100" "CHR 0x00 \<notin> set name" "n < 8 ^ 11"
  shows "readHeader (ustar_header name k n) = Inr \<lparr>th_name = name, th_kind = k, th_size = n\<rparr>"
  by (rule readHeader_ustar [OF assms])

theorem headers_read_back_witness:
  "readHeader (ustar_header ''bin/x'' FileEntry 2) = Inr \<lparr>th_name = ''bin/x'', th_kind = FileEntry, th_size = 2\<rparr>"
proof -
  have "CHR 0x00 \<notin> set ''bin/x''" by simp
  then show ?thesis by (intro headers_read_back) simp_all
qed

end
