(* ===== verification/HumanWaitClock.thy ===== *)
theory HumanWaitClock
  imports Prelude
begin

text \<open>
  The interface \<open>HumanWaitClock\<close> of \<open>src/src/session/SharedPromptWaits.ts\<close>: what pauses and
  releases one session's turn clock for a human decision. A provider promises that it keeps, per session, the
  set of decisions that were started and not finished; \<open>'t\<close> is whatever a call depends on besides, such
  as the reading of the host clock. The consequences a client needs are proved here once.
\<close>

locale human_wait_clock =
  fixes started :: "'t \<Rightarrow> 'c \<Rightarrow> string \<Rightarrow> string \<Rightarrow> 'c"
    and finished :: "'t \<Rightarrow> 'c \<Rightarrow> string \<Rightarrow> string \<Rightarrow> 'c"
    and open_of :: "'c \<Rightarrow> string \<Rightarrow> string set"
  assumes open_started: "open_of (started t c s a) s' = (if s' = s then insert a (open_of c s) else open_of c s')"
    and open_finished: "open_of (finished t c s a) s' = (if s' = s then open_of c s - {a} else open_of c s')"
begin

lemma open_started_prompts:
  "open_of (fold (\<lambda>p c. started t c s p) ps c) s' = (if s' = s then open_of c s \<union> set ps else open_of c s')"
  by (induction ps arbitrary: c) (auto simp: open_started)

lemma open_finished_prompts:
  "open_of (fold (\<lambda>p c. finished t c s p) ps c) s' = (if s' = s then open_of c s - set ps else open_of c s')"
  by (induction ps arbitrary: c) (auto simp: open_finished)

lemma open_started_sessions:
  "open_of (fold (\<lambda>s c. started t c s p) ss c) s' = (if s' \<in> set ss then insert p (open_of c s') else open_of c s')"
  by (induction ss arbitrary: c) (auto simp: open_started)

lemma open_finished_sessions:
  "open_of (fold (\<lambda>s c. finished t c s p) ss c) s' = (if s' \<in> set ss then open_of c s' - {p} else open_of c s')"
  by (induction ss arbitrary: c) (auto simp: open_finished)

text \<open>A decision that was started and finished again leaves no trace, whatever happened to other sessions.\<close>

lemma started_then_finished: "a \<notin> open_of c s \<Longrightarrow> open_of (finished t' (started t c s a) s a) s' = open_of c s'"
  by (simp add: open_started open_finished)

end

end
