(* ===== verification/TurnTiming.thy ===== *)
theory TurnTiming
  imports HumanWaitClock
begin

text \<open>
  Host-observed turn timing (\<open>src/src/session/TurnTiming.ts\<close>): one clock per running turn, the
  phases its time is charged to, and the human waits of each session. Times are integer milliseconds; every
  operation is given the reading \<open>now\<close> of the host clock, which may step backwards. A timestamp the
  code renders with \<open>toISOString\<close> is kept as its milliseconds. In the source a running turn holds a
  reference to the pauses of its session; here both are read from the one map that owns them.
\<close>

subsection \<open>Shapes\<close>

datatype turn_phase = Host | ProviderWait | Reasoning | Responding | Tool | Compacting

record turn_phases =
  queuedMs :: int
  hostMs :: int
  providerWaitMs :: int
  reasoningMs :: int
  respondingMs :: int
  toolMs :: int
  compactingMs :: "int option"
  preparingToolMs :: "int option"
  providerWaitCount :: int
  longestProviderWaitMs :: int

definition EMPTY_PHASES :: turn_phases where
  "EMPTY_PHASES = \<lparr>queuedMs = 0, hostMs = 0, providerWaitMs = 0, reasoningMs = 0, respondingMs = 0, toolMs = 0,
     compactingMs = Some 0, preparingToolMs = None, providerWaitCount = 0, longestProviderWaitMs = 0\<rparr>"

record tool_input =
  ti_tool :: "string option"
  ti_target :: "string option"
  ti_bytes :: nat

record session_pauses =
  sp_open :: "string list"
  sp_startedAtMs :: "int option"
  sp_ended :: "(int \<times> int) list"

record silence =
  sl_active :: bool
  sl_ms :: int

record active_turn =
  lastActivityAtMs :: int
  preparingTool :: bool
  toolInput :: "tool_input option"
  startedAtMs :: int
  lastAtMs :: int
  phase :: turn_phase
  phaseStartedAtMs :: int
  phaseActiveMs :: int
  phaseToolCalls :: int
  phases :: turn_phases
  approvalWaitMs :: int
  openTools :: "(string, int) jsmap"
  currentWaitMs :: int
  turn_silence :: silence
  heldSilence :: "(string, int) jsmap"
  resumeSilenceMs :: int
  compacting :: bool
  compactionPauseMs :: int

record tracker =
  active :: "(string, active_turn) jsmap"
  pauses :: "(string, session_pauses) jsmap"

definition new_tracker :: tracker where
  "new_tracker = \<lparr>active = [], pauses = []\<rparr>"

definition no_pauses :: session_pauses where
  "no_pauses = \<lparr>sp_open = [], sp_startedAtMs = None, sp_ended = []\<rparr>"

definition or_zero :: "int option \<Rightarrow> int" where
  "or_zero x = (case x of Some n \<Rightarrow> n | None \<Rightarrow> 0)"

definition activeMs :: "turn_phases \<Rightarrow> int" where
  "activeMs p = queuedMs p + hostMs p + providerWaitMs p + reasoningMs p + respondingMs p + toolMs p + or_zero (compactingMs p)"

definition overlapMs :: "int \<Rightarrow> int \<Rightarrow> int \<Rightarrow> int \<Rightarrow> int" where
  "overlapMs s e from_ms to_ms = max 0 (min e to_ms - max s from_ms)"

definition pausesOf :: "tracker \<Rightarrow> string \<Rightarrow> session_pauses" where
  "pausesOf tr s = (case js_get (pauses tr) s of Some p \<Rightarrow> p | None \<Rightarrow> no_pauses)"

definition paused :: "tracker \<Rightarrow> string \<Rightarrow> bool" where
  "paused tr s \<longleftrightarrow> sp_open (pausesOf tr s) \<noteq> []"

subsection \<open>The one clock\<close>

definition provider_phase :: "turn_phase \<Rightarrow> bool" where
  "provider_phase p \<longleftrightarrow> p = ProviderWait \<or> p = Reasoning \<or> p = Responding"

text \<open>The bucket the elapsed time goes to, and the counters that belong to a phase.\<close>

definition charge_bucket :: "int \<Rightarrow> active_turn \<Rightarrow> active_turn" where
  "charge_bucket d t = (case phase t of
       Host \<Rightarrow> t\<lparr>phases := (phases t)\<lparr>hostMs := hostMs (phases t) + d\<rparr>\<rparr>
     | ProviderWait \<Rightarrow>
         t\<lparr>currentWaitMs := currentWaitMs t + d,
           phases := (phases t)\<lparr>providerWaitMs := providerWaitMs (phases t) + d,
             longestProviderWaitMs := max (longestProviderWaitMs (phases t)) (currentWaitMs t + d)\<rparr>\<rparr>
     | Compacting \<Rightarrow>
         t\<lparr>phases := (phases t)\<lparr>compactingMs := Some (or_zero (compactingMs (phases t)) + d)\<rparr>,
           compactionPauseMs := compactionPauseMs t + d\<rparr>
     | Reasoning \<Rightarrow> t\<lparr>phases := (phases t)\<lparr>reasoningMs := reasoningMs (phases t) + d\<rparr>\<rparr>
     | Responding \<Rightarrow> t\<lparr>phases := (phases t)\<lparr>respondingMs := respondingMs (phases t) + d\<rparr>\<rparr>
     | Tool \<Rightarrow> t\<lparr>phases := (phases t)\<lparr>toolMs := toolMs (phases t) + d\<rparr>\<rparr>)"

definition charge_preparing :: "int \<Rightarrow> active_turn \<Rightarrow> active_turn" where
  "charge_preparing d t =
     (if preparingTool t \<and> provider_phase (phase t)
      then t\<lparr>phases := (phases t)\<lparr>preparingToolMs := Some (or_zero (preparingToolMs (phases t)) + d)\<rparr>\<rparr> else t)"

definition charge_silence :: "int \<Rightarrow> active_turn \<Rightarrow> active_turn" where
  "charge_silence d t =
     (if sl_active (turn_silence t) \<and> \<not> compacting t \<and> openTools t = []
      then t\<lparr>turn_silence := (turn_silence t)\<lparr>sl_ms := sl_ms (turn_silence t) + d\<rparr>\<rparr> else t)"

definition advance :: "int \<Rightarrow> bool \<Rightarrow> active_turn \<Rightarrow> active_turn" where
  "advance now is_paused t =
     (let elapsed = max 0 (now - lastAtMs t) in
      if elapsed = 0 then t
      else let t1 = t\<lparr>lastAtMs := lastAtMs t + elapsed\<rparr> in
        if is_paused then t1\<lparr>approvalWaitMs := approvalWaitMs t1 + elapsed\<rparr>
        else charge_silence elapsed (charge_bucket elapsed (charge_preparing elapsed
               (t1\<lparr>phaseActiveMs := phaseActiveMs t1 + elapsed\<rparr>))))"

definition setPhase :: "turn_phase \<Rightarrow> active_turn \<Rightarrow> active_turn" where
  "setPhase p t = t\<lparr>phase := p, phaseStartedAtMs := lastAtMs t, phaseActiveMs := 0, phaseToolCalls := 0\<rparr>"

definition enterProviderWait :: "active_turn \<Rightarrow> active_turn" where
  "enterProviderWait t =
     (let t1 = setPhase ProviderWait t
      in t1\<lparr>phases := (phases t1)\<lparr>providerWaitCount := providerWaitCount (phases t1) + 1\<rparr>, currentWaitMs := 0\<rparr>)"

definition dropHeldSilence :: "active_turn \<Rightarrow> active_turn" where
  "dropHeldSilence t = t\<lparr>heldSilence := [], resumeSilenceMs := 0\<rparr>"

subsection \<open>Events of a running turn\<close>

definition apply_event :: "int \<Rightarrow> string \<Rightarrow> (active_turn \<Rightarrow> active_turn \<times> bool) \<Rightarrow> tracker \<Rightarrow> tracker \<times> bool" where
  "apply_event now s ev tr = (case js_get (active tr) s of
       None \<Rightarrow> (tr, False)
     | Some t \<Rightarrow> (let (t', changed) = ev (advance now (paused tr s) t)
                 in (tr\<lparr>active := js_set s t' (active tr)\<rparr>, changed)))"

definition model_request :: "active_turn \<Rightarrow> active_turn \<times> bool" where
  "model_request t =
     (let t1 = (if sl_active (turn_silence t) then t else t\<lparr>turn_silence := \<lparr>sl_active = True, sl_ms = 0\<rparr>\<rparr>) in
      if compacting t1 \<or> openTools t1 \<noteq> [] \<or> phase t1 = ProviderWait then (t1, False)
      else (enterProviderWait t1, True))"

definition provider_spoke :: "turn_phase \<Rightarrow> active_turn \<Rightarrow> active_turn \<times> bool" where
  "provider_spoke p t =
     (let t0 = dropHeldSilence t;
          t1 = t0\<lparr>turn_silence := (turn_silence t0)\<lparr>sl_ms := 0\<rparr>, lastActivityAtMs := lastAtMs t0, preparingTool := False\<rparr> in
      if compacting t1 \<or> openTools t1 \<noteq> [] \<or> phase t1 = p then (t1, False) else (setPhase p t1, True))"

datatype activity = ToolInput | Thinking | Output

definition provider_activity :: "activity \<Rightarrow> tool_input option \<Rightarrow> active_turn \<Rightarrow> active_turn \<times> bool" where
  "provider_activity kind input t =
     (let t0 = dropHeldSilence t;
          t1 = t0\<lparr>turn_silence := (turn_silence t0)\<lparr>sl_ms := 0\<rparr>, lastActivityAtMs := lastAtMs t0,
                  preparingTool := (kind = ToolInput),
                  toolInput := (if kind \<noteq> ToolInput then None else case input of Some i \<Rightarrow> Some i | None \<Rightarrow> toolInput t0)\<rparr>
      in if kind = Thinking \<and> \<not> compacting t1 \<and> openTools t1 = [] \<and> phase t1 \<noteq> Reasoning
         then (setPhase Reasoning t1, False) else (t1, False))"

definition compaction_started :: "active_turn \<Rightarrow> active_turn \<times> bool" where
  "compaction_started t =
     (let t1 = t\<lparr>lastActivityAtMs := lastAtMs t, preparingTool := False\<rparr> in
      if compacting t1 then (t1, False) else (setPhase Compacting (t1\<lparr>compacting := True\<rparr>), True))"

definition compaction_finished :: "active_turn \<Rightarrow> active_turn \<times> bool" where
  "compaction_finished t =
     (let t1 = dropHeldSilence (t\<lparr>lastActivityAtMs := lastAtMs t, preparingTool := False\<rparr>);
          t2 = t1\<lparr>turn_silence := \<lparr>sl_active = True, sl_ms = 0\<rparr>\<rparr> in
      if \<not> compacting t2 then (t2, False)
      else let t3 = t2\<lparr>compacting := False\<rparr> in
        if openTools t3 \<noteq> [] then (setPhase Tool t3, True) else (enterProviderWait t3, True))"

definition tool_started :: "string \<Rightarrow> bool \<Rightarrow> active_turn \<Rightarrow> active_turn \<times> bool" where
  "tool_started callId holdsSilence t =
     (let t0 = t\<lparr>lastActivityAtMs := lastAtMs t, preparingTool := False\<rparr>;
          is_new = \<not> js_has (openTools t0) callId;
          t1 = (if holdsSilence
                then (if is_new then t0\<lparr>heldSilence := js_set callId (sl_ms (turn_silence t0)) (heldSilence t0)\<rparr> else t0)
                else dropHeldSilence t0);
          t2 = t1\<lparr>turn_silence := (turn_silence t1)\<lparr>sl_ms := 0\<rparr>\<rparr>;
          t3 = (if is_new then t2\<lparr>openTools := js_set callId (approvalWaitMs t2) (openTools t2)\<rparr> else t2);
          entered = (\<not> compacting t3 \<and> phase t3 \<noteq> Tool);
          t4 = (if entered then setPhase Tool t3 else t3);
          t5 = (if is_new \<and> \<not> compacting t4 then t4\<lparr>phaseToolCalls := phaseToolCalls t4 + 1\<rparr> else t4)
      in (t5, is_new \<or> entered))"

definition tool_finished :: "string \<Rightarrow> bool \<Rightarrow> active_turn \<Rightarrow> active_turn \<times> bool" where
  "tool_finished callId refusedFirstAction t =
     (if \<not> js_has (openTools t) callId then (t, False)
      else let t1 = t\<lparr>openTools := js_delete callId (openTools t), lastActivityAtMs := lastAtMs t, preparingTool := False\<rparr>;
               kept = js_get (heldSilence t1) callId;
               t2 = t1\<lparr>heldSilence := js_delete callId (heldSilence t1)\<rparr>;
               t3 = (case kept of
                   Some h \<Rightarrow> if refusedFirstAction then t2\<lparr>resumeSilenceMs := max (resumeSilenceMs t2) h\<rparr> else t2
                 | None \<Rightarrow> t2);
               t4 = (if openTools t3 = []
                     then (let t' = t3\<lparr>turn_silence := \<lparr>sl_active = True, sl_ms = resumeSilenceMs t3\<rparr>, resumeSilenceMs := 0\<rparr>
                           in if \<not> compacting t' then enterProviderWait t' else t')
                     else t3)
           in (t4, True))"

definition modelRequest :: "int \<Rightarrow> string \<Rightarrow> tracker \<Rightarrow> tracker \<times> bool" where
  "modelRequest now s = apply_event now s model_request"

definition providerSpoke :: "int \<Rightarrow> string \<Rightarrow> turn_phase \<Rightarrow> tracker \<Rightarrow> tracker \<times> bool" where
  "providerSpoke now s p = apply_event now s (provider_spoke p)"

definition reasoning :: "int \<Rightarrow> string \<Rightarrow> tracker \<Rightarrow> tracker \<times> bool" where
  "reasoning now s = providerSpoke now s Reasoning"

definition responding :: "int \<Rightarrow> string \<Rightarrow> tracker \<Rightarrow> tracker \<times> bool" where
  "responding now s = providerSpoke now s Responding"

definition providerActivity :: "int \<Rightarrow> string \<Rightarrow> activity \<Rightarrow> tool_input option \<Rightarrow> tracker \<Rightarrow> tracker" where
  "providerActivity now s kind input tr = fst (apply_event now s (provider_activity kind input) tr)"

definition providerCompaction :: "int \<Rightarrow> string \<Rightarrow> bool \<Rightarrow> tracker \<Rightarrow> tracker \<times> bool" where
  "providerCompaction now s started = apply_event now s (if started then compaction_started else compaction_finished)"

definition toolStarted :: "int \<Rightarrow> string \<Rightarrow> string \<Rightarrow> bool \<Rightarrow> tracker \<Rightarrow> tracker \<times> bool" where
  "toolStarted now s callId holdsSilence = apply_event now s (tool_started callId holdsSilence)"

definition toolFinished :: "int \<Rightarrow> string \<Rightarrow> string \<Rightarrow> bool \<Rightarrow> tracker \<Rightarrow> tracker \<times> bool" where
  "toolFinished now s callId refused = apply_event now s (tool_finished callId refused)"

subsection \<open>Turns and human waits\<close>

definition waited_in :: "session_pauses \<Rightarrow> int \<Rightarrow> int \<Rightarrow> int" where
  "waited_in p from_ms now =
     sum_list (map (\<lambda>(a, b). overlapMs a b from_ms now) (sp_ended p))
     + (case sp_startedAtMs p of Some a \<Rightarrow> overlapMs a now from_ms now | None \<Rightarrow> 0)"

definition begin_turn :: "(string \<Rightarrow> int option) \<Rightarrow> int \<Rightarrow> string \<Rightarrow> string option \<Rightarrow> tracker \<Rightarrow> tracker" where
  "begin_turn date_parse now s startedAt tr =
     (let parsed = (case startedAt of Some text \<Rightarrow> if text = [] then None else date_parse text | None \<Rightarrow> None);
          started = (case parsed of Some ms \<Rightarrow> if ms \<le> now then ms else now | None \<Rightarrow> now);
          p = pausesOf tr s;
          waited = min (waited_in p started now) (now - started)
      in tr\<lparr>pauses := js_set s p (pauses tr),
            active := js_set s
              \<lparr>lastActivityAtMs = now, preparingTool = False, toolInput = None, startedAtMs = started, lastAtMs = now,
               phase = Host, phaseStartedAtMs = now, phaseActiveMs = 0, phaseToolCalls = 0,
               phases = EMPTY_PHASES\<lparr>queuedMs := now - started - waited\<rparr>, approvalWaitMs = waited, openTools = [],
               currentWaitMs = 0, turn_silence = \<lparr>sl_active = False, sl_ms = 0\<rparr>, heldSilence = [], resumeSilenceMs = 0,
               compacting = False, compactionPauseMs = 0\<rparr> (active tr)\<rparr>)"

text \<open>Every operation that looks at a running turn first moves its clock.\<close>

definition advance_turn :: "int \<Rightarrow> string \<Rightarrow> tracker \<Rightarrow> tracker" where
  "advance_turn now s tr = fst (apply_event now s (\<lambda>t. (t, False)) tr)"

definition pauseInstant :: "int \<Rightarrow> active_turn option \<Rightarrow> session_pauses \<Rightarrow> int" where
  "pauseInstant now turn p =
     (let i = (case turn of Some t \<Rightarrow> lastAtMs t | None \<Rightarrow> now)
      in if sp_ended p = [] then i else max i (snd (last (sp_ended p))))"

definition approvalStarted :: "int \<Rightarrow> string \<Rightarrow> string \<Rightarrow> tracker \<Rightarrow> tracker \<times> bool" where
  "approvalStarted now s a tr =
     (let tr1 = advance_turn now s tr; turn = js_get (active tr1) s; p = pausesOf tr1 s
      in if a \<in> set (sp_open p) then (tr1\<lparr>pauses := js_set s p (pauses tr1)\<rparr>, False)
         else let p1 = p\<lparr>sp_open := set_add a (sp_open p)\<rparr> in
           if length (sp_open p1) > 1 then (tr1\<lparr>pauses := js_set s p1 (pauses tr1)\<rparr>, False)
           else (tr1\<lparr>pauses := js_set s (p1\<lparr>sp_startedAtMs := Some (pauseInstant now turn p1)\<rparr>) (pauses tr1)\<rparr>, turn \<noteq> None))"

definition approvalFinished :: "int \<Rightarrow> string \<Rightarrow> string \<Rightarrow> tracker \<Rightarrow> tracker \<times> bool" where
  "approvalFinished now s a tr =
     (let tr1 = advance_turn now s tr; turn = js_get (active tr1) s
      in case js_get (pauses tr1) s of
           None \<Rightarrow> (tr1, False)
         | Some p \<Rightarrow>
             if a \<notin> set (sp_open p) then (tr1, False)
             else let p1 = p\<lparr>sp_open := removeAll a (sp_open p)\<rparr> in
               if sp_open p1 \<noteq> [] then (tr1\<lparr>pauses := js_set s p1 (pauses tr1)\<rparr>, False)
               else let e = pauseInstant now turn p1;
                        b = (case sp_startedAtMs p1 of Some b \<Rightarrow> b | None \<Rightarrow> e);
                        p2 = p1\<lparr>sp_startedAtMs := None, sp_ended := (if e > b then sp_ended p1 @ [(b, e)] else sp_ended p1)\<rparr>
                    in (tr1\<lparr>pauses := js_set s p2 (pauses tr1)\<rparr>, turn \<noteq> None))"

subsection \<open>Readings\<close>

definition read_turn :: "int \<Rightarrow> string \<Rightarrow> (tracker \<Rightarrow> active_turn \<Rightarrow> 'a option) \<Rightarrow> tracker \<Rightarrow> tracker \<times> 'a option" where
  "read_turn now s f tr = (case js_get (active tr) s of
       None \<Rightarrow> (tr, None)
     | Some _ \<Rightarrow> let tr1 = advance_turn now s tr in (tr1, Option.bind (js_get (active tr1) s) (f tr1)))"

definition compactionPause :: "int \<Rightarrow> string \<Rightarrow> tracker \<Rightarrow> tracker \<times> (bool \<times> int) option" where
  "compactionPause now s = read_turn now s (\<lambda>_ t. Some (compacting t, compactionPauseMs t))"

definition callHumanWaitMs :: "int \<Rightarrow> string \<Rightarrow> string \<Rightarrow> tracker \<Rightarrow> tracker \<times> int option" where
  "callHumanWaitMs now s callId tr =
     (case Option.bind (js_get (active tr) s) (\<lambda>t. js_get (openTools t) callId) of
        None \<Rightarrow> (tr, None)
      | Some at_open \<Rightarrow> read_turn now s (\<lambda>_ t. Some (approvalWaitMs t - at_open)) tr)"

definition providerSilenceMs :: "int \<Rightarrow> string \<Rightarrow> tracker \<Rightarrow> tracker \<times> int option" where
  "providerSilenceMs now s = read_turn now s
     (\<lambda>_ t. if sl_active (turn_silence t) \<and> \<not> compacting t then Some (sl_ms (turn_silence t)) else None)"

record elapsed_reading =
  el_activeMs :: int
  el_approvalWaitMs :: int
  el_phases :: turn_phases

definition elapsed :: "int \<Rightarrow> string \<Rightarrow> tracker \<Rightarrow> tracker \<times> elapsed_reading option" where
  "elapsed now s = read_turn now s
     (\<lambda>_ t. Some \<lparr>el_activeMs = activeMs (phases t), el_approvalWaitMs = approvalWaitMs t, el_phases = phases t\<rparr>)"

record turn_snapshot =
  sn_lastActivityAt :: int
  sn_preparingTool :: bool
  sn_toolInput :: "tool_input option"
  sn_phase :: turn_phase
  sn_phaseStartedAt :: int
  sn_turnStartedAt :: int
  sn_openTools :: nat
  sn_activeMs :: int
  sn_phaseActiveMs :: int
  sn_phaseToolCalls :: int
  sn_observedAt :: int
  sn_approvalPending :: bool
  sn_approvalStartedAt :: "int option"

definition snapshot_of :: "session_pauses \<Rightarrow> active_turn \<Rightarrow> turn_snapshot" where
  "snapshot_of p t =
     \<lparr>sn_lastActivityAt = lastActivityAtMs t, sn_preparingTool = preparingTool t,
      sn_toolInput = (if preparingTool t then toolInput t else None), sn_phase = phase t,
      sn_phaseStartedAt = phaseStartedAtMs t, sn_turnStartedAt = startedAtMs t, sn_openTools = length (openTools t),
      sn_activeMs = activeMs (phases t), sn_phaseActiveMs = phaseActiveMs t, sn_phaseToolCalls = phaseToolCalls t,
      sn_observedAt = lastAtMs t, sn_approvalPending = (sp_open p \<noteq> []),
      sn_approvalStartedAt = (if sp_open p \<noteq> [] then sp_startedAtMs p else None)\<rparr>"

definition snapshot :: "int \<Rightarrow> string \<Rightarrow> tracker \<Rightarrow> tracker \<times> turn_snapshot option" where
  "snapshot now s = read_turn now s (\<lambda>tr t. Some (snapshot_of (pausesOf tr s) t))"

record turn_timing =
  tt_startedAt :: int
  tt_settledAt :: int
  tt_durationMs :: int
  tt_approvalWaitMs :: int
  tt_phases :: turn_phases

definition timing_of :: "active_turn \<Rightarrow> turn_timing" where
  "timing_of t =
     \<lparr>tt_startedAt = startedAtMs t, tt_settledAt = startedAtMs t + activeMs (phases t) + approvalWaitMs t,
      tt_durationMs = activeMs (phases t), tt_approvalWaitMs = approvalWaitMs t, tt_phases = phases t\<rparr>"

definition finish_turn :: "int \<Rightarrow> string \<Rightarrow> tracker \<Rightarrow> tracker \<times> turn_timing option" where
  "finish_turn now s tr = (case js_get (active tr) s of
       None \<Rightarrow> (tr, None)
     | Some t \<Rightarrow> (tr\<lparr>active := js_delete s (active tr)\<rparr>, Some (timing_of (advance now (paused tr s) t))))"

subsection \<open>Stored breakdowns\<close>

definition count_member :: "(string \<times> js_value) list \<Rightarrow> string \<Rightarrow> int option" where
  "count_member ms k = (case member_of ms k of
       JNum x \<Rightarrow> (case safe_integer x of Some i \<Rightarrow> if i < 0 then None else Some i | None \<Rightarrow> None)
     | _ \<Rightarrow> None)"

definition PHASE_FIELDS :: "string list" where
  "PHASE_FIELDS = [''queuedMs'', ''hostMs'', ''providerWaitMs'', ''reasoningMs'', ''respondingMs'', ''toolMs'',
     ''providerWaitCount'', ''longestProviderWaitMs'']"

definition field_value :: "(string \<times> js_value) list \<Rightarrow> string \<Rightarrow> int" where
  "field_value ms k = or_zero (count_member ms k)"

definition parseTurnTimingPhases :: "js_value \<Rightarrow> int \<Rightarrow> turn_phases option" where
  "parseTurnTimingPhases raw durationMs = (case raw of
       JObject ms \<Rightarrow>
         if list_ex (\<lambda>k. count_member ms k = None) PHASE_FIELDS then None
         else if js_has ms ''compactingMs'' \<and> count_member ms ''compactingMs'' = None then None
         else let p = \<lparr>queuedMs = field_value ms ''queuedMs'', hostMs = field_value ms ''hostMs'',
                providerWaitMs = field_value ms ''providerWaitMs'', reasoningMs = field_value ms ''reasoningMs'',
                respondingMs = field_value ms ''respondingMs'', toolMs = field_value ms ''toolMs'',
                compactingMs = (if js_has ms ''compactingMs'' then count_member ms ''compactingMs'' else None),
                preparingToolMs = None, providerWaitCount = field_value ms ''providerWaitCount'',
                longestProviderWaitMs = field_value ms ''longestProviderWaitMs''\<rparr>
           in if activeMs p \<noteq> durationMs \<or> longestProviderWaitMs p > providerWaitMs p then None
              else case count_member ms ''preparingToolMs'' of
                Some n \<Rightarrow> Some (if n \<le> providerWaitMs p + reasoningMs p + respondingMs p then p\<lparr>preparingToolMs := Some n\<rparr> else p)
              | None \<Rightarrow> Some p
     | _ \<Rightarrow> None)"

text \<open>What \<open>JSON.stringify\<close> makes of a breakdown: an absent field is left out.\<close>

definition phases_json :: "turn_phases \<Rightarrow> js_value" where
  "phases_json p =
     (let n = (\<lambda>i. JNum (Fin (of_int i))) in JObject
       ([(''queuedMs'', n (queuedMs p)), (''hostMs'', n (hostMs p)), (''providerWaitMs'', n (providerWaitMs p)),
         (''reasoningMs'', n (reasoningMs p)), (''respondingMs'', n (respondingMs p)), (''toolMs'', n (toolMs p))]
        @ (case compactingMs p of Some c \<Rightarrow> [(''compactingMs'', n c)] | None \<Rightarrow> [])
        @ [(''providerWaitCount'', n (providerWaitCount p)), (''longestProviderWaitMs'', n (longestProviderWaitMs p))]
        @ (case preparingToolMs p of Some c \<Rightarrow> [(''preparingToolMs'', n c)] | None \<Rightarrow> [])))"

subsection \<open>The invariant of a running turn\<close>

definition phases_ok :: "turn_phases \<Rightarrow> bool" where
  "phases_ok p \<longleftrightarrow> 0 \<le> queuedMs p \<and> 0 \<le> hostMs p \<and> 0 \<le> providerWaitMs p \<and> 0 \<le> reasoningMs p \<and> 0 \<le> respondingMs p
     \<and> 0 \<le> toolMs p \<and> 0 \<le> or_zero (compactingMs p) \<and> compactingMs p \<noteq> None \<and> 0 \<le> or_zero (preparingToolMs p)
     \<and> or_zero (preparingToolMs p) \<le> providerWaitMs p + reasoningMs p + respondingMs p
     \<and> 0 \<le> providerWaitCount p \<and> 0 \<le> longestProviderWaitMs p \<and> longestProviderWaitMs p \<le> providerWaitMs p"

definition turn_ok :: "active_turn \<Rightarrow> bool" where
  "turn_ok t \<longleftrightarrow> phases_ok (phases t)
     \<and> activeMs (phases t) + approvalWaitMs t = lastAtMs t - startedAtMs t
     \<and> 0 \<le> approvalWaitMs t \<and> 0 \<le> currentWaitMs t \<and> currentWaitMs t \<le> providerWaitMs (phases t)
     \<and> (compacting t \<longleftrightarrow> phase t = Compacting) \<and> (phase t = Tool \<longleftrightarrow> openTools t \<noteq> [] \<and> \<not> compacting t)"

lemma or_zero_simps [simp]: "or_zero (Some x) = x" "or_zero None = 0"
  by (simp_all add: or_zero_def)

lemma bucket_ok:
  assumes "phases_ok (phases t)" "0 \<le> d" "0 \<le> currentWaitMs t" "currentWaitMs t \<le> providerWaitMs (phases t)"
  shows "phases_ok (phases (charge_bucket d t)) \<and> activeMs (phases (charge_bucket d t)) = activeMs (phases t) + d
    \<and> 0 \<le> currentWaitMs (charge_bucket d t) \<and> currentWaitMs (charge_bucket d t) \<le> providerWaitMs (phases (charge_bucket d t))"
  using assms by (cases "phase t") (auto simp: charge_bucket_def phases_ok_def activeMs_def)

lemma bucket_frame:
  "approvalWaitMs (charge_bucket d t) = approvalWaitMs t" "lastAtMs (charge_bucket d t) = lastAtMs t"
  "startedAtMs (charge_bucket d t) = startedAtMs t" "phase (charge_bucket d t) = phase t"
  "compacting (charge_bucket d t) = compacting t" "openTools (charge_bucket d t) = openTools t"
  by (cases "phase t"; simp add: charge_bucket_def)+

text \<open>Preparing is part of the provider time that is charged in the same step.\<close>

lemma preparing_then_bucket:
  assumes "phases_ok (phases t)" "0 \<le> d" "0 \<le> currentWaitMs t" "currentWaitMs t \<le> providerWaitMs (phases t)"
  shows "phases_ok (phases (charge_bucket d (charge_preparing d t)))
    \<and> activeMs (phases (charge_bucket d (charge_preparing d t))) = activeMs (phases t) + d
    \<and> 0 \<le> currentWaitMs (charge_bucket d (charge_preparing d t))
    \<and> currentWaitMs (charge_bucket d (charge_preparing d t)) \<le> providerWaitMs (phases (charge_bucket d (charge_preparing d t)))"
proof (cases "preparingTool t \<and> provider_phase (phase t)")
  case True
  then show ?thesis using assms
    by (cases "phase t") (auto simp: charge_preparing_def charge_bucket_def phases_ok_def activeMs_def provider_phase_def)
next
  case False
  then show ?thesis using bucket_ok [OF assms] by (auto simp: charge_preparing_def)
qed

lemma preparing_frame:
  "approvalWaitMs (charge_preparing d t) = approvalWaitMs t" "lastAtMs (charge_preparing d t) = lastAtMs t"
  "startedAtMs (charge_preparing d t) = startedAtMs t" "phase (charge_preparing d t) = phase t"
  "compacting (charge_preparing d t) = compacting t" "openTools (charge_preparing d t) = openTools t"
  by (simp_all add: charge_preparing_def)

lemma silence_frame:
  "approvalWaitMs (charge_silence d t) = approvalWaitMs t" "lastAtMs (charge_silence d t) = lastAtMs t"
  "startedAtMs (charge_silence d t) = startedAtMs t" "phase (charge_silence d t) = phase t"
  "compacting (charge_silence d t) = compacting t" "openTools (charge_silence d t) = openTools t"
  "phases (charge_silence d t) = phases t" "currentWaitMs (charge_silence d t) = currentWaitMs t"
  by (simp_all add: charge_silence_def)

lemmas charge_frames = bucket_frame preparing_frame silence_frame

lemma advance_frame:
  "startedAtMs (advance now b t) = startedAtMs t" "phase (advance now b t) = phase t"
  "compacting (advance now b t) = compacting t" "openTools (advance now b t) = openTools t"
  "lastAtMs (advance now b t) = max (lastAtMs t) now"
  by (auto simp: advance_def Let_def charge_frames max_def)

lemma advance_ok:
  assumes "turn_ok t"
  shows "turn_ok (advance now b t)"
proof -
  define d where "d = max 0 (now - lastAtMs t)"
  define t1 where "t1 = t\<lparr>lastAtMs := lastAtMs t + d, phaseActiveMs := phaseActiveMs t + d\<rparr>"
  have d: "0 \<le> d" by (simp add: d_def)
  have p: "phases t1 = phases t" "currentWaitMs t1 = currentWaitMs t" by (simp_all add: t1_def)
  have k: "phases_ok (phases t)" "0 \<le> currentWaitMs t" "currentWaitMs t \<le> providerWaitMs (phases t)"
    using assms by (simp_all add: turn_ok_def)
  note c = preparing_then_bucket [of t1 d, unfolded p, OF k(1) d k(2,3)]
  show ?thesis
  proof (cases "d = 0")
    case True
    then have "advance now b t = t" by (simp add: advance_def d_def Let_def)
    then show ?thesis using assms by simp
  next
    case False
    show ?thesis
    proof (cases b)
      case True
      then have "advance now b t = t\<lparr>lastAtMs := lastAtMs t + d, approvalWaitMs := approvalWaitMs t + d\<rparr>"
        using False by (simp add: advance_def d_def [symmetric] Let_def)
      then show ?thesis using assms d by (simp add: turn_ok_def)
    next
      case nb: False
      have "advance now b t = charge_silence d (charge_bucket d (charge_preparing d t1))"
        using False nb by (simp add: advance_def d_def [symmetric] Let_def t1_def)
      then show ?thesis using assms c by (simp add: turn_ok_def charge_frames) (simp add: t1_def)
    qed
  qed
qed

subsection \<open>Every event keeps the invariant\<close>

definition event_ok :: "(active_turn \<Rightarrow> active_turn \<times> bool) \<Rightarrow> bool" where
  "event_ok ev \<longleftrightarrow> (\<forall>t. turn_ok t \<longrightarrow> turn_ok (fst (ev t)) \<and> lastAtMs (fst (ev t)) = lastAtMs t \<and> startedAtMs (fst (ev t)) = startedAtMs t)"

lemma event_okI:
  "(\<And>t. turn_ok t \<Longrightarrow> turn_ok (fst (ev t)) \<and> lastAtMs (fst (ev t)) = lastAtMs t \<and> startedAtMs (fst (ev t)) = startedAtMs t) \<Longrightarrow> event_ok ev"
  by (simp add: event_ok_def)

lemma model_request_ok [keeps]: "event_ok model_request"
  by (rule event_okI) (auto simp: model_request_def Let_def turn_ok_def enterProviderWait_def setPhase_def phases_ok_def activeMs_def)

lemma provider_spoke_ok [keeps]: "p = Reasoning \<or> p = Responding \<Longrightarrow> event_ok (provider_spoke p)"
  by (rule event_okI) (auto simp: provider_spoke_def Let_def turn_ok_def dropHeldSilence_def setPhase_def)

lemma provider_activity_ok [keeps]: "event_ok (provider_activity kind input)"
  by (rule event_okI) (auto simp: provider_activity_def Let_def turn_ok_def dropHeldSilence_def setPhase_def)

lemma compaction_started_ok [keeps]: "event_ok compaction_started"
  by (rule event_okI) (auto simp: compaction_started_def Let_def turn_ok_def setPhase_def)

lemma compaction_finished_ok [keeps]: "event_ok compaction_finished"
  by (rule event_okI)
    (auto simp: compaction_finished_def Let_def turn_ok_def dropHeldSilence_def enterProviderWait_def setPhase_def phases_ok_def activeMs_def)

lemma js_set_not_Nil [simp]: "js_set k v m \<noteq> []"
  by (induction m) auto

lemma tool_started_ok [keeps]: "event_ok (tool_started callId holdsSilence)"
  by (rule event_okI) (auto simp: tool_started_def Let_def turn_ok_def dropHeldSilence_def setPhase_def)

lemma tool_finished_ok [keeps]: "event_ok (tool_finished callId refused)"
  by (rule event_okI)
    (auto simp: tool_finished_def Let_def turn_ok_def enterProviderWait_def setPhase_def phases_ok_def activeMs_def split: option.splits)

lemma reading_ok [keeps]: "event_ok (\<lambda>t. (t, False))"
  by (rule event_okI) simp

subsection \<open>The pauses of a session\<close>

text \<open>Ended pauses, oldest first, none empty, none reaching into the next; \<open>lo\<close> is where the first may start.\<close>

fun disjoint_from :: "int option \<Rightarrow> (int \<times> int) list \<Rightarrow> bool" where
  "disjoint_from lo [] = True"
| "disjoint_from lo ((a, b) # rest) = ((case lo of None \<Rightarrow> True | Some l \<Rightarrow> l \<le> a) \<and> a < b \<and> disjoint_from (Some b) rest)"

definition last_end :: "int option \<Rightarrow> (int \<times> int) list \<Rightarrow> int option" where
  "last_end lo xs = (if xs = [] then lo else Some (snd (last xs)))"

lemma disjoint_append:
  "disjoint_from lo (xs @ [(a, b)]) \<longleftrightarrow> disjoint_from lo xs \<and> (case last_end lo xs of None \<Rightarrow> True | Some l \<Rightarrow> l \<le> a) \<and> a < b"
proof (induction lo xs rule: disjoint_from.induct)
  case (2 lo c d rest)
  then show ?case by (cases "rest = []") (auto simp: last_end_def)
qed (simp add: last_end_def)

definition pauses_ok :: "session_pauses \<Rightarrow> bool" where
  "pauses_ok p \<longleftrightarrow> distinct (sp_open p) \<and> (sp_startedAtMs p = None \<longleftrightarrow> sp_open p = [])
     \<and> disjoint_from None (sp_ended p)
     \<and> (case sp_startedAtMs p of None \<Rightarrow> True | Some a \<Rightarrow> (case last_end None (sp_ended p) of None \<Rightarrow> True | Some l \<Rightarrow> l \<le> a))"

lemma no_pauses_ok [simp]: "pauses_ok no_pauses"
  by (simp add: pauses_ok_def no_pauses_def last_end_def)

lemma pauseInstant_ge: "last_end None (sp_ended p) = Some l \<Longrightarrow> l \<le> pauseInstant now turn p"
  by (auto simp: last_end_def pauseInstant_def Let_def split: if_splits)

text \<open>Disjoint pauses cover no more of a span than the span has.\<close>

lemma cover_arith:
  fixes S :: int
  assumes "S \<le> max 0 (min t e - max f b)" "b \<le> e" "l \<le> a" "a < b" "f \<le> t"
  shows "max 0 (min t b - max a f) + S \<le> max 0 (min t e - max f l)"
  using assms by (simp add: min_def max_def split: if_splits)

lemma overlap_cover:
  "disjoint_from lo xs \<Longrightarrow> from_ms \<le> to_ms \<Longrightarrow>
     sum_list (map (\<lambda>(a, b). overlapMs a b from_ms to_ms) xs)
       \<le> max 0 (min to_ms (case last_end lo xs of None \<Rightarrow> from_ms | Some e \<Rightarrow> e) - (case lo of None \<Rightarrow> from_ms | Some l \<Rightarrow> max from_ms l))"
proof (induction lo xs rule: disjoint_from.induct)
  case (1 lo)
  then show ?case by (simp add: last_end_def)
next
  case (2 lo a b rest)
  have "sum_list (map (\<lambda>(a, b). overlapMs a b from_ms to_ms) rest)
      \<le> max 0 (min to_ms (case last_end (Some b) rest of None \<Rightarrow> from_ms | Some e \<Rightarrow> e) - max from_ms b)"
    using 2 by simp
  moreover have "last_end lo ((a, b) # rest) = last_end (Some b) rest" by (simp add: last_end_def)
  moreover obtain e where e: "last_end (Some b) rest = Some e" by (cases "rest = []") (auto simp: last_end_def)
  moreover have "b \<le> e"
  proof -
    have "disjoint_from (Some b) rest" using 2(2) by simp
    then show ?thesis using e
    proof (induction rest arbitrary: b)
      case (Cons p rest)
      obtain c d where p: "p = (c, d)" by force
      from Cons.prems Cons.IH [of d] show ?case by (cases "rest = []") (auto simp: last_end_def p)
    qed (simp add: last_end_def)
  qed
  ultimately show ?case
    using 2(2,3) cover_arith [of "sum_list (map (\<lambda>(a, b). overlapMs a b from_ms to_ms) rest)" to_ms e from_ms b _ a]
    by (cases lo) (auto simp: overlapMs_def min.commute [of _ to_ms])
qed

subsection \<open>The tracker\<close>

datatype timing_event =
    BeginTurn "string option"
  | ModelRequest
  | ProviderReasoning
  | ProviderResponding
  | ProviderActivity activity "tool_input option"
  | ProviderCompaction bool
  | ToolStarted string bool
  | ToolFinished string bool
  | ApprovalStarted string
  | ApprovalFinished string
  | Observe
  | FinishTurn

text \<open>One call of the tracker: the clock reading, the session and the operation.\<close>

fun timing_step :: "(string \<Rightarrow> int option) \<Rightarrow> int \<times> string \<times> timing_event \<Rightarrow> tracker \<Rightarrow> tracker" where
  "timing_step dp (now, s, BeginTurn started) tr = begin_turn dp now s started tr"
| "timing_step dp (now, s, ModelRequest) tr = fst (modelRequest now s tr)"
| "timing_step dp (now, s, ProviderReasoning) tr = fst (reasoning now s tr)"
| "timing_step dp (now, s, ProviderResponding) tr = fst (responding now s tr)"
| "timing_step dp (now, s, ProviderActivity kind input) tr = providerActivity now s kind input tr"
| "timing_step dp (now, s, ProviderCompaction started) tr = fst (providerCompaction now s started tr)"
| "timing_step dp (now, s, ToolStarted callId holds) tr = fst (toolStarted now s callId holds tr)"
| "timing_step dp (now, s, ToolFinished callId refused) tr = fst (toolFinished now s callId refused tr)"
| "timing_step dp (now, s, ApprovalStarted a) tr = fst (approvalStarted now s a tr)"
| "timing_step dp (now, s, ApprovalFinished a) tr = fst (approvalFinished now s a tr)"
| "timing_step dp (now, s, Observe) tr = fst (snapshot now s tr)"
| "timing_step dp (now, s, FinishTurn) tr = fst (finish_turn now s tr)"

definition timing_run :: "(string \<Rightarrow> int option) \<Rightarrow> (int \<times> string \<times> timing_event) list \<Rightarrow> tracker" where
  "timing_run dp evs = fold (timing_step dp) evs new_tracker"

definition tracker_ok :: "int option \<Rightarrow> tracker \<Rightarrow> bool" where
  "tracker_ok latest tr \<longleftrightarrow>
     (\<forall>s t. js_get (active tr) s = Some t \<longrightarrow> turn_ok t \<and> (\<forall>m. latest = Some m \<longrightarrow> lastAtMs t \<le> m))
     \<and> (\<forall>s p. js_get (pauses tr) s = Some p \<longrightarrow> pauses_ok p)"

lemma tracker_okD:
  "tracker_ok latest tr \<Longrightarrow> js_get (active tr) s = Some t \<Longrightarrow> turn_ok t"
  "tracker_ok latest tr \<Longrightarrow> pauses_ok (pausesOf tr s)"
  by (auto simp: tracker_ok_def pausesOf_def split: option.split)

text \<open>The latest clock reading only grows along a run; \<open>None\<close> stands for no bound.\<close>

definition within_bound :: "int option \<Rightarrow> int \<Rightarrow> bool" where
  "within_bound latest now = (case latest of None \<Rightarrow> True | Some m \<Rightarrow> now \<le> m)"

lemma apply_event_ok:
  assumes "event_ok ev" "tracker_ok latest tr" "within_bound latest now"
  shows "tracker_ok latest (fst (apply_event now s ev tr))"
proof (cases "js_get (active tr) s")
  case None
  then show ?thesis using assms by (simp add: apply_event_def)
next
  case (Some t)
  let ?t = "advance now (paused tr s) t"
  have t: "turn_ok ?t" using assms(2) Some by (intro advance_ok tracker_okD(1))
  have e: "turn_ok (fst (ev ?t))" "lastAtMs (fst (ev ?t)) = max (lastAtMs t) now"
    using assms(1) t by (simp_all add: event_ok_def advance_frame)
  have "fst (apply_event now s ev tr) = tr\<lparr>active := js_set s (fst (ev ?t)) (active tr)\<rparr>"
    by (simp add: apply_event_def Some split: prod.split)
  then show ?thesis using assms(2,3) e Some by (auto simp: tracker_ok_def within_bound_def split: option.splits)
qed

lemma advance_turn_ok: "tracker_ok latest tr \<Longrightarrow> within_bound latest now \<Longrightarrow> tracker_ok latest (advance_turn now s tr)"
  unfolding advance_turn_def by (rule apply_event_ok [OF reading_ok])

lemma put_pauses_ok: "tracker_ok latest tr \<Longrightarrow> pauses_ok p \<Longrightarrow> tracker_ok latest (tr\<lparr>pauses := js_set s p (pauses tr)\<rparr>)"
  by (simp add: tracker_ok_def)

lemma overlap_nonneg: "0 \<le> overlapMs a b c d"
  by (simp add: overlapMs_def)

lemma waited_nonneg: "0 \<le> waited_in p a b"
proof -
  have "0 \<le> sum_list (map (\<lambda>(c, d). overlapMs c d a b) (sp_ended p))"
    by (rule sum_list_nonneg) (auto simp: overlap_nonneg)
  then show ?thesis by (simp add: waited_in_def overlap_nonneg split: option.split)
qed

lemma begin_turn_ok:
  assumes "tracker_ok latest tr" "within_bound latest now"
  shows "tracker_ok latest (begin_turn dp now s started tr)"
proof -
  define st where "st = (case (case started of Some text \<Rightarrow> if text = [] then None else dp text | None \<Rightarrow> None) of
    Some ms \<Rightarrow> if ms \<le> now then ms else now | None \<Rightarrow> now)"
  define w where "w = min (waited_in (pausesOf tr s) st now) (now - st)"
  have st: "st \<le> now" by (simp add: st_def split: option.split)
  have w: "0 \<le> w" "w \<le> now - st" using waited_nonneg st by (simp_all add: w_def)
  let ?t = "\<lparr>lastActivityAtMs = now, preparingTool = False, toolInput = None, startedAtMs = st, lastAtMs = now,
               phase = Host, phaseStartedAtMs = now, phaseActiveMs = 0, phaseToolCalls = 0,
               phases = EMPTY_PHASES\<lparr>queuedMs := now - st - w\<rparr>, approvalWaitMs = w, openTools = [],
               currentWaitMs = 0, turn_silence = \<lparr>sl_active = False, sl_ms = 0\<rparr>, heldSilence = [], resumeSilenceMs = 0,
               compacting = False, compactionPauseMs = 0\<rparr>"
  have t: "turn_ok ?t" using w by (simp add: turn_ok_def phases_ok_def EMPTY_PHASES_def activeMs_def)
  have eq: "begin_turn dp now s started tr = tr\<lparr>pauses := js_set s (pausesOf tr s) (pauses tr), active := js_set s ?t (active tr)\<rparr>"
    by (simp add: begin_turn_def Let_def st_def w_def)
  show ?thesis unfolding eq using assms t tracker_okD(2) [OF assms(1)]
    by (auto simp: tracker_ok_def within_bound_def split: option.splits)
qed

lemma approvalStarted_ok:
  assumes "tracker_ok latest tr" "within_bound latest now"
  shows "tracker_ok latest (fst (approvalStarted now s a tr))"
proof -
  let ?tr = "advance_turn now s tr"
  have tr: "tracker_ok latest ?tr" by (rule advance_turn_ok [OF assms])
  define p where "p = pausesOf ?tr s"
  have p: "pauses_ok p" unfolding p_def by (rule tracker_okD(2) [OF tr])
  let ?p1 = "p\<lparr>sp_open := sp_open p @ [a]\<rparr>"
  have many: "pauses_ok ?p1" if "a \<notin> set (sp_open p)" "sp_open p \<noteq> []"
    using p that by (auto simp: pauses_ok_def split: option.splits)
  have one: "pauses_ok (?p1\<lparr>sp_startedAtMs := Some (pauseInstant now turn ?p1)\<rparr>)"
    if "a \<notin> set (sp_open p)" "sp_open p = []" for turn
    using p that pauseInstant_ge [of ?p1 _ now turn] by (auto simp: pauses_ok_def split: option.split)
  have len: "Suc 0 < length (sp_open p @ [a]) \<longleftrightarrow> sp_open p \<noteq> []" by (cases "sp_open p") simp_all
  show ?thesis unfolding approvalStarted_def Let_def p_def [symmetric]
    using tr p many one by (cases "a \<in> set (sp_open p)"; cases "sp_open p = []") (simp_all add: put_pauses_ok set_add_def len del: length_append)
qed

lemma approvalFinished_ok:
  assumes "tracker_ok latest tr" "within_bound latest now"
  shows "tracker_ok latest (fst (approvalFinished now s a tr))"
proof -
  let ?tr = "advance_turn now s tr"
  have tr: "tracker_ok latest ?tr" by (rule advance_turn_ok [OF assms])
  show ?thesis
  proof (cases "js_get (pauses ?tr) s")
    case None
    then show ?thesis using tr by (simp add: approvalFinished_def Let_def)
  next
    case (Some p)
    have p: "pauses_ok p" using tr Some by (simp add: tracker_ok_def)
    let ?p1 = "p\<lparr>sp_open := removeAll a (sp_open p)\<rparr>"
    have many: "pauses_ok ?p1" if "removeAll a (sp_open p) \<noteq> []"
      using p that by (auto simp: pauses_ok_def distinct_removeAll)
    show ?thesis
    proof (cases "a \<in> set (sp_open p) \<and> removeAll a (sp_open p) = []")
      case False
      then show ?thesis unfolding approvalFinished_def Let_def Some option.case
        using tr many by (auto simp: put_pauses_ok)
    next
      case True
      then have "sp_open p \<noteq> []" by auto
      then obtain c where c: "sp_startedAtMs p = Some c" using p by (cases "sp_startedAtMs p") (simp_all add: pauses_ok_def)
      define e where "e = pauseInstant now (js_get (active ?tr) s) ?p1"
      define p2 where "p2 = ?p1\<lparr>sp_startedAtMs := None, sp_ended := (if e > c then sp_ended p @ [(c, e)] else sp_ended p)\<rparr>"
      have "pauses_ok p2" using p c True by (simp add: p2_def pauses_ok_def disjoint_append)
      moreover have "fst (approvalFinished now s a tr) = ?tr\<lparr>pauses := js_set s p2 (pauses ?tr)\<rparr>"
        using True by (simp add: approvalFinished_def Let_def Some c p2_def e_def)
      ultimately show ?thesis using put_pauses_ok [OF tr] by simp
    qed
  qed
qed

lemma finish_turn_ok: "tracker_ok latest tr \<Longrightarrow> tracker_ok latest (fst (finish_turn now s tr))"
  by (auto simp: finish_turn_def tracker_ok_def split: option.splits if_splits)

lemma read_turn_ok:
  "tracker_ok latest tr \<Longrightarrow> within_bound latest now \<Longrightarrow> tracker_ok latest (fst (read_turn now s f tr))"
  by (simp add: read_turn_def Let_def advance_turn_ok split: option.split)

lemma timing_step_ok:
  "tracker_ok latest tr \<Longrightarrow> within_bound latest (fst e) \<Longrightarrow> tracker_ok latest (timing_step dp e tr)"
  by (induction dp e tr rule: timing_step.induct)
    (simp_all add: begin_turn_ok modelRequest_def reasoning_def responding_def providerSpoke_def providerActivity_def
      providerCompaction_def toolStarted_def toolFinished_def snapshot_def apply_event_ok keeps approvalStarted_ok
      approvalFinished_ok read_turn_ok finish_turn_ok)

lemma timing_run_ok:
  assumes "\<forall>e\<in>set evs. within_bound latest (fst e)"
  shows "tracker_ok latest (timing_run dp evs)"
proof -
  have "tracker_ok latest tr \<Longrightarrow> \<forall>e\<in>set evs. within_bound latest (fst e) \<Longrightarrow> tracker_ok latest (fold (timing_step dp) evs tr)" for tr
    by (induction evs arbitrary: tr) (auto intro: timing_step_ok)
  moreover have "tracker_ok latest new_tracker" by (simp add: tracker_ok_def new_tracker_def)
  ultimately show ?thesis using assms by (simp add: timing_run_def)
qed

subsection \<open>What a finished turn reports\<close>

lemma finished:
  assumes "finish_turn now s tr = (tr', Some tm)" "tracker_ok latest tr"
  obtains t where "turn_ok t" "tm = timing_of t" "lastAtMs t = max (lastAtMs (the (js_get (active tr) s))) now"
    "js_get (active tr) s \<noteq> None"
  using assms by (auto simp: finish_turn_def split: option.splits intro: advance_ok dest: tracker_okD(1))
    (metis advance_frame(5) advance_ok tracker_okD(1))

lemma safe_integer_of_int: "safe_integer (Fin (of_int i)) = (if \<bar>i\<bar> \<le> int MAX_SAFE_INTEGER then Some i else None)"
  by simp

lemma count_json: "0 \<le> i \<Longrightarrow> i \<le> int MAX_SAFE_INTEGER \<Longrightarrow>
    (case JNum (Fin (of_int i)) of JNum x \<Rightarrow> (case safe_integer x of Some i \<Rightarrow> if i < 0 then None else Some i | None \<Rightarrow> None) | _ \<Rightarrow> None) = Some i"
  by simp

lemma phases_json_accepted:
  assumes ok: "phases_ok p" and dur: "activeMs p \<le> int MAX_SAFE_INTEGER" and n: "providerWaitCount p \<le> int MAX_SAFE_INTEGER"
  shows "parseTurnTimingPhases (phases_json p) (activeMs p) = Some p"
proof -
  obtain c where c: "compactingMs p = Some c" using ok by (cases "compactingMs p") (simp_all add: phases_ok_def)
  have le: "queuedMs p \<le> int MAX_SAFE_INTEGER" "hostMs p \<le> int MAX_SAFE_INTEGER" "providerWaitMs p \<le> int MAX_SAFE_INTEGER"
    "reasoningMs p \<le> int MAX_SAFE_INTEGER" "respondingMs p \<le> int MAX_SAFE_INTEGER" "toolMs p \<le> int MAX_SAFE_INTEGER"
    "c \<le> int MAX_SAFE_INTEGER" "longestProviderWaitMs p \<le> int MAX_SAFE_INTEGER" "or_zero (preparingToolMs p) \<le> int MAX_SAFE_INTEGER"
    using ok dur c by (simp_all add: phases_ok_def activeMs_def)
  have ge: "0 \<le> queuedMs p" "0 \<le> hostMs p" "0 \<le> providerWaitMs p" "0 \<le> reasoningMs p" "0 \<le> respondingMs p" "0 \<le> toolMs p"
    "0 \<le> c" "0 \<le> longestProviderWaitMs p" "0 \<le> providerWaitCount p" "0 \<le> or_zero (preparingToolMs p)"
    using ok c by (simp_all add: phases_ok_def)
  show ?thesis
  proof (cases "preparingToolMs p")
    case None
    show ?thesis using ok le ge n
      by (simp add: parseTurnTimingPhases_def phases_json_def c None PHASE_FIELDS_def count_member_def member_of_def
          field_value_def Let_def activeMs_def phases_ok_def)
  next
    case (Some m)
    show ?thesis using ok le ge n
      by (simp add: parseTurnTimingPhases_def phases_json_def c Some PHASE_FIELDS_def count_member_def member_of_def
          field_value_def Let_def activeMs_def phases_ok_def)
  qed
qed

lemma waited_covered:
  assumes "pauses_ok p" "a \<le> b"
  shows "waited_in p a b \<le> b - a"
proof -
  have s: "sum_list (map (\<lambda>(c, d). overlapMs c d a b) (sp_ended p))
      \<le> max 0 (min b (case last_end None (sp_ended p) of None \<Rightarrow> a | Some e \<Rightarrow> e) - a)"
    using overlap_cover [of None "sp_ended p" a b] assms by (simp add: pauses_ok_def)
  show ?thesis
  proof (cases "sp_startedAtMs p")
    case None
    then show ?thesis using s assms(2) by (simp add: waited_in_def)
  next
    case (Some c)
    then have "case last_end None (sp_ended p) of None \<Rightarrow> True | Some l \<Rightarrow> l \<le> c" using assms(1) by (simp add: pauses_ok_def)
    then show ?thesis using s assms(2) Some
      by (cases "last_end None (sp_ended p)") (auto simp: waited_in_def overlapMs_def)
  qed
qed

subsection \<open>The tracker as the clock of human waits\<close>

definition tracker_started :: "int \<Rightarrow> tracker \<Rightarrow> string \<Rightarrow> string \<Rightarrow> tracker" where
  "tracker_started now tr s a = fst (approvalStarted now s a tr)"

definition tracker_finished :: "int \<Rightarrow> tracker \<Rightarrow> string \<Rightarrow> string \<Rightarrow> tracker" where
  "tracker_finished now tr s a = fst (approvalFinished now s a tr)"

definition open_decisions :: "tracker \<Rightarrow> string \<Rightarrow> string set" where
  "open_decisions tr s = set (sp_open (pausesOf tr s))"

lemma pausesOf_advance [simp]: "pausesOf (advance_turn now s tr) s' = pausesOf tr s'"
  by (simp add: advance_turn_def apply_event_def pausesOf_def split: option.split prod.split)

lemma pausesOf_put [simp]: "pausesOf (tr\<lparr>pauses := js_set s p (pauses tr)\<rparr>) s' = (if s' = s then p else pausesOf tr s')"
  by (simp add: pausesOf_def)

lemma pausesOf_put_advance [simp]:
  "pausesOf (advance_turn now s tr\<lparr>pauses := js_set s p (pauses (advance_turn now s tr))\<rparr>) s' = (if s' = s then p else pausesOf tr s')"
  using pausesOf_advance [of now s tr s'] unfolding pausesOf_def by simp

lemma removeAll_empty: "removeAll a xs = [] \<longleftrightarrow> set xs \<subseteq> {a}"
  by (induction xs) auto

lemma open_after_started:
  "open_decisions (tracker_started now tr s a) s' = (if s' = s then insert a (open_decisions tr s) else open_decisions tr s')"
  unfolding open_decisions_def tracker_started_def approvalStarted_def Let_def
  by (cases "a \<in> set (sp_open (pausesOf tr s))") (auto simp: set_add_def)

lemma open_after_finished:
  "open_decisions (tracker_finished now tr s a) s' = (if s' = s then open_decisions tr s - {a} else open_decisions tr s')"
proof (cases "js_get (pauses (advance_turn now s tr)) s")
  case None
  then have "pausesOf (advance_turn now s tr) s = no_pauses" by (simp add: pausesOf_def)
  then have "open_decisions tr s = {}" by (simp add: open_decisions_def no_pauses_def)
  then show ?thesis by (simp add: tracker_finished_def approvalFinished_def Let_def None open_decisions_def)
next
  case (Some p)
  have p: "pausesOf tr s = p" using pausesOf_advance [of now s tr s] Some unfolding pausesOf_def by simp
  show ?thesis
    unfolding open_decisions_def tracker_finished_def approvalFinished_def Let_def Some option.case
    using p by (cases "a \<in> set (sp_open p)"; cases "removeAll a (sp_open p) = []") (auto simp: removeAll_empty)
qed

interpretation turn_clock: human_wait_clock tracker_started tracker_finished open_decisions
  by unfold_locales (simp_all add: open_after_started open_after_finished)

section \<open>Properties\<close>

text \<open>
  C10: a finished turn accounts for all of its time. When the clock did not run ahead of the finish,
  the recorded duration plus the human wait is exactly the time from the turn's start to the finish,
  and the duration is the sum of its seven phases, none negative, whatever events came in whatever
  order.
\<close>

theorem turn_time_is_partitioned:
  assumes "\<forall>e\<in>set evs. fst e \<le> now" and "finish_turn now s (timing_run dp evs) = (tr, Some tm)"
  shows "tt_settledAt tm = now
    \<and> tt_durationMs tm + tt_approvalWaitMs tm = now - tt_startedAt tm
    \<and> tt_durationMs tm = queuedMs (tt_phases tm) + hostMs (tt_phases tm) + providerWaitMs (tt_phases tm)
        + reasoningMs (tt_phases tm) + respondingMs (tt_phases tm) + toolMs (tt_phases tm) + or_zero (compactingMs (tt_phases tm))
    \<and> phases_ok (tt_phases tm) \<and> 0 \<le> tt_approvalWaitMs tm"
proof -
  have ok: "tracker_ok (Some now) (timing_run dp evs)" by (rule timing_run_ok) (use assms(1) in \<open>simp add: within_bound_def\<close>)
  obtain t where t: "turn_ok t" "tm = timing_of t"
    "lastAtMs t = max (lastAtMs (the (js_get (active (timing_run dp evs)) s))) now" "js_get (active (timing_run dp evs)) s \<noteq> None"
    by (rule finished [OF assms(2) ok])
  have "lastAtMs (the (js_get (active (timing_run dp evs)) s)) \<le> now" using ok t(4) by (auto simp: tracker_ok_def)
  then have "lastAtMs t = now" using t(3) by simp
  then show ?thesis using t(1) by (simp add: t(2) timing_of_def turn_ok_def activeMs_def)
qed

text \<open>
   every breakdown the tracker records is one the reader of stored records accepts, unchanged,
  although that reader drops anything whose parts do not add up.
\<close>

theorem stored_breakdown_is_accepted:
  assumes "finish_turn now s (timing_run dp evs) = (tr, Some tm)"
    and "tt_durationMs tm \<le> int MAX_SAFE_INTEGER" and "providerWaitCount (tt_phases tm) \<le> int MAX_SAFE_INTEGER"
  shows "parseTurnTimingPhases (phases_json (tt_phases tm)) (tt_durationMs tm) = Some (tt_phases tm)"
proof -
  have ok: "tracker_ok None (timing_run dp evs)" by (rule timing_run_ok) (simp add: within_bound_def)
  obtain t where t: "turn_ok t" "tm = timing_of t"
    by (rule finished [OF assms(1) ok])
  have p: "phases_ok (tt_phases tm)" "tt_durationMs tm = activeMs (tt_phases tm)" using t by (simp_all add: timing_of_def turn_ok_def)
  then show ?thesis using phases_json_accepted [OF p(1)] assms(2,3) by simp
qed

text \<open>
   overlapping human decisions count once. After any calls, with a clock that may step backwards,
  the recorded pauses of a session cover at most the whole of any span, and a pause is running
  exactly while some decision is open.
\<close>

theorem human_waits_count_once:
  assumes "a \<le> b"
  shows "0 \<le> waited_in (pausesOf (timing_run dp evs) s) a b \<and> waited_in (pausesOf (timing_run dp evs) s) a b \<le> b - a
    \<and> (paused (timing_run dp evs) s \<longleftrightarrow> sp_startedAtMs (pausesOf (timing_run dp evs) s) \<noteq> None)"
proof -
  have ok: "tracker_ok None (timing_run dp evs)" by (rule timing_run_ok) (simp add: within_bound_def)
  note p = tracker_okD(2) [OF ok, of s]
  show ?thesis using waited_covered [OF p assms] waited_nonneg p by (simp add: pauses_ok_def paused_def)
qed

subsection \<open>A concrete turn\<close>

definition sample_events :: "(int \<times> string \<times> timing_event) list" where
  "sample_events =
     [(5, ''s'', ApprovalStarted ''mcp''), (10, ''s'', ApprovalFinished ''mcp''), (20, ''s'', BeginTurn (Some ''t'')),
      (30, ''s'', ModelRequest), (40, ''s'', ApprovalStarted ''a''), (45, ''s'', ApprovalStarted ''b''),
      (60, ''s'', ApprovalFinished ''a''), (70, ''s'', ApprovalFinished ''b''), (80, ''s'', ProviderActivity ToolInput None),
      (90, ''s'', ToolStarted ''c'' False), (120, ''s'', ToolFinished ''c'' False), (125, ''s'', ProviderResponding)]"

definition sample_timing :: turn_timing where
  "sample_timing = \<lparr>tt_startedAt = 0, tt_settledAt = 130, tt_durationMs = 95, tt_approvalWaitMs = 35,
     tt_phases = \<lparr>queuedMs = 15, hostMs = 10, providerWaitMs = 35, reasoningMs = 0, respondingMs = 5, toolMs = 30,
       compactingMs = Some 0, preparingToolMs = Some 10, providerWaitCount = 2, longestProviderWaitMs = 30\<rparr>\<rparr>"

lemma sample_finish: "snd (finish_turn 130 ''s'' (timing_run (\<lambda>_. Some 0) sample_events)) = Some sample_timing"
  by code_simp

theorem turn_time_is_partitioned_witness:
  "tt_durationMs sample_timing + tt_approvalWaitMs sample_timing = 130 - tt_startedAt sample_timing"
proof -
  obtain tr where f: "finish_turn 130 ''s'' (timing_run (\<lambda>_. Some 0) sample_events) = (tr, Some sample_timing)"
    using sample_finish by (metis prod.collapse)
  have "\<forall>e\<in>set sample_events. fst e \<le> 130" by (simp add: sample_events_def)
  from turn_time_is_partitioned [OF this f] show ?thesis by blast
qed

theorem stored_breakdown_is_accepted_witness:
  "parseTurnTimingPhases (phases_json (tt_phases sample_timing)) 95 = Some (tt_phases sample_timing)"
proof -
  obtain tr where f: "finish_turn 130 ''s'' (timing_run (\<lambda>_. Some 0) sample_events) = (tr, Some sample_timing)"
    using sample_finish by (metis prod.collapse)
  have "tt_durationMs sample_timing = 95" by (simp add: sample_timing_def)
  then show ?thesis using stored_breakdown_is_accepted [OF f] by (simp add: sample_timing_def MAX_SAFE_INTEGER_def)
qed

theorem human_waits_count_once_witness:
  "waited_in (pausesOf (timing_run (\<lambda>_. Some 0) sample_events) ''s'') 0 130 = 35 \<and> (35 :: int) \<le> 130 - 0"
proof -
  have "waited_in (pausesOf (timing_run (\<lambda>_. Some 0) sample_events) ''s'') 0 130 = 35" by code_simp
  then show ?thesis using human_waits_count_once [of 0 130 "\<lambda>_. Some 0" sample_events "''s''"] by simp
qed

end
