(* ===== verification/SharedPromptWaits.thy ===== *)
theory SharedPromptWaits
  imports TurnTiming
begin

text \<open>
  Shared prompt waits (\<open>src/src/session/SharedPromptWaits.ts\<close>): several sessions can wait on the
  answer of one prompt, and several prompts can be open for one key. The clock is a parameter, known only
  through the interface of theory HumanWaitClock; the promise that \<open>join\<close> returns is the position of
  the wait in \<open>joined\<close>, with the flag that makes ending it twice harmless. Prompt ids are the ones
  \<open>newId\<close> returned.
\<close>

record 'c prompt_waits =
  waiters :: "(string, (string, nat) jsmap) jsmap"
  open_prompts :: "(string, string list) jsmap"
  joined :: "(string \<times> string \<times> bool) list"
  clock :: 'c

definition new_waits :: "'c \<Rightarrow> 'c prompt_waits" where
  "new_waits c = \<lparr>waiters = [], open_prompts = [], joined = [], clock = c\<rparr>"

definition waits_at :: "'c prompt_waits \<Rightarrow> string \<Rightarrow> (string, nat) jsmap" where
  "waits_at w key = (case js_get (waiters w) key of Some m \<Rightarrow> m | None \<Rightarrow> [])"

definition sessionsOf :: "'c prompt_waits \<Rightarrow> string \<Rightarrow> string list" where
  "sessionsOf w key = js_keys (waits_at w key)"

definition promptsOf :: "'c prompt_waits \<Rightarrow> string \<Rightarrow> string list" where
  "promptsOf w key = (case js_get (open_prompts w) key of Some ps \<Rightarrow> ps | None \<Rightarrow> [])"

definition join_wait :: "('t \<Rightarrow> 'c \<Rightarrow> string \<Rightarrow> string \<Rightarrow> 'c) \<Rightarrow> 't \<Rightarrow> string \<Rightarrow> string \<Rightarrow> 'c prompt_waits \<Rightarrow> 'c prompt_waits" where
  "join_wait started t key s w =
     (let sessions = waits_at w key;
          waits = (case js_get sessions s of Some n \<Rightarrow> n | None \<Rightarrow> 0);
          w1 = w\<lparr>waiters := js_set key (js_set s (waits + 1) sessions) (waiters w), joined := joined w @ [(key, s, False)]\<rparr>
      in if waits = 0 then w1\<lparr>clock := fold (\<lambda>p c. started t c s p) (promptsOf w key) (clock w)\<rparr> else w1)"

definition end_wait :: "('t \<Rightarrow> 'c \<Rightarrow> string \<Rightarrow> string \<Rightarrow> 'c) \<Rightarrow> 't \<Rightarrow> nat \<Rightarrow> 'c prompt_waits \<Rightarrow> 'c prompt_waits" where
  "end_wait finished t i w =
     (if length (joined w) \<le> i then w
      else let (key, s, over) = joined w ! i in
        if over then w
        else let w1 = w\<lparr>joined := (joined w)[i := (key, s, True)]\<rparr>;
                 sessions = waits_at w1 key;
                 remaining = (case js_get sessions s of Some n \<Rightarrow> n | None \<Rightarrow> 1) - 1
             in if remaining > 0
                then w1\<lparr>waiters := (if js_has (waiters w1) key then js_set key (js_set s remaining sessions) (waiters w1) else waiters w1)\<rparr>
                else let rest = js_delete s sessions;
                         w2 = w1\<lparr>waiters := (if js_has (waiters w1) key
                                then (if rest = [] then js_delete key (waiters w1) else js_set key rest (waiters w1))
                                else waiters w1)\<rparr>
                     in w2\<lparr>clock := fold (\<lambda>p c. finished t c s p) (promptsOf w2 key) (clock w2)\<rparr>)"

text \<open>A prompt opens with a new id, and ends whether its wait resolves or throws.\<close>

definition open_prompt :: "('t \<Rightarrow> 'c \<Rightarrow> string \<Rightarrow> string \<Rightarrow> 'c) \<Rightarrow> 't \<Rightarrow> string \<Rightarrow> string \<Rightarrow> 'c prompt_waits \<Rightarrow> 'c prompt_waits" where
  "open_prompt started t key pid w =
     (let w1 = w\<lparr>open_prompts := js_set key (set_add pid (promptsOf w key)) (open_prompts w)\<rparr>
      in w1\<lparr>clock := fold (\<lambda>s c. started t c s pid) (sessionsOf w1 key) (clock w1)\<rparr>)"

definition close_prompt :: "('t \<Rightarrow> 'c \<Rightarrow> string \<Rightarrow> string \<Rightarrow> 'c) \<Rightarrow> 't \<Rightarrow> string \<Rightarrow> string \<Rightarrow> 'c prompt_waits \<Rightarrow> 'c prompt_waits" where
  "close_prompt finished t key pid w =
     (let rest = removeAll pid (promptsOf w key);
          w1 = w\<lparr>open_prompts := (if rest = [] then js_delete key (open_prompts w) else js_set key rest (open_prompts w))\<rparr>
      in w1\<lparr>clock := fold (\<lambda>s c. finished t c s pid) (sessionsOf w1 key) (clock w1)\<rparr>)"

text \<open>
  \<open>waitAs\<close> joins, and races the pending promise against a timer: the first of the two that settles is the outcome,
  and then the wait ends, also when the promise was rejected. The timer's delay is never negative.
\<close>

datatype 'v wait_outcome = InTime 'v | TimedOut | PendingRejected

record 'v running_wait =
  rw_index :: nat
  rw_delay :: int
  rw_outcome :: "'v wait_outcome option"

definition wait_as_begins :: "('t \<Rightarrow> 'c \<Rightarrow> string \<Rightarrow> string \<Rightarrow> 'c) \<Rightarrow> 't \<Rightarrow> string \<Rightarrow> string \<Rightarrow> int \<Rightarrow> 'c prompt_waits
    \<Rightarrow> 'v running_wait \<times> 'c prompt_waits" where
  "wait_as_begins started t key s timeoutMs w =
     (\<lparr>rw_index = length (joined w), rw_delay = max 0 timeoutMs, rw_outcome = None\<rparr>, join_wait started t key s w)"

definition race_settles :: "'v wait_outcome \<Rightarrow> 'v running_wait \<Rightarrow> 'v running_wait" where
  "race_settles outcome r = (if rw_outcome r = None then r\<lparr>rw_outcome := Some outcome\<rparr> else r)"

definition wait_as_ends :: "('t \<Rightarrow> 'c \<Rightarrow> string \<Rightarrow> string \<Rightarrow> 'c) \<Rightarrow> 't \<Rightarrow> 'v running_wait \<Rightarrow> 'c prompt_waits \<Rightarrow> 'c prompt_waits" where
  "wait_as_ends finished t r w = (if rw_outcome r = None then w else end_wait finished t (rw_index r) w)"

text \<open>
  Everything that can happen: joins, ends, prompts opening with an id nobody has used, prompts ending, and
  changes of the clock made elsewhere that leave the decisions of these prompts alone.
\<close>

inductive waits_reach :: "('t \<Rightarrow> 'c \<Rightarrow> string \<Rightarrow> string \<Rightarrow> 'c) \<Rightarrow> ('t \<Rightarrow> 'c \<Rightarrow> string \<Rightarrow> string \<Rightarrow> 'c)
    \<Rightarrow> ('c \<Rightarrow> string \<Rightarrow> string set) \<Rightarrow> 'c prompt_waits \<Rightarrow> string set \<Rightarrow> bool"
  for started finished open_of where
  start: "waits_reach started finished open_of (new_waits c) {}"
| joins: "waits_reach started finished open_of w used \<Longrightarrow> waits_reach started finished open_of (join_wait started t key s w) used"
| ends: "waits_reach started finished open_of w used \<Longrightarrow> waits_reach started finished open_of (end_wait finished t i w) used"
| opens: "waits_reach started finished open_of w used \<Longrightarrow> pid \<notin> used \<Longrightarrow> \<forall>s. pid \<notin> open_of (clock w) s
    \<Longrightarrow> waits_reach started finished open_of (open_prompt started t key pid w) (insert pid used)"
| closes: "waits_reach started finished open_of w used \<Longrightarrow> pid \<in> set (promptsOf w key)
    \<Longrightarrow> waits_reach started finished open_of (close_prompt finished t key pid w) used"
| elsewhere: "waits_reach started finished open_of w used \<Longrightarrow> \<forall>s. \<forall>p\<in>used. p \<in> open_of c s \<longleftrightarrow> p \<in> open_of (clock w) s
    \<Longrightarrow> waits_reach started finished open_of (w\<lparr>clock := c\<rparr>) used"

definition wait_count :: "'c prompt_waits \<Rightarrow> string \<Rightarrow> string \<Rightarrow> nat" where
  "wait_count w key s = length (filter (\<lambda>(k, s', over). k = key \<and> s' = s \<and> \<not> over) (joined w))"

definition counted :: "nat \<Rightarrow> nat option" where
  "counted n = (if n = 0 then None else Some n)"

definition waits_ok :: "('c \<Rightarrow> string \<Rightarrow> string set) \<Rightarrow> 'c prompt_waits \<Rightarrow> string set \<Rightarrow> bool" where
  "waits_ok open_of w used \<longleftrightarrow>
     (\<forall>key s. js_get (waits_at w key) s = counted (wait_count w key s))
     \<and> (\<forall>key. set (promptsOf w key) \<subseteq> used)
     \<and> (\<forall>key key' p. p \<in> set (promptsOf w key) \<longrightarrow> p \<in> set (promptsOf w key') \<longrightarrow> key = key')
     \<and> (\<forall>key p s. p \<in> set (promptsOf w key) \<longrightarrow> (p \<in> open_of (clock w) s \<longleftrightarrow> 0 < wait_count w key s))
     \<and> (\<forall>p s. p \<in> used \<longrightarrow> (\<forall>key. p \<notin> set (promptsOf w key)) \<longrightarrow> p \<notin> open_of (clock w) s)"

lemma waits_okI:
  assumes "\<And>key s. js_get (waits_at w key) s = counted (wait_count w key s)"
    and "\<And>key. set (promptsOf w key) \<subseteq> used"
    and "\<And>key key' p. p \<in> set (promptsOf w key) \<Longrightarrow> p \<in> set (promptsOf w key') \<Longrightarrow> key = key'"
    and "\<And>key p s. p \<in> set (promptsOf w key) \<Longrightarrow> (p \<in> open_of (clock w) s \<longleftrightarrow> 0 < wait_count w key s)"
    and "\<And>p s. p \<in> used \<Longrightarrow> (\<forall>key. p \<notin> set (promptsOf w key)) \<Longrightarrow> p \<notin> open_of (clock w) s"
  shows "waits_ok open_of w used"
  unfolding waits_ok_def using assms by blast

lemma waits_okD:
  assumes "waits_ok open_of w used"
  shows "js_get (waits_at w key) s = counted (wait_count w key s)"
    and "set (promptsOf w key) \<subseteq> used"
    and "p \<in> set (promptsOf w key) \<Longrightarrow> p \<in> set (promptsOf w key') \<Longrightarrow> key = key'"
    and "p \<in> set (promptsOf w key) \<Longrightarrow> (p \<in> open_of (clock w) s \<longleftrightarrow> 0 < wait_count w key s)"
    and "p \<in> used \<Longrightarrow> (\<forall>key. p \<notin> set (promptsOf w key)) \<Longrightarrow> p \<notin> open_of (clock w) s"
  using assms unfolding waits_ok_def by blast+

lemma in_sessionsOf: "waits_ok open_of w used \<Longrightarrow> s \<in> set (sessionsOf w key) \<longleftrightarrow> 0 < wait_count w key s"
  using waits_okD(1) [of open_of w used key s] js_has_iff [of "waits_at w key" s]
  by (auto simp: sessionsOf_def counted_def split: if_splits)

subsection \<open>What each operation does to waits and prompts\<close>

lemma wait_count_join [simp]:
  "wait_count (w\<lparr>joined := joined w @ [(key, s, False)]\<rparr>) k s' = wait_count w k s' + (if k = key \<and> s' = s then 1 else 0)"
  by (auto simp: wait_count_def)

lemma count_end:
  "i < length xs \<Longrightarrow> xs ! i = (key, s, False) \<Longrightarrow>
     length (filter (\<lambda>(k, s', over). k = k0 \<and> s' = s0 \<and> \<not> over) (xs[i := (key, s, True)])) + (if k0 = key \<and> s0 = s then 1 else 0)
       = length (filter (\<lambda>(k, s', over). k = k0 \<and> s' = s0 \<and> \<not> over) xs)"
proof (induction xs arbitrary: i)
  case (Cons x xs)
  then show ?case by (cases i) auto
qed simp

lemma wait_count_ends:
  "i < length (joined w) \<Longrightarrow> joined w ! i = (key, s, False) \<Longrightarrow>
     wait_count (w\<lparr>joined := (joined w)[i := (key, s, True)]\<rparr>) k s' + (if k = key \<and> s' = s then 1 else 0) = wait_count w k s'"
  using count_end [of i "joined w" key s k s'] by (simp add: wait_count_def)

lemma wait_count_frame [simp]:
  "wait_count (w\<lparr>waiters := a\<rparr>) k s = wait_count w k s" "wait_count (w\<lparr>open_prompts := b\<rparr>) k s = wait_count w k s"
  "wait_count (w\<lparr>clock := c\<rparr>) k s = wait_count w k s"
  by (simp_all add: wait_count_def)

lemma waits_at_frame [simp]:
  "waits_at (w\<lparr>open_prompts := b\<rparr>) k = waits_at w k" "waits_at (w\<lparr>clock := c\<rparr>) k = waits_at w k"
  "waits_at (w\<lparr>joined := j\<rparr>) k = waits_at w k" "waits_at (w\<lparr>waiters := js_set key m ws\<rparr>) k = (if k = key then m else waits_at (w\<lparr>waiters := ws\<rparr>) k)"
  "waits_at (w\<lparr>waiters := js_delete key ws\<rparr>) k = (if k = key then [] else waits_at (w\<lparr>waiters := ws\<rparr>) k)"
  by (simp_all add: waits_at_def)

lemma promptsOf_frame [simp]:
  "promptsOf (w\<lparr>waiters := a\<rparr>) k = promptsOf w k" "promptsOf (w\<lparr>clock := c\<rparr>) k = promptsOf w k"
  "promptsOf (w\<lparr>joined := j\<rparr>) k = promptsOf w k"
  "promptsOf (w\<lparr>open_prompts := js_set key m ps\<rparr>) k = (if k = key then m else promptsOf (w\<lparr>open_prompts := ps\<rparr>) k)"
  "promptsOf (w\<lparr>open_prompts := js_delete key ps\<rparr>) k = (if k = key then [] else promptsOf (w\<lparr>open_prompts := ps\<rparr>) k)"
  by (simp_all add: promptsOf_def)

lemma same_waiters [simp]: "w\<lparr>waiters := waiters w\<rparr> = w" "w\<lparr>open_prompts := open_prompts w\<rparr> = w"
  by simp_all

text \<open>A wait for a time is a join and an end; the first to settle decides, and a wait that ended counts no more.\<close>

lemma wait_as_reaches:
  assumes "waits_reach started finished open_of w used"
  shows "waits_reach started finished open_of (snd (wait_as_begins started t key s timeoutMs w)) used"
    and "waits_reach started finished open_of (wait_as_ends finished t r w) used"
  using assms by (auto simp: wait_as_begins_def wait_as_ends_def intro: waits_reach.joins waits_reach.ends)

lemma first_to_settle:
  "rw_outcome (fold race_settles outcomes r) = (case rw_outcome r of Some x \<Rightarrow> Some x | None \<Rightarrow> (case outcomes of x # _ \<Rightarrow> Some x | [] \<Rightarrow> None))"
proof (induction outcomes arbitrary: r)
  case (Cons x outcomes)
  then show ?case by (cases "rw_outcome r") (simp_all add: race_settles_def)
qed (simp split: option.split)

lemma joined_end_wait: "joined (end_wait finished t i w) = (if i < length (joined w) then (joined w)[i := (fst (joined w ! i), fst (snd (joined w ! i)), True)] else joined w)"
proof (cases "i < length (joined w)")
  case True
  obtain key s over where j: "joined w ! i = (key, s, over)" by (cases "joined w ! i")
  show ?thesis
  proof (cases over)
    case over: True
    with j have "(joined w)[i := (key, s, True)] = joined w" using list_update_id [of "joined w" i] by simp
    with True j over show ?thesis by (simp add: end_wait_def)
  next
    case False
    with True j show ?thesis by (simp add: end_wait_def Let_def)
  qed
qed (simp add: end_wait_def)

lemma waited_no_more:
  assumes "rw_index r < length (joined w)" and "rw_outcome r \<noteq> None"
  shows "snd (snd (joined (wait_as_ends finished t r w) ! rw_index r))"
proof -
  obtain y where "rw_outcome r = Some y" using assms(2) by auto
  then show ?thesis using assms(1) by (simp add: wait_as_ends_def joined_end_wait)
qed

context human_wait_clock
begin

lemma waits_ok_new: "waits_ok open_of (new_waits c) {}"
  by (simp add: waits_ok_def new_waits_def waits_at_def promptsOf_def wait_count_def counted_def)

lemma waits_ok_elsewhere:
  assumes ok: "waits_ok open_of w used" and same: "\<forall>s. \<forall>p\<in>used. p \<in> open_of c s \<longleftrightarrow> p \<in> open_of (clock w) s"
  shows "waits_ok open_of (w\<lparr>clock := c\<rparr>) used"
proof (rule waits_okI)
  fix key p s
  show "js_get (waits_at (w\<lparr>clock := c\<rparr>) key) s = counted (wait_count (w\<lparr>clock := c\<rparr>) key s)"
    using waits_okD(1) [OF ok, of key s] by simp
  show "set (promptsOf (w\<lparr>clock := c\<rparr>) key) \<subseteq> used" using waits_okD(2) [OF ok] by simp
  show "p \<in> open_of (clock (w\<lparr>clock := c\<rparr>)) s \<longleftrightarrow> 0 < wait_count (w\<lparr>clock := c\<rparr>) key s"
    if "p \<in> set (promptsOf (w\<lparr>clock := c\<rparr>) key)"
    using that waits_okD(4) [OF ok, of p key s] waits_okD(2) [OF ok, of key] same by auto
  show "p \<notin> open_of (clock (w\<lparr>clock := c\<rparr>)) s" if "p \<in> used" "\<forall>key. p \<notin> set (promptsOf (w\<lparr>clock := c\<rparr>) key)"
    using that waits_okD(5) [OF ok, of p s] same by auto
qed (use waits_okD(3) [OF ok] in auto)

lemma waits_ok_joins:
  assumes ok: "waits_ok open_of w used"
  shows "waits_ok open_of (join_wait started t key s w) used"
proof -
  define n where "n = (case js_get (waits_at w key) s of Some n \<Rightarrow> n | None \<Rightarrow> 0)"
  have n: "n = wait_count w key s" using waits_okD(1) [OF ok, of key s] by (simp add: n_def counted_def)
  let ?w1 = "w\<lparr>waiters := js_set key (js_set s (n + 1) (waits_at w key)) (waiters w), joined := joined w @ [(key, s, False)]\<rparr>"
  let ?w2 = "if n = 0 then ?w1\<lparr>clock := fold (\<lambda>p c. started t c s p) (promptsOf w key) (clock w)\<rparr> else ?w1"
  have eq: "join_wait started t key s w = ?w2" by (simp add: join_wait_def Let_def n_def)
  have cnt: "wait_count ?w2 k s' = wait_count w k s' + (if k = key \<and> s' = s then 1 else 0)" for k s'
    by (simp add: wait_count_def)
  have pr: "promptsOf ?w2 k = promptsOf w k" for k by simp
  have at: "waits_at ?w2 k = (if k = key then js_set s (n + 1) (waits_at w key) else waits_at w k)" for k by (simp add: waits_at_def)
  have cl: "open_of (clock ?w2) s' = (if n = 0 \<and> s' = s then open_of (clock w) s \<union> set (promptsOf w key) else open_of (clock w) s')" for s'
    by (simp add: open_started_prompts)
  show ?thesis unfolding eq
  proof (rule waits_okI)
    fix k p s'
    show "js_get (waits_at ?w2 k) s' = counted (wait_count ?w2 k s')"
      unfolding at cnt using waits_okD(1) [OF ok, of k s'] n by (auto simp: counted_def)
    show "set (promptsOf ?w2 k) \<subseteq> used" unfolding pr by (rule waits_okD(2) [OF ok])
    show "p \<in> open_of (clock ?w2) s' \<longleftrightarrow> 0 < wait_count ?w2 k s'" if "p \<in> set (promptsOf ?w2 k)"
      using that waits_okD(4) [OF ok, of p k s'] waits_okD(3) [OF ok, of p k key] n unfolding pr cl cnt by auto
    show "p \<notin> open_of (clock ?w2) s'" if "p \<in> used" "\<forall>k. p \<notin> set (promptsOf ?w2 k)"
      using that waits_okD(5) [OF ok, of p s'] unfolding pr cl by auto
    show "k = k'" if "p \<in> set (promptsOf ?w2 k)" "p \<in> set (promptsOf ?w2 k')" for k'
      using that waits_okD(3) [OF ok] unfolding pr by blast
  qed
qed

lemma waits_ok_ends:
  assumes ok: "waits_ok open_of w used"
  shows "waits_ok open_of (end_wait finished t i w) used"
proof (cases "length (joined w) \<le> i \<or> snd (snd (joined w ! i))")
  case True
  then have "end_wait finished t i w = w" by (auto simp: end_wait_def split: prod.split)
  then show ?thesis using ok by simp
next
  case False
  obtain key s where j: "joined w ! i = (key, s, False)" using False by (cases "joined w ! i") auto
  have i: "i < length (joined w)" using False by simp
  define n where "n = wait_count w key s"
  let ?w1 = "w\<lparr>joined := (joined w)[i := (key, s, True)]\<rparr>"
  have cnt1: "wait_count ?w1 k s' = wait_count w k s' - (if k = key \<and> s' = s then 1 else 0)" for k s'
    using wait_count_ends [OF i j, of k s'] by simp
  have n0: "0 < n" using wait_count_ends [OF i j, of key s] by (simp add: n_def)
  have got: "js_get (waits_at w key) s = Some n" using waits_okD(1) [OF ok, of key s] n0 by (simp add: counted_def n_def)
  have has: "js_has (waiters w) key" using got by (auto simp: waits_at_def split: option.splits)
  let ?c = "fold (\<lambda>p c. finished t c s p) (promptsOf w key) (clock w)"
  let ?rest = "js_delete s (waits_at w key)"
  define w2 where "w2 = end_wait finished t i w"
  have w2: "w2 = (if n > 1 then ?w1\<lparr>waiters := js_set key (js_set s (n - 1) (waits_at w key)) (waiters w)\<rparr>
      else ?w1\<lparr>waiters := (if ?rest = [] then js_delete key (waiters w) else js_set key ?rest (waiters w)), clock := ?c\<rparr>)"
    using i j got has n0 by (simp add: w2_def end_wait_def Let_def)
  have cnt: "wait_count w2 k s' = wait_count w k s' - (if k = key \<and> s' = s then 1 else 0)" for k s'
  proof -
    have "joined w2 = joined ?w1" by (simp add: w2)
    then have "wait_count w2 k s' = wait_count ?w1 k s'" by (simp only: wait_count_def)
    then show ?thesis using cnt1 [of k s'] by simp
  qed
  have pr: "promptsOf w2 k = promptsOf w k" for k by (simp add: w2 promptsOf_def)
  have at: "js_get (waits_at w2 k) s' = (if k = key \<and> s' = s then counted (n - 1) else js_get (waits_at w k) s')" for k s'
  proof -
    have "waits_at w2 k = (if k = key then (if n > 1 then js_set s (n - 1) (waits_at w key) else ?rest) else waits_at w k)"
      by (simp add: w2)
    then show ?thesis using n0 by (auto simp: counted_def)
  qed
  have cl: "open_of (clock w2) s' = (if n = 1 \<and> s' = s then open_of (clock w) s - set (promptsOf w key) else open_of (clock w) s')" for s'
    using n0 by (simp add: w2 open_finished_prompts)
  have "waits_ok open_of w2 used"
  proof (rule waits_okI)
    fix k p s'
    show "js_get (waits_at w2 k) s' = counted (wait_count w2 k s')"
      unfolding at cnt using waits_okD(1) [OF ok, of k s'] by (simp add: n_def)
    show "set (promptsOf w2 k) \<subseteq> used" unfolding pr by (rule waits_okD(2) [OF ok])
    show "p \<in> open_of (clock w2) s' \<longleftrightarrow> 0 < wait_count w2 k s'" if "p \<in> set (promptsOf w2 k)"
      using that waits_okD(4) [OF ok, of p k s'] waits_okD(3) [OF ok, of p k key] n0 unfolding pr cl cnt by (auto simp: n_def)
    show "p \<notin> open_of (clock w2) s'" if "p \<in> used" "\<forall>k. p \<notin> set (promptsOf w2 k)"
      using that waits_okD(5) [OF ok, of p s'] unfolding pr cl by auto
    show "k = k'" if "p \<in> set (promptsOf w2 k)" "p \<in> set (promptsOf w2 k')" for k'
      using that waits_okD(3) [OF ok] unfolding pr by blast
  qed
  then show ?thesis by (simp add: w2_def)
qed

lemma waits_ok_opens:
  assumes ok: "waits_ok open_of w used" and new: "pid \<notin> used" "\<forall>s. pid \<notin> open_of (clock w) s"
  shows "waits_ok open_of (open_prompt started t key pid w) (insert pid used)"
proof -
  define w2 where "w2 = open_prompt started t key pid w"
  have w2: "w2 = w\<lparr>open_prompts := js_set key (set_add pid (promptsOf w key)) (open_prompts w),
      clock := fold (\<lambda>s c. started t c s pid) (sessionsOf w key) (clock w)\<rparr>"
    by (simp add: w2_def open_prompt_def Let_def sessionsOf_def)
  have cnt: "wait_count w2 k s = wait_count w k s" for k s by (simp add: w2 wait_count_def)
  have at: "waits_at w2 k = waits_at w k" for k by (simp add: w2 waits_at_def)
  have "promptsOf w2 k = (if k = key then set_add pid (promptsOf w key) else promptsOf w k)" for k
    by (simp add: w2 promptsOf_def)
  then have pr: "set (promptsOf w2 k) = (if k = key then insert pid (set (promptsOf w key)) else set (promptsOf w k))" for k
    by simp
  have cl: "open_of (clock w2) s = (if 0 < wait_count w key s then insert pid (open_of (clock w) s) else open_of (clock w) s)" for s
    using in_sessionsOf [OF ok, of s key] by (simp add: w2 open_started_sessions)
  have fresh: "pid \<notin> set (promptsOf w k)" for k using waits_okD(2) [OF ok, of k] new by blast
  have "waits_ok open_of w2 (insert pid used)"
  proof (rule waits_okI)
    fix k p s
    show "js_get (waits_at w2 k) s = counted (wait_count w2 k s)" unfolding at cnt by (rule waits_okD(1) [OF ok])
    show "set (promptsOf w2 k) \<subseteq> insert pid used" using waits_okD(2) [OF ok, of k] waits_okD(2) [OF ok, of key] unfolding pr by auto
    show "p \<in> open_of (clock w2) s \<longleftrightarrow> 0 < wait_count w2 k s" if "p \<in> set (promptsOf w2 k)"
      using that waits_okD(4) [OF ok, of p k s] new fresh [of k] unfolding pr cl cnt by (auto split: if_splits)
    show "p \<notin> open_of (clock w2) s" if "p \<in> insert pid used" "\<forall>k. p \<notin> set (promptsOf w2 k)"
      using that waits_okD(5) [OF ok, of p s] unfolding pr cl by (auto split: if_splits)
    show "k = k'" if "p \<in> set (promptsOf w2 k)" "p \<in> set (promptsOf w2 k')" for k'
      using that waits_okD(3) [OF ok, of p k k'] fresh [of k] fresh [of k'] unfolding pr by (auto split: if_splits)
  qed
  then show ?thesis by (simp add: w2_def)
qed

lemma waits_ok_closes:
  assumes ok: "waits_ok open_of w used" and p0: "pid \<in> set (promptsOf w key)"
  shows "waits_ok open_of (close_prompt finished t key pid w) used"
proof -
  define w2 where "w2 = close_prompt finished t key pid w"
  let ?rest = "removeAll pid (promptsOf w key)"
  have w2: "w2 = w\<lparr>open_prompts := (if ?rest = [] then js_delete key (open_prompts w) else js_set key ?rest (open_prompts w)),
      clock := fold (\<lambda>s c. finished t c s pid) (sessionsOf w key) (clock w)\<rparr>"
    by (simp add: w2_def close_prompt_def Let_def sessionsOf_def)
  have cnt: "wait_count w2 k s = wait_count w k s" for k s by (simp add: w2 wait_count_def)
  have at: "waits_at w2 k = waits_at w k" for k by (simp add: w2 waits_at_def)
  have pr: "promptsOf w2 k = (if k = key then ?rest else promptsOf w k)" for k
    by (simp add: w2 promptsOf_def)
  have cl: "open_of (clock w2) s = (if 0 < wait_count w key s then open_of (clock w) s - {pid} else open_of (clock w) s)" for s
    using in_sessionsOf [OF ok, of s key] by (simp add: w2 open_finished_sessions)
  have "waits_ok open_of w2 used"
  proof (rule waits_okI)
    fix k p s
    show "js_get (waits_at w2 k) s = counted (wait_count w2 k s)" unfolding at cnt by (rule waits_okD(1) [OF ok])
    show "set (promptsOf w2 k) \<subseteq> used" using waits_okD(2) [OF ok, of k] unfolding pr by auto
    show "p \<in> open_of (clock w2) s \<longleftrightarrow> 0 < wait_count w2 k s" if "p \<in> set (promptsOf w2 k)"
      using that waits_okD(4) [OF ok, of p k s] waits_okD(3) [OF ok, of p k key] p0 unfolding pr cl cnt by (auto split: if_splits)
    show "p \<notin> open_of (clock w2) s" if "p \<in> used" "\<forall>k. p \<notin> set (promptsOf w2 k)"
    proof (cases "p = pid")
      case True
      then show ?thesis using waits_okD(4) [OF ok p0, of s] unfolding cl by auto
    next
      case False
      have "\<forall>k. p \<notin> set (promptsOf w k)" using that(2) False unfolding pr by (auto split: if_splits)
      then show ?thesis using waits_okD(5) [OF ok that(1), of s] unfolding cl by auto
    qed
    show "k = k'" if "p \<in> set (promptsOf w2 k)" "p \<in> set (promptsOf w2 k')" for k'
      using that waits_okD(3) [OF ok, of p k k'] unfolding pr by (auto split: if_splits)
  qed
  then show ?thesis by (simp add: w2_def)
qed

lemma reach_ok: "waits_reach started finished open_of w used \<Longrightarrow> waits_ok open_of w used"
  by (induction rule: waits_reach.induct)
    (simp_all add: waits_ok_new waits_ok_joins waits_ok_ends waits_ok_opens waits_ok_closes waits_ok_elsewhere)

lemma paused_for_exactly_the_waiters:
  assumes "waits_reach started finished open_of w used"
  shows "p \<in> set (promptsOf w key) \<Longrightarrow> p \<in> open_of (clock w) s \<longleftrightarrow> (key, s, False) \<in> set (joined w)"
    and "p \<in> used \<Longrightarrow> \<forall>key. p \<notin> set (promptsOf w key) \<Longrightarrow> p \<notin> open_of (clock w) s"
proof -
  note ok = reach_ok [OF assms]
  have "0 < wait_count w key s \<longleftrightarrow> (key, s, False) \<in> set (joined w)"
    by (auto simp: wait_count_def filter_empty_conv)
  then show "p \<in> set (promptsOf w key) \<Longrightarrow> p \<in> open_of (clock w) s \<longleftrightarrow> (key, s, False) \<in> set (joined w)"
    using waits_okD(4) [OF ok, of p key s] by simp
  show "p \<in> used \<Longrightarrow> \<forall>key. p \<notin> set (promptsOf w key) \<Longrightarrow> p \<notin> open_of (clock w) s"
    by (rule waits_okD(5) [OF ok])
qed

end

section \<open>Properties\<close>

text \<open>
  C11: in every reachable state a session is paused for a prompt open for a key exactly while one of
  its own waits on that key has not ended, and no session stays paused for a prompt that has closed,
  whatever the order in which sessions join, time out, leave twice, and prompts open and close.
\<close>

theorem shared_prompts_pause_exactly_the_waiters:
  assumes "waits_reach tracker_started tracker_finished open_decisions w used"
  shows "(\<forall>key p s. p \<in> set (promptsOf w key) \<longrightarrow> (p \<in> open_decisions (clock w) s \<longleftrightarrow> (key, s, False) \<in> set (joined w)))
    \<and> (\<forall>p\<in>used. (\<forall>key. p \<notin> set (promptsOf w key)) \<longrightarrow> (\<forall>s. p \<notin> open_decisions (clock w) s))"
  using turn_clock.paused_for_exactly_the_waiters [OF assms] by blast

definition sample_waits :: "tracker prompt_waits" where
  "sample_waits = end_wait tracker_finished 50 0 (open_prompt tracker_started 40 ''k'' ''p2''
     (join_wait tracker_started 30 ''k'' ''b'' (open_prompt tracker_started 20 ''k'' ''p1''
       (join_wait tracker_started 10 ''k'' ''a'' (new_waits new_tracker)))))"

lemma sample_waits_reach: "waits_reach tracker_started tracker_finished open_decisions sample_waits {''p2'', ''p1''}"
proof -
  have 1: "waits_reach tracker_started tracker_finished open_decisions (join_wait tracker_started 10 ''k'' ''a'' (new_waits new_tracker)) {}"
    by (intro waits_reach.joins waits_reach.start)
  have 2: "waits_reach tracker_started tracker_finished open_decisions
      (open_prompt tracker_started 20 ''k'' ''p1'' (join_wait tracker_started 10 ''k'' ''a'' (new_waits new_tracker))) {''p1''}"
  proof (rule waits_reach.opens [OF 1])
    have "pauses (clock (join_wait tracker_started 10 ''k'' ''a'' (new_waits new_tracker))) = []" by code_simp
    then show "\<forall>s. ''p1'' \<notin> open_decisions (clock (join_wait tracker_started 10 ''k'' ''a'' (new_waits new_tracker))) s"
      by (simp add: open_decisions_def pausesOf_def no_pauses_def)
  qed simp
  let ?w3 = "join_wait tracker_started 30 ''k'' ''b'' (open_prompt tracker_started 20 ''k'' ''p1'' (join_wait tracker_started 10 ''k'' ''a'' (new_waits new_tracker)))"
  have "waits_reach tracker_started tracker_finished open_decisions
      (open_prompt tracker_started 40 ''k'' ''p2'' ?w3) {''p2'', ''p1''}"
  proof (rule waits_reach.opens [OF waits_reach.joins [OF 2]])
    have "pauses (clock ?w3) = [(''a'', \<lparr>sp_open = [''p1''], sp_startedAtMs = Some 20, sp_ended = []\<rparr>),
        (''b'', \<lparr>sp_open = [''p1''], sp_startedAtMs = Some 30, sp_ended = []\<rparr>)]"
      by code_simp
    then show "\<forall>s. ''p2'' \<notin> open_decisions (clock ?w3) s"
      by (simp add: open_decisions_def pausesOf_def no_pauses_def)
  qed simp
  then show ?thesis unfolding sample_waits_def by (rule waits_reach.ends)
qed

theorem shared_prompts_pause_exactly_the_waiters_witness:
  "''p1'' \<notin> open_decisions (clock sample_waits) ''a'' \<and> ''p2'' \<in> open_decisions (clock sample_waits) ''b''"
proof -
  have p: "''p1'' \<in> set (promptsOf sample_waits ''k'')" "''p2'' \<in> set (promptsOf sample_waits ''k'')" by code_simp+
  have j: "joined sample_waits = [(''k'', ''a'', True), (''k'', ''b'', False)]" by code_simp
  show ?thesis using shared_prompts_pause_exactly_the_waiters [OF sample_waits_reach, THEN conjunct1] p by (simp add: j)
qed

end
