(* ===== verification/SseStream.thy ===== *)
theory SseStream
  imports SpendTypes
begin

text \<open>
  The OpenAI stream (\<open>src/src/backend/sseParser.ts\<close>): the event-stream parser, which turns text
  chunks into JSON events, and the reconstructor, which puts a message together from the events' deltas.
  \<open>JSON.parse\<close>, \<open>JSON.stringify\<close> and the text of a number are parameters. Chunks are the
  decoded text; decoding bytes is \<open>TextDecoder\<close>'s. A field whose JSON type is not the declared one is
  treated as absent, except where the code tests it.
\<close>

subsection \<open>Frames and lines\<close>

record sse_frame =
  fr_data :: "string list"
  fr_event :: "string option"

definition empty_frame :: sse_frame where
  "empty_frame = \<lparr>fr_data = [], fr_event = None\<rparr>"

text \<open>How a step of the generator ends: it goes on, perhaps yielding an event; the stream is done; it throws.\<close>

datatype sse_result = Yield js_value | Nothing | StreamDone | ProviderSseError string | JsonSyntaxError

fun join_lines :: "string list \<Rightarrow> string" where
  "join_lines [] = []"
| "join_lines [l] = l"
| "join_lines (l # ls) = l @ CHR 0x0A # join_lines ls"

definition flushEvent :: "(string \<Rightarrow> js_value option) \<Rightarrow> sse_frame \<Rightarrow> sse_result" where
  "flushEvent json f =
     (if fr_event f = Some ''error'' then
        ProviderSseError (case json (join_lines (fr_data f)) of
            Some (JObject ms) \<Rightarrow>
              (case member_of ms ''message'' of JString m \<Rightarrow> m | _ \<Rightarrow> ''Provider returned a failed stream event.'')
          | _ \<Rightarrow> ''Provider returned a failed stream event.'')
      else if fr_data f = [] then Nothing
      else let data = js_trim (join_lines (fr_data f)) in
        if data = [] then Nothing
        else if data = ''[DONE]'' then StreamDone
        else case json data of Some v \<Rightarrow> Yield v | None \<Rightarrow> JsonSyntaxError)"

definition parseLine :: "(string \<Rightarrow> js_value option) \<Rightarrow> string \<Rightarrow> sse_frame \<Rightarrow> sse_frame \<times> sse_result" where
  "parseLine json line f =
     (if line = [] then (empty_frame, flushEvent json f)
      else if starts_with line '':'' then (f, Nothing)
      else if starts_with line ''data:'' then
        (f\<lparr>fr_data := fr_data f @ [if starts_with line ''data: '' then drop 6 line else drop 5 line]\<rparr>, Nothing)
      else if line = ''event'' \<or> starts_with line ''event:'' then
        (let v = (if line = ''event'' then [] else drop 6 line)
         in (f\<lparr>fr_event := Some (if starts_with v '' '' then drop 1 v else v)\<rparr>, Nothing))
      else (f, Nothing))"

definition is_break :: "char \<Rightarrow> bool" where
  "is_break c \<longleftrightarrow> c = CHR 0x0A \<or> c = CHR 0x0D"

definition findLineBreak :: "string \<Rightarrow> nat option" where
  "findLineBreak s = (let n = length (takeWhile (\<lambda>c. \<not> is_break c) s) in if n < length s then Some n else None)"

text \<open>The first line of the buffer and what follows its line break.\<close>

definition cut_line :: "string \<Rightarrow> (string \<times> string) option" where
  "cut_line buffer = (case findLineBreak buffer of
       None \<Rightarrow> None
     | Some n \<Rightarrow>
         let raw = take n buffer;
             width = (if buffer ! n = CHR 0x0D \<and> n + 1 < length buffer \<and> buffer ! (n + 1) = CHR 0x0A then 2 else 1)
         in Some (if ends_with raw [CHR 0x0D] then butlast raw else raw, drop (n + width) buffer))"

lemma cut_line_shorter: "cut_line buffer = Some (line, rest) \<Longrightarrow> length rest < length buffer"
  by (auto simp: cut_line_def findLineBreak_def Let_def split: if_splits option.splits)

subsection \<open>The generator\<close>

datatype sse_end = Streaming | Ended | Threw sse_result

record sse_state =
  ss_buffer :: string
  ss_frame :: sse_frame
  ss_yielded :: "js_value list"
  ss_end :: sse_end

definition new_stream :: sse_state where
  "new_stream = \<lparr>ss_buffer = [], ss_frame = empty_frame, ss_yielded = [], ss_end = Streaming\<rparr>"

definition after_line :: "sse_frame \<times> sse_result \<Rightarrow> string \<Rightarrow> sse_state \<Rightarrow> sse_state" where
  "after_line r rest st = (case r of (f, res) \<Rightarrow>
     (let st1 = st\<lparr>ss_buffer := rest, ss_frame := f\<rparr> in
      case res of
        Yield v \<Rightarrow> st1\<lparr>ss_yielded := ss_yielded st1 @ [v]\<rparr>
      | Nothing \<Rightarrow> st1
      | StreamDone \<Rightarrow> st1\<lparr>ss_end := Ended\<rparr>
      | _ \<Rightarrow> st1\<lparr>ss_end := Threw res\<rparr>))"

lemma after_line_buffer [simp]: "ss_buffer (after_line r rest st) = rest"
  by (cases r; cases "snd r") (simp_all add: after_line_def)

function take_lines :: "(string \<Rightarrow> js_value option) \<Rightarrow> sse_state \<Rightarrow> sse_state" where
  "take_lines json st =
     (if ss_end st \<noteq> Streaming then st
      else case cut_line (ss_buffer st) of
        None \<Rightarrow> st
      | Some (line, rest) \<Rightarrow> take_lines json (after_line (parseLine json line (ss_frame st)) rest st))"
  by pat_completeness auto
termination
  by (relation "measure (\<lambda>(json, st). length (ss_buffer st))") (auto dest: cut_line_shorter)

declare take_lines.simps [simp del]

definition sse_chunk :: "(string \<Rightarrow> js_value option) \<Rightarrow> sse_state \<Rightarrow> string \<Rightarrow> sse_state" where
  "sse_chunk json st chunk =
     (if ss_end st \<noteq> Streaming then st else take_lines json (st\<lparr>ss_buffer := ss_buffer st @ chunk\<rparr>))"

text \<open>The end of the chunks: a last line without a break, then the last frame.\<close>

definition sse_flush :: "(string \<Rightarrow> js_value option) \<Rightarrow> sse_state \<Rightarrow> sse_state" where
  "sse_flush json st =
     (if ss_end st \<noteq> Streaming then st
      else let st1 = after_line (ss_frame st, flushEvent json (ss_frame st)) (ss_buffer st) st
           in if ss_end st1 = Streaming then st1\<lparr>ss_end := Ended\<rparr> else st1)"

definition sse_finish :: "(string \<Rightarrow> js_value option) \<Rightarrow> sse_state \<Rightarrow> sse_state" where
  "sse_finish json st =
     (if ss_end st \<noteq> Streaming then st
      else sse_flush json (if ss_buffer st = [] then st
                           else after_line (parseLine json (ss_buffer st) (ss_frame st)) (ss_buffer st) st))"

definition parseSseEvents :: "(string \<Rightarrow> js_value option) \<Rightarrow> string list \<Rightarrow> js_value list \<times> sse_end" where
  "parseSseEvents json chunks =
     (let st = sse_finish json (foldl (sse_chunk json) new_stream chunks) in (ss_yielded st, ss_end st))"

section \<open>What the parser reads, whatever the chunks\<close>

text \<open>
  The reference: the lines of the whole text, each ended by a line feed, a carriage return or the pair,
  a last line without a break included unless it is empty; then one frame after another.
\<close>

definition skip_lf :: "string \<Rightarrow> string" where
  "skip_lf s = (case s of [] \<Rightarrow> [] | c # t \<Rightarrow> if c = CHR 0x0A then t else s)"

lemma length_skip_lf: "length (skip_lf s) \<le> length s"
  by (simp add: skip_lf_def split: list.split)

function stream_lines :: "string \<Rightarrow> string list" where
  "stream_lines [] = []"
| "stream_lines (c # s) =
     (if c = CHR 0x0D then [] # stream_lines (skip_lf s)
      else if c = CHR 0x0A then [] # stream_lines s
      else (case stream_lines s of [] \<Rightarrow> [[c]] | l # ls \<Rightarrow> (c # l) # ls))"
  by pat_completeness auto
termination
  by (relation "measure length") (auto simp: length_skip_lf le_imp_less_Suc)

fun frame_events :: "(string \<Rightarrow> js_value option) \<Rightarrow> sse_frame \<Rightarrow> string list \<Rightarrow> js_value list \<times> sse_end" where
  "frame_events json f [] =
     (case flushEvent json f of
        Yield v \<Rightarrow> ([v], Ended) | Nothing \<Rightarrow> ([], Ended) | StreamDone \<Rightarrow> ([], Ended) | e \<Rightarrow> ([], Threw e))"
| "frame_events json f (l # ls) =
     (let rest = frame_events json (fst (parseLine json l f)) ls in
      case snd (parseLine json l f) of
        Yield v \<Rightarrow> (v # fst rest, snd rest) | Nothing \<Rightarrow> rest | StreamDone \<Rightarrow> ([], Ended) | e \<Rightarrow> ([], Threw e))"

lemma findLineBreak_Cons:
  "findLineBreak (c # s) = (if is_break c then Some 0 else map_option Suc (findLineBreak s))"
  by (simp add: findLineBreak_def Let_def)

lemma findLineBreak_Some:
  "findLineBreak s = Some n \<Longrightarrow> n < length s \<and> is_break (s ! n) \<and> (\<forall>c \<in> set (take n s). \<not> is_break c)"
  by (induction s arbitrary: n) (auto simp: findLineBreak_Cons findLineBreak_def [of "[]"] split: if_splits)

lemma no_trailing_cr: "findLineBreak s = Some n \<Longrightarrow> \<not> ends_with (take n s) [CHR 0x0D]"
proof
  assume *: "findLineBreak s = Some n" "ends_with (take n s) [CHR 0x0D]"
  then have "CHR 0x0D \<in> set (take n s)"
    by (cases "take n s" rule: rev_cases) (auto simp: ends_with_def starts_with_def)
  with findLineBreak_Some [OF *(1)] show False by (auto simp: is_break_def)
qed

lemma cut_line_alt:
  "cut_line s = (case findLineBreak s of
     None \<Rightarrow> None
   | Some n \<Rightarrow> Some (take n s, if s ! n = CHR 0x0D then skip_lf (drop (Suc n) s) else drop (Suc n) s))"
proof (cases "findLineBreak s")
  case (Some n)
  then have n: "n < length s" using findLineBreak_Some by blast
  have "drop (n + (if s ! n = CHR 0x0D \<and> n + 1 < length s \<and> s ! (n + 1) = CHR 0x0A then 2 else 1)) s
     = (if s ! n = CHR 0x0D then skip_lf (drop (Suc n) s) else drop (Suc n) s)"
  proof (cases "Suc n < length s")
    case True
    then have d: "drop (Suc n) s = s ! Suc n # drop (Suc (Suc n)) s" by (simp add: Cons_nth_drop_Suc)
    show ?thesis using True by (simp add: d skip_lf_def)
  next
    case False
    with n show ?thesis by (simp add: skip_lf_def)
  qed
  with Some no_trailing_cr [OF Some] show ?thesis by (simp add: cut_line_def Let_def)
qed (simp add: cut_line_def)

lemma cut_line_Nil: "cut_line [] = None"
  by (simp add: cut_line_alt findLineBreak_def)

lemma cut_line_Cons:
  "cut_line (c # s) =
     (if c = CHR 0x0D then Some ([], skip_lf s)
      else if c = CHR 0x0A then Some ([], s)
      else map_option (\<lambda>(l, r). (c # l, r)) (cut_line s))"
  by (cases "findLineBreak s") (simp_all add: cut_line_alt findLineBreak_Cons is_break_def)

lemma cut_line_None: "cut_line s = None \<longleftrightarrow> (\<forall>c \<in> set s. \<not> is_break c)"
  by (induction s) (auto simp: cut_line_Nil cut_line_Cons is_break_def)

lemma stream_lines_cut:
  "stream_lines s = (case cut_line s of None \<Rightarrow> if s = [] then [] else [s] | Some (l, r) \<Rightarrow> l # stream_lines r)"
proof (induction s)
  case (Cons c s)
  consider "c = CHR 0x0D \<or> c = CHR 0x0A" | "\<not> is_break c" "cut_line s = None"
    | l r where "\<not> is_break c" "cut_line s = Some (l, r)"
    by (cases "cut_line s") (auto simp: is_break_def)
  then show ?case
  proof cases
    case 1
    then show ?thesis by (auto simp: cut_line_Cons)
  next
    case 2
    with Cons.IH have "stream_lines s = (if s = [] then [] else [s])" by simp
    with 2 show ?thesis by (auto simp: cut_line_Cons is_break_def)
  next
    case 3
    with Cons.IH have "stream_lines s = l # stream_lines r" by simp
    with 3 show ?thesis by (auto simp: cut_line_Cons is_break_def)
  qed
qed (simp add: cut_line_Nil)

lemma skip_lf_append: "s \<noteq> [] \<or> t = [] \<Longrightarrow> skip_lf (s @ t) = skip_lf s @ t"
  by (cases s) (simp_all add: skip_lf_def)

lemma cut_line_more:
  "cut_line s = Some (l, r) \<Longrightarrow> t = [] \<or> last s \<noteq> CHR 0x0D \<Longrightarrow> cut_line (s @ t) = Some (l, r @ t)"
proof (induction s arbitrary: l)
  case (Cons c s)
  consider "c = CHR 0x0D" | "c = CHR 0x0A" | "\<not> is_break c" by (auto simp: is_break_def)
  then show ?case
  proof cases
    case 1
    with Cons.prems have "s \<noteq> [] \<or> t = []" by auto
    with 1 Cons.prems(1) show ?thesis by (simp add: cut_line_Cons skip_lf_append)
  next
    case 2
    with Cons.prems(1) show ?thesis by (simp add: cut_line_Cons)
  next
    case 3
    with Cons.prems(1) obtain l' where l: "cut_line s = Some (l', r)" "l = c # l'"
      by (auto simp: cut_line_Cons is_break_def)
    then have "s \<noteq> []" by (auto simp: cut_line_Nil)
    with Cons.prems(2) have "t = [] \<or> last s \<noteq> CHR 0x0D" by simp
    from Cons.IH [OF l(1) this] 3 l(2) show ?thesis by (simp add: cut_line_Cons is_break_def)
  qed
qed (simp add: cut_line_Nil)

lemma skip_lf_last: "skip_lf s = [] \<or> last (skip_lf s) = last s"
  by (cases s) (auto simp: skip_lf_def)

lemma cut_line_rest: "cut_line s = Some (l, r) \<Longrightarrow> r = [] \<or> last r = last s"
proof (induction s arbitrary: l)
  case (Cons c s)
  then show ?case using skip_lf_last [of s]
    by (cases "s = []") (auto simp: cut_line_Cons cut_line_Nil skip_lf_def split: if_splits)
qed (simp add: cut_line_Nil)

text \<open>What the parser will have produced in the end, if the text still to come is \<open>t\<close>.\<close>

definition promised :: "(string \<Rightarrow> js_value option) \<Rightarrow> sse_state \<Rightarrow> string \<Rightarrow> js_value list \<times> sse_end" where
  "promised json st t =
     (if ss_end st = Streaming
      then (let rest = frame_events json (ss_frame st) (stream_lines (ss_buffer st @ t))
            in (ss_yielded st @ fst rest, snd rest))
      else (ss_yielded st, ss_end st))"

lemma promised_after_line:
  assumes "ss_end st = Streaming" and "stream_lines (ss_buffer st @ t) = line # stream_lines (rest @ t)"
  shows "promised json (after_line (parseLine json line (ss_frame st)) rest st) t = promised json st t"
  using assms
  by (cases "parseLine json line (ss_frame st)"; cases "snd (parseLine json line (ss_frame st))")
    (simp_all add: promised_def after_line_def Let_def)

lemma promised_take_lines:
  "t = [] \<or> ss_buffer st = [] \<or> last (ss_buffer st) \<noteq> CHR 0x0D \<Longrightarrow> promised json (take_lines json st) t = promised json st t"
proof (induction json st rule: take_lines.induct)
  case (1 json st)
  show ?case
  proof (cases "ss_end st = Streaming \<and> cut_line (ss_buffer st) \<noteq> None")
    case True
    then obtain line rest where cut: "cut_line (ss_buffer st) = Some (line, rest)" by auto
    from True have on: "ss_end st = Streaming" by simp
    from cut have "ss_buffer st \<noteq> []" by (auto simp: cut_line_Nil)
    with "1.prems" have ok: "t = [] \<or> last (ss_buffer st) \<noteq> CHR 0x0D" by simp
    from cut_line_rest [OF cut] ok have "t = [] \<or> rest = [] \<or> last rest \<noteq> CHR 0x0D" by auto
    then have "promised json (take_lines json (after_line (parseLine json line (ss_frame st)) rest st)) t
       = promised json (after_line (parseLine json line (ss_frame st)) rest st) t"
      using "1.IH" [OF _ cut refl] on by simp
    also have "\<dots> = promised json st t"
    proof (rule promised_after_line [OF on])
      show "stream_lines (ss_buffer st @ t) = line # stream_lines (rest @ t)"
        by (simp add: stream_lines_cut [of "ss_buffer st @ t"] cut_line_more [OF cut ok])
    qed
    finally show ?thesis by (simp add: take_lines.simps [of json st] on cut)
  next
    case False
    then have "take_lines json st = st" by (auto simp: take_lines.simps [of json st] simp del: not_None_eq)
    then show ?thesis by simp
  qed
qed

text \<open>Between two chunks the buffer holds no line break.\<close>

definition between_chunks :: "sse_state \<Rightarrow> bool" where
  "between_chunks st \<longleftrightarrow> ss_end st = Streaming \<longrightarrow> (\<forall>c \<in> set (ss_buffer st). \<not> is_break c)"

lemma take_lines_between_chunks: "between_chunks (take_lines json st)"
proof (induction json st rule: take_lines.induct)
  case (1 json st)
  show ?case
  proof (cases "ss_end st = Streaming \<and> cut_line (ss_buffer st) \<noteq> None")
    case True
    then obtain line rest where "cut_line (ss_buffer st) = Some (line, rest)" by auto
    with True "1.IH" [OF _ this refl] show ?thesis by (simp add: take_lines.simps [of json st])
  next
    case False
    then have "take_lines json st = st" by (auto simp: take_lines.simps [of json st] simp del: not_None_eq)
    with False show ?thesis by (auto simp: between_chunks_def cut_line_None)
  qed
qed

lemma sse_chunk_between_chunks: "between_chunks st \<Longrightarrow> between_chunks (sse_chunk json st c)"
  by (simp add: sse_chunk_def take_lines_between_chunks)

lemma promised_chunk:
  assumes "between_chunks st" and "t = [] \<or> c = [] \<or> last c \<noteq> CHR 0x0D"
  shows "promised json (sse_chunk json st c) t = promised json st (c @ t)"
proof (cases "ss_end st = Streaming")
  case True
  let ?st = "st\<lparr>ss_buffer := ss_buffer st @ c\<rparr>"
  have "ss_buffer st = [] \<or> last (ss_buffer st) \<noteq> CHR 0x0D"
    using assms(1) True last_in_set [of "ss_buffer st"] unfolding between_chunks_def is_break_def by blast
  with assms(2) have "t = [] \<or> ss_buffer ?st = [] \<or> last (ss_buffer ?st) \<noteq> CHR 0x0D"
    by (cases "c = []") simp_all
  from promised_take_lines [OF this, of json] have "promised json (sse_chunk json st c) t = promised json ?st t"
    by (simp add: sse_chunk_def True)
  also have "\<dots> = promised json st (c @ t)" by (simp add: promised_def)
  finally show ?thesis .
qed (simp add: sse_chunk_def promised_def)

lemma promised_chunks:
  "between_chunks st \<Longrightarrow> \<forall>c \<in> set (butlast chunks). c = [] \<or> last c \<noteq> CHR 0x0D \<Longrightarrow>
     promised json (foldl (sse_chunk json) st chunks) [] = promised json st (concat chunks)
     \<and> between_chunks (foldl (sse_chunk json) st chunks)"
proof (induction chunks arbitrary: st)
  case (Cons c cs)
  have "concat cs = [] \<or> c = [] \<or> last c \<noteq> CHR 0x0D"
    using Cons.prems(2) by (cases "cs = []") auto
  from promised_chunk [OF Cons.prems(1) this, of json] Cons.IH [of "sse_chunk json st c"] Cons.prems
  show ?case by (cases "cs = []") (auto simp: sse_chunk_between_chunks)
qed simp

lemma sse_flush_promised:
  "(ss_yielded (sse_flush json st), ss_end (sse_flush json st)) = promised json (st\<lparr>ss_buffer := []\<rparr>) []"
  by (cases "flushEvent json (ss_frame st)") (simp_all add: sse_flush_def after_line_def promised_def Let_def)

lemma after_line_rest: "(after_line r b st)\<lparr>ss_buffer := b'\<rparr> = after_line r b' st"
  by (cases r; cases "snd r") (simp_all add: after_line_def Let_def)

lemma sse_finish_promised:
  assumes "between_chunks st"
  shows "(ss_yielded (sse_finish json st), ss_end (sse_finish json st)) = promised json st []"
proof (cases "ss_end st = Streaming")
  case on: True
  let ?b = "ss_buffer st"
  have lines: "stream_lines ?b = (if ?b = [] then [] else [?b])"
    using assms on by (simp add: stream_lines_cut [of ?b] cut_line_None [THEN iffD2] between_chunks_def)
  show ?thesis
  proof (cases "?b = []")
    case True
    then have "st\<lparr>ss_buffer := []\<rparr> = st" by simp
    with True on sse_flush_promised [of json st] show ?thesis by (simp add: sse_finish_def)
  next
    case False
    then have "stream_lines (?b @ []) = ?b # stream_lines ([] @ [])" using lines by simp
    from promised_after_line [OF on this] False on show ?thesis
      by (simp add: sse_finish_def sse_flush_promised after_line_rest)
  qed
qed (simp add: sse_finish_def promised_def)


definition cuts_keep_pairs :: "string list \<Rightarrow> bool" where
  "cuts_keep_pairs chunks \<longleftrightarrow> (\<forall>c \<in> set (butlast chunks). c = [] \<or> last c \<noteq> CHR 0x0D)"

lemma promised_new_stream: "promised json new_stream t = frame_events json empty_frame (stream_lines t)"
  by (simp add: promised_def new_stream_def Let_def)

lemma between_new_stream: "between_chunks new_stream"
  by (simp add: between_chunks_def new_stream_def)

lemma parse_reads_lines:
  "cuts_keep_pairs chunks \<Longrightarrow>
     parseSseEvents json chunks = frame_events json empty_frame (stream_lines (concat chunks))"
  using promised_chunks [of new_stream chunks json] sse_finish_promised [of "foldl (sse_chunk json) new_stream chunks" json]
  by (simp add: parseSseEvents_def cuts_keep_pairs_def promised_new_stream between_new_stream)

text \<open>
  C12: the cuts of the stream do not matter. If no chunk but the last ends in a carriage return, the
  parser yields and ends exactly as the reference reads the lines of the whole text, frame by frame,
  however the text was cut: errors, [DONE] and a last line without a break included.
\<close>

theorem stream_cuts_do_not_matter:
  assumes "cuts_keep_pairs chunks"
  shows "parseSseEvents json chunks = frame_events json empty_frame (stream_lines (concat chunks))"
  using assms by (rule parse_reads_lines)

definition demo_json :: "string \<Rightarrow> js_value option" where
  "demo_json s = (if s = ''1'' then Some (JNum (Fin 1)) else if starts_with s ''{'' then Some (JObject []) else None)"

lemma stream_cuts_do_not_matter_witness:
  "parseSseEvents demo_json [''data: 1'', [], [CHR 0x0D, CHR 0x0A, CHR 0x0D, CHR 0x0A] @ ''data:1'', [CHR 0x0A]]
     = ([JNum (Fin 1), JNum (Fin 1)], Ended)"
proof -
  let ?cs = "[''data: 1'', [], [CHR 0x0D, CHR 0x0A, CHR 0x0D, CHR 0x0A] @ ''data:1'', [CHR 0x0A]]"
  have "cuts_keep_pairs ?cs" by (simp add: cuts_keep_pairs_def)
  then have "parseSseEvents demo_json ?cs = frame_events demo_json empty_frame (stream_lines (concat ?cs))"
    by (rule stream_cuts_do_not_matter)
  also have "\<dots> = ([JNum (Fin 1), JNum (Fin 1)], Ended)" by code_simp
  finally show ?thesis .
qed

text \<open>Lines of a text without carriage returns.\<close>

definition sse_message :: "string \<Rightarrow> string" where
  "sse_message t = ''data: '' @ t @ [CHR 0x0A, CHR 0x0A]"

definition plain_payload :: "string \<Rightarrow> bool" where
  "plain_payload t \<longleftrightarrow> t \<noteq> [] \<and> t \<noteq> ''[DONE]'' \<and> js_trim t = t \<and> (\<forall>c \<in> set t. \<not> is_break c)"

lemma stream_lines_line: "\<forall>c \<in> set l. \<not> is_break c \<Longrightarrow> stream_lines (l @ CHR 0x0A # s) = l # stream_lines s"
  by (induction l) (auto simp: is_break_def)

lemma stream_lines_message:
  "\<forall>c \<in> set t. \<not> is_break c \<Longrightarrow> stream_lines (sse_message t @ s) = (''data: '' @ t) # [] # stream_lines s"
  using stream_lines_line [of "''data: '' @ t" "CHR 0x0A # s"] stream_lines_line [of "[]" s]
  by (simp add: sse_message_def is_break_def)

lemma receive_message:
  "\<forall>c \<in> set t. \<not> is_break c \<Longrightarrow> js_trim t \<noteq> [] \<Longrightarrow>
     frame_events json empty_frame (stream_lines (sse_message t @ s)) =
     (if js_trim t = ''[DONE]'' then ([], Ended)
      else case json (js_trim t) of
        Some v \<Rightarrow> (let rest = frame_events json empty_frame (stream_lines s) in (v # fst rest, snd rest))
      | None \<Rightarrow> ([], Threw JsonSyntaxError))"
  by (simp add: stream_lines_message parseLine_def empty_frame_def flushEvent_def Let_def starts_with_def split: option.split)

text \<open>
   what is sent is received. Messages sent as data lines, each followed by a blank line, are
  yielded in order as the values their texts parse to, in any cuts that do not follow a carriage
  return, and the stream ends at [DONE]: what comes after it is not read.
\<close>

theorem sent_events_are_received:
  assumes "cuts_keep_pairs chunks"
    and "concat chunks = concat (map (sse_message \<circ> fst) msgs) @ sse_message ''[DONE]'' @ anything"
    and "\<And>t v. (t, v) \<in> set msgs \<Longrightarrow> plain_payload t \<and> json t = Some v"
  shows "parseSseEvents json chunks = (map snd msgs, Ended)"
proof -
  have finished: "frame_events json empty_frame (stream_lines (sse_message ''[DONE]'' @ anything)) = ([], Ended)"
    by (subst receive_message) (simp_all add: is_break_def js_trim_def is_space_def)
  have "frame_events json empty_frame
      (stream_lines (concat (map (sse_message \<circ> fst) msgs) @ sse_message ''[DONE]'' @ anything)) = (map snd msgs, Ended)"
    using assms(3)
  proof (induction msgs)
    case Nil
    show ?case using finished by simp
  next
    case (Cons m ms)
    obtain t v where m: "m = (t, v)" by (cases m)
    with Cons.prems [of t v] have t: "plain_payload t" "json t = Some v" by auto
    have "frame_events json empty_frame
       (stream_lines (concat (map (sse_message \<circ> fst) ms) @ sse_message ''[DONE]'' @ anything)) = (map snd ms, Ended)"
      using Cons.prems by (intro Cons.IH) auto
    with t m show ?case
      by (simp add: receive_message plain_payload_def Let_def comp_def)
  qed
  with assms(2) parse_reads_lines [OF assms(1), of json] show ?thesis by simp
qed

lemma sent_events_are_received_witness:
  "parseSseEvents demo_json [''da'', ''ta: 1'' @ [CHR 0x0A], CHR 0x0A # ''data: {}'' @ [CHR 0x0A, CHR 0x0A] @ ''data: [DO'',
       ''NE]'' @ [CHR 0x0A, CHR 0x0A] @ ''data: ?''] = ([JNum (Fin 1), JObject []], Ended)"
  (is "parseSseEvents demo_json ?cs = _")
proof -
  have p: "plain_payload ''1''" "plain_payload ''{}''" by code_simp+
  have j: "demo_json ''1'' = Some (JNum (Fin 1))" "demo_json ''{}'' = Some (JObject [])" by code_simp+
  have "parseSseEvents demo_json ?cs = (map snd [(''1'', JNum (Fin 1)), (''{}'', JObject [])], Ended)"
  proof (rule sent_events_are_received)
    show "cuts_keep_pairs ?cs" by (simp add: cuts_keep_pairs_def)
    show "concat ?cs = concat (map (sse_message \<circ> fst) [(''1'', JNum (Fin 1)), (''{}'', JObject [])])
       @ sse_message ''[DONE]'' @ ''data: ?''" by (simp add: sse_message_def)
    show "plain_payload t \<and> demo_json t = Some v"
      if "(t, v) \<in> set [(''1'', JNum (Fin 1)), (''{}'', JObject [])]" for t v
      using that p j by auto
  qed
  then show ?thesis by simp
qed

text \<open>
  A cut inside a carriage return/line feed pair makes a blank line of the line feed: a frame of two
  lines is flushed after its first one.
\<close>

lemma cut_in_a_pair_breaks_a_frame:
  "parseSseEvents demo_json [''data: {'' @ [CHR 0x0D, CHR 0x0A] @ ''data: }'' @ [CHR 0x0D, CHR 0x0A]] \<noteq>
   parseSseEvents demo_json [''data: {'' @ [CHR 0x0D], CHR 0x0A # ''data: }'' @ [CHR 0x0D, CHR 0x0A]]"
  by code_simp

lemma cut_in_a_pair_loses_the_error:
  "parseSseEvents demo_json [''event: error'' @ [CHR 0x0D], CHR 0x0A # ''data: {}'' @ [CHR 0x0D, CHR 0x0A]]
     = ([], Threw (ProviderSseError ''Provider returned a failed stream event.''))"
  by code_simp

end
