(* ===== verification/StreamReconstructor.thy ===== *)
theory StreamReconstructor
  imports SseStream
begin

text \<open>
  Putting a streamed answer together (\<open>OpenAIStreamReconstructor\<close> of
  \<open>src/src/backend/sseParser.ts\<close>) and what can be shown of a tool call whose arguments are still
  arriving (\<open>src/src/backend/ToolInputProgress.ts\<close>).

  Parameters: \<open>json\<close> is \<open>JSON.parse\<close>, \<open>stringify\<close> is \<open>JSON.stringify\<close>
  (\<^const>\<open>None\<close> where it throws), \<open>num_text\<close> is \<open>String\<close> of a number,
  \<open>value_text\<close> that of a value that is no string. A tool's name is text, as its declared type says:
  a name of another JSON type is read as absent. Numbers of parsed JSON are never \<open>NaN\<close>.
\<close>

subsection \<open>Tool calls still being written\<close>

record tool_progress =
  tp_tool :: "string option"
  tp_target :: "string option"
  tp_bytes :: nat

definition TARGET_KEYS :: "string list" where
  "TARGET_KEYS = [''path'', ''file_path'', ''filePath'', ''target_path'', ''output_path'', ''filename'', ''file'']"

definition QUOTE :: char where
  "QUOTE = CHR 0x22"

definition BACKSLASH :: char where
  "BACKSLASH = CHR 0x5C"

text \<open>The units of a quoted text up to its closing quote, and how many there are.\<close>

fun quoted_units :: "string \<Rightarrow> (string \<times> nat) option" where
  "quoted_units [] = None"
| "quoted_units [c] = (if c = QUOTE then Some ([], 0) else None)"
| "quoted_units (c # d # s) =
     (if c = QUOTE then Some ([], 0)
      else if c = BACKSLASH
      then (if d = CHR 0x0A \<or> d = CHR 0x0D then None
            else map_option (\<lambda>(b, n). (c # d # b, n + 1)) (quoted_units s))
      else map_option (\<lambda>(b, n). (c # b, n + 1)) (quoted_units (d # s)))"

definition expect :: "char \<Rightarrow> string \<Rightarrow> string option" where
  "expect c s = (case s of [] \<Rightarrow> None | d # t \<Rightarrow> if d = c then Some t else None)"

definition target_after_key :: "string \<Rightarrow> string option" where
  "target_after_key s =
     Option.bind (expect (CHR '':'') (dropWhile is_space s)) (\<lambda>t.
     Option.bind (expect QUOTE (dropWhile is_space t)) (\<lambda>u.
     Option.bind (quoted_units u) (\<lambda>(b, n). if 1 \<le> n \<and> n \<le> 1024 then Some b else None)))"

text \<open>\<open>TARGET_KEY\<close> at the start of a text, and its first match in a text.\<close>

definition target_here :: "string \<Rightarrow> string option" where
  "target_here s =
     (case find (\<lambda>k. starts_with s (QUOTE # k @ [QUOTE])) TARGET_KEYS of
        None \<Rightarrow> None
      | Some k \<Rightarrow> target_after_key (drop (length k + 2) s))"

fun target_match :: "string \<Rightarrow> string option" where
  "target_match [] = None"
| "target_match (c # s) = (case target_here (c # s) of Some b \<Rightarrow> Some b | None \<Rightarrow> target_match s)"

definition path_pieces :: "string \<Rightarrow> string list" where
  "path_pieces v = filter (\<lambda>p. p \<noteq> []) (split_on (CHR ''/'') (map (\<lambda>c. if c = BACKSLASH then CHR ''/'' else c) v))"

definition partialArgumentTarget :: "(string \<Rightarrow> js_value option) \<Rightarrow> string \<Rightarrow> string option" where
  "partialArgumentTarget json args =
     (case target_match args of
        None \<Rightarrow> None
      | Some b \<Rightarrow>
          (case json (QUOTE # b @ [QUOTE]) of
             Some (JString v) \<Rightarrow> (let ps = path_pieces v in if ps = [] then None else Some (take 120 (last ps)))
           | _ \<Rightarrow> None))"

definition toolInputProgress :: "(string \<Rightarrow> js_value option) \<Rightarrow> string option \<Rightarrow> string \<Rightarrow> tool_progress" where
  "toolInputProgress json tool args =
     \<lparr>tp_tool = (case tool of Some t \<Rightarrow> if t = [] then None else Some (take 80 t) | None \<Rightarrow> None),
      tp_target = partialArgumentTarget json args, tp_bytes = utf8_length args\<rparr>"

definition short_text :: "nat \<Rightarrow> js_value \<Rightarrow> string option" where
  "short_text n v = (case v of JString s \<Rightarrow> if s \<noteq> [] \<and> length s \<le> n then Some s else None | _ \<Rightarrow> None)"

definition parseToolInputProgress :: "js_value \<Rightarrow> tool_progress option" where
  "parseToolInputProgress v =
     (case count_of (prop_of v ''bytes'') of
        None \<Rightarrow> None
      | Some b \<Rightarrow> if b < 0 then None
          else Some \<lparr>tp_tool = short_text 80 (prop_of v ''tool''), tp_target = short_text 120 (prop_of v ''target''),
                     tp_bytes = nat b\<rparr>)"

subsection \<open>The message under construction\<close>

fun truthy :: "js_value \<Rightarrow> bool" where
  "truthy JUndefined = False"
| "truthy JNull = False"
| "truthy (JBool b) = b"
| "truthy (JNum x) = (x \<noteq> Fin 0 \<and> x \<noteq> NaN)"
| "truthy (JString s) = (s \<noteq> [])"
| "truthy _ = True"

definition nullish :: "js_value \<Rightarrow> bool" where
  "nullish v \<longleftrightarrow> v = JUndefined \<or> v = JNull"

text \<open>\<open>===\<close> on values of separate documents: objects and arrays are never the same.\<close>

fun same_value :: "js_value \<Rightarrow> js_value \<Rightarrow> bool" where
  "same_value (JObject _) _ = False"
| "same_value (JArray _) _ = False"
| "same_value (JNum NaN) _ = False"
| "same_value a b = (a = b)"

text \<open>\<open>v?.[0]\<close>\<close>

fun first_of :: "js_value \<Rightarrow> js_value" where
  "first_of (JArray (x # _)) = x"
| "first_of (JObject ms) = member_of ms ''0''"
| "first_of (JString (c # _)) = JString [c]"
| "first_of _ = JUndefined"

definition cachedInputTokens :: "js_value \<Rightarrow> js_value" where
  "cachedInputTokens usage =
     (if \<not> truthy usage then JNum (Fin 0)
      else if \<not> nullish (prop_of usage ''prompt_cache_hit_tokens'') then prop_of usage ''prompt_cache_hit_tokens''
      else let details = prop_of (prop_of usage ''prompt_tokens_details'') ''cached_tokens''
           in if nullish details then JNum (Fin 0) else details)"

record tool_call =
  tc_id :: js_value
  tc_name :: string
  tc_arguments :: string

definition no_call :: tool_call where
  "no_call = \<lparr>tc_id = JString [], tc_name = [], tc_arguments = []\<rparr>"

record reconstructor =
  re_content :: string
  re_reasoning :: string
  re_usage :: js_value
  re_toolCalls :: "(js_num, tool_call) jsmap"
  re_lastIndex :: js_num
  re_finishReason :: "string option"
  re_id :: "string option"
  re_routerMetadata :: js_value

definition new_reconstructor :: reconstructor where
  "new_reconstructor = \<lparr>re_content = [], re_reasoning = [], re_usage = JUndefined, re_toolCalls = [],
     re_lastIndex = Fin 0, re_finishReason = None, re_id = None, re_routerMetadata = JUndefined\<rparr>"

definition appendToolCallArguments :: "(js_value \<Rightarrow> string option) \<Rightarrow> string \<Rightarrow> js_value \<Rightarrow> string" where
  "appendToolCallArguments stringify existing fragment =
     (case fragment of
        JString s \<Rightarrow> existing @ s
      | _ \<Rightarrow> (case stringify fragment of Some s \<Rightarrow> s | None \<Rightarrow> existing))"

definition resolveToolCallIndex :: "reconstructor \<Rightarrow> js_value \<Rightarrow> js_num" where
  "resolveToolCallIndex r call =
     (case prop_of call ''index'' of
        JNum n \<Rightarrow> n
      | _ \<Rightarrow>
          if re_toolCalls r = [] then Fin 0
          else let currentId = (case js_get (re_toolCalls r) (re_lastIndex r) of Some c \<Rightarrow> tc_id c | None \<Rightarrow> JUndefined);
                   callId = prop_of call ''id''
               in if truthy callId \<and> truthy currentId \<and> \<not> same_value callId currentId
                  then Fin (of_nat (length (re_toolCalls r)))
                  else re_lastIndex r)"

definition merge_call :: "(js_value \<Rightarrow> string option) \<Rightarrow> js_value \<Rightarrow> tool_call \<Rightarrow> tool_call" where
  "merge_call stringify call existing =
     (let fn = prop_of call ''function'';
          c1 = (if truthy (prop_of call ''id'') then existing\<lparr>tc_id := prop_of call ''id''\<rparr> else existing);
          c2 = (case prop_of fn ''name'' of JString (c # s) \<Rightarrow> c1\<lparr>tc_name := c # s\<rparr> | _ \<Rightarrow> c1)
      in if truthy (prop_of fn ''arguments'')
         then c2\<lparr>tc_arguments := appendToolCallArguments stringify (tc_arguments c2) (prop_of fn ''arguments'')\<rparr>
         else c2)"

definition accept_call :: "(js_value \<Rightarrow> string option) \<Rightarrow> reconstructor \<Rightarrow> js_value \<Rightarrow> reconstructor" where
  "accept_call stringify r call =
     (let index = resolveToolCallIndex r call;
          existing = (case js_get (re_toolCalls r) index of Some c \<Rightarrow> c | None \<Rightarrow> no_call)
      in r\<lparr>re_lastIndex := index, re_toolCalls := js_set index (merge_call stringify call existing) (re_toolCalls r)\<rparr>)"

text \<open>The loop over the calls of a delta; an element without properties throws, and keeps what came before.\<close>

fun accept_calls :: "(js_value \<Rightarrow> string option) \<Rightarrow> reconstructor \<Rightarrow> js_value list \<Rightarrow> reconstructor \<times> bool" where
  "accept_calls stringify r [] = (r, True)"
| "accept_calls stringify r (call # calls) =
     (if nullish call then (r, False) else accept_calls stringify (accept_call stringify r call) calls)"

record accepted =
  ac_delta :: "string option"
  ac_reasoningDelta :: "string option"
  ac_toolCallDelta :: bool
  ac_hiddenOutput :: bool

definition nothing_accepted :: accepted where
  "nothing_accepted = \<lparr>ac_delta = None, ac_reasoningDelta = None, ac_toolCallDelta = False, ac_hiddenOutput = False\<rparr>"

fun text_of_part :: "js_value \<Rightarrow> string option" where
  "text_of_part (JString s) = (if s = [] then None else Some s)"
| "text_of_part _ = None"

definition hidden_part :: "js_value \<Rightarrow> bool" where
  "hidden_part p \<longleftrightarrow> list_ex (\<lambda>k. text_of_part (prop_of p k) \<noteq> None) [''text'', ''summary'', ''data'', ''signature'']"

fun array_items :: "js_value \<Rightarrow> js_value list" where
  "array_items (JArray xs) = xs"
| "array_items _ = []"

definition shows_call :: "js_value \<Rightarrow> bool" where
  "shows_call call \<longleftrightarrow> truthy (prop_of call ''id'')
     \<or> truthy (prop_of (prop_of call ''function'') ''name'') \<or> truthy (prop_of (prop_of call ''function'') ''arguments'')"

definition accept_delta ::
    "(js_value \<Rightarrow> string option) \<Rightarrow> reconstructor \<Rightarrow> js_value \<Rightarrow> reconstructor \<times> accepted option" where
  "accept_delta stringify r delta =
     (let calls = array_items (prop_of delta ''tool_calls'') in
      case accept_calls stringify r calls of
        (r1, False) \<Rightarrow> (r1, None)
      | (r1, True) \<Rightarrow>
          (let reasoning = text_of_part (prop_of delta ''reasoning_content'');
               content = text_of_part (prop_of delta ''content'')
           in (r1\<lparr>re_reasoning := re_reasoning r1 @ (case reasoning of Some s \<Rightarrow> s | None \<Rightarrow> []),
                  re_content := re_content r1 @ (case content of Some s \<Rightarrow> s | None \<Rightarrow> [])\<rparr>,
               Some \<lparr>ac_delta = content, ac_reasoningDelta = reasoning,
                     ac_toolCallDelta = list_ex shows_call calls,
                     ac_hiddenOutput = (text_of_part (prop_of delta ''reasoning'') \<noteq> None
                        \<or> list_ex hidden_part (array_items (prop_of delta ''reasoning_details'')))\<rparr>)))"

definition note_header :: "reconstructor \<Rightarrow> js_value \<Rightarrow> reconstructor" where
  "note_header r chunk =
     (let r1 = (if truthy (prop_of chunk ''usage'') then r\<lparr>re_usage := prop_of chunk ''usage''\<rparr> else r);
          r2 = (if re_id r1 = None then r1\<lparr>re_id := text_of_part (prop_of chunk ''id'')\<rparr> else r1);
          r3 = (if prop_of chunk ''openrouter_metadata'' \<noteq> JUndefined
                then r2\<lparr>re_routerMetadata := prop_of chunk ''openrouter_metadata''\<rparr> else r2)
      in case text_of_part (prop_of (first_of (prop_of chunk ''choices'')) ''finish_reason'') of
           Some s \<Rightarrow> r3\<lparr>re_finishReason := Some s\<rparr> | None \<Rightarrow> r3)"

text \<open>\<^const>\<open>None\<close> for the result: the call threw a \<open>TypeError\<close>.\<close>

definition accept :: "(js_value \<Rightarrow> string option) \<Rightarrow> reconstructor \<Rightarrow> js_value \<Rightarrow> reconstructor \<times> accepted option" where
  "accept stringify r event =
     (case event of
        JObject _ \<Rightarrow>
          (let r1 = note_header r event; delta = prop_of (first_of (prop_of event ''choices'')) ''delta''
           in if truthy delta then accept_delta stringify r1 delta else (r1, Some nothing_accepted))
      | _ \<Rightarrow> (r, Some nothing_accepted))"

definition currentToolInput :: "(string \<Rightarrow> js_value option) \<Rightarrow> reconstructor \<Rightarrow> tool_progress option" where
  "currentToolInput json r =
     map_option (\<lambda>c. toolInputProgress json (if tc_name c = [] then None else Some (tc_name c)) (tc_arguments c))
       (js_get (re_toolCalls r) (re_lastIndex r))"

definition observed_output :: "reconstructor \<Rightarrow> js_value \<times> string" where
  "observed_output r = (re_usage r,
     re_reasoning r @ re_content r @ concat (map (\<lambda>c. tc_name c @ tc_arguments c) (js_values (re_toolCalls r))))"

text \<open>The order in which \<open>result\<close> sorts the slots.\<close>

fun num_rank :: "js_num \<Rightarrow> nat \<times> rat" where
  "num_rank NegInf = (0, 0)"
| "num_rank (Fin q) = (1, q)"
| "num_rank PosInf = (2, 0)"
| "num_rank NaN = (3, 0)"

lemma num_rank_inj [simp]: "num_rank x = num_rank y \<longleftrightarrow> x = y"
  by (cases x; cases y) simp_all

definition rank_le :: "nat \<times> rat \<Rightarrow> nat \<times> rat \<Rightarrow> bool" where
  "rank_le a b \<longleftrightarrow> fst a < fst b \<or> (fst a = fst b \<and> snd a \<le> snd b)"

instantiation js_num :: linorder
begin

definition less_eq_js_num :: "js_num \<Rightarrow> js_num \<Rightarrow> bool" where
  "less_eq_js_num x y \<longleftrightarrow> rank_le (num_rank x) (num_rank y)"

definition less_js_num :: "js_num \<Rightarrow> js_num \<Rightarrow> bool" where
  "less_js_num x y \<longleftrightarrow> x \<le> y \<and> x \<noteq> y"

instance
proof
  fix x y z :: js_num
  have anti: "x = y" if "x \<le> y" "y \<le> x"
    using that num_rank_inj [of x y]
    by (simp add: less_eq_js_num_def rank_le_def prod_eq_iff del: num_rank_inj) auto
  then show "x \<le> y \<Longrightarrow> y \<le> x \<Longrightarrow> x = y" .
  show "x < y \<longleftrightarrow> x \<le> y \<and> \<not> y \<le> x"
    using anti by (auto simp: less_js_num_def less_eq_js_num_def rank_le_def)
  show "x \<le> x" by (simp add: less_eq_js_num_def rank_le_def)
  show "x \<le> y \<Longrightarrow> y \<le> z \<Longrightarrow> x \<le> z" by (auto simp: less_eq_js_num_def rank_le_def)
  show "x \<le> y \<or> y \<le> x" by (auto simp: less_eq_js_num_def rank_le_def)
qed

end

record stream_result =
  sr_content :: "string option"
  sr_toolCalls :: "tool_call list"
  sr_reasoning :: "string option"
  sr_finishReason :: "string option"
  sr_usage :: js_value
  sr_id :: "string option"
  sr_routerMetadata :: js_value

definition result_calls :: "(js_num \<Rightarrow> string) \<Rightarrow> reconstructor \<Rightarrow> tool_call list" where
  "result_calls num_text r =
     map (\<lambda>(index, call). call\<lparr>tc_id := if truthy (tc_id call) then tc_id call else JString (''tool_'' @ num_text index)\<rparr>)
       (sort_key fst (re_toolCalls r))"

definition result_of :: "(js_num \<Rightarrow> string) \<Rightarrow> reconstructor \<Rightarrow> stream_result" where
  "result_of num_text r =
     (let calls = result_calls num_text r in
      \<lparr>sr_content = (if re_content r \<noteq> [] then Some (re_content r) else if calls \<noteq> [] then None else Some []),
       sr_toolCalls = calls,
       sr_reasoning = (if re_reasoning r = [] then None else Some (re_reasoning r)),
       sr_finishReason = re_finishReason r, sr_usage = re_usage r, sr_id = re_id r,
       sr_routerMetadata = re_routerMetadata r\<rparr>)"

section \<open>What is shown is what is kept\<close>

text \<open>Accepting the events of a stream, up to one that throws.\<close>

fun accept_all :: "(js_value \<Rightarrow> string option) \<Rightarrow> reconstructor \<Rightarrow> js_value list \<Rightarrow> reconstructor \<times> accepted list" where
  "accept_all stringify r [] = (r, [])"
| "accept_all stringify r (e # es) =
     (case accept stringify r e of
        (r1, None) \<Rightarrow> (r1, [])
      | (r1, Some a) \<Rightarrow> (let rest = accept_all stringify r1 es in (fst rest, a # snd rest)))"

definition shown :: "(accepted \<Rightarrow> string option) \<Rightarrow> accepted list \<Rightarrow> string" where
  "shown part as = concat (map (\<lambda>a. case part a of Some s \<Rightarrow> s | None \<Rightarrow> []) as)"

text \<open>What an operation leaves alone.\<close>

lemma note_header_frame [simp]:
  "re_content (note_header r c) = re_content r" "re_reasoning (note_header r c) = re_reasoning r"
  "re_toolCalls (note_header r c) = re_toolCalls r" "re_lastIndex (note_header r c) = re_lastIndex r"
  by (simp_all add: note_header_def Let_def split: option.split)

lemma accept_call_frame [simp]:
  "re_content (accept_call stringify r c) = re_content r" "re_reasoning (accept_call stringify r c) = re_reasoning r"
  by (simp_all add: accept_call_def Let_def)

lemma accept_calls_frame [simp]:
  "re_content (fst (accept_calls stringify r cs)) = re_content r"
  "re_reasoning (fst (accept_calls stringify r cs)) = re_reasoning r"
  by (induction cs arbitrary: r) simp_all

lemma accept_delta_text:
  "re_content (fst (accept_delta stringify r d)) =
     re_content r @ shown ac_delta (case snd (accept_delta stringify r d) of Some a \<Rightarrow> [a] | None \<Rightarrow> [])"
  "re_reasoning (fst (accept_delta stringify r d)) =
     re_reasoning r @ shown ac_reasoningDelta (case snd (accept_delta stringify r d) of Some a \<Rightarrow> [a] | None \<Rightarrow> [])"
  using accept_calls_frame [of stringify r "array_items (prop_of d ''tool_calls'')"]
  by (cases "accept_calls stringify r (array_items (prop_of d ''tool_calls''))";
      cases "snd (accept_calls stringify r (array_items (prop_of d ''tool_calls'')))";
      simp add: accept_delta_def shown_def Let_def)+

lemma accept_text:
  "re_content (fst (accept stringify r e)) =
     re_content r @ shown ac_delta (case snd (accept stringify r e) of Some a \<Rightarrow> [a] | None \<Rightarrow> [])"
  "re_reasoning (fst (accept stringify r e)) =
     re_reasoning r @ shown ac_reasoningDelta (case snd (accept stringify r e) of Some a \<Rightarrow> [a] | None \<Rightarrow> [])"
  by (cases e; simp add: accept_def Let_def accept_delta_text; simp add: shown_def nothing_accepted_def)+

lemma accept_all_text:
  "re_content (fst (accept_all stringify r es)) = re_content r @ shown ac_delta (snd (accept_all stringify r es))
   \<and> re_reasoning (fst (accept_all stringify r es)) = re_reasoning r @ shown ac_reasoningDelta (snd (accept_all stringify r es))"
proof (induction es arbitrary: r)
  case (Cons e es)
  obtain r1 a where acc: "accept stringify r e = (r1, a)" by (cases "accept stringify r e")
  from accept_text [of stringify r e] acc Cons.IH [of r1]
  show ?case by (cases a) (simp_all add: shown_def Let_def)
qed (simp add: shown_def)

text \<open>
   the text of the final message is the text that was shown. Over any events, also up to one that
  throws, the content and the reasoning of the result are the concatenations of the deltas the
  caller was given.
\<close>

theorem kept_text_is_the_shown_text:
  "let r = accept_all stringify new_reconstructor es; res = result_of num_text (fst r)
   in (case sr_content res of Some s \<Rightarrow> s | None \<Rightarrow> []) = shown ac_delta (snd r)
      \<and> (case sr_reasoning res of Some s \<Rightarrow> s | None \<Rightarrow> []) = shown ac_reasoningDelta (snd r)"
  using accept_all_text [of stringify new_reconstructor es]
  by (simp add: result_of_def Let_def new_reconstructor_def)

section \<open>Tool calls arriving in pieces\<close>

text \<open>
  The reference, over all the pieces seen so far, each with its slot. A piece belongs to the slot it names. One that
  names none belongs to slot 0 when it is the first, and else to the slot of the piece before it, unless it brings an
  id and that slot was given another: then it opens the slot numbered by how many there are.
\<close>

definition ids_given :: "(js_num \<times> js_value) list \<Rightarrow> js_num \<Rightarrow> js_value list" where
  "ids_given seen k = filter truthy (map (\<lambda>p. prop_of (snd p) ''id'') (filter (\<lambda>p. fst p = k) seen))"

definition next_slot :: "(js_num \<times> js_value) list \<Rightarrow> js_value \<Rightarrow> js_num" where
  "next_slot seen call = (case prop_of call ''index'' of
       JNum n \<Rightarrow> n
     | _ \<Rightarrow> if seen = [] then Fin 0
            else let before = fst (last seen); given = ids_given seen before; own = prop_of call ''id''
                 in if truthy own \<and> given \<noteq> [] \<and> \<not> same_value own (last given)
                    then Fin (of_nat (length (remdups (map fst seen)))) else before)"

definition place_pieces :: "(js_num \<times> js_value) list \<Rightarrow> js_value list \<Rightarrow> (js_num \<times> js_value) list" where
  "place_pieces = foldl (\<lambda>seen call. seen @ [(next_slot seen call, call)])"

definition piece_text :: "js_value \<Rightarrow> string" where
  "piece_text call = (case prop_of (prop_of call ''function'') ''arguments'' of JString s \<Rightarrow> s | _ \<Rightarrow> [])"

definition pieces_for :: "js_num \<Rightarrow> (js_num \<times> js_value) list \<Rightarrow> string" where
  "pieces_for k ps = concat (map (piece_text \<circ> snd) (filter (\<lambda>p. fst p = k) ps))"

text \<open>A piece as the protocol sends it: it is no null, and its arguments, when it has any, are text.\<close>

definition text_piece :: "js_value \<Rightarrow> bool" where
  "text_piece call \<longleftrightarrow> \<not> nullish call
     \<and> (text_such (\<lambda>s. True) (prop_of (prop_of call ''function'') ''arguments'')
        \<or> \<not> truthy (prop_of (prop_of call ''function'') ''arguments''))"

definition arguments_at :: "reconstructor \<Rightarrow> js_num \<Rightarrow> string" where
  "arguments_at r k = (case js_get (re_toolCalls r) k of Some c \<Rightarrow> tc_arguments c | None \<Rightarrow> [])"

definition id_at :: "reconstructor \<Rightarrow> js_num \<Rightarrow> js_value" where
  "id_at r k = (case js_get (re_toolCalls r) k of Some c \<Rightarrow> tc_id c | None \<Rightarrow> JString [])"

definition slot_id :: "(js_num \<times> js_value) list \<Rightarrow> js_num \<Rightarrow> js_value" where
  "slot_id seen k = (if ids_given seen k = [] then JString [] else last (ids_given seen k))"

text \<open>The reconstructor holds the pieces seen.\<close>

definition holds_pieces :: "reconstructor \<Rightarrow> (js_num \<times> js_value) list \<Rightarrow> bool" where
  "holds_pieces r seen \<longleftrightarrow> (seen \<noteq> [] \<longrightarrow> re_lastIndex r = fst (last seen))
     \<and> (\<forall>k. js_has (re_toolCalls r) k \<longleftrightarrow> k \<in> fst ` set seen)
     \<and> length (re_toolCalls r) = length (remdups (map fst seen))
     \<and> (\<forall>k. arguments_at r k = pieces_for k seen) \<and> (\<forall>k. id_at r k = slot_id seen k)"

lemma ids_given_truthy: "x \<in> set (ids_given seen k) \<Longrightarrow> truthy x"
  by (auto simp: ids_given_def)

lemma ids_given_snoc:
  "ids_given (seen @ [(n, c)]) k
     = ids_given seen k @ (if n = k \<and> truthy (prop_of c ''id'') then [prop_of c ''id''] else [])"
  by (simp add: ids_given_def)

lemma pieces_for_snoc: "pieces_for k (seen @ [(n, c)]) = pieces_for k seen @ (if n = k then piece_text c else [])"
  by (simp add: pieces_for_def)

lemma js_set_length: "length (js_set k v m) = (if js_has m k then length m else Suc (length m))"
  by (induction m) auto

lemma resolve_next_slot:
  assumes "holds_pieces r seen"
  shows "resolveToolCallIndex r c = next_slot seen c"
proof -
  have n: "length (re_toolCalls r) = length (remdups (map fst seen))" using assms by (simp add: holds_pieces_def)
  then have empty: "re_toolCalls r = [] \<longleftrightarrow> seen = []" by (metis length_0_conv map_is_Nil_conv remdups_eq_nil_iff)
  show ?thesis
  proof (cases "seen = []")
    case True
    then show ?thesis using empty by (simp add: resolveToolCallIndex_def next_slot_def split: js_value.split)
  next
    case False
    let ?k = "fst (last seen)"
    have last_one: "re_lastIndex r = ?k" using assms False by (simp add: holds_pieces_def)
    have "?k \<in> fst ` set seen" using False by (metis image_eqI last_in_set)
    then have "js_has (re_toolCalls r) ?k" using assms by (simp add: holds_pieces_def)
    then obtain call where call: "js_get (re_toolCalls r) ?k = Some call" by (cases "js_get (re_toolCalls r) ?k") simp_all
    have "id_at r ?k = slot_id seen ?k" using assms by (simp add: holds_pieces_def)
    then have own: "tc_id call = slot_id seen ?k" by (simp add: id_at_def call)
    have some: "truthy (slot_id seen ?k) \<longleftrightarrow> ids_given seen ?k \<noteq> []"
      using ids_given_truthy [OF last_in_set, of seen ?k] by (auto simp: slot_id_def)
    have "(truthy (prop_of c ''id'') \<and> truthy (slot_id seen ?k) \<and> \<not> same_value (prop_of c ''id'') (slot_id seen ?k))
        \<longleftrightarrow> truthy (prop_of c ''id'') \<and> ids_given seen ?k \<noteq> [] \<and> \<not> same_value (prop_of c ''id'') (last (ids_given seen ?k))"
      unfolding some by (auto simp: slot_id_def)
    then show ?thesis
      using False empty call own last_one n
      by (simp add: resolveToolCallIndex_def next_slot_def Let_def split: js_value.split)
  qed
qed

lemma merge_call_arguments:
  "text_piece c \<Longrightarrow> tc_arguments (merge_call stringify c e) = tc_arguments e @ piece_text c"
  by (cases "prop_of (prop_of c ''function'') ''arguments''")
    (auto simp: merge_call_def text_piece_def piece_text_def appendToolCallArguments_def Let_def
      split: js_value.split list.split)

lemma merge_call_id: "tc_id (merge_call stringify c e) = (if truthy (prop_of c ''id'') then prop_of c ''id'' else tc_id e)"
  by (simp add: merge_call_def Let_def split: js_value.split list.split)

lemma accept_call_holds:
  assumes "text_piece c" and held: "holds_pieces r seen"
  shows "holds_pieces (accept_call stringify r c) (seen @ [(next_slot seen c, c)])"
proof -
  let ?n = "next_slot seen c"
  let ?old = "case js_get (re_toolCalls r) ?n of Some c \<Rightarrow> c | None \<Rightarrow> no_call"
  have acc: "re_lastIndex (accept_call stringify r c) = ?n"
    "re_toolCalls (accept_call stringify r c) = js_set ?n (merge_call stringify c ?old) (re_toolCalls r)"
    by (simp_all add: accept_call_def Let_def resolve_next_slot [OF held])
  have args: "arguments_at r k = pieces_for k seen" and ids: "id_at r k = slot_id seen k"
    and has: "js_has (re_toolCalls r) k \<longleftrightarrow> k \<in> fst ` set seen" for k
    using held by (simp_all add: holds_pieces_def)
  have old: "tc_arguments ?old = pieces_for ?n seen" "tc_id ?old = slot_id seen ?n"
    using args [of ?n] ids [of ?n] by (auto simp: arguments_at_def id_at_def no_call_def split: option.splits)
  have "arguments_at (accept_call stringify r c) k = pieces_for k (seen @ [(?n, c)])" for k
    using args [of k] old(1) merge_call_arguments [OF assms(1)]
    by (cases "?n = k") (simp_all add: arguments_at_def acc pieces_for_snoc)
  moreover have "id_at (accept_call stringify r c) k = slot_id (seen @ [(?n, c)]) k" for k
    using ids [of k] old(2) by (cases "?n = k") (simp_all add: id_at_def acc merge_call_id slot_id_def ids_given_snoc)
  moreover have "length (re_toolCalls (accept_call stringify r c)) = length (remdups (map fst (seen @ [(?n, c)])))"
    using held has [of ?n] by (simp add: acc js_set_length holds_pieces_def length_remdups_card_conv insert_absorb image_set [symmetric])
  ultimately show ?thesis using has by (auto simp: holds_pieces_def acc js_has_iff)
qed

lemma accept_calls_holds:
  "\<forall>c \<in> set cs. text_piece c \<Longrightarrow> holds_pieces r seen \<Longrightarrow>
     snd (accept_calls stringify r cs) \<and> holds_pieces (fst (accept_calls stringify r cs)) (place_pieces seen cs)"
proof (induction cs arbitrary: r seen)
  case (Cons c cs)
  then have c: "text_piece c" "\<not> nullish c" by (auto simp: text_piece_def)
  from Cons.IH [OF _ accept_call_holds [OF c(1) Cons.prems(2)]] Cons.prems(1) c(2) show ?case by (simp add: place_pieces_def)
qed (simp add: place_pieces_def)

definition calls_of :: "js_value \<Rightarrow> js_value list" where
  "calls_of e = (case e of
     JObject _ \<Rightarrow> array_items (prop_of (prop_of (first_of (prop_of e ''choices'')) ''delta'') ''tool_calls'')
   | _ \<Rightarrow> [])"

lemma calls_of_falsy: "\<not> truthy d \<Longrightarrow> array_items (prop_of d ''tool_calls'') = []"
  by (cases d) (simp_all add: member_of_def)

lemma holds_pieces_cong:
  "re_toolCalls r = re_toolCalls r' \<Longrightarrow> re_lastIndex r = re_lastIndex r' \<Longrightarrow> holds_pieces r seen = holds_pieces r' seen"
  by (simp add: holds_pieces_def arguments_at_def id_at_def)

lemma accept_delta_calls:
  "re_toolCalls (fst (accept_delta stringify r d)) = re_toolCalls (fst (accept_calls stringify r (array_items (prop_of d ''tool_calls''))))"
  "re_lastIndex (fst (accept_delta stringify r d)) = re_lastIndex (fst (accept_calls stringify r (array_items (prop_of d ''tool_calls''))))"
  "snd (accept_delta stringify r d) \<noteq> None \<longleftrightarrow> snd (accept_calls stringify r (array_items (prop_of d ''tool_calls'')))"
  by (cases "accept_calls stringify r (array_items (prop_of d ''tool_calls''))";
      cases "snd (accept_calls stringify r (array_items (prop_of d ''tool_calls'')))";
      simp add: accept_delta_def Let_def)+

lemma accept_holds:
  assumes "\<forall>c \<in> set (calls_of e). text_piece c" and held: "holds_pieces r seen"
  shows "snd (accept stringify r e) \<noteq> None \<and> holds_pieces (fst (accept stringify r e)) (place_pieces seen (calls_of e))"
proof (cases "\<exists>ms. e = JObject ms")
  case True
  then obtain ms where e: "e = JObject ms" by blast
  define d where "d = prop_of (first_of (prop_of e ''choices'')) ''delta''"
  have calls: "calls_of e = array_items (prop_of d ''tool_calls'')" by (simp add: calls_of_def e d_def)
  have header: "holds_pieces (note_header r e) seen" using held holds_pieces_cong [of "note_header r e" r] by simp
  show ?thesis
  proof (cases "truthy d")
    case True
    from accept_calls_holds [OF assms(1) header, of stringify]
    have "snd (accept_delta stringify (note_header r e) d) \<noteq> None
      \<and> holds_pieces (fst (accept_delta stringify (note_header r e) d)) (place_pieces seen (calls_of e))"
      unfolding calls accept_delta_calls(3) holds_pieces_cong [OF accept_delta_calls(1,2)] .
    moreover have "accept stringify r e = accept_delta stringify (note_header r e) d"
      using True by (simp add: accept_def e d_def Let_def)
    ultimately show ?thesis by simp
  next
    case False
    then have "accept stringify r e = (note_header r e, Some nothing_accepted)"
      by (simp add: accept_def e d_def Let_def)
    with calls calls_of_falsy [OF False] header show ?thesis by (simp add: place_pieces_def)
  qed
next
  case False
  then have "accept stringify r e = (r, Some nothing_accepted)" "calls_of e = []"
    by (cases e; simp add: accept_def calls_of_def)+
  with held show ?thesis by (simp add: place_pieces_def)
qed

lemma accept_all_holds:
  "\<forall>e \<in> set es. \<forall>c \<in> set (calls_of e). text_piece c \<Longrightarrow> holds_pieces r seen \<Longrightarrow>
     length (snd (accept_all stringify r es)) = length es
   \<and> holds_pieces (fst (accept_all stringify r es)) (place_pieces seen (concat (map calls_of es)))"
proof (induction es arbitrary: r seen)
  case (Cons e es)
  obtain r1 a where acc: "accept stringify r e = (r1, a)" by (cases "accept stringify r e")
  have "\<forall>c \<in> set (calls_of e). text_piece c" using Cons.prems(1) by simp
  from accept_holds [OF this Cons.prems(2), of stringify] acc
  obtain b where a: "a = Some b" and step: "holds_pieces r1 (place_pieces seen (calls_of e))" by auto
  from Cons.IH [OF _ step] Cons.prems(1) show ?case by (simp add: acc a Let_def place_pieces_def)
qed (simp add: place_pieces_def)

text \<open>
  C13: tool calls arriving in pieces are put together. Over events none of whose pieces is null and all of whose
  argument fragments are text, nothing throws, and the slots are exactly those the pieces belong to: a piece
  with an index belongs to the slot it names; one without belongs to the slot of the piece before it, unless it
  brings an id other than the last one that slot was given: then it belongs to the slot numbered by how many slots
  there are, a new one as long as they are numbered from 0 on. The arguments of each slot are the fragments of
  its pieces in order, and its id is the last one given to it. (A null piece makes the code throw, and an
  argument that is no text replaces what came before it.)
\<close>

theorem streamed_arguments_are_put_together:
  assumes "\<forall>e \<in> set es. \<forall>c \<in> set (calls_of e). text_piece c"
  shows "let r = accept_all stringify new_reconstructor es; pieces = place_pieces [] (concat (map calls_of es))
         in length (snd r) = length es
          \<and> fst ` set (re_toolCalls (fst r)) = fst ` set pieces
          \<and> (\<forall>k. arguments_at (fst r) k = pieces_for k pieces \<and> id_at (fst r) k = slot_id pieces k)"
proof -
  have "holds_pieces new_reconstructor []"
    by (simp add: holds_pieces_def new_reconstructor_def arguments_at_def id_at_def pieces_for_def slot_id_def ids_given_def)
  from accept_all_holds [OF assms this, of stringify]
  have all: "length (snd (accept_all stringify new_reconstructor es)) = length es"
    and held: "holds_pieces (fst (accept_all stringify new_reconstructor es)) (place_pieces [] (concat (map calls_of es)))"
    by simp_all
  have "js_has (re_toolCalls (fst (accept_all stringify new_reconstructor es))) k
      \<longleftrightarrow> k \<in> fst ` set (place_pieces [] (concat (map calls_of es)))" for k
    using held by (simp add: holds_pieces_def)
  then have "fst ` set (re_toolCalls (fst (accept_all stringify new_reconstructor es)))
      = fst ` set (place_pieces [] (concat (map calls_of es)))"
    unfolding js_has_iff by blast
  moreover have "\<forall>k. arguments_at (fst (accept_all stringify new_reconstructor es)) k = pieces_for k (place_pieces [] (concat (map calls_of es)))
      \<and> id_at (fst (accept_all stringify new_reconstructor es)) k = slot_id (place_pieces [] (concat (map calls_of es))) k"
    using held by (simp add: holds_pieces_def)
  ultimately show ?thesis using all unfolding Let_def by (intro conjI)
qed

text \<open>A call named at slot 1, another at slot 0, a piece without an index, and one without an index but with an id of its own.\<close>

definition demo_piece :: "(string \<times> js_value) list \<Rightarrow> string \<Rightarrow> js_value" where
  "demo_piece header a = JObject [(''choices'', JArray [JObject [(''delta'',
     JObject [(''tool_calls'', JArray [JObject (header @ [(''function'', JObject [(''arguments'', JString a)])])])])]])]"

definition demo_stream :: "js_value list" where
  "demo_stream = [demo_piece [(''index'', JNum (Fin 1)), (''id'', JString ''a'')] ''{'',
     demo_piece [(''index'', JNum (Fin 0)), (''id'', JString ''b'')] ''['',
     demo_piece [] '']'', demo_piece [(''id'', JString ''c'')] ''1'', demo_piece [(''index'', JNum (Fin 1))] ''}'']"

lemma streamed_arguments_are_put_together_witness:
  "arguments_at (fst (accept_all (\<lambda>v. None) new_reconstructor demo_stream)) (Fin 1) = ''{}''
   \<and> arguments_at (fst (accept_all (\<lambda>v. None) new_reconstructor demo_stream)) (Fin 0) = ''[]''
   \<and> arguments_at (fst (accept_all (\<lambda>v. None) new_reconstructor demo_stream)) (Fin 2) = ''1''"
proof -
  have "\<forall>e \<in> set demo_stream. \<forall>c \<in> set (calls_of e). text_piece c"
    by (simp add: demo_stream_def calls_of_def demo_piece_def text_piece_def nullish_def member_of_def)
  from streamed_arguments_are_put_together [OF this, of "\<lambda>v. None"]
  have at: "arguments_at (fst (accept_all (\<lambda>v. None) new_reconstructor demo_stream)) k
     = pieces_for k (place_pieces [] (concat (map calls_of demo_stream)))" for k
    unfolding Let_def by blast
  have "pieces_for (Fin 1) (place_pieces [] (concat (map calls_of demo_stream))) = ''{}''"
    "pieces_for (Fin 0) (place_pieces [] (concat (map calls_of demo_stream))) = ''[]''"
    "pieces_for (Fin 2) (place_pieces [] (concat (map calls_of demo_stream))) = ''1''"
    by code_simp+
  then show ?thesis unfolding at by (intro conjI)
qed

text \<open>
  Where the slots are not numbered from 0 on, the slot numbered by their count may be taken: a call that came with the
  index 1 and one that only has another id become one call, with the second id and both arguments.
\<close>

lemma counted_slot_may_be_taken:
  "let r = fst (accept_all (\<lambda>v. None) new_reconstructor
      [demo_piece [(''index'', JNum (Fin 1)), (''id'', JString ''a'')] ''{}'', demo_piece [(''id'', JString ''b'')] ''[]''])
   in length (re_toolCalls r) = 1 \<and> arguments_at r (Fin 1) = ''{}[]'' \<and> id_at r (Fin 1) = JString ''b''"
  by code_simp

end
