(* ===== verification/TaskClaims.thy ===== *)
theory TaskClaims
  imports Prelude
begin

text \<open>
  File ownership of tasks that run in parallel (\<open>src/src/backend/TaskClaimRegistry.ts\<close>): the
  comparison of path patterns, and the registry of claims. A listener of releases is known by a number;
  releasing returns the listeners that are called.
\<close>

subsection \<open>Path patterns\<close>

definition drop_trailing :: "char \<Rightarrow> string \<Rightarrow> string" where
  "drop_trailing c s = rev (dropWhile (\<lambda>d. d = c) (rev s))"

definition normalize :: "string \<Rightarrow> string" where
  "normalize p =
     (let s = map (\<lambda>c. if c = CHR 0x5C then CHR ''/'' else c) (js_trim p);
          s1 = (if starts_with s ''./'' then drop 2 s else s)
      in js_lower (drop_trailing (CHR ''/'') s1))"

definition baseOf :: "string \<Rightarrow> string" where
  "baseOf spec =
     (let s = normalize spec;
          s1 = (if ends_with s ''/**'' then take (length s - 3) s
                else if ends_with s ''/*'' then take (length s - 2) s
                else if ends_with s ''*'' then drop_trailing (CHR ''*'') s
                else s)
      in drop_trailing (CHR ''/'') s1)"

definition pathsOverlap :: "string \<Rightarrow> string \<Rightarrow> bool" where
  "pathsOverlap a b =
     (let na = baseOf a; nb = baseOf b
      in if na = [] \<or> nb = [] then True
         else na = nb \<or> starts_with na (nb @ ''/'') \<or> starts_with nb (na @ ''/''))"

subsection \<open>The registry\<close>

record active_claim =
  cl_agentId :: string
  cl_paths :: "string list"
  cl_instruction :: "string option"

record claim_registry =
  cr_claims :: "(string, active_claim) jsmap"
  cr_releaseListeners :: "nat list"

definition new_registry :: claim_registry where
  "new_registry = \<lparr>cr_claims = [], cr_releaseListeners = []\<rparr>"

text \<open>A refusal lists the overlaps.\<close>

datatype claim_result = ClaimOk | Conflicts "string list"

definition wanted_paths :: "string list \<Rightarrow> string list" where
  "wanted_paths paths = filter (\<lambda>p. p \<noteq> []) (map js_trim paths)"

definition conflict_text :: "string \<Rightarrow> string \<Rightarrow> active_claim \<Rightarrow> string" where
  "conflict_text mine otherTask held =
     mine @ '' (overlaps in-flight task '' @ otherTask @ '' held by '' @ cl_agentId held
       @ (case cl_instruction held of Some i \<Rightarrow> '': '' @ i | None \<Rightarrow> []) @ '')''"

definition conflicts_with :: "string list \<Rightarrow> string \<times> active_claim \<Rightarrow> string list" where
  "conflicts_with wanted other = (case other of (otherTask, held) \<Rightarrow>
     concat (map (\<lambda>mine. map (\<lambda>theirs. conflict_text mine otherTask held)
                             (filter (pathsOverlap mine) (cl_paths held))) wanted))"

definition check_claim :: "claim_registry \<Rightarrow> string \<Rightarrow> string list \<Rightarrow> claim_result" where
  "check_claim r taskId paths =
     (let wanted = wanted_paths paths in
      if wanted = [] then ClaimOk
      else let conflicts = concat (map (conflicts_with wanted) (filter (\<lambda>p. fst p \<noteq> taskId) (cr_claims r)))
           in if conflicts = [] then ClaimOk else Conflicts (foldl (\<lambda>xs x. set_add x xs) [] conflicts))"

definition claim_text :: "string option \<Rightarrow> string option" where
  "claim_text instruction = (case instruction of
     None \<Rightarrow> None
   | Some i \<Rightarrow> (let s = take 160 (js_trim i) in if s = [] then None else Some s))"

definition claim :: "claim_registry \<Rightarrow> string \<Rightarrow> string \<Rightarrow> string list \<Rightarrow> string option \<Rightarrow> claim_registry \<times> claim_result" where
  "claim r taskId agentId paths instruction =
     (let wanted = wanted_paths paths in
      case check_claim r taskId wanted of
        Conflicts cs \<Rightarrow> (r, Conflicts cs)
      | ClaimOk \<Rightarrow>
          if wanted = [] then (r, ClaimOk)
          else (r\<lparr>cr_claims := js_set taskId
                   \<lparr>cl_agentId = agentId, cl_paths = wanted, cl_instruction = claim_text instruction\<rparr> (cr_claims r)\<rparr>,
                ClaimOk))"

definition release_claim :: "claim_registry \<Rightarrow> string \<Rightarrow> claim_registry \<times> nat list" where
  "release_claim r taskId =
     (if js_has (cr_claims r) taskId
      then (r\<lparr>cr_claims := js_delete taskId (cr_claims r)\<rparr>, cr_releaseListeners r)
      else (r, []))"

definition onRelease :: "claim_registry \<Rightarrow> nat \<Rightarrow> claim_registry" where
  "onRelease r listener = r\<lparr>cr_releaseListeners := set_add listener (cr_releaseListeners r)\<rparr>"

definition offRelease :: "claim_registry \<Rightarrow> nat \<Rightarrow> claim_registry" where
  "offRelease r listener = r\<lparr>cr_releaseListeners := removeAll listener (cr_releaseListeners r)\<rparr>"

definition activeClaims :: "claim_registry \<Rightarrow> (string \<times> string \<times> string list) list" where
  "activeClaims r = map (\<lambda>(taskId, c). (taskId, cl_agentId c, cl_paths c)) (cr_claims r)"

section \<open>One owner for every path\<close>

text \<open>
  What a pattern covers, said over the names a path consists of and without the comparison above: white
  space around the text, the direction of slashes, a leading \<open>./\<close>, trailing slashes and the case of
  letters do not matter. A path, \<open>dir/*\<close> and \<open>dir/**\<close> cover the file or folder named and all
  below it, and a star or two stars alone cover everything. Patterns with a star anywhere else are no
  directory patterns and are counted as covering nothing.
\<close>

definition path_names :: "string \<Rightarrow> string list" where
  "path_names s =
     (let names = split_on (CHR ''/'') (js_lower (map (\<lambda>c. if c = CHR 0x5C then CHR ''/'' else c) (js_trim s)));
          inner = (if hd names = ''.'' \<and> tl names \<noteq> [] then tl names else names)
      in rev (dropWhile (\<lambda>x. x = []) (rev inner)))"

definition pattern_dir :: "string \<Rightarrow> string list" where
  "pattern_dir spec =
     (let names = path_names spec
      in if names \<noteq> [] \<and> last names \<in> {''*'', ''**''}
         then rev (dropWhile (\<lambda>x. x = []) (rev (butlast names))) else names)"

definition directory_pattern :: "string \<Rightarrow> bool" where
  "directory_pattern spec \<longleftrightarrow> list_all (\<lambda>x. CHR ''*'' \<notin> set x) (pattern_dir spec)"

definition covers :: "string \<Rightarrow> string \<Rightarrow> bool" where
  "covers spec path \<longleftrightarrow> directory_pattern spec
     \<and> take (length (pattern_dir spec)) (path_names path) = pattern_dir spec"

definition owners :: "claim_registry \<Rightarrow> string \<Rightarrow> string list" where
  "owners r path = map fst (filter (\<lambda>c. list_ex (\<lambda>p. covers p path) (cl_paths (snd c))) (cr_claims r))"

datatype claim_op =
    Claim string string "string list" "string option" | Release string | Subscribe nat | Unsubscribe nat

fun claim_step :: "claim_registry \<Rightarrow> claim_op \<Rightarrow> claim_registry" where
  "claim_step r (Claim t a ps i) = fst (claim r t a ps i)"
| "claim_step r (Release t) = fst (release_claim r t)"
| "claim_step r (Subscribe l) = onRelease r l"
| "claim_step r (Unsubscribe l) = offRelease r l"

lemma pathsOverlap_sym: "pathsOverlap a b \<longleftrightarrow> pathsOverlap b a"
  by (auto simp: pathsOverlap_def Let_def)

text \<open>The comparison reduces a directory pattern to the names of its directory.\<close>

lemma lower_below: "(of_char d :: nat) < 97 \<Longrightarrow> \<not> (65 \<le> (of_char d :: nat) \<and> (of_char d :: nat) \<le> 90) \<Longrightarrow> lower_char c = d \<longleftrightarrow> c = d"
proof -
  assume low: "(of_char d :: nat) < 97" and no: "\<not> (65 \<le> (of_char d :: nat) \<and> (of_char d :: nat) \<le> 90)"
  let ?n = "of_char c :: nat"
  have "(of_char (lower_char c) :: nat) \<ge> 97 \<or> lower_char c = c"
    by (auto simp: lower_char_def Let_def)
  moreover have "lower_char d = d" using low no by (auto simp: lower_char_def Let_def)
  ultimately show "lower_char c = d \<longleftrightarrow> c = d" using low by auto
qed

lemma lower_slash: "lower_char c = CHR ''/'' \<longleftrightarrow> c = CHR ''/''"
  by (rule lower_below) simp_all

lemma lower_dot: "lower_char c = CHR ''.'' \<longleftrightarrow> c = CHR ''.''"
  by (rule lower_below) simp_all

lemma lower_drop_slashes: "js_lower (drop_trailing (CHR ''/'') s) = drop_trailing (CHR ''/'') (js_lower s)"
  by (simp add: drop_trailing_def js_lower_def rev_map dropWhile_map comp_def lower_slash)

lemma lower_start: "starts_with (js_lower s) ''./'' \<longleftrightarrow> starts_with s ''./''"
  by (cases s; cases "tl s") (auto simp: starts_with_def js_lower_def lower_slash lower_dot)

lemma join_split_slash: "join_with ''/'' (split_on (CHR ''/'') s) = s"
proof (induction s)
  case (Cons c s)
  then show ?case by (cases "split_on (CHR ''/'') s") (auto simp: join_with_Cons)
qed simp

lemma split_plain: "x \<in> set (split_on d s) \<Longrightarrow> d \<notin> set x"
proof (induction s arbitrary: x)
  case (Cons c s)
  then show ?case by (cases "split_on d s") (auto split: if_splits)
qed simp

lemma join_snoc: "join_with sep (xs @ [x]) = (if xs = [] then x else join_with sep xs @ sep @ x)"
  by (induction xs) (auto simp: join_with_Cons)

lemma join_append: "xs \<noteq> [] \<Longrightarrow> ys \<noteq> [] \<Longrightarrow> join_with sep (xs @ ys) = join_with sep xs @ sep @ join_with sep ys"
  by (induction xs) (auto simp: join_with_Cons)

lemma drop_trailing_snoc:
  "drop_trailing c (s @ [d]) = (if d = c then drop_trailing c s else s @ [d])"
  by (simp add: drop_trailing_def)

lemma drop_trailing_join:
  assumes "\<forall>x \<in> set xs. CHR ''/'' \<notin> set x"
  shows "drop_trailing (CHR ''/'') (join_with ''/'' xs) = join_with ''/'' (rev (dropWhile (\<lambda>x. x = []) (rev xs)))"
  using assms
proof (induction xs rule: rev_induct)
  case Nil
  show ?case by (simp add: drop_trailing_def)
next
  case (snoc x xs)
  show ?case
  proof (cases "x = []")
    case True
    then show ?thesis using snoc by (cases "xs = []") (simp_all add: join_snoc drop_trailing_snoc drop_trailing_def)
  next
    case False
    then obtain y d where x: "x = y @ [d]" by (metis rev_exhaust)
    moreover have "d \<noteq> CHR ''/''" using snoc.prems x by auto
    moreover have "join_with ''/'' (xs @ [x]) = (if xs = [] then y else join_with ''/'' xs @ ''/'' @ y) @ [d]"
      by (simp add: join_snoc x)
    ultimately show ?thesis by (simp add: drop_trailing_snoc False del: append_assoc)
  qed
qed

lemma path_names_plain: "x \<in> set (path_names s) \<Longrightarrow> CHR ''/'' \<notin> set x"
proof -
  let ?names = "split_on (CHR ''/'') (js_lower (map (\<lambda>c. if c = CHR 0x5C then CHR ''/'' else c) (js_trim s)))"
  assume "x \<in> set (path_names s)"
  then have "x \<in> set (tl ?names) \<or> x \<in> set ?names"
    by (auto simp: path_names_def Let_def dest!: set_dropWhileD split: if_splits)
  then have "x \<in> set ?names" by (metis list.set_sel(2) split_on_not_Nil)
  then show ?thesis by (rule split_plain)
qed

lemma dot_slash_split:
  "starts_with L ''./'' \<longleftrightarrow> hd (split_on (CHR ''/'') L) = ''.'' \<and> tl (split_on (CHR ''/'') L) \<noteq> []"
  "starts_with L ''./'' \<Longrightarrow> drop 2 L = join_with ''/'' (tl (split_on (CHR ''/'') L))"
proof -
  have whole: "L = hd (split_on (CHR ''/'') L) @ (if tl (split_on (CHR ''/'') L) = [] then [] else ''/'' @ join_with ''/'' (tl (split_on (CHR ''/'') L)))"
    by (metis join_split_slash join_with_Cons list.collapse split_on_not_Nil)
  have cut: "split_on (CHR ''/'') (''./'' @ rest) = ''.'' # split_on (CHR ''/'') rest" for rest
    using split_on_append [of "CHR ''/''" "''.''" rest] by simp
  show "starts_with L ''./'' \<longleftrightarrow> hd (split_on (CHR ''/'') L) = ''.'' \<and> tl (split_on (CHR ''/'') L) \<noteq> []"
  proof
    assume "starts_with L ''./''"
    then obtain t where L: "L = ''./'' @ t" unfolding starts_with_iff by blast
    show "hd (split_on (CHR ''/'') L) = ''.'' \<and> tl (split_on (CHR ''/'') L) \<noteq> []" unfolding L cut by simp
  next
    assume "hd (split_on (CHR ''/'') L) = ''.'' \<and> tl (split_on (CHR ''/'') L) \<noteq> []"
    with whole have "L = ''./'' @ join_with ''/'' (tl (split_on (CHR ''/'') L))" by simp
    then show "starts_with L ''./''" by (metis starts_with_append)
  qed
  assume "starts_with L ''./''"
  then obtain t where L: "L = ''./'' @ t" unfolding starts_with_iff by blast
  show "drop 2 L = join_with ''/'' (tl (split_on (CHR ''/'') L))" unfolding L cut by (simp add: join_split_slash)
qed

lemma normalize_names: "normalize s = join_with ''/'' (path_names s)"
proof -
  let ?m = "map (\<lambda>c. if c = CHR 0x5C then CHR ''/'' else c) (js_trim s)"
  let ?L = "js_lower ?m"
  let ?names = "split_on (CHR ''/'') ?L"
  have plain: "\<forall>x \<in> set ?names. CHR ''/'' \<notin> set x" "\<forall>x \<in> set (tl ?names). CHR ''/'' \<notin> set x"
    by (auto dest: split_plain list.set_sel(2) [OF split_on_not_Nil])
  have low: "js_lower (drop 2 ?m) = drop 2 ?L" by (simp add: js_lower_def drop_map)
  show ?thesis
  proof (cases "starts_with ?m ''./''")
    case True
    then have dot: "starts_with ?L ''./''" by (simp add: lower_start)
    then have "normalize s = drop_trailing (CHR ''/'') (join_with ''/'' (tl ?names))"
      using True by (simp only: normalize_def Let_def lower_drop_slashes if_True low dot_slash_split(2) [OF dot])
    also have "\<dots> = join_with ''/'' (path_names s)"
      using dot dot_slash_split(1) [of ?L] by (simp add: drop_trailing_join [OF plain(2)] path_names_def Let_def)
    finally show ?thesis .
  next
    case False
    then have dot: "\<not> starts_with ?L ''./''" by (simp add: lower_start)
    have "normalize s = drop_trailing (CHR ''/'') (join_with ''/'' ?names)"
      using False by (simp add: normalize_def Let_def lower_drop_slashes join_split_slash)
    also have "\<dots> = join_with ''/'' (path_names s)"
      using dot dot_slash_split(1) [of ?L] by (auto simp: drop_trailing_join [OF plain(1)] path_names_def Let_def)
    finally show ?thesis .
  qed
qed

lemma join_chars: "c \<in> set (join_with ''/'' xs) \<Longrightarrow> c = CHR ''/'' \<or> (\<exists>x \<in> set xs. c \<in> set x)"
  by (induction xs) (auto simp: join_with_Cons split: if_splits)

lemma ends_with_snoc: "ends_with s (p @ [c]) \<Longrightarrow> c \<in> set s"
  by (auto simp: ends_with_def starts_with_iff)

lemma ends_with_append: "ends_with (a @ b) b"
  by (simp add: ends_with_def)

lemma baseOf_dir:
  assumes "directory_pattern spec"
  shows "baseOf spec = join_with ''/'' (pattern_dir spec)"
proof (cases "path_names spec \<noteq> [] \<and> last (path_names spec) \<in> {''*'', ''**''}")
  case True
  then obtain C g where C: "path_names spec = C @ [g]" and g: "g = ''*'' \<or> g = ''**''"
    by (metis append_butlast_last_id insertE singletonD)
  have plain: "\<forall>x \<in> set C. CHR ''/'' \<notin> set x" using path_names_plain [of _ spec] C by simp
  have text_: "normalize spec = (if C = [] then g else join_with ''/'' C @ ''/'' @ g)"
    by (simp add: normalize_names C join_snoc)
  have dir: "pattern_dir spec = rev (dropWhile (\<lambda>x. x = []) (rev C))"
    using g by (auto simp: pattern_dir_def C Let_def)
  have "baseOf spec = drop_trailing (CHR ''/'') (join_with ''/'' C)"
  proof (cases "C = []")
    case True
    with g text_ show ?thesis
      by (auto simp: baseOf_def Let_def ends_with_def starts_with_def drop_trailing_def)
  next
    case False
    with g text_ show ?thesis by (auto simp: baseOf_def Let_def ends_with_def starts_with_def)
  qed
  then show ?thesis by (simp add: dir drop_trailing_join [OF plain])
next
  case False
  then have dir: "pattern_dir spec = path_names spec" by (auto simp: pattern_dir_def Let_def)
  have "CHR ''*'' \<notin> set (normalize spec)"
    using assms join_chars [of "CHR ''*''" "path_names spec"]
    by (auto simp: directory_pattern_def dir list_all_iff normalize_names)
  then have "\<not> ends_with (normalize spec) ''/**''" "\<not> ends_with (normalize spec) ''/*''" "\<not> ends_with (normalize spec) ''*''"
    using ends_with_snoc [of "normalize spec" "''/*''" "CHR ''*''"] ends_with_snoc [of "normalize spec" "''/''" "CHR ''*''"]
      ends_with_snoc [of "normalize spec" "[]" "CHR ''*''"] by auto
  then have "baseOf spec = drop_trailing (CHR ''/'') (join_with ''/'' (path_names spec))"
    by (simp add: baseOf_def Let_def normalize_names)
  also have "\<dots> = join_with ''/'' (rev (dropWhile (\<lambda>x. x = []) (rev (path_names spec))))"
    by (rule drop_trailing_join) (auto dest: path_names_plain)
  also have "rev (dropWhile (\<lambda>x. x = []) (rev (path_names spec))) = path_names spec"
    by (simp add: path_names_def Let_def)
  finally show ?thesis by (simp add: dir)
qed

lemma common_path_overlaps:
  assumes "covers a path" and "covers b path"
  shows "pathsOverlap a b"
proof -
  have nested: "baseOf x = [] \<or> baseOf x = baseOf y \<or> starts_with (baseOf y) (baseOf x @ ''/'')"
    if "covers x path" "covers y path" "length (pattern_dir x) \<le> length (pattern_dir y)" for x y
  proof -
    have base: "baseOf x = join_with ''/'' (pattern_dir x)" "baseOf y = join_with ''/'' (pattern_dir y)"
      using that by (auto simp: covers_def intro: baseOf_dir)
    have "take (length (pattern_dir x)) (pattern_dir y) = pattern_dir x"
      using that unfolding covers_def by (metis min.absorb1 take_take)
    then obtain r where r: "pattern_dir y = pattern_dir x @ r" by (metis append_take_drop_id)
    show ?thesis
    proof (cases "pattern_dir x = [] \<or> r = []")
      case True
      then show ?thesis using base r by auto
    next
      case False
      then have "baseOf y = (baseOf x @ ''/'') @ join_with ''/'' r" using base r by (simp add: join_append)
      then show ?thesis by (metis starts_with_append)
    qed
  qed
  show ?thesis
    using nested [OF assms] nested [OF assms(2,1)] unfolding pathsOverlap_def Let_def by (metis nle_le)
qed

text \<open>The invariant of the registry: claims of different tasks do not overlap.\<close>

definition claims_apart :: "claim_registry \<Rightarrow> bool" where
  "claims_apart r \<longleftrightarrow> js_map_ok (cr_claims r)
     \<and> (\<forall>t c u d p q. js_get (cr_claims r) t = Some c \<and> js_get (cr_claims r) u = Some d \<and> t \<noteq> u
          \<and> p \<in> set (cl_paths c) \<and> q \<in> set (cl_paths d) \<longrightarrow> \<not> pathsOverlap p q)"

lemma check_claim_ok:
  assumes "check_claim r t ps = ClaimOk" and "js_get (cr_claims r) u = Some d" and "u \<noteq> t"
    and "p \<in> set (wanted_paths ps)" and "q \<in> set (cl_paths d)"
  shows "\<not> pathsOverlap p q"
proof
  assume "pathsOverlap p q"
  with assms(4,5) have "conflict_text p u d \<in> set (conflicts_with (wanted_paths ps) (u, d))"
    by (force simp: conflicts_with_def)
  moreover have "(u, d) \<in> set (cr_claims r)" using assms(2) by (rule js_get_in)
  ultimately have "concat (map (conflicts_with (wanted_paths ps)) (filter (\<lambda>p. fst p \<noteq> t) (cr_claims r))) \<noteq> []"
    using assms(3) by fastforce
  with assms(1,4) show False by (auto simp: check_claim_def Let_def split: if_splits)
qed

lemma wanted_paths_idem [simp]: "wanted_paths (wanted_paths ps) = wanted_paths ps"
  by (induction ps) (auto simp: wanted_paths_def)

lemma claim_apart:
  assumes "claims_apart r"
  shows "claims_apart (fst (claim r t a ps i))"
proof (cases "check_claim r t (wanted_paths ps) = ClaimOk \<and> wanted_paths ps \<noteq> []")
  case True
  let ?new = "\<lparr>cl_agentId = a, cl_paths = wanted_paths ps, cl_instruction = claim_text i\<rparr>"
  have new: "cr_claims (fst (claim r t a ps i)) = js_set t ?new (cr_claims r)"
    using True by (simp add: claim_def Let_def)
  have free: "\<not> pathsOverlap p q"
    if "js_get (cr_claims r) u = Some d" "u \<noteq> t" "p \<in> set (wanted_paths ps)" "q \<in> set (cl_paths d)" for u d p q
    using check_claim_ok [of r t "wanted_paths ps" u d p q] True that by simp
  have old: "\<not> pathsOverlap p q"
    if "js_get (cr_claims r) u = Some c" "js_get (cr_claims r) v = Some d" "u \<noteq> v"
      "p \<in> set (cl_paths c)" "q \<in> set (cl_paths d)" for u v c d p q
    using assms that unfolding claims_apart_def by blast
  have "\<not> pathsOverlap p q"
    if get: "js_get (js_set t ?new (cr_claims r)) u = Some c" "js_get (js_set t ?new (cr_claims r)) v = Some d"
      and uv: "u \<noteq> v" and pq: "p \<in> set (cl_paths c)" "q \<in> set (cl_paths d)" for u v c d p q
  proof -
    consider "u = t" | "v = t" | "u \<noteq> t" "v \<noteq> t" by blast
    then show ?thesis
    proof cases
      case 1
      with get uv have "c = ?new" "v \<noteq> t" "js_get (cr_claims r) v = Some d" by auto
      with free [of v d p q] pq show ?thesis by simp
    next
      case 2
      with get uv have "d = ?new" "u \<noteq> t" "js_get (cr_claims r) u = Some c" by auto
      with free [of u c q p] pq pathsOverlap_sym [of p q] show ?thesis by simp
    next
      case 3
      with get old [of u c v d p q] uv pq show ?thesis by simp
    qed
  qed
  moreover have "js_map_ok (js_set t ?new (cr_claims r))"
    using assms by (intro js_map_ok_set) (simp add: claims_apart_def)
  ultimately show ?thesis unfolding claims_apart_def new by blast
next
  case False
  then have "fst (claim r t a ps i) = r" by (auto simp: claim_def Let_def split: claim_result.split)
  with assms show ?thesis by simp
qed

lemma release_apart:
  assumes "claims_apart r"
  shows "claims_apart (fst (release_claim r t))"
proof -
  let ?m = "js_delete t (cr_claims r)"
  have get: "js_get (cr_claims r) u = Some c" if "js_get ?m u = Some c" for u c
    using that unfolding js_get_delete by (cases "u = t") simp_all
  have "\<not> pathsOverlap p q"
    if "js_get ?m u = Some c" "js_get ?m v = Some d" "u \<noteq> v" "p \<in> set (cl_paths c)" "q \<in> set (cl_paths d)" for u c v d p q
    using assms get [OF that(1)] get [OF that(2)] that(3-5) unfolding claims_apart_def by blast
  moreover have "js_map_ok ?m" using assms by (intro js_map_ok_delete) (simp add: claims_apart_def)
  moreover have kept: "cr_claims (r\<lparr>cr_claims := ?m\<rparr>) = ?m" by simp
  ultimately have "claims_apart (r\<lparr>cr_claims := ?m\<rparr>)"
    unfolding claims_apart_def kept by blast
  with assms show ?thesis by (simp add: release_claim_def)
qed

lemma claim_step_apart: "claims_apart r \<Longrightarrow> claims_apart (claim_step r op)"
proof (cases op)
  case (Subscribe l)
  assume "claims_apart r"
  then show ?thesis by (simp add: Subscribe onRelease_def claims_apart_def)
next
  case (Unsubscribe l)
  assume "claims_apart r"
  then show ?thesis by (simp add: Unsubscribe offRelease_def claims_apart_def)
qed (simp_all add: claim_apart release_apart)

lemma claim_run_apart: "claims_apart r \<Longrightarrow> claims_apart (foldl claim_step r ops)"
  by (induction ops arbitrary: r) (simp_all add: claim_step_apart)

lemma one_owner:
  assumes "claims_apart r"
  shows "length (owners r path) \<le> 1"
proof (rule ccontr)
  assume "\<not> length (owners r path) \<le> 1"
  moreover have "distinct (owners r path)"
    using assms by (simp add: owners_def claims_apart_def distinct_map_filter)
  ultimately obtain t u where tu: "t \<in> set (owners r path)" "u \<in> set (owners r path)" "t \<noteq> u"
    by (cases "owners r path"; cases "tl (owners r path)") auto
  then obtain c d p q where "(t, c) \<in> set (cr_claims r)" "(u, d) \<in> set (cr_claims r)"
      and pq: "p \<in> set (cl_paths c)" "q \<in> set (cl_paths d)" "covers p path" "covers q path"
    by (auto simp: owners_def list_ex_iff)
  with assms have "js_get (cr_claims r) t = Some c" "js_get (cr_claims r) u = Some d"
    by (simp_all add: claims_apart_def)
  with assms tu(3) pq have "\<not> pathsOverlap p q" unfolding claims_apart_def by blast
  with common_path_overlaps [OF pq(3,4)] show False by simp
qed

lemma granted_is_owner:
  assumes "claim r t a ps i = (r', ClaimOk)" and "p \<in> set (wanted_paths ps)" and "covers p path"
  shows "t \<in> set (owners r' path)"
proof -
  let ?new = "\<lparr>cl_agentId = a, cl_paths = wanted_paths ps, cl_instruction = claim_text i\<rparr>"
  have "wanted_paths ps \<noteq> []" using assms(2) by auto
  with assms(1) have "cr_claims r' = js_set t ?new (cr_claims r)"
    by (auto simp: claim_def Let_def split: claim_result.splits)
  then have "(t, ?new) \<in> set (cr_claims r')" by (intro js_get_in) simp
  with assms(2,3) show ?thesis by (force simp: owners_def list_ex_iff)
qed

text \<open>
  C15: parallel tasks never own the same path. After any claims, releases and subscriptions, a task
  whose claim is granted is the only owner of every path one of its directory patterns covers, and no
  path has two owners. Owning is read off the names of the paths: a plain path, \<open>dir/*\<close> or
  \<open>dir/**\<close> covers the file or folder named and all below it, whatever the slashes, the case, a
  leading \<open>./\<close> and trailing slashes. Patterns with a star anywhere else, as \<open>src/foo*\<close> or
  \<open>**/*.ts\<close>, are not spoken of: the registry does not keep them apart, as shown below.
\<close>

theorem every_path_has_one_owner:
  assumes "claim (foldl claim_step new_registry ops) t a ps i = (r', ClaimOk)"
    and "p \<in> set (wanted_paths ps)" and "covers p path"
  shows "owners r' path = [t] \<and> length (owners r' other) \<le> 1"
proof -
  have "claims_apart new_registry" by (simp add: new_registry_def claims_apart_def)
  then have "claims_apart r'"
    using claim_apart [OF claim_run_apart, of new_registry ops t a ps i] assms(1) by simp
  then have one: "length (owners r' q) \<le> 1" for q by (rule one_owner)
  moreover have "owners r' path = [t]"
    using granted_is_owner [OF assms] one [of path] by (cases "owners r' path") auto
  ultimately show ?thesis by simp
qed

lemma every_path_has_one_owner_witness:
  "owners (fst (claim (foldl claim_step new_registry [Claim ''t1'' ''ann'' [''src/a/**''] None])
     ''t2'' ''bob'' [''./SRC/b/*'', [] ] None)) ''src/b/x.ts'' = [''t2'']"
proof -
  let ?r = "foldl claim_step new_registry [Claim ''t1'' ''ann'' [''src/a/**''] None]"
  have "snd (claim ?r ''t2'' ''bob'' [''./SRC/b/*'', [] ] None) = ClaimOk" by code_simp
  then obtain r' where r': "claim ?r ''t2'' ''bob'' [''./SRC/b/*'', [] ] None = (r', ClaimOk)"
    by (metis prod.collapse)
  have "''./SRC/b/*'' \<in> set (wanted_paths [''./SRC/b/*'', [] ])" by code_simp
  moreover have "covers ''./SRC/b/*'' ''src/b/x.ts''" by code_simp
  ultimately show ?thesis using every_path_has_one_owner [OF r'] unfolding r' by simp
qed

text \<open>A pattern that ends in the middle of a name is compared as if it were that name.\<close>

lemma name_prefix_pattern_overlaps_nothing:
  "\<not> pathsOverlap ''src/foo*'' ''src/foobar.ts'' \<and> \<not> pathsOverlap ''**/*.ts'' ''src/foobar.ts''"
  by code_simp

text \<open>A lone dot is a name like any other, so who claims the whole folder as \<open>.\<close> claims nothing in it.\<close>

lemma lone_dot_overlaps_nothing: "\<not> pathsOverlap ''.'' ''src/foobar.ts'' \<and> pathsOverlap ''./'' ''src/foobar.ts''"
  by code_simp

end
