(* ===== verification/FileCoordination.thy ===== *)
theory FileCoordination
  imports Prelude
begin

text \<open>
  Optimistic file coordination between agents (\<open>src/src/backend/FileCoordinator.ts\<close>): the interface
  and what its users rely on, the compare-and-swap coordinator, and its refinement of a specification over the
  history of calls. \<open>hash\<close> is the SHA-1 digest of the crypto library.
\<close>

section \<open>The interface\<close>

datatype write_decision = WriteOk | WriteRefused string

datatype file_op =
    ReadFile string string string
  | CheckWrite string string "string option"
  | WroteFile string string string
  | TakeNotices string

text \<open>
  What an agent last saw of a file, and whether it must be told of a change, over the history of calls, the
  latest first: a change by another agent after it saw the file, which it has neither read again nor been
  told of since.
\<close>

fun last_seen :: "file_op list \<Rightarrow> string \<Rightarrow> string \<Rightarrow> string option" where
  "last_seen [] a p = None"
| "last_seen (ReadFile b q x # h) a p = (if b = a \<and> q = p then Some x else last_seen h a p)"
| "last_seen (WroteFile b q x # h) a p = (if b = a \<and> q = p then Some x else last_seen h a p)"
| "last_seen (_ # h) a p = last_seen h a p"

fun notice_due :: "file_op list \<Rightarrow> string \<Rightarrow> string \<Rightarrow> bool" where
  "notice_due [] a p = False"
| "notice_due (ReadFile b q x # h) a p = ((b \<noteq> a \<or> q \<noteq> p) \<and> notice_due h a p)"
| "notice_due (WroteFile b q x # h) a p = ((b \<noteq> a \<and> q = p \<and> last_seen h a p \<noteq> None) \<or> notice_due h a p)"
| "notice_due (TakeNotices b # h) a p = (b \<noteq> a \<and> notice_due h a p)"
| "notice_due (CheckWrite b q d # h) a p = notice_due h a p"

text \<open>The laws: every operation on what was seen and on the notices due.\<close>

locale file_coordinator =
  fixes hash :: "string \<Rightarrow> string"
    and start :: 'c
    and good :: "'c \<Rightarrow> bool"
    and seen :: "'c \<Rightarrow> string \<Rightarrow> string \<Rightarrow> string option"
    and due :: "'c \<Rightarrow> string \<Rightarrow> string \<Rightarrow> bool"
    and record_read :: "'c \<Rightarrow> string \<Rightarrow> string \<Rightarrow> string \<Rightarrow> 'c"
    and check_write :: "'c \<Rightarrow> string \<Rightarrow> string \<Rightarrow> string option \<Rightarrow> 'c \<times> write_decision"
    and record_write :: "'c \<Rightarrow> string \<Rightarrow> string \<Rightarrow> string \<Rightarrow> 'c"
    and take_notices :: "'c \<Rightarrow> string \<Rightarrow> 'c \<times> string list"
  assumes start: "good start" "seen start a p = None" "\<not> due start a p"
    and keeps_good: "good c \<Longrightarrow> good (record_read c a p x)" "good c \<Longrightarrow> good (fst (check_write c a p d))"
      "good c \<Longrightarrow> good (record_write c a p x)" "good c \<Longrightarrow> good (fst (take_notices c a))"
    and seen_read: "seen (record_read c a p x) b q = (if b = a \<and> q = p then Some (hash x) else seen c b q)"
    and seen_write: "seen (record_write c a p x) b q = (if b = a \<and> q = p then Some (hash x) else seen c b q)"
    and seen_check: "seen (fst (check_write c a p d)) b q = seen c b q"
    and seen_take: "seen (fst (take_notices c a)) b q = seen c b q"
    and due_read: "due (record_read c a p x) b q \<longleftrightarrow> (b \<noteq> a \<or> q \<noteq> p) \<and> due c b q"
    and due_write: "good c \<Longrightarrow>
      due (record_write c a p x) b q \<longleftrightarrow> (b \<noteq> a \<and> q = p \<and> seen c b q \<noteq> None) \<or> due c b q"
    and due_check: "due (fst (check_write c a p d)) b q \<longleftrightarrow> due c b q"
    and due_take: "due (fst (take_notices c a)) b q \<longleftrightarrow> b \<noteq> a \<and> due c b q"
    and decision: "snd (check_write c a p d) = WriteOk \<longleftrightarrow> d = None \<or> seen c a p = map_option hash d"
    and listed: "set (snd (take_notices c a)) = {p. due c a p}"
begin

fun coord_step :: "'c \<Rightarrow> file_op \<Rightarrow> 'c" where
  "coord_step c (ReadFile a p x) = record_read c a p x"
| "coord_step c (CheckWrite a p d) = fst (check_write c a p d)"
| "coord_step c (WroteFile a p x) = record_write c a p x"
| "coord_step c (TakeNotices a) = fst (take_notices c a)"

lemma run_matches_history:
  "good (foldl coord_step start ops)
   \<and> seen (foldl coord_step start ops) a p = map_option hash (last_seen (rev ops) a p)
   \<and> (due (foldl coord_step start ops) a p \<longleftrightarrow> notice_due (rev ops) a p)"
proof (induction ops arbitrary: a p rule: rev_induct)
  case (snoc op ops)
  show ?case
    by (cases op) (auto simp: snoc.IH keeps_good seen_read seen_write seen_check seen_take due_read due_write due_check due_take)
qed (simp add: start)

lemma answers_follow_history:
  "(snd (check_write (foldl coord_step start ops) a p d) = WriteOk \<longleftrightarrow>
      d = None \<or> map_option hash (last_seen (rev ops) a p) = map_option hash d)
   \<and> set (snd (take_notices (foldl coord_step start ops) a)) = {p. notice_due (rev ops) a p}"
  using run_matches_history [of ops] by (simp add: decision listed)

end

section \<open>The optimistic coordinator\<close>

record optimistic =
  oc_reads :: "(string, (string, string) jsmap) jsmap"
  oc_stale :: "(string, string list) jsmap"

definition new_optimistic :: optimistic where
  "new_optimistic = \<lparr>oc_reads = [], oc_stale = []\<rparr>"

definition forAgent :: "optimistic \<Rightarrow> string \<Rightarrow> optimistic \<times> (string, string) jsmap" where
  "forAgent c agentId =
     (case js_get (oc_reads c) agentId of
        Some m \<Rightarrow> (c, m)
      | None \<Rightarrow> (c\<lparr>oc_reads := js_set agentId [] (oc_reads c)\<rparr>, []))"

definition staleFor :: "(string, string list) jsmap \<Rightarrow> string \<Rightarrow> string list" where
  "staleFor stale agentId = (case js_get stale agentId of Some s \<Rightarrow> s | None \<Rightarrow> [])"

text \<open>\<open>this.forAgent(agentId).set(absPath, hash(content))\<close>\<close>

definition observe :: "(string \<Rightarrow> string) \<Rightarrow> optimistic \<Rightarrow> string \<Rightarrow> string \<Rightarrow> string \<Rightarrow> optimistic" where
  "observe hash c agentId absPath content =
     (case forAgent c agentId of (c1, m) \<Rightarrow>
        c1\<lparr>oc_reads := js_set agentId (js_set absPath (hash content) m) (oc_reads c1)\<rparr>)"

definition recordRead :: "(string \<Rightarrow> string) \<Rightarrow> optimistic \<Rightarrow> string \<Rightarrow> string \<Rightarrow> string \<Rightarrow> optimistic" where
  "recordRead hash c agentId absPath content =
     (let c1 = observe hash c agentId absPath content in
      case js_get (oc_stale c1) agentId of
        Some s \<Rightarrow> c1\<lparr>oc_stale := js_set agentId (removeAll absPath s) (oc_stale c1)\<rparr>
      | None \<Rightarrow> c1)"

text \<open>\<open>parts.slice(-2).join('/')\<close>\<close>

definition rel :: "string \<Rightarrow> string" where
  "rel absPath =
     (let parts = split_on (CHR ''/'') (map (\<lambda>c. if c = CHR 0x5C then CHR ''/'' else c) absPath);
          tail = drop (length parts - 2) parts
      in if length tail = 2 then tail ! 0 @ ''/'' @ tail ! 1 else concat tail)"

definition checkWrite ::
    "(string \<Rightarrow> string) \<Rightarrow> optimistic \<Rightarrow> string \<Rightarrow> string \<Rightarrow> string option \<Rightarrow> optimistic \<times> write_decision" where
  "checkWrite hash c agentId absPath diskContent =
     (case diskContent of
        None \<Rightarrow> (c, WriteOk)
      | Some disk \<Rightarrow>
          (case forAgent c agentId of (c1, m) \<Rightarrow>
             (c1, case js_get m absPath of
                    None \<Rightarrow> WriteRefused (''You have not read '' @ quoted (rel absPath) @
                      '' yet. Read it first so you don't overwrite a teammate's work, then write.'')
                  | Some lastRead \<Rightarrow>
                      if lastRead \<noteq> hash disk
                      then WriteRefused (quoted (rel absPath) @ '' changed since you last read it (a teammate edited it). '' @
                        ''Re-read it, reconcile your changes, then write again.'')
                      else WriteOk)))"

definition invalidate :: "string \<Rightarrow> string \<Rightarrow> (string, string list) jsmap \<Rightarrow> string \<times> (string, string) jsmap \<Rightarrow> (string, string list) jsmap" where
  "invalidate agentId absPath stale entry = (case entry of (otherId, readMap) \<Rightarrow>
     if otherId \<noteq> agentId \<and> js_has readMap absPath
     then js_set otherId (set_add absPath (staleFor stale otherId)) stale
     else stale)"

definition recordWrite :: "(string \<Rightarrow> string) \<Rightarrow> optimistic \<Rightarrow> string \<Rightarrow> string \<Rightarrow> string \<Rightarrow> optimistic" where
  "recordWrite hash c agentId absPath content =
     (let c1 = observe hash c agentId absPath content
      in c1\<lparr>oc_stale := foldl (invalidate agentId absPath) (oc_stale c1) (oc_reads c1)\<rparr>)"

definition takeStaleNotices :: "optimistic \<Rightarrow> string \<Rightarrow> optimistic \<times> string list" where
  "takeStaleNotices c agentId =
     (case js_get (oc_stale c) agentId of
        None \<Rightarrow> (c, [])
      | Some s \<Rightarrow> if s = [] then (c, []) else (c\<lparr>oc_stale := js_set agentId [] (oc_stale c)\<rparr>, s))"

section \<open>The coordinator keeps the laws\<close>

definition coord_good :: "optimistic \<Rightarrow> bool" where
  "coord_good c \<longleftrightarrow> js_map_ok (oc_reads c)"

definition seen_hash :: "optimistic \<Rightarrow> string \<Rightarrow> string \<Rightarrow> string option" where
  "seen_hash c a p = Option.bind (js_get (oc_reads c) a) (\<lambda>m. js_get m p)"

definition is_stale :: "optimistic \<Rightarrow> string \<Rightarrow> string \<Rightarrow> bool" where
  "is_stale c a p \<longleftrightarrow> p \<in> set (staleFor (oc_stale c) a)"

lemma staleFor_set: "staleFor (js_set a s m) b = (if b = a then s else staleFor m b)"
  by (simp add: staleFor_def)

lemma forAgent_frame:
  "oc_stale (fst (forAgent c a)) = oc_stale c" "seen_hash (fst (forAgent c a)) b q = seen_hash c b q"
  "js_get (snd (forAgent c a)) p = seen_hash c a p" "coord_good c \<Longrightarrow> coord_good (fst (forAgent c a))"
  by (auto simp: forAgent_def seen_hash_def coord_good_def js_map_ok_set split: option.split)

lemma observe_laws:
  "seen_hash (observe hash c a p x) b q = (if b = a \<and> q = p then Some (hash x) else seen_hash c b q)"
  "oc_stale (observe hash c a p x) = oc_stale c" "coord_good c \<Longrightarrow> coord_good (observe hash c a p x)"
proof -
  obtain c1 m where fa: "forAgent c a = (c1, m)" by (cases "forAgent c a")
  note frame = forAgent_frame [where c = c and a = a, unfolded fa]
  show "oc_stale (observe hash c a p x) = oc_stale c" using frame(1) by (simp add: observe_def fa)
  show "coord_good c \<Longrightarrow> coord_good (observe hash c a p x)"
    using frame(4) by (simp add: observe_def fa coord_good_def js_map_ok_set)
  show "seen_hash (observe hash c a p x) b q = (if b = a \<and> q = p then Some (hash x) else seen_hash c b q)"
    using frame(2) [of b q] frame(3) [of q] by (simp add: observe_def fa seen_hash_def)
qed

lemma invalidate_stale:
  "q \<in> set (staleFor (invalidate a p stale e) b) \<longleftrightarrow>
     q \<in> set (staleFor stale b) \<or> (q = p \<and> b = fst e \<and> b \<noteq> a \<and> js_has (snd e) p)"
  by (cases e) (auto simp: invalidate_def staleFor_set)

lemma invalidate_all:
  "q \<in> set (staleFor (foldl (invalidate a p) stale es) b) \<longleftrightarrow>
     q \<in> set (staleFor stale b) \<or> (q = p \<and> b \<noteq> a \<and> (\<exists>m. (b, m) \<in> set es \<and> js_has m p))"
  by (induction es arbitrary: stale) (force simp: invalidate_stale)+

lemma recordRead_laws:
  "seen_hash (recordRead hash c a p x) b q = (if b = a \<and> q = p then Some (hash x) else seen_hash c b q)"
  "is_stale (recordRead hash c a p x) b q \<longleftrightarrow> (b \<noteq> a \<or> q \<noteq> p) \<and> is_stale c b q"
  "coord_good c \<Longrightarrow> coord_good (recordRead hash c a p x)"
proof -
  let ?c1 = "observe hash c a p x"
  note laws = observe_laws [where hash = hash and c = c and a = a and p = p and x = x]
  have reads: "oc_reads (recordRead hash c a p x) = oc_reads ?c1"
    by (simp add: recordRead_def Let_def split: option.split)
  have stale: "staleFor (oc_stale (recordRead hash c a p x)) b =
      (if b = a then removeAll p (staleFor (oc_stale c) b) else staleFor (oc_stale c) b)" for b
    using laws(2) by (simp add: recordRead_def Let_def staleFor_def split: option.split)
  show "seen_hash (recordRead hash c a p x) b q = (if b = a \<and> q = p then Some (hash x) else seen_hash c b q)"
    using laws(1) unfolding seen_hash_def reads .
  show "is_stale (recordRead hash c a p x) b q \<longleftrightarrow> (b \<noteq> a \<or> q \<noteq> p) \<and> is_stale c b q"
    by (auto simp: is_stale_def stale)
  show "coord_good c \<Longrightarrow> coord_good (recordRead hash c a p x)"
    using laws(3) unfolding coord_good_def reads .
qed

lemma checkWrite_laws:
  "seen_hash (fst (checkWrite hash c a p d)) b q = seen_hash c b q"
  "is_stale (fst (checkWrite hash c a p d)) b q \<longleftrightarrow> is_stale c b q"
  "coord_good c \<Longrightarrow> coord_good (fst (checkWrite hash c a p d))"
  "snd (checkWrite hash c a p d) = WriteOk \<longleftrightarrow> d = None \<or> seen_hash c a p = map_option hash d"
proof -
  obtain c1 m where fa: "forAgent c a = (c1, m)" by (cases "forAgent c a")
  note frame = forAgent_frame [where c = c and a = a, unfolded fa, simplified]
  show "seen_hash (fst (checkWrite hash c a p d)) b q = seen_hash c b q"
    "is_stale (fst (checkWrite hash c a p d)) b q \<longleftrightarrow> is_stale c b q"
    "coord_good c \<Longrightarrow> coord_good (fst (checkWrite hash c a p d))"
    by (cases d; simp add: checkWrite_def fa frame is_stale_def)+
  show "snd (checkWrite hash c a p d) = WriteOk \<longleftrightarrow> d = None \<or> seen_hash c a p = map_option hash d"
    using frame(3) [of p, symmetric] by (auto simp: checkWrite_def fa split: option.split)
qed

lemma recordWrite_laws:
  "seen_hash (recordWrite hash c a p x) b q = (if b = a \<and> q = p then Some (hash x) else seen_hash c b q)"
  "coord_good c \<Longrightarrow> coord_good (recordWrite hash c a p x)"
  "coord_good c \<Longrightarrow>
     is_stale (recordWrite hash c a p x) b q \<longleftrightarrow> (b \<noteq> a \<and> q = p \<and> seen_hash c b q \<noteq> None) \<or> is_stale c b q"
proof -
  let ?c1 = "observe hash c a p x"
  note laws = observe_laws [where hash = hash and c = c and a = a and p = p and x = x]
  show "seen_hash (recordWrite hash c a p x) b q = (if b = a \<and> q = p then Some (hash x) else seen_hash c b q)"
    using laws(1) by (simp add: recordWrite_def Let_def seen_hash_def)
  show "coord_good c \<Longrightarrow> coord_good (recordWrite hash c a p x)"
    using laws(3) by (simp add: recordWrite_def Let_def coord_good_def)
  assume "coord_good c"
  then have ok: "js_map_ok (oc_reads ?c1)" using laws(3) by (simp add: coord_good_def)
  have "(\<exists>m. (b, m) \<in> set (oc_reads ?c1) \<and> js_has m p) \<longleftrightarrow> seen_hash ?c1 b p \<noteq> None"
    by (cases "js_get (oc_reads ?c1) b") (auto simp: seen_hash_def js_in_get [OF ok] simp del: map_of_eq_Some_iff)
  then show "is_stale (recordWrite hash c a p x) b q \<longleftrightarrow> (b \<noteq> a \<and> q = p \<and> seen_hash c b q \<noteq> None) \<or> is_stale c b q"
    using laws(1) [of b p] laws(2) by (auto simp: recordWrite_def Let_def is_stale_def invalidate_all)
qed

lemma takeStaleNotices_laws:
  "seen_hash (fst (takeStaleNotices c a)) b q = seen_hash c b q"
  "is_stale (fst (takeStaleNotices c a)) b q \<longleftrightarrow> b \<noteq> a \<and> is_stale c b q"
  "coord_good c \<Longrightarrow> coord_good (fst (takeStaleNotices c a))"
  "set (snd (takeStaleNotices c a)) = {p. is_stale c a p}"
  by (auto simp: takeStaleNotices_def seen_hash_def is_stale_def staleFor_def coord_good_def split: option.split)

interpretation optimistic: file_coordinator hash new_optimistic coord_good seen_hash is_stale
    "recordRead hash" "checkWrite hash" "recordWrite hash" takeStaleNotices for hash
proof unfold_locales
  show "coord_good new_optimistic" by (simp add: coord_good_def new_optimistic_def)
  show "seen_hash new_optimistic a p = None" for a p by (simp add: seen_hash_def new_optimistic_def)
  show "\<not> is_stale new_optimistic a p" for a p by (simp add: is_stale_def staleFor_def new_optimistic_def)
qed (fact recordRead_laws checkWrite_laws recordWrite_laws takeStaleNotices_laws)+

fun run_op :: "(string \<Rightarrow> string) \<Rightarrow> optimistic \<Rightarrow> file_op \<Rightarrow> optimistic" where
  "run_op hash c (ReadFile a p x) = recordRead hash c a p x"
| "run_op hash c (CheckWrite a p d) = fst (checkWrite hash c a p d)"
| "run_op hash c (WroteFile a p x) = recordWrite hash c a p x"
| "run_op hash c (TakeNotices a) = fst (takeStaleNotices c a)"

lemma run_op_is_coord_step: "run_op hash = optimistic.coord_step hash"
proof (intro ext)
  show "run_op hash c op = optimistic.coord_step hash c op" for c op
    by (cases op) (simp_all add: optimistic.coord_step.simps)
qed

text \<open>
  C14: the coordinator answers as the history of calls says. After any calls, a write is let through
  exactly if the file does not exist or what the agent last read or wrote of it hashes as what is on
  disk now, and the notices taken are exactly the files another agent wrote after this one saw them,
  which it has neither read again nor been told of.
\<close>

theorem coordinator_follows_the_history:
  "let c = foldl (run_op hash) new_optimistic ops
   in (snd (checkWrite hash c agent path disk) = WriteOk \<longleftrightarrow>
         disk = None \<or> map_option hash (last_seen (rev ops) agent path) = map_option hash disk)
    \<and> set (snd (takeStaleNotices c agent)) = {p. notice_due (rev ops) agent p}"
  unfolding Let_def run_op_is_coord_step by (rule optimistic.answers_follow_history)

end
