(* ===== verification/WorkflowRules.thy ===== *)
theory WorkflowRules
  imports Prelude
begin

text \<open>
  The pure decisions of team workflows: gates and branches (\<open>src/src/workflow/GatedWorkflow.ts\<close>), the
  selection of a model tier (\<open>SmartMode.ts\<close>), the switch of agents to a tier
  (\<open>TierController.ts\<close>) and the check of a workflow before it is saved
  (\<open>workflowSerialize.ts\<close>). Setting an agent's model is a parameter that threads the session's state.
\<close>

subsection \<open>Steps, branches and gates\<close>

datatype model_tier = Premium | Standard | Economy

type_synonym tier_directive = "(string, model_tier) jsmap"

text \<open>A branch as it is stored: also in the form it had before labels existed.\<close>

record wf_branch =
  br_label :: js_value
  br_whenResultContains :: js_value
  br_fallback :: js_value
  br_goto :: string

record labelled_branch =
  lb_label :: string
  lb_fallback :: bool
  lb_goto :: string

record wf_step =
  ws_id :: string
  ws_from :: string
  ws_to :: string
  ws_action :: string
  ws_autoTransition :: bool
  ws_branches :: "wf_branch list option"

record wf_config =
  wc_id :: string
  wc_name :: string
  wc_description :: string
  wc_steps :: "wf_step list"

datatype on_exhaust = ExhaustHuman | ExhaustFail

record gate_failure =
  gf_setTier :: "tier_directive option"
  gf_maxRetries :: "nat option"
  gf_route :: "string option"
  gf_onExhaust :: "on_exhaust option"

record wf_gate =
  wg_after :: string
  wg_objective :: bool
  wg_onPass :: "tier_directive option"
  wg_onFail :: "gate_failure option"

datatype escalation = EscalateNone | EscalateHuman | EscalateFail

record gate_decision =
  gd_proceed :: bool
  gd_applyTiers :: "tier_directive option"
  gd_retry :: bool
  gd_route :: "string option"
  gd_escalate :: escalation

definition LEGACY_FALLBACK_BRANCH_LABEL :: string where
  "LEGACY_FALLBACK_BRANCH_LABEL = ''__unode_legacy_fallback''"

fun full_text :: "js_value \<Rightarrow> string option" where
  "full_text (JString s) = (if s = [] then None else Some s)"
| "full_text _ = None"

definition migrateWorkflowBranchLabel :: "wf_branch \<Rightarrow> string \<times> bool" where
  "migrateWorkflowBranchLabel raw =
     (case full_text (br_label raw) of
        Some l \<Rightarrow> (l, br_fallback raw = JBool True)
      | None \<Rightarrow>
          (case full_text (br_whenResultContains raw) of
             Some w \<Rightarrow> (w, False)
           | None \<Rightarrow> (LEGACY_FALLBACK_BRANCH_LABEL, True)))"

definition resolveBranch :: "labelled_branch list option \<Rightarrow> string option \<Rightarrow> string option" where
  "resolveBranch branches selectedLabel =
     (case branches of
        None \<Rightarrow> None
      | Some bs \<Rightarrow>
          or_else
            (case selectedLabel of
               None \<Rightarrow> None
             | Some l \<Rightarrow> map_option lb_goto (find (\<lambda>b. \<not> lb_fallback b \<and> lb_label b = l) bs))
            (map_option lb_goto (find lb_fallback bs)))"

definition no_failure :: gate_failure where
  "no_failure = \<lparr>gf_setTier = None, gf_maxRetries = None, gf_route = None, gf_onExhaust = None\<rparr>"

definition failure_of :: "wf_gate \<Rightarrow> gate_failure" where
  "failure_of g = (case wg_onFail g of Some f \<Rightarrow> f | None \<Rightarrow> no_failure)"

definition max_retries :: "wf_gate \<Rightarrow> nat" where
  "max_retries g = (case gf_maxRetries (failure_of g) of Some n \<Rightarrow> n | None \<Rightarrow> 1)"

definition decideGate :: "wf_gate \<Rightarrow> bool \<Rightarrow> nat \<Rightarrow> gate_decision" where
  "decideGate gate passed attempt =
     (if passed then \<lparr>gd_proceed = True, gd_applyTiers = wg_onPass gate, gd_retry = False, gd_route = None,
        gd_escalate = EscalateNone\<rparr>
      else let f = failure_of gate in
        if attempt \<le> max_retries gate
        then \<lparr>gd_proceed = False, gd_applyTiers = gf_setTier f, gd_retry = True, gd_route = gf_route f,
               gd_escalate = EscalateNone\<rparr>
        else \<lparr>gd_proceed = False, gd_applyTiers = None, gd_retry = False, gd_route = None,
               gd_escalate = (if gf_onExhaust f = Some ExhaustFail then EscalateFail else EscalateHuman)\<rparr>)"

subsection \<open>Model tiers\<close>

record smart_mode =
  sm_enabled :: bool
  sm_defaultTier :: model_tier
  sm_taskTierHints :: "tier_directive option"

fun tier_of :: "js_value \<Rightarrow> model_tier option" where
  "tier_of (JString s) = (if s = ''premium'' then Some Premium else if s = ''standard'' then Some Standard
     else if s = ''economy'' then Some Economy else None)"
| "tier_of _ = None"

definition isModelTier :: "js_value \<Rightarrow> bool" where
  "isModelTier v \<longleftrightarrow> tier_of v \<noteq> None"

text \<open>The message is its type and the \<open>tier\<close> of its metadata.\<close>

definition selectTier :: "string \<Rightarrow> js_value \<Rightarrow> smart_mode \<Rightarrow> model_tier \<Rightarrow> model_tier" where
  "selectTier msg_type explicitTier cfg roleDefault =
     (if \<not> sm_enabled cfg then roleDefault
      else case tier_of explicitTier of
        Some t \<Rightarrow> t
      | None \<Rightarrow>
          (case Option.bind (sm_taskTierHints cfg) (\<lambda>m. js_get m msg_type) of Some t \<Rightarrow> t | None \<Rightarrow> roleDefault))"

type_synonym tier_table = "model_tier \<Rightarrow> (string, string) jsmap"

definition resolveModelTiers :: "tier_table \<Rightarrow> (model_tier \<Rightarrow> (string, string) jsmap option) \<Rightarrow> tier_table" where
  "resolveModelTiers defaults override =
     (\<lambda>tier. foldl (\<lambda>m (k, v). js_set k v m) (defaults tier) (case override tier of Some m \<Rightarrow> m | None \<Rightarrow> []))"

definition modelForTier :: "model_tier \<Rightarrow> string \<Rightarrow> tier_table \<Rightarrow> string option" where
  "modelForTier tier providerId tiers = js_get (tiers tier) providerId"

record tier_target =
  tt_id :: string
  tt_role :: string
  tt_providerId :: string

record tier_change =
  tg_agentId :: string
  tg_role :: string
  tg_tier :: model_tier
  tg_model :: string

definition modelFor :: "tier_table \<Rightarrow> model_tier \<Rightarrow> string \<Rightarrow> string option" where
  "modelFor tiers tier providerId = or_else (js_get (tiers tier) providerId) (js_get (tiers tier) ''roam'')"

definition apply_tier ::
    "('s \<Rightarrow> string \<Rightarrow> string \<Rightarrow> 's \<times> bool) \<Rightarrow> tier_table \<Rightarrow> string \<Rightarrow> model_tier \<Rightarrow>
     's \<times> tier_change list \<Rightarrow> tier_target \<Rightarrow> 's \<times> tier_change list" where
  "apply_tier setModel tiers reff tier acc agent =
     (case acc of (s, changes) \<Rightarrow>
        if tt_id agent \<noteq> reff \<and> tt_role agent \<noteq> reff then (s, changes)
        else case modelFor tiers tier (tt_providerId agent) of
          None \<Rightarrow> (s, changes)
        | Some model \<Rightarrow>
            if model = [] then (s, changes)
            else case setModel s (tt_id agent) model of (s1, changed) \<Rightarrow>
              (s1, if changed
                   then changes @ [\<lparr>tg_agentId = tt_id agent, tg_role = tt_role agent, tg_tier = tier, tg_model = model\<rparr>]
                   else changes))"

definition applyTiers ::
    "('s \<Rightarrow> string \<Rightarrow> string \<Rightarrow> 's \<times> bool) \<Rightarrow> tier_table \<Rightarrow> tier_target list \<Rightarrow> 's \<Rightarrow> tier_directive \<Rightarrow>
     's \<times> tier_change list" where
  "applyTiers setModel tiers agents s directive =
     foldl (\<lambda>acc (reff, tier). foldl (apply_tier setModel tiers reff tier) acc agents) (s, []) directive"

subsection \<open>Workflows before they are saved\<close>

text \<open>What is wrong with a step: it has no id, no sender or recipient, or a branch to nowhere.\<close>

definition branch_error :: "string list \<Rightarrow> wf_step \<Rightarrow> string option" where
  "branch_error stepIds step =
     map_option (\<lambda>b. ''Branch on step '' @ quoted (ws_id step) @ '' points to unknown step ''
         @ quoted (if br_goto b = [] then ''(empty)'' else br_goto b) @ ''.'')
       (find (\<lambda>b. br_goto b = [] \<or> br_goto b \<notin> set stepIds) (case ws_branches step of Some bs \<Rightarrow> bs | None \<Rightarrow> []))"

definition step_error :: "string list \<Rightarrow> wf_step \<Rightarrow> string option" where
  "step_error stepIds step =
     (if ws_id step = [] then Some ''Every workflow step needs an id.''
      else if ws_from step = [] \<or> ws_to step = []
      then Some (''Step '' @ quoted (ws_id step) @ '' needs both a from and to agent.'')
      else branch_error stepIds step)"

definition validateWorkflowGotos :: "wf_config \<Rightarrow> string option" where
  "validateWorkflowGotos workflow =
     first_some (step_error (filter (\<lambda>i. i \<noteq> []) (map ws_id (wc_steps workflow)))) (wc_steps workflow)"

end
