(* ===== verification/WorkflowRuns.thy ===== *)
theory WorkflowRuns
  imports WorkflowRules
begin

text \<open>
  The workflow engine (\<open>src/src/workflow/WorkflowEngine.ts\<close>): runs, their message subscriptions, gates
  and checks as one state; every public method, every message that reaches a subscription and every check that
  comes back as a function from state to state and effects, in the order the code causes them.

  What the session and the host say at the moment of a call is the record \<open>wf_deps\<close>: who answers to a
  role or id, the workspace root, and which collaborators are there. Run ids and times are arguments. A run's
  context is split: the members the engine itself keeps under reserved names are fields, the rest (seed, outputs)
  is an ordered map; seeds and step ids do not use the reserved names. Messages sent are effects: their
  recipients answer later, as messages of their own.
\<close>

subsection \<open>State\<close>

datatype wf_status = WfPending | WfRunning | WfPaused | WfCompleted | WfCancelled | WfFailed

record wf_context =
  cx_values :: "(string, js_value) jsmap"
  cx_transitions :: nat
  cx_attempts :: "(string, nat) jsmap"
  cx_unverifiedGates :: "(string \<times> string) list"
  cx_blockedReason :: "string option"
  cx_gates :: "wf_gate list option"

record wf_instance =
  wi_id :: string
  wi_config :: wf_config
  wi_status :: wf_status
  wi_currentStep :: "string option"
  wi_startedAt :: string
  wi_completedAt :: "string option"
  wi_context :: wf_context

record wf_template =
  wt_id :: string
  wt_name :: string
  wt_description :: string
  wt_steps :: "wf_step list"
  wt_gates :: "wf_gate list option"

text \<open>A check under way: what the waiting function holds, and whether a check was asked for at all.\<close>

record gate_check =
  gc_token :: nat
  gc_run :: string
  gc_gate :: wf_gate
  gc_completed :: wf_step
  gc_following :: "wf_step option"
  gc_step :: "string option"
  gc_root :: "string option"
  gc_asked :: bool

record wf_engine =
  en_runs :: "(string, wf_instance) jsmap"
  en_listeners :: "string list"
  en_gatesByRun :: "(string, wf_gate list) jsmap"
  en_gateChecks :: "(string, nat) jsmap"
  en_runWorkspaces :: "(string, string) jsmap"
  en_waiting :: "gate_check list"
  en_nextToken :: nat

definition new_engine :: wf_engine where
  "new_engine = \<lparr>en_runs = [], en_listeners = [], en_gatesByRun = [], en_gateChecks = [], en_runWorkspaces = [],
     en_waiting = [], en_nextToken = 0\<rparr>"

record wf_deps =
  dp_resolve :: "string \<Rightarrow> string option"
  dp_tierController :: bool
  dp_workspaceRoot :: "string option"
  dp_runChecks :: bool
  dp_notifyUser :: bool

datatype wf_effect =
    Assign (as_run: string) (as_sender: string) (as_recipient: string) (as_step: string) (as_action: string)
      (as_labels: "string list option") (as_context: wf_context)
  | SwitchTiers tier_directive
  | RunChecks nat
  | NotifyUser string
  | Changed

definition transitionBudget :: nat where
  "transitionBudget = 100"

subsection \<open>Branches of a step\<close>

definition normalizedBranches :: "wf_branch list option \<Rightarrow> labelled_branch list option" where
  "normalizedBranches = map_option (map (\<lambda>b. case migrateWorkflowBranchLabel b of (l, f) \<Rightarrow>
     \<lparr>lb_label = l, lb_fallback = f, lb_goto = br_goto b\<rparr>))"

definition offeredBranchLabels :: "wf_branch list option \<Rightarrow> string list option" where
  "offeredBranchLabels branches =
     (let labels = map lb_label (filter (\<lambda>b. \<not> lb_fallback b) (case normalizedBranches branches of Some bs \<Rightarrow> bs | None \<Rightarrow> []))
      in if labels = [] then None else Some labels)"

definition branchDestination :: "wf_branch list option \<Rightarrow> string option \<Rightarrow> string option" where
  "branchDestination branches label = resolveBranch (normalizedBranches branches) label"

subsection \<open>Transitions\<close>

text \<open>\<open>detach\<close> also aborts the check under way: it is aborted exactly when it is no longer registered.\<close>

definition detach :: "string \<Rightarrow> wf_engine \<Rightarrow> wf_engine" where
  "detach runId e = e\<lparr>en_gateChecks := js_delete runId (en_gateChecks e),
     en_runWorkspaces := js_delete runId (en_runWorkspaces e), en_listeners := removeAll runId (en_listeners e),
     en_gatesByRun := js_delete runId (en_gatesByRun e)\<rparr>"

definition put_run :: "wf_instance \<Rightarrow> wf_engine \<Rightarrow> wf_engine" where
  "put_run i e = e\<lparr>en_runs := js_set (wi_id i) i (en_runs e)\<rparr>"

definition finish_run :: "string \<Rightarrow> wf_instance \<Rightarrow> wf_status \<Rightarrow> wf_engine \<Rightarrow> wf_engine" where
  "finish_run now i status e = detach (wi_id i) (put_run (i\<lparr>wi_status := status, wi_completedAt := Some now\<rparr>) e)"

definition step_of :: "wf_instance \<Rightarrow> wf_step option" where
  "step_of i = find (\<lambda>s. Some (ws_id s) = wi_currentStep i) (wc_steps (wi_config i))"

definition assign_step :: "wf_deps \<Rightarrow> string \<Rightarrow> wf_instance \<Rightarrow> wf_step \<Rightarrow> wf_engine \<Rightarrow> wf_engine \<times> wf_effect list" where
  "assign_step d now i current e =
     (case dp_resolve d (ws_to current) of
        None \<Rightarrow> (finish_run now i WfFailed e, [Changed])
      | Some recipient \<Rightarrow>
          (let i1 = i\<lparr>wi_currentStep := Some (ws_id current)\<rparr>;
               sender = (case dp_resolve d (ws_from current) of Some s \<Rightarrow> s | None \<Rightarrow> ''workflow'')
           in (put_run i1 e,
               [Assign (wi_id i) sender recipient (ws_id current) (ws_action current)
                  (offeredBranchLabels (ws_branches current)) (wi_context i)])))"

definition dispatchCurrent :: "wf_deps \<Rightarrow> string \<Rightarrow> wf_instance \<Rightarrow> wf_engine \<Rightarrow> wf_engine \<times> wf_effect list" where
  "dispatchCurrent d now i e =
     (case step_of i of
        None \<Rightarrow> (finish_run now i WfCompleted e, [Changed])
      | Some current \<Rightarrow> assign_step d now i current e)"

definition moveForward ::
    "wf_deps \<Rightarrow> string \<Rightarrow> wf_instance \<Rightarrow> wf_step option \<Rightarrow> wf_engine \<Rightarrow> wf_engine \<times> wf_effect list" where
  "moveForward d now i following e =
     (case following of
        None \<Rightarrow> (finish_run now i WfCompleted e, [])
      | Some s \<Rightarrow> if ws_autoTransition s then assign_step d now i s e else (put_run i e, []))"

definition takeBranch ::
    "wf_deps \<Rightarrow> string \<Rightarrow> wf_instance \<Rightarrow> string \<Rightarrow> wf_engine \<Rightarrow> wf_engine \<times> wf_effect list" where
  "takeBranch d now i targetId e =
     (case find (\<lambda>s. ws_id s = targetId) (wc_steps (wi_config i)) of
        None \<Rightarrow> (finish_run now i WfFailed e, [])
      | Some target \<Rightarrow>
          (let count = cx_transitions (wi_context i) + 1;
               i1 = i\<lparr>wi_context := (wi_context i)\<lparr>cx_transitions := count\<rparr>\<rparr>
           in if count \<le> transitionBudget then assign_step d now i1 target e
              else (finish_run now i1 WfFailed e, [])))"

fun find_index :: "('a \<Rightarrow> bool) \<Rightarrow> 'a list \<Rightarrow> nat option" where
  "find_index P [] = None"
| "find_index P (x # xs) = (if P x then Some 0 else map_option Suc (find_index P xs))"

text \<open>The step that is complete, and the one after it in the list.\<close>

definition completed_step :: "wf_instance \<Rightarrow> (wf_step \<times> wf_step option) option" where
  "completed_step i =
     (let steps = wc_steps (wi_config i) in
      map_option (\<lambda>k. (steps ! k, if Suc k < length steps then Some (steps ! Suc k) else None))
        (find_index (\<lambda>s. Some (ws_id s) = wi_currentStep i) steps))"

definition gate_after :: "wf_engine \<Rightarrow> string \<Rightarrow> wf_step \<Rightarrow> wf_gate option" where
  "gate_after e runId completed =
     Option.bind (js_get (en_gatesByRun e) runId) (find (\<lambda>g. wg_after g = ws_id completed))"

text \<open>The first part of \<open>evaluateGate\<close>: up to the check.\<close>

definition start_gate ::
    "wf_deps \<Rightarrow> wf_instance \<Rightarrow> wf_gate \<Rightarrow> wf_step \<Rightarrow> wf_step option \<Rightarrow> wf_engine \<Rightarrow> wf_engine \<times> wf_effect list" where
  "start_gate d i gate completed following e =
     (if js_has (en_gateChecks e) (wi_id i) then (e, [])
      else let token = en_nextToken e; asked = (wg_objective gate \<and> dp_runChecks d);
               check = \<lparr>gc_token = token, gc_run = wi_id i, gc_gate = gate, gc_completed = completed,
                 gc_following = following, gc_step = wi_currentStep i,
                 gc_root = js_get (en_runWorkspaces e) (wi_id i), gc_asked = asked\<rparr>
           in (e\<lparr>en_gateChecks := js_set (wi_id i) token (en_gateChecks e), en_waiting := en_waiting e @ [check],
                 en_nextToken := token + 1\<rparr>,
               if asked then [RunChecks token] else []))"

definition advance_run ::
    "wf_deps \<Rightarrow> string \<Rightarrow> wf_instance \<Rightarrow> string option \<Rightarrow> wf_engine \<Rightarrow> wf_engine \<times> wf_effect list" where
  "advance_run d now i selected e =
     (case completed_step i of
        None \<Rightarrow> (case moveForward d now i None e of (e1, fx) \<Rightarrow> (e1, fx @ [Changed]))
      | Some (completed, following) \<Rightarrow>
          (case gate_after e (wi_id i) completed of
             Some gate \<Rightarrow> start_gate d i gate completed following (put_run i e)
           | None \<Rightarrow>
               (case (case branchDestination (ws_branches completed) selected of
                        Some (c # t) \<Rightarrow> takeBranch d now i (c # t) e
                      | _ \<Rightarrow> moveForward d now i following e) of
                  (e1, fx) \<Rightarrow> (e1, fx @ [Changed]))))"

subsection \<open>Messages\<close>

datatype wf_message =
    TaskComplete (wm_correlationId: "string option") (wm_instruction: "string option") (wm_label: js_value)
  | TaskPartial (wm_correlationId: "string option") (wm_instruction: "string option") (wm_unfinished: string) (wm_timestamp: string)
  | SystemError (wm_correlationId: "string option")

definition retainOutput :: "wf_instance \<Rightarrow> string option \<Rightarrow> wf_instance" where
  "retainOutput i instruction =
     (let completed = (case wi_currentStep i of Some s \<Rightarrow> s | None \<Rightarrow> ''unknown'');
          out = (case instruction of Some t \<Rightarrow> t | None \<Rightarrow> [])
      in i\<lparr>wi_context := (wi_context i)\<lparr>cx_values := js_set (completed @ ''_output'') (JString out) (cx_values (wi_context i))\<rparr>\<rparr>)"

definition selectedBranch :: "js_value \<Rightarrow> string option" where
  "selectedBranch v = (case v of JString s \<Rightarrow> Some s | _ \<Rightarrow> None)"

definition acceptPartial :: "string \<Rightarrow> string option \<Rightarrow> string \<Rightarrow> wf_instance \<Rightarrow> wf_engine \<Rightarrow> wf_engine \<times> wf_effect list" where
  "acceptPartial timestamp instruction unfinished i e =
     (let i1 = retainOutput i instruction;
          step = (case wi_currentStep i1 of Some s \<Rightarrow> s | None \<Rightarrow> ''unknown'');
          i2 = i1\<lparr>wi_context := (wi_context i1)\<lparr>cx_values :=
                    js_set (step @ ''_unfinishedActivity'') (JString (take 1000 unfinished)) (cx_values (wi_context i1))\<rparr>,
                  wi_status := WfPaused, wi_completedAt := Some timestamp\<rparr>
      in (detach (wi_id i2) (put_run i2 e), [Changed]))"

text \<open>A message reaches the handlers of a run that listens and whose id it carries; only a running one acts.\<close>

definition on_message :: "wf_deps \<Rightarrow> string \<Rightarrow> wf_message \<Rightarrow> wf_engine \<Rightarrow> wf_engine \<times> wf_effect list" where
  "on_message d now m e =
     (case wm_correlationId m of
        None \<Rightarrow> (e, [])
      | Some runId \<Rightarrow>
          (case js_get (en_runs e) runId of
             None \<Rightarrow> (e, [])
           | Some i \<Rightarrow>
               if runId \<notin> set (en_listeners e) \<or> wi_status i \<noteq> WfRunning then (e, [])
               else case m of
                 SystemError _ \<Rightarrow> (finish_run now i WfFailed e, [Changed])
               | TaskPartial _ instruction unfinished timestamp \<Rightarrow> acceptPartial timestamp instruction unfinished i e
               | TaskComplete _ instruction label \<Rightarrow>
                   advance_run d now (retainOutput i instruction) (selectedBranch label) e))"

subsection \<open>Checks that come back\<close>

text \<open>The outcome of a verification (\<open>VerificationCheckOutcome\<close>), as far as the engine reads it.\<close>

datatype verification =
    VPassed string
  | VFailed string
  | VNotRun string string
  | VUnknown string

text \<open>What the check returned: a full outcome with \<open>required\<close>, only flags, or it threw.\<close>

datatype check_return =
    FullCheck verification "bool option"
  | FlagsOnly bool bool
  | CheckThrew

definition verificationUnrunOrUnknown :: "verification \<Rightarrow> bool" where
  "verificationUnrunOrUnknown v =
     (case v of
        VUnknown _ \<Rightarrow> True
      | VNotRun reason _ \<Rightarrow> reason \<noteq> ''policy-stale'' \<and> reason \<noteq> ''configuration-invalid''
      | _ \<Rightarrow> False)"

record gate_result =
  gr_ok :: bool
  gr_blocked :: bool
  gr_output :: "string option"
  gr_unverified :: bool

definition full_result :: "verification \<Rightarrow> bool option \<Rightarrow> gate_result" where
  "full_result v required =
     (let unverified = (required = Some False \<and> verificationUnrunOrUnknown v) in
      case v of
        VPassed out \<Rightarrow> \<lparr>gr_ok = True, gr_blocked = False, gr_output = Some out, gr_unverified = unverified\<rparr>
      | VFailed out \<Rightarrow> \<lparr>gr_ok = False, gr_blocked = False, gr_output = Some out, gr_unverified = unverified\<rparr>
      | VNotRun reason detail \<Rightarrow> \<lparr>gr_ok = False, gr_blocked = True, gr_output = Some detail, gr_unverified = unverified\<rparr>
      | VUnknown out \<Rightarrow> \<lparr>gr_ok = False, gr_blocked = True, gr_output = Some out, gr_unverified = unverified\<rparr>)"

definition runGateCheck :: "gate_check \<Rightarrow> check_return \<Rightarrow> gate_result" where
  "runGateCheck c r =
     (if \<not> gc_asked c then \<lparr>gr_ok = True, gr_blocked = False, gr_output = None, gr_unverified = False\<rparr>
      else case r of
        FullCheck v required \<Rightarrow> full_result v required
      | FlagsOnly ok blocked \<Rightarrow> \<lparr>gr_ok = ok, gr_blocked = blocked, gr_output = None, gr_unverified = False\<rparr>
      | CheckThrew \<Rightarrow> \<lparr>gr_ok = False, gr_blocked = True,
          gr_output = Some ''The verification outcome could not be observed. No implementation retry was requested.'',
          gr_unverified = False\<rparr>)"

definition incrementAttempt :: "wf_instance \<Rightarrow> string \<Rightarrow> wf_instance \<times> nat" where
  "incrementAttempt i gateId =
     (let history = cx_attempts (wi_context i);
          attempt = (case js_get history gateId of Some n \<Rightarrow> n | None \<Rightarrow> 0) + 1
      in (i\<lparr>wi_context := (wi_context i)\<lparr>cx_attempts := js_set gateId attempt history\<rparr>\<rparr>, attempt))"

definition set_blocked :: "string \<Rightarrow> wf_instance \<Rightarrow> wf_instance" where
  "set_blocked reason i = i\<lparr>wi_status := WfPaused, wi_context := (wi_context i)\<lparr>cx_blockedReason := Some reason\<rparr>\<rparr>"

definition without_full_stop :: "string \<Rightarrow> string" where
  "without_full_stop s = (if ends_with s ''.'' then butlast s else s)"

definition unverified_note :: "wf_instance \<Rightarrow> gate_check \<Rightarrow> string \<Rightarrow> string" where
  "unverified_note i c reason = ''Workflow '' @ quoted (wc_name (wi_config i)) @ '' continued after step ''
     @ quoted (ws_id (gc_completed c)) @ '' without a verified check: '' @ without_full_stop reason
     @ ''. Run the project's checks yourself before you rely on the result.''"

definition continue_unverified ::
    "wf_deps \<Rightarrow> string \<Rightarrow> gate_check \<Rightarrow> string option \<Rightarrow> wf_instance \<Rightarrow> wf_engine \<Rightarrow> wf_engine \<times> wf_effect list" where
  "continue_unverified d now c out i e =
     (let reason = (case out of Some o' \<Rightarrow> o' | None \<Rightarrow> ''The check could not run.'');
          i1 = i\<lparr>wi_context := (wi_context i)\<lparr>cx_unverifiedGates :=
                    cx_unverifiedGates (wi_context i) @ [(wg_after (gc_gate c), reason)]\<rparr>\<rparr>
      in case moveForward d now i1 (gc_following c) e of (e1, fx) \<Rightarrow>
           (e1, (if dp_notifyUser d then [NotifyUser (unverified_note i c reason)] else []) @ fx @ [Changed]))"

definition apply_decision ::
    "wf_deps \<Rightarrow> string \<Rightarrow> gate_check \<Rightarrow> gate_decision \<Rightarrow> wf_instance \<Rightarrow> wf_engine \<Rightarrow> wf_engine \<times> wf_effect list" where
  "apply_decision d now c decision i e =
     (let tiers = (case gd_applyTiers decision of
                     Some t \<Rightarrow> if dp_tierController d then [SwitchTiers t] else [] | None \<Rightarrow> [])
      in case (if gd_proceed decision then moveForward d now i (gc_following c) e
               else if gd_retry decision
               then assign_step d now i
                      (case gd_route decision of Some (r # rs) \<Rightarrow> (gc_completed c)\<lparr>ws_to := r # rs\<rparr> | _ \<Rightarrow> gc_completed c) e
               else (finish_run now i (if gd_escalate decision = EscalateHuman then WfPaused else WfFailed) e, [])) of
           (e1, fx) \<Rightarrow> (e1, tiers @ fx @ [Changed]))"

text \<open>The second part of \<open>evaluateGate\<close>, when the check of a token has come back.\<close>

definition settle_gate :: "wf_deps \<Rightarrow> string \<Rightarrow> nat \<Rightarrow> check_return \<Rightarrow> wf_engine \<Rightarrow> wf_engine \<times> wf_effect list" where
  "settle_gate d now token r e =
     (case find (\<lambda>c. gc_token c = token) (en_waiting e) of
        None \<Rightarrow> (e, [])
      | Some c \<Rightarrow>
          (let aborted = (js_get (en_gateChecks e) (gc_run c) \<noteq> Some token);
               e1 = e\<lparr>en_waiting := filter (\<lambda>c. gc_token c \<noteq> token) (en_waiting e),
                      en_gateChecks := (if aborted then en_gateChecks e else js_delete (gc_run c) (en_gateChecks e))\<rparr>
           in case js_get (en_runs e1) (gc_run c) of
                None \<Rightarrow> (e1, [])
              | Some i \<Rightarrow>
                  if wi_status i \<noteq> WfRunning then (e1, [])
                  else if aborted \<or> wi_currentStep i \<noteq> gc_step c
                    \<or> (dp_workspaceRoot d \<noteq> None \<and> dp_workspaceRoot d \<noteq> gc_root c)
                  then (detach (wi_id i) (put_run (set_blocked
                     ''The original workflow or its workspace changed during verification. No implementation retry was requested.'' i) e1),
                     [Changed])
                  else let res = runGateCheck c r in
                    if gr_blocked res \<and> gr_unverified res then continue_unverified d now c (gr_output res) i e1
                    else if gr_blocked res
                    then (detach (wi_id i) (put_run ((set_blocked (case gr_output res of Some o' \<Rightarrow> o'
                        | None \<Rightarrow> ''run_checks could not run: command execution is disabled. Set unode.commandApproval to ''
                          @ quoted ''allowlist'' @ '' and configure unode.verifyCommand to enable the gate.'') i)\<lparr>wi_completedAt := Some now\<rparr>) e1),
                       [Changed])
                    else (case incrementAttempt i (wg_after (gc_gate c)) of (i1, attempt) \<Rightarrow>
                            apply_decision d now c (decideGate (gc_gate c) (gr_ok res) attempt) i1 e1)))"

subsection \<open>Starting, restoring and cancelling\<close>

definition workflowStep :: "string \<Rightarrow> string \<Rightarrow> string \<Rightarrow> string \<Rightarrow> wf_step" where
  "workflowStep i frm too action =
     \<lparr>ws_id = i, ws_from = frm, ws_to = too, ws_action = action, ws_autoTransition = True, ws_branches = None\<rparr>"

text \<open>The built-in workflows; their descriptions have arrows where commas stand here.\<close>

definition standardWorkflows :: "wf_template list" where
  "standardWorkflows = [
     \<lparr>wt_id = ''code-review'', wt_name = ''Code Review Pipeline'',
      wt_description = ''Senior dev writes code, Tester runs tests, Security audits'',
      wt_steps = [
        workflowStep ''step1'' ''architect'' ''senior-dev'' ''Implement the requested change with tests'',
        workflowStep ''step2'' ''senior-dev'' ''tester'' ''Run and extend the test suite for the change'',
        workflowStep ''step3'' ''tester'' ''security'' ''Security-audit the change''], wt_gates = None\<rparr>,
     \<lparr>wt_id = ''feature-implement'', wt_name = ''Feature Implementation'',
      wt_description = ''Architect designs, Senior dev implements, QA validates'',
      wt_steps = [
        workflowStep ''step1'' ''pm'' ''architect'' ''Produce a design spec for the feature'',
        workflowStep ''step2'' ''architect'' ''senior-dev'' ''Implement the design spec'',
        workflowStep ''step3'' ''senior-dev'' ''tester'' ''Validate the implementation''], wt_gates = None\<rparr>,
     \<lparr>wt_id = ''bug-fix'', wt_name = ''Bug Fix Pipeline'',
      wt_description = ''Tester reproduces, Senior dev fixes, Tester verifies'',
      wt_steps = [
        workflowStep ''step1'' ''pm'' ''senior-dev'' ''Diagnose and fix the reported bug'',
        workflowStep ''step2'' ''senior-dev'' ''tester'' ''Verify the fix and guard it with a regression test''],
      wt_gates = None\<rparr>,
     \<lparr>wt_id = ''docs-generate'', wt_name = ''Documentation Generation'',
      wt_description = ''Senior dev explains code, Tech writer documents'',
      wt_steps = [workflowStep ''step1'' ''senior-dev'' ''tech-writer'' ''Document the code/system for developers''],
      wt_gates = None\<rparr>,
     \<lparr>wt_id = ''feature-gated'', wt_name = ''Feature (Gated, cost-optimized)'',
      wt_description = ''Architect designs, Dev implements, run_checks gate, QA validates'',
      wt_steps = [
        workflowStep ''design'' ''pm'' ''architect'' ''Design the feature + public contracts'',
        workflowStep ''code'' ''architect'' ''senior-dev'' ''Implement to the contracts with tests'',
        workflowStep ''qa'' ''senior-dev'' ''tester'' ''Validate the implementation''],
      wt_gates = Some [\<lparr>wg_after = ''code'', wg_objective = True, wg_onPass = Some [(''senior-dev'', Economy)],
        wg_onFail = Some \<lparr>gf_setTier = Some [(''senior-dev'', Premium)], gf_maxRetries = Some 2, gf_route = None,
          gf_onExhaust = Some ExhaustHuman\<rparr>\<rparr>]\<rparr>]"

definition isStandardWorkflow :: "string \<Rightarrow> bool" where
  "isStandardWorkflow i \<longleftrightarrow> list_ex (\<lambda>t. wt_id t = i) standardWorkflows"

datatype template_ref = ById string | Given wf_template

definition resolveTemplate :: "template_ref \<Rightarrow> wf_template option" where
  "resolveTemplate v = (case v of Given t \<Rightarrow> Some t | ById i \<Rightarrow> find (\<lambda>t. wt_id t = i) standardWorkflows)"

definition missing_agents :: "wf_deps \<Rightarrow> wf_step list \<Rightarrow> string list" where
  "missing_agents d steps =
     foldl (\<lambda>m s. if dp_resolve d (ws_to s) = None then set_add (ws_to s) m else m) [] steps"

definition begin_run :: "string \<Rightarrow> string \<Rightarrow> wf_template \<Rightarrow> (string, js_value) jsmap \<Rightarrow> wf_instance" where
  "begin_run runId now t seed =
     \<lparr>wi_id = runId,
      wi_config = \<lparr>wc_id = wt_id t, wc_name = wt_name t, wc_description = wt_description t, wc_steps = wt_steps t\<rparr>,
      wi_status = WfRunning, wi_currentStep = (case wt_steps t of [] \<Rightarrow> None | s # _ \<Rightarrow> Some (ws_id s)),
      wi_startedAt = now, wi_completedAt = None,
      wi_context = \<lparr>cx_values = seed, cx_transitions = 0, cx_attempts = [], cx_unverifiedGates = [],
        cx_blockedReason = None, cx_gates = None\<rparr>\<rparr>"

text \<open>Registering a run: its workspace, its gates, its subscription.\<close>

definition register_run :: "wf_deps \<Rightarrow> wf_instance \<Rightarrow> wf_gate list option \<Rightarrow> wf_engine \<Rightarrow> wf_instance \<times> wf_engine" where
  "register_run d i gates e =
     (let e1 = (case dp_workspaceRoot d of
                  Some rt \<Rightarrow> e\<lparr>en_runWorkspaces := js_set (wi_id i) rt (en_runWorkspaces e)\<rparr> | None \<Rightarrow> e);
          (i1, e2) = (case gates of
                  Some (g # gs) \<Rightarrow> (i\<lparr>wi_context := (wi_context i)\<lparr>cx_gates := Some (g # gs)\<rparr>\<rparr>,
                                    e1\<lparr>en_gatesByRun := js_set (wi_id i) (g # gs) (en_gatesByRun e1)\<rparr>)
                | _ \<Rightarrow> (i, e1))
      in (i1, put_run i1 (e2\<lparr>en_listeners := set_add (wi_id i) (en_listeners e2)\<rparr>)))"

definition run_workflow ::
    "wf_deps \<Rightarrow> string \<Rightarrow> string \<Rightarrow> template_ref \<Rightarrow> (string, js_value) jsmap \<Rightarrow> wf_engine \<Rightarrow>
     string + wf_engine \<times> wf_effect list" where
  "run_workflow d runId now v seed e =
     (case resolveTemplate v of
        None \<Rightarrow> Inl (''Workflow template '' @ [CHR 0x27] @ (case v of ById i \<Rightarrow> i | Given t \<Rightarrow> wt_id t) @ [CHR 0x27] @ '' not found'')
      | Some t \<Rightarrow>
          if missing_agents d (wt_steps t) \<noteq> []
          then Inl (''Workflow needs agents for: '' @ join_with '', '' (missing_agents d (wt_steps t))
                  @ ''. Add them to your team first.'')
          else (case register_run d (begin_run runId now t seed) (wt_gates t) e of (i, e1) \<Rightarrow>
                  (case dispatchCurrent d now i e1 of (e2, fx) \<Rightarrow> Inr (e2, Changed # fx))))"

definition isRestorable :: "wf_deps \<Rightarrow> wf_engine \<Rightarrow> wf_instance \<Rightarrow> bool" where
  "isRestorable d e i \<longleftrightarrow> wi_status i = WfRunning \<and> \<not> js_has (en_runs e) (wi_id i)
     \<and> (case step_of i of Some s \<Rightarrow> dp_resolve d (ws_to s) \<noteq> None | None \<Rightarrow> False)"

definition restore_one ::
    "wf_deps \<Rightarrow> string \<Rightarrow> wf_engine \<times> wf_effect list \<Rightarrow> wf_instance \<Rightarrow> wf_engine \<times> wf_effect list" where
  "restore_one d now acc i =
     (case acc of (e, fx) \<Rightarrow>
        if \<not> isRestorable d e i then (e, fx)
        else case register_run d i (cx_gates (wi_context i)) e of (i1, e1) \<Rightarrow>
          (case dispatchCurrent d now i1 e1 of (e2, fx2) \<Rightarrow> (e2, fx @ fx2)))"

definition restore_runs :: "wf_deps \<Rightarrow> string \<Rightarrow> wf_instance list \<Rightarrow> wf_engine \<Rightarrow> wf_engine \<times> wf_effect list" where
  "restore_runs d now instances e =
     (case foldl (restore_one d now) (e, []) instances of (e1, fx) \<Rightarrow> (e1, fx @ [Changed]))"

definition exportState :: "wf_engine \<Rightarrow> wf_instance list" where
  "exportState e = filter (\<lambda>i. wi_status i = WfRunning) (js_values (en_runs e))"

definition cancel_run :: "string \<Rightarrow> string \<Rightarrow> wf_engine \<Rightarrow> wf_engine \<times> wf_effect list" where
  "cancel_run now runId e =
     (case js_get (en_runs e) runId of
        None \<Rightarrow> (e, [])
      | Some i \<Rightarrow> if wi_status i \<noteq> WfRunning then (e, []) else (finish_run now i WfCancelled e, [Changed]))"

subsection \<open>Workflows a team saves\<close>

definition prepareStep :: "wf_step \<Rightarrow> wf_step" where
  "prepareStep s = s\<lparr>ws_id := js_trim (ws_id s), ws_from := js_trim (ws_from s), ws_to := js_trim (ws_to s),
     ws_branches := map_option (map (\<lambda>b. case migrateWorkflowBranchLabel b of (l, f) \<Rightarrow>
       \<lparr>br_label = JString l, br_whenResultContains = JUndefined, br_fallback = (if f then JBool True else JUndefined),
        br_goto = js_trim (br_goto b)\<rparr>)) (ws_branches s)\<rparr>"

definition prepareWorkflow :: "wf_config \<Rightarrow> wf_config" where
  "prepareWorkflow w = w\<lparr>wc_id := js_trim (wc_id w), wc_name := js_trim (wc_name w), wc_steps := map prepareStep (wc_steps w)\<rparr>"

definition customWorkflowError :: "wf_config \<Rightarrow> string option" where
  "customWorkflowError w =
     (if wc_id w = [] then Some ''Workflow id is required.''
      else if wc_name w = [] then Some ''Workflow name is required.''
      else if isStandardWorkflow (wc_id w)
      then Some (''Workflow '' @ quoted (wc_id w) @ '' is built-in and cannot be overwritten.'')
      else validateWorkflowGotos w)"

text \<open>The store holds the saved workflows; \<^const>\<open>None\<close> when there is no store.\<close>

definition saveWorkflow :: "wf_config list option \<Rightarrow> wf_config \<Rightarrow> wf_config list option \<times> string option" where
  "saveWorkflow store raw =
     (let w = prepareWorkflow raw in
      case customWorkflowError w of
        Some err \<Rightarrow> (store, Some err)
      | None \<Rightarrow>
          (case store of
             None \<Rightarrow> (store, Some ''Workflow persistence is not available.'')
           | Some saved \<Rightarrow> (Some (filter (\<lambda>c. wc_id c \<noteq> wc_id w) saved @ [w]), None)))"

definition deleteWorkflow :: "wf_config list option \<Rightarrow> string \<Rightarrow> wf_config list option" where
  "deleteWorkflow store i =
     (if isStandardWorkflow i then store else map_option (filter (\<lambda>c. wc_id c \<noteq> i)) store)"

definition templateFromConfig :: "wf_config \<Rightarrow> wf_template" where
  "templateFromConfig w = \<lparr>wt_id = wc_id w, wt_name = wc_name w, wt_description = wc_description w,
     wt_steps = wc_steps w, wt_gates = None\<rparr>"

definition listWorkflows :: "wf_config list option \<Rightarrow> wf_template list" where
  "listWorkflows store = standardWorkflows @ map templateFromConfig (case store of Some saved \<Rightarrow> saved | None \<Rightarrow> [])"

end
