(* ===== verification/WorkflowRunLaws.thy ===== *)
theory WorkflowRunLaws
  imports WorkflowRuns
begin

text \<open>
  What the workflow engine guarantees: every run hands out boundedly many tasks, whatever arrives in whatever
  order; a step behind a gate is reached only past its check; a run that has ended stays as it is.

  The bound is by a potential of a run: the jumps it may still take, times its length, the retries its gates
  still allow, and the steps after the current one. Each assignment uses some of it up.
\<close>

section \<open>The potential of a run\<close>

definition assigned :: "string \<Rightarrow> wf_effect list \<Rightarrow> nat" where
  "assigned r fx = length (filter (\<lambda>f. case f of Assign r' _ _ _ _ _ _ \<Rightarrow> r' = r | _ \<Rightarrow> False) fx)"

lemma assigned_simps [simp]:
  "assigned r [] = 0" "assigned r (fx @ gx) = assigned r fx + assigned r gx"
  "assigned r (Assign r' a b c d l x # fx) = (if r' = r then 1 else 0) + assigned r fx"
  "assigned r (SwitchTiers t # fx) = assigned r fx" "assigned r (RunChecks n # fx) = assigned r fx"
  "assigned r (NotifyUser s # fx) = assigned r fx" "assigned r (Changed # fx) = assigned r fx"
  by (simp_all add: assigned_def)

definition attempts_of :: "wf_instance \<Rightarrow> string \<Rightarrow> nat" where
  "attempts_of i g = (case js_get (cx_attempts (wi_context i)) g of Some n \<Rightarrow> n | None \<Rightarrow> 0)"

definition retries_left :: "wf_gate list \<Rightarrow> wf_instance \<Rightarrow> nat" where
  "retries_left gs i = sum_list (map (\<lambda>g. max_retries g - attempts_of i (wg_after g)) gs)"

definition step_index :: "wf_instance \<Rightarrow> nat option" where
  "step_index i = find_index (\<lambda>s. Some (ws_id s) = wi_currentStep i) (wc_steps (wi_config i))"

definition steps_left :: "wf_instance \<Rightarrow> nat" where
  "steps_left i = (case step_index i of Some k \<Rightarrow> length (wc_steps (wi_config i)) - 1 - k | None \<Rightarrow> 0)"

definition jumps_left :: "wf_instance \<Rightarrow> nat" where
  "jumps_left i = (transitionBudget - cx_transitions (wi_context i)) * length (wc_steps (wi_config i))"

definition budget :: "wf_gate list \<Rightarrow> wf_instance \<Rightarrow> nat" where
  "budget gs i = jumps_left i + retries_left gs i + steps_left i"

definition weight :: "wf_gate list \<Rightarrow> wf_instance \<Rightarrow> nat" where
  "weight gs i = (if wi_status i = WfRunning then budget gs i else 0)"

lemma steps_left_cong:
  assumes "wi_config j = wi_config i" and "wi_currentStep j = wi_currentStep i"
  shows "steps_left j = steps_left i"
proof -
  have "step_index j = step_index i" by (simp add: step_index_def assms)
  then show ?thesis by (cases "step_index i") (simp_all add: steps_left_def assms(1))
qed

lemma jumps_left_cong:
  "wi_config j = wi_config i \<Longrightarrow> cx_transitions (wi_context j) = cx_transitions (wi_context i) \<Longrightarrow> jumps_left j = jumps_left i"
  by (simp add: jumps_left_def)

lemma retries_left_cong: "cx_attempts (wi_context j) = cx_attempts (wi_context i) \<Longrightarrow> retries_left gs j = retries_left gs i"
  by (simp add: retries_left_def attempts_of_def)

lemma budget_cong:
  "wi_config j = wi_config i \<Longrightarrow> wi_currentStep j = wi_currentStep i \<Longrightarrow>
     cx_transitions (wi_context j) = cx_transitions (wi_context i) \<Longrightarrow>
     cx_attempts (wi_context j) = cx_attempts (wi_context i) \<Longrightarrow> budget gs j = budget gs i"
  by (simp add: budget_def steps_left_cong [of j i] jumps_left_cong [of j i] retries_left_cong [of j i])

lemma find_index_Some:
  "find_index P xs = Some k \<Longrightarrow> k < length xs \<and> P (xs ! k)"
  by (induction xs arbitrary: k) (auto split: if_splits)

lemma find_index_distinct:
  "distinct (map f xs) \<Longrightarrow> k < length xs \<Longrightarrow> find_index (\<lambda>x. Some (f x) = Some (f (xs ! k))) xs = Some k"
proof (induction xs arbitrary: k)
  case (Cons x xs)
  show ?case
  proof (cases k)
    case (Suc j)
    with Cons.prems(2) have "f (xs ! j) \<in> f ` set xs" by simp
    with Cons.prems(1) have "f x \<noteq> f (xs ! j)" by auto
    with Suc Cons show ?thesis by simp
  qed simp
qed simp

lemma find_Some_in: "find P xs = Some x \<Longrightarrow> x \<in> set xs \<and> P x"
  by (induction xs) (auto split: if_splits)

text \<open>A step that exists is found, at an index below the length.\<close>

lemma steps_left_less: "s \<in> set (wc_steps (wi_config i)) \<Longrightarrow> steps_left (i\<lparr>wi_currentStep := Some (ws_id s)\<rparr>) < length (wc_steps (wi_config i))"
  by (cases "wc_steps (wi_config i)") (auto simp: steps_left_def split: option.split)

section \<open>What a transition leaves behind\<close>

text \<open>Every transition of a run ends by storing an instance, detached when it runs no more.\<close>

definition stored :: "wf_engine \<Rightarrow> wf_instance \<Rightarrow> wf_engine \<Rightarrow> bool" where
  "stored e i e' \<longleftrightarrow> e' = (if wi_status i = WfRunning then put_run i e else detach (wi_id i) (put_run i e))"

text \<open>
  A transition from the instance \<open>i\<close> within the potential \<open>b\<close>: it stores an instance of the same run,
  assigns only for that run, and, if its steps have different ids, what it assigns and what is left do not
  exceed \<open>b\<close>.
\<close>

definition ids_differ :: "wf_instance \<Rightarrow> bool" where
  "ids_differ i \<longleftrightarrow> distinct (map ws_id (wc_steps (wi_config i)))"

definition within_budget ::
    "wf_gate list \<Rightarrow> nat \<Rightarrow> wf_instance \<Rightarrow> wf_engine \<Rightarrow> wf_engine \<times> wf_effect list \<Rightarrow> bool" where
  "within_budget gs b i e res \<longleftrightarrow>
     (\<exists>i'. stored e i' (fst res) \<and> wi_id i' = wi_id i \<and> wi_config i' = wi_config i
        \<and> (ids_differ i \<longrightarrow> assigned (wi_id i) (snd res) + weight gs i' \<le> b) \<and> (\<forall>r. r \<noteq> wi_id i \<longrightarrow> assigned r (snd res) = 0))"

lemma within_budget_finish:
  "st \<noteq> WfRunning \<Longrightarrow> wi_id j = wi_id i \<Longrightarrow> wi_config j = wi_config i \<Longrightarrow> \<forall>r. assigned r fx = 0 \<Longrightarrow>
     within_budget gs b i e (finish_run now j st e, fx)"
  unfolding within_budget_def
  by (rule exI [of _ "j\<lparr>wi_status := st, wi_completedAt := Some now\<rparr>"]) (simp add: stored_def finish_run_def weight_def)

lemma within_budget_mono:
  "within_budget gs b i e res \<Longrightarrow> (ids_differ i \<Longrightarrow> b \<le> b') \<Longrightarrow> within_budget gs b' i e res"
  unfolding within_budget_def by (meson order_trans)

lemma within_budget_effects:
  "within_budget gs b i e (e', fx) \<Longrightarrow> \<forall>r. assigned r pre = 0 \<Longrightarrow> \<forall>r. assigned r post = 0 \<Longrightarrow>
     within_budget gs b i e (e', pre @ fx @ post)"
  unfolding within_budget_def by simp

lemma within_budget_same:
  "wi_id j = wi_id i \<Longrightarrow> wi_config j = wi_config i \<Longrightarrow> within_budget gs b j e res \<Longrightarrow> within_budget gs b i e res"
  unfolding within_budget_def ids_differ_def by simp

lemma assign_step_within:
  assumes "wi_status i = WfRunning"
  shows "within_budget gs (Suc (budget gs (i\<lparr>wi_currentStep := Some (ws_id s)\<rparr>))) i e (assign_step d now i s e)"
proof (cases "dp_resolve d (ws_to s)")
  case None
  then show ?thesis by (simp add: assign_step_def within_budget_finish)
next
  case (Some recipient)
  let ?i = "i\<lparr>wi_currentStep := Some (ws_id s)\<rparr>"
  have "stored e ?i (fst (assign_step d now i s e))" using Some assms by (simp add: assign_step_def stored_def Let_def)
  moreover have "assigned r (snd (assign_step d now i s e)) = (if r = wi_id i then 1 else 0)" for r
    using Some by (simp add: assign_step_def Let_def)
  ultimately show ?thesis unfolding within_budget_def
    by (intro exI [of _ ?i]) (simp add: weight_def assms)
qed

definition completed_at :: "wf_config \<Rightarrow> string option \<Rightarrow> (wf_step \<times> wf_step option) option" where
  "completed_at cfg st =
     map_option (\<lambda>k. (wc_steps cfg ! k, if Suc k < length (wc_steps cfg) then Some (wc_steps cfg ! Suc k) else None))
       (find_index (\<lambda>s. Some (ws_id s) = st) (wc_steps cfg))"

lemma completed_step_at: "completed_step i = completed_at (wi_config i) (wi_currentStep i)"
  by (simp add: completed_step_def completed_at_def Let_def)

lemma moveForward_within:
  assumes "wi_status i = WfRunning" and "following = None \<or> completed_step i = Some (c, following)"
  shows "within_budget gs (budget gs i) i e (moveForward d now i following e)"
proof (cases following)
  case None
  then show ?thesis by (simp add: moveForward_def within_budget_finish)
next
  case (Some s)
  show ?thesis
  proof (cases "ws_autoTransition s")
    case False
    with Some have "moveForward d now i following e = (put_run i e, [])" by (simp add: moveForward_def)
    with assms(1) show ?thesis unfolding within_budget_def
      by (intro exI [of _ i]) (simp add: stored_def weight_def)
  next
    case True
    let ?i = "i\<lparr>wi_currentStep := Some (ws_id s)\<rparr>"
    let ?steps = "wc_steps (wi_config i)"
    from assms(2) Some obtain k where k: "step_index i = Some k" "Suc k < length ?steps" "s = ?steps ! Suc k"
      by (auto simp: completed_step_def step_index_def Let_def split: if_splits)
    have "Suc (budget gs ?i) \<le> budget gs i" if "ids_differ i"
    proof -
      have "step_index ?i = Some (Suc k)"
        using find_index_distinct [OF that [unfolded ids_differ_def] k(2)] by (simp add: step_index_def k(3))
      then have "Suc (steps_left ?i) \<le> steps_left i" using k(1,2) by (simp add: steps_left_def)
      then show ?thesis by (simp add: budget_def jumps_left_def retries_left_def attempts_of_def)
    qed
    with assign_step_within [OF assms(1), of gs s e d now] True Some show ?thesis
      by (auto simp: moveForward_def intro: within_budget_mono)
  qed
qed

lemma takeBranch_within:
  assumes "wi_status i = WfRunning"
  shows "within_budget gs (budget gs i) i e (takeBranch d now i target e)"
proof (cases "find (\<lambda>s. ws_id s = target) (wc_steps (wi_config i))")
  case None
  then show ?thesis by (simp add: takeBranch_def within_budget_finish)
next
  case (Some s)
  let ?n = "length (wc_steps (wi_config i))"
  let ?t = "cx_transitions (wi_context i)"
  let ?i = "i\<lparr>wi_context := (wi_context i)\<lparr>cx_transitions := ?t + 1\<rparr>\<rparr>"
  show ?thesis
  proof (cases "?t + 1 \<le> transitionBudget")
    case False
    with Some show ?thesis by (simp add: takeBranch_def Let_def within_budget_finish)
  next
    case True
    let ?j = "?i\<lparr>wi_currentStep := Some (ws_id s)\<rparr>"
    from find_Some_in [OF Some] have "s \<in> set (wc_steps (wi_config ?i))" by simp
    from steps_left_less [OF this] have left: "Suc (steps_left ?j) \<le> ?n" by simp
    have "transitionBudget - ?t = Suc (transitionBudget - (?t + 1))" using True by simp
    then have "jumps_left i = ?n + jumps_left ?j" by (simp add: jumps_left_def)
    moreover have "retries_left gs ?j = retries_left gs i" by (simp add: retries_left_def attempts_of_def)
    ultimately have "Suc (budget gs ?j) \<le> budget gs i" using left by (simp add: budget_def)
    moreover have "within_budget gs (Suc (budget gs ?j)) ?i e (assign_step d now ?i s e)"
      using assms by (intro assign_step_within) simp
    ultimately have "within_budget gs (budget gs i) ?i e (assign_step d now ?i s e)" by (blast intro: within_budget_mono)
    then have "within_budget gs (budget gs i) i e (assign_step d now ?i s e)"
      by (rule within_budget_same [rotated 2]) simp_all
    with Some True show ?thesis by (simp add: takeBranch_def Let_def)
  qed
qed

lemma sum_list_less:
  fixes f h :: "'a \<Rightarrow> nat"
  shows "x \<in> set xs \<Longrightarrow> \<forall>y \<in> set xs. f y \<le> h y \<Longrightarrow> f x < h x \<Longrightarrow> sum_list (map f xs) < sum_list (map h xs)"
proof (induction xs)
  case (Cons y ys)
  have "sum_list (map f ys) \<le> sum_list (map h ys)" using Cons.prems(2) by (intro sum_list_mono) auto
  with Cons show ?case by (cases "x \<in> set ys") (auto intro: add_le_less_mono add_less_le_mono)
qed simp

text \<open>An attempt at a gate never adds to what is left, and a retry that is still allowed uses one up.\<close>

lemma incrementAttempt_frame:
  assumes "incrementAttempt i a = (i1, n)"
  shows "wi_id i1 = wi_id i" "wi_config i1 = wi_config i" "wi_status i1 = wi_status i" "wi_currentStep i1 = wi_currentStep i"
    "jumps_left i1 = jumps_left i" "steps_left i1 = steps_left i"
    "attempts_of i1 b = (if b = a then Suc (attempts_of i a) else attempts_of i b)" "n = Suc (attempts_of i a)"
  using assms
  by (auto simp: incrementAttempt_def Let_def attempts_of_def intro!: steps_left_cong jumps_left_cong)

lemma retries_left_attempt:
  assumes "incrementAttempt i (wg_after g) = (i1, n)"
  shows "retries_left gs i1 \<le> retries_left gs i"
    and "g \<in> set gs \<Longrightarrow> n \<le> max_retries g \<Longrightarrow> retries_left gs i1 < retries_left gs i"
proof -
  note frame = incrementAttempt_frame [OF assms]
  have le: "\<forall>h \<in> set gs. max_retries h - attempts_of i1 (wg_after h) \<le> max_retries h - attempts_of i (wg_after h)"
    by (simp add: frame(7) diff_le_mono2)
  then show "retries_left gs i1 \<le> retries_left gs i"
    unfolding retries_left_def by (intro sum_list_mono) auto
  show "retries_left gs i1 < retries_left gs i" if "g \<in> set gs" "n \<le> max_retries g"
    unfolding retries_left_def
    using that(2) frame(8) by (intro sum_list_less [OF that(1) le]) (simp add: frame(7))
qed

lemma apply_decision_within:
  assumes run: "wi_status i = WfRunning" and at: "completed_step i = Some (gc_completed c, gc_following c)"
    and gate: "gc_gate c \<in> set gs" and att: "incrementAttempt i (wg_after (gc_gate c)) = (i1, n)"
  shows "within_budget gs (budget gs i) i e (apply_decision d now c (decideGate (gc_gate c) ok n) i1 e)"
proof -
  note frame = incrementAttempt_frame [OF att]
  let ?dec = "decideGate (gc_gate c) ok n"
  have le: "budget gs i1 \<le> budget gs i"
    using retries_left_attempt(1) [OF att, of gs] by (simp add: budget_def frame)
  have core: "within_budget gs (budget gs i) i1 e
     (if gd_proceed ?dec then moveForward d now i1 (gc_following c) e
      else if gd_retry ?dec
      then assign_step d now i1
             (case gd_route ?dec of Some (r # rs) \<Rightarrow> (gc_completed c)\<lparr>ws_to := r # rs\<rparr> | _ \<Rightarrow> gc_completed c) e
      else (finish_run now i1 (if gd_escalate ?dec = EscalateHuman then WfPaused else WfFailed) e, []))"
    (is "within_budget gs _ i1 e ?res")
  proof -
    consider "gd_proceed ?dec" | "\<not> gd_proceed ?dec" "gd_retry ?dec" | "\<not> gd_proceed ?dec" "\<not> gd_retry ?dec" by blast
    then show ?thesis
    proof cases
      case 1
      have "completed_step i1 = Some (gc_completed c, gc_following c)" using at by (simp add: completed_step_at frame)
      then have "within_budget gs (budget gs i1) i1 e (moveForward d now i1 (gc_following c) e)"
        using run by (intro moveForward_within [where c = "gc_completed c"]) (simp_all add: frame)
      with 1 le show ?thesis by (auto intro: within_budget_mono)
    next
      case 2
      let ?s = "case gd_route ?dec of Some (r # rs) \<Rightarrow> (gc_completed c)\<lparr>ws_to := r # rs\<rparr> | _ \<Rightarrow> gc_completed c"
      have n: "n \<le> max_retries (gc_gate c)" using 2 by (auto simp: decideGate_def Let_def split: if_splits)
      have same: "ws_id ?s = ws_id (gc_completed c)" by (simp split: option.split list.split)
      from at have "wi_currentStep i = Some (ws_id (gc_completed c))"
        by (auto simp: completed_step_def Let_def dest: find_index_Some)
      then have "i1\<lparr>wi_currentStep := Some (ws_id ?s)\<rparr> = i1" using frame(4) same by simp
      then have "within_budget gs (Suc (budget gs i1)) i1 e (assign_step d now i1 ?s e)"
        using assign_step_within [of i1 gs ?s e d now] run frame(3) by simp
      moreover have "Suc (budget gs i1) \<le> budget gs i"
        using retries_left_attempt(2) [OF att gate n] by (simp add: budget_def frame)
      ultimately show ?thesis using 2 by (auto intro: within_budget_mono)
    next
      case 3
      then show ?thesis by (simp add: within_budget_finish)
    qed
  qed
  obtain e1 fx where res: "?res = (e1, fx)" by (cases ?res)
  have "within_budget gs (budget gs i) i1 e (e1,
      (case gd_applyTiers ?dec of Some t \<Rightarrow> if dp_tierController d then [SwitchTiers t] else [] | None \<Rightarrow> []) @ fx @ [Changed])"
    using core unfolding res by (rule within_budget_effects) (simp_all split: option.split)
  then have "within_budget gs (budget gs i) i e (e1,
      (case gd_applyTiers ?dec of Some t \<Rightarrow> if dp_tierController d then [SwitchTiers t] else [] | None \<Rightarrow> []) @ fx @ [Changed])"
    by (rule within_budget_same [OF frame(1,2)])
  then show ?thesis unfolding apply_decision_def Let_def res by simp
qed

lemma continue_unverified_within:
  assumes "wi_status i = WfRunning" and "completed_step i = Some (gc_completed c, gc_following c)"
  shows "within_budget gs (budget gs i) i e (continue_unverified d now c out i e)"
proof -
  define reason where "reason = (case out of Some o' \<Rightarrow> o' | None \<Rightarrow> ''The check could not run.'')"
  let ?i = "i\<lparr>wi_context := (wi_context i)\<lparr>cx_unverifiedGates :=
      cx_unverifiedGates (wi_context i) @ [(wg_after (gc_gate c), reason)]\<rparr>\<rparr>"
  have same: "budget gs ?i = budget gs i"
    by (rule budget_cong) simp_all
  have "within_budget gs (budget gs ?i) ?i e (moveForward d now ?i (gc_following c) e)"
    using assms by (intro moveForward_within [where c = "gc_completed c"]) (simp_all add: completed_step_at)
  moreover obtain e1 fx where res: "moveForward d now ?i (gc_following c) e = (e1, fx)"
    by (cases "moveForward d now ?i (gc_following c) e")
  ultimately have "within_budget gs (budget gs i) i e (e1, fx)"
    using same by (intro within_budget_same [of ?i i]) simp_all
  then show ?thesis
    unfolding continue_unverified_def Let_def reason_def [symmetric] res
    by (cases "dp_notifyUser d") (auto dest: within_budget_effects [where pre = "[NotifyUser n]" and post = "[Changed]" for n]
      within_budget_effects [where pre = "[]" and post = "[Changed]"])
qed

section \<open>The engine around the runs\<close>

definition gates_of :: "wf_engine \<Rightarrow> string \<Rightarrow> wf_gate list" where
  "gates_of e r = (case js_get (en_gatesByRun e) r of Some gs \<Rightarrow> gs | None \<Rightarrow> [])"

definition potential :: "wf_engine \<Rightarrow> string \<Rightarrow> nat" where
  "potential e r = (case js_get (en_runs e) r of Some i \<Rightarrow> weight (gates_of e r) i | None \<Rightarrow> 0)"

text \<open>The check that is registered for a run is one of its gates, at the step it was started for.\<close>

definition check_ok :: "wf_engine \<Rightarrow> gate_check \<Rightarrow> bool" where
  "check_ok e c \<longleftrightarrow> js_get (en_gateChecks e) (gc_run c) = Some (gc_token c) \<longrightarrow>
     (\<exists>i. js_get (en_runs e) (gc_run c) = Some i
        \<and> find (\<lambda>g. wg_after g = ws_id (gc_completed c)) (gates_of e (gc_run c)) = Some (gc_gate c)
        \<and> completed_at (wi_config i) (gc_step c) = Some (gc_completed c, gc_following c))"

text \<open>Runs are stored under their ids, tokens are not reused, and only known runs have gates or a check.\<close>

definition engine_ok :: "wf_engine \<Rightarrow> bool" where
  "engine_ok e \<longleftrightarrow>
     (\<forall>s i. js_get (en_runs e) s = Some i \<longrightarrow> wi_id i = s)
   \<and> (\<forall>c \<in> set (en_waiting e). gc_token c < en_nextToken e \<and> check_ok e c)
   \<and> (\<forall>s k. js_get (en_gateChecks e) s = Some k \<longrightarrow> js_has (en_runs e) s)
   \<and> (\<forall>s gs. js_get (en_gatesByRun e) s = Some gs \<longrightarrow> js_has (en_runs e) s)"

text \<open>The runs the bound is about: those whose steps have different ids.\<close>

definition regular_run :: "wf_engine \<Rightarrow> string \<Rightarrow> bool" where
  "regular_run e r \<longleftrightarrow> (\<exists>i. js_get (en_runs e) r = Some i \<and> ids_differ i)"

lemma stored_frame:
  assumes "stored e i e'"
  shows "en_waiting e' = en_waiting e" "en_nextToken e' = en_nextToken e"
    "js_get (en_runs e') s = (if s = wi_id i then Some i else js_get (en_runs e) s)"
    "s \<noteq> wi_id i \<or> wi_status i = WfRunning \<Longrightarrow> js_get (en_gateChecks e') s = js_get (en_gateChecks e) s"
    "s \<noteq> wi_id i \<or> wi_status i = WfRunning \<Longrightarrow> js_get (en_gatesByRun e') s = js_get (en_gatesByRun e) s"
    "wi_status i \<noteq> WfRunning \<Longrightarrow> js_get (en_gateChecks e') (wi_id i) = None"
  using assms by (auto simp: stored_def put_run_def detach_def)

lemma stored_gates: "stored e i e' \<Longrightarrow> s \<noteq> wi_id i \<or> wi_status i = WfRunning \<Longrightarrow> gates_of e' s = gates_of e s"
  unfolding gates_of_def by (subst stored_frame(5)) auto

lemma stored_check_ok:
  assumes st: "stored e i e'" and old: "js_get (en_runs e) (wi_id i) = Some j" "wi_config i = wi_config j"
    and ok: "check_ok e c"
  shows "check_ok e' c"
proof (cases "gc_run c = wi_id i \<and> wi_status i \<noteq> WfRunning")
  case True
  with stored_frame(6) [OF st] show ?thesis by (simp add: check_ok_def)
next
  case False
  then have same: "gc_run c \<noteq> wi_id i \<or> wi_status i = WfRunning" by blast
  show ?thesis
  proof (cases "gc_run c = wi_id i")
    case True
    with ok old stored_frame(3,4) [OF st] stored_gates [OF st same] same show ?thesis
      by (simp add: check_ok_def)
  next
    case False
    with ok stored_frame(3,4) [OF st] stored_gates [OF st same] show ?thesis by (simp add: check_ok_def)
  qed
qed

lemma stored_engine_ok:
  assumes st: "stored e i e'" and old: "js_get (en_runs e) (wi_id i) = Some j" "wi_config i = wi_config j"
    and ok: "engine_ok e"
  shows "engine_ok e'"
proof -
  note frame = stored_frame [OF st]
  have checks: "js_has (en_runs e') s" if "js_get (en_gateChecks e') s = Some k" for s k
  proof (cases "s = wi_id i")
    case False
    with that frame(4) [of s] ok have "js_has (en_runs e) s" unfolding engine_ok_def by metis
    with False show ?thesis unfolding frame(3) by simp
  qed (simp add: frame(3))
  have gates: "js_has (en_runs e') s" if "js_get (en_gatesByRun e') s = Some gs" for s gs
  proof (cases "s = wi_id i")
    case False
    with that frame(5) [of s] ok have "js_has (en_runs e) s" unfolding engine_ok_def by metis
    with False show ?thesis unfolding frame(3) by simp
  qed (simp add: frame(3))
  have named: "wi_id k = s" if "js_get (en_runs e') s = Some k" for s k
    using that ok unfolding frame(3) engine_ok_def by (metis option.inject)
  have "\<forall>c \<in> set (en_waiting e'). gc_token c < en_nextToken e' \<and> check_ok e' c"
    using ok stored_check_ok [OF st old] unfolding engine_ok_def frame(1,2) by blast
  with checks gates named show ?thesis unfolding engine_ok_def by blast
qed

lemma stored_regular:
  assumes st: "stored e i e'" and old: "js_get (en_runs e) (wi_id i) = Some j" "wi_config i = wi_config j"
  shows "regular_run e r \<Longrightarrow> regular_run e' r"
  using old unfolding regular_run_def stored_frame(3) [OF st] by (cases "r = wi_id i") (auto simp: ids_differ_def)

lemma stored_potential:
  assumes "stored e i e'"
  shows "r \<noteq> wi_id i \<Longrightarrow> potential e' r = potential e r"
    and "potential e' (wi_id i) = weight (gates_of e (wi_id i)) i"
proof -
  show "r \<noteq> wi_id i \<Longrightarrow> potential e' r = potential e r"
    using stored_frame(3) [OF assms, of r] stored_gates [OF assms, of r]
    by (cases "js_get (en_runs e) r") (simp_all add: potential_def)
  show "potential e' (wi_id i) = weight (gates_of e (wi_id i)) i"
  proof (cases "wi_status i = WfRunning")
    case True
    with stored_frame(3) [OF assms, of "wi_id i"] stored_gates [OF assms, of "wi_id i"] show ?thesis by (simp add: potential_def)
  next
    case False
    with stored_frame(3) [OF assms, of "wi_id i"] show ?thesis by (simp add: potential_def weight_def)
  qed
qed

text \<open>
  What an operation owes: the invariant of the engine and, to a regular run, no more assignments than the
  potential it uses.
\<close>

definition pays :: "string \<Rightarrow> wf_engine \<Rightarrow> wf_engine \<times> wf_effect list \<Rightarrow> bool" where
  "pays r e res \<longleftrightarrow> engine_ok (fst res)
     \<and> (regular_run e r \<longrightarrow> regular_run (fst res) r \<and> assigned r (snd res) + potential (fst res) r \<le> potential e r)"

lemma pays_nothing: "engine_ok e \<Longrightarrow> pays r e (e, [])"
  by (simp add: pays_def)

lemma pays_then:
  assumes "pays r e (e1, fx)" and "pays r e1 (e2, gx)"
  shows "pays r e (e2, fx @ gx)"
  using assms unfolding pays_def by auto

lemma within_budget_pays:
  assumes within: "within_budget gs b i e res" and ok: "engine_ok e"
    and old: "js_get (en_runs e) (wi_id i) = Some j" "wi_config i = wi_config j"
    and enough: "wi_id i = r \<Longrightarrow> gs = gates_of e r \<and> b \<le> potential e r"
  shows "pays r e res"
proof -
  from within obtain i' where i': "stored e i' (fst res)" "wi_id i' = wi_id i" "wi_config i' = wi_config i"
      "ids_differ i \<longrightarrow> assigned (wi_id i) (snd res) + weight gs i' \<le> b" "\<forall>r. r \<noteq> wi_id i \<longrightarrow> assigned r (snd res) = 0"
    unfolding within_budget_def by blast
  have old': "js_get (en_runs e) (wi_id i') = Some j" "wi_config i' = wi_config j" using i'(2,3) old by simp_all
  have "assigned r (snd res) + potential (fst res) r \<le> potential e r" if "regular_run e r"
  proof (cases "r = wi_id i")
    case True
    then have "ids_differ i" using that old by (auto simp: regular_run_def ids_differ_def)
    with True stored_potential(2) [OF i'(1)] i'(2,4) enough show ?thesis by simp
  next
    case False
    with stored_potential(1) [OF i'(1), of r] i'(2,5) show ?thesis by simp
  qed
  then show ?thesis using stored_engine_ok [OF i'(1) old' ok] stored_regular [OF i'(1) old'] by (simp add: pays_def)
qed

section \<open>Every operation pays\<close>

lemma running_potential:
  "js_get (en_runs e) r = Some i \<Longrightarrow> wi_status i = WfRunning \<Longrightarrow> potential e r = budget (gates_of e r) i"
  by (simp add: potential_def weight_def)

lemma engine_ok_named: "engine_ok e \<Longrightarrow> js_get (en_runs e) s = Some i \<Longrightarrow> wi_id i = s"
  by (simp add: engine_ok_def)

lemma start_gate_pays:
  assumes ok: "engine_ok e" and i: "js_get (en_runs e) (wi_id i) = Some i"
    and at: "completed_step i = Some (completed, following)" and gate: "gate_after e (wi_id i) completed = Some g"
  shows "pays r e (start_gate d i g completed following e)"
proof (cases "js_has (en_gateChecks e) (wi_id i)")
  case True
  with ok show ?thesis by (simp add: start_gate_def pays_nothing)
next
  case False
  define c where "c = \<lparr>gc_token = en_nextToken e, gc_run = wi_id i, gc_gate = g, gc_completed = completed,
    gc_following = following, gc_step = wi_currentStep i, gc_root = js_get (en_runWorkspaces e) (wi_id i),
    gc_asked = (wg_objective g \<and> dp_runChecks d)\<rparr>"
  define e' where "e' = e\<lparr>en_gateChecks := js_set (wi_id i) (en_nextToken e) (en_gateChecks e),
    en_waiting := en_waiting e @ [c], en_nextToken := en_nextToken e + 1\<rparr>"
  have res: "start_gate d i g completed following e = (e', if wg_objective g \<and> dp_runChecks d then [RunChecks (en_nextToken e)] else [])"
    using False by (simp add: start_gate_def Let_def c_def e'_def)
  have same: "en_runs e' = en_runs e" "en_gatesByRun e' = en_gatesByRun e" "en_waiting e' = en_waiting e @ [c]"
      "en_nextToken e' = Suc (en_nextToken e)"
      "js_get (en_gateChecks e') s = (if s = wi_id i then Some (en_nextToken e) else js_get (en_gateChecks e) s)" for s
    by (simp_all add: e'_def)
  have gates: "gates_of e' = gates_of e" by (simp add: gates_of_def same fun_eq_iff)
  have "potential e' = potential e" unfolding potential_def same gates ..
  moreover have "engine_ok e'"
  proof -
    note eng = ok
    have "js_has (en_runs e') s" if "js_get (en_gateChecks e') s = Some k" for s k
    proof (cases "s = wi_id i")
      case False
      with that have "js_get (en_gateChecks e) s = Some k" by (simp add: same)
      with eng show ?thesis unfolding same engine_ok_def by blast
    qed (simp add: same i)
    moreover have "check_ok e' c"
    proof -
      have "find (\<lambda>g. wg_after g = ws_id completed) (gates_of e (wi_id i)) = Some g"
        using gate by (auto simp: gate_after_def gates_of_def Option.bind_eq_Some_conv)
      with i at show ?thesis by (simp add: check_ok_def same gates completed_step_at) (simp add: c_def)
    qed
    moreover have "check_ok e' c'" if "c' \<in> set (en_waiting e)" for c'
    proof -
      have "gc_token c' < en_nextToken e" "check_ok e c'" using eng that by (simp_all add: engine_ok_def)
      then show ?thesis unfolding check_ok_def same gates by (cases "gc_run c' = wi_id i") auto
    qed
    moreover have "\<forall>c' \<in> set (en_waiting e'). gc_token c' < en_nextToken e'"
      using eng by (auto simp: same engine_ok_def c_def less_Suc_eq)
    moreover have "\<forall>s i. js_get (en_runs e') s = Some i \<longrightarrow> wi_id i = s"
      using eng unfolding same engine_ok_def by blast
    moreover have "\<forall>s gs. js_get (en_gatesByRun e') s = Some gs \<longrightarrow> js_has (en_runs e') s"
      using eng unfolding same engine_ok_def by blast
    moreover have "set (en_waiting e') = insert c (set (en_waiting e))" by (simp add: same)
    ultimately show ?thesis unfolding engine_ok_def by (metis insertE)
  qed
  ultimately show ?thesis by (simp add: pays_def res regular_run_def same)
qed

lemma put_run_pays:
  assumes ok: "engine_ok e" and old: "js_get (en_runs e) (wi_id i) = Some j" "wi_config i = wi_config j"
    and run: "wi_status i = WfRunning" and enough: "wi_id i = r \<Longrightarrow> budget (gates_of e r) i \<le> potential e r"
  shows "pays r e (put_run i e, [])"
proof (rule within_budget_pays [OF _ ok old])
  show "within_budget (gates_of e (wi_id i)) (budget (gates_of e (wi_id i)) i) i e (put_run i e, [])"
    unfolding within_budget_def using run by (intro exI [of _ i]) (simp add: stored_def weight_def)
qed (use enough in simp)

lemma advance_pays:
  assumes ok: "engine_ok e" and old: "js_get (en_runs e) (wi_id i) = Some j" "wi_config i = wi_config j"
    and run: "wi_status i = WfRunning" and enough: "wi_id i = r \<Longrightarrow> budget (gates_of e r) i \<le> potential e r"
  shows "pays r e (advance_run d now i selected e)"
proof (cases "\<exists>c f g. completed_step i = Some (c, f) \<and> gate_after e (wi_id i) c = Some g")
  case True
  then obtain c f g where at: "completed_step i = Some (c, f)" and g: "gate_after e (wi_id i) c = Some g" by blast
  note put = put_run_pays [OF ok old run enough]
  have "gate_after (put_run i e) (wi_id i) c = Some g" using g by (simp add: gate_after_def put_run_def)
  then have "pays r (put_run i e) (start_gate d i g c f (put_run i e))"
    using put by (intro start_gate_pays [OF _ _ at]) (simp_all add: pays_def put_run_def)
  from pays_then [OF put, of "fst (start_gate d i g c f (put_run i e))" "snd (start_gate d i g c f (put_run i e))"] this
  show ?thesis by (simp add: advance_run_def at g)
next
  case False
  let ?gs = "gates_of e (wi_id i)"
  obtain e1 fx where within: "within_budget ?gs (budget ?gs i) i e (e1, fx)"
      and adv: "advance_run d now i selected e = (e1, [] @ fx @ [Changed])"
  proof (cases "completed_step i")
    case None
    with that [of "fst (moveForward d now i None e)" "snd (moveForward d now i None e)"] moveForward_within [OF run]
    show ?thesis by (simp add: advance_run_def split: prod.split)
  next
    case (Some p)
    obtain c f where at: "completed_step i = Some (c, f)" using Some by (cases p) auto
    with False have none: "gate_after e (wi_id i) c = None" by auto
    let ?res = "case branchDestination (ws_branches c) selected of
        Some (x # t) \<Rightarrow> takeBranch d now i (x # t) e | _ \<Rightarrow> moveForward d now i f e"
    have "within_budget ?gs (budget ?gs i) i e ?res"
      using takeBranch_within [OF run] moveForward_within [OF run, of f c] at by (auto split: option.split list.split)
    moreover have "advance_run d now i selected e = (fst ?res, snd ?res @ [Changed])"
      by (simp add: advance_run_def at none split: prod.split)
    ultimately show ?thesis using that [of "fst ?res" "snd ?res"] by simp
  qed
  from within have "within_budget ?gs (budget ?gs i) i e (e1, [] @ fx @ [Changed])"
    by (rule within_budget_effects) simp_all
  then show ?thesis unfolding adv by (rule within_budget_pays [OF _ ok old]) (use enough in simp)
qed

lemma ended_pays:
  assumes ok: "engine_ok e" and old: "js_get (en_runs e) (wi_id i) = Some j" "wi_config i = wi_config j"
    and ended: "wi_status i \<noteq> WfRunning"
  shows "pays r e (detach (wi_id i) (put_run i e), [Changed])"
proof (rule within_budget_pays [OF _ ok old])
  show "within_budget (gates_of e (wi_id i)) 0 i e (detach (wi_id i) (put_run i e), [Changed])"
    unfolding within_budget_def using ended by (intro exI [of _ i]) (simp add: stored_def weight_def)
qed simp

lemma finish_pays:
  assumes ok: "engine_ok e" and i: "js_get (en_runs e) (wi_id i) = Some i" and st: "st \<noteq> WfRunning"
  shows "pays r e (finish_run now i st e, [Changed])"
  using ended_pays [OF ok, of "i\<lparr>wi_status := st, wi_completedAt := Some now\<rparr>" i] i st by (simp add: finish_run_def)

lemma retainOutput_frame [simp]:
  "wi_id (retainOutput i out) = wi_id i" "wi_config (retainOutput i out) = wi_config i"
  "wi_status (retainOutput i out) = wi_status i" "wi_currentStep (retainOutput i out) = wi_currentStep i"
  by (simp_all add: retainOutput_def Let_def)

lemma retainOutput_budget [simp]: "budget gs (retainOutput i out) = budget gs i"
  by (rule budget_cong) (simp_all add: retainOutput_def Let_def)

lemma on_message_pays:
  assumes ok: "engine_ok e"
  shows "pays r e (on_message d now m e)"
proof (cases "\<exists>s i. wm_correlationId m = Some s \<and> js_get (en_runs e) s = Some i
    \<and> s \<in> set (en_listeners e) \<and> wi_status i = WfRunning")
  case False
  have "on_message d now m e = (e, [])"
  proof (cases "wm_correlationId m")
    case s: (Some s)
    show ?thesis
    proof (cases "js_get (en_runs e) s")
      case (Some i)
      with s False have "s \<notin> set (en_listeners e) \<or> wi_status i \<noteq> WfRunning" by blast
      with s Some show ?thesis unfolding on_message_def by simp
    qed (simp add: on_message_def s)
  qed (simp add: on_message_def)
  with ok show ?thesis by (simp add: pays_nothing)
next
  case True
  then obtain s i where s: "wm_correlationId m = Some s" "js_get (en_runs e) s = Some i" "s \<in> set (en_listeners e)"
    and run: "wi_status i = WfRunning" by blast
  have named: "wi_id i = s" using engine_ok_named [OF ok s(2)] .
  show ?thesis
  proof (cases m)
    case (TaskComplete c out label)
    have "pays r e (advance_run d now (retainOutput i out) (selectedBranch label) e)"
      using s(2) named run running_potential [of e r i] by (intro advance_pays [OF ok, of _ i]) simp_all
    with TaskComplete s run show ?thesis by (simp add: on_message_def)
  next
    case (TaskPartial c out unfinished timestamp)
    have "pays r e (acceptPartial timestamp out unfinished i e)"
      unfolding acceptPartial_def Let_def using s(2) named by (intro ended_pays [OF ok, of _ i]) simp_all
    with TaskPartial s run show ?thesis by (simp add: on_message_def)
  next
    case (SystemError c)
    with s run finish_pays [OF ok, of i WfFailed r now] named show ?thesis by (simp add: on_message_def)
  qed
qed

lemma cancel_pays: "engine_ok e \<Longrightarrow> pays r e (cancel_run now s e)"
  using finish_pays [of e _ WfCancelled r now] engine_ok_named [of e s]
  by (auto simp: cancel_run_def pays_nothing split: option.split)

text \<open>Taking a waiting check out of the engine changes nothing a run has.\<close>

definition without_check :: "nat \<Rightarrow> gate_check \<Rightarrow> bool \<Rightarrow> wf_engine \<Rightarrow> wf_engine" where
  "without_check token c aborted e = e\<lparr>en_waiting := filter (\<lambda>c. gc_token c \<noteq> token) (en_waiting e),
     en_gateChecks := (if aborted then en_gateChecks e else js_delete (gc_run c) (en_gateChecks e))\<rparr>"

lemma without_check_frame [simp]:
  "en_runs (without_check k c a e) = en_runs e" "en_gatesByRun (without_check k c a e) = en_gatesByRun e"
  "gates_of (without_check k c a e) = gates_of e"
  by (simp_all add: without_check_def gates_of_def fun_eq_iff)

lemma without_check_potential [simp]: "potential (without_check k c a e) = potential e"
  unfolding potential_def without_check_frame ..

lemma without_check_checks:
  "js_get (en_gateChecks (without_check k c a e)) s = Some n \<Longrightarrow> js_get (en_gateChecks e) s = Some n"
  by (cases a; cases "s = gc_run c") (simp_all add: without_check_def)

lemma without_check_engine_ok:
  assumes eng: "engine_ok e"
  shows "engine_ok (without_check k c a e)"
proof -
  let ?e = "without_check k c a e"
  have "check_ok ?e c'" if "c' \<in> set (en_waiting e)" for c'
    using eng that without_check_checks [of k c a e] unfolding check_ok_def engine_ok_def without_check_frame by blast
  moreover have "set (en_waiting ?e) \<subseteq> set (en_waiting e)" "en_nextToken ?e = en_nextToken e"
    by (auto simp: without_check_def)
  moreover have "\<forall>s k'. js_get (en_gateChecks ?e) s = Some k' \<longrightarrow> js_has (en_runs ?e) s"
    using eng without_check_checks [of k c a e] unfolding engine_ok_def without_check_frame by blast
  moreover have "\<forall>s gs. js_get (en_gatesByRun ?e) s = Some gs \<longrightarrow> js_has (en_runs ?e) s"
    using eng unfolding engine_ok_def without_check_frame by blast
  ultimately show ?thesis using eng unfolding engine_ok_def without_check_frame by (metis subsetD)
qed

lemma settle_gate_pays:
  assumes ok: "engine_ok e"
  shows "pays r e (settle_gate d now token ret e)"
proof (cases "find (\<lambda>c. gc_token c = token) (en_waiting e)")
  case None
  with ok show ?thesis by (simp add: settle_gate_def pays_nothing)
next
  case (Some c)
  then have c: "c \<in> set (en_waiting e)" "gc_token c = token" by (auto dest: find_Some_in)
  define aborted where "aborted = (js_get (en_gateChecks e) (gc_run c) \<noteq> Some token)"
  define e1 where "e1 = without_check token c aborted e"
  have ok1: "engine_ok e1" unfolding e1_def by (rule without_check_engine_ok [OF ok])
  have pot: "potential e1 = potential e" by (simp add: e1_def)
  define res where "res = runGateCheck c ret"
  note settle = settle_gate_def [of d now token ret e, unfolded Some option.case Let_def,
      folded aborted_def without_check_def, folded e1_def res_def]
  have "pays r e1 (settle_gate d now token ret e)"
  proof (cases "\<exists>i. js_get (en_runs e1) (gc_run c) = Some i \<and> wi_status i = WfRunning")
    case False
    then have "settle_gate d now token ret e = (e1, [])"
      unfolding settle by (cases "js_get (en_runs e1) (gc_run c)") simp_all
    with ok1 show ?thesis by (simp add: pays_nothing)
  next
    case True
    then obtain i where i: "js_get (en_runs e1) (gc_run c) = Some i" and run: "wi_status i = WfRunning" by blast
    have named: "wi_id i = gc_run c" using engine_ok_named [OF ok1 i] .
    note settle2 = settle [unfolded i option.case]
    let ?stale = "aborted \<or> wi_currentStep i \<noteq> gc_step c
       \<or> (dp_workspaceRoot d \<noteq> None \<and> dp_workspaceRoot d \<noteq> gc_root c)"
    have stopped: "pays r e1 (detach (wi_id j) (put_run j e1), [Changed])"
      if "wi_id j = wi_id i" "wi_config j = wi_config i" "wi_status j \<noteq> WfRunning" for j
      using that i named by (intro ended_pays [OF ok1, of _ i]) simp_all
    show ?thesis
    proof (cases ?stale)
      case True
      then show ?thesis using stopped [of "set_blocked
          ''The original workflow or its workspace changed during verification. No implementation retry was requested.'' i"] run
        unfolding settle2 by (simp add: set_blocked_def)
    next
      case fresh: False
      have settle3: "settle_gate d now token ret e =
         (if gr_blocked res \<and> gr_unverified res then continue_unverified d now c (gr_output res) i e1
          else if gr_blocked res
          then (detach (wi_id i) (put_run ((set_blocked (case gr_output res of Some o' \<Rightarrow> o'
              | None \<Rightarrow> ''run_checks could not run: command execution is disabled. Set unode.commandApproval to ''
                @ quoted ''allowlist'' @ '' and configure unode.verifyCommand to enable the gate.'') i)\<lparr>wi_completedAt := Some now\<rparr>) e1),
             [Changed])
          else (case incrementAttempt i (wg_after (gc_gate c)) of (i1, attempt) \<Rightarrow>
                  apply_decision d now c (decideGate (gc_gate c) (gr_ok res) attempt) i1 e1))"
        unfolding settle2 if_not_P [OF fresh] using run by simp
      from fresh have reg: "js_get (en_gateChecks e) (gc_run c) = Some (gc_token c)" and st: "wi_currentStep i = gc_step c"
        using c(2) by (simp_all add: aborted_def)
      have "check_ok e c" using ok c(1) by (simp add: engine_ok_def)
      with reg i have gate: "gc_gate c \<in> set (gates_of e1 (wi_id i))"
        and at: "completed_step i = Some (gc_completed c, gc_following c)"
        by (auto simp: check_ok_def e1_def named completed_step_at st dest: find_Some_in)
      have paid: "pays r e1 fx" if "within_budget (gates_of e1 (wi_id i)) (budget (gates_of e1 (wi_id i)) i) i e1 fx" for fx
        using that i named run running_potential [of e1 r i] by (intro within_budget_pays [OF that ok1, of i]) simp_all
      consider "gr_blocked res \<and> gr_unverified res" | "gr_blocked res \<and> \<not> gr_unverified res" | "\<not> gr_blocked res" by blast
      then show ?thesis
      proof cases
        case 1
        then have "settle_gate d now token ret e = continue_unverified d now c (gr_output res) i e1"
          unfolding settle3 by simp
        then show ?thesis using paid [OF continue_unverified_within [OF run at]] by simp
      next
        case 2
        let ?why = "case gr_output res of Some o' \<Rightarrow> o'
            | None \<Rightarrow> ''run_checks could not run: command execution is disabled. Set unode.commandApproval to ''
                @ quoted ''allowlist'' @ '' and configure unode.verifyCommand to enable the gate.''"
        let ?j = "(set_blocked ?why i)\<lparr>wi_completedAt := Some now\<rparr>"
        have "settle_gate d now token ret e = (detach (wi_id i) (put_run ?j e1), [Changed])"
          using 2 unfolding settle3 by simp
        then show ?thesis using stopped [of ?j] by (simp add: set_blocked_def)
      next
        case 3
        obtain i1 n where att: "incrementAttempt i (wg_after (gc_gate c)) = (i1, n)"
          by (cases "incrementAttempt i (wg_after (gc_gate c))")
        have "settle_gate d now token ret e = apply_decision d now c (decideGate (gc_gate c) (gr_ok res) n) i1 e1"
          using 3 att unfolding settle3 by simp
        then show ?thesis using paid [OF apply_decision_within [OF run at gate att]] by simp
      qed
    qed
  qed
  then show ?thesis by (simp add: pays_def pot regular_run_def e1_def)
qed

section \<open>Runs of the engine\<close>

text \<open>
  What can happen to an engine. Ids of new runs are random UUIDs: one that is in use is not drawn, so starting
  under such an id does nothing here; a template that cannot start leaves the engine as it is.
\<close>

datatype wf_op =
    OpMessage wf_deps string wf_message
  | OpSettle wf_deps string nat check_return
  | OpCancel string string
  | OpRun wf_deps string string template_ref "(string, js_value) jsmap"
  | OpRestore wf_deps string "wf_instance list"

definition start_op ::
    "wf_deps \<Rightarrow> string \<Rightarrow> string \<Rightarrow> template_ref \<Rightarrow> (string, js_value) jsmap \<Rightarrow> wf_engine \<Rightarrow> wf_engine \<times> wf_effect list" where
  "start_op d runId now v seed e =
     (if js_has (en_runs e) runId then (e, [])
      else case run_workflow d runId now v seed e of Inl _ \<Rightarrow> (e, []) | Inr r \<Rightarrow> r)"

fun wf_step_op :: "wf_engine \<Rightarrow> wf_op \<Rightarrow> wf_engine \<times> wf_effect list" where
  "wf_step_op e (OpMessage d now m) = on_message d now m e"
| "wf_step_op e (OpSettle d now token ret) = settle_gate d now token ret e"
| "wf_step_op e (OpCancel now runId) = cancel_run now runId e"
| "wf_step_op e (OpRun d runId now v seed) = start_op d runId now v seed e"
| "wf_step_op e (OpRestore d now is) = restore_runs d now is e"

text \<open>Registering a new run leaves every other run alone.\<close>

lemma register_frame:
  assumes "register_run d i gates e = (i1, e1)"
  shows "wi_id i1 = wi_id i" "wi_config i1 = wi_config i" "wi_status i1 = wi_status i" "wi_currentStep i1 = wi_currentStep i"
    "cx_transitions (wi_context i1) = cx_transitions (wi_context i)" "cx_attempts (wi_context i1) = cx_attempts (wi_context i)"
    "js_get (en_runs e1) s = (if s = wi_id i then Some i1 else js_get (en_runs e) s)"
    "en_gateChecks e1 = en_gateChecks e" "en_waiting e1 = en_waiting e" "en_nextToken e1 = en_nextToken e"
    "s \<noteq> wi_id i \<Longrightarrow> gates_of e1 s = gates_of e s"
    "js_get (en_gatesByRun e) (wi_id i) = None \<Longrightarrow> gates_of e1 (wi_id i) = (case gates of Some gs \<Rightarrow> gs | None \<Rightarrow> [])"
  using assms
  by (auto simp: register_run_def Let_def put_run_def gates_of_def split: option.splits list.splits prod.splits)

lemma register_engine_ok:
  assumes reg: "register_run d i gates e = (i1, e1)" and fresh: "js_get (en_runs e) (wi_id i) = None" and ok: "engine_ok e"
  shows "engine_ok e1" and "js_get (en_gatesByRun e) (wi_id i) = None"
proof -
  note frame = register_frame [OF reg]
  show none: "js_get (en_gatesByRun e) (wi_id i) = None"
    using ok fresh unfolding engine_ok_def by (cases "js_get (en_gatesByRun e) (wi_id i)") auto
  have no_check: "js_get (en_gateChecks e) (wi_id i) = None"
    using ok fresh unfolding engine_ok_def by (cases "js_get (en_gateChecks e) (wi_id i)") auto
  have has: "js_has (en_runs e) s \<Longrightarrow> js_has (en_runs e1) s" for s unfolding frame(7) by simp
  have "js_has (en_runs e1) s" if "js_get (en_gatesByRun e1) s = Some gs" for s gs
  proof (cases "s = wi_id i")
    case False
    with that reg have "js_get (en_gatesByRun e) s = Some gs"
      by (auto simp: register_run_def Let_def put_run_def split: option.splits list.splits)
    with ok have "js_has (en_runs e) s" unfolding engine_ok_def by blast
    then show ?thesis by (rule has)
  qed (simp add: frame(7))
  moreover have "check_ok e1 c" if "check_ok e c" for c
  proof (cases "gc_run c = wi_id i")
    case True
    with no_check show ?thesis by (simp add: check_ok_def frame(8))
  next
    case False
    with that frame(11) show ?thesis by (simp add: check_ok_def frame(7,8))
  qed
  moreover have "wi_id k = s" if "js_get (en_runs e1) s = Some k" for s k
    using that ok frame(1) unfolding frame(7) engine_ok_def by (cases "s = wi_id i") auto
  moreover have "js_has (en_runs e1) s" if "js_get (en_gateChecks e1) s = Some k" for s k
    using that ok has unfolding frame(8) engine_ok_def by blast
  ultimately show "engine_ok e1" using ok unfolding engine_ok_def frame(9,10) by blast
qed

lemma dispatchCurrent_within:
  assumes "wi_status i = WfRunning"
  shows "within_budget gs (Suc (budget gs i)) i e (dispatchCurrent d now i e)"
proof (cases "step_of i")
  case None
  then show ?thesis by (simp add: dispatchCurrent_def within_budget_finish)
next
  case (Some s)
  then have "Some (ws_id s) = wi_currentStep i" unfolding step_of_def by (rule find_Some_in [THEN conjunct2])
  then have "i\<lparr>wi_currentStep := Some (ws_id s)\<rparr> = i" by simp
  with assign_step_within [OF assms, of gs s e d now] Some show ?thesis by (simp add: dispatchCurrent_def)
qed

lemma started_pays:
  assumes ok: "engine_ok e" and reg: "register_run d i gates e = (i1, e1)"
    and fresh: "js_get (en_runs e) (wi_id i) = None" and run: "wi_status i = WfRunning"
  shows "pays r e (dispatchCurrent d now i1 e1)"
proof -
  note frame = register_frame [OF reg]
  note ok1 = register_engine_ok(1) [OF reg fresh ok]
  have paid: "pays s e1 (dispatchCurrent d now i1 e1)" if "s \<noteq> wi_id i" for s
    using dispatchCurrent_within [of i1] run that frame(1,3)
    by (intro within_budget_pays [OF _ ok1, of _ _ i1 _ i1]) (simp_all add: frame(7))
  show ?thesis
  proof (cases "r = wi_id i")
    case True
    then have "\<not> regular_run e r" using fresh by (simp add: regular_run_def)
    moreover obtain s where "s \<noteq> wi_id i" using that [of "CHR ''x'' # wi_id i"] by simp
    ultimately show ?thesis using paid [of s] by (simp add: pays_def)
  next
    case False
    then have "potential e1 r = potential e r"
      using frame(11) by (cases "js_get (en_runs e) r") (simp_all add: potential_def frame(7))
    moreover have "regular_run e1 r \<longleftrightarrow> regular_run e r" using False by (simp add: regular_run_def frame(7))
    ultimately show ?thesis using paid [OF False] by (simp add: pays_def)
  qed
qed

lemma start_op_pays:
  assumes ok: "engine_ok e"
  shows "pays r e (start_op d runId now v seed e)"
proof (cases "js_has (en_runs e) runId")
  case True
  with ok show ?thesis by (simp add: start_op_def pays_nothing)
next
  case False
  then have fresh: "js_get (en_runs e) runId = None" by simp
  show ?thesis
  proof (cases "run_workflow d runId now v seed e")
    case (Inl msg)
    with ok show ?thesis by (simp add: start_op_def pays_nothing)
  next
    case (Inr p)
    then obtain t i1 e1 where t: "register_run d (begin_run runId now t seed) (wt_gates t) e = (i1, e1)"
        and p: "p = (fst (dispatchCurrent d now i1 e1), Changed # snd (dispatchCurrent d now i1 e1))"
      by (auto simp: run_workflow_def split: option.splits if_splits prod.splits)
    have "pays r e (dispatchCurrent d now i1 e1)"
      using fresh by (intro started_pays [OF ok t]) (simp_all add: begin_run_def)
    with Inr p fresh show ?thesis by (simp add: start_op_def pays_def)
  qed
qed

lemma restore_one_pays:
  assumes "engine_ok e"
  shows "\<exists>e' gx. restore_one d now (e, fx) i = (e', fx @ gx) \<and> pays r e (e', gx)"
proof (cases "isRestorable d e i")
  case False
  with assms show ?thesis by (intro exI [of _ e] exI [of _ "[]"]) (simp add: restore_one_def pays_nothing)
next
  case True
  obtain i1 e1 where reg: "register_run d i (cx_gates (wi_context i)) e = (i1, e1)"
    by (cases "register_run d i (cx_gates (wi_context i)) e")
  have "pays r e (dispatchCurrent d now i1 e1)"
    using True by (intro started_pays [OF assms reg]) (simp_all add: isRestorable_def)
  with True reg show ?thesis
    by (intro exI [of _ "fst (dispatchCurrent d now i1 e1)"] exI [of _ "snd (dispatchCurrent d now i1 e1)"])
      (simp add: restore_one_def split: prod.split)
qed

lemma restore_runs_pays:
  assumes "engine_ok e"
  shows "pays r e (restore_runs d now is e)"
proof -
  have "\<exists>e' gx. foldl (restore_one d now) (e, fx) is = (e', fx @ gx) \<and> pays r e (e', gx)" for fx
    using assms
  proof (induction "is" arbitrary: e fx)
    case Nil
    then show ?case by (simp add: pays_nothing)
  next
    case (Cons i js)
    obtain e1 gx where one: "restore_one d now (e, fx) i = (e1, fx @ gx)" "pays r e (e1, gx)"
      using restore_one_pays [OF Cons.prems, of d now fx i] by blast
    then have "engine_ok e1" by (simp add: pays_def)
    from Cons.IH [OF this, of "fx @ gx"] obtain e2 hx
      where "foldl (restore_one d now) (e1, fx @ gx) js = (e2, (fx @ gx) @ hx)" "pays r e1 (e2, hx)" by blast
    with one pays_then [OF one(2)] show ?case by (intro exI [of _ e2] exI [of _ "gx @ hx"]) simp
  qed
  from this [of "[]"] show ?thesis by (auto simp: restore_runs_def pays_def)
qed

lemma wf_step_op_pays: "engine_ok e \<Longrightarrow> pays r e (wf_step_op e op)"
  by (cases op) (simp_all add: on_message_pays settle_gate_pays cancel_pays start_op_pays restore_runs_pays)

interpretation metered_run: metered_system wf_step_op "\<lambda>e. engine_ok e \<and> regular_run e r" "\<lambda>e. potential e r"
    "assigned r" for r
proof unfold_locales
  fix e op
  assume "engine_ok e \<and> regular_run e r"
  with wf_step_op_pays [of e r op]
  show "engine_ok (fst (wf_step_op e op)) \<and> regular_run (fst (wf_step_op e op)) r"
    and "assigned r (snd (wf_step_op e op)) + potential (fst (wf_step_op e op)) r \<le> potential e r"
    by (simp_all add: pays_def)
qed simp_all

lemma new_engine_ok: "engine_ok new_engine"
  by (simp add: engine_ok_def new_engine_def)

lemma trace_engine_ok: "engine_ok e \<Longrightarrow> engine_ok (fst (run_trace wf_step_op e ops))"
proof (induction ops arbitrary: e)
  case (Cons op ops)
  have "engine_ok (fst (wf_step_op e op))" using wf_step_op_pays [OF Cons.prems] by (simp add: pays_def)
  from Cons.IH [OF this] show ?case by (simp add: Let_def)
qed simp

definition template_gates :: "wf_template \<Rightarrow> wf_gate list" where
  "template_gates t = (case wt_gates t of Some gs \<Rightarrow> gs | None \<Rightarrow> [])"

definition assignment_bound :: "wf_template \<Rightarrow> nat" where
  "assignment_bound t = (transitionBudget + 1) * length (wt_steps t) + sum_list (map max_retries (template_gates t))"

text \<open>What a run has when it starts: no more than the bound less the task it hands out at once.\<close>

lemma started_run:
  assumes ok: "engine_ok e" and fresh: "js_get (en_runs e) r = None"
    and t: "resolveTemplate v = Some t" and ids: "distinct (map ws_id (wt_steps t))"
    and run: "run_workflow d r now v seed e = Inr (e1, fx)"
  shows "engine_ok e1" and "regular_run e1 r" and "assigned r fx + potential e1 r \<le> assignment_bound t"
proof -
  let ?i = "begin_run r now t seed"
  obtain i1 e2 where reg: "register_run d ?i (wt_gates t) e = (i1, e2)" by (cases "register_run d ?i (wt_gates t) e")
  from run t reg have e1: "e1 = fst (dispatchCurrent d now i1 e2)" and fx: "fx = Changed # snd (dispatchCurrent d now i1 e2)"
    by (auto simp: run_workflow_def split: if_splits prod.splits)
  note frame = register_frame [OF reg]
  have i: "wi_id ?i = r" "wi_status ?i = WfRunning" "wc_steps (wi_config ?i) = wt_steps t"
      "cx_transitions (wi_context ?i) = 0" "cx_attempts (wi_context ?i) = []"
    by (simp_all add: begin_run_def)
  have fresh': "js_get (en_runs e) (wi_id ?i) = None" using fresh i(1) by simp
  note ok2 = register_engine_ok [OF reg fresh' ok]
  have gates: "gates_of e2 r = template_gates t"
    using frame(12) [OF ok2(2)] i(1) by (simp add: template_gates_def)
  have st: "js_get (en_runs e2) (wi_id i1) = Some i1" using frame(1) i(1) by (simp add: frame(7))
  obtain i' where i': "stored e2 i' e1" "wi_id i' = r" "wi_config i' = wi_config i1"
      and cost: "assigned r fx + weight (gates_of e2 r) i' \<le> assignment_bound t"
  proof -
    let ?gs = "gates_of e2 r"
    have "ids_differ i1" using ids i(3) frame(2) by (simp add: ids_differ_def)
    moreover have "within_budget ?gs (Suc (budget ?gs i1)) i1 e2 (dispatchCurrent d now i1 e2)"
      using i(2) frame(3) by (intro dispatchCurrent_within) simp
    ultimately obtain i' where i': "stored e2 i' e1" "wi_id i' = r" "wi_config i' = wi_config i1"
        "assigned r (snd (dispatchCurrent d now i1 e2)) + weight ?gs i' \<le> Suc (budget ?gs i1)"
      unfolding within_budget_def e1 using frame(1) i(1) by auto
    show ?thesis
    proof (cases "wt_steps t")
      case Nil
      then have "step_of i1 = None" using i(3) frame(2) by (simp add: step_of_def)
      then have "dispatchCurrent d now i1 e2 = (finish_run now i1 WfCompleted e2, [Changed])" by (simp add: dispatchCurrent_def)
      then show ?thesis using frame(1) i(1) that [of "i1\<lparr>wi_status := WfCompleted, wi_completedAt := Some now\<rparr>"]
        by (simp add: e1 fx finish_run_def stored_def weight_def)
    next
      case (Cons s ss)
      have "step_index i1 = Some 0" using i(3) frame(2,4) Cons by (simp add: step_index_def begin_run_def)
      then have "steps_left i1 = length (wt_steps t) - 1" using i(3) frame(2) by (simp add: steps_left_def)
      moreover have "jumps_left i1 = transitionBudget * length (wt_steps t)" using i(3,4) frame(2,5) by (simp add: jumps_left_def)
      moreover have "retries_left ?gs i1 = sum_list (map max_retries (template_gates t))"
        using i(5) frame(6) by (simp add: retries_left_def attempts_of_def gates)
      ultimately have "Suc (budget ?gs i1) \<le> assignment_bound t"
        using Cons by (simp add: budget_def assignment_bound_def)
      with i' show ?thesis by (intro that [of i']) (simp_all add: fx)
    qed
  qed
  have old: "js_get (en_runs e2) (wi_id i') = Some i1" "wi_config i' = wi_config i1"
    using st i'(2,3) frame(1) i(1) by simp_all
  show "engine_ok e1" by (rule stored_engine_ok [OF i'(1) old ok2(1)])
  show "regular_run e1 r"
    using ids i(3) frame(2) i'(2,3) by (simp add: regular_run_def stored_frame(3) [OF i'(1)] ids_differ_def)
  show "assigned r fx + potential e1 r \<le> assignment_bound t"
    using cost stored_potential(2) [OF i'(1)] i'(2) by simp
qed

text \<open>
  C16: A run of a workflow whose steps have different ids hands out boundedly many tasks: in any
  history of the engine (other runs, messages of any kind for any run, checks that come back in any
  order or never, restores, cancellations) the tasks assigned for it are at most 101 times the
  number of its steps plus the retries its gates allow.
\<close>

theorem runs_assign_boundedly:
  assumes "e = fst (run_trace wf_step_op new_engine before)" and "js_get (en_runs e) r = None"
    and "resolveTemplate v = Some t" and "distinct (map ws_id (wt_steps t))"
    and "run_workflow d r now v seed e = Inr (e1, fx)"
  shows "assigned r (fx @ snd (run_trace wf_step_op e1 after)) \<le> assignment_bound t"
proof -
  have "engine_ok e" unfolding assms(1) by (rule trace_engine_ok [OF new_engine_ok])
  note start = started_run [OF this assms(2-5)]
  have "assigned r (snd (run_trace wf_step_op e1 after)) \<le> potential e1 r"
    using start(1,2) by (intro metered_run.trace_cost) simp
  with start(3) show ?thesis by simp
qed

text \<open>The built-in gated workflow, with an agent for every role.\<close>

definition demo_deps :: wf_deps where
  "demo_deps = \<lparr>dp_resolve = (\<lambda>s. Some s), dp_tierController = True, dp_workspaceRoot = None, dp_runChecks = True,
     dp_notifyUser = True\<rparr>"

definition complete_with :: "string \<Rightarrow> wf_op" where
  "complete_with r = OpMessage demo_deps ''t'' (TaskComplete (Some r) (Some ''ok'') JUndefined)"

lemma standard_ids_differ: "list_all (\<lambda>t. distinct (map ws_id (wt_steps t))) standardWorkflows"
  by (simp add: standardWorkflows_def workflowStep_def)

lemma runs_assign_boundedly_witness:
  "\<exists>e1 fx. run_workflow demo_deps ''r'' ''t'' (ById ''feature-gated'') [] new_engine = Inr (e1, fx)
     \<and> assigned ''r'' (fx @ snd (run_trace wf_step_op e1
          [complete_with ''r'', complete_with ''r'', OpSettle demo_deps ''t'' 0 (FlagsOnly False False), complete_with ''r''])) \<le> 305"
proof -
  let ?t = "standardWorkflows ! 4"
  have t: "resolveTemplate (ById ''feature-gated'') = Some ?t" by (simp add: resolveTemplate_def standardWorkflows_def)
  have n: "assignment_bound ?t = 305"
    by (simp add: assignment_bound_def transitionBudget_def template_gates_def standardWorkflows_def max_retries_def failure_of_def)
  have d: "distinct (map ws_id (wt_steps ?t))" by (simp add: standardWorkflows_def workflowStep_def)
  have e: "new_engine = fst (run_trace wf_step_op new_engine [])" and f: "js_get (en_runs new_engine) ''r'' = None"
    by (simp_all add: new_engine_def)
  have "missing_agents demo_deps (wt_steps ?t) = []"
    by (simp add: missing_agents_def standardWorkflows_def workflowStep_def demo_deps_def)
  then have "\<exists>p. run_workflow demo_deps ''r'' ''t'' (ById ''feature-gated'') [] new_engine = Inr p"
    by (simp add: run_workflow_def t split: prod.split)
  then obtain e1 fx where run: "run_workflow demo_deps ''r'' ''t'' (ById ''feature-gated'') [] new_engine = Inr (e1, fx)"
    by (metis prod.collapse)
  from runs_assign_boundedly [OF e f t d run] run show ?thesis unfolding n by blast
qed

section \<open>What a gate lets through\<close>

definition check_passed :: "check_return \<Rightarrow> bool" where
  "check_passed ret = (case ret of FullCheck (VPassed _) _ \<Rightarrow> True | FlagsOnly ok blocked \<Rightarrow> ok \<and> \<not> blocked | _ \<Rightarrow> False)"

definition check_excused :: "check_return \<Rightarrow> bool" where
  "check_excused ret = (case ret of FullCheck v required \<Rightarrow> required = Some False \<and> verificationUnrunOrUnknown v | _ \<Rightarrow> False)"

lemma moveForward_assigns:
  "moveForward d now i f e = (e1, fx) \<Longrightarrow> Assign r a b s act l x \<in> set fx \<Longrightarrow> \<exists>g. f = Some g \<and> s = ws_id g"
  by (auto simp: moveForward_def assign_step_def Let_def split: option.splits if_splits)

lemma continue_unverified_assigns:
  "Assign r a b s act l x \<in> set (snd (continue_unverified d now c out i e)) \<Longrightarrow> \<exists>f. gc_following c = Some f \<and> s = ws_id f"
  unfolding continue_unverified_def Let_def by (auto split: prod.splits if_splits dest: moveForward_assigns)

lemma apply_decision_assigns:
  assumes "Assign r a b s act l x \<in> set (snd (apply_decision d now c (decideGate g ok n) i e))"
  shows "if ok then \<exists>f. gc_following c = Some f \<and> s = ws_id f else s = ws_id (gc_completed c)"
proof (cases ok)
  case True
  have "apply_decision d now c (decideGate g True n) i e =
      (case moveForward d now i (gc_following c) e of (e1, fx) \<Rightarrow>
        (e1, (case wg_onPass g of Some t \<Rightarrow> if dp_tierController d then [SwitchTiers t] else [] | None \<Rightarrow> []) @ fx @ [Changed]))"
    by (simp add: apply_decision_def decideGate_def Let_def)
  with assms True show ?thesis
    by (auto split: prod.splits option.splits if_splits dest: moveForward_assigns)
next
  case False
  then have "\<not> gd_proceed (decideGate g ok n)" by (simp add: decideGate_def Let_def)
  with assms False show ?thesis
    by (auto simp: apply_decision_def assign_step_def Let_def split: option.splits if_splits list.splits prod.splits)
qed

text \<open>The three ways a check that comes back can go.\<close>

definition check_current :: "wf_deps \<Rightarrow> gate_check \<Rightarrow> wf_instance \<Rightarrow> wf_engine \<Rightarrow> bool" where
  "check_current d c i e \<longleftrightarrow> js_get (en_gateChecks e) (gc_run c) = Some (gc_token c)
     \<and> wi_currentStep i = gc_step c \<and> (dp_workspaceRoot d = None \<or> dp_workspaceRoot d = gc_root c)"

lemma settle_gate_cases:
  assumes c: "find (\<lambda>c. gc_token c = token) (en_waiting e) = Some c"
    and i: "js_get (en_runs e) (gc_run c) = Some i" and run: "wi_status i = WfRunning"
  obtains
    (stale) why e1 where "\<not> check_current d c i e"
      "settle_gate d now token ret e = (detach (wi_id i) (put_run (set_blocked why i) e1), [Changed])"
  | (blocked) why e1 where "check_current d c i e" "gr_blocked (runGateCheck c ret)" "\<not> gr_unverified (runGateCheck c ret)"
      "settle_gate d now token ret e = (detach (wi_id i) (put_run ((set_blocked why i)\<lparr>wi_completedAt := Some now\<rparr>) e1), [Changed])"
  | (unverified) e1 where "check_current d c i e" "gr_blocked (runGateCheck c ret)" "gr_unverified (runGateCheck c ret)"
      "settle_gate d now token ret e = continue_unverified d now c (gr_output (runGateCheck c ret)) i e1"
  | (decided) e1 i1 n where "check_current d c i e" "\<not> gr_blocked (runGateCheck c ret)"
      "incrementAttempt i (wg_after (gc_gate c)) = (i1, n)"
      "settle_gate d now token ret e = apply_decision d now c (decideGate (gc_gate c) (gr_ok (runGateCheck c ret)) n) i1 e1"
proof -
  have tok: "gc_token c = token" using find_Some_in [OF c] by simp
  define aborted where "aborted = (js_get (en_gateChecks e) (gc_run c) \<noteq> Some token)"
  define e1 where "e1 = without_check token c aborted e"
  define res where "res = runGateCheck c ret"
  have i': "js_get (en_runs e1) (gc_run c) = Some i" using i by (simp add: e1_def)
  note settle = settle_gate_def [of d now token ret e, unfolded c option.case Let_def,
      folded aborted_def without_check_def, folded e1_def res_def, unfolded i' option.case]
  have current: "check_current d c i e \<longleftrightarrow> \<not> (aborted \<or> wi_currentStep i \<noteq> gc_step c
      \<or> (dp_workspaceRoot d \<noteq> None \<and> dp_workspaceRoot d \<noteq> gc_root c))"
    unfolding check_current_def aborted_def tok by auto
  obtain i1 n where att: "incrementAttempt i (wg_after (gc_gate c)) = (i1, n)"
    by (cases "incrementAttempt i (wg_after (gc_gate c))")
  show ?thesis
  proof (cases "check_current d c i e")
    case False
    from stale [OF False] show ?thesis using run settle False unfolding current by simp
  next
    case True
    note settle' = settle [unfolded if_not_P [OF True [unfolded current]]]
    show ?thesis
      using blocked [OF True] unverified [OF True] decided [OF True _ att] run settle' unfolding res_def [symmetric] att
      by (cases "gr_blocked res"; cases "gr_unverified res") simp_all
  qed
qed

lemma settle_gate_ended:
  assumes "find (\<lambda>c. gc_token c = token) (en_waiting e) = Some c"
    and "\<not> (\<exists>i. js_get (en_runs e) (gc_run c) = Some i \<and> wi_status i = WfRunning)"
  shows "snd (settle_gate d now token ret e) = []"
  using assms by (cases "js_get (en_runs e) (gc_run c)") (simp_all add: settle_gate_def Let_def)

lemma asked_result:
  "gc_asked c \<Longrightarrow> \<not> gr_blocked (runGateCheck c ret) \<Longrightarrow> gr_ok (runGateCheck c ret) \<Longrightarrow> check_passed ret"
  "gc_asked c \<Longrightarrow> gr_unverified (runGateCheck c ret) \<Longrightarrow> check_excused ret"
  by (auto simp: runGateCheck_def full_result_def check_passed_def check_excused_def Let_def
      split: check_return.splits verification.splits if_splits)


text \<open>The built-in gated workflow at its gate: its check is under way.\<close>

definition gated_run :: wf_engine where
  "gated_run = fst (run_trace wf_step_op new_engine
     [OpRun demo_deps ''r'' ''t'' (ById ''feature-gated'') [], complete_with ''r'', complete_with ''r''])"

definition gated_check :: gate_check where
  "gated_check = \<lparr>gc_token = 0, gc_run = ''r'', gc_gate = hd (template_gates (standardWorkflows ! 4)),
     gc_completed = wt_steps (standardWorkflows ! 4) ! 1, gc_following = Some (wt_steps (standardWorkflows ! 4) ! 2),
     gc_step = Some ''code'', gc_root = None, gc_asked = True\<rparr>"

lemma gated_run_check: "en_waiting gated_run = [gated_check]" "js_get (en_gateChecks gated_run) ''r'' = Some 0"
  by code_simp+

lemma gated_run_find: "find (\<lambda>c. gc_token c = 0) (en_waiting gated_run) = Some gated_check"
  by (simp add: gated_run_check(1) gated_check_def)

lemma settled_assigns:
  assumes "find (\<lambda>c. gc_token c = token) (en_waiting e) = Some c" and "gc_asked c"
    and "Assign r a b s act l x \<in> set (snd (settle_gate d now token ret e))"
    and "s \<noteq> ws_id (gc_completed c)"
  shows "(check_passed ret \<or> check_excused ret)
    \<and> (\<exists>i. js_get (en_runs e) (gc_run c) = Some i \<and> wi_status i = WfRunning \<and> check_current d c i e)
    \<and> (\<exists>f. gc_following c = Some f \<and> s = ws_id f)"
proof -
  from assms(3) settle_gate_ended [OF assms(1), of d now ret]
  obtain i where i: "js_get (en_runs e) (gc_run c) = Some i" "wi_status i = WfRunning" by fastforce
  show ?thesis
    using assms(1) i
  proof (cases rule: settle_gate_cases [where d = d and now = now and ret = ret])
    case (unverified e1)
    from continue_unverified_assigns [OF assms(3) [unfolded unverified(4)]]
    have "\<exists>f. gc_following c = Some f \<and> s = ws_id f" .
    with unverified i asked_result(2) [OF assms(2)] show ?thesis by blast
  next
    case (decided e1 i1 n)
    from apply_decision_assigns [OF assms(3) [unfolded decided(4)]] assms(4)
    have ok: "gr_ok (runGateCheck c ret)" and "\<exists>f. gc_following c = Some f \<and> s = ws_id f"
      by (cases "gr_ok (runGateCheck c ret)"; simp)+
    with decided i ok asked_result(1) [OF assms(2)] show ?thesis by blast
  qed (use assms(3) in simp_all)
qed

text \<open>Whatever a transition assigns, it assigns for the run it was made of.\<close>

lemma assign_step_run: "Assign r a b s act l x \<in> set (snd (assign_step d now i c e)) \<Longrightarrow> r = wi_id i"
  by (auto simp: assign_step_def Let_def split: option.splits)

lemma moveForward_run: "Assign r a b s act l x \<in> set (snd (moveForward d now i f e)) \<Longrightarrow> r = wi_id i"
  by (auto simp: moveForward_def split: option.splits if_splits dest: assign_step_run)

lemma dispatchCurrent_run: "Assign r a b s act l x \<in> set (snd (dispatchCurrent d now i e)) \<Longrightarrow> r = wi_id i"
  by (auto simp: dispatchCurrent_def split: option.splits dest: assign_step_run)

lemma advance_run_run: "Assign r a b s act l x \<in> set (snd (advance_run d now i selected e)) \<Longrightarrow> r = wi_id i"
proof -
  assume given: "Assign r a b s act l x \<in> set (snd (advance_run d now i selected e))"
  have branch: "r = wi_id i" if "Assign r a b s act l x \<in> set (snd (takeBranch d now i target e))" for target
    using that assign_step_run by (fastforce simp: takeBranch_def Let_def split: option.splits if_splits)
  show ?thesis
  proof (cases "completed_step i")
    case None
    with given moveForward_run [of r a b s act l x d now i None e] show ?thesis
      by (simp add: advance_run_def case_prod_beta)
  next
    case (Some p)
    with given moveForward_run [of r a b s act l x d now i "snd p" e] branch show ?thesis
      by (auto simp: advance_run_def case_prod_beta start_gate_def Let_def split: option.splits list.splits if_splits)
  qed
qed

lemma continue_unverified_run: "Assign r a b s act l x \<in> set (snd (continue_unverified d now c out i e)) \<Longrightarrow> r = wi_id i"
  unfolding continue_unverified_def Let_def case_prod_beta by (auto dest: moveForward_run split: if_splits)

lemma apply_decision_run: "Assign r a b s act l x \<in> set (snd (apply_decision d now c decision i e)) \<Longrightarrow> r = wi_id i"
  unfolding apply_decision_def Let_def case_prod_beta
  by (auto dest: moveForward_run assign_step_run split: if_splits option.splits)

lemma settle_gate_run:
  assumes "engine_ok e" and "Assign r a b s act l x \<in> set (snd (settle_gate d now token ret e))"
  shows "\<exists>c. find (\<lambda>c. gc_token c = token) (en_waiting e) = Some c \<and> gc_run c = r"
proof -
  obtain c where c: "find (\<lambda>c. gc_token c = token) (en_waiting e) = Some c"
    using assms(2) by (cases "find (\<lambda>c. gc_token c = token) (en_waiting e)") (simp_all add: settle_gate_def)
  from assms(2) settle_gate_ended [OF c, of d now ret]
  obtain i where i: "js_get (en_runs e) (gc_run c) = Some i" "wi_status i = WfRunning" by fastforce
  have named: "wi_id i = gc_run c" by (rule engine_ok_named [OF assms(1) i(1)])
  have "r = wi_id i"
    using c i
  proof (cases rule: settle_gate_cases [where d = d and now = now and ret = ret])
    case (unverified e1)
    from continue_unverified_run [OF assms(2) [unfolded unverified(4)]] show ?thesis .
  next
    case (decided e1 i1 n)
    from apply_decision_run [OF assms(2) [unfolded decided(4)]] incrementAttempt_frame(1) [OF decided(3)]
    show ?thesis by (rule trans)
  qed (use assms(2) in simp_all)
  with named have "gc_run c = r" by (simp only:)
  with c show ?thesis by (intro exI [of _ c] conjI)
qed

text \<open>Starting or restoring other runs assigns nothing for a run the engine has.\<close>

lemma started_others:
  assumes "register_run d i gates e = (i1, e1)" and "js_get (en_runs e) r = Some j" and "wi_id i \<noteq> r" and "wi_status i = WfRunning"
  shows "Assign r a b s act l x \<notin> set (snd (dispatchCurrent d now i1 e1))"
    and "js_get (en_runs (fst (dispatchCurrent d now i1 e1))) r = Some j"
proof -
  note frame = register_frame [OF assms(1)]
  show "Assign r a b s act l x \<notin> set (snd (dispatchCurrent d now i1 e1))"
    using dispatchCurrent_run [of r a b s act l x d now i1 e1] assms(3) frame(1) by auto
  obtain i' where "stored e1 i' (fst (dispatchCurrent d now i1 e1))" "wi_id i' = wi_id i1"
    using dispatchCurrent_within [of i1, where gs = "[]" and d = d and now = now and e = e1] assms(4) frame(3) unfolding within_budget_def by auto
  from stored_frame(3) [OF this(1), of r] this(2) assms(2,3) frame(1,7)
  show "js_get (en_runs (fst (dispatchCurrent d now i1 e1))) r = Some j" by simp
qed

lemma restore_others:
  assumes "js_get (en_runs e) r = Some j"
  shows "Assign r a b s act l x \<notin> set (snd (restore_runs d now is e))"
proof -
  have "js_get (en_runs e) r = Some j \<Longrightarrow> Assign r a b s act l x \<notin> set fx \<Longrightarrow>
      Assign r a b s act l x \<notin> set (snd (foldl (restore_one d now) (e, fx) is))" for e fx
  proof (induction "is" arbitrary: e fx)
    case (Cons i rest)
    show ?case
    proof (cases "isRestorable d e i")
      case False
      with Cons show ?thesis by (simp add: restore_one_def)
    next
      case True
      then have other: "wi_id i \<noteq> r" "wi_status i = WfRunning" using Cons.prems(1) by (auto simp: isRestorable_def)
      obtain i1 e1 where reg: "register_run d i (cx_gates (wi_context i)) e = (i1, e1)"
        by (cases "register_run d i (cx_gates (wi_context i)) e")
      note started = started_others [OF reg Cons.prems(1) other]
      have one: "restore_one d now (e, fx) i = (fst (dispatchCurrent d now i1 e1), fx @ snd (dispatchCurrent d now i1 e1))"
        using True reg by (simp add: restore_one_def split: prod.split)
      have "Assign r a b s act l x \<notin> set (fx @ snd (dispatchCurrent d now i1 e1))" using started(1) Cons.prems(2) by simp
      from Cons.IH [OF started(2) this] show ?thesis by (simp add: one)
    qed
  qed simp
  from this [OF assms, of "[]"] show ?thesis by (simp add: restore_runs_def case_prod_beta)
qed

lemma start_others:
  assumes i: "js_get (en_runs e) r = Some j"
  shows "Assign r a b s act l x \<notin> set (snd (start_op d runId now v seed e))"
proof (cases "js_has (en_runs e) runId")
  case False
  then have other: "runId \<noteq> r" using i by auto
  show ?thesis
  proof (cases "run_workflow d runId now v seed e")
    case (Inr p)
    then obtain t i1 e1 where t: "register_run d (begin_run runId now t seed) (wt_gates t) e = (i1, e1)"
        and p: "p = (fst (dispatchCurrent d now i1 e1), Changed # snd (dispatchCurrent d now i1 e1))"
      by (auto simp: run_workflow_def split: option.splits if_splits prod.splits)
    have "Assign r a b s act l x \<notin> set (snd (dispatchCurrent d now i1 e1))"
      by (rule started_others(1) [OF t i]) (use other in \<open>simp_all add: begin_run_def\<close>)
    with Inr p False show ?thesis by (simp add: start_op_def)
  qed (simp add: start_op_def)
qed (simp add: start_op_def)

text \<open>A message assigns for the run it is of, and nothing while the step it ends has a gate.\<close>

lemma gated_message_assigns_nothing:
  assumes ok: "engine_ok e" and i: "js_get (en_runs e) r = Some i" and at: "completed_step i = Some (current, following)"
    and gate: "gate_after e r current = Some g"
  shows "Assign r a b s act l x \<notin> set (snd (on_message d now m e))"
proof
  assume given: "Assign r a b s act l x \<in> set (snd (on_message d now m e))"
  then obtain runId j instruction label where m: "js_get (en_runs e) runId = Some j"
    and adv: "Assign r a b s act l x \<in> set (snd (advance_run d now (retainOutput j instruction) (selectedBranch label) e))"
    by (auto simp: on_message_def acceptPartial_def Let_def split: option.splits wf_message.splits if_splits)
  have "r = wi_id j" using advance_run_run [OF adv] by simp
  also have "\<dots> = runId" by (rule engine_ok_named [OF ok m])
  finally have j: "j = i" "wi_id i = r" using m i engine_ok_named [OF ok i] by simp_all
  have "completed_step (retainOutput i instruction) = Some (current, following)"
    using at by (simp add: completed_step_at)
  with adv gate j show False by (simp add: advance_run_def start_gate_def Let_def split: if_splits)
qed

text \<open>A current check is registered for the gate after the step the run is at.\<close>

lemma check_at_gate:
  assumes "engine_ok e" and "c \<in> set (en_waiting e)" and "js_get (en_runs e) (gc_run c) = Some i" and "check_current d c i e"
  shows "completed_step i = Some (gc_completed c, gc_following c)"
    and "gate_after e (gc_run c) (gc_completed c) = Some (gc_gate c)"
proof -
  have "check_ok e c" using assms(1,2) by (simp add: engine_ok_def)
  with assms(3,4) have "find (\<lambda>g. wg_after g = ws_id (gc_completed c)) (gates_of e (gc_run c)) = Some (gc_gate c)"
    and at: "completed_at (wi_config i) (wi_currentStep i) = Some (gc_completed c, gc_following c)"
    by (auto simp: check_ok_def check_current_def)
  then show "gate_after e (gc_run c) (gc_completed c) = Some (gc_gate c)"
    by (auto simp: gate_after_def gates_of_def split: option.splits)
  show "completed_step i = Some (gc_completed c, gc_following c)" using at by (simp add: completed_step_at)
qed

lemma settled_current:
  assumes "find (\<lambda>c. gc_token c = token) (en_waiting e) = Some c"
    and "Assign r a b s act l x \<in> set (snd (settle_gate d now token ret e))"
  shows "\<exists>j. js_get (en_runs e) (gc_run c) = Some j \<and> wi_status j = WfRunning \<and> check_current d c j e"
proof -
  from assms(2) settle_gate_ended [OF assms(1), of d now ret]
  obtain j where j: "js_get (en_runs e) (gc_run c) = Some j" "wi_status j = WfRunning" by fastforce
  have "check_current d c j e"
    using assms(1) j by (cases rule: settle_gate_cases [where d = d and now = now and ret = ret]) (use assms(2) in simp_all)
  with j show ?thesis by blast
qed

text \<open>Where the host offers checks, every check of an objective gate is asked for.\<close>

fun offers_checks :: "wf_op \<Rightarrow> bool" where
  "offers_checks (OpMessage d now m) = dp_runChecks d"
| "offers_checks op = True"

definition objective_asked :: "wf_engine \<Rightarrow> bool" where
  "objective_asked e \<longleftrightarrow> (\<forall>c \<in> set (en_waiting e). gc_asked c = wg_objective (gc_gate c))"

lemma waiting_kept [simp]:
  "en_waiting (put_run i e) = en_waiting e" "en_waiting (detach r e) = en_waiting e" "en_waiting (finish_run now i st e) = en_waiting e"
  by (simp_all add: put_run_def detach_def finish_run_def)

lemma waiting_moved [simp]:
  "en_waiting (fst (assign_step d now i s e)) = en_waiting e" "en_waiting (fst (moveForward d now i f e)) = en_waiting e"
  "en_waiting (fst (takeBranch d now i target e)) = en_waiting e" "en_waiting (fst (dispatchCurrent d now i e)) = en_waiting e"
  by (simp_all add: assign_step_def moveForward_def takeBranch_def dispatchCurrent_def Let_def split: option.split)

lemma waiting_registered [simp]: "en_waiting (snd (register_run d i gs e)) = en_waiting e"
  by (rule register_frame(9) [OF prod.collapse [symmetric]])

lemma objective_asked_step:
  assumes "objective_asked e" and "offers_checks op"
  shows "objective_asked (fst (wf_step_op e op))"
proof (cases op)
  case (OpMessage d now m)
  have start: "objective_asked (fst (start_gate d i g c f e))" if "objective_asked e" for i g c f e
    using that assms(2) OpMessage by (auto simp: start_gate_def Let_def objective_asked_def)
  have "objective_asked (fst (advance_run d now i selected e))" for i selected
    using start [of "put_run i e"] assms(1)
    by (auto simp: advance_run_def objective_asked_def case_prod_beta split: option.split list.split)
  with assms(1) show ?thesis
    by (auto simp: OpMessage on_message_def acceptPartial_def Let_def objective_asked_def split: option.split wf_message.split)
next
  case (OpSettle d now token ret)
  have "set (en_waiting (fst (settle_gate d now token ret e))) \<subseteq> set (en_waiting e)"
    by (auto simp: settle_gate_def continue_unverified_def apply_decision_def incrementAttempt_def Let_def case_prod_beta
        split: option.splits if_splits)
  with assms(1) show ?thesis by (auto simp: OpSettle objective_asked_def)
next
  case (OpCancel now r)
  with assms(1) show ?thesis by (auto simp: cancel_run_def objective_asked_def split: option.split)
next
  case (OpRun d r now v seed)
  have "en_waiting (fst (start_op d r now v seed e)) = en_waiting e"
    by (simp add: start_op_def run_workflow_def case_prod_beta split: option.split)
  with assms(1) show ?thesis by (simp add: OpRun objective_asked_def)
next
  case (OpRestore d now rs)
  have "en_waiting (fst (foldl (restore_one d now) (e, fx) rs)) = en_waiting e" for e fx
  proof (induction rs arbitrary: e fx)
    case (Cons i rest)
    have "en_waiting (fst (restore_one d now (e, fx) i)) = en_waiting e"
      by (simp add: restore_one_def case_prod_beta)
    then show ?case using Cons.IH [of "fst (restore_one d now (e, fx) i)" "snd (restore_one d now (e, fx) i)"] by simp
  qed simp
  with assms(1) show ?thesis by (simp add: OpRestore restore_runs_def objective_asked_def case_prod_beta)
qed

lemma objective_asked_trace:
  "objective_asked e \<Longrightarrow> list_all offers_checks ops \<Longrightarrow> objective_asked (fst (run_trace wf_step_op e ops))"
proof (induction ops arbitrary: e)
  case (Cons op ops)
  then have "objective_asked (fst (wf_step_op e op))" by (intro objective_asked_step) simp_all
  with Cons show ?case by (simp add: Let_def)
qed simp

text \<open>
  C17: A run leaves a gated step only through the gate's check. In any history of the engine, on a host that offers
  checks, let a run be at a step with an objective gate after it, and let the next operation of the
  engine (a message, a check that comes back, a cancellation, a start, a restore) assign a task of another step
  for this run. Then the operation was the return of a check that had been asked for, for this run and
  this step; the check passed, or it is excused: the policy says it is not required, and it could not
  run (for another reason than a stale policy or an invalid configuration) or its outcome is unknown; the run
  was running, still at the step and in the workspace the check was started for; and the task is of the step that
  follows the gate. Steps that have no gate may branch anywhere, also past a gated step.
\<close>

theorem gates_are_passed_by_their_check:
  assumes e: "e = fst (run_trace wf_step_op new_engine before)" and offered: "list_all offers_checks before"
    and i: "js_get (en_runs e) r = Some i" and at: "completed_step i = Some (current, following)"
    and gate: "gate_after e r current = Some g" "wg_objective g"
    and given: "Assign r a b s act l x \<in> set (snd (wf_step_op e op))" and other: "s \<noteq> ws_id current"
  shows "\<exists>d now token ret c f. op = OpSettle d now token ret
    \<and> find (\<lambda>c. gc_token c = token) (en_waiting e) = Some c
    \<and> gc_run c = r \<and> gc_completed c = current \<and> gc_gate c = g \<and> gc_asked c
    \<and> (check_passed ret \<or> check_excused ret)
    \<and> wi_status i = WfRunning \<and> check_current d c i e
    \<and> following = Some f \<and> s = ws_id f"
proof -
  have ok: "engine_ok e" unfolding e by (rule trace_engine_ok [OF new_engine_ok])
  have named: "wi_id i = r" by (rule engine_ok_named [OF ok i])
  show ?thesis
  proof (cases op)
    case (OpMessage d now m)
    have "Assign r a b s act l x \<notin> set (snd (on_message d now m e))"
      by (rule gated_message_assigns_nothing [OF ok i at gate(1)])
    with given OpMessage show ?thesis by simp
  next
    case (OpCancel now runId)
    with given show ?thesis by (auto simp: cancel_run_def split: option.splits if_splits)
  next
    case (OpRun d runId now v seed)
    with given start_others [OF i] show ?thesis by simp
  next
    case (OpRestore d now rs)
    with given restore_others [OF i] show ?thesis by simp
  next
    case (OpSettle d now token ret)
    with given have assigned: "Assign r a b s act l x \<in> set (snd (settle_gate d now token ret e))" by simp
    from settle_gate_run [OF ok this] obtain c
      where c: "find (\<lambda>c. gc_token c = token) (en_waiting e) = Some c" "gc_run c = r" by blast
    obtain j where j: "js_get (en_runs e) (gc_run c) = Some j" "wi_status j = WfRunning" "check_current d c j e"
      using settled_current [OF c(1) assigned] by blast
    with c(2) i have same: "j = i" by simp
    note there = check_at_gate [OF ok find_Some_in [OF c(1), THEN conjunct1] j(1,3)]
    have comp: "gc_completed c = current" "gc_following c = following" using there(1) at unfolding same by simp_all
    have g: "gc_gate c = g" using there(2) gate(1) unfolding c(2) comp(1) by simp
    have "objective_asked e" unfolding e by (rule objective_asked_trace [OF _ offered]) (simp add: objective_asked_def new_engine_def)
    with find_Some_in [OF c(1)] g gate(2) have asked: "gc_asked c" by (auto simp: objective_asked_def)
    from settled_assigns [OF c(1) asked assigned] other have "check_passed ret \<or> check_excused ret" "\<exists>f. following = Some f \<and> s = ws_id f"
      unfolding comp by blast+
    with OpSettle c comp g asked j same show ?thesis by blast
  qed
qed

lemma gates_are_passed_by_their_check_witness:
  "gc_asked gated_check \<and> (check_passed (FullCheck (VPassed ''ok'') (Some True)) \<or> check_excused (FullCheck (VPassed ''ok'') (Some True)))
     \<and> gc_gate gated_check = hd (template_gates (standardWorkflows ! 4)) \<and> gc_run gated_check = ''r''"
proof -
  let ?ret = "FullCheck (VPassed ''ok'') (Some True)"
  let ?op = "OpSettle demo_deps ''t'' 0 ?ret"
  let ?ops = "[OpRun demo_deps ''r'' ''t'' (ById ''feature-gated'') [], complete_with ''r'', complete_with ''r'']"
  let ?current = "wt_steps (standardWorkflows ! 4) ! 1" and ?following = "Some (wt_steps (standardWorkflows ! 4) ! 2)"
  let ?gate = "hd (template_gates (standardWorkflows ! 4))"
  have "list_ex (\<lambda>f. case f of Assign r a b s act l x \<Rightarrow> r = ''r'' \<and> s = ''qa'' | _ \<Rightarrow> False) (snd (wf_step_op gated_run ?op))"
    by code_simp
  then obtain a b act l x where given: "Assign ''r'' a b ''qa'' act l x \<in> set (snd (wf_step_op gated_run ?op))"
    unfolding list_ex_iff by (force split: wf_effect.splits)
  have "list_ex (\<lambda>i. js_get (en_runs gated_run) ''r'' = Some i \<and> completed_step i = Some (?current, ?following))
      (js_values (en_runs gated_run))" by code_simp
  then obtain i where i: "js_get (en_runs gated_run) ''r'' = Some i" "completed_step i = Some (?current, ?following)"
    by (auto simp: list_ex_iff)
  have offered: "list_all offers_checks ?ops" by code_simp
  have gate: "gate_after gated_run ''r'' ?current = Some ?gate" "wg_objective ?gate" and other: "''qa'' \<noteq> ws_id ?current"
    by code_simp+
  from gates_are_passed_by_their_check [OF gated_run_def offered i gate given other]
  obtain d now token ret c f where found: "?op = OpSettle d now token ret
      \<and> find (\<lambda>c. gc_token c = token) (en_waiting gated_run) = Some c
      \<and> gc_run c = ''r'' \<and> gc_completed c = ?current \<and> gc_gate c = ?gate \<and> gc_asked c
      \<and> (check_passed ret \<or> check_excused ret)
      \<and> wi_status i = WfRunning \<and> check_current d c i gated_run
      \<and> ?following = Some f \<and> ''qa'' = ws_id f"
    by (elim exE)
  note op = found [THEN conjunct1, unfolded wf_op.inject]
  have ret: "?ret = ret" using op by (elim conjE)
  have token: "0 = token" using op by (elim conjE)
  have c: "find (\<lambda>c. gc_token c = token) (en_waiting gated_run) = Some c" using found by (elim conjE)
  have rest: "gc_asked c \<and> (check_passed ret \<or> check_excused ret) \<and> gc_gate c = ?gate \<and> gc_run c = ''r''"
    using found by (elim conjE, intro conjI)
  have "c = gated_check" using c unfolding token [symmetric] gated_run_find by (simp only: option.inject)
  with rest show ?thesis unfolding ret [symmetric] by (simp only: simp_thms)
qed




section \<open>Saved workflows\<close>

definition valid_step :: "string list \<Rightarrow> wf_step \<Rightarrow> bool" where
  "valid_step ids s \<longleftrightarrow> ws_id s \<noteq> [] \<and> ws_from s \<noteq> [] \<and> ws_to s \<noteq> []
     \<and> (\<forall>b \<in> set (case ws_branches s of Some bs \<Rightarrow> bs | None \<Rightarrow> []). br_goto b \<in> set ids \<and> full_text (br_label b) \<noteq> None)"

definition valid_workflow :: "wf_config \<Rightarrow> bool" where
  "valid_workflow w \<longleftrightarrow> wc_id w \<noteq> [] \<and> wc_name w \<noteq> [] \<and> \<not> isStandardWorkflow (wc_id w)
     \<and> (\<forall>s \<in> set (wc_steps w). valid_step (map ws_id (wc_steps w)) s)"

lemma first_some_None: "first_some f xs = None \<longleftrightarrow> (\<forall>x \<in> set xs. f x = None)"
  by (induction xs) (auto simp: or_else_def split: option.split)

lemma find_None_all: "find P xs = None \<longleftrightarrow> (\<forall>x \<in> set xs. \<not> P x)"
  by (induction xs) auto

lemma step_error_None:
  "step_error ids s = None \<longleftrightarrow> ws_id s \<noteq> [] \<and> ws_from s \<noteq> [] \<and> ws_to s \<noteq> []
     \<and> (\<forall>b \<in> set (case ws_branches s of Some bs \<Rightarrow> bs | None \<Rightarrow> []). br_goto b \<noteq> [] \<and> br_goto b \<in> set ids)"
  by (auto simp: step_error_def branch_error_def find_None_all)

lemma prepared_label:
  "b \<in> set (case ws_branches (prepareStep s) of Some bs \<Rightarrow> bs | None \<Rightarrow> []) \<Longrightarrow> full_text (br_label b) \<noteq> None"
proof -
  have migrated: "fst (migrateWorkflowBranchLabel x) \<noteq> []" for x
    by (cases "br_label x"; cases "br_whenResultContains x")
      (auto simp: migrateWorkflowBranchLabel_def LEGACY_FALLBACK_BRANCH_LABEL_def)
  assume "b \<in> set (case ws_branches (prepareStep s) of Some bs \<Rightarrow> bs | None \<Rightarrow> [])"
  then obtain x where "br_label b = JString (fst (migrateWorkflowBranchLabel x))"
    by (cases "ws_branches s") (auto simp: prepareStep_def split_beta)
  with migrated show ?thesis by simp
qed

lemma prepared_valid:
  assumes "customWorkflowError (prepareWorkflow raw) = None"
  shows "valid_workflow (prepareWorkflow raw)"
proof -
  let ?w = "prepareWorkflow raw"
  from assms have head: "wc_id ?w \<noteq> []" "wc_name ?w \<noteq> []" "\<not> isStandardWorkflow (wc_id ?w)"
    and gotos: "validateWorkflowGotos ?w = None"
    by (auto simp: customWorkflowError_def split: if_splits)
  have "valid_step (map ws_id (wc_steps ?w)) s" if "s \<in> set (wc_steps ?w)" for s
  proof -
    from that obtain s0 where s0: "s = prepareStep s0" by (auto simp: prepareWorkflow_def)
    from gotos that have "step_error (filter (\<lambda>i. i \<noteq> []) (map ws_id (wc_steps ?w))) s = None"
      by (simp add: validateWorkflowGotos_def first_some_None)
    with prepared_label [of _ s0] show ?thesis unfolding s0 valid_step_def step_error_None by auto
  qed
  with head show ?thesis by (simp add: valid_workflow_def)
qed

datatype store_op = SaveOp wf_config | DeleteOp string

fun store_step :: "wf_config list option \<Rightarrow> store_op \<Rightarrow> wf_config list option" where
  "store_step st (SaveOp raw) = fst (saveWorkflow st raw)"
| "store_step st (DeleteOp i) = deleteWorkflow st i"

text \<open>
  C19: After any sequence of saves and deletions every stored workflow has an id that is not a
  built-in one, a name, and steps with ids, senders and recipients whose branches have labels and
  lead to steps of the workflow; and the workflows offered, built-in ones included, have different
  ids.
\<close>

theorem saved_workflows_are_valid:
  "case foldl store_step (Some []) ops of
     None \<Rightarrow> False
   | Some saved \<Rightarrow> list_all valid_workflow saved \<and> distinct (map wt_id (listWorkflows (Some saved)))"
proof -
  define good where "good st \<longleftrightarrow> (\<exists>saved. st = Some saved \<and> list_all valid_workflow saved \<and> distinct (map wc_id saved))" for st
  have step: "good (store_step st op)" if "good st" for st op
  proof -
    from that obtain saved where st: "st = Some saved" "list_all valid_workflow saved" "distinct (map wc_id saved)"
      unfolding good_def by blast
    show ?thesis
    proof (cases op)
      case (SaveOp raw)
      show ?thesis
      proof (cases "customWorkflowError (prepareWorkflow raw)")
        case None
        have "list_all valid_workflow (filter (\<lambda>c. wc_id c \<noteq> i) saved @ [prepareWorkflow raw])" for i
          using st(2) prepared_valid [OF None] by (auto simp: list_all_iff)
        moreover have "distinct (map wc_id (filter (\<lambda>c. wc_id c \<noteq> wc_id (prepareWorkflow raw)) saved @ [prepareWorkflow raw]))"
          using st(3) by (auto simp: distinct_map_filter)
        ultimately show ?thesis using SaveOp None st(1) by (simp add: saveWorkflow_def Let_def good_def)
      next
        case (Some err)
        with SaveOp that show ?thesis by (simp add: saveWorkflow_def Let_def)
      qed
    next
      case (DeleteOp i)
      with st show ?thesis by (auto simp: deleteWorkflow_def good_def list_all_iff distinct_map_filter)
    qed
  qed
  have "good (foldl store_step st ops)" if "good st" for st
    using that by (induction ops arbitrary: st) (simp_all add: step)
  from this [of "Some []"] obtain saved where saved: "foldl store_step (Some []) ops = Some saved"
      "list_all valid_workflow saved" "distinct (map wc_id saved)"
    by (auto simp: good_def)
  have "distinct (map wt_id standardWorkflows)" by (simp add: standardWorkflows_def)
  moreover have "wc_id w \<notin> wt_id ` set standardWorkflows" if "w \<in> set saved" for w
  proof -
    from saved(2) that have "\<not> isStandardWorkflow (wc_id w)" by (auto simp: list_all_iff valid_workflow_def)
    then show ?thesis unfolding isStandardWorkflow_def list_ex_iff by (metis imageE)
  qed
  moreover have "map (wt_id \<circ> templateFromConfig) saved = map wc_id saved" by (simp add: templateFromConfig_def)
  then have "map wt_id (listWorkflows (Some saved)) = map wt_id standardWorkflows @ map wc_id saved"
    by (simp add: listWorkflows_def)
  moreover from calculation have "wt_id ` set standardWorkflows \<inter> wc_id ` set saved = {}" by (blast intro: sym)
  ultimately have "distinct (map wt_id (listWorkflows (Some saved)))" using saved(3) by simp
  with saved show ?thesis by simp
qed

section \<open>Steps with the same id\<close>

text \<open>
  Nothing rejects two steps with one id. With steps a, b, a the engine, done with the third, finds the first: the
  same two tasks are assigned for ever, and no jump is counted.
\<close>

definition looping_template :: wf_template where
  "looping_template = \<lparr>wt_id = ''loop'', wt_name = ''Loop'', wt_description = [],
     wt_steps = [workflowStep ''a'' ''x'' ''y'' ''one'', workflowStep ''b'' ''y'' ''x'' ''two'', workflowStep ''a'' ''x'' ''y'' ''three''],
     wt_gates = None\<rparr>"

lemma equal_ids_loop:
  "(let e = fst (run_trace wf_step_op new_engine [OpRun demo_deps ''r'' ''t'' (Given looping_template) [],
               complete_with ''r'', complete_with ''r''])
    in js_get (en_runs (fst (run_trace wf_step_op e [complete_with ''r'', complete_with ''r'']))) ''r''
         = js_get (en_runs e) ''r''
     \<and> assigned ''r'' (snd (run_trace wf_step_op e [complete_with ''r'', complete_with ''r''])) = 2)"
  by code_simp

end
