(* ===== verification/JsRegex.thy ===== *)
theory JsRegex
  imports Prelude
begin

text \<open>
  Regular expressions as the code uses them to test a text: characters by a predicate, sequence, alternative,
  greedy repetition, the word boundary and the two ends. A position is what lies before it, reversed, and what lies
  after it. \<open>rx_ends\<close> computes the positions a match can end at, \<open>rx_match\<close> says what a match is;
  the two agree, so a test of a pattern can be read either way.
\<close>

section \<open>Patterns\<close>

datatype rx =
    REmpty
  | RChar "char \<Rightarrow> bool"
  | RSeq rx rx
  | RAlt rx rx
  | RStar rx
  | RBound
  | RStart
  | REnd

type_synonym rx_position = "string \<times> string"

definition is_word :: "char \<Rightarrow> bool" where
  "is_word c \<longleftrightarrow> is_digit c \<or> is_upper c \<or> is_lower c \<or> c = CHR ''_''"

definition is_letter :: "char \<Rightarrow> bool" where
  "is_letter c \<longleftrightarrow> is_upper c \<or> is_lower c"

definition starts_word :: "string \<Rightarrow> bool" where
  "starts_word s \<longleftrightarrow> (case s of [] \<Rightarrow> False | c # _ \<Rightarrow> is_word c)"

definition at_boundary :: "rx_position \<Rightarrow> bool" where
  "at_boundary z \<longleftrightarrow> starts_word (fst z) \<noteq> starts_word (snd z)"

fun star_ends :: "(rx_position \<Rightarrow> rx_position list) \<Rightarrow> nat \<Rightarrow> rx_position \<Rightarrow> rx_position list" where
  "star_ends f 0 z = [z]"
| "star_ends f (Suc n) z =
     z # concat (map (star_ends f n) (filter (\<lambda>z'. length (snd z') < length (snd z)) (f z)))"

fun rx_ends :: "rx \<Rightarrow> rx_position \<Rightarrow> rx_position list" where
  "rx_ends REmpty z = [z]"
| "rx_ends (RChar P) z = (case snd z of [] \<Rightarrow> [] | c # s \<Rightarrow> if P c then [(c # fst z, s)] else [])"
| "rx_ends (RSeq r s) z = concat (map (rx_ends s) (rx_ends r z))"
| "rx_ends (RAlt r s) z = rx_ends r z @ rx_ends s z"
| "rx_ends (RStar r) z = star_ends (rx_ends r) (length (snd z)) z"
| "rx_ends RBound z = (if at_boundary z then [z] else [])"
| "rx_ends RStart z = (if fst z = [] then [z] else [])"
| "rx_ends REnd z = (if snd z = [] then [z] else [])"

text \<open>\<open>RegExp.prototype.test\<close> without flags that keep a position: a match anywhere in the text.\<close>

definition rx_test :: "rx \<Rightarrow> string \<Rightarrow> bool" where
  "rx_test r s \<longleftrightarrow> list_ex (\<lambda>i. rx_ends r (rev (take i s), drop i s) \<noteq> []) [0..<Suc (length s)]"

text \<open>\<open>String.prototype.search\<close>: where the first match starts.\<close>

definition rx_search :: "rx \<Rightarrow> string \<Rightarrow> nat option" where
  "rx_search r s = find (\<lambda>i. rx_ends r (rev (take i s), drop i s) \<noteq> []) [0..<Suc (length s)]"

section \<open>Ways to write them\<close>

definition same_letter :: "char \<Rightarrow> char \<Rightarrow> bool" where
  "same_letter a b \<longleftrightarrow> lower_char a = lower_char b"

definition rx_seq :: "rx list \<Rightarrow> rx" where
  "rx_seq rs = foldr RSeq rs REmpty"

fun rx_alt :: "rx list \<Rightarrow> rx" where
  "rx_alt [] = RChar (\<lambda>_. False)"
| "rx_alt [r] = r"
| "rx_alt (r # rs) = RAlt r (rx_alt rs)"

definition rx_lit :: "string \<Rightarrow> rx" where
  "rx_lit s = rx_seq (map (\<lambda>c. RChar ((=) c)) s)"

text \<open>With the flag \<open>i\<close>.\<close>

definition rx_lit_i :: "string \<Rightarrow> rx" where
  "rx_lit_i s = rx_seq (map (\<lambda>c. RChar (same_letter c)) s)"

definition rx_plus :: "rx \<Rightarrow> rx" where
  "rx_plus r = RSeq r (RStar r)"

abbreviation rx_spaces :: rx where
  "rx_spaces \<equiv> RStar (RChar is_space)"

abbreviation rx_spaces1 :: rx where
  "rx_spaces1 \<equiv> rx_plus (RChar is_space)"

abbreviation rx_line :: rx where
  "rx_line \<equiv> RStar (RChar (\<lambda>c. c \<noteq> CHR 0x0A))"

section \<open>What a match is\<close>

inductive rx_match :: "rx \<Rightarrow> rx_position \<Rightarrow> rx_position \<Rightarrow> bool" where
  empty: "rx_match REmpty z z"
| char: "P c \<Longrightarrow> rx_match (RChar P) (b, c # s) (c # b, s)"
| seq: "rx_match r z y \<Longrightarrow> rx_match s y x \<Longrightarrow> rx_match (RSeq r s) z x"
| left: "rx_match r z y \<Longrightarrow> rx_match (RAlt r s) z y"
| right: "rx_match s z y \<Longrightarrow> rx_match (RAlt r s) z y"
| none: "rx_match (RStar r) z z"
| more: "rx_match r z y \<Longrightarrow> rx_match (RStar r) y x \<Longrightarrow> rx_match (RStar r) z x"
| bound: "at_boundary z \<Longrightarrow> rx_match RBound z z"
| at_start: "rx_match RStart ([], s) ([], s)"
| at_end: "rx_match REnd (b, []) (b, [])"

inductive_simps rx_match_simps [simp]:
  "rx_match REmpty z y" "rx_match (RChar P) z y" "rx_match (RSeq r s) z y" "rx_match (RAlt r s) z y"
  "rx_match RBound z y" "rx_match RStart z y" "rx_match REnd z y"

lemma rx_match_shorter: "rx_match r z y \<Longrightarrow> length (snd y) \<le> length (snd z)"
  by (induction rule: rx_match.induct) simp_all

text \<open>A match moves along the text.\<close>

lemma rx_match_text: "rx_match r z y \<Longrightarrow> rev (fst y) @ snd y = rev (fst z) @ snd z"
  by (induction rule: rx_match.induct) simp_all

lemma rx_match_same_length:
  assumes "rx_match r z y" and "length (snd y) = length (snd z)"
  shows "y = z"
proof -
  have "length (fst y) = length (fst z)"
    using rx_match_text [OF assms(1), THEN arg_cong [where f = length]] assms(2) by simp
  then show ?thesis
    using rx_match_text [OF assms(1)] assms(2) by (metis append_eq_append_conv length_rev prod.collapse rev_is_rev_conv)
qed

lemma star_ends_sound:
  assumes "\<And>z y. y \<in> set (f z) \<Longrightarrow> rx_match r z y"
  shows "y \<in> set (star_ends f n z) \<Longrightarrow> rx_match (RStar r) z y"
proof (induction n arbitrary: z)
  case (Suc n)
  then consider "y = z" | x where "x \<in> set (f z)" "y \<in> set (star_ends f n x)" by auto
  then show ?case
  proof cases
    case 2
    show ?thesis by (rule rx_match.more [OF assms [OF 2(1)] Suc.IH [OF 2(2)]])
  qed (simp add: rx_match.none)
qed (simp add: rx_match.none)

lemma star_ends_complete:
  assumes "\<And>z y. rx_match r z y \<Longrightarrow> y \<in> set (f z)"
  shows "rx_match (RStar r) z y \<Longrightarrow> length (snd z) \<le> n \<Longrightarrow> y \<in> set (star_ends f n z)"
proof (induction "RStar r" z y arbitrary: n rule: rx_match.induct)
  case (none z)
  then show ?case by (cases n) simp_all
next
  case (more z y x)
  show ?case
  proof (cases "length (snd y) < length (snd z)")
    case True
    with more.prems obtain m where n: "n = Suc m" "length (snd y) \<le> m" by (cases n) auto
    have "y \<in> set (filter (\<lambda>z'. length (snd z') < length (snd z)) (f z))" using assms [OF more.hyps(1)] True by simp
    with more.hyps(4) [OF n(2)] show ?thesis unfolding n(1) star_ends.simps(2) set_simps set_concat set_map by blast
  next
    case False
    with rx_match_shorter [OF more.hyps(1)] rx_match_same_length [OF more.hyps(1)] have "y = z" by simp
    with more.hyps(4) more.prems show ?thesis by simp
  qed
qed

lemma rx_ends_iff: "y \<in> set (rx_ends r z) \<longleftrightarrow> rx_match r z y"
proof (induction r arbitrary: z y)
  case (RChar P)
  show ?case by (cases z) (auto split: list.splits)
next
  case (RSeq r s)
  have "y \<in> set (rx_ends (RSeq r s) z) \<longleftrightarrow> (\<exists>x \<in> set (rx_ends r z). y \<in> set (rx_ends s x))" by simp
  then show ?case unfolding RSeq.IH Bex_def rx_match_simps by force
next
  case (RStar r)
  show ?case
    unfolding rx_ends.simps
  proof
    show "rx_match (RStar r) z y" if "y \<in> set (star_ends (rx_ends r) (length (snd z)) z)"
      by (rule star_ends_sound [OF _ that]) (simp add: RStar.IH)
    show "y \<in> set (star_ends (rx_ends r) (length (snd z)) z)" if "rx_match (RStar r) z y"
      by (rule star_ends_complete [OF _ that le_refl]) (simp add: RStar.IH)
  qed
next
  case RStart
  show ?case by (cases z) auto
next
  case REnd
  show ?case by (cases z) auto
qed auto

lemma rx_test_iff: "rx_test r s \<longleftrightarrow> (\<exists>a b y. s = a @ b \<and> rx_match r (rev a, b) y)"
proof
  assume "rx_test r s"
  then obtain i y where "y \<in> set (rx_ends r (rev (take i s), drop i s))"
    unfolding rx_test_def list_ex_iff by (metis list.set_intros(1) neq_Nil_conv)
  then show "\<exists>a b y. s = a @ b \<and> rx_match r (rev a, b) y"
    unfolding rx_ends_iff by (metis append_take_drop_id)
next
  assume "\<exists>a b y. s = a @ b \<and> rx_match r (rev a, b) y"
  then obtain a b y where s: "s = a @ b" and "y \<in> set (rx_ends r (rev a, b))" unfolding rx_ends_iff by blast
  then have "rx_ends r (rev (take (length a) s), drop (length a) s) \<noteq> []" by auto
  moreover have "length a \<in> set [0..<Suc (length s)]" using s by simp
  ultimately show "rx_test r s" unfolding rx_test_def list_ex_iff by blast
qed

lemma rx_match_seq_Cons: "rx_match (rx_seq (r # rs)) z y \<longleftrightarrow> (\<exists>x. rx_match r z x \<and> rx_match (rx_seq rs) x y)"
  by (auto simp: rx_seq_def)

lemma rx_match_seq_Nil: "rx_match (rx_seq []) z y \<longleftrightarrow> y = z"
  by (auto simp: rx_seq_def)

lemma rx_match_chars: "list_all P s \<Longrightarrow> rx_match (RStar (RChar P)) (b, s @ t) (rev s @ b, t)"
proof (induction s arbitrary: b)
  case (Cons c s)
  then have "rx_match (RStar (RChar P)) (c # b, s @ t) (rev s @ c # b, t)" by simp
  with Cons.prems show ?case by (auto intro!: rx_match.more [where y = "(c # b, s @ t)"])
qed (simp add: rx_match.none)

lemma rx_match_lit_i: "map lower_char u = map lower_char s \<Longrightarrow> rx_match (rx_lit_i s) (b, u @ t) (rev u @ b, t)"
proof (induction s arbitrary: u b)
  case Nil
  then show ?case by (simp add: rx_lit_i_def rx_match_seq_Nil)
next
  case (Cons c s)
  then obtain d u' where u: "u = d # u'" "lower_char d = lower_char c" "map lower_char u' = map lower_char s"
    by (auto simp: map_eq_Cons_conv)
  from Cons.IH [OF u(3), of "d # b"] u(1,2) show ?case
    by (auto simp: rx_lit_i_def rx_match_seq_Cons same_letter_def)
qed

end
