(* ===== verification/CommandShell.thy ===== *)
theory CommandShell
  imports JsRegex
begin

text \<open>
  The shell a command is checked for and run in (\<open>src/src/backend/CommandShell.ts\<close>): its identity, what its
  name tells, which templates can run in it, approvals for a session, and the segments of a command that may be
  matched against an allow-list without asking. SHA-256 of a JSON text is a parameter.
\<close>

subsection \<open>Identity\<close>

datatype shell_grammar = CmdGrammar | PowerShellGrammar | PosixGrammar | NeutralGrammar

datatype shell_kind =
    KCmd | KWindowsPowerShell | KPwsh | KBash | KZsh | KSh | KDash | KKsh | KWsl | KProviderUnknown

datatype shell_source = TerminalProbe | TerminalProfile | DirectFallback | NativeProviderTool | NativeProviderCommand

record shell_identity =
  si_kind :: shell_kind
  si_grammar :: shell_grammar
  si_label :: string
  si_source :: shell_source
  si_fingerprint :: string

record approval_key =
  ak_grammar :: shell_grammar
  ak_template :: string

fun grammar_text :: "shell_grammar \<Rightarrow> string" where
  "grammar_text CmdGrammar = ''cmd''"
| "grammar_text PowerShellGrammar = ''powershell''"
| "grammar_text PosixGrammar = ''posix''"
| "grammar_text NeutralGrammar = ''neutral''"

fun kind_text :: "shell_kind \<Rightarrow> string" where
  "kind_text KCmd = ''cmd''"
| "kind_text KWindowsPowerShell = ''windows-powershell''"
| "kind_text KPwsh = ''pwsh''"
| "kind_text KBash = ''bash''"
| "kind_text KZsh = ''zsh''"
| "kind_text KSh = ''sh''"
| "kind_text KDash = ''dash''"
| "kind_text KKsh = ''ksh''"
| "kind_text KWsl = ''wsl''"
| "kind_text KProviderUnknown = ''provider-unknown''"

fun source_text :: "shell_source \<Rightarrow> string" where
  "source_text TerminalProbe = ''terminal-probe''"
| "source_text TerminalProfile = ''terminal-profile''"
| "source_text DirectFallback = ''direct-fallback''"
| "source_text NativeProviderTool = ''native-provider-tool''"
| "source_text NativeProviderCommand = ''native-provider-command''"

definition PERSISTED_COMMAND_SHELL_GRAMMARS :: "shell_grammar list" where
  "PERSISTED_COMMAND_SHELL_GRAMMARS = [CmdGrammar, PowerShellGrammar, PosixGrammar]"

fun grammarOfShellKind :: "shell_kind \<Rightarrow> shell_grammar" where
  "grammarOfShellKind KCmd = CmdGrammar"
| "grammarOfShellKind KWindowsPowerShell = PowerShellGrammar"
| "grammarOfShellKind KPwsh = PowerShellGrammar"
| "grammarOfShellKind KProviderUnknown = NeutralGrammar"
| "grammarOfShellKind _ = PosixGrammar"

fun DEFAULT_LABEL :: "shell_kind \<Rightarrow> string" where
  "DEFAULT_LABEL KCmd = ''cmd.exe''"
| "DEFAULT_LABEL KWindowsPowerShell = ''Windows PowerShell''"
| "DEFAULT_LABEL KPwsh = ''PowerShell 7 (pwsh)''"
| "DEFAULT_LABEL KWsl = ''WSL''"
| "DEFAULT_LABEL KProviderUnknown = ''Codex provider shell (unverified)''"
| "DEFAULT_LABEL k = kind_text k"

fun GRAMMAR_NAME :: "shell_grammar \<Rightarrow> string" where
  "GRAMMAR_NAME CmdGrammar = ''cmd.exe''"
| "GRAMMAR_NAME PowerShellGrammar = ''PowerShell''"
| "GRAMMAR_NAME PosixGrammar = ''POSIX shell''"
| "GRAMMAR_NAME NeutralGrammar = ''unverified shell''"

definition MAX_LABEL_LENGTH :: nat where
  "MAX_LABEL_LENGTH = 40"

definition isPersistedCommandShellGrammar :: "shell_grammar \<Rightarrow> bool" where
  "isPersistedCommandShellGrammar g \<longleftrightarrow> g = CmdGrammar \<or> g = PowerShellGrammar \<or> g = PosixGrammar"

abbreviation BACKSLASH_CHAR :: char where
  "BACKSLASH_CHAR \<equiv> CHR 0x5C"

definition is_slash :: "char \<Rightarrow> bool" where
  "is_slash c \<longleftrightarrow> c = CHR ''/'' \<or> c = BACKSLASH_CHAR"

text \<open>Every run of white space as one space.\<close>

function collapse_spaces :: "string \<Rightarrow> string" where
  "collapse_spaces [] = []"
| "collapse_spaces (c # s) =
     (if is_space c then CHR '' '' # collapse_spaces (dropWhile is_space s) else c # collapse_spaces s)"
  by pat_completeness auto
termination
  by (relation "measure length") (auto simp: less_Suc_eq_le length_dropWhile_le)

definition label_pattern :: rx where
  "label_pattern = RAlt (RChar (\<lambda>c. is_slash c \<or> c = CHR '':''))
     (rx_seq [RChar is_space, RChar ((=) CHR ''-''), RAlt (RChar ((=) CHR ''-'')) REmpty, RChar is_word])"

definition label_char :: "char \<Rightarrow> bool" where
  "label_char c \<longleftrightarrow> is_letter c \<or> is_digit c \<or> c \<in> set '' ._()+-''"

definition boundedShellLabel :: "string option \<Rightarrow> string \<Rightarrow> string" where
  "boundedShellLabel v fallback =
     (let raw = js_trim (case v of Some s \<Rightarrow> s | None \<Rightarrow> []) in
      if raw = [] \<or> rx_test label_pattern raw then fallback
      else let cleaned = js_trim (take MAX_LABEL_LENGTH (js_trim (collapse_spaces (filter label_char raw))))
           in if cleaned = [] then fallback else cleaned)"

definition shellFingerprint :: "(string list \<Rightarrow> string) \<Rightarrow> string list \<Rightarrow> string" where
  "shellFingerprint sha256_json parts = take 16 (sha256_json parts)"

definition commandShellIdentity ::
    "(string list \<Rightarrow> string) \<Rightarrow> shell_kind \<Rightarrow> shell_source \<Rightarrow> string option \<Rightarrow> string list option \<Rightarrow> shell_identity" where
  "commandShellIdentity sha256_json kind source label fingerprint =
     \<lparr>si_kind = kind, si_grammar = grammarOfShellKind kind, si_label = boundedShellLabel label (DEFAULT_LABEL kind),
      si_source = source,
      si_fingerprint = shellFingerprint sha256_json
        ([kind_text kind, source_text source] @ (case fingerprint of Some fs \<Rightarrow> fs | None \<Rightarrow> []))\<rparr>"

definition sameShellIdentity :: "shell_identity \<Rightarrow> shell_identity \<Rightarrow> bool" where
  "sameShellIdentity a b \<longleftrightarrow> si_kind a = si_kind b \<and> si_grammar a = si_grammar b \<and> si_fingerprint a = si_fingerprint b"

definition describeShell :: "string \<Rightarrow> shell_grammar \<Rightarrow> string" where
  "describeShell label grammar = label @ '' ('' @ grammar_text grammar @ '' grammar)''"

subsection \<open>What a name tells\<close>

text \<open>The part after the last character that satisfies a predicate.\<close>

definition after_last :: "('a \<Rightarrow> bool) \<Rightarrow> 'a list \<Rightarrow> 'a list" where
  "after_last P s = rev (takeWhile (\<lambda>c. \<not> P c) (rev s))"

definition is_quote :: "char \<Rightarrow> bool" where
  "is_quote c \<longleftrightarrow> c = CHR 0x22 \<or> c = CHR 0x27"

definition without_quotes :: "string \<Rightarrow> string" where
  "without_quotes s =
     (let t = (case s of c # s' \<Rightarrow> if is_quote c then s' else s | [] \<Rightarrow> [])
      in if t \<noteq> [] \<and> is_quote (last t) then butlast t else t)"

definition basenameOf :: "string \<Rightarrow> string" where
  "basenameOf raw = js_lower (js_trim (after_last is_slash (without_quotes (js_trim raw))))"

definition without_exe :: "string \<Rightarrow> string" where
  "without_exe name = (if ends_with name ''.exe'' then take (length name - 4) name else name)"

definition POSIX_BASENAMES :: "(string, shell_kind) jsmap" where
  "POSIX_BASENAMES = [(''bash'', KBash), (''zsh'', KZsh), (''sh'', KSh), (''dash'', KDash), (''ksh'', KKsh)]"

definition posixShellKindFromBasename :: "string option \<Rightarrow> shell_kind option" where
  "posixShellKindFromBasename v =
     (case v of
        None \<Rightarrow> None
      | Some raw \<Rightarrow>
          if raw = [] then None
          else let name = basenameOf raw;
                   name = (if starts_with name ''-'' then tl name else name)
               in js_get POSIX_BASENAMES (without_exe name))"

definition executableShellKind :: "string option \<Rightarrow> shell_kind option" where
  "executableShellKind v =
     (case v of
        None \<Rightarrow> None
      | Some raw \<Rightarrow>
          if js_trim raw = [] then None
          else let name = without_exe (basenameOf (js_lower raw))
               in if name = ''powershell'' then Some KWindowsPowerShell
                  else if name = ''pwsh'' \<or> name = ''pwsh-preview'' then Some KPwsh
                  else if name = ''cmd'' then Some KCmd
                  else if name = ''wsl'' then Some KWsl
                  else posixShellKindFromBasename (Some name))"

datatype shell_hint = Hint shell_grammar | UnsupportedHint

definition wsl_pattern :: rx where
  "wsl_pattern = rx_seq [rx_lit ''(wsl)'', rx_spaces, REnd]"

definition shellHintGrammar :: "string option \<Rightarrow> shell_hint option" where
  "shellHintGrammar v =
     (case v of
        None \<Rightarrow> None
      | Some raw \<Rightarrow>
          if js_trim raw = [] then None
          else let lower = js_lower (js_trim raw) in
            if rx_test wsl_pattern lower then Some (Hint PosixGrammar)
            else let name = without_exe (basenameOf lower) in
              if name \<in> set [''cmd'', ''command prompt''] then Some (Hint CmdGrammar)
              else if name \<in> set [''powershell'', ''windows powershell'', ''pwsh'', ''powershell 7'', ''powershell core'']
              then Some (Hint PowerShellGrammar)
              else if name \<in> set [''bash'', ''git bash'', ''zsh'', ''sh'', ''dash'', ''ksh'', ''wsl''] then Some (Hint PosixGrammar)
              else Some UnsupportedHint)"

subsection \<open>Templates and approvals\<close>

definition POWERSHELL_CMDLET_VERBS :: "string list" where
  "POWERSHELL_CMDLET_VERBS =
     [''add'', ''approve'', ''assert'', ''backup'', ''block'', ''checkpoint'', ''clear'', ''close'', ''compare'', ''complete'',
      ''compress'', ''confirm'', ''connect'', ''convert'', ''convertfrom'', ''convertto'', ''copy'', ''debug'', ''dismount'',
      ''edit'', ''disable'', ''disconnect'', ''enable'', ''enter'', ''exit'', ''expand'', ''export'', ''find'', ''format'', ''get'',
      ''grant'', ''group'', ''hide'', ''import'', ''initialize'', ''install'', ''invoke'', ''join'', ''limit'', ''lock'', ''measure'',
      ''merge'', ''mount'', ''move'', ''new'', ''optimize'', ''out'', ''ping'', ''pop'', ''protect'', ''publish'', ''push'', ''read'',
      ''receive'', ''register'', ''remove'', ''rename'', ''repair'', ''reset'', ''resize'', ''resolve'', ''restart'', ''restore'',
      ''resume'', ''revoke'', ''save'', ''search'', ''select'', ''send'', ''set'', ''show'', ''skip'', ''sort'', ''split'', ''start'',
      ''step'', ''stop'', ''submit'', ''suspend'', ''sync'', ''tee'', ''test'', ''trace'', ''unblock'', ''undo'', ''uninstall'',
      ''unlock'', ''unpublish'', ''unregister'', ''update'', ''use'', ''wait'', ''watch'', ''where'', ''write'', ''foreach'']"

definition firstToken :: "string \<Rightarrow> string" where
  "firstToken command = js_lower (takeWhile (\<lambda>c. \<not> is_space c) (js_trim command))"

definition cmdlet_word :: "string \<Rightarrow> bool" where
  "cmdlet_word s \<longleftrightarrow> (case s of [] \<Rightarrow> False | c # t \<Rightarrow> is_letter c \<and> list_all (\<lambda>c. is_letter c \<or> is_digit c) t)"

definition isPowerShellOnlyCmdlet :: "string \<Rightarrow> bool" where
  "isPowerShellOnlyCmdlet command =
     (let token = firstToken command; verb = takeWhile (\<lambda>c. c \<noteq> CHR ''-'') token
      in case dropWhile (\<lambda>c. c \<noteq> CHR ''-'') token of
           [] \<Rightarrow> False
         | _ # noun \<Rightarrow> cmdlet_word verb \<and> cmdlet_word noun \<and> js_lower verb \<in> set POWERSHELL_CMDLET_VERBS)"

definition templateRunsUnder :: "string \<Rightarrow> shell_grammar \<Rightarrow> bool" where
  "templateRunsUnder template grammar \<longleftrightarrow> grammar = PowerShellGrammar \<or> \<not> isPowerShellOnlyCmdlet template"

text \<open>Approvals for a session: the set of their keys.\<close>

definition sessionKey :: "shell_grammar \<Rightarrow> string \<Rightarrow> string" where
  "sessionKey grammar template = grammar_text grammar @ CHR 0x00 # js_lower (js_trim template)"

definition approvals_has :: "string list \<Rightarrow> shell_grammar \<Rightarrow> string \<Rightarrow> bool" where
  "approvals_has keys grammar template \<longleftrightarrow> isPersistedCommandShellGrammar grammar \<and> sessionKey grammar template \<in> set keys"

definition approvals_add :: "string list \<Rightarrow> shell_grammar \<Rightarrow> string \<Rightarrow> string list \<times> bool" where
  "approvals_add keys grammar template =
     (if \<not> isPersistedCommandShellGrammar grammar \<or> js_trim template = [] then (keys, False)
      else (set_add (sessionKey grammar template) keys, True))"

definition approvals_clear :: "string list \<Rightarrow> string list" where
  "approvals_clear keys = []"

definition reviewedSafeApprovalKeys :: "string list \<Rightarrow> approval_key list" where
  "reviewedSafeApprovalKeys templates =
     concat (map (\<lambda>g. concat (map (\<lambda>t.
       (let n = js_lower (js_trim t) in if n \<noteq> [] \<and> templateRunsUnder n g then [\<lparr>ak_grammar = g, ak_template = n\<rparr>] else []))
       templates)) PERSISTED_COMMAND_SHELL_GRAMMARS)"

subsection \<open>Segments that may match silently\<close>

fun QUOTES :: "shell_grammar \<Rightarrow> string" where
  "QUOTES CmdGrammar = [CHR 0x22]"
| "QUOTES _ = [CHR 0x22, CHR 0x27]"

text \<open>The text outside quotes; \<^const>\<open>None\<close> when a quote is left open. The second argument is the open quote.\<close>

fun unquoted_from :: "shell_grammar \<Rightarrow> char option \<Rightarrow> string \<Rightarrow> string option" where
  "unquoted_from g None [] = Some []"
| "unquoted_from g (Some q) [] = None"
| "unquoted_from g (Some q) (c # s) =
     (if c = q
      then (case s of
              d # s' \<Rightarrow> if g = PowerShellGrammar \<and> d = q then unquoted_from g (Some q) s'
                        else map_option ((#) CHR '' '') (unquoted_from g None s)
            | [] \<Rightarrow> map_option ((#) CHR '' '') (unquoted_from g None s))
      else if c = BACKSLASH_CHAR \<and> q = CHR 0x22 \<and> g = PosixGrammar
      then (case s of d # s' \<Rightarrow> unquoted_from g (Some q) s' | [] \<Rightarrow> None)
      else unquoted_from g (Some q) s)"
| "unquoted_from g None (c # s) =
     (if c \<in> set (QUOTES g) then unquoted_from g (Some c) s else map_option ((#) c) (unquoted_from g None s))"

definition unquoted :: "string \<Rightarrow> shell_grammar \<Rightarrow> string option" where
  "unquoted command grammar = unquoted_from grammar None command"

fun has_sub :: "string \<Rightarrow> string \<Rightarrow> bool" where
  "has_sub p [] \<longleftrightarrow> p = []"
| "has_sub p (c # s) \<longleftrightarrow> starts_with (c # s) p \<or> has_sub p s"

definition is_newline :: "char \<Rightarrow> bool" where
  "is_newline c \<longleftrightarrow> c = CHR 0x0A \<or> c = CHR 0x0D"

fun unsupported_chars :: "shell_grammar \<Rightarrow> string" where
  "unsupported_chars CmdGrammar = ''&|;<>()^%''"
| "unsupported_chars PowerShellGrammar = ''&|<>(){}$@'' @ [CHR 0x60]"
| "unsupported_chars PosixGrammar = ''&|<>()!'' @ [CHR 0x60]"
| "unsupported_chars NeutralGrammar = ''&|;<>(){}$@%^!*?[]~'' @ [CHR 0x60]"

definition unsupported_for_auto_allow :: "shell_grammar \<Rightarrow> string \<Rightarrow> bool" where
  "unsupported_for_auto_allow g s \<longleftrightarrow>
     list_ex (\<lambda>c. is_newline c \<or> c \<in> set (unsupported_chars g)) s
     \<or> g = PosixGrammar \<and> (has_sub ''$('' s \<or> has_sub ''${'' s)"

definition admittedSeparators :: "shell_kind \<Rightarrow> shell_grammar \<Rightarrow> string list" where
  "admittedSeparators kind grammar =
     (case grammar of
        CmdGrammar \<Rightarrow> [''&&'']
      | PowerShellGrammar \<Rightarrow> if kind = KPwsh then [''&&'', '';''] else ['';'']
      | PosixGrammar \<Rightarrow> [''&&'', '';'']
      | NeutralGrammar \<Rightarrow> [])"

text \<open>\<open>split\<close> by a pattern of alternative separators, none of them empty.\<close>

function split_seps :: "string list \<Rightarrow> string \<Rightarrow> string list" where
  "split_seps seps [] = [[]]"
| "split_seps seps (c # s) =
     (case find (starts_with (c # s)) seps of
        Some sep \<Rightarrow> [] # split_seps seps (drop (length sep - 1) s)
      | None \<Rightarrow> (case split_seps seps s of [] \<Rightarrow> [[c]] | p # ps \<Rightarrow> (c # p) # ps))"
  by pat_completeness auto
termination
  by (relation "measure (\<lambda>(seps, s). length s)") auto

definition autoAllowSegments :: "string \<Rightarrow> shell_kind \<Rightarrow> shell_grammar \<Rightarrow> string list option" where
  "autoAllowSegments command kind grammar =
     (let text' = js_trim command in
      if text' = [] \<or> unquoted text' grammar = None then None
      else let pieces = split_seps (admittedSeparators kind grammar) text';
               segments = (if grammar = NeutralGrammar then [text'] else map js_trim pieces)
           in if list_ex (\<lambda>s. s = []) segments then None
              else if unsupported_for_auto_allow grammar (join_with '' '' pieces) then None
              else Some segments)"

subsection \<open>Constructs that cannot run\<close>

record compatibility_problem =
  pb_construct :: string
  pb_message :: string

text \<open>The seconds of a \<open>start-sleep\<close>: its digits, when no word character follows them.\<close>

definition sleep_seconds :: "string \<Rightarrow> string option" where
  "sleep_seconds command =
     (let cmd = js_trim command; rest = drop 11 cmd; args = dropWhile is_space rest;
          args' = (if js_lower (take 8 args) = ''-seconds'' \<and> drop 8 args \<noteq> [] \<and> is_space (hd (drop 8 args))
                   then dropWhile is_space (drop 8 args) else args);
          digits = takeWhile is_digit args'
      in if js_lower (take 11 cmd) = ''start-sleep'' \<and> rest \<noteq> [] \<and> is_space (hd rest) \<and> digits \<noteq> []
            \<and> \<not> starts_word (dropWhile is_digit args')
         then Some digits else None)"

definition cmdletEquivalent :: "string \<Rightarrow> string \<Rightarrow> shell_grammar \<Rightarrow> string" where
  "cmdletEquivalent cmdlet command grammar =
     (let s = sleep_seconds command in
      if grammar = CmdGrammar
      then if cmdlet = ''start-sleep''
             then ''ping -n '' @ (case s of None \<Rightarrow> ''<seconds+1>'' | Some d \<Rightarrow> show_big (big_of_digits d + 1)) @ '' 127.0.0.1 >nul''
           else if cmdlet = ''get-childitem'' then ''dir''
           else if cmdlet = ''get-content'' then ''type <file>''
           else if cmdlet = ''copy-item'' then ''copy or xcopy''
           else if cmdlet = ''remove-item'' then ''del or rmdir''
           else if cmdlet = ''move-item'' then ''move''
           else ''a native cmd.exe command''
      else if cmdlet = ''start-sleep'' then ''sleep '' @ (case s of None \<Rightarrow> ''<seconds>'' | Some d \<Rightarrow> d)
           else if cmdlet = ''get-childitem'' then ''ls''
           else if cmdlet = ''get-content'' then ''cat <file>''
           else if cmdlet = ''copy-item'' then ''cp''
           else if cmdlet = ''remove-item'' then ''rm''
           else if cmdlet = ''move-item'' then ''mv''
           else ''a POSIX shell command'')"

text \<open>The first \<open>&&\<close> or \<open>||\<close>.\<close>

fun first_chain :: "string \<Rightarrow> string option" where
  "first_chain [] = None"
| "first_chain (c # s) =
     (if starts_with (c # s) ''&&'' then Some ''&&'' else if starts_with (c # s) ''||'' then Some ''||'' else first_chain s)"

definition shellCompatibilityProblem :: "string \<Rightarrow> shell_identity \<Rightarrow> compatibility_problem option" where
  "shellCompatibilityProblem command shell =
     (let t = js_trim command; described = describeShell (si_label shell) (si_grammar shell) in
      if si_grammar shell = NeutralGrammar then None
      else if si_grammar shell \<noteq> PowerShellGrammar \<and> isPowerShellOnlyCmdlet t
      then Some \<lparr>pb_construct = firstToken t,
             pb_message = quoted (firstToken t) @ '' is a PowerShell cmdlet, but this command runs in '' @ described
               @ '', so it would never succeed. Use the '' @ GRAMMAR_NAME (si_grammar shell) @ '' equivalent (''
               @ cmdletEquivalent (firstToken t) t (si_grammar shell) @ '').''\<rparr>
      else if si_kind shell = KWindowsPowerShell
      then map_option (\<lambda>chain. \<lparr>pb_construct = chain,
             pb_message = quoted chain @ '' is not a command separator in '' @ described
               @ '', so this command would not parse. Use '' @ quoted '';''
               @ '' to run the commands one after another, or make two calls when the second must run only if the first succeeds.''\<rparr>)
             (first_chain (case unquoted t PowerShellGrammar of Some o' \<Rightarrow> o' | None \<Rightarrow> t))
      else None)"

definition declaredDirectShellIdentity :: "(string list \<Rightarrow> string) \<Rightarrow> string \<Rightarrow> shell_identity" where
  "declaredDirectShellIdentity sha256_json platform =
     (if platform = ''win32'' then commandShellIdentity sha256_json KCmd DirectFallback None (Some [''host-direct'', ''win32''])
      else commandShellIdentity sha256_json KSh DirectFallback None (Some [''host-direct'', ''posix'']))"

definition directFallbackNotice :: "string \<Rightarrow> string \<Rightarrow> string" where
  "directFallbackNotice label why = why @ '' This invocation will use the declared direct fallback: '' @ label @ ''.''"

end
