(* ===== verification/NodePath.thy ===== *)
theory NodePath
  imports Prelude "HOL-Library.Sublist"
begin

text \<open>
  What the code uses of \<open>node:path\<close> on a POSIX host, and the containment test built on it
  (\<open>src/src/backend/pathContainment.ts\<close>). An absolute path that is resolved is the list of its segments: the laws
  say what the functions do to the segments, so that everything above speaks of lists. The working directory of the
  process is an argument.
\<close>

section \<open>The path functions\<close>

text \<open>\<open>path.posix.normalize\<close>, by segments: what \<open>.\<close> and \<open>..\<close> leave.\<close>

definition norm_step :: "bool \<Rightarrow> string list \<Rightarrow> string \<Rightarrow> string list" where
  "norm_step climb acc seg =
     (if seg = [] \<or> seg = ''.'' then acc
      else if seg = ''..''
      then if acc \<noteq> [] \<and> last acc \<noteq> ''..'' then butlast acc else if climb then acc @ [''..''] else acc
      else acc @ [seg])"

definition posix_normalize :: "string \<Rightarrow> string" where
  "posix_normalize p =
     (if p = [] then ''.''
      else let absolute = (hd p = CHR ''/''); trailing = (last p = CHR ''/'');
               body = join_with ''/'' (foldl (norm_step (\<not> absolute)) [] (split_on CHR ''/'' p))
           in if body = [] then (if absolute then ''/'' else if trailing then ''./'' else ''.'')
              else (if absolute then ''/'' else []) @ body @ (if trailing then ''/'' else []))"

definition path_isAbsolute :: "string \<Rightarrow> bool" where
  "path_isAbsolute p \<longleftrightarrow> starts_with p ''/''"

text \<open>\<open>path.resolve\<close>: the arguments from the right to the first that is absolute, or to the working directory.\<close>

fun resolve_text :: "string \<Rightarrow> string list \<Rightarrow> string \<Rightarrow> string" where
  "resolve_text cwd [] acc = cwd @ ''/'' @ acc"
| "resolve_text cwd (p # ps) acc =
     (if p = [] then resolve_text cwd ps acc
      else if path_isAbsolute p then p @ ''/'' @ acc
      else resolve_text cwd ps (p @ ''/'' @ acc))"

definition path_segs :: "string \<Rightarrow> string list" where
  "path_segs p = foldl (norm_step False) [] (split_on CHR ''/'' p)"

definition to_path :: "string list \<Rightarrow> string" where
  "to_path segs = ''/'' @ join_with ''/'' segs"

definition path_resolve :: "string \<Rightarrow> string list \<Rightarrow> string" where
  "path_resolve cwd ps = to_path (path_segs (resolve_text cwd (rev ps) []))"

fun common_prefix :: "'a list \<Rightarrow> 'a list \<Rightarrow> nat" where
  "common_prefix (x # xs) (y # ys) = (if x = y then Suc (common_prefix xs ys) else 0)"
| "common_prefix _ _ = 0"

definition path_relative :: "string \<Rightarrow> string \<Rightarrow> string \<Rightarrow> string" where
  "path_relative cwd from to =
     (let f = path_segs (path_resolve cwd [from]); t = path_segs (path_resolve cwd [to]); n = common_prefix f t
      in join_with ''/'' (replicate (length f - n) ''..'' @ drop n t))"

definition path_dirname :: "string \<Rightarrow> string" where
  "path_dirname p =
     (if p = [] then ''.''
      else let is_sep = (\<lambda>c. c = CHR ''/''); cut = dropWhile (\<lambda>c. \<not> is_sep c) (dropWhile is_sep (rev (tl p)))
           in if cut = [] then (if is_sep (hd p) then ''/'' else ''.'')
              else if is_sep (hd p) \<and> length cut = 1 then ''//''
              else take (length cut) p)"

definition path_join :: "string list \<Rightarrow> string" where
  "path_join ps =
     (let kept = filter (\<lambda>p. p \<noteq> []) ps in if kept = [] then ''.'' else posix_normalize (join_with ''/'' kept))"

section \<open>Containment\<close>

definition escapesRoot :: "string \<Rightarrow> bool" where
  "escapesRoot relative \<longleftrightarrow> relative = ''..'' \<or> starts_with relative ''../'' \<or> path_isAbsolute relative"

definition isPathInsideOrEqual :: "string \<Rightarrow> string \<Rightarrow> string \<Rightarrow> bool" where
  "isPathInsideOrEqual cwd folder candidate \<longleftrightarrow>
     (let relative = path_relative cwd (path_resolve cwd [folder]) (path_resolve cwd [candidate])
      in relative = [] \<or> \<not> escapesRoot relative)"

definition isPathStrictlyInside :: "string \<Rightarrow> string \<Rightarrow> string \<Rightarrow> bool" where
  "isPathStrictlyInside cwd folder candidate \<longleftrightarrow>
     (let relative = path_relative cwd (path_resolve cwd [folder]) (path_resolve cwd [candidate])
      in relative \<noteq> [] \<and> \<not> escapesRoot relative)"

section \<open>Paths as their segments\<close>

definition is_seg :: "string \<Rightarrow> bool" where
  "is_seg s \<longleftrightarrow> s \<noteq> [] \<and> s \<noteq> ''.'' \<and> s \<noteq> ''..'' \<and> CHR ''/'' \<notin> set s"

abbreviation are_segs :: "string list \<Rightarrow> bool" where
  "are_segs \<equiv> list_all is_seg"

lemma seg_last: "is_seg x \<Longrightarrow> last x \<noteq> CHR ''/''"
  unfolding is_seg_def by (metis last_in_set)

lemma split_on_set: "s \<in> set (split_on d p) \<Longrightarrow> d \<notin> set s"
proof (induction p arbitrary: s)
  case (Cons c p)
  then show ?case by (cases "split_on d p") (auto split: if_splits)
qed simp

lemma norm_steps_segs:
  "list_all (\<lambda>s. CHR ''/'' \<notin> set s) ss \<Longrightarrow> are_segs acc \<Longrightarrow> are_segs (foldl (norm_step False) acc ss)"
proof (induction ss arbitrary: acc)
  case (Cons s ss)
  have "are_segs (butlast acc)" using Cons.prems(2) by (auto simp: list_all_iff dest: in_set_butlastD)
  moreover have "is_seg s" if "s \<noteq> []" "s \<noteq> ''.''" "s \<noteq> ''..''" using that Cons.prems(1) by (simp add: is_seg_def)
  ultimately have "are_segs (norm_step False acc s)" using Cons.prems(2) by (simp add: norm_step_def)
  with Cons show ?case by simp
qed simp

lemma path_segs_ok [simp]: "are_segs (path_segs p)"
  unfolding path_segs_def by (rule norm_steps_segs) (auto simp: list_all_iff dest: split_on_set)

lemma split_join: "are_segs ss \<Longrightarrow> ss \<noteq> [] \<Longrightarrow> split_on CHR ''/'' (join_with ''/'' ss) = ss"
proof (induction ss)
  case (Cons s ss)
  then show ?case by (cases ss) (simp_all add: is_seg_def split_on_none split_on_append)
qed simp

lemma norm_steps_same: "are_segs ss \<Longrightarrow> foldl (norm_step False) acc ss = acc @ ss"
  by (induction ss arbitrary: acc) (simp_all add: norm_step_def is_seg_def)

lemma path_segs_to_path [simp]: "are_segs ss \<Longrightarrow> path_segs (to_path ss) = ss"
  by (cases "ss = []") (simp_all add: path_segs_def to_path_def norm_step_def split_join norm_steps_same)

lemma to_path_inj: "are_segs ss \<Longrightarrow> are_segs ts \<Longrightarrow> to_path ss = to_path ts \<longleftrightarrow> ss = ts"
  by (metis path_segs_to_path)

lemma to_path_absolute [simp]: "path_isAbsolute (to_path ss)"
  by (simp add: path_isAbsolute_def to_path_def starts_with_def)

lemma resolve_segs [simp]: "path_segs (path_resolve cwd ps) = path_segs (resolve_text cwd (rev ps) [])"
  by (simp add: path_resolve_def)

lemma path_segs_append: "path_segs (p @ ''/'' @ q) = foldl (norm_step False) (path_segs p) (split_on CHR ''/'' q)"
proof -
  have "split_on CHR ''/'' (p @ ''/'' @ q) = split_on CHR ''/'' p @ split_on CHR ''/'' q"
  proof (induction p)
    case (Cons c p)
    then show ?case by (cases "split_on CHR ''/'' p") auto
  qed simp
  then show ?thesis by (simp add: path_segs_def)
qed

lemma path_segs_slash [simp]: "path_segs (p @ ''/'') = path_segs p"
  using path_segs_append [of p "[]"] by (simp add: norm_step_def)

lemma resolve_to_path [simp]: "path_resolve cwd [to_path ss] = to_path (path_segs (to_path ss))"
proof -
  have "to_path ss \<noteq> []" by (simp add: to_path_def)
  then show ?thesis by (simp add: path_resolve_def)
qed

text \<open>Resolving a text against a resolved folder.\<close>

lemma resolve_in_folder:
  assumes "are_segs ss" and "p \<noteq> []" and "\<not> path_isAbsolute p"
  shows "path_resolve cwd [to_path ss, p] = to_path (foldl (norm_step False) ss (split_on CHR ''/'' p))"
proof -
  have "to_path ss \<noteq> []" by (simp add: to_path_def)
  moreover have "path_segs (to_path ss @ ''/'' @ p @ ''/'') = path_segs (to_path ss @ ''/'' @ p)"
    using path_segs_slash [of "to_path ss @ ''/'' @ p"] by simp
  ultimately show ?thesis using assms by (simp add: path_resolve_def path_segs_append [of "to_path ss" p, simplified])
qed

lemma common_prefix_take: "take (common_prefix xs ys) xs = take (common_prefix xs ys) ys"
  by (induction xs ys rule: common_prefix.induct) auto

lemma common_prefix_le: "common_prefix xs ys \<le> length xs" "common_prefix xs ys \<le> length ys"
  by (induction xs ys rule: common_prefix.induct) auto

lemma common_prefix_full: "length xs \<le> common_prefix xs ys \<longleftrightarrow> prefix xs ys"
  by (induction xs ys rule: common_prefix.induct) auto

lemma common_prefix_append [simp]: "common_prefix xs (xs @ ys) = length xs"
  by (induction xs) auto

lemma common_prefix_self [simp]: "common_prefix xs xs = length xs"
  using common_prefix_append [of xs "[]"] by simp

lemma relative_below: "are_segs ss \<Longrightarrow> are_segs ts \<Longrightarrow> path_relative cwd (to_path ss) (to_path (ss @ ts)) = join_with ''/'' ts"
  by (simp add: path_relative_def)

lemma join_empty: "join_with ''/'' ss = [] \<longleftrightarrow> ss = [] \<or> ss = [[]]"
  by (induction "''/''" ss rule: join_with.induct) auto

lemma seg_no_escape: "are_segs ts \<Longrightarrow> \<not> escapesRoot (join_with ''/'' ts)"
proof (cases ts)
  case (Cons t us)
  assume "are_segs ts"
  with Cons have t: "is_seg t" by simp
  define r where "r = (if us = [] then [] else ''/'' @ join_with ''/'' us)"
  have eq: "join_with ''/'' ts = t @ r" by (simp add: Cons join_with_Cons r_def)
  have r: "r = [] \<or> hd r = CHR ''/''" by (simp add: r_def)
  have "\<not> path_isAbsolute (t @ r)" using t by (cases t) (auto simp: path_isAbsolute_def starts_with_def is_seg_def)
  moreover have "t @ r \<noteq> ''..''"
    using t r by (auto simp: is_seg_def append_eq_Cons_conv)
  moreover have "\<not> starts_with (t @ r) ''../''"
    using t r by (auto simp: is_seg_def starts_with_iff append_eq_Cons_conv Cons_eq_append_conv)
  ultimately show ?thesis by (simp add: escapesRoot_def eq)
qed (simp add: escapesRoot_def path_isAbsolute_def starts_with_def)

lemma relative_of_paths:
  assumes "are_segs ss" and "are_segs ts"
  shows "path_relative cwd (to_path ss) (to_path ts) = [] \<longleftrightarrow> ss = ts"
    and "path_relative cwd (to_path ss) (to_path ts) = [] \<or> \<not> escapesRoot (path_relative cwd (to_path ss) (to_path ts)) \<longleftrightarrow> prefix ss ts"
proof -
  let ?n = "common_prefix ss ts"
  let ?r = "replicate (length ss - ?n) ''..'' @ drop ?n ts"
  have rel: "path_relative cwd (to_path ss) (to_path ts) = join_with ''/'' ?r" using assms by (simp add: path_relative_def Let_def)
  have below: "join_with ''/'' ?r = join_with ''/'' us \<and> are_segs us" if "ts = ss @ us" for us
    using that assms(2) by simp
  show "path_relative cwd (to_path ss) (to_path ts) = [] \<longleftrightarrow> ss = ts"
  proof
    assume "path_relative cwd (to_path ss) (to_path ts) = []"
    moreover have "?r \<noteq> [[]]"
    proof
      assume "?r = [[]]"
      then have "[] \<in> set ?r" by simp
      then have "[] \<in> set ts" by (auto dest: in_set_dropD)
      with assms(2) show False by (auto simp: list_all_iff is_seg_def)
    qed
    ultimately have "?r = []" unfolding rel join_empty by blast
    then show "ss = ts" using common_prefix_take [of ss ts] by simp
  qed (use assms in \<open>simp add: path_relative_def Let_def\<close>)
  show "path_relative cwd (to_path ss) (to_path ts) = [] \<or> \<not> escapesRoot (path_relative cwd (to_path ss) (to_path ts)) \<longleftrightarrow> prefix ss ts"
  proof (cases "prefix ss ts")
    case True
    then obtain us where us: "ts = ss @ us" by (auto simp: prefix_def)
    with assms(2) have "\<not> escapesRoot (join_with ''/'' us)" by (intro seg_no_escape) simp
    with True below [OF us] show ?thesis unfolding rel by simp
  next
    case False
    then obtain k where k: "length ss - ?n = Suc k" unfolding common_prefix_full [symmetric]
      by (metis Suc_diff_Suc not_le)
    have "join_with ''/'' ?r = ''..'' @ (if replicate k ''..'' @ drop ?n ts = [] then [] else ''/'' @ join_with ''/'' (replicate k ''..'' @ drop ?n ts))"
      unfolding k by (simp add: join_with_Cons)
    then have "escapesRoot (join_with ''/'' ?r)" "join_with ''/'' ?r \<noteq> []"
      by (auto simp: escapesRoot_def starts_with_def)
    with False show ?thesis unfolding rel by simp
  qed
qed

lemma path_resolve_form: "\<exists>ss. are_segs ss \<and> path_resolve cwd ps = to_path ss"
  unfolding path_resolve_def using path_segs_ok by blast

lemma inside_iff:
  "isPathInsideOrEqual cwd folder candidate
     \<longleftrightarrow> prefix (path_segs (path_resolve cwd [folder])) (path_segs (path_resolve cwd [candidate]))"
  and strictly_inside_iff:
  "isPathStrictlyInside cwd folder candidate
     \<longleftrightarrow> strict_prefix (path_segs (path_resolve cwd [folder])) (path_segs (path_resolve cwd [candidate]))"
proof -
  obtain ss ts where segs: "are_segs ss" "path_resolve cwd [folder] = to_path ss" "are_segs ts" "path_resolve cwd [candidate] = to_path ts"
    using path_resolve_form by blast
  note rel = relative_of_paths [OF segs(1,3), where cwd = cwd]
  show "isPathInsideOrEqual cwd folder candidate
     \<longleftrightarrow> prefix (path_segs (path_resolve cwd [folder])) (path_segs (path_resolve cwd [candidate]))"
    using rel(2) segs by (simp add: isPathInsideOrEqual_def del: resolve_segs)
  show "isPathStrictlyInside cwd folder candidate
     \<longleftrightarrow> strict_prefix (path_segs (path_resolve cwd [folder])) (path_segs (path_resolve cwd [candidate]))"
    using rel segs by (auto simp: isPathStrictlyInside_def strict_prefix_def simp del: resolve_segs)
qed

text \<open>Joining, resolving and going up, on resolved paths.\<close>

lemma inside_places:
  assumes "are_segs ss" and "are_segs ts"
  shows "isPathStrictlyInside cwd (to_path ss) (to_path ts) \<longleftrightarrow> strict_prefix ss ts"
    and "isPathInsideOrEqual cwd (to_path ss) (to_path ts) \<longleftrightarrow> prefix ss ts"
  unfolding inside_iff strictly_inside_iff resolve_to_path path_segs_to_path [OF assms(1)] path_segs_to_path [OF assms(2)]
  by (rule refl)+

lemma resolve_rest:
  assumes "are_segs ss" and "are_segs ts" and "ts \<noteq> []"
  shows "path_resolve cwd [to_path ss, join_with ''/'' ts] = to_path (ss @ ts)"
proof -
  have "join_with ''/'' ts \<noteq> []" using assms(2,3) by (cases ts) (auto simp: join_with_Cons is_seg_def)
  moreover have "\<not> path_isAbsolute (join_with ''/'' ts)" using seg_no_escape [OF assms(2)] by (simp add: escapesRoot_def)
  ultimately show ?thesis using assms by (simp add: resolve_in_folder split_join norm_steps_same)
qed

lemma join_with_snoc: "join_with sep (ss @ [x]) = (if ss = [] then x else join_with sep ss @ sep @ x)"
  by (induction ss) (auto simp: join_with_Cons)

lemma dropWhile_rev_seg: "CHR ''/'' \<notin> set x \<Longrightarrow> dropWhile (\<lambda>c. c \<noteq> CHR ''/'') (rev x @ y) = dropWhile (\<lambda>c. c \<noteq> CHR ''/'') y"
  by (rule dropWhile_append2) auto

lemma dirname_to_path: "are_segs ss \<Longrightarrow> is_seg x \<Longrightarrow> path_dirname (to_path (ss @ [x])) = to_path ss"
proof -
  assume segs: "are_segs ss" and x: "is_seg x"
  let ?j = "join_with ''/'' ss"
  have tl: "rev (tl (to_path (ss @ [x]))) = rev x @ (if ss = [] then [] else CHR ''/'' # rev ?j)"
    by (simp add: to_path_def join_with_snoc)
  have "rev x \<noteq> [] \<and> hd (rev x) \<noteq> CHR ''/''" using x by (auto simp: is_seg_def hd_rev) (metis last_in_set)
  then have 1: "dropWhile (\<lambda>c. c = CHR ''/'') (rev (tl (to_path (ss @ [x])))) = rev (tl (to_path (ss @ [x])))"
    unfolding tl by (cases "rev x") auto
  have 2: "dropWhile (\<lambda>c. c \<noteq> CHR ''/'') (rev (tl (to_path (ss @ [x])))) = (if ss = [] then [] else CHR ''/'' # rev ?j)"
    unfolding tl using x by (subst dropWhile_rev_seg) (simp_all add: is_seg_def)
  have j: "ss \<noteq> [] \<Longrightarrow> ?j \<noteq> []" using segs by (cases ss) (auto simp: join_with_Cons is_seg_def)
  show ?thesis
    unfolding path_dirname_def Let_def 1 2 using j by (simp add: to_path_def join_with_snoc)
qed

lemma dirname_top: "path_dirname (to_path []) = to_path []"
  by (simp add: to_path_def path_dirname_def)

lemma normalize_to_path: "are_segs ss \<Longrightarrow> posix_normalize (to_path ss) = to_path ss"
proof -
  assume segs: "are_segs ss"
  have last: "last (to_path ss) \<noteq> CHR ''/''" if "ss \<noteq> []"
  proof -
    from that obtain us x where us: "ss = us @ [x]" by (cases ss rule: rev_cases) auto
    with segs have "is_seg x" by simp
    then show ?thesis using seg_last [of x] by (auto simp: us to_path_def join_with_snoc is_seg_def)
  qed
  have segs': "foldl (norm_step False) [] (split_on CHR ''/'' (to_path ss)) = ss"
    using path_segs_to_path [OF segs] by (simp add: path_segs_def)
  have parts: "to_path ss \<noteq> []" "hd (to_path ss) = CHR ''/''" "ss \<noteq> [] \<Longrightarrow> join_with ''/'' ss \<noteq> []"
    using segs by (cases ss; auto simp: to_path_def join_with_Cons is_seg_def)+
  show ?thesis
  proof (cases "ss = []")
    case True
    then show ?thesis by (simp add: posix_normalize_def to_path_def norm_step_def)
  next
    case False
    with parts last segs' have "posix_normalize (to_path ss) = ''/'' @ join_with ''/'' ss @ []"
      unfolding posix_normalize_def Let_def by simp
    then show ?thesis by (simp add: to_path_def)
  qed
qed

lemma join_rest:
  assumes "are_segs ss" and "are_segs ts"
  shows "path_join [to_path ss, join_with ''/'' ts] = to_path (ss @ ts)"
proof (cases "ts = []")
  case True
  then show ?thesis using normalize_to_path [OF assms(1)] by (simp add: path_join_def to_path_def)
next
  case False
  have ne: "join_with ''/'' ts \<noteq> []" using assms(2) False by (cases ts) (auto simp: join_with_Cons is_seg_def)
  have eq: "path_segs (to_path ss @ ''/'' @ join_with ''/'' ts) = ss @ ts"
    unfolding path_segs_append using assms False by (simp add: split_join norm_steps_same)
  let ?t = "to_path ss @ ''/'' @ join_with ''/'' ts"
  have last: "last ?t \<noteq> CHR ''/''"
  proof -
    from False obtain us x where us: "ts = us @ [x]" by (cases ts rule: rev_cases) auto
    with assms(2) have "is_seg x" by simp
    then show ?thesis using seg_last [of x] by (auto simp: us join_with_snoc is_seg_def)
  qed
  have "join_with ''/'' (ss @ ts) \<noteq> []" using assms False by (cases ss; cases ts) (auto simp: join_with_Cons is_seg_def)
  then have "posix_normalize ?t = to_path (ss @ ts)"
    using last eq unfolding posix_normalize_def path_segs_def Let_def by (simp add: to_path_def)
  with ne show ?thesis by (simp add: path_join_def to_path_def [of ss])
qed

text \<open>
   A path is inside a folder, or is it, exactly when the folder's segments are the first of the path's, both
  resolved: a name that starts with two dots is a name, a neighbour whose name is longer is outside, and one step up is.
\<close>

theorem containment_is_by_segments:
  "(isPathInsideOrEqual cwd folder candidate
      \<longleftrightarrow> prefix (path_segs (path_resolve cwd [folder])) (path_segs (path_resolve cwd [candidate])))
   \<and> (isPathStrictlyInside cwd folder candidate
      \<longleftrightarrow> strict_prefix (path_segs (path_resolve cwd [folder])) (path_segs (path_resolve cwd [candidate])))"
  using inside_iff strictly_inside_iff by blast

end
