(* ===== verification/CommandPolicy.thy ===== *)
theory CommandPolicy
  imports CommandShell NodePath
begin

text \<open>
  The gatekeeper of the commands agents run (\<open>src/src/backend/CommandPolicy.ts\<close>): the patterns refused in
  every mode, the bounded scanner that reads a command as segments of literal words, the targets of deletes, and
  the verdict of a policy in each of its modes. A refused command is a verdict with a reason; a scanner that gives
  up is \<^const>\<open>None\<close>.
\<close>

subsection \<open>Patterns refused in every mode\<close>

abbreviation rx_letter :: rx where
  "rx_letter \<equiv> RChar is_letter"

abbreviation rx_letters :: rx where
  "rx_letters \<equiv> RStar (RChar is_letter)"

abbreviation rx_c :: "char \<Rightarrow> rx" where
  "rx_c c \<equiv> RChar (same_letter c)"

definition rm_option_pattern :: "char \<Rightarrow> char \<Rightarrow> rx" where
  "rm_option_pattern a b = rx_seq [RBound, rx_lit_i ''rm'', rx_spaces1, rx_lit ''-'', rx_letters, rx_c a, rx_letters, rx_c b]"

definition CATASTROPHIC :: "rx list" where
  "CATASTROPHIC = [
     RAlt (rm_option_pattern CHR ''r'' CHR ''f'') (rm_option_pattern CHR ''f'' CHR ''r''),
     rx_seq [RBound, rx_lit_i ''rm'', rx_spaces1, rx_lit ''-'', RAlt (rx_c CHR ''r'') (rx_c CHR ''f''), RStar (RChar is_word),
       rx_spaces1, rx_alt [rx_lit ''/'', rx_lit ''~'', rx_lit ''..''], RAlt (RChar is_space) REnd],
     rx_seq [RBound, rx_lit_i ''mkfs'', RBound],
     rx_seq [RBound, rx_lit_i ''dd'', RBound, rx_line, RBound, rx_lit_i ''of=/dev/''],
     rx_seq [rx_lit '':'', rx_spaces, rx_lit ''('', rx_spaces, rx_lit '')'', rx_spaces, rx_lit ''{'',
       RStar (RChar (\<lambda>c. c \<noteq> CHR ''}'')), rx_lit ''}'', rx_spaces, rx_lit '';'', rx_spaces, rx_lit '':''],
     rx_seq [RBound, rx_alt (map rx_lit_i [''shutdown'', ''reboot'', ''halt'', ''poweroff'']), RBound],
     rx_seq [RBound, rx_lit_i ''sudo'', RBound],
     rx_seq [RBound, rx_alt (map rx_lit_i [''curl'', ''wget'']), RBound, rx_line, rx_lit ''|'', rx_spaces,
       rx_alt (map rx_lit_i [''sh'', ''bash'', ''zsh'', ''powershell'', ''pwsh'', ''cmd'']), RBound],
     rx_seq [RBound, rx_lit_i ''format'', rx_spaces1, rx_letter, rx_lit '':''],
     rx_seq [RBound, rx_lit_i ''del'', rx_spaces1, rx_lit ''/'',
       rx_alt [rx_c CHR ''s'', rx_c CHR ''f'', rx_c CHR ''q'']],
     rx_seq [rx_lit ''>'', rx_spaces, rx_lit ''/dev/'', rx_alt (map rx_lit [''sd'', ''nvme'', ''disk''])]]"

definition RECURSIVE_DELETE_COMMANDS :: "string list" where
  "RECURSIVE_DELETE_COMMANDS = [''rm'', ''del'', ''erase'', ''rmdir'', ''rd'', ''remove-item'', ''ri'']"

definition SAFE_COMMAND_TEMPLATES :: "string list" where
  "SAFE_COMMAND_TEMPLATES =
     [''git status'', ''git diff'', ''git log'', ''git show'', ''git ls-files'', ''echo'', ''hostname'', ''whoami'', ''npm ls'', ''npm audit'',
      ''npm test'', ''npm run test'', ''npm run build'', ''npm run compile'', ''npm run lint'', ''npm run typecheck'', ''pnpm test'',
      ''yarn test'', ''npx tsc'', ''npx eslint'', ''npx prettier'', ''npx vitest'', ''tsc'', ''eslint'', ''prettier'', ''pytest'',
      ''go test'', ''go vet'', ''go build'', ''cargo test'', ''cargo check'', ''cargo build'']"

subsection \<open>The bounded scanner\<close>

definition DESTRUCTIVE_PATTERN_REASON :: string where
  "DESTRUCTIVE_PATTERN_REASON = ''matches a blocked destructive pattern''"

datatype opaque_reason =
    EmptyCommand | UnidentifiedShell | Envelope | Wrapper | UncertainTarget | UnsupportedDeleteParam | ExpandableTarget

fun OPAQUE_REASONS :: "opaque_reason \<Rightarrow> string" where
  "OPAQUE_REASONS EmptyCommand = ''empty command''"
| "OPAQUE_REASONS UnidentifiedShell = ''the shell is not identified''"
| "OPAQUE_REASONS Envelope = ''the command is not a simple literal command the guard can read''"
| "OPAQUE_REASONS Wrapper = ''it runs another shell, script or inline program the guard does not read''"
| "OPAQUE_REASONS UncertainTarget = ''a delete target's real path could not be confirmed''"
| "OPAQUE_REASONS UnsupportedDeleteParam = ''a recognised delete command carries a parameter the guard does not read exactly''"
| "OPAQUE_REASONS ExpandableTarget = ''a delete target holds a wildcard or a home-folder shorthand the guard does not expand''"

datatype inspection =
    Blocked (blocked_reason: string)
  | Supported (read_segments: "string list list")
  | Opaque (why_opaque: string)

definition MAX_LENGTH :: nat where "MAX_LENGTH = 16384"
definition MAX_SEGMENTS :: nat where "MAX_SEGMENTS = 32"
definition MAX_WORDS :: nat where "MAX_WORDS = 256"

definition SHELL_WRAPPER_VERBS :: "string list" where
  "SHELL_WRAPPER_VERBS =
     [''cmd'', ''command'', ''powershell'', ''pwsh'', ''bash'', ''sh'', ''dash'', ''zsh'', ''ksh'', ''wsl'', ''busybox'', ''env'', ''xargs'',
      ''nohup'', ''sudo'', ''doas'', ''eval'', ''exec'', ''start'', ''call'', ''source'']"

definition EVAL_INTERPRETER_VERBS :: "string list" where
  "EVAL_INTERPRETER_VERBS =
     [''node'', ''deno'', ''bun'', ''ts-node'', ''tsx'', ''python'', ''python3'', ''py'', ''perl'', ''ruby'', ''php'']"

definition EVAL_FLAGS :: "string list" where
  "EVAL_FLAGS = [''-e'', ''-c'', ''-p'', ''--eval'', ''--exec'', ''--print'', ''--check'', ''-command'', ''-encodedcommand'', ''-file'']"

definition SCRIPT_VERB_EXT :: "string list" where
  "SCRIPT_VERB_EXT = [''.sh'', ''.bash'', ''.zsh'', ''.ksh'', ''.ps1'', ''.psm1'', ''.bat'', ''.cmd'']"

definition BACKTICK :: char where "BACKTICK = CHR 0x60"

fun REJECT_OUTSIDE_QUOTE :: "shell_grammar \<Rightarrow> string" where
  "REJECT_OUTSIDE_QUOTE CmdGrammar = BACKTICK # ''%^!<>(){}*?[]''"
| "REJECT_OUTSIDE_QUOTE PowerShellGrammar = BACKTICK # ''$@<>(){}*?[]''"
| "REJECT_OUTSIDE_QUOTE _ = BACKTICK # BACKSLASH_CHAR # ''$!<>(){}*?[]''"

text \<open>The segments read so far, the words of the one being read, and the word under way.\<close>

record scan =
  sc_done :: "string list list"
  sc_current :: "string list"
  sc_word :: string
  sc_inWord :: bool

definition start_scan :: scan where
  "start_scan = \<lparr>sc_done = [], sc_current = [], sc_word = [], sc_inWord = False\<rparr>"

definition endWord :: "scan \<Rightarrow> scan option" where
  "endWord sc =
     (if sc_inWord sc
      then if MAX_WORDS \<le> length (sc_current sc) then None
           else Some (sc\<lparr>sc_current := sc_current sc @ [sc_word sc], sc_word := [], sc_inWord := False\<rparr>)
      else Some (sc\<lparr>sc_word := []\<rparr>))"

definition newSegment :: "scan \<Rightarrow> scan option" where
  "newSegment sc =
     (case endWord sc of
        None \<Rightarrow> None
      | Some sc1 \<Rightarrow>
          if sc_current sc1 = [] then None
          else if MAX_SEGMENTS \<le> Suc (length (sc_done sc1)) then None
          else Some (sc1\<lparr>sc_done := sc_done sc1 @ [sc_current sc1], sc_current := []\<rparr>))"

text \<open>What cannot stand between quotes of a kind, and the quoted text with what follows its closing quote.\<close>

definition forbidden_in_quote :: "shell_grammar \<Rightarrow> char \<Rightarrow> char \<Rightarrow> bool" where
  "forbidden_in_quote g q c \<longleftrightarrow> is_newline c
     \<or> q = CHR 0x22 \<and> (g = PosixGrammar \<and> c = BACKSLASH_CHAR \<or> g = PowerShellGrammar \<and> c = BACKTICK)
     \<or> q = CHR 0x22 \<and> c = CHR ''$'' \<and> g \<noteq> CmdGrammar
     \<or> q = CHR 0x22 \<and> g = CmdGrammar \<and> (c = CHR ''^'' \<or> c = CHR ''%'')"

fun quoted_span :: "shell_grammar \<Rightarrow> char \<Rightarrow> string \<Rightarrow> (string \<times> string) option" where
  "quoted_span g q [] = None"
| "quoted_span g q (c # s) =
     (if c = q then Some ([], s)
      else if forbidden_in_quote g q c then None
      else map_option (\<lambda>(inside, rest). (c # inside, rest)) (quoted_span g q s))"

lemma quoted_span_shorter: "quoted_span g q s = Some (inside, rest) \<Longrightarrow> length rest < length s"
  by (induction s arbitrary: inside) (fastforce split: if_splits)+

definition ends_quoted_word :: "string \<Rightarrow> bool" where
  "ends_quoted_word rest \<longleftrightarrow> (case rest of [] \<Rightarrow> True | c # _ \<Rightarrow> is_space c \<or> c \<in> set ''&|;'')"

definition opens_quote :: "shell_grammar \<Rightarrow> char \<Rightarrow> bool" where
  "opens_quote g c \<longleftrightarrow> c = CHR 0x22 \<or> g \<noteq> CmdGrammar \<and> c = CHR 0x27"

function scan_from :: "shell_grammar \<Rightarrow> bool \<Rightarrow> string \<Rightarrow> scan \<Rightarrow> scan option" where
  "scan_from g amp [] sc = Some sc"
| "scan_from g amp (c # s) sc =
     (if c = CHR '' '' \<or> c = CHR 0x09 then (case endWord sc of None \<Rightarrow> None | Some sc1 \<Rightarrow> scan_from g amp s sc1)
      else if is_newline c then None
      else if starts_with (c # s) ''&&''
      then if \<not> amp then None else (case newSegment sc of None \<Rightarrow> None | Some sc1 \<Rightarrow> scan_from g amp (drop 1 s) sc1)
      else if c = CHR '';'' \<and> g \<noteq> CmdGrammar then (case newSegment sc of None \<Rightarrow> None | Some sc1 \<Rightarrow> scan_from g amp s sc1)
      else if c \<in> set ''&|;'' then None
      else if opens_quote g c
      then if sc_inWord sc then None
           else (case quoted_span g c s of
                   None \<Rightarrow> None
                 | Some (inside, rest) \<Rightarrow>
                     if \<not> ends_quoted_word rest then None
                     else scan_from g amp rest (sc\<lparr>sc_word := sc_word sc @ inside, sc_inWord := True\<rparr>))
      else if c \<in> set (REJECT_OUTSIDE_QUOTE g) then None
      else scan_from g amp s (sc\<lparr>sc_word := sc_word sc @ [c], sc_inWord := True\<rparr>))"
  by pat_completeness auto
termination
  by (relation "measure (\<lambda>(g, amp, s, sc). length s)") (auto dest: quoted_span_shorter)

definition boundedScan :: "string \<Rightarrow> shell_grammar \<Rightarrow> bool \<Rightarrow> string list list option" where
  "boundedScan command g allowDoubleAmp =
     (if MAX_LENGTH < length command then None
      else case Option.bind (scan_from g allowDoubleAmp command start_scan) endWord of
        None \<Rightarrow> None
      | Some sc \<Rightarrow> if sc_current sc = [] then None else Some (sc_done sc @ [sc_current sc]))"

subsection \<open>Verbs, parameters and targets of a segment\<close>

text \<open>Without the folders before a name, as far as the first line goes, and without \<open>.exe\<close>.\<close>

definition strip_folders :: "string \<Rightarrow> string" where
  "strip_folders t = (let line = takeWhile (\<lambda>c. \<not> is_newline c) t in after_last is_slash line @ drop (length line) t)"

definition deleteVerb :: "string \<Rightarrow> string" where
  "deleteVerb token = without_exe (strip_folders (js_lower token))"

definition isWrapperSegment :: "string list \<Rightarrow> bool" where
  "isWrapperSegment tokens =
     (let verb = deleteVerb (hd tokens) in
      verb \<in> set SHELL_WRAPPER_VERBS
      \<or> list_ex (ends_with (js_lower (hd tokens))) SCRIPT_VERB_EXT
      \<or> verb \<in> set EVAL_INTERPRETER_VERBS \<and> list_ex (\<lambda>t. js_lower t \<in> set EVAL_FLAGS) (tl tokens))"

definition UNDERSTOOD_PS_DELETE_PARAMS :: "string list" where
  "UNDERSTOOD_PS_DELETE_PARAMS = [''-recurse'', ''-force'', ''-path'', ''-literalpath'', ''-r'']"

definition before_colon :: "string \<Rightarrow> string" where
  "before_colon = takeWhile (\<lambda>c. c \<noteq> CHR '':'')"

definition unread_param :: "string \<Rightarrow> bool" where
  "unread_param token \<longleftrightarrow> starts_with token ''-'' \<and> before_colon (js_lower token) \<notin> set UNDERSTOOD_PS_DELETE_PARAMS"

fun hasUnsupportedDeleteParam :: "string list \<Rightarrow> bool" where
  "hasUnsupportedDeleteParam [] = False"
| "hasUnsupportedDeleteParam (t # ts) =
     (deleteVerb t \<in> set RECURSIVE_DELETE_COMMANDS \<and> list_ex unread_param ts \<or> hasUnsupportedDeleteParam ts)"

definition isDeleteFlag :: "string \<Rightarrow> bool" where
  "isDeleteFlag token \<longleftrightarrow> starts_with token ''-'' \<or> starts_with token ''/''"

definition isPowerShellRecurseOrForce :: "string \<Rightarrow> bool" where
  "isPowerShellRecurseOrForce flag \<longleftrightarrow> before_colon (js_lower flag) \<in> set [''-r'', ''-recurse'', ''-force'']"

text \<open>A switch like \<open>/s\<close>: one of the letters after the slash, on its line.\<close>

definition slash_switch :: "string \<Rightarrow> string \<Rightarrow> bool" where
  "slash_switch letters flag \<longleftrightarrow> starts_with flag ''/'' \<and> list_ex (\<lambda>c. c \<in> set letters) (takeWhile (\<lambda>c. \<not> is_newline c) (tl flag))"

definition hasRecursiveOrForceDeleteFlag :: "string \<Rightarrow> string list \<Rightarrow> bool" where
  "hasRecursiveOrForceDeleteFlag verb rest =
     (let flags = map js_lower (filter isDeleteFlag rest) in
      if list_ex isPowerShellRecurseOrForce flags then True
      else if verb = ''rmdir'' \<or> verb = ''rd'' then list_ex (slash_switch ''s'') flags
      else if verb = ''del'' \<or> verb = ''erase'' then list_ex (slash_switch ''sfq'') flags
      else if verb = ''rm''
      then list_ex (\<lambda>f. starts_with f ''-'' \<and> list_ex (\<lambda>c. c = CHR ''r'' \<or> c = CHR ''f'') (takeWhile is_letter (tl f))
             \<or> f = ''--recursive'' \<or> f = ''--force'') flags
      else False)"

text \<open>The value bound to a parameter with a colon.\<close>

definition bound_value :: "string \<Rightarrow> string option" where
  "bound_value token =
     (let name = takeWhile is_letter (tl token); rest = drop (length name) (tl token)
      in if starts_with token ''-'' \<and> name \<noteq> [] \<and> starts_with rest '':'' \<and> tl rest \<noteq> [] \<and> list_all (\<lambda>c. \<not> is_newline c) (tl rest)
         then Some (tl rest) else None)"

definition deleteOperands :: "string \<Rightarrow> string list" where
  "deleteOperands token =
     (let v = (case bound_value token of Some w \<Rightarrow> w | None \<Rightarrow> token)
      in js_unique ([token, v] @ filter (\<lambda>i. i \<noteq> []) (split_on CHR '','' v)))"

fun deleteTargetsOfSegment :: "string list \<Rightarrow> string list" where
  "deleteTargetsOfSegment [] = []"
| "deleteTargetsOfSegment (t # ts) =
     (if deleteVerb t \<in> set RECURSIVE_DELETE_COMMANDS \<and> hasRecursiveOrForceDeleteFlag (deleteVerb t) ts
      then concat (map deleteOperands ts) else []) @ deleteTargetsOfSegment ts"

definition isExpandableDeleteTarget :: "string \<Rightarrow> bool" where
  "isExpandableDeleteTarget token \<longleftrightarrow> list_ex (\<lambda>c. c \<in> set ''*?[]'') token \<or> starts_with token ''~''"

definition strip_end :: "(char \<Rightarrow> bool) \<Rightarrow> string \<Rightarrow> string" where
  "strip_end P s = rev (dropWhile P (rev s))"

definition isProtectedDeleteSegment :: "string \<Rightarrow> bool" where
  "isProtectedDeleteSegment segment =
     (let name = strip_end (\<lambda>c. c = CHR ''.'' \<or> c = CHR '' '') (before_colon segment)
      in name = ''.git'' \<or> name = ''.unode'')"

definition strip_drive :: "string \<Rightarrow> string" where
  "strip_drive s = (case s of a # b # t \<Rightarrow> if is_lower a \<and> b = CHR '':'' then t else s | _ \<Rightarrow> s)"

definition slashed_target :: "string \<Rightarrow> string" where
  "slashed_target token = js_lower (map (\<lambda>c. if c = BACKSLASH_CHAR then CHR ''/'' else c) token)"

definition isCatastrophicDeleteTarget :: "string \<Rightarrow> bool" where
  "isCatastrophicDeleteTarget token =
     (let slashed = slashed_target token in
      if slashed = [] then False
      else if list_ex isProtectedDeleteSegment (split_on CHR ''/'' (strip_drive slashed)) then True
      else let stripped = strip_end (\<lambda>c. c = CHR ''/'') (posix_normalize slashed);
               normalized = (if stripped = [] then ''/'' else stripped)
           in normalized = ''/'' \<or> normalized = ''~'' \<or> normalized = ''.'' \<or> normalized = ''..''
              \<or> starts_with normalized ''../'' \<or> length normalized = 2 \<and> is_lower (hd normalized) \<and> normalized ! 1 = CHR '':'')"

subsection \<open>Inspection\<close>

type_synonym shell_fact = "(shell_kind \<times> shell_grammar) option"

definition lexGrammarOf :: "shell_fact \<Rightarrow> shell_grammar option" where
  "lexGrammarOf shell = Option.bind shell (\<lambda>(_, g). if g = NeutralGrammar then None else Some g)"

definition inspectCommand :: "string \<Rightarrow> shell_fact \<Rightarrow> inspection" where
  "inspectCommand command shell =
     (let text' = js_trim command in
      if text' = [] then Opaque (OPAQUE_REASONS EmptyCommand)
      else if list_ex (\<lambda>p. rx_test p text') CATASTROPHIC then Blocked DESTRUCTIVE_PATTERN_REASON
      else case lexGrammarOf shell of
        None \<Rightarrow> Opaque (OPAQUE_REASONS UnidentifiedShell)
      | Some g \<Rightarrow>
          (case boundedScan text' g (g \<noteq> PowerShellGrammar \<or> map_option fst shell = Some KPwsh) of
             None \<Rightarrow> Opaque (OPAQUE_REASONS Envelope)
           | Some segments \<Rightarrow>
               (case find (\<lambda>s. s = [] \<or> isWrapperSegment s) segments of
                  Some s \<Rightarrow> Opaque (OPAQUE_REASONS (if s = [] then Envelope else Wrapper))
                | None \<Rightarrow>
                    (let targets = concat (map deleteTargetsOfSegment segments) in
                     if list_ex isCatastrophicDeleteTarget targets then Blocked DESTRUCTIVE_PATTERN_REASON
                     else if g = PowerShellGrammar \<and> list_ex hasUnsupportedDeleteParam segments
                     then Opaque (OPAQUE_REASONS UnsupportedDeleteParam)
                     else if list_ex isExpandableDeleteTarget targets then Opaque (OPAQUE_REASONS ExpandableTarget)
                     else Supported segments))))"

definition isCatastrophicCommand :: "string \<Rightarrow> shell_fact \<Rightarrow> bool" where
  "isCatastrophicCommand command shell = is_Blocked (inspectCommand command shell)"

definition supportedDeleteTargets :: "string \<Rightarrow> shell_fact \<Rightarrow> string list" where
  "supportedDeleteTargets command shell =
     (case inspectCommand command shell of
        Supported segments \<Rightarrow> if lexGrammarOf shell = None then [] else concat (map deleteTargetsOfSegment segments)
      | _ \<Rightarrow> [])"

subsection \<open>The policy\<close>

datatype approval_mode = ModeNone | ModeAllowlist | ModeAll | ModeAsk

record verdict =
  vd_allowed :: bool
  vd_reason :: "string option"
  vd_ask :: bool
  vd_opaque :: bool
  vd_dangerous :: bool
  vd_disabled :: bool

definition allow :: verdict where
  "allow = \<lparr>vd_allowed = True, vd_reason = None, vd_ask = False, vd_opaque = False, vd_dangerous = False, vd_disabled = False\<rparr>"

definition refuse_with :: "string \<Rightarrow> verdict" where
  "refuse_with reason = allow\<lparr>vd_allowed := False, vd_reason := Some reason\<rparr>"

text \<open>What a policy is made from: a bare list of templates, or templates and keyed grants.\<close>

datatype policy_inputs = NoInputs | BareTemplates "string list" | Structured "string list" "approval_key list"

definition normalizeTemplates :: "string list \<Rightarrow> string list" where
  "normalizeTemplates entries = js_unique (filter (\<lambda>t. t \<noteq> []) (map (\<lambda>e. js_lower (js_trim e)) entries))"

definition normalizeKeys :: "approval_key list \<Rightarrow> approval_key list" where
  "normalizeKeys ks =
     js_unique (filter (\<lambda>k. ak_template k \<noteq> [] \<and> isPersistedCommandShellGrammar (ak_grammar k))
       (map (\<lambda>k. k\<lparr>ak_template := js_lower (js_trim (ak_template k))\<rparr>) ks))"

definition policyInputs :: "policy_inputs \<Rightarrow> string list \<times> approval_key list" where
  "policyInputs inputs =
     (case inputs of
        NoInputs \<Rightarrow> ([], [])
      | BareTemplates ts \<Rightarrow> (normalizeTemplates ts, [])
      | Structured ts ks \<Rightarrow> (normalizeTemplates ts, normalizeKeys ks))"

record command_policy =
  cp_mode :: approval_mode
  cp_configured :: "string list"
  cp_project :: "approval_key list"
  cp_onFirstBlock :: bool
  cp_blockPrompted :: bool

definition new_policy :: "approval_mode \<Rightarrow> policy_inputs \<Rightarrow> command_policy" where
  "new_policy mode inputs = \<lparr>cp_mode = mode, cp_configured = fst (policyInputs inputs), cp_project = snd (policyInputs inputs),
     cp_onFirstBlock = False, cp_blockPrompted = False\<rparr>"

definition reload_policy :: "approval_mode \<Rightarrow> policy_inputs \<Rightarrow> command_policy \<Rightarrow> command_policy" where
  "reload_policy mode inputs p = p\<lparr>cp_mode := mode, cp_configured := fst (policyInputs inputs), cp_project := snd (policyInputs inputs)\<rparr>"

definition isApprovalNeeded :: "approval_mode \<Rightarrow> bool" where
  "isApprovalNeeded mode \<longleftrightarrow> mode = ModeNone"

definition effectiveCommandApprovalMode :: "approval_mode \<Rightarrow> bool \<Rightarrow> approval_mode" where
  "effectiveCommandApprovalMode userMode projectExecutionEnabled =
     (if userMode = ModeNone \<and> projectExecutionEnabled then ModeAsk else userMode)"

definition allowlistFor :: "command_policy \<Rightarrow> shell_grammar \<Rightarrow> string list" where
  "allowlistFor p g =
     js_unique (filter (\<lambda>t. templateRunsUnder t g) (cp_configured p)
       @ map ak_template (filter (\<lambda>k. ak_grammar k = g \<and> templateRunsUnder (ak_template k) g) (cp_project p)))"

definition narrowingTemplates :: "command_policy \<Rightarrow> (string \<times> shell_grammar list) list" where
  "narrowingTemplates p =
     filter (\<lambda>(t, gs). gs \<noteq> [])
       (map (\<lambda>t. (t, filter (\<lambda>g. t \<in> set (allowlistFor p g)) PERSISTED_COMMAND_SHELL_GRAMMARS))
         (js_unique (cp_configured p @ map ak_template (cp_project p))))"

definition segment_matches :: "string list \<Rightarrow> string \<Rightarrow> bool" where
  "segment_matches allowlist segment \<longleftrightarrow>
     list_ex (\<lambda>prefix. js_lower segment = prefix \<or> starts_with (js_lower segment) (prefix @ '' '')) allowlist"

definition everySegmentIsAllowlisted :: "string list \<Rightarrow> string list \<Rightarrow> bool" where
  "everySegmentIsAllowlisted segments allowlist \<longleftrightarrow> list_all (segment_matches allowlist) segments"

definition admittedChainsText :: "shell_kind \<Rightarrow> shell_grammar \<Rightarrow> string" where
  "admittedChainsText kind g =
     (case g of
        CmdGrammar \<Rightarrow> ''nonempty && chains''
      | PowerShellGrammar \<Rightarrow> if kind = KPwsh then ''nonempty ; and && chains'' else ''nonempty ; chains''
      | PosixGrammar \<Rightarrow> ''nonempty && and ; chains''
      | NeutralGrammar \<Rightarrow> ''single commands with literal arguments'')"

definition DISABLED_REASON :: string where
  "DISABLED_REASON = ''command execution is disabled. The user can enable it via '' @ quoted ''unode.commandApproval'' @ ''.''"

definition opaqueVerdict :: "approval_mode \<Rightarrow> string \<Rightarrow> verdict" where
  "opaqueVerdict mode reason =
     (case mode of
        ModeNone \<Rightarrow> (refuse_with DISABLED_REASON)\<lparr>vd_disabled := True, vd_opaque := True\<rparr>
      | ModeAll \<Rightarrow> allow\<lparr>vd_opaque := True\<rparr>
      | ModeAllowlist \<Rightarrow> (refuse_with (''cannot be checked silently ('' @ reason
            @ ''); the allowlist mode only runs commands it can read segment by segment.''))\<lparr>vd_opaque := True\<rparr>
      | ModeAsk \<Rightarrow> (refuse_with ''awaiting user approval'')\<lparr>vd_ask := True, vd_opaque := True\<rparr>)"

definition dangerous_verdict :: verdict where
  "dangerous_verdict = (refuse_with DESTRUCTIVE_PATTERN_REASON)\<lparr>vd_ask := True, vd_dangerous := True\<rparr>"

text \<open>The verdict, the policy after it (it remembers the first block it reported), and whether it called back.\<close>

definition check_command :: "command_policy \<Rightarrow> string \<Rightarrow> shell_identity \<Rightarrow> verdict \<times> command_policy \<times> bool" where
  "check_command p rawCommand shell =
     (let command = js_trim rawCommand; fact = Some (si_kind shell, si_grammar shell) in
      if command = [] then (refuse_with ''empty command'', p, False)
      else if cp_mode p = ModeNone
      then (let report = (cp_onFirstBlock p \<and> \<not> cp_blockPrompted p)
            in ((refuse_with DISABLED_REASON)\<lparr>vd_disabled := True\<rparr>,
                (if report then p\<lparr>cp_blockPrompted := True\<rparr> else p), report))
      else (case inspectCommand command fact of
              Blocked _ \<Rightarrow> (dangerous_verdict, p, False)
            | Opaque reason \<Rightarrow> (opaqueVerdict (cp_mode p) reason, p, False)
            | Supported _ \<Rightarrow>
                (if cp_mode p = ModeAll then allow
                 else let allowlist = allowlistFor p (si_grammar shell) in
                   case autoAllowSegments command (si_kind shell) (si_grammar shell) of
                     None \<Rightarrow>
                       if cp_mode p = ModeAsk then (refuse_with ''awaiting user approval'')\<lparr>vd_ask := True\<rparr>
                       else refuse_with (''contains unsupported shell control syntax for ''
                         @ describeShell (si_label shell) (si_grammar shell) @ ''. Only ''
                         @ admittedChainsText (si_kind shell) (si_grammar shell)
                         @ '' of independently allowlisted commands are permitted.'')
                   | Some segments \<Rightarrow>
                       if everySegmentIsAllowlisted segments allowlist then allow
                       else if cp_mode p = ModeAsk then (refuse_with ''awaiting user approval'')\<lparr>vd_ask := True\<rparr>
                       else refuse_with (''not in the allowlist. Every command segment must match an allowed prefix: ''
                         @ (if join_with '', '' allowlist = [] then ''(none configured)'' else join_with '', '' allowlist) @ ''.''),
                 p, False)))"

definition noPolicyVerdict :: "string \<Rightarrow> shell_fact \<Rightarrow> verdict" where
  "noPolicyVerdict command shell =
     (case inspectCommand command shell of
        Blocked _ \<Rightarrow> dangerous_verdict
      | Opaque reason \<Rightarrow> (refuse_with (''cannot be checked silently ('' @ reason
          @ ''); it is not run without an explicit command-execution mode.''))\<lparr>vd_opaque := True\<rparr>
      | Supported _ \<Rightarrow> allow)"

subsection \<open>What is remembered on ``Always allow''\<close>

text \<open>\<open>split\<close> at white space, the empty pieces left out.\<close>

function js_words :: "string \<Rightarrow> string list" where
  "js_words s =
     (let t = dropWhile is_space s in
      if t = [] then [] else takeWhile (\<lambda>c. \<not> is_space c) t # js_words (dropWhile (\<lambda>c. \<not> is_space c) t))"
  by pat_completeness auto
termination
proof (relation "measure length", simp)
  fix s t :: string assume "t = dropWhile is_space s" "t \<noteq> []"
  then have "length (dropWhile (\<lambda>c. \<not> is_space c) t) < length t"
    by (metis dropWhile.simps(2) hd_dropWhile length_Cons length_dropWhile_le less_Suc_eq_le list.collapse)
  then show "(dropWhile (\<lambda>c. \<not> is_space c) t, s) \<in> measure length"
    using \<open>t = _\<close> length_dropWhile_le [of is_space s] by simp
qed

declare js_words.simps [simp del]

definition MULTI_VERB :: "string list" where
  "MULTI_VERB = [''git'', ''npm'', ''npx'', ''pnpm'', ''yarn'', ''cargo'', ''go'', ''dotnet'', ''make'', ''docker'', ''kubectl'', ''pip'', ''pip3'',
     ''python'', ''python3'', ''node'', ''deno'', ''bun'']"

definition RUN_SCRIPT_PM :: "string list" where
  "RUN_SCRIPT_PM = [''npm'', ''pnpm'', ''yarn'', ''bun'']"

definition commandPrefix :: "string \<Rightarrow> string" where
  "commandPrefix command = js_lower (takeWhile (\<lambda>c. \<not> is_space c) (js_trim command))"

definition commandTemplate :: "string \<Rightarrow> string" where
  "commandTemplate command =
     (case js_words command of
        [] \<Rightarrow> []
      | [t] \<Rightarrow> js_lower t
      | t # u # ts \<Rightarrow>
          if js_lower t \<notin> set MULTI_VERB then js_lower t
          else if js_lower t \<in> set RUN_SCRIPT_PM \<and> js_lower u = ''run'' \<and> ts \<noteq> []
          then js_lower t @ '' run '' @ js_lower (hd ts)
          else js_lower t @ '' '' @ js_lower u)"

end
