(* ===== verification/CommandScanLaws.thy ===== *)
theory CommandScanLaws
  imports CommandPolicy
begin

text \<open>
  What the bounded scanner of commands does: the ways one step of it can go, that what is read stays read, that
  plain text is read as its words, that every segment it finds begins where a piece of the silent match begins, and
  that it reads back the words a command was written from.
\<close>

section \<open>Words\<close>

lemma js_words_Nil [simp]: "js_words [] = []"
  using js_words.simps [of "[]"] by simp

lemma js_words_space [simp]: "is_space c \<Longrightarrow> js_words (c # s) = js_words s"
  using js_words.simps [of "c # s"] js_words.simps [of s] by (simp add: Let_def)

lemma js_words_other [simp]:
  "\<not> is_space c \<Longrightarrow> js_words (c # s) = (c # takeWhile (\<lambda>c. \<not> is_space c) s) # js_words (dropWhile (\<lambda>c. \<not> is_space c) s)"
  using js_words.simps [of "c # s"] by (simp add: Let_def)

lemma is_space_lower [simp]: "is_space (lower_char c) = is_space c"
  by (auto simp: is_space_def lower_char_def Let_def of_char_of)

lemma lower_code:
  "(of_char (lower_char c) :: nat) = (let n = of_char c in
     if (65 \<le> n \<and> n \<le> 90) \<or> (192 \<le> n \<and> n \<le> 214) \<or> (216 \<le> n \<and> n \<le> 222) then n + 32 else n)"
proof -
  have "(of_char c :: nat) < 256" by simp
  then show ?thesis by (auto simp: lower_char_def Let_def of_char_of)
qed

text \<open>Characters that are no letters are their own lower case, and nobody else's.\<close>

lemma lower_code_small: "(of_char d :: nat) < 65 \<Longrightarrow> lower_char c = d \<longleftrightarrow> c = d"
proof -
  assume d: "(of_char d :: nat) < 65"
  have "lower_char c = d \<longleftrightarrow> (of_char (lower_char c) :: nat) = of_char d" by simp
  also have "\<dots> \<longleftrightarrow> (of_char c :: nat) = of_char d" using d unfolding lower_code Let_def by auto
  finally show ?thesis by simp
qed

lemma lower_takeWhile: "takeWhile (\<lambda>c. \<not> is_space c) (js_lower s) = js_lower (takeWhile (\<lambda>c. \<not> is_space c) s)"
  by (induction s) (simp_all add: js_lower_def)

lemma lower_dropWhile: "dropWhile (\<lambda>c. \<not> is_space c) (js_lower s) = js_lower (dropWhile (\<lambda>c. \<not> is_space c) s)"
  by (induction s) (simp_all add: js_lower_def)

lemma js_words_lower: "js_words (js_lower s) = map js_lower (js_words s)"
proof (induction s rule: length_induct)
  case (1 s)
  show ?case
  proof (cases s)
    case Nil
    then show ?thesis by (simp add: js_lower_def)
  next
    case (Cons c t)
    show ?thesis
    proof (cases "is_space c")
      case True
      with Cons 1 show ?thesis by (simp add: js_lower_def)
    next
      case False
      have "length (dropWhile (\<lambda>c. \<not> is_space c) t) < length s"
        using Cons length_dropWhile_le [of "\<lambda>c. \<not> is_space c" t] by (simp add: less_Suc_eq_le)
      with 1 have "js_words (js_lower (dropWhile (\<lambda>c. \<not> is_space c) t)) = map js_lower (js_words (dropWhile (\<lambda>c. \<not> is_space c) t))"
        by blast
      then show ?thesis using Cons False lower_takeWhile [of t] lower_dropWhile [of t] by (simp add: js_lower_def)
    qed
  qed
qed

text \<open>Reading words character by character, as the scanner does.\<close>

definition finish_word :: "string list \<Rightarrow> string \<Rightarrow> bool \<Rightarrow> string list" where
  "finish_word ws w inw = ws @ (if inw then [w] else [])"

fun read_words :: "string list \<Rightarrow> string \<Rightarrow> bool \<Rightarrow> string \<Rightarrow> string list" where
  "read_words ws w inw [] = finish_word ws w inw"
| "read_words ws w inw (c # s) =
     (if is_space c then read_words (finish_word ws w inw) [] False s else read_words ws (w @ [c]) True s)"

lemma read_words:
  "read_words ws [] False s = ws @ js_words s"
  "read_words ws w True s = ws @ (w @ takeWhile (\<lambda>c. \<not> is_space c) s) # js_words (dropWhile (\<lambda>c. \<not> is_space c) s)"
  by (induction s arbitrary: ws w) (simp_all add: finish_word_def)

section \<open>Pieces between separators\<close>

lemma split_seps_not_Nil [simp]: "split_seps seps s \<noteq> []"
  by (induction seps s rule: split_seps.induct) (auto split: option.splits list.splits)

lemma split_seps_other:
  "find (starts_with (c # s)) seps = None \<Longrightarrow> split_seps seps (c # s) = (c # hd (split_seps seps s)) # tl (split_seps seps s)"
  by (cases "split_seps seps s") simp_all

text \<open>No separator reaches over a character that is in none of them.\<close>

lemma split_seps_over:
  assumes "\<forall>sep \<in> set seps. c \<notin> set sep \<and> sep \<noteq> []"
  shows "\<exists>ps p. split_seps seps (u @ c # r) = ps @ (p @ c # hd (split_seps seps r)) # tl (split_seps seps r)"
proof (induction u rule: length_induct)
  case (1 u)
  show ?case
  proof (cases u)
    case Nil
    have "find (starts_with (c # r)) seps = None"
      using assms by (auto simp: find_None_iff starts_with_iff append_eq_Cons_conv Cons_eq_append_conv)
    then show ?thesis using Nil split_seps_other [of c r seps] by auto
  next
    case (Cons d v)
    show ?thesis
    proof (cases "find (starts_with (d # v @ c # r)) seps")
      case None
      from 1 Cons obtain ps p where "split_seps seps (v @ c # r) = ps @ (p @ c # hd (split_seps seps r)) # tl (split_seps seps r)"
        by (metis length_Cons lessI)
      then show ?thesis using Cons split_seps_other [OF None] by (cases ps) auto
    next
      case (Some sep)
      then have sep: "sep \<in> set seps" "starts_with (d # v @ c # r) sep" by (auto simp: find_Some_iff)
      then obtain t where t: "d # v @ c # r = sep @ t" unfolding starts_with_iff by blast
      from assms sep(1) have c: "c \<notin> set sep" by auto
      have "length sep \<le> Suc (length v)"
      proof (rule ccontr)
        assume "\<not> length sep \<le> Suc (length v)"
        then have long: "Suc (length v) < length sep" by simp
        then have "sep ! Suc (length v) = (d # v @ c # r) ! Suc (length v)" unfolding t by (simp add: nth_append)
        also have "\<dots> = c" by simp
        finally show False using c long nth_mem by metis
      qed
      then have rest: "drop (length sep - 1) (v @ c # r) = drop (length sep - 1) v @ c # r" by simp
      have "length (drop (length sep - 1) v) < length u" using Cons by simp
      with 1 obtain ps p where
          "split_seps seps (drop (length sep - 1) v @ c # r) = ps @ (p @ c # hd (split_seps seps r)) # tl (split_seps seps r)"
        by metis
      then have "split_seps seps (u @ c # r) = ([] # ps) @ (p @ c # hd (split_seps seps r)) # tl (split_seps seps r)"
        using Cons Some rest by simp
      then show ?thesis by blast
    qed
  qed
qed


text \<open>The first piece is a prefix, up to the end of the text or a separator.\<close>

lemma split_seps_hd:
  assumes "\<forall>sep \<in> set seps. sep \<noteq> []"
  shows "\<exists>r. s = hd (split_seps seps s) @ r \<and> (r = [] \<or> (\<exists>sep \<in> set seps. starts_with r sep))"
proof (induction s)
  case (Cons c s)
  show ?case
  proof (cases "find (starts_with (c # s)) seps")
    case None
    then show ?thesis using Cons split_seps_other [OF None] by auto
  next
    case (Some sep)
    then have "sep \<in> set seps \<and> starts_with (c # s) sep" by (auto simp: find_Some_iff)
    with Some show ?thesis by auto
  qed
qed simp

lemma split_seps_sep:
  "find (starts_with (c # s)) seps = Some sep \<Longrightarrow> split_seps seps (c # s) = [] # split_seps seps (drop (length sep - 1) s)"
  by simp

text \<open>No piece has a character that is a separator by itself.\<close>

lemma split_seps_single:
  "[c] \<in> set seps \<Longrightarrow> p \<in> set (split_seps seps s) \<Longrightarrow> c \<notin> set p"
proof (induction seps s arbitrary: p rule: split_seps.induct)
  case (2 seps d s)
  show ?case
  proof (cases "find (starts_with (d # s)) seps")
    case None
    with 2 have "\<not> starts_with (d # s) [c]" unfolding find_None_iff by blast
    then have "d \<noteq> c" by (simp add: starts_with_def)
    with None 2 show ?thesis using split_seps_other [OF None] by (cases "split_seps seps s") auto
  next
    case (Some sep)
    with 2 show ?thesis by auto
  qed
qed simp


section \<open>The scanner, step by step\<close>

definition closed_words :: "scan \<Rightarrow> string list" where
  "closed_words sc = finish_word (sc_current sc) (sc_word sc) (sc_inWord sc)"

definition all_segments :: "scan \<Rightarrow> string list list" where
  "all_segments sc = sc_done sc @ [sc_current sc]"

definition fresh_scan :: "string list list \<Rightarrow> scan" where
  "fresh_scan d = \<lparr>sc_done = d, sc_current = [], sc_word = [], sc_inWord = False\<rparr>"

lemma endWord_Some:
  "endWord sc = Some sc1 \<Longrightarrow> sc1 = sc\<lparr>sc_current := closed_words sc, sc_word := [], sc_inWord := False\<rparr>"
  by (auto simp: endWord_def closed_words_def finish_word_def split: if_splits)

lemma newSegment_Some: "newSegment sc = Some sc1 \<Longrightarrow> sc1 = fresh_scan (sc_done sc @ [closed_words sc])"
  by (auto simp: newSegment_def fresh_scan_def split: option.splits if_splits dest!: endWord_Some)

lemma quoted_span_text: "quoted_span g q s = Some (inside, rest) \<Longrightarrow> s = inside @ q # rest"
  by (induction s arbitrary: inside) (fastforce split: if_splits)+

text \<open>The ways a scan goes on.\<close>

lemma scan_from_cases:
  assumes "scan_from g amp (c # s) sc = Some sc1"
  obtains
    (space) sc' where "c = CHR '' '' \<or> c = CHR 0x09" "endWord sc = Some sc'" "scan_from g amp s sc' = Some sc1"
  | (both) t sc' where "c = CHR ''&''" "s = CHR ''&'' # t" "amp" "newSegment sc = Some sc'" "scan_from g amp t sc' = Some sc1"
  | (semi) sc' where "c = CHR '';''" "g \<noteq> CmdGrammar" "newSegment sc = Some sc'" "scan_from g amp s sc' = Some sc1"
  | (quote) inside rest where "opens_quote g c" "\<not> sc_inWord sc" "quoted_span g c s = Some (inside, rest)"
      "ends_quoted_word rest" "scan_from g amp rest (sc\<lparr>sc_word := sc_word sc @ inside, sc_inWord := True\<rparr>) = Some sc1"
  | (plain) "c \<notin> set ''&|; ''" "c \<noteq> CHR 0x09" "\<not> is_newline c" "\<not> opens_quote g c"
      "scan_from g amp s (sc\<lparr>sc_word := sc_word sc @ [c], sc_inWord := True\<rparr>) = Some sc1"
proof -
  note step = assms [unfolded scan_from.simps]
  show ?thesis
  proof (cases "c = CHR '' '' \<or> c = CHR 0x09")
    case True
    with step show ?thesis by (auto split: option.splits intro: space)
  next
    case no_space: False
    with step have line: "\<not> is_newline c" by (auto split: if_splits)
    show ?thesis
    proof (cases "starts_with (c # s) ''&&''")
      case True
      then obtain t where t: "c = CHR ''&''" "s = CHR ''&'' # t" by (auto simp: starts_with_iff)
      with step line both [OF t] show ?thesis by (auto simp: starts_with_def split: if_splits option.splits)
    next
      case no_amp: False
      show ?thesis
      proof (cases "c = CHR '';'' \<and> g \<noteq> CmdGrammar")
        case True
        with step line no_amp no_space show ?thesis by (auto split: option.splits intro: semi)
      next
        case no_semi: False
        with step line no_amp no_space have other: "c \<notin> set ''&|;''" by (auto split: if_splits)
        show ?thesis
        proof (cases "opens_quote g c")
          case True
          with step line no_amp no_space no_semi other show ?thesis
            by (auto split: option.splits if_splits prod.splits intro: quote)
        next
          case False
          with step line no_amp no_space no_semi other show ?thesis by (auto split: if_splits intro!: plain)
        qed
      qed
    qed
  qed
qed

text \<open>What is read stays read.\<close>

lemma scan_extends:
  "scan_from g amp s sc = Some sc1 \<Longrightarrow> endWord sc1 = Some sc2 \<Longrightarrow>
     \<exists>more later. all_segments sc2 = sc_done sc @ (sc_current sc @ more) # later"
proof (induction s arbitrary: sc rule: length_induct)
  case (1 s)
  show ?case
  proof (cases s)
    case Nil
    with 1 show ?thesis by (auto simp: all_segments_def closed_words_def finish_word_def dest!: endWord_Some)
  next
    case (Cons c t)
    from 1(2) have "scan_from g amp (c # t) sc = Some sc1" unfolding Cons .
    then show ?thesis
    proof (cases rule: scan_from_cases)
      case (space sc')
      from 1(1) [rule_format, OF _ space(3) 1(3)] Cons
      obtain more later where "all_segments sc2 = sc_done sc' @ (sc_current sc' @ more) # later" by auto
      then show ?thesis unfolding endWord_Some [OF space(2)] by (auto simp: closed_words_def finish_word_def)
    next
      case (both u sc')
      from 1(1) [rule_format, OF _ both(5) 1(3)] Cons both(2)
      obtain more later where "all_segments sc2 = sc_done sc' @ (sc_current sc' @ more) # later" by auto
      then show ?thesis unfolding newSegment_Some [OF both(4)] by (auto simp: fresh_scan_def closed_words_def finish_word_def)
    next
      case (semi sc')
      from 1(1) [rule_format, OF _ semi(4) 1(3)] Cons
      obtain more later where "all_segments sc2 = sc_done sc' @ (sc_current sc' @ more) # later" by auto
      then show ?thesis unfolding newSegment_Some [OF semi(3)] by (auto simp: fresh_scan_def closed_words_def finish_word_def)
    next
      case (quote inside rest)
      from 1(1) [rule_format, OF _ quote(5) 1(3)] Cons quoted_span_shorter [OF quote(3)] show ?thesis by simp
    next
      case plain
      from 1(1) [rule_format, OF _ plain(5) 1(3)] Cons show ?thesis by simp
    qed
  qed
qed

definition closes_word :: "shell_grammar \<Rightarrow> string \<Rightarrow> bool" where
  "closes_word g s \<longleftrightarrow> s = [] \<or> hd s \<in> set '' ;'' \<or> hd s = CHR 0x09 \<or> starts_with s ''&&''"

lemma scan_closes:
  assumes "scan_from g amp s sc = Some sc1" and "endWord sc1 = Some sc2" and "closes_word g s"
  shows "\<exists>more later. all_segments sc2 = sc_done sc @ (closed_words sc @ more) # later"
proof (cases s)
  case Nil
  with assms show ?thesis by (auto simp: all_segments_def dest!: endWord_Some)
next
  case (Cons c t)
  from assms(1) have "scan_from g amp (c # t) sc = Some sc1" unfolding Cons .
  then show ?thesis
  proof (cases rule: scan_from_cases)
    case (space sc')
    from scan_extends [OF space(3) assms(2)] show ?thesis unfolding endWord_Some [OF space(2)] by auto
  next
    case (both u sc')
    from scan_extends [OF both(5) assms(2)] show ?thesis unfolding newSegment_Some [OF both(4)] by (auto simp: fresh_scan_def)
  next
    case (semi sc')
    from scan_extends [OF semi(4) assms(2)] show ?thesis unfolding newSegment_Some [OF semi(3)] by (auto simp: fresh_scan_def)
  next
    case (quote inside rest)
    with assms(3) Cons show ?thesis by (auto simp: closes_word_def opens_quote_def starts_with_iff)
  next
    case plain
    with assms(3) Cons show ?thesis by (auto simp: closes_word_def starts_with_iff)
  qed
qed

text \<open>Plain text is read as its words.\<close>

definition plain_text :: "string \<Rightarrow> bool" where
  "plain_text s \<longleftrightarrow> list_all (\<lambda>c. c \<notin> set ''&;'' \<and> \<not> is_quote c \<and> (is_space c \<longrightarrow> c = CHR '' '' \<or> c = CHR 0x09)) s"

lemma scan_plain:
  "scan_from g amp (u @ rest) sc = Some sc1 \<Longrightarrow> plain_text u \<Longrightarrow>
     \<exists>sc'. scan_from g amp rest sc' = Some sc1 \<and> sc_done sc' = sc_done sc
       \<and> closed_words sc' = read_words (sc_current sc) (sc_word sc) (sc_inWord sc) u"
proof (induction u arbitrary: sc)
  case Nil
  then show ?case by (auto simp: closed_words_def)
next
  case (Cons c u)
  have u: "plain_text u" using Cons.prems(2) by (simp add: plain_text_def)
  from Cons.prems(1) have "scan_from g amp (c # u @ rest) sc = Some sc1" by simp
  then show ?case
  proof (cases rule: scan_from_cases)
    case (space sc')
    then have "is_space c" by (auto simp: is_space_def)
    with Cons.IH [OF space(3) u] show ?thesis
      unfolding endWord_Some [OF space(2)] by (simp add: closed_words_def finish_word_def)
  next
    case plain
    then have "\<not> is_space c" using Cons.prems(2) by (auto simp: plain_text_def)
    with Cons.IH [OF plain(5) u] show ?thesis by simp
  next
    case (quote inside rest)
    with Cons.prems(2) show ?thesis by (auto simp: plain_text_def opens_quote_def is_quote_def)
  qed (use Cons.prems(2) in \<open>simp_all add: plain_text_def\<close>)
qed


section \<open>Segments and pieces\<close>

text \<open>The separators the scanner admits; they are the ones of the silent match.\<close>

definition scan_seps :: "shell_grammar \<Rightarrow> bool \<Rightarrow> string list" where
  "scan_seps g amp = (if amp then [''&&''] else []) @ (if g \<noteq> CmdGrammar then ['';''] else [])"

lemma admitted_scan_seps:
  "g \<noteq> NeutralGrammar \<Longrightarrow> admittedSeparators kind g = scan_seps g (g \<noteq> PowerShellGrammar \<or> kind = KPwsh)"
  by (cases g) (auto simp: admittedSeparators_def scan_seps_def)

lemma seps_other: "c \<notin> set ''&;'' \<Longrightarrow> find (starts_with (c # s)) (scan_seps g amp) = None"
  by (auto simp: scan_seps_def find_None_iff starts_with_def)

lemma seps_free: "c \<notin> set ''&;'' \<Longrightarrow> \<forall>sep \<in> set (scan_seps g amp). c \<notin> set sep \<and> sep \<noteq> []"
  by (auto simp: scan_seps_def)

text \<open>Every later segment is read from the text after a separator, where a piece begins too.\<close>

definition read_from :: "shell_grammar \<Rightarrow> bool \<Rightarrow> scan \<Rightarrow> scan \<Rightarrow> string list \<Rightarrow> string list \<Rightarrow> bool" where
  "read_from g amp sc1 sc2 pieces ws \<longleftrightarrow>
     (\<exists>b d. hd (split_seps (scan_seps g amp) b) \<in> set pieces \<and> scan_from g amp b (fresh_scan d) = Some sc1
        \<and> all_segments sc2 ! length d = ws)"

lemma read_from_mono: "read_from g amp sc1 sc2 ps ws \<Longrightarrow> set ps \<subseteq> set qs \<Longrightarrow> read_from g amp sc1 sc2 qs ws"
  unfolding read_from_def by blast

lemma set_tl_subset: "set (tl xs) \<subseteq> set xs"
  by (cases xs) auto

lemma drop_nth_set: "ws \<in> set (drop n xs) \<Longrightarrow> n < length xs \<Longrightarrow> ws = xs ! n \<or> ws \<in> set (drop (Suc n) xs)"
  by (metis Cons_nth_drop_Suc set_ConsD)

lemma later_segments:
  assumes "endWord sc1 = Some sc2"
  shows "scan_from g amp s sc = Some sc1 \<Longrightarrow> ws \<in> set (drop (Suc (length (sc_done sc))) (all_segments sc2)) \<Longrightarrow>
     read_from g amp sc1 sc2 (tl (split_seps (scan_seps g amp) s)) ws"
proof (induction s arbitrary: sc rule: length_induct)
  case (1 s)
  let ?seps = "scan_seps g amp"
  have next_segment: "read_from g amp sc1 sc2 (split_seps ?seps t) ws"
    if t: "length t < length s" and new: "newSegment sc = Some sc'" and rest: "scan_from g amp t sc' = Some sc1" for t sc'
  proof -
    note sc' = newSegment_Some [OF new]
    obtain more later where all: "all_segments sc2 = sc_done sc' @ (sc_current sc' @ more) # later"
      using scan_extends [OF rest assms] by blast
    then have len: "Suc (length (sc_done sc)) < length (all_segments sc2)" unfolding sc' by (simp add: fresh_scan_def)
    from drop_nth_set [OF 1(3) len] show ?thesis
    proof
      assume "ws = all_segments sc2 ! Suc (length (sc_done sc))"
      then show ?thesis unfolding read_from_def
        using rest unfolding sc' by (intro exI [of _ t] exI [of _ "sc_done sc @ [closed_words sc]"]) simp
    next
      assume "ws \<in> set (drop (Suc (Suc (length (sc_done sc)))) (all_segments sc2))"
      then have "read_from g amp sc1 sc2 (tl (split_seps ?seps t)) ws"
        using 1(1) [rule_format, OF t rest] unfolding sc' by (simp add: fresh_scan_def)
      then show ?thesis by (rule read_from_mono [OF _ set_tl_subset])
    qed
  qed
  have same_segment: "read_from g amp sc1 sc2 (tl (split_seps ?seps t)) ws"
    if "length t < length s" "scan_from g amp t sc' = Some sc1" "sc_done sc' = sc_done sc" for t sc'
    using 1(1) [rule_format, OF that(1,2)] 1(3) that(3) by simp
  show ?case
  proof (cases s)
    case Nil
    with 1(2) have "sc1 = sc" by simp
    with endWord_Some [OF assms] have "length (all_segments sc2) = Suc (length (sc_done sc))" by (simp add: all_segments_def)
    with 1(3) show ?thesis by simp
  next
    case (Cons c t)
    from 1(2) have "scan_from g amp (c # t) sc = Some sc1" unfolding Cons .
    then show ?thesis
    proof (cases rule: scan_from_cases)
      case (space sc')
      then have "c \<notin> set ''&;''" by auto
      with same_segment [OF _ space(3)] endWord_Some [OF space(2)] Cons show ?thesis
        using split_seps_other [OF seps_other] by simp
    next
      case (both u sc')
      then have "find (starts_with s) ?seps = Some ''&&''" using Cons by (simp add: scan_seps_def starts_with_def)
      then have "split_seps ?seps s = [] # split_seps ?seps u" using Cons both(1,2) split_seps_sep [of c t ?seps "''&&''"] by simp
      with next_segment [OF _ both(4,5)] Cons both(2) show ?thesis by simp
    next
      case (semi sc')
      then have "find (starts_with s) ?seps = Some '';''" using Cons by (simp add: scan_seps_def starts_with_def)
      then have "split_seps ?seps s = [] # split_seps ?seps t" using Cons split_seps_sep [of c t ?seps "'';''"] by simp
      with next_segment [OF _ semi(3,4)] Cons show ?thesis by simp
    next
      case (quote inside rest)
      then have c: "c \<notin> set ''&;''" by (auto simp: opens_quote_def)
      have text_eq: "s = (c # inside) @ c # rest" using Cons quoted_span_text [OF quote(3)] by simp
      obtain ps p where "split_seps ?seps s = ps @ (p @ c # hd (split_seps ?seps rest)) # tl (split_seps ?seps rest)"
        using split_seps_over [OF seps_free [OF c], of g amp "c # inside" rest] text_eq by metis
      then have sub: "set (tl (split_seps ?seps rest)) \<subseteq> set (tl (split_seps ?seps s))" by (cases ps) auto
      have "read_from g amp sc1 sc2 (tl (split_seps ?seps rest)) ws"
        by (rule same_segment [OF _ quote(5)]) (simp_all add: text_eq)
      then show ?thesis by (rule read_from_mono [OF _ sub])
    next
      case plain
      then have "c \<notin> set ''&;''" by auto
      with same_segment [OF _ plain(5)] Cons show ?thesis using split_seps_other [OF seps_other] by simp
    qed
  qed
qed

lemma every_segment:
  assumes scan: "scan_from g amp s start_scan = Some sc1" and fin: "endWord sc1 = Some sc2"
    and ws: "ws \<in> set (all_segments sc2)"
  shows "read_from g amp sc1 sc2 (split_seps (scan_seps g amp) s) ws"
proof -
  have start: "start_scan = fresh_scan []" by (simp add: start_scan_def fresh_scan_def)
  have "0 < length (all_segments sc2)" by (simp add: all_segments_def)
  with ws have "ws = all_segments sc2 ! 0 \<or> ws \<in> set (drop (Suc 0) (all_segments sc2))" by (intro drop_nth_set) simp_all
  then show ?thesis
  proof (elim disjE, goal_cases)
    case 1
    then show ?thesis unfolding read_from_def using scan start by (intro exI [of _ s] exI [of _ "[]"]) simp
  next
    case 2
    have "read_from g amp sc1 sc2 (tl (split_seps (scan_seps g amp) s)) ws"
      by (rule later_segments [OF fin scan]) (use 2 in \<open>simp add: start_scan_def\<close>)
    then show ?thesis by (rule read_from_mono [OF _ set_tl_subset])
  qed
qed

section \<open>What the scanner reads is what was written\<close>

definition plain_char :: "shell_grammar \<Rightarrow> char \<Rightarrow> bool" where
  "plain_char g c \<longleftrightarrow> c \<notin> set '' &|;'' \<and> c \<noteq> CHR 0x09 \<and> \<not> is_newline c \<and> \<not> opens_quote g c \<and> c \<notin> set (REJECT_OUTSIDE_QUOTE g)"

definition plain_word :: "shell_grammar \<Rightarrow> string \<Rightarrow> bool" where
  "plain_word g w \<longleftrightarrow> w \<noteq> [] \<and> list_all (plain_char g) w"

definition quotable_word :: "shell_grammar \<Rightarrow> string \<Rightarrow> bool" where
  "quotable_word g w \<longleftrightarrow> list_all (\<lambda>c. c \<noteq> CHR 0x22 \<and> \<not> forbidden_in_quote g CHR 0x22 c) w"

definition write_word :: "shell_grammar \<Rightarrow> string \<Rightarrow> string" where
  "write_word g w = (if plain_word g w then w else quoted w)"

definition write_segment :: "shell_grammar \<Rightarrow> string list \<Rightarrow> string" where
  "write_segment g ws = join_with '' '' (map (write_word g) ws)"

definition write_command :: "shell_grammar \<Rightarrow> string \<Rightarrow> string list list \<Rightarrow> string" where
  "write_command g sep segs = join_with ('' '' @ sep @ '' '') (map (write_segment g) segs)"

abbreviation reading :: "string list list \<Rightarrow> string list \<Rightarrow> string \<Rightarrow> bool \<Rightarrow> scan" where
  "reading d cur w inw \<equiv> \<lparr>sc_done = d, sc_current = cur, sc_word = w, sc_inWord = inw\<rparr>"

lemma scan_plain_word:
  "list_all (plain_char g) w \<Longrightarrow>
     scan_from g amp (w @ rest) (reading d cur v inw) = scan_from g amp rest (reading d cur (v @ w) (inw \<or> w \<noteq> []))"
proof (induction w arbitrary: v inw)
  case (Cons c w)
  then have "c \<notin> set '' &|;''" "c \<noteq> CHR 0x09" "\<not> is_newline c" "\<not> opens_quote g c" "c \<notin> set (REJECT_OUTSIDE_QUOTE g)"
    by (simp_all add: plain_char_def)
  then have "scan_from g amp (c # w @ rest) (reading d cur v inw) = scan_from g amp (w @ rest) (reading d cur (v @ [c]) True)"
    by (simp add: starts_with_def)
  with Cons show ?case by simp
qed simp

lemma quoted_span_quotable: "quotable_word g w \<Longrightarrow> quoted_span g CHR 0x22 (w @ CHR 0x22 # rest) = Some (w, rest)"
  by (induction w) (simp_all add: quotable_word_def)

lemma scan_word:
  assumes "plain_word g w \<or> quotable_word g w" and "ends_quoted_word rest"
  shows "scan_from g amp (write_word g w @ rest) (reading d cur [] False) = scan_from g amp rest (reading d cur w True)"
proof (cases "plain_word g w")
  case True
  then show ?thesis using scan_plain_word [of g w amp rest d cur "[]" False] by (simp add: write_word_def plain_word_def)
next
  case False
  have "opens_quote g CHR 0x22" by (simp add: opens_quote_def)
  then show ?thesis using False assms quoted_span_quotable [of g w rest]
    by (simp add: write_word_def quoted_def starts_with_def is_newline_def)
qed

lemma endWord_reading: "length cur < MAX_WORDS \<Longrightarrow> endWord (reading d cur w True) = Some (reading d (cur @ [w]) [] False)"
  by (simp add: endWord_def)

lemma scan_space: "scan_from g amp (CHR '' '' # s) sc = Option.bind (endWord sc) (scan_from g amp s)"
  by (cases "endWord sc") simp_all

lemma scan_segment:
  assumes "\<forall>w \<in> set (w0 # ws). plain_word g w \<or> quotable_word g w" and "length cur + length ws < MAX_WORDS" and "ends_quoted_word rest"
  shows "scan_from g amp (write_segment g (w0 # ws) @ rest) (reading d cur [] False)
    = scan_from g amp rest (reading d (cur @ butlast (w0 # ws)) (last (w0 # ws)) True)"
  using assms
proof (induction ws arbitrary: w0 cur)
  case Nil
  then show ?case using scan_word [of g w0 rest] by (simp add: write_segment_def)
next
  case (Cons w ws)
  let ?rest = "write_segment g (w # ws) @ rest"
  have "write_segment g (w0 # w # ws) @ rest = write_word g w0 @ CHR '' '' # ?rest" by (simp add: write_segment_def)
  moreover have "ends_quoted_word (CHR '' '' # ?rest)" by (simp add: ends_quoted_word_def is_space_def)
  ultimately have "scan_from g amp (write_segment g (w0 # w # ws) @ rest) (reading d cur [] False)
      = scan_from g amp (CHR '' '' # ?rest) (reading d cur w0 True)"
    using scan_word [of g w0 "CHR '' '' # ?rest"] Cons.prems(1) by simp
  also have "\<dots> = scan_from g amp ?rest (reading d (cur @ [w0]) [] False)"
    using Cons.prems(2) by (simp add: scan_space endWord_reading)
  also have "\<dots> = scan_from g amp rest (reading d ((cur @ [w0]) @ butlast (w # ws)) (last (w # ws)) True)"
    using Cons.prems by (intro Cons.IH) simp_all
  finally show ?case by simp
qed

lemma scan_separator:
  assumes "sep \<in> set (scan_seps g amp)" and "length cur < MAX_WORDS" and "Suc (length d) < MAX_SEGMENTS"
  shows "scan_from g amp (('' '' @ sep @ '' '') @ s) (reading d cur w True) = scan_from g amp s (reading (d @ [cur @ [w]]) [] [] False)"
proof -
  have new: "newSegment (reading d (cur @ [w]) [] False) = Some (reading (d @ [cur @ [w]]) [] [] False)"
    using assms(3) by (simp add: newSegment_def endWord_def)
  have "scan_from g amp (sep @ '' '' @ s) (reading d (cur @ [w]) [] False)
      = scan_from g amp ('' '' @ s) (reading (d @ [cur @ [w]]) [] [] False)"
  proof (cases "sep = ''&&''")
    case True
    with assms(1) have amp by (auto simp: scan_seps_def split: if_splits)
    with True new show ?thesis by (simp add: starts_with_def is_newline_def)
  next
    case False
    with assms(1) have "sep = '';''" "g \<noteq> CmdGrammar" by (auto simp: scan_seps_def split: if_splits)
    with new show ?thesis by (simp add: starts_with_def is_newline_def)
  qed
  then show ?thesis using assms(2) by (simp add: scan_space endWord_reading endWord_def)
qed

text \<open>
  C36: Segments of words, each word one that can be written plain, or one that can stand between double quotes and
  is written so, joined by one admitted separator, the same throughout the command, between spaces, are read back as
  exactly those segments and words, within the limits of length, segments and words.
\<close>

theorem scanner_reads_what_was_written:
  assumes "\<forall>ws \<in> set segs. ws \<noteq> [] \<and> length ws \<le> MAX_WORDS \<and> (\<forall>w \<in> set ws. plain_word g w \<or> quotable_word g w)"
    and "segs \<noteq> []" and "length segs \<le> MAX_SEGMENTS" and "sep \<in> set (scan_seps g amp)"
    and "length (write_command g sep segs) \<le> MAX_LENGTH"
  shows "boundedScan (write_command g sep segs) g amp = Some segs"
proof -
  have scan: "\<exists>cur w. scan_from g amp (write_command g sep segs) (reading d [] [] False) = Some (reading (d @ butlast segs) cur w True)
      \<and> cur @ [w] = last segs"
    if "\<forall>ws \<in> set segs. ws \<noteq> [] \<and> length ws \<le> MAX_WORDS \<and> (\<forall>w \<in> set ws. plain_word g w \<or> quotable_word g w)"
      "segs \<noteq> []" "length d + length segs \<le> MAX_SEGMENTS" for segs d
    using that
  proof (induction segs arbitrary: d)
    case (Cons ws segs)
    then obtain w0 vs where ws: "ws = w0 # vs" by (cases ws) auto
    have words: "\<forall>w \<in> set (w0 # vs). plain_word g w \<or> quotable_word g w" "length ([] :: string list) + length vs < MAX_WORDS"
      using Cons.prems(1) ws by auto
    show ?case
    proof (cases "segs = []")
      case True
      have "scan_from g amp (write_segment g ws @ []) (reading d [] [] False) = Some (reading d (butlast ws) (last ws) True)"
        using scan_segment [OF words, of "[]" amp d] ws by (simp add: ends_quoted_word_def)
      with True ws show ?thesis by (simp add: write_command_def)
    next
      case False
      let ?rest = "('' '' @ sep @ '' '') @ write_command g sep segs"
      have "write_command g sep (ws # segs) = write_segment g ws @ ?rest"
        using False by (cases segs) (simp_all add: write_command_def)
      moreover have "ends_quoted_word ?rest" by (simp add: ends_quoted_word_def is_space_def)
      ultimately have "scan_from g amp (write_command g sep (ws # segs)) (reading d [] [] False)
          = scan_from g amp ?rest (reading d (butlast ws) (last ws) True)"
        using scan_segment [OF words, of ?rest amp d] ws by simp
      also have "\<dots> = scan_from g amp (write_command g sep segs) (reading (d @ [butlast ws @ [last ws]]) [] [] False)"
        using assms(4) words(2) ws False Cons.prems(3) by (intro scan_separator) (cases segs; simp)+
      also have "butlast ws @ [last ws] = ws" using ws by simp
      finally have step: "scan_from g amp (write_command g sep (ws # segs)) (reading d [] [] False)
          = scan_from g amp (write_command g sep segs) (reading (d @ [ws]) [] [] False)" .
      have "\<exists>cur w. scan_from g amp (write_command g sep segs) (reading (d @ [ws]) [] [] False)
          = Some (reading ((d @ [ws]) @ butlast segs) cur w True) \<and> cur @ [w] = last segs"
        using Cons.prems False by (intro Cons.IH) simp_all
      then show ?thesis unfolding step using False by simp
    qed
  qed simp
  obtain cur w where result: "scan_from g amp (write_command g sep segs) start_scan = Some (reading (butlast segs) cur w True)"
      and cur: "cur @ [w] = last segs"
    using scan [OF assms(1,2), of "[]"] assms(3) by (auto simp: start_scan_def)
  have "last segs \<in> set segs" using assms(2) by simp
  then have "length (cur @ [w]) \<le> MAX_WORDS" using assms(1) cur by metis
  then have "length cur < MAX_WORDS" by simp
  from endWord_reading [OF this, of "butlast segs" w]
  have "endWord (reading (butlast segs) cur w True) = Some (reading (butlast segs) (last segs) [] False)" unfolding cur .
  moreover have "last segs \<noteq> []" using cur by auto
  ultimately show ?thesis using assms(2,5) result by (simp add: boundedScan_def append_butlast_last_id)
qed

lemma scanner_reads_what_was_written_witness:
  "boundedScan (write_command PosixGrammar ''&&'' [[''git'', ''commit'', ''-m'', ''a; b''], [''ls'']]) PosixGrammar True
     = Some [[''git'', ''commit'', ''-m'', ''a; b''], [''ls'']]"
proof (rule scanner_reads_what_was_written)
  show "\<forall>ws \<in> set [[''git'', ''commit'', ''-m'', ''a; b''], [''ls'']]. ws \<noteq> [] \<and> length ws \<le> MAX_WORDS
      \<and> (\<forall>w \<in> set ws. plain_word PosixGrammar w \<or> quotable_word PosixGrammar w)" by code_simp
  show "length (write_command PosixGrammar ''&&'' [[''git'', ''commit'', ''-m'', ''a; b''], [''ls'']]) \<le> MAX_LENGTH" by code_simp
qed (simp_all add: MAX_SEGMENTS_def scan_seps_def)

end
