(* ===== verification/CommandPolicyLaws.thy ===== *)
theory CommandPolicyLaws
  imports CommandScanLaws
begin

text \<open>
  What the policy for commands guarantees: nothing runs silently unless each of its segments, as the scanner reads
  them, starts with the words of an allowed template; no delete it lets pass names a folder it should not; a forced
  recursive \<open>rm\<close> is caught wherever it stands; and a granted template allows just what it was granted for.
\<close>

section \<open>A silent command starts with allowed templates\<close>

lemma split_seps_set: "p \<in> set (split_seps seps s) \<Longrightarrow> set p \<subseteq> set s"
proof (induction seps s arbitrary: p rule: split_seps.induct)
  case (2 seps c s)
  show ?case
  proof (cases "find (starts_with (c # s)) seps")
    case None
    then have "p = c # hd (split_seps seps s) \<or> p \<in> set (split_seps seps s)"
      using 2(3) split_seps_other [OF None] by (cases "split_seps seps s") auto
    moreover have "set q \<subseteq> set s" if "q \<in> set (split_seps seps s)" for q by (rule 2(1) [OF None that])
    moreover have "hd (split_seps seps s) \<in> set (split_seps seps s)" by simp
    ultimately show ?thesis by (metis insert_mono list.simps(15) subset_insertI2)
  next
    case (Some sep)
    with 2 show ?thesis by (auto dest: in_set_dropD)
  qed
qed simp

lemma join_with_set: "p \<in> set ps \<Longrightarrow> set p \<subseteq> set (join_with sep ps)"
  by (induction sep ps rule: join_with.induct) auto

lemma js_words_skip: "list_all is_space a \<Longrightarrow> js_words (a @ s) = js_words s"
  by (induction a) simp_all

definition usual_space :: "string \<Rightarrow> bool" where
  "usual_space s \<longleftrightarrow> list_all (\<lambda>c. is_space c \<longrightarrow> c = CHR '' '' \<or> c = CHR 0x09) s"

definition quote_free :: "string \<Rightarrow> bool" where
  "quote_free s \<longleftrightarrow> list_all (\<lambda>c. \<not> is_quote c) s"

lemma quote_free_lower: "quote_free (js_lower s) = quote_free s"
proof -
  have "is_quote (lower_char c) = is_quote c" for c
    using lower_code_small [of "CHR 0x22" c] lower_code_small [of "CHR 0x27" c] by (simp add: is_quote_def)
  then show ?thesis by (simp add: quote_free_def js_lower_def list_all_iff)
qed

lemma is_space_no_quote: "is_space c \<Longrightarrow> \<not> is_quote c"
  by (auto simp: is_space_def is_quote_def Let_def)

lemma template_read:
  assumes scan: "scan_from g amp s start_scan = Some sc1" and fin: "endWord sc1 = Some sc2"
    and ws: "ws \<in> set (all_segments sc2)" and space: "usual_space s"
    and plain: "\<forall>p \<in> set (split_seps (scan_seps g amp) s). CHR ''&'' \<notin> set p \<and> CHR '';'' \<notin> set p"
    and matches: "\<forall>p \<in> set (split_seps (scan_seps g amp) s). segment_matches allowed (js_trim p)"
    and free: "\<forall>t \<in> set allowed. quote_free t"
  shows "\<exists>t \<in> set allowed. take (length (js_words t)) (map js_lower ws) = js_words t"
proof -
  obtain b d where p: "hd (split_seps (scan_seps g amp) b) \<in> set (split_seps (scan_seps g amp) s)" (is "?p \<in> _")
      and b: "scan_from g amp b (fresh_scan d) = Some sc1" and nth: "all_segments sc2 ! length d = ws"
    using every_segment [OF scan fin ws] unfolding read_from_def by blast
  have seps: "\<forall>sep \<in> set (scan_seps g amp). sep \<noteq> []" by (auto simp: scan_seps_def)
  obtain r where r: "b = ?p @ r" "r = [] \<or> (\<exists>sep \<in> set (scan_seps g amp). starts_with r sep)"
    using split_seps_hd [OF seps] by blast
  obtain a z where az: "?p = a @ js_trim ?p @ z" "list_all is_space a" "list_all is_space z"
    using js_trim_parts by blast
  from matches p obtain t where t: "t \<in> set allowed" "js_lower (js_trim ?p) = t \<or> starts_with (js_lower (js_trim ?p)) (t @ '' '')"
    unfolding segment_matches_def list_ex_iff by blast
  obtain u v where uv: "js_trim ?p = u @ v" "js_lower u = t" "v = [] \<or> hd v = CHR '' ''"
  proof (cases "js_lower (js_trim ?p) = t")
    case True
    with that [of "js_trim ?p" "[]"] show ?thesis by simp
  next
    case False
    with t(2) obtain x where "map lower_char (js_trim ?p) = t @ CHR '' '' # x"
      by (auto simp: starts_with_iff js_lower_def)
    then obtain u c v' where "js_trim ?p = u @ c # v'" "map lower_char u = t" "lower_char c = CHR '' ''"
      by (auto simp: map_eq_append_conv)
    moreover from this(3) have "c = CHR '' ''" using lower_code_small [of "CHR '' ''" c] by simp
    ultimately show ?thesis using that [of u "c # v'"] by (simp add: js_lower_def)
  qed
  have sub: "set ?p \<subseteq> set s" by (rule split_seps_set [OF p])
  have "usual_space ?p" using space sub by (auto simp: usual_space_def list_all_iff)
  moreover have whole: "?p = (a @ u) @ v @ z" using az(1) uv(1) by simp
  ultimately have usual: "usual_space (a @ u)" "usual_space z" unfolding usual_space_def by simp_all
  have no_sep: "CHR ''&'' \<notin> set (a @ u)" "CHR '';'' \<notin> set (a @ u)"
    using plain [rule_format, OF p] unfolding whole by simp_all
  have "quote_free u" using free t(1) uv(2) quote_free_lower by metis
  then have "plain_text (a @ u)"
    using usual(1) no_sep az(2) by (auto simp: plain_text_def usual_space_def quote_free_def list_all_iff dest: is_space_no_quote)
  moreover have text_b: "b = (a @ u) @ v @ z @ r" using r(1) az(1) uv(1) by simp
  ultimately obtain sc' where sc': "scan_from g amp (v @ z @ r) sc' = Some sc1" "sc_done sc' = d"
      "closed_words sc' = read_words [] [] False (a @ u)"
    using scan_plain [of g amp "a @ u" "v @ z @ r" "fresh_scan d" sc1] b by (auto simp: fresh_scan_def)
  have "closes_word g (v @ z @ r)"
  proof (cases "v = []")
    case True
    show ?thesis
    proof (cases z)
      case Nil
      with True r(2) show ?thesis by (auto simp: closes_word_def scan_seps_def starts_with_iff split: if_splits)
    next
      case (Cons c z')
      with True az(3) usual(2) show ?thesis by (auto simp: closes_word_def usual_space_def)
    qed
  next
    case False
    with uv(3) show ?thesis by (auto simp: closes_word_def)
  qed
  from scan_closes [OF sc'(1) fin this] obtain more later
    where "all_segments sc2 = d @ (closed_words sc' @ more) # later" unfolding sc'(2) by blast
  then have "ws = closed_words sc' @ more" using nth by simp
  also have "closed_words sc' = js_words u" unfolding sc'(3) read_words using js_words_skip [OF az(2)] by simp
  finally have "map js_lower ws = js_words t @ map js_lower more" using js_words_lower [of u] uv(2) by simp
  then show ?thesis using t(1) by (intro bexI [of _ t]) simp_all
qed

lemma inspect_supported:
  assumes "inspectCommand command (Some (kind, g)) = Supported segs"
  shows "g \<noteq> NeutralGrammar" and "js_trim command \<noteq> []"
    and "boundedScan (js_trim command) g (g \<noteq> PowerShellGrammar \<or> kind = KPwsh) = Some segs"
    and "\<not> list_ex (\<lambda>p. rx_test p (js_trim command)) CATASTROPHIC"
    and "\<not> list_ex isCatastrophicDeleteTarget (concat (map deleteTargetsOfSegment segs))"
    and "\<not> list_ex isExpandableDeleteTarget (concat (map deleteTargetsOfSegment segs))"
    and "find (\<lambda>s. s = [] \<or> isWrapperSegment s) segs = None"
  using assms unfolding inspectCommand_def Let_def lexGrammarOf_def
  by (auto split: if_splits option.splits)

lemma boundedScan_Some:
  assumes "boundedScan command g amp = Some segs"
  obtains sc1 sc2 where "scan_from g amp command start_scan = Some sc1" "endWord sc1 = Some sc2" "segs = all_segments sc2"
  using assms unfolding boundedScan_def all_segments_def by (auto simp: bind_eq_Some_conv split: if_splits option.splits)

lemma allowed_silently:
  assumes "vd_allowed (fst (check_command p raw shell))" and "cp_mode p \<noteq> ModeAll"
  obtains segs pieces where "inspectCommand (js_trim raw) (Some (si_kind shell, si_grammar shell)) = Supported segs"
    "autoAllowSegments (js_trim raw) (si_kind shell) (si_grammar shell) = Some pieces"
    "everySegmentIsAllowlisted pieces (allowlistFor p (si_grammar shell))"
  using assms unfolding check_command_def Let_def
  by (auto simp: refuse_with_def allow_def dangerous_verdict_def opaqueVerdict_def
      split: if_splits inspection.splits option.splits approval_mode.splits)

lemma autoAllow_pieces:
  assumes "autoAllowSegments text' kind g = Some pieces" and "g \<noteq> NeutralGrammar"
  shows "pieces = map js_trim (split_seps (admittedSeparators kind g) (js_trim text'))"
    and "q \<in> set (split_seps (admittedSeparators kind g) (js_trim text')) \<Longrightarrow> CHR ''&'' \<notin> set q \<and> CHR '';'' \<notin> set q"
proof -
  let ?ps = "split_seps (admittedSeparators kind g) (js_trim text')"
  show "pieces = map js_trim ?ps" using assms by (auto simp: autoAllowSegments_def Let_def split: if_splits)
  assume q: "q \<in> set ?ps"
  have "\<not> unsupported_for_auto_allow g (join_with '' '' ?ps)"
    using assms by (auto simp: autoAllowSegments_def Let_def split: if_splits)
  with join_with_set [OF q, of "'' ''"] have ok: "\<forall>c \<in> set q. c \<notin> set (unsupported_chars g)"
    unfolding unsupported_for_auto_allow_def list_ex_iff by blast
  have "CHR ''&'' \<in> set (unsupported_chars g)" by (cases g) simp_all
  moreover have "CHR '';'' \<in> set (unsupported_chars g) \<or> [CHR '';''] \<in> set (admittedSeparators kind g)"
    using assms(2) by (cases g) (simp_all add: admittedSeparators_def)
  ultimately show "CHR ''&'' \<notin> set q \<and> CHR '';'' \<notin> set q"
    using ok split_seps_single [OF _ q] by blast
qed

text \<open>
  C7: A silent command is made of allowed ones. Take a command whose only white space, once trimmed, is spaces and
  tabs, and a policy none of whose templates for the command's shell has a quote. If the policy lets
  it run without asking, in any mode but the one that allows all, then the scanner reads it under its own
  shell, and each segment of it, as the scanner reads its words (quotes resolved), starts with the words of a
  template allowed for that shell, whatever the case. The first condition is needed: the next lemma shows a
  vertical tab that breaks the conclusion.
\<close>

theorem silent_commands_start_with_templates:
  assumes "vd_allowed (fst (check_command p raw shell))" and "cp_mode p \<noteq> ModeAll"
    and "usual_space (js_trim raw)" and "\<forall>t \<in> set (allowlistFor p (si_grammar shell)). quote_free t"
  shows "\<exists>segs. inspectCommand raw (Some (si_kind shell, si_grammar shell)) = Supported segs
    \<and> (\<forall>ws \<in> set segs. \<exists>t \<in> set (allowlistFor p (si_grammar shell)).
          take (length (js_words t)) (map js_lower ws) = js_words t)"
proof -
  let ?g = "si_grammar shell" and ?k = "si_kind shell"
  let ?amp = "?g \<noteq> PowerShellGrammar \<or> ?k = KPwsh"
  obtain segs pieces where ins: "inspectCommand (js_trim raw) (Some (?k, ?g)) = Supported segs"
      and auto_: "autoAllowSegments (js_trim raw) ?k ?g = Some pieces"
      and every: "everySegmentIsAllowlisted pieces (allowlistFor p ?g)"
    using allowed_silently [OF assms(1,2)] .
  note sup = inspect_supported [OF ins]
  note pieces = autoAllow_pieces [OF auto_ sup(1), unfolded js_trim_idem admitted_scan_seps [OF sup(1)]]
  obtain sc1 sc2 where scan: "scan_from ?g ?amp (js_trim raw) start_scan = Some sc1" "endWord sc1 = Some sc2"
      "segs = all_segments sc2"
    using boundedScan_Some [OF sup(3) [unfolded js_trim_idem]] .
  have "\<exists>t \<in> set (allowlistFor p ?g). take (length (js_words t)) (map js_lower ws) = js_words t" if "ws \<in> set segs" for ws
    by (rule template_read [OF scan(1,2) that [unfolded scan(3)] assms(3) _ _ assms(4)])
      (use pieces every in \<open>auto simp: everySegmentIsAllowlisted_def list_all_iff\<close>)
  moreover have "inspectCommand raw (Some (?k, ?g)) = Supported segs" using ins by (simp add: inspectCommand_def)
  ultimately show ?thesis by blast
qed

text \<open>
  Other white space is trimmed by the silent match and is an ordinary character for the scanner: the second segment
  here names a program whose name starts with a vertical tab, and the template of another program lets it pass.
\<close>

lemma vertical_tab_is_trimmed:
  "vd_allowed (fst (check_command (new_policy ModeAllowlist (BareTemplates [''echo'', ''git status''])) (''echo a;'' @ CHR 0x0B # ''git status'')
     (commandShellIdentity concat KBash TerminalProbe None None)))
   \<and> inspectCommand (''echo a;'' @ CHR 0x0B # ''git status'') (Some (KBash, PosixGrammar))
      = Supported [[''echo'', ''a''], [CHR 0x0B # ''git'', ''status'']]"
  by code_simp

section \<open>Where the targets of a delete lie\<close>

text \<open>Where a written path leads from a folder, name by name.\<close>

definition walk_step :: "string list \<Rightarrow> string \<Rightarrow> string list" where
  "walk_step here seg = (if seg = [] \<or> seg = ''.'' then here else if seg = ''..'' then butlast here else here @ [seg])"

definition walk :: "string list \<Rightarrow> string list \<Rightarrow> string list" where
  "walk = foldl walk_step"

lemma walk_simps [simp]: "walk here [] = here" "walk here (s # ss) = walk (walk_step here s) ss"
  "walk here (ss @ ts) = walk (walk here ss) ts"
  by (simp_all add: walk_def)

text \<open>Normalised segments: first the ones that climb, then names.\<close>

definition normal_form :: "string list \<Rightarrow> bool" where
  "normal_form ss \<longleftrightarrow> (\<exists>n ns. ss = replicate n ''..'' @ ns \<and> list_all (\<lambda>s. s \<noteq> [] \<and> s \<noteq> ''.'' \<and> s \<noteq> ''..'') ns)"

lemma norm_step_normal: "normal_form acc \<Longrightarrow> normal_form (norm_step True acc seg)"
proof -
  assume "normal_form acc"
  then obtain n ns where acc: "acc = replicate n ''..'' @ ns" and ns: "list_all (\<lambda>s. s \<noteq> [] \<and> s \<noteq> ''.'' \<and> s \<noteq> ''..'') ns"
    unfolding normal_form_def by blast
  consider "seg = [] \<or> seg = ''.''" | "seg = ''..''" | "seg \<noteq> []" "seg \<noteq> ''.''" "seg \<noteq> ''..''" by blast
  then show ?thesis
  proof cases
    case 1
    then show ?thesis using \<open>normal_form acc\<close> by (simp add: norm_step_def)
  next
    case 2
    show ?thesis
    proof (cases ns rule: rev_cases)
      case Nil
      with acc 2 have "norm_step True acc seg = replicate (Suc n) ''..'' @ []"
        by (cases n) (simp_all add: norm_step_def replicate_append_same)
      then show ?thesis unfolding normal_form_def by (intro exI [of _ "Suc n"] exI [of _ "[]"]) simp
    next
      case (snoc ms m)
      with acc 2 ns have "norm_step True acc seg = replicate n ''..'' @ ms" "list_all (\<lambda>s. s \<noteq> [] \<and> s \<noteq> ''.'' \<and> s \<noteq> ''..'') ms"
        by (simp_all add: norm_step_def butlast_append)
      then show ?thesis unfolding normal_form_def by blast
    qed
  next
    case 3
    with acc ns have "norm_step True acc seg = replicate n ''..'' @ (ns @ [seg])" by (simp add: norm_step_def)
    with ns 3 show ?thesis unfolding normal_form_def by (intro exI [of _ n] exI [of _ "ns @ [seg]"]) simp
  qed
qed

lemma walk_names: "list_all (\<lambda>s. s \<noteq> [] \<and> s \<noteq> ''.'' \<and> s \<noteq> ''..'') ns \<Longrightarrow> walk here ns = here @ ns"
  by (induction ns arbitrary: here) (simp_all add: walk_step_def)

text \<open>Normalising does not change where a path leads.\<close>

lemma walk_norm_step: "normal_form acc \<Longrightarrow> walk here (norm_step True acc seg) = walk_step (walk here acc) seg"
proof -
  assume "normal_form acc"
  then obtain n ns where acc: "acc = replicate n ''..'' @ ns" and ns: "list_all (\<lambda>s. s \<noteq> [] \<and> s \<noteq> ''.'' \<and> s \<noteq> ''..'') ns"
    unfolding normal_form_def by blast
  show ?thesis
  proof (cases "acc \<noteq> [] \<and> last acc \<noteq> ''..'' \<and> seg = ''..''")
    case True
    then obtain ms m where m: "ns = ms @ [m]" using acc by (cases ns rule: rev_cases; cases n) (auto simp: last_replicate split: if_splits)
    have "norm_step True acc seg = replicate n ''..'' @ ms" using True acc m by (simp add: norm_step_def butlast_append)
    moreover have "walk here acc = walk (walk here (replicate n ''..'')) ms @ [m]"
      using acc m ns by (simp add: walk_step_def)
    ultimately show ?thesis using True by (simp add: walk_step_def)
  next
    case False
    then show ?thesis by (auto simp: norm_step_def walk_step_def)
  qed
qed

lemma walk_normalized:
  "normal_form (foldl (norm_step True) [] ss) \<and> walk here (foldl (norm_step True) [] ss) = walk here ss"
proof (induction ss rule: rev_induct)
  case Nil
  have "normal_form []" unfolding normal_form_def by (intro exI [of _ 0] exI [of _ "[]"]) simp
  then show ?case by simp
next
  case (snoc seg ss)
  then show ?case using norm_step_normal walk_norm_step by simp
qed

text \<open>From the root: nothing climbs.\<close>

lemma walk_absolute:
  "list_all (\<lambda>s. s \<noteq> [] \<and> s \<noteq> ''.'' \<and> s \<noteq> ''..'') (foldl (norm_step False) [] ss) \<and> foldl (norm_step False) [] ss = walk [] ss"
proof (induction ss rule: rev_induct)
  case (snoc seg ss)
  let ?w = "foldl (norm_step False) [] ss"
  have names: "list_all (\<lambda>s. s \<noteq> [] \<and> s \<noteq> ''.'' \<and> s \<noteq> ''..'') ?w" and w: "?w = walk [] ss"
    by (rule conjunct1 [OF snoc], rule conjunct2 [OF snoc])
  have "last ?w \<noteq> ''..''" if "?w \<noteq> []"
    using last_in_set [OF that] names unfolding list_all_iff by blast
  then have "norm_step False ?w seg = walk_step ?w seg" by (cases "?w = []") (auto simp: norm_step_def walk_step_def)
  moreover have "list_all (\<lambda>s. s \<noteq> [] \<and> s \<noteq> ''.'' \<and> s \<noteq> ''..'') (walk_step ?w seg)"
    using names by (auto simp: walk_step_def list_all_iff dest: in_set_butlastD)
  ultimately show ?case using w by simp
qed simp

definition absolute_path :: "string \<Rightarrow> bool" where
  "absolute_path s \<longleftrightarrow> starts_with s ''/''"

text \<open>A target that may be deleted: below every folder it is taken from, not the root, not the project's own data.\<close>

definition harmless_target :: "string \<Rightarrow> bool" where
  "harmless_target token \<longleftrightarrow>
     (let s = slashed_target token; segs = split_on CHR ''/'' s in
      (\<forall>seg \<in> set (split_on CHR ''/'' (strip_drive s)). \<not> isProtectedDeleteSegment seg)
      \<and> \<not> isExpandableDeleteTarget token
      \<and> (if absolute_path s then walk [] segs \<noteq> []
         else \<forall>here. \<exists>below. below \<noteq> [] \<and> walk here segs = here @ below))"

lemma join_with_Nil_iff: "join_with ''/'' ss = [] \<longleftrightarrow> ss = [] \<or> ss = [[]]"
  by (induction "''/''" ss rule: join_with.induct) auto

lemma strip_end_Nil: "strip_end P [] = []"
  by (simp add: strip_end_def)

lemma strip_end_snoc: "strip_end P (s @ [c]) = (if P c then strip_end P s else s @ [c])"
  by (simp add: strip_end_def)

lemma strip_end_append: "a \<noteq> [] \<Longrightarrow> \<not> P (last a) \<Longrightarrow> strip_end P (a @ y) = a @ strip_end P y"
proof (induction y rule: rev_induct)
  case Nil
  then show ?case by (cases a rule: rev_cases) (simp_all add: strip_end_snoc strip_end_Nil)
next
  case (snoc c y)
  then show ?case using strip_end_snoc [of P "a @ y" c] strip_end_snoc [of P y c] by simp
qed

lemma strip_end_all: "list_all P s \<Longrightarrow> strip_end P s = []"
  by (induction s rule: rev_induct) (simp_all add: strip_end_Nil strip_end_snoc)

lemma strip_end_prefix: "\<exists>z. s = strip_end P s @ z \<and> list_all P z"
proof (intro exI conjI)
  show "s = strip_end P s @ rev (takeWhile P (rev s))"
    unfolding strip_end_def rev_append [symmetric] takeWhile_dropWhile_id rev_rev_ident ..
  have ok: "list_all P (takeWhile P x)" for x by (induction x) simp_all
  show "list_all P (rev (takeWhile P (rev s)))" unfolding list_all_rev by (rule ok)
qed

lemma unrefused_target:
  assumes "\<not> isCatastrophicDeleteTarget token" and "token \<noteq> []" and "\<not> isExpandableDeleteTarget token"
  shows "harmless_target token"
proof -
  let ?s = "slashed_target token"
  let ?segs = "split_on CHR ''/'' ?s"
  have ne: "?s \<noteq> []" using assms(2) by (simp add: slashed_target_def js_lower_def)
  with assms(1) have prot: "\<not> list_ex isProtectedDeleteSegment (split_on CHR ''/'' (strip_drive ?s))"
    unfolding isCatastrophicDeleteTarget_def Let_def by (auto split: if_splits)
  define n where "n = (let t = strip_end (\<lambda>c. c = CHR ''/'') (posix_normalize ?s) in if t = [] then ''/'' else t)"
  have norm: "n \<noteq> ''/''" "n \<noteq> ''.''" "n \<noteq> ''..''" "\<not> starts_with n ''../''"
    using assms(1) ne prot unfolding isCatastrophicDeleteTarget_def n_def Let_def by auto
  have last_seg: "walk [] ?segs \<noteq> []" if absolute: "absolute_path ?s"
  proof
    assume "walk [] ?segs = []"
    then have "foldl (norm_step False) [] ?segs = []" using walk_absolute [of ?segs] by simp
    moreover have "hd ?s = CHR ''/''" using absolute by (auto simp: absolute_path_def starts_with_iff)
    ultimately have "posix_normalize ?s = ''/''" using ne by (simp add: posix_normalize_def Let_def)
    then have "n = ''/''" by (simp add: n_def strip_end_def)
    with norm(1) show False ..
  qed
  have below: "\<exists>below. below \<noteq> [] \<and> walk here ?segs = here @ below" if relative: "\<not> absolute_path ?s" for here
  proof -
    let ?N = "foldl (norm_step True) [] ?segs"
    obtain k ns where N: "?N = replicate k ''..'' @ ns" and ns: "list_all (\<lambda>s. s \<noteq> [] \<and> s \<noteq> ''.'' \<and> s \<noteq> ''..'') ns"
      using walk_normalized [of ?segs here] unfolding normal_form_def by blast
    have hd: "hd ?s \<noteq> CHR ''/''" using relative ne by (cases ?s) (auto simp: absolute_path_def starts_with_def)
    obtain tail where tail: "posix_normalize ?s = (if ?N = [] then ''.'' else join_with ''/'' ?N) @ tail" "list_all (\<lambda>c. c = CHR ''/'') tail"
    proof -
      have empty: "join_with ''/'' ?N = [] \<longleftrightarrow> ?N = []"
        unfolding join_with_Nil_iff N using ns by (cases k; cases ns) auto
      show ?thesis
        by (rule that [of "if last ?s = CHR ''/'' then ''/'' else []"])
          (use ne hd empty in \<open>simp_all add: posix_normalize_def Let_def\<close>)
    qed
    have k: "k = 0"
    proof (rule ccontr)
      assume "k \<noteq> 0"
      then obtain j where j: "k = Suc j" by (cases k) auto
      then have "posix_normalize ?s = ''..'' @ (if replicate j ''..'' @ ns = [] then [] else ''/'' @ join_with ''/'' (replicate j ''..'' @ ns)) @ tail"
        using tail(1) N by (simp add: join_with_Cons)
      then obtain y where y: "posix_normalize ?s = ''..'' @ y" "y = [] \<or> hd y = CHR ''/''"
        using tail(2) by (cases "replicate j ''..'' @ ns = []"; cases tail) auto
      have "strip_end (\<lambda>c. c = CHR ''/'') (posix_normalize ?s) = ''..'' @ strip_end (\<lambda>c. c = CHR ''/'') y" (is "_ = _ @ ?y")
        unfolding y(1) by (rule strip_end_append) simp_all
      moreover have "?y = [] \<or> hd ?y = CHR ''/''"
        using y(2) strip_end_prefix [of y "\<lambda>c. c = CHR ''/''"] by (metis append_is_Nil_conv hd_append2)
      ultimately have "n = ''..'' \<or> starts_with n ''../''"
        by (cases ?y) (auto simp: n_def starts_with_def)
      with norm show False by blast
    qed
    have "ns \<noteq> []"
    proof
      assume "ns = []"
      then have "posix_normalize ?s = ''.'' @ tail" using tail(1) N k by simp
      then have "n = ''.''" using tail(2) strip_end_append [of "''.''" "\<lambda>c. c = CHR ''/''" tail] strip_end_all [OF tail(2)]
        by (simp add: n_def)
      with norm show False by blast
    qed
    moreover have "walk here ?segs = here @ ns"
      using walk_normalized [of ?segs here] walk_names [OF ns] N k by simp
    ultimately show ?thesis by blast
  qed
  show ?thesis unfolding harmless_target_def Let_def
    using prot assms(3) last_seg below by (auto simp: list_ex_iff)
qed


lemma delete_target_read:
  "deleteVerb verb \<in> set RECURSIVE_DELETE_COMMANDS \<Longrightarrow> hasRecursiveOrForceDeleteFlag (deleteVerb verb) args \<Longrightarrow>
     token \<in> set args \<Longrightarrow> set (deleteOperands token) \<subseteq> set (deleteTargetsOfSegment (pre @ verb # args))"
  by (induction pre) auto

text \<open>
   When the guard supports a command, every operand of every recursive or forced delete in it,
  read as PowerShell may read it too (bound values, items of a list), is harmless: written
  relatively it leads strictly below every folder it may be taken from, written absolutely it is not
  the root, no segment of it is .git or .unode in any spelling, and nothing in it would be expanded.
\<close>

theorem supported_deletes_are_harmless:
  assumes "inspectCommand command (Some (kind, g)) = Supported segs" and "pre @ verb # args \<in> set segs"
    and "deleteVerb verb \<in> set RECURSIVE_DELETE_COMMANDS" and "hasRecursiveOrForceDeleteFlag (deleteVerb verb) args"
    and "token \<in> set args" and "target \<in> set (deleteOperands token)" and "target \<noteq> []"
  shows "harmless_target target"
proof (rule unrefused_target [OF _ assms(7)])
  have "target \<in> set (concat (map deleteTargetsOfSegment segs))"
    using delete_target_read [OF assms(3-5), of pre] assms(2,6) unfolding set_concat set_map by blast
  then show "\<not> isCatastrophicDeleteTarget target" "\<not> isExpandableDeleteTarget target"
    using inspect_supported(5,6) [OF assms(1)] unfolding list_ex_iff by blast+
qed

lemma supported_deletes_are_harmless_witness: "harmless_target ''build/out''"
proof -
  have "inspectCommand ''rm -r build/out'' (Some (KBash, PosixGrammar)) = Supported [[''rm'', ''-r'', ''build/out'']]"
    by code_simp
  moreover have "deleteVerb ''rm'' \<in> set RECURSIVE_DELETE_COMMANDS" by code_simp
  moreover have "hasRecursiveOrForceDeleteFlag (deleteVerb ''rm'') [''-r'', ''build/out'']" by code_simp
  moreover have "''build/out'' \<in> set (deleteOperands ''build/out'')" by code_simp
  moreover have "[] @ ''rm'' # [''-r'', ''build/out''] \<in> set [[''rm'', ''-r'', ''build/out'']]" by simp
  moreover have "''build/out'' \<in> set [''-r'', ''build/out'']" "''build/out'' \<noteq> []" by simp_all
  ultimately show ?thesis by (metis supported_deletes_are_harmless)
qed

section \<open>Forced recursive deletes\<close>

text \<open>\<open>rm\<close> with a group of options that holds both letters, in any case and order, anywhere in the command.\<close>

lemma rm_option_match:
  assumes "list_all is_space sp" "sp \<noteq> []" and "list_all is_letter o1" "list_all is_letter o2"
    and "lower_char a' = lower_char a" "lower_char b' = lower_char b" and "js_lower rm = ''rm''"
    and "pre = [] \<or> \<not> is_word (last pre)"
  shows "rx_test (rm_option_pattern a b) (pre @ rm @ sp @ ''-'' @ o1 @ [a'] @ o2 @ [b'] @ post)"
proof -
  obtain c sp' where sp: "sp = c # sp'" using assms(2) by (cases sp) auto
  have lit: "rx_match (rx_lit_i ''rm'') (x, rm @ t) (rev rm @ x, t)" for x t
    using assms(7) by (intro rx_match_lit_i) (simp add: js_lower_def lower_char_def)
  have "starts_word (rm @ t)" for t
  proof -
    obtain d rm' where rm: "rm = d # rm'" "lower_char d = CHR ''r''" using assms(7) by (cases rm) (auto simp: js_lower_def)
    have "(of_char (lower_char d) :: nat) = 114" using rm(2) by simp
    then have "(of_char d :: nat) = 114 \<or> (of_char d :: nat) = 82" unfolding lower_code Let_def by (auto split: if_splits)
    then have "is_word d" by (auto simp: is_word_def is_lower_def is_upper_def less_eq_char_def)
    then show ?thesis by (simp add: rm(1) starts_word_def)
  qed
  moreover have "\<not> starts_word (rev pre)" using assms(8) by (cases pre rule: rev_cases) (auto simp: starts_word_def)
  ultimately have bound: "at_boundary (rev pre, rm @ t)" for t by (simp add: at_boundary_def)
  have chars: "rx_match (RStar (RChar P)) (x, u @ t) (rev u @ x, t)" if "list_all P u" for P u x t
    by (rule rx_match_chars [OF that])
  let ?t5 = "o2 @ [b'] @ post" and ?z3 = "rev sp @ rev rm @ rev pre"
  let ?t4 = "o1 @ [a'] @ ?t5"
  have m3: "rx_match rx_spaces1 (rev rm @ rev pre, sp @ ''-'' @ ?t4) (?z3, ''-'' @ ?t4)"
    unfolding rx_plus_def
  proof (rule rx_match.seq)
    show "rx_match (RChar is_space) (rev rm @ rev pre, sp @ ''-'' @ ?t4) (c # rev rm @ rev pre, sp' @ ''-'' @ ?t4)"
      using assms(1) by (simp add: sp)
    show "rx_match rx_spaces (c # rev rm @ rev pre, sp' @ ''-'' @ ?t4) (?z3, ''-'' @ ?t4)"
      using chars [of is_space sp' "c # rev rm @ rev pre" "''-'' @ ?t4"] assms(1) by (simp add: sp)
  qed
  have m4: "rx_match (rx_lit ''-'') (?z3, ''-'' @ ?t4) (''-'' @ ?z3, ?t4)"
    by (auto simp: rx_lit_def rx_seq_def)
  have m5: "rx_match rx_letters (''-'' @ ?z3, ?t4) (rev o1 @ ''-'' @ ?z3, [a'] @ ?t5)" by (rule chars [OF assms(3)])
  have m6: "rx_match (rx_c a) (rev o1 @ ''-'' @ ?z3, [a'] @ ?t5) (a' # rev o1 @ ''-'' @ ?z3, ?t5)"
    using assms(5) by (simp add: same_letter_def)
  have m7: "rx_match rx_letters (a' # rev o1 @ ''-'' @ ?z3, ?t5) (rev o2 @ a' # rev o1 @ ''-'' @ ?z3, [b'] @ post)"
    by (rule chars [OF assms(4)])
  have m8: "rx_match (rx_c b) (rev o2 @ a' # rev o1 @ ''-'' @ ?z3, [b'] @ post) (b' # rev o2 @ a' # rev o1 @ ''-'' @ ?z3, post)"
    using assms(6) by (simp add: same_letter_def)
  have m1: "rx_match RBound (rev pre, rm @ sp @ ''-'' @ ?t4) (rev pre, rm @ sp @ ''-'' @ ?t4)" using bound by simp
  have "rx_match (rm_option_pattern a b) (rev pre, rm @ sp @ ''-'' @ ?t4) (b' # rev o2 @ a' # rev o1 @ ''-'' @ ?z3, post)"
    unfolding rm_option_pattern_def rx_match_seq_Cons rx_match_seq_Nil
    using m1 lit m3 m4 m5 m6 m7 m8 by blast
  then show ?thesis unfolding rx_test_iff by blast
qed

text \<open>
  So such a command is refused in every mode and every shell, or left to a single confirmation.
\<close>

text \<open>
   A command in which rm stands at a word boundary, followed by white space and a group of option
  letters that holds r and f in any order and case, is never allowed by a policy of any mode, nor
  without a policy, in any shell; unless commands are off the verdict is the confirmation of a
  dangerous command.
\<close>

theorem forced_recursive_rm_never_runs_silently:
  assumes "js_trim raw = pre @ rm @ sp @ ''-'' @ o1 @ [a] @ o2 @ [b] @ post"
    and "pre = [] \<or> \<not> is_word (last pre)" and "js_lower rm = ''rm''" and "list_all is_space sp" "sp \<noteq> []"
    and "list_all is_letter o1" "list_all is_letter o2" and "{lower_char a, lower_char b} = {CHR ''r'', CHR ''f''}"
  shows "\<not> vd_allowed (fst (check_command p raw shell)) \<and> \<not> vd_allowed (noPolicyVerdict raw f)
    \<and> (cp_mode p \<noteq> ModeNone \<longrightarrow> fst (check_command p raw shell) = dangerous_verdict)"
proof -
  have low: "lower_char CHR ''r'' = CHR ''r''" "lower_char CHR ''f'' = CHR ''f''" by code_simp+
  have "(lower_char a = CHR ''r'' \<and> lower_char b = CHR ''f'') \<or> (lower_char a = CHR ''f'' \<and> lower_char b = CHR ''r'')"
    using assms(8) by (auto simp: doubleton_eq_iff)
  then have "rx_test (rm_option_pattern CHR ''r'' CHR ''f'') (js_trim raw) \<or> rx_test (rm_option_pattern CHR ''f'' CHR ''r'') (js_trim raw)"
    unfolding assms(1) using rm_option_match [OF assms(4-7) _ _ assms(3,2)] low by metis
  then have "rx_test (hd CATASTROPHIC) (js_trim raw)" by (auto simp: CATASTROPHIC_def rx_test_iff)
  then have hit: "list_ex (\<lambda>p. rx_test p (js_trim raw)) CATASTROPHIC" by (simp add: CATASTROPHIC_def)
  have ne: "js_trim raw \<noteq> []" using assms(1) by simp
  have blocked: "inspectCommand raw f = Blocked DESTRUCTIVE_PATTERN_REASON" for f
    using hit ne by (simp add: inspectCommand_def Let_def)
  moreover have "inspectCommand (js_trim raw) f = Blocked DESTRUCTIVE_PATTERN_REASON" for f
    using hit ne by (simp add: inspectCommand_def Let_def)
  ultimately show ?thesis using ne
    by (simp add: check_command_def Let_def noPolicyVerdict_def dangerous_verdict_def refuse_with_def allow_def)
qed

lemma forced_recursive_rm_never_runs_silently_witness:
  "\<not> vd_allowed (fst (check_command (new_policy ModeAll NoInputs) ''cd x; RM -vRif y'' (commandShellIdentity concat KBash TerminalProbe None None)))"
proof -
  have t: "js_trim ''cd x; RM -vRif y'' = ''cd x; '' @ ''RM'' @ '' '' @ ''-'' @ ''v'' @ [CHR ''R''] @ ''i'' @ [CHR ''f''] @ '' y''"
    by code_simp
  have "js_lower ''RM'' = ''rm''" "list_all is_space '' ''" "list_all is_letter ''v''" "list_all is_letter ''i''"
    "lower_char CHR ''R'' = CHR ''r''" "lower_char CHR ''f'' = CHR ''f''" "\<not> is_word (last ''cd x; '')" by code_simp+
  then show ?thesis using forced_recursive_rm_never_runs_silently [OF t] by fastforce
qed

section \<open>Always allow\<close>

definition grant :: "shell_grammar \<Rightarrow> string \<Rightarrow> command_policy \<Rightarrow> command_policy" where
  "grant g template p = p\<lparr>cp_project := cp_project p @ [\<lparr>ak_grammar = g, ak_template = template\<rparr>]\<rparr>"

lemma join_words_prefix:
  "ws \<noteq> [] \<Longrightarrow> 0 < n \<Longrightarrow> join_with '' '' ws = join_with '' '' (take n ws) \<or> starts_with (join_with '' '' ws) (join_with '' '' (take n ws) @ '' '')"
proof (induction ws arbitrary: n)
  case (Cons w ws)
  show ?case
  proof (cases "ws = [] \<or> n = 1")
    case True
    with Cons.prems show ?thesis by (cases ws) (auto simp: starts_with_iff)
  next
    case False
    then obtain m where m: "n = Suc m" "0 < m" using Cons.prems by (cases n) auto
    from False Cons.IH [OF _ m(2)] have "join_with '' '' ws = join_with '' '' (take m ws)
        \<or> starts_with (join_with '' '' ws) (join_with '' '' (take m ws) @ '' '')" by blast
    moreover have "take m ws \<noteq> []" using False m(2) by simp
    ultimately show ?thesis using False m(1) by (auto simp: join_with_Cons starts_with_iff)
  qed
qed simp


lemma template_of_words:
  "js_words command \<noteq> [] \<Longrightarrow> \<exists>n > 0. commandTemplate command = join_with '' '' (take n (map js_lower (js_words command)))"
proof -
  assume "js_words command \<noteq> []"
  then consider t where "js_words command = [t]" | t u where "js_words command = [t, u]"
    | t u v ts where "js_words command = t # u # v # ts" by (metis neq_Nil_conv)
  then show ?thesis
  proof cases
    case 1
    then show ?thesis by (intro exI [of _ 1]) (simp add: commandTemplate_def)
  next
    case 2
    then show ?thesis
      by (cases "js_lower t \<in> set MULTI_VERB") (auto simp: commandTemplate_def intro: exI [of _ 1] exI [of _ 2])
  next
    case 3
    then show ?thesis
      by (cases "js_lower t \<in> set MULTI_VERB"; cases "js_lower t \<in> set RUN_SCRIPT_PM \<and> js_lower u = ''run''")
        (auto simp: commandTemplate_def intro: exI [of _ 1] exI [of _ "2::nat"] exI [of _ "3::nat"])
  qed
qed

lemma join_with_lower: "js_lower (join_with '' '' ws) = join_with '' '' (map js_lower ws)"
proof -
  have "lower_char CHR '' '' = CHR '' ''" by code_simp
  then show ?thesis by (induction "'' ''" ws rule: join_with.induct) (simp_all add: js_lower_def)
qed

text \<open>
  Granting the template of a command that is one segment of single-spaced words lets it run from then on, under the
  grammar it was granted for; under any other nothing changes.
\<close>

text \<open>
   When a supported command is one segment of single-spaced words, a project grant of its
  template lets it run without asking from then on under the grammar of the grant, and the verdicts
  on all commands under other grammars stay as they were.
\<close>

theorem always_allow_allows_it_there_only:
  assumes "inspectCommand raw (Some (si_kind shell, si_grammar shell)) = Supported segs"
    and "autoAllowSegments (js_trim raw) (si_kind shell) (si_grammar shell) = Some [js_trim raw]"
    and "js_trim raw = join_with '' '' (js_words raw)" and "templateRunsUnder (commandTemplate raw) (si_grammar shell)"
    and "cp_mode p \<noteq> ModeNone"
  shows "fst (check_command (grant (si_grammar shell) (commandTemplate raw) p) raw shell) = allow
    \<and> (\<forall>other shell2. si_grammar shell2 \<noteq> si_grammar shell \<longrightarrow>
          fst (check_command (grant (si_grammar shell) (commandTemplate raw) p) other shell2) = fst (check_command p other shell2))"
proof
  let ?g = "si_grammar shell" and ?t = "commandTemplate raw"
  let ?p = "grant ?g ?t p"
  note sup = inspect_supported [OF assms(1)]
  have "js_words raw \<noteq> []" using assms(3) sup(2) by (metis join_with.simps(1))
  from template_of_words [OF this] obtain n where n: "0 < n" "?t = join_with '' '' (take n (map js_lower (js_words raw)))" by blast
  have "js_lower (js_trim raw) = join_with '' '' (map js_lower (js_words raw))" by (subst assms(3)) (rule join_with_lower)
  with join_words_prefix [of "map js_lower (js_words raw)" n] n \<open>js_words raw \<noteq> []\<close>
  have hit: "js_lower (js_trim raw) = ?t \<or> starts_with (js_lower (js_trim raw)) (?t @ '' '')" by simp
  have "?t \<in> set (allowlistFor ?p ?g)" using assms(4) by (simp add: allowlistFor_def js_unique_set grant_def)
  with hit have "everySegmentIsAllowlisted [js_trim raw] (allowlistFor ?p ?g)"
    by (auto simp: everySegmentIsAllowlisted_def segment_matches_def list_ex_iff)
  moreover have "inspectCommand (js_trim raw) (Some (si_kind shell, ?g)) = Supported segs"
    using assms(1) by (simp add: inspectCommand_def)
  ultimately show "fst (check_command ?p raw shell) = allow"
    using assms(2,5) sup(2) by (simp add: check_command_def Let_def grant_def)
  show "\<forall>other shell2. si_grammar shell2 \<noteq> ?g \<longrightarrow> fst (check_command ?p other shell2) = fst (check_command p other shell2)"
  proof (intro allI impI)
    fix other and shell2 :: shell_identity assume g: "si_grammar shell2 \<noteq> ?g"
    then have "allowlistFor ?p (si_grammar shell2) = allowlistFor p (si_grammar shell2)"
      by (simp add: allowlistFor_def grant_def)
    then show "fst (check_command ?p other shell2) = fst (check_command p other shell2)"
      by (simp add: check_command_def Let_def grant_def split: inspection.split)
  qed
qed

lemma always_allow_allows_it_there_only_witness:
  "fst (check_command (grant PosixGrammar ''npm run build'' (new_policy ModeAsk NoInputs)) '' npm run Build --x ''
     (commandShellIdentity concat KBash TerminalProbe None None)) = allow"
proof -
  let ?sh = "commandShellIdentity concat KBash TerminalProbe None None"
  let ?raw = "'' npm run Build --x ''"
  have sh: "si_kind ?sh = KBash" "si_grammar ?sh = PosixGrammar" by (simp_all add: commandShellIdentity_def)
  have "inspectCommand ?raw (Some (KBash, PosixGrammar)) = Supported [[''npm'', ''run'', ''Build'', ''--x'']]" by code_simp
  moreover have "autoAllowSegments (js_trim ?raw) KBash PosixGrammar = Some [js_trim ?raw]" by code_simp
  moreover have "js_trim ?raw = join_with '' '' (js_words ?raw)" by code_simp
  moreover have t: "commandTemplate ?raw = ''npm run build''" by code_simp
  moreover have "templateRunsUnder ''npm run build'' PosixGrammar" by code_simp
  moreover have "cp_mode (new_policy ModeAsk NoInputs) \<noteq> ModeNone" by (simp add: new_policy_def)
  ultimately show ?thesis using always_allow_allows_it_there_only [of ?raw ?sh] unfolding sh t by blast
qed

lemma silent_commands_start_with_templates_witness:
  "\<exists>segs. inspectCommand ''git status -s; npm test'' (Some (KBash, PosixGrammar)) = Supported segs
     \<and> (\<forall>ws \<in> set segs. \<exists>t \<in> set [''git status'', ''npm test'']. take (length (js_words t)) (map js_lower ws) = js_words t)"
proof -
  let ?sh = "commandShellIdentity concat KBash TerminalProbe None None"
  let ?p = "new_policy ModeAllowlist (BareTemplates [''git status'', ''NPM test''])"
  have sh: "si_kind ?sh = KBash" "si_grammar ?sh = PosixGrammar" by (simp_all add: commandShellIdentity_def)
  have l: "allowlistFor ?p PosixGrammar = [''git status'', ''npm test'']" by code_simp
  have "vd_allowed (fst (check_command ?p ''git status -s; npm test'' ?sh))" by code_simp
  moreover have "cp_mode ?p \<noteq> ModeAll" by (simp add: new_policy_def)
  moreover have "usual_space (js_trim ''git status -s; npm test'')" by code_simp
  moreover have "\<forall>t \<in> set (allowlistFor ?p (si_grammar ?sh)). quote_free t" unfolding sh l by code_simp
  ultimately show ?thesis using silent_commands_start_with_templates [of ?p "''git status -s; npm test''" ?sh] unfolding sh l by blast
qed

end
