(* ===== verification/MessageBus.thy ===== *)
theory MessageBus
  imports Prelude
begin

text \<open>
  The message bus of the agents (\<open>src/src/bus/MessageBus.ts\<close>): subscriptions by pattern, the bounded store,
  expiry, and the copies of messages that are kept.

  \<open>send\<close> calls every handler that matches before it returns, and a handler may send, subscribe and
  unsubscribe itself. The state is therefore the bus and the handlers that are running, innermost first; what
  running code does next is an operation, so a history of operations is any interleaving the program can have.
  A handler ends by returning or by throwing, and the loop of its \<open>send\<close> goes on from there. Listeners of the
  low-level events are told in effects: the ones of the program neither call the bus nor throw. Ids of messages and
  times are arguments; a subscription's id is its number.
\<close>

subsection \<open>Messages and patterns\<close>

datatype msg_priority = HighPriority | NormalPriority | LowPriority

record bus_message =
  mg_id :: string
  mg_correlationId :: "string option"
  mg_from :: string
  mg_to :: string
  mg_type :: string
  mg_priority :: msg_priority
  mg_payload :: "(string \<times> js_value) list"
  mg_timestamp :: int
  mg_ttl :: "int option"

record msg_pattern =
  pt_type :: "string option"
  pt_from :: "string option"
  pt_to :: "string option"
  pt_priority :: "msg_priority option"

record msg_filter =
  mf_before :: "int option"
  mf_after :: "int option"
  mf_from :: "string option"
  mf_to :: "string option"
  mf_type :: "string option"
  mf_limit :: "int option"

definition any_pattern :: msg_pattern where
  "any_pattern = \<lparr>pt_type = None, pt_from = None, pt_to = None, pt_priority = None\<rparr>"

definition differs :: "'a option \<Rightarrow> 'a \<Rightarrow> bool" where
  "differs wanted x \<longleftrightarrow> (case wanted of Some y \<Rightarrow> y \<noteq> x | None \<Rightarrow> False)"

definition matches :: "bus_message \<Rightarrow> msg_pattern \<Rightarrow> bool" where
  "matches m p \<longleftrightarrow>
     (if differs (pt_type p) (mg_type m) then False
      else if differs (pt_from p) (mg_from m) then False
      else if mg_to m \<noteq> ''*'' \<and> differs (pt_to p) (mg_to m) then False
      else \<not> differs (pt_priority p) (mg_priority m))"

definition make_message ::
    "string \<Rightarrow> int \<Rightarrow> string \<Rightarrow> string \<Rightarrow> string \<Rightarrow> (string \<times> js_value) list \<Rightarrow> msg_priority option \<Rightarrow> string option \<Rightarrow>
     int option \<Rightarrow> bus_message" where
  "make_message i now from to typ payload priority correlationId ttl =
     \<lparr>mg_id = i, mg_correlationId = correlationId, mg_from = from, mg_to = to, mg_type = typ,
      mg_priority = (case priority of Some p \<Rightarrow> p | None \<Rightarrow> NormalPriority), mg_payload = payload, mg_timestamp = now, mg_ttl = ttl\<rparr>"

definition reply_message ::
    "string \<Rightarrow> int \<Rightarrow> bus_message \<Rightarrow> string \<Rightarrow> string \<Rightarrow> (string \<times> js_value) list \<Rightarrow> msg_priority option \<Rightarrow> bus_message" where
  "reply_message i now original from typ payload priority =
     make_message i now from (mg_from original) typ payload (or_else priority (Some (mg_priority original)))
       (Some (mg_id original)) None"

definition broadcast_message ::
    "string \<Rightarrow> int \<Rightarrow> string \<Rightarrow> string \<Rightarrow> (string \<times> js_value) list \<Rightarrow> msg_priority option \<Rightarrow> bus_message" where
  "broadcast_message i now from typ payload priority = make_message i now from ''*'' typ payload priority None None"

subsection \<open>The store\<close>

text \<open>\<open>slice\<close> from an index, which counts from the end when it is negative.\<close>

definition js_slice_from :: "int \<Rightarrow> 'a list \<Rightarrow> 'a list" where
  "js_slice_from n xs = (if n < 0 then drop (length xs - nat (- n)) xs else drop (nat n) xs)"

definition storeMessage :: "nat \<Rightarrow> bus_message \<Rightarrow> bus_message list \<Rightarrow> bus_message list" where
  "storeMessage maxStoreSize m store =
     (let s = store @ [m] in if maxStoreSize < length s then drop (length s - maxStoreSize) s else s)"

definition is_expired :: "int \<Rightarrow> bus_message \<Rightarrow> bool" where
  "is_expired now m \<longleftrightarrow>
     (case mg_ttl m of Some ttl \<Rightarrow> ttl \<noteq> 0 \<and> mg_timestamp m < now \<and> 1000 * ttl < now - mg_timestamp m | None \<Rightarrow> False)"

definition full_filter :: "string option \<Rightarrow> string option" where
  "full_filter f = (case f of Some s \<Rightarrow> if s = [] then None else Some s | None \<Rightarrow> None)"

definition query_messages :: "msg_filter option \<Rightarrow> bus_message list \<Rightarrow> bus_message list" where
  "query_messages f store =
     (case f of
        None \<Rightarrow> store
      | Some f \<Rightarrow>
          (let r1 = (case mf_before f of Some b \<Rightarrow> filter (\<lambda>m. mg_timestamp m < b) store | None \<Rightarrow> store);
               r2 = (case mf_after f of Some a \<Rightarrow> filter (\<lambda>m. a < mg_timestamp m) r1 | None \<Rightarrow> r1);
               r3 = (case full_filter (mf_from f) of Some s \<Rightarrow> filter (\<lambda>m. mg_from m = s) r2 | None \<Rightarrow> r2);
               r4 = (case full_filter (mf_to f) of Some s \<Rightarrow> filter (\<lambda>m. mg_to m = s \<or> mg_to m = ''*'') r3 | None \<Rightarrow> r3);
               r5 = (case full_filter (mf_type f) of Some s \<Rightarrow> filter (\<lambda>m. mg_type m = s) r4 | None \<Rightarrow> r4)
           in case mf_limit f of Some l \<Rightarrow> if l = 0 then r5 else js_slice_from (- l) r5 | None \<Rightarrow> r5))"

definition getThread :: "string \<Rightarrow> bus_message list \<Rightarrow> bus_message list" where
  "getThread rootMessageId store = filter (\<lambda>m. mg_id m = rootMessageId \<or> mg_correlationId m = Some rootMessageId) store"

subsection \<open>Copies that are kept\<close>

text \<open>Members of an object; the items of an array, which spread into an object, under their indices.\<close>

fun object_members :: "js_value \<Rightarrow> (string \<times> js_value) list option" where
  "object_members (JObject ms) = Some ms"
| "object_members (JArray xs) = Some (map (\<lambda>i. (show_big (int i), xs ! i)) [0..<length xs])"
| "object_members _ = None"

definition without_member :: "string \<Rightarrow> (string \<times> js_value) list \<Rightarrow> (string \<times> js_value) list" where
  "without_member k ms = filter (\<lambda>(k', _). k' \<noteq> k) ms"

definition stripCoordinatorBrief :: "js_value \<Rightarrow> js_value" where
  "stripCoordinatorBrief taskAttempt =
     (case taskAttempt of
        JObject attempt \<Rightarrow>
          (case object_members (member_of attempt ''contract'') of
             None \<Rightarrow> taskAttempt
           | Some contract \<Rightarrow> JObject (js_set ''contract'' (JObject (without_member ''coordinatorBrief'' contract)) attempt))
      | _ \<Rightarrow> taskAttempt)"

definition stripUserAttachmentsForPersistence :: "bus_message \<Rightarrow> bus_message" where
  "stripUserAttachmentsForPersistence m =
     (let attempt = stripCoordinatorBrief (member_of (mg_payload m) ''taskAttempt'');
          rest = without_member ''taskAttempt'' (without_member ''userAttachments'' (mg_payload m))
      in m\<lparr>mg_payload := rest @ (if attempt = JUndefined then [] else [(''taskAttempt'', attempt)])\<rparr>)"

definition exportMessages :: "int \<Rightarrow> bus_message list \<Rightarrow> bus_message list" where
  "exportMessages limit store = map stripUserAttachmentsForPersistence (js_slice_from (- limit) store)"

definition importMessages :: "nat \<Rightarrow> bus_message list \<Rightarrow> bus_message list \<Rightarrow> bus_message list" where
  "importMessages maxStoreSize messages store =
     (if messages = [] then store
      else map stripUserAttachmentsForPersistence (js_slice_from (- int maxStoreSize) messages))"

subsection \<open>The bus and what is running\<close>

datatype bus_event = MessageSent | MessageMatched | MessageExpired | ErrorEvent

record message_bus =
  mb_subs :: "(nat, msg_pattern) jsmap"
  mb_store :: "bus_message list"
  mb_maxStoreSize :: nat
  mb_nextSub :: nat
  mb_listeners :: "(bus_event \<times> nat) list"
  mb_timer :: bool

text \<open>The running handlers: the message each was called with and its subscription.\<close>

record bus_state =
  bs_bus :: message_bus
  bs_running :: "(bus_message \<times> nat) list"

definition new_bus :: "nat \<Rightarrow> bus_state" where
  "new_bus maxStoreSize =
     \<lparr>bs_bus = \<lparr>mb_subs = [], mb_store = [], mb_maxStoreSize = maxStoreSize, mb_nextSub = 0, mb_listeners = [], mb_timer = True\<rparr>,
      bs_running = []\<rparr>"

datatype bus_effect =
    Told bus_event nat
  | Deliver (de_depth: nat) (de_sub: nat) bus_message
  | SendReturned (se_depth: nat) bus_message
  | SendThrew (se_depth: nat) bus_message
  | UnhandledRejection nat

definition emit :: "bus_event \<Rightarrow> message_bus \<Rightarrow> bus_effect list" where
  "emit ev b = map (\<lambda>(_, l). Told ev l) (filter (\<lambda>(e, _). e = ev) (mb_listeners b))"

definition listens :: "bus_event \<Rightarrow> message_bus \<Rightarrow> bool" where
  "listens ev b \<longleftrightarrow> list_ex (\<lambda>(e, _). e = ev) (mb_listeners b)"

text \<open>
  The loop of \<open>matchSubscribers\<close> over the live map, from a subscription number on: the next handler that
  matches is called, or the \<open>send\<close> returns. The map keeps the order of insertion, which is the one of the numbers.
\<close>

definition next_match :: "bus_message \<Rightarrow> nat \<Rightarrow> message_bus \<Rightarrow> nat option" where
  "next_match m k b = map_option fst (find (\<lambda>(i, p). k \<le> i \<and> matches m p) (mb_subs b))"

definition matchSubscribers :: "bus_message \<Rightarrow> nat \<Rightarrow> bus_state \<Rightarrow> bus_state \<times> bus_effect list" where
  "matchSubscribers m k s =
     (case next_match m k (bs_bus s) of
        None \<Rightarrow> (s, [SendReturned (length (bs_running s)) m])
      | Some i \<Rightarrow> (s\<lparr>bs_running := (m, i) # bs_running s\<rparr>,
                   emit MessageMatched (bs_bus s) @ [Deliver (length (bs_running s)) i m]))"

definition send_message :: "bus_message \<Rightarrow> bus_state \<Rightarrow> bus_state \<times> bus_effect list" where
  "send_message m s =
     (let b = bs_bus s; s1 = s\<lparr>bs_bus := b\<lparr>mb_store := storeMessage (mb_maxStoreSize b) m (mb_store b)\<rparr>\<rparr>
      in case matchSubscribers m 0 s1 of (s2, fx) \<Rightarrow> (s2, emit MessageSent b @ fx))"

definition subscribe :: "msg_pattern \<Rightarrow> bus_state \<Rightarrow> bus_state" where
  "subscribe p s =
     (let b = bs_bus s in s\<lparr>bs_bus := b\<lparr>mb_subs := js_set (mb_nextSub b) p (mb_subs b), mb_nextSub := mb_nextSub b + 1\<rparr>\<rparr>)"

definition unsubscribe :: "nat \<Rightarrow> bus_state \<Rightarrow> bus_state" where
  "unsubscribe i s = (let b = bs_bus s in s\<lparr>bs_bus := b\<lparr>mb_subs := js_delete i (mb_subs b)\<rparr>\<rparr>)"

definition onType :: "string \<Rightarrow> bus_state \<Rightarrow> bus_state" where
  "onType typ = subscribe (any_pattern\<lparr>pt_type := Some typ\<rparr>)"

definition onAddressed :: "string \<Rightarrow> bus_state \<Rightarrow> bus_state" where
  "onAddressed target' = subscribe (any_pattern\<lparr>pt_to := Some target'\<rparr>)"

definition subscribeMany :: "msg_pattern list \<Rightarrow> bus_state \<Rightarrow> bus_state" where
  "subscribeMany ps s = foldl (\<lambda>s p. subscribe p s) s ps"

text \<open>The innermost handler returns, or throws: then the error event, which itself throws when nobody listens.\<close>

definition handler_returns :: "bus_state \<Rightarrow> bus_state \<times> bus_effect list" where
  "handler_returns s =
     (case bs_running s of
        [] \<Rightarrow> (s, [])
      | (m, i) # rest \<Rightarrow> matchSubscribers m (Suc i) (s\<lparr>bs_running := rest\<rparr>))"

definition handler_throws :: "bus_state \<Rightarrow> bus_state \<times> bus_effect list" where
  "handler_throws s =
     (case bs_running s of
        [] \<Rightarrow> (s, [])
      | (m, i) # rest \<Rightarrow>
          if listens ErrorEvent (bs_bus s)
          then (case matchSubscribers m (Suc i) (s\<lparr>bs_running := rest\<rparr>) of (s1, fx) \<Rightarrow> (s1, emit ErrorEvent (bs_bus s) @ fx))
          else (s\<lparr>bs_running := rest\<rparr>, [SendThrew (length rest) m]))"

definition expire_messages :: "int \<Rightarrow> bus_state \<Rightarrow> bus_state \<times> bus_effect list" where
  "expire_messages now s =
     (let b = bs_bus s in
      (s\<lparr>bs_bus := b\<lparr>mb_store := filter (\<lambda>m. \<not> is_expired now m) (mb_store b)\<rparr>\<rparr>,
       concat (map (\<lambda>_. emit MessageExpired b) (filter (is_expired now) (mb_store b)))))"

definition dispose_bus :: "bus_state \<Rightarrow> bus_state" where
  "dispose_bus s = s\<lparr>bs_bus := (bs_bus s)\<lparr>mb_subs := [], mb_listeners := [], mb_store := [], mb_timer := False\<rparr>\<rparr>"

text \<open>What running code does next; timers and rejected promises come when no handler is running.\<close>

datatype bus_op =
    OpSend bus_message
  | OpSubscribe msg_pattern
  | OpUnsubscribe nat
  | OpOn bus_event nat
  | OpOff bus_event nat
  | OpClear
  | OpImport "bus_message list"
  | OpDispose
  | OpReturn
  | OpThrow
  | OpRejected nat
  | OpTimer int

definition change_bus :: "(message_bus \<Rightarrow> message_bus) \<Rightarrow> bus_state \<Rightarrow> bus_state" where
  "change_bus f s = s\<lparr>bs_bus := f (bs_bus s)\<rparr>"

fun bus_step :: "bus_state \<Rightarrow> bus_op \<Rightarrow> bus_state \<times> bus_effect list" where
  "bus_step s (OpSend m) = send_message m s"
| "bus_step s (OpSubscribe p) = (subscribe p s, [])"
| "bus_step s (OpUnsubscribe i) = (unsubscribe i s, [])"
| "bus_step s (OpOn ev l) = (change_bus (\<lambda>b. b\<lparr>mb_listeners := mb_listeners b @ [(ev, l)]\<rparr>) s, [])"
| "bus_step s (OpOff ev l) = (change_bus (\<lambda>b. b\<lparr>mb_listeners := rev (remove1 (ev, l) (rev (mb_listeners b)))\<rparr>) s, [])"
| "bus_step s OpClear = (change_bus (\<lambda>b. b\<lparr>mb_store := []\<rparr>) s, [])"
| "bus_step s (OpImport ms) = (change_bus (\<lambda>b. b\<lparr>mb_store := importMessages (mb_maxStoreSize b) ms (mb_store b)\<rparr>) s, [])"
| "bus_step s OpDispose = (dispose_bus s, [])"
| "bus_step s OpReturn = handler_returns s"
| "bus_step s OpThrow = handler_throws s"
| "bus_step s (OpRejected i) =
     (if bs_running s \<noteq> [] then (s, [])
      else if listens ErrorEvent (bs_bus s) then (s, emit ErrorEvent (bs_bus s)) else (s, [UnhandledRejection i]))"
| "bus_step s (OpTimer now) =
     (if bs_running s \<noteq> [] \<or> \<not> mb_timer (bs_bus s) then (s, []) else expire_messages now s)"

end
