(* ===== verification/MessageBusLaws.thy ===== *)
theory MessageBusLaws
  imports MessageBus
begin

text \<open>
  What the message bus promises: a message that is sent reaches every subscription it matches exactly once, in
  the order they were made, whatever the handlers do; and what is kept of messages has no attachments in it.
\<close>

section \<open>Every subscriber is reached once\<close>

text \<open>The subscriptions a state has are numbered below the next number, in the order they are iterated.\<close>

definition bus_ok :: "bus_state \<Rightarrow> bool" where
  "bus_ok s \<longleftrightarrow> sorted_wrt (<) (js_keys (mb_subs (bs_bus s))) \<and> (\<forall>i \<in> set (js_keys (mb_subs (bs_bus s))). i < mb_nextSub (bs_bus s))
     \<and> (\<forall>(m, i) \<in> set (bs_running s). i < mb_nextSub (bs_bus s))"

text \<open>The subscriptions called by the \<open>send\<close> at a depth.\<close>

definition delivered_at :: "nat \<Rightarrow> bus_effect list \<Rightarrow> nat list" where
  "delivered_at d fx = concat (map (\<lambda>f. case f of Deliver d' i _ \<Rightarrow> if d' = d then [i] else [] | _ \<Rightarrow> []) fx)"

definition send_ended_at :: "nat \<Rightarrow> bus_effect list \<Rightarrow> bool" where
  "send_ended_at d fx \<longleftrightarrow> list_ex (\<lambda>f. case f of SendReturned d' _ \<Rightarrow> d' = d | SendThrew d' _ \<Rightarrow> d' = d | _ \<Rightarrow> False) fx"

lemma delivered_at_simps [simp]:
  "delivered_at d [] = []" "delivered_at d (fx @ gx) = delivered_at d fx @ delivered_at d gx"
  "delivered_at d (Told ev l # fx) = delivered_at d fx"
  "delivered_at d (Deliver d' i m # fx) = (if d' = d then [i] else []) @ delivered_at d fx"
  "delivered_at d (SendReturned d' m # fx) = delivered_at d fx" "delivered_at d (SendThrew d' m # fx) = delivered_at d fx"
  "delivered_at d (UnhandledRejection i # fx) = delivered_at d fx" "delivered_at d (emit ev b) = []"
  by (simp_all add: delivered_at_def emit_def split_beta)

lemma send_ended_at_simps [simp]:
  "\<not> send_ended_at d []" "send_ended_at d (fx @ gx) \<longleftrightarrow> send_ended_at d fx \<or> send_ended_at d gx"
  "send_ended_at d (Told ev l # fx) = send_ended_at d fx" "send_ended_at d (Deliver d' i m # fx) = send_ended_at d fx"
  "send_ended_at d (SendReturned d' m # fx) \<longleftrightarrow> d' = d \<or> send_ended_at d fx"
  "send_ended_at d (SendThrew d' m # fx) \<longleftrightarrow> d' = d \<or> send_ended_at d fx"
  "send_ended_at d (UnhandledRejection i # fx) = send_ended_at d fx" "\<not> send_ended_at d (emit ev b)"
  by (auto simp: send_ended_at_def emit_def split_beta list_ex_iff)

lemma returned_simps [simp]: "SendReturned d m \<notin> set (emit ev b)"
  by (auto simp: emit_def)

lemma delivered_at_told: "delivered_at d (concat (map (\<lambda>_. emit ev b) xs)) = []"
  by (induction xs) simp_all

lemma ended_at_told: "\<not> send_ended_at d (concat (map (\<lambda>_. emit ev b) xs))"
  by (induction xs) simp_all

text \<open>The next subscription: the first from there on that matches.\<close>

lemma next_match_None: "next_match m k b = None \<Longrightarrow> (i, p) \<in> set (mb_subs b) \<Longrightarrow> k \<le> i \<Longrightarrow> \<not> matches m p"
  by (auto simp: next_match_def find_None_iff)

lemma next_match_Some:
  assumes "next_match m k b = Some i" and "sorted_wrt (<) (js_keys (mb_subs b))"
  shows "k \<le> i" and "\<exists>p. (i, p) \<in> set (mb_subs b) \<and> matches m p"
    and "(j, q) \<in> set (mb_subs b) \<Longrightarrow> k \<le> j \<Longrightarrow> matches m q \<Longrightarrow> i \<le> j"
proof -
  obtain p where find: "find (\<lambda>(i, p). k \<le> i \<and> matches m p) (mb_subs b) = Some (i, p)"
    using assms(1) by (auto simp: next_match_def)
  then obtain n where n: "n < length (mb_subs b)" "mb_subs b ! n = (i, p)" "k \<le> i" "matches m p"
    "\<forall>l < n. \<not> (case mb_subs b ! l of (i, p) \<Rightarrow> k \<le> i \<and> matches m p)"
    by (auto simp: find_Some_iff)
  have "(i, p) \<in> set (mb_subs b)" using nth_mem [OF n(1)] unfolding n(2) .
  with n(3,4) show "k \<le> i" "\<exists>p. (i, p) \<in> set (mb_subs b) \<and> matches m p" by blast+
  assume j: "(j, q) \<in> set (mb_subs b)" "k \<le> j" "matches m q"
  then obtain l where l: "l < length (mb_subs b)" "mb_subs b ! l = (j, q)" by (auto simp: in_set_conv_nth)
  with n(5) j have "n \<le> l" by (metis (mono_tags, lifting) case_prod_conv not_le)
  show "i \<le> j"
  proof (cases "n = l")
    case True
    with n(2) l(2) show ?thesis by simp
  next
    case False
    with \<open>n \<le> l\<close> have "n < l" by simp
    then have "js_keys (mb_subs b) ! n < js_keys (mb_subs b) ! l"
      using sorted_wrt_nth_less [OF assms(2), of n l] l(1) by simp
    with n(1,2) l show ?thesis by simp
  qed
qed

lemma sorted_unique:
  "sorted_wrt (<) (map fst (xs :: (nat \<times> 'a) list)) \<Longrightarrow> (i, p) \<in> set xs \<Longrightarrow> (i, q) \<in> set xs \<Longrightarrow> p = q"
  by (induction xs) force+

section \<open>Steps keep the numbers in order\<close>

lemma subscribe_ok:
  assumes "bus_ok s"
  shows "bus_ok (subscribe p s)" and "mb_subs (bs_bus (subscribe p s)) = mb_subs (bs_bus s) @ [(mb_nextSub (bs_bus s), p)]"
    and "bs_running (subscribe p s) = bs_running s"
proof -
  let ?b = "bs_bus s"
  have "mb_nextSub ?b \<notin> fst ` set (mb_subs ?b)" using assms by (auto simp: bus_ok_def)
  then show subs: "mb_subs (bs_bus (subscribe p s)) = mb_subs ?b @ [(mb_nextSub ?b, p)]"
    by (simp add: subscribe_def Let_def js_set_new)
  show "bs_running (subscribe p s) = bs_running s" by (simp add: subscribe_def Let_def)
  show "bus_ok (subscribe p s)" unfolding bus_ok_def subs
    using assms by (auto simp: bus_ok_def subscribe_def Let_def sorted_wrt_append less_Suc_eq)
qed

lemma sorted_delete: "sorted_wrt (<) (map fst m) \<Longrightarrow> sorted_wrt (<) (map fst (js_delete k m))"
proof (induction m)
  case (Cons e m)
  moreover have "set (map fst (js_delete k m)) \<subseteq> set (map fst m)" by auto
  ultimately show ?case by (cases e) auto
qed simp

lemma matchSubscribers_frame:
  "bs_bus (fst (matchSubscribers m k s)) = bs_bus s"
  "bus_ok s \<Longrightarrow> bus_ok (fst (matchSubscribers m k s))"
proof -
  show bus: "bs_bus (fst (matchSubscribers m k s)) = bs_bus s" by (simp add: matchSubscribers_def split: option.split)
  assume ok: "bus_ok s"
  then have sorted: "sorted_wrt (<) (js_keys (mb_subs (bs_bus s)))" by (simp add: bus_ok_def)
  show "bus_ok (fst (matchSubscribers m k s))"
  proof (cases "next_match m k (bs_bus s)")
    case (Some i)
    then have "i < mb_nextSub (bs_bus s)" using next_match_Some(2) [OF Some sorted] ok by (force simp: bus_ok_def)
    with ok Some show ?thesis by (simp add: matchSubscribers_def bus_ok_def)
  qed (use ok in \<open>simp add: matchSubscribers_def\<close>)
qed

lemma bus_ok_cong:
  "mb_subs (bs_bus t) = mb_subs (bs_bus s) \<Longrightarrow> mb_nextSub (bs_bus t) = mb_nextSub (bs_bus s) \<Longrightarrow>
     set (bs_running t) \<subseteq> set (bs_running s) \<Longrightarrow> bus_ok s \<Longrightarrow> bus_ok t"
  by (auto simp: bus_ok_def)

lemma bus_step_ok: "bus_ok s \<Longrightarrow> bus_ok (fst (bus_step s op))"
proof -
  assume ok: "bus_ok s"
  show ?thesis
  proof (cases op)
    case (OpSend m)
    show ?thesis unfolding OpSend bus_step.simps send_message_def Let_def split_beta fst_conv
      by (rule matchSubscribers_frame(2)) (rule bus_ok_cong [OF _ _ _ ok], simp_all)
  next
    case (OpUnsubscribe i)
    then show ?thesis using ok
      by (auto simp: bus_ok_def unsubscribe_def Let_def sorted_delete dest: js_delete_in)
  next
    case OpReturn
    then show ?thesis using ok
      by (auto simp: handler_returns_def split: list.split intro!: matchSubscribers_frame(2) intro: bus_ok_cong [of _ s])
  next
    case OpThrow
    then show ?thesis using ok
      by (auto simp: handler_throws_def split_beta split: list.split intro!: matchSubscribers_frame(2) intro: bus_ok_cong [of _ s])
  next
    case (OpTimer now)
    then show ?thesis using ok by (auto simp: expire_messages_def Let_def intro: bus_ok_cong [of _ s])
  next
    case OpDispose
    then show ?thesis using ok by (auto simp: bus_ok_def dispose_bus_def)
  qed (use ok in \<open>auto simp: subscribe_ok change_bus_def intro: bus_ok_cong [of _ s]\<close>)
qed

lemma new_bus_ok: "bus_ok (new_bus n)"
  by (simp add: bus_ok_def new_bus_def)

lemma bus_trace_ok: "bus_ok s \<Longrightarrow> bus_ok (fst (run_trace bus_step s ops))"
  by (induction ops arbitrary: s) (simp_all add: Let_def bus_step_ok)


section \<open>What one send delivers\<close>

text \<open>
  The \<open>send\<close> of a message at a depth is under way: its frame lies on the frames it was called from, its newest
  subscription is the last one called, and up to there exactly the matching ones have been.
\<close>

definition dispatching :: "bus_message \<Rightarrow> (bus_message \<times> nat) list \<Rightarrow> nat list \<Rightarrow> bus_state \<Rightarrow> bool" where
  "dispatching m base ks s \<longleftrightarrow> bus_ok s \<and> sorted_wrt (<) ks \<and> ks \<noteq> []
     \<and> (\<exists>upper. bs_running s = upper @ (m, last ks) # base)
     \<and> (\<forall>i p. (i, p) \<in> set (mb_subs (bs_bus s)) \<longrightarrow> (i \<in> set ks \<longleftrightarrow> i \<le> last ks \<and> matches m p))"

definition delivered_all :: "bus_message \<Rightarrow> nat list \<Rightarrow> bus_state \<Rightarrow> bool" where
  "delivered_all m ks s \<longleftrightarrow> sorted_wrt (<) ks
     \<and> (\<forall>i p. (i, p) \<in> set (mb_subs (bs_bus s)) \<longrightarrow> (i \<in> set ks \<longleftrightarrow> matches m p))"

text \<open>Going on with the loop, from the subscription after the last one called.\<close>

lemma loop_goes_on:
  assumes step: "matchSubscribers m k s = (s', fx)" and ok: "bus_ok s" and sorted: "sorted_wrt (<) ks"
    and before: "\<forall>i \<in> set ks. i < k" and d: "d = length (bs_running s)"
    and exact: "\<forall>i p. (i, p) \<in> set (mb_subs (bs_bus s)) \<longrightarrow> (i \<in> set ks \<longleftrightarrow> i < k \<and> matches m p)"
  shows "\<not> send_ended_at d fx \<Longrightarrow> dispatching m (bs_running s) (ks @ delivered_at d fx) s'"
    and "SendReturned d m' \<in> set fx \<Longrightarrow> delivered_all m (ks @ delivered_at d fx) s'"
proof -
  have keys: "sorted_wrt (<) (js_keys (mb_subs (bs_bus s)))" using ok by (simp add: bus_ok_def)
  show "dispatching m (bs_running s) (ks @ delivered_at d fx) s'" if running: "\<not> send_ended_at d fx"
  proof (cases "next_match m k (bs_bus s)")
    case None
    with step running d show ?thesis by (auto simp: matchSubscribers_def)
  next
    case (Some i)
    with step d have s': "s' = s\<lparr>bs_running := (m, i) # bs_running s\<rparr>" and del: "delivered_at d fx = [i]"
      by (auto simp: matchSubscribers_def)
    note found = next_match_Some [OF Some keys]
    have "i' \<in> set (ks @ [i]) \<longleftrightarrow> i' \<le> i \<and> matches m p" if sub: "(i', p) \<in> set (mb_subs (bs_bus s))" for i' p
    proof -
      obtain q where q: "(i, q) \<in> set (mb_subs (bs_bus s))" "matches m q" using found(2) by blast
      consider "i' < k" | "i' = i" | "k \<le> i'" "i' \<noteq> i" using found(1) by force
      then show ?thesis
      proof cases
        case 1
        with exact sub found(1) show ?thesis by auto
      next
        case 2
        with q sub sorted_unique [OF keys] have "p = q" by blast
        with 2 q show ?thesis by simp
      next
        case 3
        with before have "i' \<notin> set ks" by auto
        moreover have "i < i'" if "matches m p" using found(3) [OF sub 3(1) that] 3(2) by simp
        ultimately show ?thesis using 3 by auto
      qed
    qed
    moreover have "sorted_wrt (<) (ks @ [i])" using sorted before found(1) by (auto simp: sorted_wrt_append)
    moreover have "bus_ok s'" using matchSubscribers_frame(2) [OF ok, of m k] step by simp
    ultimately show ?thesis unfolding dispatching_def del s' by simp
  qed
  show "delivered_all m (ks @ delivered_at d fx) s'" if "SendReturned d m' \<in> set fx"
  proof (cases "next_match m k (bs_bus s)")
    case None
    with step have s': "s' = s" and "delivered_at d fx = []" by (auto simp: matchSubscribers_def)
    moreover have "i \<in> set ks \<longleftrightarrow> matches m p" if "(i, p) \<in> set (mb_subs (bs_bus s))" for i p
      using exact that next_match_None [OF None that] by (cases "i < k") auto
    ultimately show ?thesis using sorted by (simp add: delivered_all_def)
  next
    case (Some i)
    with step that show ?thesis by (auto simp: matchSubscribers_def)
  qed
qed

text \<open>Deeper loops do not touch it.\<close>

lemma deeper_loop:
  assumes "matchSubscribers m2 k s = (s', fx)" and "dispatching m base ks s" and "d = length base"
  shows "delivered_at d fx = [] \<and> \<not> send_ended_at d fx \<and> SendReturned d m' \<notin> set fx \<and> dispatching m base ks s'"
proof -
  have ok: "bus_ok s'" using assms(1,2) matchSubscribers_frame(2) [of s m2 k] by (simp add: dispatching_def)
  obtain upper where run: "bs_running s = upper @ (m, last ks) # base" using assms(2) by (auto simp: dispatching_def)
  have bus: "bs_bus s' = bs_bus s" using assms(1) matchSubscribers_frame(1) [of m2 k s] by simp
  have deep: "length (bs_running s) \<noteq> d" using run assms(3) by simp
  have "\<exists>upper. bs_running s' = upper @ (m, last ks) # base"
    using assms(1) run unfolding matchSubscribers_def by (auto split: option.splits intro: exI [of _ "x # upper" for x])
  then have "dispatching m base ks s'" using assms(2) ok by (simp add: dispatching_def bus)
  then show ?thesis using assms(1) deep by (auto simp: matchSubscribers_def split: option.splits)
qed

lemma dispatching_cong:
  "dispatching m base ks s \<Longrightarrow> bus_ok s' \<Longrightarrow> bs_running s' = bs_running s \<Longrightarrow>
     (\<And>i p. (i, p) \<in> set (mb_subs (bs_bus s')) \<Longrightarrow> (i, p) \<in> set (mb_subs (bs_bus s)) \<or> mb_nextSub (bs_bus s) \<le> i) \<Longrightarrow>
     dispatching m base ks s'"
proof -
  assume a: "dispatching m base ks s" "bus_ok s'" "bs_running s' = bs_running s"
    and subs: "\<And>i p. (i, p) \<in> set (mb_subs (bs_bus s')) \<Longrightarrow> (i, p) \<in> set (mb_subs (bs_bus s)) \<or> mb_nextSub (bs_bus s) \<le> i"
  from a(1) have "last ks < mb_nextSub (bs_bus s)" by (auto simp: dispatching_def bus_ok_def)
  moreover have "i \<le> last ks" if "i \<in> set ks" for i
    using a(1) that by (cases ks rule: rev_cases) (auto simp: dispatching_def sorted_wrt_append)
  ultimately have "i \<in> set ks \<longleftrightarrow> i \<le> last ks \<and> matches m p" if "(i, p) \<in> set (mb_subs (bs_bus s'))" for i p
    using subs [OF that] a(1) by (force simp: dispatching_def)
  with a show ?thesis by (simp add: dispatching_def)
qed


text \<open>One operation while the \<open>send\<close> is under way.\<close>

lemma dispatching_step:
  assumes disp: "dispatching m base ks s" and step: "bus_step s op = (s', fx)" and d: "d = length base"
  shows "(\<not> send_ended_at d fx \<longrightarrow> dispatching m base (ks @ delivered_at d fx) s')
    \<and> (SendReturned d m' \<in> set fx \<longrightarrow> delivered_all m (ks @ delivered_at d fx) s')"
proof -
  have ok: "bus_ok s" and sorted: "sorted_wrt (<) ks" and ne: "ks \<noteq> []"
    and exact: "\<forall>i p. (i, p) \<in> set (mb_subs (bs_bus s)) \<longrightarrow> (i \<in> set ks \<longleftrightarrow> i \<le> last ks \<and> matches m p)"
    using disp by (simp_all add: dispatching_def)
  obtain upper where run: "bs_running s = upper @ (m, last ks) # base" using disp by (auto simp: dispatching_def)
  have ok': "bus_ok s'" using bus_step_ok [OF ok, of op] step by simp
  have upto: "\<forall>i \<in> set ks. i < Suc (last ks)"
    using sorted ne by (cases ks rule: rev_cases) (auto simp: sorted_wrt_append less_Suc_eq)
  have onward: "(\<not> send_ended_at d fx2 \<longrightarrow> dispatching m base (ks @ delivered_at d fx2) s2)
      \<and> (SendReturned d m' \<in> set fx2 \<longrightarrow> delivered_all m (ks @ delivered_at d fx2) s2)"
    if loop: "matchSubscribers m2 (Suc i) (s\<lparr>bs_running := rest\<rparr>) = (s2, fx2)" and top: "bs_running s = (m2, i) # rest"
    for m2 i rest s2 fx2
  proof -
    let ?s = "s\<lparr>bs_running := rest\<rparr>"
    have oks: "bus_ok ?s" by (rule bus_ok_cong [OF _ _ _ ok]) (use top in auto)
    show ?thesis
    proof (cases upper)
      case Nil
      with run top have eqs: "m2 = m" "i = last ks" "rest = base" by simp_all
      have "\<forall>j p. (j, p) \<in> set (mb_subs (bs_bus ?s)) \<longrightarrow> (j \<in> set ks \<longleftrightarrow> j < Suc (last ks) \<and> matches m p)"
        using exact by (simp add: less_Suc_eq_le)
      note on = loop_goes_on [OF loop [unfolded eqs] oks [unfolded eqs] sorted upto _ this [unfolded eqs], where d = d]
      from on(1) on(2) [where m' = m'] d show ?thesis by (simp add: eqs)
    next
      case (Cons u us)
      with run top have "rest = us @ (m, last ks) # base" by simp
      with disp oks have "dispatching m base ks ?s" by (auto simp: dispatching_def)
      from deeper_loop [OF loop this d] show ?thesis by simp
    qed
  qed
  have still: ?thesis if "bs_running s' = bs_running s" "delivered_at d fx = []" "\<not> send_ended_at d fx" "SendReturned d m' \<notin> set fx"
    "\<And>i p. (i, p) \<in> set (mb_subs (bs_bus s')) \<Longrightarrow> (i, p) \<in> set (mb_subs (bs_bus s)) \<or> mb_nextSub (bs_bus s) \<le> i"
    using dispatching_cong [OF disp ok' that(1,5)] that(2-4) by simp
  show ?thesis
  proof (cases op)
    case (OpSend m2)
    let ?s = "s\<lparr>bs_bus := (bs_bus s)\<lparr>mb_store := storeMessage (mb_maxStoreSize (bs_bus s)) m2 (mb_store (bs_bus s))\<rparr>\<rparr>"
    obtain fx2 where loop: "matchSubscribers m2 0 ?s = (s', fx2)" and fx: "fx = emit MessageSent (bs_bus s) @ fx2"
      using step OpSend by (cases "matchSubscribers m2 0 ?s") (simp add: send_message_def Let_def)
    have "dispatching m base ks ?s"
      by (rule dispatching_cong [OF disp bus_ok_cong [OF _ _ _ ok]]) simp_all
    from deeper_loop [OF loop this d] show ?thesis by (simp add: fx)
  next
    case (OpSubscribe p)
    then have "s' = subscribe p s" "fx = []" using step by auto
    then show ?thesis using subscribe_ok [OF ok, of p] by (intro still) auto
  next
    case (OpUnsubscribe i)
    then show ?thesis using step by (intro still) (auto simp: unsubscribe_def Let_def AList.delete_eq)
  next
    case OpReturn
    from run obtain m2 i rest where top: "bs_running s = (m2, i) # rest" by (cases upper) auto
    have "matchSubscribers m2 (Suc i) (s\<lparr>bs_running := rest\<rparr>) = (s', fx)" using step OpReturn top by (simp add: handler_returns_def)
    from onward [OF this top] show ?thesis .
  next
    case OpThrow
    from run obtain m2 i rest where top: "bs_running s = (m2, i) # rest" by (cases upper) auto
    show ?thesis
    proof (cases "listens ErrorEvent (bs_bus s)")
      case True
      obtain fx2 where loop: "matchSubscribers m2 (Suc i) (s\<lparr>bs_running := rest\<rparr>) = (s', fx2)" and fx: "fx = emit ErrorEvent (bs_bus s) @ fx2"
        using step OpThrow top True
        by (cases "matchSubscribers m2 (Suc i) (s\<lparr>bs_running := rest\<rparr>)") (simp add: handler_throws_def)
      from onward [OF loop top] show ?thesis by (simp add: fx)
    next
      case False
      then have s': "s' = s\<lparr>bs_running := rest\<rparr>" "fx = [SendThrew (length rest) m2]" using step OpThrow top by (auto simp: handler_throws_def)
      show ?thesis
      proof (cases upper)
        case Nil
        with run top d s' show ?thesis by simp
      next
        case (Cons u us)
        with run top have "rest = us @ (m, last ks) # base" by simp
        with disp ok' have "dispatching m base ks s'" by (auto simp: dispatching_def s')
        then show ?thesis using \<open>rest = _\<close> d by (simp add: s')
      qed
    qed
  next
    case (OpTimer now)
    then show ?thesis using step run disp by (cases upper) auto
  next
    case (OpRejected i)
    then show ?thesis using step run disp by (cases upper) auto
  next
    case OpDispose
    then show ?thesis using step by (intro still) (auto simp: dispose_bus_def)
  qed (use step in \<open>intro still; auto simp: change_bus_def\<close>)+
qed

lemma dispatching_trace:
  "dispatching m base ks s \<Longrightarrow> d = length base \<Longrightarrow> run_trace bus_step s ops = (s', fx) \<Longrightarrow> \<not> send_ended_at d fx \<Longrightarrow>
     dispatching m base (ks @ delivered_at d fx) s'"
proof (induction ops arbitrary: s ks fx)
  case (Cons op ops)
  obtain s1 fx1 where step: "bus_step s op = (s1, fx1)" by (cases "bus_step s op")
  obtain s2 fx2 where rest: "run_trace bus_step s1 ops = (s2, fx2)" by (cases "run_trace bus_step s1 ops")
  have fx: "fx = fx1 @ fx2" "s' = s2" using Cons.prems(3) step rest by (auto simp: Let_def)
  have "dispatching m base (ks @ delivered_at d fx1) s1"
    using dispatching_step [OF Cons.prems(1) step Cons.prems(2)] Cons.prems(4) fx by simp
  from Cons.IH [OF this Cons.prems(2) rest [folded fx(2)]] Cons.prems(4) show ?case by (simp add: fx)
qed simp

text \<open>
  C20: Whatever the handlers do meanwhile (send, subscribe, unsubscribe, throw where somebody listens, clear or dispose), a
  send that returns has called subscriptions in the order they were made, none twice, and of the subscriptions there are
  when it returns, exactly those the message matches, the ones its own handlers added included.
\<close>

theorem every_subscriber_gets_it_once:
  assumes "s = fst (run_trace bus_step (new_bus n) before)" and "d = length (bs_running s)"
    and "run_trace bus_step s (butlast (OpSend m # ops)) = (s1, fx1)" and "\<not> send_ended_at d fx1"
    and "bus_step s1 (last (OpSend m # ops)) = (s2, fx2)" and "SendReturned d m \<in> set fx2"
  shows "sorted_wrt (<) (delivered_at d (fx1 @ fx2))
    \<and> (\<forall>i p. (i, p) \<in> set (mb_subs (bs_bus s2)) \<longrightarrow> (i \<in> set (delivered_at d (fx1 @ fx2)) \<longleftrightarrow> matches m p))"
proof -
  have ok: "bus_ok s" unfolding assms(1) by (rule bus_trace_ok [OF new_bus_ok])
  let ?s = "s\<lparr>bs_bus := (bs_bus s)\<lparr>mb_store := storeMessage (mb_maxStoreSize (bs_bus s)) m (mb_store (bs_bus s))\<rparr>\<rparr>"
  have oks: "bus_ok ?s" by (rule bus_ok_cong [OF _ _ _ ok]) simp_all
  have first: "(\<not> send_ended_at d gx \<longrightarrow> dispatching m (bs_running s) (delivered_at d gx) t)
      \<and> (SendReturned d m \<in> set gx \<longrightarrow> delivered_all m (delivered_at d gx) t)"
    if sent: "bus_step s (OpSend m) = (t, gx)" for t gx
  proof -
    obtain hx where loop: "matchSubscribers m 0 ?s = (t, hx)" and gx: "gx = emit MessageSent (bs_bus s) @ hx"
      using sent by (cases "matchSubscribers m 0 ?s") (simp add: send_message_def Let_def)
    note on = loop_goes_on [OF loop oks, of "[]", where d = d]
    from on(1) on(2) [where m' = m] assms(2) show ?thesis by (simp add: gx)
  qed
  have "delivered_all m (delivered_at d (fx1 @ fx2)) s2"
  proof (cases ops)
    case Nil
    with assms(3,5,6) first show ?thesis by simp
  next
    case (Cons op ops')
    obtain t gx where t: "bus_step s (OpSend m) = (t, gx)" by (cases "bus_step s (OpSend m)")
    obtain hx where rest: "run_trace bus_step t (butlast ops) = (s1, hx)" and fx1: "fx1 = gx @ hx"
      using assms(3) t Cons by (cases "run_trace bus_step t (butlast ops)") (simp add: Let_def)
    have "dispatching m (bs_running s) (delivered_at d gx) t" using first [OF t] assms(4) fx1 by simp
    from dispatching_trace [OF this assms(2) rest] assms(4) fx1
    have "dispatching m (bs_running s) (delivered_at d fx1) s1" by simp
    from dispatching_step [OF this _ assms(2)] assms(5,6) Cons show ?thesis by simp
  qed
  then show ?thesis by (simp add: delivered_all_def)
qed

definition hello :: bus_message where
  "hello = make_message ''1'' 0 ''user'' ''*'' ''chat'' [] None None None"

definition two_subscribers :: bus_state where
  "two_subscribers = fst (run_trace bus_step (new_bus 5) [OpSubscribe any_pattern, OpSubscribe any_pattern])"

definition hello_run :: "bus_state \<times> bus_effect list" where
  "hello_run = run_trace bus_step two_subscribers [OpSend hello, OpUnsubscribe 0, OpSubscribe any_pattern, OpReturn, OpReturn]"

theorem every_subscriber_gets_it_once_witness:
  "delivered_at 0 (snd hello_run @ snd (bus_step (fst hello_run) OpReturn)) = [0, 1, 2]
    \<and> sorted_wrt (<) (delivered_at 0 (snd hello_run @ snd (bus_step (fst hello_run) OpReturn)))"
proof -
  let ?ops = "[OpUnsubscribe 0, OpSubscribe any_pattern, OpReturn, OpReturn, OpReturn]"
  have run: "run_trace bus_step two_subscribers (butlast (OpSend hello # ?ops)) = (fst hello_run, snd hello_run)"
    unfolding hello_run_def prod.collapse by (simp only: butlast.simps list.simps if_False if_True simp_thms)
  have stop: "bus_step (fst hello_run) (last (OpSend hello # ?ops))
      = (fst (bus_step (fst hello_run) OpReturn), snd (bus_step (fst hello_run) OpReturn))"
    unfolding prod.collapse by (simp only: last.simps list.simps if_False if_True simp_thms)
  have d: "0 = length (bs_running two_subscribers)" by code_simp
  have open1: "\<not> send_ended_at 0 (snd hello_run)" by code_simp
  have ret: "list_ex (\<lambda>f. f = SendReturned 0 hello) (snd (bus_step (fst hello_run) OpReturn))" by code_simp
  have now: "delivered_at 0 (snd hello_run @ snd (bus_step (fst hello_run) OpReturn)) = [0, 1, 2]" by code_simp
  from ret have ret: "SendReturned 0 hello \<in> set (snd (bus_step (fst hello_run) OpReturn))" unfolding list_ex_iff by blast
  from every_subscriber_gets_it_once [OF two_subscribers_def d run open1 stop ret] now show ?thesis by blast
qed

text \<open>
  A handler that throws where nobody listens for errors ends the \<open>send\<close>: the second subscription never gets the
  message.
\<close>

lemma a_throw_hides_the_message:
  "snd (run_trace bus_step (new_bus 5) [OpSubscribe any_pattern, OpSubscribe any_pattern, OpSend hello, OpThrow])
     = [Deliver 0 0 hello, SendThrew 0 hello]"
  by code_simp

section \<open>What is kept of messages\<close>

definition carries_no_attachments :: "bus_message \<Rightarrow> bool" where
  "carries_no_attachments m \<longleftrightarrow>
     js_get (mg_payload m) ''userAttachments'' = None
     \<and> (case member_of (mg_payload m) ''taskAttempt'' of
          JObject attempt \<Rightarrow>
            (case member_of attempt ''contract'' of JObject contract \<Rightarrow> js_get contract ''coordinatorBrief'' = None | _ \<Rightarrow> True)
        | _ \<Rightarrow> True)"

lemma without_member_get: "js_get (without_member k ms) k' = (if k' = k then None else js_get ms k')"
  by (induction ms) (auto simp: without_member_def)

lemma without_member_idem [simp]: "js_get ms k = None \<Longrightarrow> without_member k ms = ms"
  by (induction ms) (auto simp: without_member_def split: if_splits)

lemma stripCoordinatorBrief_undefined [simp]: "stripCoordinatorBrief v = JUndefined \<longleftrightarrow> v = JUndefined"
  by (simp add: stripCoordinatorBrief_def split: js_value.split option.split)

lemma stripCoordinatorBrief_contract:
  assumes "stripCoordinatorBrief v = JObject attempt" and "member_of attempt ''contract'' = JObject contract"
  shows "js_get contract ''coordinatorBrief'' = None"
  using assms
  by (auto simp: stripCoordinatorBrief_def member_of_def without_member_get split: js_value.splits option.splits)

lemma stripCoordinatorBrief_idem [simp]: "stripCoordinatorBrief (stripCoordinatorBrief v) = stripCoordinatorBrief v"
proof (cases v)
  case (JObject attempt)
  show ?thesis
  proof (cases "object_members (member_of attempt ''contract'')")
    case (Some contract)
    then have "stripCoordinatorBrief v = JObject (js_set ''contract'' (JObject (without_member ''coordinatorBrief'' contract)) attempt)"
      by (simp add: stripCoordinatorBrief_def JObject)
    then show ?thesis
      by (simp add: stripCoordinatorBrief_def member_of_def without_member_get js_set_same)
  qed (simp add: stripCoordinatorBrief_def JObject)
qed (simp_all add: stripCoordinatorBrief_def)

lemma stripped_payload:
  "mg_payload (stripUserAttachmentsForPersistence m)
     = without_member ''taskAttempt'' (without_member ''userAttachments'' (mg_payload m))
       @ (let attempt = stripCoordinatorBrief (member_of (mg_payload m) ''taskAttempt'')
          in if attempt = JUndefined then [] else [(''taskAttempt'', attempt)])"
  by (simp add: stripUserAttachmentsForPersistence_def Let_def)

lemma strip_undefined [simp]: "stripCoordinatorBrief JUndefined = JUndefined"
  by (simp add: stripCoordinatorBrief_def)

lemma stripped_attempt:
  "member_of (mg_payload (stripUserAttachmentsForPersistence m)) ''taskAttempt''
     = stripCoordinatorBrief (member_of (mg_payload m) ''taskAttempt'')"
  using stripCoordinatorBrief_undefined [of "member_of (mg_payload m) ''taskAttempt''"]
  by (simp add: stripped_payload member_of_def [of "_ @ _"] map_add_def without_member_get Let_def)

lemma stripped_attachments: "js_get (mg_payload (stripUserAttachmentsForPersistence m)) ''userAttachments'' = None"
  by (simp add: stripped_payload map_add_def without_member_get Let_def)

lemma stripped_carries_none: "carries_no_attachments (stripUserAttachmentsForPersistence m)"
  using stripCoordinatorBrief_contract [of "member_of (mg_payload m) ''taskAttempt''"]
  by (simp add: carries_no_attachments_def stripped_attempt stripped_attachments split: js_value.split)

lemma without_member_append [simp]: "without_member k (xs @ ys) = without_member k xs @ without_member k ys"
  by (simp add: without_member_def)

lemma without_member_twice [simp]: "without_member k (without_member k xs) = without_member k xs"
  by (simp add: without_member_def)

lemma without_member_one [simp]: "without_member k [(k', v)] = (if k' = k then [] else [(k', v)])"
  by (simp add: without_member_def)

lemma strip_idem [simp]:
  "stripUserAttachmentsForPersistence (stripUserAttachmentsForPersistence m) = stripUserAttachmentsForPersistence m"
proof -
  let ?s = "stripUserAttachmentsForPersistence m"
  have att: "member_of (mg_payload ?s) ''taskAttempt'' = stripCoordinatorBrief (member_of (mg_payload m) ''taskAttempt'')"
    by (rule stripped_attempt)
  have rest: "without_member ''taskAttempt'' (without_member ''userAttachments'' (mg_payload ?s))
      = without_member ''taskAttempt'' (without_member ''userAttachments'' (mg_payload m))"
    by (simp add: stripped_payload Let_def without_member_get)
  have "mg_payload (stripUserAttachmentsForPersistence ?s) = mg_payload ?s"
    using stripped_payload [of ?s] unfolding att rest stripCoordinatorBrief_idem unfolding stripped_payload [of m] .
  then show ?thesis
    by (cases m) (simp add: stripUserAttachmentsForPersistence_def Let_def)
qed

lemma js_slice_last: "0 < n \<Longrightarrow> js_slice_from (- n) xs = drop (length xs - nat n) xs"
  by (simp add: js_slice_from_def)

text \<open>
  What may differ between a stored message and its exported copy: the member \<open>userAttachments\<close> is
  gone, and of a task attempt with a contract the contract's \<open>coordinatorBrief\<close>. Every other field
  of the message, and every other member of the payload, of the attempt and of the contract, is the same
  and in its order; an attempt that is no object, or has no contract, is kept as it is.
\<close>

definition brief_removed :: "js_value \<Rightarrow> js_value \<Rightarrow> bool" where
  "brief_removed old new = (case old of
       JObject a \<Rightarrow>
         (case object_members (member_of a ''contract'') of
            None \<Rightarrow> new = old
          | Some c \<Rightarrow> (case new of
                JObject b \<Rightarrow> filter (\<lambda>m. fst m \<noteq> ''contract'') b = filter (\<lambda>m. fst m \<noteq> ''contract'') a
                  \<and> member_of b ''contract'' = JObject (filter (\<lambda>m. fst m \<noteq> ''coordinatorBrief'') c)
              | _ \<Rightarrow> False))
     | _ \<Rightarrow> new = old)"

definition kept_but_private :: "bus_message \<Rightarrow> bus_message \<Rightarrow> bool" where
  "kept_but_private old new \<longleftrightarrow> new\<lparr>mg_payload := mg_payload old\<rparr> = old
     \<and> filter (\<lambda>m. fst m \<noteq> ''taskAttempt'') (mg_payload new)
         = filter (\<lambda>m. fst m \<noteq> ''taskAttempt'' \<and> fst m \<noteq> ''userAttachments'') (mg_payload old)
     \<and> brief_removed (member_of (mg_payload old) ''taskAttempt'') (member_of (mg_payload new) ''taskAttempt'')"

lemma without_member_filter: "without_member k ms = filter (\<lambda>m. fst m \<noteq> k) ms"
  unfolding without_member_def by (rule filter_cong) auto

lemma js_set_others: "filter (\<lambda>m. fst m \<noteq> k) (js_set k v ms) = filter (\<lambda>m. fst m \<noteq> k) ms"
  by (induction ms) auto

lemma strip_brief_removed: "brief_removed v (stripCoordinatorBrief v)"
proof (cases v)
  case (JObject a)
  then show ?thesis
    by (simp add: brief_removed_def stripCoordinatorBrief_def js_set_others without_member_filter member_of_def [of "js_set _ _ _"]
        split: option.split)
qed (simp_all add: brief_removed_def stripCoordinatorBrief_def)

lemma strip_keeps_the_rest: "kept_but_private m (stripUserAttachmentsForPersistence m)"
proof -
  have "filter (\<lambda>p. fst p \<noteq> ''taskAttempt'') (mg_payload (stripUserAttachmentsForPersistence m))
      = filter (\<lambda>p. fst p \<noteq> ''taskAttempt'' \<and> fst p \<noteq> ''userAttachments'') (mg_payload m)"
    by (simp add: stripped_payload Let_def without_member_filter conj_commute)
  moreover have "(stripUserAttachmentsForPersistence m)\<lparr>mg_payload := mg_payload m\<rparr> = m"
    by (simp add: stripUserAttachmentsForPersistence_def Let_def)
  ultimately show ?thesis by (simp add: kept_but_private_def stripped_attempt strip_brief_removed)
qed

text \<open>
  C21: the history a session saves comes back as it was. For a positive limit that is at most the size of the
  store, the exported history is the last messages of the store up to the limit, in order, each message kept
  whole but for the user's attachments and the coordinator's brief, of which it holds none; and it is
  what a bus holds after importing it.
\<close>

theorem exported_history_survives_a_restart:
  assumes "0 < limit" and "limit \<le> int maxStoreSize"
  shows "importMessages maxStoreSize (exportMessages limit store) [] = exportMessages limit store
    \<and> list_all2 kept_but_private (drop (length store - nat limit) store) (exportMessages limit store)
    \<and> list_all carries_no_attachments (exportMessages limit store)
    \<and> map mg_id (exportMessages limit store) = drop (length store - nat limit) (map mg_id store)"
proof -
  have cut: "exportMessages limit store = map stripUserAttachmentsForPersistence (drop (length store - nat limit) store)"
    using assms(1) by (simp add: exportMessages_def js_slice_last)
  have fits: "js_slice_from (- int maxStoreSize) (exportMessages limit store) = exportMessages limit store"
    using assms by (simp add: cut js_slice_last)
  have "map stripUserAttachmentsForPersistence (exportMessages limit store) = exportMessages limit store"
    by (simp add: exportMessages_def)
  with fits have "importMessages maxStoreSize (exportMessages limit store) [] = exportMessages limit store"
    by (simp add: importMessages_def)
  moreover have "list_all2 kept_but_private (drop (length store - nat limit) store) (exportMessages limit store)"
    by (simp add: cut list_all2_map2 list_all2_same strip_keeps_the_rest)
  moreover have "list_all carries_no_attachments (exportMessages limit store)"
    by (simp add: exportMessages_def list_all_iff stripped_carries_none)
  moreover have "map mg_id (exportMessages limit store) = drop (length store - nat limit) (map mg_id store)"
    by (simp add: cut drop_map comp_def stripUserAttachmentsForPersistence_def Let_def)
  ultimately show ?thesis by (intro conjI)
qed

theorem exported_history_survives_a_restart_witness:
  "let sent = hello\<lparr>mg_payload := [(''userAttachments'', JNull), (''taskAttempt'', JObject [(''contract'',
         JObject [(''coordinatorBrief'', JNull), (''goal'', JNull)]), (''id'', JNull)])]\<rparr>;
       saved = exportMessages 1 [hello, sent]
   in importMessages 3 saved [] = saved \<and> list_all2 kept_but_private [sent] saved
      \<and> saved = [hello\<lparr>mg_payload := [(''taskAttempt'', JObject [(''contract'', JObject [(''goal'', JNull)]), (''id'', JNull)])]\<rparr>]"
proof -
  let ?sent = "hello\<lparr>mg_payload := [(''userAttachments'', JNull), (''taskAttempt'', JObject [(''contract'',
         JObject [(''coordinatorBrief'', JNull), (''goal'', JNull)]), (''id'', JNull)])]\<rparr>"
  have "exportMessages 1 [hello, ?sent]
      = [hello\<lparr>mg_payload := [(''taskAttempt'', JObject [(''contract'', JObject [(''goal'', JNull)]), (''id'', JNull)])]\<rparr>]"
    by code_simp
  then show ?thesis using exported_history_survives_a_restart [of 1 3 "[hello, ?sent]"] by (simp add: Let_def)
qed

end
