(* ===== verification/FileSystem.thy ===== *)
theory FileSystem
  imports NodePath
begin

text \<open>
  The file system of a POSIX host as the code asks it: names lead to files, folders, links and other things, and a
  path is walked segment by segment, through links. A snapshot maps the place of a thing, its segments from the
  top without links, to what is there. \<open>realpath\<close>, \<open>lstat\<close>, \<open>stat\<close> and \<open>open\<close> are the calls of
  \<open>node:fs\<close> on one snapshot.
\<close>

section \<open>Snapshots\<close>

datatype host_node =
    FileNode (fn_id: nat) (fn_size: nat)
  | DirNode (fn_id: nat) (dir_open: bool)
  | LinkNode string
  | OtherNode (fn_id: nat)

type_synonym host_fs = "string list \<Rightarrow> host_node option"

datatype fs_error = ENOENT | ENOTDIR | ELOOP | EACCES

definition is_dir :: "host_node option \<Rightarrow> bool" where
  "is_dir n \<longleftrightarrow> (case n of Some (DirNode _ _) \<Rightarrow> True | _ \<Rightarrow> False)"

definition is_link :: "host_node option \<Rightarrow> bool" where
  "is_link n \<longleftrightarrow> (case n of Some (LinkNode _) \<Rightarrow> True | _ \<Rightarrow> False)"

definition fs_ok :: "host_fs \<Rightarrow> bool" where
  "fs_ok fs \<longleftrightarrow> (\<exists>i. fs [] = Some (DirNode i True)) \<and> (\<forall>p x. fs (p @ [x]) \<noteq> None \<longrightarrow> is_dir (fs p) \<and> is_seg x)"

section \<open>Walking a path\<close>

text \<open>What a step into a place needs: it is a folder one may search.\<close>

definition not_searchable :: "host_node option \<Rightarrow> fs_error option" where
  "not_searchable n =
     (case n of
        None \<Rightarrow> Some ENOENT
      | Some (DirNode _ ok) \<Rightarrow> if ok then None else Some EACCES
      | Some _ \<Rightarrow> Some ENOTDIR)"

text \<open>The walk says where it ends and how many more links it may follow.\<close>

function walk_path :: "host_fs \<Rightarrow> nat \<Rightarrow> string list \<Rightarrow> string list \<Rightarrow> fs_error + nat \<times> string list" where
  "walk_path fs n cur [] = Inr (n, cur)"
| "walk_path fs n cur (seg # segs) =
     (case not_searchable (fs cur) of
        Some e \<Rightarrow> Inl e
      | None \<Rightarrow>
          if seg = [] \<or> seg = ''.'' then walk_path fs n cur segs
          else if seg = ''..'' then walk_path fs n (butlast cur) segs
          else (case fs (cur @ [seg]) of
                  None \<Rightarrow> Inl ENOENT
                | Some (LinkNode target') \<Rightarrow>
                    if n = 0 then Inl ELOOP
                    else walk_path fs (n - 1) (if path_isAbsolute target' then [] else cur) (split_on CHR ''/'' target' @ segs)
                | Some _ \<Rightarrow> walk_path fs n (cur @ [seg]) segs))"
  by pat_completeness auto
termination
  by (relation "inv_image (less_than <*lex*> less_than) (\<lambda>(_, n, _, segs). (n, length segs))") auto

definition MAX_LINKS :: nat where "MAX_LINKS = 40"

definition walk :: "host_fs \<Rightarrow> string \<Rightarrow> fs_error + nat \<times> string list" where
  "walk fs p = walk_path fs MAX_LINKS [] (split_on CHR ''/'' p)"

definition realpath :: "host_fs \<Rightarrow> string \<Rightarrow> fs_error + string" where
  "realpath fs p = map_sum id (\<lambda>(_, r). to_path r) (walk fs p)"

definition stat :: "host_fs \<Rightarrow> string \<Rightarrow> fs_error + host_node" where
  "stat fs p =
     (case walk fs p of
        Inl e \<Rightarrow> Inl e
      | Inr (_, r) \<Rightarrow> (case fs r of None \<Rightarrow> Inl ENOENT | Some node \<Rightarrow> Inr node))"

text \<open>\<open>lstat\<close> of an absolute path without \<open>.\<close> and \<open>..\<close>: the last name is read, not followed.\<close>

definition lstat :: "host_fs \<Rightarrow> string \<Rightarrow> fs_error + host_node" where
  "lstat fs p =
     (let segs = path_segs p in
      if segs = [] then stat fs p
      else (case walk fs (to_path (butlast segs)) of
              Inl e \<Rightarrow> Inl e
            | Inr (_, r) \<Rightarrow>
                (case not_searchable (fs r) of
                   Some e \<Rightarrow> Inl e
                 | None \<Rightarrow> (case fs (r @ [last segs]) of None \<Rightarrow> Inl ENOENT | Some node \<Rightarrow> Inr node))))"

text \<open>\<open>open\<close> for reading with \<open>O_NOFOLLOW\<close>: a final link is refused.\<close>

definition open_no_follow :: "host_fs \<Rightarrow> string \<Rightarrow> fs_error + host_node" where
  "open_no_follow fs p =
     (case lstat fs p of
        Inl e \<Rightarrow> Inl e
      | Inr (LinkNode _) \<Rightarrow> Inl ELOOP
      | Inr node \<Rightarrow> Inr node)"

section \<open>Laws\<close>

lemma fs_ok_prefix: "fs_ok fs \<Longrightarrow> fs (p @ q) \<noteq> None \<Longrightarrow> q \<noteq> [] \<Longrightarrow> is_dir (fs p)"
proof (induction q rule: rev_induct)
  case (snoc x q)
  then have "is_dir (fs (p @ q))" unfolding fs_ok_def append_assoc [symmetric] by blast
  with snoc show ?case by (cases "q = []") (auto simp: is_dir_def split: option.splits)
qed simp

lemma fs_ok_segs: "fs_ok fs \<Longrightarrow> fs p \<noteq> None \<Longrightarrow> are_segs p"
proof (induction p rule: rev_induct)
  case (snoc x p)
  then have "is_dir (fs p)" "is_seg x" unfolding fs_ok_def by blast+
  with snoc show ?case by (auto simp: is_dir_def split: option.splits)
qed simp

lemma fs_ok_missing: "fs_ok fs \<Longrightarrow> fs p = None \<Longrightarrow> fs (p @ q) = None"
  using fs_ok_prefix [of fs p q] by (cases "q = []"; cases "fs (p @ q)") (auto simp: is_dir_def)

lemma not_searchable_None: "not_searchable n = None \<longleftrightarrow> (\<exists>i. n = Some (DirNode i True))"
  by (auto simp: not_searchable_def split: option.splits host_node.splits)

lemma walk_path_append:
  "walk_path fs n cur (ss @ ts) = (case walk_path fs n cur ss of Inl e \<Rightarrow> Inl e | Inr (m, r) \<Rightarrow> walk_path fs m r ts)"
  by (induction fs n cur ss rule: walk_path.induct) (auto split: option.split host_node.split)

lemma fs_ok_root: "fs_ok fs \<Longrightarrow> fs [] \<noteq> None \<and> \<not> is_link (fs [])"
  by (auto simp: fs_ok_def is_link_def)

lemma fs_ok_parent:
  assumes "fs_ok fs" and "fs p \<noteq> None" and "\<not> is_link (fs p)"
  shows "fs (butlast p) \<noteq> None \<and> \<not> is_link (fs (butlast p))"
proof (cases p rule: rev_cases)
  case (snoc q x)
  with assms(1,2) have "is_dir (fs q)" unfolding fs_ok_def by blast
  with snoc show ?thesis by (auto simp: is_dir_def is_link_def split: option.splits host_node.splits)
qed (use assms in simp)

text \<open>The walks that end, as a relation: one rule per kind of step.\<close>

definition is_name :: "string \<Rightarrow> bool" where
  "is_name s \<longleftrightarrow> s \<noteq> [] \<and> s \<noteq> ''.'' \<and> s \<noteq> ''..''"

inductive walks :: "host_fs \<Rightarrow> nat \<Rightarrow> string list \<Rightarrow> string list \<Rightarrow> nat \<Rightarrow> string list \<Rightarrow> bool" for fs where
  here: "walks fs n cur [] n cur"
| stay: "not_searchable (fs cur) = None \<Longrightarrow> s = [] \<or> s = ''.'' \<Longrightarrow> walks fs n cur segs m r \<Longrightarrow> walks fs n cur (s # segs) m r"
| up: "not_searchable (fs cur) = None \<Longrightarrow> walks fs n (butlast cur) segs m r \<Longrightarrow> walks fs n cur (''..'' # segs) m r"
| follow: "not_searchable (fs cur) = None \<Longrightarrow> is_name s \<Longrightarrow> fs (cur @ [s]) = Some (LinkNode t)
    \<Longrightarrow> walks fs n (if path_isAbsolute t then [] else cur) (split_on CHR ''/'' t @ segs) m r \<Longrightarrow> walks fs (Suc n) cur (s # segs) m r"
| enter: "not_searchable (fs cur) = None \<Longrightarrow> is_name s \<Longrightarrow> fs (cur @ [s]) = Some node \<Longrightarrow> \<not> is_link (Some node)
    \<Longrightarrow> walks fs n (cur @ [s]) segs m r \<Longrightarrow> walks fs n cur (s # segs) m r"

lemma walks_walk_path: "walks fs n cur segs m r \<Longrightarrow> walk_path fs n cur segs = Inr (m, r)"
proof (induction rule: walks.induct)
  case (enter cur s node n segs m r)
  then show ?case by (cases node) (auto simp: is_name_def is_link_def)
qed (auto simp: is_name_def)

lemma walk_path_walks: "walk_path fs n cur segs = Inr (m, r) \<Longrightarrow> walks fs n cur segs m r"
proof (induction fs n cur segs rule: walk_path.induct)
  case (2 fs n cur seg segs)
  note go = "2.prems" and IH = "2.IH"
  have none: "not_searchable (fs cur) = None" using go by (cases "not_searchable (fs cur)") auto
  consider (stay) "seg = [] \<or> seg = ''.''" | (up) "seg = ''..''" | (name) "\<not> (seg = [] \<or> seg = ''.'')" "seg \<noteq> ''..''" by blast
  then show ?case
  proof cases
    case stay
    with go none have "walk_path fs n cur segs = Inr (m, r)" by auto
    from walks.stay [OF none stay IH(1) [OF none stay this]] show ?thesis .
  next
    case c: up
    with go none have "walk_path fs n (butlast cur) segs = Inr (m, r)" by simp
    from walks.up [OF none IH(2) [OF none _ c this]] c show ?thesis by simp
  next
    case name
    then have is_name: "is_name seg" by (simp add: is_name_def)
    obtain node where node: "fs (cur @ [seg]) = Some node" using go none name by (cases "fs (cur @ [seg])") auto
    show ?thesis
    proof (cases node)
      case (LinkNode t)
      have n: "n \<noteq> 0" using go none name node LinkNode by (auto split: if_splits)
      with go none name node LinkNode
      have "walk_path fs (n - 1) (if path_isAbsolute t then [] else cur) (split_on CHR ''/'' t @ segs) = Inr (m, r)" by simp
      from walks.follow [OF none is_name node [unfolded LinkNode] IH(5) [OF none name node LinkNode n this]] n show ?thesis by simp
    next
      case (FileNode a b)
      with go none name node have "walk_path fs n (cur @ [seg]) segs = Inr (m, r)" by simp
      from walks.enter [OF none is_name node _ IH(3) [OF none name node FileNode this]] FileNode show ?thesis by (simp add: is_link_def)
    next
      case (DirNode a b)
      with go none name node have "walk_path fs n (cur @ [seg]) segs = Inr (m, r)" by simp
      from walks.enter [OF none is_name node _ IH(4) [OF none name node DirNode this]] DirNode show ?thesis by (simp add: is_link_def)
    next
      case (OtherNode a)
      with go none name node have "walk_path fs n (cur @ [seg]) segs = Inr (m, r)" by simp
      from walks.enter [OF none is_name node _ IH(6) [OF none name node OtherNode this]] OtherNode show ?thesis by (simp add: is_link_def)
    qed
  qed
qed (auto intro: walks.here)

lemma walk_path_iff: "walk_path fs n cur segs = Inr (m, r) \<longleftrightarrow> walks fs n cur segs m r"
  using walks_walk_path walk_path_walks by blast

text \<open>A walk ends where something is that is no link.\<close>

lemma walks_place: "walks fs n cur segs m r \<Longrightarrow> fs_ok fs \<Longrightarrow> fs cur \<noteq> None \<and> \<not> is_link (fs cur) \<Longrightarrow> fs r \<noteq> None \<and> \<not> is_link (fs r)"
proof (induction rule: walks.induct)
  case (up cur n segs m r)
  then show ?case using fs_ok_parent by blast
next
  case (follow cur s t n segs m r)
  then show ?case using fs_ok_root by simp
qed simp_all

lemma walk_path_place:
  "walk_path fs n cur segs = Inr (m, r) \<Longrightarrow> fs_ok fs \<Longrightarrow> fs cur \<noteq> None \<and> \<not> is_link (fs cur) \<Longrightarrow> fs r \<noteq> None \<and> \<not> is_link (fs r)"
  unfolding walk_path_iff by (rule walks_place)

lemma walk_place: "walk fs p = Inr (m, r) \<Longrightarrow> fs_ok fs \<Longrightarrow> fs r \<noteq> None \<and> \<not> is_link (fs r)"
  unfolding walk_def by (erule walk_path_place [OF _ _ fs_ok_root]) simp_all

text \<open>The walk of a resolved path, one name after the other.\<close>

lemma walk_path_start: "fs_ok fs \<Longrightarrow> walk_path fs n [] ([] # segs) = walk_path fs n [] segs"
  by (auto simp: fs_ok_def not_searchable_def)

lemma walk_to_path: "fs_ok fs \<Longrightarrow> are_segs ss \<Longrightarrow> walk fs (to_path ss) = walk_path fs MAX_LINKS [] ss"
  by (cases "ss = []") (simp_all add: walk_def to_path_def split_join walk_path_start del: walk_path.simps)

lemma realpath_Inr: "realpath fs p = Inr q \<longleftrightarrow> (\<exists>m r. walk fs p = Inr (m, r) \<and> q = to_path r)"
  by (cases "walk fs p") (auto simp: realpath_def)

lemma realpath_Inl: "realpath fs p = Inl e \<longleftrightarrow> walk fs p = Inl e"
  by (cases "walk fs p") (auto simp: realpath_def)

lemma lstat_child:
  "are_segs ss \<Longrightarrow> is_seg x \<Longrightarrow> walk fs (to_path ss) = Inr (m, r) \<Longrightarrow>
     lstat fs (to_path (ss @ [x])) =
       (case not_searchable (fs r) of
          Some e \<Rightarrow> Inl e
        | None \<Rightarrow> (case fs (r @ [x]) of None \<Rightarrow> Inl ENOENT | Some node \<Rightarrow> Inr node))"
  by (simp add: lstat_def split: option.split)

text \<open>Nothing on the way to a place is a link when what there is of it is folders.\<close>

definition no_link_on_the_way :: "host_fs \<Rightarrow> string list \<Rightarrow> bool" where
  "no_link_on_the_way fs p \<longleftrightarrow> (\<forall>k \<le> length p. fs (take k p) \<noteq> None \<longrightarrow> \<not> is_link (fs (take k p)) \<and> (k < length p \<longrightarrow> is_dir (fs (take k p))))"

lemma place_no_link:
  assumes "fs_ok fs" and "fs p \<noteq> None" and "\<not> is_link (fs p)"
  shows "no_link_on_the_way fs p"
  unfolding no_link_on_the_way_def
proof (intro allI impI)
  fix k assume k: "k \<le> length p"
  show "\<not> is_link (fs (take k p)) \<and> (k < length p \<longrightarrow> is_dir (fs (take k p)))"
  proof (cases "k < length p")
    case True
    then have "is_dir (fs (take k p))" using fs_ok_prefix [OF assms(1), of "take k p" "drop k p"] assms(2) by simp
    then show ?thesis by (auto simp: is_dir_def is_link_def split: option.splits host_node.splits)
  qed (use k assms in simp)
qed

text \<open>A workspace with a link out of it and a link to a folder in it.\<close>

definition small_fs :: host_fs where
  "small_fs = map_of
     [([], DirNode 0 True), ([''w''], DirNode 1 True), ([''w'', ''a''], FileNode 2 3), ([''w'', ''out''], LinkNode ''/other''),
      ([''w'', ''in''], LinkNode ''d''), ([''w'', ''d''], DirNode 4 True), ([''other''], DirNode 5 True)]"

lemma small_fs_ok: "fs_ok small_fs"
  unfolding fs_ok_def
proof (intro conjI allI impI)
  show "\<exists>i. small_fs [] = Some (DirNode i True)" by (simp add: small_fs_def)
  fix p x assume "small_fs (p @ [x]) \<noteq> None"
  then have "p = [] \<and> x \<in> {''w'', ''other''} \<or> p = [''w''] \<and> x \<in> {''a'', ''out'', ''in'', ''d''}"
    by (auto simp: small_fs_def append_eq_Cons_conv split: if_splits)
  then show "is_dir (small_fs p)" "is_seg x" by (auto simp: small_fs_def is_dir_def is_seg_def)
qed

end
