(* ===== verification/WorkspacePath.thy ===== *)
theory WorkspacePath
  imports FileSystem
begin

text \<open>
  Paths below the workspace (\<open>src/src/backend/workspacePath.ts\<close>): what a recorded path may resolve to, one identity
  per file, names Windows reads differently, and the read of a regular file below a folder. The resolution asks
  one snapshot of the file system; the read asks a snapshot per call, since it is written against changes between its calls.
\<close>

section \<open>Resolving below a folder\<close>

datatype resolution_failure = InvalidTarget | TargetNotFound | TargetUnreadable

datatype path_resolution = Resolved string | RefusedScope | ResolutionFailed resolution_failure

definition resolveInsideRoot :: "string \<Rightarrow> string \<Rightarrow> string \<Rightarrow> path_resolution" where
  "resolveInsideRoot cwd folder candidate =
     (if candidate = [] then ResolutionFailed InvalidTarget
      else let resolvedRoot = path_resolve cwd [folder]; absp = path_resolve cwd [resolvedRoot, candidate]
           in if isPathStrictlyInside cwd resolvedRoot absp then Resolved absp else RefusedScope)"

definition nameIsTaken :: "host_fs \<Rightarrow> string \<Rightarrow> bool" where
  "nameIsTaken fs absp = (case lstat fs absp of Inr _ \<Rightarrow> True | Inl e \<Rightarrow> e \<noteq> ENOENT)"

text \<open>What the loop looks at: a folder or a link is found, an error other than absence is thrown.\<close>

definition found_ancestor :: "host_fs \<Rightarrow> string \<Rightarrow> fs_error + bool" where
  "found_ancestor fs current =
     (case lstat fs current of
        Inr (DirNode _ _) \<Rightarrow> Inr True
      | Inr (LinkNode _) \<Rightarrow> Inr True
      | Inr _ \<Rightarrow> Inr False
      | Inl e \<Rightarrow> if e = ENOENT then Inr False else Inl e)"

definition dirname_measure :: "string \<Rightarrow> nat" where
  "dirname_measure p = (if p = ''.'' then 0 else if p = [] then 1 else length p + 1)"

lemma dirname_shrinks: "path_dirname p \<noteq> p \<Longrightarrow> dirname_measure (path_dirname p) < dirname_measure p"
proof -
  assume ne: "path_dirname p \<noteq> p"
  show ?thesis
  proof (cases p)
    case (Cons c q)
    define s where "s = dropWhile (\<lambda>c. c = CHR ''/'') (rev q)"
    define cut where "cut = dropWhile (\<lambda>c. c \<noteq> CHR ''/'') s"
    have d: "path_dirname p = (if cut = [] then (if c = CHR ''/'' then ''/'' else ''.'')
        else if c = CHR ''/'' \<and> length cut = 1 then ''//'' else take (length cut) p)"
      unfolding path_dirname_def Let_def Cons list.sel s_def cut_def by simp
    have s: "length s \<le> length q" "s = [] \<or> hd s \<noteq> CHR ''/''"
      unfolding s_def using length_dropWhile_le [of "\<lambda>c. c = CHR ''/''" "rev q"] hd_dropWhile [of "\<lambda>c. c = CHR ''/''" "rev q"] by auto
    have cut: "cut = [] \<or> length cut < length s"
      using s(2) length_dropWhile_le [of "\<lambda>c. c \<noteq> CHR ''/''" "tl s"] unfolding cut_def by (cases s) auto
    show ?thesis
    proof (cases "cut = []")
      case True
      with ne Cons show ?thesis unfolding d by (auto simp: dirname_measure_def split: if_splits)
    next
      case False
      with cut s(1) have "length cut < length q" by simp
      with False Cons show ?thesis unfolding d by (cases q) (auto simp: dirname_measure_def)
    qed
  qed (simp add: path_dirname_def dirname_measure_def)
qed

text \<open>\<open>None\<close> is the error of a loop that reached the top.\<close>

function nearestExistingAncestor :: "host_fs \<Rightarrow> string \<Rightarrow> fs_error option + string" where
  "nearestExistingAncestor fs current =
     (case found_ancestor fs current of
        Inl e \<Rightarrow> Inl (Some e)
      | Inr True \<Rightarrow> Inr current
      | Inr False \<Rightarrow>
          if path_dirname current = current then Inl None else nearestExistingAncestor fs (path_dirname current))"
  by pat_completeness auto
termination
  by (relation "measure (\<lambda>(_, p). dirname_measure p)") (simp_all add: dirname_shrinks)

declare nearestExistingAncestor.simps [simp del]

definition resolve_missing :: "string \<Rightarrow> host_fs \<Rightarrow> string \<Rightarrow> string \<Rightarrow> path_resolution" where
  "resolve_missing cwd fs realRoot lexical =
     (case nearestExistingAncestor fs (path_dirname lexical) of
        Inl e \<Rightarrow> ResolutionFailed (if e = Some ENOENT then TargetNotFound else TargetUnreadable)
      | Inr ancestor \<Rightarrow>
          (case realpath fs ancestor of
             Inl e \<Rightarrow> ResolutionFailed (if e = ENOENT then TargetNotFound else TargetUnreadable)
           | Inr realAncestor \<Rightarrow>
               if \<not> isPathInsideOrEqual cwd realRoot realAncestor then RefusedScope
               else let resolved = path_resolve cwd [realAncestor, path_relative cwd ancestor lexical]
                    in if isPathStrictlyInside cwd realRoot resolved then Resolved resolved else RefusedScope))"

definition resolveInsideRootPhysical :: "string \<Rightarrow> host_fs \<Rightarrow> string \<Rightarrow> string \<Rightarrow> path_resolution" where
  "resolveInsideRootPhysical cwd fs folder candidate =
     (case resolveInsideRoot cwd folder candidate of
        Resolved lexical \<Rightarrow>
          (case realpath fs (path_resolve cwd [folder]) of
             Inl _ \<Rightarrow> ResolutionFailed TargetNotFound
           | Inr realRoot \<Rightarrow>
               (case realpath fs lexical of
                  Inr real' \<Rightarrow> if isPathStrictlyInside cwd realRoot real' then Resolved real' else RefusedScope
                | Inl e \<Rightarrow>
                    if e \<noteq> ENOENT then ResolutionFailed TargetUnreadable
                    else if nameIsTaken fs lexical then RefusedScope
                    else resolve_missing cwd fs realRoot lexical))
      | r \<Rightarrow> r)"

section \<open>One identity per file\<close>

function physicalPath :: "string \<Rightarrow> host_fs \<Rightarrow> string \<Rightarrow> string \<Rightarrow> string" where
  "physicalPath cwd fs absp current =
     (case realpath fs current of
        Inr real' \<Rightarrow> path_join [real', path_relative cwd current absp]
      | Inl _ \<Rightarrow> if path_dirname current = current then absp else physicalPath cwd fs absp (path_dirname current))"
  by pat_completeness auto
termination
  by (relation "measure (\<lambda>(_, _, _, p). dirname_measure p)") (simp_all add: dirname_shrinks)

declare physicalPath.simps [simp del]

definition fileIdentity :: "string \<Rightarrow> host_fs \<Rightarrow> string list \<Rightarrow> string \<Rightarrow> string" where
  "fileIdentity cwd fs roots absp =
     (let lexical = path_resolve cwd [absp]
      in if list_ex (\<lambda>folder. isPathInsideOrEqual cwd (path_resolve cwd [folder]) lexical) roots
         then physicalPath cwd fs lexical lexical else lexical)"

section \<open>Names Windows reads differently\<close>

definition is_win_sep :: "char \<Rightarrow> bool" where
  "is_win_sep c \<longleftrightarrow> c = CHR ''/'' \<or> c = CHR 0x5C"

text \<open>How long the root is that \<open>path.win32.parse\<close> finds: a share, a drive with or without a slash, a slash.\<close>

definition win_root_length :: "string \<Rightarrow> nat" where
  "win_root_length p =
     (case p of
        [] \<Rightarrow> 0
      | [c] \<Rightarrow> if is_win_sep c then 1 else 0
      | c # d # rest \<Rightarrow>
          if is_win_sep c then
            (if \<not> is_win_sep d then 1
             else let server = takeWhile (\<lambda>c. \<not> is_win_sep c) rest; r1 = drop (length server) rest;
                      seps = takeWhile is_win_sep r1; r2 = drop (length seps) r1; share = takeWhile (\<lambda>c. \<not> is_win_sep c) r2;
                      r3 = drop (length share) r2
                  in if server = [] \<or> r1 = [] \<or> r2 = [] then 1
                     else if r3 = [] then length p
                     else 2 + length server + length seps + length share + 1)
          else if (is_upper c \<or> is_lower c) \<and> d = CHR '':''
          then (if rest \<noteq> [] \<and> is_win_sep (hd rest) then 3 else 2)
          else 0)"

definition WINDOWS_DEVICE_NAMES :: "string list" where
  "WINDOWS_DEVICE_NAMES =
     [''con'', ''prn'', ''aux'', ''nul'', ''conin$'', ''conout$'']
     @ concat (map (\<lambda>d. [''com'' @ [d], ''lpt'' @ [d]]) (''0123456789'' @ [CHR 0xB9, CHR 0xB2, CHR 0xB3]))"

definition win_segment_problem :: "string \<Rightarrow> string option" where
  "win_segment_problem segment =
     (if segment = [] \<or> segment = ''.'' \<or> segment = ''..'' then None
      else if CHR '':'' \<in> set segment
      then Some (quoted segment @ '' contains '' @ quoted '':'' @ '', which on Windows names an alternate data stream of a file or folder, not a file'')
      else if last segment = CHR ''.'' \<or> last segment = CHR '' ''
      then Some (quoted segment @ '' ends in a dot or a space, which Windows tools read as a different name'')
      else if js_lower (rev (dropWhile (\<lambda>c. c = CHR '' '') (rev (takeWhile (\<lambda>c. c \<noteq> CHR ''.'') segment)))) \<in> set WINDOWS_DEVICE_NAMES
      then Some (quoted segment @ '' is a reserved Windows device name'')
      else None)"

definition win_segments :: "string \<Rightarrow> string list" where
  "win_segments s = split_on CHR ''/'' (map (\<lambda>c. if c = CHR 0x5C then CHR ''/'' else c) s)"

definition windowsNameProblem :: "string \<Rightarrow> bool \<Rightarrow> string option" where
  "windowsNameProblem target' on_windows =
     (if \<not> on_windows then None else first_some win_segment_problem (win_segments (drop (win_root_length target') target')))"

section \<open>Reading a regular file below a folder\<close>

datatype read_failure = FileMissing | NotRegular | FileUnreadable | TooLarge

datatype regular_read = ReadBytes "nat list" string | ReadScope | ReadChanged | ReadFailed read_failure

definition isBelowRoot :: "string \<Rightarrow> string \<Rightarrow> string \<Rightarrow> bool" where
  "isBelowRoot cwd folder absp \<longleftrightarrow>
     (let rel = path_relative cwd folder absp
      in rel \<noteq> [] \<and> rel \<noteq> ''..'' \<and> \<not> starts_with rel ''../'' \<and> \<not> path_isAbsolute rel)"

definition is_file :: "host_node \<Rightarrow> bool" where
  "is_file n \<longleftrightarrow> (case n of FileNode _ _ \<Rightarrow> True | _ \<Rightarrow> False)"

definition sameFile :: "host_node \<Rightarrow> host_node \<Rightarrow> bool" where
  "sameFile a b \<longleftrightarrow> (case a of LinkNode _ \<Rightarrow> False | _ \<Rightarrow> (case b of LinkNode _ \<Rightarrow> False | _ \<Rightarrow> fn_id a = fn_id b))"

text \<open>The reads: each asks for a bounded chunk and gets at most that; an empty answer is the end.\<close>

fun read_chunks :: "nat \<Rightarrow> nat list list \<Rightarrow> nat list \<Rightarrow> nat list option" where
  "read_chunks maxBytes [] acc = Some acc"
| "read_chunks maxBytes (answer # answers) acc =
     (let got = take (min 65536 (maxBytes + 1 - length acc)) answer in
      if got = [] then Some acc
      else if maxBytes < length (acc @ got) then None else read_chunks maxBytes answers (acc @ got))"

text \<open>The snapshots of its calls: 0 to 3 before the file is opened, 4 when it is, 5 to 8 after the read.\<close>

definition changed_meanwhile ::
    "(nat \<Rightarrow> host_fs) \<Rightarrow> string \<Rightarrow> string \<Rightarrow> string \<Rightarrow> string \<Rightarrow> host_node \<Rightarrow> host_node \<Rightarrow> bool" where
  "changed_meanwhile fss lexicalRoot lexical realRoot real' rootNode opened =
     (case realpath (fss 5) lexicalRoot of
        Inl _ \<Rightarrow> True
      | Inr rootAfter \<Rightarrow>
          (case stat (fss 6) rootAfter of
             Inl _ \<Rightarrow> True
           | Inr rootAfterNode \<Rightarrow>
               (case realpath (fss 7) lexical of
                  Inl _ \<Rightarrow> True
                | Inr realAfter \<Rightarrow>
                    (case stat (fss 8) realAfter of
                       Inl _ \<Rightarrow> True
                     | Inr after \<Rightarrow>
                         rootAfter \<noteq> realRoot \<or> \<not> sameFile rootAfterNode rootNode \<or> realAfter \<noteq> real' \<or> \<not> sameFile after opened))))"

definition readRegularFileInsideRoot ::
    "string \<Rightarrow> (nat \<Rightarrow> host_fs) \<Rightarrow> nat list list \<Rightarrow> string \<Rightarrow> string \<Rightarrow> nat \<Rightarrow> regular_read" where
  "readRegularFileInsideRoot cwd fss answers folder candidate maxBytes =
     (let lexicalRoot = path_resolve cwd [folder]; lexical = path_resolve cwd [lexicalRoot, candidate] in
      if \<not> isBelowRoot cwd lexicalRoot lexical then ReadScope
      else case realpath (fss 0) lexicalRoot of
        Inl _ \<Rightarrow> ReadFailed FileUnreadable
      | Inr realRoot \<Rightarrow>
          (case stat (fss 1) realRoot of
             Inl _ \<Rightarrow> ReadFailed FileUnreadable
           | Inr rootNode \<Rightarrow>
               (case realpath (fss 2) lexical of
                  Inl e \<Rightarrow> ReadFailed (if e = ENOENT then FileMissing else FileUnreadable)
                | Inr real' \<Rightarrow>
                    if \<not> isBelowRoot cwd realRoot real' then ReadScope
                    else (case stat (fss 3) real' of
                       Inl e \<Rightarrow> ReadFailed (if e = ENOENT then FileMissing else FileUnreadable)
                     | Inr resolved \<Rightarrow>
                         if \<not> is_file resolved then ReadFailed NotRegular
                         else if maxBytes < fn_size resolved then ReadFailed TooLarge
                         else (case open_no_follow (fss 4) real' of
                            Inl _ \<Rightarrow> ReadChanged
                          | Inr opened \<Rightarrow>
                              if \<not> is_file opened \<or> \<not> sameFile opened resolved then ReadChanged
                              else (case read_chunks maxBytes answers [] of
                                 None \<Rightarrow> ReadFailed TooLarge
                               | Some bytes \<Rightarrow>
                                   if changed_meanwhile fss lexicalRoot lexical realRoot real' rootNode opened then ReadChanged
                                   else ReadBytes bytes real'))))))"

end
