(* ===== verification/WorkspacePathLaws.thy ===== *)
theory WorkspacePathLaws
  imports WorkspacePath
begin

text \<open>
  What the workspace paths promise: a path that resolves is where a write at it lands, strictly below the real folder;
  spellings of one file have one identity; and what is read of a regular file is bounded and was in place throughout.
\<close>

section \<open>Resolved paths\<close>

lemma nearest_ancestor:
  "are_segs ss \<Longrightarrow> nearestExistingAncestor fs (to_path ss) = Inr anc \<Longrightarrow>
     \<exists>k \<le> length ss. anc = to_path (take k ss) \<and> found_ancestor fs anc = Inr True
       \<and> (\<forall>j. k < j \<and> j \<le> length ss \<longrightarrow> found_ancestor fs (to_path (take j ss)) = Inr False)"
proof (induction ss rule: rev_induct)
  case Nil
  then show ?case
    by (subst (asm) nearestExistingAncestor.simps) (auto simp: dirname_top split: sum.splits bool.splits)
next
  case (snoc x ss)
  then have segs: "are_segs ss" "is_seg x" by simp_all
  show ?case
  proof (cases "found_ancestor fs (to_path (ss @ [x])) = Inr True")
    case True
    with snoc.prems(2) have "anc = to_path (ss @ [x])" by (subst (asm) nearestExistingAncestor.simps) simp
    with True show ?thesis by (intro exI [of _ "length (ss @ [x])"]) auto
  next
    case False
    with snoc.prems(2) have no: "found_ancestor fs (to_path (ss @ [x])) = Inr False" and
        up: "nearestExistingAncestor fs (path_dirname (to_path (ss @ [x]))) = Inr anc"
      by (subst (asm) nearestExistingAncestor.simps, auto split: sum.splits bool.splits if_splits)+
    from snoc.IH [OF segs(1) up [unfolded dirname_to_path [OF segs]]]
    obtain k where k: "k \<le> length ss" "anc = to_path (take k ss)" "found_ancestor fs anc = Inr True"
        "\<forall>j. k < j \<and> j \<le> length ss \<longrightarrow> found_ancestor fs (to_path (take j ss)) = Inr False" by blast
    have "found_ancestor fs (to_path (take j (ss @ [x]))) = Inr False" if "k < j" "j \<le> length (ss @ [x])" for j
      using that k(4) no by (cases "j = Suc (length ss)") auto
    with k show ?thesis by (intro exI [of _ k]) auto
  qed
qed

lemma found_ancestor_False: "found_ancestor fs p = Inr False \<Longrightarrow> lstat fs p = Inl ENOENT \<or> (\<exists>node. lstat fs p = Inr node \<and> \<not> is_dir (Some node) \<and> \<not> is_link (Some node))"
  by (auto simp: found_ancestor_def is_dir_def is_link_def split: sum.splits host_node.splits if_splits)

text \<open>
  A name below a folder that is there, on the way to a path at which nothing resolves: the folder has no such entry.
\<close>

lemma absent_below:
  assumes "fs_ok fs" and segs: "are_segs ss" "is_seg x" "are_segs more"
    and anc: "walk fs (to_path ss) = Inr (n, r)"
    and gone: "walk fs (to_path (ss @ x # more)) = Inl ENOENT"
    and child: "lstat fs (to_path (ss @ [x])) = Inl ENOENT
      \<or> more \<noteq> [] \<and> (\<exists>node. lstat fs (to_path (ss @ [x])) = Inr node \<and> \<not> is_dir (Some node) \<and> \<not> is_link (Some node))"
  shows "fs (r @ [x]) = None"
proof -
  have x: "\<not> (x = [] \<or> x = ''.'')" "x \<noteq> ''..''" using segs(2) by (auto simp: is_seg_def)
  have go: "walk_path fs n r (x # more) = Inl ENOENT"
    using gone anc segs assms(1) by (simp add: walk_to_path walk_path_append)
  have there: "fs r \<noteq> None" using walk_place [OF anc assms(1)] by blast
  show ?thesis
  proof (cases "not_searchable (fs r)")
    case (Some e)
    with go have "e = ENOENT" by simp
    with Some there show ?thesis by (auto simp: not_searchable_def split: option.splits host_node.splits if_splits)
  next
    case None
    note look = lstat_child [OF segs(1,2) anc]
    show ?thesis
    proof (rule ccontr)
      assume "fs (r @ [x]) \<noteq> None"
      then obtain node where node: "fs (r @ [x]) = Some node" by auto
      with None look child have more: "more \<noteq> []" "\<not> is_dir (Some node)" "\<not> is_link (Some node)" by auto
      then obtain y ys where "more = y # ys" by (cases more) auto
      with go None node more x show False
        by (cases node) (auto simp: is_dir_def is_link_def not_searchable_def)
    qed
  qed
qed

lemma resolveInsideRoot_form:
  assumes "resolveInsideRoot cwd folder candidate = Resolved lexical"
  obtains ss where "are_segs ss" "ss \<noteq> []" "lexical = to_path ss"
proof -
  obtain rs where rs: "are_segs rs" "path_resolve cwd [folder] = to_path rs" using path_resolve_form by blast
  obtain ss where ss: "are_segs ss" "path_resolve cwd [path_resolve cwd [folder], candidate] = to_path ss" using path_resolve_form by blast
  have "lexical = to_path ss" "strict_prefix rs ss"
    using assms inside_places(1) [OF rs(1) ss(1)] rs ss by (auto simp: resolveInsideRoot_def Let_def split: if_splits)
  with ss that show thesis by (cases "ss = []") auto
qed

text \<open>A path that resolves, of a target that is there and of one that is missing.\<close>

definition safe_below :: "string \<Rightarrow> host_fs \<Rightarrow> string list \<Rightarrow> string \<Rightarrow> bool" where
  "safe_below cwd fs r p \<longleftrightarrow> (\<exists>q. are_segs q \<and> p = to_path q \<and> strict_prefix r q \<and> no_link_on_the_way fs q)"

lemma missing_is_safe:
  assumes "fs_ok fs" and r: "are_segs r" and ss: "are_segs ss" "ss \<noteq> []"
    and gone: "walk fs (to_path ss) = Inl ENOENT" and free: "lstat fs (to_path ss) = Inl ENOENT"
    and res: "resolve_missing cwd fs (to_path r) (to_path ss) = Resolved p"
  shows "safe_below cwd fs r p"
proof -
  obtain us y where us: "ss = us @ [y]" using ss(2) by (cases ss rule: rev_cases) auto
  then have segs: "are_segs us" "is_seg y" using ss(1) by simp_all
  from res obtain anc where anc: "nearestExistingAncestor fs (to_path us) = Inr anc"
    unfolding resolve_missing_def us dirname_to_path [OF segs] by (auto split: sum.splits)
  from nearest_ancestor [OF segs(1) anc]
  obtain k where k: "k \<le> length us" "anc = to_path (take k us)"
      "\<forall>j. k < j \<and> j \<le> length us \<longrightarrow> found_ancestor fs (to_path (take j us)) = Inr False" by blast
  have ts: "are_segs (take k us)" using segs(1) by (auto simp: list_all_iff dest: in_set_takeD)
  obtain x more where xm: "drop k us @ [y] = x # more" by (cases "drop k us @ [y]") auto
  have ssx: "ss = take k us @ x # more" unfolding us using xm by (metis append.assoc append_take_drop_id)
  with ss(1) have xsegs: "is_seg x" "are_segs more" by simp_all
  from res anc k(2) obtain n a where a: "walk fs (to_path (take k us)) = Inr (n, a)"
    unfolding resolve_missing_def us dirname_to_path [OF segs]
    by (cases "walk fs (to_path (take k us))") (auto simp: realpath_def)
  have place: "fs a \<noteq> None" "\<not> is_link (fs a)" using walk_place [OF a assms(1)] by blast+
  then have asegs: "are_segs a" using fs_ok_segs [OF assms(1)] by blast
  have rel: "path_relative cwd (to_path (take k us)) (to_path ss) = join_with ''/'' (x # more)"
    unfolding ssx using relative_below [OF ts, of "x # more" cwd] xsegs by simp
  have p: "p = to_path (a @ x # more)" "strict_prefix r (a @ x # more)"
  proof -
    have eq: "path_resolve cwd [to_path a, join_with ''/'' (x # more)] = to_path (a @ x # more)"
      using resolve_rest [OF asegs, of "x # more" cwd] xsegs by simp
    have "are_segs (a @ x # more)" using asegs xsegs by simp
    from inside_places(1) [OF r this, of cwd] res show "p = to_path (a @ x # more)" "strict_prefix r (a @ x # more)"
      unfolding resolve_missing_def us dirname_to_path [OF segs] anc
      by (auto simp: k(2) realpath_def a rel [unfolded us] eq Let_def split: if_splits)
  qed
  have child: "lstat fs (to_path (take k us @ [x])) = Inl ENOENT
      \<or> more \<noteq> [] \<and> (\<exists>node. lstat fs (to_path (take k us @ [x])) = Inr node \<and> \<not> is_dir (Some node) \<and> \<not> is_link (Some node))"
  proof (cases "k = length us")
    case True
    with xm us free show ?thesis by simp
  next
    case False
    with k(1) have "k < length us" by simp
    then have x: "take (Suc k) us = take k us @ [x]" "more \<noteq> []" using xm
      by (auto simp: take_Suc_conv_app_nth Cons_nth_drop_Suc [symmetric])
    with k(3) \<open>k < length us\<close> have "found_ancestor fs (to_path (take k us @ [x])) = Inr False" by (metis Suc_leI lessI)
    with found_ancestor_False [OF this] x(2) show ?thesis by blast
  qed
  have none: "fs (a @ [x]) = None" by (rule absent_below [OF assms(1) ts xsegs a gone [unfolded ssx] child])
  have "fs ((a @ [x]) @ take j more) = None" for j by (rule fs_ok_missing [OF assms(1) none])
  then have beyond: "fs (take i (a @ x # more)) = None" if "length a < i" for i
    using that by (cases i) (simp_all add: take_Cons' less_Suc_eq_le split: nat.split)
  have "no_link_on_the_way fs (a @ x # more)"
    unfolding no_link_on_the_way_def
  proof (intro allI impI)
    fix i assume i: "i \<le> length (a @ x # more)" "fs (take i (a @ x # more)) \<noteq> None"
    with beyond have le: "i \<le> length a" by (meson not_le)
    have "no_link_on_the_way fs a" by (rule place_no_link [OF assms(1) place])
    with le i(2) have link: "\<not> is_link (fs (take i a)) \<and> (i < length a \<longrightarrow> is_dir (fs (take i a)))"
      unfolding no_link_on_the_way_def by simp
    have "is_dir (fs a)"
      using gone ssx a ts xsegs assms(1) place
      by (auto simp: walk_to_path walk_path_append is_dir_def is_link_def not_searchable_def split: option.splits host_node.splits)
    with link le show "\<not> is_link (fs (take i (a @ x # more))) \<and> (i < length (a @ x # more) \<longrightarrow> is_dir (fs (take i (a @ x # more))))"
      by (cases "i = length a") auto
  qed
  then show ?thesis unfolding safe_below_def using p asegs xsegs by (intro exI [of _ "a @ x # more"]) simp
qed

text \<open>
  C37: A path the physical resolution gives, all of whose calls see one state of the file system, is in that state strictly
  below the real folder, and what is there on the way to it is folders and no link, so that a write at it lands
  at it, whether or not the target exists.
\<close>

theorem writes_stay_below_the_folder:
  assumes "fs_ok fs" and "resolveInsideRootPhysical cwd fs folder candidate = Resolved p"
  shows "\<exists>r q. realpath fs (path_resolve cwd [folder]) = Inr (to_path r) \<and> p = to_path q \<and> are_segs r \<and> are_segs q
    \<and> strict_prefix r q \<and> no_link_on_the_way fs q"
proof -
  obtain lexical where lex: "resolveInsideRoot cwd folder candidate = Resolved lexical"
    using assms(2) by (cases "resolveInsideRoot cwd folder candidate") (auto simp: resolveInsideRootPhysical_def)
  from resolveInsideRoot_form [OF lex] obtain ss where ss: "are_segs ss" "ss \<noteq> []" "lexical = to_path ss" by blast
  obtain m r where r: "walk fs (path_resolve cwd [folder]) = Inr (m, r)"
    using assms(2) lex by (cases "walk fs (path_resolve cwd [folder])") (auto simp: resolveInsideRootPhysical_def realpath_def)
  have rsegs: "are_segs r" using fs_ok_segs [OF assms(1)] walk_place [OF r assms(1)] by blast
  have real: "realpath fs (path_resolve cwd [folder]) = Inr (to_path r)" by (simp add: realpath_def r)
  have "safe_below cwd fs r p"
  proof (cases "walk fs lexical")
    case (Inl e)
    then have "e = ENOENT" "\<not> nameIsTaken fs lexical" "resolve_missing cwd fs (to_path r) lexical = Resolved p"
      using assms(2) lex real by (auto simp: resolveInsideRootPhysical_def realpath_def split: if_splits)
    with missing_is_safe [OF assms(1) rsegs ss(1,2)] Inl ss(3) show ?thesis
      by (auto simp: nameIsTaken_def split: sum.splits)
  next
    case (Inr mq)
    then obtain m' q where q: "walk fs lexical = Inr (m', q)" by (cases mq) auto
    have place: "fs q \<noteq> None" "\<not> is_link (fs q)" using walk_place [OF q assms(1)] by blast+
    then have qsegs: "are_segs q" using fs_ok_segs [OF assms(1)] by blast
    have "p = to_path q" "strict_prefix r q"
      using assms(2) lex real q inside_places(1) [OF rsegs qsegs, of cwd]
      by (auto simp: resolveInsideRootPhysical_def realpath_def split: if_splits)
    with qsegs place_no_link [OF assms(1) place] show ?thesis by (auto simp: safe_below_def)
  qed
  with real rsegs show ?thesis unfolding safe_below_def by blast
qed

theorem writes_stay_below_the_folder_witness:
  "resolveInsideRootPhysical ''/'' small_fs ''/w'' ''out/x'' = RefusedScope
    \<and> resolveInsideRootPhysical ''/'' small_fs ''/w'' ''../other'' = RefusedScope
    \<and> resolveInsideRootPhysical ''/'' small_fs ''w'' ''in/new/x'' = Resolved ''/w/d/new/x''
    \<and> (\<exists>r q. realpath small_fs ''/w'' = Inr (to_path r) \<and> ''/w/d/new/x'' = to_path q \<and> are_segs r \<and> are_segs q
        \<and> strict_prefix r q \<and> no_link_on_the_way small_fs q)"
proof (intro conjI)
  show "resolveInsideRootPhysical ''/'' small_fs ''/w'' ''out/x'' = RefusedScope" by code_simp
  show "resolveInsideRootPhysical ''/'' small_fs ''/w'' ''../other'' = RefusedScope" by code_simp
  show res: "resolveInsideRootPhysical ''/'' small_fs ''w'' ''in/new/x'' = Resolved ''/w/d/new/x''" by code_simp
  have "path_resolve ''/'' [''w''] = ''/w''" by code_simp
  with writes_stay_below_the_folder [OF small_fs_ok res]
  show "\<exists>r q. realpath small_fs ''/w'' = Inr (to_path r) \<and> ''/w/d/new/x'' = to_path q \<and> are_segs r \<and> are_segs q
        \<and> strict_prefix r q \<and> no_link_on_the_way small_fs q" by simp
qed

section \<open>Identities\<close>

lemma walk_top: "fs_ok fs \<Longrightarrow> walk fs (to_path []) = Inr (MAX_LINKS, [])"
  by (simp add: walk_to_path)

lemma physical_place:
  assumes "fs_ok fs" and "are_segs ss"
  shows "n \<le> length ss \<Longrightarrow> \<exists>k \<le> n. \<exists>m r. walk fs (to_path (take k ss)) = Inr (m, r)
      \<and> (\<forall>j. k < j \<and> j \<le> n \<longrightarrow> (\<exists>e. walk fs (to_path (take j ss)) = Inl e))
      \<and> physicalPath cwd fs (to_path ss) (to_path (take n ss)) = to_path (r @ drop k ss)"
proof (induction n)
  case 0
  have "path_relative cwd (to_path []) (to_path ss) = join_with ''/'' ss" using relative_below [of "[]" ss cwd] assms(2) by simp
  then show ?case using assms walk_top [OF assms(1)] join_rest [of "[]" ss]
    by (subst physicalPath.simps) (simp add: realpath_def)
next
  case (Suc n)
  have ts: "are_segs (take j ss)" "are_segs (drop j ss)" for j
    using assms(2) by (auto simp: list_all_iff dest: in_set_takeD in_set_dropD)
  show ?case
  proof (cases "walk fs (to_path (take (Suc n) ss))")
    case (Inr mr)
    then obtain m r where r: "walk fs (to_path (take (Suc n) ss)) = Inr (m, r)" by (cases mr) auto
    then have "are_segs r" using fs_ok_segs [OF assms(1)] walk_place [OF r assms(1)] by blast
    with relative_below [OF ts(1) [of "Suc n"] ts(2) [of "Suc n"], of cwd] join_rest [OF _ ts(2) [of "Suc n"]] r
    have "physicalPath cwd fs (to_path ss) (to_path (take (Suc n) ss)) = to_path (r @ drop (Suc n) ss)"
      by (subst physicalPath.simps) (simp add: realpath_def)
    with r show ?thesis by (intro exI [of _ "Suc n"]) auto
  next
    case (Inl e)
    have snoc: "take (Suc n) ss = take n ss @ [ss ! n]" using Suc.prems by (simp add: take_Suc_conv_app_nth)
    then have seg: "is_seg (ss ! n)" using ts(1) [of "Suc n"] by simp
    have up: "path_dirname (to_path (take (Suc n) ss)) = to_path (take n ss)"
      unfolding snoc by (rule dirname_to_path [OF ts(1) seg])
    have ne: "to_path (take n ss) \<noteq> to_path (take (Suc n) ss)"
      unfolding to_path_inj [OF ts(1) ts(1)] using Suc.prems by (auto dest: arg_cong [where f = length])
    have step: "physicalPath cwd fs (to_path ss) (to_path (take (Suc n) ss)) = physicalPath cwd fs (to_path ss) (to_path (take n ss))"
      by (subst physicalPath.simps) (simp add: realpath_def Inl up ne)
    from Suc obtain k m r where k: "k \<le> n" "walk fs (to_path (take k ss)) = Inr (m, r)"
        "\<forall>j. k < j \<and> j \<le> n \<longrightarrow> (\<exists>e. walk fs (to_path (take j ss)) = Inl e)"
        "physicalPath cwd fs (to_path ss) (to_path (take n ss)) = to_path (r @ drop k ss)" by auto
    have "\<exists>e. walk fs (to_path (take j ss)) = Inl e" if "k < j" "j \<le> Suc n" for j
      using that k(3) Inl by (cases "j = Suc n") auto
    with k step show ?thesis by (intro exI [of _ k]) auto
  qed
qed

text \<open>
   Inside the roots a file's identity is where the file system places it: the real place of the longest part of the
  path that resolves, and the names after it; outside the roots it is the resolved text, and nothing is looked up.
  Spellings that resolve have one identity exactly when they lead to one place.
\<close>

theorem one_identity_per_place:
  assumes "fs_ok fs" and "ss = path_segs (path_resolve cwd [a])"
  shows "if list_ex (\<lambda>folder. isPathInsideOrEqual cwd folder a) roots
    then \<exists>k m r. k \<le> length ss \<and> walk fs (to_path (take k ss)) = Inr (m, r)
      \<and> (\<forall>j. k < j \<and> j \<le> length ss \<longrightarrow> (\<exists>e. walk fs (to_path (take j ss)) = Inl e))
      \<and> fileIdentity cwd fs roots a = to_path (r @ drop k ss)
    else fileIdentity cwd fs roots a = path_resolve cwd [a]"
proof -
  have ss: "are_segs ss" "path_resolve cwd [a] = to_path ss" unfolding assms(2) by (simp_all add: path_resolve_def)
  have "isPathInsideOrEqual cwd (path_resolve cwd [folder]) (path_resolve cwd [a]) \<longleftrightarrow> isPathInsideOrEqual cwd folder a" for folder
  proof -
    obtain rs where "are_segs rs" "path_resolve cwd [folder] = to_path rs" using path_resolve_form by blast
    with ss show ?thesis unfolding inside_iff by (simp del: resolve_segs)
  qed
  then have "fileIdentity cwd fs roots a
      = (if list_ex (\<lambda>folder. isPathInsideOrEqual cwd folder a) roots then physicalPath cwd fs (to_path ss) (to_path ss) else to_path ss)"
    unfolding fileIdentity_def Let_def ss(2) [symmetric] by simp
  with physical_place [OF assms(1) ss(1) le_refl, of cwd] ss(2) show ?thesis by auto
qed

theorem one_identity_per_place_witness:
  "fileIdentity ''/'' small_fs [''/w''] ''/w/in/x'' = ''/w/d/x'' \<and> fileIdentity ''/w'' small_fs [''/w''] ''d/../d/x'' = ''/w/d/x''
   \<and> fileIdentity ''/'' small_fs [''/w''] ''/other/../w/a'' = ''/w/a''
   \<and> (\<exists>k m r. k \<le> 3 \<and> walk small_fs (to_path (take k [''w'', ''in'', ''x''])) = Inr (m, r)
      \<and> ''/w/d/x'' = to_path (r @ drop k [''w'', ''in'', ''x'']))"
proof (intro conjI)
  show id: "fileIdentity ''/'' small_fs [''/w''] ''/w/in/x'' = ''/w/d/x''" by code_simp
  show "fileIdentity ''/w'' small_fs [''/w''] ''d/../d/x'' = ''/w/d/x''" by code_simp
  show "fileIdentity ''/'' small_fs [''/w''] ''/other/../w/a'' = ''/w/a''" by code_simp
  have ss: "[''w'', ''in'', ''x''] = path_segs (path_resolve ''/'' [''/w/in/x''])" by code_simp
  have "list_ex (\<lambda>folder. isPathInsideOrEqual ''/'' folder ''/w/in/x'') [''/w''] = True" by code_simp
  note one_identity_per_place [OF small_fs_ok ss, of "[''/w'']", unfolded this if_True]
  then obtain k m r where
    "k \<le> length [''w'', ''in'', ''x'']" "walk small_fs (to_path (take k [''w'', ''in'', ''x''])) = Inr (m, r)"
    "fileIdentity ''/'' small_fs [''/w''] ''/w/in/x'' = to_path (r @ drop k [''w'', ''in'', ''x''])"
    by blast
  then show "\<exists>k m r. k \<le> 3 \<and> walk small_fs (to_path (take k [''w'', ''in'', ''x''])) = Inr (m, r)
      \<and> ''/w/d/x'' = to_path (r @ drop k [''w'', ''in'', ''x''])"
    unfolding id by (intro exI [of _ k] exI [of _ m] exI [of _ r]) simp
qed

section \<open>What is read\<close>

lemma read_chunks_bound: "read_chunks n answers acc = Some bytes \<Longrightarrow> length acc \<le> n \<Longrightarrow> length bytes \<le> n"
proof (induction n answers acc rule: read_chunks.induct)
  case (2 n answer answers acc)
  then show ?case by (auto simp: Let_def split: if_splits)
qed simp

lemma below_root_iff: "are_segs ss \<Longrightarrow> are_segs ts \<Longrightarrow> isBelowRoot cwd (to_path ss) (to_path ts) \<longleftrightarrow> strict_prefix ss ts"
  using relative_of_paths [of ss ts cwd] by (auto simp: isBelowRoot_def Let_def escapesRoot_def strict_prefix_def)

text \<open>
  C38: Whatever changes between the calls of a read: bytes that are given are at most as many as allowed, the path is a
  regular file that lay strictly below the real folder, the file that was opened is the one that was found there, and
  after the read folder and file still resolved to the same places and the same things.
\<close>

theorem reads_are_bounded_and_in_place:
  assumes "fs_ok (fss 0)" and "fs_ok (fss 2)"
    and "readRegularFileInsideRoot cwd fss answers folder candidate maxBytes = ReadBytes bytes p"
  shows "length bytes \<le> maxBytes \<and> (\<exists>r q i size opened d d' found.
      are_segs r \<and> are_segs q \<and> p = to_path q \<and> strict_prefix r q
      \<and> realpath (fss 0) (path_resolve cwd [folder]) = Inr (to_path r) \<and> realpath (fss 5) (path_resolve cwd [folder]) = Inr (to_path r)
      \<and> realpath (fss 2) (path_resolve cwd [path_resolve cwd [folder], candidate]) = Inr p
      \<and> realpath (fss 7) (path_resolve cwd [path_resolve cwd [folder], candidate]) = Inr p
      \<and> stat (fss 3) p = Inr (FileNode i size) \<and> size \<le> maxBytes
      \<and> open_no_follow (fss 4) p = Inr (FileNode i opened) \<and> stat (fss 8) p = Inr found \<and> fn_id found = i
      \<and> stat (fss 1) (to_path r) = Inr d \<and> stat (fss 6) (to_path r) = Inr d' \<and> sameFile d' d)"
proof -
  let ?root = "path_resolve cwd [folder]"
  let ?lex = "path_resolve cwd [?root, candidate]"
  note res = assms(3) [unfolded readRegularFileInsideRoot_def Let_def]
  obtain m r where r: "walk (fss 0) ?root = Inr (m, r)"
    using res by (cases "walk (fss 0) ?root") (auto simp: realpath_def split: if_splits)
  then have rsegs: "are_segs r" using fs_ok_segs [OF assms(1)] walk_place [OF r assms(1)] by blast
  have rp: "realpath (fss 0) ?root = Inr (to_path r)" using r by (simp add: realpath_def)
  obtain d where d: "stat (fss 1) (to_path r) = Inr d" using res rp by (auto split: if_splits sum.splits)
  obtain m' q where q: "walk (fss 2) ?lex = Inr (m', q)"
    using res rp d by (cases "walk (fss 2) ?lex") (auto simp: realpath_def split: if_splits)
  then have qsegs: "are_segs q" using fs_ok_segs [OF assms(2)] walk_place [OF q assms(2)] by blast
  have qp: "realpath (fss 2) ?lex = Inr (to_path q)" using q by (simp add: realpath_def)
  note res = res [unfolded rp sum.case d qp]
  obtain n where n: "stat (fss 3) (to_path q) = Inr n" using res by (auto split: if_splits sum.splits)
  note res = res [unfolded n sum.case]
  obtain opened where o: "open_no_follow (fss 4) (to_path q) = Inr opened" using res by (auto split: if_splits sum.splits)
  note res = res [unfolded o sum.case]
  have facts: "isBelowRoot cwd (to_path r) (to_path q)" "is_file n" "fn_size n \<le> maxBytes" "is_file opened" "sameFile opened n"
      "read_chunks maxBytes answers [] = Some bytes" "p = to_path q"
      "\<not> changed_meanwhile fss ?root ?lex (to_path r) (to_path q) d opened"
    using res by (auto split: if_splits option.splits)
  from facts(2,4,5) obtain i size osize where files: "n = FileNode i size" "opened = FileNode i osize"
    by (auto simp: is_file_def sameFile_def split: host_node.splits)
  from facts(8) obtain d' found where later: "realpath (fss 5) ?root = Inr (to_path r)" "stat (fss 6) (to_path r) = Inr d'"
      "realpath (fss 7) ?lex = Inr (to_path q)" "stat (fss 8) (to_path q) = Inr found" "sameFile d' d" "sameFile found opened"
    unfolding changed_meanwhile_def by (auto split: sum.splits)
  from later(6) files have "fn_id found = i" by (auto simp: sameFile_def split: host_node.splits)
  moreover have "length bytes \<le> maxBytes" by (rule read_chunks_bound [OF facts(6)]) simp
  moreover have "strict_prefix r q" using facts(1) below_root_iff [OF rsegs qsegs] by simp
  ultimately show ?thesis
    using rsegs qsegs rp qp d n o facts(3,7) files later(1-5) by auto
qed

theorem reads_are_bounded_and_in_place_witness:
  "readRegularFileInsideRoot ''/'' (\<lambda>_. small_fs) [[1, 2], [3]] ''/w'' ''a'' 10 = ReadBytes [1, 2, 3] ''/w/a''
   \<and> length [1 :: nat, 2, 3] \<le> 10"
proof
  show res: "readRegularFileInsideRoot ''/'' (\<lambda>_. small_fs) [[1, 2], [3]] ''/w'' ''a'' 10 = ReadBytes [1, 2, 3] ''/w/a''" by code_simp
  show "length [1 :: nat, 2, 3] \<le> 10"
    using reads_are_bounded_and_in_place [OF small_fs_ok small_fs_ok res] by (rule conjunct1)
qed

end
