(* ===== verification/AgentCommandPolicy.thy ===== *)
theory AgentCommandPolicy
  imports CommandPolicy
begin

text \<open>
  The policy an agent's commands are checked with (\<open>src/src/backend/AgentCommandPolicy.ts\<close>): a ceiling over the
  live policy of the workspace. It is a subclass, so what it does not override is the workspace policy's code run on
  its own mode, which its constructor sets to none.
\<close>

section \<open>The ceiling\<close>

fun RANK :: "approval_mode \<Rightarrow> nat" where
  "RANK ModeNone = 0"
| "RANK ModeAllowlist = 1"
| "RANK ModeAsk = 2"
| "RANK ModeAll = 3"

definition narrowerCommandMode :: "approval_mode \<Rightarrow> approval_mode \<Rightarrow> approval_mode" where
  "narrowerCommandMode globalMode requestedMode = (if RANK requestedMode \<le> RANK globalMode then requestedMode else globalMode)"

record command_narrowing =
  cn_mode :: approval_mode
  cn_allowed :: "string list"

record agent_policy =
  ap_global :: command_policy
  ap_narrowing :: "command_narrowing option"
  ap_name :: string

definition agent_mode :: "agent_policy \<Rightarrow> approval_mode" where
  "agent_mode a =
     (case ap_narrowing a of
        Some n \<Rightarrow> narrowerCommandMode (cp_mode (ap_global a)) (cn_mode n)
      | None \<Rightarrow> cp_mode (ap_global a))"

definition decorateGlobal :: "verdict \<Rightarrow> verdict" where
  "decorateGlobal v =
     (if vd_allowed v then v
      else v\<lparr>vd_reason := Some (if vd_ask v then ''global command policy requires approval''
          else ''global command policy: '' @ (case vd_reason v of Some r \<Rightarrow> r | None \<Rightarrow> ''not allowed''))\<rparr>)"

definition selected_templates :: "agent_policy \<Rightarrow> command_narrowing \<Rightarrow> shell_grammar \<Rightarrow> string list" where
  "selected_templates a n g = filter (\<lambda>entry. js_lower (js_trim entry) \<in> set (allowlistFor (ap_global a) g)) (cn_allowed n)"

definition narrowed_policy :: "agent_policy \<Rightarrow> command_narrowing \<Rightarrow> shell_grammar \<Rightarrow> command_policy" where
  "narrowed_policy a n g = new_policy (narrowerCommandMode (cp_mode (ap_global a)) (cn_mode n)) (BareTemplates (selected_templates a n g))"

definition agent_verdict :: "agent_policy \<Rightarrow> verdict \<Rightarrow> string \<Rightarrow> shell_identity \<Rightarrow> verdict" where
  "agent_verdict a global command shell =
     (if vd_dangerous global then global
      else case ap_narrowing a of
        None \<Rightarrow> decorateGlobal global
      | Some n \<Rightarrow>
          if \<not> vd_allowed global \<and> \<not> vd_ask global then decorateGlobal global
          else let narrowed = fst (check_command (narrowed_policy a n (si_grammar shell)) command shell) in
            if vd_allowed narrowed then decorateGlobal global
            else if vd_ask narrowed
            then (refuse_with (''agent command narrowing for '' @ ap_name a @ '' requires approval''))\<lparr>vd_ask := True, vd_opaque := vd_opaque narrowed\<rparr>
            else (refuse_with (''agent command narrowing for '' @ ap_name a @ '': ''
                @ (case vd_reason narrowed of Some r \<Rightarrow> r | None \<Rightarrow> ''not allowed'')))\<lparr>vd_opaque := vd_opaque narrowed\<rparr>)"

definition agent_check :: "agent_policy \<Rightarrow> string \<Rightarrow> shell_identity \<Rightarrow> verdict \<times> agent_policy \<times> bool" where
  "agent_check a command shell =
     (case check_command (ap_global a) command shell of
        (global, p, called) \<Rightarrow> (agent_verdict a global command shell, a\<lparr>ap_global := p\<rparr>, called))"

definition agent_reload :: "approval_mode \<Rightarrow> policy_inputs \<Rightarrow> agent_policy \<Rightarrow> agent_policy" where
  "agent_reload mode inputs a = a"

text \<open>The inherited method: it reads the mode of the subclass instance, which is none.\<close>

definition agent_opaqueVerdict :: "agent_policy \<Rightarrow> string \<Rightarrow> verdict" where
  "agent_opaqueVerdict a reason = opaqueVerdict ModeNone reason"

section \<open>It only narrows\<close>

lemma narrower_le: "RANK (narrowerCommandMode g r) \<le> RANK g" "RANK (narrowerCommandMode g r) \<le> RANK r"
  by (auto simp: narrowerCommandMode_def)

lemma opaqueVerdict_flags [simp]:
  "vd_allowed (opaqueVerdict m r) \<longleftrightarrow> m = ModeAll" "vd_ask (opaqueVerdict m r) \<longleftrightarrow> m = ModeAsk" "vd_opaque (opaqueVerdict m r)"
  "vd_dangerous (opaqueVerdict m r) \<longleftrightarrow> False"
  by (cases m; simp add: opaqueVerdict_def allow_def refuse_with_def)+

lemma decorateGlobal_flags [simp]:
  "vd_allowed (decorateGlobal v) = vd_allowed v" "vd_ask (decorateGlobal v) = vd_ask v" "vd_opaque (decorateGlobal v) = vd_opaque v"
  "vd_dangerous (decorateGlobal v) = vd_dangerous v" "vd_disabled (decorateGlobal v) = vd_disabled v"
  by (simp_all add: decorateGlobal_def)

lemma check_flags:
  "vd_dangerous (fst (check_command p command shell)) \<Longrightarrow> \<not> vd_allowed (fst (check_command p command shell))
     \<and> vd_ask (fst (check_command p command shell)) \<and> vd_reason (fst (check_command p command shell)) = Some DESTRUCTIVE_PATTERN_REASON"
  by (auto simp: check_command_def Let_def refuse_with_def allow_def dangerous_verdict_def
      split: if_splits inspection.splits option.splits)

text \<open>
   What an agent's policy lets run the workspace policy lets run, and with a narrowing so does a policy of the
  narrower mode that has only the selected templates; a command it would ask about the workspace policy does not refuse; and a
  dangerous delete is reported as the workspace policy reports it.
\<close>

theorem an_agent_policy_only_narrows:
  "(vd_allowed (fst (agent_check a command shell)) \<longrightarrow>
      vd_allowed (fst (check_command (ap_global a) command shell))
      \<and> (\<forall>n. ap_narrowing a = Some n \<longrightarrow>
          vd_allowed (fst (check_command (narrowed_policy a n (si_grammar shell)) command shell))))
   \<and> (vd_ask (fst (agent_check a command shell)) \<longrightarrow>
      vd_allowed (fst (check_command (ap_global a) command shell)) \<or> vd_ask (fst (check_command (ap_global a) command shell)))
   \<and> (vd_dangerous (fst (agent_check a command shell)) \<longleftrightarrow> vd_dangerous (fst (check_command (ap_global a) command shell)))"
proof -
  obtain v p called where global: "check_command (ap_global a) command shell = (v, p, called)" by (cases "check_command (ap_global a) command shell")
  have danger: "vd_dangerous v \<Longrightarrow> \<not> vd_allowed v" using check_flags [of "ap_global a" command shell] global by simp
  show ?thesis
  proof (cases "ap_narrowing a")
    case None
    then show ?thesis by (simp add: agent_check_def agent_verdict_def global)
  next
    case (Some n)
    show ?thesis by (use Some danger in \<open>auto simp: agent_check_def agent_verdict_def global Let_def refuse_with_def allow_def\<close>)
  qed
qed

theorem an_agent_policy_only_narrows_witness:
  "vd_allowed (fst (check_command (new_policy ModeAsk (BareTemplates [''npm test''])) ''npm test''
      \<lparr>si_kind = KBash, si_grammar = PosixGrammar, si_label = ''bash'', si_source = DirectFallback, si_fingerprint = []\<rparr>))
   \<and> vd_allowed (fst (check_command (new_policy ModeAllowlist (BareTemplates [''npm test''])) ''npm test''
      \<lparr>si_kind = KBash, si_grammar = PosixGrammar, si_label = ''bash'', si_source = DirectFallback, si_fingerprint = []\<rparr>))"
proof -
  let ?shell = "\<lparr>si_kind = KBash, si_grammar = PosixGrammar, si_label = ''bash'', si_source = DirectFallback, si_fingerprint = []\<rparr>"
  let ?n = "\<lparr>cn_mode = ModeAllowlist, cn_allowed = [''npm test'', ''rm'']\<rparr>"
  let ?a = "\<lparr>ap_global = new_policy ModeAsk (BareTemplates [''npm test'']), ap_narrowing = Some ?n, ap_name = ''Ada''\<rparr>"
  have ok: "vd_allowed (fst (agent_check ?a ''npm test'' ?shell))" by code_simp
  have "narrowed_policy ?a ?n PosixGrammar = new_policy ModeAllowlist (BareTemplates [''npm test''])" by code_simp
  with an_agent_policy_only_narrows [of ?a "''npm test''" ?shell] ok show ?thesis by simp
qed

end
