(* ===== verification/ShellCommandGate.thy ===== *)
theory ShellCommandGate
  imports AgentCommandPolicy FileSystem
begin

text \<open>
  The gate every shell command passes (\<open>src/src/backend/ShellCommandGate.ts\<close>) on a POSIX host: paths outside the
  roots, the physical half of the delete guard, and the order of verdict, prompts and refusals. The person, the clock,
  the file system and the limit of queries answer as arguments; callbacks are effects.
\<close>

section \<open>Paths outside the roots\<close>

definition msysDrivePath :: "string \<Rightarrow> string option" where
  "msysDrivePath token =
     (case token of
        c # d # rest \<Rightarrow>
          if c = CHR ''/'' \<and> is_letter d \<and> (rest = [] \<or> hd rest = CHR ''/'' \<and> \<not> list_ex is_newline rest)
          then Some (map (\<lambda>c. if is_lower c then char_of ((of_char c :: nat) - 32) else c) [d] @ '':'' @ [BACKSLASH_CHAR]
            @ map (\<lambda>c. if c = CHR ''/'' then BACKSLASH_CHAR else c) (drop 1 rest))
          else None
      | _ \<Rightarrow> None)"

definition EVAL_RUNTIMES :: rx where
  "EVAL_RUNTIMES = rx_seq [RBound, rx_alt (map rx_lit [''node'', ''deno'', ''bun'', ''ts-node'', ''tsx'', ''python'', ''python3'', ''ruby'', ''perl'', ''php'']), RBound]"

definition EVAL_FLAG :: rx where
  "EVAL_FLAG = RAlt
     (rx_seq [RAlt RStart (RChar is_space), rx_lit ''-'', rx_alt (map rx_lit [''e'', ''c'', ''p'']), RBound])
     (rx_seq [RAlt RStart (RChar is_space), rx_lit ''--'', rx_alt (map rx_lit [''eval'', ''exec'', ''print'', ''check'']), RBound])"

text \<open>The part that is read: what lies before the flag that starts an inline script.\<close>

definition scanned_part :: "string \<Rightarrow> string" where
  "scanned_part command =
     (if rx_test EVAL_RUNTIMES command
      then (case rx_search EVAL_FLAG command of Some n \<Rightarrow> take n command | None \<Rightarrow> command)
      else command)"

definition ends_token :: "char \<Rightarrow> bool" where
  "ends_token c \<longleftrightarrow> is_space c \<or> c \<in> set [CHR 0x22, CHR 0x27, CHR ''|'', CHR ''&'', CHR '';'', CHR ''<'', CHR ''>'']"

definition slash_either :: "char \<Rightarrow> bool" where
  "slash_either c \<longleftrightarrow> c = CHR ''/'' \<or> c = BACKSLASH_CHAR"

definition segment_then_slash :: "string \<Rightarrow> bool" where
  "segment_then_slash s \<longleftrightarrow>
     (let name = takeWhile (\<lambda>c. \<not> ends_token c \<and> c \<noteq> CHR ''/'') s
      in name \<noteq> [] \<and> starts_with (drop (length name) s) ''/'')"

text \<open>
  Whether a candidate starts here, after the character before: an extended or network path, a drive, a network path
  with slashes, or an absolute path of two names. Every alternative is followed by all characters up to the
  next that ends a token, so the candidate always reaches there.
\<close>

definition drive_start :: "string \<Rightarrow> bool" where
  "drive_start s \<longleftrightarrow> (case s of c # d # e # _ \<Rightarrow> is_letter c \<and> d = CHR '':'' \<and> slash_either e | _ \<Rightarrow> False)"

definition candidate_start :: "char option \<Rightarrow> string \<Rightarrow> bool" where
  "candidate_start before s \<longleftrightarrow>
     starts_with s [BACKSLASH_CHAR, BACKSLASH_CHAR]
     \<or> drive_start s
     \<or> before \<noteq> Some CHR '':'' \<and> starts_with s ''//'' \<and> segment_then_slash (drop 2 s)
     \<or> (case before of Some c \<Rightarrow> \<not> is_word c \<and> c \<notin> set ''.~)]/'' | None \<Rightarrow> True)
         \<and> starts_with s ''/'' \<and> segment_then_slash (drop 1 s)"

text \<open>\<open>matchAll\<close>: the candidates and where they start.\<close>

function candidates :: "nat \<Rightarrow> char option \<Rightarrow> string \<Rightarrow> (nat \<times> string) list" where
  "candidates i before [] = []"
| "candidates i before (c # s) =
     (if candidate_start before (c # s)
      then let raw = takeWhile (\<lambda>c. \<not> ends_token c) (c # s)
           in if raw = [] then candidates (Suc i) (Some c) s
              else (i, raw) # candidates (i + length raw) (Some (last raw)) (drop (length raw) (c # s))
      else candidates (Suc i) (Some c) s)"
  by pat_completeness auto
termination
  by (relation "measure (\<lambda>(_, _, s). length s)") (auto simp: Let_def)

definition scheme_char :: "char \<Rightarrow> bool" where
  "scheme_char c \<longleftrightarrow> is_letter c \<or> is_digit c \<or> c \<in> set ''+.-''"

definition uriSchemeForDriveCandidate :: "string \<Rightarrow> nat \<Rightarrow> string \<Rightarrow> string option" where
  "uriSchemeForDriveCandidate scanned index raw =
     (if \<not> (drive_start raw \<and> raw ! 2 = CHR ''/'') then None
      else let token = rev (takeWhile scheme_char (rev (take index scanned))) @ [scanned ! index];
               start = Suc index - length token
           in if \<not> (is_letter (hd token) \<and> list_all scheme_char token) then None
              else if 0 < start \<and> scanned ! (start - 1) = CHR ''-'' then None
              else if length token = 1 then (if starts_with raw (js_lower token @ ''://'') then Some token else None)
              else Some token)"

text \<open>Containment as the gate tests it: by the first two characters of the relative path.\<close>

definition isInside :: "string \<Rightarrow> string \<Rightarrow> string \<Rightarrow> bool" where
  "isInside here folder absp \<longleftrightarrow>
     (let rel = path_relative here folder absp in rel = [] \<or> \<not> starts_with rel ''..'' \<and> \<not> path_isAbsolute rel)"

fun first_drive :: "string \<Rightarrow> string option" where
  "first_drive [] = None"
| "first_drive (c # s) = (if drive_start (c # s) then Some (takeWhile (\<lambda>c. \<not> ends_token c) (c # s)) else first_drive s)"

definition outsideEmbeddedDrivePath :: "string \<Rightarrow> string \<Rightarrow> string list \<Rightarrow> string option" where
  "outsideEmbeddedDrivePath here rawUriTail roots =
     (case index_of rawUriTail ''//'' of
        None \<Rightarrow> None
      | Some n \<Rightarrow>
          (case first_drive (drop (n + 2) rawUriTail) of
             None \<Rightarrow> None
           | Some embedded \<Rightarrow>
               (let absp = path_resolve here [embedded]
                in if list_ex (\<lambda>folder. isInside here folder absp) roots then None else Some absp)))"

definition isWindowsExtendedLengthPath :: "string \<Rightarrow> bool" where
  "isWindowsExtendedLengthPath tok \<longleftrightarrow>
     starts_with tok ([BACKSLASH_CHAR, BACKSLASH_CHAR] @ ''?'' @ [BACKSLASH_CHAR])
     \<and> (let rest = drop 4 tok; one = (\<lambda>s. takeWhile (\<lambda>c. \<not> slash_either c) s);
            server = one (drop 4 rest); share = one (drop (5 + length server) rest)
        in drive_start rest
           \<or> js_lower (take 3 rest) = ''unc'' \<and> 3 < length rest \<and> slash_either (rest ! 3)
             \<and> server \<noteq> [] \<and> 4 + length server < length rest
             \<and> share \<noteq> [] \<and> 5 + length server + length share < length rest)"

definition is_sink :: "string \<Rightarrow> bool" where
  "is_sink tok \<longleftrightarrow>
     (let t = js_lower tok
      in t \<in> set [''/dev/null'', ''/dev/stdout'', ''/dev/stderr'', ''/dev/tty'', ''/dev/zero'', ''/dev/random'', ''/dev/urandom'']
         \<or> starts_with t ''/dev/fd/'' \<and> drop 8 t \<noteq> [] \<and> list_all is_digit (drop 8 t))"

definition ends_prose :: "char \<Rightarrow> bool" where
  "ends_prose c \<longleftrightarrow> c \<in> set '')]}.,;:!?'' \<or> c = CHR 0x22 \<or> c = CHR 0x27"

definition outside_candidate :: "string \<Rightarrow> bool \<Rightarrow> string list \<Rightarrow> string \<Rightarrow> nat \<Rightarrow> string \<Rightarrow> string option" where
  "outside_candidate here mapMsysDrives roots scanned index raw =
     (case uriSchemeForDriveCandidate scanned index raw of
        Some scheme \<Rightarrow> if js_lower scheme = ''file'' then outsideEmbeddedDrivePath here raw roots else None
      | None \<Rightarrow>
          (let tok = strip_end ends_prose raw in
           if tok = [] then None
           else if \<not> isWindowsExtendedLengthPath tok \<and> (CHR ''?'' \<in> set tok \<or> CHR ''*'' \<in> set tok) then None
           else if is_sink tok then None
           else let absp = path_resolve here [if mapMsysDrives then (case msysDrivePath tok of Some w \<Rightarrow> w | None \<Rightarrow> tok) else tok]
                in if list_ex (\<lambda>folder. isInside here folder absp) roots then None else Some absp))"

fun first_outside :: "(nat \<Rightarrow> string \<Rightarrow> string option) \<Rightarrow> (nat \<times> string) list \<Rightarrow> string option" where
  "first_outside f [] = None"
| "first_outside f ((i, raw) # rest) = (case f i raw of Some p \<Rightarrow> Some p | None \<Rightarrow> first_outside f rest)"

definition detectOutsideRootPath :: "string \<Rightarrow> bool \<Rightarrow> string \<Rightarrow> string list \<Rightarrow> string option" where
  "detectOutsideRootPath here mapMsysDrives command roots =
     (let scanned = scanned_part command
      in first_outside (outside_candidate here mapMsysDrives (map (\<lambda>r. path_resolve here [r]) roots) scanned) (candidates 0 None scanned))"

section \<open>The physical half of the delete guard\<close>

text \<open>
  What answers the guard: readings of the clock, whether all slots for queries are taken at a step, whether the query
  of a step is not settled by the deadline, and the resolver, whose refusals other than absence are any other error.
\<close>

record guard_env =
  ge_maxTargets :: nat
  ge_budget :: int
  ge_clock :: "nat \<Rightarrow> int"
  ge_saturated :: "nat \<Rightarrow> bool"
  ge_slow :: "nat \<Rightarrow> bool"
  ge_realpath :: "nat \<Rightarrow> string \<Rightarrow> fs_error + string"

datatype guard_result = Protected | Clear | Uncertain

datatype physical_target = TargetAt string | TargetSkip | TargetUncertain

fun EXPANDED_BY :: "shell_grammar \<Rightarrow> char \<Rightarrow> bool" where
  "EXPANDED_BY CmdGrammar c \<longleftrightarrow> c \<in> set ''%!^*?''"
| "EXPANDED_BY PowerShellGrammar c \<longleftrightarrow> c = BACKTICK \<or> c \<in> set ''$*?[]''"
| "EXPANDED_BY PosixGrammar c \<longleftrightarrow> c = BACKTICK \<or> c \<in> set ''$*?[]{}''"
| "EXPANDED_BY NeutralGrammar c \<longleftrightarrow> c = BACKTICK \<or> c \<in> set ''%!^$*?[]{}''"

definition isProvenArgument :: "string \<Rightarrow> shell_grammar \<Rightarrow> bool" where
  "isProvenArgument token g \<longleftrightarrow> g = PowerShellGrammar \<and> starts_with token ''-''"

definition provenWrittenPath :: "string \<Rightarrow> shell_kind \<Rightarrow> shell_grammar \<Rightarrow> string option" where
  "provenWrittenPath target' kind g =
     (if target' = [] \<or> starts_with target' ''~'' \<or> list_ex (EXPANDED_BY g) target' then None
      else case g of
        PosixGrammar \<Rightarrow> if kind = KWsl \<or> BACKSLASH_CHAR \<in> set target' then None else Some target'
      | CmdGrammar \<Rightarrow>
          (case target' of
             c # d # rest \<Rightarrow> if is_letter c \<and> d = CHR '':'' \<and> (rest = [] \<or> \<not> slash_either (hd rest)) then None else Some target'
           | _ \<Rightarrow> Some target')
      | PowerShellGrammar \<Rightarrow> if CHR '':'' \<in> set (if drive_start target' then drop 2 target' else target') then None else Some target'
      | NeutralGrammar \<Rightarrow> None)"

text \<open>The names of the written path one after the other: a step up asks where the path so far really is.\<close>

fun physical_steps :: "(string \<Rightarrow> fs_error + string) \<Rightarrow> string \<Rightarrow> string list \<Rightarrow> fs_error + string" where
  "physical_steps rp current [] = Inr current"
| "physical_steps rp current (segment # segments) =
     (if segment = [] \<or> segment = ''.'' then physical_steps rp current segments
      else if segment = ''..''
      then bind_sum (rp current) (\<lambda>r. physical_steps rp (path_dirname r) segments)
      else physical_steps rp (path_join [current, segment]) segments)"

definition physicalDeleteTarget ::
    "(string \<Rightarrow> fs_error + string) \<Rightarrow> string \<Rightarrow> string \<Rightarrow> shell_kind \<Rightarrow> physical_target" where
  "physicalDeleteTarget rp target' cwd kind =
     (let g = grammarOfShellKind kind in
      if isProvenArgument target' g then TargetSkip
      else case provenWrittenPath target' kind g of
        None \<Rightarrow> TargetUncertain
      | Some written \<Rightarrow>
          (case bind_sum (if path_isAbsolute written then Inr ''/'' else rp cwd) (\<lambda>start.
                  bind_sum (physical_steps rp start (split_on CHR ''/'' written)) rp) of
             Inr p \<Rightarrow> TargetAt p
           | Inl e \<Rightarrow> if e = ENOENT then TargetSkip else TargetUncertain))"

definition holdsPath :: "string \<Rightarrow> string \<Rightarrow> string \<Rightarrow> bool" where
  "holdsPath here dir absp \<longleftrightarrow>
     (let rel = path_relative here dir absp
      in rel = [] \<or> rel \<noteq> ''..'' \<and> \<not> starts_with rel ''../'' \<and> \<not> path_isAbsolute rel)"

definition isProtectedSegmentName :: "bool \<Rightarrow> string \<Rightarrow> bool" where
  "isProtectedSegmentName linux segment \<longleftrightarrow>
     (let name = (if linux then segment else js_lower segment) in name = ''.git'' \<or> name = ''.unode'')"

definition either_segments :: "string \<Rightarrow> string list" where
  "either_segments s = split_on CHR ''/'' (map (\<lambda>c. if c = BACKSLASH_CHAR then CHR ''/'' else c) s)"

definition is_protected_place :: "string \<Rightarrow> bool \<Rightarrow> string list \<Rightarrow> string \<Rightarrow> bool" where
  "is_protected_place here linux protectedDirs p \<longleftrightarrow>
     list_ex (\<lambda>dir. holdsPath here p dir) protectedDirs
     \<or> (let holders = filter (\<lambda>dir. holdsPath here dir p) protectedDirs;
            tails = (if holders \<noteq> [] then map (\<lambda>dir. path_relative here dir p) holders else [p])
        in list_ex (\<lambda>tail. list_ex (isProtectedSegmentName linux) (either_segments tail)) tails)"

text \<open>One step: out of budget or of slots, or the query of the step, which may not be settled in time.\<close>

definition guarded_step :: "guard_env \<Rightarrow> int \<Rightarrow> nat \<Rightarrow> 'a \<Rightarrow> 'a option" where
  "guarded_step env deadline k answer =
     (if deadline \<le> ge_clock env (2 * k + 1) \<or> ge_saturated env k then None
      else if deadline \<le> ge_clock env (2 * k + 2) \<or> ge_slow env k then None
      else Some answer)"

fun protected_dirs :: "guard_env \<Rightarrow> int \<Rightarrow> nat \<Rightarrow> string list \<Rightarrow> string list option" where
  "protected_dirs env deadline k [] = Some []"
| "protected_dirs env deadline k (dir # dirs) =
     (case guarded_step env deadline k (ge_realpath env k dir) of
        Some (Inr real') \<Rightarrow> map_option (\<lambda>rest. real' # rest) (protected_dirs env deadline (Suc k) dirs)
      | _ \<Rightarrow> None)"

fun judge_targets :: "string \<Rightarrow> bool \<Rightarrow> guard_env \<Rightarrow> int \<Rightarrow> shell_kind \<Rightarrow> string \<Rightarrow> string list \<Rightarrow> bool \<Rightarrow> nat \<Rightarrow> string list \<Rightarrow> guard_result" where
  "judge_targets here linux env deadline kind cwd dirs uncertain k [] = (if uncertain then Uncertain else Clear)"
| "judge_targets here linux env deadline kind cwd dirs uncertain k (target' # targets) =
     (case guarded_step env deadline k (physicalDeleteTarget (ge_realpath env k) target' cwd kind) of
        None \<Rightarrow> Uncertain
      | Some TargetSkip \<Rightarrow> judge_targets here linux env deadline kind cwd dirs uncertain (Suc k) targets
      | Some TargetUncertain \<Rightarrow> judge_targets here linux env deadline kind cwd dirs True (Suc k) targets
      | Some (TargetAt p) \<Rightarrow>
          if is_protected_place here linux dirs p then Protected
          else judge_targets here linux env deadline kind cwd dirs uncertain (Suc k) targets)"

definition deletesProtectedTarget ::
    "string \<Rightarrow> bool \<Rightarrow> guard_env \<Rightarrow> string \<Rightarrow> string \<Rightarrow> string list \<Rightarrow> shell_identity \<Rightarrow> guard_result" where
  "deletesProtectedTarget here linux env command cwd roots shell =
     (let targets = supportedDeleteTargets command (Some (si_kind shell, si_grammar shell)) in
      if targets = [] then Clear
      else if ge_maxTargets env < length targets then Uncertain
      else let deadline = ge_clock env 0 + ge_budget env in
        case protected_dirs env deadline 0 (cwd # roots) of
          None \<Rightarrow> Uncertain
        | Some dirs \<Rightarrow> judge_targets here linux env deadline (si_kind shell) cwd dirs False (length (cwd # roots)) targets)"

section \<open>The limit of queries in flight\<close>

datatype query_op = QueryStart | QuerySettles

text \<open>The queries started and not settled, and whether the last operation started one.\<close>

definition query_step :: "nat \<Rightarrow> nat \<Rightarrow> query_op \<Rightarrow> nat \<times> bool list" where
  "query_step limit active op =
     (case op of
        QueryStart \<Rightarrow> if limit \<le> active then (active, [False]) else (active + 1, [True])
      | QuerySettles \<Rightarrow> (active - 1, []))"

section \<open>The gate\<close>

datatype command_source = ModelSource | ConfigSource

datatype any_policy = WorkspacePolicy command_policy | AgentPolicy agent_policy

record approval_context =
  ac_shell :: shell_identity
  ac_warning :: "string option"
  ac_forcePrompt :: bool
  ac_singleUse :: bool
  ac_dangerous :: bool
  ac_cwd :: "string option"

record approval_decision =
  ad_allow :: bool
  ad_note :: "string option"
  ad_withdrawn :: bool

record gate_options =
  go_command :: string
  go_roots :: "string list"
  go_cwd :: string
  go_source :: command_source
  go_shell :: shell_identity
  go_notice :: "string option"
  go_aborted :: bool
  go_policy :: "any_policy option"
  go_approver :: "(approval_context \<Rightarrow> approval_decision) option"
  go_warns :: bool

datatype block_kind = PolicyBlock | ApprovalBlock | OutsideUnattended | ShellCompatibility

datatype gate_message = DisabledNotice string string | GateText string

datatype command_gate_result =
    GateOk "string option"
  | GateBlocked block_kind gate_message "string option" "string option" "string option"

datatype gate_effect =
    CommandDisabled gate_message
  | FirstBlock
  | OutsideRoot string
  | Asked approval_context
  | ConfigOutsideRoot string

definition policy_check :: "any_policy \<Rightarrow> string \<Rightarrow> shell_identity \<Rightarrow> verdict \<times> any_policy \<times> bool" where
  "policy_check p command shell =
     (case p of
        WorkspacePolicy w \<Rightarrow> (case check_command w command shell of (v, w', called) \<Rightarrow> (v, WorkspacePolicy w', called))
      | AgentPolicy a \<Rightarrow> (case agent_check a command shell of (v, a', called) \<Rightarrow> (v, AgentPolicy a', called)))"

definition policy_opaqueVerdict :: "any_policy \<Rightarrow> string \<Rightarrow> verdict" where
  "policy_opaqueVerdict p reason =
     (case p of WorkspacePolicy w \<Rightarrow> opaqueVerdict (cp_mode w) reason | AgentPolicy a \<Rightarrow> agent_opaqueVerdict a reason)"

definition UNCONFIRMED :: string where
  "UNCONFIRMED = ''a delete target'' @ [CHR 0x27] @ ''s real path could not be confirmed''"

definition formatRoots :: "string list \<Rightarrow> string" where
  "formatRoots roots = join_with '', '' roots"

definition policyBlockMessage :: "string option \<Rightarrow> string" where
  "policyBlockMessage reason =
     (let r = (case reason of Some r \<Rightarrow> r | None \<Rightarrow> []);
          guidance = (if has_sub ''control character'' (js_lower r)
            then '' Run ONE simple command without `;`/`|`/`&&`/`>`. To edit a file, use the write_file tool (not shell redirection); to read one, use read_file.''
            else [])
      in ''Command blocked: '' @ (case reason of Some r \<Rightarrow> r | None \<Rightarrow> ''not allowed'') @ guidance)"

definition outsideRootRefusal :: "string \<Rightarrow> string list \<Rightarrow> string" where
  "outsideRootRefusal outsidePath roots =
     ''BLOCKED_OUTSIDE_WORKDIR: this command references '' @ quoted outsidePath @ '', outside your writable folder(s) (''
     @ formatRoots roots @ ''), and no one is available to approve it. Ask the user, in your reply, to ''
     @ ''switch your working folder to that folder or open it as the workspace, then wait.''"

definition withdrawnRefusal :: "string option \<Rightarrow> command_gate_result" where
  "withdrawnRefusal outsidePath =
     GateBlocked ApprovalBlock
       (GateText ''Command not run: its approval was withdrawn because the agent was stopped, restarted or removed.'') None None outsidePath"

definition approvalContext :: "gate_options \<Rightarrow> string option \<Rightarrow> bool \<Rightarrow> approval_context" where
  "approvalContext opts outsideWarning singleUse =
     (let opaqueNote = (if singleUse then Some ''UnodeAi could not analyse this command, so it can only be approved for this one use.'' else None);
          parts = filter (\<lambda>s. s \<noteq> []) (concat (map (\<lambda>x. case x of Some s \<Rightarrow> [s] | None \<Rightarrow> []) [outsideWarning, opaqueNote, go_notice opts]));
          warning = join_with [CHR 0x0A, CHR 0x0A] parts
      in \<lparr>ac_shell = go_shell opts, ac_warning = (if warning = [] then None else Some warning),
          ac_forcePrompt = (outsideWarning \<noteq> None \<or> singleUse), ac_singleUse = singleUse, ac_dangerous = False, ac_cwd = None\<rparr>)"

definition not_approved :: "approval_decision \<Rightarrow> string \<Rightarrow> string option \<Rightarrow> command_gate_result" where
  "not_approved decision advice outsidePath =
     (if ad_withdrawn decision then withdrawnRefusal outsidePath
      else let note = (case ad_note decision of
                 Some n \<Rightarrow> if n = [] then [] else '' The user said: '' @ quoted n @ ''.'' @ advice
               | None \<Rightarrow> [])
           in GateBlocked ApprovalBlock (GateText (''Command blocked: not approved by the user.'' @ note)) None (ad_note decision) outsidePath)"

definition blocked_by_policy :: "verdict \<Rightarrow> string option \<Rightarrow> command_gate_result" where
  "blocked_by_policy v outsidePath = GateBlocked PolicyBlock (GateText (policyBlockMessage (vd_reason v))) (vd_reason v) None outsidePath"

definition gateModelCommand :: "gate_options \<Rightarrow> verdict \<Rightarrow> string option \<Rightarrow> command_gate_result \<times> gate_effect list" where
  "gateModelCommand opts v outsidePath =
     (case (outsidePath, go_approver opts) of
        (Some p, None) \<Rightarrow> (GateBlocked OutsideUnattended (GateText (outsideRootRefusal p (go_roots opts))) None None outsidePath, [])
      | (_, approver) \<Rightarrow>
          if (vd_ask v \<or> outsidePath \<noteq> None) \<and> approver \<noteq> None
          then let context = approvalContext opts
                     (map_option (\<lambda>p. ''This command names '' @ quoted p @ '', outside the agent'' @ [CHR 0x27] @ ''s writable folder(s) ('' @ formatRoots (go_roots opts) @ '').'') outsidePath)
                     (vd_opaque v);
                   decision = the approver context
               in if ad_allow decision then (GateOk outsidePath, [Asked context])
                  else (not_approved decision '' Adjust accordingly or ask them what to do.'' outsidePath, [Asked context])
          else if \<not> vd_allowed v then (blocked_by_policy v outsidePath, [])
          else (GateOk outsidePath, []))"

definition warnConfigOutsideRootOnce :: "gate_options \<Rightarrow> string \<Rightarrow> string list \<Rightarrow> string list \<times> gate_effect list" where
  "warnConfigOutsideRootOnce opts outsidePath warned =
     (if \<not> go_warns opts \<or> go_command opts \<in> set warned then (warned, [])
      else (warned @ [go_command opts], [ConfigOutsideRoot outsidePath]))"

definition config_passes :: "gate_options \<Rightarrow> string option \<Rightarrow> string list \<Rightarrow> command_gate_result \<times> string list \<times> gate_effect list" where
  "config_passes opts outsidePath warned =
     (case outsidePath of
        Some p \<Rightarrow> (case warnConfigOutsideRootOnce opts p warned of (warned', fx) \<Rightarrow> (GateOk outsidePath, warned', fx))
      | None \<Rightarrow> (GateOk None, warned, []))"

definition gateConfigCommand ::
    "gate_options \<Rightarrow> verdict \<Rightarrow> string option \<Rightarrow> string list \<Rightarrow> command_gate_result \<times> string list \<times> gate_effect list" where
  "gateConfigCommand opts v outsidePath warned =
     (if vd_ask v
      then (case go_approver opts of
              None \<Rightarrow> (blocked_by_policy v outsidePath, warned, [])
            | Some approver \<Rightarrow>
                (let context = approvalContext opts None (vd_opaque v); decision = approver context in
                 if \<not> ad_allow decision then (not_approved decision [] outsidePath, warned, [Asked context])
                 else case config_passes opts outsidePath warned of (r, warned', fx) \<Rightarrow> (r, warned', Asked context # fx)))
      else config_passes opts outsidePath warned)"

text \<open>The verdict after the physical half: protected is dangerous, uncertain is opaque.\<close>

definition physical_verdict :: "string \<Rightarrow> bool \<Rightarrow> guard_env \<Rightarrow> gate_options \<Rightarrow> verdict \<Rightarrow> verdict" where
  "physical_verdict here linux env opts v =
     (if vd_reason v = Some DESTRUCTIVE_PATTERN_REASON \<or> vd_opaque v then v
      else case deletesProtectedTarget here linux env (go_command opts) (go_cwd opts) (go_roots opts) (go_shell opts) of
        Protected \<Rightarrow> dangerous_verdict
      | Uncertain \<Rightarrow>
          (case go_policy opts of
             Some p \<Rightarrow> policy_opaqueVerdict p UNCONFIRMED
           | None \<Rightarrow> (refuse_with (UNCONFIRMED @ ''; it is not run without an explicit command-execution mode.''))\<lparr>vd_opaque := True\<rparr>)
      | Clear \<Rightarrow> v)"

definition dangerous_context :: "gate_options \<Rightarrow> approval_context" where
  "dangerous_context opts =
     \<lparr>ac_shell = go_shell opts, ac_warning = None, ac_forcePrompt = True, ac_singleUse = True, ac_dangerous = True, ac_cwd = Some (go_cwd opts)\<rparr>"

definition confirm_dangerous :: "gate_options \<Rightarrow> command_gate_result \<times> gate_effect list" where
  "confirm_dangerous opts =
     (case go_approver opts of
        None \<Rightarrow> (GateBlocked ApprovalBlock (GateText ''The user did not confirm this delete.'') None None None, [])
      | Some approver \<Rightarrow>
          ((if ad_allow (approver (dangerous_context opts)) \<and> \<not> go_aborted opts then GateOk None
            else GateBlocked ApprovalBlock (GateText ''The user did not confirm this delete.'') None None None),
           [Asked (dangerous_context opts)]))"

definition gate_judged ::
    "string \<Rightarrow> gate_options \<Rightarrow> verdict \<Rightarrow> string list \<Rightarrow> command_gate_result \<times> string list \<times> gate_effect list" where
  "gate_judged here opts v warned =
     (if vd_dangerous v then (case confirm_dangerous opts of (r, fx) \<Rightarrow> (r, warned, fx))
      else case (shellCompatibilityProblem (go_command opts) (go_shell opts), vd_reason v = Some DESTRUCTIVE_PATTERN_REASON) of
        (Some problem, False) \<Rightarrow>
          (GateBlocked ShellCompatibility (GateText (pb_message problem)) (Some (pb_message problem)) None None, warned, [])
      | _ \<Rightarrow>
          if \<not> vd_allowed v \<and> \<not> vd_ask v then (blocked_by_policy v None, warned, [])
          else let outsidePath = detectOutsideRootPath here False (go_command opts) (go_roots opts);
                   told = (case outsidePath of Some p \<Rightarrow> [OutsideRoot p] | None \<Rightarrow> []) in
            case go_source opts of
              ModelSource \<Rightarrow> (case gateModelCommand opts v outsidePath of (r, fx) \<Rightarrow> (r, warned, told @ fx))
            | ConfigSource \<Rightarrow> (case gateConfigCommand opts v outsidePath warned of (r, warned', fx) \<Rightarrow> (r, warned', told @ fx)))"

record gate_outcome =
  gt_result :: command_gate_result
  gt_policy :: "any_policy option"
  gt_warned :: "string list"
  gt_effects :: "gate_effect list"

definition gateShellCommand :: "string \<Rightarrow> bool \<Rightarrow> guard_env \<Rightarrow> string list \<Rightarrow> gate_options \<Rightarrow> gate_outcome" where
  "gateShellCommand here linux env warned opts =
     (let shell = go_shell opts;
          checked = (case go_policy opts of
              Some p \<Rightarrow> (case policy_check p (go_command opts) shell of (v, p', called) \<Rightarrow> (v, Some p', if called then [FirstBlock] else []))
            | None \<Rightarrow> (noPolicyVerdict (go_command opts) (Some (si_kind shell, si_grammar shell)), None, []));
          v = fst checked; p' = fst (snd checked); called = snd (snd checked)
      in if vd_disabled v
         then let m = DisabledNotice (go_command opts) (go_cwd opts)
              in \<lparr>gt_result = GateBlocked PolicyBlock m (vd_reason v) None None, gt_policy = p', gt_warned = warned, gt_effects = called @ [CommandDisabled m]\<rparr>
         else case gate_judged here opts (physical_verdict here linux env opts v) warned of
           (r, warned', fx) \<Rightarrow> \<lparr>gt_result = r, gt_policy = p', gt_warned = warned', gt_effects = called @ fx\<rparr>)"

end
