(* ===== verification/ShellGateLaws.thy ===== *)
theory ShellGateLaws
  imports ShellCommandGate
begin

text \<open>
  What the gate promises: nothing runs without a verdict that allows it or a person who does, and a delete that runs
  unasked spares the folders it must not touch, wherever links lead.
\<close>

section \<open>The guard judges what the system resolves\<close>

definition searched :: "host_fs \<Rightarrow> string list \<Rightarrow> bool" where
  "searched fs p \<longleftrightarrow> (\<forall>k < length p. not_searchable (fs (take k p)) = None)"

lemma searched_butlast: "searched fs p \<Longrightarrow> searched fs (butlast p)"
  by (auto simp: searched_def take_butlast)

lemma searched_snoc: "searched fs p \<Longrightarrow> not_searchable (fs p) = None \<Longrightarrow> searched fs (p @ [x])"
  by (auto simp: searched_def less_Suc_eq)

lemma walks_searched: "walks fs n cur segs m r \<Longrightarrow> searched fs cur \<Longrightarrow> searched fs r"
proof (induction rule: walks.induct)
  case (follow cur s t n segs m r)
  then show ?case by (simp add: searched_def)
qed (auto intro: searched_butlast searched_snoc)

lemma walks_more_links: "walks fs n cur segs k r \<Longrightarrow> walks fs (n + d) cur segs (k + d) r"
proof (induction rule: walks.induct)
  case (follow cur s t n segs m r)
  then show ?case using walks.follow [of fs cur s t "n + d"] by simp
qed (auto intro: walks.intros)

lemma walks_less: "walks fs n cur segs k r \<Longrightarrow> k \<le> n"
  by (induction rule: walks.induct) simp_all

lemmas walk_path_searched = walks_searched [folded walk_path_iff]
  and walk_path_more_links = walks_more_links [folded walk_path_iff]
  and walk_path_less = walks_less [folded walk_path_iff]

text \<open>Walking to the place a walk ended at follows no link.\<close>

lemma walk_path_place_again:
  "are_segs (p @ q) \<Longrightarrow> searched fs (p @ q) \<Longrightarrow> fs (p @ q) \<noteq> None \<Longrightarrow> \<not> is_link (fs (p @ q)) \<Longrightarrow> walk_path fs n p q = Inr (n, p @ q)"
proof (induction q arbitrary: p)
  case (Cons x q)
  have none: "not_searchable (fs p) = None" using Cons.prems(2) by (auto simp: searched_def dest: spec [of _ "length p"])
  have x: "\<not> (x = [] \<or> x = ''.'')" "x \<noteq> ''..''" using Cons.prems(1) by (auto simp: is_seg_def)
  have next_: "walk_path fs n (p @ [x]) q = Inr (n, p @ x # q)" using Cons.IH [of "p @ [x]"] Cons.prems by simp
  have "\<exists>node. fs (p @ [x]) = Some node \<and> \<not> is_link (Some node)"
  proof (cases "q = []")
    case True
    with Cons.prems(3,4) show ?thesis by auto
  next
    case False
    then have "not_searchable (fs (p @ [x])) = None" using Cons.prems(2) by (auto simp: searched_def dest: spec [of _ "Suc (length p)"])
    then show ?thesis by (auto simp: not_searchable_None is_link_def)
  qed
  then obtain node where "fs (p @ [x]) = Some node" "\<not> is_link (Some node)" by blast
  with none x next_ show ?case by (cases node) (auto simp: is_link_def)
qed simp

lemma physical_steps_place:
  assumes "fs_ok fs"
  shows "are_segs q \<Longrightarrow> walk_path fs MAX_LINKS [] q = Inr (m, cur) \<Longrightarrow> n \<le> m \<Longrightarrow> list_all (\<lambda>s. CHR ''/'' \<notin> set s) segs
     \<Longrightarrow> walk_path fs n cur segs = Inr (k, r)
     \<Longrightarrow> \<exists>q' m'. physical_steps (realpath fs) (to_path q) segs = Inr (to_path q') \<and> are_segs q' \<and> walk_path fs MAX_LINKS [] q' = Inr (m', r)"
proof (induction segs arbitrary: q m cur n)
  case (Cons s segs)
  have none: "not_searchable (fs cur) = None" using Cons.prems(5) by (cases "not_searchable (fs cur)") auto
  have place: "fs cur \<noteq> None \<and> \<not> is_link (fs cur)" by (rule walk_path_place [OF Cons.prems(2) assms fs_ok_root [OF assms]])
  have segs: "list_all (\<lambda>s. CHR ''/'' \<notin> set s) segs" using Cons.prems(4) by simp
  consider (stay) "s = [] \<or> s = ''.''" | (up) "s = ''..''" | (name) "\<not> (s = [] \<or> s = ''.'')" "s \<noteq> ''..''" by blast
  then show ?case
  proof cases
    case stay
    with Cons.prems(5) none have "walk_path fs n cur segs = Inr (k, r)" by auto
    from Cons.IH [OF Cons.prems(1-3) segs this] stay show ?thesis by auto
  next
    case up
    with Cons.prems(5) none have go: "walk_path fs n (butlast cur) segs = Inr (k, r)" by simp
    have real: "realpath fs (to_path q) = Inr (to_path cur)"
      using Cons.prems(1,2) assms by (simp add: realpath_def walk_to_path)
    have csegs: "are_segs cur" using fs_ok_segs [OF assms] place by blast
    then have bsegs: "are_segs (butlast cur)" by (auto simp: list_all_iff dest: in_set_butlastD)
    have dir: "path_dirname (to_path cur) = to_path (butlast cur)"
      using csegs dirname_top dirname_to_path [of "butlast cur" "last cur"] by (cases cur rule: rev_cases) simp_all
    have "searched fs (butlast cur)"
      by (rule searched_butlast [OF walk_path_searched [OF Cons.prems(2)]]) (simp add: searched_def)
    moreover have "fs (butlast cur) \<noteq> None \<and> \<not> is_link (fs (butlast cur))" using fs_ok_parent [OF assms] place by blast
    ultimately have again: "walk_path fs MAX_LINKS [] (butlast cur) = Inr (MAX_LINKS, butlast cur)"
      using walk_path_place_again [of "[]" "butlast cur" fs MAX_LINKS] bsegs by simp
    have "n \<le> MAX_LINKS" using walk_path_less [OF Cons.prems(2)] Cons.prems(3) by simp
    from Cons.IH [OF bsegs again this segs go] up real dir show ?thesis by simp
  next
    case name
    then have s: "is_seg s" using Cons.prems(4) by (simp add: is_seg_def)
    obtain n1 c1 where one: "walk_path fs n cur [s] = Inr (n1, c1)" and go: "walk_path fs n1 c1 segs = Inr (k, r)"
      using Cons.prems(5) walk_path_append [of fs n cur "[s]" segs] by (auto split: sum.splits)
    have "walk_path fs m cur [s] = Inr (n1 + (m - n), c1)"
      using walk_path_more_links [OF one, of "m - n"] Cons.prems(3) by simp
    then have q: "walk_path fs MAX_LINKS [] (q @ [s]) = Inr (n1 + (m - n), c1)"
      using Cons.prems(2) by (simp add: walk_path_append)
    have "path_join [to_path q, s] = to_path (q @ [s])" using join_rest [OF Cons.prems(1), of "[s]"] s by simp
    moreover have "are_segs (q @ [s])" using Cons.prems(1) s by simp
    ultimately show ?thesis using Cons.IH [OF _ q _ segs go] name by simp
  qed
qed auto

lemma physical_target_place:
  assumes "fs_ok fs" and cwd: "walk fs cwd = Inr (m, c)" and kind: "grammarOfShellKind kind = PosixGrammar"
    and proven: "physicalDeleteTarget (realpath fs) t cwd kind \<noteq> TargetUncertain"
    and sys: "walk_path fs MAX_LINKS (if path_isAbsolute t then [] else c) (split_on CHR ''/'' t) = Inr (k, r)"
  shows "physicalDeleteTarget (realpath fs) t cwd kind = TargetAt (to_path r)"
proof -
  let ?start = "if path_isAbsolute t then [] else c"
  have written: "provenWrittenPath t kind PosixGrammar = Some t"
    using proven kind by (auto simp: physicalDeleteTarget_def provenWrittenPath_def isProvenArgument_def split: if_splits)
  have place: "fs ?start \<noteq> None \<and> \<not> is_link (fs ?start)" using walk_place [OF cwd assms(1)] fs_ok_root [OF assms(1)] by simp
  have segs: "are_segs ?start" using fs_ok_segs [OF assms(1)] place by blast
  have "searched fs c" using walk_path_searched [OF cwd [unfolded walk_def]] by (simp add: searched_def)
  then have "searched fs ?start" by (simp add: searched_def)
  then have again: "walk_path fs MAX_LINKS [] ?start = Inr (MAX_LINKS, ?start)"
    using walk_path_place_again [of "[]" "?start" fs MAX_LINKS] segs place by simp
  have parts: "list_all (\<lambda>s. CHR ''/'' \<notin> set s) (split_on CHR ''/'' t)" by (auto simp: list_all_iff dest: split_on_set)
  from physical_steps_place [OF assms(1) segs again le_refl parts sys]
  obtain q m' where q: "physical_steps (realpath fs) (to_path ?start) (split_on CHR ''/'' t) = Inr (to_path q)" "are_segs q"
      "walk_path fs MAX_LINKS [] q = Inr (m', r)" by blast
  then have "realpath fs (to_path q) = Inr (to_path r)" using assms(1) by (simp add: realpath_def walk_to_path)
  moreover have "(if path_isAbsolute t then Inr ''/'' else realpath fs cwd) = (Inr (to_path ?start) :: fs_error + string)"
    using cwd by (simp add: realpath_def) (simp add: to_path_def)
  ultimately show ?thesis using q(1) kind
    by (simp add: physicalDeleteTarget_def isProvenArgument_def written)
qed

section \<open>What a clear verdict of the guard means\<close>

lemma list_all2_in: "list_all2 P xs ys \<Longrightarrow> x \<in> set xs \<Longrightarrow> \<exists>y \<in> set ys. P x y"
  by (induction rule: list_all2_induct) auto

lemma guarded_step_Some: "guarded_step env deadline k x = Some y \<Longrightarrow> y = x"
  by (auto simp: guarded_step_def split: if_splits)

lemma protected_dirs_real:
  "protected_dirs env deadline k dirs = Some rs \<Longrightarrow> ge_realpath env = (\<lambda>_. rp) \<Longrightarrow> list_all2 (\<lambda>d r. rp d = Inr r) dirs rs"
proof (induction dirs arbitrary: k rs)
  case (Cons d dirs)
  obtain a where step: "guarded_step env deadline k (rp d) = Some a" using Cons.prems by (auto split: option.splits)
  with Cons.prems obtain r where r: "a = Inr r" by (cases a) auto
  with Cons.prems step obtain rs' where rs: "rs = r # rs'" "protected_dirs env deadline (Suc k) dirs = Some rs'" by auto
  from Cons.IH [OF rs(2) Cons.prems(2)] guarded_step_Some [OF step] r rs(1) show ?case by simp
qed simp

lemma judge_uncertain: "judge_targets here linux env deadline kind cwd dirs True k ts \<noteq> Clear"
  by (induction ts arbitrary: k) (auto split: option.split physical_target.split)

lemma judge_clear:
  "judge_targets here linux env deadline kind cwd dirs False k ts = Clear \<Longrightarrow> ge_realpath env = (\<lambda>_. rp) \<Longrightarrow> t \<in> set ts \<Longrightarrow>
     physicalDeleteTarget rp t cwd kind = TargetSkip
     \<or> (\<exists>p. physicalDeleteTarget rp t cwd kind = TargetAt p \<and> \<not> is_protected_place here linux dirs p)"
proof (induction ts arbitrary: k)
  case (Cons u ts)
  obtain a where step: "guarded_step env deadline k (physicalDeleteTarget rp u cwd kind) = Some a"
    using Cons.prems(1,2) by (auto split: option.splits)
  have a: "a = physicalDeleteTarget rp u cwd kind" by (rule guarded_step_Some [OF step])
  have rest: "judge_targets here linux env deadline kind cwd dirs False (Suc k) ts = Clear" "a \<noteq> TargetUncertain"
      "a = TargetSkip \<or> (\<exists>p. a = TargetAt p \<and> \<not> is_protected_place here linux dirs p)"
    using Cons.prems(1,2) step judge_uncertain [of here linux env deadline kind cwd dirs "Suc k" ts]
    by (cases a; simp split: if_splits)+
  show ?case
  proof (cases "t = u")
    case True
    with rest(3) a show ?thesis by simp
  next
    case False
    with Cons.prems(3) Cons.IH [OF rest(1) Cons.prems(2)] show ?thesis by simp
  qed
qed simp

lemma holds_places: "are_segs ss \<Longrightarrow> are_segs ts \<Longrightarrow> holdsPath here (to_path ss) (to_path ts) \<longleftrightarrow> prefix ss ts"
  using relative_of_paths(2) [of ss ts here] by (auto simp: holdsPath_def Let_def escapesRoot_def)

lemma map_join: "map f (join_with [d] ss) = join_with [f d] (map (map f) ss)"
  by (induction "[d]" ss rule: join_with.induct) auto

lemma protected_name_chars: "isProtectedSegmentName linux x \<Longrightarrow> BACKSLASH_CHAR \<notin> set x"
proof
  assume "isProtectedSegmentName linux x" "BACKSLASH_CHAR \<in> set x"
  moreover have "BACKSLASH_CHAR \<in> set (js_lower x)" if "BACKSLASH_CHAR \<in> set x"
  proof -
    have "lower_char BACKSLASH_CHAR = BACKSLASH_CHAR" by code_simp
    with that show ?thesis unfolding js_lower_def by force
  qed
  ultimately show False by (auto simp: isProtectedSegmentName_def Let_def split: if_splits)
qed

lemma either_segments_name:
  assumes "are_segs ss" and "x \<in> set ss" and "BACKSLASH_CHAR \<notin> set x"
  shows "x \<in> set (either_segments (join_with ''/'' ss))"
proof -
  let ?f = "\<lambda>c. if c = BACKSLASH_CHAR then CHR ''/'' else c"
  have "CHR ''/'' \<notin> set x" using assms(1,2) by (auto simp: list_all_iff is_seg_def)
  moreover have "map ?f x = x" by (rule map_idI) (use assms(3) in auto)
  ultimately have "x \<in> set (split_on CHR ''/'' (map ?f x))" by (simp add: split_on_none)
  moreover have "ss \<noteq> []" using assms(2) by auto
  ultimately show ?thesis using assms(2)
    unfolding either_segments_def map_join by (simp add: split_join_concat) blast
qed

lemma either_segments_top: "set (either_segments s) \<subseteq> set (either_segments (''/'' @ s))"
  by (auto simp: either_segments_def)

text \<open>A place a delete must not touch: a protected folder, one above it, or one named as protected.\<close>

definition spares :: "bool \<Rightarrow> string list \<Rightarrow> string list \<Rightarrow> bool" where
  "spares linux dir r \<longleftrightarrow>
     \<not> prefix r dir \<and> (prefix dir r \<longrightarrow> \<not> list_ex (isProtectedSegmentName linux) (drop (length dir) r))"

lemma unprotected_spares:
  assumes "\<not> is_protected_place here linux dirs (to_path r)" and "to_path d \<in> set dirs" and "are_segs r" and "are_segs d"
  shows "spares linux d r"
  unfolding spares_def
proof (intro conjI impI)
  show "\<not> prefix r d" using assms holds_places [of r d here] by (auto simp: is_protected_place_def list_ex_iff)
  assume below: "prefix d r"
  then obtain us where us: "r = d @ us" by (auto simp: prefix_def)
  with assms(3) have usegs: "are_segs us" by simp
  have hold: "holdsPath here (to_path d) (to_path r)" using holds_places [OF assms(4,3)] below by simp
  let ?h = "filter (\<lambda>dir. holdsPath here dir (to_path r)) dirs"
  have h: "to_path d \<in> set ?h" using hold assms(2) by simp
  then have ne: "?h \<noteq> []" by (metis empty_iff list.set(1))
  from h have "path_relative here (to_path d) (to_path r) \<in> set (map (\<lambda>dir. path_relative here dir (to_path r)) ?h)"
    unfolding set_map by (rule imageI)
  then have "\<not> list_ex (isProtectedSegmentName linux) (either_segments (path_relative here (to_path d) (to_path r)))"
    using assms(1) unfolding is_protected_place_def Let_def if_P [OF ne] list_ex_iff [of _ "map _ _"] by blast
  then have no: "\<not> list_ex (isProtectedSegmentName linux) (either_segments (join_with ''/'' us))"
    using relative_below [OF assms(4) usegs] us by simp
  show "\<not> list_ex (isProtectedSegmentName linux) (drop (length d) r)"
    using no either_segments_name [OF usegs] protected_name_chars unfolding us list_ex_iff by auto
qed

text \<open>A clear verdict: wherever the system takes a target, the protected folders are spared.\<close>

lemma clear_spares:
  assumes fs: "fs_ok fs" and rp: "ge_realpath env = (\<lambda>_. realpath fs)" and kind: "grammarOfShellKind (si_kind shell) = PosixGrammar"
    and clear: "deletesProtectedTarget here linux env command cwd roots shell = Clear"
    and t: "t \<in> set (supportedDeleteTargets command (Some (si_kind shell, si_grammar shell)))"
    and cwd: "walk fs cwd = Inr (m, c)" and dir: "dir \<in> set (cwd # roots)" "walk fs dir = Inr (m', d)"
    and sys: "walk_path fs MAX_LINKS (if path_isAbsolute t then [] else c) (split_on CHR ''/'' t) = Inr (k, r)"
  shows "spares linux d r"
proof -
  let ?ts = "supportedDeleteTargets command (Some (si_kind shell, si_grammar shell))"
  have "?ts \<noteq> []" using t by auto
  define dl where "dl = ge_clock env 0 + ge_budget env"
  have clear': "(if ge_maxTargets env < length ?ts then Uncertain
      else case protected_dirs env dl 0 (cwd # roots) of None \<Rightarrow> Uncertain
        | Some dirs \<Rightarrow> judge_targets here linux env dl (si_kind shell) cwd dirs False (length (cwd # roots)) ?ts) = Clear"
    using clear \<open>?ts \<noteq> []\<close> unfolding deletesProtectedTarget_def Let_def dl_def by (simp only: if_False)
  then obtain dirs where dirs: "protected_dirs env dl 0 (cwd # roots) = Some dirs"
    by (metis guard_result.distinct(5) option.case_eq_if option.exhaust_sel)
  from clear' have judge: "judge_targets here linux env dl (si_kind shell) cwd dirs False (length (cwd # roots)) ?ts = Clear"
    unfolding dirs option.case by (metis guard_result.distinct(5))
  have real: "realpath fs dir = Inr (to_path d)" using dir(2) by (simp add: realpath_def)
  have "list_all2 (\<lambda>d r. realpath fs d = Inr r) (cwd # roots) dirs" by (rule protected_dirs_real [OF dirs rp])
  from list_all2_in [OF this dir(1)] obtain p where "p \<in> set dirs" "realpath fs dir = Inr p" by blast
  with real have din: "to_path d \<in> set dirs" by simp
  note this_target = judge_clear [OF judge rp t]
  then have "physicalDeleteTarget (realpath fs) t cwd (si_kind shell) \<noteq> TargetUncertain" by auto
  from physical_target_place [OF fs cwd kind this sys] this_target
  have un: "\<not> is_protected_place here linux dirs (to_path r)" by auto
  have start: "fs (if path_isAbsolute t then [] else c) \<noteq> None \<and> \<not> is_link (fs (if path_isAbsolute t then [] else c))"
    using walk_place [OF cwd fs] fs_ok_root [OF fs] by simp
  have "are_segs r" using walk_path_place [OF sys fs start] fs_ok_segs [OF fs] by blast
  moreover have "are_segs d" using walk_place [OF dir(2) fs] fs_ok_segs [OF fs] by blast
  ultimately show ?thesis using unprotected_spares [OF un din] by blast
qed

section \<open>The order of the gate\<close>

fun policy_mode :: "any_policy \<Rightarrow> approval_mode" where
  "policy_mode (WorkspacePolicy p) = cp_mode p"
| "policy_mode (AgentPolicy a) = agent_mode a"

definition prompts_of :: "gate_effect list \<Rightarrow> approval_context list" where
  "prompts_of fx = concat (map (\<lambda>f. case f of Asked c \<Rightarrow> [c] | _ \<Rightarrow> []) fx)"

lemma prompts_of_simps [simp]:
  "prompts_of [] = []" "prompts_of (fx @ gx) = prompts_of fx @ prompts_of gx" "prompts_of (Asked c # fx) = c # prompts_of fx"
  "prompts_of (OutsideRoot p # fx) = prompts_of fx" "prompts_of (CommandDisabled n # fx) = prompts_of fx" "prompts_of (FirstBlock # fx) = prompts_of fx"
  "prompts_of (ConfigOutsideRoot p # fx) = prompts_of fx"
  by (simp_all add: prompts_of_def)

lemma config_passes_simps [simp]:
  "fst (config_passes opts outside warned) = GateOk outside" "prompts_of (snd (snd (config_passes opts outside warned))) = []"
  by (auto simp: config_passes_def warnConfigOutsideRootOnce_def split: option.split)

text \<open>Who lets a command run: the verdict, unasked, or the person who was asked.\<close>

lemma gate_judged_ok:
  assumes "gate_judged here opts v warned = (GateOk out, warned', fx)"
  shows "prompts_of fx = [] \<and> vd_allowed v \<and> \<not> vd_dangerous v \<and> (go_source opts = ModelSource \<longrightarrow> out = None)
    \<or> (\<exists>c ask. prompts_of fx = [c] \<and> go_approver opts = Some ask \<and> ad_allow (ask c)
        \<and> (vd_dangerous v \<longrightarrow> ac_dangerous c \<and> ac_forcePrompt c \<and> ac_singleUse c)
        \<and> (vd_opaque v \<longrightarrow> ac_singleUse c) \<and> (out \<noteq> None \<and> go_source opts = ModelSource \<longrightarrow> ac_forcePrompt c))"
proof (cases "vd_dangerous v")
  case True
  with assms show ?thesis
    by (auto simp: gate_judged_def confirm_dangerous_def dangerous_context_def split: option.splits if_splits)
next
  case False
  have ctx: "ac_singleUse (approvalContext opts w u) = u" "ac_forcePrompt (approvalContext opts w u) \<longleftrightarrow> w \<noteq> None \<or> u" for w u
    by (simp_all add: approvalContext_def Let_def)
  let ?out = "detectOutsideRootPath here False (go_command opts) (go_roots opts)"
  let ?told = "case ?out of Some p \<Rightarrow> [OutsideRoot p] | None \<Rightarrow> []"
  have told: "prompts_of ?told = []" by (simp split: option.split)
  have go: "vd_allowed v \<or> vd_ask v" "(case go_source opts of
              ModelSource \<Rightarrow> (case gateModelCommand opts v ?out of (r, fx) \<Rightarrow> (r, warned, ?told @ fx))
            | ConfigSource \<Rightarrow> (case gateConfigCommand opts v ?out warned of (r, warned', fx) \<Rightarrow> (r, warned', ?told @ fx))) = (GateOk out, warned', fx)"
    using assms False by (auto simp: gate_judged_def Let_def blocked_by_policy_def split: option.splits if_splits bool.splits)
  show ?thesis
  proof (cases "go_source opts")
    case ModelSource
    then obtain gx where g: "gateModelCommand opts v ?out = (GateOk out, gx)" "fx = ?told @ gx"
      using go(2) by (cases "gateModelCommand opts v ?out") auto
    show ?thesis
    proof (cases "(vd_ask v \<or> ?out \<noteq> None) \<and> go_approver opts \<noteq> None")
      case True
      with g False ModelSource told show ?thesis
        by (auto simp: gateModelCommand_def Let_def not_approved_def withdrawnRefusal_def ctx split: option.splits if_splits)
    next
      case no: False
      with g(1) have "?out = None" by (auto simp: gateModelCommand_def split: option.splits)
      with no g False ModelSource told show ?thesis
        by (auto simp: gateModelCommand_def Let_def blocked_by_policy_def split: if_splits)
    qed
  next
    case ConfigSource
    then obtain gx where g: "gateConfigCommand opts v ?out warned = (GateOk out, warned', gx)" "fx = ?told @ gx"
      using go(2) by (cases "gateConfigCommand opts v ?out warned") auto
    have passes: "prompts_of y = []" "x = GateOk ?out" if "config_passes opts ?out warned = (x, w, y)" for x w y
      using that config_passes_simps [of opts ?out warned] by simp_all
    show ?thesis
    proof (cases "vd_ask v")
      case True
      with g(1) obtain ask where "go_approver opts = Some ask" "ad_allow (ask (approvalContext opts None (vd_opaque v)))"
          "prompts_of gx = [approvalContext opts None (vd_opaque v)]"
        using passes
        by (auto simp: gateConfigCommand_def Let_def blocked_by_policy_def not_approved_def withdrawnRefusal_def split: option.splits if_splits prod.splits)
      with g(2) told ConfigSource False show ?thesis by (auto simp: ctx)
    next
      case no: False
      with g(1) have "prompts_of gx = []" using passes by (auto simp: gateConfigCommand_def)
      with no go(1) g(2) told ConfigSource False show ?thesis by simp
    qed
  qed
qed

definition policy_verdict :: "gate_options \<Rightarrow> verdict" where
  "policy_verdict opts =
     (case go_policy opts of
        Some p \<Rightarrow> fst (policy_check p (go_command opts) (go_shell opts))
      | None \<Rightarrow> noPolicyVerdict (go_command opts) (Some (si_kind (go_shell opts), si_grammar (go_shell opts))))"

lemma gate_parts:
  assumes "gt_result (gateShellCommand here linux env warned opts) = GateOk out"
  obtains warned' fx where "gate_judged here opts (physical_verdict here linux env opts (policy_verdict opts)) warned = (GateOk out, warned', fx)"
    and "prompts_of (gt_effects (gateShellCommand here linux env warned opts)) = prompts_of fx"
proof -
  obtain v p' called where checked: "(case go_policy opts of
              Some p \<Rightarrow> (case policy_check p (go_command opts) (go_shell opts) of (v, p', called) \<Rightarrow> (v, Some p', if called then [FirstBlock] else []))
            | None \<Rightarrow> (noPolicyVerdict (go_command opts) (Some (si_kind (go_shell opts), si_grammar (go_shell opts))), None, [])) = (v, p', called)"
    by (metis prod_cases3)
  then have v: "v = policy_verdict opts" "prompts_of called = []"
    by (auto simp: policy_verdict_def split: option.splits prod.splits if_splits)
  obtain r w fx where judged: "gate_judged here opts (physical_verdict here linux env opts v) warned = (r, w, fx)"
    by (metis prod_cases3)
  have enabled: "\<not> vd_disabled v"
    using assms unfolding gateShellCommand_def Let_def checked fst_conv snd_conv by (auto split: if_splits)
  then have "r = GateOk out" "gt_effects (gateShellCommand here linux env warned opts) = called @ fx"
    using assms unfolding gateShellCommand_def Let_def checked fst_conv snd_conv judged by simp_all
  with judged v that show thesis by simp
qed

text \<open>A policy of any mode but all allows unasked only with a plain verdict.\<close>

lemma check_command_allowed:
  assumes "vd_allowed (fst (check_command p command shell))"
  shows "fst (check_command p command shell) = allow
    \<or> cp_mode p = ModeAll \<and> (\<exists>r. inspectCommand (js_trim command) (Some (si_kind shell, si_grammar shell)) = Opaque r)"
  using assms
  by (auto simp: check_command_def Let_def refuse_with_def allow_def dangerous_verdict_def opaqueVerdict_def
      split: if_splits inspection.splits option.splits approval_mode.splits)

lemma check_command_opaque:
  "inspectCommand (js_trim command) (Some (si_kind shell, si_grammar shell)) = Opaque r \<Longrightarrow> cp_mode p \<noteq> ModeAll \<Longrightarrow>
     \<not> vd_allowed (fst (check_command p command shell))"
  by (cases "cp_mode p") (auto simp: check_command_def Let_def refuse_with_def allow_def opaqueVerdict_def)

lemma decorate_allowed: "vd_allowed v \<Longrightarrow> decorateGlobal v = v"
  by (simp add: decorateGlobal_def)

lemma agent_verdict_allowed:
  assumes "vd_allowed (fst (agent_check a command shell))" and "agent_mode a \<noteq> ModeAll"
  shows "fst (agent_check a command shell) = allow"
proof -
  obtain v p called where global: "check_command (ap_global a) command shell = (v, p, called)" by (cases "check_command (ap_global a) command shell")
  have ok: "vd_allowed v" "fst (agent_check a command shell) = v" and
      narrowed: "\<And>n. ap_narrowing a = Some n \<Longrightarrow> vd_allowed (fst (check_command (narrowed_policy a n (si_grammar shell)) command shell))"
    using assms(1) check_flags [of "ap_global a" command shell] global
    by (auto simp: agent_check_def agent_verdict_def Let_def refuse_with_def allow_def decorate_allowed split: option.splits if_splits)
  from check_command_allowed [of "ap_global a" command shell] ok(1) global
  consider "v = allow" | r where "cp_mode (ap_global a) = ModeAll" "inspectCommand (js_trim command) (Some (si_kind shell, si_grammar shell)) = Opaque r"
    by auto
  then show ?thesis
  proof cases
    case 2
    with assms(2) obtain n where n: "ap_narrowing a = Some n" "narrowerCommandMode ModeAll (cn_mode n) \<noteq> ModeAll"
      by (auto simp: agent_mode_def split: option.splits)
    then have "cp_mode (narrowed_policy a n (si_grammar shell)) \<noteq> ModeAll" using 2(1) by (simp add: narrowed_policy_def new_policy_def)
    from check_command_opaque [OF 2(2) this] narrowed [OF n(1)] show ?thesis by blast
  qed (simp add: ok)
qed

lemma policy_verdict_allowed:
  assumes "vd_allowed (policy_verdict opts)" and "\<forall>p. go_policy opts = Some p \<longrightarrow> policy_mode p \<noteq> ModeAll"
  shows "policy_verdict opts = allow"
proof (cases "go_policy opts")
  case None
  with assms(1) show ?thesis
    by (auto simp: policy_verdict_def noPolicyVerdict_def refuse_with_def allow_def dangerous_verdict_def split: inspection.splits)
next
  case (Some p)
  show ?thesis
  proof (cases p)
    case (WorkspacePolicy w)
    with Some assms check_command_allowed [of w "go_command opts" "go_shell opts"] show ?thesis
      by (auto simp: policy_verdict_def policy_check_def split_beta)
  next
    case (AgentPolicy a)
    with Some assms agent_verdict_allowed [of a "go_command opts" "go_shell opts"] show ?thesis
      by (auto simp: policy_verdict_def policy_check_def split_beta)
  qed
qed

lemma physical_verdict_allowed:
  assumes "vd_allowed (physical_verdict here linux env opts (policy_verdict opts))"
    and "\<forall>p. go_policy opts = Some p \<longrightarrow> policy_mode p \<noteq> ModeAll"
  shows "deletesProtectedTarget here linux env (go_command opts) (go_cwd opts) (go_roots opts) (go_shell opts) = Clear"
proof (rule ccontr)
  assume no: "\<not> ?thesis"
  let ?v = "policy_verdict opts"
  show False
  proof (cases "vd_reason ?v = Some DESTRUCTIVE_PATTERN_REASON \<or> vd_opaque ?v")
    case True
    with assms(1) have "vd_allowed ?v" by (simp add: physical_verdict_def)
    with True policy_verdict_allowed [OF _ assms(2)] show False by (auto simp: allow_def)
  next
    case False
    with no assms show False
      by (cases "deletesProtectedTarget here linux env (go_command opts) (go_cwd opts) (go_roots opts) (go_shell opts)")
        (auto simp: physical_verdict_def dangerous_verdict_def refuse_with_def allow_def policy_opaqueVerdict_def agent_opaqueVerdict_def
          split: option.splits any_policy.splits)
  qed
qed

text \<open>
  C5: An unasked delete spares the folders. In every mode but all and in a POSIX shell, let a command run with nobody
  asked, and take any operand of the recursive or forced deletes the guard recognises in it (\<open>rm -r\<close>,
  \<open>rm -f\<close> and their like, read by \<open>supportedDeleteTargets\<close>). Wherever the system takes that operand
  from the working folder, through links and steps up, in the one file system the guard looked at and which does not
  change under it, that place is not the working folder, a root or a folder above one, and has no protected
  name below one, however the guard's clock, slots and slow queries fell. Deletes the guard does not
  recognise, as \<open>rm file\<close> with no such option, are not spoken of.
\<close>

theorem unasked_deletes_spare_the_folders:
  assumes "gt_result (gateShellCommand here linux env warned opts) = GateOk out"
    and "prompts_of (gt_effects (gateShellCommand here linux env warned opts)) = []"
    and "\<forall>p. go_policy opts = Some p \<longrightarrow> policy_mode p \<noteq> ModeAll"
    and "fs_ok fs" and "ge_realpath env = (\<lambda>_. realpath fs)"
    and "grammarOfShellKind (si_kind (go_shell opts)) = PosixGrammar"
    and "t \<in> set (supportedDeleteTargets (go_command opts) (Some (si_kind (go_shell opts), si_grammar (go_shell opts))))"
    and "walk fs (go_cwd opts) = Inr (m, c)" and "dir \<in> set (go_cwd opts # go_roots opts)" and "walk fs dir = Inr (m', d)"
    and "walk_path fs MAX_LINKS (if path_isAbsolute t then [] else c) (split_on CHR ''/'' t) = Inr (k, r)"
  shows "spares linux d r"
proof -
  obtain w fx where judged: "gate_judged here opts (physical_verdict here linux env opts (policy_verdict opts)) warned = (GateOk out, w, fx)"
      "prompts_of (gt_effects (gateShellCommand here linux env warned opts)) = prompts_of fx"
    using gate_parts [OF assms(1)] .
  with gate_judged_ok [OF judged(1)] assms(2) have "vd_allowed (physical_verdict here linux env opts (policy_verdict opts))" by auto
  from physical_verdict_allowed [OF this assms(3)]
  show ?thesis by (rule clear_spares [OF assms(4-6) _ assms(7-11)])
qed

text \<open>
  C6: A command runs only when the verdict after the physical half allows it and nobody is asked, or when exactly one
  person was asked and allowed it. A path outside the roots is never run unasked for a model; the approval of a dangerous or
  unreadable command is for one use, and a dangerous one and one that leaves the roots always opens a prompt.
\<close>

theorem nothing_runs_without_a_verdict_or_a_person:
  assumes "gt_result (gateShellCommand here linux env warned opts) = GateOk out"
  shows "(let v = physical_verdict here linux env opts (policy_verdict opts);
      prompts = prompts_of (gt_effects (gateShellCommand here linux env warned opts)) in
    prompts = [] \<and> vd_allowed v \<and> \<not> vd_dangerous v \<and> (go_source opts = ModelSource \<longrightarrow> out = None)
    \<or> (\<exists>c ask. prompts = [c] \<and> go_approver opts = Some ask \<and> ad_allow (ask c)
        \<and> (vd_dangerous v \<longrightarrow> ac_dangerous c \<and> ac_forcePrompt c \<and> ac_singleUse c)
        \<and> (vd_opaque v \<longrightarrow> ac_singleUse c) \<and> (out \<noteq> None \<and> go_source opts = ModelSource \<longrightarrow> ac_forcePrompt c)))"
proof -
  obtain w fx where judged: "gate_judged here opts (physical_verdict here linux env opts (policy_verdict opts)) warned = (GateOk out, w, fx)"
      "prompts_of (gt_effects (gateShellCommand here linux env warned opts)) = prompts_of fx"
    using gate_parts [OF assms] .
  from gate_judged_ok [OF judged(1)] show ?thesis unfolding Let_def judged(2) .
qed

definition bash_shell :: shell_identity where
  "bash_shell = \<lparr>si_kind = KBash, si_grammar = PosixGrammar, si_label = ''bash'', si_source = DirectFallback, si_fingerprint = []\<rparr>"

definition quick_env :: guard_env where
  "quick_env = \<lparr>ge_maxTargets = 32, ge_budget = 1000, ge_clock = (\<lambda>_. 0), ge_saturated = (\<lambda>_. False), ge_slow = (\<lambda>_. False),
     ge_realpath = (\<lambda>_. realpath small_fs)\<rparr>"

definition small_gate :: "string \<Rightarrow> any_policy option \<Rightarrow> (approval_context \<Rightarrow> approval_decision) option \<Rightarrow> gate_options" where
  "small_gate command policy approver =
     \<lparr>go_command = command, go_roots = [''/w''], go_cwd = ''/w'', go_source = ModelSource, go_shell = bash_shell, go_notice = None,
      go_aborted = False, go_policy = policy, go_approver = approver, go_warns = False\<rparr>"

theorem unasked_deletes_spare_the_folders_witness:
  "gt_result (gateShellCommand ''/'' True quick_env [] (small_gate ''rm -r in'' None None)) = GateOk None
   \<and> spares True [''w''] [''w'', ''d'']"
proof
  let ?opts = "small_gate ''rm -r in'' None None"
  show res: "gt_result (gateShellCommand ''/'' True quick_env [] ?opts) = GateOk None" by code_simp
  have none: "prompts_of (gt_effects (gateShellCommand ''/'' True quick_env [] ?opts)) = []" by code_simp
  have pol: "\<forall>p. go_policy ?opts = Some p \<longrightarrow> policy_mode p \<noteq> ModeAll" by (simp add: small_gate_def)
  have rp: "ge_realpath quick_env = (\<lambda>_. realpath small_fs)" by (simp add: quick_env_def)
  have kind: "grammarOfShellKind (si_kind (go_shell ?opts)) = PosixGrammar" by code_simp
  have "supportedDeleteTargets ''rm -r in'' (Some (si_kind bash_shell, si_grammar bash_shell)) = [''-r'', ''in'']" by code_simp
  then have t: "''in'' \<in> set (supportedDeleteTargets (go_command ?opts) (Some (si_kind (go_shell ?opts), si_grammar (go_shell ?opts))))"
    by (simp add: small_gate_def)
  have cwd: "walk small_fs (go_cwd ?opts) = Inr (40, [''w''])" by code_simp
  have dir: "go_cwd ?opts \<in> set (go_cwd ?opts # go_roots ?opts)" by simp
  have sys: "walk_path small_fs MAX_LINKS (if path_isAbsolute ''in'' then [] else [''w'']) (split_on CHR ''/'' ''in'') = Inr (39, [''w'', ''d''])"
    by code_simp
  show "spares True [''w''] [''w'', ''d'']"
    by (rule unasked_deletes_spare_the_folders [OF res none pol small_fs_ok rp kind t cwd dir cwd sys])
qed

theorem nothing_runs_without_a_verdict_or_a_person_witness:
  "vd_allowed (physical_verdict ''/'' True quick_env (small_gate ''ls'' None None) (policy_verdict (small_gate ''ls'' None None)))"
proof -
  let ?opts = "small_gate ''ls'' None None"
  have res: "gt_result (gateShellCommand ''/'' True quick_env [] ?opts) = GateOk None" by code_simp
  have "go_approver ?opts = None" by (simp add: small_gate_def)
  with nothing_runs_without_a_verdict_or_a_person [OF res] show ?thesis by (auto simp: Let_def)
qed

section \<open>What the gate does with some commands\<close>

text \<open>
  A refused command becomes one a person may allow when its target turns out to be protected: the same command with a
  target that is not is refused for good.
\<close>

lemma a_refusal_becomes_a_prompt:
  "gt_result (gateShellCommand ''/'' True quick_env [] (small_gate ''rm -r d''
     (Some (WorkspacePolicy (new_policy ModeAllowlist NoInputs))) (Some (\<lambda>_. \<lparr>ad_allow = True, ad_note = None, ad_withdrawn = False\<rparr>)))) \<noteq> GateOk None
   \<and> gt_result (gateShellCommand ''/'' True quick_env [] (small_gate ''rm -r in/..''
     (Some (WorkspacePolicy (new_policy ModeAllowlist NoInputs))) (Some (\<lambda>_. \<lparr>ad_allow = True, ad_note = None, ad_withdrawn = False\<rparr>)))) = GateOk None"
  by code_simp

text \<open>
  When the guard cannot tell, an agent's policy answers with the mode of its own instance, none: the command is
  refused as disabled whatever mode is in force, and nobody is asked.
\<close>

lemma an_agent_is_never_asked_when_unsure:
  assumes "go_policy opts = Some (AgentPolicy a)" and "\<not> vd_disabled (policy_verdict opts)"
    and "vd_reason (policy_verdict opts) \<noteq> Some DESTRUCTIVE_PATTERN_REASON" and "\<not> vd_opaque (policy_verdict opts)"
    and "deletesProtectedTarget here linux env (go_command opts) (go_cwd opts) (go_roots opts) (go_shell opts) = Uncertain"
    and "shellCompatibilityProblem (go_command opts) (go_shell opts) = None"
  shows "gt_result (gateShellCommand here linux env warned opts)
      = GateBlocked PolicyBlock (GateText (policyBlockMessage (Some DISABLED_REASON))) (Some DISABLED_REASON) None None
    \<and> prompts_of (gt_effects (gateShellCommand here linux env warned opts)) = []"
proof -
  obtain v p' called where check: "policy_check (AgentPolicy a) (go_command opts) (go_shell opts) = (v, p', called)" by (metis prod_cases3)
  then have v: "policy_verdict opts = v" using assms(1) by (simp add: policy_verdict_def)
  have "physical_verdict here linux env opts v = opaqueVerdict ModeNone UNCONFIRMED"
    using assms(1,3-5) by (simp add: physical_verdict_def policy_opaqueVerdict_def agent_opaqueVerdict_def v)
  moreover have "DISABLED_REASON \<noteq> DESTRUCTIVE_PATTERN_REASON" by code_simp
  ultimately show ?thesis
    using assms(2,6)
    by (simp add: gateShellCommand_def assms(1) check Let_def v gate_judged_def blocked_by_policy_def opaqueVerdict_def refuse_with_def allow_def)
qed

text \<open>A folder of a root whose name starts with two dots is inside it, and the gate takes it for one outside.\<close>

lemma dotted_child_is_flagged:
  "detectOutsideRootPath ''/'' False ''cat /w/..cache/x'' [''/w''] = Some ''/w/..cache/x'' \<and> isPathInsideOrEqual ''/'' ''/w'' ''/w/..cache/x''"
  by code_simp

text \<open>However queries start and settle, no more are in flight than the limit.\<close>

lemma queries_stay_within_the_limit: "active \<le> limit \<Longrightarrow> fst (run_trace (query_step limit) active ops) \<le> limit"
proof (induction ops arbitrary: active)
  case (Cons op ops)
  have "fst (query_step limit active op) \<le> limit" using Cons.prems by (cases op) (auto simp: query_step_def)
  from Cons.IH [OF this] show ?case by (simp add: Let_def)
qed simp

end
