(* ===== verification/FolderAccess.thy ===== *)
theory FolderAccess
  imports WorkspacePath
begin

text \<open>
  Folder Access (\<open>src/src/backend/folderAccess.ts\<close>, \<open>readRoots.ts\<close>): from the folders and files an agent is
  granted to the roots and exact files it may read and write, and the intersection of that with the scope of one task.

  A grant is looked at twice, and the file system may change in between and from grant to grant: \<open>seen i\<close> is
  the snapshot the \<open>i\<close>-th grant is found in, and the one it is resolved in. What is admitted is a list of physical
  places, and the laws speak of what it lets an agent read and write.
\<close>

section \<open>Grants\<close>

datatype folder_permission = ReadGrant | ReadWriteGrant

text \<open>A grant as it is configured: \<open>None\<close> is a permission of no known name.\<close>

record folder_grant =
  fg_path :: string
  fg_permission :: "folder_permission option"

datatype grant_kind = DirectoryGrant | FileGrant

record resolved_grant =
  rg_kind :: grant_kind
  rg_permission :: folder_permission
  rg_lexicalPath :: string
  rg_realPath :: string
  rg_realParent :: string

datatype access_issue_kind = MissingPath | UntrustedOutsideWorkspace | DuplicateConflict | ReadInsideReadwrite

record access_issue =
  ai_kind :: access_issue_kind
  ai_path :: string
  ai_message :: string

record workspace_scope =
  sc_readRoots :: "string list"
  sc_writeRoots :: "string list"
  sc_readFiles :: "resolved_grant list"
  sc_writeFiles :: "resolved_grant list"

record effective_roots = workspace_scope +
  er_primaryRoot :: string
  er_restricted :: bool
  er_issues :: "access_issue list"

record task_access = workspace_scope +
  ta_pathBase :: string
  ta_commandCwd :: "string option"

definition isFileGrant :: "resolved_grant \<Rightarrow> bool" where
  "isFileGrant g \<longleftrightarrow> rg_kind g = FileGrant"

definition nounOf :: "resolved_grant \<Rightarrow> string" where
  "nounOf g = (if rg_kind g = FileGrant then ''file'' else ''folder'')"

definition writeRootsForTrust :: "'a list \<Rightarrow> bool \<Rightarrow> 'a list" where
  "writeRootsForTrust roots trusted = (if trusted then roots else [])"

definition samePath :: "string \<Rightarrow> string \<Rightarrow> string \<Rightarrow> bool" where
  "samePath cwd left right \<longleftrightarrow> path_relative cwd left right = []"

section \<open>Roots and exact files\<close>

text \<open>\<open>sort\<close> by length is stable, in JavaScript as here.\<close>

definition keep_outermost :: "string \<Rightarrow> string list \<Rightarrow> string list" where
  "keep_outermost cwd roots =
     foldl (\<lambda>kept r. if list_ex (\<lambda>parent. isPathInsideOrEqual cwd parent r) kept then kept else kept @ [r]) [] roots"

definition collapseRoots :: "string \<Rightarrow> string list \<Rightarrow> string list" where
  "collapseRoots cwd roots = keep_outermost cwd (sort_key length (js_unique (map (\<lambda>r. path_resolve cwd [r]) roots)))"

definition overlap_root :: "string \<Rightarrow> string \<Rightarrow> string \<Rightarrow> string list \<Rightarrow> string list" where
  "overlap_root cwd leftRoot rightRoot roots =
     (if isPathInsideOrEqual cwd leftRoot rightRoot then set_add rightRoot roots
      else if isPathInsideOrEqual cwd rightRoot leftRoot then set_add leftRoot roots
      else roots)"

definition intersectFolderRoots :: "string \<Rightarrow> string list \<Rightarrow> string list \<Rightarrow> string list" where
  "intersectFolderRoots cwd left right =
     sort_key length
       (foldl (\<lambda>roots l. foldl (\<lambda>roots r. overlap_root cwd (path_resolve cwd [l]) (path_resolve cwd [r]) roots) roots right) [] left)"

definition uniqueFiles :: "string \<Rightarrow> resolved_grant list \<Rightarrow> resolved_grant list" where
  "uniqueFiles cwd files =
     foldl (\<lambda>kept f. if list_ex (\<lambda>other. samePath cwd (rg_realPath other) (rg_realPath f)) kept then kept else kept @ [f]) [] files"

definition intersectFileGrants ::
  "string \<Rightarrow> string list \<Rightarrow> resolved_grant list \<Rightarrow> string list \<Rightarrow> resolved_grant list \<Rightarrow> resolved_grant list" where
  "intersectFileGrants cwd configuredRoots configuredFiles requestedRoots requestedFiles =
     filter (\<lambda>f. list_ex (\<lambda>r. isPathInsideOrEqual cwd (path_resolve cwd [r]) (rg_realPath f)) configuredRoots
               \<or> list_ex (\<lambda>other. samePath cwd (rg_realPath other) (rg_realPath f)) configuredFiles) requestedFiles
     @ filter (\<lambda>f. list_ex (\<lambda>r. isPathInsideOrEqual cwd (path_resolve cwd [r]) (rg_realPath f)) requestedRoots) configuredFiles"

text \<open>The files to read and the files to write.\<close>

definition exactFileGrants ::
  "string \<Rightarrow> string list \<Rightarrow> string list \<Rightarrow> resolved_grant list \<Rightarrow> resolved_grant list \<Rightarrow> resolved_grant list \<times> resolved_grant list" where
  "exactFileGrants cwd readRoots writeRoots readable writable =
     (let writeFiles = map (\<lambda>f. f\<lparr>rg_permission := ReadWriteGrant\<rparr>)
            (filter (\<lambda>f. \<not> list_ex (\<lambda>r. isPathInsideOrEqual cwd r (rg_realPath f)) writeRoots) (uniqueFiles cwd writable));
          readOnlyFiles = map (\<lambda>f. f\<lparr>rg_permission := ReadGrant\<rparr>)
            (filter (\<lambda>f. \<not> list_ex (\<lambda>r. isPathInsideOrEqual cwd r (rg_realPath f)) readRoots)
              (filter (\<lambda>f. \<not> list_ex (\<lambda>other. samePath cwd (rg_realPath other) (rg_realPath f)) writeFiles) (uniqueFiles cwd readable)))
      in (writeFiles @ readOnlyFiles, writeFiles))"

definition intersectTaskWorkspaceAccess ::
  "string \<Rightarrow> 'a workspace_scope_scheme \<Rightarrow> 'b workspace_scope_scheme \<Rightarrow> bool \<Rightarrow> string \<Rightarrow> task_access option" where
  "intersectTaskWorkspaceAccess cwd configured requested trusted pathBase =
     (let readRoots = intersectFolderRoots cwd (sc_readRoots configured) (sc_readRoots requested);
          writeRoots = writeRootsForTrust (intersectFolderRoots cwd (sc_writeRoots configured) (sc_writeRoots requested)) trusted;
          (readFiles, writeFiles) = exactFileGrants cwd readRoots writeRoots
            (intersectFileGrants cwd (sc_readRoots configured) (sc_readFiles configured) (sc_readRoots requested) (sc_readFiles requested))
            (writeRootsForTrust
              (intersectFileGrants cwd (sc_writeRoots configured) (sc_writeFiles configured) (sc_writeRoots requested) (sc_writeFiles requested))
              trusted)
      in if readRoots = [] \<and> readFiles = [] then None
         else Some \<lparr>sc_readRoots = readRoots, sc_writeRoots = writeRoots, sc_readFiles = readFiles, sc_writeFiles = writeFiles,
                    ta_pathBase = path_resolve cwd [pathBase],
                    ta_commandCwd = (if writeRoots = [] then None else Some (hd writeRoots))\<rparr>)"

section \<open>Admitting grants\<close>

definition existsSync :: "host_fs \<Rightarrow> string \<Rightarrow> bool" where
  "existsSync fs p \<longleftrightarrow> (case stat fs p of Inr _ \<Rightarrow> True | Inl _ \<Rightarrow> False)"

text \<open>What throws throws an error of the file system.\<close>

definition resolvePathGrant :: "host_fs \<Rightarrow> string \<Rightarrow> folder_permission \<Rightarrow> fs_error + resolved_grant" where
  "resolvePathGrant fs lexicalPath permission =
     bind_sum (realpath fs lexicalPath) (\<lambda>realPath.
     bind_sum (lstat fs realPath) (\<lambda>node.
     bind_sum (realpath fs (path_dirname lexicalPath)) (\<lambda>realParent.
       Inr \<lparr>rg_kind = (if is_dir (Some node) then DirectoryGrant else FileGrant), rg_permission = permission,
            rg_lexicalPath = lexicalPath, rg_realPath = realPath, rg_realParent = realParent\<rparr>)))"

record access_options =
  ao_grants :: "folder_grant list option"
  ao_fallbackPrimaryRoot :: string
  ao_fallbackReadRoots :: "string list"
  ao_workspaceRoots :: "string list"
  ao_isTrusted :: bool

text \<open>What becomes of one grant: it is skipped, an issue, or admitted.\<close>

definition read_grant ::
  "string \<Rightarrow> string \<Rightarrow> string list \<Rightarrow> bool \<Rightarrow> host_fs \<times> host_fs \<Rightarrow> folder_grant \<Rightarrow> access_issue option + resolved_grant" where
  "read_grant cwd primary workspaceRoots trusted look grant =
     (let raw = js_trim (fg_path grant) in
      case fg_permission grant of
        None \<Rightarrow> Inl None
      | Some permission \<Rightarrow>
          if raw = [] then Inl None
          else let absp = (if path_isAbsolute raw then path_resolve cwd [raw] else path_resolve cwd [primary, raw]) in
            if \<not> existsSync (fst look) absp then Inl (Some \<lparr>ai_kind = MissingPath, ai_path = raw, ai_message = ''Path does not exist: '' @ raw\<rparr>)
            else (case resolvePathGrant (snd look) absp permission of
                    Inl _ \<Rightarrow> Inl (Some \<lparr>ai_kind = MissingPath, ai_path = raw, ai_message = ''Path is not accessible: '' @ raw\<rparr>)
                  | Inr g \<Rightarrow>
                      if \<not> trusted \<and> \<not> list_ex (\<lambda>r. isPathInsideOrEqual cwd r (rg_realPath g)) workspaceRoots
                      then Inl (Some \<lparr>ai_kind = UntrustedOutsideWorkspace, ai_path = raw,
                             ai_message = ''Ignored outside-workspace '' @ nounOf g @ '' in an untrusted workspace: '' @ raw\<rparr>)
                      else Inr g))"

definition admit_grant ::
  "string \<Rightarrow> resolved_grant \<Rightarrow> access_issue list \<times> (string, resolved_grant) jsmap \<Rightarrow> access_issue list \<times> (string, resolved_grant) jsmap" where
  "admit_grant raw g s =
     (case js_get (snd s) (rg_realPath g) of
        None \<Rightarrow> (fst s, js_set (rg_realPath g) g (snd s))
      | Some existing \<Rightarrow>
          if rg_permission existing \<noteq> rg_permission g
          then (fst s @ [\<lparr>ai_kind = DuplicateConflict, ai_path = raw,
                  ai_message = ''Duplicate '' @ nounOf g @ '' has conflicting permissions; using read-only: '' @ raw\<rparr>],
                js_set (rg_realPath g) (existing\<lparr>rg_permission := ReadGrant\<rparr>) (snd s))
          else s)"

definition grant_step ::
  "folder_grant \<Rightarrow> access_issue option + resolved_grant \<Rightarrow> access_issue list \<times> (string, resolved_grant) jsmap
     \<Rightarrow> access_issue list \<times> (string, resolved_grant) jsmap" where
  "grant_step grant outcome s =
     (case outcome of
        Inl None \<Rightarrow> s
      | Inl (Some issue) \<Rightarrow> (fst s @ [issue], snd s)
      | Inr g \<Rightarrow> admit_grant (js_trim (fg_path grant)) g s)"

definition read_inside_issues :: "string \<Rightarrow> string list \<Rightarrow> resolved_grant list \<Rightarrow> access_issue list" where
  "read_inside_issues cwd readwriteRoots grants =
     List.map_filter (\<lambda>g.
       if rg_permission g \<noteq> ReadGrant then None
       else (case find (\<lambda>r. r \<noteq> rg_realPath g \<and> isPathInsideOrEqual cwd r (rg_realPath g)) readwriteRoots of
               None \<Rightarrow> None
             | Some parent \<Rightarrow> Some \<lparr>ai_kind = ReadInsideReadwrite, ai_path = rg_realPath g,
                 ai_message = ''Read-only '' @ nounOf g @ '' is inside writable folder '' @ parent @ ''; it is writable in practice: '' @ rg_realPath g\<rparr>)) grants"

definition real_workspace_roots :: "string \<Rightarrow> host_fs \<Rightarrow> string list \<Rightarrow> string list" where
  "real_workspace_roots cwd fs roots =
     map (\<lambda>r. let resolved = path_resolve cwd [r] in case realpath fs resolved of Inr real' \<Rightarrow> real' | Inl _ \<Rightarrow> resolved) roots"

definition grant_outcomes :: "string \<Rightarrow> host_fs \<Rightarrow> (nat \<Rightarrow> host_fs \<times> host_fs) \<Rightarrow> access_options \<Rightarrow> (folder_grant \<times> (access_issue option + resolved_grant)) list" where
  "grant_outcomes cwd fs seen opts =
     map (\<lambda>(i, grant). (grant, read_grant cwd (path_resolve cwd [ao_fallbackPrimaryRoot opts])
            (real_workspace_roots cwd fs (ao_workspaceRoots opts)) (ao_isTrusted opts) (seen i) grant))
       (enumerate 0 (case ao_grants opts of None \<Rightarrow> [] | Some gs \<Rightarrow> gs))"

definition unrestricted_roots :: "string \<Rightarrow> access_options \<Rightarrow> effective_roots" where
  "unrestricted_roots cwd opts =
     (let primary = path_resolve cwd [ao_fallbackPrimaryRoot opts]
      in \<lparr>sc_readRoots = collapseRoots cwd (primary # map (\<lambda>r. path_resolve cwd [r]) (ao_fallbackReadRoots opts)), sc_writeRoots = [primary],
          sc_readFiles = [], sc_writeFiles = [], er_primaryRoot = primary, er_restricted = False, er_issues = []\<rparr>)"

definition resolveEffectiveRoots :: "string \<Rightarrow> host_fs \<Rightarrow> (nat \<Rightarrow> host_fs \<times> host_fs) \<Rightarrow> access_options \<Rightarrow> effective_roots" where
  "resolveEffectiveRoots cwd fs seen opts =
     (if ao_grants opts = None \<or> ao_grants opts = Some [] then unrestricted_roots cwd opts
      else let (issues, byReal) = foldl (\<lambda>s (grant, outcome). grant_step grant outcome s) ([], []) (grant_outcomes cwd fs seen opts);
               grants = js_values byReal;
               directories = filter (\<lambda>g. rg_kind g = DirectoryGrant) grants;
               readwriteRoots = map rg_realPath (filter (\<lambda>g. rg_permission g = ReadWriteGrant) directories);
               writeRoots = collapseRoots cwd readwriteRoots;
               readRoots = collapseRoots cwd (map rg_realPath directories @ writeRoots);
               files = filter isFileGrant grants;
               (readFiles, writeFiles) = exactFileGrants cwd readRoots writeRoots files (filter (\<lambda>g. rg_permission g = ReadWriteGrant) files)
           in \<lparr>sc_readRoots = readRoots, sc_writeRoots = writeRoots, sc_readFiles = readFiles, sc_writeFiles = writeFiles,
               er_primaryRoot = (case writeRoots @ readRoots of r # _ \<Rightarrow> r | [] \<Rightarrow> path_resolve cwd [ao_fallbackPrimaryRoot opts]),
               er_restricted = True, er_issues = issues @ read_inside_issues cwd readwriteRoots grants\<rparr>)"

section \<open>What has become of an exact file\<close>

datatype file_grant_state = GrantPresent | GrantAbsent | GrantChanged

definition exactFileGrantState :: "string \<Rightarrow> host_fs \<Rightarrow> resolved_grant \<Rightarrow> file_grant_state" where
  "exactFileGrantState cwd fs grant =
     (case realpath fs (rg_lexicalPath grant) of
        Inr real' \<Rightarrow> if samePath cwd real' (rg_realPath grant) then GrantPresent else GrantChanged
      | Inl _ \<Rightarrow>
          if nameIsTaken fs (rg_lexicalPath grant) then GrantChanged
          else (case realpath fs (path_dirname (rg_lexicalPath grant)) of
                  Inr real' \<Rightarrow> if samePath cwd real' (rg_realParent grant) then GrantAbsent else GrantChanged
                | Inl _ \<Rightarrow> GrantChanged))"

definition readablePathCeilings :: "'a workspace_scope_scheme \<Rightarrow> string list" where
  "readablePathCeilings roots = sc_readRoots roots @ map rg_realPath (sc_readFiles roots)"

definition exactFileGrantsOnFolderRoute :: "'a workspace_scope_scheme \<Rightarrow> string list \<times> bool" where
  "exactFileGrantsOnFolderRoute roots =
     (let ignored = map rg_lexicalPath (sc_readFiles roots) in (ignored, ignored \<noteq> [] \<and> sc_readRoots roots = []))"

section \<open>The read roots of an agent without grants\<close>

definition normalizeReadRoots :: "string \<Rightarrow> host_fs \<Rightarrow> string list \<Rightarrow> string list" where
  "normalizeReadRoots cwd fs roots =
     keep_outermost cwd (sort_key length
       (foldl (\<lambda>resolved raw. let absp = path_resolve cwd [raw] in
                 if \<not> existsSync fs absp then resolved
                 else (case realpath fs absp of Inr real' \<Rightarrow> set_add real' resolved | Inl _ \<Rightarrow> resolved)) [] roots))"

definition normalizeAgentReadRoots :: "string \<Rightarrow> host_fs \<Rightarrow> string \<Rightarrow> string list \<Rightarrow> string list \<Rightarrow> bool \<Rightarrow> string list" where
  "normalizeAgentReadRoots cwd fs primaryRoot workspaceRoots additionalRoots trusted =
     (let primary = path_resolve cwd [primaryRoot]
      in filter (\<lambda>r. path_resolve cwd [r] \<noteq> primary)
           (normalizeReadRoots cwd fs (primary # workspaceRoots @ (if trusted then additionalRoots else []))))"

end
