(* ===== verification/FolderAccessLaws.thy ===== *)
theory FolderAccessLaws
  imports FolderAccess
begin

text \<open>
  What Folder Access promises: an agent may read and write exactly what its admitted grants say, writing only in a trusted
  workspace and never where a second grant of the same place is read-only; and a task gets exactly what its
  scope and its agent both allow.
\<close>

section \<open>Places\<close>

declare resolve_segs [simp del]

abbreviation path_place :: "string \<Rightarrow> string \<Rightarrow> string list" where
  "path_place cwd p \<equiv> path_segs (path_resolve cwd [p])"

lemma place_resolved [simp]: "path_place cwd (path_resolve cwd [p]) = path_place cwd p"
proof -
  obtain ss where "are_segs ss" "path_resolve cwd [p] = to_path ss" using path_resolve_form by blast
  then show ?thesis by simp
qed

lemma same_iff: "samePath cwd p q \<longleftrightarrow> path_place cwd p = path_place cwd q"
proof -
  obtain ss ts where s: "are_segs ss" "path_resolve cwd [p] = to_path ss" and t: "are_segs ts" "path_resolve cwd [q] = to_path ts"
    using path_resolve_form by blast
  then have "path_relative cwd p q = path_relative cwd (to_path ss) (to_path ts)" by (simp add: path_relative_def)
  with relative_of_paths(1) [OF s(1) t(1)] s t show ?thesis by (simp add: samePath_def)
qed

text \<open>What roots and exact files cover.\<close>

definition scope_covers :: "string \<Rightarrow> string list \<Rightarrow> resolved_grant list \<Rightarrow> string \<Rightarrow> bool" where
  "scope_covers cwd roots files p \<longleftrightarrow>
     list_ex (\<lambda>r. isPathInsideOrEqual cwd r p) roots \<or> list_ex (\<lambda>f. samePath cwd (rg_realPath f) p) files"

definition can_read :: "string \<Rightarrow> 'a workspace_scope_scheme \<Rightarrow> string \<Rightarrow> bool" where
  "can_read cwd scope p \<longleftrightarrow> scope_covers cwd (sc_readRoots scope) (sc_readFiles scope) p"

definition can_write :: "string \<Rightarrow> 'a workspace_scope_scheme \<Rightarrow> string \<Rightarrow> bool" where
  "can_write cwd scope p \<longleftrightarrow> scope_covers cwd (sc_writeRoots scope) (sc_writeFiles scope) p"

definition below :: "string \<Rightarrow> string list \<Rightarrow> string list \<Rightarrow> bool" where
  "below cwd roots q \<longleftrightarrow> (\<exists>r \<in> set roots. prefix (path_place cwd r) q)"

definition named :: "string \<Rightarrow> resolved_grant list \<Rightarrow> string list \<Rightarrow> bool" where
  "named cwd files q \<longleftrightarrow> (\<exists>f \<in> set files. path_place cwd (rg_realPath f) = q)"

lemma below_inside: "list_ex (\<lambda>r. isPathInsideOrEqual cwd r p) roots \<longleftrightarrow> below cwd roots (path_place cwd p)"
  by (simp add: list_ex_iff below_def inside_iff)

lemma below_inside_resolved:
  "list_ex (\<lambda>r. isPathInsideOrEqual cwd (path_resolve cwd [r]) p) roots \<longleftrightarrow> below cwd roots (path_place cwd p)"
  by (simp add: list_ex_iff below_def inside_iff)

lemma named_same: "list_ex (\<lambda>f. samePath cwd (rg_realPath f) p) files \<longleftrightarrow> named cwd files (path_place cwd p)"
  by (simp add: list_ex_iff named_def same_iff)

lemma covers_iff: "scope_covers cwd roots files p \<longleftrightarrow> below cwd roots (path_place cwd p) \<or> named cwd files (path_place cwd p)"
  unfolding scope_covers_def below_inside named_same by (rule refl)

lemma below_append [simp]: "below cwd (rs @ ss) q \<longleftrightarrow> below cwd rs q \<or> below cwd ss q"
  by (auto simp: below_def)

lemma below_Nil [simp]: "\<not> below cwd [] q" by (simp add: below_def)

lemma below_Cons [simp]: "below cwd (r # rs) q \<longleftrightarrow> prefix (path_place cwd r) q \<or> below cwd rs q"
  by (simp add: below_def)

lemma below_set: "set rs = set ss \<Longrightarrow> below cwd rs = below cwd ss"
  by (simp add: below_def fun_eq_iff)

lemma below_resolved [simp]: "below cwd (map (\<lambda>r. path_resolve cwd [r]) rs) q = below cwd rs q"
  by (simp add: below_def)

lemma named_append [simp]: "named cwd (fs @ gs) q \<longleftrightarrow> named cwd fs q \<or> named cwd gs q"
  by (auto simp: named_def)

lemma named_Nil [simp]: "\<not> named cwd [] q" by (simp add: named_def)

lemma named_permission [simp]: "named cwd (map (rg_permission_update g) fs) q = named cwd fs q"
  by (auto simp: named_def)

text \<open>Roots that are dropped lie below one that is kept.\<close>

lemma keep_outermost_snoc:
  "keep_outermost cwd (rs @ [r]) = (let kept = keep_outermost cwd rs in if below cwd kept (path_place cwd r) then kept else kept @ [r])"
  by (simp add: keep_outermost_def below_inside Let_def)

lemma keep_outermost_below: "below cwd (keep_outermost cwd rs) q = below cwd rs q"
proof (induction rs arbitrary: q rule: rev_induct)
  case (snoc r rs)
  have "below cwd rs q" if "below cwd rs (path_place cwd r)" "prefix (path_place cwd r) q"
    using that unfolding below_def by (blast intro: prefix_order.trans)
  with snoc show ?case by (cases "below cwd rs (path_place cwd r)") (auto simp: keep_outermost_snoc Let_def)
qed (simp add: keep_outermost_def)

lemma keep_outermost_subset: "set (keep_outermost cwd rs) \<subseteq> set rs"
  by (induction rs rule: rev_induct) (auto simp: keep_outermost_snoc Let_def keep_outermost_def)

lemma collapse_below [simp]: "below cwd (collapseRoots cwd rs) q = below cwd rs q"
  unfolding collapseRoots_def keep_outermost_below
  using below_set [of "sort_key length (js_unique (map (\<lambda>r. path_resolve cwd [r]) rs))" "map (\<lambda>r. path_resolve cwd [r]) rs" cwd]
  by (simp add: js_unique_set)

section \<open>Intersections\<close>

lemma overlap_below:
  "below cwd (overlap_root cwd l r roots) q \<longleftrightarrow> below cwd roots q \<or> prefix (path_place cwd l) q \<and> prefix (path_place cwd r) q"
proof -
  have "prefix (path_place cwd l) q \<and> prefix (path_place cwd r) q \<Longrightarrow> prefix (path_place cwd l) (path_place cwd r) \<or> prefix (path_place cwd r) (path_place cwd l)"
    by (blast dest: prefix_same_cases)
  moreover have "prefix a b \<Longrightarrow> prefix b q \<Longrightarrow> prefix a q" for a b by (rule prefix_order.trans)
  ultimately show ?thesis
    by (auto simp: overlap_root_def inside_iff below_def)
qed

lemma intersect_below [simp]: "below cwd (intersectFolderRoots cwd ls rs) q \<longleftrightarrow> below cwd ls q \<and> below cwd rs q"
proof -
  let ?inner = "\<lambda>roots l. foldl (\<lambda>roots r. overlap_root cwd (path_resolve cwd [l]) (path_resolve cwd [r]) roots) roots"
  have inner: "below cwd (?inner roots l rs) q \<longleftrightarrow> below cwd roots q \<or> prefix (path_place cwd l) q \<and> below cwd rs q" for roots l rs
    by (induction rs arbitrary: roots) (auto simp: overlap_below)
  have "below cwd (foldl (\<lambda>roots l. ?inner roots l rs) roots ls) q \<longleftrightarrow> below cwd roots q \<or> below cwd ls q \<and> below cwd rs q" for roots
    by (induction ls arbitrary: roots) (auto simp: inner)
  from this [of "[]"] show ?thesis
    unfolding intersectFolderRoots_def by (subst below_set [OF set_sort]) simp
qed

lemma unique_named [simp]: "named cwd (uniqueFiles cwd fs) q = named cwd fs q"
proof (induction fs rule: rev_induct)
  case (snoc f fs)
  let ?u = "uniqueFiles cwd fs"
  have "uniqueFiles cwd (fs @ [f]) = (if named cwd ?u (path_place cwd (rg_realPath f)) then ?u else ?u @ [f])"
    by (simp add: uniqueFiles_def named_same)
  with snoc show ?case by (auto simp: named_def)
qed (simp add: uniqueFiles_def)

lemma named_filter: "named cwd (filter (\<lambda>f. P (path_place cwd (rg_realPath f))) fs) q \<longleftrightarrow> named cwd fs q \<and> P q"
  by (auto simp: named_def)

lemma intersect_named [simp]:
  "named cwd (intersectFileGrants cwd rs fs rs' fs') q
     \<longleftrightarrow> named cwd fs' q \<and> (below cwd rs q \<or> named cwd fs q) \<or> named cwd fs q \<and> below cwd rs' q"
  unfolding intersectFileGrants_def below_inside_resolved named_same
  by (simp add: named_filter [where P = "\<lambda>q. below cwd rs q \<or> named cwd fs q"] named_filter [where P = "below cwd rs'"])

lemma exact_named:
  "named cwd (snd (exactFileGrants cwd rs ws fs gs)) q \<longleftrightarrow> named cwd gs q \<and> \<not> below cwd ws q"
  "named cwd (fst (exactFileGrants cwd rs ws fs gs)) q
     \<longleftrightarrow> named cwd gs q \<and> \<not> below cwd ws q \<or> named cwd fs q \<and> \<not> below cwd rs q"
  unfolding exactFileGrants_def Let_def below_inside named_same fst_conv snd_conv
  by (auto simp: named_filter [where P = "\<lambda>q. \<not> below cwd ws q"] 
      named_filter [where P = "\<lambda>q. (named cwd gs q \<longrightarrow> below cwd ws q) \<and> \<not> below cwd rs q"])

lemma covers_scope:
  "scope_covers cwd rs (fst (exactFileGrants cwd rs ws fs gs)) p
     \<longleftrightarrow> below cwd rs (path_place cwd p) \<or> named cwd fs (path_place cwd p) \<or> named cwd gs (path_place cwd p) \<and> \<not> below cwd ws (path_place cwd p)"
  "scope_covers cwd ws (snd (exactFileGrants cwd rs ws fs gs)) p \<longleftrightarrow> below cwd ws (path_place cwd p) \<or> named cwd gs (path_place cwd p)"
  by (auto simp: covers_iff exact_named)

lemma nothing_covered: "roots = [] \<and> files = [] \<longleftrightarrow> (\<forall>p. \<not> scope_covers cwd roots files p)"
proof
  assume none: "\<forall>p. \<not> scope_covers cwd roots files p"
  have "roots = []" using none spec [OF none, of "hd roots"] by (cases roots) (auto simp: covers_iff)
  moreover have "files = []" using none spec [OF none, of "rg_realPath (hd files)"] by (cases files) (auto simp: covers_iff named_def)
  ultimately show "roots = [] \<and> files = []" by simp
qed (simp add: covers_iff)

lemma intersected_scope:
  fixes trusted :: bool
  assumes "\<And>p. can_write cwd c p \<Longrightarrow> can_read cwd c p" and "\<And>p. can_write cwd r p \<Longrightarrow> can_read cwd r p"
  defines "rs \<equiv> intersectFolderRoots cwd (sc_readRoots c) (sc_readRoots r)"
    and "ws \<equiv> writeRootsForTrust (intersectFolderRoots cwd (sc_writeRoots c) (sc_writeRoots r)) trusted"
    and "fs \<equiv> intersectFileGrants cwd (sc_readRoots c) (sc_readFiles c) (sc_readRoots r) (sc_readFiles r)"
    and "gs \<equiv> writeRootsForTrust (intersectFileGrants cwd (sc_writeRoots c) (sc_writeFiles c) (sc_writeRoots r) (sc_writeFiles r)) trusted"
  shows "scope_covers cwd ws (snd (exactFileGrants cwd rs ws fs gs)) p \<longleftrightarrow> trusted \<and> can_write cwd c p \<and> can_write cwd r p"
    and "scope_covers cwd rs (fst (exactFileGrants cwd rs ws fs gs)) p \<longleftrightarrow> can_read cwd c p \<and> can_read cwd r p"
proof -
  have w: "below cwd ws q \<or> named cwd gs q \<longleftrightarrow> trusted
      \<and> (below cwd (sc_writeRoots c) q \<or> named cwd (sc_writeFiles c) q) \<and> (below cwd (sc_writeRoots r) q \<or> named cwd (sc_writeFiles r) q)" for q
    by (auto simp: ws_def gs_def writeRootsForTrust_def)
  then show write_: "scope_covers cwd ws (snd (exactFileGrants cwd rs ws fs gs)) p \<longleftrightarrow> trusted \<and> can_write cwd c p \<and> can_write cwd r p"
    unfolding covers_scope by (simp add: can_write_def covers_iff)
  have r: "below cwd rs q \<or> named cwd fs q \<longleftrightarrow> (below cwd (sc_readRoots c) q \<or> named cwd (sc_readFiles c) q)
      \<and> (below cwd (sc_readRoots r) q \<or> named cwd (sc_readFiles r) q)" for q
    by (auto simp: rs_def fs_def)
  have "named cwd gs (path_place cwd p) \<Longrightarrow> can_read cwd c p \<and> can_read cwd r p"
    using write_ assms(1,2) [of p] by (simp add: covers_scope)
  with r [of "path_place cwd p"] show "scope_covers cwd rs (fst (exactFileGrants cwd rs ws fs gs)) p \<longleftrightarrow> can_read cwd c p \<and> can_read cwd r p"
    unfolding covers_scope by (auto simp: can_read_def covers_iff)
qed

text \<open>
  C23: A task reads exactly what its agent and its scope both let it read, and writes exactly what both let it write in
  a trusted workspace; there is no access when they share nothing to read, and commands run in a writable folder.
\<close>

theorem task_scope_is_the_intersection:
  assumes "\<And>p. can_write cwd c p \<Longrightarrow> can_read cwd c p" and "\<And>p. can_write cwd r p \<Longrightarrow> can_read cwd r p"
  shows "case intersectTaskWorkspaceAccess cwd c r trusted base of
      None \<Rightarrow> \<forall>p. \<not> (can_read cwd c p \<and> can_read cwd r p)
    | Some a \<Rightarrow>
        (\<forall>p. can_read cwd a p \<longleftrightarrow> can_read cwd c p \<and> can_read cwd r p)
        \<and> (\<forall>p. can_write cwd a p \<longleftrightarrow> trusted \<and> can_write cwd c p \<and> can_write cwd r p)
        \<and> (\<exists>p. can_read cwd a p)
        \<and> (case ta_commandCwd a of None \<Rightarrow> sc_writeRoots a = [] | Some d \<Rightarrow> d \<in> set (sc_writeRoots a) \<and> can_write cwd a d)"
proof -
  note whole = intersected_scope [OF assms, where trusted = trusted]
  show ?thesis
  proof (cases "intersectTaskWorkspaceAccess cwd c r trusted base")
    case None
    then show ?thesis unfolding intersectTaskWorkspaceAccess_def Let_def case_prod_beta
      using whole(2) by (simp add: nothing_covered [of _ _ cwd] split: if_splits)
  next
    case (Some a)
    then have read_: "can_read cwd a p \<longleftrightarrow> can_read cwd c p \<and> can_read cwd r p"
      and write_: "can_write cwd a p \<longleftrightarrow> trusted \<and> can_write cwd c p \<and> can_write cwd r p" for p
      unfolding intersectTaskWorkspaceAccess_def Let_def case_prod_beta
      using whole [of p] by (auto simp: can_read_def [of _ a] can_write_def [of _ a] split: if_splits)
    from Some have some: "sc_readRoots a \<noteq> [] \<or> sc_readFiles a \<noteq> []"
      and dir: "ta_commandCwd a = (if sc_writeRoots a = [] then None else Some (hd (sc_writeRoots a)))"
      unfolding intersectTaskWorkspaceAccess_def Let_def case_prod_beta by (auto split: if_splits)
    have "\<exists>p. can_read cwd a p" using some nothing_covered [of "sc_readRoots a" "sc_readFiles a" cwd] unfolding can_read_def by blast
    moreover have "sc_writeRoots a \<noteq> [] \<Longrightarrow> can_write cwd a (hd (sc_writeRoots a))"
      by (cases "sc_writeRoots a") (simp_all add: can_write_def covers_iff)
    ultimately have "\<exists>p. can_read cwd a p"
        "case ta_commandCwd a of None \<Rightarrow> sc_writeRoots a = [] | Some d \<Rightarrow> d \<in> set (sc_writeRoots a) \<and> can_write cwd a d"
      using dir by simp_all
    with Some read_ write_ show ?thesis by auto
  qed
qed

section \<open>Admitted grants\<close>

definition admitted :: "(folder_grant \<times> (access_issue option + resolved_grant)) list \<Rightarrow> resolved_grant list" where
  "admitted outcomes = List.map_filter (\<lambda>(_, outcome). case outcome of Inr g \<Rightarrow> Some g | Inl _ \<Rightarrow> None) outcomes"

definition grant_holds :: "string \<Rightarrow> resolved_grant \<Rightarrow> string \<Rightarrow> bool" where
  "grant_holds cwd g p \<longleftrightarrow>
     (if rg_kind g = DirectoryGrant then isPathInsideOrEqual cwd (rg_realPath g) p else samePath cwd (rg_realPath g) p)"

text \<open>A grant of a place that no admitted grant holds to reading.\<close>

definition writable_in :: "resolved_grant list \<Rightarrow> string \<Rightarrow> bool" where
  "writable_in gs real' \<longleftrightarrow> (\<forall>g \<in> set gs. rg_realPath g = real' \<longrightarrow> rg_permission g = ReadWriteGrant)"

lemma admitted_snoc [simp]:
  "admitted (os @ [(g, Inl i)]) = admitted os" "admitted (os @ [(g, Inr r)]) = admitted os @ [r]"
  unfolding admitted_def List.map_filter_def by simp_all

text \<open>What the map of admitted grants holds: one per place, writable when all of them are.\<close>

definition merged :: "resolved_grant list \<Rightarrow> (string, resolved_grant) jsmap \<Rightarrow> bool" where
  "merged gs m \<longleftrightarrow> js_map_ok m
     \<and> (\<forall>k g. js_get m k = Some g \<longrightarrow> rg_realPath g = k \<and> (\<exists>h \<in> set gs. rg_realPath h = k \<and> rg_kind h = rg_kind g)
           \<and> (rg_permission g = ReadWriteGrant \<longleftrightarrow> writable_in gs k))
     \<and> (\<forall>h \<in> set gs. js_get m (rg_realPath h) \<noteq> None)"

lemma admit_keeps_merged:
  assumes m: "merged gs m"
  shows "merged (gs @ [g]) (snd (admit_grant raw g (is', m)))"
proof (cases "js_get m (rg_realPath g)")
  case None
  with m have "\<forall>h \<in> set gs. rg_realPath h \<noteq> rg_realPath g" unfolding merged_def by metis
  with None m show ?thesis by (auto simp: merged_def admit_grant_def writable_in_def)
next
  case (Some existing)
  with m have e: "rg_realPath existing = rg_realPath g" "\<exists>h \<in> set gs. rg_realPath h = rg_realPath g \<and> rg_kind h = rg_kind existing"
      "rg_permission existing = ReadWriteGrant \<longleftrightarrow> writable_in gs (rg_realPath g)"
    unfolding merged_def by blast+
  show ?thesis
  proof (cases "rg_permission existing = rg_permission g")
    case True
    with Some have same: "snd (admit_grant raw g (is', m)) = m" by (simp add: admit_grant_def)
    have "writable_in (gs @ [g]) k = writable_in gs k" for k using True e(3) by (auto simp: writable_in_def)
    with m Some show ?thesis unfolding same merged_def by auto
  next
    case False
    with Some have upd: "snd (admit_grant raw g (is', m)) = js_set (rg_realPath g) (existing\<lparr>rg_permission := ReadGrant\<rparr>) m"
      by (simp add: admit_grant_def)
    have "\<not> writable_in (gs @ [g]) (rg_realPath g)"
      using False e(3) by (cases "rg_permission g"; cases "rg_permission existing") (auto simp: writable_in_def)
    moreover have "k \<noteq> rg_realPath g \<Longrightarrow> writable_in (gs @ [g]) k = writable_in gs k" for k by (auto simp: writable_in_def)
    ultimately show ?thesis using m e(1,2) unfolding upd merged_def by auto
  qed
qed

lemma fold_merged:
  "merged (admitted os) (snd (foldl (\<lambda>s (grant, outcome). grant_step grant outcome s) ([], []) os))"
proof (induction os rule: rev_induct)
  case (snoc x os)
  let ?s = "foldl (\<lambda>s (grant, outcome). grant_step grant outcome s) ([], []) os"
  obtain g outcome where x: "x = (g, outcome)" by (cases x)
  show ?case
  proof (cases outcome)
    case (Inl i)
    with snoc show ?thesis by (cases i) (simp_all add: x grant_step_def)
  next
    case (Inr r)
    with admit_keeps_merged [OF snoc, of r "js_trim (fg_path g)" "fst ?s"] show ?thesis by (simp add: x grant_step_def)
  qed
qed (simp add: merged_def admitted_def List.map_filter_def)

lemma merged_values:
  assumes "merged gs m"
  shows "g \<in> set (js_values m) \<longleftrightarrow> js_get m (rg_realPath g) = Some g"
proof -
  have ok: "js_map_ok m" using assms by (simp add: merged_def)
  show ?thesis using assms js_in_get [OF ok] unfolding merged_def by force
qed

text \<open>The places of the merged grants are those of the admitted ones, of one kind.\<close>

lemma merged_places:
  assumes m: "merged gs m" and kinds: "\<forall>g \<in> set gs. \<forall>h \<in> set gs. rg_realPath g = rg_realPath h \<longrightarrow> rg_kind g = rg_kind h"
  shows "(\<exists>g \<in> set (js_values m). rg_kind g = k \<and> Q (rg_realPath g) \<and> (w \<longrightarrow> rg_permission g = ReadWriteGrant))
     \<longleftrightarrow> (\<exists>g \<in> set gs. rg_kind g = k \<and> Q (rg_realPath g) \<and> (w \<longrightarrow> writable_in gs (rg_realPath g)))"
proof
  assume "\<exists>g \<in> set (js_values m). rg_kind g = k \<and> Q (rg_realPath g) \<and> (w \<longrightarrow> rg_permission g = ReadWriteGrant)"
  then obtain g where g: "js_get m (rg_realPath g) = Some g" "rg_kind g = k" "Q (rg_realPath g)" "w \<longrightarrow> rg_permission g = ReadWriteGrant"
    using merged_values [OF m] by blast
  with m obtain h where "h \<in> set gs" "rg_realPath h = rg_realPath g" "rg_kind h = rg_kind g"
      "rg_permission g = ReadWriteGrant \<longleftrightarrow> writable_in gs (rg_realPath g)"
    unfolding merged_def by blast
  with g show "\<exists>g \<in> set gs. rg_kind g = k \<and> Q (rg_realPath g) \<and> (w \<longrightarrow> writable_in gs (rg_realPath g))" by auto
next
  assume "\<exists>g \<in> set gs. rg_kind g = k \<and> Q (rg_realPath g) \<and> (w \<longrightarrow> writable_in gs (rg_realPath g))"
  then obtain h where h: "h \<in> set gs" "rg_kind h = k" "Q (rg_realPath h)" "w \<longrightarrow> writable_in gs (rg_realPath h)" by blast
  with m obtain g where g: "js_get m (rg_realPath h) = Some g" unfolding merged_def by blast
  with m obtain h' where h': "rg_realPath g = rg_realPath h" "h' \<in> set gs" "rg_realPath h' = rg_realPath h" "rg_kind h' = rg_kind g"
      "rg_permission g = ReadWriteGrant \<longleftrightarrow> writable_in gs (rg_realPath h)"
    unfolding merged_def by blast
  with kinds h(1) have "rg_kind g = rg_kind h" by metis
  moreover have "g \<in> set (js_values m)" using merged_values [OF m, of g] g h'(1) by argo
  ultimately show "\<exists>g \<in> set (js_values m). rg_kind g = k \<and> Q (rg_realPath g) \<and> (w \<longrightarrow> rg_permission g = ReadWriteGrant)"
    using h h' by auto
qed

lemma roots_below: "below cwd (map rg_realPath (filter P gs)) q \<longleftrightarrow> (\<exists>g \<in> set gs. P g \<and> prefix (path_place cwd (rg_realPath g)) q)"
  by (auto simp: below_def)

lemma files_named: "named cwd (filter P gs) q \<longleftrightarrow> (\<exists>g \<in> set gs. P g \<and> path_place cwd (rg_realPath g) = q)"
  by (auto simp: named_def)

lemma grant_holds_iff:
  "grant_holds cwd g p \<longleftrightarrow> rg_kind g = DirectoryGrant \<and> prefix (path_place cwd (rg_realPath g)) (path_place cwd p)
     \<or> rg_kind g = FileGrant \<and> path_place cwd (rg_realPath g) = path_place cwd p"
  by (cases "rg_kind g") (simp_all add: grant_holds_def inside_iff same_iff)

text \<open>What the roots and files of a list of merged grants cover.\<close>

lemma effective_covers:
  fixes cwd :: string and gs :: "resolved_grant list"
  defines "rw \<equiv> map rg_realPath (filter (\<lambda>g. rg_permission g = ReadWriteGrant) (filter (\<lambda>g. rg_kind g = DirectoryGrant) gs))"
  defines "ws \<equiv> collapseRoots cwd rw"
  defines "rs \<equiv> collapseRoots cwd (map rg_realPath (filter (\<lambda>g. rg_kind g = DirectoryGrant) gs) @ ws)"
  defines "ex \<equiv> exactFileGrants cwd rs ws (filter isFileGrant gs) (filter (\<lambda>g. rg_permission g = ReadWriteGrant) (filter isFileGrant gs))"
  shows "scope_covers cwd rs (fst ex) p \<longleftrightarrow> (\<exists>g \<in> set gs. grant_holds cwd g p)"
    and "scope_covers cwd ws (snd ex) p \<longleftrightarrow> (\<exists>g \<in> set gs. grant_holds cwd g p \<and> rg_permission g = ReadWriteGrant)"
  unfolding ex_def covers_scope rs_def ws_def rw_def
  by (auto simp: roots_below files_named grant_holds_iff isFileGrant_def)

lemma read_grant_trusted:
  assumes "read_grant cwd primary roots trusted look grant = Inr g" and "\<not> trusted"
  shows "\<exists>r \<in> set roots. isPathInsideOrEqual cwd r (rg_realPath g)"
  using assms by (auto simp: read_grant_def Let_def list_ex_iff split: option.splits if_splits sum.splits)

lemma admitted_in: "g \<in> set (admitted os) \<longleftrightarrow> (\<exists>grant. (grant, Inr g) \<in> set os)"
  by (force simp: admitted_def List.map_filter_def split: sum.splits)

lemma effective_roots_hold:
  assumes "ao_grants opts = Some (first # rest)" and gs: "gs = admitted (grant_outcomes cwd fs seen opts)"
    and kinds: "\<forall>g \<in> set gs. \<forall>h \<in> set gs. rg_realPath g = rg_realPath h \<longrightarrow> rg_kind g = rg_kind h"
  shows "can_read cwd (resolveEffectiveRoots cwd fs seen opts) p \<longleftrightarrow> (\<exists>g \<in> set gs. grant_holds cwd g p)"
    and "can_write cwd (resolveEffectiveRoots cwd fs seen opts) p
           \<longleftrightarrow> (\<exists>g \<in> set gs. grant_holds cwd g p \<and> (\<forall>h \<in> set gs. rg_realPath h = rg_realPath g \<longrightarrow> rg_permission h = ReadWriteGrant))"
    and "\<not> ao_isTrusted opts \<Longrightarrow> can_read cwd (resolveEffectiveRoots cwd fs seen opts) p
           \<Longrightarrow> \<exists>r \<in> set (real_workspace_roots cwd fs (ao_workspaceRoots opts)). isPathInsideOrEqual cwd r p"
proof -
  let ?e = "resolveEffectiveRoots cwd fs seen opts"
  define m where "m = snd (foldl (\<lambda>s (grant, outcome). grant_step grant outcome s) ([], []) (grant_outcomes cwd fs seen opts))"
  have m: "merged gs m" unfolding m_def gs by (rule fold_merged)
  have dirs: "rg_kind g = DirectoryGrant \<or> rg_kind g = FileGrant" for g :: resolved_grant by (cases "rg_kind g") simp_all
  have places: "(\<exists>g \<in> set (js_values m). grant_holds cwd g p \<and> (w \<longrightarrow> rg_permission g = ReadWriteGrant))
      \<longleftrightarrow> (\<exists>g \<in> set gs. grant_holds cwd g p \<and> (w \<longrightarrow> writable_in gs (rg_realPath g)))" for w
    using merged_places [OF m kinds, of DirectoryGrant "\<lambda>r. prefix (path_place cwd r) (path_place cwd p)" w]
      merged_places [OF m kinds, of FileGrant "\<lambda>r. path_place cwd r = path_place cwd p" w]
    unfolding grant_holds_iff by blast
  have e: "can_read cwd ?e p \<longleftrightarrow> (\<exists>g \<in> set (js_values m). grant_holds cwd g p)"
      "can_write cwd ?e p \<longleftrightarrow> (\<exists>g \<in> set (js_values m). grant_holds cwd g p \<and> rg_permission g = ReadWriteGrant)"
    using assms(1) unfolding can_read_def can_write_def
    by (simp_all add: resolveEffectiveRoots_def m_def case_prod_beta Let_def effective_covers del: filter_filter set_map list.set_map)
  show read_: "can_read cwd ?e p \<longleftrightarrow> (\<exists>g \<in> set gs. grant_holds cwd g p)" using e(1) places [of False] by simp
  show "can_write cwd ?e p \<longleftrightarrow> (\<exists>g \<in> set gs. grant_holds cwd g p \<and> (\<forall>h \<in> set gs. rg_realPath h = rg_realPath g \<longrightarrow> rg_permission h = ReadWriteGrant))"
    using e(2) places [of True] by (simp add: writable_in_def)
  assume untrusted: "\<not> ao_isTrusted opts" and "can_read cwd ?e p"
  then obtain g where g: "g \<in> set gs" "grant_holds cwd g p" using read_ by blast
  then obtain i grant where "Inr g = read_grant cwd (path_resolve cwd [ao_fallbackPrimaryRoot opts])
      (real_workspace_roots cwd fs (ao_workspaceRoots opts)) (ao_isTrusted opts) (seen i) grant"
    unfolding gs admitted_in grant_outcomes_def by auto
  from read_grant_trusted [OF this [symmetric] untrusted] obtain r
    where r: "r \<in> set (real_workspace_roots cwd fs (ao_workspaceRoots opts))" "prefix (path_place cwd r) (path_place cwd (rg_realPath g))"
    unfolding inside_iff by blast
  have "prefix (path_place cwd (rg_realPath g)) (path_place cwd p)" using g(2) unfolding grant_holds_iff by auto
  with r(2) have "prefix (path_place cwd r) (path_place cwd p)" by (rule prefix_order.trans)
  with r(1) show "\<exists>r \<in> set (real_workspace_roots cwd fs (ao_workspaceRoots opts)). isPathInsideOrEqual cwd r p"
    unfolding inside_iff by blast
qed

text \<open>Whatever the options, what an agent may write it may read: the condition of the intersection.\<close>

lemma effective_write_read: "can_write cwd (resolveEffectiveRoots cwd fs seen opts) p \<Longrightarrow> can_read cwd (resolveEffectiveRoots cwd fs seen opts) p"
proof (cases "ao_grants opts = None \<or> ao_grants opts = Some []")
  case True
  assume "can_write cwd (resolveEffectiveRoots cwd fs seen opts) p"
  with True show ?thesis by (auto simp: resolveEffectiveRoots_def unrestricted_roots_def Let_def can_read_def can_write_def covers_iff)
next
  case False
  assume "can_write cwd (resolveEffectiveRoots cwd fs seen opts) p"
  with False show ?thesis unfolding can_read_def can_write_def
    by (auto simp: resolveEffectiveRoots_def case_prod_beta Let_def effective_covers simp del: filter_filter set_map list.set_map)
qed

text \<open>
  C22: With grants, an agent reads exactly what an admitted grant holds, and writes exactly what one holds whose place
  no admitted grant keeps to reading, folders as what is below them and files as themselves; in an untrusted
  workspace all of it is below a workspace folder.
\<close>

theorem effective_roots_are_the_admitted_grants:
  assumes "ao_grants opts = Some (first # rest)" and "gs = admitted (grant_outcomes cwd fs seen opts)"
    and "\<forall>g \<in> set gs. \<forall>h \<in> set gs. rg_realPath g = rg_realPath h \<longrightarrow> rg_kind g = rg_kind h"
  shows "(\<forall>p. can_read cwd (resolveEffectiveRoots cwd fs seen opts) p \<longleftrightarrow> (\<exists>g \<in> set gs. grant_holds cwd g p))
    \<and> (\<forall>p. can_write cwd (resolveEffectiveRoots cwd fs seen opts) p
         \<longleftrightarrow> (\<exists>g \<in> set gs. grant_holds cwd g p \<and> (\<forall>h \<in> set gs. rg_realPath h = rg_realPath g \<longrightarrow> rg_permission h = ReadWriteGrant)))
    \<and> (\<not> ao_isTrusted opts \<longrightarrow> (\<forall>p. can_read cwd (resolveEffectiveRoots cwd fs seen opts) p
         \<longrightarrow> (\<exists>r \<in> set (real_workspace_roots cwd fs (ao_workspaceRoots opts)). isPathInsideOrEqual cwd r p)))"
  using effective_roots_hold [OF assms] by blast

text \<open>Two grants of one folder, one through a link, and a file.\<close>

definition example_access :: access_options where
  "example_access =
     \<lparr>ao_grants = Some [\<lparr>fg_path = ''/w/d'', fg_permission = Some ReadWriteGrant\<rparr>, \<lparr>fg_path = ''in'', fg_permission = Some ReadGrant\<rparr>,
        \<lparr>fg_path = '' a '', fg_permission = Some ReadWriteGrant\<rparr>, \<lparr>fg_path = ''/other'', fg_permission = Some ReadWriteGrant\<rparr>,
        \<lparr>fg_path = ''gone'', fg_permission = Some ReadGrant\<rparr>],
      ao_fallbackPrimaryRoot = ''/w'', ao_fallbackReadRoots = [], ao_workspaceRoots = [''/w''], ao_isTrusted = False\<rparr>"

abbreviation example_roots :: effective_roots where
  "example_roots \<equiv> resolveEffectiveRoots ''/'' small_fs (\<lambda>_. (small_fs, small_fs)) example_access"

theorem effective_roots_are_the_admitted_grants_witness:
  "can_read ''/'' example_roots ''/w/d/x'' \<and> \<not> can_write ''/'' example_roots ''/w/d/x'' \<and> can_write ''/'' example_roots ''/w/a''
     \<and> \<not> can_read ''/'' example_roots ''/other''
     \<and> map ai_kind (er_issues example_roots) = [DuplicateConflict, UntrustedOutsideWorkspace, MissingPath]"
proof -
  define gs where "gs = admitted (grant_outcomes ''/'' small_fs (\<lambda>_. (small_fs, small_fs)) example_access)"
  have gs: "gs = [\<lparr>rg_kind = DirectoryGrant, rg_permission = ReadWriteGrant, rg_lexicalPath = ''/w/d'', rg_realPath = ''/w/d'', rg_realParent = ''/w''\<rparr>,
      \<lparr>rg_kind = DirectoryGrant, rg_permission = ReadGrant, rg_lexicalPath = ''/w/in'', rg_realPath = ''/w/d'', rg_realParent = ''/w''\<rparr>,
      \<lparr>rg_kind = FileGrant, rg_permission = ReadWriteGrant, rg_lexicalPath = ''/w/a'', rg_realPath = ''/w/a'', rg_realParent = ''/w''\<rparr>]"
    unfolding gs_def by code_simp
  obtain first rest where grants: "ao_grants example_access = Some (first # rest)" by (simp add: example_access_def)
  have kinds: "\<forall>g \<in> set gs. \<forall>h \<in> set gs. rg_realPath g = rg_realPath h \<longrightarrow> rg_kind g = rg_kind h" by (simp add: gs)
  note roots = effective_roots_are_the_admitted_grants [OF grants gs_def kinds]
  have holds: "grant_holds ''/'' (gs ! 0) ''/w/d/x'' \<and> \<not> grant_holds ''/'' (gs ! 2) ''/w/d/x''" "grant_holds ''/'' (gs ! 2) ''/w/a''"
      "list_all (\<lambda>g. \<not> grant_holds ''/'' g ''/other'') gs"
    unfolding gs by code_simp+
  have issues: "map ai_kind (er_issues example_roots) = [DuplicateConflict, UntrustedOutsideWorkspace, MissingPath]" by code_simp
  from roots holds issues show ?thesis by (simp add: gs)
qed

theorem task_scope_is_the_intersection_witness:
  "case intersectTaskWorkspaceAccess ''/'' example_roots
      \<lparr>sc_readRoots = [''/w''], sc_writeRoots = [''/w''], sc_readFiles = [], sc_writeFiles = []\<rparr> True ''/w'' of
     None \<Rightarrow> False
   | Some a \<Rightarrow> can_read ''/'' a ''/w/d/x'' \<and> \<not> can_write ''/'' a ''/w/d/x'' \<and> can_write ''/'' a ''/w/a'' \<and> \<not> can_read ''/'' a ''/w/b''"
proof -
  let ?r = "\<lparr>sc_readRoots = [''/w''], sc_writeRoots = [''/w''], sc_readFiles = [], sc_writeFiles = []\<rparr>"
  have "can_write ''/'' example_roots p \<Longrightarrow> can_read ''/'' example_roots p" for p
    by (rule effective_write_read)
  from task_scope_is_the_intersection [OF this, of ?r True "''/w''"]
  have "case intersectTaskWorkspaceAccess ''/'' example_roots ?r True ''/w'' of
      None \<Rightarrow> \<forall>p. \<not> (can_read ''/'' example_roots p \<and> can_read ''/'' ?r p)
    | Some a \<Rightarrow> (\<forall>p. can_read ''/'' a p \<longleftrightarrow> can_read ''/'' example_roots p \<and> can_read ''/'' ?r p)
        \<and> (\<forall>p. can_write ''/'' a p \<longleftrightarrow> can_write ''/'' example_roots p \<and> can_write ''/'' ?r p)"
    by (auto simp: can_read_def can_write_def split: option.splits)
  moreover have "can_read ''/'' example_roots ''/w/d/x'' \<and> \<not> can_write ''/'' example_roots ''/w/d/x'' \<and> can_write ''/'' example_roots ''/w/a''
      \<and> can_read ''/'' example_roots ''/w/a'' \<and> \<not> can_read ''/'' example_roots ''/w/b''" by code_simp
  moreover have "can_read ''/'' ?r ''/w/d/x'' \<and> can_write ''/'' ?r ''/w/a''" by code_simp
  ultimately show ?thesis by (auto split: option.splits)
qed

section \<open>Exact files later\<close>

text \<open>
  A file is present when its path still leads where it led, and absent only when nothing is at its path and the
  folder that held it is the one that did: so a file just admitted is present.
\<close>

lemma exact_files_are_where_they_were:
  "(resolvePathGrant fs p perm = Inr g \<longrightarrow> exactFileGrantState cwd fs g = GrantPresent)
    \<and> (exactFileGrantState cwd fs' g = GrantPresent
         \<longleftrightarrow> (\<exists>r. realpath fs' (rg_lexicalPath g) = Inr r \<and> path_place cwd r = path_place cwd (rg_realPath g)))
    \<and> (exactFileGrantState cwd fs' g = GrantAbsent
         \<longrightarrow> lstat fs' (rg_lexicalPath g) = Inl ENOENT
           \<and> (\<exists>r. realpath fs' (path_dirname (rg_lexicalPath g)) = Inr r \<and> path_place cwd r = path_place cwd (rg_realParent g)))"
proof (intro conjI)
  show "resolvePathGrant fs p perm = Inr g \<longrightarrow> exactFileGrantState cwd fs g = GrantPresent"
    by (auto simp: resolvePathGrant_def exactFileGrantState_def bind_sum_Inr_iff same_iff)
  show "exactFileGrantState cwd fs' g = GrantPresent
      \<longleftrightarrow> (\<exists>r. realpath fs' (rg_lexicalPath g) = Inr r \<and> path_place cwd r = path_place cwd (rg_realPath g))"
    by (simp add: exactFileGrantState_def same_iff split: sum.split)
  show "exactFileGrantState cwd fs' g = GrantAbsent \<longrightarrow> lstat fs' (rg_lexicalPath g) = Inl ENOENT
      \<and> (\<exists>r. realpath fs' (path_dirname (rg_lexicalPath g)) = Inr r \<and> path_place cwd r = path_place cwd (rg_realParent g))"
    by (simp add: exactFileGrantState_def same_iff nameIsTaken_def split: sum.split)
qed

section \<open>Read roots without grants\<close>

lemma normalized_below:
  "below cwd (normalizeReadRoots cwd fs roots) q \<longleftrightarrow>
     (\<exists>raw \<in> set roots. existsSync fs (path_resolve cwd [raw])
        \<and> (\<exists>r. realpath fs (path_resolve cwd [raw]) = Inr r \<and> prefix (path_place cwd r) q))"
proof -
  let ?step = "\<lambda>resolved raw. let absp = path_resolve cwd [raw] in
    if \<not> existsSync fs absp then resolved else (case realpath fs absp of Inr real' \<Rightarrow> set_add real' resolved | Inl _ \<Rightarrow> resolved)"
  have "below cwd (foldl ?step [] roots) q \<longleftrightarrow> (\<exists>raw \<in> set roots. existsSync fs (path_resolve cwd [raw])
        \<and> (\<exists>r. realpath fs (path_resolve cwd [raw]) = Inr r \<and> prefix (path_place cwd r) q))"
  proof (induction roots rule: rev_induct)
    case (snoc raw roots)
    have "below cwd (?step resolved raw) q \<longleftrightarrow> below cwd resolved q \<or> existsSync fs (path_resolve cwd [raw])
        \<and> (\<exists>r. realpath fs (path_resolve cwd [raw]) = Inr r \<and> prefix (path_place cwd r) q)" for resolved
      by (auto simp: Let_def below_def split: sum.split)
    with snoc show ?case by auto
  qed simp
  then show ?thesis unfolding normalizeReadRoots_def keep_outermost_below by (subst below_set [OF set_sort]) simp
qed

end
