(* ===== verification/ResultProjection.thy ===== *)
theory ResultProjection
  imports StreamReconstructor "HOL-Library.Multiset"
begin

text \<open>
  Results of delegated tasks (\<open>src/src/backend/DelegationResultProjection.ts\<close>): reading a stored result, merging
  the copies two places have of it, and what a result comes to for the coordinator who owes it a decision.

  Stored values are untyped; \<open>date_parse\<close> is \<open>Date.parse\<close>. The JSON text of a reference, a decision or a
  scope tells them apart, so they are compared as values. Which of two whole copies has the earlier text depends on the
  order of their members, which is not kept: \<open>earlier\<close> answers it, \<open>earlier_decision\<close> for decisions, and \<open>collate\<close> is
  \<open>localeCompare\<close>.
\<close>

section \<open>Results as they are stored\<close>

record result_ref =
  rr_handle :: string
  rr_revision :: int

datatype scope_state = ScopeSuspended | ScopeClosed | ScopeReopened

record body_location =
  bl_conversationId :: string
  bl_messageId :: string

record result_scope =
  rs_state :: scope_state
  rs_cause :: string
  rs_recordedAt :: string
  rs_by :: string
  rs_bodyRef :: "body_location option"

datatype settled_state = ResultReady | ResultFailed

datatype delivery_state = DeliveryPending | Delivered

datatype delivered_via = AutoWake | CollectReady | BlockingTool

record result_decision =
  rd_value :: string
  rd_reason :: "string option"
  rd_recordedAt :: string

datatype review_continuation = ReviewScheduled | ReviewConsumed

record standing_result =
  sr_ref :: result_ref
  sr_attemptId :: string
  sr_settledEventId :: string
  sr_state :: settled_state
  sr_delivery :: delivery_state
  sr_deliveredVia :: "delivered_via option"
  sr_decision :: "result_decision option"
  sr_decisionScopes :: "result_scope list option"
  sr_conflict :: bool
  sr_legacy :: bool
  sr_reviewContinuation :: "review_continuation option"

datatype projected_state = StRunning | StReady | StAwaitingDecision | StDecided | StFailed | StStopped | StStopUnconfirmed
  | StCancelled | StHistorical | StUnknown | StAwaitingRework | StAwaitingHuman

datatype next_action = DoWait | DoCollect | DoDecide | DoInspect | DoResume | DoRework | DoAskHuman | DoNothing

text \<open>What each disposition leaves owed.\<close>

definition dispositionProjection :: "(string \<times> projected_state \<times> next_action \<times> bool) list" where
  "dispositionProjection =
     [(''accepted'', StDecided, DoNothing, False),
      (''rejected'', StDecided, DoNothing, False),
      (''needs-human'', StAwaitingHuman, DoAskHuman, True),
      (''needs-rework'', StAwaitingRework, DoRework, True),
      (''deferred'', StDecided, DoNothing, False),
      (''accepted-with-caveat'', StDecided, DoNothing, False),
      (''accepted-after-rework'', StDecided, DoNothing, False),
      (''accepted-despite-framework-no-evidence'', StDecided, DoNothing, False),
      (''superseded'', StDecided, DoNothing, False),
      (''abandoned'', StDecided, DoNothing, False)]"

definition scopeCauses :: "string list" where
  "scopeCauses = [''assignment-cancelled'', ''assignment-abandoned'', ''handle-superseded'', ''handle-abandoned'',
     ''coordinator-removed'', ''team-switched'', ''coordinator-stopped'', ''explicit-resume'']"

definition scope_state_of :: "js_value \<Rightarrow> scope_state option" where
  "scope_state_of v =
     (case v of
        JString s \<Rightarrow> map_of [(''suspended'', ScopeSuspended), (''closed'', ScopeClosed), (''reopened'', ScopeReopened)] s
      | _ \<Rightarrow> None)"

definition settled_state_of :: "js_value \<Rightarrow> settled_state option" where
  "settled_state_of v = (case v of JString s \<Rightarrow> map_of [(''ready'', ResultReady), (''failed'', ResultFailed)] s | _ \<Rightarrow> None)"

definition delivery_state_of :: "js_value \<Rightarrow> delivery_state option" where
  "delivery_state_of v = (case v of JString s \<Rightarrow> map_of [(''pending'', DeliveryPending), (''delivered'', Delivered)] s | _ \<Rightarrow> None)"

definition delivered_via_of :: "js_value \<Rightarrow> delivered_via option" where
  "delivered_via_of v =
     (case v of
        JString s \<Rightarrow> map_of [(''auto-wake'', AutoWake), (''collect-ready'', CollectReady), (''blocking-tool'', BlockingTool)] s
      | _ \<Rightarrow> None)"

definition review_of :: "js_value \<Rightarrow> review_continuation option" where
  "review_of v = (case v of JString s \<Rightarrow> map_of [(''scheduled'', ReviewScheduled), (''consumed'', ReviewConsumed)] s | _ \<Rightarrow> None)"

text \<open>The text a value is, when it is one a predicate allows.\<close>

definition text_if :: "(string \<Rightarrow> bool) \<Rightarrow> js_value \<Rightarrow> string option" where
  "text_if P v = (case v of JString s \<Rightarrow> if P s then Some s else None | _ \<Rightarrow> None)"

definition js_object :: "js_value \<Rightarrow> bool" where
  "js_object v \<longleftrightarrow> (case v of JObject _ \<Rightarrow> True | JArray _ \<Rightarrow> True | _ \<Rightarrow> False)"

section \<open>Reading a stored result\<close>

definition result_identity :: "js_value \<Rightarrow> string option" where
  "result_identity = text_if (\<lambda>s. 0 < length s \<and> length s \<le> 500)"

definition result_timestamp :: "(string \<Rightarrow> int option) \<Rightarrow> js_value \<Rightarrow> string option" where
  "result_timestamp date_parse = text_if (\<lambda>s. length s \<le> 40 \<and> date_parse s \<noteq> None)"

definition parseResultRef :: "js_value \<Rightarrow> result_ref option" where
  "parseResultRef v =
     (if \<not> js_object v then None
      else case (result_identity (prop_of v ''handle''), prop_of v ''revision'') of
        (Some h, JNum n) \<Rightarrow>
          (case safe_integer n of
             Some r \<Rightarrow> if 1 \<le> r then Some \<lparr>rr_handle = h, rr_revision = r\<rparr> else None
           | None \<Rightarrow> None)
      | _ \<Rightarrow> None)"

definition parseScope :: "(string \<Rightarrow> int option) \<Rightarrow> js_value \<Rightarrow> result_scope option" where
  "parseScope date_parse v =
     (if \<not> js_object v then None
      else case (scope_state_of (prop_of v ''state''), text_if (\<lambda>c. c \<in> set scopeCauses) (prop_of v ''cause''),
          text_if (\<lambda>b. b \<in> {''user-action'', ''host-lifecycle''}) (prop_of v ''by''), result_timestamp date_parse (prop_of v ''recordedAt'')) of
        (Some s, Some c, Some b, Some t) \<Rightarrow>
          if (s = ScopeReopened) \<noteq> (c = ''explicit-resume'') then None
          else Some \<lparr>rs_state = s, rs_cause = c, rs_recordedAt = t, rs_by = b,
            rs_bodyRef = (let ref = prop_of v ''bodyRef'' in
              if \<not> truthy ref then None
              else case (result_identity (prop_of ref ''conversationId''), result_identity (prop_of ref ''messageId'')) of
                (Some k, Some m) \<Rightarrow> Some \<lparr>bl_conversationId = k, bl_messageId = m\<rparr>
              | _ \<Rightarrow> None)\<rparr>
      | _ \<Rightarrow> None)"

definition parse_decision :: "(string \<Rightarrow> int option) \<Rightarrow> js_value \<Rightarrow> result_decision option" where
  "parse_decision date_parse v =
     (case (text_if (\<lambda>d. d \<in> set (map fst dispositionProjection)) (prop_of v ''value''), result_timestamp date_parse (prop_of v ''recordedAt''),
          prop_of v ''reason'') of
        (Some d, Some t, JUndefined) \<Rightarrow> Some \<lparr>rd_value = d, rd_reason = None, rd_recordedAt = t\<rparr>
      | (Some d, Some t, JString r) \<Rightarrow>
          if length r \<le> 2000 then Some \<lparr>rd_value = d, rd_reason = Some r, rd_recordedAt = t\<rparr> else None
      | _ \<Rightarrow> None)"

definition parse_scopes :: "(string \<Rightarrow> int option) \<Rightarrow> js_value \<Rightarrow> result_scope list option option" where
  "parse_scopes date_parse v =
     (case v of
        JUndefined \<Rightarrow> Some None
      | JArray vs \<Rightarrow>
          if 256 < length vs \<or> list_ex (\<lambda>s. parseScope date_parse s = None) vs then None
          else Some (Some (List.map_filter (parseScope date_parse) vs))
      | _ \<Rightarrow> None)"

definition parseStandingResult :: "(string \<Rightarrow> int option) \<Rightarrow> js_value \<Rightarrow> standing_result option" where
  "parseStandingResult date_parse v =
     (if \<not> js_object v then None
      else case (parseResultRef (prop_of v ''ref''), result_identity (prop_of v ''attemptId''), result_identity (prop_of v ''settledEventId''),
          settled_state_of (prop_of v ''state''), delivery_state_of (prop_of v ''delivery'')) of
        (Some ref, Some attempt, Some event, Some s, Some d) \<Rightarrow>
          (let decision = parse_decision date_parse (prop_of v ''decision'') in
           if truthy (prop_of v ''decision'') \<and> decision = None then None
           else case parse_scopes date_parse (prop_of v ''decisionScopes'') of
             None \<Rightarrow> None
           | Some scopes \<Rightarrow>
               Some \<lparr>sr_ref = ref, sr_attemptId = attempt, sr_settledEventId = event, sr_state = s, sr_delivery = d,
                 sr_deliveredVia = (if d = Delivered then delivered_via_of (prop_of v ''deliveredVia'') else None),
                 sr_decision = (if truthy (prop_of v ''decision'') then decision else None), sr_decisionScopes = scopes,
                 sr_conflict = truthy (prop_of v ''conflict''), sr_legacy = truthy (prop_of v ''legacy''),
                 sr_reviewContinuation = review_of (prop_of v ''reviewContinuation'')\<rparr>)
      | _ \<Rightarrow> None)"

section \<open>Merging copies\<close>

text \<open>A stable sort by a comparator.\<close>

fun insert_by :: "('a \<Rightarrow> 'a \<Rightarrow> int) \<Rightarrow> 'a \<Rightarrow> 'a list \<Rightarrow> 'a list" where
  "insert_by cmp x [] = [x]"
| "insert_by cmp x (y # ys) = (if cmp x y \<le> 0 then x # y # ys else y # insert_by cmp x ys)"

definition sort_by :: "('a \<Rightarrow> 'a \<Rightarrow> int) \<Rightarrow> 'a list \<Rightarrow> 'a list" where
  "sort_by cmp xs = foldr (insert_by cmp) xs []"

text \<open>The one of two, or of both the first that is sorted.\<close>

definition first_present :: "('a \<Rightarrow> 'a \<Rightarrow> bool) \<Rightarrow> 'a option \<Rightarrow> 'a option \<Rightarrow> 'a option" where
  "first_present le a b =
     (case (a, b) of
        (Some x, Some y) \<Rightarrow> Some (if le x y then x else y)
      | (Some x, None) \<Rightarrow> Some x
      | (None, y) \<Rightarrow> y)"

definition via_le :: "delivered_via \<Rightarrow> delivered_via \<Rightarrow> bool" where
  "via_le a b \<longleftrightarrow> a = AutoWake \<or> b = CollectReady \<or> a = b"

definition results_contradict :: "standing_result \<Rightarrow> standing_result \<Rightarrow> bool" where
  "results_contradict existing parsed \<longleftrightarrow>
     sr_conflict existing \<or> sr_conflict parsed \<or> sr_attemptId existing \<noteq> sr_attemptId parsed
     \<or> sr_settledEventId existing \<noteq> sr_settledEventId parsed \<or> sr_state existing \<noteq> sr_state parsed
     \<or> sr_decision existing \<noteq> None \<and> sr_decision parsed \<noteq> None \<and> sr_decision existing \<noteq> sr_decision parsed"

definition scopes_of :: "standing_result \<Rightarrow> result_scope list" where
  "scopes_of r = (case sr_decisionScopes r of Some ss \<Rightarrow> ss | None \<Rightarrow> [])"

definition merge_review :: "review_continuation option \<Rightarrow> review_continuation option \<Rightarrow> review_continuation option" where
  "merge_review a b =
     (if a = None \<and> b = None then None
      else if a = Some ReviewConsumed \<or> b = Some ReviewConsumed then Some ReviewConsumed else Some ReviewScheduled)"

definition merge_two ::
  "(standing_result \<Rightarrow> standing_result \<Rightarrow> bool) \<Rightarrow> (result_decision \<Rightarrow> result_decision \<Rightarrow> bool) \<Rightarrow> (string \<Rightarrow> string \<Rightarrow> int)
     \<Rightarrow> standing_result \<Rightarrow> standing_result \<Rightarrow> standing_result" where
  "merge_two earlier earlier_decision collate existing parsed =
     (let scopes = sort_by (\<lambda>a b. collate (rs_recordedAt a) (rs_recordedAt b)) (js_unique (scopes_of existing @ scopes_of parsed));
          base = (if earlier existing parsed then existing else parsed)
      in base\<lparr>sr_delivery := if sr_delivery existing = Delivered \<or> sr_delivery parsed = Delivered then Delivered else DeliveryPending,
              sr_deliveredVia := first_present via_le (sr_deliveredVia existing) (sr_deliveredVia parsed),
              sr_decision := first_present earlier_decision (sr_decision existing) (sr_decision parsed),
              sr_decisionScopes := if scopes = [] then sr_decisionScopes base else Some (take 256 scopes),
              sr_reviewContinuation := merge_review (sr_reviewContinuation existing) (sr_reviewContinuation parsed),
              sr_conflict := sr_conflict base \<or> results_contradict existing parsed \<or> 256 < length scopes\<rparr>)"

definition merge_step ::
  "(standing_result \<Rightarrow> standing_result \<Rightarrow> standing_result) \<Rightarrow> standing_result option
     \<Rightarrow> (result_ref, standing_result) jsmap \<Rightarrow> (result_ref, standing_result) jsmap" where
  "merge_step merge parsed results =
     (case parsed of
        None \<Rightarrow> results
      | Some p \<Rightarrow>
          (case js_get results (sr_ref p) of
             None \<Rightarrow> js_set (sr_ref p) p results
           | Some existing \<Rightarrow> js_set (sr_ref p) (merge existing p) results))"

definition ref_order :: "(string \<Rightarrow> string \<Rightarrow> int) \<Rightarrow> result_ref \<Rightarrow> result_ref \<Rightarrow> int" where
  "ref_order collate a b =
     (if collate (rr_handle a) (rr_handle b) \<noteq> 0 then collate (rr_handle a) (rr_handle b) else rr_revision a - rr_revision b)"

definition mergeStandingResults ::
  "(string \<Rightarrow> int option) \<Rightarrow> (standing_result \<Rightarrow> standing_result \<Rightarrow> bool) \<Rightarrow> (result_decision \<Rightarrow> result_decision \<Rightarrow> bool)
     \<Rightarrow> (string \<Rightarrow> string \<Rightarrow> int) \<Rightarrow> js_value list \<Rightarrow> js_value list \<Rightarrow> standing_result list" where
  "mergeStandingResults date_parse earlier earlier_decision collate left right =
     sort_by (\<lambda>a b. ref_order collate (sr_ref a) (sr_ref b))
       (js_values (foldl (\<lambda>results v. merge_step (merge_two earlier earlier_decision collate) (parseStandingResult date_parse v) results)
          [] (left @ right)))"

section \<open>What a result comes to\<close>

datatype task_lifecycle = TaskActive | TaskSettled | TaskCancelled | TaskInterrupted

datatype task_execution = ExRunning | ExQueued | ExStopping | ExStopped | ExStopUnconfirmed | ExNotRunning | ExEnded | ExUnknown

datatype task_wait = Waiting | WaitElapsed | NotWaiting

datatype result_recovery = DecisionScopeUnknown | BodyUnavailable | DeliveryUnknown | RecoveryDataNotSaved

record projection_input =
  pi_handle :: string
  pi_lifecycle :: task_lifecycle
  pi_execution :: task_execution
  pi_wait :: task_wait
  pi_standing :: "standing_result option"
  pi_reworkRunning :: "(int \<times> string) option"
  pi_historical :: bool
  pi_recovery :: "result_recovery option"
  pi_bodyAvailable :: "bool option"

record result_projection =
  rp_handle :: string
  rp_ref :: "result_ref option"
  rp_state :: projected_state
  rp_execution :: task_execution
  rp_wait :: task_wait
  rp_delivery :: "delivery_state option"
  rp_decision :: "result_decision option"
  rp_nextAction :: next_action
  rp_blocksComplete :: bool
  rp_recovery :: "result_recovery option"
  rp_scope :: "result_scope option"
  rp_reviewContinuation :: "review_continuation option"

definition current_standing :: "projection_input \<Rightarrow> standing_result option" where
  "current_standing i = (if pi_reworkRunning i \<noteq> None then None else pi_standing i)"

definition last_scope :: "standing_result option \<Rightarrow> result_scope option" where
  "last_scope standing =
     (case standing of
        None \<Rightarrow> None
      | Some r \<Rightarrow> if scopes_of r = [] then None else Some (last (scopes_of r)))"

text \<open>State, next action and whether the row blocks completion.\<close>

definition projected_row :: "projection_input \<Rightarrow> projected_state \<times> next_action \<times> bool" where
  "projected_row i =
     (let standing = current_standing i; scope = last_scope standing in
      if pi_historical i \<or> map_option rs_state scope = Some ScopeClosed then (StHistorical, DoNothing, False)
      else if map_option rs_state scope = Some ScopeSuspended then (StStopped, DoResume, False)
      else if pi_execution i = ExStopUnconfirmed then (StStopUnconfirmed, DoInspect, True)
      else if pi_reworkRunning i \<noteq> None \<or> pi_execution i \<in> {ExRunning, ExQueued, ExStopping} then (StRunning, DoWait, True)
      else if (case standing of Some r \<Rightarrow> sr_conflict r \<or> rr_handle (sr_ref r) \<noteq> pi_handle i | None \<Rightarrow> False)
              \<or> pi_recovery i = Some DecisionScopeUnknown
      then (StUnknown, DoInspect, True)
      else case standing of
        Some r \<Rightarrow>
          (case sr_decision r of
             Some d \<Rightarrow> (case map_of dispositionProjection (rd_value d) of Some row \<Rightarrow> row | None \<Rightarrow> (StUnknown, DoInspect, True))
           | None \<Rightarrow>
               if pi_bodyAvailable i = Some False \<or> pi_recovery i = Some BodyUnavailable then (StUnknown, DoInspect, True)
               else if pi_recovery i = Some DeliveryUnknown then (StUnknown, DoInspect, True)
               else if sr_state r = ResultFailed
               then (StFailed, if sr_delivery r = DeliveryPending then DoCollect else DoDecide, True)
               else if sr_delivery r = DeliveryPending then (StReady, DoCollect, True)
               else (StAwaitingDecision, DoDecide, True))
      | None \<Rightarrow>
          if pi_lifecycle i = TaskCancelled then (StCancelled, DoNothing, False)
          else if pi_lifecycle i = TaskInterrupted \<or> pi_execution i = ExStopped then (StStopped, DoInspect, True)
          else (StUnknown, if pi_lifecycle i = TaskActive then DoWait else DoInspect, True))"

definition projectDelegationResult :: "projection_input \<Rightarrow> result_projection" where
  "projectDelegationResult i =
     (let standing = current_standing i; (st, action, blocks) = projected_row i
      in \<lparr>rp_handle = pi_handle i,
          rp_ref = (case standing of Some r \<Rightarrow> Some (sr_ref r)
                    | None \<Rightarrow> map_option (\<lambda>(revision, _). \<lparr>rr_handle = pi_handle i, rr_revision = revision\<rparr>) (pi_reworkRunning i)),
          rp_state = st, rp_execution = pi_execution i, rp_wait = pi_wait i, rp_delivery = map_option sr_delivery standing,
          rp_decision = Option.bind standing sr_decision, rp_nextAction = action, rp_blocksComplete = blocks,
          rp_recovery = pi_recovery i, rp_scope = last_scope standing, rp_reviewContinuation = Option.bind standing sr_reviewContinuation\<rparr>)"

definition closeout_order :: "(string \<Rightarrow> string \<Rightarrow> int) \<Rightarrow> result_projection \<Rightarrow> result_projection \<Rightarrow> int" where
  "closeout_order collate a b =
     (let running = (\<lambda>r. if rp_state r = StRunning then 1 else 0 :: int)
      in if running b - running a \<noteq> 0 then running b - running a else collate (rp_handle a) (rp_handle b))"

definition projectDelegationCloseout :: "(string \<Rightarrow> string \<Rightarrow> int) \<Rightarrow> projection_input list \<Rightarrow> result_projection list \<times> result_projection list" where
  "projectDelegationCloseout collate inputs =
     (let rows = map projectDelegationResult inputs in (rows, sort_by (closeout_order collate) (filter rp_blocksComplete rows)))"

section \<open>Contradictory copies\<close>

lemma insert_by_set [simp]: "set (insert_by cmp x xs) = insert x (set xs)"
  by (induction xs) auto

lemma sort_by_set [simp]: "set (sort_by cmp xs) = set xs"
  unfolding sort_by_def by (induction xs) auto

text \<open>
  What a row says of the copies it was merged from: it is in conflict, or they all agree with it; and what one of them
  knows of delivery and review it knows.
\<close>

definition row_of :: "standing_result list \<Rightarrow> standing_result \<Rightarrow> bool" where
  "row_of copies r \<longleftrightarrow>
     (\<forall>c \<in> set copies. sr_ref c = sr_ref r
        \<and> (\<not> sr_conflict r \<longrightarrow> \<not> sr_conflict c \<and> sr_attemptId c = sr_attemptId r \<and> sr_settledEventId c = sr_settledEventId r
             \<and> sr_state c = sr_state r \<and> (sr_decision c \<noteq> None \<longrightarrow> sr_decision c = sr_decision r))
        \<and> (sr_delivery c = Delivered \<longrightarrow> sr_delivery r = Delivered)
        \<and> (sr_reviewContinuation c = Some ReviewConsumed \<longrightarrow> sr_reviewContinuation r = Some ReviewConsumed))"

lemma merge_two_row:
  assumes "row_of copies r" and "sr_ref p = sr_ref r"
  shows "row_of (p # copies) (merge_two earlier earlier_decision collate r p)"
proof -
  let ?m = "merge_two earlier earlier_decision collate r p"
  have ref: "sr_ref ?m = sr_ref r" using assms(2) by (simp add: merge_two_def Let_def)
  have delivery: "sr_delivery r = Delivered \<or> sr_delivery p = Delivered \<Longrightarrow> sr_delivery ?m = Delivered"
    by (simp add: merge_two_def Let_def)
  have review: "sr_reviewContinuation r = Some ReviewConsumed \<or> sr_reviewContinuation p = Some ReviewConsumed
      \<Longrightarrow> sr_reviewContinuation ?m = Some ReviewConsumed"
    by (auto simp: merge_two_def Let_def merge_review_def)
  have agree: "\<not> sr_conflict r \<and> \<not> sr_conflict p \<and> sr_attemptId p = sr_attemptId r \<and> sr_settledEventId p = sr_settledEventId r
      \<and> sr_state p = sr_state r \<and> sr_attemptId ?m = sr_attemptId r \<and> sr_settledEventId ?m = sr_settledEventId r \<and> sr_state ?m = sr_state r
      \<and> (sr_decision r \<noteq> None \<longrightarrow> sr_decision r = sr_decision ?m) \<and> (sr_decision p \<noteq> None \<longrightarrow> sr_decision p = sr_decision ?m)"
    if "\<not> sr_conflict ?m"
  proof -
    have no: "\<not> results_contradict r p" using that by (simp add: merge_two_def Let_def)
    then have "sr_decision ?m = first_present earlier_decision (sr_decision r) (sr_decision p)"
        "sr_decision r = None \<or> sr_decision p = None \<or> sr_decision r = sr_decision p"
      by (auto simp: merge_two_def Let_def results_contradict_def)
    then have "(sr_decision r \<noteq> None \<longrightarrow> sr_decision r = sr_decision ?m) \<and> (sr_decision p \<noteq> None \<longrightarrow> sr_decision p = sr_decision ?m)"
      by (auto simp: first_present_def split: option.splits)
    with no show ?thesis by (auto simp: results_contradict_def merge_two_def Let_def)
  qed
  show ?thesis unfolding row_of_def
  proof
    fix c assume c: "c \<in> set (p # copies)"
    show "sr_ref c = sr_ref ?m
        \<and> (\<not> sr_conflict ?m \<longrightarrow> \<not> sr_conflict c \<and> sr_attemptId c = sr_attemptId ?m \<and> sr_settledEventId c = sr_settledEventId ?m
             \<and> sr_state c = sr_state ?m \<and> (sr_decision c \<noteq> None \<longrightarrow> sr_decision c = sr_decision ?m))
        \<and> (sr_delivery c = Delivered \<longrightarrow> sr_delivery ?m = Delivered)
        \<and> (sr_reviewContinuation c = Some ReviewConsumed \<longrightarrow> sr_reviewContinuation ?m = Some ReviewConsumed)"
    proof (cases "c = p")
      case True
      with ref delivery review agree assms(2) show ?thesis by auto
    next
      case False
      with c assms(1) have "sr_ref c = sr_ref r"
          "\<not> sr_conflict r \<Longrightarrow> \<not> sr_conflict c \<and> sr_attemptId c = sr_attemptId r \<and> sr_settledEventId c = sr_settledEventId r
             \<and> sr_state c = sr_state r \<and> (sr_decision c \<noteq> None \<longrightarrow> sr_decision c = sr_decision r)"
          "sr_delivery c = Delivered \<Longrightarrow> sr_delivery r = Delivered"
          "sr_reviewContinuation c = Some ReviewConsumed \<Longrightarrow> sr_reviewContinuation r = Some ReviewConsumed"
        unfolding row_of_def by auto
      with ref delivery review agree show ?thesis by metis
    qed
  qed
qed

definition rows_ok :: "standing_result list \<Rightarrow> (result_ref, standing_result) jsmap \<Rightarrow> bool" where
  "rows_ok copies m \<longleftrightarrow> js_map_ok m
     \<and> (\<forall>k r. js_get m k = Some r \<longrightarrow> sr_ref r = k \<and> row_of (filter (\<lambda>c. sr_ref c = k) copies) r \<and> (\<exists>c \<in> set copies. sr_ref c = k))
     \<and> (\<forall>c \<in> set copies. js_get m (sr_ref c) \<noteq> None)"

lemma merge_two_ref: "sr_ref r = sr_ref p \<Longrightarrow> sr_ref (merge_two earlier earlier_decision collate r p) = sr_ref p"
  by (simp add: merge_two_def Let_def)

lemma row_of_self: "row_of [p] p"
  by (simp add: row_of_def)

lemma merge_step_rows:
  assumes "rows_ok copies m"
  shows "rows_ok (p # copies) (merge_step (merge_two earlier earlier_decision collate) (Some p) m)"
proof -
  have ok: "js_map_ok m" and rows: "js_get m k = Some r \<Longrightarrow> sr_ref r = k \<and> row_of (filter (\<lambda>c. sr_ref c = k) copies) r \<and> (\<exists>c \<in> set copies. sr_ref c = k)"
      and all: "c \<in> set copies \<Longrightarrow> js_get m (sr_ref c) \<noteq> None" for k r c
    using assms unfolding rows_ok_def by blast+
  show ?thesis
  proof (cases "js_get m (sr_ref p)")
    case None
    then have "filter (\<lambda>c. sr_ref c = sr_ref p) copies = []" using all by (force simp: filter_empty_conv)
    with None ok rows all row_of_self [of p] show ?thesis unfolding rows_ok_def by (auto simp: merge_step_def)
  next
    case (Some r)
    from rows [OF this] have r: "sr_ref r = sr_ref p" "row_of (filter (\<lambda>c. sr_ref c = sr_ref p) copies) r" by auto
    from merge_two_row [OF r(2) r(1) [symmetric]] merge_two_ref [OF r(1)] Some ok rows all
    show ?thesis unfolding rows_ok_def by (auto simp: merge_step_def)
  qed
qed

lemma fold_rows:
  "rows_ok (rev (List.map_filter (parseStandingResult date_parse) vs))
     (foldl (\<lambda>results v. merge_step (merge_two earlier earlier_decision collate) (parseStandingResult date_parse v) results) [] vs)"
proof (induction vs rule: rev_induct)
  case (snoc v vs)
  show ?case
  proof (cases "parseStandingResult date_parse v")
    case None
    with snoc show ?thesis by (simp add: List.map_filter_def merge_step_def)
  next
    case (Some p)
    with merge_step_rows [OF snoc, of p] show ?thesis by (simp add: List.map_filter_def)
  qed
qed (simp add: rows_ok_def List.map_filter_def)

lemma insert_by_mset [simp]: "mset (insert_by cmp x xs) = add_mset x (mset xs)"
  by (induction xs) auto

lemma sort_by_mset [simp]: "mset (sort_by cmp xs) = mset xs"
  unfolding sort_by_def by (induction xs) auto

lemma sort_by_distinct_map: "distinct (map f (sort_by cmp xs)) = distinct (map f xs)"
  by (rule mset_eq_imp_distinct_iff) simp

text \<open>What a result in conflict comes to: never more than something to inspect.\<close>

lemma conflict_is_inspected:
  assumes "pi_standing i = Some r" and "sr_conflict r"
  shows "rp_state (projectDelegationResult i) \<in> {StHistorical, StStopped, StStopUnconfirmed, StRunning, StUnknown}"
proof (cases "pi_reworkRunning i")
  case None
  with assms show ?thesis by (auto simp: projectDelegationResult_def projected_row_def current_standing_def Let_def case_prod_beta)
next
  case (Some w)
  with assms show ?thesis by (auto simp: projectDelegationResult_def projected_row_def current_standing_def Let_def case_prod_beta)
qed

text \<open>
  C27: Merging keeps one row per result that was read. When two copies contradict each other (by the rules the merge itself
  compares two copies with, \<open>results_contradict\<close>) the row is in conflict,
  whatever else the copies say and in whatever order, and is never shown as ready, decided, failed or awaiting anything;
  what any copy knows of delivery and review is kept.
\<close>

theorem contradictory_copies_never_win:
  assumes copies: "copies = List.map_filter (parseStandingResult date_parse) (left @ right)"
    and rows: "rows = mergeStandingResults date_parse earlier earlier_decision collate left right"
  shows "distinct (map sr_ref rows) \<and> sr_ref ` set rows = sr_ref ` set copies
    \<and> (\<forall>r \<in> set rows. \<forall>a \<in> set copies. \<forall>b \<in> set copies. sr_ref a = sr_ref r \<and> sr_ref b = sr_ref r \<longrightarrow>
         (results_contradict a b \<longrightarrow> sr_conflict r \<and> (\<forall>i. pi_standing i = Some r \<longrightarrow>
            rp_state (projectDelegationResult i) \<in> {StHistorical, StStopped, StStopUnconfirmed, StRunning, StUnknown}))
         \<and> (sr_delivery a = Delivered \<longrightarrow> sr_delivery r = Delivered)
         \<and> (sr_reviewContinuation a = Some ReviewConsumed \<longrightarrow> sr_reviewContinuation r = Some ReviewConsumed))"
proof -
  define m where "m = foldl (\<lambda>results v. merge_step (merge_two earlier earlier_decision collate) (parseStandingResult date_parse v) results) [] (left @ right)"
  have ok: "rows_ok (rev copies) m" unfolding copies m_def by (rule fold_rows)
  have vals: "set rows = set (js_values m)" "distinct (map sr_ref rows) \<longleftrightarrow> distinct (map sr_ref (js_values m))"
    unfolding rows mergeStandingResults_def m_def by (rule sort_by_set, rule sort_by_distinct_map)
  have m_ok: "js_map_ok m" using ok by (simp add: rows_ok_def)
  have row: "sr_ref r = k \<and> row_of (filter (\<lambda>c. sr_ref c = k) (rev copies)) r \<and> (\<exists>c \<in> set copies. sr_ref c = k)"
    if "(k, r) \<in> set m" for k r
  proof -
    have "js_get m k = Some r" using that js_in_get [OF m_ok] by blast
    with ok show ?thesis unfolding rows_ok_def set_rev by blast
  qed
  have "map sr_ref (js_values m) = js_keys m" using row by (auto simp: comp_def intro!: map_cong)
  with m_ok have "distinct (map sr_ref rows)" unfolding vals(2) by argo
  moreover have "sr_ref ` set rows = sr_ref ` set copies"
  proof
    show "sr_ref ` set rows \<subseteq> sr_ref ` set copies"
    proof
      fix k assume "k \<in> sr_ref ` set rows"
      then obtain k' r where kr: "(k', r) \<in> set m" "k = sr_ref r" unfolding vals(1) by auto
      from row [OF kr(1)] obtain c where "c \<in> set copies" "sr_ref c = k'" "sr_ref r = k'" by blast
      with kr(2) show "k \<in> sr_ref ` set copies" by force
    qed
    show "sr_ref ` set copies \<subseteq> sr_ref ` set rows"
    proof
      fix k assume "k \<in> sr_ref ` set copies"
      then obtain c where "c \<in> set copies" "k = sr_ref c" by blast
      with ok obtain r where "js_get m k = Some r" unfolding rows_ok_def by fastforce
      then have "(k, r) \<in> set m" using js_in_get [OF m_ok] by blast
      with row show "k \<in> sr_ref ` set rows" unfolding vals(1) by force
    qed
  qed
  moreover have "(results_contradict a b \<longrightarrow> sr_conflict r) \<and> (sr_delivery a = Delivered \<longrightarrow> sr_delivery r = Delivered)
      \<and> (sr_reviewContinuation a = Some ReviewConsumed \<longrightarrow> sr_reviewContinuation r = Some ReviewConsumed)"
    if "r \<in> set rows" "a \<in> set copies" "b \<in> set copies" "sr_ref a = sr_ref r" "sr_ref b = sr_ref r" for r a b
  proof -
    from that(1) obtain k where k: "(k, r) \<in> set m" unfolding vals(1) by auto
    from row [OF this] have ref: "sr_ref r = k" and r: "row_of (filter (\<lambda>c. sr_ref c = k) (rev copies)) r" by blast+
    have ab: "a \<in> set (filter (\<lambda>c. sr_ref c = k) (rev copies))" "b \<in> set (filter (\<lambda>c. sr_ref c = k) (rev copies))"
      using that ref by simp_all
    note a = bspec [OF r [unfolded row_of_def] ab(1)] and b = bspec [OF r [unfolded row_of_def] ab(2)]
    have "results_contradict a b \<Longrightarrow> sr_conflict r" using a b unfolding results_contradict_def by metis
    with a show ?thesis by blast
  qed
  ultimately show ?thesis using conflict_is_inspected by blast
qed

text \<open>Two copies of one result that end differently.\<close>

definition example_copy :: "string \<Rightarrow> string \<Rightarrow> js_value" where
  "example_copy st delivered =
     JObject [(''ref'', JObject [(''handle'', JString ''h''), (''revision'', JNum (Fin 1))]), (''attemptId'', JString ''a''),
       (''settledEventId'', JString ''e''), (''state'', JString st), (''delivery'', JString delivered)]"

theorem contradictory_copies_never_win_witness:
  "let rows = mergeStandingResults (\<lambda>_. Some 0) (\<lambda>_ _. True) (\<lambda>_ _. True) (\<lambda>_ _. 0)
       [example_copy ''ready'' ''pending''] [example_copy ''failed'' ''delivered'', JNull]
   in map sr_conflict rows = [True] \<and> map sr_delivery rows = [Delivered]"
proof -
  let ?parse = "parseStandingResult (\<lambda>_. Some 0)"
  define rows where "rows = mergeStandingResults (\<lambda>_. Some 0) (\<lambda>_ _. True) (\<lambda>_ _. True) (\<lambda>_ _. 0)
       [example_copy ''ready'' ''pending''] [example_copy ''failed'' ''delivered'', JNull]"
  define copies where "copies = List.map_filter ?parse ([example_copy ''ready'' ''pending''] @ [example_copy ''failed'' ''delivered'', JNull])"
  have two: "length copies = 2" "results_contradict (copies ! 0) (copies ! 1)" "sr_delivery (copies ! 1) = Delivered"
      "sr_ref (copies ! 0) = \<lparr>rr_handle = ''h'', rr_revision = 1\<rparr>" "sr_ref (copies ! 1) = \<lparr>rr_handle = ''h'', rr_revision = 1\<rparr>"
    unfolding copies_def by code_simp+
  note merged = contradictory_copies_never_win [OF copies_def rows_def]
  have "\<exists>a b. copies = [a, b]" using two(1) by (auto simp: length_Suc_conv numeral_2_eq_2)
  then obtain a b where ab: "copies = [a, b]" by blast
  have refs: "sr_ref ` set rows = {\<lparr>rr_handle = ''h'', rr_revision = 1\<rparr>}" "distinct (map sr_ref rows)"
    using merged two(4,5) by (simp_all add: ab)
  then have "length rows = 1" by (metis One_nat_def card.empty card.insert distinct_card empty_iff finite.emptyI length_map list.set_map)
  then obtain r where r: "rows = [r]" by (auto simp: length_Suc_conv)
  with refs(1) have ref: "sr_ref r = \<lparr>rr_handle = ''h'', rr_revision = 1\<rparr>" by simp
  have "sr_conflict r" "sr_delivery r = Delivered" using merged two ref by (auto simp: r ab)
  then show ?thesis unfolding rows_def [symmetric] by (simp add: r)
qed

section \<open>What completion waits for\<close>

definition still_busy :: "projection_input \<Rightarrow> bool" where
  "still_busy i \<longleftrightarrow> pi_reworkRunning i \<noteq> None \<or> pi_execution i \<in> {ExStopUnconfirmed, ExRunning, ExQueued, ExStopping}"

text \<open>A decision that leaves nothing to do, on a result that is not in doubt.\<close>

definition decided_for_good :: "projection_input \<Rightarrow> standing_result \<Rightarrow> bool" where
  "decided_for_good i r \<longleftrightarrow> \<not> sr_conflict r \<and> rr_handle (sr_ref r) = pi_handle i
     \<and> (case sr_decision r of
          Some d \<Rightarrow> rd_value d \<in> set (map fst dispositionProjection) - {''needs-human'', ''needs-rework''}
        | None \<Rightarrow> False)"

definition nothing_owed :: "projection_input \<Rightarrow> bool" where
  "nothing_owed i \<longleftrightarrow>
     (let scope = map_option rs_state (last_scope (current_standing i)) in
      pi_historical i \<or> scope = Some ScopeClosed \<or> scope = Some ScopeSuspended
      \<or> \<not> still_busy i \<and> pi_recovery i \<noteq> Some DecisionScopeUnknown
        \<and> (case pi_standing i of Some r \<Rightarrow> decided_for_good i r | None \<Rightarrow> pi_lifecycle i = TaskCancelled))"

lemma disposition_rows:
  "map_of dispositionProjection d = None \<longleftrightarrow> d \<notin> set (map fst dispositionProjection)"
  "map_of dispositionProjection d = Some (st, action, blocks) \<Longrightarrow>
     (blocks \<longleftrightarrow> d \<in> {''needs-human'', ''needs-rework''}) \<and> (blocks \<longrightarrow> action \<noteq> DoNothing) \<and> st \<noteq> StRunning"
  by (simp add: map_of_eq_None_iff) (auto simp: dispositionProjection_def split: if_splits)

lemma decided_row:
  assumes "map_of dispositionProjection (rd_value d) = row"
  shows "snd (snd (case row of Some row \<Rightarrow> row | None \<Rightarrow> (StUnknown, DoInspect, True)))
     \<longleftrightarrow> rd_value d \<notin> set (map fst dispositionProjection) - {''needs-human'', ''needs-rework''}"
    and "snd (snd (case row of Some row \<Rightarrow> row | None \<Rightarrow> (StUnknown, DoInspect, True))) \<Longrightarrow>
     fst (snd (case row of Some row \<Rightarrow> row | None \<Rightarrow> (StUnknown, DoInspect, True))) \<noteq> DoNothing"
  using disposition_rows [of "rd_value d"] assms by (cases row; force)+


lemma row_blocks:
  "(snd (snd (projected_row i)) \<longleftrightarrow> \<not> nothing_owed i)
     \<and> (snd (snd (projected_row i)) \<longrightarrow> fst (snd (projected_row i)) \<noteq> DoNothing)
     \<and> (fst (projected_row i) = StRunning \<longrightarrow> still_busy i)"
proof (cases "pi_reworkRunning i")
  case (Some w)
  then show ?thesis by (auto simp: projected_row_def nothing_owed_def still_busy_def Let_def)
next
  case none: None
  show ?thesis
  proof (cases "pi_standing i")
    case None
    with none show ?thesis by (auto simp: projected_row_def nothing_owed_def still_busy_def current_standing_def Let_def)
  next
    case (Some r)
    show ?thesis
    proof (cases "sr_decision r")
      case None
      with none Some show ?thesis
        by (auto simp: projected_row_def nothing_owed_def still_busy_def current_standing_def decided_for_good_def Let_def)
    next
      case d: (Some d)
      obtain row where row: "map_of dispositionProjection (rd_value d) = row" by blast
      have running: "fst (case row of Some row \<Rightarrow> row | None \<Rightarrow> (StUnknown, DoInspect, True)) \<noteq> StRunning"
        using disposition_rows(2) [of "rd_value d"] row by (cases row) auto
      from none Some d row decided_row [OF row] running show ?thesis
        by (auto simp: projected_row_def nothing_owed_def still_busy_def current_standing_def decided_for_good_def Let_def)
    qed
  qed
qed

lemma projection_row:
  "rp_state (projectDelegationResult i) = fst (projected_row i)" "rp_nextAction (projectDelegationResult i) = fst (snd (projected_row i))"
  "rp_blocksComplete (projectDelegationResult i) = snd (snd (projected_row i))"
  by (simp_all add: projectDelegationResult_def Let_def case_prod_beta)

lemma running_first:
  "sorted_wrt (\<lambda>a b. rp_state b = StRunning \<longrightarrow> rp_state a = StRunning) (sort_by (closeout_order collate) rows)"
proof (induction rows)
  case (Cons r rows)
  have insert: "sorted_wrt (\<lambda>a b. rp_state b = StRunning \<longrightarrow> rp_state a = StRunning) (insert_by (closeout_order collate) r xs)"
    if "sorted_wrt (\<lambda>a b. rp_state b = StRunning \<longrightarrow> rp_state a = StRunning) xs" for xs
    using that
  proof (induction xs)
    case (Cons x xs)
    have "closeout_order collate r x \<le> 0 \<Longrightarrow> rp_state x = StRunning \<Longrightarrow> rp_state r = StRunning"
        "\<not> closeout_order collate r x \<le> 0 \<Longrightarrow> rp_state r = StRunning \<Longrightarrow> rp_state x = StRunning"
      by (auto simp: closeout_order_def Let_def split: if_splits)
    with Cons show ?case by auto
  qed simp
  with Cons show ?case by (simp add: sort_by_def)
qed (simp add: sort_by_def)

text \<open>
  C28: Closing out waits for exactly the results that are still owed something: it is blocked by no other row, every
  blocking row names what to do next, and running work comes first.
\<close>

theorem completion_waits_for_what_is_owed:
  "(snd (projectDelegationCloseout collate inputs) = [] \<longleftrightarrow> (\<forall>i \<in> set inputs. nothing_owed i))
    \<and> set (snd (projectDelegationCloseout collate inputs)) = projectDelegationResult ` {i \<in> set inputs. \<not> nothing_owed i}
    \<and> (\<forall>b \<in> set (snd (projectDelegationCloseout collate inputs)). rp_nextAction b \<noteq> DoNothing)
    \<and> sorted_wrt (\<lambda>a b. rp_state b = StRunning \<longrightarrow> rp_state a = StRunning) (snd (projectDelegationCloseout collate inputs))"
proof (intro conjI)
  have blockers: "set (snd (projectDelegationCloseout collate inputs)) = projectDelegationResult ` {i \<in> set inputs. \<not> nothing_owed i}"
    using row_blocks by (auto simp: projectDelegationCloseout_def Let_def projection_row)
  then show "set (snd (projectDelegationCloseout collate inputs)) = projectDelegationResult ` {i \<in> set inputs. \<not> nothing_owed i}" .
  from blockers show "snd (projectDelegationCloseout collate inputs) = [] \<longleftrightarrow> (\<forall>i \<in> set inputs. nothing_owed i)"
    unfolding set_empty [symmetric] by auto
  from blockers row_blocks show "\<forall>b \<in> set (snd (projectDelegationCloseout collate inputs)). rp_nextAction b \<noteq> DoNothing"
    by (auto simp: projection_row)
  show "sorted_wrt (\<lambda>a b. rp_state b = StRunning \<longrightarrow> rp_state a = StRunning) (snd (projectDelegationCloseout collate inputs))"
    unfolding projectDelegationCloseout_def Let_def snd_conv by (rule running_first)
qed

definition example_input :: "string \<Rightarrow> task_execution \<Rightarrow> string option \<Rightarrow> projection_input" where
  "example_input h ex decided =
     \<lparr>pi_handle = h, pi_lifecycle = TaskActive, pi_execution = ex, pi_wait = NotWaiting,
      pi_standing = map_option (\<lambda>d. \<lparr>sr_ref = \<lparr>rr_handle = h, rr_revision = 1\<rparr>, sr_attemptId = ''a'', sr_settledEventId = ''e'',
         sr_state = ResultReady, sr_delivery = Delivered, sr_deliveredVia = None,
         sr_decision = Some \<lparr>rd_value = d, rd_reason = None, rd_recordedAt = ''t''\<rparr>, sr_decisionScopes = None,
         sr_conflict = False, sr_legacy = False, sr_reviewContinuation = None\<rparr>) decided,
      pi_reworkRunning = None, pi_historical = False, pi_recovery = None, pi_bodyAvailable = None\<rparr>"

theorem completion_waits_for_what_is_owed_witness:
  "map rp_handle (snd (projectDelegationCloseout (\<lambda>_ _. 0)
       [example_input ''x'' ExEnded (Some ''accepted''), example_input ''y'' ExEnded (Some ''needs-rework''), example_input ''z'' ExRunning None]))
     = [''z'', ''y'']
   \<and> snd (projectDelegationCloseout (\<lambda>_ _. 0) [example_input ''x'' ExEnded (Some ''accepted'')]) = []"
proof -
  have "\<forall>i \<in> set [example_input ''x'' ExEnded (Some ''accepted'')]. nothing_owed i" by code_simp
  with completion_waits_for_what_is_owed [of "\<lambda>_ _. 0" "[example_input ''x'' ExEnded (Some ''accepted'')]"]
  have "snd (projectDelegationCloseout (\<lambda>_ _. 0) [example_input ''x'' ExEnded (Some ''accepted'')]) = []" by blast
  moreover have "map rp_handle (snd (projectDelegationCloseout (\<lambda>_ _. 0)
       [example_input ''x'' ExEnded (Some ''accepted''), example_input ''y'' ExEnded (Some ''needs-rework''), example_input ''z'' ExRunning None]))
     = [''z'', ''y'']" by code_simp
  ultimately show ?thesis by blast
qed

end
