(* ===== verification/ResultMailbox.thy ===== *)
theory ResultMailbox
  imports ResultProjection
begin

text \<open>
  The mailbox of pending results (\<open>src/src/state/DelegationResultMailbox.ts\<close>): a place is reserved when a task is
  dispatched, filled when it settles, and handed over once by a claim; only an archive that says it has the body frees it.

  Rows and tokens are objects with an identity, here a number. What the authority says at the moment of a call is an
  argument, and the wait for an archive cuts \<open>releaseAfterArchive\<close> in two: other calls may come in between. While a
  row is closing nothing changes its value, so the value it had when the archive began is the one it has when it ends.
  \<open>sha\<close> is SHA-256 of a text; the chunks a text is hashed in are consecutive, so only the text matters.
\<close>

section \<open>Entries\<close>

definition SLOTS :: nat where "SLOTS = 256"
definition BODY_BYTES :: nat where "BODY_BYTES = 64 * 1024"
definition TOTAL_BYTES :: nat where "TOTAL_BYTES = 8 * 1024 * 1024"
definition METADATA_BYTES :: nat where "METADATA_BYTES = 2048"

record completion_identity =
  ci_coordinatorId :: string
  ci_ref :: result_ref
  ci_attemptId :: string
  ci_settledEventId :: string

record mailbox_body =
  rb_text :: string
  rb_bytes :: nat
  rb_sourceBytes :: nat
  rb_sourceDigest :: string
  rb_truncated :: bool
  rb_location :: "body_location option"

datatype entry_state = EntryReserved | EntryReady | EntryFailed

record mailbox_entry =
  me_identity :: completion_identity
  me_state :: entry_state
  me_delivery :: "delivery_state option"
  me_deliveredVia :: "delivered_via option"
  me_body :: "mailbox_body option"
  me_conflict :: bool
  me_deliveryAttempted :: bool

record delivery_context =
  dc_coordinatorId :: string
  dc_sessionId :: string
  dc_requestId :: string

record archive_receipt =
  ar_coordinatorId :: string
  ar_ref :: result_ref
  ar_location :: "body_location option"
  ar_sourceDigest :: "string option"

record mailbox_authority =
  ma_ownsCoordinator :: "string \<Rightarrow> bool"
  ma_currentCompletion :: "completion_identity \<Rightarrow> bool"
  ma_currentDelivery :: "delivery_context \<Rightarrow> completion_identity \<Rightarrow> bool"

record held_entry =
  he_id :: nat
  he_value :: mailbox_entry
  he_closing :: bool
  he_claim :: "nat option"

record delivery_claim =
  cl_key :: string
  cl_context :: delivery_context
  cl_via :: delivered_via

record pending_archive =
  pa_key :: string
  pa_row :: nat
  pa_coordinatorId :: string
  pa_ref :: result_ref
  pa_body :: "mailbox_body option"

record mailbox =
  bx_rows :: "(string, held_entry) jsmap"
  bx_claims :: "(nat, delivery_claim) jsmap"
  bx_archives :: "(nat, pending_archive) jsmap"
  bx_next :: nat

definition new_mailbox :: mailbox where
  "new_mailbox = \<lparr>bx_rows = [], bx_claims = [], bx_archives = [], bx_next = 0\<rparr>"

section \<open>Identities and bodies\<close>

definition identityText :: "string \<Rightarrow> bool" where
  "identityText s \<longleftrightarrow> 0 < length s \<and> length s \<le> 500 \<and> list_all (\<lambda>c. c \<notin> {CHR 0x00, CHR 0x0D, CHR 0x0A}) s"

definition cleanRef :: "result_ref \<Rightarrow> result_ref option" where
  "cleanRef ref =
     (if 0 < length (rr_handle ref) \<and> length (rr_handle ref) \<le> 500 \<and> 1 \<le> rr_revision ref \<and> rr_revision ref \<le> int MAX_SAFE_INTEGER
      then Some ref else None)"

definition cleanIdentity :: "completion_identity \<Rightarrow> completion_identity option" where
  "cleanIdentity i =
     (if cleanRef (ci_ref i) \<noteq> None \<and> identityText (ci_coordinatorId i) \<and> identityText (ci_attemptId i) \<and> identityText (ci_settledEventId i)
      then Some i else None)"

definition validLocation :: "body_location \<Rightarrow> bool" where
  "validLocation l \<longleftrightarrow> identityText (bl_conversationId l) \<and> identityText (bl_messageId l)"

definition valid_location_value :: "js_value \<Rightarrow> bool" where
  "valid_location_value v \<longleftrightarrow>
     truthy v \<and> text_such identityText (prop_of v ''conversationId'') \<and> text_such identityText (prop_of v ''messageId'')"

definition resultMailboxKey :: "(string \<Rightarrow> string) \<Rightarrow> string \<Rightarrow> result_ref \<Rightarrow> string" where
  "resultMailboxKey sha coordinatorId ref =
     sha (''['' @ json_text coordinatorId @ '','' @ json_text (rr_handle ref) @ '','' @ show_big (rr_revision ref) @ '']'')"

definition json_members :: "(string \<times> string) list \<Rightarrow> string" where
  "json_members ms = ''{'' @ join_with '','' (map (\<lambda>(k, t). json_text k @ '':'' @ t) ms) @ ''}''"

definition location_json :: "body_location \<Rightarrow> string" where
  "location_json l = json_members [(''conversationId'', json_text (bl_conversationId l)), (''messageId'', json_text (bl_messageId l))]"

text \<open>
  The JSON text of an entry's metadata, for the two entries whose size is checked: one that is reserved, and one that is
  settled, as it would be when it has been handed over through a blocking tool.
\<close>

definition identity_members :: "completion_identity \<Rightarrow> (string \<times> string) list" where
  "identity_members i =
     [(''coordinatorId'', json_text (ci_coordinatorId i)),
      (''ref'', json_members [(''handle'', json_text (rr_handle (ci_ref i))), (''revision'', show_big (rr_revision (ci_ref i)))]),
      (''attemptId'', json_text (ci_attemptId i)), (''settledEventId'', json_text (ci_settledEventId i))]"

definition reserved_bytes :: "completion_identity \<Rightarrow> nat" where
  "reserved_bytes i = utf8_length (json_members (identity_members i @ [(''state'', json_text ''reserved'')]))"

definition settled_bytes :: "completion_identity \<Rightarrow> bool \<Rightarrow> mailbox_body \<Rightarrow> nat" where
  "settled_bytes i ready body =
     utf8_length (json_members (identity_members i @
       [(''state'', json_text (if ready then ''ready'' else ''failed'')), (''delivery'', json_text ''delivered''),
        (''deliveredVia'', json_text ''blocking-tool''),
        (''body'', json_members
           ([(''bytes'', show_big (int (rb_bytes body))), (''sourceBytes'', show_big (int (rb_sourceBytes body))),
             (''sourceDigest'', json_text (rb_sourceDigest body)), (''truncated'', if rb_truncated body then ''true'' else ''false'')]
            @ (case rb_location body of None \<Rightarrow> [] | Some l \<Rightarrow> [(''location'', location_json l)])))]))"

text \<open>The longest beginning and end of whole characters within a number of bytes.\<close>

fun utf8_prefix :: "nat \<Rightarrow> string \<Rightarrow> string" where
  "utf8_prefix n [] = []"
| "utf8_prefix n (c # cs) = (if utf8_length [c] \<le> n then c # utf8_prefix (n - utf8_length [c]) cs else [])"

definition utf8_suffix :: "nat \<Rightarrow> string \<Rightarrow> string" where
  "utf8_suffix n s = rev (utf8_prefix n (rev s))"

definition TRUNCATED_MARKER :: string where
  "TRUNCATED_MARKER = [CHR 0x0A, CHR 0x0A] @ ''[truncated; read the worker conversation for the full result]'' @ [CHR 0x0A, CHR 0x0A]"

definition boundedResultBody :: "(string \<Rightarrow> string) \<Rightarrow> string \<Rightarrow> body_location option \<Rightarrow> mailbox_body" where
  "boundedResultBody sha body_text location =
     (let sourceBytes = utf8_length body_text; truncated = BODY_BYTES < sourceBytes;
          headRoom = (BODY_BYTES - utf8_length TRUNCATED_MARKER) div 2;
          tailRoom = BODY_BYTES - utf8_length TRUNCATED_MARKER - headRoom;
          kept = (if \<not> truncated then body_text
                  else utf8_prefix headRoom (take (BODY_BYTES + 2) body_text) @ TRUNCATED_MARKER
                    @ utf8_suffix tailRoom (drop (length body_text - (BODY_BYTES + 2)) body_text))
      in \<lparr>rb_text = kept, rb_bytes = utf8_length kept, rb_sourceBytes = sourceBytes, rb_sourceDigest = sha body_text,
          rb_truncated = truncated, rb_location = location\<rparr>)"

section \<open>Operations\<close>

datatype mailbox_admission = AdmReserved | AdmExisting | AdmCapacity | AdmInvalid | AdmStale | AdmConflict

datatype settle_outcome = Settled | SettledDuplicate | SettleConflict | SettleInvalid | SettleStale | BodyLocationRequired

datatype release_outcome = Released | ReleaseMissing | ReleaseStale | ReleaseStorageError

text \<open>What a call returns or causes. \<open>HandedOver\<close> goes with an acknowledgement that is accepted.\<close>

datatype mailbox_output =
    Restored bool
  | Admission mailbox_admission
  | SettleOutcome settle_outcome
  | Token "nat option"
  | Acknowledged bool
  | HandedOver nat
  | ReleasedClaim bool
  | Forgotten bool
  | ArchiveAsked nat mailbox_entry result_scope
  | ReleaseOutcome release_outcome
  | StorageErrorReported

definition reservedBytes :: "mailbox \<Rightarrow> nat" where
  "reservedBytes m = sum_list (map (\<lambda>h. if me_state (he_value h) = EntryReserved then BODY_BYTES else 0) (js_values (bx_rows m)))"

definition entry_body_bytes :: "mailbox_entry \<Rightarrow> nat" where
  "entry_body_bytes e = (case me_body e of Some b \<Rightarrow> rb_bytes b | None \<Rightarrow> 0)"

definition bodyBytes :: "mailbox \<Rightarrow> nat" where
  "bodyBytes m = sum_list (map (\<lambda>h. if me_state (he_value h) = EntryReserved then 0 else entry_body_bytes (he_value h)) (js_values (bx_rows m)))"

definition usage_slots :: "mailbox \<Rightarrow> nat" where
  "usage_slots m = length (bx_rows m)"

definition totalBytes :: "mailbox \<Rightarrow> nat" where
  "totalBytes m = reservedBytes m + bodyBytes m"

definition key_of :: "(string \<Rightarrow> string) \<Rightarrow> completion_identity \<Rightarrow> string" where
  "key_of sha i = resultMailboxKey sha (ci_coordinatorId i) (ci_ref i)"

definition owned_and_current :: "mailbox_authority \<Rightarrow> completion_identity \<Rightarrow> bool" where
  "owned_and_current a i \<longleftrightarrow> ma_ownsCoordinator a (ci_coordinatorId i) \<and> ma_currentCompletion a i"

definition put_row :: "string \<Rightarrow> mailbox_entry \<Rightarrow> mailbox \<Rightarrow> mailbox" where
  "put_row k e m =
     m\<lparr>bx_rows := js_set k \<lparr>he_id = bx_next m, he_value = e, he_closing = False, he_claim = None\<rparr> (bx_rows m), bx_next := bx_next m + 1\<rparr>"

definition set_row :: "string \<Rightarrow> held_entry \<Rightarrow> mailbox \<Rightarrow> mailbox" where
  "set_row k h m = m\<lparr>bx_rows := js_set k h (bx_rows m)\<rparr>"

definition restore :: "(string \<Rightarrow> string) \<Rightarrow> mailbox_authority \<Rightarrow> mailbox_entry \<Rightarrow> mailbox \<Rightarrow> mailbox \<times> mailbox_output list" where
  "restore sha a entry m =
     (case (cleanIdentity (me_identity entry), me_body entry) of
        (Some i, Some body) \<Rightarrow>
          if me_state entry = EntryReserved \<or> \<not> owned_and_current a i \<or> js_has (bx_rows m) (key_of sha i)
             \<or> SLOTS \<le> usage_slots m \<or> TOTAL_BYTES < totalBytes m + rb_bytes body
          then (m, [Restored False])
          else (put_row (key_of sha i) entry m, [Restored True])
      | _ \<Rightarrow> (m, [Restored False]))"

definition fresh_entry :: "completion_identity \<Rightarrow> mailbox_entry" where
  "fresh_entry i = \<lparr>me_identity = i, me_state = EntryReserved, me_delivery = None, me_deliveredVia = None, me_body = None,
     me_conflict = False, me_deliveryAttempted = False\<rparr>"

definition reserve_result :: "(string \<Rightarrow> string) \<Rightarrow> mailbox_authority \<Rightarrow> completion_identity \<Rightarrow> mailbox \<Rightarrow> mailbox \<times> mailbox_output list" where
  "reserve_result sha a identity m =
     (case cleanIdentity identity of
        None \<Rightarrow> (m, [Admission AdmInvalid])
      | Some i \<Rightarrow>
          if METADATA_BYTES < reserved_bytes i then (m, [Admission AdmInvalid])
          else if \<not> owned_and_current a i then (m, [Admission AdmStale])
          else (case js_get (bx_rows m) (key_of sha i) of
                  Some h \<Rightarrow>
                    if he_closing h then (m, [Admission AdmStale])
                    else if me_conflict (he_value h) \<or> me_identity (he_value h) \<noteq> i
                    then (set_row (key_of sha i) (h\<lparr>he_value := (he_value h)\<lparr>me_conflict := True\<rparr>\<rparr>) m, [Admission AdmConflict])
                    else (m, [Admission AdmExisting])
                | None \<Rightarrow>
                    if SLOTS \<le> usage_slots m \<or> TOTAL_BYTES < totalBytes m + BODY_BYTES then (m, [Admission AdmCapacity])
                    else (put_row (key_of sha i) (fresh_entry i) m, [Admission AdmReserved])))"

definition settle_entry ::
  "(string \<Rightarrow> string) \<Rightarrow> mailbox_authority \<Rightarrow> completion_identity \<Rightarrow> bool \<Rightarrow> string \<Rightarrow> body_location option \<Rightarrow> mailbox
     \<Rightarrow> mailbox \<times> mailbox_output list" where
  "settle_entry sha a identity ready body_text location m =
     (case cleanIdentity identity of
        None \<Rightarrow> (m, [SettleOutcome SettleInvalid])
      | Some i \<Rightarrow>
          if (case location of Some l \<Rightarrow> \<not> validLocation l | None \<Rightarrow> False) then (m, [SettleOutcome SettleInvalid])
          else if \<not> owned_and_current a i then (m, [SettleOutcome SettleStale])
          else (case js_get (bx_rows m) (key_of sha i) of
                  None \<Rightarrow> (m, [SettleOutcome SettleStale])
                | Some h \<Rightarrow>
                    if he_closing h \<or> me_identity (he_value h) \<noteq> i then (m, [SettleOutcome SettleStale])
                    else if me_conflict (he_value h) then (m, [SettleOutcome SettleConflict])
                    else let body = boundedResultBody sha body_text location;
                             st = (if ready then EntryReady else EntryFailed)
                      in if rb_truncated body \<and> rb_location body = None then (m, [SettleOutcome BodyLocationRequired])
                         else if me_state (he_value h) \<noteq> EntryReserved
                         then if me_state (he_value h) = st \<and> map_option rb_sourceDigest (me_body (he_value h)) = Some (rb_sourceDigest body)
                              then (m, [SettleOutcome SettledDuplicate])
                              else (set_row (key_of sha i) (h\<lparr>he_value := (he_value h)\<lparr>me_conflict := True\<rparr>\<rparr>) m, [SettleOutcome SettleConflict])
                         else if METADATA_BYTES < settled_bytes i ready body then (m, [SettleOutcome SettleInvalid])
                         else (set_row (key_of sha i) (h\<lparr>he_value := (fresh_entry i)\<lparr>me_state := st, me_delivery := Some DeliveryPending,
                                 me_body := Some body\<rparr>\<rparr>) m, [SettleOutcome Settled])))"

definition tryClaim ::
  "(string \<Rightarrow> string) \<Rightarrow> mailbox_authority \<Rightarrow> string \<Rightarrow> result_ref \<Rightarrow> delivered_via \<Rightarrow> delivery_context \<Rightarrow> mailbox
     \<Rightarrow> mailbox \<times> mailbox_output list" where
  "tryClaim sha a coordinatorId ref via context m =
     (case cleanRef ref of
        None \<Rightarrow> (m, [Token None])
      | Some r \<Rightarrow>
          if dc_coordinatorId context \<noteq> coordinatorId \<or> \<not> identityText (dc_sessionId context) \<or> \<not> identityText (dc_requestId context)
          then (m, [Token None])
          else let k = resultMailboxKey sha coordinatorId r in
            case js_get (bx_rows m) k of
              None \<Rightarrow> (m, [Token None])
            | Some h \<Rightarrow>
                if he_closing h \<or> he_claim h \<noteq> None \<or> me_conflict (he_value h) \<or> me_state (he_value h) = EntryReserved
                   \<or> me_delivery (he_value h) \<noteq> Some DeliveryPending \<or> \<not> ma_ownsCoordinator a coordinatorId
                   \<or> \<not> ma_currentCompletion a (me_identity (he_value h)) \<or> \<not> ma_currentDelivery a context (me_identity (he_value h))
                then (m, [Token None])
                else (m\<lparr>bx_rows := js_set k (h\<lparr>he_claim := Some (bx_next m)\<rparr>) (bx_rows m),
                        bx_claims := js_set (bx_next m) \<lparr>cl_key = k, cl_context = context, cl_via = via\<rparr> (bx_claims m),
                        bx_next := bx_next m + 1\<rparr>, [Token (Some (bx_next m))]))"

text \<open>The claim and the row a token stands for.\<close>

definition claimed_row :: "nat \<Rightarrow> mailbox \<Rightarrow> (delivery_claim \<times> held_entry) option" where
  "claimed_row token m =
     (case js_get (bx_claims m) token of
        None \<Rightarrow> None
      | Some c \<Rightarrow>
          (case js_get (bx_rows m) (cl_key c) of
             None \<Rightarrow> None
           | Some h \<Rightarrow> if he_claim h = Some token then Some (c, h) else None))"

definition drop_claim :: "nat \<Rightarrow> mailbox \<Rightarrow> mailbox" where
  "drop_claim token m =
     (case claimed_row token m of
        None \<Rightarrow> m
      | Some (c, h) \<Rightarrow>
          m\<lparr>bx_rows := js_set (cl_key c) (h\<lparr>he_claim := None\<rparr>) (bx_rows m), bx_claims := js_delete token (bx_claims m)\<rparr>)"

definition releaseClaim :: "nat \<Rightarrow> mailbox \<Rightarrow> mailbox \<times> mailbox_output list" where
  "releaseClaim token m = (drop_claim token m, [ReleasedClaim (claimed_row token m \<noteq> None)])"

definition ackDelivery :: "mailbox_authority \<Rightarrow> nat \<Rightarrow> mailbox \<Rightarrow> mailbox \<times> mailbox_output list" where
  "ackDelivery a token m =
     (case claimed_row token m of
        None \<Rightarrow> (m, [Acknowledged False])
      | Some (c, h) \<Rightarrow>
          if he_closing h then (m, [Acknowledged False])
          else if me_conflict (he_value h) \<or> \<not> owned_and_current a (me_identity (he_value h))
                  \<or> \<not> ma_currentDelivery a (cl_context c) (me_identity (he_value h))
          then (drop_claim token m, [Acknowledged False])
          else (drop_claim token (set_row (cl_key c)
                  (h\<lparr>he_value := (he_value h)\<lparr>me_delivery := Some Delivered, me_deliveredVia := Some (cl_via c)\<rparr>\<rparr>) m),
                [Acknowledged True, HandedOver (he_id h)]))"

definition lookup_entry :: "(string \<Rightarrow> string) \<Rightarrow> string \<Rightarrow> result_ref \<Rightarrow> mailbox \<Rightarrow> mailbox_entry option" where
  "lookup_entry sha coordinatorId ref m =
     (case cleanRef ref of
        None \<Rightarrow> None
      | Some r \<Rightarrow> map_option he_value (js_get (bx_rows m) (resultMailboxKey sha coordinatorId r)))"

text \<open>A row goes with its claim.\<close>

definition remove_row :: "string \<Rightarrow> held_entry \<Rightarrow> mailbox \<Rightarrow> mailbox" where
  "remove_row k h m =
     (let m1 = (case he_claim h of Some t \<Rightarrow> drop_claim t m | None \<Rightarrow> m) in m1\<lparr>bx_rows := js_delete k (bx_rows m1)\<rparr>)"

definition forgetArchived :: "(string \<Rightarrow> string) \<Rightarrow> string \<Rightarrow> result_ref \<Rightarrow> string \<Rightarrow> mailbox \<Rightarrow> mailbox \<times> mailbox_output list" where
  "forgetArchived sha coordinatorId ref digest m =
     (let k = resultMailboxKey sha coordinatorId ref in
      case js_get (bx_rows m) k of
        None \<Rightarrow> (m, [Forgotten False])
      | Some h \<Rightarrow>
          if me_conflict (he_value h) \<or> map_option rb_sourceDigest (me_body (he_value h)) \<noteq> Some digest then (m, [Forgotten False])
          else (remove_row k h m, [Forgotten True]))"

definition mailbox_index :: "mailbox \<Rightarrow> (string \<times> string \<times> result_ref \<times> nat \<times> nat) list" where
  "mailbox_index m =
     map (\<lambda>(k, h). (k, ci_coordinatorId (me_identity (he_value h)), ci_ref (me_identity (he_value h)), entry_body_bytes (he_value h),
                    if me_state (he_value h) = EntryReserved then BODY_BYTES else 0)) (bx_rows m)"

section \<open>Archives\<close>

text \<open>The members of an entry and a scope that the reading of a stored result looks at.\<close>

definition entry_with_scope :: "mailbox_entry \<Rightarrow> js_value \<Rightarrow> js_value" where
  "entry_with_scope e scope =
     JObject
       [(''ref'', JObject [(''handle'', JString (rr_handle (ci_ref (me_identity e)))),
          (''revision'', JNum (Fin (of_int (rr_revision (ci_ref (me_identity e))))))]),
        (''attemptId'', JString (ci_attemptId (me_identity e))), (''settledEventId'', JString (ci_settledEventId (me_identity e))),
        (''state'', JString ''ready''), (''delivery'', JString ''pending''), (''decisionScopes'', JArray [scope])]"

definition release_scope :: "(string \<Rightarrow> int option) \<Rightarrow> mailbox_entry \<Rightarrow> js_value \<Rightarrow> result_scope option" where
  "release_scope date_parse e scope =
     (case Option.bind (parseStandingResult date_parse (entry_with_scope e scope)) sr_decisionScopes of
        Some (s # _) \<Rightarrow>
          if prop_of scope ''bodyRef'' \<noteq> JUndefined \<and> \<not> valid_location_value (prop_of scope ''bodyRef'')
             \<or> rs_state s = ScopeReopened \<or> rs_state s = ScopeSuspended \<and> rs_cause s \<noteq> ''coordinator-stopped''
             \<or> rs_state s = ScopeClosed \<and> rs_cause s = ''coordinator-stopped''
          then None else Some s
      | _ \<Rightarrow> None)"

text \<open>\<open>releaseAfterArchive\<close>, up to the wait.\<close>

definition release_begins ::
  "(string \<Rightarrow> string) \<Rightarrow> (string \<Rightarrow> int option) \<Rightarrow> mailbox_authority \<Rightarrow> string \<Rightarrow> result_ref \<Rightarrow> js_value \<Rightarrow> mailbox
     \<Rightarrow> mailbox \<times> mailbox_output list" where
  "release_begins sha date_parse a coordinatorId ref scope m =
     (case cleanRef ref of
        None \<Rightarrow> (m, [ReleaseOutcome ReleaseStale])
      | Some r \<Rightarrow>
          if \<not> ma_ownsCoordinator a coordinatorId then (m, [ReleaseOutcome ReleaseStale])
          else let k = resultMailboxKey sha coordinatorId r in
            case js_get (bx_rows m) k of
              None \<Rightarrow> (m, [ReleaseOutcome ReleaseMissing])
            | Some h \<Rightarrow>
                if he_closing h then (m, [ReleaseOutcome ReleaseStale])
                else (case release_scope date_parse (he_value h) scope of
                        None \<Rightarrow> (m, [ReleaseOutcome ReleaseStale])
                      | Some s \<Rightarrow>
                          (m\<lparr>bx_rows := js_set k (h\<lparr>he_closing := True\<rparr>) (bx_rows m),
                             bx_archives := js_set (bx_next m) \<lparr>pa_key = k, pa_row = he_id h, pa_coordinatorId = coordinatorId, pa_ref = r,
                               pa_body = me_body (he_value h)\<rparr> (bx_archives m),
                             bx_next := bx_next m + 1\<rparr>, [ArchiveAsked (bx_next m) (he_value h) s])))"

text \<open>The archive's answer: it threw, gave nothing, or a receipt.\<close>

definition receipt_qualifies :: "pending_archive \<Rightarrow> archive_receipt option \<Rightarrow> bool" where
  "receipt_qualifies p receipt \<longleftrightarrow>
     (case receipt of
        None \<Rightarrow> False
      | Some r \<Rightarrow>
          ar_coordinatorId r = pa_coordinatorId p \<and> ar_ref r = pa_ref p
          \<and> (case pa_body p of
               None \<Rightarrow> True
             | Some b \<Rightarrow> (case ar_location r of Some l \<Rightarrow> validLocation l | None \<Rightarrow> False) \<and> ar_sourceDigest r = Some (rb_sourceDigest b)))"

definition reopen_row :: "pending_archive \<Rightarrow> mailbox \<Rightarrow> mailbox" where
  "reopen_row p m =
     (case js_get (bx_rows m) (pa_key p) of
        Some h \<Rightarrow> if he_id h = pa_row p then set_row (pa_key p) (h\<lparr>he_closing := False\<rparr>) m else m
      | None \<Rightarrow> m)"

definition release_ends :: "mailbox_authority \<Rightarrow> nat \<Rightarrow> (archive_receipt option) option \<Rightarrow> mailbox \<Rightarrow> mailbox \<times> mailbox_output list" where
  "release_ends a n answer m =
     (case js_get (bx_archives m) n of
        None \<Rightarrow> (m, [])
      | Some p \<Rightarrow>
          (let m1 = m\<lparr>bx_archives := js_delete n (bx_archives m)\<rparr> in
           case answer of
             None \<Rightarrow> (reopen_row p m1, [StorageErrorReported, ReleaseOutcome ReleaseStorageError])
           | Some receipt \<Rightarrow>
               if \<not> receipt_qualifies p receipt then (reopen_row p m1, [ReleaseOutcome ReleaseStorageError])
               else (case js_get (bx_rows m1) (pa_key p) of
                       Some h \<Rightarrow>
                         if he_id h \<noteq> pa_row p \<or> \<not> ma_ownsCoordinator a (pa_coordinatorId p)
                         then (reopen_row p m1, [ReleaseOutcome ReleaseStale])
                         else (remove_row (pa_key p) h m1, [ReleaseOutcome Released])
                     | None \<Rightarrow> (m1, [ReleaseOutcome ReleaseStale]))))"

section \<open>Histories\<close>

datatype mailbox_op =
    Restore mailbox_authority mailbox_entry
  | Reserve mailbox_authority completion_identity
  | Settle mailbox_authority completion_identity bool string "body_location option"
  | TryClaim mailbox_authority string result_ref delivered_via delivery_context
  | Ack mailbox_authority nat
  | ReleaseClaim nat
  | ForgetArchived string result_ref string
  | ReleaseBegins mailbox_authority string result_ref js_value
  | ReleaseEnds mailbox_authority nat "archive_receipt option option"

fun mailbox_step :: "(string \<Rightarrow> string) \<Rightarrow> (string \<Rightarrow> int option) \<Rightarrow> mailbox \<Rightarrow> mailbox_op \<Rightarrow> mailbox \<times> mailbox_output list" where
  "mailbox_step sha dp m (Restore a e) = restore sha a e m"
| "mailbox_step sha dp m (Reserve a i) = reserve_result sha a i m"
| "mailbox_step sha dp m (Settle a i ready t l) = settle_entry sha a i ready t l m"
| "mailbox_step sha dp m (TryClaim a c r via ctx) = tryClaim sha a c r via ctx m"
| "mailbox_step sha dp m (Ack a t) = ackDelivery a t m"
| "mailbox_step sha dp m (ReleaseClaim t) = releaseClaim t m"
| "mailbox_step sha dp m (ForgetArchived c r d) = forgetArchived sha c r d m"
| "mailbox_step sha dp m (ReleaseBegins a c r s) = release_begins sha dp a c r s m"
| "mailbox_step sha dp m (ReleaseEnds a n answer) = release_ends a n answer m"

end
