(* ===== verification/ResultMailboxLaws.thy ===== *)
theory ResultMailboxLaws
  imports ResultMailbox
begin

text \<open>
  What the mailbox promises in every history of calls: it stays within its limits, a result is handed over at most once,
  and a body that has settled is neither changed nor dropped unless its archive has it. One invariant carries all three.
\<close>

section \<open>The invariant\<close>

definition allotted :: "mailbox_entry \<Rightarrow> nat" where
  "allotted e = (if me_state e = EntryReserved then BODY_BYTES else entry_body_bytes e)"

definition good_value :: "mailbox_entry \<Rightarrow> bool" where
  "good_value e \<longleftrightarrow> (if me_state e = EntryReserved then me_body e = None \<and> me_delivery e = None else me_body e \<noteq> None)"

definition good_row :: "(string \<Rightarrow> string) \<Rightarrow> string \<Rightarrow> held_entry \<Rightarrow> bool" where
  "good_row sha k h \<longleftrightarrow> key_of sha (me_identity (he_value h)) = k \<and> good_value (he_value h)
     \<and> (he_claim h \<noteq> None \<longrightarrow> me_delivery (he_value h) = Some DeliveryPending)"

definition within_limits :: "mailbox \<Rightarrow> bool" where
  "within_limits m \<longleftrightarrow> usage_slots m \<le> SLOTS \<and> totalBytes m \<le> TOTAL_BYTES"

definition row_id :: "mailbox \<Rightarrow> string \<Rightarrow> nat option" where
  "row_id m k = map_option he_id (js_get (bx_rows m) k)"

definition rows_good :: "(string \<Rightarrow> string) \<Rightarrow> mailbox \<Rightarrow> bool" where
  "rows_good sha m \<longleftrightarrow> js_map_ok (bx_rows m)
     \<and> (\<forall>k h. js_get (bx_rows m) k = Some h \<longrightarrow> good_row sha k h \<and> he_id h < bx_next m)
     \<and> (\<forall>k k' i. row_id m k = Some i \<and> row_id m k' = Some i \<longrightarrow> k = k')"

text \<open>Tokens and the rows they claim belong together.\<close>

definition row_claim :: "mailbox \<Rightarrow> string \<Rightarrow> nat option" where
  "row_claim m k = Option.bind (js_get (bx_rows m) k) he_claim"

definition claims_good :: "mailbox \<Rightarrow> bool" where
  "claims_good m \<longleftrightarrow>
     (\<forall>k t. row_claim m k = Some t \<longleftrightarrow> map_option cl_key (js_get (bx_claims m) t) = Some k)
     \<and> (\<forall>t. js_get (bx_claims m) t \<noteq> None \<longrightarrow> t < bx_next m)"

text \<open>A row closes for one archive, which knows its body.\<close>

definition archives_good :: "mailbox \<Rightarrow> bool" where
  "archives_good m \<longleftrightarrow>
     (\<forall>n p. js_get (bx_archives m) n = Some p \<longrightarrow> n < bx_next m \<and> pa_row p < bx_next m
        \<and> (\<forall>k h. js_get (bx_rows m) k = Some h \<and> he_id h = pa_row p \<longrightarrow> k = pa_key p \<and> he_closing h \<and> me_body (he_value h) = pa_body p))
     \<and> (\<forall>n p n' p'. js_get (bx_archives m) n = Some p \<and> js_get (bx_archives m) n' = Some p' \<and> pa_row p = pa_row p' \<longrightarrow> n = n')"

definition mailbox_ok :: "(string \<Rightarrow> string) \<Rightarrow> mailbox \<Rightarrow> bool" where
  "mailbox_ok sha m \<longleftrightarrow> within_limits m \<and> rows_good sha m \<and> claims_good m \<and> archives_good m"

lemma totalBytes_alt: "totalBytes m = sum_list (map (\<lambda>h. allotted (he_value h)) (js_values (bx_rows m)))"
  unfolding totalBytes_def reservedBytes_def bodyBytes_def sum_list_addf [symmetric]
  by (intro arg_cong [where f = sum_list] map_cong) (simp_all add: allotted_def)

lemma ok_parts:
  assumes "mailbox_ok sha m"
  shows "within_limits m" "rows_good sha m" "claims_good m" "archives_good m" "js_map_ok (bx_rows m)"
  using assms by (auto simp: mailbox_ok_def rows_good_def)

lemma ok_row: "mailbox_ok sha m \<Longrightarrow> js_get (bx_rows m) k = Some h \<Longrightarrow> good_row sha k h \<and> he_id h < bx_next m"
  unfolding mailbox_ok_def rows_good_def by blast

lemma ok_archive: "mailbox_ok sha m \<Longrightarrow> js_get (bx_archives m) n = Some p \<Longrightarrow> n < bx_next m \<and> pa_row p < bx_next m"
  unfolding mailbox_ok_def archives_good_def by blast

lemma ok_closing:
  "mailbox_ok sha m \<Longrightarrow> js_get (bx_archives m) n = Some p \<Longrightarrow> js_get (bx_rows m) k = Some h \<Longrightarrow> he_id h = pa_row p
     \<Longrightarrow> k = pa_key p \<and> he_closing h \<and> me_body (he_value h) = pa_body p"
  unfolding mailbox_ok_def archives_good_def by blast

lemma ok_one_row:
  assumes "mailbox_ok sha m" and "js_get (bx_rows m) k = Some h" and "js_get (bx_rows m) k' = Some h'" and "he_id h = he_id h'"
  shows "k = k'"
proof -
  have "row_id m k = Some (he_id h) \<and> row_id m k' = Some (he_id h)" using assms(2-4) by (simp add: row_id_def)
  with assms(1) show ?thesis unfolding mailbox_ok_def rows_good_def by blast
qed

lemma archives_kept:
  assumes ok: "mailbox_ok sha m" and same: "bx_archives m' = bx_archives m" "bx_next m \<le> bx_next m'"
    and rows: "\<And>n p k h. js_get (bx_archives m) n = Some p \<Longrightarrow> js_get (bx_rows m') k = Some h \<Longrightarrow> he_id h = pa_row p
      \<Longrightarrow> k = pa_key p \<and> he_closing h \<and> me_body (he_value h) = pa_body p"
  shows "archives_good m'"
  unfolding archives_good_def same(1)
proof (intro conjI allI impI)
  fix n p assume p: "js_get (bx_archives m) n = Some p"
  from ok_archive [OF ok p] same(2) show "n < bx_next m'" "pa_row p < bx_next m'" by auto
  fix k h assume "js_get (bx_rows m') k = Some h \<and> he_id h = pa_row p"
  with rows [OF p] show "k = pa_key p" "he_closing h" "me_body (he_value h) = pa_body p" by blast+
next
  fix n p n' p'
  assume "js_get (bx_archives m) n = Some p \<and> js_get (bx_archives m) n' = Some p' \<and> pa_row p = pa_row p'"
  with ok_parts(4) [OF ok] show "n = n'" unfolding archives_good_def by blast
qed

section \<open>Changing a row\<close>

text \<open>A row that is there is replaced by one of the same identity.\<close>

lemma total_set_le:
  assumes ok: "js_map_ok (bx_rows m)" and h: "js_get (bx_rows m) k = Some h" and le: "allotted (he_value h') \<le> allotted (he_value h)"
  shows "totalBytes (set_row k h' m) \<le> totalBytes m"
proof -
  let ?f = "\<lambda>h. allotted (he_value h)"
  have "sum_list (map ?f (js_values (js_set k h' rows))) + ?f h = sum_list (map ?f (js_values rows)) + ?f h'"
    if "js_map_ok rows" "js_get rows k = Some h" for rows
    using that by (induction rows) (auto split: if_splits)
  from this [OF ok h] le show ?thesis by (simp add: totalBytes_alt set_row_def comp_def)
qed

lemma set_row_ok:
  assumes ok: "mailbox_ok sha m" and h: "js_get (bx_rows m) k = Some h"
    and same: "he_id h' = he_id h" "he_claim h' = he_claim h" and good: "good_row sha k h'"
    and le: "allotted (he_value h') \<le> allotted (he_value h)"
    and closing: "he_closing h \<Longrightarrow> he_closing h' \<and> me_body (he_value h') = me_body (he_value h)"
  shows "mailbox_ok sha (set_row k h' m)"
proof -
  let ?m = "set_row k h' m"
  have rows: "bx_rows ?m = js_set k h' (bx_rows m)" "bx_claims ?m = bx_claims m" "bx_archives ?m = bx_archives m" "bx_next ?m = bx_next m"
    by (simp_all add: set_row_def)
  have "within_limits ?m" using ok_parts(1) [OF ok] h total_set_le [OF ok_parts(5) [OF ok] h le]
    unfolding within_limits_def usage_slots_def rows length_js_set by simp
  moreover have "row_id ?m = row_id m" using h same(1) by (simp add: row_id_def fun_eq_iff rows)
  with ok_parts(2) [OF ok] good ok_row [OF ok h] same(1) have "rows_good sha ?m" unfolding rows_good_def rows by simp
  moreover have "row_claim ?m = row_claim m" using h same(2) by (simp add: row_claim_def fun_eq_iff rows)
  with ok_parts(3) [OF ok] have "claims_good ?m" unfolding claims_good_def rows by simp
  moreover have "archives_good ?m" using ok_parts(4) [OF ok] h same(1) closing unfolding archives_good_def rows
    by (auto split: if_splits)
  ultimately show ?thesis by (simp add: mailbox_ok_def)
qed

lemma put_row_ok:
  assumes ok: "mailbox_ok sha m" and new: "js_get (bx_rows m) k = None" and key: "key_of sha (me_identity e) = k" and good: "good_value e"
    and slots: "usage_slots m < SLOTS" and total: "totalBytes m + allotted e \<le> TOTAL_BYTES"
  shows "mailbox_ok sha (put_row k e m)"
proof -
  let ?h = "\<lparr>he_id = bx_next m, he_value = e, he_closing = False, he_claim = None\<rparr>"
  let ?m = "put_row k e m"
  have rows: "bx_rows ?m = js_set k ?h (bx_rows m)" "bx_claims ?m = bx_claims m" "bx_archives ?m = bx_archives m" "bx_next ?m = bx_next m + 1"
    by (simp_all add: put_row_def)
  have new_key: "k \<notin> fst ` set (bx_rows m)" using new by (simp add: map_of_eq_None_iff)
  have "within_limits ?m" using slots total
    unfolding within_limits_def usage_slots_def totalBytes_alt rows js_set_new [OF new_key] by simp
  moreover have "rows_good sha ?m" unfolding rows_good_def
  proof (intro conjI allI impI)
    show "js_map_ok (bx_rows ?m)" using ok_parts(5) [OF ok] by (simp add: rows)
    fix k1 h assume "js_get (bx_rows ?m) k1 = Some h"
    with ok_row [OF ok, of k1 h] key good show "good_row sha k1 h" "he_id h < bx_next ?m"
      by (auto simp: rows good_row_def split: if_splits)
  next
    fix k1 k2 i assume two: "row_id ?m k1 = Some i \<and> row_id ?m k2 = Some i"
    have id: "row_id ?m x = (if x = k then Some (bx_next m) else row_id m x)" for x by (simp add: row_id_def rows)
    have less: "row_id m x = Some j \<Longrightarrow> j < bx_next m" for x j using ok_row [OF ok] by (auto simp: row_id_def)
    have "row_id m k1 = Some i \<and> row_id m k2 = Some i \<Longrightarrow> k1 = k2" using ok_parts(2) [OF ok] unfolding rows_good_def by blast
    with two less [of k1 i] less [of k2 i] show "k1 = k2" unfolding id by (auto split: if_splits)
  qed
  moreover have "row_claim ?m = row_claim m" using new by (simp add: row_claim_def fun_eq_iff rows)
  with ok_parts(3) [OF ok] have "claims_good ?m" unfolding claims_good_def rows by (auto intro: less_SucI)
  moreover have "archives_good ?m"
  proof (rule archives_kept [OF ok])
    fix n p k1 h1
    assume p: "js_get (bx_archives m) n = Some p" and h1: "js_get (bx_rows ?m) k1 = Some h1" "he_id h1 = pa_row p"
    with ok_archive [OF ok p] have "js_get (bx_rows m) k1 = Some h1" by (auto simp: rows split: if_splits)
    from ok_closing [OF ok p this h1(2)] show "k1 = pa_key p \<and> he_closing h1 \<and> me_body (he_value h1) = pa_body p" .
  qed (simp_all add: rows)
  ultimately show ?thesis by (simp add: mailbox_ok_def)
qed

section \<open>Claims\<close>

lemma claimed_row_iff:
  "mailbox_ok sha m \<Longrightarrow> claimed_row t m = Some (c, h) \<longleftrightarrow>
     js_get (bx_claims m) t = Some c \<and> js_get (bx_rows m) (cl_key c) = Some h \<and> he_claim h = Some t"
  unfolding claimed_row_def by (auto split: option.splits if_splits)

lemma total_cong:
  assumes "js_map_ok (bx_rows m)" and "js_get (bx_rows m) k = Some h" and "he_value h' = he_value h"
  shows "totalBytes (set_row k h' m) = totalBytes m"
proof -
  let ?f = "\<lambda>h. allotted (he_value h)"
  have "sum_list (map ?f (js_values (js_set k h' (bx_rows m)))) + ?f h = sum_list (map ?f (js_values (bx_rows m))) + ?f h'"
    using js_sum_set [OF assms(1), of ?f k h'] assms(2) by simp
  with assms(3) show ?thesis by (simp add: totalBytes_alt set_row_def)
qed

lemma totalBytes_rows: "bx_rows m' = bx_rows m \<Longrightarrow> totalBytes m' = totalBytes m"
  by (simp add: totalBytes_alt)

text \<open>Rows whose claims and closing change, but not what they hold.\<close>

lemma same_values_ok:
  assumes ok: "mailbox_ok sha m" and h: "js_get (bx_rows m) k = Some h" and same: "he_id h' = he_id h" "he_value h' = he_value h"
    and rows: "bx_rows m' = js_set k h' (bx_rows m)" and next_: "bx_next m \<le> bx_next m'"
    and claim: "he_claim h' \<noteq> None \<Longrightarrow> me_delivery (he_value h) = Some DeliveryPending"
  shows "within_limits m'" "rows_good sha m'"
proof -
  have total: "totalBytes m' = totalBytes m"
    using totalBytes_rows [of m' "set_row k h' m"] total_cong [OF ok_parts(5) [OF ok] h same(2)] rows by (simp add: set_row_def)
  with ok_parts(1) [OF ok] h show "within_limits m'" unfolding within_limits_def usage_slots_def rows length_js_set by simp
  have id: "row_id m' = row_id m" using h same(1) by (simp add: row_id_def fun_eq_iff rows)
  show "rows_good sha m'" unfolding rows_good_def id
  proof (intro conjI allI impI)
    show "js_map_ok (bx_rows m')" using ok_parts(5) [OF ok] by (simp add: rows)
    fix k1 h1 assume h1: "js_get (bx_rows m') k1 = Some h1"
    have "good_row sha k h'" using ok_row [OF ok h] same(2) claim by (simp add: good_row_def)
    with h1 ok_row [OF ok, of k1 h1] show "good_row sha k1 h1" by (auto simp: rows split: if_splits)
    have "he_id h1 < bx_next m"
    proof (cases "k1 = k")
      case True
      with h1 same(1) ok_row [OF ok h] show ?thesis by (simp add: rows)
    next
      case False
      with h1 have "js_get (bx_rows m) k1 = Some h1" by (simp add: rows)
      with ok_row [OF ok] show ?thesis by blast
    qed
    with next_ show "he_id h1 < bx_next m'" by simp
  next
    fix k1 k2 i assume "row_id m k1 = Some i \<and> row_id m k2 = Some i"
    with ok_parts(2) [OF ok] show "k1 = k2" unfolding rows_good_def by blast
  qed
qed

lemma drop_claim_ok: "mailbox_ok sha m \<Longrightarrow> mailbox_ok sha (drop_claim t m)"
proof (cases "claimed_row t m")
  case (Some ch)
  assume ok: "mailbox_ok sha m"
  obtain c h where ch: "ch = (c, h)" by (cases ch)
  with Some claimed_row_iff [OF ok] have c: "js_get (bx_claims m) t = Some c" and h: "js_get (bx_rows m) (cl_key c) = Some h" "he_claim h = Some t"
    by auto
  let ?h = "h\<lparr>he_claim := None\<rparr>" and ?m = "drop_claim t m"
  have rows: "bx_rows ?m = js_set (cl_key c) ?h (bx_rows m)" "bx_claims ?m = js_delete t (bx_claims m)" "bx_archives ?m = bx_archives m" "bx_next ?m = bx_next m"
    using Some ch by (simp_all add: drop_claim_def)
  have iff: "row_claim m k = Some x \<longleftrightarrow> map_option cl_key (js_get (bx_claims m) x) = Some k" for k x
    using ok_parts(3) [OF ok] unfolding claims_good_def by blast
  have claim: "row_claim ?m k = (if k = cl_key c then None else row_claim m k)" for k by (simp add: row_claim_def rows)
  have "row_claim ?m k = Some x \<longleftrightarrow> map_option cl_key (js_get (bx_claims ?m) x) = Some k" for k x
    using iff [of k x] iff [of "cl_key c" x] iff [of k t] c unfolding claim rows by auto
  with ok_parts(3) [OF ok] have "claims_good ?m" unfolding claims_good_def rows by (auto split: if_splits)
  moreover have "archives_good ?m" using ok_parts(4) [OF ok] h unfolding archives_good_def rows by (auto split: if_splits)
  moreover note same_values_ok [OF ok h(1), where h' = ?h and m' = ?m]
  ultimately show ?thesis by (simp add: mailbox_ok_def rows)
qed (simp add: drop_claim_def)

text \<open>Removing a row nobody claims.\<close>

lemma delete_row_ok:
  assumes ok: "mailbox_ok sha m" and none: "row_claim m k = None"
  shows "mailbox_ok sha (m\<lparr>bx_rows := js_delete k (bx_rows m)\<rparr>)"
proof -
  let ?m = "m\<lparr>bx_rows := js_delete k (bx_rows m)\<rparr>"
  have "totalBytes ?m \<le> totalBytes m"
    using js_sum_delete [OF ok_parts(5) [OF ok], of "\<lambda>h. allotted (he_value h)" k] by (simp add: totalBytes_alt split: option.splits)
  moreover have "length (js_delete k (bx_rows m)) \<le> length (bx_rows m)" by (rule length_delete_le)
  ultimately have "within_limits ?m" using ok_parts(1) [OF ok] by (simp add: within_limits_def usage_slots_def)
  moreover have "row_id ?m x = (if x = k then None else row_id m x)" for x by (simp add: row_id_def)
  with ok_parts(2) [OF ok] have "rows_good sha ?m" unfolding rows_good_def by (auto split: if_splits)
  moreover have "row_claim ?m x = row_claim m x" for x using none by (simp add: row_claim_def)
  with ok_parts(3) [OF ok] have "claims_good ?m" unfolding claims_good_def by simp
  moreover have "archives_good ?m" using ok_parts(4) [OF ok] unfolding archives_good_def by (auto split: if_splits)
  ultimately show ?thesis by (simp add: mailbox_ok_def)
qed

lemma remove_row_ok:
  assumes ok: "mailbox_ok sha m" and h: "js_get (bx_rows m) k = Some h"
  shows "mailbox_ok sha (remove_row k h m)"
proof (cases "he_claim h")
  case None
  with h have "row_claim m k = None" by (simp add: row_claim_def)
  with delete_row_ok [OF ok] None show ?thesis by (simp add: remove_row_def Let_def)
next
  case (Some t)
  with h have "row_claim m k = Some t" by (simp add: row_claim_def)
  with ok_parts(3) [OF ok] obtain c where "js_get (bx_claims m) t = Some c" "cl_key c = k" unfolding claims_good_def by blast
  with h Some have "claimed_row t m = Some (c, h)" "cl_key c = k" by (simp_all add: claimed_row_def)
  then have "row_claim (drop_claim t m) k = None" by (simp add: drop_claim_def row_claim_def)
  with delete_row_ok [OF drop_claim_ok [OF ok, of t]] Some show ?thesis by (simp add: remove_row_def Let_def)
qed

section \<open>Bodies\<close>

lemma utf8_length_Nil [simp]: "utf8_length [] = 0"
  by (simp add: utf8_length_def)

lemma utf8_length_append [simp]: "utf8_length (s @ t) = utf8_length s + utf8_length t"
  by (simp add: utf8_length_def)

lemma utf8_length_rev [simp]: "utf8_length (rev s) = utf8_length s"
  by (simp add: utf8_length_def rev_map [symmetric])

lemma utf8_prefix_length: "utf8_length (utf8_prefix n s) \<le> n"
proof (induction n s rule: utf8_prefix.induct)
  case (2 n c cs)
  have "utf8_length (c # utf8_prefix (n - utf8_length [c]) cs) = utf8_length [c] + utf8_length (utf8_prefix (n - utf8_length [c]) cs)"
    by (simp add: utf8_length_def)
  with 2 show ?case by auto
qed (simp add: utf8_length_def)

lemma marker_fits: "utf8_length TRUNCATED_MARKER \<le> BODY_BYTES"
  by code_simp

lemma body_fits: "rb_bytes (boundedResultBody sha t l) \<le> BODY_BYTES"
proof (cases "BODY_BYTES < utf8_length t")
  case True
  define room where "room = (BODY_BYTES - utf8_length TRUNCATED_MARKER) div 2"
  define rest where "rest = BODY_BYTES - utf8_length TRUNCATED_MARKER - room"
  have all: "room + rest + utf8_length TRUNCATED_MARKER = BODY_BYTES" using marker_fits unfolding room_def rest_def by linarith
  have "utf8_length (utf8_prefix room u @ TRUNCATED_MARKER @ utf8_suffix rest v) \<le> BODY_BYTES" for u v
    using all utf8_prefix_length [of room u] utf8_prefix_length [of rest "rev v"] unfolding utf8_length_append utf8_suffix_def by simp
  with True show ?thesis unfolding boundedResultBody_def Let_def room_def [symmetric] rest_def [symmetric] by simp
qed (simp add: boundedResultBody_def Let_def)

section \<open>Every operation keeps the invariant\<close>

lemma limits_ok: "within_limits m \<Longrightarrow> \<not> (SLOTS \<le> usage_slots m \<or> TOTAL_BYTES < totalBytes m + n) \<Longrightarrow> usage_slots m < SLOTS \<and> totalBytes m + n \<le> TOTAL_BYTES"
  by auto

lemma cleanIdentity_same: "cleanIdentity i = Some j \<Longrightarrow> j = i"
  by (simp add: cleanIdentity_def split: if_splits)

lemma restore_ok: "mailbox_ok sha m \<Longrightarrow> mailbox_ok sha (fst (restore sha a e m))"
  unfolding restore_def
  by (auto split: option.splits intro!: put_row_ok dest!: cleanIdentity_same simp: good_value_def allotted_def entry_body_bytes_def js_has_iff [symmetric])

lemma conflict_ok:
  assumes "mailbox_ok sha m" and h: "js_get (bx_rows m) k = Some h"
  shows "mailbox_ok sha (set_row k (h\<lparr>he_value := (he_value h)\<lparr>me_conflict := True\<rparr>\<rparr>) m)"
  using ok_row [OF assms]
  by (intro set_row_ok [OF assms]) (auto simp: good_row_def good_value_def allotted_def entry_body_bytes_def)

lemma reserve_result_ok: "mailbox_ok sha m \<Longrightarrow> mailbox_ok sha (fst (reserve_result sha a i m))"
  unfolding reserve_result_def
  by (auto split: option.splits intro!: conflict_ok put_row_ok dest!: cleanIdentity_same
      simp: good_value_def allotted_def fresh_entry_def)

lemma settled_row_ok:
  assumes ok: "mailbox_ok sha m" and h: "js_get (bx_rows m) (key_of sha i) = Some h" and res: "me_state (he_value h) = EntryReserved"
    and open_: "\<not> he_closing h" and st: "st \<noteq> EntryReserved" and fits: "rb_bytes body \<le> BODY_BYTES"
  shows "mailbox_ok sha (set_row (key_of sha i) (h\<lparr>he_value := (fresh_entry i)\<lparr>me_state := st,
           me_delivery := Some DeliveryPending, me_body := Some body\<rparr>\<rparr>) m)"
  using ok_row [OF ok h] res open_ st fits
  by (intro set_row_ok [OF ok h]) (auto simp: good_row_def good_value_def allotted_def entry_body_bytes_def fresh_entry_def)

lemma settle_ok:
  assumes ok: "mailbox_ok sha m"
  shows "mailbox_ok sha (fst (settle_entry sha a i ready t l m))"
proof -
  define st where "st = (if ready then EntryReady else EntryFailed)"
  define body where "body = boundedResultBody sha t l"
  have st: "st \<noteq> EntryReserved" by (simp add: st_def)
  have fits: "rb_bytes body \<le> BODY_BYTES" unfolding body_def by (rule body_fits)
  show ?thesis
  proof (cases "cleanIdentity i")
    case (Some j)
    then have j: "cleanIdentity i = Some i" using cleanIdentity_same by blast
    show ?thesis
    proof (cases "js_get (bx_rows m) (key_of sha i)")
      case (Some h)
      from conflict_ok [OF ok Some] settled_row_ok [OF ok Some _ _ st fits] ok show ?thesis
        unfolding settle_entry_def Let_def st_def [symmetric] body_def [symmetric] by (simp add: j Some)
    qed (use ok in \<open>simp add: settle_entry_def j\<close>)
  qed (use ok in \<open>simp add: settle_entry_def\<close>)
qed

lemma tryClaim_ok:
  assumes ok: "mailbox_ok sha m"
  shows "mailbox_ok sha (fst (tryClaim sha a c r via ctx m))"
proof (cases "fst (tryClaim sha a c r via ctx m) = m")
  case False
  then obtain r' k h where k: "k = resultMailboxKey sha c r'" and h: "js_get (bx_rows m) k = Some h" "he_claim h = None"
      "me_delivery (he_value h) = Some DeliveryPending"
    and new: "fst (tryClaim sha a c r via ctx m) = m\<lparr>bx_rows := js_set k (h\<lparr>he_claim := Some (bx_next m)\<rparr>) (bx_rows m),
        bx_claims := js_set (bx_next m) \<lparr>cl_key = k, cl_context = ctx, cl_via = via\<rparr> (bx_claims m), bx_next := bx_next m + 1\<rparr>"
    unfolding tryClaim_def Let_def by (auto split: option.splits if_splits)
  let ?h = "h\<lparr>he_claim := Some (bx_next m)\<rparr>" and ?m = "fst (tryClaim sha a c r via ctx m)"
  have rows: "bx_rows ?m = js_set k ?h (bx_rows m)" "bx_archives ?m = bx_archives m" "bx_next ?m = bx_next m + 1"
      "bx_claims ?m = js_set (bx_next m) \<lparr>cl_key = k, cl_context = ctx, cl_via = via\<rparr> (bx_claims m)"
    by (simp_all add: new)
  note limits = same_values_ok [OF ok h(1), where h' = ?h and m' = ?m]
  have fresh: "js_get (bx_claims m) (bx_next m) = None" using ok_parts(3) [OF ok] unfolding claims_good_def by blast
  have iff: "row_claim m x = Some t \<longleftrightarrow> map_option cl_key (js_get (bx_claims m) t) = Some x" for x t
    using ok_parts(3) [OF ok] unfolding claims_good_def by blast
  have claim: "row_claim ?m x = (if x = k then Some (bx_next m) else row_claim m x)" for x by (simp add: row_claim_def rows)
  have none: "row_claim m k = None" using h by (simp add: row_claim_def)
  have "row_claim ?m x = Some t \<longleftrightarrow> map_option cl_key (js_get (bx_claims ?m) t) = Some x" for x t
    using iff [of x t] iff [of k t] none fresh unfolding claim rows by auto
  moreover have "js_get (bx_claims ?m) t \<noteq> None \<Longrightarrow> t < bx_next ?m" for t
    using ok_parts(3) [OF ok] unfolding claims_good_def rows by (auto split: if_splits intro: less_SucI)
  ultimately have "claims_good ?m" unfolding claims_good_def by blast
  moreover have "archives_good ?m"
  proof (rule archives_kept [OF ok])
    fix n p k1 h1
    assume p: "js_get (bx_archives m) n = Some p" and h1: "js_get (bx_rows ?m) k1 = Some h1" "he_id h1 = pa_row p"
    obtain h0 where "js_get (bx_rows m) k1 = Some h0" "he_id h0 = he_id h1" "he_closing h1 = he_closing h0" "he_value h1 = he_value h0"
      using h1(1) h(1) by (cases "k1 = k") (auto simp: rows)
    with ok_closing [OF ok p] h1(2) show "k1 = pa_key p \<and> he_closing h1 \<and> me_body (he_value h1) = pa_body p" by auto
  qed (simp_all add: rows)
  ultimately show ?thesis using limits h by (simp add: mailbox_ok_def rows)
qed (use ok in simp)

text \<open>An acknowledgement drops the claim and marks the row, in either order.\<close>

lemma ack_form:
  assumes "claimed_row t m = Some (c, h)"
  shows "drop_claim t (set_row (cl_key c) (h\<lparr>he_value := v\<rparr>) m) = set_row (cl_key c) (h\<lparr>he_value := v, he_claim := None\<rparr>) (drop_claim t m)"
    and "js_get (bx_rows (drop_claim t m)) (cl_key c) = Some (h\<lparr>he_claim := None\<rparr>)"
proof -
  have h: "js_get (bx_claims m) t = Some c" "js_get (bx_rows m) (cl_key c) = Some h" "he_claim h = Some t"
    using assms by (auto simp: claimed_row_def split: option.splits if_splits)
  have twice: "js_set k a (js_set k b rows) = js_set k a rows" for k :: string and a b :: held_entry and rows
    by (induction rows) auto
  have "claimed_row t (set_row (cl_key c) (h\<lparr>he_value := v\<rparr>) m) = Some (c, h\<lparr>he_value := v\<rparr>)"
    using h by (simp add: claimed_row_def set_row_def)
  then show "drop_claim t (set_row (cl_key c) (h\<lparr>he_value := v\<rparr>) m) = set_row (cl_key c) (h\<lparr>he_value := v, he_claim := None\<rparr>) (drop_claim t m)"
    using assms by (simp add: drop_claim_def set_row_def twice)
  show "js_get (bx_rows (drop_claim t m)) (cl_key c) = Some (h\<lparr>he_claim := None\<rparr>)"
    using assms by (simp add: drop_claim_def)
qed

lemma ack_ok:
  assumes ok: "mailbox_ok sha m"
  shows "mailbox_ok sha (fst (ackDelivery a t m))"
proof (cases "claimed_row t m")
  case (Some ch)
  obtain c h where ch: "claimed_row t m = Some (c, h)" using Some by (cases ch) simp
  let ?v = "(he_value h)\<lparr>me_delivery := Some Delivered, me_deliveredVia := Some (cl_via c)\<rparr>"
  have h: "js_get (bx_rows m) (cl_key c) = Some h" using ch claimed_row_iff [OF ok] by blast
  have "me_delivery (he_value h) = Some DeliveryPending" using ok_row [OF ok h] ch claimed_row_iff [OF ok, of t c h] by (simp add: good_row_def)
  with ok_row [OF ok h] have "good_row sha (cl_key c) (h\<lparr>he_value := ?v, he_claim := None\<rparr>)" by (auto simp: good_row_def good_value_def split: if_splits)
  then have "mailbox_ok sha (drop_claim t (set_row (cl_key c) (h\<lparr>he_value := ?v\<rparr>) m))"
    unfolding ack_form(1) [OF ch]
    by (intro set_row_ok [OF drop_claim_ok [OF ok] ack_form(2) [OF ch]]) (auto simp: allotted_def entry_body_bytes_def)
  with ok drop_claim_ok [OF ok, of t] show ?thesis by (simp add: ackDelivery_def ch)
qed (use ok in \<open>simp add: ackDelivery_def\<close>)

lemma forget_ok: "mailbox_ok sha m \<Longrightarrow> mailbox_ok sha (fst (forgetArchived sha c r d m))"
  unfolding forgetArchived_def Let_def by (auto split: option.splits intro!: remove_row_ok)

lemma release_begins_ok:
  assumes ok: "mailbox_ok sha m"
  shows "mailbox_ok sha (fst (release_begins sha dp a c r scope m))"
proof (cases "fst (release_begins sha dp a c r scope m) = m")
  case False
  then obtain r' k h where k: "k = resultMailboxKey sha c r'" and h: "js_get (bx_rows m) k = Some h" "\<not> he_closing h"
    and new': "fst (release_begins sha dp a c r scope m) = m\<lparr>bx_rows := js_set k (h\<lparr>he_closing := True\<rparr>) (bx_rows m),
        bx_archives := js_set (bx_next m) \<lparr>pa_key = k, pa_row = he_id h, pa_coordinatorId = c, pa_ref = r', pa_body = me_body (he_value h)\<rparr>
          (bx_archives m), bx_next := bx_next m + 1\<rparr>"
    unfolding release_begins_def Let_def by (auto split: option.splits if_splits)
  define p where "p = \<lparr>pa_key = k, pa_row = he_id h, pa_coordinatorId = c, pa_ref = r', pa_body = me_body (he_value h)\<rparr>"
  note new = new' [folded p_def]
  have p: "pa_key p = k" "pa_row p = he_id h" "pa_body p = me_body (he_value h)" by (simp_all add: p_def)
  let ?h = "h\<lparr>he_closing := True\<rparr>" and ?m = "fst (release_begins sha dp a c r scope m)"
  have rows: "bx_rows ?m = js_set k ?h (bx_rows m)" "bx_archives ?m = js_set (bx_next m) p (bx_archives m)" "bx_next ?m = bx_next m + 1"
      "bx_claims ?m = bx_claims m"
    by (simp_all add: new)
  have "row_claim ?m = row_claim m" using h(1) by (simp add: row_claim_def fun_eq_iff rows)
  with ok_parts(3) [OF ok] have "claims_good ?m" unfolding claims_good_def rows by (auto intro: less_SucI)
  moreover have other: "pa_row p' \<noteq> he_id h" if "js_get (bx_archives m) n = Some p'" for n p'
    using ok_closing [OF ok that h(1)] h(2) by auto
  have "archives_good ?m" unfolding archives_good_def
  proof (intro conjI allI impI)
    fix n q assume "js_get (bx_archives ?m) n = Some q"
    then have "n = bx_next m \<and> q = p \<or> js_get (bx_archives m) n = Some q" unfolding rows js_get_set by (cases "n = bx_next m") simp_all
    then consider "n = bx_next m" "q = p" | "js_get (bx_archives m) n = Some q" by blast
    then have all: "n < bx_next ?m \<and> pa_row q < bx_next ?m \<and> (\<forall>k h. js_get (bx_rows ?m) k = Some h \<and> he_id h = pa_row q
        \<longrightarrow> k = pa_key q \<and> he_closing h \<and> me_body (he_value h) = pa_body q)"
    proof cases
      case 1
      have "k1 = k" if "js_get (bx_rows m) k1 = Some h1" "he_id h1 = he_id h" for k1 h1 using ok_one_row [OF ok that(1) h(1) that(2)] .
      with 1 p ok_row [OF ok h(1)] show ?thesis by (auto simp: rows split: if_splits)
    next
      case 2
      with ok_archive [OF ok 2] ok_closing [OF ok 2] other [OF 2] show ?thesis by (auto simp: rows split: if_splits)
    qed
    then show "n < bx_next ?m" "pa_row q < bx_next ?m" by blast+
    fix k1 h1 assume "js_get (bx_rows ?m) k1 = Some h1 \<and> he_id h1 = pa_row q"
    with all show "k1 = pa_key q" "he_closing h1" "me_body (he_value h1) = pa_body q" by blast+
  next
    fix n q n' q'
    assume two: "js_get (bx_archives ?m) n = Some q \<and> js_get (bx_archives ?m) n' = Some q' \<and> pa_row q = pa_row q'"
    have old: "js_get (bx_archives m) n = Some q \<Longrightarrow> js_get (bx_archives m) n' = Some q' \<Longrightarrow> n = n'"
      using ok_parts(4) [OF ok] two unfolding archives_good_def by blast
    show "n = n'" using two old other p(2) by (auto simp: rows split: if_splits)
  qed
  ultimately show ?thesis using same_values_ok [OF ok h(1), where h' = ?h and m' = ?m] ok_row [OF ok h(1)]
    by (simp add: mailbox_ok_def rows good_row_def)
qed (use ok in simp)

text \<open>The end of an archive: the archive is gone, and its row open again or removed.\<close>

lemma drop_archive_ok: "mailbox_ok sha m \<Longrightarrow> mailbox_ok sha (m\<lparr>bx_archives := js_delete n (bx_archives m)\<rparr>)"
proof -
  assume ok: "mailbox_ok sha m"
  let ?m = "m\<lparr>bx_archives := js_delete n (bx_archives m)\<rparr>"
  have "archives_good ?m" using ok_parts(4) [OF ok] unfolding archives_good_def by (auto split: if_splits)
  moreover have "within_limits ?m" "rows_good sha ?m" "claims_good ?m"
    using ok_parts(1-3) [OF ok] totalBytes_rows [of ?m m]
    by (simp_all add: within_limits_def usage_slots_def rows_good_def row_id_def claims_good_def row_claim_def)
  ultimately show ?thesis by (simp add: mailbox_ok_def)
qed

lemma reopen_row_ok:
  assumes ok: "mailbox_ok sha m" and none: "\<And>n q. js_get (bx_archives m) n = Some q \<Longrightarrow> pa_row q \<noteq> pa_row p"
  shows "mailbox_ok sha (reopen_row p m)"
proof (cases "reopen_row p m = m")
  case False
  then obtain h where h: "js_get (bx_rows m) (pa_key p) = Some h" "he_id h = pa_row p"
    and new: "reopen_row p m = set_row (pa_key p) (h\<lparr>he_closing := False\<rparr>) m"
    by (auto simp: reopen_row_def split: option.splits if_splits)
  let ?h = "h\<lparr>he_closing := False\<rparr>" and ?m = "reopen_row p m"
  have rows: "bx_rows ?m = js_set (pa_key p) ?h (bx_rows m)" "bx_archives ?m = bx_archives m" "bx_next ?m = bx_next m" "bx_claims ?m = bx_claims m"
    by (simp_all add: new set_row_def)
  have "row_claim ?m = row_claim m" using h(1) by (simp add: row_claim_def fun_eq_iff rows)
  with ok_parts(3) [OF ok] have "claims_good ?m" unfolding claims_good_def rows by simp
  moreover have "archives_good ?m"
  proof (rule archives_kept [OF ok])
    fix n q k1 h1
    assume q: "js_get (bx_archives m) n = Some q" and h1: "js_get (bx_rows ?m) k1 = Some h1" "he_id h1 = pa_row q"
    with none [OF q] h have "js_get (bx_rows m) k1 = Some h1" by (auto simp: rows split: if_splits)
    from ok_closing [OF ok q this h1(2)] show "k1 = pa_key q \<and> he_closing h1 \<and> me_body (he_value h1) = pa_body q" .
  qed (simp_all add: rows)
  ultimately show ?thesis using same_values_ok [OF ok h(1), where h' = ?h and m' = ?m] ok_row [OF ok h(1)]
    by (simp add: mailbox_ok_def rows good_row_def)
qed (use ok in simp)

lemma release_ends_ok:
  assumes ok: "mailbox_ok sha m"
  shows "mailbox_ok sha (fst (release_ends a n answer m))"
proof (cases "js_get (bx_archives m) n")
  case (Some p)
  let ?m = "m\<lparr>bx_archives := js_delete n (bx_archives m)\<rparr>"
  have m: "mailbox_ok sha ?m" by (rule drop_archive_ok [OF ok])
  have "pa_row q \<noteq> pa_row p" if "js_get (bx_archives ?m) n' = Some q" for n' q
  proof
    assume "pa_row q = pa_row p"
    moreover from that have "js_get (bx_archives m) n' = Some q" "n' \<noteq> n" by (auto split: if_splits)
    ultimately show False using ok_parts(4) [OF ok] Some unfolding archives_good_def by blast
  qed
  then have "mailbox_ok sha (reopen_row p ?m)" by (intro reopen_row_ok [OF m])
  with m remove_row_ok [OF m, of "pa_key p"] show ?thesis
    unfolding release_ends_def Some Let_def by (simp split: option.split)
qed (use ok in \<open>simp add: release_ends_def\<close>)

lemma mailbox_step_ok: "mailbox_ok sha m \<Longrightarrow> mailbox_ok sha (fst (mailbox_step sha dp m op))"
  by (cases op) (simp_all add: restore_ok reserve_result_ok settle_ok tryClaim_ok ack_ok forget_ok release_begins_ok release_ends_ok
      releaseClaim_def drop_claim_ok)

lemma new_mailbox_ok: "mailbox_ok sha new_mailbox"
  by (simp add: mailbox_ok_def new_mailbox_def within_limits_def usage_slots_def totalBytes_alt rows_good_def row_id_def claims_good_def
      row_claim_def archives_good_def)

text \<open>The mailbox after a history of calls, and what the history gave.\<close>

abbreviation mailbox_run :: "(string \<Rightarrow> string) \<Rightarrow> (string \<Rightarrow> int option) \<Rightarrow> mailbox_op list \<Rightarrow> mailbox \<times> mailbox_output list" where
  "mailbox_run sha dp ops \<equiv> run_trace (mailbox_step sha dp) new_mailbox ops"

lemma run_ok: "mailbox_ok sha m \<Longrightarrow> mailbox_ok sha (fst (run_trace (mailbox_step sha dp) m ops))"
  by (induction ops arbitrary: m) (simp_all add: Let_def mailbox_step_ok)

section \<open>What a step does to the results\<close>

definition core :: "mailbox \<Rightarrow> string \<Rightarrow> (nat \<times> mailbox_entry) option" where
  "core m k = map_option (\<lambda>h. (he_id h, he_value h)) (js_get (bx_rows m) k)"

definition value_step :: "mailbox_entry \<Rightarrow> mailbox_entry \<Rightarrow> bool" where
  "value_step v v' \<longleftrightarrow> (me_delivery v = Some Delivered \<longrightarrow> me_delivery v' = Some Delivered)
     \<and> (me_body v \<noteq> None \<longrightarrow> me_body v' = me_body v)"

text \<open>How a row may go: its result was decided and archived, or an archive receipt names the very body.\<close>

definition may_go :: "(string \<Rightarrow> string) \<Rightarrow> mailbox_op \<Rightarrow> string \<Rightarrow> mailbox_entry \<Rightarrow> bool" where
  "may_go sha op k v \<longleftrightarrow>
     (case op of
        ForgetArchived c r d \<Rightarrow> k = resultMailboxKey sha c r \<and> \<not> me_conflict v \<and> map_option rb_sourceDigest (me_body v) = Some d
      | ReleaseEnds a n (Some (Some receipt)) \<Rightarrow>
          (case me_body v of
             None \<Rightarrow> True
           | Some b \<Rightarrow> ar_sourceDigest receipt = Some (rb_sourceDigest b)
               \<and> (case ar_location receipt of Some l \<Rightarrow> validLocation l | None \<Rightarrow> False))
      | _ \<Rightarrow> False)"

inductive core_step :: "(string \<Rightarrow> string) \<Rightarrow> mailbox_op \<Rightarrow> mailbox \<Rightarrow> mailbox \<Rightarrow> bool" for sha op m m' where
  same: "core m' = core m \<Longrightarrow> core_step sha op m m'"
| put: "core m k = None \<Longrightarrow> core m' = (core m)(k \<mapsto> (bx_next m, v)) \<Longrightarrow> core_step sha op m m'"
| change: "core m k = Some (i, v) \<Longrightarrow> core m' = (core m)(k \<mapsto> (i, v')) \<Longrightarrow> value_step v v' \<Longrightarrow> core_step sha op m m'"
| gone: "core m k = Some (i, v) \<Longrightarrow> core m' = (core m)(k := None) \<Longrightarrow> may_go sha op k v \<Longrightarrow> core_step sha op m m'"

inductive_cases core_stepE: "core_step sha op m m'"

lemma core_set_row [simp]: "core (set_row k h m) = (core m)(k \<mapsto> (he_id h, he_value h))"
  by (simp add: core_def set_row_def fun_eq_iff)

lemma core_put_row [simp]: "core (put_row k v m) = (core m)(k \<mapsto> (bx_next m, v))"
  by (simp add: core_def put_row_def fun_eq_iff)

lemma core_drop_claim [simp]: "core (drop_claim t m) = core m"
  by (auto simp: core_def drop_claim_def claimed_row_def fun_eq_iff split: option.splits if_splits)

lemma core_remove_row [simp]: "core (remove_row k h m) = (core m)(k := None)"
proof -
  have delete: "core (m'\<lparr>bx_rows := js_delete k (bx_rows m')\<rparr>) = (core m')(k := None)" for m' :: mailbox
    by (simp add: core_def fun_eq_iff)
  show ?thesis by (cases "he_claim h") (simp_all add: remove_row_def Let_def delete)
qed

lemma core_reopen_row [simp]: "core (reopen_row p m) = core m"
  by (auto simp: reopen_row_def core_def set_row_def fun_eq_iff split: option.splits)

lemma core_archives [simp]: "core (m\<lparr>bx_archives := as\<rparr>) = core m"
  by (simp add: core_def fun_eq_iff)

lemma core_row: "js_get (bx_rows m) k = Some h \<Longrightarrow> core m k = Some (he_id h, he_value h)"
  by (simp add: core_def)

lemma core_none: "js_get (bx_rows m) k = None \<Longrightarrow> core m k = None"
  by (simp add: core_def)

lemma core_conflict:
  assumes "js_get (bx_rows m) k = Some h"
  shows "core_step sha op m (set_row k (h\<lparr>he_value := (he_value h)\<lparr>me_conflict := True\<rparr>\<rparr>) m)"
  by (rule core_step.change [OF core_row [OF assms]]) (simp, simp add: value_step_def)

lemma reserve_core: "core_step sha op m (fst (reserve_result sha a i m))"
  unfolding reserve_result_def
  by (auto split: option.splits intro: core_step.same core_conflict core_step.put core_none)

lemma restore_core: "core_step sha op m (fst (restore sha a e m))"
  unfolding restore_def
  by (auto split: option.splits intro: core_step.same core_step.put core_none)

lemma settle_core:
  assumes ok: "mailbox_ok sha m"
  shows "core_step sha op m (fst (settle_entry sha a i ready t l m))"
proof -
  define st where "st = (if ready then EntryReady else EntryFailed)"
  define body where "body = boundedResultBody sha t l"
  show ?thesis
  proof (cases "cleanIdentity i")
    case (Some j)
    show ?thesis
    proof (cases "js_get (bx_rows m) (key_of sha j)")
      case h: (Some h)
      have "core_step sha op m (set_row (key_of sha j) (h\<lparr>he_value := (fresh_entry j)\<lparr>me_state := st, me_delivery := Some DeliveryPending,
          me_body := Some body\<rparr>\<rparr>) m)" if "me_state (he_value h) = EntryReserved"
        by (rule core_step.change [OF core_row [OF h]])
          (use ok_row [OF ok h] that in \<open>simp_all add: value_step_def good_row_def good_value_def\<close>)
      with core_conflict [OF h] core_step.same [of m m] show ?thesis
        unfolding settle_entry_def Let_def st_def [symmetric] body_def [symmetric] by (simp add: Some h)
    qed (simp add: settle_entry_def Some core_step.same)
  qed (simp add: settle_entry_def core_step.same)
qed

lemma ack_core: "core_step sha op m (fst (ackDelivery a t m))"
proof (cases "claimed_row t m")
  case (Some ch)
  obtain c h where ch: "claimed_row t m = Some (c, h)" using Some by (cases ch) simp
  then have h: "js_get (bx_rows m) (cl_key c) = Some h" by (auto simp: claimed_row_def split: option.splits if_splits)
  have "core_step sha op m (drop_claim t (set_row (cl_key c)
      (h\<lparr>he_value := (he_value h)\<lparr>me_delivery := Some Delivered, me_deliveredVia := Some (cl_via c)\<rparr>\<rparr>) m))"
    by (rule core_step.change [OF core_row [OF h]]) (simp, simp add: value_step_def)
  then show ?thesis by (simp add: ackDelivery_def ch core_step.same)
qed (simp add: ackDelivery_def core_step.same)

lemma forget_core: "core_step sha (ForgetArchived c r d) m (fst (forgetArchived sha c r d m))"
  unfolding forgetArchived_def Let_def
  by (auto split: option.splits intro: core_step.same core_step.gone [OF core_row] simp: may_go_def)

lemma tryClaim_core: "core (fst (tryClaim sha a c r via ctx m)) = core m"
  unfolding tryClaim_def Let_def by (auto split: option.splits simp: core_def fun_eq_iff)

lemma release_begins_core: "core (fst (release_begins sha dp a c r scope m)) = core m"
  unfolding release_begins_def Let_def by (auto split: option.splits simp: core_def fun_eq_iff)

lemma release_ends_core:
  assumes ok: "mailbox_ok sha m"
  shows "core_step sha (ReleaseEnds a n answer) m (fst (release_ends a n answer m))"
proof (cases "core (fst (release_ends a n answer m)) = core m")
  case False
  let ?m = "\<lambda>n. m\<lparr>bx_archives := js_delete n (bx_archives m)\<rparr>"
  from False obtain p receipt h where p: "js_get (bx_archives m) n = Some p" and answer: "answer = Some receipt" "receipt_qualifies p receipt"
    and h: "js_get (bx_rows m) (pa_key p) = Some h" "he_id h = pa_row p"
    and new: "fst (release_ends a n answer m) = remove_row (pa_key p) h (?m n)"
    unfolding release_ends_def Let_def by (auto split: option.splits if_splits)
  have body: "me_body (he_value h) = pa_body p" using ok_closing [OF ok p h] by blast
  show ?thesis
  proof (rule core_step.gone [OF core_row [OF h(1)]])
    show "core (fst (release_ends a n answer m)) = (core m)(pa_key p := None)" by (simp add: new)
    show "may_go sha (ReleaseEnds a n answer) (pa_key p) (he_value h)"
      using answer body by (auto simp: may_go_def receipt_qualifies_def split: option.splits)
  qed
qed (rule core_step.same)

lemma mailbox_step_core: "mailbox_ok sha m \<Longrightarrow> core_step sha op m (fst (mailbox_step sha dp m op))"
  by (cases op) (simp_all add: restore_core reserve_core settle_core ack_core forget_core release_ends_core
      tryClaim_core release_begins_core releaseClaim_def core_step.same)

section \<open>Within the limits\<close>


section \<open>Handed over once\<close>

definition handovers :: "nat \<Rightarrow> mailbox_output list \<Rightarrow> nat" where
  "handovers i outs = length (filter (\<lambda>out. out = HandedOver i) outs)"

definition undelivered :: "nat \<Rightarrow> mailbox \<Rightarrow> bool" where
  "undelivered i m \<longleftrightarrow> (\<exists>k v. core m k = Some (i, v) \<and> me_delivery v \<noteq> Some Delivered)"

definition handover_fuel :: "nat \<Rightarrow> mailbox \<Rightarrow> nat" where
  "handover_fuel i m = (if bx_next m \<le> i \<or> undelivered i m then 1 else 0)"

lemma next_grows: "bx_next m \<le> bx_next (fst (mailbox_step sha dp m op))"
proof -
  have claim: "bx_next (drop_claim t m) = bx_next m" for t m by (simp add: drop_claim_def split: option.split)
  have "bx_next (set_row k h m) = bx_next m" "bx_next (put_row k v m) = bx_next m + 1" "bx_next (remove_row k h m) = bx_next m"
      "bx_next (reopen_row p m) = bx_next m" for k h v p m
    by (simp_all add: set_row_def put_row_def remove_row_def reopen_row_def Let_def claim split: option.split)
  then show ?thesis using claim
    by (cases op) (auto simp: restore_def reserve_result_def settle_entry_def tryClaim_def ackDelivery_def releaseClaim_def forgetArchived_def
        release_begins_def release_ends_def Let_def split: option.split)
qed

lemma core_one_row: "mailbox_ok sha m \<Longrightarrow> core m k = Some (i, v) \<Longrightarrow> core m k' = Some (i, v') \<Longrightarrow> k = k'"
  by (auto simp: core_def dest: ok_one_row)

lemma core_next: "mailbox_ok sha m \<Longrightarrow> core m k = Some (i, v) \<Longrightarrow> i < bx_next m"
  by (auto simp: core_def dest: ok_row)

lemma fuel_shrinks:
  assumes ok: "mailbox_ok sha m"
  shows "handover_fuel i (fst (mailbox_step sha dp m op)) \<le> handover_fuel i m"
proof -
  let ?m = "fst (mailbox_step sha dp m op)"
  have "undelivered i ?m \<Longrightarrow> bx_next m \<le> i \<or> undelivered i m"
    using mailbox_step_core [OF ok, of op dp]
    by (cases rule: core_stepE) (auto simp: undelivered_def value_step_def split: if_splits)
  with next_grows [of m sha dp op] show ?thesis by (auto simp: handover_fuel_def)
qed

lemma handover_spends:
  assumes ok: "mailbox_ok sha m" and some: "0 < handovers i (snd (mailbox_step sha dp m op))"
  shows "handovers i (snd (mailbox_step sha dp m op)) = 1 \<and> handover_fuel i m = 1
    \<and> handover_fuel i (fst (mailbox_step sha dp m op)) = 0"
proof -
  have none: "handovers j [] = 0" "handovers j (out # outs) = (if out = HandedOver j then 1 else 0) + handovers j outs" for j out outs
    by (simp_all add: handovers_def)
  obtain a t where op: "op = Ack a t"
    using some by (cases op)
      (auto simp: none restore_def reserve_result_def settle_entry_def tryClaim_def releaseClaim_def forgetArchived_def
        release_begins_def release_ends_def Let_def split: option.splits if_splits)
  obtain c h where ch: "claimed_row t m = Some (c, h)" and i: "i = he_id h"
    and new: "mailbox_step sha dp m op = (drop_claim t (set_row (cl_key c)
      (h\<lparr>he_value := (he_value h)\<lparr>me_delivery := Some Delivered, me_deliveredVia := Some (cl_via c)\<rparr>\<rparr>) m), [Acknowledged True, HandedOver (he_id h)])"
    using some unfolding op by (auto simp: ackDelivery_def none split: option.splits if_splits)
  have h: "js_get (bx_rows m) (cl_key c) = Some h" "he_claim h = Some t" using ch claimed_row_iff [OF ok] by blast+
  let ?v = "(he_value h)\<lparr>me_delivery := Some Delivered, me_deliveredVia := Some (cl_via c)\<rparr>"
  have core: "core (fst (mailbox_step sha dp m op)) = (core m)(cl_key c \<mapsto> (he_id h, ?v))" by (simp add: new)
  have old: "core m (cl_key c) = Some (i, he_value h)" using h(1) by (simp add: core_def i)
  have "me_delivery (he_value h) = Some DeliveryPending" using ok_row [OF ok h(1)] h(2) by (simp add: good_row_def)
  with old have before: "handover_fuel i m = 1" by (auto simp: handover_fuel_def undelivered_def)
  have "\<not> undelivered i (fst (mailbox_step sha dp m op))"
    using core_one_row [OF ok old] unfolding undelivered_def core by (auto simp: i split: if_splits)
  moreover have "i < bx_next (fst (mailbox_step sha dp m op))" using core_next [OF ok old] next_grows [of m sha dp op] by simp
  ultimately show ?thesis using before by (simp add: handover_fuel_def new none i)
qed

interpretation metered_mailbox: metered_system "mailbox_step sha dp" "mailbox_ok sha" "handover_fuel i" "handovers i" for sha dp i
proof unfold_locales
  fix m op
  assume ok: "mailbox_ok sha m"
  then show "mailbox_ok sha (fst (mailbox_step sha dp m op))" by (rule mailbox_step_ok)
  show "handovers i (snd (mailbox_step sha dp m op)) + handover_fuel i (fst (mailbox_step sha dp m op)) \<le> handover_fuel i m"
    using handover_spends [OF ok, of i dp op] fuel_shrinks [OF ok, of i dp op] by (cases "handovers i (snd (mailbox_step sha dp m op)) = 0") auto
qed (simp_all add: handovers_def)

text \<open>
  C24: However its row is claimed, released, acknowledged and archived, in whatever order, the result in a row is handed
  over at most once.
\<close>

theorem results_are_handed_over_once:
  "handovers i (snd (mailbox_run sha dp ops)) \<le> 1"
  using metered_mailbox.trace_cost [OF new_mailbox_ok, of i sha dp ops] by (simp add: handover_fuel_def split: if_splits)

section \<open>No body is lost\<close>

text \<open>
  C25: The body of a settled result stays as it is with every call, unless the call forgets a result that was archived,
  with the digest of this body, or ends an archive whose receipt names this body and where it is.
\<close>

theorem bodies_stay_until_archived:
  assumes m: "m = fst (mailbox_run sha dp ops)" and row: "js_get (bx_rows m) k = Some h" and body: "me_body (he_value h) = Some b"
  shows "(\<exists>h'. js_get (bx_rows (fst (mailbox_step sha dp m op))) k = Some h' \<and> he_id h' = he_id h \<and> me_body (he_value h') = Some b)
    \<or> (\<exists>c r. op = ForgetArchived c r (rb_sourceDigest b) \<and> k = resultMailboxKey sha c r)
    \<or> (\<exists>a n receipt l. op = ReleaseEnds a n (Some (Some receipt)) \<and> ar_sourceDigest receipt = Some (rb_sourceDigest b)
         \<and> ar_location receipt = Some l \<and> validLocation l)"
proof -
  let ?m = "fst (mailbox_step sha dp m op)"
  have ok: "mailbox_ok sha m" unfolding m by (rule run_ok [OF new_mailbox_ok])
  have old: "core m k = Some (he_id h, he_value h)" using row by (simp add: core_def)
  have kept: "?thesis" if "core ?m k = Some (he_id h, v)" "me_body v = Some b" for v
    using that by (auto simp: core_def)
  show ?thesis using mailbox_step_core [OF ok, of op dp]
  proof (cases rule: core_step.cases)
    case same
    with kept [of "he_value h"] old body show ?thesis by simp
  next
    case (put k' v)
    with old have "core ?m k = Some (he_id h, he_value h)" by auto
    with kept body show ?thesis by blast
  next
    case (change k' i v v')
    show ?thesis
    proof (cases "k' = k")
      case True
      with change old have "core ?m k = Some (he_id h, v')" "me_body v' = Some b" using body by (auto simp: value_step_def)
      with kept show ?thesis by blast
    next
      case False
      with change old have "core ?m k = Some (he_id h, he_value h)" by simp
      with kept body show ?thesis by blast
    qed
  next
    case (gone k' i v)
    show ?thesis
    proof (cases "k' = k")
      case True
      with gone old have "may_go sha op k (he_value h)" by simp
      with body show ?thesis by (auto simp: may_go_def split: mailbox_op.splits option.splits)
    next
      case False
      with gone old have "core ?m k = Some (he_id h, he_value h)" by simp
      with kept body show ?thesis by blast
    qed
  qed
qed

text \<open>A result that is reserved, filled and handed over, and kept until it is archived.\<close>

definition willing :: mailbox_authority where
  "willing = \<lparr>ma_ownsCoordinator = (\<lambda>_. True), ma_currentCompletion = (\<lambda>_. True), ma_currentDelivery = (\<lambda>_ _. True)\<rparr>"

definition example_identity :: completion_identity where
  "example_identity = \<lparr>ci_coordinatorId = ''c'', ci_ref = \<lparr>rr_handle = ''h'', rr_revision = 1\<rparr>, ci_attemptId = ''a'', ci_settledEventId = ''e''\<rparr>"


definition example_calls :: "mailbox_op list" where
  "example_calls =
     [Reserve willing example_identity, Settle willing example_identity True ''done'' None,
      TryClaim willing ''c'' (ci_ref example_identity) AutoWake \<lparr>dc_coordinatorId = ''c'', dc_sessionId = ''s'', dc_requestId = ''q''\<rparr>,
      Ack willing 1, Ack willing 1]"


theorem bodies_stay_until_archived_witness:
  "\<exists>h'. js_get (bx_rows (fst (mailbox_step id (\<lambda>_. None) (fst (mailbox_run id (\<lambda>_. None) example_calls)) (ReleaseClaim 1))))
        (key_of id example_identity) = Some h' \<and> me_body (he_value h') = Some (boundedResultBody id ''done'' None)"
proof -
  let ?m = "fst (mailbox_run id (\<lambda>_. None) example_calls)"
  have "\<exists>h. js_get (bx_rows ?m) (key_of id example_identity) = Some h \<and> me_body (he_value h) = Some (boundedResultBody id ''done'' None)"
  proof -
    have "map_option (\<lambda>h. me_body (he_value h)) (js_get (bx_rows ?m) (key_of id example_identity)) = Some (Some (boundedResultBody id ''done'' None))"
      by code_simp
    then show ?thesis by blast
  qed
  then obtain h where "js_get (bx_rows ?m) (key_of id example_identity) = Some h" "me_body (he_value h) = Some (boundedResultBody id ''done'' None)"
    by blast
  from bodies_stay_until_archived [OF refl this, of "ReleaseClaim 1"] show ?thesis by blast
qed

lemma example_handed_over: "filter (\<lambda>out. out = HandedOver 0) (snd (mailbox_run id (\<lambda>_. None) example_calls)) = [HandedOver 0]"
  by code_simp

end
