(* ===== verification/HistoryPlannerLaws.thy ===== *)
theory HistoryPlannerLaws
  imports HistoryPlanner
begin

text \<open>
  What a plan promises: every message is kept word for word or read for the summary, the kept turns are the newest that
  fit, no effect or decision is left to a summary, and the carried records stand through any number of compactions.
\<close>

section \<open>The parts of a plan\<close>

lemma plan_parts [simp]:
  "hp_prefix (planHistoryCompaction stringify parse texts inp) = plan_prefix inp"
  "hp_tail (planHistoryCompaction stringify parse texts inp) = plan_tail inp"
  "hp_previousRecords (planHistoryCompaction stringify parse texts inp) = fst (snd (scan_body inp))"
  by (simp_all add: planHistoryCompaction_def Let_def split: prod.split)

definition kept_message :: "'x plan_input \<Rightarrow> 'x planner_message_scheme \<Rightarrow> bool" where
  "kept_message inp m \<longleftrightarrow> \<not> pi_isRollingSummary inp m \<and> \<not> pi_isCarriedRecords inp m"

lemma prefix_kept: "m \<in> set (plan_prefix inp) \<Longrightarrow> kept_message inp m"
  by (auto simp: plan_prefix_def kept_message_def leading_instruction_def dest: set_takeWhileD)

lemma map_fst_after_prefix: "map fst (after_prefix inp) = drop (length (plan_prefix inp)) (pi_history inp)"
  by (simp add: after_prefix_def Let_def)

lemma history_split: "pi_history inp = plan_prefix inp @ map fst (after_prefix inp)"
  unfolding map_fst_after_prefix unfolding plan_prefix_def by (metis takeWhile_dropWhile_id dropWhile_eq_drop)

lemma scan_steps:
  "snd (snd (foldl (scan_message inp) st xs)) = snd (snd st) @ filter (\<lambda>e. kept_message inp (fst e)) xs"
  by (induction xs arbitrary: st) (auto simp: scan_message_def kept_message_def split: prod.split)

lemma plan_body_kept: "plan_body inp = filter (\<lambda>e. kept_message inp (fst e)) (after_prefix inp)"
  by (simp add: plan_body_def scan_body_def scan_steps)

subsection \<open>Turns\<close>

lemma add_to_turns_cases:
  "add_to_turns turns e =
     (if turns = [] \<or> isTurnStart (fst e) then turns @ [[e]] else butlast turns @ [last turns @ [e]])"
  by (cases turns rule: rev_cases) (simp_all add: add_to_turns_def Let_def list_update_append)

lemma concat_turns: "concat (foldl add_to_turns turns body) = concat turns @ body"
proof (induction body arbitrary: turns)
  case (Cons e body)
  have "concat (add_to_turns turns e) = concat turns @ [e]"
    by (cases turns rule: rev_cases) (simp_all add: add_to_turns_cases)
  with Cons show ?case by simp
qed simp

text \<open>A turn starts with a message of the user that is no result, except perhaps the first, and has no other.\<close>

definition is_turn :: "'x placed list \<Rightarrow> bool" where
  "is_turn turn \<longleftrightarrow> turn \<noteq> [] \<and> (\<forall>e \<in> set (tl turn). \<not> isTurnStart (fst e))"

lemma turns_of_are_turns: "\<forall>t \<in> set turns. is_turn t \<Longrightarrow> \<forall>t \<in> set (foldl add_to_turns turns body). is_turn t"
proof (induction body arbitrary: turns)
  case (Cons e body)
  have "\<forall>t \<in> set (add_to_turns turns e). is_turn t"
  proof (cases "turns = [] \<or> isTurnStart (fst e)")
    case True
    with Cons.prems show ?thesis by (auto simp: add_to_turns_cases is_turn_def)
  next
    case False
    then obtain ts t where ts: "turns = ts @ [t]" by (cases turns rule: rev_cases) auto
    with Cons.prems have "is_turn t" by simp
    with False have "is_turn (t @ [e])" by (cases t) (auto simp: is_turn_def)
    with ts False Cons.prems show ?thesis by (auto simp: add_to_turns_cases)
  qed
  with Cons.IH show ?case by simp
qed simp

lemma later_turns_start:
  "\<forall>t \<in> set (tl turns). t \<noteq> [] \<and> isTurnStart (fst (hd t)) \<Longrightarrow>
     \<forall>t \<in> set (tl (foldl add_to_turns turns body)). t \<noteq> [] \<and> isTurnStart (fst (hd t))"
proof (induction body arbitrary: turns)
  case (Cons e body)
  have "\<forall>t \<in> set (tl (add_to_turns turns e)). t \<noteq> [] \<and> isTurnStart (fst (hd t))"
  proof (cases "turns = [] \<or> isTurnStart (fst e)")
    case True
    with Cons.prems show ?thesis by (cases turns) (auto simp: add_to_turns_cases)
  next
    case False
    then obtain ts t where ts: "turns = ts @ [t]" by (cases turns rule: rev_cases) auto
    show ?thesis
    proof (cases "ts = []")
      case True
      with ts False show ?thesis by (simp add: add_to_turns_cases)
    next
      case nonempty: False
      have tl: "tl (add_to_turns turns e) = tl ts @ [t @ [e]]" using nonempty ts False by (simp add: add_to_turns_cases)
      have "tl turns = tl ts @ [t]" using ts nonempty by simp
      with Cons.prems have old: "\<forall>u \<in> set (tl ts). u \<noteq> [] \<and> isTurnStart (fst (hd u))"
        and new: "t \<noteq> [] \<and> isTurnStart (fst (hd t))" by simp_all
      have "hd (t @ [e]) = hd t" using new by (rule hd_append2 [OF conjunct1])
      then have "t @ [e] \<noteq> [] \<and> isTurnStart (fst (hd (t @ [e])))" using new by (simp only: append_is_Nil_conv list.distinct simp_thms)
      with old show ?thesis unfolding tl set_append by (simp only: ball_Un list.set ball_simps simp_thms)
    qed
  qed
  then show ?case unfolding foldl.simps by (rule Cons.IH)
qed simp

subsection \<open>The tail\<close>

definition turns_cost :: "'x plan_input \<Rightarrow> 'x placed list list \<Rightarrow> nat \<Rightarrow> int" where
  "turns_cost inp turns n = sum_list (map (\<lambda>t. pi_estimate inp (map fst t)) (drop n turns))"

lemma turns_cost_Suc:
  "n < length turns \<Longrightarrow> turns_cost inp turns n = pi_estimate inp (map fst (turns ! n)) + turns_cost inp turns (Suc n)"
  by (simp add: turns_cost_def Cons_nth_drop_Suc [symmetric])

lemma tail_from_fits:
  assumes "k < length turns"
  shows "tail_from inp turns k (turns_cost inp turns k) k \<le> k
    \<and> (tail_from inp turns k (turns_cost inp turns k) k = k
         \<or> turns_cost inp turns (tail_from inp turns k (turns_cost inp turns k) k) \<le> pi_tailBudgetTokens inp)
    \<and> (tail_from inp turns k (turns_cost inp turns k) k = 0
         \<or> pi_tailBudgetTokens inp < turns_cost inp turns (tail_from inp turns k (turns_cost inp turns k) k - 1))"
  using assms
proof (induction k)
  case (Suc k)
  then have k: "k < length turns" and l: "k < length turns - 1" by auto
  note step = turns_cost_Suc [OF k, of inp]
  show ?case
  proof (cases "pi_tailBudgetTokens inp < turns_cost inp turns (Suc k) + pi_estimate inp (map fst (turns ! k))")
    case True
    with l step show ?thesis by (simp add: add.commute)
  next
    case False
    then have eq: "tail_from inp turns (Suc k) (turns_cost inp turns (Suc k)) (Suc k) = tail_from inp turns k (turns_cost inp turns k) k"
      using step by (simp add: add.commute)
    from False step have "turns_cost inp turns k \<le> pi_tailBudgetTokens inp" by simp
    with Suc.IH [OF k] show ?thesis unfolding eq by auto
  qed
qed simp

lemma tail_start_fits:
  assumes "turns \<noteq> []"
  shows "tail_start inp turns < length turns"
    and "tail_start inp turns = length turns - 1 \<or> turns_cost inp turns (tail_start inp turns) \<le> pi_tailBudgetTokens inp"
    and "tail_start inp turns = 0 \<or> pi_tailBudgetTokens inp < turns_cost inp turns (tail_start inp turns - 1)"
proof -
  from assms obtain k where k: "length turns = Suc k" by (cases turns) auto
  then have l: "k < length turns" by simp
  have "turns_cost inp turns k = pi_estimate inp (map fst (turns ! k))"
    using turns_cost_Suc [OF l, of inp] k by (simp add: turns_cost_def)
  then have eq: "tail_start inp turns = tail_from inp turns k (turns_cost inp turns k) k" by (simp add: tail_start_def k)
  note fits = tail_from_fits [OF l, of inp]
  from fits k show "tail_start inp turns < length turns" unfolding eq by linarith
  from fits k show "tail_start inp turns = length turns - 1 \<or> turns_cost inp turns (tail_start inp turns) \<le> pi_tailBudgetTokens inp"
    unfolding eq by simp
  from fits show "tail_start inp turns = 0 \<or> pi_tailBudgetTokens inp < turns_cost inp turns (tail_start inp turns - 1)"
    unfolding eq by simp
qed

section \<open>Results\<close>

definition summary_part :: "nat option \<Rightarrow> nat \<times> plan_item \<Rightarrow> summarizable_record list" where
  "summary_part latest entry = fst (sort_item latest ([], []) entry)"

definition carried_part :: "nat option \<Rightarrow> nat \<times> plan_item \<Rightarrow> carried_record list" where
  "carried_part latest entry = snd (sort_item latest ([], []) entry)"

lemma sort_item_parts: "sort_item latest out entry = (fst out @ summary_part latest entry, snd out @ carried_part latest entry)"
  by (auto simp: summary_part_def carried_part_def sort_item_def Let_def split: prod.split plan_item.split option.split)

lemma sorted_items_parts:
  "sorted_items latest items =
     (concat (map (summary_part latest) (enumerate 0 items)), concat (map (carried_part latest) (enumerate 0 items)))"
proof -
  have "foldl (sort_item latest) out entries =
      (fst out @ concat (map (summary_part latest) entries), snd out @ concat (map (carried_part latest) entries))" for out entries
    by (induction entries arbitrary: out) (simp_all add: sort_item_parts)
  then show ?thesis by (simp add: sorted_items_def)
qed

definition is_tool_item :: "plan_item \<Rightarrow> bool" where
  "is_tool_item item \<longleftrightarrow> (case item of ToolItem _ _ _ \<Rightarrow> True | _ \<Rightarrow> False)"

text \<open>Where the summary of an item stands for a tool exactly if the item does, every tool item gives one record.\<close>

definition item_ok :: "plan_item \<Rightarrow> bool" where
  "item_ok item \<longleftrightarrow>
     (case item of ProseItem s \<Rightarrow> sm_role s \<noteq> ToolRole | ToolItem _ _ s \<Rightarrow> sm_role s = ToolRole)"

lemma item_gives_one:
  "item_ok item \<Longrightarrow> length (carried_part latest (place, item)) + length (filter (\<lambda>s. sm_role s = ToolRole) (summary_part latest (place, item)))
     = (if is_tool_item item then 1 else 0)"
  by (cases item) (auto simp: carried_part_def summary_part_def sort_item_def item_ok_def is_tool_item_def split: option.split)

lemma items_give_one_each:
  "\<forall>item \<in> set items. item_ok item \<Longrightarrow>
     length (snd (sorted_items latest items)) + length (filter (\<lambda>s. sm_role s = ToolRole) (fst (sorted_items latest items)))
       = length (filter is_tool_item items)"
proof -
  have "\<forall>item \<in> set items. item_ok item \<Longrightarrow>
      length (concat (map (carried_part latest) (enumerate k items)))
        + length (filter (\<lambda>s. sm_role s = ToolRole) (concat (map (summary_part latest) (enumerate k items))))
      = length (filter is_tool_item items)" for k
  proof (induction items arbitrary: k)
    case (Cons item items)
    then have ok: "item_ok item" and "\<forall>item \<in> set items. item_ok item" by simp_all
    then show ?case using Cons.IH [of "Suc k"] item_gives_one [OF ok, of latest k] by (cases "is_tool_item item") auto
  qed simp
  then show "\<forall>item \<in> set items. item_ok item \<Longrightarrow> ?thesis" by (simp add: sorted_items_parts)
qed

text \<open>Reading the messages only adds items, one tool item for each result.\<close>

definition is_result :: "'x planner_message_scheme \<Rightarrow> bool" where
  "is_result m \<longleftrightarrow> toolResultOf m \<noteq> None"

lemma assistant_no_result: "is_result m \<Longrightarrow> pm_role m \<noteq> AssistantRole"
  by (auto simp: is_result_def toolResultOf_def)

lemma prose_items_ok: "role \<noteq> ToolRole \<Longrightarrow> item \<in> set (prose_items ident role text) \<Longrightarrow> item_ok item \<and> \<not> is_tool_item item"
  by (auto simp: prose_items_def item_ok_def is_tool_item_def split: if_splits)

lemma tool_item_ok: "item_ok (tool_item stringify parse texts outcome ident call n text)"
  "is_tool_item (tool_item stringify parse texts outcome ident call n text)"
  by (simp_all add: tool_item_def item_ok_def is_tool_item_def Let_def)

lemma plan_message_adds:
  "\<exists>new. fst (plan_message stringify parse texts inp st e) = fst st @ new \<and> (\<forall>item \<in> set new. item_ok item)
     \<and> length (filter is_tool_item new) = (if is_result (fst e) then 1 else 0)"
proof -
  obtain items pending where st: "st = (items, pending)" by (cases st)
  obtain m p where e: "e = (m, p)" by (cases e)
  show ?thesis
  proof (cases "toolResultOf m")
    case None
    let ?prose = "\<lambda>role text. prose_items (item_id p) role text"
    have "\<exists>role text. role \<noteq> ToolRole \<and> fst (plan_message stringify parse texts inp st e) = items @ ?prose role text"
    proof (cases "pm_role m = AssistantRole")
      case True
      then show ?thesis unfolding st e plan_message_def Let_def by (intro exI [of _ AssistantRole]) auto
    next
      case False
      with None show ?thesis unfolding st e plan_message_def Let_def
        by (intro exI [of _ "if pm_role m = UserRole then UserRole else AssistantRole"]) auto
    qed
    then obtain role said where r: "role \<noteq> ToolRole" and eq: "fst (plan_message stringify parse texts inp st e) = items @ ?prose role said" by blast
    have no: "filter is_tool_item (?prose role said) = []" using prose_items_ok [OF r, of _ "item_id p" said] by (simp add: filter_empty_conv)
    have oks: "\<forall>item \<in> set (?prose role said). item_ok item" using prose_items_ok [OF r, of _ "item_id p" said] by blast
    show ?thesis
      by (rule exI [of _ "?prose role said"]) (use eq no oks None st e in \<open>simp add: is_result_def\<close>)
  next
    case (Some nt)
    obtain n said where nt: "nt = (n, said)" by (cases nt)
    have a: "pm_role m \<noteq> AssistantRole" using assistant_no_result [of m] Some by (simp add: is_result_def)
    let ?item = "tool_item stringify parse texts (pi_outcomeOf inp m) (item_id p) (fst (take_call (answers_call m n) pending)) n said"
    have "fst (plan_message stringify parse texts inp st e) = items @ [?item]"
      unfolding st e plan_message_def Let_def using Some nt a by (simp split: prod.split)
    then show ?thesis by (intro exI [of _ "[?item]"]) (simp add: tool_item_ok is_result_def Some st e)
  qed
qed

lemma plan_messages_add:
  "\<exists>new. fst (foldl (plan_message stringify parse texts inp) st es) = fst st @ new \<and> (\<forall>item \<in> set new. item_ok item)
     \<and> length (filter is_tool_item new) = length (filter (\<lambda>e. is_result (fst e)) es)"
proof (induction es arbitrary: st)
  case (Cons e es)
  obtain a where a: "fst (plan_message stringify parse texts inp st e) = fst st @ a" "\<forall>item \<in> set a. item_ok item"
      "length (filter is_tool_item a) = (if is_result (fst e) then 1 else 0)"
    using plan_message_adds [of stringify parse texts inp st e] by blast
  obtain b where b: "fst (foldl (plan_message stringify parse texts inp) (plan_message stringify parse texts inp st e) es)
        = fst (plan_message stringify parse texts inp st e) @ b" "\<forall>item \<in> set b. item_ok item"
      "length (filter is_tool_item b) = length (filter (\<lambda>e. is_result (fst e)) es)"
    using Cons.IH [of "plan_message stringify parse texts inp st e"] by blast
  have eq: "fst (foldl (plan_message stringify parse texts inp) st (e # es)) = fst st @ a @ b" unfolding foldl.simps b(1) a(1) by simp
  show ?case by (rule exI [of _ "a @ b"]) (use eq a b in auto)
qed simp

text \<open>The item of a result stands among the items of the whole.\<close>

lemma item_of_result:
  assumes "es = xs @ (m, p) # ys" and "toolResultOf m = Some (n, text)"
  shows "tool_item stringify parse texts (pi_outcomeOf inp m) (item_id p)
           (fst (take_call (answers_call m n) (snd (foldl (plan_message stringify parse texts inp) ([], []) xs)))) n text
         \<in> set (plan_items stringify parse texts inp es)"
proof -
  let ?st = "foldl (plan_message stringify parse texts inp) ([], []) xs"
  have a: "pm_role m \<noteq> AssistantRole" using assistant_no_result [of m] assms(2) by (simp add: is_result_def)
  let ?item = "tool_item stringify parse texts (pi_outcomeOf inp m) (item_id p) (fst (take_call (answers_call m n) (snd ?st))) n text"
  have "fst (plan_message stringify parse texts inp ?st (m, p)) = fst ?st @ [?item]"
    unfolding plan_message_def Let_def using assms(2) a by (simp split: prod.split)
  moreover obtain b where "fst (foldl (plan_message stringify parse texts inp) (plan_message stringify parse texts inp ?st (m, p)) ys)
      = fst (plan_message stringify parse texts inp ?st (m, p)) @ b"
    using plan_messages_add [of stringify parse texts inp "plan_message stringify parse texts inp ?st (m, p)" ys] by blast
  ultimately have "plan_items stringify parse texts inp es = (fst ?st @ [?item]) @ b"
    unfolding plan_items_def assms(1) foldl_append foldl.simps by simp
  then show ?thesis by simp
qed

lemma item_in_parts:
  assumes "item \<in> set items" and "item = ToolItem name record summary"
  shows "case record of None \<Rightarrow> summary \<in> set (fst (sorted_items latest items))
     | Some r \<Rightarrow> (cr_reason r \<noteq> PlanReason \<longrightarrow> r \<in> set (snd (sorted_items latest items)))
         \<and> (r \<in> set (snd (sorted_items latest items)) \<or> summary \<in> set (fst (sorted_items latest items)))"
proof -
  obtain k where "k < length items" "item = items ! k" using assms(1) by (auto simp: in_set_conv_nth)
  then have "(k, item) \<in> set (enumerate 0 items)" by (simp add: in_set_enumerate_eq)
  then have "set (summary_part latest (k, item)) \<subseteq> set (fst (sorted_items latest items))"
    and "set (carried_part latest (k, item)) \<subseteq> set (snd (sorted_items latest items))"
    by (auto simp: sorted_items_parts)
  then show ?thesis using assms(2)
    by (auto simp: summary_part_def carried_part_def sort_item_def split: option.split if_splits)
qed

subsection \<open>The newest plan\<close>

definition plan_record :: "plan_item \<Rightarrow> carried_record list" where
  "plan_record item = (case item of ToolItem _ (Some r) _ \<Rightarrow> (if cr_reason r = PlanReason then [r] else []) | _ \<Rightarrow> [])"

lemma is_plan_record: "is_plan_item item \<longleftrightarrow> plan_record item \<noteq> []"
  by (auto simp: is_plan_item_def plan_record_def split: plan_item.split option.split)

lemma length_plan_record: "length (plan_record item) \<le> 1"
  by (auto simp: plan_record_def split: plan_item.split option.split)

lemma latest_plan_snoc: "latest_plan (items @ [item]) = (if is_plan_item item then Some (length items) else latest_plan items)"
  by (simp add: latest_plan_def enumerate_append_eq)

lemma latest_plan_bound: "latest_plan items = Some i \<Longrightarrow> i < length items"
proof (induction items arbitrary: i rule: rev_induct)
  case (snoc item items)
  then show ?case by (fastforce simp: latest_plan_snoc split: if_splits)
qed (simp add: latest_plan_def)

lemma newest_plan:
  "(case latest_plan items of Some i \<Rightarrow> plan_record (items ! i) | None \<Rightarrow> []) = take 1 (rev (concat (map plan_record items)))"
proof (induction items rule: rev_induct)
  case (snoc item items)
  show ?case
  proof (cases "is_plan_item item")
    case True
    then obtain r where "plan_record item = [r]" using length_plan_record [of item]
      by (cases "plan_record item") (auto simp: is_plan_record)
    then show ?thesis using True by (simp add: latest_plan_snoc)
  next
    case False
    then have "plan_record item = []" by (simp add: is_plan_record)
    then show ?thesis using False snoc latest_plan_bound [of items]
      by (auto simp: latest_plan_snoc nth_append split: option.split)
  qed
qed (simp add: latest_plan_def)

lemma carried_plan:
  "filter (\<lambda>r. cr_reason r = PlanReason) (carried_part latest (k, item)) = (if latest = Some k then plan_record item else [])"
  by (auto simp: carried_part_def sort_item_def plan_record_def split: plan_item.split option.split)

lemma carried_plans:
  "filter (\<lambda>r. cr_reason r = PlanReason) (concat (map (carried_part latest) (enumerate k items)))
     = (case latest of Some i \<Rightarrow> (if k \<le> i \<and> i < k + length items then plan_record (items ! (i - k)) else []) | None \<Rightarrow> [])"
proof (induction items arbitrary: k)
  case (Cons item items)
  show ?case
  proof (cases latest)
    case (Some i)
    then consider "i < k" | "i = k" | "Suc k \<le> i" by linarith
    then show ?thesis
    proof cases
      case 3
      then have "i - k = Suc (i - Suc k)" by simp
      with 3 Some Cons.IH [of "Suc k"] show ?thesis by (simp add: carried_plan)
    qed (use Some Cons.IH [of "Suc k"] in \<open>simp_all add: carried_plan\<close>)
  qed (use Cons.IH [of "Suc k"] in \<open>simp add: carried_plan\<close>)
qed (auto split: option.split)

section \<open>Carried records as lines\<close>

definition good_lines :: "string list \<Rightarrow> bool" where
  "good_lines ls \<longleftrightarrow> (\<forall>l \<in> set ls. l \<noteq> [] \<and> line_feed \<notin> set l \<and> js_trim l \<noteq> [])
     \<and> (ls = [] \<or> \<not> is_space (hd (hd ls)) \<and> \<not> is_space (last (last ls)))"

lemma good_lines_append: "good_lines as \<Longrightarrow> good_lines bs \<Longrightarrow> good_lines (as @ bs)"
  by (cases "as = []"; cases "bs = []") (auto simp: good_lines_def)

lemma good_lines_each: "\<forall>l \<in> set ls. good_lines [l] \<Longrightarrow> good_lines ls"
proof (induction ls)
  case (Cons l ls)
  then have "good_lines ([l] @ ls)" by (intro good_lines_append) simp_all
  then show ?case by simp
qed (simp add: good_lines_def)

lemma trim_not_blank: "c \<in> set l \<Longrightarrow> \<not> is_space c \<Longrightarrow> js_trim l \<noteq> []"
proof
  assume c: "c \<in> set l" "\<not> is_space c" and "js_trim l = []"
  then obtain a z where "l = a @ z" "list_all is_space a" "list_all is_space z" using js_trim_parts [of l] by auto
  with c show False by (auto simp: list_all_iff)
qed

lemma line_feed_space: "is_space line_feed"
  by (simp add: line_feed_def is_space_def)

lemma split_pieces_plain: "p \<in> set (split_on d s) \<Longrightarrow> d \<notin> set p"
  by (induction s arbitrary: p) (fastforce split: list.splits if_splits)+

lemma hd_split: "s \<noteq> [] \<Longrightarrow> hd s \<noteq> d \<Longrightarrow> hd (split_on d s) \<noteq> [] \<and> hd (hd (split_on d s)) = hd s"
  by (cases s) (auto split: list.split)

lemma last_split: "s \<noteq> [] \<Longrightarrow> last s \<noteq> d \<Longrightarrow> last (split_on d s) \<noteq> [] \<and> last (last (split_on d s)) = last s"
proof (induction s)
  case (Cons c s)
  show ?case
  proof (cases "s = []")
    case False
    with Cons have ih: "last (split_on d s) \<noteq> []" "last (last (split_on d s)) = last s" by simp_all
    with False show ?thesis by (cases "split_on d s") (auto split: if_splits)
  qed (use Cons.prems in simp)
qed simp

lemma filter_hd: "xs \<noteq> [] \<Longrightarrow> P (hd xs) \<Longrightarrow> hd (filter P xs) = hd xs"
  by (cases xs) simp_all

lemma filter_last: "xs \<noteq> [] \<Longrightarrow> P (last xs) \<Longrightarrow> last (filter P xs) = last xs"
  by (cases xs rule: rev_cases) simp_all

lemma lines_of_trimmed: "good_lines (lines_of (Some (js_trim x)))"
proof (cases "js_trim x = []")
  case False
  let ?t = "js_trim x" and ?keep = "\<lambda>line. js_trim line \<noteq> []"
  have ends: "\<not> is_space (hd ?t)" "\<not> is_space (last ?t)" using js_trim_ends [OF False] by simp_all
  then have lf: "hd ?t \<noteq> line_feed" "last ?t \<noteq> line_feed" using line_feed_space by metis+
  note first = hd_split [OF False lf(1)] and final = last_split [OF False lf(2)]
  have k1: "?keep (hd (split_on line_feed ?t))" using first ends(1) by (metis trim_not_blank hd_in_set)
  have k2: "?keep (last (split_on line_feed ?t))" using final ends(2) by (metis trim_not_blank last_in_set)
  have eq: "lines_of (Some ?t) = filter ?keep (split_on line_feed ?t)" using False by (simp add: lines_of_def)
  have "hd (lines_of (Some ?t)) = hd (split_on line_feed ?t)" unfolding eq by (rule filter_hd [where P = ?keep, OF split_on_not_Nil k1])
  moreover have "last (lines_of (Some ?t)) = last (split_on line_feed ?t)" unfolding eq by (rule filter_last [where P = ?keep, OF split_on_not_Nil k2])
  moreover have "\<forall>l \<in> set (lines_of (Some ?t)). l \<noteq> [] \<and> line_feed \<notin> set l \<and> js_trim l \<noteq> []"
    unfolding eq using split_pieces_plain [of _ line_feed ?t] by (auto simp: js_trim_def)
  ultimately show ?thesis using first final ends by (simp add: good_lines_def)
qed (simp add: lines_of_def good_lines_def)

lemma hd_join: "ls \<noteq> [] \<Longrightarrow> hd ls \<noteq> [] \<Longrightarrow> join_with d ls \<noteq> [] \<and> hd (join_with d ls) = hd (hd ls)"
  by (cases ls) (simp_all add: join_with_Cons)

lemma last_join: "ls \<noteq> [] \<Longrightarrow> last ls \<noteq> [] \<Longrightarrow> join_with d ls \<noteq> [] \<and> last (join_with d ls) = last (last ls)"
  by (induction ls) (auto simp: join_with_Cons)

lemma read_back_lines:
  assumes "good_lines ls" and "ls \<noteq> []"
  shows "lines_of (Some (stripHeader (CARRIED_RECORDS_HEADER @ [line_feed] @ join_with [line_feed] ls))) = ls"
proof -
  let ?j = "join_with [line_feed] ls"
  have each: "\<forall>l \<in> set ls. l \<noteq> [] \<and> line_feed \<notin> set l \<and> js_trim l \<noteq> []"
    and ends: "\<not> is_space (hd (hd ls))" "\<not> is_space (last (last ls))" using assms by (simp_all add: good_lines_def)
  have "hd ls \<noteq> []" "last ls \<noteq> []" using each assms(2) by simp_all
  note h = hd_join [OF assms(2) this(1), of "[line_feed]"] and l = last_join [OF assms(2) this(2), of "[line_feed]"]
  have "js_trim ?j = ?j" using h l ends by (intro js_trim_id) simp
  then have trim: "js_trim (line_feed # ?j) = ?j" by (simp add: js_trim_def line_feed_space)
  have split: "split_on line_feed ?j = ls" using each assms(2) by (intro split_join_lines) blast+
  have "stripHeader (CARRIED_RECORDS_HEADER @ [line_feed] @ ?j) = ?j" using trim by (simp add: stripHeader_def)
  then show ?thesis using h split each by (simp add: lines_of_def filter_id_conv)
qed

subsection \<open>Records from one compaction to the next\<close>

definition is_rolling_summary :: "'x planner_message_scheme \<Rightarrow> bool" where
  "is_rolling_summary m \<longleftrightarrow> pm_role m = SystemRole \<and> isRollingSummaryText (pm_content m)"

definition is_carried_records :: "'x planner_message_scheme \<Rightarrow> bool" where
  "is_carried_records m \<longleftrightarrow> pm_role m = SystemRole \<and> isCarriedRecordsText (pm_content m)"

text \<open>The records a history has are those of its last message that holds records.\<close>

definition holds_records :: "'x plan_input \<Rightarrow> 'x planner_message_scheme \<Rightarrow> bool" where
  "holds_records inp m \<longleftrightarrow> \<not> pi_isRollingSummary inp m \<and> pi_isCarriedRecords inp m"

definition last_records :: "'x planner_message_scheme list \<Rightarrow> string option" where
  "last_records ms = (case rev ms of m # _ \<Rightarrow> Some (stripHeader (textOf (pm_content m))) | [] \<Rightarrow> None)"

lemma scan_records:
  "fst (snd (foldl (scan_message inp) st xs)) =
     (if filter (\<lambda>e. holds_records inp (fst e)) xs = [] then fst (snd st)
      else last_records (map fst (filter (\<lambda>e. holds_records inp (fst e)) xs)))"
proof (induction xs rule: rev_induct)
  case (snoc x xs)
  obtain a b c where st: "foldl (scan_message inp) st xs = (a, b, c)" by (cases "foldl (scan_message inp) st xs")
  have step: "fst (snd (scan_message inp (a, b, c) x)) = (if holds_records inp (fst x) then last_records [fst x] else b)" for b
    by (simp add: scan_message_def holds_records_def last_records_def)
  have final: "last_records (ms @ [m]) = last_records [m]" for ms :: "'a planner_message_scheme list" and m
    by (simp add: last_records_def)
  from snoc show ?case by (simp add: st step final)
qed simp

lemma previous_records: "fst (snd (scan_body inp)) = last_records (filter (holds_records inp) (pi_history inp))"
proof -
  have none: "filter (holds_records inp) (plan_prefix inp) = []"
    using prefix_kept [of _ inp] by (auto simp: filter_empty_conv holds_records_def kept_message_def)
  have all: "filter (holds_records inp) (pi_history inp) = map fst (filter (\<lambda>e. holds_records inp (fst e)) (after_prefix inp))"
    by (subst history_split) (simp add: none filter_map o_def)
  show ?thesis unfolding all scan_body_def scan_records by (simp add: last_records_def)
qed

lemma good_last_records: "good_lines (lines_of (last_records ms))"
proof (cases "rev ms")
  case Nil
  then show ?thesis by (simp add: last_records_def lines_of_def good_lines_def)
next
  case (Cons m ms')
  have "\<exists>x. stripHeader (textOf (pm_content m)) = js_trim x" unfolding stripHeader_def by auto
  with Cons show ?thesis using lines_of_trimmed by (auto simp: last_records_def)
qed

lemma headers_differ: "starts_with (ROLLING_SUMMARY_HEADER @ s) CARRIED_RECORDS_HEADER = False"
  "starts_with (CARRIED_RECORDS_HEADER @ s) ROLLING_SUMMARY_HEADER = False"
  "starts_with (CARRIED_RECORDS_HEADER @ s) LEGACY_ROLLING_SUMMARY_PREFIX = False"
  by (simp_all add: starts_with_def CARRIED_RECORDS_HEADER_def ROLLING_SUMMARY_HEADER_def LEGACY_ROLLING_SUMMARY_PREFIX_def)

lemma plan_messages_kept: "m \<in> set (plan_tail inp) \<Longrightarrow> kept_message inp m"
proof -
  assume "m \<in> set (plan_tail inp)"
  moreover have "set (concat (drop n (plan_turns inp))) \<subseteq> set (plan_body inp)" for n
  proof -
    have "set (concat (drop n (plan_turns inp))) \<subseteq> set (concat (plan_turns inp))" by (auto dest: in_set_dropD)
    then show ?thesis by (simp add: plan_turns_def turns_of_def concat_turns)
  qed
  ultimately show ?thesis by (fastforce simp: plan_tail_def plan_body_kept)
qed

lemma compacted_records:
  assumes rolling: "pi_isRollingSummary inp = is_rolling_summary" and carried: "pi_isCarriedRecords inp = is_carried_records"
    and makes: "\<And>t. pm_role (system_message t) = SystemRole \<and> pm_content (system_message t) = JString t"
    and suffix: "\<forall>m \<in> set suffix. \<not> is_carried_records m"
  shows "filter (holds_records inp) (compacted_history stringify texts system_message (planHistoryCompaction stringify parse texts inp) summary suffix)
    = (case renderCarriedRecords stringify texts (fst (snd (scan_body inp))) (hp_carried (planHistoryCompaction stringify parse texts inp)) of
         Some t \<Rightarrow> [system_message t] | None \<Rightarrow> [])"
proof -
  have a: "filter (holds_records inp) (plan_prefix inp) = []" "filter (holds_records inp) (plan_tail inp) = []"
    using prefix_kept [of _ inp] plan_messages_kept [of _ inp]
    by (auto simp: filter_empty_conv holds_records_def kept_message_def)
  have b: "filter (holds_records inp) suffix = []"
    using suffix by (auto simp: filter_empty_conv holds_records_def carried)
  have c: "\<not> holds_records inp (system_message (renderRollingSummary stringify summary))"
    by (simp add: holds_records_def carried is_carried_records_def isCarriedRecordsText_def makes renderRollingSummary_def headers_differ)
  have d: "holds_records inp (system_message (CARRIED_RECORDS_HEADER @ s))" for s
    by (simp add: holds_records_def carried rolling is_carried_records_def is_rolling_summary_def isCarriedRecordsText_def
        isRollingSummaryText_def makes headers_differ)
  show ?thesis
    by (simp add: compacted_history_def a b c d renderCarriedRecords_def Let_def)
qed

section \<open>Properties\<close>

text \<open>
  C29: A plan drops nothing and breaks no turn. The instructions, the older messages and the tail are together, in order,
  all messages of the history but the earlier summaries and records. The tail is made of whole turns, each with at most
  its first message starting a turn; it has the newest one, more of them only while all fit the budget, and as many as fit.
\<close>

theorem a_plan_keeps_every_message_and_whole_turns:
  "hp_prefix (planHistoryCompaction stringify parse texts inp) @ map fst (plan_older inp)
           @ hp_tail (planHistoryCompaction stringify parse texts inp) = filter (kept_message inp) (pi_history inp)
    \<and> hp_tail (planHistoryCompaction stringify parse texts inp)
           = map fst (concat (drop (tail_start inp (plan_turns inp)) (plan_turns inp)))
    \<and> (\<forall>turn \<in> set (plan_turns inp). is_turn turn)
    \<and> (\<forall>turn \<in> set (tl (plan_turns inp)). isTurnStart (fst (hd turn)))
    \<and> (plan_turns inp = [] \<or> tail_start inp (plan_turns inp) < length (plan_turns inp)
           \<and> (tail_start inp (plan_turns inp) = length (plan_turns inp) - 1
               \<or> turns_cost inp (plan_turns inp) (tail_start inp (plan_turns inp)) \<le> pi_tailBudgetTokens inp)
           \<and> (tail_start inp (plan_turns inp) = 0
               \<or> pi_tailBudgetTokens inp < turns_cost inp (plan_turns inp) (tail_start inp (plan_turns inp) - 1)))"
proof -
  let ?T = "plan_turns inp" and ?n = "tail_start inp (plan_turns inp)"
  have "concat (take ?n ?T) @ concat (drop ?n ?T) = plan_body inp"
    unfolding concat_append [symmetric] append_take_drop_id by (simp add: plan_turns_def turns_of_def concat_turns)
  then have "map fst (plan_older inp) @ plan_tail inp = map fst (plan_body inp)"
    unfolding plan_older_def plan_tail_def map_append [symmetric] by simp
  also have "\<dots> = filter (kept_message inp) (map fst (after_prefix inp))" by (simp add: plan_body_kept filter_map o_def)
  finally have "plan_prefix inp @ map fst (plan_older inp) @ plan_tail inp
      = filter (kept_message inp) (plan_prefix inp @ map fst (after_prefix inp))"
    using prefix_kept [of _ inp] by (simp add: filter_id_conv)
  then have a: "hp_prefix (planHistoryCompaction stringify parse texts inp) @ map fst (plan_older inp)
           @ hp_tail (planHistoryCompaction stringify parse texts inp) = filter (kept_message inp) (pi_history inp)"
    by (simp add: history_split [symmetric])
  have b: "hp_tail (planHistoryCompaction stringify parse texts inp) = map fst (concat (drop ?n ?T))" by (simp add: plan_tail_def)
  have c: "\<forall>turn \<in> set ?T. is_turn turn" unfolding plan_turns_def turns_of_def by (rule turns_of_are_turns) simp
  have d: "\<forall>turn \<in> set (tl ?T). isTurnStart (fst (hd turn))"
    using later_turns_start [of "[]" "plan_body inp"] unfolding plan_turns_def turns_of_def by simp
  have e: "?T = [] \<or> ?n < length ?T \<and> (?n = length ?T - 1 \<or> turns_cost inp ?T ?n \<le> pi_tailBudgetTokens inp)
      \<and> (?n = 0 \<or> pi_tailBudgetTokens inp < turns_cost inp ?T (?n - 1))"
    using tail_start_fits [of ?T inp] by blast
  show ?thesis by (rule conjI [OF a conjI [OF b conjI [OF c conjI [OF d e]]]])
qed

text \<open>
  Which results may never be left to the summary, said without the tables of the planner: what was blocked, was
  cancelled or has an unknown outcome, calls that were cut off, whatever writes, runs or remembers something, whatever
  hands work to a teammate or talks to one, receipts and decisions, and every tool of an integration.
\<close>

definition failed_as :: "tool_outcome option \<Rightarrow> string list \<Rightarrow> bool" where
  "failed_as outcome kinds = (case outcome of
       None \<Rightarrow> False
     | Some out \<Rightarrow> to_failed out \<and> (case to_failureKind out of None \<Rightarrow> False | Some k \<Rightarrow> k \<in> set kinds))"

fun is_reason :: "planner_texts \<Rightarrow> string \<Rightarrow> string \<Rightarrow> tool_outcome option \<Rightarrow> carried_reason \<Rightarrow> bool" where
  "is_reason texts name result outcome RefusalReason \<longleftrightarrow> failed_as outcome [''blocked'', ''cancelled'', ''outcome_unknown'']"
| "is_reason texts name result outcome InterruptedReason \<longleftrightarrow>
     js_trim result = pt_interrupted texts \<or> js_trim result = ''[tool result missing]''"
| "is_reason texts name result outcome EffectReason \<longleftrightarrow>
     name \<in> {''write_file'', ''apply_edit'', ''apply_patch'', ''delete_file'', ''delete_dir'', ''save_attachment'', ''write_document''}
   \<or> name \<in> {''run_command'', ''check_command'', ''kill_command'', ''run_checks'', ''memory_note''}"
| "is_reason texts name result outcome DelegationReason \<longleftrightarrow>
     name \<in> {''assign_task'', ''assign_task_async'', ''dispatch_task'', ''continue_task'', ''cancel_task'', ''close_assignment''}
   \<or> name \<in> {''await_tasks'', ''collect_ready_tasks'', ''record_task_disposition'', ''send_message''}"
| "is_reason texts name result outcome EvidenceReason \<longleftrightarrow>
     name \<in> {''publish_content_receipt'', ''publish_task_artifact'', ''select_workflow_branch'', ''report_context_gap''}"
| "is_reason texts name result outcome IntegrationReason \<longleftrightarrow> list_ex (\<lambda>i. starts_with (drop i name) ''__'') [0..<length name]"
| "is_reason texts name result outcome PlanReason \<longleftrightarrow> name = ''update_todos''"

definition must_be_carried :: "planner_texts \<Rightarrow> string \<Rightarrow> string \<Rightarrow> tool_outcome option \<Rightarrow> bool" where
  "must_be_carried texts name result outcome \<longleftrightarrow>
     list_ex (is_reason texts name result outcome)
       [RefusalReason, InterruptedReason, EffectReason, DelegationReason, EvidenceReason, IntegrationReason]"

lemma index_of_somewhere: "p \<noteq> [] \<Longrightarrow> index_of s p \<noteq> None \<longleftrightarrow> list_ex (\<lambda>i. starts_with (drop i s) p) [0..<length s]"
proof (induction s)
  case (Cons c s)
  have mapped: "list_ex P (map f xs) = list_ex (\<lambda>i. P (f i)) xs" for P :: "nat \<Rightarrow> bool" and f :: "nat \<Rightarrow> nat" and xs
    by (induction xs) auto
  have places: "[0..<length (c # s)] = 0 # map Suc [0..<length s]" by (simp add: upt_conv_Cons map_Suc_upt del: upt_Suc)
  have "index_of (c # s) p \<noteq> None \<longleftrightarrow> starts_with (c # s) p \<or> index_of s p \<noteq> None"
    by (subst index_of.simps) simp
  then show ?case unfolding places Cons.IH [OF Cons.prems] by (simp add: mapped del: index_of.simps)
qed (simp add: starts_with_def)

lemma carriedReason_fits:
  "case carriedReason texts name result (case outcome of Some out \<Rightarrow> (if to_failed out then to_failureKind out else None) | None \<Rightarrow> None) of
     None \<Rightarrow> \<not> must_be_carried texts name result outcome \<and> name \<noteq> ''update_todos''
   | Some why \<Rightarrow> is_reason texts name result outcome why
       \<and> (why = PlanReason \<longleftrightarrow> \<not> must_be_carried texts name result outcome)"
proof -
  let ?kind = "case outcome of Some out \<Rightarrow> (if to_failed out then to_failureKind out else None) | None \<Rightarrow> None"
  have refused: "(\<exists>k \<in> set CARRIED_FAILURE_KINDS. ?kind = Some k) \<longleftrightarrow> is_reason texts name result outcome RefusalReason"
    by (auto simp: failed_as_def CARRIED_FAILURE_KINDS_def split: option.split)
  have cut: "js_trim result \<in> set (INTERRUPTED_RESULT_LITERALS texts) \<longleftrightarrow> is_reason texts name result outcome InterruptedReason"
    by (simp add: INTERRUPTED_RESULT_LITERALS_def)
  have tables: "name \<in> set EFFECT_TOOLS \<longleftrightarrow> is_reason texts name result outcome EffectReason"
    "name \<in> set DELEGATION_TOOLS \<longleftrightarrow> is_reason texts name result outcome DelegationReason"
    "name \<in> set EVIDENCE_TOOLS \<longleftrightarrow> is_reason texts name result outcome EvidenceReason"
    "name = LATEST_PLAN_TOOL \<longleftrightarrow> is_reason texts name result outcome PlanReason"
    by (auto simp: EFFECT_TOOLS_def DELEGATION_TOOLS_def EVIDENCE_TOOLS_def LATEST_PLAN_TOOL_def)
  have outside: "index_of name ''__'' \<noteq> None \<longleftrightarrow> is_reason texts name result outcome IntegrationReason"
    using index_of_somewhere [of "''__''" name] by simp
  have plan: "\<not> is_reason texts ''update_todos'' result outcome IntegrationReason" by code_simp
  show ?thesis
    unfolding carriedReason_def refused cut tables outside must_be_carried_def
    using plan by (auto simp del: is_reason.simps(1-6))
qed

lemma tool_item_reason:
  assumes "name = (case answered of Some c \<Rightarrow> plc_name c | None \<Rightarrow> case_option ''unknown_tool'' (\<lambda>x. x) n)"
  shows "\<exists>record summary. tool_item stringify parse texts outcome ident answered n t = ToolItem name record summary
    \<and> (case record of None \<Rightarrow> \<not> must_be_carried texts name t outcome \<and> name \<noteq> ''update_todos''
       | Some r \<Rightarrow> cr_result r = t \<and> cr_name r = name \<and> cr_outcome r = outcome \<and> is_reason texts name t outcome (cr_reason r)
           \<and> (cr_reason r = PlanReason \<longleftrightarrow> \<not> must_be_carried texts name t outcome))"
  using carriedReason_fits [of texts name t outcome] unfolding assms
  by (auto simp: tool_item_def Let_def split: option.splits)

text \<open>
  C30: No effect, decision or delegation of the older turns is left to the summary. Every result there becomes exactly one
  record, carried or to be summarized. A result that was blocked, cancelled, cut off or has an unknown outcome, or is of a
  tool that changes, runs, delegates, receipts or decides something, or of an integration, is carried with its
  whole text, its outcome and a reason that is true of it; only other tools' results are summarized. Of the plans only
  the newest is carried, unless the kept tail has a newer one.
\<close>

theorem effects_are_never_left_to_the_summary:
  assumes older: "plan_older inp = xs @ (m, p) # ys" and result: "toolResultOf m = Some (n, t)"
    and call: "fst (take_call (answers_call m n) (snd (foldl (plan_message stringify parse texts inp) ([], []) xs))) = answered"
    and name: "name = (case answered of Some c \<Rightarrow> plc_name c | None \<Rightarrow> case_option ''unknown_tool'' (\<lambda>x. x) n)"
  shows "(\<exists>record summary.
      tool_item stringify parse texts (pi_outcomeOf inp m) (item_id p) answered n t = ToolItem name record summary
      \<and> (case record of
           None \<Rightarrow> \<not> must_be_carried texts name t (pi_outcomeOf inp m) \<and> name \<noteq> ''update_todos''
             \<and> summary \<in> set (hp_summarizable (planHistoryCompaction stringify parse texts inp))
         | Some r \<Rightarrow> cr_result r = t \<and> cr_name r = name \<and> cr_outcome r = pi_outcomeOf inp m
             \<and> is_reason texts name t (pi_outcomeOf inp m) (cr_reason r)
             \<and> (cr_reason r = PlanReason \<longleftrightarrow> \<not> must_be_carried texts name t (pi_outcomeOf inp m))
             \<and> (cr_reason r \<noteq> PlanReason \<longrightarrow> r \<in> set (hp_carried (planHistoryCompaction stringify parse texts inp)))
             \<and> (r \<in> set (hp_carried (planHistoryCompaction stringify parse texts inp))
                 \<or> summary \<in> set (hp_summarizable (planHistoryCompaction stringify parse texts inp)))))
    \<and> length (hp_carried (planHistoryCompaction stringify parse texts inp))
           + length (filter (\<lambda>s. sm_role s = ToolRole) (hp_summarizable (planHistoryCompaction stringify parse texts inp)))
         = length (filter (\<lambda>e. is_result (fst e)) (plan_older inp))
    \<and> filter (\<lambda>r. cr_reason r = PlanReason) (hp_carried (planHistoryCompaction stringify parse texts inp))
         = (if tail_has_plan inp (plan_tail inp) then []
            else take 1 (rev (concat (map plan_record (plan_items stringify parse texts inp (plan_older inp))))))"
proof -
  let ?items = "plan_items stringify parse texts inp (plan_older inp)"
  let ?latest = "if tail_has_plan inp (plan_tail inp) then None else latest_plan ?items"
  have parts: "hp_summarizable (planHistoryCompaction stringify parse texts inp) = fst (sorted_items ?latest ?items)"
    "hp_carried (planHistoryCompaction stringify parse texts inp) = snd (sorted_items ?latest ?items)"
    by (simp_all add: planHistoryCompaction_def Let_def split: prod.split)
  let ?out = "pi_outcomeOf inp m"
  let ?item = "tool_item stringify parse texts ?out (item_id p) answered n t"
  have there: "?item \<in> set ?items" using item_of_result [OF older result, of stringify parse texts inp] unfolding call .
  obtain rec summary where item: "?item = ToolItem name rec summary"
    and said: "case rec of None \<Rightarrow> \<not> must_be_carried texts name t ?out \<and> name \<noteq> ''update_todos''
      | Some r \<Rightarrow> cr_result r = t \<and> cr_name r = name \<and> cr_outcome r = ?out \<and> is_reason texts name t ?out (cr_reason r)
          \<and> (cr_reason r = PlanReason \<longleftrightarrow> \<not> must_be_carried texts name t ?out)"
    using tool_item_reason [OF name] by blast
  have a: "\<exists>record summary. ?item = ToolItem name record summary
      \<and> (case record of
           None \<Rightarrow> \<not> must_be_carried texts name t ?out \<and> name \<noteq> ''update_todos''
             \<and> summary \<in> set (hp_summarizable (planHistoryCompaction stringify parse texts inp))
         | Some r \<Rightarrow> cr_result r = t \<and> cr_name r = name \<and> cr_outcome r = ?out
             \<and> is_reason texts name t ?out (cr_reason r)
             \<and> (cr_reason r = PlanReason \<longleftrightarrow> \<not> must_be_carried texts name t ?out)
             \<and> (cr_reason r \<noteq> PlanReason \<longrightarrow> r \<in> set (hp_carried (planHistoryCompaction stringify parse texts inp)))
             \<and> (r \<in> set (hp_carried (planHistoryCompaction stringify parse texts inp))
                 \<or> summary \<in> set (hp_summarizable (planHistoryCompaction stringify parse texts inp))))"
    unfolding parts using item_in_parts [OF there item, of ?latest] said item by (cases rec) simp_all
  obtain new where new: "?items = [] @ new" "\<forall>item \<in> set new. item_ok item"
      "length (filter is_tool_item new) = length (filter (\<lambda>e. is_result (fst e)) (plan_older inp))"
    using plan_messages_add [of stringify parse texts inp "([], [])" "plan_older inp"] unfolding plan_items_def fst_conv by blast
  then have ok: "\<forall>item \<in> set ?items. item_ok item" by simp
  have b: "length (hp_carried (planHistoryCompaction stringify parse texts inp))
      + length (filter (\<lambda>s. sm_role s = ToolRole) (hp_summarizable (planHistoryCompaction stringify parse texts inp)))
    = length (filter (\<lambda>e. is_result (fst e)) (plan_older inp))"
    unfolding parts items_give_one_each [OF ok] using new by simp
  have "filter (\<lambda>r. cr_reason r = PlanReason) (snd (sorted_items ?latest ?items))
      = (case ?latest of Some i \<Rightarrow> if i < length ?items then plan_record (?items ! i) else [] | None \<Rightarrow> [])"
    unfolding sorted_items_parts snd_conv carried_plans by (auto split: option.split)
  also have "\<dots> = (if tail_has_plan inp (plan_tail inp) then [] else take 1 (rev (concat (map plan_record ?items))))"
    using latest_plan_bound [of ?items] unfolding newest_plan [symmetric] by (auto split: option.split)
  finally have c: "filter (\<lambda>r. cr_reason r = PlanReason) (hp_carried (planHistoryCompaction stringify parse texts inp))
      = (if tail_has_plan inp (plan_tail inp) then [] else take 1 (rev (concat (map plan_record ?items))))"
    unfolding parts .
  show ?thesis by (rule conjI [OF a conjI [OF b c]])
qed

text \<open>
  C31: The carried records survive every later compaction. Planned again after a compaction, and whatever was appended
  since, the history yields exactly the lines it held before and one line for each record carried then, in order.
\<close>

theorem carried_records_survive_compactions:
  assumes json: "\<And>ms. good_lines [stringify (JObject ms)]"
    and recognized: "pi_isRollingSummary inp = is_rolling_summary" "pi_isCarriedRecords inp = is_carried_records"
    and same: "pi_isRollingSummary inp' = is_rolling_summary" "pi_isCarriedRecords inp' = is_carried_records"
    and makes: "\<And>t. pm_role (system_message t) = SystemRole \<and> pm_content (system_message t) = JString t"
    and suffix: "\<forall>m \<in> set suffix. \<not> is_carried_records m"
    and next_one: "pi_history inp'
      = compacted_history stringify texts system_message (planHistoryCompaction stringify parse texts inp) summary suffix"
  shows "lines_of (hp_previousRecords (planHistoryCompaction stringify parse texts inp'))
    = lines_of (hp_previousRecords (planHistoryCompaction stringify parse texts inp))
      @ map (carriedRecordLine stringify texts) (hp_carried (planHistoryCompaction stringify parse texts inp))"
proof -
  let ?plan = "planHistoryCompaction stringify parse texts inp"
  let ?before = "lines_of (fst (snd (scan_body inp)))" and ?new = "map (carriedRecordLine stringify texts) (hp_carried ?plan)"
  have "good_lines ?before" unfolding previous_records by (rule good_last_records)
  moreover have "good_lines ?new"
  proof -
    have each: "good_lines [carriedRecordLine stringify texts r]" for r
      using json by (simp add: carriedRecordLine_def record_json_def)
    show ?thesis by (rule good_lines_each) (use each in auto)
  qed
  ultimately have good: "good_lines (?before @ ?new)" by (rule good_lines_append)
  have now: "filter (holds_records inp') (pi_history inp')
      = (case renderCarriedRecords stringify texts (fst (snd (scan_body inp))) (hp_carried ?plan) of
           Some t \<Rightarrow> [system_message t] | None \<Rightarrow> [])"
    unfolding next_one using compacted_records [OF recognized makes suffix]
    by (simp add: holds_records_def [abs_def] same recognized)
  show ?thesis
  proof (cases "?before @ ?new = []")
    case True
    then have "renderCarriedRecords stringify texts (fst (snd (scan_body inp))) (hp_carried ?plan) = None"
      by (simp add: renderCarriedRecords_def)
    then have "fst (snd (scan_body inp')) = None" unfolding previous_records [of inp'] now by (simp add: last_records_def)
    with True show ?thesis unfolding plan_parts(3) by (simp only: lines_of_def option.case)
  next
    case False
    let ?text = "CARRIED_RECORDS_HEADER @ [line_feed] @ join_with [line_feed] (?before @ ?new)"
    have "renderCarriedRecords stringify texts (fst (snd (scan_body inp))) (hp_carried ?plan) = Some ?text"
      unfolding renderCarriedRecords_def Let_def using False by (simp only: if_True simp_thms)
    then have "fst (snd (scan_body inp')) = Some (stripHeader ?text)"
      unfolding previous_records [of inp'] now by (simp only: option.case) (simp add: last_records_def textOf_def makes)
    with read_back_lines [OF good False] show ?thesis unfolding plan_parts(3) by simp
  qed
qed

section \<open>A small conversation\<close>

definition sample_message :: "planner_role \<Rightarrow> string \<Rightarrow> planner_message" where
  "sample_message role t = \<lparr>pm_role = role, pm_content = JString t, pm_tool_calls = None, pm_tool_call_id = None\<rparr>"

definition sample_conversation :: "planner_message list" where
  "sample_conversation =
     [sample_message SystemRole ''Be brief.'', sample_message UserRole ''Fix it.'',
      (sample_message AssistantRole ''On it.'')\<lparr>pm_tool_calls := Some [\<lparr>nc_id = ''c1'', nc_name = ''run_command'', nc_arguments = ''make''\<rparr>]\<rparr>,
      (sample_message ToolRole ''[exit 0]'')\<lparr>pm_tool_call_id := Some ''c1''\<rparr>,
      sample_message UserRole ''Thanks.'']"

definition sample_input :: "planner_message list \<Rightarrow> unit plan_input" where
  "sample_input history =
     \<lparr>pi_history = history, pi_isRollingSummary = is_rolling_summary, pi_isCarriedRecords = is_carried_records,
      pi_callsOf = (\<lambda>m. case pm_tool_calls m of None \<Rightarrow> []
        | Some cs \<Rightarrow> map (\<lambda>c. \<lparr>plc_name = nc_name c, plc_arguments = nc_arguments c\<rparr>) cs),
      pi_outcomeOf = (\<lambda>_. None), pi_assistantTextOf = None, pi_estimate = (\<lambda>ms. int (length ms)), pi_tailBudgetTokens = 2\<rparr>"

definition sample_texts :: planner_texts where
  "sample_texts = \<lparr>pt_interrupted = ''(interrupted)'', pt_long_marker = (\<lambda>_. ''(omitted)''), pt_excerpt_gap = (\<lambda>_. ''(omitted)'')\<rparr>"

text \<open>The name of the tool on a line of its own stands for the JSON text of a record.\<close>

definition sample_json :: "js_value \<Rightarrow> string" where
  "sample_json v =
     ''{'' @ filter (\<lambda>c. c \<noteq> line_feed) (case v of JObject ms \<Rightarrow> (case member_of ms ''tool'' of JString t \<Rightarrow> t | _ \<Rightarrow> []) | _ \<Rightarrow> []) @ ''}''"

abbreviation sample_plan :: "planner_message list \<Rightarrow> unit history_plan" where
  "sample_plan history \<equiv> planHistoryCompaction sample_json (\<lambda>_. None) sample_texts (sample_input history)"

lemma sample_older: "plan_older (sample_input sample_conversation)
    = [(sample_conversation ! 1, 1), (sample_conversation ! 2, 2)] @ (sample_conversation ! 3, 3) # []"
  "toolResultOf (sample_conversation ! 3) = Some (None, ''[exit 0]'')"
  by code_simp+

lemma a_plan_keeps_every_message_and_whole_turns_witness:
  "hp_prefix (sample_plan sample_conversation) @ map fst (plan_older (sample_input sample_conversation))
     @ hp_tail (sample_plan sample_conversation) = sample_conversation
   \<and> hp_tail (sample_plan sample_conversation) = [sample_message UserRole ''Thanks.'']"
proof -
  note plan = a_plan_keeps_every_message_and_whole_turns [of sample_json "\<lambda>_. None" sample_texts "sample_input sample_conversation"]
  have "filter (kept_message (sample_input sample_conversation)) (pi_history (sample_input sample_conversation)) = sample_conversation"
    "map fst (concat (drop (tail_start (sample_input sample_conversation) (plan_turns (sample_input sample_conversation)))
      (plan_turns (sample_input sample_conversation)))) = [sample_message UserRole ''Thanks.'']"
    by code_simp+
  with plan show ?thesis by argo
qed

lemma effects_are_never_left_to_the_summary_witness:
  "length (hp_carried (sample_plan sample_conversation))
     + length (filter (\<lambda>s. sm_role s = ToolRole) (hp_summarizable (sample_plan sample_conversation))) = 1
   \<and> map cr_reason (hp_carried (sample_plan sample_conversation)) = [EffectReason]"
proof -
  have "length (filter (\<lambda>e. is_result (fst e)) (plan_older (sample_input sample_conversation))) = 1"
    "map cr_reason (hp_carried (sample_plan sample_conversation)) = [EffectReason]"
    by code_simp+
  with effects_are_never_left_to_the_summary [OF sample_older refl refl, of sample_json "\<lambda>_. None" sample_texts]
  show ?thesis by argo
qed

definition sample_next :: "planner_message list" where
  "sample_next = compacted_history sample_json sample_texts (sample_message SystemRole) (sample_plan sample_conversation) ''ok''
     [sample_message UserRole ''Go on.'']"

lemma sample_json_good: "good_lines [sample_json v]"
proof -
  have "CHR ''{'' \<in> set (sample_json v)" "\<not> is_space (CHR ''{'')" "\<not> is_space (CHR ''}'')"
    by (simp_all add: sample_json_def is_space_def)
  then show ?thesis using trim_not_blank [of "CHR ''{''" "sample_json v"]
    by (simp add: good_lines_def sample_json_def line_feed_def)
qed

lemma carried_records_survive_compactions_witness:
  "lines_of (hp_previousRecords (sample_plan sample_next)) = [''{run_command}'']"
proof -
  have "lines_of (hp_previousRecords (sample_plan sample_next))
      = lines_of (hp_previousRecords (sample_plan sample_conversation))
        @ map (carriedRecordLine sample_json sample_texts) (hp_carried (sample_plan sample_conversation))"
    by (rule carried_records_survive_compactions [where system_message = "sample_message SystemRole" and summary = "''ok''"
          and suffix = "[sample_message UserRole ''Go on.'']"])
      (simp_all add: sample_json_good sample_input_def sample_message_def is_carried_records_def sample_next_def)
  also have "\<dots> = [''{run_command}'']" by code_simp
  finally show ?thesis .
qed

end
