(* ===== verification/ReadProjectionLaws.thy ===== *)
theory ReadProjectionLaws
  imports ReadProjection
begin

text \<open>
  What the view of old reads promises: only a checked read of an old turn changes, exactly its text becomes the
  reference and the rest stays, the view of what was sent before does not move while the cutoff stays, and the cutoff
  moves forward only, for a saving that is the difference of the two views.
\<close>

section \<open>Turns in order\<close>

lemma note_turn_extends: "\<exists>rest. foldl (note_turn access) order ms = order @ rest"
proof (induction ms arbitrary: order)
  case (Cons m ms)
  have "\<exists>new. note_turn access order m = order @ new"
    by (auto simp: note_turn_def set_add_def split: option.split)
  with Cons.IH [of "note_turn access order m"] show ?case by auto
qed simp

lemma note_turn_distinct: "distinct order \<Longrightarrow> distinct (foldl (note_turn access) order ms)"
proof (induction ms arbitrary: order)
  case (Cons m ms)
  have "distinct (note_turn access order m)" using Cons.prems by (simp add: note_turn_def split: option.split)
  with Cons.IH show ?case by simp
qed simp

lemma distinct_turnOrder: "distinct (turnOrder access ms)"
  by (simp add: turnOrder_def note_turn_distinct)

lemma turnOrder_append: "\<exists>rest. turnOrder access (ms @ ms') = turnOrder access ms @ rest"
  unfolding turnOrder_def foldl_append by (rule note_turn_extends)

lemma turnOrder_nonempty: "turn \<in> set (turnOrder access ms) \<Longrightarrow> turn \<noteq> []"
proof -
  have "\<forall>t \<in> set order. t \<noteq> [] \<Longrightarrow> \<forall>t \<in> set (foldl (note_turn access) order ms). t \<noteq> []" for order
  proof (induction ms arbitrary: order)
    case (Cons m ms)
    then have "\<forall>t \<in> set (note_turn access order m). t \<noteq> []" by (simp add: note_turn_def split: option.split)
    with Cons.IH show ?case by simp
  qed simp
  from this [of "[]"] show "turn \<in> set (turnOrder access ms) \<Longrightarrow> turn \<noteq> []" by (simp add: turnOrder_def)
qed

lemma place_in_append: "turn \<in> set order \<Longrightarrow> place_in (order @ rest) turn = place_in order turn"
  by (simp add: place_in_def takeWhile_append1 [of turn])

lemma place_in_bound: "place_in order turn = Some i \<Longrightarrow> i < length order \<and> order ! i = turn"
proof -
  assume place: "place_in order turn = Some i"
  then have "turn \<in> set order" by (simp add: place_in_def split: if_splits)
  then obtain a b where order: "order = a @ turn # b" "turn \<notin> set a" by (blast dest: split_list_first)
  then have "\<forall>t \<in> set a. t \<noteq> turn" by auto
  with order have "takeWhile (\<lambda>t. t \<noteq> turn) order = a" by simp
  with place order show ?thesis by (auto simp: place_in_def)
qed

lemma place_in_take:
  assumes "distinct order"
  shows "turn \<in> set (take k order) \<longleftrightarrow> (\<exists>i. place_in order turn = Some i \<and> i < k)"
proof
  assume t: "turn \<in> set (take k order)"
  then obtain j where j: "j < length order" "j < k" "order ! j = turn" by (auto simp: in_set_conv_nth)
  then obtain i where i: "place_in order turn = Some i" by (auto simp: place_in_def)
  from place_in_bound [OF this] j assms have "i = j" using nth_eq_iff_index_eq by metis
  with i j show "\<exists>i. place_in order turn = Some i \<and> i < k" by auto
next
  assume "\<exists>i. place_in order turn = Some i \<and> i < k"
  then obtain i where "place_in order turn = Some i" "i < k" by auto
  with place_in_bound [of order turn i] show "turn \<in> set (take k order)" by (auto simp: in_set_conv_nth)
qed

lemma place_in_last: "distinct order \<Longrightarrow> order \<noteq> [] \<Longrightarrow> place_in order (last order) = Some (length order - 1)"
proof (cases order rule: rev_cases)
  case (snoc ts t)
  moreover assume "distinct order"
  ultimately have "\<forall>u \<in> set ts. u \<noteq> t" by auto
  then have "takeWhile (\<lambda>u. u \<noteq> t) (ts @ [t]) = ts" by simp
  with snoc show ?thesis by (simp add: place_in_def)
qed simp

section \<open>The view, message by message\<close>

definition old_turn :: "string list \<Rightarrow> 'm projection_access \<Rightarrow> 'm \<Rightarrow> bool" where
  "old_turn before access m \<longleftrightarrow> (case turnOf access m of Some turn \<Rightarrow> turn \<in> set before | None \<Rightarrow> False)"

definition view_of ::
    "(js_value \<Rightarrow> string) \<Rightarrow> (string \<Rightarrow> string) \<Rightarrow> (string \<Rightarrow> int) \<Rightarrow> 'm projection_access \<Rightarrow> string list \<Rightarrow> 'm \<Rightarrow> 'm" where
  "view_of stringify sha256 estimate access before m =
     (if old_turn before access m then
        (case reference_text stringify sha256 estimate access m of Some (_, replaced) \<Rightarrow> pa_withText access m replaced | None \<Rightarrow> m)
      else m)"

definition saved_in ::
    "(js_value \<Rightarrow> string) \<Rightarrow> (string \<Rightarrow> string) \<Rightarrow> (string \<Rightarrow> int) \<Rightarrow> 'm projection_access \<Rightarrow> string list \<Rightarrow> 'm \<Rightarrow> int" where
  "saved_in stringify sha256 estimate access before m =
     (if old_turn before access m then saved_by estimate (reference_text stringify sha256 estimate access m) else 0)"

lemma project_message_parts:
  "pv_messages (project_message stringify sha256 estimate access before view m)
     = pv_messages view @ [view_of stringify sha256 estimate access before m]"
  "pv_savedTokens (project_message stringify sha256 estimate access before view m)
     = pv_savedTokens view + saved_in stringify sha256 estimate access before m"
  by (simp_all add: project_message_def view_of_def saved_in_def old_turn_def saved_by_def Let_def split: option.split prod.split)

lemma project_messages_parts:
  "pv_messages (foldl (project_message stringify sha256 estimate access before) view ms)
     = pv_messages view @ map (view_of stringify sha256 estimate access before) ms"
  "pv_savedTokens (foldl (project_message stringify sha256 estimate access before) view ms)
     = pv_savedTokens view + sum_list (map (saved_in stringify sha256 estimate access before) ms)"
  by (induction ms arbitrary: view) (simp_all add: project_message_parts)

text \<open>The turns before the cutoff, none where it is not in the history.\<close>

definition turns_before :: "string list \<Rightarrow> string option \<Rightarrow> string list" where
  "turns_before order cutoff =
     (case cutoff of None \<Rightarrow> [] | Some t \<Rightarrow> (case place_in order t of Some i \<Rightarrow> take i order | None \<Rightarrow> []))"

lemma nothing_before: "view_of stringify sha256 estimate access [] m = m" "saved_in stringify sha256 estimate access [] m = 0"
  by (simp_all add: view_of_def saved_in_def old_turn_def split: option.split)

lemma nothing_before_all: "map (view_of stringify sha256 estimate access []) ms = ms"
  "sum_list (map (saved_in stringify sha256 estimate access []) ms) = 0"
  by (induction ms) (simp_all add: nothing_before)

lemma turns_before_in:
  "turn \<in> set (turns_before order cutoff) \<Longrightarrow> \<exists>t q. cutoff = Some t \<and> place_in order t = Some q \<and> turn \<in> set (take q order)"
  by (cases cutoff; cases "place_in order (the cutoff)") (simp_all add: turns_before_def)

lemma projected_parts:
  "pv_messages (projectReadReferences stringify sha256 estimate access ms state)
     = map (view_of stringify sha256 estimate access (turns_before (turnOrder access ms) (rp_beforeTurnId state))) ms"
  "pv_savedTokens (projectReadReferences stringify sha256 estimate access ms state)
     = sum_list (map (saved_in stringify sha256 estimate access (turns_before (turnOrder access ms) (rp_beforeTurnId state))) ms)"
  by (simp_all add: projectReadReferences_def turns_before_def nothing_before_all project_messages_parts Let_def split: option.split)

lemma reference_parts:
  assumes "reference_text stringify sha256 estimate access m = Some (shown, replaced)"
  obtains seen where "readOf access m = Some seen" and "pa_text access m = Some shown"
    and "rf_start seen \<le> rf_end seen" and "rf_end seen \<le> length shown"
    and "sha256 (slice (rf_start seen) (rf_end seen) shown) = rf_resultTextSha256 seen"
    and "replaced = take (rf_start seen) shown @ renderReadReference stringify seen @ drop (rf_end seen) shown"
    and "estimate (renderReadReference stringify seen) < estimate (slice (rf_start seen) (rf_end seen) shown)"
  using assms that
  by (auto simp: reference_text_def projectedReadResult_def Let_def split: option.splits if_splits)

lemma turns_before_append:
  assumes "\<forall>t. cutoff = Some t \<longrightarrow> t \<in> set order"
  shows "turns_before (order @ rest) cutoff = turns_before order cutoff"
proof (cases cutoff)
  case (Some t)
  then have "t \<in> set order" using assms by simp
  then show ?thesis using place_in_bound [of order t] by (auto simp: turns_before_def Some place_in_append split: option.split)
qed (simp add: turns_before_def)

section \<open>Properties\<close>

text \<open>
  C32: Only old reads become references, and what was sent stays. Each message of the view is the message itself, or one
  of a turn before the cutoff with a checked provenance, where exactly the text the digest covers was replaced by a
  reference that is smaller. While the cutoff stays, messages that come later change nothing in the view of the earlier ones.
\<close>

theorem the_view_replaces_old_reads_and_stands:
  assumes known: "\<forall>t. rp_beforeTurnId state = Some t \<longrightarrow> t \<in> set (turnOrder access ms)"
  shows "take (length ms) (pv_messages (projectReadReferences stringify sha256 estimate access (ms @ later) state))
           = pv_messages (projectReadReferences stringify sha256 estimate access ms state)
    \<and> length (pv_messages (projectReadReferences stringify sha256 estimate access ms state)) = length ms
    \<and> (\<forall>i < length ms. pv_messages (projectReadReferences stringify sha256 estimate access ms state) ! i = ms ! i
         \<or> (\<exists>cutoff turn p q seen before payload after.
              rp_beforeTurnId state = Some cutoff \<and> place_in (turnOrder access ms) cutoff = Some q
              \<and> turnOf access (ms ! i) = Some turn \<and> place_in (turnOrder access ms) turn = Some p \<and> p < q
              \<and> readOf access (ms ! i) = Some seen \<and> pa_text access (ms ! i) = Some (before @ payload @ after)
              \<and> length before = rf_start seen \<and> length (before @ payload) = rf_end seen
              \<and> sha256 payload = rf_resultTextSha256 seen
              \<and> estimate (renderReadReference stringify seen) < estimate payload
              \<and> pv_messages (projectReadReferences stringify sha256 estimate access ms state) ! i
                  = pa_withText access (ms ! i) (before @ renderReadReference stringify seen @ after)))"
proof (intro conjI allI impI)
  obtain rest where rest: "turnOrder access (ms @ later) = turnOrder access ms @ rest" using turnOrder_append by blast
  show "take (length ms) (pv_messages (projectReadReferences stringify sha256 estimate access (ms @ later) state))
      = pv_messages (projectReadReferences stringify sha256 estimate access ms state)"
    by (simp add: projected_parts rest turns_before_append [OF known])
  show "length (pv_messages (projectReadReferences stringify sha256 estimate access ms state)) = length ms"
    by (simp add: projected_parts)
  fix i
  assume i: "i < length ms"
  let ?m = "ms ! i" and ?order = "turnOrder access ms"
  let ?view = "view_of stringify sha256 estimate access (turns_before ?order (rp_beforeTurnId state)) ?m"
  have at: "pv_messages (projectReadReferences stringify sha256 estimate access ms state) ! i = ?view"
    using i by (simp add: projected_parts)
  show "pv_messages (projectReadReferences stringify sha256 estimate access ms state) ! i = ?m
         \<or> (\<exists>cutoff turn p q seen before payload after.
              rp_beforeTurnId state = Some cutoff \<and> place_in ?order cutoff = Some q
              \<and> turnOf access ?m = Some turn \<and> place_in ?order turn = Some p \<and> p < q
              \<and> readOf access ?m = Some seen \<and> pa_text access ?m = Some (before @ payload @ after)
              \<and> length before = rf_start seen \<and> length (before @ payload) = rf_end seen
              \<and> sha256 payload = rf_resultTextSha256 seen
              \<and> estimate (renderReadReference stringify seen) < estimate payload
              \<and> pv_messages (projectReadReferences stringify sha256 estimate access ms state) ! i
                  = pa_withText access ?m (before @ renderReadReference stringify seen @ after))"
  proof (cases "?view = ?m")
    case False
    then obtain shown replaced where old: "old_turn (turns_before ?order (rp_beforeTurnId state)) access ?m"
      and r: "reference_text stringify sha256 estimate access ?m = Some (shown, replaced)"
      and v: "?view = pa_withText access ?m replaced"
      by (auto simp: view_of_def split: if_splits option.splits)
    from old obtain turn where turn: "turnOf access ?m = Some turn" "turn \<in> set (turns_before ?order (rp_beforeTurnId state))"
      by (auto simp: old_turn_def split: option.splits)
    then obtain cutoff q where c: "rp_beforeTurnId state = Some cutoff" "place_in ?order cutoff = Some q" "turn \<in> set (take q ?order)"
      using turns_before_in by blast
    then obtain p where p: "place_in ?order turn = Some p" "p < q" using place_in_take [OF distinct_turnOrder] by blast
    obtain seen where s: "readOf access ?m = Some seen" "pa_text access ?m = Some shown" "rf_start seen \<le> rf_end seen"
        "rf_end seen \<le> length shown" "sha256 (slice (rf_start seen) (rf_end seen) shown) = rf_resultTextSha256 seen"
        "replaced = take (rf_start seen) shown @ renderReadReference stringify seen @ drop (rf_end seen) shown"
        "estimate (renderReadReference stringify seen) < estimate (slice (rf_start seen) (rf_end seen) shown)"
      by (rule reference_parts [OF r])
    let ?b = "take (rf_start seen) shown" and ?p = "slice (rf_start seen) (rf_end seen) shown" and ?a = "drop (rf_end seen) shown"
    have whole: "shown = ?b @ ?p @ ?a" using s(3) by (simp add: slice_def) (metis add_diff_inverse_nat append_take_drop_id drop_drop add.commute not_le)
    have "length ?b = rf_start seen" "length (?b @ ?p) = rf_end seen" using s(3,4) by (simp_all add: slice_def)
    with s whole turn c p v at show ?thesis by metis
  qed (simp add: at)
qed

text \<open>
  C33: The cutoff moves forward only and pays for it. Before a new turn starts the state stays as it is, or its revision
  goes up by one, the cutoff becomes the last turn so far, strictly after the old one, and the saving that was over the
  threshold is exactly what the new view saves rest than the old one.
\<close>

theorem a_moved_cutoff_pays_for_itself:
  assumes fresh: "currentTurnId \<notin> set (turnOrder access ms)"
    and moved: "advanceReadProjection stringify sha256 estimate access ms state currentTurnId thresholdTokens = (state', saving)"
  shows "state' = state
    \<or> (rp_generation state' = rp_generation state \<and> rp_revision state' = rp_revision state + 1
        \<and> turnOrder access ms \<noteq> [] \<and> rp_beforeTurnId state' = Some (last (turnOrder access ms))
        \<and> length (turns_before (turnOrder access ms) (rp_beforeTurnId state))
            < length (turns_before (turnOrder access ms) (rp_beforeTurnId state'))
        \<and> (case thresholdTokens of Some n \<Rightarrow> n | None \<Rightarrow> READ_PROJECTION_MOVE_THRESHOLD_TOKENS) < saving
        \<and> saving = pv_savedTokens (projectReadReferences stringify sha256 estimate access ms state')
                    - pv_savedTokens (projectReadReferences stringify sha256 estimate access ms state))"
proof (cases "state' = state")
  case False
  let ?order = "turnOrder access ms" and ?old = "turns_before (turnOrder access ms) (rp_beforeTurnId state)"
  have order: "filter (\<lambda>turn. turn \<noteq> currentTurnId) ?order = ?order" using fresh by (auto simp: filter_id_conv)
  let ?oldCutoff = "case rp_beforeTurnId state of None \<Rightarrow> 0 | Some t \<Rightarrow> (case place_in ?order t of Some i \<Rightarrow> i | None \<Rightarrow> 0)"
  let ?newCutoff = "length ?order - 1"
  let ?newly = "newly_saved stringify sha256 estimate access ?order ?oldCutoff ?newCutoff"
  have parts: "?order \<noteq> []" "?oldCutoff < ?newCutoff" "saving = sum_list (map ?newly ms)"
      "(case thresholdTokens of Some n \<Rightarrow> n | None \<Rightarrow> READ_PROJECTION_MOVE_THRESHOLD_TOKENS) < saving"
      "state' = \<lparr>rp_generation = rp_generation state, rp_revision = rp_revision state + 1, rp_beforeTurnId = Some (last ?order)\<rparr>"
    using moved False unfolding advanceReadProjection_def Let_def order by (auto split: if_splits)
  have old: "?old = take ?oldCutoff ?order" by (simp add: turns_before_def split: option.split)
  have new: "turns_before ?order (rp_beforeTurnId state') = take ?newCutoff ?order"
    using place_in_last [OF distinct_turnOrder parts(1)] by (simp add: parts(5) turns_before_def)
  have each: "saved_in stringify sha256 estimate access (take ?newCutoff ?order) m
      = saved_in stringify sha256 estimate access (take ?oldCutoff ?order) m + ?newly m" for m
    using parts(2)
    by (auto simp: saved_in_def old_turn_def newly_saved_def place_in_take [OF distinct_turnOrder] split: option.split)
  have "pv_savedTokens (projectReadReferences stringify sha256 estimate access ms state')
      = pv_savedTokens (projectReadReferences stringify sha256 estimate access ms state) + saving"
    unfolding projected_parts new old parts(3) each sum_list_addf ..
  moreover have "length ?old < length (turns_before ?order (rp_beforeTurnId state'))" unfolding new old using parts(2) by simp
  ultimately show ?thesis using parts by simp
qed simp

section \<open>A small history\<close>

text \<open>A message is its turn, its text and, for a read, the value stored with it.\<close>

type_synonym sample_read = "string \<times> string \<times> js_value"

definition sample_access :: "sample_read projection_access" where
  "sample_access =
     \<lparr>pa_identity = (\<lambda>m. JObject [(''messageId'', JString ''m''), (''turnId'', JString (fst m))]),
      pa_read = (\<lambda>m. snd (snd m)), pa_text = (\<lambda>m. Some (fst (snd m))), pa_withText = (\<lambda>m t. (fst m, t, snd (snd m)))\<rparr>"

definition sample_digest :: "string \<Rightarrow> string" where
  "sample_digest s = replicate 64 (if s = [] then CHR ''0'' else hd s)"

definition sample_fact :: js_value where
  "sample_fact =
     JObject [(''version'', JNum (Fin 1)),
       (''source'', JObject [(''kind'', JString ''list''), (''directory'', JString ''src''), (''recursive'', JBool False)]),
       (''rerun'', JObject [(''tool'', JString ''list_dir''), (''args'', JObject [(''path'', JString ''src'')])]),
       (''resultTextSha256'', JString (replicate 64 CHR ''a'')), (''resultCharacters'', JNum (Fin 210)),
       (''excerpt'', JString ''a''), (''truncated'', JBool False),
       (''span'', JObject [(''start'', JNum (Fin 2)), (''end'', JNum (Fin 212))])]"

definition sample_reads :: "sample_read list" where
  "sample_reads = [(''t1'', ''> '' @ replicate 210 CHR ''a'' @ ''<'', sample_fact), (''t2'', ''done'', JUndefined)]"

definition sample_length :: "string \<Rightarrow> int" where
  "sample_length s = int (length s)"

definition sample_moved :: "projection_state" where
  "sample_moved = \<lparr>rp_generation = 0, rp_revision = 1, rp_beforeTurnId = Some ''t2''\<rparr>"

lemma the_view_replaces_old_reads_and_stands_witness:
  "take 2 (pv_messages (projectReadReferences (\<lambda>_. ''{}'') sample_digest sample_length sample_access
       (sample_reads @ [(''t3'', ''more'', JUndefined)]) sample_moved))
     = pv_messages (projectReadReferences (\<lambda>_. ''{}'') sample_digest sample_length sample_access sample_reads sample_moved)
   \<and> map (fst \<circ> snd) (pv_messages (projectReadReferences (\<lambda>_. ''{}'') sample_digest sample_length sample_access sample_reads sample_moved))
     = [''> '' @ READ_REFERENCE_HEADER @ [CHR 0x0A] @ ''{}'' @ ''<'', ''done'']"
proof -
  have known: "\<forall>t. rp_beforeTurnId sample_moved = Some t \<longrightarrow> t \<in> set (turnOrder sample_access sample_reads)"
  proof -
    have "turnOrder sample_access sample_reads = [''t1'', ''t2'']" by code_simp
    then show ?thesis by (simp add: sample_moved_def)
  qed
  have "length sample_reads = 2" by (simp add: sample_reads_def)
  moreover have "map (fst \<circ> snd) (pv_messages (projectReadReferences (\<lambda>_. ''{}'') sample_digest sample_length sample_access sample_reads sample_moved))
     = [''> '' @ READ_REFERENCE_HEADER @ [CHR 0x0A] @ ''{}'' @ ''<'', ''done'']"
    by code_simp
  ultimately show ?thesis
    using the_view_replaces_old_reads_and_stands [OF known, of "\<lambda>_. ''{}''" sample_digest sample_length "[(''t3'', ''more'', JUndefined)]"]
    by argo
qed

lemma a_moved_cutoff_pays_for_itself_witness:
  "pv_savedTokens (projectReadReferences (\<lambda>_. ''{}'') sample_digest sample_length sample_access sample_reads sample_moved) = 10"
proof -
  have fresh: "''t3'' \<notin> set (turnOrder sample_access sample_reads)" by code_simp
  have moved: "advanceReadProjection (\<lambda>_. ''{}'') sample_digest sample_length sample_access sample_reads
      (initialReadProjectionState 0) ''t3'' (Some 5) = (sample_moved, 10)"
    by code_simp
  have "sample_moved \<noteq> initialReadProjectionState 0"
    "pv_savedTokens (projectReadReferences (\<lambda>_. ''{}'') sample_digest sample_length sample_access sample_reads (initialReadProjectionState 0)) = 0"
    by code_simp+
  with a_moved_cutoff_pays_for_itself [OF fresh moved] show ?thesis by auto
qed

end
