(* ===== verification/CompactionGate.thy ===== *)
theory CompactionGate
  imports Prelude
begin

text \<open>
  The gate before a turn that keeps an agent's request below its trigger
  (\<open>src/src/compaction/ContextCompactionCoordinator.ts\<close>, with the usage sink of \<open>CompactionUsage.ts\<close>): one
  compaction per agent at a time, background summaries that are prepared beside a turn and applied at a later boundary,
  and what is remembered of a failure.

  An \<open>await\<close> ends a step: a call waits its turn, begins, and then returns, joins a summary that is being prepared or
  waits for a compaction. What the backend and the host answer (projections, policy, captures, commits) are arguments
  of the step that asks. What the coordinator does to others is an effect.
\<close>

section \<open>Projections, policies and results\<close>

datatype projection_basis = ReportedPlusDelta | HostEstimated

record projected_request =
  pj_tokens :: int
  pj_basis :: projection_basis
  pj_window :: "int option"
  pj_windowSource :: "string option"
  pj_admissibleTokens :: "int option"
  pj_readProjectionMoves :: bool

datatype context_projection =
    Projected projected_request
  | NotProjected "int option" "string option"

datatype compaction_mode = SmartMode | CustomMode | OffMode

datatype trigger_term = WindowShare | PracticalCeiling | RouteEvidenceCap

record resolved_policy =
  sp_mode :: compaction_mode
  sp_profile :: "string option"
  sp_resolutionSource :: "string option"
  sp_revision :: string
  sp_windowPercent :: int
  sp_ceilingTokens :: int
  sp_recentTailTokens :: int
  sp_postCompactTargetTokens :: int
  sp_routeEvidenceCapTokens :: "int option"
  sp_activeTriggerTokens :: "int option"
  sp_winningTerm :: "trigger_term option"

datatype policy_resolution = PolicyResolved resolved_policy | PolicyUnavailable string

record compacted_context =
  cx_hostHistory :: bool
  cx_droppedMessages :: "nat option"
  cx_carriedForward :: "(string \<times> nat) list option"
  cx_keptTokens :: "int option"
  cx_summary :: "string option"
  cx_after :: context_projection

datatype compaction_result = Compacted compacted_context | CompactionSkipped string | CompactionFailed string string

section \<open>Usage of one operation\<close>

datatype usage_coverage = Reported | ReportedPartial | Reconstructed | CoverageGap

record turn_usage =
  tu_inputTokens :: js_num
  tu_outputTokens :: js_num
  tu_cachedInputTokens :: "js_num option"
  tu_estimated :: bool
  tu_usageBasis :: "usage_coverage option"

record usage_sink =
  us_operationId :: string
  us_requestId :: string
  us_agentId :: string
  us_started :: "string list"
  us_settled :: "(string, usage_coverage) jsmap"
  us_reported :: "(rat \<times> rat) option"

datatype spend_call =
    BeginUsageUnit string string string string
  | NoteModelRequest string
  | SettleUsageUnit string "turn_usage option"

definition new_sink :: "string \<Rightarrow> string \<Rightarrow> string \<Rightarrow> usage_sink" where
  "new_sink operationId requestId agentId =
     \<lparr>us_operationId = operationId, us_requestId = requestId, us_agentId = agentId, us_started = [], us_settled = [], us_reported = None\<rparr>"

definition turnUsageBasis :: "turn_usage \<Rightarrow> usage_coverage" where
  "turnUsageBasis u = (case tu_usageBasis u of Some b \<Rightarrow> b | None \<Rightarrow> if tu_estimated u then Reconstructed else Reported)"

definition usage_count :: "js_num \<Rightarrow> bool" where
  "usage_count n \<longleftrightarrow> (case n of Fin q \<Rightarrow> 0 \<le> q | _ \<Rightarrow> False)"

definition validUsage :: "turn_usage \<Rightarrow> bool" where
  "validUsage u \<longleftrightarrow> usage_count (tu_inputTokens u) \<and> usage_count (tu_outputTokens u)
     \<and> (case tu_cachedInputTokens u of None \<Rightarrow> True | Some n \<Rightarrow> usage_count n)"

definition finite_part :: "js_num \<Rightarrow> rat" where
  "finite_part n = (case n of Fin q \<Rightarrow> q | _ \<Rightarrow> 0)"

definition requestStarted :: "string \<Rightarrow> usage_sink \<Rightarrow> usage_sink \<times> spend_call list" where
  "requestStarted modelId u =
     (let unit_id = ''compact:'' @ us_operationId u @ '':'' @ show_big (int (length (us_started u)) + 1) in
      (u\<lparr>us_started := us_started u @ [unit_id]\<rparr>,
       [BeginUsageUnit unit_id (us_requestId u) (us_agentId u) modelId, NoteModelRequest unit_id]))"

definition requestSettled :: "string \<Rightarrow> turn_usage option \<Rightarrow> usage_sink \<Rightarrow> usage_sink \<times> spend_call list" where
  "requestSettled unit_id usage u =
     (if unit_id \<notin> set (us_started u) \<or> js_has (us_settled u) unit_id then (u, [])
      else
        let valid = (case usage of Some x \<Rightarrow> if validUsage x then Some x else None | None \<Rightarrow> None) in
        (u\<lparr>us_settled := js_set unit_id (case valid of Some x \<Rightarrow> turnUsageBasis x | None \<Rightarrow> CoverageGap) (us_settled u),
            us_reported := (case valid of
                None \<Rightarrow> us_reported u
              | Some x \<Rightarrow>
                  (case us_reported u of
                     Some (i, out) \<Rightarrow> Some (i + finite_part (tu_inputTokens x), out + finite_part (tu_outputTokens x))
                   | None \<Rightarrow> Some (finite_part (tu_inputTokens x), finite_part (tu_outputTokens x))))\<rparr>,
         [SettleUsageUnit unit_id valid]))"

definition COVERAGE_RANK :: "usage_coverage \<Rightarrow> nat" where
  "COVERAGE_RANK c = (case c of Reported \<Rightarrow> 0 | ReportedPartial \<Rightarrow> 1 | Reconstructed \<Rightarrow> 2 | CoverageGap \<Rightarrow> 3)"

definition sink_coverage :: "usage_sink \<Rightarrow> usage_coverage option" where
  "sink_coverage u =
     (if us_started u = [] then None
      else Some (foldl (\<lambda>worst unit_id.
        let c = (case js_get (us_settled u) unit_id of Some c \<Rightarrow> c | None \<Rightarrow> CoverageGap) in
        if COVERAGE_RANK worst < COVERAGE_RANK c then c else worst) Reported (us_started u)))"

text \<open>\<open>summaryCompletionUsage\<close>: usage of one summary response.\<close>

definition summaryCompletionUsage :: "js_value \<Rightarrow> turn_usage option" where
  "summaryCompletionUsage body =
     (case body of
        JObject ms \<Rightarrow>
          (case member_of ms ''usage'' of
             JObject us \<Rightarrow>
               (case (member_of us ''prompt_tokens'', member_of us ''completion_tokens'') of
                  (JNum (Fin i), JNum (Fin out)) \<Rightarrow>
                    let details = (case member_of us ''prompt_tokens_details'' of JObject ds \<Rightarrow> member_of ds ''cached_tokens'' | _ \<Rightarrow> JUndefined);
                        cached = (case details of
                            JNum n \<Rightarrow> Some n
                          | _ \<Rightarrow> (case member_of us ''prompt_cache_hit_tokens'' of JNum n \<Rightarrow> Some n | _ \<Rightarrow> None))
                    in Some \<lparr>tu_inputTokens = Fin i, tu_outputTokens = Fin out,
                         tu_cachedInputTokens = map_option (\<lambda>n. case n of
                             Fin q \<Rightarrow> Fin (min q i) | PosInf \<Rightarrow> Fin i | NegInf \<Rightarrow> NegInf | NaN \<Rightarrow> NaN) cached,
                         tu_estimated = False, tu_usageBasis = Some Reported\<rparr>
                | _ \<Rightarrow> None)
           | _ \<Rightarrow> None)
      | _ \<Rightarrow> None)"

section \<open>Receipts and outcomes\<close>

record compaction_receipt =
  rc_id :: string
  rc_agentId :: string
  rc_policy :: resolved_policy
  rc_trigger :: "trigger_term option"
  rc_hostHistory :: bool
  rc_before :: context_projection
  rc_after :: context_projection
  rc_replacedMessages :: "nat option"
  rc_carriedForward :: "(string \<times> nat) list option"
  rc_keptTokens :: "int option"
  rc_summary :: "string option"
  rc_usageUnitIds :: "string list"
  rc_coverage :: usage_coverage
  rc_createdAt :: int

datatype compaction_outcome =
    NotNeeded string
  | GateUnavailable string
  | Suppressed
  | GateSkipped string
  | GateFailed string string
  | GateCompacted compaction_receipt

definition receiptFor ::
    "string \<Rightarrow> string \<Rightarrow> resolved_policy \<Rightarrow> bool \<Rightarrow> context_projection \<Rightarrow> compacted_context \<Rightarrow> usage_sink \<Rightarrow> int \<Rightarrow> compaction_receipt" where
  "receiptFor operationId agentId policy manual before result usage now =
     \<lparr>rc_id = operationId, rc_agentId = agentId, rc_policy = policy,
      rc_trigger = (if manual then None else sp_winningTerm policy),
      rc_hostHistory = cx_hostHistory result, rc_before = before, rc_after = cx_after result,
      rc_replacedMessages = cx_droppedMessages result, rc_carriedForward = cx_carriedForward result,
      rc_keptTokens = cx_keptTokens result, rc_summary = cx_summary result, rc_usageUnitIds = us_started usage,
      rc_coverage = (case sink_coverage usage of Some c \<Rightarrow> c | None \<Rightarrow> Reported), rc_createdAt = now\<rparr>"

section \<open>The coordinator\<close>

record gate_input =
  gi_agentId :: string
  gi_control :: nat
  gi_canCapture :: bool
  gi_route :: "(string \<times> string) option"
  gi_requestId :: string
  gi_automatic :: bool

datatype job_state = JobCaptured | JobPreparing | JobReady | JobFailed | JobCancelled

record background_job =
  bj_agentId :: string
  bj_operationId :: string
  bj_control :: nat
  bj_routeKey :: string
  bj_policy :: resolved_policy
  bj_estimatedInputTokens :: int
  bj_usage :: usage_sink
  bj_state :: job_state
  bj_startedAt :: "int option"
  bj_timedOut :: bool
  bj_aborted :: bool
  bj_settled :: bool

record running_compaction =
  fc_operationId :: string
  fc_policy :: resolved_policy
  fc_routeKey :: string
  fc_before :: context_projection
  fc_usage :: usage_sink

text \<open>
  Calls are numbered in the order they are made. A call keeps the number of the call whose promise it found in
  \<open>inFlight\<close> and waits for; \<open>gc_settled\<close> says its own promise, the marker the next call waits for, has
  settled. Where a call is: it waits its turn, joins a job, waits for a compaction, or has its decision.\<close>

datatype call_phase =
    Queued
  | Joining "compaction_outcome list" nat context_projection
  | Compacting "compaction_outcome list" running_compaction
  | Decided "compaction_outcome list" "nat option"

record compaction_call =
  gc_input :: gate_input
  gc_gated :: bool
  gc_previous :: "nat option"
  gc_phase :: call_phase
  gc_settled :: bool

record coordinator =
  co_calls :: "compaction_call list"
  co_jobs :: "background_job list"
  co_background :: "(string, nat) jsmap"
  co_lastFailure :: "(string, string \<times> string) jsmap"
  co_inFlight :: "(string, nat) jsmap"

definition new_coordinator :: coordinator where
  "new_coordinator = \<lparr>co_calls = [], co_jobs = [], co_background = [], co_lastFailure = [], co_inFlight = []\<rparr>"

record background_event =
  be_agentId :: string
  be_operationId :: string
  be_state :: string
  be_elapsedMs :: int
  be_estimatedInputTokens :: int
  be_summaryRequests :: nat
  be_reported :: "(rat \<times> rat) option"
  be_coverage :: "usage_coverage option"
  be_failureReason :: "string option"
  be_outcome :: "compaction_outcome option"

datatype compaction_effect =
    BackgroundEvent background_event
  | PrepareCalled nat
  | CommitCalled nat nat
  | CompactCalled nat running_compaction
  | JobAborted nat
  | SpendCalled spend_call

definition TIMEOUT_DETAIL :: string where
  "TIMEOUT_DETAIL = ''It did not finish within 180 seconds.''"

definition STOPPED_DETAIL :: string where
  "STOPPED_DETAIL = ''The turn was stopped before compaction finished.''"

definition background_event_of ::
    "background_job \<Rightarrow> string \<Rightarrow> compaction_outcome option \<Rightarrow> string option \<Rightarrow> int \<Rightarrow> compaction_effect" where
  "background_event_of job what outcome reason now =
     BackgroundEvent
       \<lparr>be_agentId = bj_agentId job, be_operationId = bj_operationId job, be_state = what,
        be_elapsedMs = (case bj_startedAt job of None \<Rightarrow> 0 | Some t \<Rightarrow> max 0 (now - t)),
        be_estimatedInputTokens = bj_estimatedInputTokens job,
        be_summaryRequests = length (us_started (bj_usage job)),
        be_reported = us_reported (bj_usage job), be_coverage = sink_coverage (bj_usage job),
        be_failureReason = (case reason of Some r \<Rightarrow> Some r
          | None \<Rightarrow> (case outcome of Some (GateFailed r _) \<Rightarrow> Some r | _ \<Rightarrow> None)),
        be_outcome = outcome\<rparr>"

definition routeKeyOf :: "(string \<times> string) option \<Rightarrow> string" where
  "routeKeyOf route = (case route of None \<Rightarrow> [] | Some (connectionId, modelId) \<Rightarrow> connectionId @ [CHR 0x00] @ js_lower (js_trim modelId))"

definition set_job :: "nat \<Rightarrow> background_job \<Rightarrow> coordinator \<Rightarrow> coordinator" where
  "set_job j job co = co\<lparr>co_jobs := (co_jobs co)[j := job]\<rparr>"

definition set_phase :: "nat \<Rightarrow> call_phase \<Rightarrow> coordinator \<Rightarrow> coordinator" where
  "set_phase i phase co = co\<lparr>co_calls := (co_calls co)[i := (co_calls co ! i)\<lparr>gc_phase := phase\<rparr>]\<rparr>"

definition is_current :: "coordinator \<Rightarrow> nat \<Rightarrow> bool" where
  "is_current co j \<longleftrightarrow> js_get (co_background co) (bj_agentId (co_jobs co ! j)) = Some j"

definition cancelBackground :: "string \<Rightarrow> int \<Rightarrow> coordinator \<Rightarrow> coordinator \<times> compaction_effect list" where
  "cancelBackground agentId now co =
     (case js_get (co_background co) agentId of
        None \<Rightarrow> (co, [])
      | Some j \<Rightarrow>
          let job = (co_jobs co ! j)\<lparr>bj_state := JobCancelled, bj_aborted := True\<rparr> in
          ((set_job j job co)\<lparr>co_background := js_delete agentId (co_background co)\<rparr>,
           [JobAborted j, background_event_of job ''cancelled'' None None now]))"

definition dispose_all :: "int \<Rightarrow> coordinator \<Rightarrow> coordinator \<times> compaction_effect list" where
  "dispose_all now co =
     foldl (\<lambda>(co, es) agentId. let r = cancelBackground agentId now co in (fst r, es @ snd r)) (co, []) (js_keys (co_background co))"

definition backgroundState :: "string \<Rightarrow> coordinator \<Rightarrow> string option" where
  "backgroundState agentId co =
     (case js_get (co_background co) agentId of
        None \<Rightarrow> None
      | Some j \<Rightarrow> (case bj_state (co_jobs co ! j) of
            JobCaptured \<Rightarrow> Some ''preparing'' | JobPreparing \<Rightarrow> Some ''preparing'' | JobReady \<Rightarrow> Some ''ready'' | _ \<Rightarrow> None))"

definition startJob :: "nat \<Rightarrow> int \<Rightarrow> coordinator \<Rightarrow> coordinator \<times> compaction_effect list" where
  "startJob j now co =
     (let job = co_jobs co ! j in
      if bj_state job \<noteq> JobCaptured \<or> \<not> is_current co j then (co, [])
      else (set_job j (job\<lparr>bj_state := JobPreparing, bj_startedAt := Some now\<rparr>) co, [PrepareCalled j]))"

text \<open>The timer of a job that is being prepared.\<close>

definition job_timer :: "nat \<Rightarrow> coordinator \<Rightarrow> coordinator \<times> compaction_effect list" where
  "job_timer j co =
     (let job = co_jobs co ! j in
      if bj_state job \<noteq> JobPreparing then (co, [])
      else (set_job j (job\<lparr>bj_timedOut := True, bj_aborted := True\<rparr>) co, [JobAborted j]))"

text \<open>\<open>settle\<close>: the end of preparing, \<open>None\<close> when it succeeded, else the reason and detail of the failure.\<close>

definition settle_job :: "nat \<Rightarrow> (string \<times> string) option \<Rightarrow> int \<Rightarrow> coordinator \<Rightarrow> coordinator \<times> compaction_effect list" where
  "settle_job j failure now co =
     (let job = (co_jobs co ! j)\<lparr>bj_settled := True\<rparr> in
      if bj_state job = JobCancelled \<or> \<not> is_current co j then (set_job j job co, [])
      else if failure = None \<and> \<not> bj_aborted job then
        (set_job j (job\<lparr>bj_state := JobReady\<rparr>) co, [background_event_of job ''prepared'' None None now])
      else
        let outcome = (case failure of
            Some (reason, detail) \<Rightarrow> if bj_timedOut job then GateFailed ''timeout'' TIMEOUT_DETAIL else GateFailed reason detail
          | None \<Rightarrow> GateFailed ''timeout'' TIMEOUT_DETAIL)
        in ((set_job j (job\<lparr>bj_state := JobFailed\<rparr>) co)
              \<lparr>co_background := js_delete (bj_agentId job) (co_background co),
               co_lastFailure := js_set (bj_agentId job) (bj_routeKey job, sp_revision (bj_policy job)) (co_lastFailure co)\<rparr>,
            [background_event_of job ''failed'' (Some outcome) None now]))"
subsection \<open>The foreground compaction\<close>

record run_answers =
  ra_admitted :: bool
  ra_before :: context_projection
  ra_resolve :: "(int \<times> string) option \<Rightarrow> (string \<times> string) option \<Rightarrow> policy_resolution"
  ra_operationId :: string

definition window_of :: "context_projection \<Rightarrow> (int \<times> string) option" where
  "window_of before =
     (let named = (\<lambda>w source. map_option (\<lambda>n. (n, case source of Some s \<Rightarrow> s | None \<Rightarrow> ''assumed'')) w) in
      case before of Projected p \<Rightarrow> named (pj_window p) (pj_windowSource p) | NotProjected w source \<Rightarrow> named w source)"

definition exceedsWindow :: "projected_request \<Rightarrow> bool" where
  "exceedsWindow p \<longleftrightarrow> (case pj_window p of Some w \<Rightarrow> w < pj_tokens p | None \<Rightarrow> False)"

text \<open>A failure for this route and policy, while the request fits the window.\<close>

definition failed_before :: "coordinator \<Rightarrow> gate_input \<Rightarrow> resolved_policy \<Rightarrow> projected_request \<Rightarrow> bool" where
  "failed_before co inp policy p \<longleftrightarrow>
     js_get (co_lastFailure co) (gi_agentId inp) = Some (routeKeyOf (gi_route inp), sp_revision policy) \<and> \<not> exceedsWindow p"

definition run_begins :: "run_answers \<Rightarrow> gate_input \<Rightarrow> coordinator \<Rightarrow> compaction_outcome + running_compaction" where
  "run_begins ans inp co =
     (if \<not> ra_admitted ans then Inl (NotNeeded ''route-not-admitted'')
      else case ra_resolve ans (window_of (ra_before ans)) (gi_route inp) of
        PolicyUnavailable reason \<Rightarrow> Inl (GateUnavailable reason)
      | PolicyResolved policy \<Rightarrow>
          let start = Inr \<lparr>fc_operationId = ra_operationId ans, fc_policy = policy, fc_routeKey = routeKeyOf (gi_route inp),
                fc_before = ra_before ans, fc_usage = new_sink (ra_operationId ans) (gi_requestId inp) (gi_agentId inp)\<rparr>
          in if \<not> gi_automatic inp then start
             else if sp_mode policy = OffMode then Inl (NotNeeded ''off'')
             else case sp_activeTriggerTokens policy of
               None \<Rightarrow> Inl (NotNeeded ''off'')
             | Some trigger \<Rightarrow>
                 (case ra_before ans of
                    NotProjected _ _ \<Rightarrow> Inl (NotNeeded ''projection-unavailable'')
                  | Projected p \<Rightarrow>
                      if pj_tokens p < trigger then Inl (NotNeeded ''below-trigger'')
                      else if failed_before co inp policy p then Inl Suppressed
                      else start))"

definition run_ends :: "gate_input \<Rightarrow> running_compaction \<Rightarrow> bool \<Rightarrow> compaction_result \<Rightarrow> int \<Rightarrow> coordinator \<Rightarrow> compaction_outcome \<times> coordinator" where
  "run_ends inp fc stopped result now co =
     (case result of
        Compacted c \<Rightarrow>
          (GateCompacted (receiptFor (fc_operationId fc) (gi_agentId inp) (fc_policy fc) (\<not> gi_automatic inp) (fc_before fc) c (fc_usage fc) now),
           co\<lparr>co_lastFailure := js_delete (gi_agentId inp) (co_lastFailure co)\<rparr>)
      | CompactionSkipped reason \<Rightarrow>
          if stopped then (GateFailed ''stopped'' STOPPED_DETAIL, co) else (GateSkipped reason, co)
      | CompactionFailed reason detail \<Rightarrow>
          if stopped then (GateFailed ''stopped'' STOPPED_DETAIL, co)
          else (GateFailed reason detail,
            if gi_automatic inp \<and> (case fc_before fc of Projected _ \<Rightarrow> True | NotProjected _ _ \<Rightarrow> False)
            then co\<lparr>co_lastFailure := js_set (gi_agentId inp) (fc_routeKey fc, sp_revision (fc_policy fc)) (co_lastFailure co)\<rparr>
            else co))"

text \<open>A call goes on to the foreground compaction after what it already has.\<close>

definition goes_on :: "nat \<Rightarrow> compaction_outcome list \<Rightarrow> run_answers \<Rightarrow> gate_input \<Rightarrow> coordinator \<Rightarrow> coordinator \<times> compaction_effect list" where
  "goes_on i outs ans inp co =
     (case run_begins ans inp co of
        Inl out \<Rightarrow> (set_phase i (Decided (outs @ [out]) None) co, [])
      | Inr fc \<Rightarrow> (set_phase i (Compacting outs fc) co, [CompactCalled i fc]))"

subsection \<open>The gate\<close>

datatype capture_answer = Captured int | CaptureSkipped string | CaptureFailed string string

record gate_answers = run_answers +
  ga_commit :: compaction_result
  ga_after :: context_projection
  ga_capture :: capture_answer
  ga_run :: run_answers
  ga_now :: int

text \<open>\<open>commitJob\<close>: the summary leaves the background whatever comes of it.\<close>

definition commitJob ::
    "nat \<Rightarrow> nat \<Rightarrow> context_projection \<Rightarrow> compaction_result \<Rightarrow> int \<Rightarrow> coordinator \<Rightarrow> compaction_outcome option \<times> coordinator \<times> compaction_effect list" where
  "commitJob i j before result now co =
     (let job = co_jobs co ! j; co' = co\<lparr>co_background := js_delete (bj_agentId job) (co_background co)\<rparr>;
          ended = (\<lambda>reason. (None, co', [CommitCalled i j,
            background_event_of job (if reason = ''stale'' then ''stale'' else ''not-applied'') None (Some reason) now]))
      in case result of
        Compacted c \<Rightarrow>
          (Some (GateCompacted (receiptFor (bj_operationId job) (bj_agentId job) (bj_policy job) False before c (bj_usage job) now)),
           co'\<lparr>co_lastFailure := js_delete (bj_agentId job) (co_lastFailure co')\<rparr>,
           [CommitCalled i j, background_event_of job ''applied'' None None now])
      | CompactionSkipped reason \<Rightarrow> ended reason
      | CompactionFailed reason _ \<Rightarrow> ended reason)"

definition captureJob ::
    "nat \<Rightarrow> compaction_outcome list \<Rightarrow> gate_answers \<Rightarrow> gate_input \<Rightarrow> resolved_policy \<Rightarrow> coordinator \<Rightarrow> coordinator" where
  "captureJob i outs ans inp policy co =
     (case ga_capture ans of
        CaptureSkipped reason \<Rightarrow> set_phase i (Decided (outs @ [GateSkipped reason]) None) co
      | CaptureFailed reason detail \<Rightarrow>
          set_phase i (Decided (outs @ [GateFailed reason detail]) None)
            (co\<lparr>co_lastFailure := js_set (gi_agentId inp) (routeKeyOf (gi_route inp), sp_revision policy) (co_lastFailure co)\<rparr>)
      | Captured estimated \<Rightarrow>
          let j = length (co_jobs co);
              job = \<lparr>bj_agentId = gi_agentId inp, bj_operationId = ra_operationId ans, bj_control = gi_control inp,
                bj_routeKey = routeKeyOf (gi_route inp), bj_policy = policy, bj_estimatedInputTokens = estimated,
                bj_usage = new_sink (ra_operationId ans) (gi_requestId inp) (gi_agentId inp), bj_state = JobCaptured,
                bj_startedAt = None, bj_timedOut = False, bj_aborted = False, bj_settled = False\<rparr>
          in set_phase i (Decided outs (Some j))
               (co\<lparr>co_jobs := co_jobs co @ [job], co_background := js_set (gi_agentId inp) j (co_background co)\<rparr>))"

text \<open>A job prepared for another backend, route or policy can never apply here.\<close>

definition drop_foreign ::
    "gate_input \<Rightarrow> resolved_policy \<Rightarrow> int \<Rightarrow> coordinator \<Rightarrow> nat option \<times> coordinator \<times> compaction_effect list" where
  "drop_foreign inp policy now co =
     (case js_get (co_background co) (gi_agentId inp) of
        None \<Rightarrow> (None, co, [])
      | Some j \<Rightarrow>
          let job = co_jobs co ! j in
          if bj_control job \<noteq> gi_control inp \<or> bj_routeKey job \<noteq> routeKeyOf (gi_route inp)
             \<or> sp_revision (bj_policy job) \<noteq> sp_revision policy
          then (None, cancelBackground (gi_agentId inp) now co)
          else (Some j, co, []))"

definition trigger_of :: "resolved_policy \<Rightarrow> int option" where
  "trigger_of policy = (if sp_mode policy = OffMode then None else sp_activeTriggerTokens policy)"

definition is_due :: "int option \<Rightarrow> context_projection \<Rightarrow> bool" where
  "is_due trigger before \<longleftrightarrow> (case (trigger, before) of (Some t, Projected p) \<Rightarrow> t \<le> pj_tokens p | _ \<Rightarrow> False)"

definition prefix_moves :: "context_projection \<Rightarrow> bool" where
  "prefix_moves before \<longleftrightarrow> (case before of Projected p \<Rightarrow> pj_readProjectionMoves p | NotProjected _ _ \<Rightarrow> False)"

definition request_fits :: "projected_request \<Rightarrow> bool" where
  "request_fits p \<longleftrightarrow> (case pj_admissibleTokens p of Some n \<Rightarrow> pj_tokens p \<le> n | None \<Rightarrow> False)"

text \<open>The gate after what was ready is applied: \<open>job\<close> is the summary still there, \<open>discarded\<close> says one just was.\<close>

definition gate_decides ::
    "nat \<Rightarrow> gate_answers \<Rightarrow> gate_input \<Rightarrow> resolved_policy \<Rightarrow> compaction_outcome list \<Rightarrow> context_projection \<Rightarrow> nat option \<Rightarrow> bool
       \<Rightarrow> coordinator \<Rightarrow> coordinator \<times> compaction_effect list" where
  "gate_decides i ans inp policy outs before job discarded co =
     (let ends = (\<lambda>more. (set_phase i (Decided (outs @ more) None) co, [])) in
      case trigger_of policy of
        None \<Rightarrow> ends [NotNeeded ''off'']
      | Some trigger \<Rightarrow>
          (case before of
             NotProjected _ _ \<Rightarrow> ends [NotNeeded ''projection-unavailable'']
           | Projected p \<Rightarrow>
               if pj_tokens p < trigger then ends [NotNeeded ''below-trigger'']
               else if failed_before co inp policy p then ends [Suppressed]
               else if request_fits p then
                 (if job \<noteq> None \<or> discarded then ends [] else (captureJob i outs ans inp policy co, []))
               else (case job of
                   Some j \<Rightarrow>
                     let r = startJob j (ga_now ans) co in (set_phase i (Joining outs j before) (fst r), snd r)
                 | None \<Rightarrow> goes_on i outs (ga_run ans) inp co)))"

definition gate_begins :: "nat \<Rightarrow> gate_answers \<Rightarrow> coordinator \<Rightarrow> coordinator \<times> compaction_effect list" where
  "gate_begins i ans co =
     (let inp = gc_input (co_calls co ! i) in
      if \<not> ra_admitted ans then (set_phase i (Decided [NotNeeded ''route-not-admitted''] None) co, [])
      else case ra_resolve ans (window_of (ra_before ans)) (gi_route inp) of
        PolicyUnavailable reason \<Rightarrow> (set_phase i (Decided [GateUnavailable reason] None) co, [])
      | PolicyResolved policy \<Rightarrow>
          (case drop_foreign inp policy (ga_now ans) co of
             (Some j, co1, es1) \<Rightarrow>
               if bj_state (co_jobs co1 ! j) = JobReady
                  \<and> (is_due (trigger_of policy) (ra_before ans) \<or> prefix_moves (ra_before ans))
               then (case commitJob i j (ra_before ans) (ga_commit ans) (ga_now ans) co1 of
                   (Some out, co2, es2) \<Rightarrow>
                     let r = gate_decides i ans inp policy [out] (ga_after ans) None False co2 in (fst r, es1 @ es2 @ snd r)
                 | (None, co2, es2) \<Rightarrow>
                     let r = gate_decides i ans inp policy [] (ra_before ans) None True co2 in (fst r, es1 @ es2 @ snd r))
               else let r = gate_decides i ans inp policy [] (ra_before ans) (Some j) False co1 in (fst r, es1 @ snd r)
           | (None, co1, es1) \<Rightarrow>
               let r = gate_decides i ans inp policy [] (ra_before ans) None False co1 in (fst r, es1 @ snd r)))"

text \<open>A call that joined a summary goes on once it settled or the turn was stopped.\<close>

definition join_ends :: "nat \<Rightarrow> bool \<Rightarrow> gate_answers \<Rightarrow> coordinator \<Rightarrow> coordinator \<times> compaction_effect list" where
  "join_ends i stopped ans co =
     (case gc_phase (co_calls co ! i) of
        Joining outs j before \<Rightarrow>
          if stopped then (set_phase i (Decided (outs @ [GateFailed ''stopped'' STOPPED_DETAIL]) None) co, [])
          else if \<not> bj_settled (co_jobs co ! j) then (co, [])
          else if bj_state (co_jobs co ! j) = JobReady then
            (case commitJob i j before (ga_commit ans) (ga_now ans) co of
               (Some out, co2, es) \<Rightarrow> (set_phase i (Decided (outs @ [out]) None) co2, es)
             | (None, co2, es) \<Rightarrow> let r = goes_on i outs (ga_run ans) (gc_input (co_calls co ! i)) co2 in (fst r, es @ snd r))
          else (set_phase i (Decided outs None) co, [])
      | _ \<Rightarrow> (co, []))"

section \<open>Everything that happens to a coordinator\<close>

datatype usage_op = StartRequest string | SettleRequest string "turn_usage option"

definition use_sink :: "usage_op \<Rightarrow> usage_sink \<Rightarrow> usage_sink \<times> spend_call list" where
  "use_sink what u = (case what of StartRequest modelId \<Rightarrow> requestStarted modelId u | SettleRequest unit_id usage \<Rightarrow> requestSettled unit_id usage u)"

datatype coordinator_op =
    GateCalled gate_input
  | RunCalled gate_input
  | Begins nat gate_answers
  | JoinEnds nat bool gate_answers
  | CompactEnds nat bool compaction_result int
  | StartJob nat int
  | JobTimer nat
  | PrepareEnds nat "(string \<times> string) option" int
  | CancelBackground string int
  | Dispose int
  | JobUsage nat usage_op
  | CallUsage nat usage_op
  | MarkerSettles nat

definition is_decided :: "compaction_call \<Rightarrow> bool" where
  "is_decided c \<longleftrightarrow> (case gc_phase c of Decided _ _ \<Rightarrow> True | _ \<Rightarrow> False)"

text \<open>A call begins when it still waits and the promise it found in flight, if any, has settled.\<close>

definition turn_come :: "coordinator \<Rightarrow> compaction_call \<Rightarrow> bool" where
  "turn_come co c \<longleftrightarrow> (case gc_previous c of None \<Rightarrow> True | Some p \<Rightarrow> gc_settled (co_calls co ! p))"

definition may_begin :: "coordinator \<Rightarrow> nat \<Rightarrow> bool" where
  "may_begin co i \<longleftrightarrow> i < length (co_calls co) \<and> gc_phase (co_calls co ! i) = Queued \<and> turn_come co (co_calls co ! i)"

definition new_call :: "gate_input \<Rightarrow> bool \<Rightarrow> coordinator \<Rightarrow> coordinator" where
  "new_call inp gated co =
     (let previous = js_get (co_inFlight co) (gi_agentId inp); marker = length (co_calls co) in
      co\<lparr>co_calls := co_calls co @ [\<lparr>gc_input = inp, gc_gated = gated, gc_previous = previous, gc_phase = Queued, gc_settled = False\<rparr>],
         co_inFlight := js_set (gi_agentId inp) marker (co_inFlight co)\<rparr>)"

text \<open>\<open>finally\<close>: the marker of a call that has its decision settles, and leaves the map unless a later call replaced it.\<close>

definition marker_settles :: "nat \<Rightarrow> coordinator \<Rightarrow> coordinator" where
  "marker_settles i co =
     (if i < length (co_calls co) \<and> is_decided (co_calls co ! i) \<and> \<not> gc_settled (co_calls co ! i) then
        let agentId = gi_agentId (gc_input (co_calls co ! i)) in
        co\<lparr>co_calls := (co_calls co)[i := (co_calls co ! i)\<lparr>gc_settled := True\<rparr>],
           co_inFlight := (if js_get (co_inFlight co) agentId = Some i then js_delete agentId (co_inFlight co) else co_inFlight co)\<rparr>
      else co)"

definition coordinator_step :: "coordinator \<Rightarrow> coordinator_op \<Rightarrow> coordinator \<times> compaction_effect list" where
  "coordinator_step co what =
     (case what of
        GateCalled inp \<Rightarrow> (new_call inp (gi_automatic inp \<and> gi_canCapture inp) co, [])
      | RunCalled inp \<Rightarrow> (new_call inp False co, [])
      | Begins i ans \<Rightarrow>
          if \<not> may_begin co i then (co, [])
          else if gc_gated (co_calls co ! i) then gate_begins i ans co
          else goes_on i [] (ga_run ans) (gc_input (co_calls co ! i)) co
      | JoinEnds i stopped ans \<Rightarrow> if i < length (co_calls co) then join_ends i stopped ans co else (co, [])
      | CompactEnds i stopped result now \<Rightarrow>
          if i < length (co_calls co) then
            (case gc_phase (co_calls co ! i) of
               Compacting outs fc \<Rightarrow>
                 let (out, co') = run_ends (gc_input (co_calls co ! i)) fc stopped result now co in
                 (set_phase i (Decided (outs @ [out]) None) co', [])
             | _ \<Rightarrow> (co, []))
          else (co, [])
      | StartJob j now \<Rightarrow> if j < length (co_jobs co) then startJob j now co else (co, [])
      | JobTimer j \<Rightarrow> if j < length (co_jobs co) then job_timer j co else (co, [])
      | PrepareEnds j failure now \<Rightarrow>
          if j < length (co_jobs co) \<and> bj_startedAt (co_jobs co ! j) \<noteq> None \<and> \<not> bj_settled (co_jobs co ! j)
          then settle_job j failure now co else (co, [])
      | CancelBackground agentId now \<Rightarrow> cancelBackground agentId now co
      | Dispose now \<Rightarrow> dispose_all now co
      | JobUsage j u \<Rightarrow>
          if j < length (co_jobs co) then
            let r = use_sink u (bj_usage (co_jobs co ! j)) in
            (set_job j ((co_jobs co ! j)\<lparr>bj_usage := fst r\<rparr>) co, map SpendCalled (snd r))
          else (co, [])
      | CallUsage i u \<Rightarrow>
          if i < length (co_calls co) then
            (case gc_phase (co_calls co ! i) of
               Compacting outs fc \<Rightarrow>
                 let r = use_sink u (fc_usage fc) in
                 (set_phase i (Compacting outs (fc\<lparr>fc_usage := fst r\<rparr>)) co, map SpendCalled (snd r))
             | _ \<Rightarrow> (co, []))
          else (co, [])
      | MarkerSettles i \<Rightarrow> (marker_settles i co, []))"

text \<open>\<open>meterPolicy\<close>: what the ring beside the message box fills toward.\<close>

datatype meter_compaction = MeterUnavailable | MeterOff | MeterAutomatic int bool

definition meterPolicy ::
    "bool \<Rightarrow> ((int \<times> string) option \<Rightarrow> (string \<times> string) option \<Rightarrow> policy_resolution) \<Rightarrow> (int \<times> string) option \<Rightarrow> string option \<Rightarrow> string
       \<Rightarrow> string option \<Rightarrow> meter_compaction" where
  "meterPolicy admitted resolve contextWindow connectionId configuredModel servedModel =
     (if \<not> admitted then MeterUnavailable
      else
        let route = map_option (\<lambda>c. (c, case servedModel of Some m \<Rightarrow> m | None \<Rightarrow> configuredModel)) connectionId in
        case resolve contextWindow route of
          PolicyUnavailable _ \<Rightarrow> MeterUnavailable
        | PolicyResolved policy \<Rightarrow>
            if sp_mode policy = OffMode then MeterOff
            else (case sp_activeTriggerTokens policy of
                Some t \<Rightarrow> if 0 < t then MeterAutomatic t (servedModel \<noteq> None \<and> servedModel \<noteq> Some []) else MeterUnavailable
              | None \<Rightarrow> MeterUnavailable))"

end
