(* ===== verification/CompactionGateLaws.thy ===== *)
theory CompactionGateLaws
  imports CompactionGate
begin

text \<open>
  What the compaction gate promises, whatever arrives in whatever order: one invariant of the coordinator over every
  step shows that the calls of an agent take turns, that a background summary is applied at most once and only to the
  agent, backend and route it was prepared for, and that a turn whose request fits never waits.
\<close>

section \<open>The invariant\<close>

definition live :: "background_job \<Rightarrow> bool" where
  "live job \<longleftrightarrow> bj_state job \<in> {JobCaptured, JobPreparing, JobReady}"

definition job_ok :: "background_job \<Rightarrow> bool" where
  "job_ok job \<longleftrightarrow> (bj_timedOut job \<longrightarrow> bj_aborted job) \<and> (bj_state job = JobReady \<longrightarrow> \<not> bj_aborted job \<and> bj_settled job)"

definition jobs_ok :: "coordinator \<Rightarrow> bool" where
  "jobs_ok co \<longleftrightarrow> js_map_ok (co_background co) \<and> (\<forall>job \<in> set (co_jobs co). job_ok job)
     \<and> (\<forall>a j. js_get (co_background co) a = Some j \<longrightarrow>
          j < length (co_jobs co) \<and> bj_agentId (co_jobs co ! j) = a \<and> live (co_jobs co ! j))"

abbreviation agent_of_call :: "coordinator \<Rightarrow> nat \<Rightarrow> string" where
  "agent_of_call co i \<equiv> gi_agentId (gc_input (co_calls co ! i))"

definition for_call :: "background_job \<Rightarrow> gate_input \<Rightarrow> bool" where
  "for_call job inp \<longleftrightarrow> bj_agentId job = gi_agentId inp \<and> bj_control job = gi_control inp \<and> bj_routeKey job = routeKeyOf (gi_route inp)"

definition joined_ok :: "coordinator \<Rightarrow> compaction_call \<Rightarrow> bool" where
  "joined_ok co c \<longleftrightarrow>
     (case gc_phase c of
        Joining _ j _ \<Rightarrow> j < length (co_jobs co) \<and> for_call (co_jobs co ! j) (gc_input c)
          \<and> (live (co_jobs co ! j) \<longrightarrow> is_current co j)
      | _ \<Rightarrow> True)"

definition in_turns :: "coordinator \<Rightarrow> bool" where
  "in_turns co \<longleftrightarrow> (\<forall>k < length (co_calls co). \<forall>i < k.
     agent_of_call co i = agent_of_call co k \<and> gc_phase (co_calls co ! k) \<noteq> Queued \<longrightarrow> is_decided (co_calls co ! i))"

text \<open>
  The queue of an agent: a call waits for the last one of its agent, or found none unsettled; it has begun only
  after that; and the marker in flight is that of the agent's last call.
\<close>

definition follows_last :: "coordinator \<Rightarrow> nat \<Rightarrow> bool" where
  "follows_last co k \<longleftrightarrow>
     (case gc_previous (co_calls co ! k) of
        None \<Rightarrow> \<forall>l < k. agent_of_call co l = agent_of_call co k \<longrightarrow> gc_settled (co_calls co ! l)
      | Some p \<Rightarrow> p < k \<and> agent_of_call co p = agent_of_call co k
          \<and> (\<forall>l. p < l \<and> l < k \<longrightarrow> agent_of_call co l \<noteq> agent_of_call co k))"

definition in_flight_ok :: "coordinator \<Rightarrow> string \<Rightarrow> bool" where
  "in_flight_ok co a \<longleftrightarrow>
     (case js_get (co_inFlight co) a of
        None \<Rightarrow> \<forall>k < length (co_calls co). agent_of_call co k = a \<longrightarrow> gc_settled (co_calls co ! k)
      | Some m \<Rightarrow> m < length (co_calls co) \<and> agent_of_call co m = a
          \<and> (\<forall>k < length (co_calls co). agent_of_call co k = a \<longrightarrow> k \<le> m))"

definition queue_ok :: "coordinator \<Rightarrow> bool" where
  "queue_ok co \<longleftrightarrow>
     (\<forall>k < length (co_calls co). follows_last co k
        \<and> (gc_settled (co_calls co ! k) \<longrightarrow> is_decided (co_calls co ! k))
        \<and> (gc_phase (co_calls co ! k) \<noteq> Queued \<longrightarrow> turn_come co (co_calls co ! k)))
   \<and> (\<forall>a. in_flight_ok co a)"

definition coordinator_ok :: "coordinator \<Rightarrow> bool" where
  "coordinator_ok co \<longleftrightarrow> jobs_ok co \<and> queue_ok co \<and> (\<forall>c \<in> set (co_calls co). joined_ok co c)"

text \<open>Call \<open>i\<close> is the one of its agent that runs.\<close>

definition on_turn :: "coordinator \<Rightarrow> nat \<Rightarrow> bool" where
  "on_turn co i \<longleftrightarrow> i < length (co_calls co) \<and> turn_come co (co_calls co ! i) \<and> \<not> gc_settled (co_calls co ! i)
     \<and> (\<forall>k < length (co_calls co). k \<noteq> i \<and> agent_of_call co k = agent_of_call co i \<longrightarrow>
          (if k < i then is_decided (co_calls co ! k) else gc_phase (co_calls co ! k) = Queued))"

definition running_ok :: "nat \<Rightarrow> coordinator \<Rightarrow> bool" where
  "running_ok i co \<longleftrightarrow> jobs_ok co \<and> queue_ok co \<and> on_turn co i
     \<and> (\<forall>k < length (co_calls co). k \<noteq> i \<longrightarrow> joined_ok co (co_calls co ! k))"

lemma new_coordinator_ok: "coordinator_ok new_coordinator"
  by (simp add: coordinator_ok_def jobs_ok_def queue_ok_def in_flight_ok_def new_coordinator_def)

lemma coordinator_okD: "coordinator_ok co \<Longrightarrow> jobs_ok co" "coordinator_ok co \<Longrightarrow> queue_ok co"
  "coordinator_ok co \<Longrightarrow> i < length (co_calls co) \<Longrightarrow> joined_ok co (co_calls co ! i)"
  by (simp_all add: coordinator_ok_def)

lemma queue_okD:
  assumes "queue_ok co" and "k < length (co_calls co)"
  shows "follows_last co k" "gc_settled (co_calls co ! k) \<Longrightarrow> is_decided (co_calls co ! k)"
    "gc_phase (co_calls co ! k) \<noteq> Queued \<Longrightarrow> turn_come co (co_calls co ! k)"
  using assms by (simp_all add: queue_ok_def)

lemma decided_begun: "is_decided c \<Longrightarrow> gc_phase c \<noteq> Queued"
  by (auto simp: is_decided_def)

text \<open>Where a call's turn has come, every earlier call of its agent has settled: along the chain of calls waited for.\<close>

lemma settled_before:
  assumes q: "queue_ok co"
  shows "k < length (co_calls co) \<Longrightarrow> turn_come co (co_calls co ! k) \<Longrightarrow> l < k \<Longrightarrow>
     agent_of_call co l = agent_of_call co k \<Longrightarrow> gc_settled (co_calls co ! l)"
proof (induction k rule: less_induct)
  case (less k)
  note f = queue_okD(1) [OF q less.prems(1), unfolded follows_last_def]
  show ?case
  proof (cases "gc_previous (co_calls co ! k)")
    case None
    with f less.prems(3,4) show ?thesis by simp
  next
    case (Some p)
    with f less.prems(1) have p: "p < k" "p < length (co_calls co)" "agent_of_call co p = agent_of_call co k"
      and none: "\<forall>l. p < l \<and> l < k \<longrightarrow> agent_of_call co l \<noteq> agent_of_call co k" by simp_all
    have settled: "gc_settled (co_calls co ! p)" using less.prems(2) Some by (simp add: turn_come_def)
    then have "turn_come co (co_calls co ! p)"
      using queue_okD(2,3) [OF q p(2)] decided_begun by blast
    consider "l = p" | "l < p" | "p < l" by (rule linorder_cases)
    then show ?thesis
    proof cases
      case 2
      then show ?thesis
        using less.IH [OF p(1,2) \<open>turn_come co (co_calls co ! p)\<close>] less.prems(4) p(3) by simp
    qed (use settled none less.prems(3,4) in blast)+
  qed
qed

lemma queue_in_turns: "queue_ok co \<Longrightarrow> in_turns co"
  unfolding in_turns_def
proof (intro allI impI)
  fix k i
  assume q: "queue_ok co" and k: "k < length (co_calls co)" "i < k"
    and a: "agent_of_call co i = agent_of_call co k \<and> gc_phase (co_calls co ! k) \<noteq> Queued"
  then have "gc_settled (co_calls co ! i)" using settled_before [OF q k(1) _ k(2)] queue_okD(3) [OF q k(1)] by blast
  with queue_okD(2) [OF q] k show "is_decided (co_calls co ! i)" by simp
qed

lemma running_when:
  assumes "coordinator_ok co" and "may_begin co i \<or> i < length (co_calls co) \<and> gc_phase (co_calls co ! i) \<noteq> Queued \<and> \<not> is_decided (co_calls co ! i)"
  shows "running_ok i co"
proof -
  have i: "i < length (co_calls co)" and un: "\<not> is_decided (co_calls co ! i)"
    using assms(2) by (auto simp: may_begin_def is_decided_def)
  have q: "queue_ok co" by (rule coordinator_okD(2) [OF assms(1)])
  have turns: "in_turns co" by (rule queue_in_turns [OF q])
  have come: "turn_come co (co_calls co ! i)"
    using assms(2) queue_okD(3) [OF q i] by (auto simp: may_begin_def)
  have "\<not> gc_settled (co_calls co ! i)" using queue_okD(2) [OF q i] un by blast
  moreover have "if k < i then is_decided (co_calls co ! k) else gc_phase (co_calls co ! k) = Queued"
    if k: "k < length (co_calls co)" "k \<noteq> i" "agent_of_call co k = agent_of_call co i" for k
  proof (cases "k < i")
    case True
    with settled_before [OF q i come True k(3)] queue_okD(2) [OF q k(1)] show ?thesis by simp
  next
    case False
    with k(2) have "i < k" by simp
    with turns k un have "gc_phase (co_calls co ! k) = Queued" unfolding in_turns_def by metis
    with False show ?thesis by simp
  qed
  ultimately have "on_turn co i" using i come by (simp add: on_turn_def)
  with assms(1) show ?thesis by (simp add: running_ok_def coordinator_ok_def)
qed

lemma queue_ok_cong:
  assumes "co_calls co' = co_calls co" and "co_inFlight co' = co_inFlight co"
  shows "queue_ok co' = queue_ok co"
  unfolding queue_ok_def follows_last_def in_flight_ok_def turn_come_def assms ..

lemma set_phase_fields [simp]:
  "co_jobs (set_phase i ph co) = co_jobs co" "co_background (set_phase i ph co) = co_background co"
  "co_lastFailure (set_phase i ph co) = co_lastFailure co" "co_inFlight (set_phase i ph co) = co_inFlight co" "length (co_calls (set_phase i ph co)) = length (co_calls co)"
  "is_current (set_phase i ph co) j = is_current co j" "jobs_ok (set_phase i ph co) = jobs_ok co"
  by (simp_all add: set_phase_def is_current_def jobs_ok_def)

lemma set_phase_call: "k < length (co_calls co) \<Longrightarrow>
    co_calls (set_phase i ph co) ! k = (if k = i then (co_calls co ! i)\<lparr>gc_phase := ph\<rparr> else co_calls co ! k)"
  by (simp add: set_phase_def nth_list_update)

lemma phase_ends:
  assumes run: "running_ok i co" and joined: "joined_ok co ((co_calls co ! i)\<lparr>gc_phase := ph\<rparr>)"
  shows "coordinator_ok (set_phase i ph co)"
proof -
  have i: "i < length (co_calls co)" using run by (simp add: running_ok_def on_turn_def)
  have same: "joined_ok (set_phase i ph co) c = joined_ok co c" for c by (simp add: joined_ok_def split: call_phase.split)
  have "\<forall>c \<in> set (co_calls (set_phase i ph co)). joined_ok (set_phase i ph co) c"
    unfolding same all_set_conv_all_nth using run joined by (simp add: set_phase_call running_ok_def)
  moreover have "queue_ok (set_phase i ph co)"
  proof -
    let ?co = "set_phase i ph co"
    have q: "queue_ok co" and turn: "turn_come co (co_calls co ! i)" "\<not> gc_settled (co_calls co ! i)"
      using run by (simp_all add: running_ok_def on_turn_def)
    have kept: "gc_settled (co_calls ?co ! k) = gc_settled (co_calls co ! k)" "gc_previous (co_calls ?co ! k) = gc_previous (co_calls co ! k)"
      "agent_of_call ?co k = agent_of_call co k" if "k < length (co_calls co)" for k
      using that by (simp_all add: set_phase_call)
    have f: "follows_last ?co k" if k: "k < length (co_calls co)" for k
      using queue_okD(1) [OF q k] k kept by (auto simp: follows_last_def split: option.splits)
    have come: "turn_come ?co (co_calls ?co ! k) = turn_come co (co_calls co ! k)" if k: "k < length (co_calls co)" for k
      using queue_okD(1) [OF q k] k kept by (auto simp: follows_last_def turn_come_def split: option.splits)
    have "in_flight_ok ?co a" for a
    proof -
      have "in_flight_ok co a" using q by (simp add: queue_ok_def)
      then show ?thesis using kept by (simp add: in_flight_ok_def split: option.splits)
    qed
    moreover have "follows_last ?co k \<and> (gc_settled (co_calls ?co ! k) \<longrightarrow> is_decided (co_calls ?co ! k))
        \<and> (gc_phase (co_calls ?co ! k) \<noteq> Queued \<longrightarrow> turn_come ?co (co_calls ?co ! k))" if k: "k < length (co_calls co)" for k
      unfolding come [OF k] kept(1) [OF k] using f [OF k] turn queue_okD(2,3) [OF q k] k by (cases "k = i") (simp_all add: set_phase_call)
    ultimately show ?thesis by (simp add: queue_ok_def)
  qed
  moreover have "jobs_ok (set_phase i ph co)" using run by (simp add: running_ok_def)
  ultimately show ?thesis by (simp add: coordinator_ok_def)
qed

section \<open>How jobs evolve\<close>

text \<open>
  Jobs keep who they are, none comes alive or back into the background again, and outside the agents \<open>A\<close> a live job
  stays current.
\<close>

definition job_evolves :: "string set \<Rightarrow> background_job \<Rightarrow> bool \<Rightarrow> background_job \<Rightarrow> bool \<Rightarrow> bool" where
  "job_evolves A job current job' current' \<longleftrightarrow>
     bj_agentId job' = bj_agentId job \<and> bj_control job' = bj_control job \<and> bj_routeKey job' = bj_routeKey job
     \<and> (live job' \<longrightarrow> live job) \<and> (current' \<longrightarrow> current)
     \<and> (bj_agentId job \<notin> A \<and> live job' \<and> current \<longrightarrow> current')"

definition evolves :: "string set \<Rightarrow> coordinator \<Rightarrow> coordinator \<Rightarrow> bool" where
  "evolves A co co' \<longleftrightarrow> co_calls co' = co_calls co \<and> co_inFlight co' = co_inFlight co \<and> length (co_jobs co) \<le> length (co_jobs co')
     \<and> (\<forall>j < length (co_jobs co). job_evolves A (co_jobs co ! j) (is_current co j) (co_jobs co' ! j) (is_current co' j))"

lemma job_evolves_refl: "job_evolves A job current job current"
  by (simp add: job_evolves_def)

lemma evolves_refl: "evolves A co co"
  by (simp add: evolves_def job_evolves_refl)

lemma job_evolves_trans: "job_evolves A job c job' c' \<Longrightarrow> job_evolves A job' c' job'' c'' \<Longrightarrow> job_evolves A job c job'' c''"
  unfolding job_evolves_def by (elim conjE, intro conjI; metis)

lemma evolves_trans: "evolves A a b \<Longrightarrow> evolves A b c \<Longrightarrow> evolves A a c"
  unfolding evolves_def
proof (elim conjE, intro conjI allI impI)
  fix j
  assume ab: "\<forall>j < length (co_jobs a). job_evolves A (co_jobs a ! j) (is_current a j) (co_jobs b ! j) (is_current b j)"
    and bc: "\<forall>j < length (co_jobs b). job_evolves A (co_jobs b ! j) (is_current b j) (co_jobs c ! j) (is_current c j)"
    and l: "length (co_jobs a) \<le> length (co_jobs b)" and j: "j < length (co_jobs a)"
  from l j have "j < length (co_jobs b)" by (rule less_le_trans [rotated])
  with ab bc j show "job_evolves A (co_jobs a ! j) (is_current a j) (co_jobs c ! j) (is_current c j)"
    by (metis job_evolves_trans)
qed simp_all

lemma evolves_job:
  "evolves A co co' \<Longrightarrow> j < length (co_jobs co) \<Longrightarrow>
     job_evolves A (co_jobs co ! j) (is_current co j) (co_jobs co' ! j) (is_current co' j)"
  by (simp add: evolves_def)

lemma evolves_more: "evolves A co co' \<Longrightarrow> A \<subseteq> B \<Longrightarrow> evolves B co co'"
  unfolding evolves_def job_evolves_def by blast

lemma evolves_joined:
  assumes e: "evolves A co co'" and ok: "joined_ok co c" and out: "gi_agentId (gc_input c) \<notin> A \<or> (\<forall>outs j b. gc_phase c \<noteq> Joining outs j b)"
  shows "joined_ok co' c"
proof (cases "gc_phase c")
  case (Joining outs j before)
  with ok have j: "j < length (co_jobs co)" and f: "for_call (co_jobs co ! j) (gc_input c)" and l: "live (co_jobs co ! j) \<longrightarrow> is_current co j"
    by (simp_all add: joined_ok_def)
  note x = evolves_job [OF e j, unfolded job_evolves_def]
  have "bj_agentId (co_jobs co ! j) \<notin> A" using out Joining f by (simp add: for_call_def)
  moreover have "j < length (co_jobs co')" using j e by (simp add: evolves_def)
  ultimately show ?thesis using x f l Joining by (auto simp: joined_ok_def for_call_def)
qed (simp_all add: joined_ok_def)

lemma evolves_coordinator_ok: "coordinator_ok co \<Longrightarrow> evolves {} co co' \<Longrightarrow> jobs_ok co' \<Longrightarrow> coordinator_ok co'"
  using evolves_joined [of "{}" co co'] queue_ok_cong [of co' co] by (auto simp: coordinator_ok_def evolves_def)

lemma evolves_running:
  assumes run: "running_ok i co" and e: "evolves {agent_of_call co i} co co'" and ok: "jobs_ok co'"
  shows "running_ok i co'"
proof -
  have calls: "co_calls co' = co_calls co" using e by (simp add: evolves_def)
  have "joined_ok co' (co_calls co ! k)" if k: "k < length (co_calls co)" "k \<noteq> i" for k
  proof (rule evolves_joined [OF e])
    show "joined_ok co (co_calls co ! k)" using run k by (simp add: running_ok_def)
    have "agent_of_call co k = agent_of_call co i \<Longrightarrow> gc_phase (co_calls co ! k) = Queued \<or> is_decided (co_calls co ! k)"
      using run k unfolding running_ok_def on_turn_def by metis
    then show "agent_of_call co k \<notin> {agent_of_call co i} \<or> (\<forall>outs j b. gc_phase (co_calls co ! k) \<noteq> Joining outs j b)"
      by (auto simp: is_decided_def)
  qed
  moreover have "queue_ok co' = queue_ok co" using e by (intro queue_ok_cong) (simp_all add: evolves_def)
  moreover have "on_turn co' i = on_turn co i" unfolding on_turn_def turn_come_def calls ..
  ultimately show ?thesis using run ok calls by (simp add: running_ok_def)
qed

subsection \<open>Each change of a job\<close>

lemma failure_frame [simp]:
  "jobs_ok (co\<lparr>co_lastFailure := f\<rparr>) = jobs_ok co" "is_current (co\<lparr>co_lastFailure := f\<rparr>) j = is_current co j"
  "evolves A co (co'\<lparr>co_lastFailure := f\<rparr>) = evolves A co co'"
  by (simp_all add: jobs_ok_def is_current_def evolves_def)

lemma set_job_fields [simp]:
  "co_calls (set_job j job co) = co_calls co" "co_background (set_job j job co) = co_background co"
  "length (co_jobs (set_job j job co)) = length (co_jobs co)" "co_inFlight (set_job j job co) = co_inFlight co" "co_lastFailure (set_job j job co) = co_lastFailure co"
  by (simp_all add: set_job_def)

lemma set_job_nth: "k < length (co_jobs co) \<Longrightarrow> co_jobs (set_job j job co) ! k = (if k = j then job else co_jobs co ! k)"
  by (simp add: set_job_def nth_list_update)

definition same_job :: "background_job \<Rightarrow> background_job \<Rightarrow> bool" where
  "same_job job' job \<longleftrightarrow> bj_agentId job' = bj_agentId job \<and> bj_control job' = bj_control job \<and> bj_routeKey job' = bj_routeKey job"

lemma current_job: "jobs_ok co \<Longrightarrow> js_get (co_background co) a = Some j \<Longrightarrow>
    j < length (co_jobs co) \<and> bj_agentId (co_jobs co ! j) = a \<and> live (co_jobs co ! j) \<and> is_current co j"
  by (simp add: jobs_ok_def is_current_def)

lemma job_okD: "jobs_ok co \<Longrightarrow> j < length (co_jobs co) \<Longrightarrow> job_ok (co_jobs co ! j)"
  by (simp add: jobs_ok_def)

lemma update_alive:
  assumes ok: "jobs_ok co" and j: "j < length (co_jobs co)" and same: "same_job job (co_jobs co ! j)"
    and job: "job_ok job" and alive: "live job = live (co_jobs co ! j)"
  shows "jobs_ok (set_job j job co) \<and> evolves {} co (set_job j job co)"
proof
  have current: "is_current (set_job j job co) k = is_current co k" if "k < length (co_jobs co)" for k
    using that same by (simp add: is_current_def set_job_nth same_job_def)
  have jobs: "\<forall>x \<in> set (co_jobs (set_job j job co)). job_ok x"
    using ok job set_update_subset_insert [of "co_jobs co" j job] by (auto simp: jobs_ok_def set_job_def)
  have "k < length (co_jobs co) \<and> bj_agentId (co_jobs (set_job j job co) ! k) = a \<and> live (co_jobs (set_job j job co) ! k)"
    if "js_get (co_background co) a = Some k" for a k
    using current_job [OF ok that] same alive by (cases "k = j") (simp_all add: set_job_nth same_job_def)
  with jobs ok show "jobs_ok (set_job j job co)" by (simp add: jobs_ok_def)
  show "evolves {} co (set_job j job co)"
    unfolding evolves_def job_evolves_def using same alive current by (simp add: set_job_nth same_job_def)
qed

lemma update_dead:
  assumes ok: "jobs_ok co" and at: "js_get (co_background co) a = Some j" and same: "same_job job (co_jobs co ! j)"
    and job: "job_ok job" and dead: "\<not> live job"
  shows "jobs_ok ((set_job j job co)\<lparr>co_background := js_delete a (co_background co)\<rparr>)
    \<and> evolves {} co ((set_job j job co)\<lparr>co_background := js_delete a (co_background co)\<rparr>)"
proof
  let ?co = "(set_job j job co)\<lparr>co_background := js_delete a (co_background co)\<rparr>"
  note cur = current_job [OF ok at]
  have jobs: "\<forall>x \<in> set (co_jobs ?co). job_ok x"
    using ok job set_update_subset_insert [of "co_jobs co" j job] by (auto simp: jobs_ok_def set_job_def)
  have "k < length (co_jobs co) \<and> bj_agentId (co_jobs ?co ! k) = b \<and> live (co_jobs ?co ! k)"
    if "js_get (co_background co) b = Some k" "b \<noteq> a" for b k
    using current_job [OF ok that(1)] that(2) cur by (auto simp: set_job_nth)
  with jobs ok show "jobs_ok ?co" by (simp add: jobs_ok_def split: if_splits)
  have "job_evolves {} (co_jobs co ! k) (is_current co k) (co_jobs ?co ! k) (is_current ?co k)" if k: "k < length (co_jobs co)" for k
  proof (cases "k = j")
    case True
    with k same dead cur show ?thesis by (simp add: job_evolves_def set_job_nth same_job_def)
  next
    case False
    with k have "co_jobs ?co ! k = co_jobs co ! k" by (simp add: set_job_nth)
    moreover have "is_current ?co k \<longleftrightarrow> is_current co k" using False k at by (auto simp: is_current_def set_job_nth)
    ultimately show ?thesis by (simp add: job_evolves_refl)
  qed
  then show "evolves {} co ?co" by (simp add: evolves_def)
qed

lemma leaves_background:
  assumes ok: "jobs_ok co"
  shows "jobs_ok (co\<lparr>co_background := js_delete a (co_background co)\<rparr>)
    \<and> evolves {a} co (co\<lparr>co_background := js_delete a (co_background co)\<rparr>)"
proof
  let ?co = "co\<lparr>co_background := js_delete a (co_background co)\<rparr>"
  have "k < length (co_jobs co) \<and> bj_agentId (co_jobs co ! k) = b \<and> live (co_jobs co ! k)"
    if "js_get (co_background ?co) b = Some k" for b k
    using that current_job [OF ok, of b k] by (simp split: if_splits)
  with ok show "jobs_ok ?co" by (simp add: jobs_ok_def)
  show "evolves {a} co ?co" unfolding evolves_def job_evolves_def by (simp add: is_current_def)
qed

lemma new_job:
  assumes ok: "jobs_ok co" and free: "js_get (co_background co) (bj_agentId job) = None" and job: "job_ok job" and alive: "live job"
  shows "jobs_ok (co\<lparr>co_jobs := co_jobs co @ [job], co_background := js_set (bj_agentId job) (length (co_jobs co)) (co_background co)\<rparr>)
    \<and> evolves {} co (co\<lparr>co_jobs := co_jobs co @ [job], co_background := js_set (bj_agentId job) (length (co_jobs co)) (co_background co)\<rparr>)"
proof
  let ?co = "co\<lparr>co_jobs := co_jobs co @ [job], co_background := js_set (bj_agentId job) (length (co_jobs co)) (co_background co)\<rparr>"
  have "k < length (co_jobs ?co) \<and> bj_agentId (co_jobs ?co ! k) = b \<and> live (co_jobs ?co ! k)"
    if "js_get (co_background ?co) b = Some k" for b k
  proof (cases "b = bj_agentId job")
    case True
    with that have "k = length (co_jobs co)" by simp
    with True alive show ?thesis by simp
  next
    case False
    with that have "js_get (co_background co) b = Some k" by simp
    from current_job [OF ok this] show ?thesis by (simp add: nth_append)
  qed
  with ok job show "jobs_ok ?co" by (simp add: jobs_ok_def)
  have "is_current ?co k = is_current co k" if "k < length (co_jobs co)" for k
    using that free by (auto simp: is_current_def nth_append)
  then show "evolves {} co ?co" by (simp add: evolves_def job_evolves_def nth_append)
qed

section \<open>Each operation\<close>

definition commits :: "compaction_effect list \<Rightarrow> (nat \<times> nat) list" where
  "commits es = concat (map (\<lambda>e. case e of CommitCalled i j \<Rightarrow> [(i, j)] | _ \<Rightarrow> []) es)"

lemma commits_simps [simp]:
  "commits [] = []" "commits (es @ fs) = commits es @ commits fs" "commits (CommitCalled i j # es) = (i, j) # commits es"
  "commits (BackgroundEvent ev # es) = commits es" "commits (PrepareCalled j # es) = commits es"
  "commits (CompactCalled i fc # es) = commits es" "commits (JobAborted j # es) = commits es"
  "commits (SpendCalled sc # es) = commits es" "commits (map SpendCalled scs) = []"
  by (simp_all add: commits_def)

lemma event_no_commit [simp]: "commits (background_event_of job what outcome reason now # es) = commits es"
  by (simp add: background_event_of_def)

text \<open>Operations on jobs alone: calls stay, live jobs stay current, nothing is applied.\<close>

definition job_change :: "coordinator \<Rightarrow> coordinator \<times> compaction_effect list \<Rightarrow> bool" where
  "job_change co r \<longleftrightarrow> jobs_ok (fst r) \<and> evolves {} co (fst r) \<and> commits (snd r) = []"

lemma job_change_refl: "jobs_ok co \<Longrightarrow> job_change co (co, [])"
  by (simp add: job_change_def evolves_refl)

lemma cancel_change: "jobs_ok co \<Longrightarrow> job_change co (cancelBackground agentId now co)"
proof (cases "js_get (co_background co) agentId")
  case (Some j)
  assume ok: "jobs_ok co"
  let ?job = "(co_jobs co ! j)\<lparr>bj_state := JobCancelled, bj_aborted := True\<rparr>"
  have "same_job ?job (co_jobs co ! j)" "job_ok ?job" "\<not> live ?job" by (simp_all add: same_job_def job_ok_def live_def)
  from update_dead [OF ok Some this] show ?thesis by (simp add: job_change_def cancelBackground_def Some Let_def)
qed (simp add: cancelBackground_def job_change_refl)

lemma dispose_change: "jobs_ok co \<Longrightarrow> job_change co (dispose_all now co)"
proof -
  assume ok: "jobs_ok co"
  have "job_change co (foldl (\<lambda>(co, es) agentId. let r = cancelBackground agentId now co in (fst r, es @ snd r)) (co1, es) agents)"
    if "job_change co (co1, es)" for co1 es agents
    using that
  proof (induction agents arbitrary: co1 es)
    case (Cons a agents)
    then have "jobs_ok co1" "evolves {} co co1" "commits es = []" by (simp_all add: job_change_def)
    with cancel_change [of co1 a now] have "job_change co (fst (cancelBackground a now co1), es @ snd (cancelBackground a now co1))"
      by (auto simp: job_change_def intro: evolves_trans)
    with Cons.IH show ?case by (simp add: Let_def)
  qed simp
  with ok show ?thesis by (simp add: dispose_all_def job_change_refl)
qed

lemma current_at: "is_current co j \<Longrightarrow> js_get (co_background co) (bj_agentId (co_jobs co ! j)) = Some j"
  by (simp add: is_current_def)

lemma start_change: "jobs_ok co \<Longrightarrow> j < length (co_jobs co) \<Longrightarrow> job_change co (startJob j now co)"
proof (cases "bj_state (co_jobs co ! j) \<noteq> JobCaptured \<or> \<not> is_current co j")
  case False
  assume ok: "jobs_ok co" and j: "j < length (co_jobs co)"
  let ?job = "(co_jobs co ! j)\<lparr>bj_state := JobPreparing, bj_startedAt := Some now\<rparr>"
  have "same_job ?job (co_jobs co ! j)" "job_ok ?job" "live ?job = live (co_jobs co ! j)"
    using False job_okD [OF ok j] by (simp_all add: same_job_def job_ok_def live_def)
  from update_alive [OF ok j this] False show ?thesis by (simp add: job_change_def startJob_def Let_def)
qed (simp add: startJob_def job_change_refl)

lemma timer_change: "jobs_ok co \<Longrightarrow> j < length (co_jobs co) \<Longrightarrow> job_change co (job_timer j co)"
proof (cases "bj_state (co_jobs co ! j) = JobPreparing")
  case True
  assume ok: "jobs_ok co" and j: "j < length (co_jobs co)"
  let ?job = "(co_jobs co ! j)\<lparr>bj_timedOut := True, bj_aborted := True\<rparr>"
  have "same_job ?job (co_jobs co ! j)" "job_ok ?job" "live ?job = live (co_jobs co ! j)"
    using True by (simp_all add: same_job_def job_ok_def live_def)
  from update_alive [OF ok j this] True show ?thesis by (simp add: job_change_def job_timer_def Let_def)
qed (simp add: job_timer_def job_change_refl)

lemma usage_change:
  "jobs_ok co \<Longrightarrow> j < length (co_jobs co) \<Longrightarrow> job_change co (set_job j ((co_jobs co ! j)\<lparr>bj_usage := u\<rparr>) co, map SpendCalled scs)"
  using update_alive [of co j "(co_jobs co ! j)\<lparr>bj_usage := u\<rparr>"] job_okD [of co j]
  by (simp add: job_change_def same_job_def job_ok_def live_def)

lemma settle_change:
  assumes ok: "jobs_ok co" and j: "j < length (co_jobs co)"
  shows "job_change co (settle_job j failure now co)"
proof -
  let ?old = "co_jobs co ! j"
  let ?job = "?old\<lparr>bj_settled := True\<rparr>"
  have old: "job_ok ?old" by (rule job_okD [OF ok j])
  consider "bj_state ?old = JobCancelled \<or> \<not> is_current co j"
    | "bj_state ?old \<noteq> JobCancelled \<and> is_current co j \<and> failure = None \<and> \<not> bj_aborted ?old"
    | "bj_state ?old \<noteq> JobCancelled \<and> is_current co j \<and> \<not> (failure = None \<and> \<not> bj_aborted ?old)" by blast
  then show ?thesis
  proof cases
    case 1
    have "same_job ?job ?old" "job_ok ?job" "live ?job = live ?old" using old by (simp_all add: same_job_def job_ok_def live_def)
    from update_alive [OF ok j this] 1 show ?thesis by (simp add: job_change_def settle_job_def Let_def)
  next
    case 2
    let ?ready = "?job\<lparr>bj_state := JobReady\<rparr>"
    have "live ?old" using current_job [OF ok current_at] 2 by blast
    then have "same_job ?ready ?old" "job_ok ?ready" "live ?ready = live ?old"
      using old 2 by (simp_all add: same_job_def job_ok_def live_def)
    from update_alive [OF ok j this] 2 show ?thesis by (simp add: job_change_def settle_job_def Let_def)
  next
    case 3
    let ?failed = "?job\<lparr>bj_state := JobFailed\<rparr>"
    have "same_job ?failed ?old" "job_ok ?failed" "\<not> live ?failed" using old by (simp_all add: same_job_def job_ok_def live_def)
    note dead = update_dead [OF ok current_at this] 
    from 3 have c: "is_current co j" by simp
    let ?co = "(set_job j ?failed co)\<lparr>co_background := js_delete (bj_agentId ?old) (co_background co)\<rparr>"
    have "settle_job j failure now co
        = (?co\<lparr>co_lastFailure := js_set (bj_agentId ?old) (bj_routeKey ?old, sp_revision (bj_policy ?old)) (co_lastFailure co)\<rparr>,
           snd (settle_job j failure now co))"
      using 3 by (cases failure) (simp_all add: settle_job_def Let_def)
    moreover have "commits (snd (settle_job j failure now co)) = []" using 3 by (cases failure) (simp_all add: settle_job_def Let_def)
    ultimately show ?thesis unfolding job_change_def using dead [OF c] by (metis failure_frame(1,3) fst_conv)
  qed
qed

subsection \<open>Operations of a call\<close>

definition stays :: "coordinator \<Rightarrow> coordinator \<Rightarrow> bool" where
  "stays co co' \<longleftrightarrow> length (co_jobs co) \<le> length (co_jobs co') \<and> (\<forall>j < length (co_jobs co). is_current co' j \<longrightarrow> is_current co j)"

lemma stays_refl [simp]: "stays co co"
  by (simp add: stays_def)

lemma stays_trans: "stays a b \<Longrightarrow> stays b c \<Longrightarrow> stays a c"
  by (auto simp: stays_def)

lemma stays_phase [simp]: "stays co (set_phase i ph co') = stays co co'"
  by (simp add: stays_def)

lemma evolves_stays: "evolves A co co' \<Longrightarrow> stays co co'"
  by (simp add: evolves_def job_evolves_def stays_def)

text \<open>A call on turn ended its step: the invariant holds, and nothing was applied.\<close>

definition step_done :: "coordinator \<Rightarrow> coordinator \<times> compaction_effect list \<Rightarrow> bool" where
  "step_done co r \<longleftrightarrow> coordinator_ok (fst r) \<and> stays co (fst r) \<and> commits (snd r) = []"

lemma decided_done: "running_ok i co \<Longrightarrow> coordinator_ok (set_phase i (Decided outs start) co)"
  by (rule phase_ends) (simp_all add: joined_ok_def)

lemma goes_on_done: "running_ok i co \<Longrightarrow> step_done co (goes_on i outs ans inp co)"
proof -
  assume run: "running_ok i co"
  have "coordinator_ok (set_phase i (Compacting outs fc) co)" for fc by (rule phase_ends [OF run]) (simp add: joined_ok_def)
  with run show ?thesis by (simp add: step_done_def goes_on_def decided_done split: sum.split)
qed

lemma capture_done:
  assumes run: "running_ok i co" and inp: "inp = gc_input (co_calls co ! i)" and free: "js_get (co_background co) (gi_agentId inp) = None"
  shows "coordinator_ok (captureJob i outs ans inp policy co) \<and> stays co (captureJob i outs ans inp policy co)"
proof (cases "ga_capture ans")
  case (Captured estimated)
  let ?job = "\<lparr>bj_agentId = gi_agentId inp, bj_operationId = ra_operationId ans, bj_control = gi_control inp,
                bj_routeKey = routeKeyOf (gi_route inp), bj_policy = policy, bj_estimatedInputTokens = estimated,
                bj_usage = new_sink (ra_operationId ans) (gi_requestId inp) (gi_agentId inp), bj_state = JobCaptured,
                bj_startedAt = None, bj_timedOut = False, bj_aborted = False, bj_settled = False\<rparr>"
  let ?co = "co\<lparr>co_jobs := co_jobs co @ [?job], co_background := js_set (gi_agentId inp) (length (co_jobs co)) (co_background co)\<rparr>"
  have ok: "jobs_ok co" using run by (simp add: running_ok_def)
  have "jobs_ok ?co \<and> evolves {} co ?co"
    using new_job [OF ok, of ?job] free by (simp add: job_ok_def live_def)
  then have "running_ok i ?co" "stays co ?co" using evolves_running [OF run] evolves_more evolves_stays by blast+
  with Captured show ?thesis by (simp add: captureJob_def Let_def decided_done)
next
  case (CaptureFailed reason detail)
  let ?co = "co\<lparr>co_lastFailure := js_set (gi_agentId inp) (routeKeyOf (gi_route inp), sp_revision policy) (co_lastFailure co)\<rparr>"
  have "evolves {} co ?co" by (simp add: evolves_refl)
  moreover have "jobs_ok ?co" using run by (simp add: running_ok_def)
  ultimately have "running_ok i ?co" "stays co ?co" using evolves_running [OF run] evolves_more evolves_stays by blast+
  with CaptureFailed show ?thesis by (simp add: captureJob_def decided_done)
qed (use run in \<open>simp add: captureJob_def decided_done\<close>)

definition applies_to :: "coordinator \<Rightarrow> nat \<Rightarrow> nat \<Rightarrow> bool" where
  "applies_to co i j \<longleftrightarrow> j < length (co_jobs co) \<and> is_current co j \<and> bj_state (co_jobs co ! j) = JobReady
     \<and> bj_settled (co_jobs co ! j) \<and> \<not> bj_aborted (co_jobs co ! j) \<and> \<not> bj_timedOut (co_jobs co ! j)
     \<and> for_call (co_jobs co ! j) (gc_input (co_calls co ! i))"

text \<open>A step of call \<open>i\<close> applies at most one summary, that fits the call and is gone from the background then.\<close>

definition applies_once :: "coordinator \<Rightarrow> nat \<Rightarrow> coordinator \<times> compaction_effect list \<Rightarrow> bool" where
  "applies_once co i r \<longleftrightarrow> coordinator_ok (fst r) \<and> stays co (fst r)
     \<and> (commits (snd r) = [] \<or> (\<exists>j. commits (snd r) = [(i, j)] \<and> applies_to co i j \<and> \<not> is_current (fst r) j))"

lemma done_applies: "step_done co r \<Longrightarrow> applies_once co i r"
  by (simp add: step_done_def applies_once_def)

lemma ready_applies:
  assumes run: "running_ok i co" and at: "js_get (co_background co) (agent_of_call co i) = Some j"
    and call: "for_call (co_jobs co ! j) (gc_input (co_calls co ! i))" and ready: "bj_state (co_jobs co ! j) = JobReady"
  shows "applies_to co i j"
proof -
  have ok: "jobs_ok co" using run by (simp add: running_ok_def)
  note cur = current_job [OF ok at]
  with job_okD [OF ok, of j] ready call show ?thesis by (auto simp: applies_to_def job_ok_def)
qed

lemma commit_leaves:
  assumes run: "running_ok i co" and agent: "bj_agentId (co_jobs co ! j) = agent_of_call co i"
    and result: "commitJob i j before result now co = (out, co', es)"
  shows "running_ok i co' \<and> stays co co' \<and> commits es = [(i, j)] \<and> js_get (co_background co') (agent_of_call co i) = None
    \<and> co_calls co' = co_calls co \<and> \<not> is_current co' j"
proof -
  let ?co = "co\<lparr>co_background := js_delete (agent_of_call co i) (co_background co)\<rparr>"
  have ok: "jobs_ok co" using run by (simp add: running_ok_def)
  have left: "jobs_ok ?co" "evolves {agent_of_call co i} co ?co" using leaves_background [OF ok] by simp_all
  have co': "co' = ?co \<or> (\<exists>f. co' = ?co\<lparr>co_lastFailure := f\<rparr>)" and es: "commits es = [(i, j)]"
    using result agent by (auto simp: commitJob_def Let_def split: compaction_result.splits)
  from co' left have e: "jobs_ok co'" "evolves {agent_of_call co i} co co'" by auto
  moreover have "js_get (co_background co') (agent_of_call co i) = None" using co' by auto
  moreover have "co_jobs co' = co_jobs co" using co' by auto
  ultimately show ?thesis
    using evolves_running [OF run e(2) e(1)] evolves_stays [OF e(2)] es agent by (simp add: evolves_def is_current_def)
qed

lemma decides_done:
  assumes run: "running_ok i co" and inp: "inp = gc_input (co_calls co ! i)"
    and here: "\<And>j. job = Some j \<Longrightarrow> js_get (co_background co) (gi_agentId inp) = Some j \<and> for_call (co_jobs co ! j) inp"
    and gone: "job = None \<Longrightarrow> js_get (co_background co) (gi_agentId inp) = None"
  shows "step_done co (gate_decides i ans inp policy outs before job discarded co)"
proof -
  have ends: "step_done co (set_phase i (Decided x None) co, [])" for x
    using run by (simp add: step_done_def decided_done)
  have capture: "step_done co (captureJob i outs ans inp policy co, [])" if "job = None"
    using capture_done [OF run inp gone [OF that]] by (simp add: step_done_def)
  have join: "step_done co (set_phase i (Joining outs j before) (fst (startJob j (ga_now ans) co)), snd (startJob j (ga_now ans) co))"
    if j: "job = Some j" for j
  proof -
    let ?co = "fst (startJob j (ga_now ans) co)"
    have ok: "jobs_ok co" using run by (simp add: running_ok_def)
    have at: "j < length (co_jobs co)" "is_current co j" using current_job [OF ok] here [OF j] by blast+
    from start_change [OF ok at(1), of "ga_now ans"] have e: "jobs_ok ?co" "evolves {} co ?co" "commits (snd (startJob j (ga_now ans) co)) = []"
      by (simp_all add: job_change_def)
    have run': "running_ok i ?co" using evolves_running [OF run evolves_more [OF e(2)] e(1)] by simp
    have "joined_ok co (\<lparr>gc_input = inp, gc_gated = True, gc_previous = None, gc_phase = Joining outs j before, gc_settled = False\<rparr>)"
      using at here [OF j] by (simp add: joined_ok_def)
    from evolves_joined [OF e(2) this] have "joined_ok ?co ((co_calls ?co ! i)\<lparr>gc_phase := Joining outs j before\<rparr>)"
      using e(2) inp by (simp add: joined_ok_def evolves_def)
    from phase_ends [OF run' this] e evolves_stays [OF e(2)] show ?thesis by (simp add: step_done_def)
  qed
  show ?thesis
    using ends capture join goes_on_done [OF run, of outs "ga_run ans" inp]
    by (cases job) (auto simp: gate_decides_def Let_def split: option.split context_projection.split)
qed

lemma drop_foreign_parts:
  assumes run: "running_ok i co" and inp: "inp = gc_input (co_calls co ! i)"
    and dropped: "drop_foreign inp policy now co = (job, co', es)"
  shows "running_ok i co' \<and> stays co co' \<and> commits es = [] \<and> co_calls co' = co_calls co
    \<and> (case job of Some j \<Rightarrow> co' = co \<and> es = [] \<and> js_get (co_background co) (gi_agentId inp) = Some j \<and> for_call (co_jobs co ! j) inp
        \<and> sp_revision (bj_policy (co_jobs co ! j)) = sp_revision policy
      | None \<Rightarrow> js_get (co_background co') (gi_agentId inp) = None)"
proof (cases "js_get (co_background co) (gi_agentId inp)")
  case None
  with dropped run show ?thesis by (auto simp: drop_foreign_def)
next
  case (Some j)
  have ok: "jobs_ok co" using run by (simp add: running_ok_def)
  note cur = current_job [OF ok Some]
  show ?thesis
  proof (cases "for_call (co_jobs co ! j) inp \<and> sp_revision (bj_policy (co_jobs co ! j)) = sp_revision policy")
    case True
    with dropped Some have "job = Some j" "co' = co" "es = []" by (auto simp: drop_foreign_def Let_def for_call_def)
    with True run Some show ?thesis by simp
  next
    case False
    with dropped Some cur have d: "job = None" "(co', es) = cancelBackground (gi_agentId inp) now co"
      by (auto simp: drop_foreign_def Let_def for_call_def split: if_splits)
    from cancel_change [OF ok, of "gi_agentId inp" now] d(2)
    have e: "jobs_ok co'" "evolves {} co co'" "commits es = []" by (metis job_change_def fst_conv snd_conv)+
    have "js_get (co_background co') (gi_agentId inp) = None" using d(2) Some by (simp add: cancelBackground_def Let_def)
    with d e evolves_running [OF run evolves_more [OF e(2)] e(1)] evolves_stays [OF e(2)] show ?thesis
      by (simp add: evolves_def)
  qed
qed

lemma begins_applies:
  assumes run: "running_ok i co"
  shows "applies_once co i (gate_begins i ans co)"
proof -
  define inp where "inp = gc_input (co_calls co ! i)"
  have ends: "applies_once co i (set_phase i (Decided x None) co, [])" for x
    using run by (simp add: applies_once_def decided_done)
  show ?thesis
  proof (cases "ra_admitted ans")
    case True
    show ?thesis
    proof (cases "ra_resolve ans (window_of (ra_before ans)) (gi_route inp)")
      case (PolicyResolved policy)
      obtain job co1 es1 where d: "drop_foreign inp policy (ga_now ans) co = (job, co1, es1)" by (cases "drop_foreign inp policy (ga_now ans) co")
      note parts = drop_foreign_parts [OF run inp_def d]
      then have run1: "running_ok i co1" and stay1: "stays co co1" and es1: "commits es1 = []" and inp1: "inp = gc_input (co_calls co1 ! i)"
        by (simp_all add: inp_def)
      show ?thesis
      proof (cases job)
        case None
        with parts have "js_get (co_background co1) (gi_agentId inp) = None" by simp
        then have "step_done co1 (gate_decides i ans inp policy [] (ra_before ans) None False co1)"
          by (intro decides_done [OF run1 inp1]) simp_all
        with stay1 es1 show ?thesis unfolding gate_begins_def Let_def inp_def [symmetric]
          by (simp add: True PolicyResolved d None step_done_def applies_once_def stays_trans [OF stay1])
      next
        case (Some j)
        with parts have same: "co1 = co" "es1 = []" and at: "js_get (co_background co) (gi_agentId inp) = Some j"
          and call: "for_call (co_jobs co ! j) inp" by simp_all
        let ?now = "bj_state (co_jobs co ! j) = JobReady \<and> (is_due (trigger_of policy) (ra_before ans) \<or> prefix_moves (ra_before ans))"
        show ?thesis
        proof (cases ?now)
          case False
          have "step_done co (gate_decides i ans inp policy [] (ra_before ans) (Some j) False co)"
            by (rule decides_done [OF run inp_def]) (use at call in simp_all)
          moreover have "gate_begins i ans co = gate_decides i ans inp policy [] (ra_before ans) (Some j) False co"
            unfolding gate_begins_def Let_def inp_def [symmetric] d Some same if_not_P [OF False]
            by (simp add: True PolicyResolved if_not_P [OF False] d Some same)
          ultimately show ?thesis using done_applies by simp
        next
          case ready: True
          obtain out co2 es2 where c: "commitJob i j (ra_before ans) (ga_commit ans) (ga_now ans) co = (out, co2, es2)"
            by (cases "commitJob i j (ra_before ans) (ga_commit ans) (ga_now ans) co")
          have "bj_agentId (co_jobs co ! j) = agent_of_call co i" using call by (simp add: for_call_def inp_def)
          note left = commit_leaves [OF run this c]
          have inp2: "inp = gc_input (co_calls co2 ! i)" using left by (simp add: inp_def)
          have "js_get (co_background co2) (gi_agentId inp) = None" using left by (simp add: inp_def)
          then have finished: "step_done co2 (gate_decides i ans inp policy outs b None disc co2)" for outs b disc
            using left by (intro decides_done [OF _ inp2]) simp_all
          have fit: "applies_to co i j" using ready_applies [OF run] at call ready by (simp add: inp_def)
          have "applies_once co i (fst r, es2 @ snd r)" if "step_done co2 r" for r
          proof -
            have "j < length (co_jobs co2)" using left fit by (auto simp: stays_def applies_to_def)
            with that left have "\<not> is_current (fst r) j" by (auto simp: step_done_def stays_def)
            with that left fit show ?thesis by (auto simp: step_done_def applies_once_def intro: stays_trans)
          qed
          from this [OF finished] ready show ?thesis unfolding gate_begins_def Let_def inp_def [symmetric]
            by (cases out) (simp_all add: True PolicyResolved d Some same c)
        qed
      qed
    qed (use ends in \<open>simp add: gate_begins_def Let_def True inp_def\<close>)
  qed (use ends in \<open>simp add: gate_begins_def Let_def\<close>)
qed

lemma join_applies:
  assumes ok: "coordinator_ok co" and i: "i < length (co_calls co)"
  shows "applies_once co i (join_ends i stopped ans co)"
proof (cases "gc_phase (co_calls co ! i)")
  case (Joining outs j before)
  have run: "running_ok i co" by (rule running_when [OF ok]) (simp add: i Joining is_decided_def)
  have ends: "applies_once co i (set_phase i (Decided x None) co, [])" for x
    using run by (simp add: applies_once_def decided_done)
  have joined: "j < length (co_jobs co)" "for_call (co_jobs co ! j) (gc_input (co_calls co ! i))"
    "live (co_jobs co ! j) \<longrightarrow> is_current co j"
    using coordinator_okD(3) [OF ok i] Joining by (simp_all add: joined_ok_def)
  show ?thesis
  proof (cases "\<not> stopped \<and> bj_settled (co_jobs co ! j) \<and> bj_state (co_jobs co ! j) = JobReady")
    case False
    with ends ok Joining show ?thesis by (auto simp: join_ends_def applies_once_def)
  next
    case ready: True
    have agent: "bj_agentId (co_jobs co ! j) = agent_of_call co i" using joined(2) by (simp add: for_call_def)
    have at: "js_get (co_background co) (agent_of_call co i) = Some j"
      using joined(3) ready agent by (simp add: live_def is_current_def)
    obtain out co2 es2 where c: "commitJob i j before (ga_commit ans) (ga_now ans) co = (out, co2, es2)"
      by (cases "commitJob i j before (ga_commit ans) (ga_now ans) co")
    note left = commit_leaves [OF run agent c]
    have fit: "applies_to co i j" using ready_applies [OF run at joined(2)] ready by simp
    have after: "applies_once co i (fst r, es2 @ snd r)" if "step_done co2 r" for r
    proof -
      have "j < length (co_jobs co2)" using left fit by (auto simp: stays_def applies_to_def)
      with that left have "\<not> is_current (fst r) j" by (auto simp: step_done_def stays_def)
      with that left fit show ?thesis by (auto simp: step_done_def applies_once_def intro: stays_trans)
    qed
    have run2: "running_ok i co2" using left by simp
    have "step_done co2 (set_phase i (Decided x None) co2, [])" for x using run2 by (simp add: step_done_def decided_done)
    from after [OF this] after [OF goes_on_done [OF run2]] ready Joining c show ?thesis
      by (cases out) (simp_all add: join_ends_def Let_def)
  qed
qed (use ok in \<open>simp_all add: join_ends_def applies_once_def\<close>)

lemma failure_running: "running_ok i co \<Longrightarrow> running_ok i (co\<lparr>co_lastFailure := f\<rparr>)"
  using evolves_running [of i co "co\<lparr>co_lastFailure := f\<rparr>"] by (simp add: evolves_refl running_ok_def)

lemma run_ends_running: "running_ok i co \<Longrightarrow> running_ok i (snd (run_ends inp fc stopped result now co)) \<and> stays co (snd (run_ends inp fc stopped result now co))"
  by (auto simp: run_ends_def failure_running stays_def split: compaction_result.split context_projection.split)

lemma new_call_queue:
  assumes q: "queue_ok co"
  shows "queue_ok (new_call inp gated co)"
proof -
  let ?co = "new_call inp gated co" and ?n = "length (co_calls co)" and ?a = "gi_agentId inp"
  have len: "length (co_calls ?co) = Suc ?n" and flight: "co_inFlight ?co = js_set ?a ?n (co_inFlight co)"
    by (simp_all add: new_call_def Let_def)
  have old: "co_calls ?co ! k = co_calls co ! k" if "k < ?n" for k using that by (simp add: new_call_def Let_def nth_append)
  have new: "co_calls ?co ! ?n = \<lparr>gc_input = inp, gc_gated = gated, gc_previous = js_get (co_inFlight co) ?a, gc_phase = Queued, gc_settled = False\<rparr>"
    by (simp add: new_call_def Let_def)
  have flying: "in_flight_ok co a" for a using q by (simp add: queue_ok_def)
  have "follows_last ?co k \<and> (gc_settled (co_calls ?co ! k) \<longrightarrow> is_decided (co_calls ?co ! k))
      \<and> (gc_phase (co_calls ?co ! k) \<noteq> Queued \<longrightarrow> turn_come ?co (co_calls ?co ! k))" if "k < Suc ?n" for k
  proof (cases "k = ?n")
    case True
    have "follows_last ?co ?n" using flying [of ?a] old
      by (auto simp: follows_last_def new in_flight_ok_def split: option.splits)
    with True show ?thesis by (simp add: new)
  next
    case False
    with that have k: "k < ?n" by simp
    have "follows_last ?co k" "turn_come ?co (co_calls ?co ! k) = turn_come co (co_calls co ! k)"
      using queue_okD(1) [OF q k] k old by (auto simp: follows_last_def turn_come_def split: option.splits)
    with queue_okD(2,3) [OF q k] show ?thesis unfolding old [OF k] by simp
  qed
  moreover have "in_flight_ok ?co a" for a
  proof (cases "a = ?a")
    case True
    then show ?thesis by (simp add: in_flight_ok_def flight len new less_Suc_eq_le)
  next
    case False
    with flying [of a] old new show ?thesis
      by (auto simp: in_flight_ok_def flight len less_Suc_eq split: option.splits)
  qed
  ultimately show ?thesis by (simp add: queue_ok_def len)
qed

lemma new_call_ok: "coordinator_ok co \<Longrightarrow> coordinator_ok (new_call inp gated co) \<and> stays co (new_call inp gated co)"
proof -
  assume ok: "coordinator_ok co"
  have joined: "joined_ok (new_call inp gated co) c = joined_ok co c" for c
    by (simp add: joined_ok_def new_call_def is_current_def Let_def split: call_phase.split)
  have "jobs_ok (new_call inp gated co)" "\<forall>c \<in> set (co_calls co). joined_ok co c" using ok
    by (simp_all add: coordinator_ok_def jobs_ok_def new_call_def Let_def)
  moreover have "joined_ok co c" if "gc_phase c = Queued" for c using that by (simp add: joined_ok_def)
  ultimately have "coordinator_ok (new_call inp gated co)"
    using new_call_queue [OF coordinator_okD(2) [OF ok]] by (auto simp: coordinator_ok_def joined) (auto simp: new_call_def Let_def)
  then show ?thesis by (simp add: stays_def new_call_def is_current_def Let_def)
qed

lemma marker_settles_queue:
  assumes q: "queue_ok co" and i: "i < length (co_calls co)" and done_: "is_decided (co_calls co ! i)"
  shows "queue_ok (marker_settles i co)"
proof (cases "gc_settled (co_calls co ! i)")
  case False
  let ?co = "marker_settles i co" and ?b = "agent_of_call co i"
  have calls: "co_calls ?co = (co_calls co)[i := (co_calls co ! i)\<lparr>gc_settled := True\<rparr>]"
    and flight: "co_inFlight ?co = (if js_get (co_inFlight co) ?b = Some i then js_delete ?b (co_inFlight co) else co_inFlight co)"
    using False i done_ by (simp_all add: marker_settles_def Let_def)
  have kept: "gc_settled (co_calls ?co ! k) = (k = i \<or> gc_settled (co_calls co ! k))" "agent_of_call ?co k = agent_of_call co k"
    "gc_previous (co_calls ?co ! k) = gc_previous (co_calls co ! k)" "gc_phase (co_calls ?co ! k) = gc_phase (co_calls co ! k)"
    "is_decided (co_calls ?co ! k) = is_decided (co_calls co ! k)"
    if "k < length (co_calls co)" for k using that i by (simp_all add: calls nth_list_update is_decided_def)
  have len: "length (co_calls ?co) = length (co_calls co)" by (simp add: calls)
  have before: "gc_settled (co_calls co ! k)" if "k < i" "agent_of_call co k = ?b" for k
    using settled_before [OF q i queue_okD(3) [OF q i decided_begun [OF done_]] that] .
  have "follows_last ?co k \<and> (turn_come co (co_calls co ! k) \<longrightarrow> turn_come ?co (co_calls ?co ! k))" if k: "k < length (co_calls co)" for k
    using queue_okD(1) [OF q k] k kept by (auto simp: follows_last_def turn_come_def split: option.splits)
  moreover have "in_flight_ok ?co a" for a
  proof -
    have old: "in_flight_ok co a" using q by (simp add: queue_ok_def)
    show ?thesis
    proof (cases "a = ?b \<and> js_get (co_inFlight co) ?b = Some i")
      case True
      have "gc_settled (co_calls ?co ! k)" if k: "k < length (co_calls co)" "agent_of_call co k = a" for k
      proof -
        have "k \<le> i" using old k True by (simp add: in_flight_ok_def)
        then show ?thesis using kept(1) [OF k(1)] before [of k] k True by (cases "k = i") simp_all
      qed
      with True kept(2) len show ?thesis by (simp add: in_flight_ok_def flight js_get_delete)
    next
      case False
      then have "js_get (co_inFlight ?co) a = js_get (co_inFlight co) a" by (auto simp: flight js_get_delete)
      with old kept len show ?thesis by (auto simp: in_flight_ok_def split: option.splits)
    qed
  qed
  ultimately show ?thesis using queue_okD(2,3) [OF q] kept done_ len by (auto simp: queue_ok_def)
qed (use q in \<open>simp add: marker_settles_def\<close>)

lemma marker_settles_ok:
  assumes ok: "coordinator_ok co"
  shows "coordinator_ok (marker_settles i co) \<and> stays co (marker_settles i co)"
proof (cases "i < length (co_calls co) \<and> is_decided (co_calls co ! i)")
  case True
  let ?co = "marker_settles i co"
  have frame: "co_jobs ?co = co_jobs co" "co_background ?co = co_background co" by (simp_all add: marker_settles_def Let_def)
  have current: "is_current ?co j = is_current co j" for j by (simp add: is_current_def frame)
  have same: "joined_ok ?co c = joined_ok co c" for c by (simp add: joined_ok_def frame current split: call_phase.split)
  have "joined_ok co c" if "c \<in> set (co_calls ?co)" for c
  proof -
    have "joined_ok co ((co_calls co ! i)\<lparr>gc_settled := b\<rparr>)" for b
      using True by (auto simp: joined_ok_def is_decided_def split: call_phase.splits)
    moreover have "c \<in> set (co_calls co) \<or> c = (co_calls co ! i)\<lparr>gc_settled := True\<rparr>"
      using that set_update_subset_insert [of "co_calls co" i] by (auto simp: marker_settles_def Let_def split: if_splits)
    ultimately show ?thesis using ok by (auto simp: coordinator_ok_def)
  qed
  moreover have "jobs_ok ?co" using ok by (simp add: coordinator_ok_def jobs_ok_def frame)
  ultimately have "coordinator_ok ?co"
    using marker_settles_queue [OF coordinator_okD(2) [OF ok]] True by (simp add: coordinator_ok_def same)
  then show ?thesis by (simp add: stays_def frame current)
next
  case False
  then have "marker_settles i co = co" by (auto simp: marker_settles_def)
  with ok show ?thesis by simp
qed

section \<open>Every step\<close>

definition caller :: "coordinator_op \<Rightarrow> nat" where
  "caller what = (case what of Begins i _ \<Rightarrow> i | JoinEnds i _ _ \<Rightarrow> i | CompactEnds i _ _ _ \<Rightarrow> i | CallUsage i _ \<Rightarrow> i | _ \<Rightarrow> 0)"

lemma change_applies: "coordinator_ok co \<Longrightarrow> job_change co r \<Longrightarrow> applies_once co i r"
  using evolves_coordinator_ok [of co "fst r"] evolves_stays [of "{}" co "fst r"] by (simp add: job_change_def applies_once_def)

lemma step_applies:
  assumes ok: "coordinator_ok co"
  shows "applies_once co (caller what) (coordinator_step co what)"
proof -
  have same: "applies_once co i (co, [])" for i using ok by (simp add: applies_once_def)
  have jobs: "jobs_ok co" by (rule coordinator_okD(1) [OF ok])
  show ?thesis
  proof (cases what)
    case (Begins i ans)
    show ?thesis
    proof (cases "may_begin co i")
      case True
      have run: "running_ok i co" by (rule running_when [OF ok]) (simp add: True)
      from begins_applies [OF run, of ans] done_applies [OF goes_on_done [OF run], of i "[]" "ga_run ans" "gc_input (co_calls co ! i)"] True Begins
      show ?thesis by (simp add: coordinator_step_def caller_def)
    qed (use same Begins in \<open>simp add: coordinator_step_def\<close>)
  next
    case (JoinEnds i stopped ans)
    with join_applies [OF ok, of i stopped ans] same show ?thesis by (simp add: coordinator_step_def caller_def)
  next
    case (CompactEnds i stopped result now)
    show ?thesis
    proof (cases "i < length (co_calls co) \<and> (\<exists>outs fc. gc_phase (co_calls co ! i) = Compacting outs fc)")
      case True
      then obtain outs fc where ph: "gc_phase (co_calls co ! i) = Compacting outs fc" by blast
      have run: "running_ok i co" by (rule running_when [OF ok]) (use True ph in \<open>simp add: is_decided_def\<close>)
      obtain out co' where r: "run_ends (gc_input (co_calls co ! i)) fc stopped result now co = (out, co')"
        by (cases "run_ends (gc_input (co_calls co ! i)) fc stopped result now co")
      with run_ends_running [OF run, of "gc_input (co_calls co ! i)" fc stopped result now] have "running_ok i co'" "stays co co'" by simp_all
      with True ph r CompactEnds show ?thesis
        by (simp add: coordinator_step_def applies_once_def decided_done)
    next
      case False
      then have "coordinator_step co what = (co, [])"
        using CompactEnds by (auto simp: coordinator_step_def split: call_phase.split)
      with same show ?thesis by simp
    qed
  next
    case (CallUsage i u)
    show ?thesis
    proof (cases "i < length (co_calls co) \<and> (\<exists>outs fc. gc_phase (co_calls co ! i) = Compacting outs fc)")
      case True
      then obtain outs fc where ph: "gc_phase (co_calls co ! i) = Compacting outs fc" by blast
      have run: "running_ok i co" by (rule running_when [OF ok]) (use True ph in \<open>simp add: is_decided_def\<close>)
      have "coordinator_ok (set_phase i (Compacting outs fc') co)" for fc' by (rule phase_ends [OF run]) (simp add: joined_ok_def)
      with True ph CallUsage show ?thesis by (simp add: coordinator_step_def applies_once_def Let_def)
    next
      case False
      then have "coordinator_step co what = (co, [])"
        using CallUsage by (auto simp: coordinator_step_def split: call_phase.split)
      with same show ?thesis by simp
    qed
  qed (use same new_call_ok [OF ok] marker_settles_ok [OF ok] change_applies [OF ok] start_change [OF jobs] timer_change [OF jobs] settle_change [OF jobs]
        cancel_change [OF jobs] dispose_change [OF jobs] usage_change [OF jobs] in
        \<open>auto simp: coordinator_step_def applies_once_def [of _ _ "(new_call _ _ _, [])"] applies_once_def [of _ _ "(marker_settles _ _, [])"] Let_def\<close>)
qed

section \<open>Properties\<close>

text \<open>What is left of a job: a job in the background, or one still to come, can be applied once.\<close>

definition applications_left :: "nat \<Rightarrow> coordinator \<Rightarrow> nat" where
  "applications_left j co = (if j < length (co_jobs co) \<and> \<not> is_current co j then 0 else 1)"

definition times_applied :: "nat \<Rightarrow> compaction_effect list \<Rightarrow> nat" where
  "times_applied j es = length (filter (\<lambda>(i, k). k = j) (commits es))"

interpretation gate: metered_system coordinator_step coordinator_ok "applications_left j" "times_applied j" for j
proof
  fix co what
  assume ok: "coordinator_ok co"
  note once = step_applies [OF ok, of what]
  then show "coordinator_ok (fst (coordinator_step co what))" by (simp add: applies_once_def)
  let ?co = "fst (coordinator_step co what)" and ?es = "snd (coordinator_step co what)"
  have stay: "stays co ?co" using once by (simp add: applies_once_def)
  from once have "commits ?es = [] \<or> (\<exists>k. commits ?es = [(caller what, k)] \<and> applies_to co (caller what) k \<and> \<not> is_current ?co k)"
    by (simp add: applies_once_def)
  then show "times_applied j ?es + applications_left j ?co \<le> applications_left j co"
  proof
    assume "commits ?es = []"
    with stay show ?thesis by (auto simp: times_applied_def applications_left_def stays_def)
  next
    assume "\<exists>k. commits ?es = [(caller what, k)] \<and> applies_to co (caller what) k \<and> \<not> is_current ?co k"
    then obtain k where k: "commits ?es = [(caller what, k)]" "applies_to co (caller what) k" "\<not> is_current ?co k" by blast
    then have "k < length (co_jobs ?co)" using stay by (simp add: applies_to_def stays_def)
    with k stay show ?thesis by (cases "k = j") (auto simp: times_applied_def applications_left_def applies_to_def stays_def)
  qed
qed (simp_all add: times_applied_def)

text \<open>
  C34: Whatever calls, answers, timers, cancellations and results arrive in whatever order, a background summary is applied at
  most once; and when a step applies one it is the agent's current one, prepared to the end within its time and never
  cancelled, for the same backend and route as the call that applies it, and no longer in the background afterwards.
\<close>

theorem summaries_are_applied_once_and_where_they_belong:
  shows "length (filter (\<lambda>(i, k). k = j) (commits (snd (run_trace coordinator_step new_coordinator ops)))) \<le> 1
    \<and> (commits (snd (coordinator_step (fst (run_trace coordinator_step new_coordinator ops)) what)) = []
       \<or> (\<exists>k. commits (snd (coordinator_step (fst (run_trace coordinator_step new_coordinator ops)) what)) = [(caller what, k)]
            \<and> applies_to (fst (run_trace coordinator_step new_coordinator ops)) (caller what) k
            \<and> \<not> is_current (fst (coordinator_step (fst (run_trace coordinator_step new_coordinator ops)) what)) k))"
proof -
  let ?co = "fst (run_trace coordinator_step new_coordinator ops)"
  have "coordinator_ok ?co" using gate.trace_paid [OF new_coordinator_ok] by blast
  note once = step_applies [OF this, of what]
  have "times_applied j (snd (run_trace coordinator_step new_coordinator ops)) \<le> applications_left j new_coordinator"
    by (rule gate.trace_cost [OF new_coordinator_ok])
  then show ?thesis using once by (simp add: times_applied_def applications_left_def applies_once_def new_coordinator_def)
qed

lemma fitting_decides:
  "i < length (co_calls co) \<Longrightarrow> request_fits p \<Longrightarrow>
     is_decided (co_calls (fst (gate_decides i ans inp policy outs (Projected p) job disc co)) ! i)
     \<and> (\<forall>k fc. CompactCalled k fc \<notin> set (snd (gate_decides i ans inp policy outs (Projected p) job disc co)))"
  by (auto simp: gate_decides_def captureJob_def Let_def set_phase_def is_decided_def split: option.split capture_answer.split)

lemma no_compaction_event [simp]: "CompactCalled k fc \<noteq> background_event_of job what outcome reason now"
  by (simp add: background_event_of_def)

text \<open>
  C35: A turn that fits is sent at once, and the calls of an agent take turns. Take an automatic turn on a backend that can
  capture a summary, whose own turn has come, and let its request fit its budget, as it is and as it is after a
  summary was applied. Then the decision is there in the step its gate begins and no foreground compaction was started,
  whatever is being prepared or was just applied. (A manual compaction, and a turn on a backend that captures none,
  may compact in the foreground although it fits.) And whatever happened, a call that has begun has every earlier one of its
  agent decided, although each only waits for the one promise it found in flight.
\<close>

theorem a_turn_that_fits_never_waits:
  assumes begins: "may_begin (fst (run_trace coordinator_step new_coordinator ops)) i"
    and gated: "gc_gated (co_calls (fst (run_trace coordinator_step new_coordinator ops)) ! i)"
    and fits: "ra_before ans = Projected p" "request_fits p" "ga_after ans = Projected q" "request_fits q"
  shows "is_decided (co_calls (fst (coordinator_step (fst (run_trace coordinator_step new_coordinator ops)) (Begins i ans))) ! i)
    \<and> (\<forall>k fc. CompactCalled k fc \<notin> set (snd (coordinator_step (fst (run_trace coordinator_step new_coordinator ops)) (Begins i ans))))
    \<and> in_turns (fst (coordinator_step (fst (run_trace coordinator_step new_coordinator ops)) (Begins i ans)))"
proof -
  define co where "co = fst (run_trace coordinator_step new_coordinator ops)"
  have ok: "coordinator_ok co" unfolding co_def using gate.trace_paid [OF new_coordinator_ok] by blast
  have run: "running_ok i co" by (rule running_when [OF ok]) (simp add: begins [folded co_def])
  have i: "i < length (co_calls co)" using run by (simp add: running_ok_def on_turn_def)
  define inp where "inp = gc_input (co_calls co ! i)"
  let ?fine = "\<lambda>r. is_decided (co_calls (fst r) ! i) \<and> (\<forall>k fc. CompactCalled k fc \<notin> set (snd r))"
  have "?fine (gate_begins i ans co)"
  proof (cases "ra_admitted ans")
    case admitted: True
    show ?thesis
    proof (cases "ra_resolve ans (window_of (ra_before ans)) (gi_route inp)")
      case (PolicyResolved policy)
      obtain job co1 es1 where d: "drop_foreign inp policy (ga_now ans) co = (job, co1, es1)" by (cases "drop_foreign inp policy (ga_now ans) co")
      have calls: "co_calls co1 = co_calls co" using drop_foreign_parts [OF run inp_def d] by simp
      have quiet: "\<forall>k fc. CompactCalled k fc \<notin> set es1"
        using d by (auto simp: drop_foreign_def cancelBackground_def Let_def split: option.splits if_splits)
      have decided: "?fine (gate_decides i ans inp policy outs (Projected r) jb disc co')"
        if "co_calls co' = co_calls co" "request_fits r" for outs r jb disc co'
        by (rule fitting_decides) (use that i in simp_all)
      have committed: "co_calls co2 = co_calls co \<and> (\<forall>k fc. CompactCalled k fc \<notin> set es2)"
        if "commitJob i j (ra_before ans) (ga_commit ans) (ga_now ans) co1 = (out, co2, es2)" for j out co2 es2
        using that calls by (auto simp: commitJob_def Let_def split: compaction_result.splits)
      show ?thesis
      proof (cases job)
        case None
        with decided [OF calls fits(2)] quiet show ?thesis unfolding gate_begins_def Let_def inp_def [symmetric]
          by (simp add: admitted PolicyResolved [unfolded fits(1)] d fits(1))
      next
        case (Some j)
        obtain out co2 es2 where c: "commitJob i j (ra_before ans) (ga_commit ans) (ga_now ans) co1 = (out, co2, es2)"
          by (cases "commitJob i j (ra_before ans) (ga_commit ans) (ga_now ans) co1")
        note left = committed [OF c]
        have "?fine (gate_decides i ans inp policy [] (Projected p) (Some j) False co1)"
          "\<And>outs. ?fine (gate_decides i ans inp policy outs (Projected q) None False co2)"
          "?fine (gate_decides i ans inp policy [] (Projected p) None True co2)"
          using decided fits(2,4) calls left by blast+
        with quiet left c show ?thesis unfolding gate_begins_def Let_def inp_def [symmetric]
          by (cases out) (simp_all add: admitted PolicyResolved [unfolded fits(1)] d fits(1,3) Some)
      qed
    qed (use i in \<open>simp add: gate_begins_def Let_def admitted inp_def set_phase_call is_decided_def\<close>)
  qed (use i in \<open>simp add: gate_begins_def Let_def set_phase_call is_decided_def\<close>)
  moreover have "coordinator_step co (Begins i ans) = gate_begins i ans co"
    using begins gated by (simp add: coordinator_step_def co_def)
  moreover have "in_turns (fst (coordinator_step co (Begins i ans)))"
    using step_applies [OF ok, of "Begins i ans"] queue_in_turns by (simp add: applies_once_def coordinator_ok_def)
  ultimately show ?thesis unfolding co_def [symmetric] by simp
qed

section \<open>A gate that prepares beside the turn\<close>

definition sample_gate_input :: gate_input where
  "sample_gate_input = \<lparr>gi_agentId = ''a'', gi_control = 1, gi_canCapture = True, gi_route = Some (''c'', ''Model ''),
     gi_requestId = ''r'', gi_automatic = True\<rparr>"

definition sample_policy :: resolved_policy where
  "sample_policy = \<lparr>sp_mode = SmartMode, sp_profile = None, sp_resolutionSource = None, sp_revision = ''v1'', sp_windowPercent = 50,
     sp_ceilingTokens = 100, sp_recentTailTokens = 20, sp_postCompactTargetTokens = 40, sp_routeEvidenceCapTokens = None,
     sp_activeTriggerTokens = Some 100, sp_winningTerm = Some PracticalCeiling\<rparr>"

definition sample_projection :: "int \<Rightarrow> projected_request" where
  "sample_projection n = \<lparr>pj_tokens = n, pj_basis = HostEstimated, pj_window = Some 400, pj_windowSource = None,
     pj_admissibleTokens = Some 300, pj_readProjectionMoves = False\<rparr>"

definition sample_run_answers :: run_answers where
  "sample_run_answers = \<lparr>ra_admitted = True, ra_before = Projected (sample_projection 120),
     ra_resolve = (\<lambda>_ _. PolicyResolved sample_policy), ra_operationId = ''op''\<rparr>"

definition sample_answers :: gate_answers where
  "sample_answers = \<lparr>ra_admitted = True, ra_before = Projected (sample_projection 120),
     ra_resolve = (\<lambda>_ _. PolicyResolved sample_policy), ra_operationId = ''op'',
     ga_commit = Compacted \<lparr>cx_hostHistory = True, cx_droppedMessages = Some 4, cx_carriedForward = None, cx_keptTokens = Some 30,
       cx_summary = Some ''s'', cx_after = Projected (sample_projection 60)\<rparr>,
     ga_after = Projected (sample_projection 60), ga_capture = Captured 80, ga_run = sample_run_answers, ga_now = 5\<rparr>"

text \<open>The first turn is sent at once with a summary beside it; the second applies that summary.\<close>

definition sample_history :: "coordinator_op list" where
  "sample_history = [GateCalled sample_gate_input, GateCalled sample_gate_input, Begins 0 sample_answers, MarkerSettles 0,
     StartJob 0 6, PrepareEnds 0 None 9]"

lemma sample_turns:
  "commits (snd (run_trace coordinator_step new_coordinator (sample_history @ [Begins 1 sample_answers, Begins 1 sample_answers]))) = [(1, 0)]"
  by code_simp

lemma a_turn_that_fits_never_waits_witness:
  "is_decided (co_calls (fst (coordinator_step (fst (run_trace coordinator_step new_coordinator sample_history)) (Begins 1 sample_answers))) ! 1)"
proof -
  have "may_begin (fst (run_trace coordinator_step new_coordinator sample_history)) 1"
    "gc_gated (co_calls (fst (run_trace coordinator_step new_coordinator sample_history)) ! 1)"
    by code_simp+
  from a_turn_that_fits_never_waits [OF this, of sample_answers "sample_projection 120" "sample_projection 60"] show ?thesis
    by (simp add: sample_answers_def sample_projection_def request_fits_def)
qed

end
