(* ===== verification/Spec2Isabelle.thy ===== *)
theory Spec2Isabelle
  imports RequestCeilingLaws PriceResolver SpendAggregate TarReaderLaws SharedPromptWaits
    StreamReconstructor TaskClaims FileCoordination WorkflowRunLaws CommandPolicyLaws MessageBusLaws WorkspacePathLaws
    ShellGateLaws FolderAccessLaws ResultMailboxLaws HistoryPlannerLaws ReadProjectionLaws
    CompactionGateLaws
begin

text \<open>
  UnodeAi is a VS Code extension in which a team of agents works on a repository through model providers. This
  library models the parts of its TypeScript code (\<open>src/src\<close>) that decide something: what is spent and
  may be spent, what an update package may write, how long a turn took and who was waiting, how a streamed answer
  is read, how agents that work in parallel stay out of each other's files, which commands and paths they may use,
  how they exchange messages and how a team's workflow runs. The definitions keep the names of
  the functions they translate; every one is executable, and the witnesses evaluate them.

  \<^bold>\<open>Conventions.\<close> \<open>Prelude\<close> holds what all parts share: untyped JavaScript values
  and numbers (a finite double is the rational it is), insertion-ordered \<open>Map\<close> and \<open>Set\<close> objects
  as association lists and lists, strings as lists of code units below 256, decimal text, results that may be an
  error, and the contract of a reader that is fed a stream in chunks (\<open>chunked_reader\<close>). An object with
  mutable fields is a record, a method a function from the old record to the new one, a callback or a message an
  effect in its result. Everything outside \<open>src/\<close> or outside the code's control is an argument of the
  definitions: clocks, digests, \<open>JSON.parse\<close>, \<open>Date.parse\<close>, \<open>Intl\<close>, the
  inflater, the file system.

  \<^bold>\<open>Spending\<close> (\<open>models/spend\<close>).
  \<^item> \<open>Money\<close> (\<open>Money.ts\<close>): nano-dollar arithmetic. Texts and amounts are inverse
    where the code relies on it, and rounding only ever goes down, by stated bounds.
  \<^item> \<open>SpendTypes\<close> (\<open>SpendTypes.ts\<close>): receipts, progress, adjustments and the control
    file, their validators over untyped values, and the canonical text digests are taken of.
  \<^item> \<open>SpendTargets\<close> (\<open>SpendTargets.ts\<close>): what the user, and a proposal in the repository, set
    as targets. Every amount in force is the lower of the user's own and an accepted proposal's, and
    none is there the user did not set; settings survive being written; the cache of period
    ids never shows. An accepted proposal has no duplicate, negative, exponent or comment.
  \<^item> \<open>PriceCatalog\<close>, \<open>PriceResolver\<close> (\<open>PriceCatalog.ts\<close>,
    \<open>PriceResolver.ts\<close>): price lists as rationals, their validation and lookup, and which source
    prices a route. Dollars that count against a target come only from authoritative sources.
  \<^item> \<open>SpendAggregate\<close> (\<open>SpendAggregate.ts\<close>): events to contributions, phase by phase as
    the one long function of the code has them (first copies, units, adjustments, progress, settlement). Reading
    events again changes nothing; rows add up to their receipt; no amount is counted twice; a reset retires all
    that was counted.
  \<^item> \<open>RequestCeiling\<close>, \<open>RequestCeilingLaws\<close> (\<open>RequestCeiling.ts\<close>): the gate every
    provider turn passes. Each public method, each answer, timer and abort is a step of a gate; an inductive
    relation gives the reachable gates, and the laws are invariants by induction over it: each boundary is
    answered once, turns stay within the limit, a continue always lets somebody cross, a stop is final.

  \<^bold>\<open>Package installation\<close> (\<open>host/cliDelivery/tarReader.ts\<close>). \<open>TarFormat\<close>
  has the path rule, CRC-32, gzip and tar headers; \<open>TarReader\<close> the streaming reader, one record per
  parser, file and extraction; \<open>TarReaderLaws\<close> shows that it consumes chunks as the contract of
  \<open>chunked_reader\<close> says, so that the inflater's cuts do not matter, that all it changes lies under the
  payload folder, and that success leaves exactly the listed files. Recursion is over the blocks of a chunk, so
  no fuel is needed; sizes are bounded by the limits of the code, which are definitions here.

  \<^bold>\<open>Time of a turn\<close> (\<open>session\<close>). \<open>HumanWaitClock\<close> is the interface between
  the clock of a turn and the prompts that pause it, as a locale. \<open>TurnTiming\<close>
  (\<open>TurnTiming.ts\<close>) interprets it: the phases recorded add up to the turn's duration, and pauses
  count once. \<open>SharedPromptWaits\<close> (\<open>SharedPromptWaits.ts\<close>) is its client: one prompt that several
  sessions await pauses exactly those that still wait.

  \<^bold>\<open>Streamed answers\<close> (\<open>backend/sseParser.ts\<close>, \<open>backend/ToolInputProgress.ts\<close>).
  \<open>SseStream\<close> is the event-stream parser, a generator as a state with a buffer, compared with a reference
  that reads the lines of the whole text; it differs from it when a chunk ends inside a carriage return and line
  feed, which two closed lemmas show. \<open>StreamReconstructor\<close> puts deltas and tool calls together: a reference
  over all pieces seen says which slot each belongs to.

  \<^bold>\<open>Parallel work\<close> (\<open>backend\<close>). \<open>TaskClaims\<close> (\<open>TaskClaimRegistry.ts\<close>):
  claims of path patterns, with one owner for every path a plain path or a directory pattern covers; what
  is covered is said over the names of paths, apart from the comparison the code makes. \<open>FileCoordination\<close>
  (\<open>FileCoordinator.ts\<close>): the interface of a coordinator as a locale whose laws say what was seen and
  who must be told; the compare-and-swap coordinator interprets it and so follows the history of calls.

  \<^bold>\<open>Team workflows\<close> (\<open>workflow\<close>). \<open>WorkflowRules\<close> has the gates, the artifact and
  tier rules and the ready set; \<open>WorkflowRuns\<close> the state of a run and the engine's operations on it, each
  with the effects it asks for; \<open>WorkflowRunLaws\<close> shows that a run leaves a gated step only through the return
  of its check, passed or excused, that a check nobody could observe and nothing excuses pauses the run, that saved
  workflows stay well formed, and that a run whose steps have different ids hands out boundedly many tasks whatever arrives: with the locale \<open>metered_system\<close> of \<open>Prelude\<close>, at most
  \<open>(transitionBudget + 1)\<close> times its steps plus the retries of its gates.

  \<^bold>\<open>Commands\<close> (\<open>backend\<close>). What a shell line would run, and whether somebody is asked
  first. \<open>JsRegex\<close> is a matcher for the regular expressions of the source, compared with the language they
  denote; \<open>CommandShell\<close> the shells and dialects; \<open>CommandPolicy\<close> the scanner and the verdicts,
  with \<open>CommandScanLaws\<close> and \<open>CommandPolicyLaws\<close> for what the scanner accounts for and which lines
  are never simply allowed. \<open>AgentCommandPolicy\<close> is the ceiling of one agent, which only narrows.
  \<open>ShellCommandGate\<close> joins them with the physical checks on deletes; \<open>ShellGateLaws\<close> shows that a
  line runs only with a verdict or a person behind it and that a recursive or forced delete the guard recognises
  and nobody was asked about spares the protected folders, in the one file system the guard looked at. SHA-256 is a parameter; the clock, the slots of the worker and slow queries are arguments. The host is
  POSIX: the gate's branches for Windows are not taken.

  \<^bold>\<open>Paths and files\<close>. \<open>NodePath\<close> is \<open>node:path\<close> for POSIX and
  \<open>pathContainment.ts\<close>: containment is a prefix of segments. \<open>FileSystem\<close> is a snapshot of a
  file system with symbolic links; a walk follows at most \<open>MAX_LINKS\<close> of them, as the host does, and is an
  inductive relation beside the function. \<open>WorkspacePath\<close>, \<open>WorkspacePathLaws\<close>
  (\<open>workspacePath.ts\<close>): a path that resolves lies strictly below the real folder with no link on the
  way, spellings of one file have one identity, and a read, whose calls each look at a snapshot of their own, is bounded
  and of a file that stayed in place.

  \<open>FolderAccess\<close>, \<open>FolderAccessLaws\<close> (\<open>folderAccess.ts\<close>, \<open>readRoots.ts\<close>): what an
  agent is granted comes to roots and exact files that cover exactly what the admitted grants say, and the scope of a
  task is intersected with it exactly.

  \<^bold>\<open>Messages between agents\<close> (\<open>bus/MessageBus.ts\<close>). \<open>MessageBus\<close> is the bus
  with its queues and the handlers that run, a stack, since a handler may send while it runs;
  \<open>MessageBusLaws\<close> shows that a message reaches every subscription it matches exactly once whatever the handlers
  do, and that the exported history is the stored messages whole, without attachments and briefs, and comes back so.

  \<^bold>\<open>Results of delegated tasks\<close>. \<open>ResultProjection\<close> (\<open>backend/DelegationResultProjection.ts\<close>)
  reads stored results, merges the copies two places have and says what each comes to: contradicting copies never become
  an answer, and closing out waits for exactly what is owed. \<open>ResultMailbox\<close>, \<open>ResultMailboxLaws\<close>
  (\<open>state/DelegationResultMailbox.ts\<close>): the mailbox with its rows, claims and archives under way; one invariant
  over every call gives its limits, that a result is handed over once (by the locale \<open>metered_system\<close>) and that
  no body goes before its archive has it.

  \<^bold>\<open>History compaction\<close> (\<open>compaction/HistoryCompactionPlanner.ts\<close>). \<open>HistoryPlanner\<close> plans what of a
  conversation stays word for word, what is summarized and what is carried forward; \<open>HistoryPlannerLaws\<close> shows that
  nothing is dropped, that no result of the kinds listed there (effects, refusals, delegations, evidence, integrations,
  calls cut off) is left to the summary, and that carried records stand through any
  number of compactions. \<open>ReadProjection\<close> (\<open>compaction/ReadReferenceProjection.ts\<close>) is the view in which old
  reads are references; \<open>ReadProjectionLaws\<close> shows that only their text changes, that the view of what was sent
  stands, and that its cutoff moves forward for a saving that is real. \<open>CompactionGate\<close>
  (\<open>compaction/ContextCompactionCoordinator.ts\<close>, \<open>CompactionUsage.ts\<close>) is the gate before a turn: each
  \<open>await\<close> ends a step, calls and background summaries are numbered, and a call waits for the one promise it finds
  in flight. \<open>CompactionGateLaws\<close> has one invariant over every step: the calls of an agent take turns, a summary
  is applied once and where it belongs (by \<open>metered_system\<close>), and an automatic turn that fits, on a backend that can
  capture, never waits for a compaction.

  \<^bold>\<open>Not modelled.\<close> Byte decoding and code units from 256 on; floating point beyond exact comparison and
  rounding; file handles and the storage of spend shards; the branches for Windows of the command gate and the notice that names a disabled command.
  Of the rest of the program: views, dialogs and the extension entry (user interface), provider and process protocols
  (network), stores over the extension host, prompt texts, skills and documents; task contracts, the file write
  policy and response budgets are the next candidates.
\<close>

end
